(* ===== verification/Js_Prelude.thy ===== *)
theory Js_Prelude
  imports Main "HOL-Library.Char_ord" "HOL-Library.List_Lexorder" "HOL-Library.Sublist"
begin

section \<open>Shared vocabulary of the development\<close>

text \<open>
  What several components of the explorer share: decimal rendering and parsing of naturals,
  \<open>String.prototype.padStart\<close>, JavaScript's insertion-ordered \<open>Map\<close> as an association list,
  bounded arrays (\<open>push\<close>, then \<open>shift\<close> when the array is longer than its bound), prefix tests
  and \<open>split\<close>/\<open>join\<close>. JavaScript strings are lists of characters; the strings the modelled code
  builds and compares are ASCII, where a character is one UTF-16 code unit and the order of
  \<open>HOL-Library.List_Lexorder\<close> over \<open>HOL-Library.Char_ord\<close> is the order of \<open><\<close> on strings.
\<close>

named_theorems js_simps \<open>unfolding rules of the small JavaScript helpers\<close>

subsection \<open>Results\<close>

lemma map_sum_Inr_conv: "map_sum f g x = Inr y \<longleftrightarrow> (\<exists>z. x = Inr z \<and> y = g z)"
  by (cases x) auto

lemma map_sum_Inl_conv: "map_sum f g x = Inl y \<longleftrightarrow> (\<exists>z. x = Inl z \<and> y = f z)"
  by (cases x) auto

subsection \<open>Decimal digits\<close>

definition digit_char :: "nat \<Rightarrow> char" where
  "digit_char d = char_of (48 + d)"

definition digit_val :: "char \<Rightarrow> nat" where
  "digit_val c = of_char c - 48"

lemma digit_char_table [simp]:
  "digit_char 0 = CHR ''0''" "digit_char (Suc 0) = CHR ''1''" "digit_char 1 = CHR ''1''"
  "digit_char 2 = CHR ''2''" "digit_char 3 = CHR ''3''" "digit_char 4 = CHR ''4''"
  "digit_char 5 = CHR ''5''" "digit_char 6 = CHR ''6''" "digit_char 7 = CHR ''7''"
  "digit_char 8 = CHR ''8''" "digit_char 9 = CHR ''9''"
  by code_simp+

text \<open>The class \<open>\d\<close> of a JavaScript regular expression.\<close>

definition is_digit :: "char \<Rightarrow> bool" where
  "is_digit c = (48 \<le> (of_char c :: nat) \<and> (of_char c :: nat) \<le> 57)"

lemma digit_val_char [simp]: "d < 10 \<Longrightarrow> digit_val (digit_char d) = d"
  by (simp add: digit_val_def digit_char_def of_char_of)

lemma is_digit_char [simp]: "d < 10 \<Longrightarrow> is_digit (digit_char d)"
  by (simp add: is_digit_def digit_char_def of_char_of)

lemma digit_val_less: "is_digit c \<Longrightarrow> digit_val c < 10"
  unfolding is_digit_def digit_val_def by linarith

lemma digit_char_val: "is_digit c \<Longrightarrow> digit_char (digit_val c) = c"
  by (simp add: is_digit_def digit_val_def digit_char_def)

lemma less_digit_iff: "is_digit c \<Longrightarrow> is_digit d \<Longrightarrow> c < d \<longleftrightarrow> digit_val c < digit_val d"
  by (auto simp: is_digit_def digit_val_def less_char_def)

lemma eq_digit_iff: "is_digit c \<Longrightarrow> is_digit d \<Longrightarrow> c = d \<longleftrightarrow> digit_val c = digit_val d"
  by (metis digit_char_val)

text \<open>\<open>Number.prototype.toString\<close> and \<open>BigInt.prototype.toString\<close> on a natural number.\<close>

fun dec :: "nat \<Rightarrow> string" where
  "dec n = (if n < 10 then [digit_char n] else dec (n div 10) @ [digit_char (n mod 10)])"

declare dec.simps [simp del]

lemma dec_digit: "n < 10 \<Longrightarrow> dec n = [digit_char n]"
  by (subst dec.simps) simp

lemma dec_step: "10 \<le> n \<Longrightarrow> dec n = dec (n div 10) @ [digit_char (n mod 10)]"
  by (subst dec.simps) simp

text \<open>Conditional equations, safe for evaluating \<open>dec\<close> by simplification.\<close>

lemmas dec_eval = dec_digit dec_step

text \<open>The value of a string of digits, as \<open>BigInt(s)\<close> and \<open>Number(s)\<close> read it.\<close>

fun undec_acc :: "nat \<Rightarrow> string \<Rightarrow> nat" where
  "undec_acc a [] = a"
| "undec_acc a (c # cs) = undec_acc (10 * a + digit_val c) cs"

definition undec :: "string \<Rightarrow> nat" where
  "undec s = undec_acc 0 s"

definition all_digits :: "string \<Rightarrow> bool" where
  "all_digits s = list_all is_digit s"

lemma undec_acc_eq: "undec_acc a s = a * 10 ^ length s + undec_acc 0 s"
proof (induction s arbitrary: a)
  case Nil
  then show ?case by simp
next
  case (Cons c cs)
  show ?case
    using Cons.IH [of "10 * a + digit_val c"] Cons.IH [of "digit_val c"]
    by (simp add: algebra_simps)
qed

lemma undec_Nil [simp]: "undec [] = 0"
  by (simp add: undec_def)

lemma undec_Cons: "undec (c # s) = digit_val c * 10 ^ length s + undec s"
  unfolding undec_def using undec_acc_eq [of "digit_val c" s] by simp

lemma undec_append: "undec (s @ t) = undec s * 10 ^ length t + undec t"
  by (induction s) (auto simp: undec_Cons algebra_simps power_add)

lemma undec_single [simp]: "undec [c] = digit_val c"
  by (simp add: undec_Cons)

lemma all_digits_simps [simp]:
  "all_digits []"
  "all_digits (c # s) \<longleftrightarrow> is_digit c \<and> all_digits s"
  "all_digits (s @ t) \<longleftrightarrow> all_digits s \<and> all_digits t"
  by (auto simp: all_digits_def)

lemma undec_bound: "all_digits s \<Longrightarrow> undec s < 10 ^ length s"
proof (induction s)
  case Nil
  then show ?case by simp
next
  case (Cons c s)
  then have "digit_val c \<le> 9" and "undec s < 10 ^ length s"
    using digit_val_less [of c] by auto
  then have "digit_val c * 10 ^ length s + undec s < 9 * 10 ^ length s + 10 ^ length s"
    by (meson add_le_less_mono mult_le_mono1)
  then show ?case by (simp add: undec_Cons)
qed

lemma undec_dec [simp]: "undec (dec n) = n"
proof (induction n rule: dec.induct)
  case (1 n)
  then show ?case
    by (subst dec.simps) (auto simp: undec_append)
qed

lemma all_digits_dec [simp]: "all_digits (dec n)"
proof (induction n rule: dec.induct)
  case (1 n)
  then show ?case by (subst dec.simps) auto
qed

lemma dec_nonempty [simp]: "dec n \<noteq> []"
  by (subst dec.simps) simp

lemma length_dec: "n < 10 ^ k \<Longrightarrow> 0 < k \<Longrightarrow> length (dec n) \<le> k"
proof (induction n arbitrary: k rule: dec.induct)
  case (1 n)
  show ?case
  proof (cases "n < 10")
    case True
    with "1.prems" show ?thesis by (subst dec.simps) simp
  next
    case False
    then obtain k' where k: "k = Suc k'" and "0 < k'"
      using "1.prems" by (cases k; cases "k - 1") auto
    with "1.prems" have "n div 10 < 10 ^ k'"
      by (simp add: div_less_iff_less_mult mult.commute)
    with False \<open>0 < k'\<close> "1.IH" have "length (dec (n div 10)) \<le> k'" by blast
    with False k show ?thesis by (subst dec.simps) simp
  qed
qed

lemma length_dec_gt:
  assumes "10 ^ k \<le> n"
  shows "k < length (dec n)"
proof -
  have "n < 10 ^ length (dec n)"
    using undec_bound [of "dec n"] by simp
  with assms have "(10::nat) ^ k < 10 ^ length (dec n)" by linarith
  then show ?thesis by simp
qed

text \<open>\<open>s.padStart(k, c)\<close>.\<close>

definition pad_start :: "nat \<Rightarrow> char \<Rightarrow> string \<Rightarrow> string" where
  "pad_start k c s = replicate (k - length s) c @ s"

lemma replicate_num: "replicate (numeral k) x = x # replicate (pred_numeral k) x"
  by (simp add: numeral_eq_Suc)

lemma length_pad_start: "length s \<le> k \<Longrightarrow> length (pad_start k c s) = k"
  by (simp add: pad_start_def)

lemma digit_zero [simp]: "digit_val CHR ''0'' = 0" "is_digit CHR ''0''"
  by (simp_all add: digit_val_def is_digit_def)

lemma all_digits_replicate [simp]: "all_digits (replicate n c) \<longleftrightarrow> n = 0 \<or> is_digit c"
  by (induction n) auto

lemma undec_replicate_zero [simp]: "undec (replicate n CHR ''0'' @ s) = undec s"
  by (induction n) (auto simp: undec_Cons)

lemma undec_pad_start [simp]: "undec (pad_start k CHR ''0'' s) = undec s"
  by (simp add: pad_start_def)

lemma all_digits_pad_start [simp]: "all_digits (pad_start k CHR ''0'' s) \<longleftrightarrow> all_digits s"
  by (simp add: pad_start_def)

text \<open>On digit strings of one length, string order is numeric order.\<close>

lemma digit_strings_less:
  assumes "length s = length t" and "all_digits s" and "all_digits t"
  shows "s < t \<longleftrightarrow> undec s < undec t"
  using assms
proof (induction s t rule: list_induct2)
  case Nil
  then show ?case by simp
next
  case (Cons c s d t)
  let ?p = "10 ^ length t :: nat"
  have len: "length s = length t" by fact
  have bs: "undec s < ?p" and bt: "undec t < ?p"
    using undec_bound Cons.prems len by (metis all_digits_simps(2))+
  have us: "undec (c # s) = digit_val c * ?p + undec s"
    and ut: "undec (d # t) = digit_val d * ?p + undec t"
    by (simp_all add: undec_Cons len)
  have dig: "is_digit c" "is_digit d" using Cons.prems by auto
  have step: "a < b \<Longrightarrow> a * ?p + x < b * ?p + y" if "x < ?p" for a b x y :: nat
  proof -
    assume "a < b"
    then have "Suc a * ?p \<le> b * ?p" by (intro mult_le_mono1) simp
    with that show "a * ?p + x < b * ?p + y" by simp
  qed
  consider "digit_val c < digit_val d" | "digit_val c = digit_val d" | "digit_val d < digit_val c"
    by linarith
  then show ?case
  proof cases
    case 1
    then have "c < d" using less_digit_iff dig by blast
    with 1 show ?thesis using step [OF bs] us ut by simp
  next
    case 2
    then have "c = d" using eq_digit_iff dig by blast
    with Cons.IH Cons.prems 2 show ?thesis using us ut by simp
  next
    case 3
    then have "d < c" using less_digit_iff dig by blast
    then have "\<not> c < d" and "c \<noteq> d" by auto
    with 3 show ?thesis using step [OF bt, of "digit_val d" "digit_val c" "undec s"] us ut by simp
  qed
qed

text \<open>String order of concatenations whose first parts have one length.\<close>

lemma less_append_same_length:
  fixes a b :: "'a::linorder list"
  assumes "length a = length b"
  shows "a @ c < b @ d \<longleftrightarrow> a < b \<or> (a = b \<and> c < d)"
  using assms by (induction a b rule: list_induct2) auto

subsection \<open>Lists\<close>

lemma length_filter_mono:
  "(\<And>x. x \<in> set xs \<Longrightarrow> P x \<Longrightarrow> Q x) \<Longrightarrow> length (filter P xs) \<le> length (filter Q xs)"
  by (induction xs) (auto simp: le_Suc_eq)

lemma length_filter_less_witness:
  assumes "\<And>x. x \<in> set xs \<Longrightarrow> P x \<Longrightarrow> Q x" "y \<in> set xs" "Q y" "\<not> P y"
  shows "length (filter P xs) < length (filter Q xs)"
  using assms
proof (induction xs)
  case Nil
  then show ?case by simp
next
  case (Cons x xs)
  have mono: "length (filter P xs) \<le> length (filter Q xs)"
    using Cons.prems(1) by (intro length_filter_mono) auto
  show ?case
  proof (cases "y = x")
    case True
    with Cons.prems mono show ?thesis by simp
  next
    case False
    with Cons show ?thesis by auto
  qed
qed

subsection \<open>Strings\<close>

text \<open>\<open>s.split(c)\<close> for a one-character separator, and \<open>parts.join(sep)\<close>.\<close>

fun split_on :: "char \<Rightarrow> string \<Rightarrow> string list" where
  "split_on c [] = [[]]"
| "split_on c (x # xs) =
     (if x = c then [] # split_on c xs
      else case split_on c xs of y # ys \<Rightarrow> (x # y) # ys | [] \<Rightarrow> [[x]])"

fun join :: "string \<Rightarrow> string list \<Rightarrow> string" where
  "join sep [] = []"
| "join sep [x] = x"
| "join sep (x # y # xs) = x @ sep @ join sep (y # xs)"

lemma split_on_nonempty [simp]: "split_on c s \<noteq> []"
  by (cases s) (auto split: list.splits)

lemma split_on_free [simp]: "c \<notin> set s \<Longrightarrow> split_on c s = [s]"
  by (induction s) auto

lemma split_on_append: "c \<notin> set s \<Longrightarrow> split_on c (s @ c # t) = s # split_on c t"
  by (induction s) (auto split: list.splits)

text \<open>White space of \<open>String.prototype.trim\<close> among the first 256 code points.\<close>

definition js_space :: "char \<Rightarrow> bool" where
  "js_space c = (of_char c \<in> {9, 10, 11, 12, 13, 32, 160 :: nat})"

definition trim :: "string \<Rightarrow> string" where
  "trim s = rev (dropWhile js_space (rev (dropWhile js_space s)))"

text \<open>\<open>toLowerCase\<close> and \<open>toUpperCase\<close> on ASCII text.\<close>

definition lower_char :: "char \<Rightarrow> char" where
  "lower_char c = (if 65 \<le> (of_char c :: nat) \<and> (of_char c :: nat) \<le> 90
                   then char_of ((of_char c :: nat) + 32) else c)"

definition upper_char :: "char \<Rightarrow> char" where
  "upper_char c = (if 97 \<le> (of_char c :: nat) \<and> (of_char c :: nat) \<le> 122
                   then char_of ((of_char c :: nat) - 32) else c)"

definition lower :: "string \<Rightarrow> string" where
  "lower s = map lower_char s"

definition upper :: "string \<Rightarrow> string" where
  "upper s = map upper_char s"

lemma js_space_digit: "is_digit c \<Longrightarrow> \<not> js_space c"
  by (auto simp: is_digit_def js_space_def)

lemma dropWhile_space_digits [simp]: "all_digits s \<Longrightarrow> dropWhile js_space s = s"
  by (cases s) (auto simp: js_space_digit)

lemma all_digits_rev [simp]: "all_digits (rev s) \<longleftrightarrow> all_digits s"
  by (simp add: all_digits_def list_all_iff)

lemma trim_digits: "all_digits s \<Longrightarrow> trim s = s"
  by (simp add: trim_def)

text \<open>
  \<open>parseInt(s, 10)\<close>: leading white space, an optional sign and the longest run of digits;
  \<open>None\<close> is NaN. The value is exact (JavaScript rounds it to a double from \<open>2\<^sup>5\<^sup>3\<close> on).
\<close>

definition parse_digits :: "string \<Rightarrow> int option" where
  "parse_digits s = (let d = takeWhile is_digit s in if d = [] then None else Some (int (undec d)))"

definition parse_int :: "string \<Rightarrow> int option" where
  "parse_int s =
     (case dropWhile js_space s of
        [] \<Rightarrow> None
      | c # t \<Rightarrow> if c = CHR ''-'' then map_option uminus (parse_digits t)
                else if c = CHR ''+'' then parse_digits t
                else parse_digits (c # t))"

lemma takeWhile_digits [simp]: "all_digits s \<Longrightarrow> takeWhile is_digit s = s"
  by (simp add: all_digits_def list_all_iff takeWhile_eq_all_conv)

lemma parse_int_dec [simp]: "parse_int (dec n) = Some (int n)"
proof -
  obtain c t where ct: "dec n = c # t" using dec_nonempty [of n] by (cases "dec n") auto
  then have "is_digit c" using all_digits_dec [of n] by simp
  then have "c \<noteq> CHR ''-''" "c \<noteq> CHR ''+''" by (auto simp: is_digit_def)
  moreover have "dropWhile js_space (dec n) = c # t"
    using dropWhile_space_digits [OF all_digits_dec, of n] ct by (rule trans)
  ultimately have "parse_int (dec n) = parse_digits (c # t)"
    by (simp only: parse_int_def list.case if_False)
  then have "parse_int (dec n) = parse_digits (dec n)" by (simp only: ct)
  then show ?thesis by (simp add: parse_digits_def)
qed


text \<open>\<open>[...new Set(xs)]\<close>: the first occurrence of each element, in order.\<close>

definition uniq :: "'a list \<Rightarrow> 'a list" where
  "uniq xs = rev (remdups (rev xs))"

lemma set_uniq [simp]: "set (uniq xs) = set xs"
  by (simp add: uniq_def)

lemma distinct_uniq [simp]: "distinct (uniq xs)"
  by (simp add: uniq_def)

lemma map_of_filter_key: "map_of (filter (\<lambda>(k, _). P k) m) k = (if P k then map_of m k else None)"
  by (induction m) auto

end
