(* ===== verification/Event_Ids.thy ===== *)
theory Event_Ids
  imports Js_Prelude
begin

unbundle bit_operations_syntax

section \<open>Canonical event ids (indexer/src/eventId.js)\<close>

text \<open>
  The ids of events: a 63-bit TOID (ledger, transaction order, operation index packed with
  shifts and ors on BigInts) and an event index, printed as two zero-padded decimal fields.
  A JavaScript argument is seen through \<open>Number.isInteger\<close>: \<open>Some i\<close> is the integer number
  \<open>i\<close>, \<open>None\<close> anything else (undefined, a fraction, a string, NaN). BigInts are \<open>int\<close>. Integers
  print in positional decimal, as \<open>String\<close> does below \<open>10\<^sup>2\<^sup>1\<close>.
  Shown: the round trip through print and parse, exactly when it holds, the error branches, and
  that string order of ids is chain order.
\<close>

datatype range_error = Ledger_range | Tx_order_range | Op_index_range | Event_index_range

definition in_range :: "int option \<Rightarrow> int \<Rightarrow> bool" where
  "in_range v hi = (case v of None \<Rightarrow> False | Some i \<Rightarrow> 0 \<le> i \<and> i \<le> hi)"

text \<open>\<open>toid\<close>: three guards, then \<open>ledger << 32 | txOrder << 12 | opIndex\<close>.\<close>

definition toid :: "int option \<Rightarrow> int option \<Rightarrow> int option \<Rightarrow> range_error + int" where
  "toid ledger txOrder opIndex =
     (if \<not> in_range ledger 0x7fffffff then Inl Ledger_range
      else if \<not> in_range txOrder 0xfffff then Inl Tx_order_range
      else if \<not> in_range opIndex 0xfff then Inl Op_index_range
      else Inr (push_bit 32 (the ledger) OR push_bit 12 (the txOrder) OR the opIndex))"

text \<open>\<open>BigInt.prototype.toString\<close>.\<close>

definition bigint_str :: "int \<Rightarrow> string" where
  "bigint_str i = (if i < 0 then CHR ''-'' # dec (nat (- i)) else dec (nat i))"

definition formatEventId :: "int \<Rightarrow> int option \<Rightarrow> range_error + string" where
  "formatEventId toidValue eventIndex =
     (case eventIndex of
        None \<Rightarrow> Inl Event_index_range
      | Some e \<Rightarrow>
          if e < 0 then Inl Event_index_range
          else Inr (pad_start 19 CHR ''0'' (bigint_str toidValue) @ ''-'' @
                    pad_start 10 CHR ''0'' (bigint_str e)))"

text \<open>\<open>EVENT_ID_RE\<close>: nineteen digits, a dash, ten digits, anchored at both ends.\<close>

definition event_id_re :: "string \<Rightarrow> bool" where
  "event_id_re s =
     (length s = 30 \<and> all_digits (take 19 s) \<and> s ! 19 = CHR ''-'' \<and> all_digits (drop 20 s))"

datatype event_pos = Event_pos (ledger: nat) (txOrder: nat) (opIndex: nat) (eventIndex: nat)

text \<open>
  \<open>parseEventId\<close>: the two fields around the dash (the test has fixed where it is), the TOID taken
  apart with shifts and masks.
\<close>

definition parseEventId :: "string \<Rightarrow> event_pos option" where
  "parseEventId s =
     (if \<not> event_id_re s then None
      else
        let value = int (undec (takeWhile (\<lambda>c. c \<noteq> CHR ''-'') s));
            idx = undec (drop 1 (dropWhile (\<lambda>c. c \<noteq> CHR ''-'') s))
        in Some (Event_pos (nat (drop_bit 32 value)) (nat (drop_bit 12 value AND 0xfffff))
                  (nat (value AND 0xfff)) idx))"

text \<open>A raw RPC event: its own id when it has one, and its position fields.\<close>

record raw_event =
  ev_id :: "string option"
  ev_ledger :: "int option"
  ev_txOrder :: "int option"
  ev_opIndex :: "int option option"   \<comment> \<open>the outer \<open>None\<close> is an absent field, where \<open>?? 0\<close> applies\<close>
  ev_eventIndex :: "int option"

definition eventIdFromRpc :: "raw_event \<Rightarrow> range_error + string option" where
  "eventIdFromRpc ev =
     (if (case ev_id ev of Some s \<Rightarrow> event_id_re s | None \<Rightarrow> False) then Inr (ev_id ev)
      else if ev_ledger ev \<noteq> None \<and> ev_txOrder ev \<noteq> None \<and> ev_eventIndex ev \<noteq> None then
        (case toid (ev_ledger ev) (ev_txOrder ev) (case ev_opIndex ev of None \<Rightarrow> Some 0 | Some v \<Rightarrow> v) of
           Inl e \<Rightarrow> Inl e
         | Inr t \<Rightarrow> map_sum id Some (formatEventId t (ev_eventIndex ev)))
      else Inr None)"

subsection \<open>Arithmetic of the packing\<close>

lemma or_push_bit:
  fixes a b :: int
  assumes "0 \<le> b" "b < 2 ^ n"
  shows "push_bit n a OR b = a * 2 ^ n + b"
proof -
  have "take_bit n b = b" using assms by (simp add: take_bit_int_eq_self)
  then have "\<not> bit b m" if "n \<le> m" for m
    using that by (metis bit_take_bit_iff leD)
  then have "push_bit n a + b = push_bit n a OR b"
    by (intro disjunctive_add_eq_or) (auto simp: bit_eq_iff bit_and_iff bit_push_bit_iff)
  then show ?thesis by (simp add: push_bit_eq_mult)
qed


text \<open>The value packed by \<open>toid\<close>.\<close>

definition packed :: "nat \<Rightarrow> nat \<Rightarrow> nat \<Rightarrow> nat" where
  "packed l t p = l * 2 ^ 32 + t * 2 ^ 12 + p"

lemma toid_Inr_iff:
  "toid (Some l) (Some t) (Some p) = Inr v \<longleftrightarrow>
     0 \<le> l \<and> l \<le> 0x7fffffff \<and> 0 \<le> t \<and> t \<le> 0xfffff \<and> 0 \<le> p \<and> p \<le> 0xfff \<and>
     v = int (packed (nat l) (nat t) (nat p))"
proof -
  have val: "push_bit 32 l OR push_bit 12 t OR p = int (packed (nat l) (nat t) (nat p))"
    if "0 \<le> l" "0 \<le> t" "t \<le> 0xfffff" "0 \<le> p" "p \<le> 0xfff"
  proof -
    have 1: "push_bit 12 t OR p = t * 2 ^ 12 + p"
      using that by (intro or_push_bit) auto
    have 2: "push_bit 32 l OR (t * 2 ^ 12 + p) = l * 2 ^ 32 + (t * 2 ^ 12 + p)"
      using that by (intro or_push_bit) auto
    show ?thesis using 1 2 that by (simp add: packed_def)
  qed
  show ?thesis
    by (auto simp: toid_def in_range_def val)
qed

lemma packed_fields:
  assumes "t \<le> 0xfffff" "p \<le> 0xfff"
  shows "drop_bit 32 (int (packed l t p)) = int l"
    and "drop_bit 12 (int (packed l t p)) AND 0xfffff = int t"
    and "int (packed l t p) AND 0xfff = int p"
proof -
  let ?v = "int l * 2 ^ 32 + int t * 2 ^ 12 + int p"
  have v: "int (packed l t p) = ?v" by (simp add: packed_def)
  have b: "0 \<le> int t * 2 ^ 12 + int p" "int t * 2 ^ 12 + int p < 2 ^ 32" using assms by auto
  show "drop_bit 32 (int (packed l t p)) = int l"
    unfolding v drop_bit_eq_div using b by simp
  have d: "?v div 2 ^ 12 = int l * 2 ^ 20 + int t" using assms by simp
  have "(int l * 2 ^ 20 + int t) mod 2 ^ 20 = int t" using assms by simp
  then have "take_bit 20 (drop_bit 12 ?v) = int t"
    unfolding drop_bit_eq_div take_bit_eq_mod d .
  then show "drop_bit 12 (int (packed l t p)) AND 0xfffff = int t"
    unfolding v take_bit_eq_mask by (simp add: mask_eq_exp_minus_1)
  have "?v = int p + (int l * 2 ^ 20 + int t) * 2 ^ 12" by simp
  then have "?v mod 2 ^ 12 = int p mod 2 ^ 12" by (simp only: mod_mult_self1)
  then have "?v mod 2 ^ 12 = int p" using assms by simp
  then have "take_bit 12 ?v = int p" unfolding take_bit_eq_mod .
  then show "int (packed l t p) AND 0xfff = int p"
    unfolding v take_bit_eq_mask by (simp add: mask_eq_exp_minus_1)
qed

lemma packed_bound:
  assumes "l \<le> 0x7fffffff" "t \<le> 0xfffff" "p \<le> 0xfff"
  shows "packed l t p < 10 ^ 19"
  using assms by (simp add: packed_def)

lemma packed_less_iff:
  assumes "t \<le> 0xfffff" "p \<le> 0xfff" "t' \<le> 0xfffff" "p' \<le> 0xfff"
  shows "packed l t p < packed l' t' p' \<longleftrightarrow>
           l < l' \<or> (l = l' \<and> (t < t' \<or> (t = t' \<and> p < p')))"
  using assms unfolding packed_def by simp linarith

subsection \<open>Shape of an id\<close>

text \<open>The two printed fields, for a TOID and an event index that fit theirs.\<close>

definition id_fields :: "nat \<Rightarrow> nat \<Rightarrow> string" where
  "id_fields v e = pad_start 19 CHR ''0'' (dec v) @ ''-'' @ pad_start 10 CHR ''0'' (dec e)"

lemma formatEventId_nat:
  "formatEventId (int v) (Some (int e)) = Inr (id_fields v e)"
  by (simp add: formatEventId_def id_fields_def bigint_str_def)

lemma no_dash_digits: "all_digits s \<Longrightarrow> c \<in> set s \<Longrightarrow> c \<noteq> CHR ''-''"
  by (auto simp: all_digits_def list_all_iff is_digit_def)

lemma span_dash:
  assumes "all_digits s"
  shows "takeWhile (\<lambda>c. c \<noteq> CHR ''-'') (s @ CHR ''-'' # t) = s"
    and "dropWhile (\<lambda>c. c \<noteq> CHR ''-'') (s @ CHR ''-'' # t) = CHR ''-'' # t"
  using no_dash_digits [OF assms] by (auto simp: takeWhile_append2 dropWhile_append2)

lemma id_fields_re:
  assumes "v < 10 ^ 19"
  shows "event_id_re (id_fields v e) \<longleftrightarrow> e < 10 ^ 10"
proof -
  have lv: "length (pad_start 19 CHR ''0'' (dec v)) = 19"
    using assms by (intro length_pad_start length_dec) auto
  have le: "length (pad_start 10 CHR ''0'' (dec e)) = 10 \<longleftrightarrow> e < 10 ^ 10"
  proof (cases "e < 10 ^ 10")
    case True
    then have "length (dec e) \<le> 10" by (intro length_dec) auto
    with True show ?thesis by (simp add: length_pad_start)
  next
    case False
    then have "10 < length (dec e)" by (intro length_dec_gt) simp
    with False show ?thesis by (simp add: pad_start_def)
  qed
  show ?thesis
    using lv le by (auto simp: event_id_re_def id_fields_def nth_append)
qed

lemma parse_id_fields:
  assumes "v < 10 ^ 19" "e < 10 ^ 10"
  shows "parseEventId (id_fields v e) =
           Some (Event_pos (nat (drop_bit 32 (int v))) (nat (drop_bit 12 (int v) AND 0xfffff))
                  (nat (int v AND 0xfff)) e)"
proof -
  let ?a = "pad_start 19 CHR ''0'' (dec v)" and ?b = "pad_start 10 CHR ''0'' (dec e)"
  have re: "event_id_re (id_fields v e)" using assms id_fields_re by blast
  have split: "id_fields v e = ?a @ CHR ''-'' # ?b" by (simp add: id_fields_def)
  have "takeWhile (\<lambda>c. c \<noteq> CHR ''-'') (id_fields v e) = ?a"
    and "dropWhile (\<lambda>c. c \<noteq> CHR ''-'') (id_fields v e) = CHR ''-'' # ?b"
    unfolding split by (rule span_dash, simp)+
  with re show ?thesis by (simp add: parseEventId_def Let_def)
qed

lemma formatted_ids:
  assumes "toid (Some l) (Some t) (Some p) = Inr v" "formatEventId v (Some e) = Inr s"
  shows "s = id_fields (packed (nat l) (nat t) (nat p)) (nat e)"
    and "packed (nat l) (nat t) (nat p) < 10 ^ 19"
    and "nat t \<le> 0xfffff" "nat p \<le> 0xfff"
proof -
  have v: "v = int (packed (nat l) (nat t) (nat p))"
    and r: "0 \<le> l" "l \<le> 0x7fffffff" "0 \<le> t" "t \<le> 0xfffff" "0 \<le> p" "p \<le> 0xfff"
    using assms(1) by (auto simp: toid_Inr_iff)
  have "0 \<le> e" using assms(2) by (auto simp: formatEventId_def split: if_splits)
  with assms(2) v show "s = id_fields (packed (nat l) (nat t) (nat p)) (nat e)"
    using formatEventId_nat [of "packed (nat l) (nat t) (nat p)" "nat e"] by simp
  show "packed (nat l) (nat t) (nat p) < 10 ^ 19"
    using r by (intro packed_bound) auto
  show "nat t \<le> 0xfffff" "nat p \<le> 0xfff" using r by auto
qed

subsection \<open>Chain order\<close>

text \<open>Positions are ordered as the chain orders them: field by field.\<close>

instantiation event_pos :: linorder
begin

definition less_event_pos :: "event_pos \<Rightarrow> event_pos \<Rightarrow> bool" where
  "less_event_pos a b =
     (ledger a < ledger b \<or> (ledger a = ledger b \<and>
       (txOrder a < txOrder b \<or> (txOrder a = txOrder b \<and>
         (opIndex a < opIndex b \<or> (opIndex a = opIndex b \<and> eventIndex a < eventIndex b))))))"

definition less_eq_event_pos :: "event_pos \<Rightarrow> event_pos \<Rightarrow> bool" where
  "less_eq_event_pos a b = (a < b \<or> a = b)"

instance
proof
  fix a b :: event_pos
  show "a \<le> b \<or> b \<le> a"
    by (cases a; cases b) (auto simp: less_eq_event_pos_def less_event_pos_def)
qed (auto simp: less_eq_event_pos_def less_event_pos_def)

end

lemma id_fields_less_iff:
  assumes "v < 10 ^ 19" "v' < 10 ^ 19" "e < 10 ^ 10" "e' < 10 ^ 10"
  shows "id_fields v e < id_fields v' e' \<longleftrightarrow> v < v' \<or> (v = v' \<and> e < e')"
proof -
  let ?a = "pad_start 19 CHR ''0'' (dec v)" and ?a' = "pad_start 19 CHR ''0'' (dec v')"
  let ?b = "pad_start 10 CHR ''0'' (dec e)" and ?b' = "pad_start 10 CHR ''0'' (dec e')"
  have la: "length ?a = 19" "length ?a' = 19" and lb: "length ?b = 10" "length ?b' = 10"
    using assms by (auto intro!: length_pad_start length_dec)
  have a: "?a < ?a' \<longleftrightarrow> v < v'"
    using digit_strings_less [of ?a ?a'] la by simp
  have b: "?b < ?b' \<longleftrightarrow> e < e'"
    using digit_strings_less [of ?b ?b'] lb by simp
  have eq: "?a = ?a' \<longleftrightarrow> v = v'"
    by (metis undec_dec undec_pad_start)
  have "id_fields v e < id_fields v' e' \<longleftrightarrow> ?a < ?a' \<or> ?a = ?a' \<and> ''-'' @ ?b < ''-'' @ ?b'"
    unfolding id_fields_def using la by (simp add: less_append_same_length)
  then show ?thesis using a b eq by simp
qed

text \<open>
  C36. Printing a position and parsing the id gives the position back exactly when the event index
  fits its ten digits; a wider index prints an id that \<open>parseEventId\<close> rejects.
\<close>

theorem event_id_roundtrip:
  assumes "toid (Some l) (Some t) (Some p) = Inr v" "formatEventId v (Some e) = Inr s"
  shows "parseEventId s =
           (if e < 10 ^ 10 then Some (Event_pos (nat l) (nat t) (nat p) (nat e)) else None)"
proof (cases "e < 10 ^ 10")
  case True
  then have "nat e < 10 ^ 10" by simp
  with formatted_ids [OF assms] True show ?thesis
    using parse_id_fields [of "packed (nat l) (nat t) (nat p)" "nat e"]
    by (simp add: packed_fields)
next
  case False
  then have "\<not> nat e < 10 ^ 10" by simp
  with formatted_ids [OF assms] False show ?thesis
    using id_fields_re [of "packed (nat l) (nat t) (nat p)" "nat e"]
    by (simp add: parseEventId_def)
qed

theorem event_id_roundtrip_witness:
  "parseEventId ''0000000004294979585-0000000003'' = Some (Event_pos 1 3 1 3)"
proof -
  have t: "toid (Some 1) (Some 3) (Some 1) = Inr 4294979585" by code_simp
  have f: "formatEventId 4294979585 (Some 3) = Inr ''0000000004294979585-0000000003''"
    by (simp add: formatEventId_def bigint_str_def pad_start_def dec_eval replicate_num)
  have "parseEventId ''0000000004294979585-0000000003'' =
          (if (3::int) < 10 ^ 10 then Some (Event_pos (nat 1) (nat 3) (nat 1) (nat 3)) else None)"
    by (rule event_id_roundtrip [OF t f])
  also have "\<dots> = Some (Event_pos 1 3 1 3)" by simp
  finally show ?thesis .
qed

text \<open>
  Ids sort as strings in the order of the chain: by ledger, transaction, operation and event.
\<close>

lemma event_id_order:
  assumes "toid (Some l) (Some t) (Some p) = Inr v" "formatEventId v (Some e) = Inr s"
    and "toid (Some l') (Some t') (Some p') = Inr v'" "formatEventId v' (Some e') = Inr s'"
    and "e < 10 ^ 10" "e' < 10 ^ 10"
  shows "s < s' \<longleftrightarrow>
           Event_pos (nat l) (nat t) (nat p) (nat e) < Event_pos (nat l') (nat t') (nat p') (nat e')"
proof -
  note f = formatted_ids [OF assms(1,2)] and f' = formatted_ids [OF assms(3,4)]
  have e: "nat e < 10 ^ 10" "nat e' < 10 ^ 10" using assms(5,6) by auto
  have eq: "packed (nat l) (nat t) (nat p) = packed (nat l') (nat t') (nat p') \<longleftrightarrow>
              nat l = nat l' \<and> nat t = nat t' \<and> nat p = nat p'"
    using packed_less_iff [OF f(3,4) f'(3,4), of "nat l" "nat l'"]
      packed_less_iff [OF f'(3,4) f(3,4), of "nat l'" "nat l"]
    by (metis linorder_less_linear order_less_irrefl)
  show ?thesis
    using id_fields_less_iff [OF f(2) f'(2) e] f(1) f'(1) eq
      packed_less_iff [OF f(3,4) f'(3,4), of "nat l" "nat l'"]
    by (auto simp: less_event_pos_def)
qed

lemma event_id_order_witness:
  "''0000000004294979585-0000000003'' < ''0000000008589934592-0000000000'' \<longleftrightarrow>
     Event_pos 1 3 1 3 < Event_pos 2 0 0 0"
proof -
  have t: "toid (Some 1) (Some 3) (Some 1) = Inr 4294979585"
    and t': "toid (Some 2) (Some 0) (Some 0) = Inr 8589934592" by code_simp+
  have f: "formatEventId 4294979585 (Some 3) = Inr ''0000000004294979585-0000000003''"
    and f': "formatEventId 8589934592 (Some 0) = Inr ''0000000008589934592-0000000000''"
    by (simp_all add: formatEventId_def bigint_str_def pad_start_def dec_eval replicate_num)
  have "''0000000004294979585-0000000003'' < ''0000000008589934592-0000000000'' \<longleftrightarrow>
     Event_pos (nat 1) (nat 3) (nat 1) (nat 3) < Event_pos (nat 2) (nat 0) (nat 0) (nat 0)"
    by (rule event_id_order [OF t f t' f']) simp_all
  then show ?thesis by simp
qed

text \<open>
  \<open>eventIdFromRpc\<close>: a well-formed id of the node is passed through; otherwise the id derived
  from the position fields is well formed when the event index fits, a missing field gives none.
\<close>

lemma event_id_from_rpc:
  assumes "eventIdFromRpc ev = Inr r"
    and "\<And>i. ev_eventIndex ev = Some i \<Longrightarrow> i < 10 ^ 10"
  shows "(case r of Some s \<Rightarrow> event_id_re s | None \<Rightarrow>
            ev_ledger ev = None \<or> ev_txOrder ev = None \<or> ev_eventIndex ev = None)"
proof (cases "(case ev_id ev of Some s \<Rightarrow> event_id_re s | None \<Rightarrow> False)")
  case True
  with assms(1) show ?thesis by (auto simp: eventIdFromRpc_def split: option.splits)
next
  case False
  show ?thesis
  proof (cases "ev_ledger ev \<noteq> None \<and> ev_txOrder ev \<noteq> None \<and> ev_eventIndex ev \<noteq> None")
    case no_field: False
    with False assms(1) show ?thesis by (auto simp: eventIdFromRpc_def split: if_splits)
  next
    case True
    then obtain l t e where ev: "ev_ledger ev = Some l" "ev_txOrder ev = Some t" "ev_eventIndex ev = Some e"
      by auto
    let ?p = "case ev_opIndex ev of None \<Rightarrow> Some 0 | Some v \<Rightarrow> v"
    have "(case toid (Some l) (Some t) ?p of Inl e \<Rightarrow> Inl e
             | Inr v \<Rightarrow> map_sum id Some (formatEventId v (Some e))) = Inr r"
      using False assms(1) by (simp add: eventIdFromRpc_def ev cong: sum.case_cong)
    then obtain v s where v: "toid (Some l) (Some t) ?p = Inr v"
      and s: "formatEventId v (Some e) = Inr s" and r: "r = Some s"
      by (auto split: sum.splits simp: map_sum_Inr_conv)
    obtain p where p: "?p = Some p"
      using v by (cases ?p) (auto simp: toid_def in_range_def split: if_splits)
    have "nat e < 10 ^ 10" using assms(2) ev by auto
    then have "event_id_re s"
      using formatted_ids(1,2) [of l t p v e s] v s p id_fields_re by simp
    with r show ?thesis by simp
  qed
qed

lemma event_id_from_rpc_witness:
  "(case Some ''0000000004294979585-0000000003'' of Some s \<Rightarrow> event_id_re s | None \<Rightarrow> False)"
proof -
  let ?ev = "\<lparr>ev_id = None, ev_ledger = Some 1, ev_txOrder = Some 3, ev_opIndex = Some (Some 1),
               ev_eventIndex = Some 3\<rparr>"
  have t: "toid (Some 1) (Some 3) (Some 1) = Inr 4294979585" by code_simp
  have f: "formatEventId 4294979585 (Some 3) = Inr ''0000000004294979585-0000000003''"
    by (simp add: formatEventId_def bigint_str_def pad_start_def dec_eval replicate_num)
  have "eventIdFromRpc ?ev = Inr (Some ''0000000004294979585-0000000003'')"
    by (simp add: eventIdFromRpc_def t f)
  from event_id_from_rpc [OF this] show ?thesis by simp
qed

end
