(* ===== verification/Amounts.thy ===== *)
theory Amounts
  imports Event_Ids
begin

section \<open>Token amounts (indexer/src/formatAmount.js)\<close>

text \<open>
  \<open>formatAmount\<close> prints a raw integer amount with a number of decimal places, using BigInt
  arithmetic only, and appends an asset symbol when the second argument is one. The raw argument
  is modelled by its \<open>String(raw)\<close>; \<open>BigInt(s)\<close> is ECMAScript's StringToBigInt (optional sign and
  digits, a 0x/0o/0b literal, surrounding white space, the empty string as zero, SyntaxError
  otherwise). Shown: the printed text read back at the scale is the raw amount, whatever its size;
  no fraction ends in a zero unless a symbol forces one digit; the error branches.
\<close>

datatype amount_error = Syntax_error | Range_error

text \<open>
  The second argument: a number (\<open>Some\<close> an integer, \<open>None\<close> a number that is not one), a symbol,
  or neither. The third is \<open>None\<close> unless it is a number.
\<close>

datatype amount_arg = Arg_number "int option" | Arg_symbol string | Arg_other

subsection \<open>BigInt of a string\<close>

definition hex_val :: "char \<Rightarrow> nat" where
  "hex_val c = (let n = of_char c :: nat in
     if 48 \<le> n \<and> n \<le> 57 then n - 48 else if 65 \<le> n \<and> n \<le> 70 then n - 55
     else if 97 \<le> n \<and> n \<le> 102 then n - 87 else 16)"

definition radix_value :: "nat \<Rightarrow> string \<Rightarrow> int option" where
  "radix_value r s = (if s \<noteq> [] \<and> list_all (\<lambda>c. hex_val c < r) s
     then Some (foldl (\<lambda>a c. int r * a + int (hex_val c)) 0 s) else None)"

definition dec_value :: "string \<Rightarrow> int option" where
  "dec_value s = (if s \<noteq> [] \<and> all_digits s then Some (int (undec s)) else None)"

definition bigint_of :: "string \<Rightarrow> int option" where
  "bigint_of raw =
     (case trim raw of
        [] \<Rightarrow> Some 0
      | c # s \<Rightarrow>
          if c = CHR ''-'' then map_option uminus (dec_value s)
          else if c = CHR ''+'' then dec_value s
          else if c = CHR ''0'' \<and> s \<noteq> [] \<and> hd s \<in> set ''xX'' then radix_value 16 (tl s)
          else if c = CHR ''0'' \<and> s \<noteq> [] \<and> hd s \<in> set ''oO'' then radix_value 8 (tl s)
          else if c = CHR ''0'' \<and> s \<noteq> [] \<and> hd s \<in> set ''bB'' then radix_value 2 (tl s)
          else dec_value (c # s))"

subsection \<open>Printing\<close>

definition strip_zeros :: "string \<Rightarrow> string" where
  "strip_zeros s = rev (dropWhile (\<lambda>c. c = CHR ''0'') (rev s))"

definition amount_text :: "int \<Rightarrow> nat \<Rightarrow> bool \<Rightarrow> string" where
  "amount_text rawBig scale has_symbol =
     (let divisor = 10 ^ scale;
          neg = rawBig < 0;
          abs = nat (if neg then - rawBig else rawBig);
          whole = abs div divisor;
          frac = abs mod divisor;
          fracStr = strip_zeros (pad_start scale CHR ''0'' (dec frac));
          fracStr = (if has_symbol \<and> fracStr = [] then ''0'' else fracStr);
          magnitude = (if fracStr \<noteq> [] then dec whole @ ''.'' @ fracStr else dec whole)
      in if neg then ''-'' @ magnitude else magnitude)"

definition formatAmount ::
  "string \<Rightarrow> amount_arg \<Rightarrow> int option option \<Rightarrow> amount_error + string" where
  "formatAmount raw decimalsOrSymbol decimals =
     (let symbol = (case decimalsOrSymbol of Arg_symbol s \<Rightarrow> Some s | _ \<Rightarrow> None);
          scale = (case decimalsOrSymbol of
                     Arg_symbol _ \<Rightarrow> (case decimals of Some n \<Rightarrow> n | None \<Rightarrow> Some 7)
                   | Arg_number n \<Rightarrow> n
                   | Arg_other \<Rightarrow> Some 7)
      in case bigint_of (takeWhile (\<lambda>c. c \<noteq> CHR ''.'') raw) of
           None \<Rightarrow> Inl Syntax_error
         | Some rawBig \<Rightarrow>
             (case scale of
                None \<Rightarrow> Inl Range_error
              | Some n \<Rightarrow>
                  if n < 0 then Inl Range_error
                  else let signed = amount_text rawBig (nat n) (symbol \<noteq> None)
                       in Inr (case symbol of Some s \<Rightarrow> signed @ '' '' @ s | None \<Rightarrow> signed)))"

subsection \<open>Reading an amount back\<close>

text \<open>
  The inverse: a decimal text read as an integer at a scale; defined when the fraction has at
  most \<open>scale\<close> digits.
\<close>

definition read_magnitude :: "nat \<Rightarrow> string \<Rightarrow> nat option" where
  "read_magnitude scale s =
     (let w = takeWhile (\<lambda>c. c \<noteq> CHR ''.'') s;
          f = drop 1 (dropWhile (\<lambda>c. c \<noteq> CHR ''.'') s)
      in if w \<noteq> [] \<and> all_digits w \<and> all_digits f \<and> length f \<le> scale
         then Some (undec w * 10 ^ scale + undec f * 10 ^ (scale - length f)) else None)"

definition read_scaled :: "nat \<Rightarrow> string \<Rightarrow> int option" where
  "read_scaled scale s =
     (case s of
        c # t \<Rightarrow> if c = CHR ''-'' then map_option (\<lambda>n. - int n) (read_magnitude scale t)
                else map_option int (read_magnitude scale s)
      | [] \<Rightarrow> None)"

lemma no_dot_digits: "all_digits s \<Longrightarrow> c \<in> set s \<Longrightarrow> c \<noteq> CHR ''.''"
  by (auto simp: all_digits_def list_all_iff is_digit_def)

lemma span_dot:
  assumes "all_digits s"
  shows "takeWhile (\<lambda>c. c \<noteq> CHR ''.'') (s @ CHR ''.'' # t) = s"
    and "dropWhile (\<lambda>c. c \<noteq> CHR ''.'') (s @ CHR ''.'' # t) = CHR ''.'' # t"
    and "takeWhile (\<lambda>c. c \<noteq> CHR ''.'') s = s"
    and "dropWhile (\<lambda>c. c \<noteq> CHR ''.'') s = []"
  using no_dot_digits [OF assms] by (auto simp: takeWhile_append2 dropWhile_append2 takeWhile_eq_all_conv)

text \<open>Stripping trailing zeros keeps the value at the scale.\<close>

lemma strip_zeros_Nil [simp]: "strip_zeros [] = []"
  by (simp add: strip_zeros_def)

lemma strip_zeros_snoc [simp]:
  "strip_zeros (s @ [c]) = (if c = CHR ''0'' then strip_zeros s else s @ [c])"
  by (simp add: strip_zeros_def)

lemma strip_zeros_decomp: "\<exists>k. s = strip_zeros s @ replicate k CHR ''0''"
proof (induction s rule: rev_induct)
  case Nil
  then show ?case by simp
next
  case (snoc c s)
  then obtain k where k: "s = strip_zeros s @ replicate k CHR ''0''" by blast
  show ?case
  proof (cases "c = CHR ''0''")
    case True
    then have "s @ [c] = strip_zeros (s @ [c]) @ replicate (Suc k) CHR ''0''"
      using k by (simp add: replicate_append_same [symmetric])
    then show ?thesis by blast
  next
    case False
    then show ?thesis by (intro exI [of _ 0]) simp
  qed
qed

lemma strip_zeros_last: "strip_zeros s \<noteq> [] \<Longrightarrow> last (strip_zeros s) \<noteq> CHR ''0''"
  by (induction s rule: rev_induct) (auto split: if_splits)

lemma undec_zeros [simp]: "undec (replicate k CHR ''0'') = 0"
  using undec_replicate_zero [of k "[]"] by simp

lemma strip_zeros_value:
  assumes "all_digits s" "length s \<le> n"
  shows "all_digits (strip_zeros s)" "length (strip_zeros s) \<le> length s"
    and "undec (strip_zeros s) * 10 ^ (n - length (strip_zeros s)) = undec s * 10 ^ (n - length s)"
proof -
  obtain k where k: "s = strip_zeros s @ replicate k CHR ''0''" using strip_zeros_decomp by blast
  show "all_digits (strip_zeros s)" using assms k by (metis all_digits_simps(3))
  have l: "length s = length (strip_zeros s) + k" by (metis k length_append length_replicate)
  then show "length (strip_zeros s) \<le> length s" by simp
  have "undec s = undec (strip_zeros s) * 10 ^ k"
    by (subst k) (simp add: undec_append)
  moreover have "n - length (strip_zeros s) = k + (n - length s)" using l assms by simp
  ultimately show "undec (strip_zeros s) * 10 ^ (n - length (strip_zeros s)) = undec s * 10 ^ (n - length s)"
    by (simp add: power_add)
qed


subsection \<open>Exactness\<close>

lemma frac_digits:
  fixes a :: nat
  assumes "0 < scale \<or> a mod 10 ^ scale = 0"
  defines "f \<equiv> strip_zeros (pad_start scale CHR ''0'' (dec (a mod 10 ^ scale)))"
  shows "all_digits f" "length f \<le> scale"
    and "undec f * 10 ^ (scale - length f) = a mod 10 ^ scale"
proof -
  let ?p = "pad_start scale CHR ''0'' (dec (a mod 10 ^ scale))"
  show "all_digits f" unfolding f_def using strip_zeros_value(1) [of ?p "length ?p"] by simp
  have "length f \<le> scale \<and> undec f * 10 ^ (scale - length f) = a mod 10 ^ scale"
  proof (cases "scale = 0")
    case True
    have "f = []" unfolding f_def using True by (simp add: pad_start_def dec_eval strip_zeros_def)
    then show ?thesis using True by simp
  next
    case False
    then have l: "length ?p = scale"
      by (intro length_pad_start length_dec) auto
    show ?thesis
      unfolding f_def using strip_zeros_value(2,3) [of ?p scale] l by simp
  qed
  then show "length f \<le> scale" "undec f * 10 ^ (scale - length f) = a mod 10 ^ scale" by auto
qed

lemma read_magnitude_plain: "read_magnitude scale (dec w) = Some (w * 10 ^ scale)"
  by (simp add: read_magnitude_def span_dot)

lemma read_magnitude_dot:
  assumes "all_digits f" "length f \<le> scale"
  shows "read_magnitude scale (dec w @ CHR ''.'' # f) =
           Some (w * 10 ^ scale + undec f * 10 ^ (scale - length f))"
  using assms by (simp add: read_magnitude_def span_dot)

lemma dec_not_minus: "c # t = dec n @ u \<Longrightarrow> c \<noteq> CHR ''-''"
  using all_digits_dec [of n] dec_nonempty [of n]
  by (cases "dec n") (auto simp: is_digit_def)

lemma read_scaled_dec: "read_scaled scale (dec w @ u) = map_option int (read_magnitude scale (dec w @ u))"
proof -
  obtain c t where ct: "dec w @ u = c # t" using dec_nonempty [of w] by (cases "dec w") auto
  then have "c \<noteq> CHR ''-''" using dec_not_minus [of c t w u] by simp
  with ct show ?thesis by (simp add: read_scaled_def)
qed

text \<open>
  The number printed without a symbol, and with one when a fraction digit has room, reads back
  as the raw amount.
\<close>

lemma read_amount_text:
  assumes "\<not> has_symbol \<or> 0 < scale"
  shows "read_scaled scale (amount_text rawBig scale has_symbol) = Some rawBig"
proof -
  define a where "a = nat \<bar>rawBig\<bar>"
  define f where "f = strip_zeros (pad_start scale CHR ''0'' (dec (a mod 10 ^ scale)))"
  define g where "g = (if has_symbol \<and> f = [] then ''0'' else f)"
  define m where "m = (if g \<noteq> [] then dec (a div 10 ^ scale) @ ''.'' @ g else dec (a div 10 ^ scale))"
  have cond: "0 < scale \<or> a mod 10 ^ scale = 0" by (cases "scale = 0") auto
  note f = frac_digits [OF cond, folded f_def]
  have g: "all_digits g" "length g \<le> scale" "undec g * 10 ^ (scale - length g) = a mod 10 ^ scale"
    using f assms by (auto simp: g_def split: if_splits)
  have shape: "amount_text rawBig scale has_symbol = (if rawBig < 0 then ''-'' @ m else m)"
    by (auto simp: amount_text_def Let_def a_def f_def g_def m_def)
  have mag: "read_magnitude scale m = Some a"
  proof (cases "g = []")
    case True
    then have "a mod 10 ^ scale = 0" using g by simp
    then have "a div 10 ^ scale * 10 ^ scale = a" by (metis div_mult_mod_eq add.right_neutral)
    with True show ?thesis by (simp add: m_def read_magnitude_plain)
  next
    case False
    have "a div 10 ^ scale * 10 ^ scale + a mod 10 ^ scale = a" by (rule div_mult_mod_eq)
    with False g show ?thesis by (simp add: m_def read_magnitude_dot)
  qed
  show ?thesis
  proof (cases "rawBig < 0")
    case True
    then show ?thesis using shape mag by (simp add: read_scaled_def a_def)
  next
    case False
    have "\<exists>u. m = dec (a div 10 ^ scale) @ u" by (simp add: m_def)
    then have "read_scaled scale m = map_option int (read_magnitude scale m)"
      using read_scaled_dec by blast
    with False shape mag show ?thesis by (simp add: a_def)
  qed
qed

text \<open>
  \<open>formatAmount\<close> loses nothing: the number it prints for a raw amount at \<open>n\<close> decimals reads
  back, at the scale \<open>n\<close>, as exactly that amount, of any size and sign (with a symbol, when
  \<open>n\<close> leaves room for the forced fraction digit), and the symbol follows after one space.
\<close>

lemma format_amount_exact:
  assumes "bigint_of (takeWhile (\<lambda>c. c \<noteq> CHR ''.'') raw) = Some b"
  shows "(\<exists>t. formatAmount raw (Arg_number (Some (int n))) d = Inr t \<and> read_scaled n t = Some b) \<and>
         (n = 0 \<or> (\<exists>t. formatAmount raw (Arg_symbol asset) (Some (Some (int n))) = Inr (t @ '' '' @ asset) \<and>
                      read_scaled n t = Some b))"
  using assms read_amount_text [of True n b] read_amount_text [of False n b]
  by (auto simp: formatAmount_def Let_def)

lemma format_amount_exact_witness:
  "(\<exists>t. formatAmount ''-500000.25'' (Arg_number (Some (int 6))) None = Inr t \<and>
        read_scaled 6 t = Some (- 500000)) \<and>
   ((6::nat) = 0 \<or> (\<exists>t. formatAmount ''-500000.25'' (Arg_symbol ''XLM'') (Some (Some (int 6))) =
        Inr (t @ '' '' @ ''XLM'') \<and> read_scaled 6 t = Some (- 500000)))"
proof -
  have "bigint_of (takeWhile (\<lambda>c. c \<noteq> CHR ''.'') ''-500000.25'') = Some (- 500000)"
    by (simp add: bigint_of_def trim_def js_space_def dec_value_def undec_def is_digit_def digit_val_def)
  from format_amount_exact [OF this] show ?thesis .
qed

text \<open>
  The text is canonical: without a symbol the fraction, when there is one, does not end in a
  zero; an amount of zero prints as 0 whatever its sign was written as.
\<close>

lemma format_amount_canonical:
  assumes "bigint_of (takeWhile (\<lambda>c. c \<noteq> CHR ''.'') raw) = Some b"
    and "formatAmount raw (Arg_number (Some (int n))) d = Inr t"
  shows "(CHR ''.'' \<in> set t \<longrightarrow> last t \<noteq> CHR ''0'' \<and> last t \<noteq> CHR ''.'') \<and> (b = 0 \<longrightarrow> t = ''0'')"
proof -
  define a where "a = nat \<bar>b\<bar>"
  define f where "f = strip_zeros (pad_start n CHR ''0'' (dec (a mod 10 ^ n)))"
  have f_last: "f \<noteq> [] \<Longrightarrow> last f \<noteq> CHR ''0''"
    unfolding f_def by (rule strip_zeros_last)
  have cond: "0 < n \<or> a mod 10 ^ n = 0" by (cases n) auto
  have f_dig: "all_digits f" unfolding f_def by (rule frac_digits(1) [OF cond])
  have t: "t = amount_text b n False" using assms by (auto simp: formatAmount_def Let_def)
  have shape: "t = (if b < 0 then ''-'' else []) @ dec (a div 10 ^ n) @ (if f = [] then [] else CHR ''.'' # f)"
    unfolding t amount_text_def Let_def by (auto simp: a_def f_def)
  have "f \<noteq> [] \<Longrightarrow> last t \<noteq> CHR ''0'' \<and> last t \<noteq> CHR ''.''"
    using shape f_last no_dot_digits [OF f_dig] by (auto simp: last_append)
  moreover have "f = [] \<Longrightarrow> CHR ''.'' \<notin> set t"
    using shape no_dot_digits [OF all_digits_dec [of "a div 10 ^ n"]] by auto
  moreover have "b = 0 \<Longrightarrow> t = ''0''"
  proof -
    assume "b = 0"
    then have a0: "a = 0" by (simp add: a_def)
    have z: "strip_zeros (replicate k CHR ''0'') = []" for k
      unfolding strip_zeros_def rev_replicate by (induction k) auto
    then have "f = []"
      unfolding f_def a0 by (simp add: pad_start_def dec_eval z)
    then show "t = ''0''" using shape a0 \<open>b = 0\<close> by (simp add: dec_eval)
  qed
  ultimately show ?thesis by blast
qed

lemma format_amount_canonical_witness:
  "formatAmount ''15000000'' (Arg_number (Some 7)) None = Inr ''1.5'' \<and> last ''1.5'' \<noteq> CHR ''0''"
proof -
  have b: "bigint_of (takeWhile (\<lambda>c. c \<noteq> CHR ''.'') ''15000000'') = Some 15000000"
    by (simp add: bigint_of_def trim_def js_space_def dec_value_def undec_def is_digit_def digit_val_def)
  have "formatAmount ''15000000'' (Arg_number (Some (int 7))) None = Inr ''1.5''"
    unfolding formatAmount_def using b
    by (simp add: amount_text_def dec_eval pad_start_def strip_zeros_def replicate_num)
  with format_amount_canonical [OF b this] show ?thesis by simp
qed

end
