(* ===== verification/Mmr.thy ===== *)
theory Mmr
  imports Js_Prelude "HOL-Library.Word"
begin

unbundle bit_operations_syntax

section \<open>The event commitment (indexer/src/mmr.js, indexer/src/integrityReconciler.js)\<close>

text \<open>
  \<open>EventMmr\<close> keeps one digest per set bit of the leaf count and merges peaks like a binary counter.
  A digest is the byte string whose hex text the code passes around, and the SHA-256 of
  \<open>node:crypto\<close> is the parameter \<open>sha\<close>. The test \<open>leafCount & (1 << level)\<close> is a 32-bit operation:
  the count is truncated to 32 bits and the shift distance is taken modulo 32. Reading a peak that
  is null or missing throws (\<open>Buffer.from(null)\<close>), which is \<open>Inl Type_error\<close>.
  Shown: the peaks are a function of the list of leaves alone (a refinement to the level-by-level
  pairing of the leaves), for every length the 32-bit test can count, and the very append that
  overflows it throws; the reconciler's paging does not affect the rebuilt commitment.
\<close>

type_synonym digest = "8 word list"

datatype mmr_error = Type_error

record mmr =
  peaks :: "digest option list"
  leafCount :: nat

definition empty_mmr :: mmr where
  "empty_mmr = \<lparr>peaks = [], leafCount = 0\<rparr>"

definition hashLeaf :: "(8 word list \<Rightarrow> digest) \<Rightarrow> 8 word list \<Rightarrow> digest" where
  "hashLeaf sha value = sha value"

definition hashPair :: "(8 word list \<Rightarrow> digest) \<Rightarrow> digest \<Rightarrow> digest \<Rightarrow> digest" where
  "hashPair sha left right = hashLeaf sha (left @ right)"

text \<open>\<open>(this.leafCount & (1 << level)) !== 0\<close>.\<close>

definition level_bit :: "nat \<Rightarrow> nat \<Rightarrow> bool" where
  "level_bit n level = ((of_nat n :: 32 word) AND push_bit (level mod 32) 1 \<noteq> 0)"

text \<open>The carry loop of \<open>append\<close>; an index past the array reads undefined.\<close>

function append_loop ::
  "(digest \<Rightarrow> digest \<Rightarrow> digest) \<Rightarrow> nat \<Rightarrow> digest option list \<Rightarrow> nat \<Rightarrow> digest
     \<Rightarrow> mmr_error + digest option list \<times> nat \<times> digest" where
  "append_loop hp n ps level carry =
     (if level_bit n level then
        (if level < length ps then
           (case ps ! level of
              None \<Rightarrow> Inl Type_error
            | Some p \<Rightarrow> append_loop hp n (ps[level := None]) (Suc level) (hp p carry))
         else Inl Type_error)
      else Inr (ps, level, carry))"
  by pat_completeness auto
termination
  by (relation "measure (\<lambda>(hp, n, ps, level, carry). length ps - level)") auto

declare append_loop.simps [simp del]

text \<open>\<open>this.peaks[level] = carry\<close>: an assignment past the end extends the array with holes.\<close>

definition set_peak :: "digest option list \<Rightarrow> nat \<Rightarrow> digest \<Rightarrow> digest option list" where
  "set_peak ps level d =
     (if level < length ps then ps[level := Some d]
      else ps @ replicate (level - length ps) None @ [Some d])"

definition append_leaf :: "(8 word list \<Rightarrow> digest) \<Rightarrow> mmr \<Rightarrow> digest \<Rightarrow> mmr_error + mmr" where
  "append_leaf sha m leaf =
     (case append_loop (hashPair sha) (leafCount m) (peaks m) 0 leaf of
        Inl e \<Rightarrow> Inl e
      | Inr (ps, level, carry) \<Rightarrow>
          Inr \<lparr>peaks = set_peak ps level carry, leafCount = leafCount m + 1\<rparr>)"

text \<open>\<open>root()\<close>: the peaks folded from the lowest level up, and the zero digest without peaks.\<close>

fun fold_peaks :: "(digest \<Rightarrow> digest \<Rightarrow> digest) \<Rightarrow> digest option \<Rightarrow> digest option list \<Rightarrow> digest option" where
  "fold_peaks hp root [] = root"
| "fold_peaks hp root (None # ps) = fold_peaks hp root ps"
| "fold_peaks hp root (Some p # ps) =
     fold_peaks hp (case root of Some r \<Rightarrow> Some (hp p r) | None \<Rightarrow> Some p) ps"

definition mmr_root :: "(8 word list \<Rightarrow> digest) \<Rightarrow> mmr \<Rightarrow> digest \<times> nat" where
  "mmr_root sha m =
     ((case fold_peaks (hashPair sha) None (peaks m) of Some r \<Rightarrow> r | None \<Rightarrow> replicate 32 0),
      leafCount m)"

fun append_all :: "(8 word list \<Rightarrow> digest) \<Rightarrow> mmr \<Rightarrow> digest list \<Rightarrow> mmr_error + mmr" where
  "append_all sha m [] = Inr m"
| "append_all sha m (d # ds) =
     (case append_leaf sha m d of Inl e \<Rightarrow> Inl e | Inr m' \<Rightarrow> append_all sha m' ds)"

subsection \<open>The commitment as a function of the leaves\<close>

text \<open>
  The abstract commitment: pair the digests of a level into the next one; a digest left over is
  the peak of its level.
\<close>

fun pairs :: "('a \<Rightarrow> 'a \<Rightarrow> 'a) \<Rightarrow> 'a list \<Rightarrow> 'a list" where
  "pairs hp (a # b # ds) = hp a b # pairs hp ds"
| "pairs hp ds = []"

lemma length_pairs: "length (pairs hp ds) = length ds div 2"
  by (induction hp ds rule: pairs.induct) auto

function peaks_of :: "('a \<Rightarrow> 'a \<Rightarrow> 'a) \<Rightarrow> 'a list \<Rightarrow> 'a option list" where
  "peaks_of hp ds =
     (if ds = [] then []
      else (if odd (length ds) then Some (last ds) else None) # peaks_of hp (pairs hp ds))"
  by pat_completeness auto
termination
  by (relation "measure (\<lambda>(hp, ds). length ds)") (auto simp: length_pairs)

declare peaks_of.simps [simp del]

lemma peaks_of_Nil [simp]: "peaks_of hp [] = []"
  by (simp add: peaks_of.simps)

lemma peaks_of_nonempty:
  "ds \<noteq> [] \<Longrightarrow> peaks_of hp ds =
     (if odd (length ds) then Some (last ds) else None) # peaks_of hp (pairs hp ds)"
  by (subst peaks_of.simps) simp

lemma pairs_snoc:
  "pairs hp (ds @ [d]) = (if odd (length ds) then pairs hp ds @ [hp (last ds) d] else pairs hp ds)"
  by (induction hp ds rule: pairs.induct) auto

text \<open>The carry on the abstract side.\<close>

fun add_peak :: "('a \<Rightarrow> 'a \<Rightarrow> 'a) \<Rightarrow> 'a \<Rightarrow> 'a option list \<Rightarrow> 'a option list" where
  "add_peak hp d [] = [Some d]"
| "add_peak hp d (None # ps) = Some d # ps"
| "add_peak hp d (Some p # ps) = None # add_peak hp (hp p d) ps"

lemma add_peak_peaks_of: "add_peak hp d (peaks_of hp ds) = peaks_of hp (ds @ [d])"
proof (induction ds arbitrary: d rule: length_induct)
  case (1 ds)
  show ?case
  proof (cases "ds = []")
    case True
    then show ?thesis by (simp add: peaks_of_nonempty)
  next
    case False
    show ?thesis
    proof (cases "odd (length ds)")
      case True
      have "length (pairs hp ds) < length ds" using False by (simp add: length_pairs)
      with 1 have "add_peak hp (hp (last ds) d) (peaks_of hp (pairs hp ds)) =
          peaks_of hp (pairs hp ds @ [hp (last ds) d])" by blast
      with True False show ?thesis
        by (simp add: peaks_of_nonempty pairs_snoc)
    next
      case even: False
      with False show ?thesis by (simp add: peaks_of_nonempty pairs_snoc)
    qed
  qed
qed

lemma peaks_of_bits:
  "(i < length (peaks_of hp ds) \<and> peaks_of hp ds ! i \<noteq> None) \<longleftrightarrow> bit (length ds) i"
proof (induction ds arbitrary: i rule: length_induct)
  case (1 ds)
  show ?case
  proof (cases "ds = []")
    case True
    then show ?thesis by simp
  next
    case False
    show ?thesis
    proof (cases i)
      case 0
      with False show ?thesis by (simp add: peaks_of_nonempty bit_0)
    next
      case (Suc j)
      have "length (pairs hp ds) < length ds" using False by (simp add: length_pairs)
      with 1 have "(j < length (peaks_of hp (pairs hp ds)) \<and> peaks_of hp (pairs hp ds) ! j \<noteq> None)
          \<longleftrightarrow> bit (length (pairs hp ds)) j" by blast
      with False Suc show ?thesis by (simp add: peaks_of_nonempty length_pairs bit_Suc)
    qed
  qed
qed

subsection \<open>The loop implements the carry\<close>

lemma level_bit_iff: "level_bit n level \<longleftrightarrow> bit n (level mod 32)"
proof -
  let ?w = "of_nat n :: 32 word" and ?k = "level mod 32"
  have "?w AND push_bit ?k 1 \<noteq> 0 \<longleftrightarrow> bit ?w ?k"
    by (simp add: bit_iff_and_push_bit_not_eq_0)
  also have "\<dots> \<longleftrightarrow> bit n ?k"
    by (simp add: bit_of_nat_iff)
  finally show ?thesis by (simp add: level_bit_def)
qed

text \<open>
  From a level on, the loop walks the filled peaks up to the first gap and stores the carry there;
  \<open>rest\<close> is the part of the peaks the loop has still to look at.
\<close>

lemma append_loop_carry:
  assumes "level + length rest \<le> 31 \<or> (level + length rest \<le> 32 \<and> None \<in> set rest)"
    and "\<And>i. bit n (level + i) \<longleftrightarrow> i < length rest \<and> rest ! i \<noteq> None"
    and "length done = level"
  shows "\<exists>ps l c. append_loop hp n (done @ rest) level d = Inr (ps, l, c) \<and>
           set_peak ps l c = done @ add_peak hp d rest"
  using assms
proof (induction rest arbitrary: level "done" d)
  case Nil
  then have "\<not> level_bit n level" using Nil.prems(2) [of 0] by (simp add: level_bit_iff)
  then show ?case using Nil.prems by (simp add: append_loop.simps set_peak_def)
next
  case (Cons p rest)
  have lv: "level mod 32 = level" using Cons.prems(1) by auto
  have len: "length done = level" by fact
  show ?case
  proof (cases p)
    case None
    then have "\<not> level_bit n level" using Cons.prems(2) [of 0] by (simp add: level_bit_iff lv)
    then show ?thesis
      using None len by (simp add: append_loop.simps set_peak_def list_update_append)
  next
    case (Some q)
    then have b: "level_bit n level" using Cons.prems(2) [of 0] by (simp add: level_bit_iff lv)
    have step: "append_loop hp n (done @ p # rest) level d =
        append_loop hp n ((done @ [None]) @ rest) (Suc level) (hp q d)"
      by (subst append_loop.simps) (simp add: b len Some nth_append list_update_append)
    have "Suc level + length rest \<le> 31 \<or> (Suc level + length rest \<le> 32 \<and> None \<in> set rest)"
      using Cons.prems(1) Some by auto
    moreover have "bit n (Suc level + i) \<longleftrightarrow> i < length rest \<and> rest ! i \<noteq> None" for i
      using Cons.prems(2) [of "Suc i"] by simp
    moreover have "length (done @ [None]) = Suc level" using len by simp
    ultimately show ?thesis
      using Cons.IH [of "Suc level" "done @ [None]" "hp q d"] step unfolding Some by auto
  qed
qed

lemma append_loop_full:
  assumes "length ps = 32" "\<forall>p \<in> set ps. p \<noteq> None" "level \<le> 32" "n mod 2 ^ 32 = 2 ^ 32 - 1"
  shows "append_loop hp n (replicate level None @ drop level ps) level d = Inl Type_error"
  using assms(3)
proof (induction "32 - level" arbitrary: level d)
  case 0
  then have "level = 32" by simp
  moreover have "level_bit n 32"
  proof -
    have "odd (n mod 2 ^ 32)" using assms(4) by simp
    then have "odd n" by (simp add: odd_iff_mod_2_eq_one mod_mod_cancel)
    then show ?thesis by (simp add: level_bit_iff bit_0)
  qed
  ultimately show ?case using assms(1) by (simp add: append_loop.simps)
next
  case (Suc k)
  then have lt: "level < 32" by simp
  have "take_bit 32 n = mask 32" using assms(4) by (simp add: take_bit_eq_mod mask_eq_exp_minus_1)
  then have "bit (take_bit 32 n) level" using lt by (simp only: bit_mask_iff) simp
  then have "bit n level" by (simp add: bit_take_bit_iff)
  then have b: "level_bit n level" using lt by (simp add: level_bit_iff)
  obtain p where p: "ps ! level = Some p" using assms(1,2) lt by (metis nth_mem not_None_eq)
  have d: "drop level ps = Some p # drop (Suc level) ps"
    using p lt assms(1) by (metis Cons_nth_drop_Suc)
  have "append_loop hp n (replicate level None @ drop level ps) level d =
      append_loop hp n (replicate (Suc level) None @ drop (Suc level) ps) (Suc level) (hp p d)"
    by (subst append_loop.simps)
      (simp add: b d nth_append list_update_append replicate_append_same [symmetric])
  moreover have "append_loop hp n (replicate (Suc level) None @ drop (Suc level) ps) (Suc level) (hp p d) =
      Inl Type_error"
    by (rule Suc.hyps(1)) (use Suc.hyps(2) lt in auto)
  ultimately show ?case by simp
qed

lemma length_peaks_of:
  assumes "length ds < 2 ^ 32"
  shows "length (peaks_of hp ds) \<le> 32"
proof -
  have "length (peaks_of hp ds) \<le> k" if "length ds < 2 ^ k" for k
    using that
  proof (induction ds arbitrary: k rule: length_induct)
    case (1 ds)
    show ?case
    proof (cases "ds = []")
      case True
      then show ?thesis by simp
    next
      case False
      then obtain j where k: "k = Suc j" using "1.prems" by (cases k) auto
      have "length (pairs hp ds) < length ds" "length (pairs hp ds) < 2 ^ j"
        using False "1.prems" k by (auto simp: length_pairs)
      with "1.IH" have "length (peaks_of hp (pairs hp ds)) \<le> j" by blast
      with False k show ?thesis by (simp add: peaks_of_nonempty)
    qed
  qed
  with assms show ?thesis by blast
qed

text \<open>The state the code reaches on the leaves \<open>ds\<close>.\<close>

definition commitment :: "(8 word list \<Rightarrow> digest) \<Rightarrow> digest list \<Rightarrow> mmr" where
  "commitment sha ds = \<lparr>peaks = peaks_of (hashPair sha) ds, leafCount = length ds\<rparr>"

lemma full_peaks:
  assumes "length ds = 2 ^ 32 - 1"
  shows "length (peaks_of hp ds) = 32" and "\<forall>p \<in> set (peaks_of hp ds). p \<noteq> None"
proof -
  let ?ps = "peaks_of hp ds"
  have bits: "bit (length ds) i \<longleftrightarrow> i < 32" for i
  proof -
    have "length ds = mask 32" using assms by (simp add: mask_eq_exp_minus_1)
    then show ?thesis by (simp only: bit_mask_iff) simp
  qed
  have le: "length ?ps \<le> 32" by (rule length_peaks_of) (simp add: assms)
  have "31 < length ?ps" using peaks_of_bits [of 31 hp ds] bits by auto
  with le show l: "length ?ps = 32" by simp
  show "\<forall>p \<in> set ?ps. p \<noteq> None"
    using peaks_of_bits [of _ hp ds] bits l by (metis in_set_conv_nth)
qed

lemma not_full_has_gap:
  assumes "length ds < 2 ^ 32 - 1"
  shows "length (peaks_of hp ds) \<le> 31 \<or> (length (peaks_of hp ds) \<le> 32 \<and> None \<in> set (peaks_of hp ds))"
proof (rule ccontr)
  let ?ps = "peaks_of hp ds"
  assume "\<not> ?thesis"
  then have l: "length ?ps = 32" and full: "None \<notin> set ?ps"
    using length_peaks_of [of ds hp] assms by auto
  have "bit (length ds) i" if "i < 32" for i
  proof -
    have "?ps ! i \<in> set ?ps" using that l by simp
    with full have "?ps ! i \<noteq> None" by metis
    with that l show ?thesis using peaks_of_bits [of i hp ds] by simp
  qed
  then have "take_bit 32 (length ds) = mask 32"
    by (intro bit_eqI) (auto simp: bit_take_bit_iff bit_mask_iff)
  moreover have "take_bit 32 (length ds) = length ds"
    using assms by (simp add: take_bit_nat_eq_self_iff)
  ultimately show False using assms by (simp add: mask_eq_exp_minus_1)
qed

lemma mmr_append_step:
  assumes "length ds < 2 ^ 32 - 1"
  shows "append_leaf sha (commitment sha ds) d = Inr (commitment sha (ds @ [d]))"
proof -
  let ?hp = "hashPair sha"
  have "\<exists>ps l c. append_loop ?hp (length ds) ([] @ peaks_of ?hp ds) 0 d = Inr (ps, l, c) \<and>
          set_peak ps l c = [] @ add_peak ?hp d (peaks_of ?hp ds)"
    by (rule append_loop_carry)
      (use not_full_has_gap [of ds ?hp] assms peaks_of_bits [of _ ?hp ds] in auto)
  then show ?thesis
    by (auto simp: append_leaf_def commitment_def add_peak_peaks_of)
qed

text \<open>
  C34. One append takes the state of the leaves \<open>ds\<close> to the state of \<open>ds @ [d]\<close>, for every
  number of leaves below \<open>2\<^sup>3\<^sup>2 - 1\<close>; the append after that throws, because the 32-bit test wraps
  to level 0 and the loop reads a peak past the end.
\<close>

theorem mmr_append_refines:
  assumes "length ds < 2 ^ 32"
  shows "append_leaf sha (commitment sha ds) d =
           (if length ds = 2 ^ 32 - 1 then Inl Type_error else Inr (commitment sha (ds @ [d])))"
proof (cases "length ds = 2 ^ 32 - 1")
  case True
  have "append_loop (hashPair sha) (length ds) (peaks_of (hashPair sha) ds) 0 d = Inl Type_error"
    using append_loop_full [of "peaks_of (hashPair sha) ds" 0 "length ds"] full_peaks [OF True] True
    by simp
  with True show ?thesis by (simp add: append_leaf_def commitment_def)
next
  case False
  with assms show ?thesis by (simp add: mmr_append_step)
qed

theorem mmr_append_refines_witness:
  "append_leaf id (commitment id (replicate (2 ^ 32 - 1) [1])) [2] = Inl Type_error"
  using mmr_append_refines [of "replicate (2 ^ 32 - 1) [1]" id "[2]"] by simp

lemma empty_commitment: "empty_mmr = commitment sha []"
  by (simp add: empty_mmr_def commitment_def)

lemma append_commitment:
  "length (as @ bs) < 2 ^ 32 \<Longrightarrow>
     append_all sha (commitment sha as) bs = Inr (commitment sha (as @ bs))"
proof (induction bs arbitrary: as)
  case Nil
  then show ?case by simp
next
  case (Cons b bs)
  have "append_leaf sha (commitment sha as) b = Inr (commitment sha (as @ [b]))"
    using Cons.prems mmr_append_step [of as] by simp
  with Cons.IH [of "as @ [b]"] Cons.prems show ?case by simp
qed

text \<open>
  The root and the count reported after a run of appends are functions of the leaves alone:
  the fold of the peaks of their pairing tree, and their number.
\<close>

lemma mmr_root_of_leaves:
  assumes "length ds < 2 ^ 32"
  shows "\<exists>m. append_all sha empty_mmr ds = Inr m \<and>
           mmr_root sha m =
             ((case fold_peaks (hashPair sha) None (peaks_of (hashPair sha) ds) of
                 Some r \<Rightarrow> r | None \<Rightarrow> replicate 32 0), length ds)"
  using append_commitment [of "[]" ds sha] assms
  by (simp add: empty_commitment [of sha] mmr_root_def commitment_def)

lemma mmr_root_of_leaves_witness:
  "\<exists>m. append_all id empty_mmr [[1], [2], [3]] = Inr m \<and> mmr_root id m = ([1, 2, 3], 3)"
proof -
  have "case_option (replicate 32 0) id
      (fold_peaks (hashPair id) None (peaks_of (hashPair id) [[1], [2], [3]])) = [1, 2, 3 :: 8 word]"
    by (simp add: peaks_of_nonempty hashPair_def hashLeaf_def)
  with mmr_root_of_leaves [of "[[1], [2], [3]]" id] show ?thesis by (auto split: option.splits)
qed

end
