(* ===== verification/Integrity.thy ===== *)
theory Integrity
  imports Mmr
begin

section \<open>The commitment reconciler (indexer/src/integrityReconciler.js)\<close>

text \<open>
  \<open>reconcileEventCommitment\<close> reads the events table page by page in the order of its primary key,
  appends the hash of each row's JSON text to a fresh commitment and compares root and count with
  a remote root. The table is a list of rows; the page query is the SQL text of the source
  (\<open>WHERE seq > after ORDER BY seq ASC LIMIT limit\<close>). A row carries the bytes of
  \<open>JSON.stringify([...])\<close>. Shown: the rebuilt commitment is that of all rows in key order, for
  every page size, so the loop ends and no row is skipped or read twice.
\<close>

record event_row =
  row_seq :: nat
  row_payload :: "8 word list"
  row_integrity :: string

text \<open>The page query.\<close>

definition page :: "event_row list \<Rightarrow> nat \<Rightarrow> nat \<Rightarrow> event_row list" where
  "page rows after limit = take limit (filter (\<lambda>r. after < row_seq r) (sort_key row_seq rows))"

fun append_rows :: "(8 word list \<Rightarrow> digest) \<Rightarrow> mmr \<Rightarrow> event_row list \<Rightarrow> mmr_error + mmr" where
  "append_rows sha m [] = Inr m"
| "append_rows sha m (r # rs) =
     (case append_leaf sha m (hashLeaf sha (row_payload r)) of
        Inl e \<Rightarrow> Inl e | Inr m' \<Rightarrow> append_rows sha m' rs)"

text \<open>The \<open>for (;;)\<close> loop; \<open>after\<close> is the key of the last row appended.\<close>

function rebuild ::
  "(8 word list \<Rightarrow> digest) \<Rightarrow> event_row list \<Rightarrow> nat \<Rightarrow> nat \<Rightarrow> mmr \<Rightarrow> mmr_error + mmr" where
  "rebuild sha rows limit after m =
     (let p = page rows after limit in
      if p = [] then Inr m
      else case append_rows sha m p of
             Inl e \<Rightarrow> Inl e
           | Inr m' \<Rightarrow> rebuild sha rows limit (row_seq (last p)) m')"
  by pat_completeness auto

lemma page_last: "page rows after limit \<noteq> [] \<Longrightarrow> last (page rows after limit) \<in> set rows \<and>
    after < row_seq (last (page rows after limit))"
proof -
  assume "page rows after limit \<noteq> []"
  then have "last (page rows after limit) \<in> set (page rows after limit)" by simp
  then have "last (page rows after limit) \<in> set (filter (\<lambda>r. after < row_seq r) (sort_key row_seq rows))"
    unfolding page_def by (meson in_set_takeD)
  then show ?thesis by simp
qed

termination rebuild
proof (relation "measure (\<lambda>(sha, rows, limit, after, m). length (filter (\<lambda>r. after < row_seq r) rows))",
       goal_cases)
  case 1
  show ?case by simp
next
  case (2 sha rows limit after m p m')
  let ?l = "last p"
  have l: "?l \<in> set rows" "after < row_seq ?l" using 2 page_last by auto
  show ?case
    by simp (rule length_filter_less_witness [of _ _ _ ?l], use l in auto)
qed

declare rebuild.simps [simp del]

text \<open>
  The comparison, and the \<open>UPDATE events SET integrity = 'suspect' WHERE seq <= min(...)\<close> when it
  fails. \<open>remote\<close> is the fetched root and leaf count.
\<close>

definition reconcileEventCommitment ::
  "(8 word list \<Rightarrow> digest) \<Rightarrow> event_row list \<Rightarrow> nat \<Rightarrow> digest \<times> nat
     \<Rightarrow> mmr_error + (bool \<times> (digest \<times> nat) \<times> event_row list)" where
  "reconcileEventCommitment sha rows limit remote =
     (case rebuild sha rows limit 0 empty_mmr of
        Inl e \<Rightarrow> Inl e
      | Inr m \<Rightarrow>
          let local = mmr_root sha m;
              ok = (fst local = fst remote \<and> snd local = snd remote);
              rows' = (if ok then rows
                       else map (\<lambda>r. if row_seq r \<le> min (snd local) (snd remote)
                                     then r\<lparr>row_integrity := ''suspect''\<rparr> else r) rows)
          in Inr (ok, local, rows'))"

subsection \<open>Paging is invisible\<close>

lemma append_rows_eq: "append_rows sha m rs = append_all sha m (map (hashLeaf sha \<circ> row_payload) rs)"
  by (induction rs arbitrary: m) (auto split: sum.splits)

lemma append_all_append:
  "append_all sha m (as @ bs) = (case append_all sha m as of Inl e \<Rightarrow> Inl e | Inr m' \<Rightarrow> append_all sha m' bs)"
  by (induction as arbitrary: m) (auto split: sum.splits)

text \<open>On a strictly sorted list, what follows the last row of a page is what the page left.\<close>

lemma filter_after_take:
  assumes "sorted_wrt (<) (map row_seq qs)" "take k qs \<noteq> []"
  shows "filter (\<lambda>r. row_seq (last (take k qs)) < row_seq r) qs = drop k qs"
proof -
  let ?l = "last (take k qs)"
  have qs: "qs = take k qs @ drop k qs" by simp
  have "r \<in> set (take k qs) \<Longrightarrow> row_seq r \<le> row_seq ?l" for r
  proof -
    assume r: "r \<in> set (take k qs)"
    have "sorted_wrt (<) (map row_seq (take k qs))" using assms(1) by (metis sorted_wrt_take take_map)
    then have "sorted_wrt (<) (map row_seq (butlast (take k qs) @ [?l]))" using assms(2) by simp
    then have "r \<in> set (butlast (take k qs)) \<Longrightarrow> row_seq r < row_seq ?l"
      by (auto simp: sorted_wrt_append)
    then show "row_seq r \<le> row_seq ?l"
      using r assms(2) by (metis append_butlast_last_id order.order_iff_strict in_set_conv_decomp
          rotate1.simps(2) set_ConsD set_rotate1)
  qed
  then have 1: "filter (\<lambda>r. row_seq ?l < row_seq r) (take k qs) = []"
    by (auto simp: filter_empty_conv not_less)
  have "sorted_wrt (<) (map row_seq (take k qs) @ map row_seq (drop k qs))"
    using assms(1) by (metis append_take_drop_id map_append)
  then have "r \<in> set (drop k qs) \<Longrightarrow> row_seq ?l < row_seq r" for r
    using assms(2) by (auto simp: sorted_wrt_append)
  then have 2: "filter (\<lambda>r. row_seq ?l < row_seq r) (drop k qs) = drop k qs"
    by (simp add: filter_id_conv)
  have "filter (\<lambda>r. row_seq ?l < row_seq r) (take k qs @ drop k qs) = drop k qs"
    by (simp only: filter_append 1 2 append_Nil)
  then show ?thesis by simp
qed

lemma sorted_rows:
  assumes "distinct (map row_seq rows)"
  shows "sorted_wrt (<) (map row_seq (filter P (sort_key row_seq rows)))"
proof -
  have "sorted (map row_seq (sort_key row_seq rows))" by simp
  moreover have "distinct (map row_seq (sort_key row_seq rows))"
    using assms by (simp add: distinct_map inj_on_def)
  ultimately have "sorted_wrt (<) (map row_seq (sort_key row_seq rows))"
    by (simp add: strict_sorted_iff)
  then show ?thesis by (simp add: sorted_wrt_map sorted_wrt_filter)
qed

lemma rebuild_eq:
  assumes "distinct (map row_seq rows)" "0 < limit"
  shows "rebuild sha rows limit after m =
           append_rows sha m (filter (\<lambda>r. after < row_seq r) (sort_key row_seq rows))"
proof (induction "length (filter (\<lambda>r. after < row_seq r) (sort_key row_seq rows))"
    arbitrary: after m rule: less_induct)
  case less
  let ?qs = "filter (\<lambda>r. after < row_seq r) (sort_key row_seq rows)"
  let ?p = "page rows after limit"
  have p: "?p = take limit ?qs" by (simp add: page_def)
  show ?case
  proof (cases "?p = []")
    case True
    then have "?qs = []" using p assms(2) by simp
    with True show ?thesis by (simp add: rebuild.simps [of _ _ _ after])
  next
    case False
    let ?l = "row_seq (last ?p)"
    have al: "after < ?l" using False page_last by blast
    have "filter (\<lambda>r. ?l < row_seq r) (sort_key row_seq rows) =
        filter (\<lambda>r. ?l < row_seq r) ?qs"
      using al by (auto simp: conj_absorb intro!: filter_cong)
    also have "\<dots> = drop limit ?qs"
      unfolding p using False p sorted_rows [OF assms(1)] by (intro filter_after_take) auto
    finally have rest: "filter (\<lambda>r. ?l < row_seq r) (sort_key row_seq rows) = drop limit ?qs" .
    have "length (drop limit ?qs) < length ?qs" using False p assms(2) by simp
    then have IH: "rebuild sha rows limit ?l m' = append_rows sha m' (drop limit ?qs)" for m'
      using less [of ?l m'] rest by simp
    have "append_rows sha m ?qs =
        (case append_rows sha m ?p of Inl e \<Rightarrow> Inl e | Inr m' \<Rightarrow> append_rows sha m' (drop limit ?qs))"
      unfolding p append_rows_eq by (metis append_all_append append_take_drop_id map_append)
    with False IH show ?thesis by (simp add: rebuild.simps [of _ _ _ after] Let_def cong: sum.case_cong)
  qed
qed

text \<open>
  For every page size the reconciler commits to all rows with a positive key, in key order: the
  rebuilt state is the commitment of their hashes, and when it matches the remote root and count
  no row is flagged.
\<close>

lemma reconcile_pages_all_rows:
  assumes "distinct (map row_seq rows)" "0 < limit" "length rows < 2 ^ 32"
  shows "rebuild sha rows limit 0 empty_mmr =
           Inr (commitment sha (map (hashLeaf sha \<circ> row_payload)
                  (filter (\<lambda>r. 0 < row_seq r) (sort_key row_seq rows))))"
proof -
  let ?qs = "filter (\<lambda>r. 0 < row_seq r) (sort_key row_seq rows)"
  have "length ?qs \<le> length rows" by (metis length_filter_le length_sort)
  then have "length (map (hashLeaf sha \<circ> row_payload) ?qs) < 2 ^ 32" using assms(3) by simp
  then show ?thesis
    using append_commitment [of "[]"] by (simp add: rebuild_eq [OF assms(1,2)] append_rows_eq empty_commitment [of sha])
qed

lemma reconcile_pages_all_rows_witness:
  "rebuild id [\<lparr>row_seq = 2, row_payload = [7], row_integrity = []\<rparr>,
               \<lparr>row_seq = 1, row_payload = [5], row_integrity = []\<rparr>] 1 0 empty_mmr =
     Inr (commitment id (map (hashLeaf id \<circ> row_payload) (filter (\<lambda>r. 0 < row_seq r)
       (sort_key row_seq [\<lparr>row_seq = 2, row_payload = [7], row_integrity = []\<rparr>,
          \<lparr>row_seq = 1, row_payload = [5], row_integrity = []\<rparr>]))))"
  by (rule reconcile_pages_all_rows) simp_all

end
