(* ===== verification/Ip_Rules.thy ===== *)
theory Ip_Rules
  imports Js_Prelude "HOL-Library.Word"
begin

unbundle bit_operations_syntax

section \<open>IP allow lists (indexer/src/admin/ipUtils.js)\<close>

text \<open>
  The CIDR matcher shared by the API-key and the admin authenticators. The bitwise operators of
  JavaScript work on 32 bits: the accumulator, the mask and the comparison are \<open>32 word\<close>s, a shift
  distance is taken modulo 32 and NaN reads as 0. Shown: on dotted quads and prefixes up to 32 the
  matcher compares network parts; a longer prefix wraps around; and texts that are not dotted
  quads (IPv6 addresses) all read as numbers, which lets entries match unrelated addresses.
\<close>

type_synonym ipv4 = "32 word"

definition to_int32 :: "int option \<Rightarrow> ipv4" where
  "to_int32 v = (case v of Some i \<Rightarrow> of_int i | None \<Rightarrow> 0)"

text \<open>\<open>ip.split('.').reduce((acc, octet) => (acc << 8) | parseInt(octet, 10), 0) >>> 0\<close>.\<close>

definition ipv4ToInt :: "string \<Rightarrow> ipv4" where
  "ipv4ToInt ip = foldl (\<lambda>acc octet. push_bit 8 acc OR to_int32 (parse_int octet)) 0 (split_on CHR ''.'' ip)"

text \<open>\<open>prefix === 0 ? 0 : ~((1 << (32 - prefix)) - 1) >>> 0\<close>.\<close>

definition cidr_mask :: "int option \<Rightarrow> ipv4" where
  "cidr_mask pfx =
     (if pfx = Some 0 then 0
      else NOT (push_bit (case pfx of Some p \<Rightarrow> nat ((32 - p) mod 32) | None \<Rightarrow> 0) 1 - 1))"

definition ipMatchesCidr :: "string \<Rightarrow> string \<Rightarrow> bool" where
  "ipMatchesCidr ip cidr =
     (let parts = (if CHR ''/'' \<in> set cidr then split_on CHR ''/'' cidr else [cidr, ''32'']);
          net = parts ! 0;
          mask = cidr_mask (parse_int (parts ! 1))
      in (ipv4ToInt ip AND mask) = (ipv4ToInt net AND mask))"

text \<open>A list that is not an array is modelled as \<open>None\<close>.\<close>

definition ipInCidrList :: "string \<Rightarrow> string list option \<Rightarrow> bool" where
  "ipInCidrList ip cidrList =
     (case cidrList of None \<Rightarrow> True | Some cs \<Rightarrow> cs = [] \<or> list_ex (ipMatchesCidr ip) cs)"

text \<open>
  \<open>getClientIp\<close>: the first entry of a non-empty x-forwarded-for header, else the socket's address.
\<close>

definition getClientIp :: "string option \<Rightarrow> string option \<Rightarrow> string" where
  "getClientIp forwarded remoteAddress =
     (case forwarded of
        Some h \<Rightarrow> if h \<noteq> [] then trim (hd (split_on CHR '','' h))
                 else (case remoteAddress of Some a \<Rightarrow> a | None \<Rightarrow> ''0.0.0.0'')
      | None \<Rightarrow> (case remoteAddress of Some a \<Rightarrow> a | None \<Rightarrow> ''0.0.0.0''))"

subsection \<open>Dotted quads\<close>

definition quad :: "nat \<Rightarrow> nat \<Rightarrow> nat \<Rightarrow> nat \<Rightarrow> string" where
  "quad a b c d = dec a @ ''.'' @ dec b @ ''.'' @ dec c @ ''.'' @ dec d"

definition quad_value :: "nat \<Rightarrow> nat \<Rightarrow> nat \<Rightarrow> nat \<Rightarrow> nat" where
  "quad_value a b c d = ((a * 256 + b) * 256 + c) * 256 + d"

lemma digits_no_char: "all_digits s \<Longrightarrow> \<not> is_digit c \<Longrightarrow> c \<notin> set s"
  by (auto simp: all_digits_def list_all_iff)

lemma not_digit_sep [simp]: "\<not> is_digit CHR ''.''" "\<not> is_digit CHR ''/''"
  by (simp_all add: is_digit_def)

lemma dec_no_sep [simp]: "CHR ''.'' \<notin> set (dec n)" "CHR ''/'' \<notin> set (dec n)"
  by (auto simp: digits_no_char)

lemma split_quad: "split_on CHR ''.'' (quad a b c d) = [dec a, dec b, dec c, dec d]"
  by (simp add: quad_def split_on_append)

lemma push_or_byte:
  assumes "b < 256"
  shows "push_bit 8 (of_nat n :: ipv4) OR of_nat b = of_nat (n * 256 + b)"
proof -
  have "push_bit 8 n OR b = push_bit 8 n + b"
  proof -
    have "\<not> bit b m" if "8 \<le> m" for m
    proof -
      have "take_bit 8 b = b" using assms by (simp add: take_bit_nat_eq_self_iff)
      with that show ?thesis by (metis bit_take_bit_iff leD)
    qed
    then have "push_bit 8 n AND b = 0"
      by (intro bit_eqI) (auto simp: bit_and_iff bit_push_bit_iff)
    then show ?thesis by (simp add: disjunctive_add_eq_or)
  qed
  moreover have "push_bit 8 (of_nat n :: ipv4) OR of_nat b = of_nat (push_bit 8 n OR b)"
    by (rule bit_eqI) (auto simp: bit_simps)
  ultimately show ?thesis by (simp add: push_bit_eq_mult algebra_simps)
qed

lemma ipv4ToInt_quad:
  assumes "a < 256" "b < 256" "c < 256" "d < 256"
  shows "ipv4ToInt (quad a b c d) = of_nat (quad_value a b c d)"
proof -
  have 1: "of_int (int k) = (of_nat k :: ipv4)" for k by simp
  have "ipv4ToInt (quad a b c d) =
     push_bit 8 (push_bit 8 (push_bit 8 (push_bit 8 (of_nat 0) OR of_nat a) OR of_nat b) OR of_nat c) OR of_nat d"
    unfolding ipv4ToInt_def split_quad by (simp add: to_int32_def)
  also have "\<dots> = of_nat (quad_value a b c d)"
    unfolding quad_value_def using assms by (simp only: push_or_byte) simp
  finally show ?thesis .
qed

lemma quad_value_bound:
  assumes "a < 256" "b < 256" "c < 256" "d < 256"
  shows "quad_value a b c d < 2 ^ 32"
  using assms by (simp add: quad_value_def)

subsection \<open>Masks\<close>

text \<open>Equality under the mask of a prefix is equality of the leading bits.\<close>

lemma mask_shift_bits:
  assumes "k < 32"
  shows "bit (NOT (push_bit k 1 - 1) :: ipv4) i \<longleftrightarrow> i < 32 \<and> k \<le> i"
proof -
  have "(push_bit k 1 - 1 :: ipv4) = mask k" by (simp add: mask_eq_exp_minus_1 push_bit_eq_mult)
  then show ?thesis using assms by (auto simp: bit_not_iff bit_mask_iff)
qed

lemma masked_eq_iff:
  fixes v w :: nat
  assumes "k < 32" "v < 2 ^ 32" "w < 2 ^ 32"
  shows "((of_nat v :: ipv4) AND NOT (push_bit k 1 - 1)) = (of_nat w AND NOT (push_bit k 1 - 1)) \<longleftrightarrow>
           v div 2 ^ k = w div 2 ^ k"
proof -
  let ?m = "NOT (push_bit k 1 - 1) :: ipv4"
  have bounded: "bit u i \<Longrightarrow> i < 32" if "u < 2 ^ 32" for u i :: nat
  proof -
    assume b: "bit u i"
    have "take_bit 32 u = u" using that by (simp add: take_bit_nat_eq_self_iff)
    then show "i < 32" using b by (metis bit_take_bit_iff)
  qed
  have "(of_nat v AND ?m) = (of_nat w AND ?m) \<longleftrightarrow> (\<forall>i. i < 32 \<and> k \<le> i \<longrightarrow> bit v i = bit w i)"
    unfolding bit_eq_iff bit_and_iff mask_shift_bits [OF assms(1)] by (auto simp: bit_of_nat_iff)
  also have "\<dots> \<longleftrightarrow> (\<forall>i. k \<le> i \<longrightarrow> bit v i = bit w i)"
    using bounded assms(2,3) by blast
  also have "\<dots> \<longleftrightarrow> drop_bit k v = drop_bit k w"
  proof
    assume "\<forall>i. k \<le> i \<longrightarrow> bit v i = bit w i"
    then show "drop_bit k v = drop_bit k w" by (intro bit_eqI) (simp add: bit_drop_bit_eq)
  next
    assume eq: "drop_bit k v = drop_bit k w"
    have "bit v (k + j) = bit w (k + j)" for j
      using arg_cong [OF eq, of "\<lambda>x. bit x j"] by (simp add: bit_drop_bit_eq)
    then show "\<forall>i. k \<le> i \<longrightarrow> bit v i = bit w i" by (metis le_Suc_ex)
  qed
  finally show ?thesis by (simp add: drop_bit_eq_div)
qed

lemma ipMatchesCidr_slash:
  assumes "CHR ''/'' \<notin> set net" "CHR ''/'' \<notin> set pfx"
  shows "ipMatchesCidr ip (net @ ''/'' @ pfx) \<longleftrightarrow>
           (ipv4ToInt ip AND cidr_mask (parse_int pfx)) = (ipv4ToInt net AND cidr_mask (parse_int pfx))"
  using assms by (simp add: ipMatchesCidr_def split_on_append Let_def)

lemma quad_no_slash [simp]: "CHR ''/'' \<notin> set (quad a b c d)"
  by (simp add: quad_def)

text \<open>
  On IPv4 text the matcher is CIDR matching: with a prefix length up to 32 an address is in
  the block exactly when both have the same network part.
\<close>

lemma cidr_match_ipv4:
  assumes "a < 256" "b < 256" "c < 256" "d < 256" "a' < 256" "b' < 256" "c' < 256" "d' < 256" "p \<le> 32"
  shows "ipMatchesCidr (quad a b c d) (quad a' b' c' d' @ ''/'' @ dec p) \<longleftrightarrow>
           quad_value a b c d div 2 ^ (32 - p) = quad_value a' b' c' d' div 2 ^ (32 - p)"
proof -
  let ?v = "quad_value a b c d" and ?w = "quad_value a' b' c' d'"
  have v: "?v < 2 ^ 32" by (rule quad_value_bound) (use assms in simp_all)
  have w: "?w < 2 ^ 32" by (rule quad_value_bound) (use assms in simp_all)
  have ints: "ipv4ToInt (quad a b c d) = of_nat ?v" "ipv4ToInt (quad a' b' c' d') = of_nat ?w"
    using assms by (auto intro!: ipv4ToInt_quad)
  have *: "ipMatchesCidr (quad a b c d) (quad a' b' c' d' @ ''/'' @ dec p) \<longleftrightarrow>
      ((of_nat ?v :: ipv4) AND cidr_mask (Some (int p))) = (of_nat ?w AND cidr_mask (Some (int p)))"
    using ipMatchesCidr_slash [of "quad a' b' c' d'" "dec p"] by (simp add: ints)
  show ?thesis
  proof (cases "p = 0")
    case True
    then show ?thesis using * v w by (simp add: cidr_mask_def)
  next
    case False
    have k: "nat ((32 - int p) mod 32) = 32 - p"
      using False assms(9) by (subst mod_pos_pos_trivial) auto
    have "32 - p < 32" using False by simp
    then show ?thesis
      using * False k masked_eq_iff [of "32 - p" ?v ?w] v w by (simp add: cidr_mask_def)
  qed
qed

lemma cidr_match_ipv4_witness:
  "ipMatchesCidr (quad 192 168 1 77) (quad 192 168 1 0 @ ''/'' @ dec 24)"
  by (subst cidr_match_ipv4) (simp_all add: quad_value_def)

text \<open>
  A prefix length above 32 is not refused: the shift distance wraps modulo 32, so \<open>/33\<close> compares
  one bit and \<open>/64\<close> all 32.
\<close>

lemma cidr_prefix_wraps:
  assumes "32 < p"
  shows "cidr_mask (Some p) = cidr_mask (Some (if p mod 32 = 0 then 32 else p mod 32))"
  using assms mod_diff_right_eq [of 32 p 32] by (auto simp: cidr_mask_def)

lemma cidr_prefix_wraps_witness:
  "cidr_mask (Some 33) = cidr_mask (Some (if (33::int) mod 32 = 0 then 32 else 33 mod 32))"
  by (rule cidr_prefix_wraps) simp

text \<open>
  Texts without dots are compared only by the number they start with: IPv6 addresses whose first
  group starts with the same digits, or with none, match each other under every prefix length, so
  an allow list with one IPv6 entry lets unrelated IPv6 clients in.
\<close>

lemma cidr_ipv6_collapse:
  assumes "CHR ''.'' \<notin> set ip" "CHR ''.'' \<notin> set net" "CHR ''/'' \<notin> set net" "CHR ''/'' \<notin> set pfx"
    and "parse_int ip = parse_int net"
  shows "ipMatchesCidr ip (net @ ''/'' @ pfx)"
proof -
  have "ipv4ToInt ip = ipv4ToInt net"
    using assms(1,2,5) by (simp add: ipv4ToInt_def)
  then show ?thesis using ipMatchesCidr_slash [OF assms(3,4)] by simp
qed

lemma cidr_ipv6_collapse_witness:
  "ipMatchesCidr ''fe80::dead:beef'' (''::1'' @ ''/'' @ ''128'')"
  by (rule cidr_ipv6_collapse) (simp_all add: parse_int_def parse_digits_def is_digit_def js_space_def)

end
