(* ===== verification/Js_Number.thy ===== *)
theory Js_Number
  imports Complex_Main Js_Prelude
begin

text \<open>
  JavaScript numbers as the limiters use them: the exact rationals with the two infinities and NaN.
  Rounding of doubles and the sign of zero are not modelled: a result that a double can hold
  exactly is the one computed here, and zero is the positive zero.
\<close>

datatype jsnum = Num rat | PInf | NInf | NaN

fun num_neg :: "jsnum \<Rightarrow> jsnum" where
  "num_neg (Num x) = Num (- x)"
| "num_neg PInf = NInf"
| "num_neg NInf = PInf"
| "num_neg NaN = NaN"

fun num_add :: "jsnum \<Rightarrow> jsnum \<Rightarrow> jsnum" where
  "num_add NaN b = NaN"
| "num_add a NaN = NaN"
| "num_add (Num x) (Num y) = Num (x + y)"
| "num_add (Num x) b = b"
| "num_add a (Num y) = a"
| "num_add PInf NInf = NaN"
| "num_add NInf PInf = NaN"
| "num_add PInf PInf = PInf"
| "num_add NInf NInf = NInf"

definition num_sub :: "jsnum \<Rightarrow> jsnum \<Rightarrow> jsnum" where
  "num_sub a b = num_add a (num_neg b)"

text \<open>The infinity with the sign of a number; NaN for zero (as in \<open>Infinity * 0\<close> and \<open>0 / 0\<close>).\<close>

definition signed_inf :: "rat \<Rightarrow> jsnum" where
  "signed_inf x = (if x > 0 then PInf else if x < 0 then NInf else NaN)"

fun num_mul :: "jsnum \<Rightarrow> jsnum \<Rightarrow> jsnum" where
  "num_mul NaN b = NaN"
| "num_mul a NaN = NaN"
| "num_mul (Num x) (Num y) = Num (x * y)"
| "num_mul (Num x) PInf = signed_inf x"
| "num_mul (Num x) NInf = signed_inf (- x)"
| "num_mul PInf (Num y) = signed_inf y"
| "num_mul NInf (Num y) = signed_inf (- y)"
| "num_mul PInf PInf = PInf"
| "num_mul NInf NInf = PInf"
| "num_mul PInf NInf = NInf"
| "num_mul NInf PInf = NInf"

fun num_div :: "jsnum \<Rightarrow> jsnum \<Rightarrow> jsnum" where
  "num_div NaN b = NaN"
| "num_div a NaN = NaN"
| "num_div (Num x) (Num y) = (if y = 0 then signed_inf x else Num (x / y))"
| "num_div (Num x) b = Num 0"
| "num_div PInf (Num y) = (if y < 0 then NInf else PInf)"
| "num_div NInf (Num y) = (if y < 0 then PInf else NInf)"
| "num_div a b = NaN"

fun num_floor :: "jsnum \<Rightarrow> jsnum" where
  "num_floor (Num x) = Num (of_int \<lfloor>x\<rfloor>)"
| "num_floor a = a"

fun num_ceil :: "jsnum \<Rightarrow> jsnum" where
  "num_ceil (Num x) = Num (of_int \<lceil>x\<rceil>)"
| "num_ceil a = a"

text \<open>The comparison \<open>a < b\<close>: false as soon as one side is NaN.\<close>

fun num_less :: "jsnum \<Rightarrow> jsnum \<Rightarrow> bool" where
  "num_less (Num x) (Num y) = (x < y)"
| "num_less (Num x) PInf = True"
| "num_less NInf (Num y) = True"
| "num_less NInf PInf = True"
| "num_less a b = False"

text \<open>The comparison \<open>a <= b\<close>.\<close>

definition num_le :: "jsnum \<Rightarrow> jsnum \<Rightarrow> bool" where
  "num_le a b = (a \<noteq> NaN \<and> b \<noteq> NaN \<and> \<not> num_less b a)"

text \<open>\<open>Math.min\<close>, which is NaN as soon as one argument is.\<close>

definition num_min :: "jsnum \<Rightarrow> jsnum \<Rightarrow> jsnum" where
  "num_min a b = (if a = NaN \<or> b = NaN then NaN else if num_less b a then b else a)"

text \<open>\<open>Math.max\<close>, likewise.\<close>

definition num_max :: "jsnum \<Rightarrow> jsnum \<Rightarrow> jsnum" where
  "num_max a b = (if a = NaN \<or> b = NaN then NaN else if num_less a b then b else a)"

abbreviation num_of_nat :: "nat \<Rightarrow> jsnum" where
  "num_of_nat n \<equiv> Num (of_nat n)"

lemma num_sub_Num [simp]: "num_sub (Num x) (Num y) = Num (x - y)"
  by (simp add: num_sub_def)

lemma num_sub_NaN [simp]: "num_sub a NaN = NaN" "num_sub NaN a = NaN"
  by (cases a; simp add: num_sub_def)+

lemma num_le_Num [simp]: "num_le (Num x) (Num y) = (x \<le> y)"
  by (auto simp: num_le_def)

lemma num_min_Num [simp]: "num_min (Num x) (Num y) = Num (min x y)"
  by (auto simp: num_min_def min_def)

lemma num_min_PInf [simp]: "num_min (Num x) PInf = Num x"
  by (simp add: num_min_def)

lemma num_max_Num [simp]: "num_max (Num x) (Num y) = Num (max x y)"
  by (auto simp: num_max_def max_def)

lemma num_max_NInf [simp]: "num_max NInf (Num x) = Num x"
  by (simp add: num_max_def)

lemma num_min_PInf_left [simp]: "num_min PInf (Num x) = Num x"
  by (simp add: num_min_def)

lemma num_add_NaN_right [simp]: "num_add a NaN = NaN"
  by (cases a) auto

lemma num_div_NaN_right [simp]: "num_div a NaN = NaN"
  by (cases a) auto

lemma num_less_NaN [simp]: "\<not> num_less NaN a" "\<not> num_less a NaN"
  by (cases a; simp)+

subsection \<open>Number(text)\<close>

definition mantissa_value :: "string \<Rightarrow> rat option" where
  "mantissa_value s =
     (let i = takeWhile is_digit s in
      case dropWhile is_digit s of
        [] \<Rightarrow> if i = [] then None else Some (of_nat (undec i))
      | c # f \<Rightarrow> if c = CHR ''.'' \<and> all_digits f \<and> (i \<noteq> [] \<or> f \<noteq> [])
                 then Some (of_nat (undec (i @ f)) / 10 ^ length f) else None)"

definition scaled_value :: "rat \<Rightarrow> string \<Rightarrow> rat option" where
  "scaled_value m e =
     (case e of
        [] \<Rightarrow> None
      | c # d \<Rightarrow>
          if c = CHR ''-'' then (if d \<noteq> [] \<and> all_digits d then Some (m / 10 ^ undec d) else None)
          else let d' = (if c = CHR ''+'' then d else e)
               in if d' \<noteq> [] \<and> all_digits d' then Some (m * 10 ^ undec d') else None)"

definition unsigned_value :: "string \<Rightarrow> jsnum" where
  "unsigned_value s =
     (if s = ''Infinity'' then PInf
      else let m = takeWhile (\<lambda>c. c \<noteq> CHR ''e'' \<and> c \<noteq> CHR ''E'') s;
               r = dropWhile (\<lambda>c. c \<noteq> CHR ''e'' \<and> c \<noteq> CHR ''E'') s
           in case mantissa_value m of
                None \<Rightarrow> NaN
              | Some x \<Rightarrow> (case r of [] \<Rightarrow> Num x
                             | _ # e \<Rightarrow> (case scaled_value x e of Some y \<Rightarrow> Num y | None \<Rightarrow> NaN)))"

definition digit_of_base :: "nat \<Rightarrow> char \<Rightarrow> nat option" where
  "digit_of_base b c =
     (let d = (if is_digit c then digit_val c else if CHR ''a'' \<le> lower_char c then of_char (lower_char c) - 87 else b)
      in if d < b then Some d else None)"

fun base_value :: "nat \<Rightarrow> nat \<Rightarrow> string \<Rightarrow> nat option" where
  "base_value b a [] = Some a"
| "base_value b a (c # s) = (case digit_of_base b c of Some d \<Rightarrow> base_value b (a * b + d) s | None \<Rightarrow> None)"

definition radix_value :: "nat \<Rightarrow> string \<Rightarrow> jsnum" where
  "radix_value b s = (if s = [] then NaN else case base_value b 0 s of Some n \<Rightarrow> num_of_nat n | None \<Rightarrow> NaN)"

definition to_number :: "string \<Rightarrow> jsnum" where
  "to_number text' =
     (case trim text' of
        [] \<Rightarrow> Num 0
      | c # r \<Rightarrow>
          if c = CHR ''-'' then num_neg (unsigned_value r)
          else if c = CHR ''+'' then unsigned_value r
          else if c = CHR ''0'' \<and> r \<noteq> [] \<and> lower_char (hd r) \<in> {CHR ''x'', CHR ''o'', CHR ''b''}
               then radix_value (if lower_char (hd r) = CHR ''x'' then 16 else if lower_char (hd r) = CHR ''o'' then 8 else 2) (tl r)
          else unsigned_value (c # r))"

fun is_integer :: "jsnum \<Rightarrow> int option" where
  "is_integer (Num x) = (if of_int \<lfloor>x\<rfloor> = x then Some \<lfloor>x\<rfloor> else None)"
| "is_integer _ = None"

text \<open>\<open>String(i)\<close> of an integer below \<open>2\<^sup>5\<^sup>3\<close>.\<close>

definition int_text :: "int \<Rightarrow> string" where
  "int_text i = (if i < 0 then CHR ''-'' # dec (nat (- i)) else dec (nat i))"

lemma unsigned_value_dec [simp]: "unsigned_value (dec n) = num_of_nat n"
proof -
  have d: "list_all is_digit (dec n)" using all_digits_dec [of n] by (simp add: all_digits_def)
  then have e: "list_all (\<lambda>c. c \<noteq> CHR ''e'' \<and> c \<noteq> CHR ''E'') (dec n)"
    by (rule list.pred_mono_strong) (auto simp: is_digit_def)
  then have t: "takeWhile (\<lambda>c. c \<noteq> CHR ''e'' \<and> c \<noteq> CHR ''E'') (dec n) = dec n"
    "dropWhile (\<lambda>c. c \<noteq> CHR ''e'' \<and> c \<noteq> CHR ''E'') (dec n) = []"
    by (auto simp: list_all_iff takeWhile_eq_all_conv)
  have m: "mantissa_value (dec n) = Some (of_nat n)"
  proof -
    have "dropWhile is_digit (dec n) = []" using d by (simp add: list_all_iff)
    note drop = this
    show ?thesis unfolding mantissa_value_def Let_def takeWhile_digits [OF all_digits_dec] drop by simp
  qed
  have "dec n \<noteq> ''Infinity''" using d by (auto simp: is_digit_def)
  then show ?thesis by (simp add: unsigned_value_def t m)
qed

lemma to_number_int_text [simp]: "to_number (int_text i) = Num (of_int i)"
proof -
  have pos: "to_number (dec n) = num_of_nat n" for n
  proof -
    obtain c r where cr: "dec n = c # r" using dec_nonempty [of n] by (cases "dec n") auto
    then have d: "is_digit c" "all_digits r" using all_digits_dec [of n] by auto
    then have "c \<noteq> CHR ''-''" "c \<noteq> CHR ''+''" by (auto simp: is_digit_def)
    moreover have "r \<noteq> [] \<Longrightarrow> lower_char (hd r) \<notin> {CHR ''x'', CHR ''o'', CHR ''b''}"
      using d(2) by (cases r) (auto simp: is_digit_def lower_char_def)
    moreover have "trim (dec n) = c # r" using trim_digits [OF all_digits_dec, of n] cr by simp
    ultimately show ?thesis using unsigned_value_dec [of n] by (auto simp: to_number_def cr)
  qed
  show ?thesis
  proof (cases "i < 0")
    case True
    have "trim (CHR ''-'' # dec (nat (- i))) = CHR ''-'' # dec (nat (- i))"
    proof -
      have "\<exists>x \<in> set (dec (nat (- i))). \<not> js_space x"
        using all_digits_dec [of "nat (- i)"] dec_nonempty [of "nat (- i)"] js_space_digit
        by (metis all_digits_simps(2) list.exhaust list.set_intros(1))
      moreover have "\<not> js_space CHR ''-''" by (simp add: js_space_def)
      ultimately show ?thesis
        using dropWhile_space_digits [of "rev (dec (nat (- i)))"] by (auto simp: trim_def dropWhile_append)
    qed
    with True show ?thesis by (simp add: int_text_def to_number_def)
  next
    case False
    with pos [of "nat i"] show ?thesis by (simp add: int_text_def)
  qed
qed

end
