(* ===== verification/Endpoint_Groups.thy ===== *)
theory Endpoint_Groups
  imports Js_Number
begin

text \<open>
  rateLimit/endpointGroups.js: which endpoint group a path belongs to, and the sustained and burst
  limits of a tier in a group. A runtime override (runtimeConfig.js) is a parameter.
\<close>

definition ENDPOINT_GROUP_DEFINITIONS :: "(string \<times> string list) list" where
  "ENDPOINT_GROUP_DEFINITIONS =
     [(''websocket'', [''/ws'', ''/socket'', ''/api/ws'', ''/api/socket'']),
      (''simulate'', [''/api/simulate'', ''/api/sandbox/simulate'']),
      (''contracts'', [''/api/contracts'', ''/api/v1/contracts'', ''/api/spec'', ''/api/verify'']),
      (''search'', [''/api/search'', ''/api/wallet'']),
      (''events'', [''/api/events'', ''/api/v1/events''])]"

definition TIER_BURST_DEFAULTS :: "(string \<times> nat) list" where
  "TIER_BURST_DEFAULTS =
     [(''unauthenticated'', 10), (''free'', 50), (''pro'', 200), (''enterprise'', 500)]"

definition tier_row :: "rat \<Rightarrow> rat \<Rightarrow> rat \<Rightarrow> (string \<times> jsnum) list" where
  "tier_row u f p =
     [(''unauthenticated'', Num u), (''free'', Num f), (''pro'', Num p), (''enterprise'', PInf)]"

definition GROUP_TIER_LIMITS :: "(string \<times> (string \<times> jsnum) list) list" where
  "GROUP_TIER_LIMITS =
     [(''events'', tier_row 60 1000 10000),
      (''search'', tier_row 30 500 5000),
      (''contracts'', tier_row 10 100 1000),
      (''simulate'', tier_row 5 50 500),
      (''websocket'', tier_row 3 30 300),
      (''default'', tier_row 60 1000 10000)]"

subsection \<open>Resolving a path\<close>

text \<open>The test of one pattern against the lower-cased path.\<close>

definition pattern_matches :: "string \<Rightarrow> string \<Rightarrow> bool" where
  "pattern_matches normalised pat \<longleftrightarrow>
     normalised = pat \<or> prefix (pat @ ''/'') normalised \<or> prefix (pat @ ''?'') normalised"

fun first_group :: "string \<Rightarrow> (string \<times> string list) list \<Rightarrow> string" where
  "first_group normalised [] = ''default''"
| "first_group normalised ((name, pats) # groups) =
     (if list_ex (pattern_matches normalised) pats then name else first_group normalised groups)"

text \<open>A path that is not a string is \<open>None\<close>.\<close>

definition resolveEndpointGroup :: "string option \<Rightarrow> string" where
  "resolveEndpointGroup path =
     (case path of None \<Rightarrow> ''default'' | Some p \<Rightarrow> first_group (lower p) ENDPOINT_GROUP_DEFINITIONS)"

subsection \<open>Limits of a tier\<close>

definition tier_rpm :: "(string \<Rightarrow> string \<Rightarrow> jsnum option) \<Rightarrow> string \<Rightarrow> string \<Rightarrow> jsnum" where
  "tier_rpm runtime grp tier =
     (let base = (case map_of GROUP_TIER_LIMITS grp of
                    Some row \<Rightarrow> row | None \<Rightarrow> the (map_of GROUP_TIER_LIMITS ''default''))
      in case runtime grp tier of
           Some r \<Rightarrow> r
         | None \<Rightarrow> (case map_of base tier of
                      Some r \<Rightarrow> r
                    | None \<Rightarrow> (case map_of base ''unauthenticated'' of Some r \<Rightarrow> r | None \<Rightarrow> Num 60)))"

definition usable_override :: "jsnum \<Rightarrow> bool" where
  "usable_override r \<longleftrightarrow> (case r of Num x \<Rightarrow> x > 0 | _ \<Rightarrow> False)"

definition tier_burst :: "string \<Rightarrow> nat" where
  "tier_burst tier =
     (case map_of TIER_BURST_DEFAULTS tier of
        Some b \<Rightarrow> b | None \<Rightarrow> the (map_of TIER_BURST_DEFAULTS ''unauthenticated''))"

text \<open>An override that is not a number is \<open>None\<close>. The result is the pair of rpm and burst.\<close>

definition getTierLimits ::
  "(string \<Rightarrow> string \<Rightarrow> jsnum option) \<Rightarrow> string \<Rightarrow> string \<Rightarrow> jsnum option \<Rightarrow> jsnum \<times> nat" where
  "getTierLimits runtime grp tier overrideRpm =
     (let rpm = (case overrideRpm of
                   Some r \<Rightarrow> if usable_override r then r else tier_rpm runtime grp tier
                 | None \<Rightarrow> tier_rpm runtime grp tier)
      in (rpm, tier_burst tier))"

subsection \<open>The order of the groups does not matter\<close>

text \<open>Two patterns can match one path only if one continues the other at a separator.\<close>

definition patterns_apart :: "string \<Rightarrow> string \<Rightarrow> bool" where
  "patterns_apart p q \<longleftrightarrow>
     p \<noteq> q \<and> \<not> prefix (p @ ''/'') q \<and> \<not> prefix (p @ ''?'') q \<and>
     \<not> prefix (q @ ''/'') p \<and> \<not> prefix (q @ ''?'') p"

lemma prefix_snoc_cases:
  assumes "prefix (p @ [c]) n" "prefix (q @ [d]) n"
  shows "p = q \<or> prefix (p @ [c]) q \<or> prefix (q @ [d]) p"
proof -
  consider "prefix (p @ [c]) (q @ [d])" | "prefix (q @ [d]) (p @ [c])"
    using assms prefix_same_cases by blast
  then show ?thesis by cases (auto simp: prefix_snoc)
qed

lemma patterns_apart_match:
  assumes "patterns_apart p q" "pattern_matches n p"
  shows "\<not> pattern_matches n q"
proof
  assume q: "pattern_matches n q"
  have "n \<noteq> p" using q assms(1) by (auto simp: pattern_matches_def patterns_apart_def)
  moreover have "n \<noteq> q" using assms by (auto simp: pattern_matches_def patterns_apart_def)
  ultimately obtain c d where cd: "prefix (p @ [c]) n" "prefix (q @ [d]) n"
    "c = CHR ''/'' \<or> c = CHR ''?''" "d = CHR ''/'' \<or> d = CHR ''?''"
    using q assms(2) by (auto simp: pattern_matches_def)
  from prefix_snoc_cases [OF cd(1,2)] show False
    using cd(3,4) assms(1) by (auto simp: patterns_apart_def)
qed

fun groups_apart :: "(string \<times> string list) list \<Rightarrow> bool" where
  "groups_apart [] = True"
| "groups_apart ((name, pats) # groups) =
     (list_all (\<lambda>(name', pats'). name' \<noteq> name \<and> list_all (\<lambda>p. list_all (patterns_apart p) pats') pats) groups \<and>
      groups_apart groups)"

lemma table_groups_apart: "groups_apart ENDPOINT_GROUP_DEFINITIONS"
  unfolding ENDPOINT_GROUP_DEFINITIONS_def by (simp add: patterns_apart_def)

lemma first_group_apart:
  assumes "groups_apart groups" "(name, pats) \<in> set groups" "list_ex (pattern_matches n) pats"
  shows "first_group n groups = name"
  using assms
proof (induction groups rule: groups_apart.induct)
  case (2 name' pats' groups)
  show ?case
  proof (cases "(name, pats) = (name', pats')")
    case True
    then show ?thesis using 2 by simp
  next
    case False
    then have "(name, pats) \<in> set groups" using 2 by auto
    then have "list_all (\<lambda>p. list_all (patterns_apart p) pats) pats'"
      using 2 by (auto simp: list_all_iff)
    then have "\<not> list_ex (pattern_matches n) pats'"
      using 2(4) patterns_apart_match unfolding list_ex_iff list_all_iff by blast
    then show ?thesis using 2 \<open>(name, pats) \<in> set groups\<close> by simp
  qed
qed simp

lemma first_group_default:
  assumes "\<forall>(name, pats) \<in> set groups. \<not> list_ex (pattern_matches n) pats"
  shows "first_group n groups = ''default''"
  using assms by (induction groups) (auto simp: list_ex_iff)

lemma first_group_cases:
  "first_group n groups = ''default'' \<or>
     (\<exists>pats. (first_group n groups, pats) \<in> set groups \<and> list_ex (pattern_matches n) pats)"
  by (induction n groups rule: first_group.induct) auto

text \<open>
  A path is put into a group exactly when it matches one of the group's patterns: the patterns of
  different groups never match the same path, so the priority order of the table does not decide anything.
\<close>

lemma resolve_order_irrelevant:
  assumes "(name, pats) \<in> set ENDPOINT_GROUP_DEFINITIONS"
  shows "resolveEndpointGroup (Some path) = name \<longleftrightarrow> list_ex (pattern_matches (lower path)) pats"
proof
  assume "list_ex (pattern_matches (lower path)) pats"
  then show "resolveEndpointGroup (Some path) = name"
    using first_group_apart [OF table_groups_apart assms] by (simp add: resolveEndpointGroup_def)
next
  assume r: "resolveEndpointGroup (Some path) = name"
  have "name \<noteq> ''default''" using assms by (auto simp: ENDPOINT_GROUP_DEFINITIONS_def)
  then obtain pats' where p: "(name, pats') \<in> set ENDPOINT_GROUP_DEFINITIONS"
      "list_ex (pattern_matches (lower path)) pats'"
    using first_group_cases [of "lower path" ENDPOINT_GROUP_DEFINITIONS] r
    by (auto simp: resolveEndpointGroup_def)
  then have "pats' = pats" using assms by (auto simp: ENDPOINT_GROUP_DEFINITIONS_def)
  then show "list_ex (pattern_matches (lower path)) pats" using p by simp
qed

lemma resolve_order_irrelevant_witness:
  "resolveEndpointGroup (Some ''/API/Wallet/G1'') = ''search''"
proof -
  have "(''search'', [''/api/search'', ''/api/wallet'']) \<in> set ENDPOINT_GROUP_DEFINITIONS"
    by (simp add: ENDPOINT_GROUP_DEFINITIONS_def)
  moreover have "list_ex (pattern_matches (lower ''/API/Wallet/G1'')) [''/api/search'', ''/api/wallet'']"
    by code_simp
  ultimately show ?thesis using resolve_order_irrelevant by blast
qed

subsection \<open>Limits are usable\<close>

definition positive_rate :: "jsnum \<Rightarrow> bool" where
  "positive_rate r = (case r of Num x \<Rightarrow> 0 < x | PInf \<Rightarrow> True | _ \<Rightarrow> False)"

lemma map_of_tier_row: "map_of (tier_row u f p) tier = Some r \<Longrightarrow> r \<in> {Num u, Num f, Num p, PInf}"
  by (auto simp: tier_row_def split: if_splits)

lemma limits_rows:
  "map_of GROUP_TIER_LIMITS grp = Some row \<Longrightarrow>
     \<exists>u f p. row = tier_row u f p \<and> 0 < u \<and> 0 < f \<and> 0 < p"
  unfolding GROUP_TIER_LIMITS_def
  by (auto split: if_splits; (intro exI conjI, rule refl, simp_all))

lemma tier_rpm_positive:
  assumes "\<And>g t r. runtime g t = Some r \<Longrightarrow> positive_rate r"
  shows "positive_rate (tier_rpm runtime grp tier)"
proof -
  have row: "positive_rate (case map_of (tier_row u f p) tier of
        Some r \<Rightarrow> r | None \<Rightarrow> (case map_of (tier_row u f p) ''unauthenticated'' of Some r \<Rightarrow> r | None \<Rightarrow> Num 60))"
    if "0 < u" "0 < f" "0 < p" for u f p
    using that by (auto simp: tier_row_def positive_rate_def)
  obtain u f p where "(case map_of GROUP_TIER_LIMITS grp of
        Some row \<Rightarrow> row | None \<Rightarrow> the (map_of GROUP_TIER_LIMITS ''default'')) = tier_row u f p"
      "0 < u" "0 < f" "0 < p"
  proof (cases "map_of GROUP_TIER_LIMITS grp")
    case None
    have "the (map_of GROUP_TIER_LIMITS ''default'') = tier_row 60 1000 10000"
      by (simp add: GROUP_TIER_LIMITS_def)
    then show thesis using that [of 60 1000 10000] None by simp
  next
    case (Some row)
    then show thesis using limits_rows [OF Some] that by auto
  qed
  then show ?thesis
    using row assms by (simp add: tier_rpm_def Let_def split: option.split)
qed

lemma tier_burst_values: "tier_burst tier \<in> {10, 50, 200, 500}"
  by (simp add: tier_burst_def TIER_BURST_DEFAULTS_def)

lemma usable_override_positive: "usable_override r \<Longrightarrow> positive_rate r"
  by (cases r) (auto simp: usable_override_def positive_rate_def)

lemma getTierLimits_positive:
  assumes "\<And>g t r. runtime g t = Some r \<Longrightarrow> positive_rate r"
    and "getTierLimits runtime grp tier overrideRpm = (rpm, burst)"
  shows "positive_rate rpm" "0 < burst"
  using assms tier_rpm_positive [OF assms(1)] tier_burst_values [of tier] usable_override_positive
  by (auto simp: getTierLimits_def Let_def split: option.splits if_splits)

end
