(* ===== verification/Limiter_Budget.thy ===== *)
theory Limiter_Budget
  imports Complex_Main
begin

text \<open>
  The contract the request limiters share: a limiter answers each request with admit or refuse, and
  some credit, never negative, pays for every admitted request. A run of any length then admits at
  most the initial credit.
\<close>

fun admitted :: "('s \<Rightarrow> 'i \<Rightarrow> bool \<times> 's) \<Rightarrow> 's \<Rightarrow> 'i list \<Rightarrow> nat" where
  "admitted step s [] = 0"
| "admitted step s (i # inputs) =
     (let (a, s') = step s i in (if a then 1 else 0) + admitted step s' inputs)"

locale credit_limiter =
  fixes step :: "'s \<Rightarrow> 'i \<Rightarrow> bool \<times> 's"
    and good :: "'s \<Rightarrow> bool"
    and fits :: "'i \<Rightarrow> bool"
    and credit :: "'s \<Rightarrow> rat"
  assumes credit_nonneg: "good s \<Longrightarrow> 0 \<le> credit s"
    and step_good: "good s \<Longrightarrow> fits i \<Longrightarrow> good (snd (step s i))"
    and step_pays: "good s \<Longrightarrow> fits i \<Longrightarrow>
          credit (snd (step s i)) + (if fst (step s i) then 1 else 0) \<le> credit s"
begin

lemma admitted_credit:
  "good s \<Longrightarrow> list_all fits inputs \<Longrightarrow> of_nat (admitted step s inputs) \<le> credit s"
proof (induction inputs arbitrary: s)
  case Nil
  then show ?case by (simp add: credit_nonneg)
next
  case (Cons i inputs)
  then have "of_nat (admitted step (snd (step s i)) inputs) \<le> credit (snd (step s i))"
    using step_good by simp
  then show ?case
    using step_pays [of s i] Cons.prems by (simp add: case_prod_unfold Let_def split: if_splits)
qed

end

end
