(* ===== verification/Token_Bucket.thy ===== *)
theory Token_Bucket
  imports Endpoint_Groups Limiter_Budget
begin

text \<open>
  rateLimit/tokenBucket.js: the in-process token bucket, the CL.THROTTLE reply and the middleware.
  Time is \<open>Date.now()\<close>, a whole number of milliseconds, passed as an argument; the Redis command is a
  parameter that answers or throws.
\<close>

subsection \<open>The in-process bucket\<close>

record bucket =
  tokens :: jsnum
  lastRefill :: jsnum

record consume_result =
  c_allowed :: bool
  c_remaining :: jsnum
  c_retryAfter :: jsnum
  c_reset :: jsnum

type_synonym buckets = "string \<Rightarrow> bucket option"

text \<open>The refill block: whole tokens for the elapsed time, the remainder kept in \<open>lastRefill\<close>.\<close>

definition refill :: "jsnum \<Rightarrow> nat \<Rightarrow> jsnum \<Rightarrow> bucket \<Rightarrow> bucket" where
  "refill refillRateMs maxTokens now b =
     (let elapsed = num_sub now (lastRefill b);
          tokensToAdd = num_floor (num_div elapsed refillRateMs)
      in if num_less (Num 0) tokensToAdd
         then let last = num_add now (num_sub (num_mul tokensToAdd refillRateMs) elapsed)
              in \<lparr>tokens = num_min (num_of_nat maxTokens) (num_add (tokens b) tokensToAdd),
                  lastRefill = (if num_less now last then now else last)\<rparr>
         else b)"

definition fallbackConsume ::
  "buckets \<Rightarrow> string \<Rightarrow> jsnum \<Rightarrow> nat \<Rightarrow> int \<Rightarrow> consume_result \<times> buckets" where
  "fallbackConsume bs bucketKey rpm burst now =
     (let nowN = Num (of_int now);
          refillRateMs = num_div (Num 60000) rpm;
          b0 = (case bs bucketKey of
                  Some b \<Rightarrow> b | None \<Rightarrow> \<lparr>tokens = num_of_nat burst, lastRefill = nowN\<rparr>);
          b1 = refill refillRateMs burst nowN b0;
          allowed = num_le (Num 1) (tokens b1);
          b2 = (if allowed then b1\<lparr>tokens := num_sub (tokens b1) (Num 1)\<rparr> else b1);
          remaining = tokens b2
      in (\<lparr>c_allowed = allowed, c_remaining = remaining,
           c_retryAfter = (if allowed then Num 0 else num_ceil (num_div refillRateMs (Num 1000))),
           c_reset = num_ceil (num_div
             (num_add nowN (num_mul (num_sub (num_of_nat burst) remaining) refillRateMs)) (Num 1000))\<rparr>,
          bs(bucketKey \<mapsto> b2)))"

subsection \<open>CL.THROTTLE and the middleware\<close>

record throttle_result =
  t_allowed :: bool
  t_limit :: jsnum
  t_remaining :: jsnum
  t_retryAfter :: jsnum
  t_reset :: jsnum

text \<open>Key, max burst, count per period, period and quantity; the reply's five integers, or a throw.\<close>

type_synonym redis_throttle =
  "string \<Rightarrow> int \<Rightarrow> jsnum \<Rightarrow> nat \<Rightarrow> nat \<Rightarrow> (int \<times> int \<times> int \<times> int \<times> int) option"

definition clThrottle ::
  "redis_throttle \<Rightarrow> string \<Rightarrow> int \<Rightarrow> jsnum \<Rightarrow> nat \<Rightarrow> int \<Rightarrow> throttle_result option" where
  "clThrottle sendCommand key maxBurst countPerPeriod periodSeconds now =
     (case sendCommand key maxBurst countPerPeriod periodSeconds 1 of
        None \<Rightarrow> None
      | Some (limitedFlag, limit, remaining, retryAfterSecs, resetAfterSecs) \<Rightarrow>
          Some \<lparr>t_allowed = (limitedFlag = 0), t_limit = Num (of_int limit), t_remaining = Num (of_int remaining),
                t_retryAfter = Num (of_int retryAfterSecs),
                t_reset = Num (of_int (now div 1000 + resetAfterSecs))\<rparr>)"

record rate_context =
  clientId :: string
  rc_tier :: string
  rc_rateLimit :: "jsnum option"

record rate_limit_state =
  rl_limit :: jsnum
  rl_remaining :: jsnum
  rl_reset :: jsnum
  rl_tier :: string

datatype verdict = Next | Too_many_requests jsnum

definition default_context :: rate_context where
  "default_context = \<lparr>clientId = ''unknown'', rc_tier = ''unauthenticated'', rc_rateLimit = None\<rparr>"

text \<open>
  \<open>redis\<close> is the ready client, \<open>None\<close> when there is none. The result is the verdict, the
  \<open>rateLimitState\<close> left on the request, and the fallback buckets.
\<close>

definition tokenBucketMiddleware ::
  "(string \<Rightarrow> string \<Rightarrow> jsnum option) \<Rightarrow> redis_throttle option \<Rightarrow> buckets \<Rightarrow> rate_context option \<Rightarrow>
     string option \<Rightarrow> int \<Rightarrow> verdict \<times> rate_limit_state \<times> buckets" where
  "tokenBucketMiddleware runtime redis bs ctx path now =
     (let rc = (case ctx of Some c \<Rightarrow> c | None \<Rightarrow> default_context);
          grp = resolveEndpointGroup path;
          (rpm, burst) = getTierLimits runtime grp (rc_tier rc) (rc_rateLimit rc);
          reply = (case redis of
                     None \<Rightarrow> None
                   | Some send \<Rightarrow> clThrottle send (''rl:'' @ clientId rc @ '':'' @ grp) (int burst - 1) rpm 60 now);
          (result, bs') = (case reply of
             Some r \<Rightarrow> (r, bs)
           | None \<Rightarrow> (case fallbackConsume bs (clientId rc @ '':'' @ grp) rpm burst now of (f, bs') \<Rightarrow>
               (\<lparr>t_allowed = c_allowed f, t_limit = num_of_nat burst, t_remaining = c_remaining f,
                 t_retryAfter = c_retryAfter f, t_reset = c_reset f\<rparr>, bs')))
      in (if t_allowed result then Next else Too_many_requests (t_retryAfter result),
          \<lparr>rl_limit = t_limit result, rl_remaining = t_remaining result, rl_reset = t_reset result,
           rl_tier = rc_tier rc\<rparr>, bs'))"

subsection \<open>Refill with a finite rate\<close>

lemma refill_due:
  fixes R now l :: rat
  assumes "0 < R"
  shows "of_int \<lfloor>(now - l) / R\<rfloor> * R \<le> now - l" "R \<le> now - l \<Longrightarrow> 0 < \<lfloor>(now - l) / R\<rfloor>"
proof -
  show "of_int \<lfloor>(now - l) / R\<rfloor> * R \<le> now - l"
    using of_int_floor_le [of "(now - l) / R"] assms by (simp add: pos_le_divide_eq del: of_int_floor_le)
  show "R \<le> now - l \<Longrightarrow> 0 < \<lfloor>(now - l) / R\<rfloor>"
    using assms by (simp add: zero_less_floor pos_le_divide_eq)
qed

lemma refill_finite:
  fixes now l r :: rat
  assumes "0 < r"
  defines "R \<equiv> 60000 / r"
  defines "m \<equiv> \<lfloor>(now - l) / R\<rfloor>"
  shows "refill (Num R) n (Num now) \<lparr>tokens = Num k, lastRefill = Num l\<rparr> =
     (if 0 < m then \<lparr>tokens = Num (min (of_nat n) (k + of_int m)), lastRefill = Num (l + of_int m * R)\<rparr>
      else \<lparr>tokens = Num k, lastRefill = Num l\<rparr>)"
proof -
  have R: "0 < R" using assms by simp
  have "of_int m * R \<le> now - l"
    using refill_due(1) [OF R] unfolding m_def .
  then have "l + of_int m * R \<le> now" by simp
  then show ?thesis
    using R by (simp add: refill_def Let_def m_def algebra_simps)
qed

definition consume_step ::
  "string \<Rightarrow> jsnum \<Rightarrow> nat \<Rightarrow> buckets \<Rightarrow> int \<Rightarrow> bool \<times> buckets" where
  "consume_step key rpm burst bs now =
     (case fallbackConsume bs key rpm burst now of (r, bs') \<Rightarrow> (c_allowed r, bs'))"

text \<open>What one call does to the bucket of its key.\<close>

lemma consume_step_eq:
  "consume_step key rpm burst bs now =
     (let b = refill (num_div (Num 60000) rpm) burst (Num (of_int now))
                (case bs key of Some b \<Rightarrow> b | None \<Rightarrow> \<lparr>tokens = num_of_nat burst, lastRefill = Num (of_int now)\<rparr>);
          allowed = num_le (Num 1) (tokens b)
      in (allowed, bs(key \<mapsto> (if allowed then b\<lparr>tokens := num_sub (tokens b) (Num 1)\<rparr> else b))))"
  by (simp add: consume_step_def fallbackConsume_def Let_def)

definition start_bucket :: "nat \<Rightarrow> int \<Rightarrow> bucket option \<Rightarrow> bucket" where
  "start_bucket burst now mb =
     (case mb of Some b \<Rightarrow> b | None \<Rightarrow> \<lparr>tokens = num_of_nat burst, lastRefill = Num (of_int now)\<rparr>)"

text \<open>
  A bucket of a finite rate holds a finite number of tokens, at most its burst. What it can still spend before the horizon: its
  tokens and what the time left can add; and, when all requests come in the window, at most its burst, one token whose interval
  began before the window, and what the window adds. A key without a bucket gets a full one at its first request.
\<close>

definition key_good :: "nat \<Rightarrow> bucket option \<Rightarrow> bool" where
  "key_good burst mb \<longleftrightarrow>
     (case mb of None \<Rightarrow> True | Some b \<Rightarrow> (\<exists>k l. b = \<lparr>tokens = Num k, lastRefill = Num l\<rparr> \<and> 0 \<le> k \<and> k \<le> of_nat burst))"

definition plain_credit :: "rat \<Rightarrow> rat \<Rightarrow> bucket \<Rightarrow> rat" where
  "plain_credit R horizon b =
     (case (tokens b, lastRefill b) of (Num k, Num l) \<Rightarrow> k + max 0 ((horizon - l) / R) | _ \<Rightarrow> 0)"

definition window_credit :: "rat \<Rightarrow> nat \<Rightarrow> rat \<Rightarrow> rat \<Rightarrow> rat" where
  "window_credit R burst start horizon = of_nat burst + 1 + (horizon - start) / R"

definition key_credit :: "rat \<Rightarrow> nat \<Rightarrow> rat \<Rightarrow> rat \<Rightarrow> bucket option \<Rightarrow> rat" where
  "key_credit R burst start horizon mb =
     (case mb of None \<Rightarrow> window_credit R burst start horizon
      | Some b \<Rightarrow> min (window_credit R burst start horizon) (plain_credit R horizon b))"

lemma refill_good:
  fixes k l r now :: rat
  assumes "0 < r" "0 \<le> k" "k \<le> of_nat burst"
  defines "R \<equiv> 60000 / r"
  obtains k' l' where
    "refill (Num R) burst (Num now) \<lparr>tokens = Num k, lastRefill = Num l\<rparr> = \<lparr>tokens = Num k', lastRefill = Num l'\<rparr>"
    "0 \<le> k'" "k' \<le> of_nat burst" "now - l' < R"
    "\<And>horizon. now \<le> horizon \<Longrightarrow> k' + max 0 ((horizon - l') / R) \<le> k + max 0 ((horizon - l) / R)"
proof -
  let ?m = "\<lfloor>(now - l) / R\<rfloor>"
  have R: "0 < R" using assms by simp
  note rf = refill_finite [OF assms(1), where now = now and l = l and n = burst and k = k, folded R_def]
  have up: "now - l < of_int ?m * R + R"
    using floor_correct [of "(now - l) / R"] R by (simp add: pos_divide_less_eq distrib_right)
  show thesis
  proof (cases "0 < ?m")
    case True
    have due: "l + of_int ?m * R \<le> now" using refill_due(1) [OF R, of now l] by linarith
    have "min (of_nat burst) (k + of_int ?m) + max 0 ((horizon - (l + of_int ?m * R)) / R) \<le> k + max 0 ((horizon - l) / R)"
      if "now \<le> horizon" for horizon
    proof -
      have "l + of_int ?m * R \<le> horizon" "l \<le> horizon"
        using due that mult_nonneg_nonneg [of "of_int ?m" R] True R by linarith+
      then have "max 0 ((horizon - (l + of_int ?m * R)) / R) = (horizon - (l + of_int ?m * R)) / R"
        "max 0 ((horizon - l) / R) = (horizon - l) / R"
        using R by (simp_all add: max_def zero_le_divide_iff)
      moreover have "(horizon - (l + of_int ?m * R)) / R = (horizon - l) / R - of_int ?m"
        using R by (simp add: field_simps)
      ultimately show ?thesis by linarith
    qed
    then show thesis
      using True rf assms(2,3) up
      by (intro that [of "min (of_nat burst) (k + of_int ?m)" "l + of_int ?m * R"]) auto
  next
    case False
    then have "of_int ?m * R \<le> 0" using R by (simp add: mult_le_0_iff)
    then have "now - l < R" using up by linarith
    then show thesis using rf assms(2,3) False by (intro that [of k l]) auto
  qed
qed

lemma consume_step_finite:
  fixes burst :: nat and now :: int
  assumes "0 < r" "key_good burst (bs key)"
  defines "R \<equiv> 60000 / r"
  defines "bs' \<equiv> snd (consume_step key (Num r) burst bs now)"
  shows "key_good burst (bs' key)"
    and "start \<le> of_int now \<Longrightarrow> of_int now \<le> horizon \<Longrightarrow>
         key_credit R burst start horizon (bs' key) +
           (if fst (consume_step key (Num r) burst bs now) then 1 else 0) \<le>
         key_credit R burst start horizon (bs key)"
proof -
  have R: "0 < R" using assms by simp
  obtain k l where b0: "start_bucket burst now (bs key) = \<lparr>tokens = Num k, lastRefill = Num l\<rparr>"
      "0 \<le> k" "k \<le> of_nat burst" "\<And>b. bs key = Some b \<Longrightarrow> b = \<lparr>tokens = Num k, lastRefill = Num l\<rparr>"
    using assms(2) by (cases "bs key") (auto simp: key_good_def start_bucket_def)
  obtain k' l' where b1: "refill (Num R) burst (Num (of_int now)) \<lparr>tokens = Num k, lastRefill = Num l\<rparr> =
        \<lparr>tokens = Num k', lastRefill = Num l'\<rparr>"
      "0 \<le> k'" "k' \<le> of_nat burst" "of_int now - l' < R"
      "\<And>horizon. of_int now \<le> horizon \<Longrightarrow> k' + max 0 ((horizon - l') / R) \<le> k + max 0 ((horizon - l) / R)"
    using refill_good [OF assms(1) b0(2,3), of "of_int now" l] unfolding R_def by metis
  have step: "consume_step key (Num r) burst bs now =
      (1 \<le> k', bs(key \<mapsto> \<lparr>tokens = Num (if 1 \<le> k' then k' - 1 else k'), lastRefill = Num l'\<rparr>))"
    using b0(1) b1(1) assms(1) by (simp add: consume_step_eq Let_def R_def start_bucket_def)
  show "key_good burst (bs' key)"
    using b1(2,3) by (simp add: bs'_def step key_good_def)
  assume t: "start \<le> of_int now" "of_int now \<le> horizon"
  let ?W = "window_credit R burst start horizon"
  have "(horizon - l') / R \<le> (horizon - start) / R + 1"
  proof -
    have "(horizon - l') / R \<le> (horizon - start + R) / R" using b1(4) t R by (intro divide_right_mono) auto
    then show ?thesis using R by (simp add: add_divide_distrib)
  qed
  moreover have "0 \<le> (horizon - start) / R" using t R by simp
  ultimately have W: "k' + max 0 ((horizon - l') / R) \<le> ?W"
    using b1(3) by (auto simp: window_credit_def max_def)
  have "key_credit R burst start horizon (bs' key) + (if 1 \<le> k' then 1 else 0) \<le> k' + max 0 ((horizon - l') / R)"
    by (auto simp: bs'_def step key_credit_def plain_credit_def)
  also have "\<dots> \<le> key_credit R burst start horizon (bs key)"
    using W b1(5) [OF t(2)] b0(4) by (auto simp: key_credit_def plain_credit_def split: option.split)
  finally show "key_credit R burst start horizon (bs' key) + (if fst (consume_step key (Num r) burst bs now) then 1 else 0) \<le>
      key_credit R burst start horizon (bs key)" by (simp add: step)
qed

text \<open>With the unlimited rate the refill interval is zero, and one refill leaves the clock at NaN.\<close>

definition unlimited_good :: "bucket option \<Rightarrow> bool" where
  "unlimited_good mb =
     (case mb of
        None \<Rightarrow> True
      | Some b \<Rightarrow> (case (tokens b, lastRefill b) of
                     (Num k, Num l) \<Rightarrow> 0 \<le> k | (Num k, NaN) \<Rightarrow> 0 \<le> k | _ \<Rightarrow> False))"

definition unlimited_credit :: "nat \<Rightarrow> bucket option \<Rightarrow> rat" where
  "unlimited_credit burst mb =
     (case mb of
        None \<Rightarrow> 2 * of_nat burst
      | Some b \<Rightarrow> (case (tokens b, lastRefill b) of
                     (Num k, Num l) \<Rightarrow> k + of_nat burst | (Num k, _) \<Rightarrow> k | _ \<Rightarrow> 0))"

lemma refill_unlimited:
  "refill (Num 0) n (Num now) \<lparr>tokens = Num k, lastRefill = Num l\<rparr> =
     (if l < now then \<lparr>tokens = num_of_nat n, lastRefill = NaN\<rparr> else \<lparr>tokens = Num k, lastRefill = Num l\<rparr>)"
  "refill (Num 0) n (Num now) \<lparr>tokens = Num k, lastRefill = NaN\<rparr> = \<lparr>tokens = Num k, lastRefill = NaN\<rparr>"
  by (simp_all add: refill_def Let_def signed_inf_def)

lemma consume_step_unlimited:
  fixes burst :: nat and now :: int
  assumes "unlimited_good (bs key)"
  defines "bs' \<equiv> snd (consume_step key PInf burst bs now)"
  shows "unlimited_good (bs' key)"
    and "unlimited_credit burst (bs' key) + (if fst (consume_step key PInf burst bs now) then 1 else 0) \<le>
         unlimited_credit burst (bs key)"
proof -
  let ?b0 = "start_bucket burst now (bs key)"
  obtain k where k: "tokens ?b0 = Num k" "0 \<le> k" "lastRefill ?b0 = NaN \<or> (\<exists>l. lastRefill ?b0 = Num l)"
    using assms(1)
    by (cases "bs key") (auto simp: unlimited_good_def start_bucket_def split: jsnum.splits)
  have c0: "unlimited_credit burst (Some ?b0) \<le> unlimited_credit burst (bs key)"
    by (cases "bs key") (auto simp: unlimited_credit_def start_bucket_def)
  let ?b1 = "refill (Num 0) burst (Num (of_int now)) ?b0"
  obtain k' where k': "tokens ?b1 = Num k'" "0 \<le> k'" "lastRefill ?b1 = NaN \<or> (\<exists>l. lastRefill ?b1 = Num l)"
    and c1: "unlimited_credit burst (Some ?b1) \<le> unlimited_credit burst (Some ?b0)"
  proof -
    have "\<exists>k'. tokens ?b1 = Num k' \<and> 0 \<le> k' \<and> (lastRefill ?b1 = NaN \<or> (\<exists>l. lastRefill ?b1 = Num l)) \<and>
        unlimited_credit burst (Some ?b1) \<le> unlimited_credit burst (Some ?b0)"
      using k by (cases ?b0) (auto simp: refill_unlimited unlimited_credit_def)
    then show thesis using that by blast
  qed
  have step: "consume_step key PInf burst bs now =
      (1 \<le> k', bs(key \<mapsto> (if 1 \<le> k' then ?b1\<lparr>tokens := Num (k' - 1)\<rparr> else ?b1)))"
    using k'(1) by (simp add: consume_step_eq Let_def start_bucket_def)
  show "unlimited_good (bs' key)"
    using k' by (auto simp: bs'_def step unlimited_good_def)
  show "unlimited_credit burst (bs' key) + (if fst (consume_step key PInf burst bs now) then 1 else 0) \<le>
         unlimited_credit burst (bs key)"
    using c0 c1 k' by (auto simp: bs'_def step unlimited_credit_def)
qed

subsection \<open>The middleware without Redis\<close>

definition serve ::
  "(string \<Rightarrow> string \<Rightarrow> jsnum option) \<Rightarrow> rate_context \<Rightarrow> buckets \<Rightarrow> string option \<times> int \<Rightarrow> bool \<times> buckets" where
  "serve runtime rc bs req =
     (case tokenBucketMiddleware runtime None bs (Some rc) (fst req) (snd req) of (v, _, bs') \<Rightarrow> (v = Next, bs'))"

definition bucket_key :: "rate_context \<Rightarrow> string \<Rightarrow> string" where
  "bucket_key rc grp = clientId rc @ '':'' @ grp"

lemma serve_consume:
  assumes "resolveEndpointGroup (fst req) = grp"
    and "getTierLimits runtime grp (rc_tier rc) (rc_rateLimit rc) = (rpm, burst)"
  shows "serve runtime rc bs req = consume_step (bucket_key rc grp) rpm burst bs (snd req)"
  using assms
  by (simp add: serve_def tokenBucketMiddleware_def consume_step_def bucket_key_def Let_def split: prod.split)

text \<open>
  Requests of all clients, to all endpoints: the context, the path and the time. A bucket is used by the requests with its key, and
  \<open>serve_key\<close> tells which of those are let through.
\<close>

type_synonym client_request = "rate_context \<times> string option \<times> int"

definition request_key :: "client_request \<Rightarrow> string" where
  "request_key q = (case q of (rc, path, _) \<Rightarrow> bucket_key rc (resolveEndpointGroup path))"

definition request_limits :: "(string \<Rightarrow> string \<Rightarrow> jsnum option) \<Rightarrow> client_request \<Rightarrow> jsnum \<times> nat" where
  "request_limits runtime q = (case q of (rc, path, _) \<Rightarrow> getTierLimits runtime (resolveEndpointGroup path) (rc_tier rc) (rc_rateLimit rc))"

definition serve_key :: "(string \<Rightarrow> string \<Rightarrow> jsnum option) \<Rightarrow> string \<Rightarrow> buckets \<Rightarrow> client_request \<Rightarrow> bool \<times> buckets" where
  "serve_key runtime key bs q =
     (case q of (rc, path, now) \<Rightarrow> (case serve runtime rc bs (path, now) of (a, bs') \<Rightarrow> (a \<and> request_key q = key, bs')))"

lemma serve_key_eq:
  assumes "request_limits runtime q = (rpm, burst)"
  shows "serve_key runtime key bs q =
     (case consume_step (request_key q) rpm burst bs (snd (snd q)) of (a, bs') \<Rightarrow> (a \<and> request_key q = key, bs'))"
  using assms serve_consume [of "(fst (snd q), snd (snd q))" "resolveEndpointGroup (fst (snd q))" runtime "fst q" rpm burst bs]
  by (cases q) (simp add: serve_key_def request_key_def request_limits_def)

text \<open>The requests of other clients and to other endpoint groups leave the bucket alone.\<close>

lemma serve_other_key: "request_key q \<noteq> key \<Longrightarrow> snd (serve_key runtime key bs q) key = bs key \<and> \<not> fst (serve_key runtime key bs q)"
  using serve_key_eq [of runtime q "fst (request_limits runtime q)" "snd (request_limits runtime q)" key bs]
  by (simp add: consume_step_eq Let_def)

definition steady :: "(string \<Rightarrow> string \<Rightarrow> jsnum option) \<Rightarrow> string \<Rightarrow> rat \<Rightarrow> nat \<Rightarrow> client_request \<Rightarrow> bool" where
  "steady runtime key r burst q \<longleftrightarrow> request_key q \<noteq> key \<or> request_limits runtime q = (Num r, burst)"

definition in_window :: "rat \<Rightarrow> rat \<Rightarrow> client_request \<Rightarrow> bool" where
  "in_window start horizon q \<longleftrightarrow> start \<le> of_int (snd (snd q)) \<and> of_int (snd (snd q)) \<le> horizon"

lemma serve_key_good:
  assumes "0 < r" "steady runtime key r burst q" "key_good burst (bs key)"
  shows "key_good burst (snd (serve_key runtime key bs q) key)"
proof (cases "request_key q = key")
  case True
  then have "request_limits runtime q = (Num r, burst)" using assms(2) by (simp add: steady_def)
  then show ?thesis
    using True serve_key_eq [of runtime q "Num r" burst key bs]
      consume_step_finite(1) [where r = r and burst = burst and bs = bs and key = key and now = "snd (snd q)"] assms(1,3)
    by (simp split: prod.splits)
next
  case False
  then show ?thesis using serve_other_key [OF False] assms(3) by simp
qed

interpretation bucket_budget: credit_limiter "serve_key runtime key"
    "\<lambda>bs. 0 < r \<and> start \<le> horizon \<and> key_good burst (bs key)"
    "\<lambda>q. steady runtime key r burst q \<and> in_window start horizon q"
    "\<lambda>bs. if 0 < r \<and> start \<le> horizon \<and> key_good burst (bs key) then key_credit (60000 / r) burst start horizon (bs key) else 0"
  for runtime key r burst start horizon
proof (unfold_locales, goal_cases)
  case (1 bs)
  then show ?case
    by (auto simp: key_good_def key_credit_def plain_credit_def window_credit_def split: option.splits)
next
  case (2 bs q)
  then show ?case using serve_key_good by blast
next
  case (3 bs q)
  show ?case
  proof (cases "request_key q = key")
    case True
    then have l: "request_limits runtime q = (Num r, burst)" using 3 by (simp add: steady_def)
    have g: "key_good burst (snd (serve_key runtime key bs q) key)" using 3 serve_key_good by blast
    show ?thesis
      using 3 True g serve_key_eq [OF l, of key bs]
        consume_step_finite(2) [of r burst bs key start "snd (snd q)" horizon]
      by (simp add: in_window_def split: prod.splits)
  next
    case False
    then show ?thesis using 3 serve_other_key [OF False] by simp
  qed
qed

lemma earlier_good:
  assumes "0 < r" "list_all (steady runtime key r burst) qs" "key_good burst (bs key)"
  shows "key_good burst (fold (\<lambda>q bs. snd (serve_key runtime key bs q)) qs bs key)"
  using assms(2,3) by (induction qs arbitrary: bs) (auto intro: serve_key_good [OF assms(1)])

interpretation unlimited_budget: credit_limiter "serve runtime rc"
    "\<lambda>bs. getTierLimits runtime grp (rc_tier rc) (rc_rateLimit rc) = (PInf, burst) \<and>
          unlimited_good (bs (bucket_key rc grp))"
    "\<lambda>req. resolveEndpointGroup (fst req) = grp"
    "\<lambda>bs. unlimited_credit burst (bs (bucket_key rc grp))"
  for runtime rc grp burst
proof (unfold_locales, goal_cases)
  case (1 bs)
  then show ?case
    by (auto simp: unlimited_good_def unlimited_credit_def split: option.split jsnum.splits)
next
  case (2 bs req)
  then show ?case
    using consume_step_unlimited(1) [of bs "bucket_key rc grp" burst "snd req"] by (simp add: serve_consume)
next
  case (3 bs req)
  then show ?case
    using consume_step_unlimited(2) [of bs "bucket_key rc grp" burst "snd req"] by (simp add: serve_consume)
qed

text \<open>
  C1. While Redis is down, the requests on one bucket (one client and one endpoint group) that are let through in a window of time are at most
  its burst, one, and its rate times the length of the window. This holds for every window, whatever came before it,
  whatever other clients and endpoint groups do in between, and whatever order the clock gives the requests inside.
\<close>

theorem token_bucket_rate_bound:
  assumes "0 < r" "start \<le> horizon"
    and "list_all (steady runtime key r burst) earlier"
    and "list_all (\<lambda>q. steady runtime key r burst q \<and> in_window start horizon q) reqs"
  shows "of_nat (admitted (serve_key runtime key) (fold (\<lambda>q bs. snd (serve_key runtime key bs q)) earlier (\<lambda>_. None)) reqs)
           \<le> of_nat burst + 1 + (horizon - start) * r / 60000"
proof -
  let ?bs = "fold (\<lambda>q bs. snd (serve_key runtime key bs q)) earlier (\<lambda>_. None)"
  have g: "key_good burst (?bs key)" by (rule earlier_good [OF assms(1,3)]) (simp add: key_good_def)
  then have "of_nat (admitted (serve_key runtime key) ?bs reqs) \<le> key_credit (60000 / r) burst start horizon (?bs key)"
    using bucket_budget.admitted_credit [of r start horizon burst ?bs key runtime reqs] assms by simp
  also have "\<dots> \<le> window_credit (60000 / r) burst start horizon" by (simp add: key_credit_def split: option.split)
  finally show ?thesis by (simp add: window_credit_def)
qed

text \<open>The extra request is real: one request, and two seconds later the burst and one more within a millisecond.\<close>

definition free_request :: "int \<Rightarrow> client_request" where
  "free_request now = (\<lparr>clientId = ''c'', rc_tier = ''free'', rc_rateLimit = None\<rparr>, Some ''/ws'', now)"

lemma free_request_limits: "request_limits (\<lambda>_ _. None) (free_request t) = (Num 30, 50)" "request_key (free_request t) = ''c:websocket''"
proof -
  have "resolveEndpointGroup (Some ''/ws'') = ''websocket''" by code_simp
  then show "request_limits (\<lambda>_ _. None) (free_request t) = (Num 30, 50)" "request_key (free_request t) = ''c:websocket''"
    by (simp_all add: request_limits_def request_key_def free_request_def bucket_key_def getTierLimits_def tier_rpm_def
        GROUP_TIER_LIMITS_def tier_row_def tier_burst_def TIER_BURST_DEFAULTS_def)
qed

lemma free_step:
  fixes t :: int and k l :: rat
  assumes "bs ''c:websocket'' = Some \<lparr>tokens = Num k, lastRefill = Num l\<rparr>"
  defines "m \<equiv> \<lfloor>(of_int t - l) / 2000\<rfloor>"
  defines "k' \<equiv> (if 0 < m then min 50 (k + of_int m) else k)"
  shows "serve_key (\<lambda>_ _. None) ''c:websocket'' bs (free_request t) =
     (1 \<le> k', bs(''c:websocket'' \<mapsto> \<lparr>tokens = Num (if 1 \<le> k' then k' - 1 else k'), lastRefill = Num (if 0 < m then l + of_int m * 2000 else l)\<rparr>))"
proof -
  have "snd (snd (free_request t)) = t" by (simp add: free_request_def)
  then show ?thesis
    using assms(1) refill_finite [where r = 30 and now = "of_int t" and l = l and n = 50 and k = k]
    by (simp add: serve_key_eq [OF free_request_limits(1)] free_request_limits consume_step_eq Let_def m_def k'_def)
qed

lemma free_drain:
  fixes t :: int and l :: rat
  assumes "bs ''c:websocket'' = Some \<lparr>tokens = Num (of_nat n), lastRefill = Num l\<rparr>" "of_int t - l < 2000"
  shows "\<exists>bs'. bs' ''c:websocket'' = Some \<lparr>tokens = Num 0, lastRefill = Num l\<rparr> \<and>
     admitted (serve_key (\<lambda>_ _. None) ''c:websocket'') bs (replicate n (free_request t) @ qs) =
       n + admitted (serve_key (\<lambda>_ _. None) ''c:websocket'') bs' qs"
  using assms(1)
proof (induction n arbitrary: bs)
  case 0
  then show ?case by (intro exI [of _ bs]) simp
next
  case (Suc n)
  let ?bs = "bs(''c:websocket'' \<mapsto> \<lparr>tokens = Num (of_nat n), lastRefill = Num l\<rparr>)"
  have "\<not> 0 < \<lfloor>(of_int t - l) / 2000\<rfloor>" using assms(2) by simp
  then have "serve_key (\<lambda>_ _. None) ''c:websocket'' bs (free_request t) = (True, ?bs)"
    using free_step [where k = "of_nat (Suc n)" and l = l and bs = bs and t = t] Suc.prems by simp
  moreover have "?bs ''c:websocket'' = Some \<lparr>tokens = Num (of_nat n), lastRefill = Num l\<rparr>" by (rule fun_upd_same)
  then obtain bs' where "bs' ''c:websocket'' = Some \<lparr>tokens = Num 0, lastRefill = Num l\<rparr>"
    "admitted (serve_key (\<lambda>_ _. None) ''c:websocket'') ?bs (replicate n (free_request t) @ qs) =
       n + admitted (serve_key (\<lambda>_ _. None) ''c:websocket'') bs' qs"
    using Suc.IH [of ?bs] by blast
  ultimately show ?case by (intro exI [of _ bs']) (simp del: fun_upd_apply)
qed

theorem token_bucket_rate_bound_witness:
  "(let bs = fold (\<lambda>q bs. snd (serve_key (\<lambda>_ _. None) ''c:websocket'' bs q)) [free_request 0] (\<lambda>_. None);
        n = admitted (serve_key (\<lambda>_ _. None) ''c:websocket'') bs (free_request 3999 # replicate 49 (free_request 3999) @ [free_request 4000])
    in of_nat n \<le> (51 + 1 / 2000 :: rat) \<and> n = 51)"
proof -
  let ?s = "serve_key (\<lambda>_ _. None) ''c:websocket''"
  let ?bs = "fold (\<lambda>q bs. snd (?s bs q)) [free_request 0] (\<lambda>_. None)"
  let ?reqs = "free_request 3999 # replicate 49 (free_request 3999) @ [free_request 4000]"
  have s: "steady (\<lambda>_ _. None) ''c:websocket'' 30 50 (free_request t)" for t by (simp add: steady_def free_request_limits)
  have "of_nat (admitted ?s ?bs ?reqs) \<le> (51 + 1 / 2000 :: rat)"
    using token_bucket_rate_bound [of 30 3999 4000 "\<lambda>_ _. None" "''c:websocket''" 50 "[free_request 0]" ?reqs] s
    by (simp add: list_all_iff in_window_def free_request_def)
  moreover have "admitted ?s ?bs ?reqs = 51"
  proof -
    have "snd (snd (free_request 0)) = 0" by (simp add: free_request_def)
    then have b: "?bs ''c:websocket'' = Some \<lparr>tokens = Num 49, lastRefill = Num 0\<rparr>"
      by (simp add: serve_key_eq [OF free_request_limits(1)] free_request_limits consume_step_eq refill_def Let_def)
    have f: "\<lfloor>3999 / 2000 :: rat\<rfloor> = 1" by (simp add: floor_unique)
    obtain bs' where bs': "bs' ''c:websocket'' = Some \<lparr>tokens = Num 0, lastRefill = Num 2000\<rparr>"
      "admitted ?s (?bs(''c:websocket'' \<mapsto> \<lparr>tokens = Num (of_nat 49), lastRefill = Num 2000\<rparr>))
         (replicate 49 (free_request 3999) @ [free_request 4000]) = 49 + admitted ?s bs' [free_request 4000]"
      using free_drain [of "?bs(''c:websocket'' \<mapsto> \<lparr>tokens = Num (of_nat 49), lastRefill = Num 2000\<rparr>)" 49 2000 3999 "[free_request 4000]"]
      by auto
    have "admitted ?s bs' [free_request 4000] = 1" by (simp add: free_step [where k = 0 and l = 2000 and bs = bs' and t = 4000] bs'(1))
    then show ?thesis using bs'(2) f free_step [where k = 49 and l = 0 and bs = ?bs and t = 3999] b by simp
  qed
  ultimately show ?thesis by (simp add: Let_def)
qed

text \<open>
  A key whose rate is unlimited (the enterprise tier without an override) is not unlimited: without
  Redis it gets at most twice its burst, ever, because the first refill turns its clock into NaN.
\<close>

lemma unlimited_tier_runs_dry:
  assumes "getTierLimits runtime grp (rc_tier rc) (rc_rateLimit rc) = (PInf, burst)"
    and "bs (bucket_key rc grp) = None"
    and "list_all (\<lambda>req. resolveEndpointGroup (fst req) = grp) reqs"
  shows "admitted (serve runtime rc) bs reqs \<le> 2 * burst"
proof -
  have "of_nat (admitted (serve runtime rc) bs reqs) \<le> (of_nat (2 * burst) :: rat)"
    using unlimited_budget.admitted_credit [of runtime grp rc burst bs reqs] assms
    by (simp add: unlimited_good_def unlimited_credit_def)
  then show ?thesis by (simp only: of_nat_le_iff)
qed

lemma unlimited_tier_runs_dry_witness:
  "admitted (serve (\<lambda>_ _. None) \<lparr>clientId = ''c'', rc_tier = ''enterprise'', rc_rateLimit = None\<rparr>) (\<lambda>_. None)
     (replicate 5000 (Some ''/api/search'', 0)) \<le> 1000"
proof -
  have "getTierLimits (\<lambda>_ _. None) ''search'' ''enterprise'' None = (PInf, 500)"
    by (simp add: getTierLimits_def tier_rpm_def GROUP_TIER_LIMITS_def tier_row_def tier_burst_def
        TIER_BURST_DEFAULTS_def)
  moreover have "resolveEndpointGroup (Some ''/api/search'') = ''search''" by code_simp
  ultimately show ?thesis
    using unlimited_tier_runs_dry [of "\<lambda>_ _. None" "''search''"
        "\<lparr>clientId = ''c'', rc_tier = ''enterprise'', rc_rateLimit = None\<rparr>" 500 "\<lambda>_. None"
        "replicate 5000 (Some ''/api/search'', 0)"] by (simp add: list_all_iff)
qed

text \<open>
  A refused client recovers: one refill interval after the last refill the next request passes.
\<close>

lemma token_bucket_recovers:
  assumes "0 < r" "getTierLimits runtime grp (rc_tier rc) (rc_rateLimit rc) = (Num r, burst)" "1 \<le> burst"
    and "bs (bucket_key rc grp) = Some \<lparr>tokens = Num k, lastRefill = Num l\<rparr>" "0 \<le> k"
    and "l + 60000 / r \<le> of_int now" "resolveEndpointGroup path = grp"
  shows "fst (tokenBucketMiddleware runtime None bs (Some rc) path now) = Next"
proof -
  let ?R = "60000 / r" and ?m = "\<lfloor>(of_int now - l) / (60000 / r)\<rfloor>"
  have "?R \<le> of_int now - l" using assms(6) by linarith
  then have "0 < ?m" using refill_due(2) [of ?R "of_int now" l] assms(1) by simp
  then have "1 \<le> k + of_int ?m" using assms(5) by linarith
  then have "fst (serve runtime rc bs (path, now))"
    using \<open>0 < ?m\<close> assms(1-5,7) refill_finite [OF assms(1), where now = "of_int now" and l = l and n = burst and k = k]
    by (simp add: serve_consume consume_step_eq Let_def)
  then show ?thesis by (simp add: serve_def split: prod.splits)
qed

lemma token_bucket_recovers_witness:
  "fst (tokenBucketMiddleware (\<lambda>_ _. None) None [''c:websocket'' \<mapsto> \<lparr>tokens = Num 0, lastRefill = Num 100\<rparr>]
     (Some \<lparr>clientId = ''c'', rc_tier = ''free'', rc_rateLimit = None\<rparr>) (Some ''/ws'') 2100) = Next"
proof -
  have "getTierLimits (\<lambda>_ _. None) ''websocket'' ''free'' None = (Num 30, 50)"
    by (simp add: getTierLimits_def tier_rpm_def GROUP_TIER_LIMITS_def tier_row_def tier_burst_def
        TIER_BURST_DEFAULTS_def)
  moreover have "resolveEndpointGroup (Some ''/ws'') = ''websocket''" by code_simp
  ultimately show ?thesis
    by (intro token_bucket_recovers [where r = 30 and grp = "''websocket''" and burst = 50 and k = 0 and l = 100])
      (simp_all add: bucket_key_def)
qed

end
