(* ===== verification/Lru_Cache.thy ===== *)
theory Lru_Cache
  imports Js_Prelude "HOL-Library.Sublist"
begin

text \<open>
  The first tier of cacheLayer.js: the class \<open>LRUCache\<close>. Its \<open>Map\<close> is the list of its entries in
  insertion order; re-inserting a key on access moves it to the end.
\<close>

record 'v entry =
  val_of :: 'v
  expiresAt :: nat
  computeMs :: nat

record 'v lru =
  maxSize :: nat
  slots :: "(string \<times> 'v entry) list"

definition map_delete :: "string \<Rightarrow> (string \<times> 'a) list \<Rightarrow> (string \<times> 'a) list" where
  "map_delete key m = filter (\<lambda>(k, _). k \<noteq> key) m"

definition lru_get :: "nat \<Rightarrow> string \<Rightarrow> 'v lru \<Rightarrow> 'v entry option \<times> 'v lru" where
  "lru_get now key c =
     (case map_of (slots c) key of
        None \<Rightarrow> (None, c)
      | Some e \<Rightarrow>
          if expiresAt e < now then (None, c\<lparr>slots := map_delete key (slots c)\<rparr>)
          else (Some e, c\<lparr>slots := map_delete key (slots c) @ [(key, e)]\<rparr>))"

definition lru_set :: "nat \<Rightarrow> string \<Rightarrow> 'v \<Rightarrow> nat \<Rightarrow> nat \<Rightarrow> 'v lru \<Rightarrow> 'v lru" where
  "lru_set now key v ttlMs cms c =
     (let rest = map_delete key (slots c);
          kept = (if maxSize c \<le> length rest then tl rest else rest)
      in c\<lparr>slots := kept @ [(key, \<lparr>val_of = v, expiresAt = now + ttlMs, computeMs = cms\<rparr>)]\<rparr>)"

definition lru_delete :: "string \<Rightarrow> 'v lru \<Rightarrow> 'v lru" where
  "lru_delete key c = c\<lparr>slots := map_delete key (slots c)\<rparr>"

text \<open>
  \<open>deletePattern\<close>: a trailing star makes the rest a prefix; an empty prefix is falsy, and then the keys
  are compared with the pattern itself.
\<close>

definition pattern_hits :: "string \<Rightarrow> string \<Rightarrow> bool" where
  "pattern_hits pat key =
     (let pfx = (if suffix ''*'' pat then Some (butlast pat) else None)
      in case pfx of
           Some p \<Rightarrow> if p \<noteq> [] then prefix p key else key = pat
         | None \<Rightarrow> key = pat)"

definition lru_deletePattern :: "string \<Rightarrow> 'v lru \<Rightarrow> 'v lru" where
  "lru_deletePattern pat c = c\<lparr>slots := filter (\<lambda>(k, _). \<not> pattern_hits pat k) (slots c)\<rparr>"

definition lru_size :: "'v lru \<Rightarrow> nat" where
  "lru_size c = length (slots c)"

definition lru_keys :: "'v lru \<Rightarrow> string list" where
  "lru_keys c = map fst (slots c)"

text \<open>\<open>sizeByPattern\<close>: how many keys share their first two colon-separated parts.\<close>

definition pattern_of :: "string \<Rightarrow> string" where
  "pattern_of key = join '':'' (take 2 (split_on CHR '':'' key)) @ '':*''"

fun count_in :: "string \<Rightarrow> (string \<times> nat) list \<Rightarrow> (string \<times> nat) list" where
  "count_in p [] = [(p, 1)]"
| "count_in p ((q, n) # counts) = (if p = q then (q, n + 1) # counts else (q, n) # count_in p counts)"

definition sizeByPattern :: "'v lru \<Rightarrow> (string \<times> nat) list" where
  "sizeByPattern c = fold (count_in \<circ> pattern_of) (lru_keys c) []"

subsection \<open>Well-formedness\<close>

definition lru_ok :: "'v lru \<Rightarrow> bool" where
  "lru_ok c \<longleftrightarrow> 1 \<le> maxSize c \<and> distinct (lru_keys c) \<and> lru_size c \<le> maxSize c"

named_theorems lru_defs

lemmas lru_basic [lru_defs] = lru_ok_def lru_size_def lru_keys_def

lemma map_delete_keys: "map fst (map_delete key m) = filter (\<lambda>k. k \<noteq> key) (map fst m)"
  by (induction m) (auto simp: map_delete_def)

lemma map_delete_distinct: "distinct (map fst m) \<Longrightarrow> distinct (map fst (map_delete key m))"
  by (simp add: map_delete_keys)

lemma map_delete_notin [simp]: "key \<notin> fst ` set (map_delete key m)"
  by (auto simp: map_delete_def)

lemma map_delete_length: "length (map_delete key m) \<le> length m"
  by (simp add: map_delete_def)

lemma map_delete_length_less: "key \<in> fst ` set m \<Longrightarrow> length (map_delete key m) < length m"
  by (induction m) (use map_delete_length in \<open>auto simp: map_delete_def le_imp_less_Suc\<close>)

lemma map_of_map_delete: "map_of (map_delete key m) k = (if k = key then None else map_of m k)"
  by (induction m) (auto simp: map_delete_def)

lemma map_of_snoc: "key \<notin> fst ` set m \<Longrightarrow> map_of (m @ [(key, e)]) k = (if k = key then Some e else map_of m k)"
  by (induction m) auto

lemma map_add_map_of_notin [simp]: "key \<notin> fst ` set xs \<Longrightarrow> (m ++ map_of xs) key = m key"
  by (simp add: map_add_def map_of_eq_None_iff [THEN iffD2])

lemma lru_ok_delete [intro]: "lru_ok c \<Longrightarrow> lru_ok (lru_delete key c)"
  using map_delete_length [of key "slots c"]
  by (auto simp: lru_defs lru_delete_def map_delete_keys)

lemma lru_ok_deletePattern [intro]: "lru_ok c \<Longrightarrow> lru_ok (lru_deletePattern pat c)"
  by (auto simp: lru_defs lru_deletePattern_def distinct_map
      intro: inj_on_subset order_trans [OF length_filter_le])

lemma lru_ok_get [intro]:
  assumes "lru_ok c"
  shows "lru_ok (snd (lru_get now key c))"
proof (cases "map_of (slots c) key")
  case None
  then show ?thesis using assms by (simp add: lru_get_def)
next
  case (Some e)
  then have "key \<in> fst ` set (slots c)" by (metis domI dom_map_of_conv_image_fst)
  from map_delete_length_less [OF this] show ?thesis
    using assms Some by (auto simp: lru_get_def lru_defs map_delete_keys)
qed

lemma lru_ok_set [intro]:
  assumes "lru_ok c"
  shows "lru_ok (lru_set now key v ttl cms c)"
proof -
  let ?rest = "map_delete key (slots c)"
  have d: "distinct (map fst ?rest)" "key \<notin> set (map fst ?rest)" "length ?rest \<le> maxSize c" "1 \<le> maxSize c"
    using assms map_delete_length [of key "slots c"] by (auto simp: lru_defs map_delete_keys)
  have "key \<notin> fst ` set (tl ?rest)" using d(2) by (cases ?rest) auto
  then show ?thesis
    using d by (auto simp: lru_set_def Let_def lru_defs map_tl distinct_tl)
qed

subsection \<open>The store interface\<close>

text \<open>What a client of a cache tier relies on: reading back what was written, and removal.\<close>

locale cache_store =
  fixes peek :: "nat \<Rightarrow> string \<Rightarrow> 'c \<Rightarrow> 'v option"
    and put :: "nat \<Rightarrow> string \<Rightarrow> 'v \<Rightarrow> nat \<Rightarrow> nat \<Rightarrow> 'c \<Rightarrow> 'c"
    and drop_key :: "string \<Rightarrow> 'c \<Rightarrow> 'c"
    and ok :: "'c \<Rightarrow> bool"
  assumes ok_put: "ok c \<Longrightarrow> ok (put now key v ttl cms c)"
    and ok_drop: "ok c \<Longrightarrow> ok (drop_key key c)"
    and peek_put: "ok c \<Longrightarrow> later \<le> now + ttl \<Longrightarrow> peek later key (put now key v ttl cms c) = Some v"
    and peek_drop: "ok c \<Longrightarrow> peek now k (drop_key key c) = (if k = key then None else peek now k c)"
begin

lemma ok_drop_all: "ok c \<Longrightarrow> ok (fold drop_key keys c)"
  by (induction keys arbitrary: c) (auto simp: ok_drop)

lemma peek_drop_all: "ok c \<Longrightarrow> peek now k (fold drop_key keys c) = (if k \<in> set keys then None else peek now k c)"
  by (induction keys arbitrary: c) (auto simp: ok_drop peek_drop)

text \<open>A value written survives the eviction of any other keys.\<close>

lemma written_survives:
  "ok c \<Longrightarrow> later \<le> now + ttl \<Longrightarrow> key \<notin> set keys \<Longrightarrow>
     peek later key (fold drop_key keys (put now key v ttl cms c)) = Some v"
  by (simp add: ok_put peek_drop_all peek_put)

end

definition lru_peek :: "nat \<Rightarrow> string \<Rightarrow> 'v lru \<Rightarrow> 'v option" where
  "lru_peek now key c = map_option val_of (fst (lru_get now key c))"

lemma lru_peek_map:
  "lru_peek now key c =
     (case map_of (slots c) key of
        None \<Rightarrow> None | Some e \<Rightarrow> if expiresAt e < now then None else Some (val_of e))"
  by (simp add: lru_peek_def lru_get_def split: option.split)

lemma lru_set_lookup:
  "map_of (slots (lru_set now key v ttl cms c)) key = Some \<lparr>val_of = v, expiresAt = now + ttl, computeMs = cms\<rparr>"
proof -
  let ?rest = "map_delete key (slots c)"
  have "key \<notin> fst ` set (tl ?rest)" using map_delete_notin [of key "slots c"] by (cases ?rest) auto
  then show ?thesis by (auto simp: lru_set_def Let_def map_of_snoc)
qed

interpretation l1: cache_store lru_peek lru_set lru_delete lru_ok
proof (unfold_locales, goal_cases)
  case (3 c later now ttl key v cms)
  then show ?case by (simp add: lru_peek_map lru_set_lookup)
next
  case (4 c now k key)
  then show ?case by (simp add: lru_peek_map lru_delete_def map_of_map_delete)
qed auto

subsection \<open>The recency order\<close>

datatype 'v lru_op = Get nat string | Set nat string 'v nat nat | Del string

fun lru_op_key :: "'v lru_op \<Rightarrow> string" where
  "lru_op_key (Get now k) = k"
| "lru_op_key (Set now k v ttl cms) = k"
| "lru_op_key (Del k) = k"

fun lru_exec :: "'v lru_op \<Rightarrow> 'v lru \<Rightarrow> 'v lru" where
  "lru_exec (Get now k) c = snd (lru_get now k c)"
| "lru_exec (Set now k v ttl cms) c = lru_set now k v ttl cms c"
| "lru_exec (Del k) c = lru_delete k c"

lemma lru_ok_exec: "lru_ok c \<Longrightarrow> lru_ok (lru_exec op c)"
  by (cases op) auto

lemma lru_exec_maxSize [simp]: "maxSize (lru_exec op c) = maxSize c"
  by (cases op) (auto simp: lru_get_def lru_set_def lru_delete_def Let_def split: option.split)

text \<open>The key is stored, and every entry more recent than it has one of the keys touched since.\<close>

definition recent :: "string \<Rightarrow> 'v entry \<Rightarrow> string set \<Rightarrow> 'v lru \<Rightarrow> bool" where
  "recent key e touched c \<longleftrightarrow>
     (\<exists>older newer. slots c = older @ (key, e) # newer \<and> fst ` set newer \<subseteq> touched)"

lemma map_delete_append [simp]: "map_delete k (xs @ ys) = map_delete k xs @ map_delete k ys"
  by (simp add: map_delete_def)

lemma map_delete_Cons [simp]: "map_delete k ((k', e) # xs) = (if k' = k then map_delete k xs else (k', e) # map_delete k xs)"
  by (simp add: map_delete_def)

lemma map_delete_subset: "fst ` set (map_delete k xs) \<subseteq> fst ` set xs - {k}"
  by (auto simp: map_delete_def)

lemma recent_delete:
  assumes "recent key e touched c" "k \<noteq> key"
  shows "\<exists>older newer. map_delete k (slots c) = older @ (key, e) # newer \<and> fst ` set newer \<subseteq> touched - {k}"
proof -
  obtain older newer where s: "slots c = older @ (key, e) # newer" "fst ` set newer \<subseteq> touched"
    using assms by (auto simp: recent_def)
  have "map_delete k (slots c) = map_delete k older @ (key, e) # map_delete k newer"
    using s(1) assms(2) by simp
  moreover have "fst ` set (map_delete k newer) \<subseteq> touched - {k}"
    using map_delete_subset [of k newer] s(2) by blast
  ultimately show ?thesis by blast
qed

lemma recent_exec:
  assumes ok: "lru_ok c" and rec: "recent key e touched c" and other: "lru_op_key op \<noteq> key"
    and fin: "finite touched" and room: "card (insert (lru_op_key op) touched) < maxSize c"
  shows "recent key e (insert (lru_op_key op) touched) (lru_exec op c)"
proof -
  let ?k = "lru_op_key op"
  obtain older newer where s: "map_delete ?k (slots c) = older @ (key, e) # newer"
      "fst ` set newer \<subseteq> touched - {?k}"
    using recent_delete [OF rec other] by blast
  have keep: "recent key e (insert ?k touched) (c\<lparr>slots := map_delete ?k (slots c) @ more\<rparr>)"
    if "fst ` set more \<subseteq> {?k}" for more
    unfolding recent_def using s that by (intro exI [of _ older] exI [of _ "newer @ more"]) auto
  show ?thesis
  proof (cases op)
    case (Get now k)
    have same: "recent key e (insert ?k touched) c"
      using rec unfolding recent_def by blast
    show ?thesis
      using keep [of "[]"] keep [of "[(?k, x)]" for x] same Get
      by (auto simp: lru_get_def split: option.split)
  next
    case (Del k)
    then show ?thesis using keep [of "[]"] by (simp add: lru_delete_def)
  next
    case (Set now k v ttl cms)
    have "distinct (map fst (map_delete ?k (slots c)))"
      using ok by (intro map_delete_distinct) (simp add: lru_defs)
    then have "distinct (map fst newer)" using s(1) by simp
    then have "length newer = card (fst ` set newer)"
      by (metis distinct_card length_map set_map)
    also have "\<dots> \<le> card (touched - {?k})" using s(2) fin by (intro card_mono) auto
    also have "\<dots> < maxSize c - 1"
    proof (cases "?k \<in> touched")
      case True
      then have "0 < card touched" using fin by (auto simp: card_gt_0_iff)
      then show ?thesis using True room fin by (simp add: insert_absorb)
    qed (use room fin in simp)
    finally have long: "older \<noteq> []" if "maxSize c \<le> length (map_delete ?k (slots c))"
      using that s(1) by (auto simp: )
    have "recent key e (insert ?k touched)
        (c\<lparr>slots := tl (map_delete ?k (slots c)) @ more\<rparr>)"
      if "maxSize c \<le> length (map_delete ?k (slots c))" "fst ` set more \<subseteq> {?k}" for more
    proof -
      have "tl (map_delete ?k (slots c)) @ more = tl older @ (key, e) # (newer @ more)"
        using s(1) long [OF that(1)] by (cases older) auto
      moreover have "fst ` set (newer @ more) \<subseteq> insert ?k touched" using s(2) that(2) by auto
      ultimately show ?thesis unfolding recent_def by (metis lru.select_convs(2) lru.surjective lru.update_convs(2))
    qed
    then show ?thesis using keep Set by (auto simp: lru_set_def Let_def)
  qed
qed

lemma recent_run:
  "\<lbrakk>lru_ok c; recent key e touched c; finite touched; key \<notin> lru_op_key ` set ops;
    card (touched \<union> lru_op_key ` set ops) < maxSize c\<rbrakk> \<Longrightarrow>
   recent key e (touched \<union> lru_op_key ` set ops) (fold lru_exec ops c)"
proof (induction ops arbitrary: c touched)
  case (Cons op ops)
  have "card (insert (lru_op_key op) touched) \<le> card (touched \<union> lru_op_key ` set (op # ops))"
    using Cons.prems(3) by (intro card_mono) auto
  then have "recent key e (insert (lru_op_key op) touched) (lru_exec op c)"
    using Cons.prems by (intro recent_exec) auto
  with Cons.IH [of "lru_exec op c" "insert (lru_op_key op) touched"] Cons.prems show ?case
    by (simp add: lru_ok_exec)
qed simp

lemma recent_set: "recent key \<lparr>val_of = v, expiresAt = now + ttl, computeMs = cms\<rparr> {} (lru_set now key v ttl cms c)"
  by (auto simp: recent_def lru_set_def Let_def)

lemma lru_ok_run: "lru_ok c \<Longrightarrow> lru_ok (fold lru_exec ops c)"
  by (induction ops arbitrary: c) (auto simp: lru_ok_exec)

lemma recent_peek:
  assumes "lru_ok c" "recent key e touched c" "later \<le> expiresAt e"
  shows "lru_peek later key c = Some (val_of e)"
proof -
  obtain older newer where s: "slots c = older @ (key, e) # newer"
    using assms(2) by (auto simp: recent_def)
  have "key \<notin> fst ` set older" using assms(1) s by (auto simp: lru_defs)
  then have "map_of (slots c) key = Some e"
    using s by simp
  then show ?thesis using assms(3) by (simp add: lru_peek_map)
qed

text \<open>
  C6. The eviction is least-recently-used: after a key is set, any run of operations on fewer than
  \<open>maxSize\<close> other keys leaves it readable until it expires, and the cache never exceeds its bound.
\<close>

theorem lru_keeps_recent:
  assumes "lru_ok c" "key \<notin> lru_op_key ` set ops" "card (lru_op_key ` set ops) < maxSize c"
    and "later \<le> now + ttl"
  shows "lru_peek later key (fold lru_exec ops (lru_set now key v ttl cms c)) = Some v \<and>
         lru_size (fold lru_exec ops (lru_set now key v ttl cms c)) \<le> maxSize c"
proof -
  let ?c = "lru_set now key v ttl cms c"
  have ms: "maxSize (fold lru_exec ops d) = maxSize d" for d :: "'a lru"
    by (induction ops arbitrary: d) auto
  have m: "maxSize ?c = maxSize c" by (simp add: lru_set_def Let_def)
  have ok: "lru_ok ?c" using assms(1) by auto
  have rec: "recent key \<lparr>val_of = v, expiresAt = now + ttl, computeMs = cms\<rparr>
      ({} \<union> lru_op_key ` set ops) (fold lru_exec ops ?c)"
    using recent_run [OF ok recent_set finite.emptyI assms(2)] assms(3) m by simp
  show ?thesis
    using recent_peek [OF lru_ok_run [OF ok] rec, of later] lru_ok_run [OF ok, of ops] assms(4) ms [of ?c] m
    by (simp add: lru_defs)
qed

theorem lru_keeps_recent_witness:
  "lru_peek 5 ''a'' (fold lru_exec [Set 1 ''b'' 7 9 0, Get 2 ''b'', Set 3 ''b'' 8 9 0]
     (lru_set 0 ''a'' (6::nat) 10 0 \<lparr>maxSize = 2, slots = [(''z'', \<lparr>val_of = 1, expiresAt = 99, computeMs = 0\<rparr>)]\<rparr>)) = Some 6"
proof -
  let ?c = "\<lparr>maxSize = 2, slots = [(''z'', \<lparr>val_of = 1::nat, expiresAt = 99, computeMs = 0\<rparr>)]\<rparr>"
  have "lru_ok ?c" by (simp add: lru_defs)
  from lru_keeps_recent [OF this, of "''a''" "[Set 1 ''b'' 7 9 0, Get 2 ''b'', Set 3 ''b'' 8 9 0]" 5 0 10 6 0]
  show ?thesis by simp
qed

end
