(* ===== verification/Json.thy ===== *)
theory Json
  imports Complex_Main Js_Prelude
begin

text \<open>
  Values as JSON.parse gives them. An object is the list of its properties in insertion order, with
  distinct keys; numbers are exact rationals.
\<close>

datatype json =
    JNull
  | JBool bool
  | JNum rat
  | JStr string
  | JArr "json list"
  | JObj "(string \<times> json) list"

fun is_obj :: "json \<Rightarrow> bool" where
  "is_obj (JObj _) = True"
| "is_obj _ = False"

fun is_arr :: "json \<Rightarrow> bool" where
  "is_arr (JArr _) = True"
| "is_arr _ = False"

fun is_str :: "json \<Rightarrow> bool" where
  "is_str (JStr _) = True"
| "is_str _ = False"

fun is_num :: "json \<Rightarrow> bool" where
  "is_num (JNum _) = True"
| "is_num _ = False"

text \<open>Property access: \<open>None\<close> is undefined.\<close>

fun prop_of :: "json \<Rightarrow> string \<Rightarrow> json option" where
  "prop_of (JObj ps) k = map_of ps k"
| "prop_of _ k = None"

text \<open>Assignment of a property, which keeps the position of an existing key.\<close>

fun put_prop :: "string \<Rightarrow> 'a \<Rightarrow> (string \<times> 'a) list \<Rightarrow> (string \<times> 'a) list" where
  "put_prop k v [] = [(k, v)]"
| "put_prop k v ((k', v') # ps) = (if k = k' then (k, v) # ps else (k', v') # put_prop k v ps)"

text \<open>\<open>{ ...a, ...b }\<close>.\<close>

definition spread :: "(string \<times> 'a) list \<Rightarrow> (string \<times> 'a) list \<Rightarrow> (string \<times> 'a) list" where
  "spread a b = fold (\<lambda>(k, v). put_prop k v) b a"

text \<open>JavaScript's truth value of a JSON value.\<close>

fun truthy :: "json \<Rightarrow> bool" where
  "truthy JNull = False"
| "truthy (JBool b) = b"
| "truthy (JNum x) = (x \<noteq> 0)"
| "truthy (JStr s) = (s \<noteq> [])"
| "truthy _ = True"

lemma map_of_put_prop: "map_of (put_prop k v ps) k' = (if k' = k then Some v else map_of ps k')"
  by (induction k v ps rule: put_prop.induct) auto

lemma put_prop_keys: "fst ` set (put_prop k v ps) = insert k (fst ` set ps)"
  by (induction k v ps rule: put_prop.induct) auto

lemma put_prop_distinct: "distinct (map fst ps) \<Longrightarrow> distinct (map fst (put_prop k v ps))"
proof (induction k v ps rule: put_prop.induct)
  case (2 k v k' v' ps)
  then show ?case using put_prop_keys [of k v ps] by (auto simp flip: set_map)
qed simp

lemma map_of_spread:
  "distinct (map fst b) \<Longrightarrow>
     map_of (spread a b) k = (case map_of b k of Some v \<Rightarrow> Some v | None \<Rightarrow> map_of a k)"
proof (induction b arbitrary: a)
  case (Cons kv b)
  have "k \<notin> fst ` set b \<Longrightarrow> map_of b k = None" by (simp add: map_of_eq_None_iff)
  then show ?case
    using Cons by (cases kv) (auto simp: spread_def map_of_put_prop split: option.split)
qed (simp add: spread_def)


subsection \<open>Text of a value\<close>

text \<open>
  \<open>String(x)\<close> of a number in plain decimal notation: the shortest fraction that is exact, of at most 17 digits.
\<close>

definition frac_digits :: "rat \<Rightarrow> nat" where
  "frac_digits a = (case filter (\<lambda>k. of_int \<lfloor>a * 10 ^ k\<rfloor> = a * 10 ^ k) [0..<18] of k # _ \<Rightarrow> k | [] \<Rightarrow> 17)"

definition num_text :: "rat \<Rightarrow> string" where
  "num_text x =
     (let a = \<bar>x\<bar>; k = frac_digits a; scaled = nat \<lfloor>a * 10 ^ k\<rfloor>
      in (if x < 0 then ''-'' else []) @ dec (scaled div 10 ^ k) @
         (if k = 0 then [] else ''.'' @ pad_start k CHR ''0'' (dec (scaled mod 10 ^ k))))"

fun text_of :: "json \<Rightarrow> string" where
  "text_of JNull = ''null''"
| "text_of (JBool b) = (if b then ''true'' else ''false'')"
| "text_of (JNum x) = num_text x"
| "text_of (JStr s) = s"
| "text_of (JArr xs) = join '','' (map (\<lambda>x. if x = JNull then [] else text_of x) xs)"
| "text_of (JObj ps) = ''[object Object]''"

text \<open>Property reads that are truthy.\<close>

definition truthy_prop :: "json \<Rightarrow> string \<Rightarrow> json option" where
  "truthy_prop n k = (case prop_of n k of Some v \<Rightarrow> if truthy v then Some v else None | None \<Rightarrow> None)"

definition str_prop :: "json \<Rightarrow> string \<Rightarrow> string option" where
  "str_prop n k = (case prop_of n k of Some (JStr s) \<Rightarrow> Some s | _ \<Rightarrow> None)"

subsection \<open>Descending into a value\<close>

lemma size_prop_of: "prop_of n k = Some v \<Longrightarrow> size v < size n"
proof (cases n)
  case (JObj ps)
  assume "prop_of n k = Some v"
  then have "(k, v) \<in> set ps" using JObj by (auto dest: map_of_SomeD)
  then have "size_prod (\<lambda>_. 0) size (k, v) \<le> size_list (size_prod (\<lambda>_. 0) size) ps"
    by (rule size_list_estimation') simp
  then show ?thesis using JObj by simp
qed auto

lemma size_truthy_prop: "truthy_prop n k = Some v \<Longrightarrow> size v < size n"
  by (auto simp: truthy_prop_def size_prop_of split: option.splits if_splits)

lemma size_arr: "x \<in> set xs \<Longrightarrow> size x < size (JArr xs)"
  by (simp add: size_list_estimation less_Suc_eq_le size_list_estimation')

end
