(* ===== verification/Cache_Layer.thy ===== *)
theory Cache_Layer
  imports Lru_Cache Json
begin

text \<open>
  cacheLayer.js above the LRU map: lifetimes per cache type, the two-tier lookup and store, invalidation
  with its cross-instance message, cache-aside with early recomputation, deltas, analytics and the edge
  policy. The Redis client and \<open>Math.log(Math.random())\<close> are parameters; a Redis call that throws is
  \<open>None\<close>. JSON.stringify followed by JSON.parse is the identity on the JSON values that are stored.
\<close>

subsection \<open>Lifetimes\<close>

record ttl =
  ttl_l1 :: nat
  ttl_l2 :: nat
  ttl_l3 :: string

definition TTL_CONFIG :: "(string \<times> ttl) list" where
  "TTL_CONFIG =
     [(''events_list'', \<lparr>ttl_l1 = 5, ttl_l2 = 30, ttl_l3 = ''public, max-age=30, stale-while-revalidate=300''\<rparr>),
      (''events_single'', \<lparr>ttl_l1 = 10, ttl_l2 = 60, ttl_l3 = ''private, max-age=60''\<rparr>),
      (''contract_events'', \<lparr>ttl_l1 = 5, ttl_l2 = 30, ttl_l3 = ''public, max-age=30, stale-while-revalidate=300''\<rparr>),
      (''contracts_list'', \<lparr>ttl_l1 = 30, ttl_l2 = 300, ttl_l3 = ''public, max-age=300, stale-if-error=86400''\<rparr>),
      (''contracts_single'', \<lparr>ttl_l1 = 60, ttl_l2 = 900, ttl_l3 = ''public, max-age=300, stale-if-error=86400''\<rparr>),
      (''contract_stats'', \<lparr>ttl_l1 = 60, ttl_l2 = 300, ttl_l3 = ''public, max-age=300''\<rparr>),
      (''wallet'', \<lparr>ttl_l1 = 60, ttl_l2 = 60, ttl_l3 = ''private, max-age=60''\<rparr>),
      (''search'', \<lparr>ttl_l1 = 0, ttl_l2 = 10, ttl_l3 = ''no-cache, no-store''\<rparr>),
      (''stats'', \<lparr>ttl_l1 = 60, ttl_l2 = 300, ttl_l3 = ''public, max-age=300''\<rparr>),
      (''wallet_balances'', \<lparr>ttl_l1 = 30, ttl_l2 = 30, ttl_l3 = ''public, max-age=30''\<rparr>),
      (''horizon_account'', \<lparr>ttl_l1 = 60, ttl_l2 = 60, ttl_l3 = ''private, max-age=60''\<rparr>),
      (''rpc_health'', \<lparr>ttl_l1 = 5, ttl_l2 = 5, ttl_l3 = ''public, max-age=5''\<rparr>)]"

definition default_ttl :: ttl where
  "default_ttl = \<lparr>ttl_l1 = 30, ttl_l2 = 60, ttl_l3 = ''public, max-age=60''\<rparr>"

definition getTTL :: "string \<Rightarrow> ttl" where
  "getTTL type = (case map_of TTL_CONFIG type of Some t \<Rightarrow> t | None \<Rightarrow> default_ttl)"

subsection \<open>State\<close>

text \<open>What Redis holds under a key: the wrapped format or any other JSON.\<close>

datatype l2val = Wrapped json nat "string option" | Plain json

record message =
  m_pattern :: "string option"
  m_keys :: "string list"
  m_timestamp :: nat
  m_origin :: string

record 'r redis_ops =
  redis_get :: "'r \<Rightarrow> string \<Rightarrow> l2val option option"
  redis_set :: "'r \<Rightarrow> string \<Rightarrow> l2val \<Rightarrow> nat \<Rightarrow> 'r option"
  redis_del :: "'r \<Rightarrow> string list \<Rightarrow> 'r option"
  redis_scan :: "'r \<Rightarrow> nat \<Rightarrow> string \<Rightarrow> (nat \<times> string list) option"
  redis_publish :: "'r \<Rightarrow> message \<Rightarrow> 'r option"

record analytics =
  l1_hits :: nat
  l1_misses :: nat
  l2_hits :: nat
  l2_misses :: nat
  byEndpoint :: "(string \<times> (nat \<times> nat)) list"
  keyAccess :: "(string \<times> nat) list"
  invalidations :: "(nat \<times> string option) list"
  stampedeEvents :: "(nat \<times> string) list"
  cachedLatency :: "rat list"
  uncachedLatency :: "rat list"

record 'r cache =
  l1 :: "json lru"
  redis :: "'r option"
  recomputing :: "string list"
  stats :: analytics

subsection \<open>Analytics\<close>

definition pushAnalyticsEvent :: "nat \<Rightarrow> 'a list \<Rightarrow> 'a \<Rightarrow> 'a list" where
  "pushAnalyticsEvent limit arr ev = (if limit < length (arr @ [ev]) then tl (arr @ [ev]) else arr @ [ev])"

definition bump_endpoint :: "bool \<Rightarrow> string option \<Rightarrow> analytics \<Rightarrow> analytics" where
  "bump_endpoint hit cacheType a =
     (case cacheType of
        Some t \<Rightarrow>
          if t \<noteq> [] then
            (let (h, m) = (case map_of (byEndpoint a) t of Some hm \<Rightarrow> hm | None \<Rightarrow> (0, 0))
             in a\<lparr>byEndpoint := put_prop t (if hit then (h + 1, m) else (h, m + 1)) (byEndpoint a)\<rparr>)
          else a
      | None \<Rightarrow> a)"

definition bump_key :: "string \<Rightarrow> analytics \<Rightarrow> analytics" where
  "bump_key key a =
     (if key \<noteq> []
      then a\<lparr>keyAccess := put_prop key ((case map_of (keyAccess a) key of Some n \<Rightarrow> n | None \<Rightarrow> 0) + 1) (keyAccess a)\<rparr>
      else a)"

datatype layer = L1 | L2

definition recordHit :: "layer \<Rightarrow> string option \<Rightarrow> string \<Rightarrow> analytics \<Rightarrow> analytics" where
  "recordHit layer cacheType key a =
     bump_key key (bump_endpoint True cacheType
       (case layer of L1 \<Rightarrow> a\<lparr>l1_hits := l1_hits a + 1\<rparr> | L2 \<Rightarrow> a\<lparr>l2_hits := l2_hits a + 1\<rparr>))"

definition recordMiss :: "layer \<Rightarrow> string option \<Rightarrow> analytics \<Rightarrow> analytics" where
  "recordMiss layer cacheType a =
     bump_endpoint False cacheType
       (case layer of L1 \<Rightarrow> a\<lparr>l1_misses := l1_misses a + 1\<rparr> | L2 \<Rightarrow> a\<lparr>l2_misses := l2_misses a + 1\<rparr>)"

definition recordCachedLatency :: "rat \<Rightarrow> 'r cache \<Rightarrow> 'r cache" where
  "recordCachedLatency ms c =
     c\<lparr>stats := (stats c)\<lparr>cachedLatency := pushAnalyticsEvent 1000 (cachedLatency (stats c)) ms\<rparr>\<rparr>"

definition recordUncachedLatency :: "rat \<Rightarrow> 'r cache \<Rightarrow> 'r cache" where
  "recordUncachedLatency ms c =
     c\<lparr>stats := (stats c)\<lparr>uncachedLatency := pushAnalyticsEvent 1000 (uncachedLatency (stats c)) ms\<rparr>\<rparr>"

subsection \<open>Lookup and store\<close>

text \<open>XFetch: \<open>lnr\<close> is the (non-positive) logarithm of the random number drawn.\<close>

definition shouldXFetch :: "rat \<Rightarrow> rat \<Rightarrow> nat \<Rightarrow> json entry \<Rightarrow> bool" where
  "shouldXFetch beta lnr now e =
     (1 \<le> computeMs e \<and> of_nat (expiresAt e) \<le> of_nat now - beta * of_nat (computeMs e) * lnr)"

record hit =
  h_value :: json
  h_layer :: layer
  h_xfetch :: bool

definition on_stats :: "(analytics \<Rightarrow> analytics) \<Rightarrow> 'r cache \<Rightarrow> 'r cache" where
  "on_stats f c = c\<lparr>stats := f (stats c)\<rparr>"

text \<open>
  A lookup is two synchronous segments with the question to Redis between them. The first one answers from L1, or counts its miss
  and goes on to wait.
\<close>

definition lookup_begin ::
  "rat \<Rightarrow> rat \<Rightarrow> nat \<Rightarrow> string \<Rightarrow> string option \<Rightarrow> 'r cache \<Rightarrow> hit option \<times> 'r cache" where
  "lookup_begin beta lnr now key cacheType c =
     (case lru_get now key (l1 c) of (found, l1') \<Rightarrow>
        let c1 = c\<lparr>l1 := l1'\<rparr>
        in case found of
             Some e \<Rightarrow>
               if shouldXFetch beta lnr now e
               then (Some \<lparr>h_value = val_of e, h_layer = L1, h_xfetch = True\<rparr>,
                     on_stats (recordHit L1 cacheType key \<circ>
                       (\<lambda>a. a\<lparr>stampedeEvents := pushAnalyticsEvent 200 (stampedeEvents a) (now, key)\<rparr>)) c1)
               else (Some \<lparr>h_value = val_of e, h_layer = L1, h_xfetch = False\<rparr>,
                     on_stats (recordHit L1 cacheType key) c1)
           | None \<Rightarrow> (None, on_stats (recordMiss L1 cacheType) c1))"

text \<open>What Redis answers: \<open>None\<close> without a client and when the call throws.\<close>

type_synonym l2_reply = "l2val option option"

definition ask_redis :: "'r redis_ops \<Rightarrow> string \<Rightarrow> 'r cache \<Rightarrow> l2_reply" where
  "ask_redis ops key c = (case redis c of None \<Rightarrow> None | Some r \<Rightarrow> redis_get ops r key)"

text \<open>The segment after the answer; reading a property of JSON null throws, which counts as a miss.\<close>

definition lookup_end :: "nat \<Rightarrow> string \<Rightarrow> string option \<Rightarrow> l2_reply \<Rightarrow> 'r cache \<Rightarrow> hit option \<times> 'r cache" where
  "lookup_end now key cacheType reply c =
     (let miss = (None, on_stats (recordMiss L2 cacheType) c);
          found = (\<lambda>v cms ttlType.
             (let t = getTTL (case ttlType of Some x \<Rightarrow> x
                              | None \<Rightarrow> (case cacheType of Some x \<Rightarrow> x | None \<Rightarrow> ''default''));
                  c' = (if 0 < ttl_l1 t then c\<lparr>l1 := lru_set now key v (ttl_l1 t * 1000) cms (l1 c)\<rparr> else c)
              in (Some \<lparr>h_value = v, h_layer = L2, h_xfetch = False\<rparr>, on_stats (recordHit L2 cacheType key) c')))
      in case reply of
           Some (Some (Wrapped v cms ttlType)) \<Rightarrow> found v cms ttlType
         | Some (Some (Plain v)) \<Rightarrow> if v = JNull then miss else found v 0 None
         | _ \<Rightarrow> miss)"

text \<open>A lookup during which nothing else runs; lookups that overlap with other requests are runs of the segments (below).\<close>

definition getWithMeta ::
  "'r redis_ops \<Rightarrow> rat \<Rightarrow> rat \<Rightarrow> nat \<Rightarrow> string \<Rightarrow> string option \<Rightarrow> 'r cache \<Rightarrow> hit option \<times> 'r cache" where
  "getWithMeta ops beta lnr now key cacheType c =
     (case lookup_begin beta lnr now key cacheType c of
        (Some h, c1) \<Rightarrow> (Some h, c1)
      | (None, c1) \<Rightarrow> lookup_end now key cacheType (ask_redis ops key c1) c1)"

text \<open>The value \<open>null\<close> on a miss.\<close>

definition cacheGet ::
  "'r redis_ops \<Rightarrow> rat \<Rightarrow> rat \<Rightarrow> nat \<Rightarrow> string \<Rightarrow> string option \<Rightarrow> 'r cache \<Rightarrow> json \<times> 'r cache" where
  "cacheGet ops beta lnr now key cacheType c =
     (case getWithMeta ops beta lnr now key cacheType c of (h, c') \<Rightarrow>
        (case h of Some x \<Rightarrow> h_value x | None \<Rightarrow> JNull, c'))"

datatype ttl_arg = Seconds nat | Cache_type string

text \<open>A store writes L1 at once and Redis after an \<open>await\<close>.\<close>

definition set_ttls :: "ttl_arg \<Rightarrow> nat \<times> nat \<times> string" where
  "set_ttls ttlOrType =
     (case ttlOrType of
        Seconds n \<Rightarrow> (n, n, ''default'')
      | Cache_type t \<Rightarrow> (ttl_l1 (getTTL t), ttl_l2 (getTTL t), t))"

definition set_begin :: "nat \<Rightarrow> string \<Rightarrow> json \<Rightarrow> ttl_arg \<Rightarrow> nat \<Rightarrow> 'r cache \<Rightarrow> 'r cache" where
  "set_begin now key v ttlOrType cms c =
     (case set_ttls ttlOrType of (l1Ttl, _, _) \<Rightarrow>
        if 0 < l1Ttl then c\<lparr>l1 := lru_set now key v (l1Ttl * 1000) cms (l1 c)\<rparr> else c)"

definition set_end :: "'r redis_ops \<Rightarrow> string \<Rightarrow> json \<Rightarrow> ttl_arg \<Rightarrow> nat \<Rightarrow> 'r cache \<Rightarrow> 'r cache" where
  "set_end ops key v ttlOrType cms c =
     (case set_ttls ttlOrType of (_, l2Ttl, type) \<Rightarrow>
        case redis c of
          Some r \<Rightarrow>
            if 0 < l2Ttl then
              (case redis_set ops r key (Wrapped v cms (Some type)) l2Ttl of
                 Some r' \<Rightarrow> c\<lparr>redis := Some r'\<rparr> | None \<Rightarrow> c)
            else c
        | None \<Rightarrow> c)"

definition cacheSet ::
  "'r redis_ops \<Rightarrow> nat \<Rightarrow> string \<Rightarrow> json \<Rightarrow> ttl_arg \<Rightarrow> nat \<Rightarrow> 'r cache \<Rightarrow> 'r cache" where
  "cacheSet ops now key v ttlOrType cms c = set_end ops key v ttlOrType cms (set_begin now key v ttlOrType cms c)"

lemmas cacheSet_defs = cacheSet_def set_begin_def set_end_def set_ttls_def

subsection \<open>Invalidation\<close>

text \<open>
  The SCAN loop: it follows the cursors the server returns, so it may not end. The result carries the
  deleted keys, or \<open>None\<close> when a call threw.
\<close>

partial_function (option) scan_loop ::
  "'r redis_ops \<Rightarrow> string \<Rightarrow> 'r \<Rightarrow> nat \<Rightarrow> string list \<Rightarrow> ('r \<times> string list option) option" where
  "scan_loop ops pat r cursor deleted =
     (case redis_scan ops r cursor pat of
        None \<Rightarrow> Some (r, None)
      | Some (cursor', ks) \<Rightarrow>
          (case (if ks \<noteq> [] then redis_del ops r ks else Some r) of
             None \<Rightarrow> Some (r, None)
           | Some r' \<Rightarrow>
               if cursor' = 0 then Some (r', Some (deleted @ ks))
               else scan_loop ops pat r' cursor' (deleted @ ks)))"

definition l1_invalidate :: "string \<Rightarrow> json lru \<Rightarrow> json lru" where
  "l1_invalidate keyOrPattern m =
     (if CHR ''*'' \<in> set keyOrPattern then lru_deletePattern keyOrPattern m else lru_delete keyOrPattern m)"

definition l2_invalidate :: "'r redis_ops \<Rightarrow> nat \<Rightarrow> string \<Rightarrow> string \<Rightarrow> 'r \<Rightarrow> 'r option" where
  "l2_invalidate ops now instanceId keyOrPattern r =
     (let isPattern = CHR ''*'' \<in> set keyOrPattern;
          dels = (if isPattern then scan_loop ops keyOrPattern r 0 []
                  else Some (case redis_del ops r [keyOrPattern] of
                               None \<Rightarrow> (r, None) | Some r' \<Rightarrow> (r', Some [keyOrPattern])))
      in map_option (\<lambda>(r', res).
           (case res of
              None \<Rightarrow> r'
            | Some deletedKeys \<Rightarrow>
                (case redis_publish ops r' \<lparr>m_pattern = (if isPattern then Some keyOrPattern else None),
                        m_keys = deletedKeys, m_timestamp = now, m_origin = instanceId\<rparr> of
                   None \<Rightarrow> r' | Some r'' \<Rightarrow> r''))) dels)"

definition note_invalidation :: "nat \<Rightarrow> string option \<Rightarrow> analytics \<Rightarrow> analytics" where
  "note_invalidation now what a = a\<lparr>invalidations := pushAnalyticsEvent 200 (invalidations a) (now, what)\<rparr>"

text \<open>L1 is cleared at once; the record of the invalidation is made after the last \<open>await\<close>.\<close>

definition invalidate_begin :: "string \<Rightarrow> 'r cache \<Rightarrow> 'r cache" where
  "invalidate_begin keyOrPattern c = c\<lparr>l1 := l1_invalidate keyOrPattern (l1 c)\<rparr>"

definition invalidate_end :: "nat \<Rightarrow> string \<Rightarrow> 'r cache \<Rightarrow> 'r cache" where
  "invalidate_end now keyOrPattern = on_stats (note_invalidation now (Some keyOrPattern))"

text \<open>An invalidation during which nothing else runs; \<open>None\<close> when the scan does not end.\<close>

definition cacheInvalidate :: "'r redis_ops \<Rightarrow> nat \<Rightarrow> string \<Rightarrow> string \<Rightarrow> 'r cache \<Rightarrow> 'r cache option" where
  "cacheInvalidate ops now instanceId keyOrPattern c =
     (let c1 = invalidate_begin keyOrPattern c;
          fin = invalidate_end now keyOrPattern
      in case redis c1 of
           None \<Rightarrow> Some (fin c1)
         | Some r \<Rightarrow> map_option (\<lambda>r'. fin (c1\<lparr>redis := Some r'\<rparr>)) (l2_invalidate ops now instanceId keyOrPattern r))"

text \<open>The handler of a message published by another instance.\<close>

definition onInvalidation :: "string \<Rightarrow> nat \<Rightarrow> message \<Rightarrow> 'r cache \<Rightarrow> 'r cache" where
  "onInvalidation instanceId now msg c =
     (if m_origin msg = instanceId then c
      else
        (let l1' = (case m_pattern msg of
                      Some p \<Rightarrow> if p \<noteq> [] then lru_deletePattern p (l1 c) else fold lru_delete (m_keys msg) (l1 c)
                    | None \<Rightarrow> fold lru_delete (m_keys msg) (l1 c))
         in on_stats (note_invalidation (m_timestamp msg) (m_pattern msg)) (c\<lparr>l1 := l1'\<rparr>)))"

subsection \<open>Cache-aside and deltas\<close>

text \<open>What the loader does: it returns a value (\<open>None\<close> is undefined) or throws.\<close>

datatype loaded = Loaded "json option" | Loader_throws

definition ttl_type :: "ttl_arg \<Rightarrow> string" where
  "ttl_type t = (case t of Cache_type x \<Rightarrow> x | Seconds _ \<Rightarrow> ''default'')"

text \<open>What the lookup found decides: either a value is returned, or the loader has to run.\<close>

definition aside_decide :: "string \<Rightarrow> hit option \<Rightarrow> 'r cache \<Rightarrow> json option \<times> 'r cache" where
  "aside_decide key h c1 =
     (case h of
        Some x \<Rightarrow>
          if \<not> h_xfetch x then (Some (h_value x), c1)
          else if key \<in> set (recomputing c1) then (Some (h_value x), c1)
          else (None, c1\<lparr>recomputing := key # recomputing c1\<rparr>)
      | None \<Rightarrow> (None, c1))"

definition aside_begin ::
  "'r redis_ops \<Rightarrow> rat \<Rightarrow> rat \<Rightarrow> nat \<Rightarrow> string \<Rightarrow> ttl_arg \<Rightarrow> 'r cache \<Rightarrow> json option \<times> 'r cache" where
  "aside_begin ops beta lnr now key ttlOrType c =
     (case getWithMeta ops beta lnr now key (Some (ttl_type ttlOrType)) c of (h, c1) \<Rightarrow> aside_decide key h c1)"

text \<open>From the loader's outcome on, with the \<open>finally\<close> block.\<close>

definition aside_finally :: "string \<Rightarrow> 'r cache \<Rightarrow> 'r cache" where
  "aside_finally key c = c\<lparr>recomputing := filter (\<lambda>k. k \<noteq> key) (recomputing c)\<rparr>"

definition aside_end ::
  "'r redis_ops \<Rightarrow> nat \<Rightarrow> nat \<Rightarrow> string \<Rightarrow> ttl_arg \<Rightarrow> loaded \<Rightarrow> 'r cache \<Rightarrow> loaded \<times> 'r cache" where
  "aside_end ops start end_time key ttlOrType l c =
     (let c1 = (case l of
                  Loaded (Some v) \<Rightarrow>
                    if v \<noteq> JNull then cacheSet ops end_time key v ttlOrType (end_time - start) c else c
                | _ \<Rightarrow> c)
      in (l, aside_finally key c1))"

definition cacheAside ::
  "'r redis_ops \<Rightarrow> rat \<Rightarrow> rat \<Rightarrow> nat \<Rightarrow> nat \<Rightarrow> string \<Rightarrow> loaded \<Rightarrow> ttl_arg \<Rightarrow> 'r cache \<Rightarrow> loaded \<times> 'r cache" where
  "cacheAside ops beta lnr start end_time key loader ttlOrType c =
     (case aside_begin ops beta lnr start key ttlOrType c of
        (Some v, c1) \<Rightarrow> (Loaded (Some v), c1)
      | (None, c1) \<Rightarrow> aside_end ops start end_time key ttlOrType loader c1)"

definition cacheApplyDelta ::
  "'r redis_ops \<Rightarrow> rat \<Rightarrow> rat \<Rightarrow> nat \<Rightarrow> string \<Rightarrow> (string \<times> json) list \<Rightarrow> ttl_arg \<Rightarrow> 'r cache \<Rightarrow> json \<times> 'r cache" where
  "cacheApplyDelta ops beta lnr now key delta ttlOrType c =
     (case cacheGet ops beta lnr now key None c of (current, c1) \<Rightarrow>
        (case current of
           JObj ps \<Rightarrow> (JObj (spread ps delta), cacheSet ops now key (JObj (spread ps delta)) ttlOrType 0 c1)
         | _ \<Rightarrow> (JNull, c1)))"


subsection \<open>Analytics export\<close>

definition average :: "rat list \<Rightarrow> rat option" where
  "average xs = (if xs = [] then None else Some (sum_list xs / of_nat (length xs)))"

definition ratio :: "nat \<Rightarrow> nat \<Rightarrow> rat" where
  "ratio part whole = (if whole \<noteq> 0 then of_nat part / of_nat whole else 0)"

definition ratePerMin :: "nat \<Rightarrow> (nat \<times> 'a) list \<Rightarrow> nat" where
  "ratePerMin now events = length (filter (\<lambda>(t, _). int now - 60000 < int t) events)"

definition last_n :: "nat \<Rightarrow> 'a list \<Rightarrow> 'a list" where
  "last_n n xs = drop (length xs - n) xs"

record report =
  overall_rate :: rat
  l1_rate :: rat
  l2_rate :: rat
  cached_avg :: "rat option"
  uncached_avg :: "rat option"
  improvement_factor :: "rat option"
  size_by_pattern :: "(string \<times> nat) list"
  l1_size :: nat
  inval_total :: nat
  inval_rate :: nat
  inval_recent :: "(nat \<times> string option) list"
  top_keys :: "(string \<times> nat) list"
  stampede_total :: nat
  stampede_rate :: nat
  miss_ratio_by_endpoint :: "(string \<times> rat \<times> nat \<times> nat) list"

text \<open>An average of zero is falsy, and then there is no improvement factor.\<close>

definition getAnalytics :: "nat \<Rightarrow> 'r cache \<Rightarrow> report" where
  "getAnalytics now c =
     (let a = stats c;
          totalHits = l1_hits a + l2_hits a;
          totalRequests = totalHits + l2_misses a;
          cached = average (cachedLatency a);
          uncached = average (uncachedLatency a)
      in \<lparr>overall_rate = ratio totalHits totalRequests,
          l1_rate = ratio (l1_hits a) (l1_hits a + l1_misses a),
          l2_rate = ratio (l2_hits a) (l2_hits a + l2_misses a),
          cached_avg = cached,
          uncached_avg = uncached,
          improvement_factor =
            (case (cached, uncached) of
               (Some x, Some y) \<Rightarrow> if x \<noteq> 0 \<and> y \<noteq> 0 then Some (y / x) else None
             | _ \<Rightarrow> None),
          size_by_pattern = sizeByPattern (l1 c),
          l1_size = lru_size (l1 c),
          inval_total = length (invalidations a),
          inval_rate = ratePerMin now (invalidations a),
          inval_recent = last_n 20 (invalidations a),
          top_keys = take 20 (sort_key (\<lambda>(_, n). - int n) (keyAccess a)),
          stampede_total = length (stampedeEvents a),
          stampede_rate = ratePerMin now (stampedeEvents a),
          miss_ratio_by_endpoint = map (\<lambda>(t, h, m). (t, ratio m (h + m), h, m)) (byEndpoint a)\<rparr>)"

subsection \<open>Edge policy\<close>

datatype edge_class = Edge_immutable | Edge_ledger | Edge_private

record edge_policy =
  e_class :: edge_class
  e_edge :: string
  e_keys :: "string list"

definition PRIVATE_PREFIXES :: "string list" where
  "PRIVATE_PREFIXES =
     [''/api/admin'', ''/api/dashboard'', ''/api/webhooks'', ''/api/keys'', ''/api/csrf-token'',
      ''/api/sandbox'', ''/api/transactions'', ''/api/health'', ''/api/metrics'', ''/api/rpc-'',
      ''/api/setup'', ''/api/alerts'', ''/api/cache'', ''/api/billing'', ''/api/auth'', ''/api/jobs'']"

definition after :: "string \<Rightarrow> string \<Rightarrow> string option" where
  "after pfx s = (if prefix pfx s then Some (drop (length pfx) s) else None)"

text \<open>What follows \<open>/api/\<close> and an optional \<open>v1/\<close>.\<close>

definition api_rest :: "string \<Rightarrow> string option" where
  "api_rest path =
     (case after ''/api/'' path of
        None \<Rightarrow> None
      | Some rest \<Rightarrow> (case after ''v1/'' rest of Some r \<Rightarrow> Some r | None \<Rightarrow> Some rest))"

definition event_match :: "string \<Rightarrow> string option" where
  "event_match path =
     (case Option.bind (api_rest path) (after ''events/'') of
        None \<Rightarrow> None
      | Some r \<Rightarrow>
          let d = takeWhile is_digit r; rest = dropWhile is_digit r
          in if d \<noteq> [] \<and> (rest = [] \<or> prefix ''/'' rest) then Some d else None)"

definition contract_match :: "string \<Rightarrow> string option" where
  "contract_match path =
     (case api_rest path of
        None \<Rightarrow> None
      | Some r \<Rightarrow>
          (case filter (\<lambda>x. x \<noteq> None) [after ''contracts/'' r, after ''spec/'' r, after ''tokens/'' r] of
             Some s # _ \<Rightarrow>
               let seg = takeWhile (\<lambda>ch. ch \<noteq> CHR ''/'') s in if seg \<noteq> [] then Some seg else None
           | _ \<Rightarrow> None))"

definition edgeCachePolicy :: "nat \<Rightarrow> string \<Rightarrow> string \<Rightarrow> bool \<Rightarrow> edge_policy" where
  "edgeCachePolicy EDGE_TTL_SECONDS verb path purgeHealthy =
     (if verb \<noteq> ''GET'' \<or> list_ex (\<lambda>p. prefix p path) PRIVATE_PREFIXES
      then \<lparr>e_class = Edge_private, e_edge = ''no-store'', e_keys = []\<rparr>
      else
        (let t = (if purgeHealthy then EDGE_TTL_SECONDS else 5)
         in case event_match path of
              Some n \<Rightarrow>
                \<lparr>e_class = Edge_immutable,
                 e_edge = ''max-age='' @ dec (if purgeHealthy then 86400 else 5) @ '', stale-while-revalidate=60'',
                 e_keys = [''event:'' @ n]\<rparr>
            | None \<Rightarrow>
                \<lparr>e_class = Edge_ledger, e_edge = ''max-age='' @ dec t @ '', stale-while-revalidate=30'',
                 e_keys = (case contract_match path of
                             Some k \<Rightarrow> [''contract:'' @ k, ''latest''] | None \<Rightarrow> [''latest''])\<rparr>))"

subsection \<open>Well-formed caches\<close>

definition stats_ok :: "analytics \<Rightarrow> bool" where
  "stats_ok a \<longleftrightarrow>
     length (invalidations a) \<le> 200 \<and> length (stampedeEvents a) \<le> 200 \<and>
     length (cachedLatency a) \<le> 1000 \<and> length (uncachedLatency a) \<le> 1000"

definition store_ok :: "'r cache \<Rightarrow> bool" where
  "store_ok c \<longleftrightarrow> lru_ok (l1 c) \<and> stats_ok (stats c)"

lemma push_bounded: "length arr \<le> n \<Longrightarrow> length (pushAnalyticsEvent n arr ev) \<le> n"
  by (auto simp: pushAnalyticsEvent_def)

named_theorems cache_simps

lemma bump_endpoint_sel [cache_simps]:
  "l1_hits (bump_endpoint h t a) = l1_hits a" "l1_misses (bump_endpoint h t a) = l1_misses a"
  "l2_hits (bump_endpoint h t a) = l2_hits a" "l2_misses (bump_endpoint h t a) = l2_misses a"
  "invalidations (bump_endpoint h t a) = invalidations a" "stampedeEvents (bump_endpoint h t a) = stampedeEvents a"
  "cachedLatency (bump_endpoint h t a) = cachedLatency a" "uncachedLatency (bump_endpoint h t a) = uncachedLatency a"
  by (auto simp: bump_endpoint_def Let_def split: option.split prod.split)

lemma bump_key_sel [cache_simps]:
  "l1_hits (bump_key k a) = l1_hits a" "l1_misses (bump_key k a) = l1_misses a"
  "l2_hits (bump_key k a) = l2_hits a" "l2_misses (bump_key k a) = l2_misses a"
  "invalidations (bump_key k a) = invalidations a" "stampedeEvents (bump_key k a) = stampedeEvents a"
  "cachedLatency (bump_key k a) = cachedLatency a" "uncachedLatency (bump_key k a) = uncachedLatency a"
  by (auto simp: bump_key_def)

lemmas [cache_simps] = recordHit_def recordMiss_def on_stats_def note_invalidation_def push_bounded

lemma lookup_begin_ok:
  assumes "store_ok c"
  shows "store_ok (snd (lookup_begin beta lnr now key ct c))"
proof -
  obtain found l1' where g: "lru_get now key (l1 c) = (found, l1')" by (cases "lru_get now key (l1 c)")
  have "lru_ok l1'" using assms g lru_ok_get [of "l1 c" now key] by (simp add: store_ok_def)
  then show ?thesis
    using assms g by (auto simp: lookup_begin_def Let_def store_ok_def stats_ok_def cache_simps split: option.split)
qed

lemma lookup_end_ok: "store_ok c \<Longrightarrow> store_ok (snd (lookup_end now key ct reply c))"
  by (auto simp: lookup_end_def Let_def store_ok_def stats_ok_def cache_simps split: option.split l2val.split)

lemma getWithMeta_ok: "store_ok c \<Longrightarrow> store_ok (snd (getWithMeta ops beta lnr now key ct c))"
  using lookup_begin_ok [of c beta lnr now key ct]
  by (auto simp: getWithMeta_def lookup_end_ok split: prod.split option.split)

lemma set_ok: "store_ok c \<Longrightarrow> store_ok (set_begin now key v t cms c)" "store_ok c \<Longrightarrow> store_ok (set_end ops key v t cms c)"
  by (auto simp: set_begin_def set_end_def store_ok_def split: option.split prod.split)

lemma l1_invalidate_ok: "lru_ok m \<Longrightarrow> lru_ok (l1_invalidate p m)"
  by (auto simp: l1_invalidate_def)

lemma invalidate_ok: "store_ok c \<Longrightarrow> store_ok (invalidate_begin p c)" "store_ok c \<Longrightarrow> store_ok (invalidate_end now p c)"
  by (auto simp: invalidate_begin_def invalidate_end_def store_ok_def stats_ok_def cache_simps l1_invalidate_ok)

lemma onInvalidation_ok: "store_ok c \<Longrightarrow> store_ok (onInvalidation inst now msg c)"
  by (auto simp: onInvalidation_def Let_def store_ok_def stats_ok_def cache_simps intro: l1.ok_drop_all split: option.split)

lemma aside_ok: "store_ok c \<Longrightarrow> store_ok (snd (aside_decide key h c))" "store_ok c \<Longrightarrow> store_ok (aside_finally key c)"
  by (auto simp: aside_decide_def aside_finally_def store_ok_def split: option.split)

lemma aside_begin_ok: "store_ok c \<Longrightarrow> store_ok (snd (aside_begin ops beta lnr now key t c))"
  using getWithMeta_ok [of c ops beta lnr now key "Some (ttl_type t)"] aside_ok(1)
  by (auto simp: aside_begin_def split: prod.split)

lemma latency_ok:
  "store_ok c \<Longrightarrow> store_ok (recordCachedLatency ms c)" "store_ok c \<Longrightarrow> store_ok (recordUncachedLatency ms c)"
  by (auto simp: store_ok_def stats_ok_def recordCachedLatency_def recordUncachedLatency_def cache_simps)

text \<open>What each segment does to the counters of misses.\<close>

definition same_counts :: "'r cache \<Rightarrow> 'r cache \<Rightarrow> bool" where
  "same_counts c c' \<longleftrightarrow> l1_misses (stats c') = l1_misses (stats c) \<and> l2_hits (stats c') = l2_hits (stats c) \<and>
     l2_misses (stats c') = l2_misses (stats c)"

lemma lookup_begin_counts:
  "lookup_begin beta lnr now key ct c = (h, c') \<Longrightarrow>
     l1_misses (stats c') = l1_misses (stats c) + (if h = None then 1 else 0) \<and>
     l2_hits (stats c') = l2_hits (stats c) \<and> l2_misses (stats c') = l2_misses (stats c)"
  by (auto simp: lookup_begin_def Let_def cache_simps split: prod.splits option.splits if_splits)

lemma lookup_end_counts:
  "lookup_end now key ct reply c = (h, c') \<Longrightarrow> l1_misses (stats c') = l1_misses (stats c) \<and>
     l2_hits (stats c') + l2_misses (stats c') = Suc (l2_hits (stats c) + l2_misses (stats c))"
  by (auto simp: lookup_end_def Let_def cache_simps split: option.splits l2val.splits if_splits)

lemma other_counts:
  "same_counts c (set_begin now key v t cms c)" "same_counts c (set_end ops key v t cms c)"
  "same_counts c (invalidate_begin p c)" "same_counts c (invalidate_end now p c)"
  "same_counts c (onInvalidation inst now msg c)" "same_counts c (snd (aside_decide key h c))"
  "same_counts c (aside_finally key c)" "same_counts c (recordCachedLatency ms c)"
  "same_counts c (recordUncachedLatency ms c)" "same_counts c (c\<lparr>redis := r\<rparr>)"
  by (auto simp: same_counts_def set_begin_def set_end_def invalidate_begin_def invalidate_end_def onInvalidation_def Let_def cache_simps
      aside_decide_def aside_finally_def recordCachedLatency_def recordUncachedLatency_def split: option.split prod.split)

subsection \<open>Interleaved requests\<close>

text \<open>
  An instance with the lookups that wait for Redis: for its client or its reply, and for their turn with the reply that was read.
  A step is one synchronous segment of any request (so that the others run at every \<open>await\<close>): both ends of a lookup and its
  question, the decision of a cache-aside request and its \<open>finally\<close>, both ends of a store and of an invalidation, the message of another
  instance, a latency sample; or any change of Redis, which the calls of an invalidation and the other instances make.
\<close>

datatype waiting = Asking string "string option" | Answered string "string option" l2_reply

record 'r cache_world =
  cw_cache :: "'r cache"
  cw_lookups :: "waiting list"

inductive cache_step :: "'r redis_ops \<Rightarrow> 'r cache_world \<Rightarrow> 'r cache_world \<Rightarrow> bool" for ops where
  step_hit: "lookup_begin beta lnr now key ct (cw_cache w) = (Some h, c) \<Longrightarrow> cache_step ops w (w\<lparr>cw_cache := c\<rparr>)"
| step_miss: "lookup_begin beta lnr now key ct (cw_cache w) = (None, c) \<Longrightarrow>
    cache_step ops w (w\<lparr>cw_cache := c, cw_lookups := cw_lookups w @ [Asking key ct]\<rparr>)"
| step_ask: "cw_lookups w = ws @ Asking key ct # ws' \<Longrightarrow>
    cache_step ops w (w\<lparr>cw_lookups := ws @ Answered key ct (ask_redis ops key (cw_cache w)) # ws'\<rparr>)"
| step_answer: "cw_lookups w = ws @ Answered key ct reply # ws' \<Longrightarrow> lookup_end now key ct reply (cw_cache w) = (h, c) \<Longrightarrow>
    cache_step ops w (w\<lparr>cw_cache := c, cw_lookups := ws @ ws'\<rparr>)"
| step_set: "cache_step ops w (w\<lparr>cw_cache := set_begin now key v t cms (cw_cache w)\<rparr>)"
| step_set_end: "cache_step ops w (w\<lparr>cw_cache := set_end ops key v t cms (cw_cache w)\<rparr>)"
| step_invalidate: "cache_step ops w (w\<lparr>cw_cache := invalidate_begin p (cw_cache w)\<rparr>)"
| step_invalidated: "cache_step ops w (w\<lparr>cw_cache := invalidate_end now p (cw_cache w)\<rparr>)"
| step_message: "cache_step ops w (w\<lparr>cw_cache := onInvalidation inst now msg (cw_cache w)\<rparr>)"
| step_decide: "cache_step ops w (w\<lparr>cw_cache := snd (aside_decide key h (cw_cache w))\<rparr>)"
| step_finally: "cache_step ops w (w\<lparr>cw_cache := aside_finally key (cw_cache w)\<rparr>)"
| step_cached: "cache_step ops w (w\<lparr>cw_cache := recordCachedLatency ms (cw_cache w)\<rparr>)"
| step_uncached: "cache_step ops w (w\<lparr>cw_cache := recordUncachedLatency ms (cw_cache w)\<rparr>)"
| step_redis: "cache_step ops w (w\<lparr>cw_cache := (cw_cache w)\<lparr>redis := r\<rparr>\<rparr>)"

text \<open>Every miss of the first tier has been counted in the second, or its lookup still waits.\<close>

definition cache_ok :: "'r cache_world \<Rightarrow> bool" where
  "cache_ok w \<longleftrightarrow> store_ok (cw_cache w) \<and>
     l1_misses (stats (cw_cache w)) = l2_hits (stats (cw_cache w)) + l2_misses (stats (cw_cache w)) + length (cw_lookups w)"

lemma cache_ok_same: "cache_ok w \<Longrightarrow> store_ok c \<Longrightarrow> same_counts (cw_cache w) c \<Longrightarrow> cache_ok (w\<lparr>cw_cache := c\<rparr>)"
  by (simp add: cache_ok_def same_counts_def)

lemma cache_step_ok:
  assumes "cache_step ops w w'" "cache_ok w"
  shows "cache_ok w'"
proof -
  have s: "store_ok (cw_cache w)" using assms(2) by (simp add: cache_ok_def)
  show ?thesis
    using assms(1)
  proof cases
    case (step_hit beta lnr now key ct h c)
    then show ?thesis using assms(2) lookup_begin_ok [OF s, of beta lnr now key ct] lookup_begin_counts [OF step_hit(2)]
      by (simp add: cache_ok_def)
  next
    case (step_miss beta lnr now key ct c)
    then show ?thesis using assms(2) lookup_begin_ok [OF s, of beta lnr now key ct] lookup_begin_counts [OF step_miss(2)]
      by (simp add: cache_ok_def)
  next
    case step_ask
    then show ?thesis using assms(2) by (simp add: cache_ok_def)
  next
    case (step_answer ws key ct reply ws' now h c)
    then show ?thesis using assms(2) lookup_end_ok [OF s, of now key ct reply] lookup_end_counts [OF step_answer(3)]
      by (simp add: cache_ok_def)
  next
    case step_redis
    then show ?thesis using s other_counts by (auto intro!: cache_ok_same [OF assms(2)] simp: store_ok_def)
  qed (auto intro!: cache_ok_same [OF assms(2)] other_counts set_ok invalidate_ok onInvalidation_ok aside_ok latency_ok s)
qed

definition unit_interval :: "rat \<Rightarrow> bool" where
  "unit_interval x \<longleftrightarrow> 0 \<le> x \<and> x \<le> 1"

lemma ratio_unit: "part \<le> whole \<Longrightarrow> unit_interval (ratio part whole)"
  by (simp add: ratio_def unit_interval_def)

text \<open>
  C7. Whatever requests an instance interleaves at their awaits, the first tier stays within its bound with distinct keys,
  the ring buffers stay within theirs, the misses of the first tier are the hits and misses of the second and the lookups that
  still wait for Redis, and the exported hit rates are fractions of one.
\<close>

theorem cache_reachable_ok:
  assumes "(cache_step ops)\<^sup>*\<^sup>* w w'" "cache_ok w"
  shows "lru_ok (l1 (cw_cache w')) \<and> stats_ok (stats (cw_cache w')) \<and>
         l1_misses (stats (cw_cache w')) = l2_hits (stats (cw_cache w')) + l2_misses (stats (cw_cache w')) + length (cw_lookups w') \<and>
         unit_interval (overall_rate (getAnalytics now (cw_cache w'))) \<and>
         unit_interval (l1_rate (getAnalytics now (cw_cache w'))) \<and> unit_interval (l2_rate (getAnalytics now (cw_cache w')))"
proof -
  have "cache_ok w'" using assms by (induction rule: rtranclp_induct) (auto dest: cache_step_ok)
  then show ?thesis by (auto simp: cache_ok_def store_ok_def getAnalytics_def Let_def intro!: ratio_unit)
qed

definition fresh_stats :: analytics where
  "fresh_stats = \<lparr>l1_hits = 0, l1_misses = 0, l2_hits = 0, l2_misses = 0, byEndpoint = [], keyAccess = [],
     invalidations = [], stampedeEvents = [], cachedLatency = [], uncachedLatency = []\<rparr>"

definition fresh_cache :: "nat \<Rightarrow> 'r option \<Rightarrow> 'r cache" where
  "fresh_cache n r = \<lparr>l1 = \<lparr>maxSize = n, slots = []\<rparr>, redis = r, recomputing = [], stats = fresh_stats\<rparr>"

text \<open>A client that is never consulted, for instances without Redis.\<close>

definition no_ops :: "unit redis_ops" where
  "no_ops = \<lparr>redis_get = (\<lambda>_ _. None), redis_set = (\<lambda>_ _ _ _. None), redis_del = (\<lambda>_ _. None),
     redis_scan = (\<lambda>_ _ _. None), redis_publish = (\<lambda>_ _. None)\<rparr>"

definition fresh_world :: "nat \<Rightarrow> 'r option \<Rightarrow> 'r cache_world" where
  "fresh_world n r = \<lparr>cw_cache = fresh_cache n r, cw_lookups = []\<rparr>"

lemma fresh_cache_ok: "1 \<le> n \<Longrightarrow> store_ok (fresh_cache n r)"
  by (simp add: fresh_cache_def fresh_stats_def store_ok_def stats_ok_def lru_defs)

lemma fresh_cache_world_ok: "1 \<le> n \<Longrightarrow> cache_ok (fresh_world n r)"
  by (simp add: cache_ok_def fresh_world_def fresh_cache_ok) (simp add: fresh_cache_def fresh_stats_def)

text \<open>Two lookups of a key have missed; Redis was asked for one of them before a store, and its stale answer comes after it.\<close>

definition overlapped :: "unit cache_world" where
  "overlapped =
     (let c1 = snd (lookup_begin 1 0 0 ''k'' None (fresh_cache 1 None)); c2 = snd (lookup_begin 1 0 0 ''k'' None c1)
      in \<lparr>cw_cache = snd (lookup_end 1 ''k'' None None (set_begin 0 ''k'' JNull (Seconds 5) 0 c2)), cw_lookups = [Asking ''k'' None]\<rparr>)"

lemma overlapped_steps: "(cache_step no_ops)\<^sup>*\<^sup>* (fresh_world 1 None) overlapped"
proof -
  define c1 where "c1 = snd (lookup_begin 1 0 0 ''k'' None (fresh_cache 1 (None :: unit option)))"
  define c2 where "c2 = snd (lookup_begin 1 0 0 ''k'' None c1)"
  define c3 where "c3 = set_begin 0 ''k'' JNull (Seconds 5) 0 c2"
  have b: "lookup_begin 1 0 0 ''k'' None (fresh_cache 1 (None :: unit option)) = (None, c1)" "lookup_begin 1 0 0 ''k'' None c1 = (None, c2)"
    by (simp_all add: c1_def c2_def lookup_begin_def lru_get_def fresh_cache_def on_stats_def Let_def)
  have r: "redis c2 = None" by (simp add: c1_def c2_def lookup_begin_def lru_get_def fresh_cache_def on_stats_def Let_def)
  let ?w = "\<lambda>c ls. \<lparr>cw_cache = c, cw_lookups = ls\<rparr>"
  have s1: "cache_step no_ops (fresh_world 1 None) (?w c1 [Asking ''k'' None])"
    using step_miss [of 1 0 0 "''k''" None "fresh_world 1 None"] b(1) by (simp add: fresh_world_def)
  have s2: "cache_step no_ops (?w c1 [Asking ''k'' None]) (?w c2 [Asking ''k'' None, Asking ''k'' None])"
    using step_miss [of 1 0 0 "''k''" None "?w c1 [Asking ''k'' None]"] b(2) by simp
  have s3: "cache_step no_ops (?w c2 [Asking ''k'' None, Asking ''k'' None]) (?w c2 [Answered ''k'' None None, Asking ''k'' None])"
    using step_ask [of "?w c2 [Asking ''k'' None, Asking ''k'' None]" "[]" "''k''" None "[Asking ''k'' None]" no_ops]
    by (simp add: ask_redis_def r)
  have s4: "cache_step no_ops (?w c2 [Answered ''k'' None None, Asking ''k'' None]) (?w c3 [Answered ''k'' None None, Asking ''k'' None])"
    using step_set [of no_ops "?w c2 [Answered ''k'' None None, Asking ''k'' None]" 0 "''k''" JNull "Seconds 5" 0] by (simp add: c3_def)
  have s5: "cache_step no_ops (?w c3 [Answered ''k'' None None, Asking ''k'' None]) (?w (snd (lookup_end 1 ''k'' None None c3)) [Asking ''k'' None])"
    using step_answer [of "?w c3 [Answered ''k'' None None, Asking ''k'' None]" "[]" "''k''" None None "[Asking ''k'' None]" 1
        "fst (lookup_end 1 ''k'' None None c3)" "snd (lookup_end 1 ''k'' None None c3)" no_ops] by simp
  have "(cache_step no_ops)\<^sup>*\<^sup>* (fresh_world 1 None) (?w (snd (lookup_end 1 ''k'' None None c3)) [Asking ''k'' None])"
    using s1 s2 s3 s4 s5 by (meson r_into_rtranclp rtranclp.rtrancl_into_rtrancl)
  then show ?thesis by (simp add: overlapped_def c1_def c2_def c3_def Let_def)
qed

theorem cache_reachable_ok_witness:
  "l1_misses (stats (cw_cache overlapped)) = l2_hits (stats (cw_cache overlapped)) + l2_misses (stats (cw_cache overlapped)) + 1 \<and>
   lru_ok (l1 (cw_cache overlapped)) \<and> unit_interval (overall_rate (getAnalytics 0 (cw_cache overlapped)))"
  using cache_reachable_ok [OF overlapped_steps fresh_cache_world_ok, of 0] by (simp add: overlapped_def Let_def)

subsection \<open>Reading through\<close>

definition l1_ttl :: "ttl_arg \<Rightarrow> nat" where
  "l1_ttl t = (case t of Seconds n \<Rightarrow> n | Cache_type x \<Rightarrow> ttl_l1 (getTTL x))"

lemma cacheSet_l1:
  "0 < l1_ttl t \<Longrightarrow> l1 (cacheSet ops now key v t cms c) = lru_set now key v (l1_ttl t * 1000) cms (l1 c)"
  by (auto simp: cacheSet_defs l1_ttl_def split: option.split ttl_arg.splits)

lemma cacheGet_peek:
  "lru_peek now key (l1 c) = Some v \<Longrightarrow> fst (cacheGet ops beta lnr now key ct c) = v"
  by (auto simp: cacheGet_def getWithMeta_def lookup_begin_def lru_peek_def Let_def split: prod.splits if_splits option.splits)

text \<open>
  Cache-aside reads through: when the loader's value is returned and is neither null nor undefined,
  then until it expires every later read of the key that follows only evictions of other keys gets this value from
  the first tier; a loader that throws or has nothing leaves the stored entries as they were.
\<close>

lemma cache_aside_reads_through:
  assumes "store_ok c" "aside_begin ops beta lnr start key t c = (None, c1)"
  shows "case cacheAside ops beta lnr start fin key loader t c of (res, c2) \<Rightarrow>
           res = loader \<and> key \<notin> set (recomputing c2) \<and>
           (case loader of
              Loaded (Some v) \<Rightarrow>
                v \<noteq> JNull \<longrightarrow> 0 < l1_ttl t \<longrightarrow> later \<le> fin + l1_ttl t * 1000 \<longrightarrow> key \<notin> set others \<longrightarrow>
                  fst (cacheGet ops beta lnr' later key ct (c2\<lparr>l1 := fold lru_delete others (l1 c2)\<rparr>)) = v
            | _ \<Rightarrow> slots (l1 c2) = slots (l1 c1))"
proof -
  have ok: "lru_ok (l1 c1)" using aside_begin_ok [OF assms(1)] assms(2) by (metis store_ok_def snd_conv)
  have "fst (cacheGet ops beta lnr' later key ct (c2\<lparr>l1 := fold lru_delete others (l1 c2)\<rparr>)) = v"
    if "0 < l1_ttl t" "later \<le> fin + l1_ttl t * 1000" "key \<notin> set others"
      "l1 c2 = l1 (cacheSet ops fin key v t (fin - start) c1)" for v c2
    using l1.written_survives [OF ok that(2,3)] that(1,4) by (intro cacheGet_peek) (simp add: cacheSet_l1)
  then show ?thesis
    using assms(2) by (auto simp: cacheAside_def aside_end_def aside_finally_def Let_def split: loaded.split option.split)
qed

lemma cache_aside_reads_through_witness:
  "fst (cacheGet no_ops 1 0 5000 ''k'' None
     (snd (cacheAside no_ops 1 0 0 10 ''k'' (Loaded (Some (JStr ''v''))) (Cache_type ''events_list'') (fresh_cache 2 None)))) = JStr ''v''"
proof -
  have b: "aside_begin no_ops 1 0 0 ''k'' (Cache_type ''events_list'') (fresh_cache 2 None) =
      (None, snd (aside_begin no_ops 1 0 0 ''k'' (Cache_type ''events_list'') (fresh_cache 2 None)))"
    by (simp add: aside_begin_def aside_decide_def getWithMeta_def lookup_begin_def lru_get_def fresh_cache_def Let_def lookup_end_def ask_redis_def on_stats_def)
  have t: "l1_ttl (Cache_type ''events_list'') = 5" by (simp add: l1_ttl_def getTTL_def TTL_CONFIG_def)
  from cache_aside_reads_through [OF fresh_cache_ok b, where fin = 10 and loader = "Loaded (Some (JStr ''v''))"
      and later = 5000 and others = "[]" and lnr' = 0 and ct = None]
  show ?thesis by (simp add: t split: prod.splits)
qed

subsection \<open>Invalidation\<close>

lemma cacheInvalidate_l1:
  "cacheInvalidate ops now inst p c = Some c' \<Longrightarrow> l1 c' = l1_invalidate p (l1 c)"
  by (auto simp: cacheInvalidate_def invalidate_begin_def invalidate_end_def Let_def on_stats_def split: option.splits)

lemma pattern_hits_prefix: "p \<noteq> [] \<Longrightarrow> pattern_hits (p @ ''*'') key = prefix p key"
  by (simp add: pattern_hits_def suffix_def butlast_append)

lemma pattern_hits_other: "\<not> suffix ''*'' p \<Longrightarrow> pattern_hits p key = (key = p)"
  by (simp add: pattern_hits_def)

lemma peek_deletePattern:
  "lru_peek t key (lru_deletePattern p m) = (if pattern_hits p key then None else lru_peek t key m)"
  by (simp add: lru_peek_map lru_deletePattern_def map_of_filter_key [where P = "\<lambda>k. \<not> pattern_hits p k"] split: option.split)

text \<open>
  Invalidating a prefix pattern removes exactly the keys with that prefix from the first tier, on the
  instance itself and on every instance that gets its message.
\<close>

lemma invalidate_prefix_exact:
  assumes "cacheInvalidate ops now inst (p @ ''*'') c = Some c'" "p \<noteq> []" "inst \<noteq> inst'"
    and "msg = \<lparr>m_pattern = Some (p @ ''*''), m_keys = ks, m_timestamp = now, m_origin = inst\<rparr>"
  shows "lru_peek t key (l1 c') = (if prefix p key then None else lru_peek t key (l1 c)) \<and>
         lru_peek t key (l1 (onInvalidation inst' now msg d)) = (if prefix p key then None else lru_peek t key (l1 d))"
  using assms cacheInvalidate_l1 [OF assms(1)]
  by (auto simp: l1_invalidate_def peek_deletePattern pattern_hits_prefix onInvalidation_def on_stats_def Let_def)

lemma invalidate_prefix_exact_witness:
  "lru_peek 0 ''events:list:1'' (l1 (the (cacheInvalidate no_ops 0 ''i'' ''events:list:*''
     (cacheSet no_ops 0 ''events:list:1'' JNull (Seconds 5) 0 (fresh_cache 2 None))))) = None"
proof -
  let ?c = "cacheSet no_ops 0 ''events:list:1'' JNull (Seconds 5) 0 (fresh_cache 2 None)"
  have "redis ?c = None" by (simp add: cacheSet_defs fresh_cache_def Let_def)
  then have i: "cacheInvalidate no_ops 0 ''i'' (''events:list:'' @ ''*'') ?c =
      Some (the (cacheInvalidate no_ops 0 ''i'' (''events:list:'' @ ''*'') ?c))"
    by (simp add: cacheInvalidate_def invalidate_begin_def Let_def)
  from invalidate_prefix_exact [OF i, of "''j''" "\<lparr>m_pattern = Some (''events:list:'' @ ''*''), m_keys = [],
        m_timestamp = 0, m_origin = ''i''\<rparr>" "[]" 0 "''events:list:1''" ?c]
  show ?thesis by simp
qed

text \<open>
  A glob with its star in the middle, such as the pattern the contract routes use, is not honoured by
  the first tier: every entry but one stored under the literal pattern survives there, although the same
  pattern removes the matching keys from Redis.
\<close>

lemma middle_star_keeps_l1:
  assumes "cacheInvalidate ops now inst pat c = Some c'" "CHR ''*'' \<in> set pat" "\<not> suffix ''*'' pat" "key \<noteq> pat"
  shows "lru_peek t key (l1 c') = lru_peek t key (l1 c)"
  using assms cacheInvalidate_l1 [OF assms(1)]
  by (simp add: l1_invalidate_def peek_deletePattern pattern_hits_other)

lemma middle_star_keeps_l1_witness:
  "lru_peek 0 ''contracts:single:v1:C1'' (l1 (the (cacheInvalidate no_ops 0 ''i'' ''contracts:single:*:C1''
     (cacheSet no_ops 0 ''contracts:single:v1:C1'' (JStr ''old'') (Seconds 5) 0 (fresh_cache 2 None))))) = Some (JStr ''old'')"
proof -
  let ?c = "cacheSet no_ops 0 ''contracts:single:v1:C1'' (JStr ''old'') (Seconds 5) 0 (fresh_cache 2 None)"
  have l: "lru_peek 0 ''contracts:single:v1:C1'' (l1 ?c) = Some (JStr ''old'')"
    by (simp add: cacheSet_defs fresh_cache_def Let_def lru_peek_map lru_set_lookup)
  have "redis ?c = None" by (simp add: cacheSet_defs fresh_cache_def Let_def)
  then have i: "cacheInvalidate no_ops 0 ''i'' ''contracts:single:*:C1'' ?c =
      Some (the (cacheInvalidate no_ops 0 ''i'' ''contracts:single:*:C1'' ?c))"
    by (simp add: cacheInvalidate_def invalidate_begin_def Let_def)
  have "\<not> suffix ''*'' ''contracts:single:*:C1''" by (simp add: suffix_def)
  from middle_star_keeps_l1 [OF i _ this, of "''contracts:single:v1:C1''" 0] l show ?thesis by simp
qed

text \<open>
  An edge cache never stores a private answer: the policy is no-store, without purge keys, exactly
  for requests that are not GET or that fall under a private prefix, and every other answer can be purged.
\<close>

lemma edge_policy_private:
  "(e_edge (edgeCachePolicy n verb path healthy) = ''no-store'' \<longleftrightarrow>
      (if verb = ''GET'' then list_ex (\<lambda>p. prefix p path) PRIVATE_PREFIXES else True)) \<and>
   (e_keys (edgeCachePolicy n verb path healthy) = [] \<longleftrightarrow>
      e_class (edgeCachePolicy n verb path healthy) = Edge_private)"
  by (auto simp: edgeCachePolicy_def Let_def split: option.split)

end
