(* ===== verification/Filter_Ast.thy ===== *)
theory Filter_Ast
  imports Json
begin

text \<open>
  The event filter language, filters/filter.js: fields, limits and the validation of an AST. The AST is
  the JSON value the code walks. Shown: validation accepts exactly the trees within the limits.
\<close>

subsection \<open>Tables\<close>

text \<open>
  \<open>field in COLUMN_FIELDS\<close> also finds what the object inherits from \<open>Object.prototype\<close>; the type looked up
  there is neither text nor number.
\<close>

datatype col_type = Text_col | Number_col | Inherited

definition COLUMN_FIELDS :: "(string \<times> col_type) list" where
  "COLUMN_FIELDS =
     [(''contract_id'', Text_col), (''function'', Text_col), (''tx_hash'', Text_col),
      (''ledger'', Number_col), (''seq'', Number_col)]"

definition object_prototype :: "string list" where
  "object_prototype =
     [''constructor'', ''__defineGetter__'', ''__defineSetter__'', ''hasOwnProperty'', ''__lookupGetter__'',
      ''__lookupSetter__'', ''isPrototypeOf'', ''propertyIsEnumerable'', ''toString'', ''valueOf'',
      ''__proto__'', ''toLocaleString'']"

definition OPS :: "string list" where
  "OPS = [''eq'', ''ne'', ''gt'', ''gte'', ''lt'', ''lte'', ''in'', ''between'', ''exists'']"

record tier_limit =
  maxCost :: nat
  timeoutMs :: nat

definition FILTER_TIER_LIMITS :: "(string \<times> tier_limit) list" where
  "FILTER_TIER_LIMITS =
     [(''unauthenticated'', \<lparr>maxCost = 10000, timeoutMs = 1000\<rparr>),
      (''free'', \<lparr>maxCost = 100000, timeoutMs = 2000\<rparr>),
      (''pro'', \<lparr>maxCost = 1000000, timeoutMs = 5000\<rparr>),
      (''enterprise'', \<lparr>maxCost = 10000000, timeoutMs = 15000\<rparr>)]"

definition maxNodes :: nat where "maxNodes = 64"
definition maxDepth :: nat where "maxDepth = 8"
definition maxIn :: nat where "maxIn = 100"
definition maxPathDepth :: nat where "maxPathDepth = 8"
definition maxString :: nat where "maxString = 256"

definition MAX_UNINDEXED_LEDGER_SPAN :: rat where "MAX_UNINDEXED_LEDGER_SPAN = 120000"

subsection \<open>Fields\<close>

definition is_alpha :: "char \<Rightarrow> bool" where
  "is_alpha c = (let n = of_char c :: nat in 65 \<le> n \<and> n \<le> 90 \<or> 97 \<le> n \<and> n \<le> 122 \<or> n = 95)"

text \<open>The class \<open>\w\<close>.\<close>

definition is_word :: "char \<Rightarrow> bool" where
  "is_word c = (is_alpha c \<or> is_digit c)"

text \<open>One segment of \<open>ARGS_RE\<close>: an identifier of at most 64 characters or one to four digits.\<close>

definition path_segment :: "string \<Rightarrow> bool" where
  "path_segment s =
     (case s of
        [] \<Rightarrow> False
      | c # r \<Rightarrow> is_alpha c \<and> length r \<le> 63 \<and> list_all is_word r \<or> length s \<le> 4 \<and> list_all is_digit s)"

definition topic_index :: "string \<Rightarrow> nat option" where
  "topic_index field =
     (case filter (\<lambda>k. field = ''topic['' @ dec k @ '']'') [0, 1, 2, 3] of k # _ \<Rightarrow> Some k | [] \<Rightarrow> None)"

definition args_path :: "string \<Rightarrow> string list option" where
  "args_path field =
     (if prefix ''args.'' field \<and> list_all path_segment (split_on CHR ''.'' (drop 5 field))
      then Some (split_on CHR ''.'' (drop 5 field)) else None)"

datatype field = Column string col_type | Topic nat | Args "string list"

definition parse_field_text :: "string \<Rightarrow> field option" where
  "parse_field_text s =
     (case map_of COLUMN_FIELDS s of
        Some t \<Rightarrow> Some (Column s t)
      | None \<Rightarrow>
          if s \<in> set object_prototype then Some (Column s Inherited)
          else (case topic_index s of
                  Some k \<Rightarrow> Some (Topic k)
                | None \<Rightarrow> (case args_path s of
                     Some path \<Rightarrow> if maxPathDepth < length path then None else Some (Args path)
                   | None \<Rightarrow> None)))"

text \<open>The argument is \<open>None\<close> when the property is missing.\<close>

definition parseField :: "json option \<Rightarrow> field option" where
  "parseField field = (case field of Some (JStr s) \<Rightarrow> parse_field_text s | _ \<Rightarrow> None)"

subsection \<open>Validation\<close>

datatype filter_error =
    Too_many_nodes
  | Too_deep
  | Node_not_object
  | Empty_group
  | Unknown_field
  | Unknown_operator
  | In_needs_values
  | Between_needs_pair
  | Needs_scalar
  | Compares_integers
  | Unexpected_input
  | Bad_string
  | Expected_symbol string
  | Expected_value
  | Expected_field
  | Expected_and
  | Expected_operator
  | Unexpected_token
  | Filter_too_long
  | Malformed_json
  | Out_of_fuel

fun isScalar :: "json \<Rightarrow> bool" where
  "isScalar (JStr s) = (length s \<le> maxString)"
| "isScalar (JNum _) = True"
| "isScalar (JBool _) = True"
| "isScalar _ = False"

definition scalar_opt :: "json option \<Rightarrow> bool" where
  "scalar_opt v = (case v of Some x \<Rightarrow> isScalar x | None \<Rightarrow> False)"

text \<open>\<open>/^-?\d{1,19}$/.test(String(v))\<close> for the values that are not booleans.\<close>

definition digits_19 :: "string \<Rightarrow> bool" where
  "digits_19 s =
     (let d = (if prefix ''-'' s then tl s else s) in d \<noteq> [] \<and> length d \<le> 19 \<and> list_all is_digit d)"

fun integer_text :: "json \<Rightarrow> bool" where
  "integer_text (JStr s) = digits_19 s"
| "integer_text (JNum x) = (of_int \<lfloor>x\<rfloor> = x \<and> \<bar>x\<bar> < 10 ^ 19)"
| "integer_text _ = False"

definition value_list :: "json option \<Rightarrow> json list" where
  "value_list v = (case v of Some (JArr xs) \<Rightarrow> xs | Some x \<Rightarrow> [x] | None \<Rightarrow> [])"

text \<open>The shape of the value an operator needs; \<open>None\<close> is acceptance.\<close>

definition value_error :: "string \<Rightarrow> json option \<Rightarrow> filter_error option" where
  "value_error op v =
     (if op = ''in'' then
        (case v of
           Some (JArr xs) \<Rightarrow>
             if xs = [] \<or> maxIn < length xs \<or> \<not> list_all isScalar xs then Some In_needs_values else None
         | _ \<Rightarrow> Some In_needs_values)
      else if op = ''between'' then
        (case v of
           Some (JArr xs) \<Rightarrow> if length xs \<noteq> 2 \<or> \<not> list_all isScalar xs then Some Between_needs_pair else None
         | _ \<Rightarrow> Some Between_needs_pair)
      else if \<not> scalar_opt v then Some Needs_scalar else None)"

definition leaf_error :: "json \<Rightarrow> filter_error option" where
  "leaf_error n =
     (case parseField (prop_of n ''field'') of
        None \<Rightarrow> Some Unknown_field
      | Some f \<Rightarrow>
          (case prop_of n ''op'' of
             Some (JStr op) \<Rightarrow>
               if op \<notin> set OPS then Some Unknown_operator
               else if op = ''exists'' then None
               else (case value_error op (prop_of n ''value'') of
                       Some e \<Rightarrow> Some e
                     | None \<Rightarrow>
                         (case f of
                            Column c Number_col \<Rightarrow>
                              if list_all integer_text (value_list (prop_of n ''value'')) then None
                              else Some Compares_integers
                          | _ \<Rightarrow> None))
           | _ \<Rightarrow> Some Unknown_operator))"

definition has_key :: "json \<Rightarrow> string \<Rightarrow> bool" where
  "has_key n k = (prop_of n k \<noteq> None)"

definition is_group :: "json \<Rightarrow> bool" where
  "is_group n = (has_key n ''and'' \<or> has_key n ''or'')"

text \<open>\<open>n.and ?? n.or\<close>.\<close>

definition group_value :: "json \<Rightarrow> json option" where
  "group_value n =
     (case prop_of n ''and'' of
        Some v \<Rightarrow> if v = JNull then prop_of n ''or'' else Some v
      | None \<Rightarrow> prop_of n ''or'')"

definition group_list :: "json \<Rightarrow> json list" where
  "group_list n = (case group_value n of Some (JArr xs) \<Rightarrow> xs | _ \<Rightarrow> [])"

text \<open>The inner \<open>walk\<close>: the node counter is threaded through, children are visited in order.\<close>

function (sequential) walk :: "nat \<Rightarrow> nat \<Rightarrow> json \<Rightarrow> filter_error + nat"
  and walk_list :: "nat \<Rightarrow> nat \<Rightarrow> json list \<Rightarrow> filter_error + nat" where
  "walk count depth n =
     (let count' = count + 1
      in if maxNodes < count' then Inl Too_many_nodes
         else if maxDepth < depth then Inl Too_deep
         else if \<not> is_obj n then Inl Node_not_object
         else if is_group n then
           (if group_list n = [] then Inl Empty_group else walk_list count' (depth + 1) (group_list n))
         else (case prop_of n ''not'' of
                 Some m \<Rightarrow> walk count' (depth + 1) m
               | None \<Rightarrow> (case leaf_error n of Some e \<Rightarrow> Inl e | None \<Rightarrow> Inr count')))"
| "walk_list count depth [] = Inr count"
| "walk_list count depth (n # ns) =
     (case walk count depth n of Inl e \<Rightarrow> Inl e | Inr count' \<Rightarrow> walk_list count' depth ns)"
  by pat_completeness auto

termination
  by (relation "measures [\<lambda>x. case x of Inl (c, d, n) \<Rightarrow> 10 - d | Inr (c, d, ns) \<Rightarrow> 10 - d,
      \<lambda>x. case x of Inl _ \<Rightarrow> 0 | Inr (c, d, ns) \<Rightarrow> Suc (length ns)]") (auto simp: maxDepth_def)

declare walk.simps [simp del]

definition validateFilter :: "json \<Rightarrow> filter_error + json" where
  "validateFilter node = (case walk 0 0 node of Inl e \<Rightarrow> Inl e | Inr _ \<Rightarrow> Inr node)"

subsection \<open>What validation accepts\<close>

text \<open>Well-formed trees whose height is at most a budget, and their size.\<close>

primrec wf_node :: "nat \<Rightarrow> json \<Rightarrow> bool" where
  "wf_node 0 n = (is_obj n \<and> \<not> is_group n \<and> prop_of n ''not'' = None \<and> leaf_error n = None)"
| "wf_node (Suc k) n =
     (is_obj n \<and>
      (if is_group n then group_list n \<noteq> [] \<and> list_all (wf_node k) (group_list n)
       else case prop_of n ''not'' of Some m \<Rightarrow> wf_node k m | None \<Rightarrow> leaf_error n = None))"

primrec node_count :: "nat \<Rightarrow> json \<Rightarrow> nat" where
  "node_count 0 n = 1"
| "node_count (Suc k) n =
     1 + (if is_group n then sum_list (map (node_count k) (group_list n))
          else case prop_of n ''not'' of Some m \<Rightarrow> node_count k m | None \<Rightarrow> 0)"

lemma node_count_pos: "1 \<le> node_count k n"
  by (cases k) auto

lemma walk_leaf_budget:
  assumes "depth = maxDepth"
  shows "walk count depth n =
     (if maxNodes \<le> count then Inl Too_many_nodes
      else if \<not> is_obj n then Inl Node_not_object
      else if is_group n then (if group_list n = [] then Inl Empty_group else walk_list (Suc count) 9 (group_list n))
      else (case prop_of n ''not'' of
              Some m \<Rightarrow> walk (Suc count) 9 m
            | None \<Rightarrow> (case leaf_error n of Some e \<Rightarrow> Inl e | None \<Rightarrow> Inr (Suc count))))"
proof -
  have "(8::nat) + 1 = 9" by simp
  then show ?thesis
    using assms
    by (simp add: walk.simps [of count] maxDepth_def Let_def not_less_eq less_Suc_eq_le cong: option.case_cong)
qed

lemma walk_too_deep: "maxDepth < depth \<Longrightarrow> \<exists>e. walk count depth n = Inl e"
  by (simp add: walk.simps Let_def)

lemma walk_list_iff:
  assumes "\<And>n count r. n \<in> set ns \<Longrightarrow> walk count depth n = Inr r \<longleftrightarrow> P n \<and> r = count + c n \<and> r \<le> maxNodes"
    and "\<And>n. 1 \<le> c n"
  shows "ns \<noteq> [] \<Longrightarrow> walk_list count depth ns = Inr r \<longleftrightarrow>
           list_all P ns \<and> r = count + sum_list (map c ns) \<and> r \<le> maxNodes"
  using assms(1)
proof (induction ns arbitrary: count)
  case (Cons n ns)
  show ?case
  proof (cases "ns = []")
    case True
    then show ?thesis using Cons.prems(2) [of n count r] by (auto split: sum.split)
  next
    case False
    note IH = Cons.IH [OF False Cons.prems(2)]
    show ?thesis
    proof (cases "walk count depth n")
      case (Inl e)
      have "\<not> (P n \<and> count + c n \<le> maxNodes)" using Cons.prems(2) [of n count "count + c n"] Inl by simp
      then show ?thesis using Inl by auto
    next
      case (Inr r')
      then have r': "P n" "r' = count + c n" using Cons.prems(2) [of n count r'] by simp_all
      show ?thesis using Inr r' IH [of r'] by (simp add: add.assoc)
    qed
  qed
qed simp

lemma walk_iff:
  "k + depth = maxDepth \<Longrightarrow>
     walk count depth n = Inr r \<longleftrightarrow> wf_node k n \<and> r = count + node_count k n \<and> r \<le> maxNodes"
proof (induction k arbitrary: count depth n r)
  case 0
  have "\<exists>e. walk_list (Suc count) 9 (group_list n) = Inl e" if ne: "group_list n \<noteq> []"
  proof -
    obtain x xs where "group_list n = x # xs" using ne by (cases "group_list n") auto
    then show ?thesis using walk_too_deep [of 9 "Suc count" x] by (auto simp: maxDepth_def)
  qed
  then have no: "walk_list (Suc count) 9 (group_list n) \<noteq> Inr r" if "group_list n \<noteq> []"
    using that by (metis Inl_Inr_False)
  have no': "walk (Suc count) 9 m \<noteq> Inr r" for m
    using walk_too_deep [of 9 "Suc count" m] by (auto simp: maxDepth_def)
  show ?case
    using 0 no no' by (auto simp: walk_leaf_budget split: option.split)
next
  case (Suc k)
  then have d: "k + Suc depth = maxDepth" "\<not> maxDepth < depth" by simp_all
  have group: "walk_list (Suc count) (Suc depth) (group_list n) = Inr r \<longleftrightarrow>
      list_all (wf_node k) (group_list n) \<and> r = Suc count + sum_list (map (node_count k) (group_list n)) \<and>
      r \<le> maxNodes" if "group_list n \<noteq> []"
    by (rule walk_list_iff) (use Suc.IH [OF d(1)] node_count_pos that in auto)
  have neg: "walk (Suc count) (Suc depth) m = Inr r \<longleftrightarrow>
      wf_node k m \<and> r = Suc count + node_count k m \<and> r \<le> maxNodes" for m
    by (rule Suc.IH [OF d(1)])
  have pos: "1 \<le> sum_list (map (node_count k) (group_list n))" if ne: "group_list n \<noteq> []"
  proof -
    obtain x xs where "group_list n = x # xs" using ne by (cases "group_list n") auto
    then show ?thesis using node_count_pos [of k x] by simp
  qed
  show ?case
  proof (cases "maxNodes < Suc count")
    case True
    then show ?thesis by (auto simp: walk.simps [of count depth n] Let_def)
  next
    case False
    then show ?thesis
      using d(2) group neg
      by (auto simp: walk.simps [of count depth n] Let_def split: option.split)
  qed
qed

text \<open>
  Validation accepts an AST exactly when it is a well-formed tree of height at most 8 with at most 64
  nodes: every group is a non-empty array, every leaf names a field and an operator and has a value of the operator's
  shape.
\<close>

lemma validate_iff_wf:
  "validateFilter ast = Inr ast' \<longleftrightarrow> ast' = ast \<and> wf_node 8 ast \<and> node_count 8 ast \<le> 64"
proof -
  have "(\<exists>r. walk 0 0 ast = Inr r) \<longleftrightarrow> wf_node 8 ast \<and> node_count 8 ast \<le> 64"
    using walk_iff [of 8 0 0 ast] by (auto simp: maxDepth_def maxNodes_def)
  then show ?thesis by (auto simp: validateFilter_def split: sum.splits)
qed

lemma validate_wf: "validateFilter ast = Inr ast' \<Longrightarrow> wf_node 8 ast"
  using walk_iff [of 8 0 0 ast] by (auto simp: validateFilter_def maxDepth_def split: sum.splits)

text \<open>
  Names that every object inherits are accepted as columns: a filter on \<open>constructor\<close> or \<open>toString\<close>
  passes validation like one on a column of the table.
\<close>

lemma inherited_names_validate:
  assumes "name \<in> set object_prototype" "isScalar v" "op \<in> {''eq'', ''ne'', ''gt'', ''gte'', ''lt'', ''lte''}"
  defines "ast \<equiv> JObj [(''field'', JStr name), (''op'', JStr op), (''value'', v)]"
  shows "validateFilter ast = Inr ast"
proof -
  have "map_of COLUMN_FIELDS name = None" using assms(1) by (auto simp: object_prototype_def COLUMN_FIELDS_def)
  then have f: "parseField (prop_of ast ''field'') = Some (Column name Inherited)"
    using assms(1) by (simp add: ast_def parseField_def parse_field_text_def)
  have "value_error op (Some v) = None" using assms(2,3) by (auto simp: value_error_def scalar_opt_def)
  then have "leaf_error ast = None"
    using f assms(3) by (auto simp: leaf_error_def OPS_def ast_def)
  then show ?thesis
    by (simp add: validateFilter_def walk.simps Let_def maxNodes_def maxDepth_def is_group_def has_key_def ast_def)
qed

lemma inherited_names_validate_witness:
  "validateFilter (JObj [(''field'', JStr ''toString''), (''op'', JStr ''eq''), (''value'', JBool True)]) =
     Inr (JObj [(''field'', JStr ''toString''), (''op'', JStr ''eq''), (''value'', JBool True)])"
  by (rule inherited_names_validate) (simp_all add: object_prototype_def)

end
