(* ===== verification/Filter_Eval.thy ===== *)
theory Filter_Eval
  imports Filter_Ast Js_Number
begin

text \<open>
  filters/filter.js: the planner that refuses filters no index can serve, and the evaluator for live
  events. A step that throws a TypeError is \<open>None\<close>. JSON.parse of a string payload is a parameter.
  Numbers are compared as exact rationals, which is what the BigInt branch does for integers.
\<close>

subsection \<open>Numeric values\<close>

text \<open>The parts of \<open>NUMERIC_RE\<close>: a fraction with digits after its point, and an exponent.\<close>

definition frac_part :: "string \<Rightarrow> (string \<times> string) option" where
  "frac_part r =
     (if prefix ''.'' r then
        (if takeWhile is_digit (tl r) = [] then None
         else Some (takeWhile is_digit (tl r), dropWhile is_digit (tl r)))
      else Some ([], r))"

definition exp_part :: "string \<Rightarrow> int option" where
  "exp_part r =
     (if r = [] then Some 0
      else if hd r \<in> {CHR ''e'', CHR ''E''} then
        (let t = tl r;
             neg = prefix ''-'' t;
             d = (if neg \<or> prefix ''+'' t then tl t else t)
         in if d \<noteq> [] \<and> all_digits d then Some (if neg then - int (undec d) else int (undec d)) else None)
      else None)"

definition scale10 :: "rat \<Rightarrow> int \<Rightarrow> rat" where
  "scale10 x e = (if 0 \<le> e then x * 10 ^ nat e else x / 10 ^ nat (- e))"

text \<open>The value of a text that matches \<open>NUMERIC_RE\<close>.\<close>

definition number_value :: "string \<Rightarrow> rat option" where
  "number_value s =
     (let neg = prefix ''-'' s;
          t = (if neg then tl s else s);
          ip = takeWhile is_digit t
      in if ip = [] then None
         else (case frac_part (dropWhile is_digit t) of
                 None \<Rightarrow> None
               | Some (fp, r) \<Rightarrow>
                   (case exp_part r of
                      None \<Rightarrow> None
                    | Some e \<Rightarrow>
                        let m = scale10 (of_nat (undec (ip @ fp))) (e - int (length fp))
                        in Some (if neg then - m else m))))"

fun numeric :: "json \<Rightarrow> rat option" where
  "numeric (JNum x) = Some x"
| "numeric (JStr s) = number_value s"
| "numeric _ = None"

subsection \<open>Evaluator\<close>

record event =
  ev_col :: "string \<Rightarrow> json option"
  raw_topics :: "json option"
  raw_data :: "json option"

text \<open>Array members are reached by a canonical index or by \<open>length\<close>.\<close>

definition array_get :: "json list \<Rightarrow> string \<Rightarrow> json option" where
  "array_get xs k =
     (if k = ''length'' then Some (JNum (of_nat (length xs)))
      else if k \<noteq> [] \<and> all_digits k \<and> (k = ''0'' \<or> hd k \<noteq> CHR ''0'') \<and> undec k < length xs
      then Some (xs ! undec k) else None)"

definition path_step :: "json option \<Rightarrow> string \<Rightarrow> json option" where
  "path_step v k =
     (case v of Some (JObj ps) \<Rightarrow> map_of ps k | Some (JArr xs) \<Rightarrow> array_get xs k | _ \<Rightarrow> None)"

definition fieldValue :: "(string \<Rightarrow> json option) \<Rightarrow> event \<Rightarrow> field \<Rightarrow> json option" where
  "fieldValue json_parse e f =
     (case f of
        Column c t \<Rightarrow> ev_col e c
      | Topic k \<Rightarrow>
          (case raw_topics e of
             Some (JArr ts) \<Rightarrow> if k < length ts then Some (ts ! k) else None
           | _ \<Rightarrow> None)
      | Args path \<Rightarrow>
          (case raw_data e of
             Some (JStr s) \<Rightarrow> (case json_parse s of Some d \<Rightarrow> foldl path_step (Some d) path | None \<Rightarrow> None)
           | d \<Rightarrow> foldl path_step d path))"

definition by_op :: "string \<Rightarrow> 'a::linorder \<Rightarrow> 'a \<Rightarrow> bool" where
  "by_op op x y =
     (if op = ''eq'' then x = y else if op = ''ne'' then x \<noteq> y
      else if op = ''gt'' then y < x else if op = ''gte'' then y \<le> x
      else if op = ''lt'' then x < y else if op = ''lte'' then x \<le> y else False)"

definition compare_op :: "string \<Rightarrow> json option \<Rightarrow> json \<Rightarrow> bool" where
  "compare_op op actual expected =
     (case actual of
        None \<Rightarrow> False
      | Some a \<Rightarrow>
          if a = JNull \<or> is_obj a \<or> is_arr a then False
          else (case numeric expected of
                  Some e \<Rightarrow> (case numeric a of None \<Rightarrow> False | Some x \<Rightarrow> by_op op x e)
                | None \<Rightarrow> by_op op (text_of a) (text_of expected)))"

definition inList :: "json list \<Rightarrow> json list" where
  "inList values = (if list_all (\<lambda>v. numeric v \<noteq> None) values then values else map (JStr \<circ> text_of) values)"

text \<open>A leaf; \<open>None\<close> when the field is unknown or an array is missing.\<close>

definition leaf_eval :: "(string \<Rightarrow> json option) \<Rightarrow> event \<Rightarrow> json \<Rightarrow> bool option" where
  "leaf_eval json_parse e n =
     (case parseField (prop_of n ''field'') of
        None \<Rightarrow> None
      | Some f \<Rightarrow>
          let v = fieldValue json_parse e f; expected = prop_of n ''value''
          in case str_prop n ''op'' of
               None \<Rightarrow> None
             | Some op \<Rightarrow>
                 if op = ''exists'' then Some (v \<noteq> None \<and> v \<noteq> Some JNull)
                 else if op = ''in'' then
                   (case expected of
                      Some (JArr xs) \<Rightarrow> Some (list_ex (compare_op ''eq'' v) (inList xs)) | _ \<Rightarrow> None)
                 else if op = ''between'' then
                   (case expected of
                      Some (JArr (lo # hi # _)) \<Rightarrow> Some (compare_op ''gte'' v lo \<and> compare_op ''lte'' v hi)
                    | _ \<Rightarrow> None)
                 else (case expected of Some x \<Rightarrow> Some (compare_op op v x) | None \<Rightarrow> None))"

text \<open>
  \<open>build\<close> and the predicate it returns. Every subtree is built before an event is looked at, so one that
  throws makes the whole filter throw.
\<close>

function evaluateFilter :: "(string \<Rightarrow> json option) \<Rightarrow> event \<Rightarrow> json \<Rightarrow> bool option" where
  "evaluateFilter json_parse e n =
     (case truthy_prop n ''and'' of
        Some (JArr xs) \<Rightarrow> map_option (list_all id) (those (map (evaluateFilter json_parse e) xs))
      | Some _ \<Rightarrow> None
      | None \<Rightarrow>
          (case truthy_prop n ''or'' of
             Some (JArr xs) \<Rightarrow> map_option (list_ex id) (those (map (evaluateFilter json_parse e) xs))
           | Some _ \<Rightarrow> None
           | None \<Rightarrow>
               (case truthy_prop n ''not'' of
                  Some m \<Rightarrow> map_option Not (evaluateFilter json_parse e m)
                | None \<Rightarrow> leaf_eval json_parse e n)))"
  by pat_completeness auto

termination
  by (relation "measure (\<lambda>(_, _, n). size n)")
    (auto dest: size_truthy_prop intro: less_trans [OF size_arr])

declare evaluateFilter.simps [simp del]

subsection \<open>Planner\<close>

definition INDEXED :: "string list" where
  "INDEXED = [''contract_id'', ''function'', ''tx_hash'', ''ledger'', ''seq'', ''topic[0]'']"

definition SELECTIVE_OPS :: "string list" where
  "SELECTIVE_OPS = [''eq'', ''in'', ''between'', ''gt'', ''gte'', ''lt'', ''lte'']"

definition field_in :: "string list \<Rightarrow> json \<Rightarrow> bool" where
  "field_in fs n = (case str_prop n ''field'' of Some f \<Rightarrow> f \<in> set fs | None \<Rightarrow> False)"

definition op_in :: "string list \<Rightarrow> json \<Rightarrow> bool" where
  "op_in ops n = (case str_prop n ''op'' of Some p \<Rightarrow> p \<in> set ops | None \<Rightarrow> False)"

function conjuncts :: "json \<Rightarrow> json list option" where
  "conjuncts n =
     (if n = JNull then None
      else case truthy_prop n ''and'' of
             Some (JArr xs) \<Rightarrow> map_option concat (those (map conjuncts xs))
           | Some _ \<Rightarrow> None
           | None \<Rightarrow> Some [n])"
  by pat_completeness auto

termination
  by (relation "measure size") (auto dest: size_truthy_prop intro: less_trans [OF size_arr])

declare conjuncts.simps [simp del]

text \<open>\<open>some\<close> stops at the first element that is true.\<close>

fun some_opt :: "bool option list \<Rightarrow> bool option" where
  "some_opt [] = Some False"
| "some_opt (None # bs) = None"
| "some_opt (Some b # bs) = (if b then Some True else some_opt bs)"

lemma size_group_value: "group_value n = Some v \<Longrightarrow> size v < size n"
  by (auto simp: group_value_def size_prop_of split: option.splits if_splits)

function hasUnindexed :: "json \<Rightarrow> bool option" where
  "hasUnindexed n =
     (if n = JNull then None
      else if truthy_prop n ''and'' \<noteq> None \<or> truthy_prop n ''or'' \<noteq> None then
        (case group_value n of Some (JArr xs) \<Rightarrow> some_opt (map hasUnindexed xs) | _ \<Rightarrow> None)
      else (case truthy_prop n ''not'' of
              Some m \<Rightarrow> hasUnindexed m
            | None \<Rightarrow> Some (\<not> field_in INDEXED n)))"
  by pat_completeness auto

termination
  by (relation "measure size")
    (auto dest: size_truthy_prop size_group_value intro: less_trans [OF size_arr])

declare hasUnindexed.simps [simp del]

text \<open>\<open>Number(v)\<close> for scalars; text that is not a plain decimal number is NaN.\<close>

fun to_number :: "json \<Rightarrow> jsnum" where
  "to_number (JNum x) = Num x"
| "to_number (JStr s) = (case number_value s of Some x \<Rightarrow> Num x | None \<Rightarrow> NaN)"
| "to_number (JBool b) = Num (if b then 1 else 0)"
| "to_number JNull = Num 0"
| "to_number _ = NaN"

text \<open>\<open>v\<close> as the loop uses it: as one number, and as a list.\<close>

definition span_scalar :: "json option \<Rightarrow> jsnum" where
  "span_scalar v = (case v of None \<Rightarrow> NaN | Some x \<Rightarrow> to_number x)"

definition span_nth :: "json option \<Rightarrow> nat \<Rightarrow> jsnum" where
  "span_nth v k = (case v of Some (JArr xs) \<Rightarrow> if k < length xs then to_number (xs ! k) else NaN | _ \<Rightarrow> NaN)"

fun narrow :: "jsnum \<times> jsnum \<Rightarrow> json \<Rightarrow> jsnum \<times> jsnum" where
  "narrow (lo, hi) p =
     (let v = prop_of p ''value''
      in if \<not> field_in [''ledger''] p then (lo, hi)
         else if op_in [''eq''] p then (num_max lo (span_scalar v), num_min hi (span_scalar v))
         else if op_in [''between''] p then (num_max lo (span_nth v 0), num_min hi (span_nth v 1))
         else if op_in [''gt'', ''gte''] p then (num_max lo (span_scalar v), hi)
         else if op_in [''lt'', ''lte''] p then (lo, num_min hi (span_scalar v))
         else (lo, hi))"

definition ledger_window :: "json list \<Rightarrow> jsnum \<times> jsnum" where
  "ledger_window parts = foldl narrow (NInf, PInf) parts"

definition ledgerSpan :: "json list \<Rightarrow> jsnum" where
  "ledgerSpan parts = (case ledger_window parts of (lo, hi) \<Rightarrow> num_sub hi lo)"

datatype plan = Plan_ok | Plan_no_index | Plan_unbounded

definition plan_branch :: "json \<Rightarrow> plan option" where
  "plan_branch branch =
     (case conjuncts branch of
        None \<Rightarrow> None
      | Some parts \<Rightarrow>
          if \<not> list_ex (\<lambda>p. field_in INDEXED p \<and> op_in SELECTIVE_OPS p) parts then Some Plan_no_index
          else (case hasUnindexed branch of
                  None \<Rightarrow> None
                | Some u \<Rightarrow>
                    if u \<and> (\<not> list_ex (\<lambda>p. field_in [''contract_id''] p \<and> op_in [''eq'', ''in''] p) parts \<or>
                           \<not> num_le (ledgerSpan parts) (Num MAX_UNINDEXED_LEDGER_SPAN))
                    then Some Plan_unbounded else Some Plan_ok))"

fun plan_branches :: "json list \<Rightarrow> plan option" where
  "plan_branches [] = Some Plan_ok"
| "plan_branches (b # bs) =
     (case plan_branch b of Some Plan_ok \<Rightarrow> plan_branches bs | r \<Rightarrow> r)"

text \<open>\<open>ast.or ? ast.or : [ast]\<close>; iterating a string gives its characters.\<close>

definition plan_list :: "json \<Rightarrow> json list option" where
  "plan_list ast =
     (if ast = JNull then None
      else case truthy_prop ast ''or'' of
             None \<Rightarrow> Some [ast]
           | Some (JArr xs) \<Rightarrow> Some xs
           | Some (JStr s) \<Rightarrow> Some (map (\<lambda>c. JStr [c]) s)
           | Some _ \<Rightarrow> None)"

definition planFilter :: "json \<Rightarrow> plan option" where
  "planFilter ast = (case plan_list ast of None \<Rightarrow> None | Some bs \<Rightarrow> plan_branches bs)"

end
