(* ===== verification/Filter_Plan.thy ===== *)
theory Filter_Plan
  imports Filter_Eval
begin

text \<open>
  Properties of the planner and the evaluator on validated filters: the evaluator never throws, an
  accepted plan bounds what a filter can match, and the nodes on which planner and evaluator disagree.
\<close>

subsection \<open>Shapes of validated nodes\<close>

lemma those_map_total:
  "list_all (\<lambda>x. f x \<noteq> None) xs \<Longrightarrow> those (map f xs) = Some (map (the \<circ> f) xs)"
  by (induction xs) auto

lemma those_map_Some: "those (map f xs) = Some ys \<Longrightarrow> map f xs = map Some ys"
proof (induction xs arbitrary: ys)
  case (Cons x xs)
  then show ?case by (auto split: option.splits)
qed simp

lemma group_truthy:
  assumes "is_group n" "group_list n \<noteq> []"
  obtains (both) "truthy_prop n ''and'' = Some (JArr (group_list n))"
    | (second) "truthy_prop n ''and'' = None" "truthy_prop n ''or'' = Some (JArr (group_list n))"
proof -
  obtain v where v: "group_value n = Some v" "v = JArr (group_list n)"
    using assms(2) by (auto simp: group_list_def split: option.splits json.splits)
  show thesis
  proof (cases "prop_of n ''and'' = None \<or> prop_of n ''and'' = Some JNull")
    case True
    then have "prop_of n ''or'' = Some v" using v(1) by (auto simp: group_value_def)
    then show thesis using True v(2) by (intro second) (auto simp: truthy_prop_def)
  next
    case False
    then have "prop_of n ''and'' = Some v" using v(1) by (auto simp: group_value_def split: option.splits if_splits)
    then show thesis using v(2) by (intro both) (auto simp: truthy_prop_def)
  qed
qed

lemma not_group_truthy: "\<not> is_group n \<Longrightarrow> truthy_prop n ''and'' = None \<and> truthy_prop n ''or'' = None"
  by (auto simp: is_group_def has_key_def truthy_prop_def)

lemma wf_is_obj: "wf_node k n \<Longrightarrow> is_obj n"
  by (cases k) auto

lemma obj_truthy: "is_obj n \<Longrightarrow> truthy n"
  by (cases n) auto

lemma wf_cases:
  assumes "wf_node k n"
  obtains (group) j where "k = Suc j" "is_group n" "group_list n \<noteq> []" "list_all (wf_node j) (group_list n)"
    | (neg) j m where "k = Suc j" "\<not> is_group n" "prop_of n ''not'' = Some m"
        "truthy_prop n ''not'' = Some m" "wf_node j m"
    | (leaf) "\<not> is_group n" "prop_of n ''not'' = None" "truthy_prop n ''not'' = None" "leaf_error n = None"
proof (cases k)
  case 0
  then show thesis using assms by (intro leaf) (auto simp: truthy_prop_def)
next
  case (Suc j)
  show thesis
  proof (cases "is_group n")
    case True
    then show thesis using assms Suc by (intro group) auto
  next
    case False
    show thesis
    proof (cases "prop_of n ''not''")
      case None
      then show thesis using assms Suc False by (intro leaf) (auto simp: truthy_prop_def)
    next
      case (Some m)
      then have "wf_node j m" using assms Suc False by simp
      then show thesis
        using Suc False Some by (intro neg) (auto simp: truthy_prop_def obj_truthy wf_is_obj)
    qed
  qed
qed

lemma leaf_ok_parts:
  assumes "leaf_error n = None"
  obtains f op where "parseField (prop_of n ''field'') = Some f" "prop_of n ''op'' = Some (JStr op)" "op \<in> set OPS"
    "op \<noteq> ''exists'' \<Longrightarrow> value_error op (prop_of n ''value'') = None"
    "op \<noteq> ''exists'' \<Longrightarrow> (\<exists>c. f = Column c Number_col) \<Longrightarrow> list_all integer_text (value_list (prop_of n ''value''))"
  using assms
  by (auto simp: leaf_error_def split: option.splits json.splits if_splits field.splits col_type.splits)

lemma leaf_ok_value:
  assumes "leaf_error n = None" "parseField (prop_of n ''field'') = Some f" "str_prop n ''op'' = Some op"
    and "op \<noteq> ''exists''"
  shows "value_error op (prop_of n ''value'') = None"
    and "f = Column c Number_col \<Longrightarrow> list_all integer_text (value_list (prop_of n ''value''))"
  using assms
  by (auto simp: leaf_error_def str_prop_def split: option.splits json.splits if_splits field.splits col_type.splits)

lemma leaf_eval_total:
  assumes "leaf_error n = None"
  shows "leaf_eval jp e n \<noteq> None"
proof -
  from leaf_ok_parts [OF assms] obtain f op where p: "parseField (prop_of n ''field'') = Some f"
    "prop_of n ''op'' = Some (JStr op)" "op \<noteq> ''exists'' \<Longrightarrow> value_error op (prop_of n ''value'') = None"
    by metis
  have o: "str_prop n ''op'' = Some op" using p(2) by (simp add: str_prop_def)
  show ?thesis
  proof (cases "op = ''exists''")
    case True
    then show ?thesis using p(1) o by (simp add: leaf_eval_def Let_def)
  next
    case False
    then show ?thesis using p(1) p(3) o
      by (auto simp: leaf_eval_def value_error_def scalar_opt_def Let_def numeral_2_eq_2 length_Suc_conv
          split: if_splits option.splits json.splits)
  qed
qed

lemma evaluate_total_wf: "wf_node k n \<Longrightarrow> evaluateFilter jp e n \<noteq> None"
proof (induction k arbitrary: n)
  case 0
  then show ?case
    using not_group_truthy [of n]
    by (auto simp: evaluateFilter.simps [of jp e n] leaf_eval_total truthy_prop_def)
next
  case (Suc k)
  have below: "those (map (evaluateFilter jp e) xs) \<noteq> None" if "list_all (wf_node k) xs" for xs
    using that Suc.IH by (subst those_map_total) (auto simp: list_all_iff)
  from Suc.prems show ?case
  proof (cases rule: wf_cases)
    case (group j)
    from group(2,3) show ?thesis
      by (cases rule: group_truthy) (use group below in \<open>auto simp: evaluateFilter.simps [of jp e n]\<close>)
  next
    case (neg j m)
    then show ?thesis
      using Suc.IH [of m] not_group_truthy [OF neg(2)] by (auto simp: evaluateFilter.simps [of jp e n])
  next
    case leaf
    then show ?thesis
      using not_group_truthy [OF leaf(1)] leaf_eval_total by (auto simp: evaluateFilter.simps [of jp e n])
  qed
qed

text \<open>
  C37. A filter that passed validation is evaluated on every event without an exception, whatever the
  event's payload is and whether its texts parse as JSON.
\<close>

theorem validated_filter_evaluates:
  assumes "validateFilter ast = Inr ast'"
  shows "evaluateFilter json_parse e ast \<noteq> None"
  using evaluate_total_wf [OF validate_wf [OF assms]] .

theorem validated_filter_evaluates_witness:
  "evaluateFilter (\<lambda>_. None) \<lparr>ev_col = (\<lambda>_. None), raw_topics = None, raw_data = None\<rparr>
     (JObj [(''field'', JStr ''toString''), (''op'', JStr ''eq''), (''value'', JBool True)]) \<noteq> None"
  by (rule validated_filter_evaluates [of _
        "JObj [(''field'', JStr ''toString''), (''op'', JStr ''eq''), (''value'', JBool True)]"])
    (simp add: validateFilter_def walk.simps Let_def maxNodes_def maxDepth_def is_group_def has_key_def
      leaf_error_def parseField_def parse_field_text_def COLUMN_FIELDS_def object_prototype_def OPS_def
      value_error_def scalar_opt_def)

subsection \<open>Nodes with one meaning\<close>

text \<open>Only one of the keys \<open>and\<close>, \<open>or\<close>, \<open>not\<close>, \<open>field\<close> is there.\<close>

definition exclusive :: "json \<Rightarrow> bool" where
  "exclusive n \<longleftrightarrow>
     (is_group n \<longrightarrow> \<not> (has_key n ''and'' \<and> has_key n ''or'') \<and> \<not> has_key n ''not'' \<and> \<not> has_key n ''field'') \<and>
     (has_key n ''not'' \<longrightarrow> \<not> has_key n ''field'')"

primrec plain :: "nat \<Rightarrow> json \<Rightarrow> bool" where
  "plain 0 n = exclusive n"
| "plain (Suc k) n =
     (exclusive n \<and> list_all (plain k) (group_list n) \<and>
      (case prop_of n ''not'' of Some m \<Rightarrow> plain k m | None \<Rightarrow> True))"

lemma plain_exclusive: "plain k n \<Longrightarrow> exclusive n"
  by (cases k) auto

lemma conjuncts_true:
  "conjuncts n = Some ps \<Longrightarrow> evaluateFilter jp e n = Some True \<Longrightarrow> p \<in> set ps \<Longrightarrow> evaluateFilter jp e p = Some True"
proof (induction n arbitrary: ps rule: conjuncts.induct)
  case (1 n)
  show ?case
  proof (cases "truthy_prop n ''and''")
    case None
    then show ?thesis using "1.prems" by (auto simp: conjuncts.simps [of n] split: if_splits)
  next
    case (Some v)
    then obtain xs pss where v: "v = JArr xs" and pss: "those (map conjuncts xs) = Some pss" "ps = concat pss"
      and n: "n \<noteq> JNull" using "1.prems"(1) by (auto simp: conjuncts.simps [of n] split: if_splits json.splits)
    obtain bs where bs: "those (map (evaluateFilter jp e) xs) = Some bs" "list_all id bs"
      using "1.prems"(2) Some v by (auto simp: evaluateFilter.simps [of jp e n])
    from pss(2) "1.prems"(3) obtain qs where q: "qs \<in> set pss" "p \<in> set qs" by auto
    have "Some qs \<in> set (map conjuncts xs)" using those_map_Some [OF pss(1)] q(1) by (metis image_eqI set_map)
    then obtain x where x: "x \<in> set xs" "conjuncts x = Some qs" by auto
    have "evaluateFilter jp e x \<in> set (map Some bs)"
      using x(1) those_map_Some [OF bs(1)] by (metis image_eqI set_map)
    then have "evaluateFilter jp e x = Some True" using bs(2) by (auto simp: list_all_iff)
    from "1.IH" [OF n Some v x(1) x(2) this q(2)] show ?thesis .
  qed
qed

lemma conjuncts_parts:
  "conjuncts n = Some ps \<Longrightarrow> wf_node k n \<Longrightarrow> plain k n \<Longrightarrow> p \<in> set ps \<Longrightarrow>
     \<exists>j. wf_node j p \<and> plain j p"
proof (induction n arbitrary: ps k rule: conjuncts.induct)
  case (1 n)
  show ?case
  proof (cases "truthy_prop n ''and''")
    case None
    then show ?thesis using "1.prems" by (auto simp: conjuncts.simps [of n] split: if_splits)
  next
    case (Some v)
    then obtain xs pss where v: "v = JArr xs" and pss: "those (map conjuncts xs) = Some pss" "ps = concat pss"
      and n: "n \<noteq> JNull" using "1.prems"(1) by (auto simp: conjuncts.simps [of n] split: if_splits json.splits)
    have and_v: "prop_of n ''and'' = Some v" using Some by (auto simp: truthy_prop_def split: option.splits if_splits)
    then have g: "is_group n" "group_list n = xs"
      using v by (auto simp: is_group_def has_key_def group_list_def group_value_def)
    from "1.prems"(2) obtain j where j: "k = Suc j" "list_all (wf_node j) xs"
      by (cases rule: wf_cases) (use g in auto)
    have pl: "list_all (plain j) xs" using "1.prems"(3) j(1) g(2) by simp
    from pss(2) "1.prems"(4) obtain qs where q: "qs \<in> set pss" "p \<in> set qs" by auto
    have "Some qs \<in> set (map conjuncts xs)" using those_map_Some [OF pss(1)] q(1) by (metis image_eqI set_map)
    then obtain x where x: "x \<in> set xs" "conjuncts x = Some qs" by auto
    from "1.IH" [OF n Some v x(1) x(2) _ _ q(2), of j] show ?thesis
      using j(2) pl x(1) by (auto simp: list_all_iff)
  qed
qed

text \<open>A conjunct with a field is a leaf, so the evaluator looks at the same condition as the planner.\<close>

lemma part_leaf:
  assumes "wf_node j p" "plain j p" "has_key p ''field''"
  shows "leaf_error p = None" "evaluateFilter jp e p = leaf_eval jp e p"
proof -
  have g: "\<not> is_group p" "prop_of p ''not'' = None"
    using plain_exclusive [OF assms(2)] assms(3) by (auto simp: exclusive_def has_key_def)
  from assms(1) show "leaf_error p = None" by (cases rule: wf_cases) (use g in auto)
  have "truthy_prop p ''not'' = None" using g(2) by (simp add: truthy_prop_def)
  then show "evaluateFilter jp e p = leaf_eval jp e p"
    using not_group_truthy [OF g(1)] by (simp add: evaluateFilter.simps [of jp e p])
qed

lemma field_in_has_key: "field_in fs p \<Longrightarrow> has_key p ''field''"
  by (auto simp: field_in_def str_prop_def has_key_def split: option.splits)


subsection \<open>The ledger window\<close>

definition ledger_number :: "event \<Rightarrow> rat option" where
  "ledger_number e = Option.bind (ev_col e ''ledger'') numeric"

lemma number_value_digits: "digits_19 s \<Longrightarrow> number_value s \<noteq> None"
  by (auto simp: digits_19_def number_value_def Let_def list_all_iff frac_part_def exp_part_def
      dropWhile_eq_Nil_conv [THEN iffD2] takeWhile_eq_all_conv [THEN iffD2] split: if_splits)

lemma integer_text_number: "integer_text v \<Longrightarrow> \<exists>x. numeric v = Some x \<and> to_number v = Num x"
  using number_value_digits by (cases v) (force split: option.split)+

lemma compare_op_numeric:
  "compare_op op actual v \<Longrightarrow> numeric v = Some c \<Longrightarrow> \<exists>x. Option.bind actual numeric = Some x \<and> by_op op x c"
  by (auto simp: compare_op_def split: option.splits if_splits)

lemma ledger_parsed: "field_in [''ledger''] p \<Longrightarrow> parseField (prop_of p ''field'') = Some (Column ''ledger'' Number_col)"
  by (auto simp: field_in_def str_prop_def parseField_def parse_field_text_def COLUMN_FIELDS_def
      split: option.splits json.splits)

lemma ledger_leaf_scalar:
  assumes leaf: "leaf_error p = None" and led: "field_in [''ledger''] p" and ev: "leaf_eval jp e p = Some True"
    and op: "str_prop p ''op'' = Some op" "op \<in> {''eq'', ''gt'', ''gte'', ''lt'', ''lte''}"
  shows "\<exists>c x. span_scalar (prop_of p ''value'') = Num c \<and> ledger_number e = Some x \<and> by_op op x c"
proof -
  from op(2) have ne: "op \<noteq> ''exists''" by auto
  note ve = leaf_ok_value [OF leaf ledger_parsed [OF led] op(1) ne]
  obtain v where v: "prop_of p ''value'' = Some v" "isScalar v"
    using ve(1) op(2) by (auto simp: value_error_def scalar_opt_def split: option.splits if_splits)
  then have "integer_text v" using ve(2) by (cases v) (auto simp: value_list_def)
  then obtain c where c: "numeric v = Some c" "to_number v = Num c" using integer_text_number by blast
  have "compare_op op (ev_col e ''ledger'') v"
    using ev ledger_parsed [OF led] op v(1) by (auto simp: leaf_eval_def fieldValue_def Let_def)
  from compare_op_numeric [OF this c(1)] show ?thesis
    using v(1) c(2) by (auto simp: span_scalar_def ledger_number_def)
qed


lemma ledger_leaf_between:
  assumes leaf: "leaf_error p = None" and led: "field_in [''ledger''] p" and ev: "leaf_eval jp e p = Some True"
    and op: "str_prop p ''op'' = Some ''between''"
  shows "\<exists>c d x. span_nth (prop_of p ''value'') 0 = Num c \<and> span_nth (prop_of p ''value'') 1 = Num d \<and>
           ledger_number e = Some x \<and> c \<le> x \<and> x \<le> d"
proof -
  note ve = leaf_ok_value [OF leaf ledger_parsed [OF led] op]
  obtain a b where v: "prop_of p ''value'' = Some (JArr [a, b])"
    using ve(1) by (auto simp: value_error_def numeral_2_eq_2 length_Suc_conv split: option.splits if_splits json.splits)
  then obtain c d where c: "numeric a = Some c" "to_number a = Num c" "numeric b = Some d" "to_number b = Num d"
    using ve(2) integer_text_number [of a] integer_text_number [of b] by (auto simp: value_list_def)
  have "compare_op ''gte'' (ev_col e ''ledger'') a" "compare_op ''lte'' (ev_col e ''ledger'') b"
    using ev ledger_parsed [OF led] op v by (auto simp: leaf_eval_def fieldValue_def Let_def)
  then obtain x y where "ledger_number e = Some x" "by_op ''gte'' x c" "ledger_number e = Some y" "by_op ''lte'' y d"
    using compare_op_numeric [OF _ c(1)] compare_op_numeric [OF _ c(3)] unfolding ledger_number_def by blast
  then show ?thesis using v c by (auto simp: span_nth_def by_op_def)
qed

text \<open>The bounds gathered so far hold for the event's ledger, or there are none yet.\<close>

definition window_holds :: "rat option \<Rightarrow> jsnum \<times> jsnum \<Rightarrow> bool" where
  "window_holds L w \<longleftrightarrow>
     (case w of (lo, hi) \<Rightarrow>
        (lo = NInf \<or> (\<exists>l x. lo = Num l \<and> L = Some x \<and> l \<le> x)) \<and>
        (hi = PInf \<or> (\<exists>h x. hi = Num h \<and> L = Some x \<and> x \<le> h)))"

lemma window_narrow_lo:
  "window_holds (Some x) (lo, hi) \<Longrightarrow> c \<le> x \<Longrightarrow> window_holds (Some x) (num_max lo (Num c), hi)"
  by (auto simp: window_holds_def)

lemma window_narrow_hi:
  "window_holds (Some x) (lo, hi) \<Longrightarrow> x \<le> c \<Longrightarrow> window_holds (Some x) (lo, num_min hi (Num c))"
  by (auto simp: window_holds_def)

lemma narrow_holds:
  assumes w: "window_holds (ledger_number e) w" and leaf: "leaf_error p = None"
    and ev: "leaf_eval jp e p = Some True"
  shows "window_holds (ledger_number e) (narrow w p)"
proof (cases "field_in [''ledger''] p")
  case False
  then show ?thesis using w by (cases w) simp
next
  case True
  obtain lo hi where lh: "w = (lo, hi)" by (cases w)
  obtain op where op: "str_prop p ''op'' = Some op"
    using ev by (auto simp: leaf_eval_def Let_def split: option.splits)
  note sc = ledger_leaf_scalar [OF leaf True ev op]
  consider "op = ''eq''" | "op = ''between''" | "op \<in> {''gt'', ''gte''}" | "op \<in> {''lt'', ''lte''}"
    | "op \<notin> {''eq'', ''between'', ''gt'', ''gte'', ''lt'', ''lte''}" by auto
  then show ?thesis
  proof cases
    case 1
    with sc obtain c where "span_scalar (prop_of p ''value'') = Num c" "ledger_number e = Some c"
      by (auto simp: by_op_def)
    then show ?thesis using w lh True op 1 by (simp add: op_in_def Let_def window_narrow_lo window_narrow_hi)
  next
    case 2
    with ledger_leaf_between [OF leaf True ev] op obtain c d x where
      "span_nth (prop_of p ''value'') 0 = Num c" "span_nth (prop_of p ''value'') 1 = Num d"
      "ledger_number e = Some x" "c \<le> x" "x \<le> d" by auto
    then show ?thesis using w lh True op 2 by (simp add: op_in_def Let_def window_narrow_lo window_narrow_hi)
  next
    case 3
    with sc obtain c x where "span_scalar (prop_of p ''value'') = Num c" "ledger_number e = Some x" "c \<le> x"
      by (auto simp: by_op_def)
    then show ?thesis using w lh True op 3 by (auto simp: op_in_def Let_def window_narrow_lo)
  next
    case 4
    with sc obtain c x where "span_scalar (prop_of p ''value'') = Num c" "ledger_number e = Some x" "x \<le> c"
      by (auto simp: by_op_def)
    then show ?thesis using w lh True op 4 by (auto simp: op_in_def Let_def window_narrow_hi)
  next
    case 5
    then show ?thesis using w lh True op by (simp add: op_in_def)
  qed
qed

lemma ledger_window_holds:
  assumes "\<And>p. p \<in> set ps \<Longrightarrow> field_in [''ledger''] p \<Longrightarrow> leaf_error p = None \<and> leaf_eval jp e p = Some True"
  shows "window_holds (ledger_number e) (ledger_window ps)"
proof -
  have "window_holds (ledger_number e) w \<Longrightarrow> window_holds (ledger_number e) (foldl narrow w ps)" for w
    using assms
  proof (induction ps arbitrary: w)
    case (Cons p ps)
    have "window_holds (ledger_number e) (narrow w p)"
    proof (cases "field_in [''ledger''] p")
      case True
      then show ?thesis using Cons.prems by (intro narrow_holds) auto
    next
      case False
      then show ?thesis using Cons.prems(1) by (cases w) simp
    qed
    then show ?case using Cons by simp
  qed simp
  then show ?thesis unfolding ledger_window_def by (simp add: window_holds_def)
qed

lemma bounded_span:
  assumes "window_holds L (ledger_window ps)" "num_le (ledgerSpan ps) (Num m)"
  shows "\<exists>lo hi x. ledger_window ps = (Num lo, Num hi) \<and> L = Some x \<and> lo \<le> x \<and> x \<le> hi \<and> hi - lo \<le> m"
proof -
  obtain lo hi where w: "ledger_window ps = (lo, hi)" by (cases "ledger_window ps")
  from assms(1) w have "lo = NInf \<or> (\<exists>l x. lo = Num l \<and> L = Some x \<and> l \<le> x)"
    "hi = PInf \<or> (\<exists>h x. hi = Num h \<and> L = Some x \<and> x \<le> h)" by (auto simp: window_holds_def)
  moreover have "num_le (num_sub hi lo) (Num m)" using assms(2) w by (simp add: ledgerSpan_def)
  ultimately show ?thesis using w by (auto simp: num_sub_def num_le_def)
qed


subsection \<open>The planner bounds what a filter matches\<close>

lemma plan_branches_ok: "plan_branches bs = Some Plan_ok \<Longrightarrow> b \<in> set bs \<Longrightarrow> plan_branch b = Some Plan_ok"
  by (induction bs rule: plan_branches.induct) (auto split: option.splits plan.splits)

definition branch_bounded :: "(string \<Rightarrow> json option) \<Rightarrow> event \<Rightarrow> json \<Rightarrow> bool" where
  "branch_bounded jp e b \<longleftrightarrow>
     (\<exists>parts. conjuncts b = Some parts \<and>
        (\<exists>p \<in> set parts. field_in INDEXED p \<and> op_in SELECTIVE_OPS p \<and> evaluateFilter jp e p = Some True) \<and>
        (hasUnindexed b = Some True \<longrightarrow>
           (\<exists>p \<in> set parts. field_in [''contract_id''] p \<and> op_in [''eq'', ''in''] p \<and> evaluateFilter jp e p = Some True) \<and>
           (\<exists>lo hi x. ledger_window parts = (Num lo, Num hi) \<and> ledger_number e = Some x \<and>
              lo \<le> x \<and> x \<le> hi \<and> hi - lo \<le> MAX_UNINDEXED_LEDGER_SPAN)))"

lemma branch_sound:
  assumes wf: "wf_node k b" "plain k b" and ok: "plan_branch b = Some Plan_ok"
    and ev: "evaluateFilter jp e b = Some True"
  shows "branch_bounded jp e b"
proof -
  obtain parts where parts: "conjuncts b = Some parts"
    and idx: "list_ex (\<lambda>p. field_in INDEXED p \<and> op_in SELECTIVE_OPS p) parts"
    and un: "hasUnindexed b = Some True \<Longrightarrow>
        list_ex (\<lambda>p. field_in [''contract_id''] p \<and> op_in [''eq'', ''in''] p) parts \<and>
        num_le (ledgerSpan parts) (Num MAX_UNINDEXED_LEDGER_SPAN)"
    using ok by (auto simp: plan_branch_def split: option.splits if_splits)
  have true: "evaluateFilter jp e p = Some True" if "p \<in> set parts" for p
    using conjuncts_true [OF parts ev that] .
  have leaf: "leaf_error p = None \<and> leaf_eval jp e p = Some True" if p: "p \<in> set parts" "field_in [''ledger''] p" for p
  proof -
    obtain j where "wf_node j p" "plain j p" using conjuncts_parts [OF parts wf p(1)] by blast
    from part_leaf [OF this field_in_has_key [OF p(2)]] show ?thesis using true [OF p(1)] by metis
  qed
  have "window_holds (ledger_number e) (ledger_window parts)" by (rule ledger_window_holds) (rule leaf)
  note window = bounded_span [OF this]
  show ?thesis
    unfolding branch_bounded_def
    using parts idx un true window unfolding list_ex_iff by blast
qed

text \<open>
  When a validated filter whose nodes have one meaning each is accepted by the planner, every event it
  matches lies in a branch that pins an indexed column; if the branch also reads an unindexed field, the event
  satisfies its contract condition and its ledger lies in a window of at most 120000 ledgers that the filter fixes. The filters
  of the text language are of this kind (Filter_Parser); a JSON filter need not be, see below.
\<close>

lemma plain_planner_sound:
  assumes "validateFilter ast = Inr ast'" "plain 8 ast" "planFilter ast = Some Plan_ok"
    and "evaluateFilter json_parse e ast = Some True"
  shows "\<exists>branches. plan_list ast = Some branches \<and> list_ex (branch_bounded json_parse e) branches"
proof -
  have wf: "wf_node 8 ast" using validate_wf [OF assms(1)] .
  obtain bs where bs: "plan_list ast = Some bs" "plan_branches bs = Some Plan_ok"
    using assms(3) by (auto simp: planFilter_def split: option.splits)
  show ?thesis
  proof (cases "truthy_prop ast ''or''")
    case None
    then have "bs = [ast]" using bs(1) by (auto simp: plan_list_def split: if_splits)
    then have "branch_bounded json_parse e ast"
      using branch_sound [OF wf assms(2) _ assms(4)] plan_branches_ok [OF bs(2)] by simp
    then show ?thesis using bs(1) \<open>bs = [ast]\<close> by auto
  next
    case (Some v)
    then have k: "has_key ast ''or''" by (auto simp: truthy_prop_def has_key_def split: option.splits)
    then have g: "is_group ast" "\<not> has_key ast ''and''"
      using plain_exclusive [OF assms(2)] by (auto simp: exclusive_def is_group_def)
    then have noand: "truthy_prop ast ''and'' = None" by (auto simp: truthy_prop_def has_key_def)
    from wf obtain j where j: "(8::nat) = Suc j" "group_list ast \<noteq> []" "list_all (wf_node j) (group_list ast)"
      by (cases rule: wf_cases) (use g in auto)
    from g(1) j(2) have or: "truthy_prop ast ''or'' = Some (JArr (group_list ast))"
      by (cases rule: group_truthy) (use noand in auto)
    then have b: "bs = group_list ast" using bs(1) by (auto simp: plan_list_def split: if_splits)
    obtain ys where ys: "those (map (evaluateFilter json_parse e) bs) = Some ys" "list_ex id ys"
      using assms(4) noand or b by (auto simp: evaluateFilter.simps [of json_parse e ast])
    then have "Some True \<in> set (map (evaluateFilter json_parse e) bs)"
      using those_map_Some [OF ys(1)] by (auto simp: list_ex_iff)
    then obtain b' where b': "b' \<in> set bs" "evaluateFilter json_parse e b' = Some True" by auto
    have "j = 7" using j(1) by simp
    moreover have "list_all (plain 7) (group_list ast)"
      using assms(2) plain.simps(2) [of 7 ast] by (simp add: numeral_eq_Suc)
    ultimately have "wf_node j b'" "plain j b'" using j(3) b b'(1) by (auto simp: list_all_iff)
    from branch_sound [OF this plan_branches_ok [OF bs(2) b'(1)] b'(2)] show ?thesis
      using bs(1) b'(1) by (auto simp: list_ex_iff)
  qed
qed

definition seq_filter :: json where
  "seq_filter = JObj [(''field'', JStr ''seq''), (''op'', JStr ''gt''), (''value'', JNum 5)]"

definition seq_event :: event where
  "seq_event = \<lparr>ev_col = [''seq'' \<mapsto> JNum 7], raw_topics = None, raw_data = None\<rparr>"

lemmas filter_eval_defs = seq_filter_def seq_event_def walk.simps Let_def is_group_def has_key_def leaf_error_def
  parseField_def parse_field_text_def COLUMN_FIELDS_def OPS_def value_error_def scalar_opt_def value_list_def

lemma plain_planner_sound_witness:
  "\<exists>branches. plan_list seq_filter = Some branches \<and> list_ex (branch_bounded (\<lambda>_. None) seq_event) branches"
proof (rule plain_planner_sound)
  show "validateFilter seq_filter = Inr seq_filter"
    by (simp add: validateFilter_def filter_eval_defs maxNodes_def maxDepth_def)
  show "plain 8 seq_filter"
    by (simp add: numeral_eq_Suc exclusive_def is_group_def has_key_def seq_filter_def group_list_def group_value_def)
  show "planFilter seq_filter = Some Plan_ok"
    by (simp add: planFilter_def plan_list_def seq_filter_def truthy_prop_def plan_branch_def conjuncts.simps
        hasUnindexed.simps field_in_def op_in_def str_prop_def INDEXED_def SELECTIVE_OPS_def)
  show "evaluateFilter (\<lambda>_. None) seq_event seq_filter = Some True"
    by (simp add: evaluateFilter.simps truthy_prop_def leaf_eval_def fieldValue_def compare_op_def by_op_def
        str_prop_def filter_eval_defs)
qed

text \<open>
  The planner can be bypassed: a node with both an \<open>and\<close> and an \<open>or\<close> is planned by its \<open>or\<close>, which
  validation never looks at, and evaluated by its \<open>and\<close>. So any filter with room for one more level can be wrapped
  into one that validates, is accepted as indexed, and matches exactly the same events.
\<close>

lemma planner_bypass:
  assumes "wf_node 7 f" "node_count 7 f \<le> 63"
  defines "wrapped \<equiv> JObj [(''and'', JArr [f]), (''or'', JArr [JObj [(''field'', JStr ''ledger''), (''op'', JStr ''eq'')]])]"
  shows "validateFilter wrapped = Inr wrapped \<and> planFilter wrapped = Some Plan_ok \<and>
         evaluateFilter json_parse e wrapped = evaluateFilter json_parse e f"
proof (intro conjI)
  have "wf_node (Suc 7) wrapped \<and> node_count (Suc 7) wrapped \<le> 64"
    unfolding wf_node.simps node_count.simps
    using assms by (simp add: wrapped_def is_group_def has_key_def group_list_def group_value_def)
  then have "\<exists>r. walk 0 0 wrapped = Inr r"
    using walk_iff [of "Suc 7" 0 0 wrapped] by (auto simp: maxDepth_def maxNodes_def)
  then show "validateFilter wrapped = Inr wrapped" by (auto simp: validateFilter_def)
  show "planFilter wrapped = Some Plan_ok"
    by (simp add: wrapped_def planFilter_def plan_list_def truthy_prop_def plan_branch_def conjuncts.simps
        hasUnindexed.simps field_in_def op_in_def str_prop_def INDEXED_def SELECTIVE_OPS_def)
  show "evaluateFilter json_parse e wrapped = evaluateFilter json_parse e f"
    by (cases "evaluateFilter json_parse e f")
      (simp_all add: wrapped_def evaluateFilter.simps [of _ _ "JObj _"] truthy_prop_def)
qed

lemma planner_bypass_witness:
  "planFilter (JObj [(''and'', JArr [JObj [(''field'', JStr ''function''), (''op'', JStr ''exists'')]]),
     (''or'', JArr [JObj [(''field'', JStr ''ledger''), (''op'', JStr ''eq'')]])]) = Some Plan_ok"
proof -
  let ?f = "JObj [(''field'', JStr ''function''), (''op'', JStr ''exists'')]"
  have "wf_node 7 ?f" "node_count 7 ?f \<le> 63"
    by (simp_all add: numeral_eq_Suc is_group_def has_key_def leaf_error_def parseField_def parse_field_text_def
        COLUMN_FIELDS_def OPS_def)
  from planner_bypass [OF this] show ?thesis by blast
qed

end
