(* ===== verification/Filter_Parser.thy ===== *)
theory Filter_Parser
  imports Filter_Plan
begin

text \<open>
  filters/filter.js: the textual form of a filter. The regular expression of the tokenizer is written as
  scanners for its four alternatives; the recursive-descent parser works on the remaining tokens with a
  fuel that is shown to be enough. A string escape above \<open>\u00ff\<close> has no character here and is
  reported like a malformed string. Shown: the parser always answers, and what it returns is validated and
  has one meaning per node, so that the planner's guarantee applies.
\<close>

datatype token = T_str string | T_num string | T_sym string | T_word string

fun tok_v :: "token \<Rightarrow> string" where
  "tok_v (T_str v) = v"
| "tok_v (T_num v) = v"
| "tok_v (T_sym v) = v"
| "tok_v (T_word v) = v"

subsection \<open>Tokenizer\<close>

definition line_end :: "char \<Rightarrow> bool" where
  "line_end c = (of_char c \<in> {10, 13 :: nat})"

text \<open>The rest of a string literal after its opening quote: its content and what follows.\<close>

fun scan_string :: "string \<Rightarrow> (string \<times> string) option" where
  "scan_string [] = None"
| "scan_string (c # r) =
     (if c = CHR 0x22 then Some ([], r)
      else if c = CHR 0x5C then
        (case r of
           [] \<Rightarrow> None
         | d # r' \<Rightarrow> if line_end d then None else map_option (\<lambda>(t, u). (c # d # t, u)) (scan_string r'))
      else map_option (\<lambda>(t, u). (c # t, u)) (scan_string r))"

definition hex_digit :: "char \<Rightarrow> nat option" where
  "hex_digit c =
     (let n = of_char c :: nat in
      if 48 \<le> n \<and> n \<le> 57 then Some (n - 48)
      else if 65 \<le> n \<and> n \<le> 70 then Some (n - 55)
      else if 97 \<le> n \<and> n \<le> 102 then Some (n - 87) else None)"

definition hex_code :: "string \<Rightarrow> nat option" where
  "hex_code hs = map_option (foldl (\<lambda>a d. 16 * a + d) 0) (those (map hex_digit hs))"

definition simple_escape :: "char \<Rightarrow> char option" where
  "simple_escape c =
     map_of [(CHR 0x22, CHR 0x22), (CHR 0x5C, CHR 0x5C), (CHR ''/'', CHR ''/''), (CHR ''b'', CHR 0x08),
             (CHR ''f'', CHR 0x0C), (CHR ''n'', CHR 0x0A), (CHR ''r'', CHR 0x0D), (CHR ''t'', CHR 0x09)] c"

text \<open>\<open>JSON.parse\<close> of the literal; \<open>None\<close> is its SyntaxError.\<close>

fun unescape :: "string \<Rightarrow> string option" where
  "unescape [] = Some []"
| "unescape (c # r) =
     (if c = CHR 0x5C then
        (case r of
           [] \<Rightarrow> None
         | d # r1 \<Rightarrow>
             if d = CHR ''u'' then
               (case r1 of
                  h1 # h2 # h3 # h4 # r2 \<Rightarrow>
                    (case hex_code [h1, h2, h3, h4] of
                       Some n \<Rightarrow> if n < 256 then map_option ((#) (char_of n)) (unescape r2) else None
                     | None \<Rightarrow> None)
                | _ \<Rightarrow> None)
             else (case simple_escape d of
                     Some x \<Rightarrow> map_option ((#) x) (unescape r1)
                   | None \<Rightarrow> None))
      else if of_char c < (32 :: nat) then None
      else map_option ((#) c) (unescape r))"

text \<open>The optional parts of a number: they match with digits after the mark, or not at all.\<close>

definition scan_frac :: "string \<Rightarrow> string \<times> string" where
  "scan_frac r =
     (if prefix ''.'' r \<and> takeWhile is_digit (tl r) \<noteq> []
      then (CHR ''.'' # takeWhile is_digit (tl r), dropWhile is_digit (tl r)) else ([], r))"

definition scan_exp :: "string \<Rightarrow> string \<times> string" where
  "scan_exp r =
     (case r of
        [] \<Rightarrow> ([], r)
      | c # t \<Rightarrow>
          let sgn = (if prefix ''-'' t \<or> prefix ''+'' t then [hd t] else []);
              u = drop (length sgn) t
          in if c \<in> {CHR ''e'', CHR ''E''} \<and> takeWhile is_digit u \<noteq> []
             then (c # sgn @ takeWhile is_digit u, dropWhile is_digit u) else ([], r))"

definition scan_number :: "string \<Rightarrow> (string \<times> string) option" where
  "scan_number s =
     (let sgn = (if prefix ''-'' s then ''-'' else []);
          t = drop (length sgn) s;
          ip = takeWhile is_digit t
      in if ip = [] then None
         else (case scan_frac (dropWhile is_digit t) of (fp, r1) \<Rightarrow>
                (case scan_exp r1 of (ep, r2) \<Rightarrow>
                   if r2 \<noteq> [] \<and> (is_word (hd r2) \<or> hd r2 = CHR ''.'') then None
                   else Some (sgn @ ip @ fp @ ep, r2))))"

definition scan_symbol :: "string \<Rightarrow> (string \<times> string) option" where
  "scan_symbol s =
     (if take 2 s \<in> {''>='', ''<='', ''!=''} then Some (take 2 s, drop 2 s)
      else if s \<noteq> [] \<and> hd s \<in> set ''=<>(),'' then Some ([hd s], tl s) else None)"

definition word_more :: "char \<Rightarrow> bool" where
  "word_more c = (is_word c \<or> c \<in> set ''.[]'')"

definition scan_word :: "string \<Rightarrow> (string \<times> string) option" where
  "scan_word s =
     (case s of
        [] \<Rightarrow> None
      | c # r \<Rightarrow> if is_alpha c then Some (c # takeWhile word_more r, dropWhile word_more r) else None)"

text \<open>One match of the regular expression at a position after white space.\<close>

definition next_token :: "string \<Rightarrow> filter_error + token \<times> string" where
  "next_token s =
     (case (if prefix [CHR 0x22] s then scan_string (tl s) else None) of
        Some (content, r) \<Rightarrow>
          (case unescape content of Some v \<Rightarrow> Inr (T_str v, r) | None \<Rightarrow> Inl Bad_string)
      | None \<Rightarrow>
          (case scan_number s of
             Some (t, r) \<Rightarrow> Inr (T_num t, r)
           | None \<Rightarrow>
               (case scan_symbol s of
                  Some (t, r) \<Rightarrow> Inr (T_sym t, r)
                | None \<Rightarrow> (case scan_word s of
                     Some (t, r) \<Rightarrow> Inr (T_word t, r) | None \<Rightarrow> Inl Unexpected_input))))"

lemma scan_string_shorter: "scan_string s = Some (t, r) \<Longrightarrow> length r < length s"
proof (induction s arbitrary: t r rule: scan_string.induct)
  case (2 c s)
  then show ?case
    by (force split: if_splits list.splits simp: less_Suc_eq)
qed simp

lemma scan_frac_shorter: "length (snd (scan_frac r)) \<le> length r"
  by (cases r) (auto simp: scan_frac_def intro: le_SucI length_dropWhile_le)

lemma scan_exp_shorter: "length (snd (scan_exp r)) \<le> length r"
proof (cases r)
  case (Cons c t)
  have "length (dropWhile is_digit (drop n t)) \<le> Suc (length t)" for n
    using length_dropWhile_le [of is_digit "drop n t"] by simp
  then show ?thesis using Cons by (auto simp: scan_exp_def Let_def)
qed (simp add: scan_exp_def)

lemma scan_number_shorter:
  assumes "scan_number s = Some (t, r)"
  shows "length r < length s"
proof -
  let ?sgn = "if prefix ''-'' s then ''-'' else []"
  let ?t = "drop (length ?sgn) s"
  have ip: "takeWhile is_digit ?t \<noteq> []" using assms by (auto simp: scan_number_def Let_def split: if_splits)
  have "length (takeWhile is_digit ?t) + length (dropWhile is_digit ?t) = length ?t"
    by (metis length_append takeWhile_dropWhile_id)
  then have "length (dropWhile is_digit ?t) < length ?t" using ip by (metis add_less_same_cancel2 length_greater_0_conv less_add_same_cancel2)
  moreover have "length ?t \<le> length s" by simp
  moreover have "r = snd (scan_exp (snd (scan_frac (dropWhile is_digit ?t))))"
    using assms by (auto simp: scan_number_def Let_def split: if_splits prod.splits)
  then have "length r \<le> length (dropWhile is_digit ?t)"
    using order_trans [OF scan_exp_shorter scan_frac_shorter] by blast
  ultimately show ?thesis by linarith
qed

lemma scan_symbol_shorter: "scan_symbol s = Some (t, r) \<Longrightarrow> length r < length s"
  by (cases s) (auto simp: scan_symbol_def split: if_splits)

lemma scan_word_shorter: "scan_word s = Some (t, r) \<Longrightarrow> length r < length s"
  by (cases s) (auto simp: scan_word_def le_imp_less_Suc length_dropWhile_le split: if_splits)

lemma next_token_shorter:
  assumes "next_token s = Inr (t, r)"
  shows "length r < length s"
proof -
  have "scan_string (tl s) = Some (c, r) \<Longrightarrow> length r < length s" for c
    using scan_string_shorter [of "tl s" c r] by simp
  then show ?thesis
    using assms scan_number_shorter scan_symbol_shorter scan_word_shorter
    by (auto simp: next_token_def split: option.splits if_splits)
qed

function tokenize :: "string \<Rightarrow> filter_error + token list" where
  "tokenize s =
     (let s' = dropWhile js_space s
      in if s' = [] then Inr []
         else (case next_token s' of
                 Inl e \<Rightarrow> Inl e
               | Inr (t, r) \<Rightarrow> map_sum id ((#) t) (tokenize r)))"
  by pat_completeness auto

termination
proof (relation "measure length", goal_cases)
  case (2 s s' p t r)
  then show ?case
    using next_token_shorter [of "dropWhile js_space s" t r] length_dropWhile_le [of js_space s] by simp
qed simp

declare tokenize.simps [simp del]

subsection \<open>Parser\<close>

definition is_word_tok :: "string \<Rightarrow> token list \<Rightarrow> bool" where
  "is_word_tok w toks = (case toks of T_word v # _ \<Rightarrow> lower v = w | _ \<Rightarrow> False)"

definition expectSym :: "string \<Rightarrow> token list \<Rightarrow> filter_error + token list" where
  "expectSym s toks =
     (case toks of T_sym v # r \<Rightarrow> if v = s then Inr r else Inl (Expected_symbol s) | _ \<Rightarrow> Inl (Expected_symbol s))"

definition safe_integer :: "rat \<Rightarrow> bool" where
  "safe_integer x = (of_int \<lfloor>x\<rfloor> = x \<and> \<bar>x\<bar> \<le> 2 ^ 53 - 1)"

text \<open>A number that is neither a safe integer nor written with a point stays a string.\<close>

definition number_json :: "string \<Rightarrow> json" where
  "number_json s =
     (case number_value s of
        Some x \<Rightarrow> if safe_integer x \<or> CHR ''.'' \<in> set s then JNum x else JStr s
      | None \<Rightarrow> JStr s)"

fun p_value :: "token list \<Rightarrow> filter_error + json \<times> token list" where
  "p_value [] = Inl Expected_value"
| "p_value (T_str v # r) = Inr (JStr v, r)"
| "p_value (T_num v # r) = Inr (number_json v, r)"
| "p_value (T_word v # r) =
     (if v = ''true'' \<or> v = ''false'' then Inr (JBool (v = ''true''), r) else Inl Expected_value)"
| "p_value (T_sym v # r) = Inl Expected_value"

lemma p_value_consumes: "p_value toks = Inr (v, r) \<Longrightarrow> \<exists>t. toks = t # r"
  by (induction toks rule: p_value.induct) (auto split: if_splits)

text \<open>The loop over further values; any token with the text of a comma continues it.\<close>

function p_values :: "json list \<Rightarrow> token list \<Rightarrow> filter_error + json list \<times> token list" where
  "p_values acc toks =
     (if toks \<noteq> [] \<and> tok_v (hd toks) = '','' then
        (case p_value (tl toks) of
           Inl e \<Rightarrow> Inl e
         | Inr (v, r) \<Rightarrow> p_values (acc @ [v]) r)
      else Inr (acc, toks))"
  by pat_completeness auto

termination
  by (relation "measure (length \<circ> snd)") (auto dest!: p_value_consumes simp: neq_Nil_conv)

declare p_values.simps [simp del]

definition SYMBOL_OPS :: "(string \<times> string) list" where
  "SYMBOL_OPS = [(''='', ''eq''), (''!='', ''ne''), (''>'', ''gt''), (''>='', ''gte''), (''<'', ''lt''), (''<='', ''lte'')]"

definition p_in :: "string \<Rightarrow> token list \<Rightarrow> filter_error + json \<times> token list" where
  "p_in f toks =
     (case expectSym ''('' toks of
        Inl e \<Rightarrow> Inl e
      | Inr r \<Rightarrow>
          (case p_value r of
             Inl e \<Rightarrow> Inl e
           | Inr (v, r1) \<Rightarrow>
               (case p_values [v] r1 of
                  Inl e \<Rightarrow> Inl e
                | Inr (vs, r2) \<Rightarrow>
                    (case expectSym '')'' r2 of
                       Inl e \<Rightarrow> Inl e
                     | Inr r3 \<Rightarrow>
                         Inr (JObj [(''field'', JStr f), (''op'', JStr ''in''), (''value'', JArr vs)], r3)))))"

definition p_between :: "string \<Rightarrow> token list \<Rightarrow> filter_error + json \<times> token list" where
  "p_between f toks =
     (case p_value toks of
        Inl e \<Rightarrow> Inl e
      | Inr (lo, r) \<Rightarrow>
          if \<not> is_word_tok ''and'' r then Inl Expected_and
          else (case p_value (tl r) of
                  Inl e \<Rightarrow> Inl e
                | Inr (hi, r2) \<Rightarrow>
                    Inr (JObj [(''field'', JStr f), (''op'', JStr ''between''), (''value'', JArr [lo, hi])], r2)))"

definition p_compare :: "string \<Rightarrow> token list \<Rightarrow> filter_error + json \<times> token list" where
  "p_compare f toks =
     (case toks of
        T_sym s # r \<Rightarrow>
          (case map_of SYMBOL_OPS s of
             None \<Rightarrow> Inl Expected_operator
           | Some op \<Rightarrow>
               (case p_value r of
                  Inl e \<Rightarrow> Inl e
                | Inr (v, r2) \<Rightarrow> Inr (JObj [(''field'', JStr f), (''op'', JStr op), (''value'', v)], r2)))
      | _ \<Rightarrow> Inl Expected_operator)"

definition p_pred :: "token list \<Rightarrow> filter_error + json \<times> token list" where
  "p_pred toks =
     (case toks of
        T_word f # r \<Rightarrow>
          if is_word_tok ''exists'' r then Inr (JObj [(''field'', JStr f), (''op'', JStr ''exists'')], tl r)
          else if is_word_tok ''in'' r then p_in f (tl r)
          else if is_word_tok ''between'' r then p_between f (tl r)
          else p_compare f r
      | _ \<Rightarrow> Inl Expected_field)"

text \<open>A single part stands for itself, several are grouped.\<close>

definition grouped :: "string \<Rightarrow> json list \<Rightarrow> json" where
  "grouped k parts = (case parts of [x] \<Rightarrow> x | _ \<Rightarrow> JObj [(k, JArr parts)])"

fun p_unary :: "nat \<Rightarrow> token list \<Rightarrow> filter_error + json \<times> token list"
  and p_and :: "nat \<Rightarrow> token list \<Rightarrow> filter_error + json \<times> token list"
  and p_ands :: "nat \<Rightarrow> token list \<Rightarrow> filter_error + json list \<times> token list"
  and p_or :: "nat \<Rightarrow> token list \<Rightarrow> filter_error + json \<times> token list"
  and p_ors :: "nat \<Rightarrow> token list \<Rightarrow> filter_error + json list \<times> token list" where
  "p_unary 0 toks = Inl Out_of_fuel"
| "p_unary (Suc k) toks =
     (if is_word_tok ''not'' toks then
        (case p_unary k (tl toks) of Inl e \<Rightarrow> Inl e | Inr (m, r) \<Rightarrow> Inr (JObj [(''not'', m)], r))
      else if toks \<noteq> [] \<and> hd toks = T_sym ''('' then
        (case p_or k (tl toks) of
           Inl e \<Rightarrow> Inl e
         | Inr (x, r) \<Rightarrow> (case expectSym '')'' r of Inl e \<Rightarrow> Inl e | Inr r1 \<Rightarrow> Inr (x, r1)))
      else p_pred toks)"
| "p_and 0 toks = Inl Out_of_fuel"
| "p_and (Suc k) toks =
     (case p_unary k toks of
        Inl e \<Rightarrow> Inl e
      | Inr (x, r) \<Rightarrow> (case p_ands k r of Inl e \<Rightarrow> Inl e | Inr (xs, r1) \<Rightarrow> Inr (grouped ''and'' (x # xs), r1)))"
| "p_ands 0 toks = Inl Out_of_fuel"
| "p_ands (Suc k) toks =
     (if is_word_tok ''and'' toks then
        (case p_unary k (tl toks) of
           Inl e \<Rightarrow> Inl e
         | Inr (x, r) \<Rightarrow> (case p_ands k r of Inl e \<Rightarrow> Inl e | Inr (xs, r1) \<Rightarrow> Inr (x # xs, r1)))
      else Inr ([], toks))"
| "p_or 0 toks = Inl Out_of_fuel"
| "p_or (Suc k) toks =
     (case p_and k toks of
        Inl e \<Rightarrow> Inl e
      | Inr (x, r) \<Rightarrow> (case p_ors k r of Inl e \<Rightarrow> Inl e | Inr (xs, r1) \<Rightarrow> Inr (grouped ''or'' (x # xs), r1)))"
| "p_ors 0 toks = Inl Out_of_fuel"
| "p_ors (Suc k) toks =
     (if is_word_tok ''or'' toks then
        (case p_and k (tl toks) of
           Inl e \<Rightarrow> Inl e
         | Inr (x, r) \<Rightarrow> (case p_ors k r of Inl e \<Rightarrow> Inl e | Inr (xs, r1) \<Rightarrow> Inr (x # xs, r1)))
      else Inr ([], toks))"

definition parseFilter :: "string \<Rightarrow> filter_error + json" where
  "parseFilter src =
     (if 4096 < length src then Inl Filter_too_long
      else (case tokenize src of
              Inl e \<Rightarrow> Inl e
            | Inr toks \<Rightarrow>
                (case p_or (3 * length toks + 3) toks of
                   Inl e \<Rightarrow> Inl e
                 | Inr (ast, r) \<Rightarrow> if r \<noteq> [] then Inl Unexpected_token else validateFilter ast)))"

text \<open>An input is an object or array, a text, or something else.\<close>

datatype filter_input = In_object json | In_text string | In_other

definition toFilterAst :: "(string \<Rightarrow> json option) \<Rightarrow> filter_input \<Rightarrow> filter_error + json" where
  "toFilterAst json_parse input =
     (case input of
        In_object v \<Rightarrow> validateFilter v
      | In_text s \<Rightarrow>
          if prefix ''{'' (trim s) then
            (case json_parse s of None \<Rightarrow> Inl Malformed_json | Some v \<Rightarrow> validateFilter v)
          else parseFilter s
      | In_other \<Rightarrow> Inl Filter_too_long)"


subsection \<open>Every parse consumes tokens, and the fuel is enough\<close>

lemma expectSym_shorter: "expectSym s toks = Inr r \<Longrightarrow> length r < length toks"
  by (auto simp: expectSym_def split: list.splits token.splits if_splits)

lemma p_value_shorter: "p_value toks = Inr (v, r) \<Longrightarrow> length r < length toks"
  by (auto dest: p_value_consumes)

lemma p_values_shorter: "p_values acc toks = Inr (vs, r) \<Longrightarrow> length r \<le> length toks"
proof (induction acc toks rule: p_values.induct)
  case (1 acc toks)
  then show ?case
    using p_value_shorter [of "tl toks"]
    by (fastforce simp: p_values.simps [of acc toks] split: if_splits sum.splits prod.splits)
qed

lemma p_in_shorter: "p_in f toks = Inr (x, r) \<Longrightarrow> length r < length toks"
  by (auto simp: p_in_def split: sum.splits prod.splits
      dest!: expectSym_shorter p_value_shorter p_values_shorter)

lemma p_between_shorter: "p_between f toks = Inr (x, r) \<Longrightarrow> length r < length toks"
  by (auto simp: p_between_def split: sum.splits prod.splits if_splits dest!: p_value_shorter)

lemma p_compare_shorter: "p_compare f toks = Inr (x, r) \<Longrightarrow> length r < length toks"
  by (auto simp: p_compare_def split: sum.splits prod.splits option.splits list.splits token.splits
      dest!: p_value_shorter)

lemma p_pred_shorter: "p_pred toks = Inr (x, r) \<Longrightarrow> length r < length toks"
  by (auto simp: p_pred_def less_Suc_eq_le split: list.splits token.splits if_splits
      dest!: p_in_shorter p_between_shorter p_compare_shorter)

lemma parse_shorter:
  "p_unary k toks = Inr (x, r) \<Longrightarrow> length r < length toks"
  "p_and k toks = Inr (x, r) \<Longrightarrow> length r < length toks"
  "p_ands k toks = Inr (xs, r) \<Longrightarrow> length r \<le> length toks"
  "p_or k toks = Inr (x, r) \<Longrightarrow> length r < length toks"
  "p_ors k toks = Inr (xs, r) \<Longrightarrow> length r \<le> length toks"
proof (induction k toks and k toks and k toks and k toks and k toks arbitrary: x r and x r and xs r and x r and xs r
    rule: p_unary_p_and_p_ands_p_or_p_ors.induct)
  case (2 k toks)
  then show ?case
    by (fastforce split: if_splits sum.splits prod.splits dest: p_pred_shorter expectSym_shorter)
qed (fastforce split: if_splits sum.splits prod.splits)+

definition not_starved :: "filter_error + 'a \<Rightarrow> bool" where
  "not_starved res \<longleftrightarrow> res \<noteq> Inl Out_of_fuel"

lemma not_starved_simps [simp]: "not_starved (Inr x)" "not_starved (Inl e) = (e \<noteq> Out_of_fuel)"
  by (auto simp: not_starved_def)

lemma expectSym_fed: "not_starved (expectSym s toks)"
  by (auto simp: expectSym_def split: list.split token.split)

lemma p_value_fed: "not_starved (p_value toks)"
  by (induction toks rule: p_value.induct) auto

lemma fed_bind:
  assumes "not_starved res" "\<And>x. res = Inr x \<Longrightarrow> not_starved (f x)"
  shows "not_starved (case res of Inl e \<Rightarrow> Inl e | Inr x \<Rightarrow> f x)"
  using assms by (auto split: sum.split)

lemma p_values_fed: "not_starved (p_values acc toks)"
proof (induction acc toks rule: p_values.induct)
  case (1 acc toks)
  then show ?case
    by (subst p_values.simps) (auto intro!: fed_bind p_value_fed)
qed

lemma p_in_fed: "not_starved (p_in f toks)"
  unfolding p_in_def by (auto intro!: fed_bind expectSym_fed p_value_fed p_values_fed)

lemma p_between_fed: "not_starved (p_between f toks)"
  unfolding p_between_def
  by (auto intro!: fed_bind p_value_fed)

lemma p_compare_fed: "not_starved (p_compare f toks)"
  unfolding p_compare_def
  by (auto split: list.split token.split option.split intro!: fed_bind p_value_fed)

lemma p_pred_fed: "not_starved (p_pred toks)"
  unfolding p_pred_def
  by (auto split: list.split token.split simp: p_in_fed p_between_fed p_compare_fed)

lemma parse_fed:
  "3 * length toks + 1 \<le> k \<Longrightarrow> not_starved (p_unary k toks)"
  "3 * length toks + 2 \<le> k \<Longrightarrow> not_starved (p_and k toks)"
  "3 * length toks + 1 \<le> k \<Longrightarrow> not_starved (p_ands k toks)"
  "3 * length toks + 3 \<le> k \<Longrightarrow> not_starved (p_or k toks)"
  "3 * length toks + 1 \<le> k \<Longrightarrow> not_starved (p_ors k toks)"
proof (induction k toks and k toks and k toks and k toks and k toks
    rule: p_unary_p_and_p_ands_p_or_p_ors.induct)
  case (2 k toks)
  show ?case
  proof (cases "is_word_tok ''not'' toks")
    case True
    then have "Suc (length (tl toks)) = length toks" by (auto simp: is_word_tok_def split: list.splits)
    then have "not_starved (p_unary k (tl toks))" using 2 True by simp
    then show ?thesis using True by (auto intro!: fed_bind)
  next
    case nonot: False
    show ?thesis
    proof (cases "toks \<noteq> [] \<and> hd toks = T_sym ''(''")
      case True
      then obtain t ts where "toks = t # ts" by (cases toks) auto
      then have "not_starved (p_or k (tl toks))" using 2 nonot True by simp
      then show ?thesis using True nonot by (auto intro!: fed_bind expectSym_fed)
    next
      case False
      then show ?thesis using nonot by (auto simp: p_pred_fed)
    qed
  qed
next
  case (4 k toks)
  have "not_starved (p_unary k toks)" using 4 by simp
  moreover have "not_starved (p_ands k r)" if "p_unary k toks = Inr (x, r)" for x r
    using parse_shorter(1) [OF that] 4 that by auto
  ultimately show ?case by (auto split: sum.split prod.split)
next
  case (6 k toks)
  have w: "is_word_tok ''and'' toks \<Longrightarrow> Suc (length (tl toks)) = length toks" by (auto simp: is_word_tok_def split: list.splits)
  show ?case
  proof (cases "is_word_tok ''and'' toks")
    case True
    then have "not_starved (p_unary k (tl toks))" using 6 w by simp
    moreover have "not_starved (p_ands k r)" if "p_unary k (tl toks) = Inr (x, r)" for x r
      using parse_shorter(1) [OF that] 6 that True w by auto
    ultimately show ?thesis by (auto split: sum.split prod.split)
  qed simp
next
  case (8 k toks)
  have "not_starved (p_and k toks)" using 8 by simp
  moreover have "not_starved (p_ors k r)" if "p_and k toks = Inr (x, r)" for x r
    using parse_shorter(2) [OF that] 8 that by auto
  ultimately show ?case by (auto split: sum.split prod.split)
next
  case (10 k toks)
  have w: "is_word_tok ''or'' toks \<Longrightarrow> Suc (length (tl toks)) = length toks" by (auto simp: is_word_tok_def split: list.splits)
  show ?case
  proof (cases "is_word_tok ''or'' toks")
    case True
    then have "not_starved (p_and k (tl toks))" using 10 w by simp
    moreover have "not_starved (p_ors k r)" if "p_and k (tl toks) = Inr (x, r)" for x r
      using parse_shorter(2) [OF that] 10 that True w by auto
    ultimately show ?thesis by (auto split: sum.split prod.split)
  qed simp
qed auto

subsection \<open>Parsed filters have one meaning per node\<close>

definition all_plain :: "json \<Rightarrow> bool" where
  "all_plain x \<longleftrightarrow> (\<forall>j. plain j x)"

lemma all_plain_leaf:
  "all_plain (JObj [(''field'', a), (''op'', b)])"
  "all_plain (JObj [(''field'', a), (''op'', b), (''value'', c)])"
proof -
  have "plain j (JObj [(''field'', a), (''op'', b)])" "plain j (JObj [(''field'', a), (''op'', b), (''value'', c)])" for j
    by (cases j; simp add: exclusive_def is_group_def has_key_def group_list_def group_value_def)+
  then show "all_plain (JObj [(''field'', a), (''op'', b)])"
    "all_plain (JObj [(''field'', a), (''op'', b), (''value'', c)])" by (auto simp: all_plain_def)
qed

lemma all_plain_not:
  assumes "all_plain m"
  shows "all_plain (JObj [(''not'', m)])"
proof -
  have "plain j (JObj [(''not'', m)])" for j
    using assms by (cases j) (auto simp: all_plain_def exclusive_def is_group_def has_key_def group_list_def group_value_def)
  then show ?thesis by (simp add: all_plain_def)
qed

lemma all_plain_grouped:
  assumes "list_all all_plain (x # xs)" "k \<in> {''and'', ''or''}"
  shows "all_plain (grouped k (x # xs))"
proof (cases xs)
  case Nil
  then show ?thesis using assms by (simp add: grouped_def)
next
  case (Cons y ys)
  have "plain j (JObj [(k, JArr (x # xs))])" for j
  proof -
    have sub: "list_all (plain i) (x # xs)" for i using assms(1) by (simp add: all_plain_def list_all_iff)
    from assms(2) consider "k = ''and''" | "k = ''or''" by blast
    then show ?thesis
      using sub
      by cases (cases j; simp add: exclusive_def is_group_def has_key_def group_list_def group_value_def)+
  qed
  then show ?thesis using Cons by (simp add: grouped_def all_plain_def)
qed

lemma p_pred_plain: "p_pred toks = Inr (x, r) \<Longrightarrow> all_plain x"
  by (auto simp: p_pred_def p_in_def p_between_def p_compare_def all_plain_leaf
      split: list.splits token.splits sum.splits prod.splits option.splits if_splits)

lemma parse_plain:
  "p_unary k toks = Inr (x, r) \<Longrightarrow> all_plain x"
  "p_and k toks = Inr (x, r) \<Longrightarrow> all_plain x"
  "p_ands k toks = Inr (xs, r) \<Longrightarrow> list_all all_plain xs"
  "p_or k toks = Inr (x, r) \<Longrightarrow> all_plain x"
  "p_ors k toks = Inr (xs, r) \<Longrightarrow> list_all all_plain xs"
proof (induction k toks and k toks and k toks and k toks and k toks arbitrary: x r and x r and xs r and x r and xs r
    rule: p_unary_p_and_p_ands_p_or_p_ors.induct)
  case (2 k toks)
  then show ?case
    by (auto simp: all_plain_not split: if_splits sum.splits prod.splits dest: p_pred_plain)
next
  case (4 k toks)
  then show ?case by (auto intro!: all_plain_grouped split: sum.splits prod.splits)
next
  case (8 k toks)
  then show ?case by (auto intro!: all_plain_grouped split: sum.splits prod.splits)
qed (auto split: if_splits sum.splits prod.splits)

lemma parsed_plain:
  assumes "parseFilter src = Inr ast"
  shows "validateFilter ast = Inr ast \<and> plain 8 ast"
proof -
  obtain toks ast' where p: "p_or (3 * length toks + 3) toks = Inr (ast', [])" "validateFilter ast' = Inr ast"
    using assms by (auto simp: parseFilter_def split: if_splits sum.splits prod.splits)
  moreover have "ast' = ast" using p(2) by (auto simp: validateFilter_def split: sum.splits)
  ultimately show ?thesis using parse_plain(4) by (auto simp: all_plain_def)
qed

text \<open>
  C38. A parsed text is a validated filter whose nodes have one meaning each, so the planner's guarantee
  holds for every textual filter.
\<close>

theorem parsed_filter_plain:
  assumes "parseFilter src = Inr ast"
  shows "validateFilter ast = Inr ast \<and> plain 8 ast"
  using parsed_plain [OF assms] .

theorem parsed_filter_plain_witness:
  "validateFilter (JObj [(''field'', JStr ''seq''), (''op'', JStr ''exists'')]) =
     Inr (JObj [(''field'', JStr ''seq''), (''op'', JStr ''exists'')]) \<and>
   plain 8 (JObj [(''field'', JStr ''seq''), (''op'', JStr ''exists'')])"
proof (rule parsed_filter_plain [of "''seq exists''"])
  have "tokenize ''seq exists'' = Inr [T_word ''seq'', T_word ''exists'']" by code_simp
  then show "parseFilter ''seq exists'' = Inr (JObj [(''field'', JStr ''seq''), (''op'', JStr ''exists'')])"
    by (simp add: parseFilter_def numeral_eq_Suc is_word_tok_def lower_def lower_char_def p_pred_def grouped_def
        validateFilter_def walk.simps Let_def maxNodes_def maxDepth_def is_group_def has_key_def leaf_error_def
        parseField_def parse_field_text_def COLUMN_FIELDS_def OPS_def)
qed

text \<open>
  C9. When a filter written as text is accepted by the planner, every event it matches lies in a branch that pins an indexed
  column; if the branch also reads an unindexed field, the event satisfies its contract condition and its ledger lies in a window
  of at most 120000 ledgers that the filter fixes.
\<close>

theorem text_planner_sound:
  assumes "parseFilter src = Inr ast" "planFilter ast = Some Plan_ok" "evaluateFilter json_parse e ast = Some True"
  shows "\<exists>branches. plan_list ast = Some branches \<and> list_ex (branch_bounded json_parse e) branches"
  using plain_planner_sound [OF _ _ assms(2,3)] parsed_plain [OF assms(1)] by blast

definition bounded_text :: string where
  "bounded_text = ''contract_id = \"C1\" and ledger >= 10 and ledger <= 20 and topic[1] exists''"

definition bounded_filter :: json where
  "bounded_filter = JObj [(''and'', JArr
     [JObj [(''field'', JStr ''contract_id''), (''op'', JStr ''eq''), (''value'', JStr ''C1'')],
      JObj [(''field'', JStr ''ledger''), (''op'', JStr ''gte''), (''value'', JNum 10)],
      JObj [(''field'', JStr ''ledger''), (''op'', JStr ''lte''), (''value'', JNum 20)],
      JObj [(''field'', JStr ''topic[1]''), (''op'', JStr ''exists'')]])]"

definition swap_event :: event where
  "swap_event = \<lparr>ev_col = [''contract_id'' \<mapsto> JStr ''C1'', ''ledger'' \<mapsto> JNum 12],
     raw_topics = Some (JArr [JStr ''swap'', JStr ''GA'']), raw_data = None\<rparr>"

theorem text_planner_sound_witness:
  "\<exists>branches. plan_list bounded_filter = Some branches \<and> list_ex (branch_bounded (\<lambda>_. None) swap_event) branches"
proof (rule text_planner_sound)
  show "parseFilter bounded_text = Inr bounded_filter" by code_simp
  show "planFilter bounded_filter = Some Plan_ok" by code_simp
  show "evaluateFilter (\<lambda>_. None) swap_event bounded_filter = Some True" by code_simp
qed

lemma leaf_error_fed: "leaf_error n \<noteq> Some Out_of_fuel"
proof -
  have v: "value_error op w \<noteq> Some Out_of_fuel" for op w
    by (auto simp: value_error_def split: option.split json.split)
  show ?thesis
  proof (cases "parseField (prop_of n ''field'')")
    case (Some f)
    show ?thesis
    proof (cases "prop_of n ''op''")
      case o: (Some j)
      show ?thesis
        using Some o v
        by (cases j; cases f) (auto simp: leaf_error_def split: option.split col_type.split)
    qed (simp add: leaf_error_def Some)
  qed (simp add: leaf_error_def)
qed

lemma walk_fed: "walk c d n \<noteq> Inl Out_of_fuel" "walk_list c d ns \<noteq> Inl Out_of_fuel"
proof (induction c d n and c d ns rule: walk_walk_list.induct)
  case (1 count depth n)
  then show ?case
    using leaf_error_fed [of n] by (auto simp: walk.simps [of count depth n] Let_def split: option.split)
qed (auto split: sum.split)

text \<open>
  C39. The parser answers on every text: its fuel, three calls per token, is never used up.
\<close>

theorem parse_always_answers: "parseFilter src \<noteq> Inl Out_of_fuel"
proof -
  have "tokenize s \<noteq> Inl Out_of_fuel" for s
  proof (induction s rule: tokenize.induct)
    case (1 s)
    have "next_token t \<noteq> Inl Out_of_fuel" for t by (auto simp: next_token_def split: option.split)
    then show ?case
      using 1 by (auto simp: tokenize.simps [of s] Let_def map_sum_Inl_conv split: sum.split)
  qed
  moreover have "not_starved (p_or (3 * length toks + 3) toks)" for toks by (rule parse_fed(4)) simp
  moreover note walk_fed
  ultimately show ?thesis
    by (auto simp: parseFilter_def validateFilter_def not_starved_def split: sum.split)
qed

end
