(* ===== verification/Filter_Sql.thy ===== *)
theory Filter_Sql
  imports Filter_Plan
begin

text \<open>
  filters/sql.js: compilation of a validated filter to a parameterised WHERE fragment. The bound
  parameters are threaded through the walk; a step that throws a TypeError is \<open>None\<close>. Shown: a validated
  filter compiles, parameters are only appended, and the SQL text does not depend on the filter's values.
\<close>

datatype sql_param = P_text string | P_list "string list"

definition SQL_OPS :: "(string \<times> string) list" where
  "SQL_OPS = [(''eq'', ''=''), (''ne'', ''<>''), (''gt'', ''>''), (''gte'', ''>=''), (''lt'', ''<''), (''lte'', ''<='')]"

text \<open>\<open>SQL_OPS[op]\<close> in a template: an operator that is missing prints as undefined.\<close>

definition sql_op :: "string \<Rightarrow> string" where
  "sql_op op = (case map_of SQL_OPS op of Some s \<Rightarrow> s | None \<Rightarrow> ''undefined'')"

definition bind_param :: "sql_param list \<Rightarrow> sql_param \<Rightarrow> string \<times> sql_param list" where
  "bind_param ps v = (''$'' @ dec (length ps + 1), ps @ [v])"

fun textExpr :: "field \<Rightarrow> sql_param list \<Rightarrow> string \<times> sql_param list" where
  "textExpr (Column c t) ps = (c, ps)"
| "textExpr (Topic k) ps = (''(raw_topics->>'' @ dec k @ '')'', ps)"
| "textExpr (Args path) ps =
     (case bind_param ps (P_list path) of (b, ps1) \<Rightarrow>
        (''(explorer_try_jsonb(raw_data) #>> '' @ b @ ''::text[])'', ps1))"

definition isNumericValue :: "json \<Rightarrow> bool" where
  "isNumericValue v = (numeric v \<noteq> None)"

text \<open>A value used as an array, and its first two elements; \<open>None\<close> where the code throws.\<close>

definition arr_of :: "json option \<Rightarrow> json list option" where
  "arr_of v = (case v of Some (JArr xs) \<Rightarrow> Some xs | _ \<Rightarrow> None)"

definition pair_of :: "json option \<Rightarrow> (json \<times> json) option" where
  "pair_of v = (case arr_of v of Some (lo # hi # _) \<Rightarrow> Some (lo, hi) | _ \<Rightarrow> None)"

text \<open>Templates with one and with two bound values.\<close>

definition with_one :: "sql_param list \<Rightarrow> sql_param \<Rightarrow> (string \<Rightarrow> string) \<Rightarrow> string \<times> sql_param list" where
  "with_one ps v template = (case bind_param ps v of (b, ps1) \<Rightarrow> (template b, ps1))"

definition with_two ::
  "sql_param list \<Rightarrow> sql_param \<Rightarrow> sql_param \<Rightarrow> (string \<Rightarrow> string \<Rightarrow> string) \<Rightarrow> string \<times> sql_param list" where
  "with_two ps v w template =
     (case bind_param ps v of (b1, ps1) \<Rightarrow> (case bind_param ps1 w of (b2, ps2) \<Rightarrow> (template b1 b2, ps2)))"

text \<open>The three cases of an integer column.\<close>

definition int_predicate :: "string \<Rightarrow> string \<Rightarrow> json option \<Rightarrow> sql_param list \<Rightarrow> (string \<times> sql_param list) option" where
  "int_predicate c op v ps =
     (if op = ''in'' then
        map_option (\<lambda>xs. with_one ps (P_list (map text_of xs)) (\<lambda>b. ''('' @ c @ '' = ANY('' @ b @ ''::bigint[]))''))
          (arr_of v)
      else if op = ''between'' then
        map_option (\<lambda>(lo, hi). with_two ps (P_text (text_of lo)) (P_text (text_of hi))
            (\<lambda>b1 b2. ''('' @ c @ '' BETWEEN '' @ b1 @ ''::bigint AND '' @ b2 @ ''::bigint)''))
          (pair_of v)
      else
        map_option (\<lambda>x. with_one ps (P_text (text_of x)) (\<lambda>b. ''('' @ c @ '' '' @ sql_op op @ '' '' @ b @ ''::bigint)'')) v)"

text \<open>The cases of a text expression, already compiled.\<close>

definition text_predicate :: "string \<Rightarrow> string \<Rightarrow> json option \<Rightarrow> sql_param list \<Rightarrow> (string \<times> sql_param list) option" where
  "text_predicate ex op v ps =
     (if op = ''in'' then
        map_option (\<lambda>xs. with_one ps (P_list (map text_of (inList xs)))
            (\<lambda>b. if list_all isNumericValue (inList xs)
                 then ''(explorer_numeric('' @ ex @ '') = ANY('' @ b @ ''::numeric[]))''
                 else ''('' @ ex @ '' = ANY('' @ b @ ''::text[]))''))
          (arr_of v)
      else if op = ''between'' then
        map_option (\<lambda>(lo, hi). with_two ps (P_text (text_of lo)) (P_text (text_of hi))
            (\<lambda>b1 b2. if list_all isNumericValue (value_list v)
                 then ''(explorer_numeric('' @ ex @ '') BETWEEN '' @ b1 @ ''::numeric AND '' @ b2 @ ''::numeric)''
                 else ''('' @ ex @ '' BETWEEN '' @ b1 @ '' AND '' @ b2 @ '')''))
          (pair_of v)
      else
        map_option (\<lambda>x. with_one ps (P_text (text_of x))
            (\<lambda>b. if isNumericValue x
                 then ''(explorer_numeric('' @ ex @ '') '' @ sql_op op @ '' '' @ b @ ''::numeric)''
                 else ''('' @ ex @ '' '' @ sql_op op @ '' '' @ b @ '')'')) v)"

definition int_column :: "field \<Rightarrow> string option" where
  "int_column f = (case f of Column c Number_col \<Rightarrow> Some c | _ \<Rightarrow> None)"

text \<open>The string of a topic[0] equality, which has its own index expression.\<close>

definition topic0_text :: "field \<Rightarrow> string \<Rightarrow> json option \<Rightarrow> string option" where
  "topic0_text f op v =
     (case v of Some (JStr s) \<Rightarrow> if f = Topic 0 \<and> op = ''eq'' then Some s else None | _ \<Rightarrow> None)"

definition field_sql :: "field \<Rightarrow> string \<Rightarrow> json option \<Rightarrow> sql_param list \<Rightarrow> (string \<times> sql_param list) option" where
  "field_sql f op v ps =
     (if op = ''exists'' then
        (case textExpr f ps of (ex, ps1) \<Rightarrow> Some (''('' @ ex @ '' IS NOT NULL)'', ps1))
      else (case int_column f of
              Some c \<Rightarrow> int_predicate c op v ps
            | None \<Rightarrow>
                (case topic0_text f op v of
                   Some s \<Rightarrow> Some (with_one ps (P_text s) (\<lambda>b. ''(raw_topics->0 = to_jsonb('' @ b @ ''::text))''))
                 | None \<Rightarrow> (case textExpr f ps of (ex, ps1) \<Rightarrow> text_predicate ex op v ps1))))"

definition predicate_sql :: "json \<Rightarrow> sql_param list \<Rightarrow> (string \<times> sql_param list) option" where
  "predicate_sql n ps =
     (case (parseField (prop_of n ''field''), str_prop n ''op'') of
        (Some f, Some op) \<Rightarrow> field_sql f op (prop_of n ''value'') ps
      | _ \<Rightarrow> None)"

function (sequential) walk_sql :: "json \<Rightarrow> sql_param list \<Rightarrow> (string \<times> sql_param list) option"
  and walk_all :: "json list \<Rightarrow> sql_param list \<Rightarrow> (string list \<times> sql_param list) option" where
  "walk_sql n ps =
     (case truthy_prop n ''and'' of
        Some (JArr xs) \<Rightarrow> map_option (\<lambda>(ts, ps1). (''('' @ join '' AND '' ts @ '')'', ps1)) (walk_all xs ps)
      | Some _ \<Rightarrow> None
      | None \<Rightarrow>
          (case truthy_prop n ''or'' of
             Some (JArr xs) \<Rightarrow> map_option (\<lambda>(ts, ps1). (''('' @ join '' OR '' ts @ '')'', ps1)) (walk_all xs ps)
           | Some _ \<Rightarrow> None
           | None \<Rightarrow>
               (case truthy_prop n ''not'' of
                  Some m \<Rightarrow> map_option (\<lambda>(t, ps1). (''(NOT COALESCE('' @ t @ '', FALSE))'', ps1)) (walk_sql m ps)
                | None \<Rightarrow> predicate_sql n ps)))"
| "walk_all [] ps = Some ([], ps)"
| "walk_all (n # ns) ps =
     (case walk_sql n ps of
        None \<Rightarrow> None
      | Some (t, ps1) \<Rightarrow> map_option (\<lambda>(ts, ps2). (t # ts, ps2)) (walk_all ns ps1))"
  by pat_completeness auto

termination
  by (relation "measure (\<lambda>x. case x of Inl (n, _) \<Rightarrow> size n | Inr (ns, _) \<Rightarrow> size_list size ns)")
    (auto dest: size_truthy_prop)

declare walk_sql.simps [simp del]

definition compileFilter :: "json \<Rightarrow> sql_param list \<Rightarrow> (string \<times> sql_param list) option" where
  "compileFilter ast params = walk_sql ast params"

subsection \<open>Compilation of validated filters\<close>

text \<open>A compilation succeeds and only appends parameters.\<close>

definition compiles :: "(string \<times> sql_param list) option \<Rightarrow> sql_param list \<Rightarrow> bool" where
  "compiles r ps \<longleftrightarrow> (\<exists>t new. r = Some (t, ps @ new))"

lemma compiles_textExpr: "\<exists>t new. textExpr f ps = (t, ps @ new)"
  by (cases f) (auto simp: bind_param_def)

lemma compiles_with [simp]:
  "compiles (Some (with_one ps v t)) ps" "compiles (Some (with_two ps v w t2)) ps"
  by (simp_all add: compiles_def with_one_def with_two_def bind_param_def)

lemma value_ok_cases:
  assumes "value_error op v = None"
  obtains "op = ''in''" "arr_of v \<noteq> None" | "op = ''between''" "pair_of v \<noteq> None"
    | "op \<noteq> ''in''" "op \<noteq> ''between''" "v \<noteq> None"
  using assms
  by (auto simp: value_error_def scalar_opt_def arr_of_def pair_of_def numeral_2_eq_2 length_Suc_conv
      split: option.splits json.splits if_splits)

lemma compiles_int: "value_error op v = None \<Longrightarrow> compiles (int_predicate c op v ps) ps"
  by (erule value_ok_cases) (auto simp: int_predicate_def)

lemma compiles_text: "value_error op v = None \<Longrightarrow> compiles (text_predicate ex op v ps) ps"
  by (erule value_ok_cases) (auto simp: text_predicate_def)

lemma compiles_append: "compiles r (ps @ new) \<Longrightarrow> compiles r ps"
  by (auto simp: compiles_def)

lemma compiles_leaf:
  assumes "leaf_error n = None"
  shows "compiles (predicate_sql n ps) ps"
proof -
  from leaf_ok_parts [OF assms] obtain f op where p: "parseField (prop_of n ''field'') = Some f"
    "prop_of n ''op'' = Some (JStr op)" by metis
  have o: "str_prop n ''op'' = Some op" using p(2) by (simp add: str_prop_def)
  obtain t new where t: "textExpr f ps = (t, ps @ new)" using compiles_textExpr by blast
  have "compiles (field_sql f op (prop_of n ''value'') ps) ps"
  proof (cases "op = ''exists''")
    case True
    then show ?thesis using t by (simp add: field_sql_def compiles_def)
  next
    case False
    note ve = leaf_ok_value(1) [OF assms p(1) o False]
    have "compiles (text_predicate t op (prop_of n ''value'') (ps @ new)) ps"
      using compiles_text [OF ve] by (rule compiles_append)
    then show ?thesis
      using t False compiles_int [OF ve] by (auto simp: field_sql_def split: option.split)
  qed
  then show ?thesis using p(1) o by (simp add: predicate_sql_def)
qed

lemma compiles_wf:
  "wf_node k n \<Longrightarrow> compiles (walk_sql n ps) ps"
  and compiles_all: "list_all (wf_node k) ns \<Longrightarrow> \<exists>ts new. walk_all ns ps = Some (ts, ps @ new)"
proof (induction k arbitrary: n ns ps)
  case 0
  have one: "compiles (walk_sql n ps) ps" if "wf_node 0 n" for n ps
    using that not_group_truthy [of n] compiles_leaf [of n ps]
    by (simp add: walk_sql.simps [of n] truthy_prop_def)
  { case 1 then show ?case by (rule one) }
  { case 2 then show ?case
    proof (induction ns arbitrary: ps)
      case (Cons n ns)
      then obtain t new where t: "walk_sql n ps = Some (t, ps @ new)"
        using one [of n ps] by (auto simp: compiles_def)
      then show ?case using Cons.IH [of "ps @ new"] Cons.prems by auto
    qed simp }
next
  case (Suc k)
  have one: "compiles (walk_sql n ps) ps" if wf: "wf_node (Suc k) n" for n ps
    using wf
  proof (cases rule: wf_cases)
    case (group j)
    then have "list_all (wf_node k) (group_list n)" by simp
    from Suc.IH(2) [OF this, of ps] obtain ts new where w: "walk_all (group_list n) ps = Some (ts, ps @ new)" by blast
    from group(2,3) show ?thesis
      by (cases rule: group_truthy) (use w in \<open>auto simp: walk_sql.simps [of n] compiles_def\<close>)
  next
    case (neg j m)
    then show ?thesis
      using Suc.IH(1) [of m ps] not_group_truthy [OF neg(2)] by (auto simp: walk_sql.simps [of n] compiles_def)
  next
    case leaf
    then show ?thesis
      using not_group_truthy [OF leaf(1)] compiles_leaf [OF leaf(4)] by (simp add: walk_sql.simps [of n])
  qed
  { case 1 then show ?case by (rule one) }
  { case 2 then show ?case
    proof (induction ns arbitrary: ps)
      case (Cons n ns)
      then obtain t new where t: "walk_sql n ps = Some (t, ps @ new)"
        using one [of n ps] by (auto simp: compiles_def)
      then show ?case using Cons.IH [of "ps @ new"] Cons.prems by auto
    qed simp }
qed

subsection \<open>The text does not depend on the values\<close>

text \<open>What of a field reaches the text: column names and topic numbers, but no path.\<close>

fun same_field :: "field \<Rightarrow> field \<Rightarrow> bool" where
  "same_field (Args p) (Args q) = True"
| "same_field f g = (f = g)"

text \<open>Two values of one class: numbers or not, and strings or not; lists are compared as a whole.\<close>

definition same_class :: "json option \<Rightarrow> json option \<Rightarrow> bool" where
  "same_class v w \<longleftrightarrow>
     (v = None) = (w = None) \<and> (arr_of v = None) = (arr_of w = None) \<and> (pair_of v = None) = (pair_of w = None) \<and>
     map_option isNumericValue v = map_option isNumericValue w \<and>
     map_option is_str v = map_option is_str w \<and>
     list_all isNumericValue (value_list v) = list_all isNumericValue (value_list w) \<and>
     map_option (list_all isNumericValue \<circ> inList) (arr_of v) = map_option (list_all isNumericValue \<circ> inList) (arr_of w)"

definition same_leaf :: "json \<Rightarrow> json \<Rightarrow> bool" where
  "same_leaf a b \<longleftrightarrow>
     (case (parseField (prop_of a ''field''), parseField (prop_of b ''field'')) of
        (Some f, Some g) \<Rightarrow> same_field f g | _ \<Rightarrow> False) \<and>
     str_prop a ''op'' = str_prop b ''op'' \<and> same_class (prop_of a ''value'') (prop_of b ''value'')"

inductive same_shape :: "json \<Rightarrow> json \<Rightarrow> bool" where
  shape_and: "truthy_prop a ''and'' = Some (JArr xs) \<Longrightarrow> truthy_prop b ''and'' = Some (JArr ys) \<Longrightarrow>
     list_all2 same_shape xs ys \<Longrightarrow> same_shape a b"
| shape_or: "truthy_prop a ''and'' = None \<Longrightarrow> truthy_prop b ''and'' = None \<Longrightarrow>
     truthy_prop a ''or'' = Some (JArr xs) \<Longrightarrow> truthy_prop b ''or'' = Some (JArr ys) \<Longrightarrow>
     list_all2 same_shape xs ys \<Longrightarrow> same_shape a b"
| shape_not: "truthy_prop a ''and'' = None \<Longrightarrow> truthy_prop b ''and'' = None \<Longrightarrow>
     truthy_prop a ''or'' = None \<Longrightarrow> truthy_prop b ''or'' = None \<Longrightarrow>
     truthy_prop a ''not'' = Some m \<Longrightarrow> truthy_prop b ''not'' = Some m' \<Longrightarrow> same_shape m m' \<Longrightarrow> same_shape a b"
| shape_leaf: "truthy_prop a ''and'' = None \<Longrightarrow> truthy_prop b ''and'' = None \<Longrightarrow>
     truthy_prop a ''or'' = None \<Longrightarrow> truthy_prop b ''or'' = None \<Longrightarrow>
     truthy_prop a ''not'' = None \<Longrightarrow> truthy_prop b ''not'' = None \<Longrightarrow> same_leaf a b \<Longrightarrow> same_shape a b"

text \<open>Two compilations give the same text and the same number of parameters.\<close>

definition same_text :: "('t \<times> sql_param list) option \<Rightarrow> ('t \<times> sql_param list) option \<Rightarrow> bool" where
  "same_text r s \<longleftrightarrow> map_option (\<lambda>(t, ps). (t, length ps)) r = map_option (\<lambda>(t, ps). (t, length ps)) s"

lemma same_text_textExpr:
  "same_field f g \<Longrightarrow> length ps = length qs \<Longrightarrow>
     fst (textExpr f ps) = fst (textExpr g qs) \<and> length (snd (textExpr f ps)) = length (snd (textExpr g qs))"
  by (cases f; cases g) (auto simp: bind_param_def)

lemma same_text_with [simp]:
  "length ps = length qs \<Longrightarrow> same_text (Some (with_one ps v t)) (Some (with_one qs w t))"
  "length ps = length qs \<Longrightarrow> same_text (Some (with_two ps v1 v2 t2)) (Some (with_two qs w1 w2 t2))"
  by (simp_all add: same_text_def with_one_def with_two_def bind_param_def)

lemma same_text_None [simp]: "same_text None None"
  by (simp add: same_text_def)

lemma same_text_int:
  assumes "same_class v w" "length ps = length qs"
  shows "same_text (int_predicate c op v ps) (int_predicate c op w qs)"
proof -
  consider "op = ''in''" | "op = ''between''" | "op \<noteq> ''in''" "op \<noteq> ''between''" by blast
  then show ?thesis
  proof cases
    case 1
    then show ?thesis using assms
      by (cases "arr_of v"; cases "arr_of w") (auto simp: int_predicate_def same_class_def)
  next
    case 2
    then show ?thesis using assms
      by (cases "pair_of v"; cases "pair_of w") (auto simp: int_predicate_def same_class_def)
  next
    case 3
    then show ?thesis using assms by (cases v; cases w) (auto simp: int_predicate_def same_class_def)
  qed
qed

lemma same_text_text:
  assumes "same_class v w" "length ps = length qs"
  shows "same_text (text_predicate ex op v ps) (text_predicate ex op w qs)"
proof -
  consider "op = ''in''" | "op = ''between''" | "op \<noteq> ''in''" "op \<noteq> ''between''" by blast
  then show ?thesis
  proof cases
    case 1
    then show ?thesis using assms
      by (cases "arr_of v"; cases "arr_of w") (auto simp: text_predicate_def same_class_def)
  next
    case 2
    then show ?thesis using assms
      by (cases "pair_of v"; cases "pair_of w") (auto simp: text_predicate_def same_class_def)
  next
    case 3
    then show ?thesis using assms by (cases v; cases w) (auto simp: text_predicate_def same_class_def)
  qed
qed

lemma same_topic0:
  "same_class v w \<Longrightarrow> (topic0_text f op v = None) = (topic0_text f op w = None)"
  by (cases v; cases w) (auto simp: topic0_text_def same_class_def split: json.splits)

lemma same_field_cases: "same_field f g \<Longrightarrow> f = g \<or> (\<exists>p q. f = Args p \<and> g = Args q)"
  by (cases f; cases g) auto

lemma same_text_leaf:
  assumes "same_leaf a b" "length ps = length qs"
  shows "same_text (predicate_sql a ps) (predicate_sql b qs)"
proof -
  obtain f g where fg: "parseField (prop_of a ''field'') = Some f" "parseField (prop_of b ''field'') = Some g" "same_field f g"
    and op: "str_prop a ''op'' = str_prop b ''op''" and cl: "same_class (prop_of a ''value'') (prop_of b ''value'')"
    using assms(1) by (auto simp: same_leaf_def split: option.splits)
  let ?v = "prop_of a ''value''" and ?w = "prop_of b ''value''"
  have col: "int_column f = int_column g" using same_field_cases [OF fg(3)] by (auto simp: int_column_def)
  have top: "(topic0_text f op ?v = None) = (topic0_text g op ?w = None)" for op
    using same_field_cases [OF fg(3)] same_topic0 [OF cl]
    by (auto simp: topic0_text_def split: option.split json.split)
  obtain ex ps1 where e1: "textExpr f ps = (ex, ps1)" by (cases "textExpr f ps")
  obtain qs1 where e2: "textExpr g qs = (ex, qs1)" "length ps1 = length qs1"
    using same_text_textExpr [OF fg(3) assms(2)] e1 by (cases "textExpr g qs") auto
  have "same_text (field_sql f op ?v ps) (field_sql g op ?w qs)" for op
  proof (cases "op = ''exists''")
    case True
    then show ?thesis using e1 e2 by (simp add: field_sql_def same_text_def)
  next
    case False
    then show ?thesis
      using e1 e2 col top [of op] same_text_int [OF cl assms(2)] same_text_text [OF cl e2(2)] assms(2)
      by (auto simp: field_sql_def split: option.split)
  qed
  then show ?thesis using fg op by (auto simp: predicate_sql_def split: option.split)
qed

lemma same_text_all:
  "list_all2 (\<lambda>a b. \<forall>ps qs. length ps = length qs \<longrightarrow> same_text (walk_sql a ps) (walk_sql b qs)) xs ys \<Longrightarrow>
     length ps = length qs \<Longrightarrow> same_text (walk_all xs ps) (walk_all ys qs)"
proof (induction xs ys arbitrary: ps qs rule: list_all2_induct)
  case Nil
  then show ?case by (simp add: same_text_def)
next
  case (Cons x xs y ys)
  then have s: "same_text (walk_sql x ps) (walk_sql y qs)" by blast
  show ?case
  proof (cases "walk_sql x ps")
    case None
    then show ?thesis using s by (auto simp: same_text_def split: option.splits)
  next
    case (Some r)
    then obtain t ps1 qs1 where w: "walk_sql x ps = Some (t, ps1)" "walk_sql y qs = Some (t, qs1)" "length ps1 = length qs1"
      using s by (cases r; cases "walk_sql y qs") (auto simp: same_text_def)
    from Cons.IH [OF w(3)] show ?thesis
      using w by (cases "walk_all xs ps1"; cases "walk_all ys qs1") (auto simp: same_text_def)
  qed
qed

lemma same_text_map:
  "same_text r s \<Longrightarrow> same_text (map_option (\<lambda>(t, ps). (f t, ps)) r) (map_option (\<lambda>(t, ps). (f t, ps)) s)"
  by (cases r; cases s) (auto simp: same_text_def)

lemma same_shape_text:
  "same_shape a b \<Longrightarrow> length ps = length qs \<Longrightarrow> same_text (walk_sql a ps) (walk_sql b qs)"
proof (induction arbitrary: ps qs rule: same_shape.induct)
  case (shape_and a xs b ys)
  have "list_all2 (\<lambda>a b. \<forall>ps qs. length ps = length qs \<longrightarrow> same_text (walk_sql a ps) (walk_sql b qs)) xs ys"
    using shape_and.IH by (rule list_all2_mono) auto
  from same_text_map [OF same_text_all [OF this shape_and.prems]] show ?case
    using shape_and.hyps by (simp add: walk_sql.simps [of a] walk_sql.simps [of b])
next
  case (shape_or a b xs ys)
  have "list_all2 (\<lambda>a b. \<forall>ps qs. length ps = length qs \<longrightarrow> same_text (walk_sql a ps) (walk_sql b qs)) xs ys"
    using shape_or.IH by (rule list_all2_mono) auto
  from same_text_map [OF same_text_all [OF this shape_or.prems]] show ?case
    using shape_or.hyps by (simp add: walk_sql.simps [of a] walk_sql.simps [of b])
next
  case (shape_not a b m m')
  from same_text_map [OF shape_not.IH [OF shape_not.prems]] show ?case
    using shape_not.hyps by (simp add: walk_sql.simps [of a] walk_sql.simps [of b])
next
  case (shape_leaf a b)
  then show ?case using same_text_leaf by (simp add: walk_sql.simps [of a] walk_sql.simps [of b])
qed

text \<open>
  C10. A validated filter compiles, its parameters are appended to those given, and the SQL text carries
  no value and no payload path: any filter of the same shape (columns, operators and classes of values)
  compiles to the same text with as many parameters.
\<close>

theorem sql_text_value_free:
  assumes "validateFilter ast = Inr ast'" "same_shape ast other"
  shows "\<exists>sql new. compileFilter ast params = Some (sql, params @ new) \<and>
           map_option fst (compileFilter other params) = Some sql \<and>
           map_option (length \<circ> snd) (compileFilter other params) = Some (length params + length new)"
proof -
  obtain sql new where c: "walk_sql ast params = Some (sql, params @ new)"
    using compiles_wf [OF validate_wf [OF assms(1)], of params] by (auto simp: compiles_def)
  have "same_text (walk_sql ast params) (walk_sql other params)" by (rule same_shape_text [OF assms(2)]) simp
  then show ?thesis
    using c by (intro exI [of _ sql] exI [of _ new]) (cases "walk_sql other params"; auto simp: compileFilter_def same_text_def)
qed

theorem sql_text_value_free_witness:
  "map_option fst (compileFilter (JObj [(''field'', JStr ''seq''), (''op'', JStr ''gt''), (''value'', JNum 9)]) []) =
     map_option fst (compileFilter seq_filter [])"
proof -
  let ?other = "JObj [(''field'', JStr ''seq''), (''op'', JStr ''gt''), (''value'', JNum 9)]"
  have v: "validateFilter seq_filter = Inr seq_filter"
    by (simp add: validateFilter_def filter_eval_defs maxNodes_def maxDepth_def)
  have "same_shape seq_filter ?other"
    by (rule shape_leaf) (simp_all add: seq_filter_def truthy_prop_def same_leaf_def parseField_def
        parse_field_text_def COLUMN_FIELDS_def str_prop_def same_class_def arr_of_def pair_of_def
        isNumericValue_def value_list_def)
  from sql_text_value_free [OF v this, of "[]"] show ?thesis by auto
qed

end
