(* ===== verification/Scopes.thy ===== *)
theory Scopes
  imports Js_Prelude
begin

text \<open>
  auth/scopes.js: the scope every route declares, the matching of a request to its route, and the
  middleware that enforces scopes, contract restrictions and origin restrictions for API keys. Shown:
  admin paths pass only with the admin scope, the most specific route decides, and the requests that
  the middleware lets through unchecked although Express serves them.
\<close>

subsection \<open>Scopes and routes\<close>

definition SCOPES :: "string list" where
  "SCOPES = [''read:events'', ''read:contracts'', ''write:contracts'', ''write:webhooks'', ''read:usage'',
     ''write:keys'', ''admin:*'']"

definition DEFAULT_SCOPES :: "string list" where
  "DEFAULT_SCOPES = [''read:events'', ''read:contracts'']"

definition LEGACY_SCOPES :: "string list" where
  "LEGACY_SCOPES = [''read:events'', ''read:contracts'', ''write:contracts'', ''write:webhooks'', ''read:usage'',
     ''write:keys'']"

definition PUBLIC :: "string list" where "PUBLIC = []"
definition R_EVENTS :: "string list" where "R_EVENTS = [''read:events'']"
definition R_CONTRACTS :: "string list" where "R_CONTRACTS = [''read:contracts'']"
definition W_CONTRACTS :: "string list" where "W_CONTRACTS = [''write:contracts'']"
definition W_WEBHOOKS :: "string list" where "W_WEBHOOKS = [''write:webhooks'']"
definition R_USAGE :: "string list" where "R_USAGE = [''read:usage'']"
definition W_KEYS :: "string list" where "W_KEYS = [''write:keys'']"
definition ADMIN :: "string list" where "ADMIN = [''admin:*'']"

definition ROUTE_SCOPES :: "(string \<times> string list) list" where
  "ROUTE_SCOPES =
     [(''GET /health'', PUBLIC),
      (''GET /health/live'', PUBLIC),
      (''GET /health/ready'', PUBLIC),
      (''GET /metrics'', PUBLIC),
      (''GET /api/health'', PUBLIC),
      (''GET /api/metrics'', PUBLIC),
      (''GET /api/openapi.yaml'', PUBLIC),
      (''GET /api/csrf-token'', PUBLIC),
      (''POST /api/csp-report'', PUBLIC),
      (''GET /api/status/history'', PUBLIC),
      (''GET /api/rpc/health'', PUBLIC),
      (''GET /api/rpc-metrics'', PUBLIC),
      (''GET /api/rpc-nodes'', PUBLIC),
      (''POST /api/keys'', PUBLIC),
      (''GET /api/keys/verify'', PUBLIC),
      (''GET /api/keys/introspect'', PUBLIC),
      (''POST /api/billing/stripe-webhook'', PUBLIC),
      (''GET /api/events'', R_EVENTS),
      (''POST /api/events'', R_EVENTS),
      (''GET /api/v1/events'', R_EVENTS),
      (''GET /api/events/:seq'', R_EVENTS),
      (''GET /api/events/:seq/zk-costs'', R_EVENTS),
      (''GET /api/export/events'', R_EVENTS),
      (''GET /api/search'', R_EVENTS),
      (''GET /api/stats'', R_EVENTS),
      (''GET /api/stats/decoder'', R_EVENTS),
      (''GET /api/gaps'', R_EVENTS),
      (''GET /api/alerts'', R_EVENTS),
      (''GET /api/burn-alerts'', R_EVENTS),
      (''GET /api/cache/stats'', R_EVENTS),
      (''GET /api/wallet/:address'', R_EVENTS),
      (''GET /api/wallet/:address/balances'', R_EVENTS),
      (''GET /api/assets'', R_EVENTS),
      (''GET /api/assets/:issuer/:code'', R_EVENTS),
      (''GET /api/transactions/status'', R_EVENTS),
      (''GET /api/transactions/:hash/status'', R_EVENTS),
      (''GET /api/transactions/:hash/status/stream'', R_EVENTS),
      (''GET /api/tokens/:id/holders'', R_EVENTS),
      (''GET /api/tokens/:id/volume'', R_EVENTS),
      (''GET /api/tokens/:contractId/nfts'', R_EVENTS),
      (''GET /api/tokens/:contractId/nfts/analytics'', R_EVENTS),
      (''GET /api/tokens/:contractId/nfts/:tokenId/history'', R_EVENTS),
      (''GET /api/queries'', R_EVENTS),
      (''POST /api/queries'', R_EVENTS),
      (''GET /api/queries/:id/events'', R_EVENTS),
      (''DELETE /api/queries/:id'', R_EVENTS),
      (''GET /graphql'', R_EVENTS),
      (''POST /graphql'', R_EVENTS),
      (''GET /api/contracts'', R_CONTRACTS),
      (''GET /api/contracts/:id'', R_CONTRACTS),
      (''GET /api/contracts/:id/abi'', R_CONTRACTS),
      (''GET /api/contracts/:id/abi-history'', R_CONTRACTS),
      (''GET /api/contracts/:id/build-metadata'', R_CONTRACTS),
      (''GET /api/contracts/:id/call-graph'', R_CONTRACTS),
      (''GET /api/contracts/:id/circuit-breaker'', R_CONTRACTS),
      (''GET /api/contracts/:id/events'', R_CONTRACTS),
      (''GET /api/contracts/:id/migration-status'', R_CONTRACTS),
      (''GET /api/contracts/:id/rwa-metadata'', R_CONTRACTS),
      (''GET /api/contracts/:id/source-verifications'', R_CONTRACTS),
      (''GET /api/contracts/:id/spec-full'', R_CONTRACTS),
      (''GET /api/contracts/:id/state-diffs'', R_CONTRACTS),
      (''GET /api/contracts/:id/stats'', R_CONTRACTS),
      (''GET /api/contracts/:id/storage-tiers'', R_CONTRACTS),
      (''GET /api/contracts/:id/ttl'', R_CONTRACTS),
      (''GET /api/contracts/:id/upgrades'', R_CONTRACTS),
      (''GET /api/contracts/:id/wasm'', R_CONTRACTS),
      (''GET /api/v1/contracts/:id/transactions'', R_CONTRACTS),
      (''GET /api/export/contracts'', R_CONTRACTS),
      (''GET /api/spec/:id'', R_CONTRACTS),
      (''GET /api/spec/:id/full'', R_CONTRACTS),
      (''GET /api/sandboxes'', R_CONTRACTS),
      (''GET /api/sandbox/:id'', R_CONTRACTS),
      (''POST /api/simulate'', R_CONTRACTS),
      (''POST /api/sandbox/simulate'', R_CONTRACTS),
      (''POST /api/sandbox/ledger-entries'', R_CONTRACTS),
      (''POST /api/auth-tree'', R_CONTRACTS),
      (''POST /api/batch'', R_CONTRACTS),
      (''POST /api/batch/estimate-gas'', R_CONTRACTS),
      (''POST /api/batch/optimize'', R_CONTRACTS),
      (''POST /api/batch/simulate'', R_CONTRACTS),
      (''POST /api/batch/validate'', R_CONTRACTS),
      (''POST /api/contracts'', W_CONTRACTS),
      (''PATCH /api/contracts/:id'', W_CONTRACTS),
      (''POST /api/contracts/:id/source-verifications'', W_CONTRACTS),
      (''POST /api/verify'', W_CONTRACTS),
      (''POST /api/sandbox'', W_CONTRACTS),
      (''DELETE /api/sandbox/:id'', W_CONTRACTS),
      (''POST /api/collab/sessions'', W_CONTRACTS),
      (''POST /api/collab/sessions/:id/rotate'', PUBLIC),
      (''POST /api/collab/sessions/:id/kick'', PUBLIC),
      (''GET /api/webhooks'', W_WEBHOOKS),
      (''POST /api/webhooks'', W_WEBHOOKS),
      (''DELETE /api/webhooks/:id'', W_WEBHOOKS),
      (''POST /api/webhooks/:id/test'', W_WEBHOOKS),
      (''GET /api/webhooks/:id/deliveries'', W_WEBHOOKS),
      (''POST /api/webhooks/:id/deliveries/:delivery_id/retry'', W_WEBHOOKS),
      (''GET /api/dashboard/me'', R_USAGE),
      (''GET /api/dashboard/api-keys'', R_USAGE),
      (''GET /api/dashboard/api-keys/:id/usage'', R_USAGE),
      (''POST /api/dashboard/api-keys'', W_KEYS),
      (''POST /api/dashboard/api-keys/:id/rotate'', W_KEYS),
      (''DELETE /api/dashboard/api-keys/:id'', W_KEYS),
      (''PUT /api/dashboard/api-keys/:id/allowed-ips'', W_KEYS),
      (''GET /api/setup/doctor'', ADMIN),
      (''POST /api/setup/db-init'', ADMIN),
      (''POST /api/setup/save-config'', ADMIN),
      (''POST /api/setup/test-db'', ADMIN),
      (''GET /api/admin/integrity'', ADMIN),
      (''POST /api/admin/alerts/:condition/resolve'', ADMIN),
      (''GET /api/admin/api-keys'', ADMIN),
      (''POST /api/admin/api-keys'', ADMIN),
      (''PATCH /api/admin/api-keys/:id'', ADMIN),
      (''DELETE /api/admin/api-keys/:id'', ADMIN),
      (''POST /api/admin/api-keys/:id/rotate'', ADMIN),
      (''GET /api/admin/api-keys/:id/usage'', ADMIN),
      (''GET /api/admin/audit-log'', ADMIN),
      (''GET /api/admin/audit-log/export'', ADMIN),
      (''GET /api/admin/analytics/rate-limit-hits'', ADMIN),
      (''GET /api/admin/analytics/top-users'', ADMIN),
      (''GET /api/admin/analytics/violation-heatmap'', ADMIN),
      (''GET /api/admin/analytics/upgrade-recommendations'', ADMIN),
      (''POST /api/admin/abi/import-github'', ADMIN),
      (''POST /api/admin/dlq/:id/retry'', ADMIN)]"

definition CONTRACT_SCOPED_LISTS :: "string list" where
  "CONTRACT_SCOPED_LISTS = [''GET /api/events'', ''GET /api/v1/events'', ''GET /api/export/events'']"

subsection \<open>Compiled routes\<close>

record route =
  r_route :: string
  r_method :: string
  r_segs :: "string list"
  r_scopes :: "string list"
  r_literals :: nat

definition is_param :: "string \<Rightarrow> bool" where
  "is_param seg = prefix '':'' seg"

definition compile_route :: "string \<times> string list \<Rightarrow> route" where
  "compile_route entry =
     (case split_on CHR '' '' (fst entry) of
        verb # path # _ \<Rightarrow>
          (let segs = split_on CHR ''/'' path
           in \<lparr>r_route = fst entry, r_method = verb, r_segs = segs, r_scopes = snd entry,
               r_literals = length (filter (\<lambda>s. s \<noteq> [] \<and> \<not> is_param s) segs)\<rparr>)
      | _ \<Rightarrow> \<lparr>r_route = fst entry, r_method = fst entry, r_segs = [], r_scopes = snd entry, r_literals = 0\<rparr>)"

text \<open>Most literal segments first; the sort is stable.\<close>

definition compiled :: "route list" where
  "compiled = sort_key (\<lambda>r. - int (r_literals r)) (map compile_route ROUTE_SCOPES)"

text \<open>
  The regular expression of a route on the segments of a path: a literal segment is equal, a parameter is any
  non-empty segment, and one trailing slash is allowed. The result binds the parameters.
\<close>

fun match_segs :: "string list \<Rightarrow> string list \<Rightarrow> (string \<times> string) list option" where
  "match_segs [] segs = (if segs = [] \<or> segs = [[]] then Some [] else None)"
| "match_segs (p # ps) [] = None"
| "match_segs (p # ps) (s # ss) =
     (if is_param p then
        (if s \<noteq> [] then map_option ((#) (tl p, s)) (match_segs ps ss) else None)
      else if p = s then match_segs ps ss else None)"

definition route_match :: "string \<Rightarrow> string \<Rightarrow> route \<Rightarrow> (string \<times> string) list option" where
  "route_match verb path r = (if r_method r = verb then match_segs (r_segs r) (split_on CHR ''/'' path) else None)"

fun first_match :: "string \<Rightarrow> string \<Rightarrow> route list \<Rightarrow> (route \<times> (string \<times> string) list) option" where
  "first_match verb path [] = None"
| "first_match verb path (r # rs) =
     (case route_match verb path r of Some ps \<Rightarrow> Some (r, ps) | None \<Rightarrow> first_match verb path rs)"

definition matchRoute :: "string \<Rightarrow> string \<Rightarrow> (route \<times> (string \<times> string) list) option" where
  "matchRoute verb path = first_match verb path compiled"

definition hasScope :: "string list \<Rightarrow> string \<Rightarrow> bool" where
  "hasScope granted required = (''admin:*'' \<in> set granted \<or> required \<in> set granted)"

subsection \<open>The middleware\<close>

text \<open>What the key's authentication left on the request; \<open>None\<close> is null or undefined.\<close>

record key_context =
  k_keyId :: "string option"
  k_scopes :: "string list option"
  k_origins :: "string list option"
  k_contracts :: "string list option"

record request =
  q_method :: string
  q_path :: string
  q_origin :: "string option"
  q_query_contract :: "string option"
  q_body_id :: "string option"

datatype scope_verdict =
    Pass
  | Insufficient "string list" "string list"
  | Origin_denied string
  | Contract_denied string
  | Contract_required

definition scoped_prefix :: "string \<Rightarrow> bool" where
  "scoped_prefix path =
     list_ex (\<lambda>p. prefix p path)
       [''/api/contracts/'', ''/api/spec/'', ''/api/tokens/'',
        ''/api/v1/contracts/'', ''/api/v1/spec/'', ''/api/v1/tokens/'']"

definition contractIdFor :: "request \<Rightarrow> route \<Rightarrow> (string \<times> string) list \<Rightarrow> string option" where
  "contractIdFor req r params =
     (case map_of params ''contractId'' of
        Some c \<Rightarrow> Some c
      | None \<Rightarrow>
          (case (if scoped_prefix (q_path req) then map_of params ''id'' else None) of
             Some i \<Rightarrow> Some i
           | None \<Rightarrow>
               (case q_query_contract req of
                  Some c \<Rightarrow> Some c
                | None \<Rightarrow> if r_route r = ''POST /api/contracts'' then q_body_id req else None)))"

definition present :: "string option \<Rightarrow> bool" where
  "present v = (v \<noteq> None \<and> v \<noteq> Some [])"

definition list_or_empty :: "'a list option \<Rightarrow> 'a list" where
  "list_or_empty v = (case v of Some xs \<Rightarrow> xs | None \<Rightarrow> [])"

definition contract_verdict :: "string list \<Rightarrow> request \<Rightarrow> route \<Rightarrow> (string \<times> string) list \<Rightarrow> scope_verdict" where
  "contract_verdict contracts req r params =
     (let c = contractIdFor req r params
      in if present c \<and> the c \<notin> set contracts then Contract_denied (the c)
         else if \<not> present c \<and> r_route r \<in> set CONTRACT_SCOPED_LISTS then Contract_required
         else Pass)"

definition scopeMiddleware :: "key_context option \<Rightarrow> request \<Rightarrow> scope_verdict" where
  "scopeMiddleware ctx req =
     (case ctx of
        None \<Rightarrow> Pass
      | Some k \<Rightarrow>
          if \<not> present (k_keyId k) then Pass
          else (case matchRoute (q_method req) (q_path req) of
                  None \<Rightarrow> Pass
                | Some (r, params) \<Rightarrow>
                    (let granted = list_or_empty (k_scopes k);
                         missing = filter (\<lambda>s. \<not> hasScope granted s) (r_scopes r);
                         origins = list_or_empty (k_origins k);
                         contracts = list_or_empty (k_contracts k)
                     in if missing \<noteq> [] then Insufficient missing (r_scopes r)
                        else if origins \<noteq> [] \<and> present (q_origin req) \<and> the (q_origin req) \<notin> set origins
                        then Origin_denied (the (q_origin req))
                        else if contracts \<noteq> [] \<and> ''admin:*'' \<notin> set granted
                        then contract_verdict contracts req r params
                        else Pass)))"

subsection \<open>Start-up check and new keys\<close>

text \<open>A layer of the router: a route with its methods, a mounted router with its mount path, or another.\<close>

datatype layer_t = Route_layer string "string list" | Router_layer string "layer_t list" | Other_layer

definition strip_slash :: "string \<Rightarrow> string" where
  "strip_slash s = (if 2 \<le> length s \<and> last s = CHR ''/'' then butlast s else s)"

fun walk_layers :: "string \<Rightarrow> layer_t list \<Rightarrow> string list" and walk_layer :: "string \<Rightarrow> layer_t \<Rightarrow> string list" where
  "walk_layers pfx [] = []"
| "walk_layers pfx (l # ls) = walk_layer pfx l @ walk_layers pfx ls"
| "walk_layer pfx (Route_layer path methods) =
     map (\<lambda>m. upper m @ '' '' @ strip_slash (pfx @ path)) methods"
| "walk_layer pfx (Router_layer mount ls) =
     walk_layers (pfx @ (if mount \<noteq> [] \<and> mount \<noteq> ''/?(?=/|$)'' then mount else [])) ls"
| "walk_layer pfx Other_layer = []"

definition listRoutes :: "layer_t list \<Rightarrow> string list" where
  "listRoutes stack = uniq (walk_layers [] stack)"

text \<open>The undeclared routes with which the start-up check throws.\<close>

definition assertRoutesDeclareScopes :: "layer_t list \<Rightarrow> string list + unit" where
  "assertRoutesDeclareScopes stack =
     (let missing = filter (\<lambda>r. map_of ROUTE_SCOPES r = None) (listRoutes stack)
      in if missing \<noteq> [] then Inl missing else Inr ())"

datatype scope_error = Not_a_list | Unknown_scope string | Admin_not_allowed

fun check_scopes :: "bool \<Rightarrow> string list \<Rightarrow> scope_error option" where
  "check_scopes allowAdmin [] = None"
| "check_scopes allowAdmin (s # ss) =
     (if s \<notin> set SCOPES then Some (Unknown_scope s)
      else if s = ''admin:*'' \<and> \<not> allowAdmin then Some Admin_not_allowed
      else check_scopes allowAdmin ss)"

text \<open>The request is absent, an array, or neither (\<open>Some None\<close>).\<close>

definition normaliseScopes :: "string list option option \<Rightarrow> bool \<Rightarrow> scope_error + string list" where
  "normaliseScopes requested allowAdmin =
     (case requested of
        None \<Rightarrow> Inr DEFAULT_SCOPES
      | Some None \<Rightarrow> Inl Not_a_list
      | Some (Some ss) \<Rightarrow>
          if ss = [] then Inl Not_a_list
          else (case check_scopes allowAdmin ss of Some e \<Rightarrow> Inl e | None \<Rightarrow> Inr (uniq ss)))"


subsection \<open>The table\<close>

lemma set_compiled: "set compiled = compile_route ` set ROUTE_SCOPES"
  by (simp add: compiled_def)

lemma sorted_compiled: "sorted (map (\<lambda>r. - int (r_literals r)) compiled)"
  by (simp add: compiled_def)

text \<open>Facts read off every row: its verb, its first segment, and the scope of the admin paths.\<close>

definition verbs :: "string list" where
  "verbs = [''GET'', ''POST'', ''PATCH'', ''DELETE'', ''PUT'']"

definition roots :: "string list" where
  "roots = [''health'', ''metrics'', ''api'', ''graphql'']"

definition row_ok :: "string \<times> string list \<Rightarrow> bool" where
  "row_ok e =
     (let r = compile_route e
      in r_method r \<in> set verbs \<and>
         (case r_segs r of
            a # b # others \<Rightarrow> a = [] \<and> b \<in> set roots \<and>
              (case others of
                 c # _ \<Rightarrow> if b = ''api'' \<and> (c = ''admin'' \<or> is_param c) then r_scopes r = ADMIN else True
               | [] \<Rightarrow> True)
          | _ \<Rightarrow> False))"

lemma rows_ok: "list_all row_ok ROUTE_SCOPES"
  by code_simp

lemma compiled_row: "r \<in> set compiled \<Longrightarrow> \<exists>e. r = compile_route e \<and> row_ok e"
  using rows_ok by (auto simp: set_compiled list_all_iff)

lemma first_match_sound:
  "first_match verb path rs = Some (r, ps) \<Longrightarrow> r \<in> set rs \<and> route_match verb path r = Some ps"
  by (induction verb path rs rule: first_match.induct) (auto split: option.splits)

lemma first_match_None: "first_match verb path rs = None \<longleftrightarrow> (\<forall>r \<in> set rs. route_match verb path r = None)"
  by (induction verb path rs rule: first_match.induct) (auto split: option.splits)

lemma first_match_least:
  "first_match verb path rs = Some (r, ps) \<Longrightarrow> sorted (map f rs) \<Longrightarrow> r' \<in> set rs \<Longrightarrow>
     route_match verb path r' \<noteq> None \<Longrightarrow> (f r :: int) \<le> f r'"
proof (induction verb path rs rule: first_match.induct)
  case (2 verb path q rs)
  show ?case
  proof (cases "route_match verb path q")
    case None
    then show ?thesis using 2 by auto
  next
    case (Some qs)
    then show ?thesis using "2.prems" by auto
  qed
qed simp

lemma first_match_unique:
  assumes "r \<in> set rs" "route_match verb path r = Some ps"
    and "\<And>r'. r' \<in> set rs \<Longrightarrow> r' = r \<or> route_match verb path r' = None"
  shows "first_match verb path rs = Some (r, ps)"
  using assms
proof (induction rs)
  case (Cons q rs)
  show ?case
  proof (cases "route_match verb path q")
    case None
    then have "r \<in> set rs" using Cons.prems(1,2) by auto
    then show ?thesis using Cons None by simp
  next
    case (Some a)
    then have "q = r" using Cons.prems(3) [of q] by simp
    then show ?thesis using Cons.prems(2) by simp
  qed
qed simp

lemma matchRoute_unique:
  assumes "e \<in> set ROUTE_SCOPES" "route_match verb path (compile_route e) = Some ps"
    and "list_all (\<lambda>e'. e' = e \<or> route_match verb path (compile_route e') = None) ROUTE_SCOPES"
  shows "matchRoute verb path = Some (compile_route e, ps)"
  unfolding matchRoute_def
  by (rule first_match_unique) (use assms in \<open>auto simp: set_compiled list_all_iff\<close>)

text \<open>
  When several declared routes match a request, the scopes are those of one with the most literal
  segments, so a literal route is never shadowed by a parameter.
\<close>

lemma most_specific_route:
  assumes "matchRoute verb path = Some (r, params)" "r' \<in> set compiled" "route_match verb path r' = Some params'"
  shows "r_literals r' \<le> r_literals r \<and> route_match verb path r = Some params \<and> r_method r = verb"
proof -
  have "- int (r_literals r) \<le> - int (r_literals r')"
    using first_match_least [OF assms(1) [unfolded matchRoute_def] sorted_compiled assms(2)] assms(3) by simp
  moreover have "route_match verb path r = Some params"
    using first_match_sound [OF assms(1) [unfolded matchRoute_def]] by simp
  ultimately show ?thesis by (auto simp: route_match_def split: if_splits)
qed

lemma most_specific_route_witness:
  "r_literals (compile_route (''GET /api/spec/:id'', R_CONTRACTS)) \<le>
   r_literals (compile_route (''GET /api/spec/:id'', R_CONTRACTS))"
proof -
  let ?r = "compile_route (''GET /api/spec/:id'', R_CONTRACTS)"
  have i: "(''GET /api/spec/:id'', R_CONTRACTS) \<in> set ROUTE_SCOPES" by (simp add: ROUTE_SCOPES_def)
  have m: "matchRoute ''GET'' ''/api/spec/C1'' = Some (?r, [(''id'', ''C1'')])"
    by (rule matchRoute_unique [OF i]) code_simp+
  from i have "?r \<in> set compiled" by (simp add: set_compiled)
  then show ?thesis
    using most_specific_route [OF m _ first_match_sound [OF m [unfolded matchRoute_def], THEN conjunct2]] by blast
qed

subsection \<open>Admin paths\<close>

lemma split_admin: "prefix ''/api/admin/'' path \<Longrightarrow> \<exists>rest. split_on CHR ''/'' path = [] # ''api'' # ''admin'' # rest \<and> rest \<noteq> []"
  by (auto simp: prefix_def split: list.split)

lemma admin_row:
  assumes "row_ok e" "match_segs (r_segs (compile_route e)) ([] # ''api'' # ''admin'' # rest) = Some ps"
  shows "r_scopes (compile_route e) = ADMIN"
proof -
  let ?r = "compile_route e"
  obtain b others where segs: "r_segs ?r = [] # b # others" "b \<in> set roots"
    using assms(1) by (auto simp: row_ok_def Let_def split: list.splits)
  have np: "\<not> is_param []" "\<not> is_param b" using segs(2) by (auto simp: is_param_def roots_def)
  have b: "b = ''api''" and m: "match_segs others (''admin'' # rest) = Some ps"
    using assms(2) segs(1) np by (auto split: if_splits)
  obtain c cs where c: "others = c # cs" "c = ''admin'' \<or> is_param c"
    using m by (cases others) (auto split: if_splits)
  show ?thesis using assms(1) segs(1) b c by (auto simp: row_ok_def Let_def)
qed

text \<open>
  C17. Under an API key a declared route below \<open>/api/admin/\<close> passes only when the key holds the admin scope.
\<close>

theorem admin_paths_need_admin:
  assumes "present (k_keyId k)" "prefix ''/api/admin/'' (q_path req)"
    and "matchRoute (q_method req) (q_path req) = Some (r, params)"
    and "scopeMiddleware (Some k) req = Pass"
  shows "''admin:*'' \<in> set (list_or_empty (k_scopes k))"
proof -
  have m: "r \<in> set compiled" "route_match (q_method req) (q_path req) r = Some params"
    using first_match_sound assms(3) unfolding matchRoute_def by auto
  obtain e where e: "r = compile_route e" "row_ok e" using compiled_row [OF m(1)] by blast
  have "r_scopes r = ADMIN"
    using split_admin [OF assms(2)] m(2) e admin_row by (auto simp: route_match_def split: if_splits)
  then show ?thesis
    using assms by (auto simp: scopeMiddleware_def Let_def ADMIN_def hasScope_def split: if_splits)
qed

theorem admin_paths_need_admin_witness:
  "''admin:*'' \<in> set (list_or_empty (Some [''admin:*'']))"
proof -
  let ?k = "\<lparr>k_keyId = Some ''k1'', k_scopes = Some [''admin:*''], k_origins = None, k_contracts = None\<rparr>"
  let ?q = "\<lparr>q_method = ''GET'', q_path = ''/api/admin/audit-log'', q_origin = None, q_query_contract = None, q_body_id = None\<rparr>"
  have i: "(''GET /api/admin/audit-log'', ADMIN) \<in> set ROUTE_SCOPES" by (simp add: ROUTE_SCOPES_def)
  have m: "matchRoute (q_method ?q) (q_path ?q) = Some (compile_route (''GET /api/admin/audit-log'', ADMIN), [])"
    by (rule matchRoute_unique [OF i]) code_simp+
  have "scopeMiddleware (Some ?k) ?q = Pass"
    using m by (simp add: scopeMiddleware_def present_def list_or_empty_def Let_def hasScope_def)
  from admin_paths_need_admin [OF _ _ m this] show ?thesis by (simp add: present_def)
qed

subsection \<open>Requests that are served unchecked\<close>

lemma split_root: "CHR ''/'' \<notin> set s \<Longrightarrow> rest = [] \<or> prefix ''/'' rest \<Longrightarrow>
    \<exists>others. split_on CHR ''/'' (''/'' @ s @ rest) = [] # s # others"
  by (auto simp: prefix_def split_on_append)

text \<open>
  The matching is by exact text, but Express 4 routes paths without regard to case and answers HEAD with
  the GET handler: a request with the method HEAD, or whose first path segment is not written in the table's
  letters (such as API for api), passes whatever the scopes of its key are.
\<close>

lemma unmatched_spelling_passes:
  assumes "q_method req \<notin> set verbs \<or>
     q_path req = ''/'' @ s @ rest \<and> CHR ''/'' \<notin> set s \<and> s \<notin> set roots \<and> (rest = [] \<or> prefix ''/'' rest)"
  shows "scopeMiddleware ctx req = Pass"
proof -
  have "route_match (q_method req) (q_path req) r = None" if r: "r \<in> set compiled" for r
  proof -
    obtain e where e: "r = compile_route e" "row_ok e" using compiled_row [OF r] by blast
    then obtain b others where segs: "r_segs r = [] # b # others" "b \<in> set roots" "r_method r \<in> set verbs"
      by (auto simp: row_ok_def Let_def split: list.splits)
    have np: "\<not> is_param []" "\<not> is_param b" using segs(2) by (auto simp: is_param_def roots_def)
    from assms show ?thesis
    proof
      assume "q_method req \<notin> set verbs"
      then show ?thesis using segs(3) by (auto simp: route_match_def)
    next
      assume "q_path req = ''/'' @ s @ rest \<and> CHR ''/'' \<notin> set s \<and> s \<notin> set roots \<and> (rest = [] \<or> prefix ''/'' rest)"
      then obtain others' where "split_on CHR ''/'' (q_path req) = [] # s # others'" "s \<noteq> b"
        using split_root [of s rest] segs(2) by auto
      then show ?thesis using segs(1) np by (auto simp: route_match_def)
    qed
  qed
  then have "matchRoute (q_method req) (q_path req) = None"
    unfolding matchRoute_def first_match_None by blast
  then show ?thesis by (simp add: scopeMiddleware_def split: option.split)
qed

lemma unmatched_spelling_passes_witness:
  "scopeMiddleware (Some \<lparr>k_keyId = Some ''k'', k_scopes = Some [], k_origins = None, k_contracts = None\<rparr>)
     \<lparr>q_method = ''POST'', q_path = ''/API/admin/dlq/1/retry'', q_origin = None, q_query_contract = None, q_body_id = None\<rparr> = Pass"
  by (rule unmatched_spelling_passes [of _ "''API''" "''/admin/dlq/1/retry''"]) (simp add: roots_def)

text \<open>
  The contract restriction of a key on contract registration can be side-stepped: when the query names an
  allowed contract, the contract in the body, which is the one registered, is not looked at.
\<close>

lemma query_hides_body_contract:
  assumes "''write:contracts'' \<in> set granted" "c \<in> set contracts" "c \<noteq> []"
  shows "scopeMiddleware
     (Some \<lparr>k_keyId = Some key, k_scopes = Some granted, k_origins = None, k_contracts = Some contracts\<rparr>)
     \<lparr>q_method = ''POST'', q_path = ''/api/contracts'', q_origin = origin, q_query_contract = Some c, q_body_id = body\<rparr> = Pass"
proof -
  have "(''POST /api/contracts'', W_CONTRACTS) \<in> set ROUTE_SCOPES" by (simp add: ROUTE_SCOPES_def)
  then have "matchRoute ''POST'' ''/api/contracts'' = Some (compile_route (''POST /api/contracts'', W_CONTRACTS), [])"
    by (rule matchRoute_unique) code_simp+
  moreover have "r_scopes (compile_route (''POST /api/contracts'', W_CONTRACTS)) = [''write:contracts'']"
    "r_route (compile_route (''POST /api/contracts'', W_CONTRACTS)) = ''POST /api/contracts''" by code_simp+
  ultimately show ?thesis
    using assms
    by (auto simp: scopeMiddleware_def list_or_empty_def Let_def hasScope_def contract_verdict_def contractIdFor_def
        scoped_prefix_def present_def CONTRACT_SCOPED_LISTS_def)
qed

lemma query_hides_body_contract_witness:
  "scopeMiddleware
     (Some \<lparr>k_keyId = Some ''k'', k_scopes = Some [''write:contracts''], k_origins = None, k_contracts = Some [''CMINE'']\<rparr>)
     \<lparr>q_method = ''POST'', q_path = ''/api/contracts'', q_origin = None, q_query_contract = Some ''CMINE'',
      q_body_id = Some ''COTHER''\<rparr> = Pass"
  by (rule query_hides_body_contract) simp_all

subsection \<open>Scopes of new keys\<close>

lemma check_scopes_None:
  "check_scopes allowAdmin ss = None \<longleftrightarrow> set ss \<subseteq> set SCOPES \<and> (''admin:*'' \<in> set ss \<longrightarrow> allowAdmin)"
  by (induction allowAdmin ss rule: check_scopes.induct) auto

text \<open>
  A new key gets the default scopes, or exactly the requested ones without repetition: known scopes
  only, at least one, and the admin scope only where it may be granted.
\<close>

lemma normalised_scopes_sound:
  assumes "normaliseScopes requested allowAdmin = Inr granted"
  shows "set granted \<subseteq> set SCOPES \<and> distinct granted \<and> granted \<noteq> [] \<and>
         (''admin:*'' \<in> set granted \<longrightarrow> allowAdmin) \<and>
         (case requested of Some (Some ss) \<Rightarrow> set granted = set ss | _ \<Rightarrow> granted = DEFAULT_SCOPES)"
proof (cases requested)
  case None
  then show ?thesis using assms by (auto simp: normaliseScopes_def DEFAULT_SCOPES_def SCOPES_def)
next
  case (Some r)
  then obtain ss where ss: "r = Some ss" "ss \<noteq> []" "check_scopes allowAdmin ss = None" "granted = uniq ss"
    using assms by (auto simp: normaliseScopes_def split: option.splits if_splits)
  then have "granted \<noteq> []" by (metis set_empty set_uniq)
  then show ?thesis using ss Some check_scopes_None by auto
qed

lemma normalised_scopes_sound_witness: "set [''read:usage''] \<subseteq> set SCOPES \<and> distinct [''read:usage'']"
  using normalised_scopes_sound [of "Some (Some [''read:usage'', ''read:usage''])" False "[''read:usage'']"]
  by (simp add: normaliseScopes_def SCOPES_def uniq_def)

end
