(* ===== verification/Alerts.thy ===== *)
theory Alerts
  imports Json
begin

text \<open>
  alertManager.js: the map of active alerts, the notifications a first firing sends, and the condition
  checkers. A condition is \<open>None\<close> where the code uses a constant that does not exist. Time is in
  milliseconds. (As committed, the object literal of \<open>ALERT_CONDITIONS\<close> lacks the closing parenthesis of
  \<open>Object.freeze(\<close>; the model reads it as closed.)
\<close>

subsection \<open>Conditions\<close>

definition ALERT_CONDITIONS :: "string list" where
  "ALERT_CONDITIONS =
     [''INDEXER_DOWN'', ''RUNTIME_CONFIG_REVERTED'', ''LEDGER_GAP'', ''DB_FAILURE'', ''RESOURCE_CONSTRAINT'',
      ''ALL_RPC_DOWN'', ''LOW_THROUGHPUT'', ''DLQ_THRESHOLD'', ''DLQ_QUARANTINE'', ''DLQ_STALE'',
      ''REORG_DETECTED'', ''DECODE_RATE_LOW'', ''AUDIT_PARTITION_FAILURE'', ''PROTOCOL_UNSUPPORTED'',
      ''RPC_PROVIDER_DISAGREEMENT'']"

definition SEVERITY :: "(string \<times> string) list" where
  "SEVERITY =
     [(''INDEXER_DOWN'', ''critical''), (''LEDGER_GAP'', ''warning''), (''DB_FAILURE'', ''critical''),
      (''RESOURCE_CONSTRAINT'', ''warning''), (''ALL_RPC_DOWN'', ''critical''), (''LOW_THROUGHPUT'', ''warning''),
      (''DLQ_THRESHOLD'', ''warning''), (''DLQ_QUARANTINE'', ''warning''), (''DLQ_STALE'', ''warning''),
      (''REORG_DETECTED'', ''critical''), (''DECODE_RATE_LOW'', ''warning''),
      (''AUDIT_PARTITION_FAILURE'', ''critical''), (''PROTOCOL_UNSUPPORTED'', ''critical''),
      (''RPC_PROVIDER_DISAGREEMENT'', ''critical'')]"

text \<open>\<open>ALERT_CONDITIONS.name\<close>: undefined for a name that is not declared.\<close>

definition condition_named :: "string \<Rightarrow> string option" where
  "condition_named name = (if name \<in> set ALERT_CONDITIONS then Some name else None)"

definition severity_of :: "string option \<Rightarrow> string" where
  "severity_of condition =
     (case Option.bind condition (map_of SEVERITY) of Some s \<Rightarrow> s | None \<Rightarrow> ''warning'')"

subsection \<open>State and notifications\<close>

datatype detail =
    No_poll nat
  | Gap int int nat
  | Db_unreachable
  | Heap rat nat
  | Rpc_unreachable
  | Slow rat rat
  | Dlq_size nat nat
  | Dlq_group string nat
  | Dlq_old nat
  | Reorg_at int
  | Decode_rate rat rat
  | Pipeline_behind rat

datatype notification =
    Slack string "string option" detail
  | PagerDuty "string option" string detail

record channels =
  SLACK_WEBHOOK_URL :: string
  PAGERDUTY_ROUTING_KEY :: string

record alerts =
  active :: "(string option \<times> nat) list"
  lastPollAt :: nat
  sent :: "notification list"

definition sendSlack :: "channels \<Rightarrow> string option \<Rightarrow> detail \<Rightarrow> notification list" where
  "sendSlack ch condition msg =
     (if SLACK_WEBHOOK_URL ch = [] then []
      else [Slack (if severity_of condition = ''critical'' then '':red_circle:'' else '':warning:'') condition msg])"

text \<open>The dedup key is the condition; the second component is the severity.\<close>

definition sendPagerDuty :: "channels \<Rightarrow> string option \<Rightarrow> detail \<Rightarrow> notification list" where
  "sendPagerDuty ch condition msg =
     (if PAGERDUTY_ROUTING_KEY ch = [] then [] else [PagerDuty condition (severity_of condition) msg])"

definition is_active :: "string option \<Rightarrow> alerts \<Rightarrow> bool" where
  "is_active condition s = (map_of (active s) condition \<noteq> None)"

definition fireAlert :: "channels \<Rightarrow> nat \<Rightarrow> string option \<Rightarrow> detail \<Rightarrow> alerts \<Rightarrow> alerts" where
  "fireAlert ch now condition msg s =
     (if is_active condition s then s
      else s\<lparr>active := active s @ [(condition, now)],
             sent := sent s @ sendSlack ch condition msg @ sendPagerDuty ch condition msg\<rparr>)"

definition resolveAlert :: "string option \<Rightarrow> alerts \<Rightarrow> alerts" where
  "resolveAlert condition s =
     (if is_active condition s then s\<lparr>active := filter (\<lambda>(c, _). c \<noteq> condition) (active s)\<rparr> else s)"

definition getActiveAlerts :: "nat \<Rightarrow> alerts \<Rightarrow> (string option \<times> nat \<times> nat) list" where
  "getActiveAlerts now s = map (\<lambda>(c, firedAt). (c, firedAt, now - firedAt)) (active s)"

subsection \<open>Checkers\<close>

record thresholds =
  GAP_THRESHOLD :: nat
  DLQ_MAX_SIZE :: nat
  MIN_THROUGHPUT :: rat
  MAX_HEAP_MB :: nat
  INDEXER_STALL_MS :: nat
  MIN_DECODE_RATE :: rat

definition recordPoll :: "nat \<Rightarrow> alerts \<Rightarrow> alerts" where
  "recordPoll now s = resolveAlert (condition_named ''INDEXER_DOWN'') (s\<lparr>lastPollAt := now\<rparr>)"

definition checkIndexerDown :: "channels \<Rightarrow> thresholds \<Rightarrow> nat \<Rightarrow> alerts \<Rightarrow> alerts" where
  "checkIndexerDown ch t now s =
     (if lastPollAt s + INDEXER_STALL_MS t < now
      then fireAlert ch now (condition_named ''INDEXER_DOWN'') (No_poll (INDEXER_STALL_MS t)) s else s)"

text \<open>The threshold that applies is the runtime override when there is one.\<close>

definition checkLedgerGap :: "channels \<Rightarrow> thresholds \<Rightarrow> nat option \<Rightarrow> nat \<Rightarrow> int \<Rightarrow> int \<Rightarrow> alerts \<Rightarrow> alerts" where
  "checkLedgerGap ch t override now gapSize fromLedger s =
     (if int (case override of Some g \<Rightarrow> g | None \<Rightarrow> GAP_THRESHOLD t) < gapSize
      then fireAlert ch now (condition_named ''LEDGER_GAP'') (Gap gapSize fromLedger (GAP_THRESHOLD t)) s
      else resolveAlert (condition_named ''LEDGER_GAP'') s)"

definition checkDbHealth :: "channels \<Rightarrow> nat \<Rightarrow> bool \<Rightarrow> alerts \<Rightarrow> alerts" where
  "checkDbHealth ch now healthy s =
     (if \<not> healthy then fireAlert ch now (condition_named ''DB_FAILURE'') Db_unreachable s
      else resolveAlert (condition_named ''DB_FAILURE'') s)"

definition checkResourceConstraints :: "channels \<Rightarrow> thresholds \<Rightarrow> nat \<Rightarrow> nat \<Rightarrow> alerts \<Rightarrow> alerts" where
  "checkResourceConstraints ch t now heapUsed s =
     (let heapMb = of_nat heapUsed / 1024 / 1024
      in if of_nat (MAX_HEAP_MB t) < heapMb
         then fireAlert ch now (condition_named ''RESOURCE_CONSTRAINT'') (Heap heapMb (MAX_HEAP_MB t)) s
         else resolveAlert (condition_named ''RESOURCE_CONSTRAINT'') s)"

definition checkRpcHealth :: "channels \<Rightarrow> nat \<Rightarrow> bool \<Rightarrow> alerts \<Rightarrow> alerts" where
  "checkRpcHealth ch now anyHealthy s =
     (if \<not> anyHealthy then fireAlert ch now (condition_named ''ALL_RPC_DOWN'') Rpc_unreachable s
      else resolveAlert (condition_named ''ALL_RPC_DOWN'') s)"

definition checkThroughput :: "channels \<Rightarrow> thresholds \<Rightarrow> nat \<Rightarrow> rat \<Rightarrow> alerts \<Rightarrow> alerts" where
  "checkThroughput ch t now eventsPerMin s =
     (if eventsPerMin < MIN_THROUGHPUT t
      then fireAlert ch now (condition_named ''LOW_THROUGHPUT'') (Slow eventsPerMin (MIN_THROUGHPUT t)) s
      else resolveAlert (condition_named ''LOW_THROUGHPUT'') s)"

definition checkDlqSize :: "channels \<Rightarrow> thresholds \<Rightarrow> nat \<Rightarrow> nat \<Rightarrow> alerts \<Rightarrow> alerts" where
  "checkDlqSize ch t now n s =
     (if DLQ_MAX_SIZE t < n
      then fireAlert ch now (condition_named ''DLQ_THRESHOLD'') (Dlq_size n (DLQ_MAX_SIZE t)) s
      else resolveAlert (condition_named ''DLQ_THRESHOLD'') s)"

definition alertReorg :: "channels \<Rightarrow> nat \<Rightarrow> int \<Rightarrow> alerts \<Rightarrow> alerts" where
  "alertReorg ch now ledger s = fireAlert ch now (condition_named ''REORG_DETECTED'') (Reorg_at ledger) s"

definition checkDecodeRate :: "channels \<Rightarrow> thresholds \<Rightarrow> nat \<Rightarrow> rat \<Rightarrow> alerts \<Rightarrow> alerts" where
  "checkDecodeRate ch t now successRate s =
     (if successRate < MIN_DECODE_RATE t
      then fireAlert ch now (condition_named ''DECODE_RATE_LOW'') (Decode_rate successRate (MIN_DECODE_RATE t)) s
      else resolveAlert (condition_named ''DECODE_RATE_LOW'') s)"

definition checkAlertingPipelineLag :: "channels \<Rightarrow> nat \<Rightarrow> rat \<Rightarrow> alerts \<Rightarrow> alerts" where
  "checkAlertingPipelineLag ch now lagSeconds s =
     (if 300 < lagSeconds
      then fireAlert ch now (condition_named ''ALERTING_PIPELINE_LAG'') (Pipeline_behind lagSeconds) s
      else resolveAlert (condition_named ''ALERTING_PIPELINE_LAG'') s)"

subsection \<open>The interface of the alert sink\<close>

locale alert_sink =
  fixes fire :: "'c \<Rightarrow> 'm \<Rightarrow> 's \<Rightarrow> 's"
    and resolve :: "'c \<Rightarrow> 's \<Rightarrow> 's"
    and firing :: "'c \<Rightarrow> 's \<Rightarrow> bool"
    and notices :: "'c \<Rightarrow> 's \<Rightarrow> nat"
  assumes firing_fire: "firing c (fire d m s) = (c = d \<or> firing c s)"
    and firing_resolve: "firing c (resolve d s) = (c \<noteq> d \<and> firing c s)"
    and notices_fire: "notices c (fire d m s) \<le> notices c s + (if c = d \<and> \<not> firing c s then 1 else 0)"
    and notices_resolve: "notices c (resolve d s) = notices c s"
begin

text \<open>A client that fires when its condition holds and resolves when not keeps the alert in step with it.\<close>

definition track :: "'c \<Rightarrow> 'm \<Rightarrow> bool \<Rightarrow> 's \<Rightarrow> 's" where
  "track c m holds s = (if holds then fire c m s else resolve c s)"

lemma track_firing: "firing d (track c m holds s) = (if d = c then holds else firing d s)"
  by (auto simp: track_def firing_fire firing_resolve)

text \<open>Between two notices of a condition there is a moment at which it was found not to hold.\<close>

lemma track_notices:
  "notices c (fold (\<lambda>(d, m, holds). track d m holds) ops s) + (if firing c s then 1 else 0) \<le>
     notices c s + length (filter (\<lambda>(d, m, holds). d = c \<and> \<not> holds) ops) + 1"
proof (induction ops arbitrary: s)
  case (Cons op ops)
  obtain d m holds where op: "op = (d, m, holds)" by (cases op)
  have step: "notices c (track d m holds s) + (if firing c s then 1 else 0) \<le>
      notices c s + (if firing c (track d m holds s) then 1 else 0) + (if d = c \<and> \<not> holds then 1 else 0)"
    using notices_fire [of c d m s] notices_resolve [of c d s]
    by (auto simp: track_def firing_fire firing_resolve)
  show ?case using Cons.IH [of "track d m holds s"] step op by auto
qed auto

end

definition notices_of :: "string option \<Rightarrow> alerts \<Rightarrow> nat" where
  "notices_of c s = length (filter (\<lambda>n. case n of PagerDuty d _ _ \<Rightarrow> d = c | Slack _ d _ \<Rightarrow> False) (sent s))"

lemma is_active_fire: "is_active c (fireAlert ch now d m s) = (c = d \<or> is_active c s)"
  by (auto simp: fireAlert_def is_active_def map_add_def split: option.splits)

lemma is_active_resolve: "is_active c (resolveAlert d s) = (c \<noteq> d \<and> is_active c s)"
proof -
  have "map_of (filter (\<lambda>(k, _). k \<noteq> d) m) c = (if c = d then None else map_of m c)" for m :: "(string option \<times> nat) list"
    by (induction m) auto
  then show ?thesis by (auto simp: resolveAlert_def is_active_def)
qed

interpretation sink: alert_sink "\<lambda>c (now, m). fireAlert ch now c m" resolveAlert is_active notices_of for ch
proof (unfold_locales, goal_cases)
  case (1 c d m s)
  then show ?case by (simp add: is_active_fire split: prod.split)
next
  case (2 c d s)
  then show ?case by (rule is_active_resolve)
next
  case (3 c d m s)
  then show ?case
    by (auto simp: fireAlert_def notices_of_def sendSlack_def sendPagerDuty_def split: prod.split)
next
  case (4 c d s)
  then show ?case by (simp add: resolveAlert_def notices_of_def)
qed

subsection \<open>Notifications\<close>

text \<open>A run of firings (with their time and detail) and resolutions.\<close>

datatype alert_op = Fire nat "string option" detail | Resolve "string option"

fun alert_exec :: "channels \<Rightarrow> alert_op \<Rightarrow> alerts \<Rightarrow> alerts" where
  "alert_exec ch (Fire now c m) s = fireAlert ch now c m s"
| "alert_exec ch (Resolve c) s = resolveAlert c s"

fun op_check :: "alert_op \<Rightarrow> string option \<times> (nat \<times> detail) \<times> bool" where
  "op_check (Fire now c m) = (c, (now, m), True)"
| "op_check (Resolve c) = (c, (0, Db_unreachable), False)"

lemma alert_exec_track: "alert_exec ch op s = (case op_check op of (c, m, holds) \<Rightarrow> sink.track ch c m holds s)"
  by (cases op) (auto simp: sink.track_def)

lemma fold_exec_track:
  "fold (alert_exec ch) ops s = fold (\<lambda>(c, m, holds). sink.track ch c m holds) (map op_check ops) s"
  by (induction ops arbitrary: s) (auto simp: alert_exec_track split: prod.split)

text \<open>
  A condition pages once per episode: over any run of firings and resolutions of all conditions, the
  pages sent for a condition exceed its resolutions by at most one, and not at all when it was active before.
\<close>

lemma one_page_per_episode:
  "notices_of c (fold (alert_exec ch) ops s) + (if is_active c s then 1 else 0) \<le>
     notices_of c s + length (filter (\<lambda>op. op = Resolve c) ops) + 1"
proof -
  have "length (filter (\<lambda>(d, m, holds). d = c \<and> \<not> holds) (map op_check ops)) = length (filter (\<lambda>op. op = Resolve c) ops)"
  proof (induction ops)
    case (Cons op ops)
    then show ?case by (cases op) auto
  qed simp
  then show ?thesis using sink.track_notices [of c ch "map op_check ops" s] by (simp add: fold_exec_track)
qed

lemma named [simp]: "name \<in> set ALERT_CONDITIONS \<Longrightarrow> condition_named name = Some name"
  by (simp add: condition_named_def)

text \<open>
  Each checker leaves its alert active exactly when its condition holds now, and no other alert changed.
\<close>

lemma checkers_track_conditions:
  "is_active c (checkLedgerGap ch t ovr now gap from_ledger s) =
     (if c = Some ''LEDGER_GAP'' then int (case ovr of Some g \<Rightarrow> g | None \<Rightarrow> GAP_THRESHOLD t) < gap else is_active c s) \<and>
   is_active c (checkDbHealth ch now healthy s) = (if c = Some ''DB_FAILURE'' then \<not> healthy else is_active c s) \<and>
   is_active c (checkResourceConstraints ch t now heap s) =
     (if c = Some ''RESOURCE_CONSTRAINT'' then of_nat (MAX_HEAP_MB t) < (of_nat heap / 1024 / 1024 :: rat) else is_active c s) \<and>
   is_active c (checkRpcHealth ch now anyh s) = (if c = Some ''ALL_RPC_DOWN'' then \<not> anyh else is_active c s) \<and>
   is_active c (checkThroughput ch t now epm s) = (if c = Some ''LOW_THROUGHPUT'' then epm < MIN_THROUGHPUT t else is_active c s) \<and>
   is_active c (checkDlqSize ch t now n s) = (if c = Some ''DLQ_THRESHOLD'' then DLQ_MAX_SIZE t < n else is_active c s) \<and>
   is_active c (checkDecodeRate ch t now rate s) = (if c = Some ''DECODE_RATE_LOW'' then rate < MIN_DECODE_RATE t else is_active c s)"
  by (intro conjI; simp add: ALERT_CONDITIONS_def checkLedgerGap_def checkDbHealth_def checkResourceConstraints_def
      checkRpcHealth_def checkThroughput_def checkDlqSize_def checkDecodeRate_def Let_def is_active_fire is_active_resolve)

text \<open>
  The pipeline-lag check uses a constant that is not declared: its alert is kept under undefined, so it is
  no declared condition's, it pages without a deduplication key, and its severity is never critical.
\<close>

lemma pipeline_lag_unnamed:
  assumes "300 < lag" "\<not> is_active None s" "PAGERDUTY_ROUTING_KEY ch \<noteq> []"
  shows "is_active None (checkAlertingPipelineLag ch now lag s) \<and>
         PagerDuty None ''warning'' (Pipeline_behind lag) \<in> set (sent (checkAlertingPipelineLag ch now lag s)) \<and>
         list_all (\<lambda>name. is_active (Some name) (checkAlertingPipelineLag ch now lag s) = is_active (Some name) s)
           ALERT_CONDITIONS"
proof -
  have n: "condition_named ''ALERTING_PIPELINE_LAG'' = None"
    by (simp add: condition_named_def ALERT_CONDITIONS_def)
  have "is_active d (checkAlertingPipelineLag ch now lag s) = (d = None \<or> is_active d s)" for d
    using assms(1) n by (simp add: checkAlertingPipelineLag_def is_active_fire)
  moreover have "PagerDuty None ''warning'' (Pipeline_behind lag) \<in> set (sent (checkAlertingPipelineLag ch now lag s))"
    using assms n by (simp add: checkAlertingPipelineLag_def fireAlert_def sendPagerDuty_def severity_of_def)
  ultimately show ?thesis by (simp add: list_all_iff)
qed

lemma pipeline_lag_unnamed_witness:
  "is_active None (checkAlertingPipelineLag \<lparr>SLACK_WEBHOOK_URL = [], PAGERDUTY_ROUTING_KEY = ''k''\<rparr> 5 301
     \<lparr>active = [], lastPollAt = 0, sent = []\<rparr>)"
  using pipeline_lag_unnamed [of 301 "\<lparr>active = [], lastPollAt = 0, sent = []\<rparr>"
      "\<lparr>SLACK_WEBHOOK_URL = [], PAGERDUTY_ROUTING_KEY = ''k''\<rparr>" 5]
  by (simp add: is_active_def)

end
