(* ===== verification/Runs.thy ===== *)
theory Runs
  imports Main
begin

section \<open>Tables and runs\<close>

subsection \<open>Tables\<close>

text \<open>\<open>UPDATE ... WHERE\<close> on a table, the list of its rows, and the first row a query finds.\<close>

definition update_where :: "('r \<Rightarrow> bool) \<Rightarrow> ('r \<Rightarrow> 'r) \<Rightarrow> 'r list \<Rightarrow> 'r list" where
  "update_where P g rows = map (\<lambda>r. if P r then g r else r) rows"

lemma update_where_simps [simp]:
  "update_where P g [] = []"
  "update_where P g (r # rows) = (if P r then g r else r) # update_where P g rows"
  by (simp_all add: update_where_def)

lemma map_update_where [simp]: "(\<And>r. f (g r) = f r) \<Longrightarrow> map f (update_where P g rows) = map f rows"
  by (induction rows) auto

lemma image_update_where [simp]: "(\<And>r. f (g r) = f r) \<Longrightarrow> f ` set (update_where P g rows) = f ` set rows"
  by (metis list.set_map map_update_where)

lemma length_update_where [simp]: "length (update_where P g rows) = length rows"
  by (simp add: update_where_def)

lemma update_where_empty [simp]: "update_where P g rows = [] \<longleftrightarrow> rows = []"
  by (cases rows) auto

lemma update_where_none: "(\<And>r. r \<in> set rows \<Longrightarrow> \<not> P r) \<Longrightarrow> update_where P g rows = rows"
  by (induction rows) auto

lemma filter_update_where: "(\<And>r. Q (g r) = Q r) \<Longrightarrow> filter Q (update_where P g rows) = update_where P g (filter Q rows)"
  by (induction rows) auto

lemma update_where_bex: "\<exists>r \<in> set rows. Q r \<Longrightarrow> (\<And>r. Q r \<Longrightarrow> Q (g r)) \<Longrightarrow> \<exists>r \<in> set (update_where P g rows). Q r"
  by (induction rows) auto

lemma update_where_other: "(\<And>y. P y \<Longrightarrow> P (g y)) \<Longrightarrow> \<not> P x \<Longrightarrow> x \<in> set (update_where P g rows) \<longleftrightarrow> x \<in> set rows"
  by (induction rows) auto

lemma find_SomeD: "find P xs = Some x \<Longrightarrow> x \<in> set xs \<and> P x"
  by (auto simp: find_Some_iff)

subsection \<open>Runs of a component\<close>

text \<open>
  A component whose operations are requests (the request carries the time and the fresh values the operation draws) is a step function on its
  state. What every step keeps, every run keeps; what every step keeps between two states, a run keeps between its ends.
\<close>

locale guarded_runs =
  fixes act :: "'a \<Rightarrow> 's \<Rightarrow> 's"
    and allowed :: "'a \<Rightarrow> bool"
    and inv :: "'s \<Rightarrow> bool"
  assumes act_inv: "allowed a \<Longrightarrow> inv s \<Longrightarrow> inv (act a s)"
begin

lemma run_inv: "list_all allowed as \<Longrightarrow> inv s \<Longrightarrow> inv (fold act as s)"
  by (induction as arbitrary: s) (auto simp: act_inv)

lemma run_related:
  assumes "list_all allowed as" "inv s" "\<And>s. R s s" "\<And>s t u. R s t \<Longrightarrow> R t u \<Longrightarrow> R s u"
    "\<And>a s. allowed a \<Longrightarrow> inv s \<Longrightarrow> R s (act a s)"
  shows "R s (fold act as s)"
  using assms(1,2)
proof (induction as arbitrary: s)
  case (Cons a as)
  then have "R s (act a s)" "R (act a s) (fold act as (act a s))" using assms(5) act_inv by auto
  then show ?case using assms(4) by simp
qed (simp add: assms(3))

end

end
