(* ===== verification/Dead_Letters.thy ===== *)
theory Dead_Letters
  imports Alerts Runs
begin

text \<open>
  deadLetterQueue.js: classification of errors, backoff, and the operations on the dead-letter table as the
  SQL statements describe them. The table is the list of its rows; RETURNING gives the rows in table
  order. A tick of the processor, a manual replay and a refresh of the health are jobs: each waits for a handler or a statement, and when that has
  ended the job takes its next step; the other operations and the other jobs come in between. A statement may fail, and then has no effect. The SHA-256
  digest, the outcomes of handlers and statements and the configuration are inputs; time is in milliseconds.
\<close>

subsection \<open>Classification\<close>

record js_error =
  e_name :: "string option"
  e_constructor :: "string option"
  e_message :: string
  e_stack :: string
  e_code :: "string option"

text \<open>Whether a text starts with the words, with any white space between them.\<close>

fun spaced_prefix :: "string list \<Rightarrow> string \<Rightarrow> bool" where
  "spaced_prefix [] s = True"
| "spaced_prefix [w] s = prefix w s"
| "spaced_prefix (w # v # ws) s = (prefix w s \<and> spaced_prefix (v # ws) (dropWhile js_space (drop (length w) s)))"

fun anywhere :: "(string \<Rightarrow> bool) \<Rightarrow> string \<Rightarrow> bool" where
  "anywhere P [] = P []"
| "anywhere P (c # s) = (P (c # s) \<or> anywhere P s)"

definition isTransientError :: "string \<Rightarrow> bool" where
  "isTransientError errorMessage =
     anywhere (\<lambda>s. list_ex (\<lambda>ws. spaced_prefix ws s)
        [[''timeout''], [''rate'', ''limit''], [''too'', ''many'', ''requests''], [''econnreset''], [''etimedout''],
         [''network'']]) (lower errorMessage)"

text \<open>\<open>replace(/\d+/g, "#")\<close>.\<close>

fun mask_digits :: "bool \<Rightarrow> string \<Rightarrow> string" where
  "mask_digits inside [] = []"
| "mask_digits inside (c # s) =
     (if is_digit c then (if inside then mask_digits True s else CHR ''#'' # mask_digits True s)
      else c # mask_digits False s)"

definition error_class_of :: "js_error \<Rightarrow> string" where
  "error_class_of err =
     (case e_name err of
        Some n \<Rightarrow>
          if n \<noteq> [] \<and> n \<noteq> ''Error'' then n
          else (case e_constructor err of Some k \<Rightarrow> if k \<noteq> [] then k else ''Error'' | None \<Rightarrow> ''Error'')
      | None \<Rightarrow> (case e_constructor err of Some k \<Rightarrow> if k \<noteq> [] then k else ''Error'' | None \<Rightarrow> ''Error''))"

definition classifyError :: "(string \<Rightarrow> string) \<Rightarrow> js_error \<Rightarrow> string \<times> string" where
  "classifyError digest err =
     (let cls = error_class_of err;
          frames = join [CHR 0x0A] (map trim (take 5 (filter (\<lambda>l. prefix ''at '' (trim l)) (split_on CHR 0x0A (e_stack err)))));
          basis = (if frames \<noteq> [] then frames else mask_digits False (e_message err))
      in (cls, take 16 (digest (cls @ [CHR 0x0A] @ basis))))"

definition isContractGone :: "js_error \<Rightarrow> bool" where
  "isContractGone err = (e_code err = Some ''CONTRACT_DELETED'' \<or> e_code err = Some ''CONTRACT_NOT_FOUND'')"

subsection \<open>Backoff and the next state\<close>

record dlq_config =
  DLQ_RETRY_DELAY_MS :: nat
  DLQ_BACKOFF_BASE :: nat
  DLQ_BACKOFF_MAX_MS :: nat
  DLQ_MAX_ATTEMPTS :: nat
  DLQ_POISON_THRESHOLD :: nat
  DLQ_ALERT_AGE :: nat
  DLQ_BATCH_SIZE :: nat

definition REPLAY_CHUNK :: nat where "REPLAY_CHUNK = 500"
definition STALE_CLAIM_MS :: nat where "STALE_CLAIM_MS = 600000"

definition computeNextRetryDelay :: "dlq_config \<Rightarrow> nat \<Rightarrow> nat" where
  "computeNextRetryDelay cfg retryCount = DLQ_RETRY_DELAY_MS cfg * 2 ^ retryCount"

definition computeBackoff :: "dlq_config \<Rightarrow> nat \<Rightarrow> nat" where
  "computeBackoff cfg attempts = min (DLQ_BACKOFF_MAX_MS cfg) (DLQ_BACKOFF_BASE cfg * 2 ^ (attempts - 1))"

datatype dlq_status = Queued | Retrying | Quarantined | Resolved

definition nextStateAfterFailure :: "dlq_config \<Rightarrow> nat \<Rightarrow> nat \<Rightarrow> dlq_status" where
  "nextStateAfterFailure cfg attempts sameHashCount =
     (if DLQ_MAX_ATTEMPTS cfg \<le> attempts then Quarantined
      else if DLQ_POISON_THRESHOLD cfg \<le> sameHashCount then Quarantined
      else Queued)"

subsection \<open>The table\<close>

record 'e dlq_entry =
  d_id :: nat
  d_raw :: 'e
  d_message :: string
  d_class :: string
  d_hash :: string
  d_retries :: nat
  d_next :: "nat option"
  d_status :: dlq_status
  d_resolved :: bool
  d_reason :: "string option"
  d_created :: nat
  d_updated :: nat

record 'e dlq =
  rows :: "'e dlq_entry list"
  next_id :: nat
  replayed_total :: nat
  quarantined_total :: nat
  dlq_alerts :: alerts

text \<open>\<open>UPDATE ... SET f WHERE P\<close>.\<close>

definition update_rows :: "('e dlq_entry \<Rightarrow> bool) \<Rightarrow> ('e dlq_entry \<Rightarrow> 'e dlq_entry) \<Rightarrow> 'e dlq \<Rightarrow> 'e dlq" where
  "update_rows P f s = s\<lparr>rows := map (\<lambda>r. if P r then f r else r) (rows s)\<rparr>"

definition dlq_enqueue ::
  "dlq_config \<Rightarrow> (string \<Rightarrow> string) \<Rightarrow> nat \<Rightarrow> 'e \<Rightarrow> js_error \<Rightarrow> 'e dlq \<Rightarrow> nat \<times> 'e dlq" where
  "dlq_enqueue cfg digest now raw err s =
     (case classifyError digest err of (cls, h) \<Rightarrow>
        (next_id s,
         s\<lparr>next_id := next_id s + 1,
           rows := rows s @ [\<lparr>d_id = next_id s, d_raw = raw, d_message = e_message err, d_class = cls, d_hash = h,
             d_retries = 0, d_next = Some (now + computeBackoff cfg 1), d_status = Queued, d_resolved = False,
             d_reason = None, d_created = now, d_updated = now\<rparr>]\<rparr>))"

definition markResolved :: "nat \<Rightarrow> nat \<Rightarrow> string option \<Rightarrow> 'e dlq \<Rightarrow> 'e dlq" where
  "markResolved now i reason s =
     update_rows (\<lambda>r. d_id r = i)
       (\<lambda>r. r\<lparr>d_status := Resolved, d_resolved := True, d_reason := reason, d_next := None, d_updated := now\<rparr>) s"

definition same_hash_count :: "string \<Rightarrow> 'e dlq \<Rightarrow> nat" where
  "same_hash_count h s = length (filter (\<lambda>r. d_hash r = h \<and> d_status r \<noteq> Resolved) (rows s))"

definition in_group :: "string \<Rightarrow> nat \<Rightarrow> 'e dlq_entry \<Rightarrow> bool" where
  "in_group h i r = (d_hash r = h \<and> d_status r \<in> {Queued, Retrying} \<and> d_id r \<noteq> i)"

text \<open>
  The two writes of a failure: the entry, with the state that has been decided from the count of its stack hash, and the group.
\<close>

definition write_failure ::
  "(string \<Rightarrow> string) \<Rightarrow> nat \<Rightarrow> 'e dlq_entry \<Rightarrow> js_error \<Rightarrow> dlq_status \<Rightarrow> nat option \<Rightarrow> 'e dlq \<Rightarrow> 'e dlq" where
  "write_failure digest now entry err st nxt s =
     (case classifyError digest err of (cls, h) \<Rightarrow>
        update_rows (\<lambda>r. d_id r = d_id entry)
          (\<lambda>r. r\<lparr>d_retries := d_retries entry + 1, d_next := nxt, d_message := e_message err, d_class := cls,
                 d_hash := h, d_status := st, d_updated := now\<rparr>) s)"

definition quarantine_group ::
  "channels \<Rightarrow> (string \<Rightarrow> string) \<Rightarrow> nat \<Rightarrow> 'e dlq_entry \<Rightarrow> js_error \<Rightarrow> 'e dlq \<Rightarrow> 'e dlq" where
  "quarantine_group ch digest now entry err s =
     (case classifyError digest err of (cls, h) \<Rightarrow>
        let total = 1 + length (filter (in_group h (d_id entry)) (rows s));
            s' = update_rows (in_group h (d_id entry)) (\<lambda>r. r\<lparr>d_status := Quarantined, d_next := None, d_updated := now\<rparr>) s
        in s'\<lparr>quarantined_total := quarantined_total s' + total,
              dlq_alerts := fireAlert ch now (condition_named ''DLQ_QUARANTINE'') (Dlq_group cls total) (dlq_alerts s')\<rparr>)"

subsection \<open>The processor\<close>

definition due :: "nat \<Rightarrow> 'e dlq_entry \<Rightarrow> bool" where
  "due now r =
     ((d_status r = Queued \<and> (case d_next r of Some t \<Rightarrow> t \<le> now | None \<Rightarrow> False)) \<or>
      (d_status r = Retrying \<and> d_updated r + STALE_CLAIM_MS < now))"

definition claimed_ids :: "dlq_config \<Rightarrow> nat \<Rightarrow> 'e dlq \<Rightarrow> nat list" where
  "claimed_ids cfg now s =
     map d_id (take (DLQ_BATCH_SIZE cfg)
       (sort_key (\<lambda>r. case d_next r of None \<Rightarrow> 0 | Some t \<Rightarrow> Suc t) (filter (due now) (rows s))))"

definition claim :: "dlq_config \<Rightarrow> nat \<Rightarrow> 'e dlq \<Rightarrow> 'e dlq_entry list \<times> 'e dlq" where
  "claim cfg now s =
     (let ids = claimed_ids cfg now s;
          s1 = update_rows (\<lambda>r. d_id r \<in> set ids) (\<lambda>r. r\<lparr>d_status := Retrying, d_updated := now\<rparr>) s
      in (filter (\<lambda>r. d_id r \<in> set ids) (rows s1), s1))"

record tally =
  t_retried :: nat
  t_resolved :: nat
  t_failed :: nat
  t_quarantined :: nat

text \<open>
  What an entry waits for in a tick: its handler; the statement that resolves it; the count of its stack hash; the write of its failure; the write of
  its group. In a manual replay: the handler, the statement that resolves, the write of the failure.
\<close>

datatype retry_phase =
    Handling
  | Resolving "string option"
  | Counting js_error
  | Writing js_error dlq_status "nat option"
  | Grouping js_error

datatype replay_phase = Replay_handling | Replay_resolving | Replay_noting js_error

datatype replay_result = Replayed | Replay_failed js_error

datatype 'e dlq_job =
    Retry_job "'e dlq_entry" "'e dlq_entry list" tally retry_phase
  | Replay_job "'e dlq_entry" replay_phase
  | Health_job nat nat
  | Done tally
  | Refreshed
  | Answered replay_result
  | Rejected

fun next_entry :: "'e dlq_entry list \<Rightarrow> tally \<Rightarrow> 'e dlq_job" where
  "next_entry [] t = Done t"
| "next_entry (entry # batch) t = Retry_job entry batch (t\<lparr>t_retried := t_retried t + 1\<rparr>) Handling"

text \<open>The catch block: the handler has thrown, or the statement that resolves the entry.\<close>

definition caught :: "js_error \<Rightarrow> 'e dlq_entry \<Rightarrow> 'e dlq_entry list \<Rightarrow> tally \<Rightarrow> 'e dlq_job" where
  "caught err entry batch t =
     (if isContractGone err then Retry_job entry batch t (Resolving (Some ''contract deleted''))
      else Retry_job entry batch (t\<lparr>t_failed := t_failed t + 1\<rparr>) (Counting err))"

text \<open>The step of a tick when what it waits for has ended, with a result (\<open>None\<close>) or an exception.\<close>

fun retry_step ::
  "dlq_config \<Rightarrow> channels \<Rightarrow> (string \<Rightarrow> string) \<Rightarrow> nat \<Rightarrow> js_error option \<Rightarrow> 'e dlq_entry \<Rightarrow> 'e dlq_entry list \<Rightarrow> tally \<Rightarrow>
     retry_phase \<Rightarrow> 'e dlq \<Rightarrow> 'e dlq_job \<times> 'e dlq" where
  "retry_step cfg ch digest now out entry batch t Handling s =
     ((case out of None \<Rightarrow> Retry_job entry batch t (Resolving None) | Some err \<Rightarrow> caught err entry batch t), s)"
| "retry_step cfg ch digest now out entry batch t (Resolving reason) s =
     (case out of
        None \<Rightarrow>
          (next_entry batch (t\<lparr>t_resolved := t_resolved t + 1\<rparr>),
           if reason = None then (markResolved now (d_id entry) None s)\<lparr>replayed_total := replayed_total s + 1\<rparr>
           else markResolved now (d_id entry) reason s)
      | Some err \<Rightarrow> (if reason = None then caught err entry batch t else Rejected, s))"
| "retry_step cfg ch digest now out entry batch t (Counting err) s =
     (case out of
        None \<Rightarrow>
          let attempts = d_retries entry + 1;
              st = nextStateAfterFailure cfg attempts (same_hash_count (snd (classifyError digest err)) s);
              nxt = (if st = Queued then Some (now + computeBackoff cfg attempts) else None)
          in (Retry_job entry batch t (Writing err st nxt), s)
      | Some _ \<Rightarrow> (Rejected, s))"
| "retry_step cfg ch digest now out entry batch t (Writing err st nxt) s =
     (case out of
        None \<Rightarrow>
          (if st = Quarantined then Retry_job entry batch t (Grouping err) else next_entry batch t,
           write_failure digest now entry err st nxt s)
      | Some _ \<Rightarrow> (Rejected, s))"
| "retry_step cfg ch digest now out entry batch t (Grouping err) s =
     (case out of
        None \<Rightarrow> (next_entry batch (t\<lparr>t_quarantined := t_quarantined t + 1\<rparr>), quarantine_group ch digest now entry err s)
      | Some _ \<Rightarrow> (Rejected, s))"

text \<open>\<open>processRetries\<close> begins with the claim.\<close>

definition processRetries :: "dlq_config \<Rightarrow> nat \<Rightarrow> 'e dlq \<Rightarrow> 'e dlq_job \<times> 'e dlq" where
  "processRetries cfg now s =
     (case claim cfg now s of (batch, s1) \<Rightarrow>
        (next_entry batch \<lparr>t_retried = 0, t_resolved = 0, t_failed = 0, t_quarantined = 0\<rparr>, s1))"

subsection \<open>Health, listing and manual operations\<close>

definition count_status :: "dlq_status \<Rightarrow> 'e dlq \<Rightarrow> nat" where
  "count_status st s = length (filter (\<lambda>r. d_status r = st) (rows s))"

definition oldest_open :: "nat \<Rightarrow> 'e dlq \<Rightarrow> nat" where
  "oldest_open now s = foldr max (map (\<lambda>r. now - d_created r) (filter (\<lambda>r. d_status r \<noteq> Resolved) (rows s))) 0"

text \<open>The health after its query, which has given the age of the oldest open entry and the number of quarantined ones.\<close>

definition refreshDlqHealth :: "dlq_config \<Rightarrow> channels \<Rightarrow> nat \<Rightarrow> nat \<Rightarrow> nat \<Rightarrow> 'e dlq \<Rightarrow> 'e dlq" where
  "refreshDlqHealth cfg ch now age quarantined s =
     (let a1 = (if DLQ_ALERT_AGE cfg < age
                then fireAlert ch now (condition_named ''DLQ_STALE'') (Dlq_old age) (dlq_alerts s)
                else resolveAlert (condition_named ''DLQ_STALE'') (dlq_alerts s));
          a2 = (if quarantined = 0 then resolveAlert (condition_named ''DLQ_QUARANTINE'') a1 else a1)
      in s\<lparr>dlq_alerts := a2\<rparr>)"

record dlq_query =
  q_page :: nat
  q_limit :: nat
  q_resolved :: bool
  q_status :: "dlq_status option"
  q_class :: "string option"

definition query_matches :: "dlq_query \<Rightarrow> 'e dlq_entry \<Rightarrow> bool" where
  "query_matches q r =
     ((case q_status q of Some st \<Rightarrow> d_status r = st | None \<Rightarrow> d_resolved r = q_resolved q) \<and>
      (case q_class q of Some c \<Rightarrow> c \<noteq> [] \<longrightarrow> d_class r = c | None \<Rightarrow> True))"

text \<open>The page and the count are two queries at the same time, each on the table it finds.\<close>

definition getItems :: "dlq_query \<Rightarrow> 'e dlq \<Rightarrow> 'e dlq \<Rightarrow> 'e dlq_entry list \<times> nat" where
  "getItems q s s' =
     (take (q_limit q) (drop ((q_page q - 1) * q_limit q) (sort_key (\<lambda>r. - int (d_created r)) (filter (query_matches q) (rows s)))),
      length (filter (query_matches q) (rows s')))"

definition getDlqDepth :: "'e dlq \<Rightarrow> nat" where
  "getDlqDepth s = length (filter (\<lambda>r. d_status r \<noteq> Resolved) (rows s))"

definition requeueable :: "nat \<Rightarrow> string \<Rightarrow> 'e dlq_entry \<Rightarrow> bool" where
  "requeueable now cls r =
     (d_class r = cls \<and> d_status r \<in> {Queued, Quarantined} \<and>
      (case d_next r of None \<Rightarrow> True | Some t \<Rightarrow> now < t))"

text \<open>One chunk, at the time of its statement.\<close>

definition requeue_chunk :: "nat \<Rightarrow> string \<Rightarrow> 'e dlq \<Rightarrow> nat \<times> 'e dlq" where
  "requeue_chunk now cls s =
     (let ids = map d_id (take REPLAY_CHUNK (filter (requeueable now cls) (rows s)))
      in (length ids, update_rows (\<lambda>r. d_id r \<in> set ids)
            (\<lambda>r. r\<lparr>d_status := Queued, d_retries := 0, d_next := Some now, d_updated := now\<rparr>) s))"

text \<open>
  The loop without an abort and with nothing between its statements. The list gives the times at which its statements run; \<open>None\<close> when it is still
  running at their end.
\<close>

fun requeue_loop :: "nat list \<Rightarrow> string \<Rightarrow> nat \<Rightarrow> 'e dlq \<Rightarrow> (nat \<times> 'e dlq) option" where
  "requeue_loop [] cls acc s = None"
| "requeue_loop (now # stamps) cls acc s =
     (case requeue_chunk now cls s of (n, s') \<Rightarrow>
        if n < REPLAY_CHUNK then Some (acc + n, s') else requeue_loop stamps cls (acc + n) s')"

fun replay_step :: "nat \<Rightarrow> js_error option \<Rightarrow> 'e dlq_entry \<Rightarrow> replay_phase \<Rightarrow> 'e dlq \<Rightarrow> 'e dlq_job \<times> 'e dlq" where
  "replay_step now out entry Replay_handling s =
     ((case out of None \<Rightarrow> Replay_job entry Replay_resolving | Some err \<Rightarrow> Replay_job entry (Replay_noting err)), s)"
| "replay_step now out entry Replay_resolving s =
     (case out of
        None \<Rightarrow> (Answered Replayed, (markResolved now (d_id entry) None s)\<lparr>replayed_total := replayed_total s + 1\<rparr>)
      | Some err \<Rightarrow> (Replay_job entry (Replay_noting err), s))"
| "replay_step now out entry (Replay_noting err) s =
     (case out of
        None \<Rightarrow>
          (Answered (Replay_failed err),
           update_rows (\<lambda>r. d_id r = d_id entry)
             (\<lambda>r. r\<lparr>d_retries := d_retries r + 1, d_message := e_message err, d_updated := now\<rparr>) s)
      | Some _ \<Rightarrow> (Rejected, s))"

text \<open>\<open>replay\<close> begins with the row; \<open>None\<close> when there is none.\<close>

definition replay :: "nat \<Rightarrow> 'e dlq \<Rightarrow> 'e dlq_job option" where
  "replay i s = map_option (\<lambda>entry. Replay_job entry Replay_handling) (find (\<lambda>r. d_id r = i) (rows s))"

subsection \<open>Runs\<close>

fun job_step :: "dlq_config \<Rightarrow> channels \<Rightarrow> (string \<Rightarrow> string) \<Rightarrow> nat \<Rightarrow> js_error option \<Rightarrow> 'e dlq_job \<Rightarrow> 'e dlq \<Rightarrow> 'e dlq_job \<times> 'e dlq" where
  "job_step cfg ch digest now out (Retry_job entry batch t ph) s = retry_step cfg ch digest now out entry batch t ph s"
| "job_step cfg ch digest now out (Replay_job entry ph) s = replay_step now out entry ph s"
| "job_step cfg ch digest now out (Health_job age n) s =
     (case out of None \<Rightarrow> (Refreshed, refreshDlqHealth cfg ch now age n s) | Some _ \<Rightarrow> (Rejected, s))"
| "job_step cfg ch digest now out job s = (job, s)"

record 'e dlq_world =
  dw_table :: "'e dlq"
  dw_jobs :: "'e dlq_job list"

text \<open>\<open>Proceed\<close>: what a job waits for ends, at this time and with this outcome.\<close>

datatype 'e dlq_act =
    Enqueue nat 'e js_error
  | Resolve nat nat
  | Requeue nat string
  | Tick nat
  | Replay nat
  | Health nat
  | Proceed nat nat "js_error option"

fun act_dlq :: "dlq_config \<Rightarrow> channels \<Rightarrow> (string \<Rightarrow> string) \<Rightarrow> 'e dlq_act \<Rightarrow> 'e dlq_world \<Rightarrow> 'e dlq_world" where
  "act_dlq cfg ch digest (Enqueue now raw err) w = w\<lparr>dw_table := snd (dlq_enqueue cfg digest now raw err (dw_table w))\<rparr>"
| "act_dlq cfg ch digest (Resolve now i) w = w\<lparr>dw_table := markResolved now i (Some ''manually resolved'') (dw_table w)\<rparr>"
| "act_dlq cfg ch digest (Requeue now cls) w = w\<lparr>dw_table := snd (requeue_chunk now cls (dw_table w))\<rparr>"
| "act_dlq cfg ch digest (Tick now) w =
     (case processRetries cfg now (dw_table w) of (job, s) \<Rightarrow> w\<lparr>dw_table := s, dw_jobs := dw_jobs w @ [job]\<rparr>)"
| "act_dlq cfg ch digest (Replay i) w =
     (case replay i (dw_table w) of None \<Rightarrow> w | Some job \<Rightarrow> w\<lparr>dw_jobs := dw_jobs w @ [job]\<rparr>)"
| "act_dlq cfg ch digest (Health now) w =
     w\<lparr>dw_jobs := dw_jobs w @ [Health_job (oldest_open now (dw_table w)) (count_status Quarantined (dw_table w))]\<rparr>"
| "act_dlq cfg ch digest (Proceed k now out) w =
     (if k < length (dw_jobs w)
      then case job_step cfg ch digest now out (dw_jobs w ! k) (dw_table w) of
             (job, s) \<Rightarrow> w\<lparr>dw_table := s, dw_jobs := (dw_jobs w)[k := job]\<rparr>
      else w)"

subsection \<open>Backoff\<close>

text \<open>
  The delay before a retry doubles with each attempt until it reaches the cap, never decreases and never
  exceeds the cap.
\<close>

lemma backoff_doubles_to_cap:
  "computeBackoff cfg a \<le> DLQ_BACKOFF_MAX_MS cfg \<and>
   computeBackoff cfg a \<le> computeBackoff cfg (Suc a) \<and>
   computeBackoff cfg (Suc (Suc a)) = min (DLQ_BACKOFF_MAX_MS cfg) (2 * computeBackoff cfg (Suc a))"
proof -
  have "(2::nat) ^ (a - 1) \<le> 2 ^ a" by (rule power_increasing) simp_all
  then have "DLQ_BACKOFF_BASE cfg * 2 ^ (a - 1) \<le> DLQ_BACKOFF_BASE cfg * 2 ^ (Suc a - 1)"
    by (intro mult_le_mono2) simp
  then have "computeBackoff cfg a \<le> computeBackoff cfg (Suc a)"
    unfolding computeBackoff_def by (rule min.mono [OF order_refl])
  moreover have "computeBackoff cfg (Suc (Suc a)) = min (DLQ_BACKOFF_MAX_MS cfg) (2 * computeBackoff cfg (Suc a))"
    by (auto simp: computeBackoff_def min_def)
  ultimately show ?thesis by (simp add: computeBackoff_def)
qed

subsection \<open>Well-formed tables\<close>

definition row_ok :: "'e dlq_entry \<Rightarrow> bool" where
  "row_ok r \<longleftrightarrow>
     (d_status r = Queued \<longrightarrow> d_next r \<noteq> None) \<and>
     (d_status r \<in> {Quarantined, Resolved} \<longrightarrow> d_next r = None) \<and>
     (d_status r = Resolved \<longrightarrow> d_resolved r)"

definition ids_of :: "'e dlq \<Rightarrow> nat list" where
  "ids_of s = map d_id (rows s)"

definition dlq_ok :: "'e dlq \<Rightarrow> bool" where
  "dlq_ok s \<longleftrightarrow> list_all row_ok (rows s) \<and> distinct (ids_of s) \<and> list_all (\<lambda>i. i < next_id s) (ids_of s)"

lemma update_rows_ids [simp]:
  assumes "\<And>r. d_id (f r) = d_id r"
  shows "ids_of (update_rows P f s) = ids_of s"
proof -
  have "map d_id (map (\<lambda>r. if P r then f r else r) rs) = map d_id rs" for rs
    by (induction rs) (auto simp: assms)
  then show ?thesis by (simp add: ids_of_def update_rows_def)
qed

lemma update_rows_sel [simp]:
  "next_id (update_rows P f s) = next_id s" "replayed_total (update_rows P f s) = replayed_total s"
  "quarantined_total (update_rows P f s) = quarantined_total s" "dlq_alerts (update_rows P f s) = dlq_alerts s"
  by (simp_all add: update_rows_def)

lemma dlq_ok_update:
  assumes "dlq_ok s" "\<And>r. d_id (f r) = d_id r" "\<And>r. r \<in> set (rows s) \<Longrightarrow> P r \<Longrightarrow> row_ok r \<Longrightarrow> row_ok (f r)"
  shows "dlq_ok (update_rows P f s)"
proof -
  have "list_all row_ok (rows (update_rows P f s))"
    using assms(1,3) by (auto simp: dlq_ok_def update_rows_def list_all_iff)
  then show ?thesis using assms(1,2) by (simp add: dlq_ok_def)
qed

lemma ids_of_update [simp]: "ids_of (s\<lparr>replayed_total := n\<rparr>) = ids_of s" "ids_of (s\<lparr>quarantined_total := q\<rparr>) = ids_of s"
  "ids_of (s\<lparr>dlq_alerts := al\<rparr>) = ids_of s"
  by (simp_all add: ids_of_def)

lemma dlq_ok_counters [simp]:
  "dlq_ok (s\<lparr>replayed_total := n\<rparr>) = dlq_ok s" "dlq_ok (s\<lparr>quarantined_total := q\<rparr>) = dlq_ok s"
  "dlq_ok (s\<lparr>dlq_alerts := al\<rparr>) = dlq_ok s"
  by (simp_all add: dlq_ok_def ids_of_def)

lemma markResolved_ok: "dlq_ok s \<Longrightarrow> dlq_ok (markResolved now i reason s)"
  unfolding markResolved_def by (rule dlq_ok_update) (auto simp: row_ok_def)

lemma markResolved_ids [simp]: "ids_of (markResolved now i reason s) = ids_of s"
  by (simp add: markResolved_def)

subsection \<open>Every step keeps the table\<close>

text \<open>What never changes of an entry.\<close>

definition entry_key :: "'e dlq_entry \<Rightarrow> nat \<times> 'e \<times> nat" where
  "entry_key r = (d_id r, d_raw r, d_created r)"

definition entry_keys :: "'e dlq \<Rightarrow> (nat \<times> 'e \<times> nat) list" where
  "entry_keys s = map entry_key (rows s)"

lemma entry_keys_map: "entry_keys s = map (\<lambda>r. (d_id r, d_raw r, d_created r)) (rows s)"
  unfolding entry_keys_def by (rule map_cong) (simp_all add: entry_key_def)

lemma entry_keys_update [simp]: "(\<And>r. entry_key (f r) = entry_key r) \<Longrightarrow> entry_keys (update_rows P f s) = entry_keys s"
  by (simp add: entry_keys_def update_rows_def)

lemma entry_keys_sel [simp]:
  "entry_keys (s\<lparr>replayed_total := n\<rparr>) = entry_keys s" "entry_keys (s\<lparr>quarantined_total := q\<rparr>) = entry_keys s"
  "entry_keys (s\<lparr>dlq_alerts := al\<rparr>) = entry_keys s"
  by (simp_all add: entry_keys_def)

lemma markResolved_keys [simp]: "entry_keys (markResolved now i reason s) = entry_keys s"
  by (simp add: markResolved_def entry_key_def)

lemma write_failure_ok:
  "dlq_ok s \<Longrightarrow> (if st = Queued then nxt \<noteq> None else st = Quarantined \<and> nxt = None) \<Longrightarrow> dlq_ok (write_failure digest now entry err st nxt s)"
  by (auto simp: write_failure_def row_ok_def intro!: dlq_ok_update split: prod.splits if_splits)

lemma quarantine_group_ok: "dlq_ok s \<Longrightarrow> dlq_ok (quarantine_group ch digest now entry err s)"
  by (auto simp: quarantine_group_def Let_def row_ok_def in_group_def intro!: dlq_ok_update split: prod.splits)

lemma failure_keys [simp]:
  "entry_keys (write_failure digest now entry err st nxt s) = entry_keys s"
  "entry_keys (quarantine_group ch digest now entry err s) = entry_keys s"
  by (simp_all add: write_failure_def quarantine_group_def Let_def entry_key_def split: prod.splits)

lemma ids_inj: "distinct (ids_of s) \<Longrightarrow> r \<in> set (rows s) \<Longrightarrow> r' \<in> set (rows s) \<Longrightarrow> d_id r = d_id r' \<Longrightarrow> r = r'"
  by (auto simp: ids_of_def distinct_map dest: inj_onD)

lemma claimed_due:
  assumes "dlq_ok s" "r \<in> set (rows s)" "d_id r \<in> set (claimed_ids cfg now s)"
  shows "due now r"
proof -
  obtain r' where "r' \<in> set (rows s)" "due now r'" "d_id r' = d_id r"
    using assms(3) by (auto simp: claimed_ids_def dest!: in_set_takeD)
  then show ?thesis using ids_inj [of s r r'] assms(1,2) by (auto simp: dlq_ok_def)
qed

lemma claim_props:
  assumes "dlq_ok s" "claim cfg now s = (batch, s1)"
  shows "dlq_ok s1" "entry_keys s1 = entry_keys s" "length batch \<le> DLQ_BATCH_SIZE cfg"
proof -
  let ?ids = "claimed_ids cfg now s"
  let ?f = "\<lambda>r. r\<lparr>d_status := Retrying, d_updated := now\<rparr>"
  have s1: "s1 = update_rows (\<lambda>r. d_id r \<in> set ?ids) ?f s"
    and b: "batch = filter (\<lambda>r. d_id r \<in> set ?ids) (rows s1)"
    using assms(2) by (auto simp: claim_def Let_def)
  show ok: "dlq_ok s1" unfolding s1 by (rule dlq_ok_update [OF assms(1)]) (auto simp: row_ok_def)
  show "entry_keys s1 = entry_keys s" unfolding s1 by (simp add: entry_key_def)
  have ids: "ids_of s1 = ids_of s" unfolding s1 by simp
  have map_b: "map d_id batch = filter (\<lambda>i. i \<in> set ?ids) (ids_of s1)"
    unfolding b ids_of_def by (simp add: filter_map o_def)
  have d: "distinct (map d_id batch)" using ok map_b by (simp add: dlq_ok_def)
  have "length batch = card (set (map d_id batch))" using distinct_card [OF d] by simp
  also have "\<dots> \<le> card (set ?ids)" using map_b by (intro card_mono) auto
  also have "\<dots> \<le> length ?ids" by (rule card_length)
  also have "\<dots> \<le> DLQ_BATCH_SIZE cfg" by (simp add: claimed_ids_def)
  finally show "length batch \<le> DLQ_BATCH_SIZE cfg" .
qed

lemma dlq_enqueue_ok:
  "dlq_ok s \<Longrightarrow> dlq_ok (snd (dlq_enqueue cfg digest now raw err s)) \<and>
     entry_keys (snd (dlq_enqueue cfg digest now raw err s)) = entry_keys s @ [(next_id s, raw, now)]"
  by (auto simp: dlq_enqueue_def dlq_ok_def ids_of_def row_ok_def list_all_iff image_iff entry_keys_def entry_key_def split: prod.split)

lemma requeue_chunk_ok: "dlq_ok s \<Longrightarrow> dlq_ok (snd (requeue_chunk now cls s)) \<and> entry_keys (snd (requeue_chunk now cls s)) = entry_keys s"
proof -
  assume ok: "dlq_ok s"
  let ?ids = "map d_id (take REPLAY_CHUNK (filter (requeueable now cls) (rows s)))"
  let ?f = "\<lambda>r. r\<lparr>d_status := Queued, d_retries := 0, d_next := Some now, d_updated := now\<rparr>"
  have "dlq_ok (update_rows (\<lambda>r. d_id r \<in> set ?ids) ?f s)" by (rule dlq_ok_update [OF ok]) (auto simp: row_ok_def)
  then show ?thesis by (simp add: requeue_chunk_def Let_def entry_key_def)
qed

subsection \<open>Every reachable world\<close>

text \<open>The entry a tick is at is counted as retried, and not yet as resolved or failed; or as failed, and not yet as quarantined.\<close>

fun undecided :: "retry_phase \<Rightarrow> nat" where
  "undecided Handling = 1"
| "undecided (Resolving reason) = 1"
| "undecided _ = 0"

fun job_ok :: "dlq_config \<Rightarrow> 'e dlq_job \<Rightarrow> bool" where
  "job_ok cfg (Retry_job entry batch t ph) \<longleftrightarrow>
     t_retried t + length batch \<le> DLQ_BATCH_SIZE cfg \<and>
     t_retried t = t_resolved t + t_failed t + undecided ph \<and>
     t_quarantined t + (1 - undecided ph) \<le> t_failed t \<and>
     (case ph of Writing err st nxt \<Rightarrow> if st = Queued then nxt \<noteq> None else st = Quarantined \<and> nxt = None | _ \<Rightarrow> True)"
| "job_ok cfg (Done t) \<longleftrightarrow>
     t_retried t \<le> DLQ_BATCH_SIZE cfg \<and> t_retried t = t_resolved t + t_failed t \<and> t_quarantined t \<le> t_failed t"
| "job_ok cfg _ \<longleftrightarrow> True"

lemma next_entry_ok:
  "t_retried t + length batch \<le> DLQ_BATCH_SIZE cfg \<Longrightarrow> t_retried t = t_resolved t + t_failed t \<Longrightarrow> t_quarantined t \<le> t_failed t \<Longrightarrow>
     job_ok cfg (next_entry batch t)"
  by (cases batch) simp_all

lemma retry_step_ok:
  assumes "dlq_ok s" "job_ok cfg (Retry_job entry batch t ph)" "retry_step cfg ch digest now out entry batch t ph s = (job, s')"
  shows "job_ok cfg job \<and> dlq_ok s' \<and> entry_keys s' = entry_keys s"
proof (cases ph)
  case Handling
  then show ?thesis using assms by (auto simp: caught_def split: option.splits)
next
  case (Resolving reason)
  have "job_ok cfg (next_entry batch (t\<lparr>t_resolved := t_resolved t + 1\<rparr>))"
    using assms(2) Resolving by (intro next_entry_ok) simp_all
  then show ?thesis using assms Resolving markResolved_ok [OF assms(1)]
    by (auto simp: caught_def split: option.splits if_splits)
next
  case (Counting err)
  then show ?thesis using assms by (auto simp: Let_def nextStateAfterFailure_def split: option.splits)
next
  case (Writing err st nxt)
  have "job_ok cfg (next_entry batch t)" using assms(2) Writing by (intro next_entry_ok) simp_all
  then show ?thesis using assms Writing write_failure_ok [OF assms(1)] by (auto split: option.splits if_splits)
next
  case (Grouping err)
  have "job_ok cfg (next_entry batch (t\<lparr>t_quarantined := t_quarantined t + 1\<rparr>))"
    using assms(2) Grouping by (intro next_entry_ok) simp_all
  then show ?thesis using assms Grouping quarantine_group_ok [OF assms(1)] by (auto split: option.splits)
qed

lemma replay_step_ok:
  assumes "dlq_ok s" "replay_step now out entry ph s = (job, s')"
  shows "job_ok cfg job \<and> dlq_ok s' \<and> entry_keys s' = entry_keys s"
proof -
  have "dlq_ok (update_rows (\<lambda>r. d_id r = d_id entry) (\<lambda>r. r\<lparr>d_retries := d_retries r + 1, d_message := m, d_updated := now\<rparr>) s)" for m
    by (rule dlq_ok_update [OF assms(1)]) (auto simp: row_ok_def)
  then show ?thesis using assms markResolved_ok [OF assms(1)]
    by (cases ph) (auto simp: entry_key_def split: option.splits)
qed

lemma job_step_ok:
  assumes "dlq_ok s" "job_ok cfg job" "job_step cfg ch digest now out job s = (job', s')"
  shows "job_ok cfg job' \<and> dlq_ok s' \<and> entry_keys s' = entry_keys s"
proof (cases job)
  case (Retry_job entry batch t ph)
  then show ?thesis using retry_step_ok [OF assms(1)] assms(2,3) by simp
next
  case (Replay_job entry ph)
  then show ?thesis using replay_step_ok [OF assms(1)] assms(3) by simp
next
  case (Health_job age n)
  then show ?thesis using assms(1,3) by (auto simp: refreshDlqHealth_def Let_def split: option.splits)
qed (use assms in auto)

definition world_ok :: "dlq_config \<Rightarrow> 'e dlq_world \<Rightarrow> bool" where
  "world_ok cfg w \<longleftrightarrow> dlq_ok (dw_table w) \<and> list_all (job_ok cfg) (dw_jobs w)"

lemma act_dlq_ok:
  assumes "world_ok cfg w"
  shows "world_ok cfg (act_dlq cfg ch digest a w) \<and>
    (\<exists>new. entry_keys (dw_table (act_dlq cfg ch digest a w)) = entry_keys (dw_table w) @ new)"
proof -
  have t: "dlq_ok (dw_table w)" and j: "list_all (job_ok cfg) (dw_jobs w)" using assms by (simp_all add: world_ok_def)
  show ?thesis
  proof (cases a)
    case (Enqueue now raw err)
    then show ?thesis using t j dlq_enqueue_ok [OF t, of cfg digest now raw err] by (simp add: world_ok_def)
  next
    case (Tick now)
    obtain batch s where c: "claim cfg now (dw_table w) = (batch, s)" by (cases "claim cfg now (dw_table w)")
    have "job_ok cfg (next_entry batch \<lparr>t_retried = 0, t_resolved = 0, t_failed = 0, t_quarantined = 0\<rparr>)"
      using claim_props(3) [OF t c] by (intro next_entry_ok) simp_all
    then show ?thesis using Tick t j claim_props(1,2) [OF t c] by (simp add: world_ok_def processRetries_def c)
  next
    case (Proceed k now out)
    obtain job s where p: "job_step cfg ch digest now out (dw_jobs w ! k) (dw_table w) = (job, s)"
      by (cases "job_step cfg ch digest now out (dw_jobs w ! k) (dw_table w)")
    have "job_ok cfg job \<and> dlq_ok s \<and> entry_keys s = entry_keys (dw_table w)" if "k < length (dw_jobs w)"
      using job_step_ok [OF t _ p] j that by (simp add: list_all_length)
    moreover have "list_all (job_ok cfg) ((dw_jobs w)[k := job])" if "job_ok cfg job" for job
      using j that set_update_subset_insert [of "dw_jobs w" k job] by (auto simp: list_all_iff)
    ultimately show ?thesis using Proceed t j by (simp add: world_ok_def p)
  qed (use t j in \<open>auto simp: world_ok_def markResolved_ok requeue_chunk_ok replay_def split: option.splits\<close>)
qed

interpretation dlq_runs: guarded_runs "act_dlq cfg ch digest" "\<lambda>_. True" "world_ok cfg"
  by unfold_locales (use act_dlq_ok in blast)

text \<open>
  C29. In every reachable table, whatever operations, ticks of the processor and manual replays run at the same time and whichever of their
  statements fail: ids are unique, a queued entry has the time of its next retry, a quarantined or resolved one has none, and a resolved one has its flag
  set; no entry disappears, and its event and the time it came stay as they were. A tick that has ended has counted each entry it retried as resolved or as
  failed, and retried at most a batch.
\<close>

theorem dlq_reachable_ok:
  assumes "dlq_ok s"
  shows "dlq_ok (dw_table (fold (act_dlq cfg ch digest) as \<lparr>dw_table = s, dw_jobs = []\<rparr>)) \<and>
    (\<exists>new. map (\<lambda>r. (d_id r, d_raw r, d_created r)) (rows (dw_table (fold (act_dlq cfg ch digest) as \<lparr>dw_table = s, dw_jobs = []\<rparr>))) =
       map (\<lambda>r. (d_id r, d_raw r, d_created r)) (rows s) @ new) \<and>
    (\<forall>t. Done t \<in> set (dw_jobs (fold (act_dlq cfg ch digest) as \<lparr>dw_table = s, dw_jobs = []\<rparr>)) \<longrightarrow>
       t_retried t \<le> DLQ_BATCH_SIZE cfg \<and> t_retried t = t_resolved t + t_failed t \<and> t_quarantined t \<le> t_failed t)"
proof -
  let ?w = "\<lparr>dw_table = s, dw_jobs = []\<rparr>"
  define w where "w = fold (act_dlq cfg ch digest) as ?w"
  have w0: "world_ok cfg ?w" using assms by (simp add: world_ok_def)
  have "world_ok cfg w" unfolding w_def by (rule dlq_runs.run_inv) (simp_all add: w0 list_all_iff)
  then have table: "dlq_ok (dw_table w)" and jobs: "\<forall>job \<in> set (dw_jobs w). job_ok cfg job" by (simp_all add: world_ok_def list_all_iff)
  have "\<exists>new. entry_keys (dw_table w) = entry_keys (dw_table ?w) @ new"
    unfolding w_def
  proof (rule dlq_runs.run_related [where R = "\<lambda>w w'. \<exists>new. entry_keys (dw_table w') = entry_keys (dw_table w) @ new" and cfg = cfg])
    show "\<exists>new. entry_keys (dw_table (act_dlq cfg ch digest a v)) = entry_keys (dw_table v) @ new" if "world_ok cfg v" for a v
      using act_dlq_ok [OF that] by blast
  qed (use w0 in \<open>auto simp: list_all_iff\<close>)
  then have "\<exists>new. map (\<lambda>r. (d_id r, d_raw r, d_created r)) (rows (dw_table w)) = map (\<lambda>r. (d_id r, d_raw r, d_created r)) (rows s) @ new"
    unfolding entry_keys_map by simp
  moreover have "t_retried t \<le> DLQ_BATCH_SIZE cfg \<and> t_retried t = t_resolved t + t_failed t \<and> t_quarantined t \<le> t_failed t"
    if "Done t \<in> set (dw_jobs w)" for t
    using jobs that by fastforce
  ultimately show ?thesis using table unfolding w_def [symmetric] by blast
qed

subsection \<open>What comes in between\<close>

definition sample_cfg :: dlq_config where
  "sample_cfg = \<lparr>DLQ_RETRY_DELAY_MS = 1000, DLQ_BACKOFF_BASE = 1000, DLQ_BACKOFF_MAX_MS = 60000, DLQ_MAX_ATTEMPTS = 5,
     DLQ_POISON_THRESHOLD = 10, DLQ_ALERT_AGE = 100, DLQ_BATCH_SIZE = 2\<rparr>"

definition sample_entry :: "nat \<Rightarrow> nat \<Rightarrow> unit dlq_entry" where
  "sample_entry i n = \<lparr>d_id = i, d_raw = (), d_message = ''m'', d_class = ''Error'', d_hash = ''h'', d_retries = n,
     d_next = Some 5, d_status = Queued, d_resolved = False, d_reason = None, d_created = 0, d_updated = 0\<rparr>"

definition sample_dlq :: "unit dlq_entry list \<Rightarrow> unit dlq" where
  "sample_dlq rs = \<lparr>rows = rs, next_id = 10, replayed_total = 0, quarantined_total = 0,
     dlq_alerts = \<lparr>active = [], lastPollAt = 0, sent = []\<rparr>\<rparr>"

definition sample_channels :: channels where
  "sample_channels = \<lparr>SLACK_WEBHOOK_URL = [], PAGERDUTY_ROUTING_KEY = []\<rparr>"

definition sample_error :: js_error where
  "sample_error = \<lparr>e_name = None, e_constructor = None, e_message = ''m'', e_stack = [], e_code = None\<rparr>"

definition sample_world :: "unit dlq_world" where
  "sample_world = \<lparr>dw_table = sample_dlq [sample_entry 1 0, sample_entry 2 0], dw_jobs = []\<rparr>"

lemmas sample_defs = sample_cfg_def sample_entry_def sample_dlq_def sample_channels_def sample_world_def

lemma sample_error_simps [simp]:
  "classifyError (\<lambda>_. ''x'') sample_error = (''Error'', ''x'')" "\<not> isContractGone sample_error" "e_message sample_error = ''m''"
  by (simp_all add: sample_error_def classifyError_def Let_def error_class_of_def isContractGone_def)

lemmas sample_run_simps = sample_defs processRetries_def claim_def claimed_ids_def due_def STALE_CLAIM_MS_def update_rows_def caught_def
  same_hash_count_def nextStateAfterFailure_def computeBackoff_def write_failure_def markResolved_def Let_def

text \<open>A tick whose first entry is resolved by hand while its handler runs and then fails, and whose second entry succeeds.\<close>

definition sample_tick :: "unit dlq_act list" where
  "sample_tick = [Tick 9, Resolve 10 1, Proceed 0 11 (Some sample_error), Proceed 0 12 None, Proceed 0 13 None,
     Proceed 0 14 None, Proceed 0 15 None]"

theorem dlq_reachable_ok_witness:
  "dlq_ok (dw_table (fold (act_dlq sample_cfg sample_channels (\<lambda>_. ''x'')) sample_tick sample_world)) \<and>
   dw_jobs (fold (act_dlq sample_cfg sample_channels (\<lambda>_. ''x'')) sample_tick sample_world) =
     [Done \<lparr>t_retried = 2, t_resolved = 1, t_failed = 1, t_quarantined = 0\<rparr>]"
proof
  have ok: "dlq_ok (sample_dlq [sample_entry 1 0, sample_entry 2 0])" by (simp add: dlq_ok_def ids_of_def row_ok_def sample_defs)
  show "dlq_ok (dw_table (fold (act_dlq sample_cfg sample_channels (\<lambda>_. ''x'')) sample_tick sample_world))"
    using dlq_reachable_ok [OF ok, of sample_cfg sample_channels "\<lambda>_. ''x''" sample_tick] unfolding sample_world_def by blast
  show "dw_jobs (fold (act_dlq sample_cfg sample_channels (\<lambda>_. ''x'')) sample_tick sample_world) =
     [Done \<lparr>t_retried = 2, t_resolved = 1, t_failed = 1, t_quarantined = 0\<rparr>]"
    by (simp add: sample_tick_def sample_run_simps)
qed

text \<open>
  The entry that was resolved by hand meanwhile waits for its next retry again, with the flag of a resolved one: the list of open entries does not show
  it, and the processor goes on with it.
\<close>

lemma resolved_while_retried:
  "map (\<lambda>r. (d_status r, d_resolved r, d_next r)) (take 1 (rows (dw_table (fold (act_dlq sample_cfg sample_channels (\<lambda>_. ''x'')) sample_tick sample_world)))) =
     [(Queued, True, Some 1012)]"
  by (simp add: sample_tick_def sample_run_simps)

text \<open>An entry whose handler has not ended after ten minutes is claimed a second time, and two handlers run for it.\<close>

lemma slow_handler_claimed_twice:
  "map (\<lambda>j. case j of Retry_job entry batch t ph \<Rightarrow> Some (d_id entry, ph) | _ \<Rightarrow> None)
     (dw_jobs (fold (act_dlq sample_cfg sample_channels (\<lambda>_. ''x'')) [Tick 9, Tick 600010] sample_world)) =
   [Some (1, Handling), Some (1, Handling)]"
  by (simp add: sample_tick_def sample_run_simps)

subsection \<open>Group quarantine\<close>

text \<open>
  The group of an entry is quarantined with it also when no poison was detected: an entry that has used up
  its attempts takes along every open entry with its stack hash, fresh ones that were never retried included.
\<close>

lemma exhausted_entry_quarantines_group:
  assumes "DLQ_MAX_ATTEMPTS cfg \<le> d_retries entry + 1" "snd (classifyError digest err) = h"
    and "same_hash_count h s < DLQ_POISON_THRESHOLD cfg"
    and "r \<in> set (rows s')" "d_hash r = h" "d_status r = Queued" "d_id r \<noteq> d_id entry"
  shows "fst (retry_step cfg ch digest now None entry batch t (Counting err) s) = Retry_job entry batch t (Writing err Quarantined None)"
    "r\<lparr>d_status := Quarantined, d_next := None, d_updated := now\<rparr> \<in> set (rows (quarantine_group ch digest now entry err s'))"
proof -
  show "fst (retry_step cfg ch digest now None entry batch t (Counting err) s) = Retry_job entry batch t (Writing err Quarantined None)"
    using assms(1) by (simp add: nextStateAfterFailure_def)
  have "in_group h (d_id entry) r" using assms(5-7) by (simp add: in_group_def)
  then show "r\<lparr>d_status := Quarantined, d_next := None, d_updated := now\<rparr> \<in> set (rows (quarantine_group ch digest now entry err s'))"
    using assms(2,4) by (cases "classifyError digest err") (force simp: quarantine_group_def Let_def update_rows_def)
qed

subsection \<open>Requeueing an error class\<close>

lemma requeue_chunk_fewer:
  assumes "now \<le> later"
  shows "length (filter (requeueable later cls) (rows (snd (requeue_chunk now cls s)))) + fst (requeue_chunk now cls s)
           \<le> length (filter (requeueable now cls) (rows s))"
proof -
  let ?req = "filter (requeueable now cls) (rows s)"
  let ?ids = "map d_id (take REPLAY_CHUNK ?req)"
  let ?f = "\<lambda>r. r\<lparr>d_status := Queued, d_retries := 0, d_next := Some now, d_updated := now\<rparr>"
  let ?g = "\<lambda>r. if d_id r \<in> set ?ids then ?f r else r"
  have no: "\<not> requeueable later cls (?f r)" for r using assms by (simp add: requeueable_def)
  have mono: "requeueable later cls r \<Longrightarrow> requeueable now cls r" for r
    using assms by (auto simp: requeueable_def split: option.splits)
  have "length (filter (requeueable later cls) (map ?g rs)) \<le> length (filter (\<lambda>r. requeueable now cls r \<and> d_id r \<notin> set ?ids) rs)" for rs
    by (induction rs) (use no mono in auto)
  then have 1: "length (filter (requeueable later cls) (rows (snd (requeue_chunk now cls s)))) \<le>
      length (filter (\<lambda>r. d_id r \<notin> set ?ids) ?req)"
    by (simp add: requeue_chunk_def Let_def update_rows_def filter_filter conj_commute)
  have "filter (\<lambda>r. d_id r \<notin> set ?ids) (take REPLAY_CHUNK ?req @ drop REPLAY_CHUNK ?req) =
      filter (\<lambda>r. d_id r \<notin> set ?ids) (drop REPLAY_CHUNK ?req)" by (simp only: filter_append) (auto simp: filter_empty_conv)
  then have "length (filter (\<lambda>r. d_id r \<notin> set ?ids) ?req) \<le> length (drop REPLAY_CHUNK ?req)"
    by (metis append_take_drop_id length_filter_le)
  then have 2: "length (filter (\<lambda>r. d_id r \<notin> set ?ids) ?req) + length ?ids \<le> length ?req" by simp
  have "fst (requeue_chunk now cls s) = length ?ids" by (simp add: requeue_chunk_def Let_def)
  then show ?thesis using 1 2 by linarith
qed

text \<open>
  Requeueing terminates: on a clock that does not run backwards, one statement per 500 rows and one more
  are enough, and the count reported is at most the number of rows that waited.
\<close>

lemma requeue_terminates:
  assumes "sorted (now # stamps)" "length (rows s) < REPLAY_CHUNK * Suc (length stamps)"
  shows "\<exists>n s'. requeue_loop (now # stamps) cls acc s = Some (n, s') \<and>
           n \<le> acc + length (filter (requeueable now cls) (rows s))"
proof -
  have "\<exists>n s'. requeue_loop (now # stamps) cls acc s = Some (n, s') \<and> n \<le> acc + length (filter (requeueable now cls) (rows s))"
    if "length (filter (requeueable now cls) (rows s)) < REPLAY_CHUNK * Suc (length stamps)" for s :: "'a dlq"
    using assms(1) that
  proof (induction stamps arbitrary: now acc s)
    case Nil
    obtain n s' where c: "requeue_chunk now cls s = (n, s')" by (cases "requeue_chunk now cls s")
    have "n \<le> length (filter (requeueable now cls) (rows s))"
      using requeue_chunk_fewer [of now now cls s] c by simp
    then show ?case using Nil c by simp
  next
    case (Cons later stamps)
    obtain n s' where c: "requeue_chunk now cls s = (n, s')" by (cases "requeue_chunk now cls s")
    have le: "length (filter (requeueable later cls) (rows s')) + n \<le> length (filter (requeueable now cls) (rows s))"
      using requeue_chunk_fewer [of now later cls s] c Cons.prems(1) by simp
    show ?case
    proof (cases "n < REPLAY_CHUNK")
      case True
      then show ?thesis using c le by simp
    next
      case False
      have "sorted (later # stamps)" using Cons.prems(1) by simp
      moreover have "length (filter (requeueable later cls) (rows s')) < REPLAY_CHUNK * Suc (length stamps)"
        using False le Cons.prems(2) by (simp add: algebra_simps)
      ultimately obtain m s'' where "requeue_loop (later # stamps) cls (acc + n) s' = Some (m, s'')"
          "m \<le> acc + n + length (filter (requeueable later cls) (rows s'))"
        using Cons.IH [of later s' "acc + n"] by blast
      then show ?thesis using c False le by auto
    qed
  qed
  moreover have "length (filter (requeueable now cls) (rows s)) < REPLAY_CHUNK * Suc (length stamps)"
    using assms(2) le_less_trans [OF length_filter_le] by blast
  ultimately show ?thesis by blast
qed

lemma requeue_terminates_witness:
  "\<exists>n s'. requeue_loop [3] ''Error'' 0 (sample_dlq [sample_entry 1 2, sample_entry 2 0]) = Some (n, s') \<and>
     n \<le> 0 + length (filter (requeueable 3 ''Error'') (rows (sample_dlq [sample_entry 1 2, sample_entry 2 0])))"
  by (rule requeue_terminates) (simp_all add: sample_dlq_def REPLAY_CHUNK_def)

end

