(* ===== verification/Load_Shedder.thy ===== *)
theory Load_Shedder
  imports Json
begin

text \<open>
  loadShedder.js: the adaptive concurrency limiter. The routes are the insertion-ordered map of the factory; a
  closure is what the release callback of one admitted request captures. Its events (finish and close, in any
  order and at any time) and new requests are the steps. For limits up to 1000 the double products
  \<open>limit * 0.8\<close> and \<open>limit * 0.05\<close> round to the exact integers below and above, so
  they are written as integer divisions. The prom-client gauges only mirror the state and are left out.
\<close>

subsection \<open>Data\<close>

definition DEFAULT_LIMITS :: "(string \<times> nat) list" where
  "DEFAULT_LIMITS = [(''api'', 100), (''rpc'', 40), (''analytics'', 10), (''admin'', 20)]"

definition MIN_LIMIT :: nat where "MIN_LIMIT = 5"
definition MAX_LIMIT :: nat where "MAX_LIMIT = 1000"
definition TARGET_LATENCY_MS :: int where "TARGET_LATENCY_MS = 500"
definition SAMPLE_WINDOW :: nat where "SAMPLE_WINDOW = 20"

definition PRIORITY_RESERVE :: "(string \<times> nat) list" where
  "PRIORITY_RESERVE = [(''anonymous'', 0), (''free'', 0), (''pro'', 10), (''enterprise'', 20), (''admin'', 50)]"

definition HEALTH_PATHS :: "string list" where
  "HEALTH_PATHS = [''/health'', ''/api/health'', ''/health/live'', ''/health/ready'']"

record route_state =
  ls_limit :: nat
  ls_active :: nat
  ls_completed :: nat
  ls_latency :: int
  ls_high :: nat
  ls_shed :: "(string \<times> nat) list"

record ls_closure =
  cl_route :: string
  cl_started :: int
  cl_released :: bool

record shedder =
  ls_states :: "(string \<times> route_state) list"
  ls_closures :: "ls_closure list"

record ls_request =
  lr_method :: string
  lr_path :: string
  lr_key :: "string option"
  lr_tier :: "string option"

subsection \<open>Operations\<close>

definition classifyRoute :: "string \<Rightarrow> string" where
  "classifyRoute p =
     (if p = ''/api/rpc'' then ''rpc''
      else if p = ''/api/sql'' then ''analytics''
      else if p = ''/api/admin'' \<or> prefix ''/api/admin/'' p then ''admin''
      else ''api'')"

definition tierPriority :: "ls_request \<Rightarrow> string" where
  "tierPriority req =
     (if (lr_path req = ''/api/admin'' \<or> prefix ''/api/admin/'' (lr_path req)) \<and> lr_key req = Some ''static-admin-key''
      then ''admin''
      else if lr_tier req = Some ''enterprise'' then ''enterprise''
      else if lr_tier req = Some ''pro'' then ''pro''
      else if lr_tier req = Some ''free'' then ''free''
      else ''anonymous'')"

definition fresh_route :: "nat \<Rightarrow> route_state" where
  "fresh_route l = \<lparr>ls_limit = l, ls_active = 0, ls_completed = 0, ls_latency = 0, ls_high = 0, ls_shed = []\<rparr>"

definition createLoadShedder :: "(string \<times> nat) list \<Rightarrow> shedder" where
  "createLoadShedder limits = \<lparr>ls_states = map (\<lambda>(r, l). (r, fresh_route l)) limits, ls_closures = []\<rparr>"

text \<open>The state of a route, created on first use.\<close>

definition getState :: "string \<Rightarrow> shedder \<Rightarrow> route_state" where
  "getState r s = (case map_of (ls_states s) r of Some st \<Rightarrow> st | None \<Rightarrow> fresh_route 100)"

definition put_route :: "string \<Rightarrow> route_state \<Rightarrow> shedder \<Rightarrow> shedder" where
  "put_route r st s = s\<lparr>ls_states := put_prop r st (ls_states s)\<rparr>"

definition reserve_of :: "string \<Rightarrow> nat" where
  "reserve_of p = (case map_of PRIORITY_RESERVE p of Some n \<Rightarrow> n | None \<Rightarrow> 0)"

definition allowed_concurrent :: "route_state \<Rightarrow> string \<Rightarrow> nat" where
  "allowed_concurrent st p = min MAX_LIMIT (ls_limit st + reserve_of p)"

text \<open>What becomes of a request: passed on unmeasured, answered 503, or passed on with a release callback.\<close>

datatype admission = Unmeasured | Shed_503 | Admitted nat

definition ls_middleware :: "int \<Rightarrow> ls_request \<Rightarrow> shedder \<Rightarrow> admission \<times> shedder" where
  "ls_middleware now req s =
     (if lr_method req = ''GET'' \<and> lr_path req \<in> set HEALTH_PATHS then (Unmeasured, s)
      else let r = classifyRoute (lr_path req);
               st = getState r s;
               p = tierPriority req
           in if allowed_concurrent st p \<le> ls_active st
              then let n = (case map_of (ls_shed st) p of Some n \<Rightarrow> n | None \<Rightarrow> 0)
                   in (Shed_503, put_route r (st\<lparr>ls_shed := put_prop p (n + 1) (ls_shed st)\<rparr>) s)
              else let a = ls_active st + 1
                   in (Admitted (length (ls_closures s)),
                       (put_route r (st\<lparr>ls_active := a, ls_high := max (ls_high st) a\<rparr>) s)
                         \<lparr>ls_closures := ls_closures s @ [\<lparr>cl_route = r, cl_started = now, cl_released = False\<rparr>]\<rparr>))"

text \<open>The end of a sample window.\<close>

definition adapt :: "int \<Rightarrow> route_state \<Rightarrow> route_state" where
  "adapt target st =
     (if SAMPLE_WINDOW \<le> ls_completed st
      then let l = ls_limit st;
               l' = (if rat_of_int (ls_latency st) / rat_of_nat (ls_completed st) > rat_of_int target
                     then max MIN_LIMIT (4 * l div 5)
                     else if l \<le> ls_high st then min MAX_LIMIT (l + max 1 ((l + 19) div 20))
                     else l)
           in st\<lparr>ls_limit := l', ls_completed := 0, ls_latency := 0, ls_high := ls_active st\<rparr>
      else st)"

definition release_route :: "int \<Rightarrow> int \<Rightarrow> route_state \<Rightarrow> route_state" where
  "release_route target elapsed st =
     adapt target (st\<lparr>ls_active := ls_active st - 1, ls_completed := ls_completed st + 1,
                      ls_latency := ls_latency st + elapsed\<rparr>)"

text \<open>The release callback of closure \<open>i\<close>.\<close>

definition release :: "int \<Rightarrow> int \<Rightarrow> nat \<Rightarrow> shedder \<Rightarrow> shedder" where
  "release target now i s =
     (let c = ls_closures s ! i in
      if cl_released c then s
      else (put_route (cl_route c) (release_route target (now - cl_started c) (getState (cl_route c) s)) s)
             \<lparr>ls_closures := (ls_closures s)[i := c\<lparr>cl_released := True\<rparr>]\<rparr>)"

definition getMetrics :: "shedder \<Rightarrow> (string \<times> nat \<times> nat \<times> (string \<times> nat) list) list" where
  "getMetrics s = map (\<lambda>(r, st). (r, ls_limit st, ls_active st, ls_shed st)) (ls_states s)"

subsection \<open>Steps\<close>

inductive ls_step :: "int \<Rightarrow> shedder \<Rightarrow> shedder \<Rightarrow> bool" for target where
  request: "ls_middleware now req s = (out, s') \<Longrightarrow> ls_step target s s'"
| ending: "i < length (ls_closures s) \<Longrightarrow> ls_step target s (release target now i s)"

inductive_cases ls_stepE: "ls_step target s s'"

inductive ls_reachable :: "int \<Rightarrow> shedder \<Rightarrow> bool" for target where
  start: "ls_reachable target (createLoadShedder DEFAULT_LIMITS)"
| step: "ls_reachable target s \<Longrightarrow> ls_step target s s' \<Longrightarrow> ls_reachable target s'"

text \<open>Admitted requests of a route that have not ended.\<close>

definition in_flight :: "string \<Rightarrow> shedder \<Rightarrow> nat" where
  "in_flight r s = length (filter (\<lambda>c. cl_route c = r \<and> \<not> cl_released c) (ls_closures s))"

definition route_ok :: "route_state \<Rightarrow> bool" where
  "route_ok st = (MIN_LIMIT \<le> ls_limit st \<and> ls_limit st \<le> MAX_LIMIT \<and> ls_active st \<le> ls_high st \<and>
                  ls_high st \<le> MAX_LIMIT \<and> ls_completed st < SAMPLE_WINDOW)"

definition shedder_ok :: "shedder \<Rightarrow> bool" where
  "shedder_ok s = (\<forall>r. route_ok (getState r s) \<and> ls_active (getState r s) = in_flight r s)"

subsection \<open>Lemmas\<close>

lemma getState_put_route [simp]: "getState r' (put_route r st s) = (if r' = r then st else getState r' s)"
  by (simp add: getState_def put_route_def map_of_put_prop)

lemma getState_closures [simp]: "getState r (s\<lparr>ls_closures := cs\<rparr>) = getState r s"
  by (simp add: getState_def)

lemma in_flight_put_route [simp]: "in_flight r' (put_route r st s) = in_flight r' s"
  by (simp add: in_flight_def put_route_def)

lemma start_ok: "shedder_ok (createLoadShedder DEFAULT_LIMITS)"
  by (auto simp: shedder_ok_def createLoadShedder_def getState_def DEFAULT_LIMITS_def fresh_route_def route_ok_def
      in_flight_def MIN_LIMIT_def MAX_LIMIT_def SAMPLE_WINDOW_def)

lemma adapt_active [simp]: "ls_active (adapt target st) = ls_active st"
  by (simp add: adapt_def Let_def)

lemma adapt_ok:
  assumes "MIN_LIMIT \<le> ls_limit st" "ls_limit st \<le> MAX_LIMIT" "ls_active st \<le> ls_high st" "ls_high st \<le> MAX_LIMIT"
  shows "route_ok (adapt target st)"
  using assms by (auto simp: adapt_def route_ok_def Let_def MIN_LIMIT_def MAX_LIMIT_def SAMPLE_WINDOW_def)

lemma release_route_ok:
  assumes "route_ok st"
  shows "route_ok (release_route target d st)" "ls_active (release_route target d st) = ls_active st - 1"
proof -
  show "route_ok (release_route target d st)"
    using assms unfolding release_route_def by (intro adapt_ok) (auto simp: route_ok_def)
  show "ls_active (release_route target d st) = ls_active st - 1"
    by (simp add: release_route_def)
qed

lemma filter_update:
  "i < length xs \<Longrightarrow> P (xs ! i) \<Longrightarrow> \<not> P y \<Longrightarrow> length (filter P (xs[i := y])) = length (filter P xs) - 1"
proof (induction xs arbitrary: i)
  case (Cons x xs)
  show ?case
  proof (cases i)
    case 0
    with Cons.prems show ?thesis by simp
  next
    case (Suc j)
    with Cons.prems have "xs ! j \<in> set (filter P xs)" by simp
    then have "0 < length (filter P xs)" by (metis length_pos_if_in_set)
    with Suc Cons show ?thesis by auto
  qed
qed simp

lemma filter_update_other:
  "i < length xs \<Longrightarrow> \<not> P (xs ! i) \<Longrightarrow> \<not> P y \<Longrightarrow> length (filter P (xs[i := y])) = length (filter P xs)"
proof (induction xs arbitrary: i)
  case (Cons x xs)
  then show ?case by (cases i) auto
qed simp

lemma middleware_ok:
  assumes ok: "shedder_ok s" and out: "ls_middleware now req s = (r, s')"
  shows "shedder_ok s'"
proof (cases "lr_method req = ''GET'' \<and> lr_path req \<in> set HEALTH_PATHS")
  case True
  with assms show ?thesis by (simp add: ls_middleware_def)
next
  case False
  let ?r = "classifyRoute (lr_path req)"
  have r: "route_ok (getState ?r s)" "ls_active (getState ?r s) = in_flight ?r s"
    using ok by (auto simp: shedder_ok_def)
  show ?thesis
  proof (cases "allowed_concurrent (getState ?r s) (tierPriority req) \<le> ls_active (getState ?r s)")
    case True
    then obtain sh where s': "s' = put_route ?r (getState ?r s\<lparr>ls_shed := sh\<rparr>) s"
      using False out by (auto simp: ls_middleware_def Let_def)
    have "route_ok (getState ?r s\<lparr>ls_shed := sh\<rparr>)" using r(1) by (simp add: route_ok_def)
    then show ?thesis using ok r(2) by (simp add: shedder_ok_def s')
  next
    case room: False
    then have lt: "ls_active (getState ?r s) < MAX_LIMIT" by (simp add: allowed_concurrent_def)
    let ?a = "ls_active (getState ?r s) + 1"
    let ?st = "getState ?r s\<lparr>ls_active := ?a, ls_high := max (ls_high (getState ?r s)) ?a\<rparr>"
    let ?c = "\<lparr>cl_route = ?r, cl_started = now, cl_released = False\<rparr>"
    have s': "s' = (put_route ?r ?st s)\<lparr>ls_closures := ls_closures s @ [?c]\<rparr>"
      using False room out by (simp add: ls_middleware_def Let_def split: if_splits)
    have "route_ok ?st" using r(1) lt by (simp add: route_ok_def)
    moreover have "in_flight r' s' = in_flight r' s + (if r' = ?r then 1 else 0)" for r'
      by (simp add: s' in_flight_def)
    ultimately show ?thesis using ok r(2) by (simp add: shedder_ok_def s')
  qed
qed

lemma in_flight_closures: "in_flight r (s\<lparr>ls_closures := cs\<rparr>) = length (filter (\<lambda>c. cl_route c = r \<and> \<not> cl_released c) cs)"
  by (simp add: in_flight_def)

lemma release_in_flight:
  assumes i: "i < length (ls_closures s)" and open': "\<not> cl_released (ls_closures s ! i)"
  shows "in_flight r (release target now i s) =
           (if r = cl_route (ls_closures s ! i) then in_flight r s - 1 else in_flight r s)"
  using assms
  by (simp add: release_def Let_def in_flight_closures filter_update filter_update_other)
     (simp add: in_flight_def)

lemma release_ok:
  assumes ok: "shedder_ok s" and i: "i < length (ls_closures s)"
  shows "shedder_ok (release target now i s)"
proof (cases "cl_released (ls_closures s ! i)")
  case True
  with ok show ?thesis by (simp add: release_def)
next
  case False
  have "getState r (release target now i s) =
          (if r = cl_route (ls_closures s ! i)
           then release_route target (now - cl_started (ls_closures s ! i)) (getState r s) else getState r s)" for r
    using False by (simp add: release_def Let_def)
  with ok False show ?thesis
    by (simp add: shedder_ok_def release_in_flight [OF i False] release_route_ok)
qed

lemma ls_reachable_shedder_ok: "ls_reachable target s \<Longrightarrow> shedder_ok s"
proof (induction rule: ls_reachable.induct)
  case start
  show ?case by (rule start_ok)
next
  case (step s s')
  from step.hyps(2) step.IH show ?case by (auto elim!: ls_stepE intro: middleware_ok release_ok)
qed

lemma shed_iff:
  "fst (ls_middleware now req s) = Shed_503 \<longleftrightarrow>
     \<not> (lr_method req = ''GET'' \<and> lr_path req \<in> set HEALTH_PATHS) \<and>
     allowed_concurrent (getState (classifyRoute (lr_path req)) s) (tierPriority req)
       \<le> ls_active (getState (classifyRoute (lr_path req)) s)"
  by (simp add: ls_middleware_def Let_def)

subsection \<open>Properties\<close>

text \<open>
  Whatever requests arrive and whenever the responses finish or close (both events, in any order, even
  repeated), the counter of a route is the number of its admitted requests that have not ended, the adaptive limit
  stays between 5 and 1000, at most 1000 requests of a route are in flight, and a request is answered 503 exactly
  when it is no health probe and the requests in flight reach the limit plus the reserve of its tier.
\<close>

lemma shedder_counts_in_flight:
  assumes "ls_reachable target s"
  shows "ls_active (getState r s) = in_flight r s \<and>
         5 \<le> ls_limit (getState r s) \<and> ls_limit (getState r s) \<le> 1000 \<and> in_flight r s \<le> 1000 \<and>
         (fst (ls_middleware now req s) = Shed_503 \<longleftrightarrow>
            \<not> (lr_method req = ''GET'' \<and> lr_path req \<in> set HEALTH_PATHS) \<and>
            min 1000 (ls_limit (getState (classifyRoute (lr_path req)) s) + reserve_of (tierPriority req))
              \<le> in_flight (classifyRoute (lr_path req)) s)"
proof -
  have ok: "route_ok (getState r s)" "ls_active (getState r s) = in_flight r s" for r
    using ls_reachable_shedder_ok [OF assms] by (auto simp: shedder_ok_def)
  show ?thesis
    using ok(1) [of r] ok(2) by (simp add: shed_iff allowed_concurrent_def route_ok_def MIN_LIMIT_def MAX_LIMIT_def)
qed

definition example_request :: ls_request where
  "example_request = \<lparr>lr_method = ''GET'', lr_path = ''/api/sql'', lr_key = None, lr_tier = Some ''free''\<rparr>"

definition example_shedder :: shedder where
  "example_shedder = release 500 30 0 (snd (ls_middleware 10 example_request (createLoadShedder DEFAULT_LIMITS)))"

lemma shedder_counts_in_flight_witness:
  "ls_active (getState ''analytics'' example_shedder) = in_flight ''analytics'' example_shedder"
proof -
  have "ls_step 500 (createLoadShedder DEFAULT_LIMITS) (snd (ls_middleware 10 example_request (createLoadShedder DEFAULT_LIMITS)))"
    by (rule ls_step.request [where out = "fst (ls_middleware 10 example_request (createLoadShedder DEFAULT_LIMITS))"]) simp
  moreover have "0 < length (ls_closures (snd (ls_middleware 10 example_request (createLoadShedder DEFAULT_LIMITS))))"
    by code_simp
  ultimately have "ls_reachable 500 example_shedder"
    unfolding example_shedder_def by (blast intro: ls_reachable.intros ls_step.ending)
  then show ?thesis by (rule conjunct1 [OF shedder_counts_in_flight])
qed

text \<open>A slow window takes a fifth off the limit, down to the minimum; a saturated fast one adds a twentieth.\<close>

lemma adapt_slow:
  assumes "SAMPLE_WINDOW \<le> ls_completed st" "rat_of_int target * rat_of_nat (ls_completed st) < rat_of_int (ls_latency st)"
    "5 \<le> ls_limit st"
  shows "ls_limit (adapt target st) \<le> ls_limit st \<and> (5 < ls_limit st \<longrightarrow> ls_limit (adapt target st) < ls_limit st)"
proof -
  have "rat_of_int target < rat_of_int (ls_latency st) / rat_of_nat (ls_completed st)"
    using assms by (simp add: SAMPLE_WINDOW_def pos_less_divide_eq)
  then have "ls_limit (adapt target st) = max MIN_LIMIT (4 * ls_limit st div 5)"
    using assms(1) by (simp add: adapt_def Let_def)
  with assms(3) show ?thesis unfolding MIN_LIMIT_def by linarith
qed

end
