(* ===== verification/Request_Signing.thy ===== *)
theory Request_Signing
  imports Js_Number
begin

text \<open>
  auth/requestSigning.js: HMAC request signing with replay protection. SHA-256, HMAC and the random bytes of a new
  secret are parameters; the Postgres tables are lists of rows as the SQL statements use them, with one clock (in
  milliseconds) for the server and the database. A query that fails is the value \<open>None\<close>.
\<close>

subsection \<open>Signatures\<close>

record crypto =
  sha256Hex :: "string \<Rightarrow> string"
  hmac_hex :: "string \<Rightarrow> string \<Rightarrow> string"

record signing_headers =
  sh_key :: "string option"
  sh_timestamp :: "string option"
  sh_nonce :: "string option"
  sh_signature :: "string option"

definition canonicalString :: "crypto \<Rightarrow> string \<Rightarrow> string \<Rightarrow> string \<Rightarrow> string \<Rightarrow> string \<Rightarrow> string" where
  "canonicalString C meth path rawBody timestamp nonce =
     join [CHR 0x0A] [upper meth, path, sha256Hex C rawBody, timestamp, nonce]"

definition signRequest :: "crypto \<Rightarrow> string \<Rightarrow> string \<Rightarrow> string \<Rightarrow> string \<Rightarrow> string \<Rightarrow> string \<Rightarrow> string" where
  "signRequest C secret meth path body timestamp nonce =
     hmac_hex C secret (canonicalString C meth path body timestamp nonce)"

definition safeEqualHex :: "string \<Rightarrow> string \<Rightarrow> bool" where
  "safeEqualHex a b = (length a = length b \<and> a = b)"

definition nonce_char :: "char \<Rightarrow> bool" where
  "nonce_char c = (is_digit c \<or> (CHR ''A'' \<le> c \<and> c \<le> CHR ''Z'') \<or> (CHR ''a'' \<le> c \<and> c \<le> CHR ''z'') \<or>
                   c = CHR ''_'' \<or> c = CHR ''-'')"

definition valid_nonce :: "string \<Rightarrow> bool" where
  "valid_nonce n = (16 \<le> length n \<and> length n \<le> 128 \<and> list_all nonce_char n)"

datatype verdict = Verified string string | Refused nat string "int option"

definition header :: "string option \<Rightarrow> string option" where
  "header h = (case h of Some v \<Rightarrow> if v = [] then None else Some v | None \<Rightarrow> None)"

text \<open>The core; the storage operations are arguments, as in the code.\<close>

definition verifySignedRequest ::
  "crypto \<Rightarrow> signing_headers \<Rightarrow> string \<Rightarrow> string \<Rightarrow> string \<Rightarrow> int \<Rightarrow> int \<Rightarrow>
     (string \<Rightarrow> 's \<Rightarrow> (string list \<times> 's) option) \<Rightarrow> (string \<Rightarrow> string \<Rightarrow> int \<Rightarrow> 's \<Rightarrow> (bool \<times> 's) option) \<Rightarrow>
     's \<Rightarrow> verdict option \<times> 's" where
  "verifySignedRequest C h meth path rawBody nowSec skewSec getSecrets claimNonce s =
     (case (header (sh_key h), header (sh_timestamp h), header (sh_nonce h), header (sh_signature h)) of
        (Some keyId, Some timestamp, Some nonce, Some signature) \<Rightarrow>
          if \<not> valid_nonce nonce then (Some (Refused 400 ''invalid_nonce'' None), s)
          else
            (case is_integer (to_number timestamp) of
               None \<Rightarrow> (Some (Refused 401 ''stale_timestamp'' (Some nowSec)), s)
             | Some ts \<Rightarrow>
                 if \<bar>nowSec - ts\<bar> > skewSec then (Some (Refused 401 ''stale_timestamp'' (Some nowSec)), s)
                 else
                   (case getSecrets keyId s of
                      None \<Rightarrow> (None, s)
                    | Some (secrets, s1) \<Rightarrow>
                        if \<not> list_ex (\<lambda>secret. safeEqualHex (signRequest C secret meth path rawBody timestamp nonce)
                                                  (lower signature)) secrets
                        then (Some (Refused 401 ''invalid_signature'' None), s1)
                        else
                          (case claimNonce keyId nonce (skewSec * 2) s1 of
                             None \<Rightarrow> (None, s1)
                           | Some (True, s2) \<Rightarrow> (Some (Verified keyId nonce), s2)
                           | Some (False, s2) \<Rightarrow> (Some (Refused 409 ''nonce_reused'' None), s2))))
      | _ \<Rightarrow> (Some (Refused 401 ''signature_missing'' None), s))"

subsection \<open>Storage\<close>

definition SECRET_CACHE_MS :: int where "SECRET_CACHE_MS = 30000"
definition MAX_ACTIVE_SECRETS :: nat where "MAX_ACTIVE_SECRETS = 2"

record secret_row =
  sec_id :: nat
  sec_key :: string
  sec_secret :: string
  sec_created :: int
  sec_revoked :: "int option"
  sec_expires :: "int option"

record audit_row =
  au_outcome :: string
  au_reason :: "string option"
  au_key :: "string option"
  au_nonce :: "string option"

record signing =
  secret_rows :: "secret_row list"
  secretCache :: "string \<rightharpoonup> string list \<times> int"
  used_nonces :: "((string \<times> string) \<times> int) list"
  lastPrune :: int
  prunes_issued :: nat
  audit_log :: "audit_row list"

text \<open>\<open>ORDER BY created_at DESC LIMIT 2\<close>; rows of one instant come in table order.\<close>

definition newest :: "secret_row list \<Rightarrow> secret_row list" where
  "newest rs = take MAX_ACTIVE_SECRETS (sort_key (\<lambda>r. - sec_created r) rs)"

definition live_secret :: "int \<Rightarrow> string \<Rightarrow> secret_row \<Rightarrow> bool" where
  "live_secret now keyId r =
     (sec_key r = keyId \<and> sec_revoked r = None \<and> (case sec_expires r of None \<Rightarrow> True | Some e \<Rightarrow> now < e))"

text \<open>\<open>up\<close> says whether the query is answered.\<close>

definition getActiveSecrets :: "bool \<Rightarrow> int \<Rightarrow> string \<Rightarrow> signing \<Rightarrow> (string list \<times> signing) option" where
  "getActiveSecrets up now keyId s =
     (let query = (if up then
                     (let secrets = map sec_secret (newest (filter (live_secret now keyId) (secret_rows s)))
                      in Some (secrets, s\<lparr>secretCache := (secretCache s)(keyId \<mapsto> (secrets, now))\<rparr>))
                   else None)
      in case secretCache s keyId of
           Some (secrets, stored) \<Rightarrow> if now - stored < SECRET_CACHE_MS then Some (secrets, s) else query
         | None \<Rightarrow> query)"

definition claimNonceDb :: "int \<Rightarrow> string \<times> string \<Rightarrow> int \<Rightarrow> signing \<Rightarrow> bool \<times> signing" where
  "claimNonceDb now k ttlSec s =
     (if k \<in> fst ` set (used_nonces s) then (False, s)
      else (True, s\<lparr>used_nonces := used_nonces s @ [(k, now + ttlSec * 1000)]\<rparr>))"

definition pruneNonces :: "int \<Rightarrow> signing \<Rightarrow> signing" where
  "pruneNonces now s = s\<lparr>used_nonces := filter (\<lambda>(k, e). \<not> e < now) (used_nonces s)\<rparr>"

definition createSigningSecret :: "int \<Rightarrow> nat \<Rightarrow> string \<Rightarrow> string \<Rightarrow> signing \<Rightarrow> signing" where
  "createSigningSecret now i secret keyId s =
     (let rs = secret_rows s @ [\<lparr>sec_id = i, sec_key = keyId, sec_secret = secret, sec_created = now,
                                 sec_revoked = None, sec_expires = None\<rparr>];
          keep = map sec_id (newest (filter (\<lambda>r. sec_key r = keyId \<and> sec_revoked r = None) rs))
      in s\<lparr>secret_rows := map (\<lambda>r. if sec_key r = keyId \<and> sec_revoked r = None \<and> sec_id r \<notin> set keep
                                   then r\<lparr>sec_revoked := Some now\<rparr> else r) rs,
           secretCache := (secretCache s)(keyId := None)\<rparr>)"

subsection \<open>The middleware\<close>

record sign_request =
  sr_method :: string
  sr_url :: string
  sr_headers :: signing_headers
  sr_body :: string
  sr_key :: "string option"

record sign_config =
  SIGNING_ENFORCED :: bool
  SIGN_SKEW :: int

definition MUTATING :: "string list" where
  "MUTATING = [''POST'', ''PUT'', ''PATCH'', ''DELETE'']"

definition SIGNED_PATH :: "string \<Rightarrow> bool" where
  "SIGNED_PATH url =
     list_ex (\<lambda>p. prefix p url \<and> (drop (length p) url = [] \<or> hd (drop (length p) url) \<in> {CHR ''/'', CHR ''?''}))
       [''/api/contracts'', ''/api/admin'', ''/api/abi'']"

definition audit :: "string \<Rightarrow> string option \<Rightarrow> string option \<Rightarrow> string option \<Rightarrow> signing \<Rightarrow> signing" where
  "audit outcome reason keyId nonce s =
     s\<lparr>audit_log := audit_log s @ [\<lparr>au_outcome = outcome, au_reason = reason, au_key = keyId, au_nonce = nonce\<rparr>]\<rparr>"

text \<open>The request goes on, with the signing key when it was signed, or is answered.\<close>

datatype sign_outcome = Passes "string option" | Answers nat string "int option"

definition requestSigningMiddleware ::
  "crypto \<Rightarrow> sign_config \<Rightarrow> bool \<Rightarrow> bool \<Rightarrow> int \<Rightarrow> sign_request \<Rightarrow> signing \<Rightarrow> sign_outcome \<times> signing" where
  "requestSigningMiddleware C cfg up1 up2 now req s =
     (if sr_method req \<notin> set MUTATING \<or> \<not> SIGNED_PATH (sr_url req) then (Passes None, s)
      else let h = sr_headers req in
        if header (sh_signature h) = None \<and> header (sh_key h) = None \<and> \<not> SIGNING_ENFORCED cfg
        then (Passes None, audit ''signing_missing'' None None None s)
        else
          let s0 = (if now - lastPrune s > 60000
                    then s\<lparr>lastPrune := now, prunes_issued := prunes_issued s + 1\<rparr> else s)
          in case verifySignedRequest C h (sr_method req) (sr_url req) (sr_body req) (now div 1000) (SIGN_SKEW cfg)
                    (getActiveSecrets up1 now)
                    (\<lambda>keyId nonce ttl s. if up2 then Some (claimNonceDb now (keyId, nonce) ttl s) else None) s0 of
               (None, s1) \<Rightarrow> (Answers 503 ''signature_verification_unavailable'' None, s1)
             | (Some (Verified keyId nonce), s1) \<Rightarrow>
                 if (case header (sr_key req) of Some k \<Rightarrow> k \<noteq> keyId | None \<Rightarrow> False)
                 then (Answers 401 ''key_mismatch'' None, audit ''rejected'' (Some ''key_mismatch'') (Some keyId) (Some nonce) s1)
                 else (Passes (Some keyId), audit ''signed_ok'' None (Some keyId) (Some nonce) s1)
             | (Some (Refused status e t), s1) \<Rightarrow>
                 (Answers status e t, audit ''rejected'' (Some e) (sh_key h) None s1))"

subsection \<open>The nonce store as an interface\<close>

text \<open>
  What replay protection asks of a store: a claim wins exactly when the nonce is not held, the winner is held until
  its expiry, and pruning forgets only what has expired.
\<close>

locale nonce_store =
  fixes ok :: "'s \<Rightarrow> bool"
    and claim :: "int \<Rightarrow> 'k \<Rightarrow> int \<Rightarrow> 's \<Rightarrow> bool \<times> 's"
    and prune :: "int \<Rightarrow> 's \<Rightarrow> 's"
    and held :: "'s \<Rightarrow> 'k \<Rightarrow> int option"
  assumes claim_wins: "ok s \<Longrightarrow> fst (claim now k ttl s) \<longleftrightarrow> held s k = None"
    and claim_held: "ok s \<Longrightarrow> held (snd (claim now k ttl s)) k' =
                       (if k' = k \<and> held s k = None then Some (now + ttl * 1000) else held s k')"
    and claim_ok: "ok s \<Longrightarrow> ok (snd (claim now k ttl s))"
    and prune_held: "ok s \<Longrightarrow> held (prune now s) k =
                       (case held s k of Some e \<Rightarrow> if e < now then None else Some e | None \<Rightarrow> None)"
    and prune_ok: "ok s \<Longrightarrow> ok (prune now s)"
begin

lemma claim_keeps: "ok s \<Longrightarrow> held s k = Some e \<Longrightarrow> held (snd (claim now k' ttl s)) k = Some e"
  by (auto simp: claim_held)

lemma prune_keeps: "ok s \<Longrightarrow> held s k = Some e \<Longrightarrow> now \<le> e \<Longrightarrow> held (prune now s) k = Some e"
  by (simp add: prune_held)

lemma won_is_held: "ok s \<Longrightarrow> fst (claim now k ttl s) \<Longrightarrow> held (snd (claim now k ttl s)) k = Some (now + ttl * 1000)"
  by (simp add: claim_wins claim_held)

lemma held_is_refused: "ok s \<Longrightarrow> held s k = Some e \<Longrightarrow> \<not> fst (claim now k ttl s)"
  by (simp add: claim_wins)

end

definition nonces_ok :: "signing \<Rightarrow> bool" where
  "nonces_ok s = distinct (map fst (used_nonces s))"

definition nonce_held :: "signing \<Rightarrow> string \<times> string \<Rightarrow> int option" where
  "nonce_held s k = map_of (used_nonces s) k"

lemma map_of_filter_expiry:
  "distinct (map fst ns) \<Longrightarrow>
     map_of (filter (\<lambda>(k, e). \<not> e < now) ns) k =
       (case map_of ns k of Some e \<Rightarrow> if e < now then None else Some e | None \<Rightarrow> (None :: int option))"
proof (induction ns)
  case (Cons p ns)
  have "k \<notin> fst ` set ns \<Longrightarrow> map_of ns k = None" by (simp add: map_of_eq_None_iff)
  with Cons show ?case by (cases p) (auto split: option.splits)
qed simp

interpretation db: nonce_store nonces_ok claimNonceDb pruneNonces nonce_held
proof (unfold_locales, goal_cases)
  case (1 s now k ttl)
  then show ?case by (auto simp: claimNonceDb_def nonce_held_def map_of_eq_None_iff)
next
  case (2 s now k ttl k')
  have "map_of (used_nonces s) k = None \<longleftrightarrow> k \<notin> fst ` set (used_nonces s)" by (rule map_of_eq_None_iff)
  then show ?case
    by (auto simp: claimNonceDb_def nonce_held_def map_add_def split: option.splits)
next
  case (3 s now k ttl)
  then show ?case by (auto simp: claimNonceDb_def nonces_ok_def simp flip: set_map)
next
  case (4 s now k)
  then show ?case by (simp add: nonces_ok_def nonce_held_def pruneNonces_def map_of_filter_expiry)
next
  case (5 s now)
  then show ?case by (simp add: nonces_ok_def pruneNonces_def distinct_map_filter)
qed

lemma nonces_only:
  assumes "used_nonces s' = used_nonces s"
  shows "nonces_ok s' = nonces_ok s" "nonce_held s' = nonce_held s"
  using assms by (auto simp: nonces_ok_def nonce_held_def)

lemma claim_only_nonces:
  "used_nonces s' = used_nonces s \<Longrightarrow> fst (claimNonceDb now k ttl s') = fst (claimNonceDb now k ttl s)"
  "used_nonces s' = used_nonces s \<Longrightarrow> used_nonces (snd (claimNonceDb now k ttl s')) = used_nonces (snd (claimNonceDb now k ttl s))"
  by (auto simp: claimNonceDb_def)

lemma getActiveSecrets_nonces: "getActiveSecrets up now k s = Some (xs, s') \<Longrightarrow> used_nonces s' = used_nonces s"
  by (auto simp: getActiveSecrets_def Let_def split: option.splits if_splits)

lemma audit_nonces [simp]: "used_nonces (audit a b c d s) = used_nonces s"
  by (simp add: audit_def)

subsection \<open>What the middleware does to the nonces\<close>

definition db_verify ::
  "crypto \<Rightarrow> sign_config \<Rightarrow> bool \<Rightarrow> bool \<Rightarrow> int \<Rightarrow> sign_request \<Rightarrow> signing \<Rightarrow> verdict option \<times> signing" where
  "db_verify C cfg up1 up2 now req s =
     verifySignedRequest C (sr_headers req) (sr_method req) (sr_url req) (sr_body req) (now div 1000) (SIGN_SKEW cfg)
       (getActiveSecrets up1 now) (\<lambda>keyId nonce ttl s. if up2 then Some (claimNonceDb now (keyId, nonce) ttl s) else None) s"

lemma db_verify_nonces:
  assumes "db_verify C cfg up1 up2 now req s = (v, s')"
  shows "used_nonces s' = used_nonces s \<or>
         (\<exists>k. used_nonces s' = used_nonces (snd (claimNonceDb now k (SIGN_SKEW cfg * 2) s)))"
proof -
  have *: "getActiveSecrets up1 now key s = Some (xs, s1) \<Longrightarrow>
     used_nonces (snd (claimNonceDb now k ttl s1)) = used_nonces (snd (claimNonceDb now k ttl s))" for key xs s1 k ttl
    using claim_only_nonces(2) [OF getActiveSecrets_nonces] .
  show ?thesis
    using assms unfolding db_verify_def verifySignedRequest_def
    by (auto split: option.splits if_splits prod.splits bool.splits simp: getActiveSecrets_nonces) (metis * snd_conv)+
qed

lemma db_verify_accepts:
  assumes "db_verify C cfg up1 up2 now req s = (Some (Verified keyId nonce), s')"
  obtains ts timestamp where
    "header (sh_key (sr_headers req)) = Some keyId" "header (sh_nonce (sr_headers req)) = Some nonce"
    "header (sh_timestamp (sr_headers req)) = Some timestamp"
    "is_integer (to_number timestamp) = Some ts" "\<bar>now div 1000 - ts\<bar> \<le> SIGN_SKEW cfg"
    "fst (claimNonceDb now (keyId, nonce) (SIGN_SKEW cfg * 2) s)"
    "used_nonces s' = used_nonces (snd (claimNonceDb now (keyId, nonce) (SIGN_SKEW cfg * 2) s))"
proof -
  from assms obtain t ts xs s1 where
    h: "header (sh_key (sr_headers req)) = Some keyId" "header (sh_nonce (sr_headers req)) = Some nonce"
       "header (sh_timestamp (sr_headers req)) = Some t" "is_integer (to_number t) = Some ts"
       "\<not> SIGN_SKEW cfg < \<bar>now div 1000 - ts\<bar>"
    and g: "getActiveSecrets up1 now keyId s = Some (xs, s1)"
    and c: "claimNonceDb now (keyId, nonce) (SIGN_SKEW cfg * 2) s1 = (True, s')"
    unfolding db_verify_def verifySignedRequest_def
    by (auto split: option.splits if_splits prod.splits bool.splits)
  have n: "used_nonces s1 = used_nonces s" by (rule getActiveSecrets_nonces [OF g])
  show thesis
    by (rule that [OF h(1-4)])
       (use h(5) c claim_only_nonces [OF n, of now "(keyId, nonce)" "SIGN_SKEW cfg * 2"] in auto)
qed

definition prune_timer :: "int \<Rightarrow> signing \<Rightarrow> signing" where
  "prune_timer now s =
     (if now - lastPrune s > 60000 then s\<lparr>lastPrune := now, prunes_issued := prunes_issued s + 1\<rparr> else s)"

lemma prune_timer_nonces [simp]: "used_nonces (prune_timer now s) = used_nonces s"
  by (simp add: prune_timer_def)

lemma middleware_nonces:
  assumes "requestSigningMiddleware C cfg up1 up2 now req s = (out, s')"
  shows "used_nonces s' = used_nonces s \<or>
         (\<exists>k. used_nonces s' = used_nonces (snd (claimNonceDb now k (SIGN_SKEW cfg * 2) s)))"
proof -
  obtain v s1 where v: "db_verify C cfg up1 up2 now req (prune_timer now s) = (v, s1)" by fastforce
  have "used_nonces s' = used_nonces s \<or> used_nonces s' = used_nonces s1"
    using assms v unfolding requestSigningMiddleware_def db_verify_def [symmetric] prune_timer_def [symmetric] Let_def
    by (auto split: if_splits option.splits verdict.splits prod.splits)
  with db_verify_nonces [OF v] show ?thesis
    by (metis claim_only_nonces(2) prune_timer_nonces)
qed

lemma middleware_accepts:
  assumes "requestSigningMiddleware C cfg up1 up2 now req s = (Passes (Some keyId), s')"
  obtains nonce s1 where "db_verify C cfg up1 up2 now req (prune_timer now s) = (Some (Verified keyId nonce), s1)"
    "used_nonces s' = used_nonces s1"
proof -
  obtain v s1 where v: "db_verify C cfg up1 up2 now req (prune_timer now s) = (v, s1)" by fastforce
  show thesis
    using assms v unfolding requestSigningMiddleware_def db_verify_def [symmetric] prune_timer_def [symmetric] Let_def
    by (auto split: if_splits option.splits verdict.splits prod.splits intro: that)
qed

subsection \<open>Runs\<close>

text \<open>
  What happens to the store between two requests: other requests, the DELETE of a prune that a request issued
  (it is not awaited and may run at any later time), and rotations of secrets.
\<close>

inductive sg_step :: "crypto \<Rightarrow> sign_config \<Rightarrow> int \<Rightarrow> signing \<Rightarrow> signing \<Rightarrow> bool" for C cfg where
  sg_request: "requestSigningMiddleware C cfg up1 up2 now req s = (out, s') \<Longrightarrow> sg_step C cfg now s s'"
| sg_pruned: "0 < prunes_issued s \<Longrightarrow>
     sg_step C cfg now s ((pruneNonces now s)\<lparr>prunes_issued := prunes_issued s - 1\<rparr>)"
| sg_rotate: "sg_step C cfg now s (createSigningSecret now i secret keyId s)"

inductive_cases sg_stepE: "sg_step C cfg now s s'"

text \<open>A run from one instant to a later one.\<close>

inductive sg_run :: "crypto \<Rightarrow> sign_config \<Rightarrow> int \<Rightarrow> signing \<Rightarrow> int \<Rightarrow> signing \<Rightarrow> bool" for C cfg where
  sg_rest: "t \<le> t' \<Longrightarrow> sg_run C cfg t s t' s"
| sg_next: "sg_run C cfg t s u s1 \<Longrightarrow> sg_step C cfg u s1 s2 \<Longrightarrow> u \<le> t' \<Longrightarrow> sg_run C cfg t s t' s2"

lemma sg_step_keeps:
  assumes "sg_step C cfg now s s'" "nonces_ok s" "nonce_held s k = Some e" "now \<le> e"
  shows "nonces_ok s' \<and> nonce_held s' k = Some e"
  using assms(1)
proof (cases rule: sg_step.cases)
  case (sg_request up1 up2 req out)
  from middleware_nonces [OF this]
  show ?thesis
  proof
    assume "used_nonces s' = used_nonces s"
    from nonces_only [OF this] assms(2,3) show ?thesis by simp
  next
    assume "\<exists>k. used_nonces s' = used_nonces (snd (claimNonceDb now k (SIGN_SKEW cfg * 2) s))"
    then obtain k' where "used_nonces s' = used_nonces (snd (claimNonceDb now k' (SIGN_SKEW cfg * 2) s))" ..
    from nonces_only [OF this] show ?thesis
      by (simp add: db.claim_ok [OF assms(2)] db.claim_keeps [OF assms(2,3)])
  qed
next
  case sg_pruned
  then have "used_nonces s' = used_nonces (pruneNonces now s)" by simp
  from nonces_only [OF this] show ?thesis
    by (simp add: db.prune_ok [OF assms(2)] db.prune_keeps [OF assms(2-4)])
next
  case (sg_rotate i secret keyId)
  then have "used_nonces s' = used_nonces s" by (simp add: createSigningSecret_def Let_def)
  from nonces_only [OF this] assms(2,3) show ?thesis by simp
qed

lemma sg_run_keeps:
  assumes "sg_run C cfg t s t' s'" "nonces_ok s" "nonce_held s k = Some e" "t' \<le> e"
  shows "nonces_ok s' \<and> nonce_held s' k = Some e"
  using assms
proof (induction rule: sg_run.induct)
  case (sg_next t s u s1 s2 t')
  then have "nonces_ok s1 \<and> nonce_held s1 k = Some e" and "u \<le> e" by auto
  then show ?case using sg_step_keeps [OF sg_next.hyps(2)] by blast
qed simp

text \<open>
  C2. A signed request that was accepted is not accepted again: whatever other requests, prunes and rotations run in
  between, the same key, nonce and timestamp are refused as long as the first acceptance was not in the very first
  second of the timestamp's window.
\<close>

theorem signed_replay_refused:
  assumes first: "requestSigningMiddleware C cfg up1 up2 now req s = (Passes (Some keyId), s1)"
    and ok: "nonces_ok s"
    and inside: "header (sh_timestamp (sr_headers req)) = Some timestamp" "is_integer (to_number timestamp) = Some ts"
      "ts - SIGN_SKEW cfg < now div 1000"
    and run: "sg_run C cfg now s1 later s2"
    and same: "sr_headers req' = sr_headers req"
  shows "fst (requestSigningMiddleware C cfg up1' up2' later req' s2) \<noteq> Passes (Some keyId')"
proof
  assume "fst (requestSigningMiddleware C cfg up1' up2' later req' s2) = Passes (Some keyId')"
  then obtain s3 where second: "requestSigningMiddleware C cfg up1' up2' later req' s2 = (Passes (Some keyId'), s3)"
    by (metis prod.collapse)
  from middleware_accepts [OF first] obtain nonce s1' where v: "db_verify C cfg up1 up2 now req (prune_timer now s) =
      (Some (Verified keyId nonce), s1')" "used_nonces s1 = used_nonces s1'" .
  from middleware_accepts [OF second] obtain nonce' s3' where v': "db_verify C cfg up1' up2' later req' (prune_timer later s2) =
      (Some (Verified keyId' nonce'), s3')" .
  let ?k = "(keyId, nonce)" and ?e = "now + SIGN_SKEW cfg * 2 * 1000"
  from db_verify_accepts [OF v(1)] obtain t1 where a: "header (sh_key (sr_headers req)) = Some keyId"
      "header (sh_nonce (sr_headers req)) = Some nonce" "fst (claimNonceDb now ?k (SIGN_SKEW cfg * 2) (prune_timer now s))"
      "used_nonces s1' = used_nonces (snd (claimNonceDb now ?k (SIGN_SKEW cfg * 2) (prune_timer now s)))"
    by metis
  from db_verify_accepts [OF v'] obtain ts' timestamp' where b: "header (sh_key (sr_headers req')) = Some keyId'"
      "header (sh_nonce (sr_headers req')) = Some nonce'" "header (sh_timestamp (sr_headers req')) = Some timestamp'"
      "is_integer (to_number timestamp') = Some ts'" "\<bar>later div 1000 - ts'\<bar> \<le> SIGN_SKEW cfg"
      "fst (claimNonceDb later (keyId', nonce') (SIGN_SKEW cfg * 2) (prune_timer later s2))" .
  have same': "keyId' = keyId" "nonce' = nonce" "ts' = ts" using a b inside same by auto
  have ok1: "nonces_ok (prune_timer now s)" using ok by (simp add: nonces_ok_def)
  have "used_nonces s1 = used_nonces (snd (claimNonceDb now ?k (SIGN_SKEW cfg * 2) (prune_timer now s)))"
    using a(4) v(2) by simp
  from nonces_only [OF this] have held: "nonces_ok s1" "nonce_held s1 ?k = Some ?e"
    by (simp_all add: db.won_is_held [OF ok1 a(3)] db.claim_ok [OF ok1])
  have "later \<le> ?e"
    using b(5) inside(3) same'(3) by linarith
  from sg_run_keeps [OF run held this] have "nonces_ok s2" "nonce_held s2 ?k = Some ?e" by simp_all
  then have "nonces_ok (prune_timer later s2)" "nonce_held (prune_timer later s2) ?k = Some ?e"
    by (simp_all add: nonces_only [OF prune_timer_nonces])
  from db.held_is_refused [OF this] b(6) same' show False by simp
qed

subsection \<open>A concrete client\<close>

definition toy_crypto :: crypto where
  "toy_crypto = \<lparr>sha256Hex = (\<lambda>s. s), hmac_hex = (\<lambda>k m. lower (k @ m))\<rparr>"

definition skew_300 :: sign_config where
  "skew_300 = \<lparr>SIGNING_ENFORCED = True, SIGN_SKEW = 300\<rparr>"

definition signed_example :: sign_request where
  "signed_example =
     \<lparr>sr_method = ''POST'', sr_url = ''/api/contracts'',
      sr_headers = \<lparr>sh_key = Some ''7'', sh_timestamp = Some ''1000'', sh_nonce = Some ''abcdefghijklmnop'',
        sh_signature = Some (signRequest toy_crypto ''s'' ''POST'' ''/api/contracts'' [] ''1000'' ''abcdefghijklmnop'')\<rparr>,
      sr_body = [], sr_key = None\<rparr>"

definition signing_start :: signing where
  "signing_start = \<lparr>secret_rows = [], secretCache = Map.empty, used_nonces = [], lastPrune = 0, prunes_issued = 0, audit_log = []\<rparr>"

definition signing_ready :: signing where
  "signing_ready = createSigningSecret 0 1 ''s'' ''7'' signing_start"

definition after_first :: "int \<Rightarrow> signing" where
  "after_first now = snd (requestSigningMiddleware toy_crypto skew_300 True True now signed_example signing_ready)"

lemma timestamp_1000: "is_integer (to_number ''1000'') = Some 1000"
  by (simp add: to_number_def trim_def js_space_def unsigned_value_def mantissa_value_def undec_def is_digit_def
      digit_val_def lower_char_def)

lemma lower_lower: "lower (lower s) = lower s"
  by (induction s) (simp_all add: lower_def lower_char_def)

lemma example_checks:
  "valid_nonce ''abcdefghijklmnop''"
  "SIGNED_PATH ''/api/contracts''"
  "safeEqualHex (signRequest toy_crypto secret meth url body t n) (lower (signRequest toy_crypto secret meth url body t n))"
  "signRequest toy_crypto ''s'' meth url body t n \<noteq> []"
  by (simp_all add: valid_nonce_def nonce_char_def is_digit_def less_eq_char_def SIGNED_PATH_def safeEqualHex_def
      signRequest_def toy_crypto_def lower_lower) (simp add: lower_def)

lemmas example_defs = requestSigningMiddleware_def verifySignedRequest_def signed_example_def skew_300_def
  MUTATING_def header_def Let_def timestamp_1000 example_checks claimNonceDb_def audit_def

lemma signing_ready_nonces: "used_nonces signing_ready = []" "lastPrune signing_ready = 0" "prunes_issued signing_ready = 0"
  by (simp_all add: signing_ready_def signing_start_def createSigningSecret_def Let_def)

lemma ready_secrets_pruned: "getActiveSecrets True now ''7'' (signing_ready\<lparr>lastPrune := now, prunes_issued := 1\<rparr>) =
    Some ([''s''], signing_ready\<lparr>lastPrune := now, prunes_issued := 1,
       secretCache := (secretCache signing_ready)(''7'' \<mapsto> ([''s''], now))\<rparr>)"
  by (simp add: getActiveSecrets_def signing_ready_def signing_start_def createSigningSecret_def newest_def
      live_secret_def MAX_ACTIVE_SECRETS_def Let_def)

lemma example_first:
  assumes "60000 < now" "\<bar>now div 1000 - 1000\<bar> \<le> 300"
  shows "requestSigningMiddleware toy_crypto skew_300 True True now signed_example signing_ready =
     (Passes (Some ''7''),
      audit ''signed_ok'' None (Some ''7'') (Some ''abcdefghijklmnop'')
        (signing_ready\<lparr>lastPrune := now, prunes_issued := 1,
           secretCache := (secretCache signing_ready)(''7'' \<mapsto> ([''s''], now)),
           used_nonces := [((''7'', ''abcdefghijklmnop''), now + 600000)]\<rparr>))"
  using assms
  by (simp add: example_defs signing_ready_nonces ready_secrets_pruned [unfolded One_nat_def])

theorem signed_replay_refused_witness:
  "fst (requestSigningMiddleware toy_crypto skew_300 True True 1300999 signed_example
          (snd (requestSigningMiddleware toy_crypto skew_300 True True 1000500 signed_example signing_ready)))
     \<noteq> Passes (Some ''7'')"
proof (rule signed_replay_refused)
  show "requestSigningMiddleware toy_crypto skew_300 True True 1000500 signed_example signing_ready =
      (Passes (Some ''7''), snd (requestSigningMiddleware toy_crypto skew_300 True True 1000500 signed_example signing_ready))"
    by (subst (1 2) example_first) simp_all
  show "nonces_ok signing_ready" by (simp add: nonces_ok_def signing_ready_nonces)
  show "header (sh_timestamp (sr_headers signed_example)) = Some ''1000''" by (simp add: signed_example_def header_def)
  show "is_integer (to_number ''1000'') = Some 1000" by (rule timestamp_1000)
  show "1000 - SIGN_SKEW skew_300 < 1000500 div 1000" by (simp add: skew_300_def)
  show "sg_run toy_crypto skew_300 1000500
      (snd (requestSigningMiddleware toy_crypto skew_300 True True 1000500 signed_example signing_ready)) 1300999
      (snd (requestSigningMiddleware toy_crypto skew_300 True True 1000500 signed_example signing_ready))"
    by (rule sg_rest) simp
qed simp

text \<open>
  The first second of the window is not protected: a nonce is kept for twice the skew from the millisecond of
  its use, while the timestamp is compared in whole seconds, so a request accepted at the start of its window and
  pruned 600.001 seconds later is accepted a second time, half a second before its timestamp goes stale.
\<close>

lemma signed_replay_window:
  "\<exists>s1 s2. requestSigningMiddleware toy_crypto skew_300 True True 700000 signed_example signing_ready = (Passes (Some ''7''), s1) \<and>
     sg_run toy_crypto skew_300 700000 s1 1300500 s2 \<and>
     fst (requestSigningMiddleware toy_crypto skew_300 True True 1300500 signed_example s2) = Passes (Some ''7'')"
proof -
  define s1 where "s1 = snd (requestSigningMiddleware toy_crypto skew_300 True True 700000 signed_example signing_ready)"
  define s2 where "s2 = (pruneNonces 1300001 s1)\<lparr>prunes_issued := prunes_issued s1 - 1\<rparr>"
  have s1: "s1 = audit ''signed_ok'' None (Some ''7'') (Some ''abcdefghijklmnop'')
        (signing_ready\<lparr>lastPrune := 700000, prunes_issued := 1,
           secretCache := (secretCache signing_ready)(''7'' \<mapsto> ([''s''], 700000)),
           used_nonces := [((''7'', ''abcdefghijklmnop''), 1300000)]\<rparr>)"
    unfolding s1_def by (subst example_first) simp_all
  have first: "requestSigningMiddleware toy_crypto skew_300 True True 700000 signed_example signing_ready = (Passes (Some ''7''), s1)"
    unfolding s1_def by (subst (1 2) example_first) simp_all
  have "sg_step toy_crypto skew_300 1300001 s1 s2"
    unfolding s2_def by (rule sg_pruned) (simp add: s1 audit_def)
  then have run: "sg_run toy_crypto skew_300 700000 s1 1300500 s2"
    by (rule sg_next [rotated]) (auto intro: sg_rest)
  have n: "used_nonces s2 = []" by (simp add: s2_def s1 pruneNonces_def audit_def)
  have g: "getActiveSecrets True 1300500 ''7'' (s2\<lparr>lastPrune := 1300500, prunes_issued := Suc (prunes_issued s2)\<rparr>) =
      Some ([''s''], s2\<lparr>lastPrune := 1300500, prunes_issued := Suc (prunes_issued s2),
        secretCache := (secretCache s2)(''7'' \<mapsto> ([''s''], 1300500))\<rparr>)"
    by (simp add: getActiveSecrets_def s2_def s1 pruneNonces_def audit_def SECRET_CACHE_MS_def signing_ready_def
        signing_start_def createSigningSecret_def newest_def live_secret_def MAX_ACTIVE_SECRETS_def Let_def)
  have "lastPrune s2 = 700000" by (simp add: s2_def s1 pruneNonces_def audit_def)
  then have "fst (requestSigningMiddleware toy_crypto skew_300 True True 1300500 signed_example s2) = Passes (Some ''7'')"
    by (simp add: example_defs g n)
  with first run show ?thesis by blast
qed

subsection \<open>What a signature binds\<close>

lemma append_newline_eq:
  assumes "a @ CHR 0x0A # x = b @ CHR 0x0A # y" "CHR 0x0A \<notin> set a" "CHR 0x0A \<notin> set b"
  shows "a = b \<and> x = y"
  using assms
proof (induction a arbitrary: b)
  case Nil
  then show ?case by (cases b) auto
next
  case (Cons c a)
  then show ?case by (cases b) auto
qed

lemma newline_upper: "CHR 0x0A = upper_char c \<longleftrightarrow> c = CHR 0x0A"
proof
  assume a: "CHR 0x0A = upper_char c"
  show "c = CHR 0x0A"
  proof (cases "97 \<le> (of_char c :: nat) \<and> (of_char c :: nat) \<le> 122")
    case True
    then have "of_char c - 32 < (256 :: nat)" by linarith
    with True have "(of_char (upper_char c) :: nat) = of_char c - 32" by (simp add: upper_char_def of_char_of mod_less)
    moreover have "(of_char (upper_char c) :: nat) = 10" by (simp flip: a)
    ultimately show ?thesis using True by linarith
  next
    case False
    with a show ?thesis by (auto simp: upper_char_def)
  qed
qed (simp add: upper_char_def)

text \<open>
  The string that is signed determines the method (up to case), the path with its query, the hash of the body,
  the timestamp and the nonce: two requests whose header and path texts hold no line break and whose canonical
  strings agree agree in all five.
\<close>

lemma canonical_binds_request:
  assumes "canonicalString C m p b t n = canonicalString C m' p' b' t' n'"
    and "CHR 0x0A \<notin> set m \<union> set p \<union> set t \<union> set (sha256Hex C b)"
    and "CHR 0x0A \<notin> set m' \<union> set p' \<union> set t' \<union> set (sha256Hex C b')"
  shows "upper m = upper m' \<and> p = p' \<and> sha256Hex C b = sha256Hex C b' \<and> t = t' \<and> n = n'"
proof -
  have up: "CHR 0x0A \<notin> set x \<Longrightarrow> CHR 0x0A \<notin> set (upper x)" for x
    by (simp only: upper_def set_map image_iff newline_upper) blast
  show ?thesis
    using assms(1) up [of m] up [of m'] assms(2,3)
    by (auto simp: canonicalString_def dest!: append_newline_eq)
qed

lemma canonical_binds_request_witness:
  "upper ''post'' = upper ''POST'' \<and> ''/api/abi'' = ''/api/abi'' \<and>
   sha256Hex toy_crypto ''{}'' = sha256Hex toy_crypto ''{}'' \<and> ''9'' = ''9'' \<and> ''n'' = ''n''"
  by (rule canonical_binds_request [where C = toy_crypto and m = "''post''" and m' = "''POST''"])
     (simp_all add: canonicalString_def toy_crypto_def upper_def upper_char_def, code_simp?)

subsection \<open>Rotation\<close>

lemma sort_key_snoc_least: "\<forall>x \<in> set xs. f y < f x \<Longrightarrow> sort_key f (xs @ [y]) = y # sort_key f xs"
  by (induction xs) auto

lemma take_newest: "set (newest rs) \<subseteq> set rs" "length (newest rs) \<le> 2"
  by (auto simp: newest_def MAX_ACTIVE_SECRETS_def dest: in_set_takeD)

text \<open>
  Creating a signing secret leaves at most two unrevoked secrets of the key, the new one among them when it is
  newer than the others, and touches no other key.
\<close>

lemma rotation_keeps_two:
  assumes "distinct (map sec_id (secret_rows s))" "i \<notin> sec_id ` set (secret_rows s)"
    and "\<forall>r \<in> set (secret_rows s). sec_created r < now"
  shows "length (filter (\<lambda>r. sec_key r = k \<and> sec_revoked r = None) (secret_rows (createSigningSecret now i secret k s))) \<le> 2 \<and>
         (\<exists>r \<in> set (secret_rows (createSigningSecret now i secret k s)).
             sec_secret r = secret \<and> sec_key r = k \<and> sec_revoked r = None) \<and>
         filter (\<lambda>r. sec_key r \<noteq> k) (secret_rows (createSigningSecret now i secret k s)) =
           filter (\<lambda>r. sec_key r \<noteq> k) (secret_rows s)"
proof -
  define new where "new = \<lparr>sec_id = i, sec_key = k, sec_secret = secret, sec_created = now,
                           sec_revoked = None, sec_expires = None\<rparr>"
  define rs where "rs = secret_rows s @ [new]"
  define act where "act = filter (\<lambda>r. sec_key r = k \<and> sec_revoked r = None) rs"
  define keep where "keep = map sec_id (newest act)"
  define upd :: "secret_row \<Rightarrow> secret_row" where "upd = (\<lambda>r. if sec_key r = k \<and> sec_revoked r = None \<and> sec_id r \<notin> set keep
                               then r\<lparr>sec_revoked := Some now\<rparr> else r)"
  have rows: "secret_rows (createSigningSecret now i secret k s) = map upd rs"
    unfolding upd_def keep_def act_def rs_def new_def createSigningSecret_def Let_def by simp
  have dist: "distinct (map sec_id rs)" using assms(1,2) by (auto simp: rs_def new_def)
  have "filter (\<lambda>r. sec_key r = k \<and> sec_revoked r = None) (map upd rs) = filter (\<lambda>r. sec_id r \<in> set keep) act"
    unfolding act_def by (induction rs) (auto simp: upd_def)
  moreover have "length (filter (\<lambda>r. sec_id r \<in> set keep) act) \<le> 2"
  proof -
    have "distinct (map sec_id act)" unfolding act_def using dist by (rule distinct_map_filter)
    then have d: "distinct (map sec_id (filter (\<lambda>r. sec_id r \<in> set keep) act))" by (rule distinct_map_filter)
    have "set (map sec_id (filter (\<lambda>r. sec_id r \<in> set keep) act)) \<subseteq> set keep" by auto
    then have "card (set (map sec_id (filter (\<lambda>r. sec_id r \<in> set keep) act))) \<le> card (set keep)"
      by (rule card_mono [rotated]) simp
    also have "card (set keep) \<le> length keep" by (rule card_length)
    also have "length keep \<le> 2" using take_newest(2) by (simp add: keep_def)
    finally show ?thesis using distinct_card [OF d] by simp
  qed
  moreover have "new \<in> set (newest act)"
  proof -
    have act: "act = filter (\<lambda>r. sec_key r = k \<and> sec_revoked r = None) (secret_rows s) @ [new]"
      by (simp add: act_def rs_def new_def)
    have "\<forall>r \<in> set (filter (\<lambda>r. sec_key r = k \<and> sec_revoked r = None) (secret_rows s)). - sec_created new < - sec_created r"
      using assms(3) by (auto simp: new_def)
    then have "sort_key (\<lambda>r. - sec_created r) act =
        new # sort_key (\<lambda>r. - sec_created r) (filter (\<lambda>r. sec_key r = k \<and> sec_revoked r = None) (secret_rows s))"
      unfolding act by (rule sort_key_snoc_least)
    then show ?thesis by (simp add: newest_def MAX_ACTIVE_SECRETS_def)
  qed
  then have "upd new = new" by (auto simp: upd_def keep_def)
  then have "new \<in> set (map upd rs)" by (force simp: rs_def)
  then have "\<exists>r \<in> set (map upd rs). sec_secret r = secret \<and> sec_key r = k \<and> sec_revoked r = None"
    by (rule bexI [rotated]) (simp add: new_def)
  moreover have "filter (\<lambda>r. sec_key r \<noteq> k) (map upd rs) = filter (\<lambda>r. sec_key r \<noteq> k) rs"
    by (induction rs) (auto simp: upd_def)
  moreover have "filter (\<lambda>r. sec_key r \<noteq> k) rs = filter (\<lambda>r. sec_key r \<noteq> k) (secret_rows s)"
    by (simp add: rs_def new_def)
  ultimately show ?thesis unfolding rows by (metis (no_types, lifting))
qed

lemma rotation_keeps_two_witness:
  "length (filter (\<lambda>r. sec_key r = ''7'' \<and> sec_revoked r = None)
     (secret_rows (createSigningSecret 5 2 ''t'' ''7'' signing_ready))) \<le> 2"
proof (rule rotation_keeps_two [THEN conjunct1])
  show "distinct (map sec_id (secret_rows signing_ready))" "2 \<notin> sec_id ` set (secret_rows signing_ready)"
    "\<forall>r \<in> set (secret_rows signing_ready). sec_created r < 5"
    by (simp_all add: signing_ready_def signing_start_def createSigningSecret_def Let_def)
qed

end
