(* ===== verification/Gap_Predictor.thy ===== *)
theory Gap_Predictor
  imports Complex_Main Js_Prelude
begin

text \<open>
  predictiveGapDetector.js: the rolling history of ledger arrivals, overdue prediction, gap detection in a sorted
  list of ledgers and catch-up estimation. Times are integers in milliseconds, averages exact rationals; the module
  variables are the record \<open>predictor\<close>, the thresholds of config.js the record \<open>gap_config\<close>.
\<close>

record gap_config =
  PREDICTIVE_GAP_THRESHOLD :: int
  PREDICTIVE_HISTORY_SIZE :: nat

record arrival =
  ar_ledger :: int
  ar_at :: int

record predictor =
  history :: "arrival list"
  lastLedger :: int
  lastLedgerAt :: int

definition reset :: predictor where
  "reset = \<lparr>history = [], lastLedger = 0, lastLedgerAt = 0\<rparr>"

definition recordLedger :: "gap_config \<Rightarrow> int \<Rightarrow> int \<Rightarrow> predictor \<Rightarrow> predictor" where
  "recordLedger cfg now ledger p =
     (if ledger > lastLedger p
      then let h = history p @ [\<lparr>ar_ledger = ledger, ar_at = now\<rparr>]
           in \<lparr>history = (if length h > PREDICTIVE_HISTORY_SIZE cfg then tl h else h), lastLedger = ledger, lastLedgerAt = now\<rparr>
      else p)"

text \<open>The summation loop of the average.\<close>

fun interval_sum :: "arrival list \<Rightarrow> int" where
  "interval_sum (a # b # h) = (ar_at b - ar_at a) + interval_sum (b # h)"
| "interval_sum _ = 0"

definition avgInterLedgerMs :: "predictor \<Rightarrow> rat option" where
  "avgInterLedgerMs p =
     (if length (history p) < 2 then None
      else Some (of_int (interval_sum (history p)) / of_nat (length (history p) - 1)))"

record prediction =
  overdue :: bool
  expectedLedger :: int
  overdueByMs :: rat

definition checkOverdue :: "int \<Rightarrow> predictor \<Rightarrow> prediction option" where
  "checkOverdue now p =
     (case avgInterLedgerMs p of
        None \<Rightarrow> None
      | Some avg \<Rightarrow>
          if avg = 0 \<or> lastLedgerAt p = 0 then None
          else let expectedAt = of_int (lastLedgerAt p) + avg;
                   by_ms = max 0 (of_int now - expectedAt)
               in Some \<lparr>overdue = by_ms > avg, expectedLedger = lastLedger p + 1, overdueByMs = by_ms\<rparr>)"

record gap =
  gap_from :: int
  gap_to :: int
  gap_size :: int

fun detectGaps :: "gap_config \<Rightarrow> int list \<Rightarrow> gap list" where
  "detectGaps cfg (a # b # ls) =
     (let diff = b - a in
      (if diff > 1 \<and> diff - 1 \<ge> PREDICTIVE_GAP_THRESHOLD cfg
       then [\<lparr>gap_from = a + 1, gap_to = b - 1, gap_size = diff - 1\<rparr>] else []) @ detectGaps cfg (b # ls))"
| "detectGaps cfg _ = []"

record catchup =
  estimatedMs :: rat
  estimatedSec :: rat

definition estimateCatchupTime :: "int \<Rightarrow> rat option \<Rightarrow> predictor \<Rightarrow> catchup option" where
  "estimateCatchupTime gapSize avgMs p =
     (case (case avgMs of Some a \<Rightarrow> Some a | None \<Rightarrow> avgInterLedgerMs p) of
        None \<Rightarrow> None
      | Some interval \<Rightarrow>
          if interval = 0 then None
          else Some \<lparr>estimatedMs = of_int gapSize * interval, estimatedSec = of_int gapSize * interval / 1000\<rparr>)"

definition largest_gap :: "gap list \<Rightarrow> gap option" where
  "largest_gap gs =
     foldl (\<lambda>m g. if gap_size g > (case m of Some x \<Rightarrow> gap_size x | None \<Rightarrow> 0) then Some g else m) None gs"

record analysis =
  an_overdue :: bool
  an_prediction :: "prediction option"
  an_gaps :: "gap list"
  an_catchup :: "catchup option"

definition analyze :: "gap_config \<Rightarrow> int \<Rightarrow> int list \<Rightarrow> predictor \<Rightarrow> analysis" where
  "analyze cfg now recent p =
     (let pr = checkOverdue now p; gs = detectGaps cfg recent
      in \<lparr>an_overdue = (case pr of Some x \<Rightarrow> overdue x | None \<Rightarrow> False), an_prediction = pr, an_gaps = gs,
          an_catchup = (case largest_gap gs of Some g \<Rightarrow> estimateCatchupTime (gap_size g) None p | None \<Rightarrow> None)\<rparr>)"

subsection \<open>The history\<close>

text \<open>What recording keeps: a bounded history of strictly ascending ledgers that ends in the last one.\<close>

definition predictor_ok :: "gap_config \<Rightarrow> predictor \<Rightarrow> bool" where
  "predictor_ok cfg p =
     (length (history p) \<le> PREDICTIVE_HISTORY_SIZE cfg \<and> sorted_wrt (<) (map ar_ledger (history p)) \<and>
      (\<forall>a \<in> set (history p). ar_ledger a \<le> lastLedger p) \<and>
      (history p \<noteq> [] \<longrightarrow> ar_at (last (history p)) = lastLedgerAt p \<and> ar_ledger (last (history p)) = lastLedger p))"

lemma interval_sum_telescopes: "h \<noteq> [] \<Longrightarrow> interval_sum h = ar_at (last h) - ar_at (hd h)"
  by (induction h rule: interval_sum.induct) auto

lemma recordLedger_ok:
  assumes "predictor_ok cfg p" "0 < PREDICTIVE_HISTORY_SIZE cfg"
  shows "predictor_ok cfg (recordLedger cfg now ledger p)"
proof (cases "ledger > lastLedger p")
  case False
  with assms show ?thesis by (simp add: recordLedger_def)
next
  case True
  define h where "h = history p @ [\<lparr>ar_ledger = ledger, ar_at = now\<rparr>]"
  have h: "sorted_wrt (<) (map ar_ledger h)" "\<forall>a \<in> set h. ar_ledger a \<le> ledger" "last h = \<lparr>ar_ledger = ledger, ar_at = now\<rparr>"
    using assms True by (auto simp: h_def predictor_ok_def sorted_wrt_append)
  have len: "length h \<le> Suc (PREDICTIVE_HISTORY_SIZE cfg)"
    using assms by (simp add: h_def predictor_ok_def)
  have tl: "tl h \<noteq> []" if "PREDICTIVE_HISTORY_SIZE cfg < length h"
    using that assms(2) by (cases h; cases "tl h") auto
  obtain a h' where "h = a # h'" unfolding h_def by (cases "history p") auto
  with h have t: "sorted_wrt (<) (map ar_ledger (tl h))" "\<forall>a \<in> set (tl h). ar_ledger a \<le> ledger"
    "tl h \<noteq> [] \<Longrightarrow> last (tl h) = \<lparr>ar_ledger = ledger, ar_at = now\<rparr>" by auto
  from True show ?thesis
    unfolding recordLedger_def h_def [symmetric] Let_def predictor_ok_def
    using h t len tl by auto
qed

text \<open>A run of recordings.\<close>

definition record_all :: "gap_config \<Rightarrow> (int \<times> int) list \<Rightarrow> predictor \<Rightarrow> predictor" where
  "record_all cfg xs p = foldl (\<lambda>p (now, ledger). recordLedger cfg now ledger p) p xs"

lemma record_all_ok:
  "predictor_ok cfg p \<Longrightarrow> 0 < PREDICTIVE_HISTORY_SIZE cfg \<Longrightarrow> predictor_ok cfg (record_all cfg xs p)"
  by (induction xs arbitrary: p) (auto simp: record_all_def recordLedger_ok)

lemma reset_ok: "predictor_ok cfg reset"
  by (simp add: predictor_ok_def reset_def)

text \<open>
  After any recordings from a reset, the history holds at most HISTORY_SIZE entries in strictly ascending ledger
  order, and the average interval is the time from its first to its last arrival over the number of steps between
  them, undefined exactly while there are fewer than two entries.
\<close>

lemma average_interval_of_window:
  assumes "0 < PREDICTIVE_HISTORY_SIZE cfg" and "p = record_all cfg xs reset"
  shows "length (history p) \<le> PREDICTIVE_HISTORY_SIZE cfg \<and> sorted_wrt (<) (map ar_ledger (history p)) \<and>
         avgInterLedgerMs p =
           (if length (history p) < 2 then None
            else Some (of_int (lastLedgerAt p - ar_at (hd (history p))) / of_nat (length (history p) - 1)))"
proof -
  have ok: "predictor_ok cfg p" unfolding assms(2) by (rule record_all_ok [OF reset_ok assms(1)])
  then have "interval_sum (history p) = lastLedgerAt p - ar_at (hd (history p))" if "\<not> length (history p) < 2"
  proof -
    from that have "history p \<noteq> []" by auto
    with ok interval_sum_telescopes show ?thesis by (simp add: predictor_ok_def)
  qed
  with ok show ?thesis by (simp add: avgInterLedgerMs_def predictor_ok_def)
qed

lemma average_interval_of_window_witness:
  "avgInterLedgerMs (record_all \<lparr>PREDICTIVE_GAP_THRESHOLD = 3, PREDICTIVE_HISTORY_SIZE = 2\<rparr> [(10, 1), (15, 2), (21, 4)] reset)
     = Some 6"
  using average_interval_of_window [of "\<lparr>PREDICTIVE_GAP_THRESHOLD = 3, PREDICTIVE_HISTORY_SIZE = 2\<rparr>" _
      "[(10, 1), (15, 2), (21, 4)]", OF _ refl]
  by (simp add: record_all_def recordLedger_def reset_def)

subsection \<open>Gaps\<close>

text \<open>The ledgers around \<open>n\<close> that were observed, with nothing between them.\<close>

definition surrounds :: "int list \<Rightarrow> int \<Rightarrow> int \<Rightarrow> int \<Rightarrow> bool" where
  "surrounds ls a b n = (a \<in> set ls \<and> b \<in> set ls \<and> a < n \<and> n < b \<and> (\<forall>x \<in> set ls. \<not> (a < x \<and> x < b)))"

lemma surrounds_Cons:
  assumes "sorted (a # b # ls)"
  shows "surrounds (a # b # ls) x y n \<longleftrightarrow> (x = a \<and> y = b \<and> a < n \<and> n < b) \<or> surrounds (b # ls) x y n"
proof -
  have s: "a \<le> b" "\<forall>z \<in> set ls. b \<le> z" using assms by auto
  then show ?thesis unfolding surrounds_def by (auto; force)
qed

text \<open>
  On an ascending list of ledgers a ledger lies in a reported gap exactly when it is missing between two observed
  neighbours that have at least GAP_THRESHOLD ledgers missing between them.
\<close>

lemma gaps_are_missing_runs:
  assumes "sorted ledgers"
  shows "(\<exists>g \<in> set (detectGaps cfg ledgers). gap_from g \<le> n \<and> n \<le> gap_to g) \<longleftrightarrow>
         (\<exists>a b. surrounds ledgers a b n \<and> PREDICTIVE_GAP_THRESHOLD cfg \<le> b - a - 1)"
  using assms
proof (induction cfg ledgers rule: detectGaps.induct)
  case (1 cfg a b ls)
  then have "sorted (b # ls)" by simp
  from "1.IH" [OF refl this] show ?case
    by (auto simp: Let_def surrounds_Cons [OF "1.prems"] conj_disj_distribR ex_disj_distrib)
qed (auto simp: surrounds_def)

lemma gaps_are_missing_runs_witness:
  "(\<exists>g \<in> set (detectGaps \<lparr>PREDICTIVE_GAP_THRESHOLD = 3, PREDICTIVE_HISTORY_SIZE = 2\<rparr> [1, 2, 6, 9]).
       gap_from g \<le> 4 \<and> 4 \<le> gap_to g) =
   (\<exists>a b. surrounds [1, 2, 6, 9] a b 4 \<and>
       PREDICTIVE_GAP_THRESHOLD \<lparr>PREDICTIVE_GAP_THRESHOLD = 3, PREDICTIVE_HISTORY_SIZE = 2\<rparr> \<le> b - a - 1)"
  by (rule gaps_are_missing_runs) simp

lemma gap_sizes: "g \<in> set (detectGaps cfg ls) \<Longrightarrow> gap_size g = gap_to g - gap_from g + 1 \<and> 1 \<le> gap_size g"
  by (induction cfg ls rule: detectGaps.induct) (auto simp: Let_def split: if_splits)

text \<open>The gap used for the estimate is one of maximal size.\<close>

lemma largest_gap_fold:
  "foldl (\<lambda>m g. if gap_size g > (case m of Some x \<Rightarrow> gap_size x | None \<Rightarrow> 0) then Some g else m) m gs = Some g \<Longrightarrow>
     (g \<in> set gs \<or> m = Some g) \<and> (m \<noteq> None \<or> gs \<noteq> []) \<and> (\<forall>h \<in> set gs. gap_size h \<le> gap_size g) \<and>
     (case m of Some x \<Rightarrow> gap_size x \<le> gap_size g | None \<Rightarrow> 0 \<le> gap_size g)"
proof (induction gs arbitrary: m)
  case (Cons h gs)
  from Cons.IH [of "if gap_size h > (case m of Some x \<Rightarrow> gap_size x | None \<Rightarrow> 0) then Some h else m"] Cons.prems
  show ?case by (auto split: option.splits if_splits)
qed (auto split: option.splits)

lemma largest_gap_max:
  "largest_gap gs = Some g \<Longrightarrow> g \<in> set gs \<and> (\<forall>h \<in> set gs. gap_size h \<le> gap_size g)"
  unfolding largest_gap_def using largest_gap_fold [of None gs g] by auto

end
