(* ===== verification/Reorg.thy ===== *)
theory Reorg
  imports Js_Number
begin

text \<open>
  reorgWorker.js with the statements of db.js that it runs: recording ledger hashes, comparing the recent ones with
  the network, and the transaction that removes what a fork orphaned and rewinds the cursor. The tables are lists of
  rows. What the RPC node answers for a ledger is the parameter \<open>rpc\<close>: the hash, or \<open>None\<close> when the call
  fails or the answer has no hash. A database that does not answer is a flag; the alert, whose failure is only
  logged, is the list of ledgers alerted.
\<close>

subsection \<open>Tables\<close>

record event_row =
  er_seq :: nat
  er_contract :: string
  er_ledger :: int
  er_network :: string

record chain_db =
  ledger_hashes :: "((string \<times> int) \<times> string) list"
  event_rows :: "event_row list"
  daemon_state :: "(string \<times> string) \<rightharpoonup> string"
  purge_queue :: "string list"
  reorg_alerts :: "int list"

record reorg_config =
  REORG_CHECK_INTERVAL :: nat
  REORG_MAX_DEPTH :: nat

subsection \<open>Statements\<close>

definition recordLedgerHash :: "string \<Rightarrow> int \<Rightarrow> string \<Rightarrow> chain_db \<Rightarrow> chain_db" where
  "recordLedgerHash net ledger h db =
     (if (net, ledger) \<in> fst ` set (ledger_hashes db) then db
      else db\<lparr>ledger_hashes := ledger_hashes db @ [((net, ledger), h)]\<rparr>)"

definition getRecentLedgerHashes :: "string \<Rightarrow> nat \<Rightarrow> chain_db \<Rightarrow> (int \<times> string) list" where
  "getRecentLedgerHashes net limit db =
     take limit (rev (sort_key fst (map (\<lambda>((n, l), h). (l, h)) (filter (\<lambda>((n, l), h). n = net) (ledger_hashes db)))))"

definition getEventsFromLedger :: "int \<Rightarrow> nat \<Rightarrow> chain_db \<Rightarrow> event_row list" where
  "getEventsFromLedger fork limit db = take limit (sort_key er_seq (filter (\<lambda>e. fork \<le> er_ledger e) (event_rows db)))"

definition rollbackFromLedger :: "string \<Rightarrow> int \<Rightarrow> chain_db \<Rightarrow> chain_db" where
  "rollbackFromLedger net fork db =
     db\<lparr>event_rows := filter (\<lambda>e. \<not> fork \<le> er_ledger e) (event_rows db),
        ledger_hashes := filter (\<lambda>((n, l), h). \<not> (n = net \<and> fork \<le> l)) (ledger_hashes db),
        daemon_state := (daemon_state db)((net, ''cursor'') \<mapsto> int_text fork)\<rparr>"

text \<open>The daemon state: text values, read back with \<open>Number\<close>.\<close>

definition saveDaemonState :: "string \<Rightarrow> string \<Rightarrow> string \<Rightarrow> chain_db \<Rightarrow> chain_db" where
  "saveDaemonState net key v db = db\<lparr>daemon_state := (daemon_state db)((net, key) \<mapsto> v)\<rparr>"

definition saveCursor :: "string \<Rightarrow> int \<Rightarrow> chain_db \<Rightarrow> chain_db" where
  "saveCursor net ledger db = saveDaemonState net ''cursor'' (int_text ledger) db"

definition loadCursor :: "string \<Rightarrow> chain_db \<Rightarrow> jsnum option" where
  "loadCursor net db = map_option to_number (daemon_state db (net, ''cursor''))"

definition saveLastIndexedLedger :: "string \<Rightarrow> int \<Rightarrow> chain_db \<Rightarrow> chain_db" where
  "saveLastIndexedLedger net ledger db = saveDaemonState net ''last_indexed_ledger'' (int_text ledger) db"

definition getLastIndexedLedger :: "string \<Rightarrow> chain_db \<Rightarrow> jsnum" where
  "getLastIndexedLedger net db =
     (case daemon_state db (net, ''last_indexed_ledger'') of Some v \<Rightarrow> to_number v | None \<Rightarrow> Num 0)"

subsection \<open>Rollback\<close>

definition purge_keys :: "event_row list \<Rightarrow> string list" where
  "purge_keys es = ''latest'' # concat (map (\<lambda>e. [''event:'' @ dec (er_seq e), ''contract:'' @ er_contract e]) es)"

text \<open>\<open>reads\<close> and \<open>writes\<close> say whether the query and the transaction succeed; \<open>None\<close> is a throw.\<close>

definition rollback :: "string \<Rightarrow> bool \<Rightarrow> bool \<Rightarrow> int \<Rightarrow> chain_db \<Rightarrow> chain_db option" where
  "rollback net reads writes fork db =
     (let rolledBack = (if reads then getEventsFromLedger fork 10000 db else [])
      in if writes then Some ((rollbackFromLedger net fork db)\<lparr>purge_queue := purge_queue db @ purge_keys rolledBack\<rparr>)
         else None)"

subsection \<open>The check\<close>

definition contradicted :: "(int \<Rightarrow> string option) \<Rightarrow> int \<times> string \<Rightarrow> bool" where
  "contradicted rpc row =
     (case rpc (fst row) of Some networkHash \<Rightarrow> networkHash \<noteq> [] \<and> networkHash \<noteq> snd row | None \<Rightarrow> False)"

fun earliest_fork :: "(int \<Rightarrow> string option) \<Rightarrow> (int \<times> string) list \<Rightarrow> int option \<Rightarrow> int option" where
  "earliest_fork rpc [] acc = acc"
| "earliest_fork rpc (row # rows) acc =
     earliest_fork rpc rows
       (if contradicted rpc row then Some (case acc of None \<Rightarrow> fst row | Some f \<Rightarrow> min f (fst row)) else acc)"

definition lower_fork :: "(int \<Rightarrow> string option) \<Rightarrow> (int \<times> string) list \<Rightarrow> int \<Rightarrow> int" where
  "lower_fork rpc rows latest = fold (\<lambda>row f. if contradicted rpc row then min f (fst row) else f) rows latest"

text \<open>Rollback, alert, and the fork that is returned.\<close>

definition recover :: "string \<Rightarrow> bool \<Rightarrow> bool \<Rightarrow> int \<Rightarrow> chain_db \<Rightarrow> (int option \<times> chain_db) option" where
  "recover net reads writes fork db =
     (case rollback net reads writes fork db of
        None \<Rightarrow> None
      | Some db' \<Rightarrow> Some (Some fork, db'\<lparr>reorg_alerts := reorg_alerts db' @ [fork]\<rparr>))"

definition lookback :: "reorg_config \<Rightarrow> nat" where
  "lookback cfg = REORG_CHECK_INTERVAL cfg + REORG_MAX_DEPTH cfg"

text \<open>\<open>checkForReorg(rpc)\<close>.\<close>

definition checkForReorg ::
  "reorg_config \<Rightarrow> string \<Rightarrow> bool \<Rightarrow> bool \<Rightarrow> (int \<Rightarrow> string option) \<Rightarrow> chain_db \<Rightarrow> (int option \<times> chain_db) option" where
  "checkForReorg cfg net reads writes rpc db =
     (let stored = getRecentLedgerHashes net (lookback cfg) db in
      if stored = [] then Some (None, db)
      else case earliest_fork rpc stored None of
             None \<Rightarrow> Some (None, db)
           | Some fork \<Rightarrow> recover net reads writes fork db)"

text \<open>\<open>checkForReorg(latestLedger, latestLedgerHash, { rpc })\<close>, the check of the main loop; the RPC is optional.\<close>

definition checkLatest ::
  "reorg_config \<Rightarrow> string \<Rightarrow> bool \<Rightarrow> bool \<Rightarrow> (int \<Rightarrow> string option) option \<Rightarrow> int \<Rightarrow> string \<Rightarrow> chain_db \<Rightarrow>
     (int option \<times> chain_db) option" where
  "checkLatest cfg net reads writes rpc latest latestHash db =
     (let stored = getRecentLedgerHashes net (lookback cfg) db in
      case filter (\<lambda>row. fst row = latest) stored of
        [] \<Rightarrow> Some (None, db)
      | entry # _ \<Rightarrow>
          if snd entry \<noteq> latestHash
          then recover net reads writes (case rpc of Some r \<Rightarrow> lower_fork r stored latest | None \<Rightarrow> latest) db
          else Some (None, db))"

text \<open>One round of the embedded worker: the cursor of the main loop follows a fork; a failed check leaves it.\<close>

definition worker_round ::
  "reorg_config \<Rightarrow> string \<Rightarrow> bool \<Rightarrow> bool \<Rightarrow> (int \<Rightarrow> string option) \<Rightarrow> int \<times> chain_db \<Rightarrow> int \<times> chain_db" where
  "worker_round cfg net reads writes rpc st =
     (case st of (cursor, db) \<Rightarrow>
        (case checkForReorg cfg net reads writes rpc db of
           None \<Rightarrow> (cursor, db)
         | Some (None, db') \<Rightarrow> (cursor, db')
         | Some (Some fork, db') \<Rightarrow> (fork, db')))"

subsection \<open>Lemmas\<close>

lemma earliest_fork_None:
  "earliest_fork rpc rows acc = None \<longleftrightarrow> acc = None \<and> (\<forall>row \<in> set rows. \<not> contradicted rpc row)"
  by (induction rpc rows acc rule: earliest_fork.induct) auto

lemma earliest_fork_Some:
  "earliest_fork rpc rows acc = Some f \<Longrightarrow>
     (acc = Some f \<or> (\<exists>row \<in> set rows. contradicted rpc row \<and> fst row = f)) \<and>
     (\<forall>row \<in> set rows. contradicted rpc row \<longrightarrow> f \<le> fst row) \<and> (\<forall>g. acc = Some g \<longrightarrow> f \<le> g)"
proof (induction rpc rows acc rule: earliest_fork.induct)
  case (2 rpc row rows acc)
  from "2.IH" "2.prems" show ?case
    by (auto split: if_splits option.splits simp: min_def)
qed simp

lemma lower_fork_bound:
  "lower_fork rpc rows latest \<le> latest \<and> (\<forall>row \<in> set rows. contradicted rpc row \<longrightarrow> lower_fork rpc rows latest \<le> fst row)"
proof -
  have "fold (\<lambda>row f. if contradicted rpc row then min f (fst row) else f) rows f \<le> f \<and>
        (\<forall>row \<in> set rows. contradicted rpc row \<longrightarrow>
           fold (\<lambda>row f. if contradicted rpc row then min f (fst row) else f) rows f \<le> fst row)" for f
  proof (induction rows arbitrary: f)
    case (Cons row rows)
    from Cons [of "min f (fst row)"] Cons [of f] show ?case by auto
  qed simp
  then show ?thesis by (simp add: lower_fork_def)
qed

text \<open>The rows a recovery leaves.\<close>

lemma recover_Some:
  assumes "recover net reads writes fork db = Some (r, db')"
  shows "r = Some fork" "writes"
    "event_rows db' = filter (\<lambda>e. er_ledger e < fork) (event_rows db)"
    "ledger_hashes db' = filter (\<lambda>((n, l), h). n \<noteq> net \<or> l < fork) (ledger_hashes db)"
    "daemon_state db' (net, ''cursor'') = Some (int_text fork)"
  using assms
  by (auto simp: recover_def rollback_def rollbackFromLedger_def Let_def not_le split: if_splits intro!: filter_cong)

lemma recent_in_table: "row \<in> set (getRecentLedgerHashes net k db) \<Longrightarrow> ((net, fst row), snd row) \<in> set (ledger_hashes db)"
  by (auto simp: getRecentLedgerHashes_def dest!: in_set_takeD)

lemma daemon_cursor_roundtrip: "loadCursor net (saveCursor net l db) = Some (Num (of_int l))"
  by (simp add: loadCursor_def saveCursor_def saveDaemonState_def)

subsection \<open>Properties\<close>

text \<open>
  C30. The check against the RPC: without a fork it changes nothing and no recent hash is contradicted by the network;
  a fork it reports is the lowest contradicted one among the recent hashes, and then the cursor is persisted at the fork,
  every event and every hash of this network from the fork on is gone, everything older is kept, and no recent hash
  that is left is contradicted.
\<close>

theorem reorg_check_restores_agreement:
  assumes "checkForReorg cfg net reads writes rpc db = Some (fork, db')"
  shows "case fork of
      None \<Rightarrow> db' = db \<and> (\<forall>row \<in> set (getRecentLedgerHashes net (lookback cfg) db). \<not> contradicted rpc row)
    | Some f \<Rightarrow>
        (\<exists>row \<in> set (getRecentLedgerHashes net (lookback cfg) db). contradicted rpc row \<and> fst row = f) \<and>
        event_rows db' = filter (\<lambda>e. er_ledger e < f) (event_rows db) \<and>
        ledger_hashes db' = filter (\<lambda>((n, l), h). n \<noteq> net \<or> l < f) (ledger_hashes db) \<and>
        loadCursor net db' = Some (Num (of_int f)) \<and>
        (\<forall>row \<in> set (getRecentLedgerHashes net (lookback cfg) db).
           ((net, fst row), snd row) \<in> set (ledger_hashes db') \<longrightarrow> \<not> contradicted rpc row)"
proof (cases "earliest_fork rpc (getRecentLedgerHashes net (lookback cfg) db) None")
  case None
  with assms have "fork = None" "db' = db" by (auto simp: checkForReorg_def Let_def split: if_splits)
  with None show ?thesis by (simp add: earliest_fork_None)
next
  case (Some f)
  then have "getRecentLedgerHashes net (lookback cfg) db \<noteq> []" by auto
  with assms Some have "recover net reads writes f db = Some (fork, db')"
    by (simp add: checkForReorg_def Let_def)
  note rec = recover_Some [OF this]
  from earliest_fork_Some [OF Some] rec show ?thesis
    by (auto simp: loadCursor_def)
qed

definition forked_db :: chain_db where
  "forked_db = \<lparr>ledger_hashes = [((''testnet'', 7), ''a''), ((''testnet'', 8), ''b''), ((''mainnet'', 9), ''m'')],
     event_rows = [\<lparr>er_seq = 1, er_contract = ''C1'', er_ledger = 7, er_network = ''testnet''\<rparr>,
                   \<lparr>er_seq = 2, er_contract = ''C2'', er_ledger = 9, er_network = ''mainnet''\<rparr>],
     daemon_state = Map.empty, purge_queue = [], reorg_alerts = []\<rparr>"

definition ten_ten :: reorg_config where
  "ten_ten = \<lparr>REORG_CHECK_INTERVAL = 10, REORG_MAX_DEPTH = 10\<rparr>"

definition network_x :: "int \<Rightarrow> string option" where
  "network_x l = (if l = 7 then Some ''a'' else if l = 8 then Some ''x'' else None)"

lemma forked_db_check:
  "checkForReorg ten_ten ''testnet'' True True network_x forked_db =
     Some (Some 8, snd (the (recover ''testnet'' True True 8 forked_db)))"
  by (simp add: checkForReorg_def getRecentLedgerHashes_def lookback_def ten_ten_def forked_db_def network_x_def
      contradicted_def recover_def rollback_def Let_def)

theorem reorg_check_restores_agreement_witness:
  "loadCursor ''testnet'' (snd (the (recover ''testnet'' True True 8 forked_db))) = Some (Num 8)"
  using reorg_check_restores_agreement [OF forked_db_check] by simp

text \<open>
  The rollback of one network reaches into the others: it keeps their ledger hashes and cursors but deletes
  their events, because the statement on the events table has no network condition.
\<close>

lemma rollback_crosses_networks:
  assumes "rollback net reads True fork db = Some db'" and "other \<noteq> net"
    and "e \<in> set (event_rows db)" "er_network e = other" "fork \<le> er_ledger e"
  shows "e \<notin> set (event_rows db') \<and>
         filter (\<lambda>((n, l), h). n = other) (ledger_hashes db') = filter (\<lambda>((n, l), h). n = other) (ledger_hashes db) \<and>
         loadCursor other db' = loadCursor other db"
proof -
  have db': "db' = (rollbackFromLedger net fork db)\<lparr>purge_queue := purge_queue db'\<rparr>"
    using assms(1) by (auto simp: rollback_def Let_def)
  have "filter (\<lambda>((n, l), h). n = other) (filter (\<lambda>((n, l), h). \<not> (n = net \<and> fork \<le> l)) rows) =
        filter (\<lambda>((n, l), h). n = other) rows" for rows :: "((string \<times> int) \<times> string) list"
    using assms(2) by (induction rows) auto
  with assms(2-5) show ?thesis by (subst (1 2 3) db') (simp add: rollbackFromLedger_def loadCursor_def)
qed

lemma rollback_crosses_networks_witness:
  "\<lparr>er_seq = 2, er_contract = ''C2'', er_ledger = 9, er_network = ''mainnet''\<rparr>
     \<notin> set (event_rows (the (rollback ''testnet'' True True 8 forked_db)))"
  by (rule conjunct1 [OF rollback_crosses_networks [where net = "''testnet''" and other = "''mainnet''" and fork = 8
        and db = forked_db and reads = True]])
     (simp_all add: rollback_def Let_def forked_db_def)

text \<open>The check of the main loop compares the latest ledger first and goes at least as far back as every contradiction.\<close>

lemma latest_check_fork:
  assumes "checkLatest cfg net reads writes (Some rpc) latest h db = Some (Some f, db')"
  shows "f \<le> latest \<and> (\<forall>row \<in> set (getRecentLedgerHashes net (lookback cfg) db). contradicted rpc row \<longrightarrow> f \<le> fst row) \<and>
         event_rows db' = filter (\<lambda>e. er_ledger e < f) (event_rows db)"
proof -
  have "recover net reads writes (lower_fork rpc (getRecentLedgerHashes net (lookback cfg) db) latest) db = Some (Some f, db')"
    using assms by (auto simp: checkLatest_def Let_def split: list.splits if_splits)
  note rec = recover_Some [OF this]
  with lower_fork_bound [of rpc "getRecentLedgerHashes net (lookback cfg) db" latest] show ?thesis by simp
qed

end
