(* ===== verification/Redis_Client.thy ===== *)
theory Redis_Client
  imports Js_Prelude
begin

text \<open>
  The Redis client as the limiters use it. The server is not part of the repository: its commands are a record of
  functions on an opaque state, each at a time in milliseconds, \<open>None\<close> being a rejected promise. What the code relies on
  is stated about the entries it can observe: an entry is a value with an optional deadline, and it is gone once
  the deadline has passed.
\<close>

record 'r redis =
  r_get :: "int \<Rightarrow> string \<Rightarrow> 'r \<Rightarrow> (bool \<times> 'r) option"
  r_set_ex :: "int \<Rightarrow> string \<Rightarrow> nat \<Rightarrow> 'r \<Rightarrow> 'r option"
  r_incr :: "int \<Rightarrow> string \<Rightarrow> 'r \<Rightarrow> (int \<times> 'r) option"
  r_decr :: "int \<Rightarrow> string \<Rightarrow> 'r \<Rightarrow> (int \<times> 'r) option"
  r_expire :: "int \<Rightarrow> string \<Rightarrow> nat \<Rightarrow> 'r \<Rightarrow> 'r option"
  r_rpush :: "int \<Rightarrow> string \<Rightarrow> string \<Rightarrow> 'r \<Rightarrow> 'r option"
  r_ltrim_last :: "int \<Rightarrow> string \<Rightarrow> nat \<Rightarrow> 'r \<Rightarrow> 'r option"
  r_lrange :: "int \<Rightarrow> string \<Rightarrow> 'r \<Rightarrow> (string list \<times> 'r) option"
  r_pfadd :: "int \<Rightarrow> string \<Rightarrow> string \<Rightarrow> 'r \<Rightarrow> 'r option"
  r_pfcount :: "int \<Rightarrow> string \<Rightarrow> 'r \<Rightarrow> (nat \<times> 'r) option"

type_synonym 'r counters = "'r \<Rightarrow> string \<Rightarrow> (int \<times> int option) option"

text \<open>An entry that is still there at a time.\<close>

definition live_at :: "int \<Rightarrow> (int \<times> int option) option \<Rightarrow> (int \<times> int option) option" where
  "live_at now e = (case e of Some (v, Some d) \<Rightarrow> if now < d then e else None | _ \<Rightarrow> e)"

definition bumped :: "int \<Rightarrow> (int \<times> int option) option \<Rightarrow> int \<times> int option" where
  "bumped d e = (case e of Some (v, t) \<Rightarrow> (v + d, t) | None \<Rightarrow> (d, None))"

text \<open>
  INCR, DECR, EXPIRE, SET EX and GET as documented: a counter that is absent counts from zero and has no deadline,
  EXPIRE sets the deadline of an existing key, the flag of SET EX is there until its deadline.
\<close>

definition redis_documented :: "'r redis \<Rightarrow> 'r counters \<Rightarrow> bool" where
  "redis_documented R entry \<longleftrightarrow>
     (\<forall>now k r n r'. r_incr R now k r = Some (n, r') \<longrightarrow>
        entry r' = (entry r)(k \<mapsto> bumped 1 (live_at now (entry r k))) \<and> n = fst (bumped 1 (live_at now (entry r k)))) \<and>
     (\<forall>now k r n r'. r_decr R now k r = Some (n, r') \<longrightarrow>
        entry r' = (entry r)(k \<mapsto> bumped (- 1) (live_at now (entry r k)))) \<and>
     (\<forall>now k ttl r r'. r_expire R now k ttl r = Some r' \<longrightarrow>
        entry r' = (entry r)(k := map_option (\<lambda>(v, _). (v, Some (now + int ttl * 1000))) (live_at now (entry r k)))) \<and>
     (\<forall>now k ttl r r'. r_set_ex R now k ttl r = Some r' \<longrightarrow>
        entry r' = (entry r)(k \<mapsto> (1, Some (now + int ttl * 1000)))) \<and>
     (\<forall>now k r b r'. r_get R now k r = Some (b, r') \<longrightarrow> entry r' = entry r \<and> (b \<longleftrightarrow> live_at now (entry r k) \<noteq> None))"

lemma incr_entry:
  assumes "redis_documented R entry" "r_incr R now k r = Some (n, r')"
  shows "entry r' = (entry r)(k \<mapsto> bumped 1 (live_at now (entry r k)))" "n = fst (bumped 1 (live_at now (entry r k)))"
  using assms unfolding redis_documented_def by metis+

lemma decr_entry:
  assumes "redis_documented R entry" "r_decr R now k r = Some (n, r')"
  shows "entry r' = (entry r)(k \<mapsto> bumped (- 1) (live_at now (entry r k)))"
  using assms unfolding redis_documented_def by metis

lemma expire_entry:
  assumes "redis_documented R entry" "r_expire R now k ttl r = Some r'"
  shows "entry r' = (entry r)(k := map_option (\<lambda>(v, _). (v, Some (now + int ttl * 1000))) (live_at now (entry r k)))"
  using assms unfolding redis_documented_def by metis

lemma set_ex_entry:
  assumes "redis_documented R entry" "r_set_ex R now k ttl r = Some r'"
  shows "entry r' = (entry r)(k \<mapsto> (1, Some (now + int ttl * 1000)))"
  using assms unfolding redis_documented_def by metis

lemma get_entry:
  assumes "redis_documented R entry" "r_get R now k r = Some (b, r')"
  shows "entry r' = entry r" "b \<longleftrightarrow> live_at now (entry r k) \<noteq> None"
  using assms unfolding redis_documented_def by metis+

lemmas redis_entries = incr_entry decr_entry expire_entry set_ex_entry get_entry

subsection \<open>An instance\<close>

text \<open>A server that satisfies the description, used by the witnesses: a map, with the lists and sets kept apart.\<close>

record toy_redis =
  tr_entries :: "string \<Rightarrow> (int \<times> int option) option"
  tr_lists :: "string \<Rightarrow> string list"
  tr_sets :: "string \<Rightarrow> string list"

definition toy_redis_client :: "toy_redis redis" where
  "toy_redis_client =
     \<lparr>r_get = (\<lambda>now k r. Some (live_at now (tr_entries r k) \<noteq> None, r)),
      r_set_ex = (\<lambda>now k ttl r. Some (r\<lparr>tr_entries := (tr_entries r)(k \<mapsto> (1, Some (now + int ttl * 1000)))\<rparr>)),
      r_incr = (\<lambda>now k r. let e = bumped 1 (live_at now (tr_entries r k))
                          in Some (fst e, r\<lparr>tr_entries := (tr_entries r)(k \<mapsto> e)\<rparr>)),
      r_decr = (\<lambda>now k r. let e = bumped (- 1) (live_at now (tr_entries r k))
                          in Some (fst e, r\<lparr>tr_entries := (tr_entries r)(k \<mapsto> e)\<rparr>)),
      r_expire = (\<lambda>now k ttl r. Some (r\<lparr>tr_entries := (tr_entries r)(k := map_option (\<lambda>(v, _). (v, Some (now + int ttl * 1000)))
                                                                       (live_at now (tr_entries r k)))\<rparr>)),
      r_rpush = (\<lambda>now k v r. Some (r\<lparr>tr_lists := (tr_lists r)(k := tr_lists r k @ [v])\<rparr>)),
      r_ltrim_last = (\<lambda>now k n r. Some (r\<lparr>tr_lists := (tr_lists r)(k := drop (length (tr_lists r k) - n) (tr_lists r k))\<rparr>)),
      r_lrange = (\<lambda>now k r. Some (tr_lists r k, r)),
      r_pfadd = (\<lambda>now k v r. Some (r\<lparr>tr_sets := (tr_sets r)(k := List.insert v (tr_sets r k))\<rparr>)),
      r_pfcount = (\<lambda>now k r. Some (length (tr_sets r k), r))\<rparr>"

definition toy_empty :: toy_redis where
  "toy_empty = \<lparr>tr_entries = Map.empty, tr_lists = (\<lambda>_. []), tr_sets = (\<lambda>_. [])\<rparr>"

lemma toy_redis_documented: "redis_documented toy_redis_client tr_entries"
  unfolding redis_documented_def toy_redis_client_def by (auto simp: Let_def)

lemma live_at_simps [simp]:
  "live_at now None = None" "live_at now (Some (v, None)) = Some (v, None)"
  "live_at now (Some (v, Some d)) = (if now < d then Some (v, Some d) else None)"
  by (simp_all add: live_at_def)

lemma bumped_simps [simp]: "bumped d None = (d, None)" "bumped d (Some (v, t)) = (v + d, t)"
  by (simp_all add: bumped_def)

end
