(* ===== verification/Concurrent_Limiter.thy ===== *)
theory Concurrent_Limiter
  imports Redis_Client
begin

text \<open>
  rateLimit/concurrentLimiter.js: the cap on requests in flight, over the Redis client of \<open>Redis_Client\<close>. A request
  that was counted carries its key; its response finishing decrements the counter, while a connection that is aborted
  emits no finish event.
\<close>

definition HTTP_TIER_LIMITS :: "(string \<times> int) list" where
  "HTTP_TIER_LIMITS = [(''unauthenticated'', 5), (''free'', 20), (''pro'', 100), (''enterprise'', 200)]"

definition WS_TIER_LIMITS :: "(string \<times> int) list" where
  "WS_TIER_LIMITS = [(''unauthenticated'', 1), (''free'', 5), (''pro'', 25), (''enterprise'', 50)]"

definition CONC_PREFIX :: string where "CONC_PREFIX = ''conc''"
definition CONC_WS_PREFIX :: string where "CONC_WS_PREFIX = ''conc:ws''"
definition TTL_CONC_SAFETY :: nat where "TTL_CONC_SAFETY = 300"

record conc_request =
  cq_method :: string
  cq_path :: string
  cq_upgrade :: "string option"
  cq_context :: "(string \<times> string) option"

definition isWebSocket :: "conc_request \<Rightarrow> bool" where
  "isWebSocket req = (case cq_upgrade req of Some u \<Rightarrow> lower u = ''websocket'' | None \<Rightarrow> False)"

definition getConcLimit :: "string \<Rightarrow> bool \<Rightarrow> int" where
  "getConcLimit tier ws =
     (case map_of (if ws then WS_TIER_LIMITS else HTTP_TIER_LIMITS) tier of
        Some l \<Rightarrow> l | None \<Rightarrow> (if ws then 1 else 5))"

definition health_path :: "string \<Rightarrow> bool" where
  "health_path p = (p \<in> {''/health'', ''/api/health'', ''/health/live'', ''/health/ready''})"

text \<open>The client and tier of a request, with the default of a request no authenticator has seen.\<close>

definition conc_context :: "conc_request \<Rightarrow> string \<times> string" where
  "conc_context req = (case cq_context req of Some c \<Rightarrow> c | None \<Rightarrow> (''unknown'', ''unauthenticated''))"

definition conc_key :: "conc_request \<Rightarrow> string" where
  "conc_key req = (if isWebSocket req then CONC_WS_PREFIX else CONC_PREFIX) @ '':'' @ fst (conc_context req)"

definition conc_limit :: "conc_request \<Rightarrow> int" where
  "conc_limit req = getConcLimit (snd (conc_context req)) (isWebSocket req)"

datatype conc_outcome = Uncounted | Counted string | Too_many

definition concurrentRequestLimiter ::
  "'r redis \<Rightarrow> bool \<Rightarrow> int \<Rightarrow> conc_request \<Rightarrow> 'r \<Rightarrow> conc_outcome \<times> 'r" where
  "concurrentRequestLimiter R ready now req r =
     (if cq_method req = ''GET'' \<and> health_path (cq_path req) then (Uncounted, r)
      else let k = conc_key req in
        if \<not> ready then (Uncounted, r)
        else case r_incr R now k r of
               None \<Rightarrow> (Uncounted, r)
             | Some (count, r1) \<Rightarrow>
                 (case r_expire R now k TTL_CONC_SAFETY r1 of
                    None \<Rightarrow> (Uncounted, r1)
                  | Some r2 \<Rightarrow>
                      if count > conc_limit req
                      then (Too_many, case r_decr R now k r2 of Some (_, r3) \<Rightarrow> r3 | None \<Rightarrow> r2)
                      else (Counted k, r2)))"

text \<open>The finish handler.\<close>

definition on_finish :: "'r redis \<Rightarrow> bool \<Rightarrow> int \<Rightarrow> string \<Rightarrow> 'r \<Rightarrow> 'r" where
  "on_finish R ready now k r = (if ready then (case r_decr R now k r of Some (_, r') \<Rightarrow> r' | None \<Rightarrow> r) else r)"

subsection \<open>Runs\<close>

record 'r conc =
  c_redis :: 'r
  c_open :: "string list"
  c_lost :: "string list"

text \<open>
  Steps against a server that answers and while no counter has reached its deadline: a request, the end of a
  response, and a connection aborted before its response finished.
\<close>

definition unexpired :: "'r counters \<Rightarrow> int \<Rightarrow> 'r conc \<Rightarrow> bool" where
  "unexpired entry now s = (\<forall>k. live_at now (entry (c_redis s) k) = entry (c_redis s) k)"

definition answers :: "'r redis \<Rightarrow> bool" where
  "answers R = (\<forall>now k r. r_incr R now k r \<noteq> None \<and> r_decr R now k r \<noteq> None \<and> (\<forall>ttl. r_expire R now k ttl r \<noteq> None))"

definition conc_start :: "'r redis \<Rightarrow> int \<Rightarrow> conc_request \<Rightarrow> 'r conc \<Rightarrow> 'r conc" where
  "conc_start R now req s =
     (case concurrentRequestLimiter R True now req (c_redis s) of
        (Counted k, r) \<Rightarrow> s\<lparr>c_redis := r, c_open := k # c_open s\<rparr>
      | (_, r) \<Rightarrow> s\<lparr>c_redis := r\<rparr>)"

inductive conc_step :: "'r redis \<Rightarrow> 'r counters \<Rightarrow> 'r conc \<Rightarrow> 'r conc \<Rightarrow> bool" for R entry where
  conc_request: "unexpired entry now s \<Longrightarrow> conc_step R entry s (conc_start R now req s)"
| conc_finish: "unexpired entry now s \<Longrightarrow> k \<in> set (c_open s) \<Longrightarrow>
     conc_step R entry s (s\<lparr>c_redis := on_finish R True now k (c_redis s), c_open := remove1 k (c_open s)\<rparr>)"
| conc_abort: "k \<in> set (c_open s) \<Longrightarrow>
     conc_step R entry s (s\<lparr>c_open := remove1 k (c_open s), c_lost := k # c_lost s\<rparr>)"

inductive_cases conc_stepE: "conc_step R entry s s'"

inductive conc_reachable :: "'r redis \<Rightarrow> 'r counters \<Rightarrow> 'r \<Rightarrow> 'r conc \<Rightarrow> bool" for R entry r0 where
  conc_start0: "conc_reachable R entry r0 \<lparr>c_redis = r0, c_open = [], c_lost = []\<rparr>"
| conc_next: "conc_reachable R entry r0 s \<Longrightarrow> conc_step R entry s s' \<Longrightarrow> conc_reachable R entry r0 s'"

definition counter_value :: "(int \<times> int option) option \<Rightarrow> int" where
  "counter_value e = (case e of Some (v, _) \<Rightarrow> v | None \<Rightarrow> 0)"

definition conc_ok :: "'r counters \<Rightarrow> 'r conc \<Rightarrow> bool" where
  "conc_ok entry s =
     (\<forall>k. counter_value (entry (c_redis s) k) = int (count_list (c_open s) k + count_list (c_lost s) k))"

lemma counter_value_simps [simp]:
  "counter_value None = 0" "counter_value (Some (v, t)) = v"
  "fst (bumped d e) = counter_value e + d" "counter_value (Some (bumped d e)) = counter_value e + d"
  by (auto simp: counter_value_def bumped_def split: option.splits prod.splits)

lemma live_after_bump: "live_at now e = e \<Longrightarrow> live_at now (Some (bumped d e)) = Some (bumped d e)"
  by (auto simp: live_at_def bumped_def split: option.splits prod.splits if_splits)

lemma counter_value_expired: "counter_value (map_option (\<lambda>(v, _). (v, d)) e) = counter_value e"
  by (auto simp: counter_value_def split: option.splits)

lemma counted_request:
  assumes doc: "redis_documented R entry" and ans: "answers R"
    and live: "live_at now (entry r (conc_key req)) = entry r (conc_key req)"
    and counted: "\<not> (cq_method req = ''GET'' \<and> health_path (cq_path req))"
  obtains r' where
    "concurrentRequestLimiter R True now req r =
       (if counter_value (entry r (conc_key req)) + 1 > conc_limit req then Too_many else Counted (conc_key req), r')"
    "\<And>k. counter_value (entry r' k) = counter_value (entry r k) +
       (if k = conc_key req \<and> counter_value (entry r (conc_key req)) + 1 \<le> conc_limit req then 1 else 0)"
proof -
  let ?k = "conc_key req"
  obtain n r1 where i: "r_incr R now ?k r = Some (n, r1)" using ans unfolding answers_def by fastforce
  obtain r2 where e: "r_expire R now ?k TTL_CONC_SAFETY r1 = Some r2" using ans unfolding answers_def by fastforce
  obtain m r3 where d: "r_decr R now ?k r2 = Some (m, r3)" using ans unfolding answers_def by fastforce
  have n: "n = counter_value (entry r ?k) + 1" and e1: "entry r1 = (entry r)(?k \<mapsto> bumped 1 (entry r ?k))"
    using incr_entry [OF doc i] live by simp_all
  obtain v t where vt: "bumped 1 (entry r ?k) = (v, t)" by fastforce
  then have v: "v = counter_value (entry r ?k) + 1" by (metis counter_value_simps(3) fst_conv)
  have "live_at now (Some (v, t)) = Some (v, t)" using live_after_bump [OF live, of 1] vt by simp
  with expire_entry [OF doc e] e1 vt have e2: "entry r2 = (entry r)(?k \<mapsto> (v, Some (now + 300000)))"
    by (simp add: TTL_CONC_SAFETY_def)
  with decr_entry [OF doc d] have e3: "entry r3 = (entry r)(?k \<mapsto> (v - 1, Some (now + 300000)))" by simp
  define r' where "r' = (if n > conc_limit req then r3 else r2)"
  show thesis
  proof (rule that [of r'])
    show "concurrentRequestLimiter R True now req r =
       (if counter_value (entry r ?k) + 1 > conc_limit req then Too_many else Counted ?k, r')"
      using counted by (auto simp: concurrentRequestLimiter_def Let_def i e d r'_def n)
    show "counter_value (entry r' k) = counter_value (entry r k) +
       (if k = ?k \<and> counter_value (entry r ?k) + 1 \<le> conc_limit req then 1 else 0)" for k
      using e2 e3 v n by (auto simp: r'_def)
  qed
qed

lemma count_list_pos: "x \<in> set xs \<Longrightarrow> Suc 0 \<le> count_list xs x"
  by (induction xs) auto

lemma conc_start_ok:
  assumes "redis_documented R entry" "answers R" "conc_ok entry s" "unexpired entry now s"
  shows "conc_ok entry (conc_start R now req s)"
proof (cases "cq_method req = ''GET'' \<and> health_path (cq_path req)")
  case True
  with assms(3) show ?thesis by (simp add: conc_start_def concurrentRequestLimiter_def)
next
  case False
  have live: "live_at now (entry (c_redis s) (conc_key req)) = entry (c_redis s) (conc_key req)"
    using assms(4) by (simp add: unexpired_def)
  from counted_request [OF assms(1,2) live False] obtain r' where r':
    "concurrentRequestLimiter R True now req (c_redis s) =
       (if counter_value (entry (c_redis s) (conc_key req)) + 1 > conc_limit req then Too_many else Counted (conc_key req), r')"
    "\<And>k. counter_value (entry r' k) = counter_value (entry (c_redis s) k) +
       (if k = conc_key req \<and> counter_value (entry (c_redis s) (conc_key req)) + 1 \<le> conc_limit req then 1 else 0)"
    by blast
  show ?thesis
    using assms(3) r'(2) by (auto simp: conc_start_def r'(1) conc_ok_def)
qed

lemma conc_finish_ok:
  assumes "redis_documented R entry" "answers R" "conc_ok entry s" "unexpired entry now s" "k \<in> set (c_open s)"
  shows "conc_ok entry (s\<lparr>c_redis := on_finish R True now k (c_redis s), c_open := remove1 k (c_open s)\<rparr>)"
proof -
  obtain n r' where d: "r_decr R now k (c_redis s) = Some (n, r')" using assms(2) unfolding answers_def by fastforce
  have "entry r' = (entry (c_redis s))(k \<mapsto> bumped (- 1) (entry (c_redis s) k))"
    using decr_entry [OF assms(1) d] assms(4) by (simp add: unexpired_def)
  then have "counter_value (entry r' k') = counter_value (entry (c_redis s) k') - (if k' = k then 1 else 0)" for k'
    by simp
  with assms(3) show ?thesis
    by (simp add: conc_ok_def on_finish_def d count_list_pos [OF assms(5)] of_nat_diff)
qed

lemma conc_reachable_ok:
  assumes "redis_documented R entry" "answers R" "entry r0 = Map.empty" "conc_reachable R entry r0 s"
  shows "conc_ok entry s"
  using assms(4)
proof (induction rule: conc_reachable.induct)
  case conc_start0
  with assms(3) show ?case by (simp add: conc_ok_def)
next
  case (conc_next s s')
  from conc_next.hyps(2) conc_next.IH show ?case
  proof (cases rule: conc_step.cases)
    case (conc_abort k)
    with conc_next.IH show ?thesis by (simp add: conc_ok_def count_list_pos of_nat_diff)
  qed (auto intro: conc_start_ok conc_finish_ok assms)
qed

text \<open>
  With a Redis that answers as documented and counters within their deadlines, a request is answered 503 exactly
  when the responses of its client in flight together with the connections of that client that were ever aborted reach
  the limit: an aborted connection emits no finish event and is never taken off the counter.
\<close>

lemma aborted_connections_stay_counted:
  assumes "redis_documented R entry" "answers R" "entry r0 = Map.empty" "conc_reachable R entry r0 s"
    and "unexpired entry now s" "cq_method req \<noteq> ''GET''"
  shows "fst (concurrentRequestLimiter R True now req (c_redis s)) = Too_many \<longleftrightarrow>
         conc_limit req \<le> int (count_list (c_open s) (conc_key req) + count_list (c_lost s) (conc_key req))"
proof -
  have live: "live_at now (entry (c_redis s) (conc_key req)) = entry (c_redis s) (conc_key req)"
    using assms(5) by (simp add: unexpired_def)
  have "counter_value (entry (c_redis s) (conc_key req)) =
      int (count_list (c_open s) (conc_key req) + count_list (c_lost s) (conc_key req))"
    using conc_reachable_ok [OF assms(1-4)] by (simp add: conc_ok_def)
  with counted_request [OF assms(1,2) live] assms(6) show ?thesis by fastforce
qed

definition ws_request :: conc_request where
  "ws_request = \<lparr>cq_method = ''POST'', cq_path = ''/ws'', cq_upgrade = Some ''websocket'', cq_context = None\<rparr>"

lemma aborted_connections_stay_counted_witness:
  "fst (concurrentRequestLimiter toy_redis_client True 5 ws_request toy_empty) \<noteq> Too_many"
proof -
  let ?s = "\<lparr>c_redis = toy_empty, c_open = [], c_lost = []\<rparr>"
  have "fst (concurrentRequestLimiter toy_redis_client True 5 ws_request (c_redis ?s)) = Too_many \<longleftrightarrow>
        conc_limit ws_request \<le> int (count_list (c_open ?s) (conc_key ws_request) + count_list (c_lost ?s) (conc_key ws_request))"
  proof (rule aborted_connections_stay_counted [OF toy_redis_documented])
    show "answers toy_redis_client" by (simp add: answers_def toy_redis_client_def Let_def)
    show "tr_entries toy_empty = Map.empty" by (simp add: toy_empty_def)
    show "conc_reachable toy_redis_client tr_entries toy_empty ?s" by (rule conc_start0)
    show "unexpired tr_entries 5 ?s" by (simp add: unexpired_def toy_empty_def)
    show "cq_method ws_request \<noteq> ''GET''" by (simp add: ws_request_def)
  qed
  then show ?thesis
    by (simp add: conc_limit_def getConcLimit_def conc_context_def ws_request_def isWebSocket_def WS_TIER_LIMITS_def
        lower_def lower_char_def)
qed

text \<open>
  A response that finishes after its counter has expired leaves a counter of minus one without a deadline, so the
  client keeps one request above its limit.
\<close>

lemma late_finish_goes_negative:
  assumes "redis_documented R entry" "r_decr R now k r = Some x" "live_at now (entry r k) = None"
  shows "entry (on_finish R True now k r) k = Some (- 1, None)"
  using assms decr_entry [OF assms(1)] by (cases x) (simp add: on_finish_def)

end
