(* ===== verification/Abuse_Detector.thy ===== *)
theory Abuse_Detector
  imports Complex_Main Redis_Client
begin

text \<open>
  rateLimit/abuseDetector.js over the Redis client of \<open>Redis_Client\<close>. An awaited command either gives a value and
  the next state or rejects; \<open>cmd_bind\<close> is the sequence of awaits and \<open>cmd_catch\<close> a try/catch around one, which keeps
  what was done before the rejection. Warnings and webhook calls are the event list.
\<close>

subsection \<open>Commands\<close>

type_synonym ('r, 'a) cmd = "'r \<Rightarrow> 'a option \<times> 'r"

definition cmd_return :: "'a \<Rightarrow> ('r, 'a) cmd" where
  "cmd_return a r = (Some a, r)"

definition cmd_bind :: "('r, 'a) cmd \<Rightarrow> ('a \<Rightarrow> ('r, 'b) cmd) \<Rightarrow> ('r, 'b) cmd" where
  "cmd_bind m f r = (case m r of (Some a, r') \<Rightarrow> f a r' | (None, r') \<Rightarrow> (None, r'))"

definition cmd_catch :: "('r, 'a) cmd \<Rightarrow> 'a \<Rightarrow> 'r \<Rightarrow> 'a \<times> 'r" where
  "cmd_catch m d r = (case m r of (Some a, r') \<Rightarrow> (a, r') | (None, r') \<Rightarrow> (d, r'))"

definition await :: "('r \<Rightarrow> ('a \<times> 'r) option) \<Rightarrow> ('r, 'a) cmd" where
  "await f r = (case f r of Some (a, r') \<Rightarrow> (Some a, r') | None \<Rightarrow> (None, r))"

definition await_unit :: "('r \<Rightarrow> 'r option) \<Rightarrow> ('r, unit) cmd" where
  "await_unit f r = (case f r of Some r' \<Rightarrow> (Some (), r') | None \<Rightarrow> (None, r))"

subsection \<open>Constants and keys\<close>

definition AUTH_FAIL_WINDOW :: nat where "AUTH_FAIL_WINDOW = 60"
definition AUTH_FAIL_THRESHOLD :: int where "AUTH_FAIL_THRESHOLD = 10"
definition IP_BLOCK_TTL :: nat where "IP_BLOCK_TTL = 900"
definition SCRAPE_WINDOW_SIZE :: nat where "SCRAPE_WINDOW_SIZE = 10"
definition SCRAPE_SIMILARITY_THRESHOLD :: rat where "SCRAPE_SIMILARITY_THRESHOLD = 9 / 10"
definition SCRAPE_PENALTY_TTL :: nat where "SCRAPE_PENALTY_TTL = 600"
definition DDOS_WINDOW :: nat where "DDOS_WINDOW = 10"
definition DDOS_THRESHOLD :: nat where "DDOS_THRESHOLD = 50"
definition PAGINATION_THRESHOLD :: int where "PAGINATION_THRESHOLD = 20"
definition PAGINATION_WINDOW :: nat where "PAGINATION_WINDOW = 60"
definition PAGINATION_PENALTY_TTL :: nat where "PAGINATION_PENALTY_TTL = 300"
definition PAGINATION_PENALTY_RATE :: int where "PAGINATION_PENALTY_RATE = 5"
definition BREACH_THRESHOLD :: int where "BREACH_THRESHOLD = 5"
definition BREACH_WINDOW :: nat where "BREACH_WINDOW = 600"

definition ABUSE_AUTHFAIL_PREFIX :: string where "ABUSE_AUTHFAIL_PREFIX = ''abuse:authfail''"
definition ABUSE_BLOCK_PREFIX :: string where "ABUSE_BLOCK_PREFIX = ''abuse:block''"
definition ABUSE_SCRAPE_PREFIX :: string where "ABUSE_SCRAPE_PREFIX = ''abuse:scrape''"
definition ABUSE_DDOS_PREFIX :: string where "ABUSE_DDOS_PREFIX = ''abuse:ddos''"
definition ABUSE_PAGINATE_PREFIX :: string where "ABUSE_PAGINATE_PREFIX = ''abuse:paginate''"
definition ABUSE_RATELIMITCOUNT_PREFIX :: string where "ABUSE_RATELIMITCOUNT_PREFIX = ''abuse:ratelimitcount''"
definition ABUSE_PENALTY_PREFIX :: string where "ABUSE_PENALTY_PREFIX = ''abuse:penalty''"

definition key1 :: "string \<Rightarrow> string \<Rightarrow> string" where
  "key1 p a = p @ '':'' @ a"

definition key2 :: "string \<Rightarrow> string \<Rightarrow> string \<Rightarrow> string" where
  "key2 p a b = p @ '':'' @ a @ '':'' @ b"

subsection \<open>Similarity\<close>

definition tokenisePath :: "string \<Rightarrow> string list" where
  "tokenisePath urlPath = uniq (filter (\<lambda>s. s \<noteq> []) (split_on CHR ''/'' urlPath))"

definition jaccardSimilarity :: "string list \<Rightarrow> string list \<Rightarrow> rat" where
  "jaccardSimilarity a b =
     (if a = [] \<and> b = [] then 1
      else if a = [] \<or> b = [] then 0
      else let inter = length (filter (\<lambda>t. t \<in> set b) a); un = length a + length b - inter
           in if un = 0 then 0 else of_nat inter / of_nat un)"

definition averageJaccard :: "string list \<Rightarrow> string list list \<Rightarrow> rat" where
  "averageJaccard candidate hist =
     (if hist = [] then 0
      else foldl (\<lambda>s h. s + jaccardSimilarity candidate h) 0 hist / of_nat (length hist))"

subsection \<open>Counters and flags\<close>

datatype abuse_event =
    Ip_blocked string
  | Repeat_offender string int
  | Scraping_detected string int
  | Ddos_detected string nat

text \<open>An INCR whose first hit starts the window.\<close>

definition count_in_window :: "'r redis \<Rightarrow> int \<Rightarrow> string \<Rightarrow> nat \<Rightarrow> ('r, int) cmd" where
  "count_in_window R now k ttl =
     cmd_bind (await (r_incr R now k)) (\<lambda>count.
       if count = 1 then cmd_bind (await_unit (r_expire R now k ttl)) (\<lambda>_. cmd_return count) else cmd_return count)"

definition recordAuthFailure :: "'r redis \<Rightarrow> int \<Rightarrow> string \<Rightarrow> 'r \<Rightarrow> abuse_event list \<times> 'r" where
  "recordAuthFailure R now ip =
     cmd_catch
       (cmd_bind (count_in_window R now (key1 ABUSE_AUTHFAIL_PREFIX ip) AUTH_FAIL_WINDOW) (\<lambda>count.
          if count > AUTH_FAIL_THRESHOLD
          then cmd_bind (await_unit (r_set_ex R now (key1 ABUSE_BLOCK_PREFIX ip) IP_BLOCK_TTL)) (\<lambda>_. cmd_return [Ip_blocked ip])
          else cmd_return [])) []"

definition recordRateLimitBreach :: "'r redis \<Rightarrow> int \<Rightarrow> string \<Rightarrow> 'r \<Rightarrow> abuse_event list \<times> 'r" where
  "recordRateLimitBreach R now clientId =
     cmd_catch
       (cmd_bind (count_in_window R now (key1 ABUSE_RATELIMITCOUNT_PREFIX clientId) BREACH_WINDOW) (\<lambda>count.
          cmd_return (if count > BREACH_THRESHOLD then [Repeat_offender clientId count] else []))) []"

definition isBlocked :: "'r redis \<Rightarrow> int \<Rightarrow> string \<Rightarrow> 'r \<Rightarrow> bool \<times> 'r" where
  "isBlocked R now ip = cmd_catch (await (r_get R now (key1 ABUSE_BLOCK_PREFIX ip))) False"

definition hasPenalty :: "'r redis \<Rightarrow> int \<Rightarrow> string \<Rightarrow> string \<Rightarrow> 'r \<Rightarrow> bool \<times> 'r" where
  "hasPenalty R now clientId endpoint =
     cmd_catch
       (cmd_bind (await (r_get R now (key2 ABUSE_PENALTY_PREFIX clientId endpoint))) (\<lambda>specific.
        cmd_bind (await (r_get R now (key2 ABUSE_PENALTY_PREFIX clientId ''*''))) (\<lambda>wildcard.
          cmd_return (specific \<or> wildcard)))) False"

text \<open>\<open>Math.max(1, Math.floor(originalLimit * 0.1))\<close>.\<close>

definition reduced_limit :: "int \<Rightarrow> int" where
  "reduced_limit l = max 1 (l div 10)"

text \<open>
  The scraping check gives the effective limit and its warning. A penalty that could not be stored leaves the
  original limit.
\<close>

definition checkScrapingPattern ::
  "'r redis \<Rightarrow> int \<Rightarrow> string \<Rightarrow> string \<Rightarrow> int \<Rightarrow> 'r \<Rightarrow> (int \<times> abuse_event list) \<times> 'r" where
  "checkScrapingPattern R now clientId path originalLimit =
     (let k = key1 ABUSE_SCRAPE_PREFIX clientId in
      cmd_catch
        (cmd_bind (await_unit (r_rpush R now k path)) (\<lambda>_.
         cmd_bind (await_unit (r_ltrim_last R now k SCRAPE_WINDOW_SIZE)) (\<lambda>_.
         cmd_bind (await_unit (r_expire R now k SCRAPE_PENALTY_TTL)) (\<lambda>_.
         cmd_bind (await (r_lrange R now k)) (\<lambda>recent.
           if length recent < 3 then cmd_return (originalLimit, [])
           else let similarity = averageJaccard (tokenisePath path) (map tokenisePath (butlast recent))
                in if similarity > SCRAPE_SIMILARITY_THRESHOLD
                   then cmd_bind (await_unit (r_set_ex R now (key2 ABUSE_PENALTY_PREFIX clientId ''*'') SCRAPE_PENALTY_TTL))
                          (\<lambda>_. cmd_return (reduced_limit originalLimit,
                                           [Scraping_detected clientId (reduced_limit originalLimit)]))
                   else cmd_return (originalLimit, []))))))
        (originalLimit, []))"

definition ddos_key :: "int \<Rightarrow> string \<Rightarrow> string" where
  "ddos_key now endpoint = key2 ABUSE_DDOS_PREFIX endpoint (dec (nat (now div (int DDOS_WINDOW * 1000))))"

definition checkDDoSPattern :: "'r redis \<Rightarrow> int \<Rightarrow> string \<Rightarrow> string \<Rightarrow> 'r \<Rightarrow> bool \<times> 'r" where
  "checkDDoSPattern R now endpoint ip =
     cmd_catch
       (cmd_bind (await_unit (r_pfadd R now (ddos_key now endpoint) ip)) (\<lambda>_.
        cmd_bind (await_unit (r_expire R now (ddos_key now endpoint) (DDOS_WINDOW * 3))) (\<lambda>_.
        cmd_bind (await (r_pfcount R now (ddos_key now endpoint))) (\<lambda>n. cmd_return (n > DDOS_THRESHOLD))))) False"

definition checkPaginationPattern :: "'r redis \<Rightarrow> int \<Rightarrow> string \<Rightarrow> string \<Rightarrow> bool \<Rightarrow> 'r \<Rightarrow> bool \<times> 'r" where
  "checkPaginationPattern R now clientId endpoint hasPageParam =
     cmd_catch
       (if \<not> hasPageParam then cmd_return False
        else cmd_bind (count_in_window R now (key2 ABUSE_PAGINATE_PREFIX clientId endpoint) PAGINATION_WINDOW) (\<lambda>count.
          if count > PAGINATION_THRESHOLD
          then cmd_bind (await_unit (r_set_ex R now (key2 ABUSE_PENALTY_PREFIX clientId endpoint) PAGINATION_PENALTY_TTL))
                 (\<lambda>_. cmd_return True)
          else cmd_return False)) False"

subsection \<open>The middleware\<close>

record abuse_context =
  ac_client :: "string option"
  ac_rate :: "int option"

record abuse_request =
  aq_forwarded :: "string option"
  aq_remote :: "string option"
  aq_path :: string
  aq_page :: bool
  aq_context :: "abuse_context option"

definition extractIp :: "abuse_request \<Rightarrow> string" where
  "extractIp req =
     (let remote = (case aq_remote req of Some a \<Rightarrow> a | None \<Rightarrow> ''0.0.0.0'') in
      case aq_forwarded req of
        Some f \<Rightarrow> if f \<noteq> [] then trim (hd (split_on CHR '','' f)) else remote
      | None \<Rightarrow> remote)"

definition client_of :: "abuse_request \<Rightarrow> string" where
  "client_of req =
     (case aq_context req of
        None \<Rightarrow> ''unknown''
      | Some c \<Rightarrow> (case ac_client c of Some k \<Rightarrow> k | None \<Rightarrow> ''undefined''))"

text \<open>\<open>{ ...context, rateLimit }\<close>, where the context may be undefined.\<close>

definition with_rate :: "abuse_context option \<Rightarrow> int \<Rightarrow> abuse_context option" where
  "with_rate c l = Some \<lparr>ac_client = (case c of Some x \<Rightarrow> ac_client x | None \<Rightarrow> None), ac_rate = Some l\<rparr>"

datatype abuse_outcome = Blocked_403 | Goes_on "abuse_context option" "abuse_event list"

text \<open>Step 2: an active penalty; the local default stands for a missing context.\<close>

definition penalty_step :: "'r redis \<Rightarrow> int \<Rightarrow> abuse_request \<Rightarrow> 'r \<Rightarrow> abuse_context option \<times> 'r" where
  "penalty_step R now req r =
     (case hasPenalty R now (client_of req) (aq_path req) r of
        (True, r1) \<Rightarrow>
          (with_rate (case aq_context req of
                        Some c \<Rightarrow> Some c
                      | None \<Rightarrow> Some \<lparr>ac_client = Some ''unknown'', ac_rate = None\<rparr>) 5, r1)
      | (False, r1) \<Rightarrow> (aq_context req, r1))"

text \<open>Step 5: reading the limit of an undefined context throws, and the catch skips the check.\<close>

definition scraping_step ::
  "'r redis \<Rightarrow> int \<Rightarrow> abuse_request \<Rightarrow> abuse_context option \<Rightarrow> 'r \<Rightarrow> (abuse_context option \<times> abuse_event list) \<times> 'r" where
  "scraping_step R now req c r =
     (case c of
        None \<Rightarrow> ((None, []), r)
      | Some x \<Rightarrow>
          let originalLimit = (case ac_rate x of Some l \<Rightarrow> l | None \<Rightarrow> 60) in
          case checkScrapingPattern R now (client_of req) (aq_path req) originalLimit r of
            ((effective, evs), r1) \<Rightarrow> ((if effective < originalLimit then with_rate c effective else c, evs), r1))"

definition pagination_step ::
  "'r redis \<Rightarrow> int \<Rightarrow> abuse_request \<Rightarrow> abuse_context option \<Rightarrow> 'r \<Rightarrow> abuse_context option \<times> 'r" where
  "pagination_step R now req c r =
     (case checkPaginationPattern R now (client_of req) (aq_path req) (aq_page req) r of
        (True, r1) \<Rightarrow> (with_rate c PAGINATION_PENALTY_RATE, r1)
      | (False, r1) \<Rightarrow> (c, r1))"

definition abuseDetector :: "'r redis \<Rightarrow> bool \<Rightarrow> int \<Rightarrow> abuse_request \<Rightarrow> 'r \<Rightarrow> abuse_outcome \<times> 'r" where
  "abuseDetector R ready now req r =
     (if \<not> ready then (Goes_on (aq_context req) [], r)
      else case isBlocked R now (extractIp req) r of
             (True, r1) \<Rightarrow> (Blocked_403, r1)
           | (False, r1) \<Rightarrow>
               (case penalty_step R now req r1 of (c2, r2) \<Rightarrow>
                (case scraping_step R now req c2 r2 of ((c3, evs), r3) \<Rightarrow>
                 (case pagination_step R now req c3 r3 of (c4, r4) \<Rightarrow> (Goes_on c4 evs, r4)))))"

text \<open>The finish handler of a request that went on: breach count on 429, then the DDoS check with its notification.\<close>

definition on_response :: "'r redis \<Rightarrow> bool \<Rightarrow> int \<Rightarrow> abuse_request \<Rightarrow> nat \<Rightarrow> 'r \<Rightarrow> abuse_event list \<times> 'r" where
  "on_response R ready now req status r =
     (if \<not> ready then ([], r)
      else case (if status = 429 then recordRateLimitBreach R now (client_of req) r else ([], r)) of (evs, r1) \<Rightarrow>
        (case checkDDoSPattern R now (aq_path req) (extractIp req) r1 of
           (True, r2) \<Rightarrow>
             (case r_pfcount R now (ddos_key now (aq_path req)) r2 of
                Some (n, r3) \<Rightarrow> (evs @ [Ddos_detected (aq_path req) n], r3)
              | None \<Rightarrow> (evs @ [Ddos_detected (aq_path req) 0], r2))
         | (False, r2) \<Rightarrow> (evs, r2)))"

subsection \<open>Similarity is a ratio\<close>

lemma jaccard_set:
  assumes "distinct a" "distinct b" "a \<noteq> []" "b \<noteq> []"
  shows "jaccardSimilarity a b = of_nat (card (set a \<inter> set b)) / of_nat (card (set a \<union> set b))"
proof -
  have i: "length (filter (\<lambda>t. t \<in> set b) a) = card (set a \<inter> set b)"
    using distinct_card [of "filter (\<lambda>t. t \<in> set b) a"] assms(1) by (simp add: Int_def)
  have u: "length a + length b = card (set a \<union> set b) + card (set a \<inter> set b)"
    using card_Un_Int [of "set a" "set b"] assms(1,2) by (simp add: distinct_card)
  from assms(3) have "card (set a \<union> set b) \<noteq> 0" by (simp add: card_eq_0_iff)
  then show ?thesis using i u assms(3,4) by (simp add: jaccardSimilarity_def Let_def)
qed

text \<open>
  The similarity of two paths lies between 0 and 1, does not depend on the order of the arguments, and is 1
  exactly when the paths have the same segments, whatever their order and repetition.
\<close>

lemma path_similarity_ratio:
  "0 \<le> jaccardSimilarity (tokenisePath p) (tokenisePath q) \<and> jaccardSimilarity (tokenisePath p) (tokenisePath q) \<le> 1 \<and>
   jaccardSimilarity (tokenisePath p) (tokenisePath q) = jaccardSimilarity (tokenisePath q) (tokenisePath p) \<and>
   (jaccardSimilarity (tokenisePath p) (tokenisePath q) = 1 \<longleftrightarrow> set (tokenisePath p) = set (tokenisePath q))"
proof -
  let ?a = "tokenisePath p" and ?b = "tokenisePath q"
  have d: "distinct ?a" "distinct ?b" by (simp_all add: tokenisePath_def)
  consider "?a = []" | "?b = []" | "?a \<noteq> []" "?b \<noteq> []" by blast
  then show ?thesis
  proof cases
    case 3
    let ?i = "card (set ?a \<inter> set ?b)" and ?u = "card (set ?a \<union> set ?b)"
    have le: "?i \<le> ?u" by (intro card_mono) auto
    have pos: "0 < ?u" using 3 by (simp add: card_gt_0_iff)
    have "?i = ?u \<longleftrightarrow> set ?a \<inter> set ?b = set ?a \<union> set ?b"
      by (metis card_subset_eq finite_Un inf_le1 le_supI1 finite_set)
    also have "\<dots> \<longleftrightarrow> set ?a = set ?b" by blast
    finally have eq: "?i = ?u \<longleftrightarrow> set ?a = set ?b" .
    show ?thesis
      using le pos eq jaccard_set [OF d 3] jaccard_set [OF d(2,1) 3(2,1)]
      by (simp add: Int_commute Un_commute divide_le_eq_1 3) (metis eq)
  qed (auto simp: jaccardSimilarity_def)
qed

subsection \<open>Penalties\<close>

lemma scraping_limit:
  "checkScrapingPattern R now cl p l r = ((e, evs), r') \<Longrightarrow> e = l \<or> e = reduced_limit l"
  unfolding checkScrapingPattern_def cmd_catch_def cmd_bind_def cmd_return_def await_def await_unit_def Let_def
  by (auto split: option.splits prod.splits if_splits)

text \<open>
  A request that goes on under an active penalty carries the reduced limit 5, or 1 when scraping is detected
  as well, whatever its own limit was.
\<close>

lemma penalised_limit:
  assumes "abuseDetector R True now req r = (Goes_on c evs, r')"
    and "fst (hasPenalty R now (client_of req) (aq_path req) (snd (isBlocked R now (extractIp req) r)))"
  shows "\<exists>x. c = Some x \<and> ac_rate x \<in> {Some 5, Some 1}"
proof -
  obtain r1 where b: "isBlocked R now (extractIp req) r = (False, r1)"
    using assms(1) by (auto simp: abuseDetector_def split: prod.splits bool.splits)
  then obtain r2 where "hasPenalty R now (client_of req) (aq_path req) r1 = (True, r2)"
    using assms(2) by (metis prod.collapse snd_conv)
  then obtain x where x: "penalty_step R now req r1 = (Some x, r2)" "ac_rate x = Some 5"
    by (auto simp: penalty_step_def with_rate_def)
  obtain c3 log3 r3 where s: "scraping_step R now req (Some x) r2 = ((c3, log3), r3)" by (metis prod.collapse)
  obtain e l4 r4 where "checkScrapingPattern R now (client_of req) (aq_path req) 5 r2 = ((e, l4), r4)" by (metis prod.collapse)
  with scraping_limit [OF this] s x(2) have "\<exists>y. c3 = Some y \<and> ac_rate y \<in> {Some 5, Some 1}"
    by (auto simp: scraping_step_def with_rate_def reduced_limit_def split: if_splits)
  then show ?thesis
    using assms(1) b x s
    by (auto simp: abuseDetector_def pagination_step_def with_rate_def PAGINATION_PENALTY_RATE_def
        split: prod.splits bool.splits)
qed

text \<open>Without a context and without a penalty the scraping check is skipped.\<close>

lemma no_context_no_scraping: "scraping_step R now req None r = ((None, []), r)"
  by (simp add: scraping_step_def)

definition penalised_redis :: toy_redis where
  "penalised_redis = toy_empty\<lparr>tr_entries := [key2 ABUSE_PENALTY_PREFIX ''c'' ''*'' \<mapsto> (1, Some 1000)]\<rparr>"

definition penalised_request :: abuse_request where
  "penalised_request =
     \<lparr>aq_forwarded = None, aq_remote = Some ''10.0.0.1'', aq_path = ''/api/events'', aq_page = False,
      aq_context = Some \<lparr>ac_client = Some ''c'', ac_rate = Some 600\<rparr>\<rparr>"

lemma penalised_limit_witness:
  "\<exists>x. fst (penalty_step toy_redis_client 5 penalised_request penalised_redis) = Some x \<and> ac_rate x \<in> {Some 5, Some 1}"
proof -
  let ?out = "abuseDetector toy_redis_client True 5 penalised_request penalised_redis"
  have b: "isBlocked toy_redis_client 5 (extractIp penalised_request) penalised_redis = (False, penalised_redis)"
    by (simp add: isBlocked_def cmd_catch_def await_def toy_redis_client_def penalised_redis_def toy_empty_def
        key1_def key2_def ABUSE_BLOCK_PREFIX_def ABUSE_PENALTY_PREFIX_def)
  have p: "hasPenalty toy_redis_client 5 (client_of penalised_request) (aq_path penalised_request) penalised_redis =
      (True, penalised_redis)"
    by (simp add: hasPenalty_def cmd_catch_def cmd_bind_def cmd_return_def await_def toy_redis_client_def
        penalised_redis_def penalised_request_def client_of_def)
  then have step: "fst (penalty_step toy_redis_client 5 penalised_request penalised_redis) =
      Some \<lparr>ac_client = Some ''c'', ac_rate = Some 5\<rparr>"
    by (simp add: penalty_step_def with_rate_def penalised_request_def)
  obtain c evs r' where out: "?out = (Goes_on c evs, r')"
  proof -
    obtain c2 r2 where 2: "penalty_step toy_redis_client 5 penalised_request penalised_redis = (c2, r2)" by fastforce
    obtain c3 l3 r3 where 3: "scraping_step toy_redis_client 5 penalised_request c2 r2 = ((c3, l3), r3)" by (metis prod.collapse)
    obtain c4 r4 where "pagination_step toy_redis_client 5 penalised_request c3 r3 = (c4, r4)" by fastforce
    with b 2 3 that show ?thesis by (simp add: abuseDetector_def)
  qed
  have "\<exists>x. c = Some x \<and> ac_rate x \<in> {Some 5, Some 1}"
    by (rule penalised_limit [OF out]) (simp add: b p)
  then show ?thesis using step by simp
qed

subsection \<open>Brute force\<close>

lemma count_in_window_spec:
  assumes doc: "redis_documented R entry" and run: "count_in_window R now k ttl r = (Some n, r')"
    and live: "live_at now (entry r k) = entry r k"
  shows "n = fst (bumped 1 (entry r k))" "entry r' k = (if n = 1 then Some (1, Some (now + int ttl * 1000)) else Some (bumped 1 (entry r k)))"
    "k' \<noteq> k \<Longrightarrow> entry r' k' = entry r k'"
proof -
  obtain r1 where i: "r_incr R now k r = Some (n, r1)"
    and e: "n = 1 \<Longrightarrow> r_expire R now k ttl r1 = Some r'" "n \<noteq> 1 \<Longrightarrow> r1 = r'"
    using run by (auto simp: count_in_window_def cmd_bind_def cmd_return_def await_def await_unit_def split: option.splits if_splits)
  have n: "n = fst (bumped 1 (entry r k))" and e1: "entry r1 = (entry r)(k \<mapsto> bumped 1 (entry r k))"
    using incr_entry [OF doc i] live by simp_all
  show "n = fst (bumped 1 (entry r k))" by (rule n)
  obtain t where t: "bumped 1 (entry r k) = (n, t)" using n by (metis prod.collapse)
  have l: "live_at now (Some (n, t)) = Some (n, t)"
    using live t by (auto simp: bumped_def live_at_def split: option.splits prod.splits if_splits)
  show "entry r' k = (if n = 1 then Some (1, Some (now + int ttl * 1000)) else Some (bumped 1 (entry r k)))"
    using e expire_entry [OF doc, of now k ttl r1 r'] e1 t l by auto
  show "k' \<noteq> k \<Longrightarrow> entry r' k' = entry r k'"
    using e expire_entry [OF doc, of now k ttl r1 r'] e1 by (cases "n = 1") auto
qed

definition all_answered :: "'r redis \<Rightarrow> bool" where
  "all_answered R =
     (\<forall>now k r. r_incr R now k r \<noteq> None \<and> r_get R now k r \<noteq> None \<and>
        (\<forall>ttl. r_expire R now k ttl r \<noteq> None \<and> r_set_ex R now k ttl r \<noteq> None))"

lemma fail_keys_differ: "key1 ABUSE_AUTHFAIL_PREFIX ip \<noteq> key1 ABUSE_BLOCK_PREFIX ip'"
  by (simp add: key1_def ABUSE_AUTHFAIL_PREFIX_def ABUSE_BLOCK_PREFIX_def)

lemma count_in_window_answers:
  assumes "all_answered R"
  obtains n r' where "count_in_window R now k ttl r = (Some n, r')"
proof -
  obtain n r1 where i: "r_incr R now k r = Some (n, r1)" using assms unfolding all_answered_def by fastforce
  obtain r2 where e: "r_expire R now k ttl r1 = Some r2" using assms unfolding all_answered_def by fastforce
  from i e that show thesis
    by (cases "n = 1") (auto simp: count_in_window_def cmd_bind_def cmd_return_def await_def await_unit_def)
qed

lemma recordAuthFailure_step:
  assumes doc: "redis_documented R entry" and ans: "all_answered R"
    and live: "live_at now (entry r (key1 ABUSE_AUTHFAIL_PREFIX ip)) = entry r (key1 ABUSE_AUTHFAIL_PREFIX ip)"
    and n: "n = fst (bumped 1 (entry r (key1 ABUSE_AUTHFAIL_PREFIX ip)))"
  shows "entry (snd (recordAuthFailure R now ip r)) (key1 ABUSE_AUTHFAIL_PREFIX ip) =
           (if n = 1 then Some (1, Some (now + 60000)) else Some (bumped 1 (entry r (key1 ABUSE_AUTHFAIL_PREFIX ip))))"
    "10 < n \<Longrightarrow> entry (snd (recordAuthFailure R now ip r)) (key1 ABUSE_BLOCK_PREFIX ip) = Some (1, Some (now + 900000))"
proof -
  let ?f = "key1 ABUSE_AUTHFAIL_PREFIX ip" and ?b = "key1 ABUSE_BLOCK_PREFIX ip"
  obtain m r1 where c: "count_in_window R now ?f AUTH_FAIL_WINDOW r = (Some m, r1)"
    using count_in_window_answers [OF ans] by blast
  note spec = count_in_window_spec [OF doc c live]
  have m: "m = n" using spec(1) n by simp
  obtain r2 where s: "r_set_ex R now ?b IP_BLOCK_TTL r1 = Some r2" using ans unfolding all_answered_def by fastforce
  have res: "snd (recordAuthFailure R now ip r) = (if 10 < n then r2 else r1)"
    using c s m by (simp add: recordAuthFailure_def cmd_catch_def cmd_bind_def cmd_return_def await_unit_def AUTH_FAIL_THRESHOLD_def)
  note e2 = set_ex_entry [OF doc s]
  show "entry (snd (recordAuthFailure R now ip r)) ?f =
          (if n = 1 then Some (1, Some (now + 60000)) else Some (bumped 1 (entry r ?f)))"
    using spec(2) m by (simp add: res e2 fail_keys_differ AUTH_FAIL_WINDOW_def)
  show "10 < n \<Longrightarrow> entry (snd (recordAuthFailure R now ip r)) ?b = Some (1, Some (now + 900000))"
    by (simp add: res e2 IP_BLOCK_TTL_def)
qed

definition auth_failures :: "'r redis \<Rightarrow> string \<Rightarrow> int list \<Rightarrow> 'r \<Rightarrow> 'r" where
  "auth_failures R ip stamps r = fold (\<lambda>t r. snd (recordAuthFailure R t ip r)) stamps r"

lemma auth_failures_count:
  assumes doc: "redis_documented R entry" and ans: "all_answered R"
    and start: "entry r (key1 ABUSE_AUTHFAIL_PREFIX ip) = None"
  shows "\<forall>t \<in> set stamps. t < t1 + 60000 \<Longrightarrow>
     entry (auth_failures R ip (t1 # stamps) r) (key1 ABUSE_AUTHFAIL_PREFIX ip) =
       Some (int (length stamps) + 1, Some (t1 + 60000)) \<and>
     (10 \<le> length stamps \<longrightarrow>
        entry (auth_failures R ip (t1 # stamps) r) (key1 ABUSE_BLOCK_PREFIX ip) = Some (1, Some (last (t1 # stamps) + 900000)))"
proof (induction stamps rule: rev_induct)
  case Nil
  have "live_at t1 (entry r (key1 ABUSE_AUTHFAIL_PREFIX ip)) = entry r (key1 ABUSE_AUTHFAIL_PREFIX ip)"
    using start by simp
  from recordAuthFailure_step(1) [OF doc ans this refl] start show ?case by (simp add: auth_failures_def)
next
  case (snoc t stamps)
  let ?r = "auth_failures R ip (t1 # stamps) r" and ?f = "key1 ABUSE_AUTHFAIL_PREFIX ip"
  have f: "entry ?r ?f = Some (int (length stamps) + 1, Some (t1 + 60000))" using snoc by auto
  then have live: "live_at t (entry ?r ?f) = entry ?r ?f" using snoc.prems by simp
  have step: "auth_failures R ip (t1 # stamps @ [t]) r = snd (recordAuthFailure R t ip ?r)"
    by (simp add: auth_failures_def)
  show ?case
    using recordAuthFailure_step [OF doc ans live refl] f unfolding step by simp
qed

text \<open>
  With a Redis that answers as documented, eleven authentication failures of one address within a minute of the
  first block it: every request from it is answered 403 until fifteen minutes after the last failure.
\<close>

lemma brute_force_blocks:
  assumes "redis_documented R entry" "all_answered R" "entry r (key1 ABUSE_AUTHFAIL_PREFIX (extractIp req)) = None"
    and "10 \<le> length stamps" "\<forall>t \<in> set stamps. t < t1 + 60000"
    and "now < last (t1 # stamps) + 900000"
  shows "fst (abuseDetector R True now req (auth_failures R (extractIp req) (t1 # stamps) r)) = Blocked_403"
proof -
  let ?r = "auth_failures R (extractIp req) (t1 # stamps) r" and ?b = "key1 ABUSE_BLOCK_PREFIX (extractIp req)"
  have "entry ?r ?b = Some (1, Some (last (t1 # stamps) + 900000))"
    using auth_failures_count [OF assms(1-3,5)] assms(4) by blast
  then have l: "live_at now (entry ?r ?b) \<noteq> None" using assms(6) by simp
  obtain b r' where g: "r_get R now ?b ?r = Some (b, r')" using assms(2) unfolding all_answered_def by fastforce
  with get_entry [OF assms(1) g] l have "isBlocked R now (extractIp req) ?r = (True, r')"
    by (simp add: isBlocked_def cmd_catch_def await_def)
  then show ?thesis by (simp add: abuseDetector_def)
qed

lemma brute_force_blocks_witness:
  "fst (abuseDetector toy_redis_client True 800000 penalised_request
          (auth_failures toy_redis_client (extractIp penalised_request) (0 # replicate 10 1000) toy_empty)) = Blocked_403"
  by (rule brute_force_blocks [OF toy_redis_documented])
     (simp_all add: all_answered_def toy_redis_client_def toy_empty_def Let_def)

end
