(* ===== verification/Graphql_Cost.thy ===== *)
theory Graphql_Cost
  imports Js_Prelude
begin

text \<open>
  rateLimit/graphqlComplexity.js. The parser is the graphql package, a parameter of the middleware; the types below are
  the nodes of its documents as far as the code looks at them.
\<close>

subsection \<open>Documents\<close>

datatype selection =
    Field "string option" "selection list option"
  | InlineFragment "selection list option"
  | FragmentSpread string
  | Other_selection

datatype graphql_definition =
    OperationDefinition "selection list option"
  | FragmentDefinition string "selection list option"
  | Other_definition

type_synonym graphql_document = "graphql_definition list option"

subsection \<open>Costs\<close>

definition TIER_COMPLEXITY_BUDGETS :: "(string \<times> nat) list" where
  "TIER_COMPLEXITY_BUDGETS = [(''unauthenticated'', 100), (''free'', 500), (''pro'', 2000), (''enterprise'', 10000)]"

definition DEFAULT_FIELD_COST :: nat where "DEFAULT_FIELD_COST = 1"
definition LIST_FIELD_MULTIPLIER :: nat where "LIST_FIELD_MULTIPLIER = 10"

definition LIST_FIELD_NAMES :: "string list" where
  "LIST_FIELD_NAMES = [''edges'', ''nodes'', ''items'', ''results'', ''data'', ''records'', ''entries'', ''list'',
     ''feed'', ''page'', ''collection'']"

definition isListField :: "string \<Rightarrow> bool" where
  "isListField fieldName =
     (lower fieldName \<in> set LIST_FIELD_NAMES \<or> (1 < length fieldName \<and> last fieldName = CHR ''s''))"

definition field_cost :: "string option \<Rightarrow> nat" where
  "field_cost name =
     (if isListField (case name of Some n \<Rightarrow> n | None \<Rightarrow> []) then DEFAULT_FIELD_COST * LIST_FIELD_MULTIPLIER
      else DEFAULT_FIELD_COST)"

text \<open>The loop over the selections of a set; an absent set costs nothing.\<close>

fun selections_cost :: "selection list \<Rightarrow> nat" where
  "selections_cost [] = 0"
| "selections_cost (Field name None # rest) = field_cost name + selections_cost rest"
| "selections_cost (Field name (Some sub) # rest) = field_cost name + selections_cost sub + selections_cost rest"
| "selections_cost (InlineFragment None # rest) = selections_cost rest"
| "selections_cost (InlineFragment (Some sub) # rest) = selections_cost sub + selections_cost rest"
| "selections_cost (FragmentSpread f # rest) = DEFAULT_FIELD_COST + selections_cost rest"
| "selections_cost (Other_selection # rest) = selections_cost rest"

definition calculateSelectionSetCost :: "selection list option \<Rightarrow> nat" where
  "calculateSelectionSetCost ss = (case ss of Some sels \<Rightarrow> selections_cost sels | None \<Rightarrow> 0)"

fun definition_cost :: "graphql_definition \<Rightarrow> nat" where
  "definition_cost (OperationDefinition ss) = calculateSelectionSetCost ss"
| "definition_cost (FragmentDefinition name ss) = calculateSelectionSetCost ss"
| "definition_cost Other_definition = 0"

definition calculateDocumentCost :: "graphql_document \<Rightarrow> nat" where
  "calculateDocumentCost doc = (case doc of None \<Rightarrow> 0 | Some defs \<Rightarrow> foldl (\<lambda>total d. total + definition_cost d) 0 defs)"

subsection \<open>The middleware\<close>

datatype graphql_outcome = Gql_next | Gql_priced nat nat | Gql_rejected nat nat

definition gql_budget :: "string option \<Rightarrow> nat" where
  "gql_budget tier =
     (case map_of TIER_COMPLEXITY_BUDGETS (case tier of Some t \<Rightarrow> t | None \<Rightarrow> ''unauthenticated'') of
        Some b \<Rightarrow> b | None \<Rightarrow> 100)"

text \<open>The query is \<open>None\<close> when the body has none or it is no text. The headers are the cost and what remains.\<close>

definition graphqlComplexityLimiter ::
  "(string \<Rightarrow> graphql_document option) \<Rightarrow> string \<Rightarrow> string option \<Rightarrow> string option \<Rightarrow> graphql_outcome" where
  "graphqlComplexityLimiter parse path query tier =
     (if \<not> sublist ''/graphql'' path then Gql_next
      else case query of
             None \<Rightarrow> Gql_next
           | Some q \<Rightarrow>
               if q = [] then Gql_next
               else (case parse q of
                       None \<Rightarrow> Gql_next
                     | Some document \<Rightarrow>
                         let cost = calculateDocumentCost document; budget = gql_budget tier
                         in if cost > budget then Gql_rejected cost budget
                            else Gql_priced cost (max 0 (budget - cost))))"

subsection \<open>What a query makes the server resolve\<close>

text \<open>The fields a selection set asks for once its fragments are expanded, to a nesting of spreads.\<close>

fun fields_of :: "(string \<Rightarrow> selection list option) \<Rightarrow> nat \<Rightarrow> selection list \<Rightarrow> nat" where
  "fields_of env fuel [] = 0"
| "fields_of env fuel (Field name None # rest) = 1 + fields_of env fuel rest"
| "fields_of env fuel (Field name (Some sub) # rest) = 1 + fields_of env fuel sub + fields_of env fuel rest"
| "fields_of env fuel (InlineFragment None # rest) = fields_of env fuel rest"
| "fields_of env fuel (InlineFragment (Some sub) # rest) = fields_of env fuel sub + fields_of env fuel rest"
| "fields_of env 0 (FragmentSpread f # rest) = fields_of env 0 rest"
| "fields_of env (Suc fuel) (FragmentSpread f # rest) =
     (case env f of Some sub \<Rightarrow> fields_of env fuel sub | None \<Rightarrow> 0) + fields_of env (Suc fuel) rest"
| "fields_of env fuel (Other_selection # rest) = fields_of env fuel rest"

lemma foldl_cost: "foldl (\<lambda>total d. total + definition_cost d) a defs = a + sum_list (map definition_cost defs)"
  by (induction defs arbitrary: a) auto

text \<open>Without fragment spreads every field is paid for.\<close>

fun spread_free :: "selection list \<Rightarrow> bool" where
  "spread_free [] = True"
| "spread_free (Field name None # rest) = spread_free rest"
| "spread_free (Field name (Some sub) # rest) = (spread_free sub \<and> spread_free rest)"
| "spread_free (InlineFragment None # rest) = spread_free rest"
| "spread_free (InlineFragment (Some sub) # rest) = (spread_free sub \<and> spread_free rest)"
| "spread_free (FragmentSpread f # rest) = False"
| "spread_free (Other_selection # rest) = spread_free rest"

lemma field_cost_pos: "1 \<le> field_cost name"
  by (simp add: field_cost_def DEFAULT_FIELD_COST_def LIST_FIELD_MULTIPLIER_def)

lemma spread_free_paid: "spread_free sels \<Longrightarrow> fields_of env fuel sels \<le> selections_cost sels"
proof (induction sels rule: spread_free.induct)
  case (2 name rest)
  then show ?case using field_cost_pos [of name] by simp
next
  case (3 name sub rest)
  then show ?case using field_cost_pos [of name] by simp
qed simp_all

text \<open>A chain of fragments, each spreading the next one twice; the last one asks for one field.\<close>

definition chain_fragment :: "nat \<Rightarrow> nat \<Rightarrow> selection list" where
  "chain_fragment k i =
     (if i < k then [FragmentSpread (dec (Suc i)), FragmentSpread (dec (Suc i))] else [Field (Some ''id'') None])"

definition chain_query :: "nat \<Rightarrow> graphql_document" where
  "chain_query k =
     Some (OperationDefinition (Some [FragmentSpread (dec 0)]) #
           map (\<lambda>i. FragmentDefinition (dec i) (Some (chain_fragment k i))) [0..<Suc k])"

definition chain_env :: "nat \<Rightarrow> string \<Rightarrow> selection list option" where
  "chain_env k name = map_of (map (\<lambda>i. (dec i, chain_fragment k i)) [0..<Suc k]) name"

lemma chain_env_dec: "i \<le> k \<Longrightarrow> chain_env k (dec i) = Some (chain_fragment k i)"
proof -
  assume "i \<le> k"
  moreover have "inj dec" by (metis injI undec_dec)
  ultimately show ?thesis
    unfolding chain_env_def
    by (intro map_of_is_SomeI)
       (auto simp: distinct_map comp_def simp del: upt_Suc intro: inj_on_subset [of dec UNIV])
qed

lemma chain_fields: "i \<le> k \<Longrightarrow> k - i \<le> fuel \<Longrightarrow> fields_of (chain_env k) fuel (chain_fragment k i) = 2 ^ (k - i)"
proof (induction "k - i" arbitrary: i fuel)
  case 0
  then show ?case by (simp add: chain_fragment_def)
next
  case (Suc n)
  then obtain f where f: "fuel = Suc f" by (cases fuel) auto
  have "fields_of (chain_env k) f (chain_fragment k (Suc i)) = 2 ^ (k - Suc i)"
    by (rule Suc.hyps(1)) (use Suc f in auto)
  moreover have "k - i = Suc (k - Suc i)" using Suc.hyps(2) by simp
  ultimately show ?case
    using Suc.hyps(2) chain_env_dec [of "Suc i" k] by (simp add: chain_fragment_def [of k i] f mult_2)
qed

text \<open>
  The cost does not bound the work: for every \<open>k\<close> there is a query whose cost is \<open>2 k + 2\<close> while it asks for
  \<open>2 ^ k\<close> fields, so a query within the budget of an anonymous client resolves \<open>2 ^ 49\<close> of them.
\<close>

lemma fragments_escape_the_cost:
  "calculateDocumentCost (chain_query k) = 2 * k + 2 \<and>
   fields_of (chain_env k) (Suc k) [FragmentSpread (dec 0)] = 2 ^ k \<and>
   graphqlComplexityLimiter (\<lambda>_. Some (chain_query 49)) ''/graphql'' (Some ''q'') None = Gql_priced 100 0"
proof -
  have s: "sum_list (map (\<lambda>i. selections_cost (chain_fragment k i)) [0..<j]) = 2 * j" if "j \<le> k" for j k
    using that by (induction j) (simp_all add: chain_fragment_def DEFAULT_FIELD_COST_def)
  have last: "selections_cost (chain_fragment k k) = 1" for k
    by (simp add: chain_fragment_def field_cost_def isListField_def lower_def lower_char_def LIST_FIELD_NAMES_def
        DEFAULT_FIELD_COST_def)
  have cost: "calculateDocumentCost (chain_query k) = 2 * k + 2" for k
    using s [of k k] last [of k]
    by (simp add: calculateDocumentCost_def chain_query_def foldl_cost calculateSelectionSetCost_def comp_def
        DEFAULT_FIELD_COST_def)
  have "fields_of (chain_env k) (Suc k) [FragmentSpread (dec 0)] = 2 ^ k"
    using chain_fields [of 0 k k] chain_env_dec [of 0 k] by simp
  note this cost [of k]
  moreover have "graphqlComplexityLimiter (\<lambda>_. Some (chain_query 49)) ''/graphql'' (Some ''q'') None = Gql_priced 100 0"
    using cost [of 49] by (simp add: graphqlComplexityLimiter_def gql_budget_def TIER_COMPLEXITY_BUDGETS_def)
  ultimately show ?thesis by blast
qed

end
