(* ===== verification/Rpc_Filters.thy ===== *)
theory Rpc_Filters
  imports Json "HOL-Library.Word"
begin

text \<open>
  rpcFilters.js: getEvents filters of the Soroban RPC, their validation, their compilation to a SQL condition and the
  matcher of the live feed. The XDR codec and SHA-256 behind \<open>topicHash\<close> are a parameter, and so is JSON.parse of the query
  parameter. The condition is built as a tree that \<open>render\<close> turns into the text of the code and \<open>holds\<close> reads with the
  three-valued logic of SQL.
\<close>

subsection \<open>Hexadecimal text of bytes\<close>

type_synonym bytes = "8 word list"

definition nibble_char :: "nat \<Rightarrow> char" where
  "nibble_char d = (if d < 10 then digit_char d else char_of (87 + d))"

definition nibble_value :: "char \<Rightarrow> nat" where
  "nibble_value c = (if is_digit c then digit_val c else of_char c - 87)"

definition to_hex :: "bytes \<Rightarrow> string" where
  "to_hex bs = concat (map (\<lambda>b. [nibble_char (unat b div 16), nibble_char (unat b mod 16)]) bs)"

fun from_hex :: "string \<Rightarrow> bytes" where
  "from_hex (a # b # s) = word_of_nat (16 * nibble_value a + nibble_value b) # from_hex s"
| "from_hex _ = []"

lemma nibble_value_char: "d < 16 \<Longrightarrow> nibble_value (nibble_char d) = d"
proof (cases "d < 10")
  case True
  then show ?thesis by (simp add: nibble_value_def nibble_char_def)
next
  case False
  assume "d < 16"
  then have "(of_char (nibble_char d) :: nat) = 87 + d" using False by (simp add: nibble_char_def of_char_of)
  then show ?thesis using False by (simp add: nibble_value_def is_digit_def)
qed

lemma from_to_hex [simp]: "from_hex (to_hex bs) = bs"
proof (induction bs)
  case (Cons b bs)
  have "unat b < 256" using unsigned_less [of b, where 'a = nat] by simp
  then have "unat b div 16 < 16" by simp
  then have "word_of_nat (16 * nibble_value (nibble_char (unat b div 16)) + nibble_value (nibble_char (unat b mod 16))) = b"
    by (simp add: nibble_value_char flip: of_nat_add of_nat_mult)
  with Cons show ?case by (simp add: to_hex_def)
qed (simp add: to_hex_def)

lemma to_hex_inject [simp]: "to_hex a = to_hex b \<longleftrightarrow> a = b"
  by (metis from_to_hex)

subsection \<open>Limits and errors\<close>

definition maxFilters :: nat where "maxFilters = 5"
definition maxContractIds :: nat where "maxContractIds = 5"
definition maxTopicPatterns :: nat where "maxTopicPatterns = 5"
definition maxSegments :: nat where "maxSegments = 4"

definition EVENT_TYPES :: "string list" where
  "EVENT_TYPES = [''contract'', ''system'', ''diagnostic'']"

definition contract_id_ok :: "string \<Rightarrow> bool" where
  "contract_id_ok s =
     (length s = 56 \<and> hd s = CHR ''C'' \<and>
      list_all (\<lambda>c. (CHR ''A'' \<le> c \<and> c \<le> CHR ''Z'') \<or> (CHR ''2'' \<le> c \<and> c \<le> CHR ''7'')) (tl s))"

datatype rpc_filter_error =
    Filters_not_array
  | Filter_not_object nat
  | Unknown_fields nat "string list"
  | Bad_type nat
  | Too_many_contract_ids nat
  | Invalid_contract_id
  | Too_many_patterns nat
  | Pattern_not_array nat nat
  | Too_many_segments nat nat
  | Misplaced_globstar
  | Segment_not_string
  | Segment_not_xdr string
  | Filters_not_json

record topic_pattern =
  tp_trailing :: bool
  tp_segments :: "bytes option list"

record rpc_filter =
  rf_type :: "string option"
  rf_contracts :: "string list"
  rf_patterns :: "topic_pattern list"

subsection \<open>Topic columns\<close>

definition topicColumns :: "('scval \<Rightarrow> bytes) \<Rightarrow> 'scval list \<Rightarrow> string list \<times> nat" where
  "topicColumns topicHash topics = (map (\<lambda>t. to_hex (topicHash t)) (take 4 topics), length topics)"

subsection \<open>Validation\<close>

text \<open>An array map whose callback may throw, with the index.\<close>

fun map_throw :: "(nat \<Rightarrow> 'a \<Rightarrow> 'e + 'b) \<Rightarrow> nat \<Rightarrow> 'a list \<Rightarrow> 'e + 'b list" where
  "map_throw f i [] = Inr []"
| "map_throw f i (x # xs) =
     (case f i x of
        Inl e \<Rightarrow> Inl e
      | Inr y \<Rightarrow> (case map_throw f (Suc i) xs of Inl e \<Rightarrow> Inl e | Inr ys \<Rightarrow> Inr (y # ys)))"

text \<open>\<open>v ?? []\<close> that must be an array of bounded length.\<close>

definition array_or_empty :: "json option \<Rightarrow> nat \<Rightarrow> json list option" where
  "array_or_empty v limit =
     (case v of
        None \<Rightarrow> Some []
      | Some JNull \<Rightarrow> Some []
      | Some (JArr xs) \<Rightarrow> if length xs \<le> limit then Some xs else None
      | _ \<Rightarrow> None)"

definition contract_id_of :: "json \<Rightarrow> rpc_filter_error + string" where
  "contract_id_of v = (case v of JStr s \<Rightarrow> if contract_id_ok s then Inr s else Inl Invalid_contract_id | _ \<Rightarrow> Inl Invalid_contract_id)"

definition segment_of :: "(string \<Rightarrow> bytes option) \<Rightarrow> json \<Rightarrow> rpc_filter_error + bytes option" where
  "segment_of topicHash seg =
     (if seg = JStr ''*'' then Inr None
      else if seg = JStr ''**'' then Inl Misplaced_globstar
      else case seg of
             JStr s \<Rightarrow> (case topicHash s of Some h \<Rightarrow> Inr (Some h) | None \<Rightarrow> Inl (Segment_not_xdr (take 64 s)))
           | _ \<Rightarrow> Inl Segment_not_string)"

definition pattern_of :: "(string \<Rightarrow> bytes option) \<Rightarrow> nat \<Rightarrow> nat \<Rightarrow> json \<Rightarrow> rpc_filter_error + topic_pattern" where
  "pattern_of topicHash i j v =
     (case v of
        JArr segments \<Rightarrow>
          if segments = [] then Inl (Pattern_not_array i j)
          else let trailing = (last segments = JStr ''**'');
                   fixed = (if trailing then butlast segments else segments)
               in if length fixed > maxSegments then Inl (Too_many_segments i j)
                  else (case map_throw (\<lambda>_. segment_of topicHash) 0 fixed of
                          Inl e \<Rightarrow> Inl e
                        | Inr segs \<Rightarrow> Inr \<lparr>tp_trailing = trailing, tp_segments = segs\<rparr>)
      | _ \<Rightarrow> Inl (Pattern_not_array i j))"

definition filter_of :: "(string \<Rightarrow> bytes option) \<Rightarrow> nat \<Rightarrow> json \<Rightarrow> rpc_filter_error + rpc_filter" where
  "filter_of topicHash i v =
     (case v of
        JObj ps \<Rightarrow>
          (let unknown = filter (\<lambda>k. k \<notin> {''type'', ''contractIds'', ''topics''}) (map fst ps) in
           if unknown \<noteq> [] then Inl (Unknown_fields i unknown)
           else if prop_of v ''type'' \<noteq> None \<and> prop_of v ''type'' \<notin> (\<lambda>t. Some (JStr t)) ` set EVENT_TYPES then Inl (Bad_type i)
           else case array_or_empty (prop_of v ''contractIds'') maxContractIds of
                  None \<Rightarrow> Inl (Too_many_contract_ids i)
                | Some ids \<Rightarrow>
                    (case map_throw (\<lambda>_. contract_id_of) 0 ids of
                       Inl e \<Rightarrow> Inl e
                     | Inr contracts \<Rightarrow>
                         (case array_or_empty (prop_of v ''topics'') maxTopicPatterns of
                            None \<Rightarrow> Inl (Too_many_patterns i)
                          | Some topics \<Rightarrow>
                              (case map_throw (pattern_of topicHash i) 0 topics of
                                 Inl e \<Rightarrow> Inl e
                               | Inr patterns \<Rightarrow>
                                   Inr \<lparr>rf_type = str_prop v ''type'', rf_contracts = contracts, rf_patterns = patterns\<rparr>))))
      | _ \<Rightarrow> Inl (Filter_not_object i))"

definition validateRpcFilters :: "(string \<Rightarrow> bytes option) \<Rightarrow> json \<Rightarrow> rpc_filter_error + rpc_filter list" where
  "validateRpcFilters topicHash filters =
     (case filters of
        JArr fs \<Rightarrow> if fs = [] \<or> length fs > maxFilters then Inl Filters_not_array else map_throw (filter_of topicHash) 0 fs
      | _ \<Rightarrow> Inl Filters_not_array)"

definition parseRpcFilters ::
  "(string \<Rightarrow> json option) \<Rightarrow> (string \<Rightarrow> bytes option) \<Rightarrow> json \<Rightarrow> rpc_filter_error + rpc_filter list" where
  "parseRpcFilters json_parse topicHash input =
     (case input of
        JStr s \<Rightarrow> (case json_parse s of None \<Rightarrow> Inl Filters_not_json | Some v \<Rightarrow> validateRpcFilters topicHash v)
      | _ \<Rightarrow> validateRpcFilters topicHash input)"

subsection \<open>Compilation\<close>

datatype rpc_param = P_ids "string list" | P_hash bytes

datatype sql_cond =
    Sql_false
  | Sql_true
  | Contract_any nat
  | Topic_is nat nat
  | Count_least nat
  | Count_is nat
  | Sql_and "sql_cond list"
  | Sql_or "sql_cond list"

fun render :: "sql_cond \<Rightarrow> string" where
  "render Sql_false = ''FALSE''"
| "render Sql_true = ''TRUE''"
| "render (Contract_any p) = ''contract_id = ANY($'' @ dec p @ ''::text[])''"
| "render (Topic_is i p) = ''topic'' @ dec i @ '' = $'' @ dec p @ ''::bytea''"
| "render (Count_least n) = ''topic_count >= '' @ dec n"
| "render (Count_is n) = ''topic_count = '' @ dec n"
| "render (Sql_and cs) = ''('' @ join '' AND '' (map render cs) @ '')''"
| "render (Sql_or cs) = ''('' @ join '' OR '' (map render cs) @ '')''"

definition bind :: "rpc_param \<Rightarrow> rpc_param list \<Rightarrow> nat \<times> rpc_param list" where
  "bind v params = (length params + 1, params @ [v])"

text \<open>A map whose callback pushes parameters.\<close>

fun thread :: "('a \<Rightarrow> 'p \<Rightarrow> 'b \<times> 'p) \<Rightarrow> 'a list \<Rightarrow> 'p \<Rightarrow> 'b list \<times> 'p" where
  "thread f [] ps = ([], ps)"
| "thread f (x # xs) ps = (case f x ps of (y, ps1) \<Rightarrow> (case thread f xs ps1 of (ys, ps2) \<Rightarrow> (y # ys, ps2)))"

definition fixed_segments :: "topic_pattern \<Rightarrow> (nat \<times> bytes) list" where
  "fixed_segments p =
     concat (map (\<lambda>(i, s). case s of Some h \<Rightarrow> [(i, h)] | None \<Rightarrow> []) (enumerate 0 (tp_segments p)))"

definition segment_cond :: "nat \<times> bytes \<Rightarrow> rpc_param list \<Rightarrow> sql_cond \<times> rpc_param list" where
  "segment_cond ih params = (case bind (P_hash (snd ih)) params of (n, params1) \<Rightarrow> (Topic_is (fst ih) n, params1))"

definition pattern_cond :: "topic_pattern \<Rightarrow> rpc_param list \<Rightarrow> sql_cond \<times> rpc_param list" where
  "pattern_cond p params =
     (case thread segment_cond (fixed_segments p) params of (conds, params1) \<Rightarrow>
        (Sql_and (conds @ [(if tp_trailing p then Count_least else Count_is) (length (tp_segments p))]), params1))"

definition contract_type :: "rpc_filter \<Rightarrow> bool" where
  "contract_type f = (case rf_type f of None \<Rightarrow> True | Some t \<Rightarrow> t = [] \<or> t = ''contract'')"

definition filter_cond :: "rpc_filter \<Rightarrow> rpc_param list \<Rightarrow> sql_cond \<times> rpc_param list" where
  "filter_cond f params =
     (if \<not> contract_type f then (Sql_false, params)
      else case (if rf_contracts f \<noteq> []
                 then (case bind (P_ids (rf_contracts f)) params of (n, ps) \<Rightarrow> ([Contract_any n], ps)) else ([], params)) of
             (parts1, params1) \<Rightarrow>
               (case (if rf_patterns f \<noteq> []
                      then (case thread pattern_cond (rf_patterns f) params1 of (alts, ps) \<Rightarrow> ([Sql_or alts], ps))
                      else ([], params1)) of
                  (parts2, params2) \<Rightarrow>
                    (if parts1 @ parts2 = [] then Sql_true else Sql_and (parts1 @ parts2), params2)))"

definition compile_cond :: "rpc_filter list \<Rightarrow> rpc_param list \<Rightarrow> sql_cond \<times> rpc_param list" where
  "compile_cond filters params = (case thread filter_cond filters params of (clauses, ps) \<Rightarrow> (Sql_or clauses, ps))"

definition compileRpcFilters :: "rpc_filter list \<Rightarrow> rpc_param list \<Rightarrow> string \<times> rpc_param list" where
  "compileRpcFilters filters params = (case compile_cond filters params of (c, ps) \<Rightarrow> (render c, ps))"

subsection \<open>The matcher\<close>

record live_event =
  le_contract :: string
  le_hashes :: "string list option"
  le_count :: "nat option"

definition pattern_matches :: "string list \<Rightarrow> nat \<Rightarrow> topic_pattern \<Rightarrow> bool" where
  "pattern_matches hashes count p =
     (\<not> (if tp_trailing p then count < length (tp_segments p) else count \<noteq> length (tp_segments p)) \<and>
      list_all (\<lambda>(i, s). case s of None \<Rightarrow> True | Some h \<Rightarrow> i < length hashes \<and> hashes ! i = to_hex h)
        (enumerate 0 (tp_segments p)))"

definition matchRpcFilters :: "rpc_filter list \<Rightarrow> live_event \<Rightarrow> bool" where
  "matchRpcFilters filters ev =
     list_ex (\<lambda>f.
        contract_type f \<and>
        (rf_contracts f = [] \<or> le_contract ev \<in> set (rf_contracts f)) \<and>
        (rf_patterns f = [] \<or>
         (case (le_hashes ev, le_count ev) of
            (Some hashes, Some count) \<Rightarrow> list_ex (pattern_matches hashes count) (rf_patterns f)
          | _ \<Rightarrow> False)))
       filters"

subsection \<open>Reading the condition\<close>

text \<open>The columns of a stored event.\<close>

record event_columns =
  ec_contract :: string
  ec_topic :: "nat \<Rightarrow> bytes option"
  ec_count :: "nat option"

definition columns_of :: "live_event \<Rightarrow> event_columns" where
  "columns_of ev =
     \<lparr>ec_contract = le_contract ev,
      ec_topic = (\<lambda>i. case le_hashes ev of
                        Some hs \<Rightarrow> if i < 4 \<and> i < length hs \<and> hs ! i \<noteq> [] then Some (from_hex (hs ! i)) else None
                      | None \<Rightarrow> None),
      ec_count = le_count ev\<rparr>"

definition sql_and :: "bool option list \<Rightarrow> bool option" where
  "sql_and bs = (if Some False \<in> set bs then Some False else if None \<in> set bs then None else Some True)"

definition sql_or :: "bool option list \<Rightarrow> bool option" where
  "sql_or bs = (if Some True \<in> set bs then Some True else if None \<in> set bs then None else Some False)"

definition ids_param :: "rpc_param list \<Rightarrow> nat \<Rightarrow> string list" where
  "ids_param ps n = (if 0 < n \<and> n \<le> length ps then (case ps ! (n - 1) of P_ids xs \<Rightarrow> xs | P_hash _ \<Rightarrow> []) else [])"

definition hash_param :: "rpc_param list \<Rightarrow> nat \<Rightarrow> bytes option" where
  "hash_param ps n = (if 0 < n \<and> n \<le> length ps then (case ps ! (n - 1) of P_hash h \<Rightarrow> Some h | P_ids _ \<Rightarrow> None) else None)"

fun truth :: "event_columns \<Rightarrow> rpc_param list \<Rightarrow> sql_cond \<Rightarrow> bool option" where
  "truth e ps Sql_false = Some False"
| "truth e ps Sql_true = Some True"
| "truth e ps (Contract_any n) = Some (ec_contract e \<in> set (ids_param ps n))"
| "truth e ps (Topic_is i n) =
     (case (ec_topic e i, hash_param ps n) of (Some a, Some b) \<Rightarrow> Some (a = b) | _ \<Rightarrow> None)"
| "truth e ps (Count_least n) = map_option (\<lambda>c. n \<le> c) (ec_count e)"
| "truth e ps (Count_is n) = map_option (\<lambda>c. c = n) (ec_count e)"
| "truth e ps (Sql_and cs) = sql_and (map (truth e ps) cs)"
| "truth e ps (Sql_or cs) = sql_or (map (truth e ps) cs)"

text \<open>A row satisfies a WHERE condition that is true, not one that is unknown.\<close>

definition selects :: "event_columns \<Rightarrow> rpc_param list \<Rightarrow> sql_cond \<Rightarrow> bool" where
  "selects e ps c = (truth e ps c = Some True)"

lemma sql_or_true: "sql_or bs = Some True \<longleftrightarrow> Some True \<in> set bs"
  by (simp add: sql_or_def)

lemma sql_and_true: "sql_and bs = Some True \<longleftrightarrow> (\<forall>b \<in> set bs. b = Some True)"
proof (induction bs)
  case Nil
  then show ?case by (simp add: sql_and_def)
next
  case (Cons b bs)
  consider "b = Some True" | "b = Some False" | "b = None" by (metis (full_types) not_None_eq)
  then show ?case using Cons by cases (auto simp: sql_and_def split: if_splits)
qed

lemma selects_simps [simp]:
  "\<not> selects e ps Sql_false" "selects e ps Sql_true"
  "selects e ps (Contract_any n) \<longleftrightarrow> ec_contract e \<in> set (ids_param ps n)"
  "selects e ps (Topic_is i n) \<longleftrightarrow> (\<exists>h. ec_topic e i = Some h \<and> hash_param ps n = Some h)"
  "selects e ps (Count_least n) \<longleftrightarrow> (\<exists>c. ec_count e = Some c \<and> n \<le> c)"
  "selects e ps (Count_is n) \<longleftrightarrow> ec_count e = Some n"
  by (auto simp: selects_def split: option.splits)

lemma selects_or [simp]: "selects e ps (Sql_or cs) \<longleftrightarrow> (\<exists>c \<in> set cs. selects e ps c)"
  unfolding selects_def truth.simps sql_or_true by (metis image_eqI image_iff list.set_map)

lemma selects_and [simp]: "selects e ps (Sql_and cs) \<longleftrightarrow> (\<forall>c \<in> set cs. selects e ps c)"
  unfolding selects_def truth.simps sql_and_true by simp

text \<open>A step that compiles to a condition with a given meaning: it appends parameters and keeps it under more of them.\<close>

definition compiles :: "event_columns \<Rightarrow> ('a \<Rightarrow> rpc_param list \<Rightarrow> sql_cond \<times> rpc_param list) \<Rightarrow> ('a \<Rightarrow> bool) \<Rightarrow> 'a \<Rightarrow> bool" where
  "compiles e f sem x \<longleftrightarrow>
     (\<forall>ps. \<exists>c qs. f x ps = (c, ps @ qs) \<and> (\<forall>rs. selects e (ps @ qs @ rs) c \<longleftrightarrow> sem x))"

lemma compilesE:
  assumes "compiles e f sem x"
  obtains c qs where "f x ps = (c, ps @ qs)" "\<And>rs. selects e (ps @ qs @ rs) c \<longleftrightarrow> sem x"
proof -
  from assms have "\<exists>c qs. f x ps = (c, ps @ qs) \<and> (\<forall>rs. selects e (ps @ qs @ rs) c \<longleftrightarrow> sem x)"
    unfolding compiles_def by (rule spec)
  with that show thesis by blast
qed

lemma thread_compiles:
  assumes "\<forall>x \<in> set xs. compiles e f sem x"
  obtains cs qs where "thread f xs ps = (cs, ps @ qs)" "\<And>rs. map (selects e (ps @ qs @ rs)) cs = map sem xs"
  using assms
proof (induction xs arbitrary: ps thesis)
  case Nil
  then show ?case by (metis append_Nil2 list.simps(8) thread.simps(1))
next
  case (Cons x xs)
  from Cons.prems(2) have "compiles e f sem x" by simp
  then obtain c qs where c: "f x ps = (c, ps @ qs)" "\<And>rs. selects e (ps @ qs @ rs) c \<longleftrightarrow> sem x"
    using compilesE [where ps = ps] by metis
  from Cons.prems(2) have "\<forall>x \<in> set xs. compiles e f sem x" by simp
  then obtain cs qs' where cs: "thread f xs (ps @ qs) = (cs, (ps @ qs) @ qs')"
      "\<And>rs. map (selects e ((ps @ qs) @ qs' @ rs)) cs = map sem xs"
    using Cons.IH by metis
  show ?case
  proof (rule Cons.prems(1))
    show "thread f (x # xs) ps = (c # cs, ps @ (qs @ qs'))" using c(1) cs(1) by simp
    show "map (selects e (ps @ (qs @ qs') @ rs)) (c # cs) = map sem (x # xs)" for rs
      using c(2) [of "qs' @ rs"] cs(2) [of rs] by simp
  qed
qed

lemma map_bool_ex: "map P cs = map Q xs \<Longrightarrow> (\<exists>c \<in> set cs. P c) \<longleftrightarrow> (\<exists>x \<in> set xs. Q x)"
  by (metis (mono_tags, lifting) image_iff list.set_map)

lemma map_bool_all: "map P cs = map Q xs \<Longrightarrow> (\<forall>c \<in> set cs. P c) \<longleftrightarrow> (\<forall>x \<in> set xs. Q x)"
  by (metis (mono_tags, lifting) image_iff list.set_map)

lemma compile_segment: "compiles e segment_cond (\<lambda>(i, h). ec_topic e i = Some h) ih"
  unfolding compiles_def
proof (intro allI exI conjI)
  fix ps rs
  show "segment_cond ih ps = (Topic_is (fst ih) (length ps + 1), ps @ [P_hash (snd ih)])"
    by (simp add: segment_cond_def bind_def)
  show "selects e (ps @ [P_hash (snd ih)] @ rs) (Topic_is (fst ih) (length ps + 1)) =
      (case ih of (i, h) \<Rightarrow> ec_topic e i = Some h)"
    by (auto simp: hash_param_def nth_append split: prod.splits)
qed

definition means_pattern :: "event_columns \<Rightarrow> topic_pattern \<Rightarrow> bool" where
  "means_pattern e p =
     ((\<forall>(i, h) \<in> set (fixed_segments p). ec_topic e i = Some h) \<and>
      (\<exists>c. ec_count e = Some c \<and> (if tp_trailing p then length (tp_segments p) \<le> c else c = length (tp_segments p))))"

lemma compile_pattern: "compiles e pattern_cond (means_pattern e) p"
  unfolding compiles_def
proof
  fix ps :: "rpc_param list"
  obtain cs qs where cs: "thread segment_cond (fixed_segments p) ps = (cs, ps @ qs)"
      "\<And>rs. map (selects e (ps @ qs @ rs)) cs = map (\<lambda>(i, h). ec_topic e i = Some h) (fixed_segments p)"
    using thread_compiles [where e = e and f = segment_cond and sem = "\<lambda>(i, h). ec_topic e i = Some h"
        and xs = "fixed_segments p" and ps = ps] compile_segment by blast
  let ?c = "Sql_and (cs @ [(if tp_trailing p then Count_least else Count_is) (length (tp_segments p))])"
  have "selects e (ps @ qs @ rs) ?c \<longleftrightarrow> means_pattern e p" for rs
    using map_bool_all [OF cs(2) [of rs]] by (auto simp: means_pattern_def)
  with cs(1) show "\<exists>c qs. pattern_cond p ps = (c, ps @ qs) \<and> (\<forall>rs. selects e (ps @ qs @ rs) c = means_pattern e p)"
    by (intro exI [of _ ?c] exI [of _ qs]) (simp add: pattern_cond_def)
qed

definition means_filter :: "event_columns \<Rightarrow> rpc_filter \<Rightarrow> bool" where
  "means_filter e f =
     (contract_type f \<and> (rf_contracts f = [] \<or> ec_contract e \<in> set (rf_contracts f)) \<and>
      (rf_patterns f = [] \<or> (\<exists>p \<in> set (rf_patterns f). means_pattern e p)))"

lemma compile_filter: "compiles e filter_cond (means_filter e) f"
  unfolding compiles_def
proof
  fix ps :: "rpc_param list"
  define ids where "ids = (if rf_contracts f \<noteq> [] then [P_ids (rf_contracts f)] else [])"
  define parts1 where "parts1 = (if rf_contracts f \<noteq> [] then [Contract_any (length ps + 1)] else [])"
  have p1: "(\<forall>c \<in> set parts1. selects e (ps @ ids @ rs) c) \<longleftrightarrow>
      rf_contracts f = [] \<or> ec_contract e \<in> set (rf_contracts f)" for rs
    by (auto simp: parts1_def ids_def ids_param_def nth_append)
  obtain alts qs where alts: "thread pattern_cond (rf_patterns f) (ps @ ids) = (alts, (ps @ ids) @ qs)"
      "\<And>rs. map (selects e ((ps @ ids) @ qs @ rs)) alts = map (means_pattern e) (rf_patterns f)"
    using thread_compiles [where e = e and f = pattern_cond and sem = "means_pattern e" and xs = "rf_patterns f"
        and ps = "ps @ ids"] compile_pattern by blast
  define parts2 where "parts2 = (if rf_patterns f \<noteq> [] then [Sql_or alts] else [])"
  define qs' where "qs' = (if rf_patterns f \<noteq> [] then qs else [])"
  have p2: "(\<forall>c \<in> set parts2. selects e (ps @ ids @ qs' @ rs) c) \<longleftrightarrow>
      rf_patterns f = [] \<or> (\<exists>p \<in> set (rf_patterns f). means_pattern e p)" for rs
    using map_bool_ex [OF alts(2) [of rs]] by (auto simp: parts2_def qs'_def)
  have cond: "filter_cond f ps =
      (if contract_type f then (if parts1 @ parts2 = [] then Sql_true else Sql_and (parts1 @ parts2), ps @ ids @ qs')
       else (Sql_false, ps @ []))"
    using alts(1)
    by (cases "rf_contracts f = []"; cases "rf_patterns f = []")
       (simp_all add: filter_cond_def bind_def parts1_def parts2_def ids_def qs'_def)
  have all: "selects e (ps @ ids @ qs' @ rs) (if parts1 @ parts2 = [] then Sql_true else Sql_and (parts1 @ parts2)) \<longleftrightarrow>
      (\<forall>c \<in> set (parts1 @ parts2). selects e (ps @ ids @ qs' @ rs) c)" for rs
    by simp
  have sem: "selects e (ps @ ids @ qs' @ rs) (if parts1 @ parts2 = [] then Sql_true else Sql_and (parts1 @ parts2)) \<longleftrightarrow>
      means_filter e f" if "contract_type f" for rs
    unfolding all using that p1 [of "qs' @ rs"] p2 [of rs] by (auto simp: means_filter_def)
  show "\<exists>c qs. filter_cond f ps = (c, ps @ qs) \<and> (\<forall>rs. selects e (ps @ qs @ rs) c = means_filter e f)"
  proof (cases "contract_type f")
    case True
    with sem show ?thesis unfolding cond
      by (intro exI [of _ "if parts1 @ parts2 = [] then Sql_true else Sql_and (parts1 @ parts2)"] exI [of _ "ids @ qs'"])
         (simp del: selects_and)
  next
    case False
    then show ?thesis unfolding cond by (auto simp: means_filter_def)
  qed
qed

lemma compile_selects:
  "compile_cond fs ps = (c, params) \<Longrightarrow> selects e params c \<longleftrightarrow> (\<exists>f \<in> set fs. means_filter e f)"
proof -
  assume c: "compile_cond fs ps = (c, params)"
  obtain cs qs where cs: "thread filter_cond fs ps = (cs, ps @ qs)"
      "\<And>rs. map (selects e (ps @ qs @ rs)) cs = map (means_filter e) fs"
    using thread_compiles [where e = e and f = filter_cond and sem = "means_filter e" and xs = fs and ps = ps]
      compile_filter by blast
  with c map_bool_ex [OF cs(2) [of "[]"]] show ?thesis by (auto simp: compile_cond_def)
qed

subsection \<open>Validated filters\<close>

lemma map_throw_Inr:
  "map_throw f i xs = Inr ys \<Longrightarrow> length ys = length xs \<and> (\<forall>y \<in> set ys. \<exists>j x. x \<in> set xs \<and> f j x = Inr y)"
proof (induction xs arbitrary: i ys)
  case (Cons x xs)
  then show ?case by (fastforce split: sum.splits)
qed simp

definition filter_bounded :: "rpc_filter \<Rightarrow> bool" where
  "filter_bounded f =
     (length (rf_contracts f) \<le> 5 \<and> list_all contract_id_ok (rf_contracts f) \<and> length (rf_patterns f) \<le> 5 \<and>
      (\<forall>p \<in> set (rf_patterns f). length (tp_segments p) \<le> 4) \<and>
      rf_type f \<in> {None, Some ''contract'', Some ''system'', Some ''diagnostic''})"

lemma pattern_of_bounded: "pattern_of topicHash i j v = Inr p \<Longrightarrow> length (tp_segments p) \<le> 4"
  by (auto simp: pattern_of_def Let_def maxSegments_def split: json.splits if_splits sum.splits dest: map_throw_Inr)

lemma contract_id_of_ok: "contract_id_of v = Inr s \<Longrightarrow> contract_id_ok s"
  by (auto simp: contract_id_of_def split: json.splits if_splits)

lemma array_or_empty_length: "array_or_empty v k = Some xs \<Longrightarrow> length xs \<le> k"
  by (auto simp: array_or_empty_def split: option.splits json.splits if_splits)

lemma filter_of_bounded:
  assumes "filter_of topicHash i v = Inr f"
  shows "filter_bounded f"
proof -
  from assms obtain ps where v: "v = JObj ps" by (auto simp: filter_of_def split: json.splits)
  with assms obtain ids contracts topics patterns where
    t: "prop_of v ''type'' = None \<or> prop_of v ''type'' \<in> (\<lambda>t. Some (JStr t)) ` set EVENT_TYPES"
    and i: "array_or_empty (prop_of v ''contractIds'') maxContractIds = Some ids"
    and c: "map_throw (\<lambda>_. contract_id_of) 0 ids = Inr contracts"
    and a: "array_or_empty (prop_of v ''topics'') maxTopicPatterns = Some topics"
    and p: "map_throw (pattern_of topicHash i) 0 topics = Inr patterns"
    and f: "f = \<lparr>rf_type = str_prop v ''type'', rf_contracts = contracts, rf_patterns = patterns\<rparr>"
    by (auto simp: filter_of_def Let_def split: if_splits option.splits sum.splits)
  have "str_prop v ''type'' \<in> {None, Some ''contract'', Some ''system'', Some ''diagnostic''}"
    using t by (auto simp: str_prop_def EVENT_TYPES_def)
  moreover have "length contracts \<le> 5" "list_all contract_id_ok contracts"
    using map_throw_Inr [OF c] array_or_empty_length [OF i] contract_id_of_ok
    by (auto simp: maxContractIds_def list_all_iff)
  moreover have "length patterns \<le> 5" "\<forall>p \<in> set patterns. length (tp_segments p) \<le> 4"
    using map_throw_Inr [OF p] array_or_empty_length [OF a] pattern_of_bounded
    by (fastforce simp: maxTopicPatterns_def)+
  ultimately show ?thesis by (simp add: filter_bounded_def f)
qed

text \<open>
  Filters that pass validation keep to the limits of the Soroban RPC: one to five filters, at most five well-formed
  contract IDs and five topic patterns each, and at most four segments per pattern.
\<close>

lemma validated_filters_bounded:
  assumes "validateRpcFilters topicHash input = Inr fs"
  shows "1 \<le> length fs \<and> length fs \<le> 5 \<and> list_all filter_bounded fs"
proof -
  from assms obtain xs where "input = JArr xs" "1 \<le> length xs" "length xs \<le> 5" "map_throw (filter_of topicHash) 0 xs = Inr fs"
    by (auto simp: validateRpcFilters_def maxFilters_def Suc_le_eq split: json.splits if_splits)
  with map_throw_Inr [OF this(4)] filter_of_bounded show ?thesis by (auto simp: list_all_iff)
qed

subsection \<open>The live feed agrees with the database\<close>

text \<open>An event with the columns of its topics, or one indexed before the columns existed.\<close>

definition indexed_event :: "('scval \<Rightarrow> bytes) \<Rightarrow> live_event \<Rightarrow> bool" where
  "indexed_event topicHash ev \<longleftrightarrow>
     (le_hashes ev = None \<and> le_count ev = None) \<or>
     (\<exists>topics. le_hashes ev = Some (fst (topicColumns topicHash topics)) \<and> le_count ev = Some (snd (topicColumns topicHash topics)))"

lemma fixed_segments_iff: "(i, h) \<in> set (fixed_segments p) \<longleftrightarrow> i < length (tp_segments p) \<and> tp_segments p ! i = Some h"
  by (force simp: fixed_segments_def in_set_enumerate_eq split: option.splits)

lemma enumerate_all: "list_all Q (enumerate 0 xs) \<longleftrightarrow> (\<forall>i. i < length xs \<longrightarrow> Q (i, xs ! i))"
  by (auto simp: list_all_iff in_set_enumerate_eq)

lemma means_pattern_matches:
  assumes "\<forall>t. topicHash t \<noteq> []" and "length (tp_segments p) \<le> 4"
    and ev: "le_hashes ev = Some (fst (topicColumns topicHash topics))" "le_count ev = Some (snd (topicColumns topicHash topics))"
  shows "means_pattern (columns_of ev) p \<longleftrightarrow>
         pattern_matches (fst (topicColumns topicHash topics)) (snd (topicColumns topicHash topics)) p"
proof -
  let ?hs = "map (\<lambda>t. to_hex (topicHash t)) (take 4 topics)"
  have ne: "to_hex (topicHash t) \<noteq> []" for t using assms(1) by (metis from_hex.simps(2) from_to_hex)
  have topic: "ec_topic (columns_of ev) i = Some h \<longleftrightarrow> i < length ?hs \<and> ?hs ! i = to_hex h" if "i < 4" for i h
    using that ev(1) ne by (auto simp: columns_of_def topicColumns_def)
  have "(\<forall>(i, h) \<in> set (fixed_segments p). ec_topic (columns_of ev) i = Some h) \<longleftrightarrow>
        (\<forall>i h. i < length (tp_segments p) \<and> tp_segments p ! i = Some h \<longrightarrow> ec_topic (columns_of ev) i = Some h)"
    by (auto simp: fixed_segments_iff)
  also have "\<dots> \<longleftrightarrow>
        (\<forall>i h. i < length (tp_segments p) \<and> tp_segments p ! i = Some h \<longrightarrow> i < length ?hs \<and> ?hs ! i = to_hex h)"
    by (intro iff_allI imp_cong refl topic) (use assms(2) in linarith)
  finally have "(\<forall>(i, h) \<in> set (fixed_segments p). ec_topic (columns_of ev) i = Some h) \<longleftrightarrow>
        (\<forall>i h. i < length (tp_segments p) \<and> tp_segments p ! i = Some h \<longrightarrow> i < length ?hs \<and> ?hs ! i = to_hex h)" .
  moreover have "list_all (\<lambda>(i, s). case s of None \<Rightarrow> True | Some h \<Rightarrow> i < length ?hs \<and> ?hs ! i = to_hex h)
        (enumerate 0 (tp_segments p)) \<longleftrightarrow>
        (\<forall>i h. i < length (tp_segments p) \<and> tp_segments p ! i = Some h \<longrightarrow> i < length ?hs \<and> ?hs ! i = to_hex h)"
    unfolding enumerate_all by (auto split: option.splits)
  moreover have "ec_count (columns_of ev) = Some (length topics)"
    using ev(2) by (simp add: columns_of_def topicColumns_def)
  ultimately show ?thesis
    by (auto simp: means_pattern_def pattern_matches_def topicColumns_def)
qed

lemma means_filter_matches:
  assumes "\<forall>t. topicHash t \<noteq> []" and "indexed_event topicHash ev" and "filter_bounded f"
  shows "means_filter (columns_of ev) f \<longleftrightarrow> matchRpcFilters [f] ev"
  using assms(2) unfolding indexed_event_def
proof
  assume "le_hashes ev = None \<and> le_count ev = None"
  then have "\<not> means_pattern (columns_of ev) p" for p by (simp add: means_pattern_def columns_of_def)
  then show ?thesis using \<open>le_hashes ev = None \<and> le_count ev = None\<close>
    by (simp add: means_filter_def matchRpcFilters_def columns_of_def)
next
  assume "\<exists>topics. le_hashes ev = Some (fst (topicColumns topicHash topics)) \<and> le_count ev = Some (snd (topicColumns topicHash topics))"
  then obtain topics where t: "le_hashes ev = Some (fst (topicColumns topicHash topics))"
      "le_count ev = Some (snd (topicColumns topicHash topics))" by blast
  have "\<forall>p \<in> set (rf_patterns f). means_pattern (columns_of ev) p \<longleftrightarrow>
      pattern_matches (fst (topicColumns topicHash topics)) (snd (topicColumns topicHash topics)) p"
    using means_pattern_matches [OF assms(1) _ t] assms(3) by (auto simp: filter_bounded_def)
  moreover have "ec_contract (columns_of ev) = le_contract ev" by (simp add: columns_of_def)
  ultimately show ?thesis
    using t by (auto simp: means_filter_def matchRpcFilters_def list_ex_iff)
qed

text \<open>
  C12. The database and the live feed agree: for filters that passed validation and any event stored with its topic
  columns (or before they existed), the compiled SQL condition with its parameters selects the event's row exactly
  when the matcher accepts the event.
\<close>

theorem sql_agrees_with_live_feed:
  assumes "validateRpcFilters topicHash_text input = Inr fs"
    and "\<forall>t. topicHash t \<noteq> []" and "indexed_event topicHash ev"
    and "compile_cond fs ps = (c, params)"
  shows "selects (columns_of ev) params c \<longleftrightarrow> matchRpcFilters fs ev"
proof -
  from assms(1) obtain xs where "map_throw (filter_of topicHash_text) 0 xs = Inr fs"
    by (auto simp: validateRpcFilters_def split: json.splits if_splits)
  from map_throw_Inr [OF this] filter_of_bounded have b: "\<forall>f \<in> set fs. filter_bounded f" by blast
  have "selects (columns_of ev) params c \<longleftrightarrow> (\<exists>f \<in> set fs. means_filter (columns_of ev) f)"
    by (rule compile_selects [OF assms(4)])
  also have "\<dots> \<longleftrightarrow> (\<exists>f \<in> set fs. matchRpcFilters [f] ev)"
    using b means_filter_matches [OF assms(2,3)] by blast
  also have "\<dots> \<longleftrightarrow> matchRpcFilters fs ev" by (auto simp: matchRpcFilters_def list_ex_iff)
  finally show ?thesis .
qed

definition example_filters :: json where
  "example_filters = JArr [JObj [(''topics'', JArr [JArr [JStr ''AAA='', JStr ''*'', JStr ''**'']])]]"

definition example_hash :: "string \<Rightarrow> bytes option" where
  "example_hash s = (if s = ''AAA='' then Some [7] else None)"

definition example_event :: live_event where
  "example_event = \<lparr>le_contract = ''C'', le_hashes = Some [''07'', ''08''], le_count = Some 2\<rparr>"

definition example_filter :: rpc_filter where
  "example_filter = \<lparr>rf_type = None, rf_contracts = [], rf_patterns = [\<lparr>tp_trailing = True, tp_segments = [Some [7], None]\<rparr>]\<rparr>"

lemma example_valid: "validateRpcFilters example_hash example_filters = Inr [example_filter]"
  by (simp add: validateRpcFilters_def example_filters_def maxFilters_def filter_of_def array_or_empty_def
      maxContractIds_def maxTopicPatterns_def pattern_of_def maxSegments_def segment_of_def example_hash_def
      str_prop_def example_filter_def Let_def)

lemma example_hex: "to_hex [7] = ''07''" "to_hex [8] = ''08''"
  by (simp_all add: to_hex_def nibble_char_def)

lemma validated_filters_bounded_witness:
  "1 \<le> length [example_filter] \<and> length [example_filter] \<le> 5 \<and> list_all filter_bounded [example_filter]"
  by (rule validated_filters_bounded [OF example_valid])

theorem sql_agrees_with_live_feed_witness:
  "selects (columns_of example_event) (snd (compile_cond [example_filter] [])) (fst (compile_cond [example_filter] [])) \<longleftrightarrow>
     matchRpcFilters [example_filter] example_event"
proof (rule sql_agrees_with_live_feed [OF example_valid, where topicHash = "\<lambda>w. [w]"])
  have "le_hashes example_event = Some (fst (topicColumns (\<lambda>w. [w]) [7, 8]))"
    "le_count example_event = Some (snd (topicColumns (\<lambda>w. [w]) [7 :: 8 word, 8]))"
    by (simp_all add: example_event_def topicColumns_def example_hex)
  then show "indexed_event (\<lambda>w. [w]) example_event" unfolding indexed_event_def by blast
qed simp_all

end
