(* ===== verification/Event_Dsl.thy ===== *)
theory Event_Dsl
  imports Json
begin

text \<open>
  eventFilterDsl.js: validation of the JSON filter language, its translation to SQL, the cost estimate and the contract
  ids. A TypeError or Error is the value of its own. The SQL operator table is read for the operators of the language;
  the names an object inherits are not among them.
\<close>

subsection \<open>Validation\<close>

datatype dsl_error =
    Not_an_object
  | Neither_group_nor_condition
  | Bad_group_operator
  | No_conditions
  | Not_needs_one
  | No_field
  | No_operator
  | Bad_operator
  | No_value
  | Bad_topic
  | Bad_arg

datatype dsl_verdict = Valid | Invalid dsl_error | Throws

definition group_operators :: "string list" where
  "group_operators = [''and'', ''or'', ''not'']"

definition condition_operators :: "string list" where
  "condition_operators = [''eq'', ''ne'', ''gt'', ''lt'', ''gte'', ''lte'', ''contains'', ''starts_with'', ''ends_with'', ''in'']"

text \<open>The number of \<open>/^topic\[(\d+)\]$/\<close>.\<close>

definition topic_index :: "string \<Rightarrow> string option" where
  "topic_index f =
     (let d = takeWhile is_digit (drop 6 f)
      in if prefix ''topic['' f \<and> d \<noteq> [] \<and> drop (6 + length d) f = '']'' then Some d else None)"

definition field_verdict :: "json \<Rightarrow> dsl_verdict" where
  "field_verdict f =
     (case f of
        JStr s \<Rightarrow>
          if prefix ''topic['' s \<and> topic_index s = None then Invalid Bad_topic
          else if prefix ''arg.'' s \<and> length s \<le> 4 then Invalid Bad_arg
          else Valid
      | _ \<Rightarrow> Throws)"

definition validateCondition :: "json \<Rightarrow> dsl_verdict" where
  "validateCondition c =
     (case truthy_prop c ''field'' of
        None \<Rightarrow> Invalid No_field
      | Some f \<Rightarrow>
          (case truthy_prop c ''operator'' of
             None \<Rightarrow> Invalid No_operator
           | Some op \<Rightarrow>
               if op \<notin> JStr ` set condition_operators then Invalid Bad_operator
               else if prop_of c ''value'' = None \<or> prop_of c ''value'' = Some JNull then Invalid No_value
               else field_verdict f))"

text \<open>The loop over the nested conditions returns the first result that is not valid.\<close>

fun first_invalid :: "dsl_verdict list \<Rightarrow> dsl_verdict" where
  "first_invalid [] = Valid"
| "first_invalid (v # vs) = (if v = Valid then first_invalid vs else v)"

definition conditions_of :: "json \<Rightarrow> json list" where
  "conditions_of g = (case prop_of g ''conditions'' of Some (JArr xs) \<Rightarrow> xs | _ \<Rightarrow> [])"

lemma conditions_smaller: "c \<in> set (conditions_of g) \<Longrightarrow> size c < size g"
proof -
  assume c: "c \<in> set (conditions_of g)"
  then obtain xs where xs: "prop_of g ''conditions'' = Some (JArr xs)" "c \<in> set xs"
    by (cases "prop_of g ''conditions''") (auto simp: conditions_of_def split: json.splits)
  from size_prop_of [OF xs(1)] size_arr [OF xs(2)] show ?thesis by (rule less_trans [rotated])
qed

function validateLogicalGroup :: "json \<Rightarrow> dsl_verdict" where
  "validateLogicalGroup g =
     (if prop_of g ''operator'' \<notin> (\<lambda>s. Some (JStr s)) ` set group_operators then Invalid Bad_group_operator
      else if conditions_of g = [] then Invalid No_conditions
      else if prop_of g ''operator'' = Some (JStr ''not'') \<and> length (conditions_of g) \<noteq> 1 then Invalid Not_needs_one
      else first_invalid (map (\<lambda>c. if c = JNull then Throws
                                   else if truthy_prop c ''operator'' \<noteq> None then validateLogicalGroup c
                                   else validateCondition c) (conditions_of g)))"
  by pat_completeness auto
termination by (relation "measure size") (auto simp: conditions_smaller)

declare validateLogicalGroup.simps [simp del]

definition validateFilter :: "json \<Rightarrow> dsl_verdict" where
  "validateFilter f =
     (if \<not> truthy f \<or> \<not> (is_obj f \<or> is_arr f) then Invalid Not_an_object
      else if truthy_prop f ''operator'' \<noteq> None \<and> truthy_prop f ''conditions'' \<noteq> None then validateLogicalGroup f
      else if truthy_prop f ''field'' \<noteq> None \<and> truthy_prop f ''operator'' \<noteq> None then validateCondition f
      else Invalid Neither_group_nor_condition)"

subsection \<open>Translation\<close>

datatype dsl_param = Given "json option" | Pattern string

definition dsl_operators :: "(string \<times> string) list" where
  "dsl_operators =
     [(''eq'', ''=''), (''ne'', ''!=''), (''gt'', ''>''), (''lt'', ''<''), (''gte'', ''>=''), (''lte'', ''<=''),
      (''contains'', ''ILIKE''), (''starts_with'', ''ILIKE''), (''ends_with'', ''ILIKE'')]"

text \<open>\<open>path.replace(/\./g, "'->'")\<close>.\<close>

definition arrow_path :: "string \<Rightarrow> string" where
  "arrow_path p = join [CHR 0x27, CHR ''-'', CHR ''>'', CHR 0x27] (split_on CHR ''.'' p)"

text \<open>The column of a field; \<open>None\<close> where the code throws.\<close>

definition dsl_column :: "json option \<Rightarrow> string option" where
  "dsl_column f =
     (case f of
        Some (JStr s) \<Rightarrow>
          if s = ''contract'' then Some ''contract_id''
          else if s = ''function'' then Some ''function''
          else if s = ''ledger'' then Some ''ledger''
          else if s = ''type'' then Some ''type''
          else if prefix ''topic['' s then map_option (\<lambda>d. ''raw_topics->>'' @ d) (topic_index s)
          else if prefix ''arg.'' s then Some (''raw_data->'' @ [CHR 0x27] @ arrow_path (drop 4 s) @ [CHR 0x27])
          else None
      | _ \<Rightarrow> None)"

definition value_text :: "json option \<Rightarrow> string" where
  "value_text v = (case v of Some x \<Rightarrow> text_of x | None \<Rightarrow> ''undefined'')"

definition dsl_param_of :: "string \<Rightarrow> json option \<Rightarrow> dsl_param" where
  "dsl_param_of op v =
     (if op = ''contains'' then Pattern (''%'' @ value_text v @ ''%'')
      else if op = ''starts_with'' then Pattern (value_text v @ ''%'')
      else if op = ''ends_with'' then Pattern (''%'' @ value_text v)
      else Given v)"

text \<open>A list operator: its value must be an array unless it is a number compared with the ledger.\<close>

definition in_operand_ok :: "json option \<Rightarrow> string \<Rightarrow> json option \<Rightarrow> bool" where
  "in_operand_ok f op v =
     ((f = Some (JStr ''ledger'') \<and> (\<exists>x. v = Some (JNum x))) \<or> op \<noteq> ''in'' \<or> (\<exists>xs. v = Some (JArr xs)))"

definition conditionToSql :: "json \<Rightarrow> dsl_param list \<Rightarrow> (string \<times> dsl_param list) option" where
  "conditionToSql c params =
     (case (dsl_column (prop_of c ''field''), str_prop c ''operator'') of
        (Some column, Some op) \<Rightarrow>
          if \<not> in_operand_ok (prop_of c ''field'') op (prop_of c ''value'') then None
          else (case map_of dsl_operators op of
                  None \<Rightarrow> None
                | Some sqlOp \<Rightarrow>
                    Some (column @ '' '' @ sqlOp @ '' $'' @ dec (length params + 1),
                          params @ [dsl_param_of op (prop_of c ''value'')]))
      | _ \<Rightarrow> None)"

text \<open>The conditions of a node that is read as a group; \<open>None\<close> when they are no array and the code throws.\<close>

definition group_conditions :: "json \<Rightarrow> json list option" where
  "group_conditions n = (case truthy_prop n ''conditions'' of Some (JArr xs) \<Rightarrow> Some xs | _ \<Rightarrow> None)"

definition is_group :: "json \<Rightarrow> bool" where
  "is_group n = (truthy_prop n ''operator'' \<noteq> None \<and> truthy_prop n ''conditions'' \<noteq> None)"

lemma group_conditions_smaller: "group_conditions n = Some xs \<Longrightarrow> size_list size xs < size n"
proof -
  assume "group_conditions n = Some xs"
  then have "truthy_prop n ''conditions'' = Some (JArr xs)"
    by (cases "truthy_prop n ''conditions''") (auto simp: group_conditions_def split: json.splits)
  from size_truthy_prop [OF this] show ?thesis by simp
qed

function (sequential) convert :: "bool \<Rightarrow> json \<Rightarrow> dsl_param list \<Rightarrow> (string \<times> dsl_param list) option"
  and convert_all :: "bool \<Rightarrow> json list \<Rightarrow> dsl_param list \<Rightarrow> (string list \<times> dsl_param list) option" where
  "convert isNegated n params =
     (if is_group n then
        (case group_conditions n of
           None \<Rightarrow> None
         | Some xs \<Rightarrow>
             map_option (\<lambda>(parts, ps).
                 ((if isNegated then ''NOT '' else []) @ ''('' @
                  join (if prop_of n ''operator'' = Some (JStr ''or'') then '' OR '' else '' AND '') parts @ '')'', ps))
               (convert_all (isNegated \<or> prop_of n ''operator'' = Some (JStr ''not'')) xs params))
      else conditionToSql n params)"
| "convert_all isNegated [] params = Some ([], params)"
| "convert_all isNegated (n # ns) params =
     (case convert isNegated n params of
        None \<Rightarrow> None
      | Some (t, ps) \<Rightarrow> map_option (\<lambda>(ts, ps'). (t # ts, ps')) (convert_all isNegated ns ps))"
  by pat_completeness auto
termination
  by (relation "measure (\<lambda>x. case x of Inl (_, n, _) \<Rightarrow> size n | Inr (_, ns, _) \<Rightarrow> size_list size ns)")
     (auto dest: group_conditions_smaller)

declare convert.simps [simp del]

definition filterToSql :: "json \<Rightarrow> (string \<times> dsl_param list) option" where
  "filterToSql f = convert False f []"

subsection \<open>Cost and contracts\<close>

definition field_cost :: "json option \<Rightarrow> nat option" where
  "field_cost f =
     (case f of
        Some (JStr s) \<Rightarrow>
          Some (if s = ''contract'' then 5 else if s = ''function'' then 5 else if s = ''ledger'' then 10
                else if prefix ''topic['' s then 20 else if prefix ''arg.'' s then 30 else if s = ''type'' then 5 else 0)
      | _ \<Rightarrow> None)"

definition operator_cost :: "json \<Rightarrow> nat" where
  "operator_cost n =
     (if prop_of n ''operator'' \<in> {Some (JStr ''contains''), Some (JStr ''starts_with''), Some (JStr ''ends_with'')} then 15
      else if prop_of n ''operator'' = Some (JStr ''in'')
      then (case prop_of n ''value'' of Some (JArr xs) \<Rightarrow> length xs * 3 | _ \<Rightarrow> 10)
      else 0)"

text \<open>Addition where a term may have thrown.\<close>

fun sum_costs :: "nat option list \<Rightarrow> nat option" where
  "sum_costs [] = Some 0"
| "sum_costs (c # cs) = (case (c, sum_costs cs) of (Some a, Some b) \<Rightarrow> Some (a + b) | _ \<Rightarrow> None)"

lemma group_condition_smaller: "group_conditions n = Some xs \<Longrightarrow> c \<in> set xs \<Longrightarrow> size c < size n"
proof -
  assume "group_conditions n = Some xs" and c: "c \<in> set xs"
  then have "truthy_prop n ''conditions'' = Some (JArr xs)"
    by (cases "truthy_prop n ''conditions''") (auto simp: group_conditions_def split: json.splits)
  from size_truthy_prop [OF this] size_arr [OF c] show ?thesis by (rule less_trans [rotated])
qed

function traverse_cost :: "json \<Rightarrow> nat option" where
  "traverse_cost n =
     (if is_group n then
        (case group_conditions n of
           None \<Rightarrow> None
         | Some xs \<Rightarrow> sum_costs (Some (length xs * 5) # map traverse_cost xs))
      else map_option (\<lambda>c. c + operator_cost n) (field_cost (prop_of n ''field'')))"
  by pat_completeness auto
termination by (relation "measure size") (auto simp: group_condition_smaller)

declare traverse_cost.simps [simp del]

definition estimateFilterCost :: "json \<Rightarrow> nat option" where
  "estimateFilterCost f = map_option (\<lambda>c. min c 100) (traverse_cost f)"

function traverse_ids :: "json \<Rightarrow> json list option" where
  "traverse_ids n =
     (if n = JNull then None
      else if is_group n then
        (case group_conditions n of
           None \<Rightarrow> None
         | Some xs \<Rightarrow>
             foldr (\<lambda>a b. case (a, b) of (Some x, Some y) \<Rightarrow> Some (x @ y) | _ \<Rightarrow> None) (map traverse_ids xs) (Some []))
      else if prop_of n ''field'' = Some (JStr ''contract'') \<and> truthy_prop n ''value'' \<noteq> None
      then (case (prop_of n ''operator'', prop_of n ''value'') of
              (Some (JStr op), Some (JArr xs)) \<Rightarrow> Some (if op = ''in'' then xs else [JArr xs])
            | (_, Some v) \<Rightarrow> Some [v]
            | _ \<Rightarrow> Some [])
      else Some [])"
  by pat_completeness auto
termination by (relation "measure size") (auto simp: group_condition_smaller)

declare traverse_ids.simps [simp del]

text \<open>The set the walk fills, in insertion order: arrays and objects are members by identity, so each one stays.\<close>

definition set_add :: "json list \<Rightarrow> json \<Rightarrow> json list" where
  "set_add s v = (if v \<in> set s \<and> \<not> is_arr v \<and> \<not> is_obj v then s else s @ [v])"

definition extractContractIds :: "json \<Rightarrow> json list option" where
  "extractContractIds f = map_option (foldl set_add []) (traverse_ids f)"

subsection \<open>Groups\<close>

lemma first_invalid_Valid: "first_invalid vs = Valid \<longleftrightarrow> (\<forall>v \<in> set vs. v = Valid)"
  by (induction vs) auto

lemma condition_operators_apart: "s \<in> set group_operators \<Longrightarrow> s \<notin> set condition_operators"
  by (auto simp: group_operators_def condition_operators_def)

lemma group_never_valid: "validateLogicalGroup g \<noteq> Valid"
proof (induction g rule: validateLogicalGroup.induct)
  case (1 g)
  show ?case
  proof
    assume v: "validateLogicalGroup g = Valid"
    then have ne: "conditions_of g \<noteq> []" and ops: "prop_of g ''operator'' \<in> (\<lambda>s. Some (JStr s)) ` set group_operators"
      and all: "\<forall>c \<in> set (conditions_of g). (if c = JNull then Throws
            else if truthy_prop c ''operator'' \<noteq> None then validateLogicalGroup c else validateCondition c) = Valid"
      by (auto simp: validateLogicalGroup.simps [of g] first_invalid_Valid split: if_splits)
    from ne obtain c where c: "c \<in> set (conditions_of g)" by (metis list.set_sel(1))
    with all have nn: "c \<noteq> JNull" by auto
    show False
    proof (cases "truthy_prop c ''operator'' = None")
      case True
      with all c nn have "validateCondition c = Valid" by auto
      with True show False by (auto simp: validateCondition_def split: option.splits)
    next
      case False
      with all c nn have "validateLogicalGroup c = Valid" by auto
      moreover have "validateLogicalGroup c \<noteq> Valid"
        using "1.IH" ops ne c nn False v
        by (auto simp: validateLogicalGroup.simps [of g] split: if_splits)
      ultimately show False by blast
    qed
  qed
qed

text \<open>
  No filter with an operator and conditions is ever valid, although the language is made of such groups: the
  nested conditions carry an operator too, so each of them is validated as a group, where eq and the other comparison
  operators are not allowed.
\<close>

lemma no_group_validates:
  assumes "truthy_prop f ''operator'' \<noteq> None" "truthy_prop f ''conditions'' \<noteq> None"
  shows "validateFilter f \<noteq> Valid"
proof (cases "\<not> truthy f \<or> \<not> (is_obj f \<or> is_arr f)")
  case True
  then show ?thesis by (simp add: validateFilter_def)
next
  case False
  with assms have "validateFilter f = validateLogicalGroup f" by (simp add: validateFilter_def)
  with group_never_valid show ?thesis by simp
qed

definition and_filter :: json where
  "and_filter = JObj [(''operator'', JStr ''and''),
     (''conditions'', JArr [JObj [(''field'', JStr ''contract''), (''operator'', JStr ''eq''), (''value'', JStr ''C1'')],
                           JObj [(''field'', JStr ''function''), (''operator'', JStr ''eq''), (''value'', JStr ''transfer'')]])]"

lemma no_group_validates_witness: "validateFilter and_filter \<noteq> Valid"
  by (rule no_group_validates) (simp_all add: and_filter_def truthy_prop_def)

subsection \<open>What reaches the SQL text\<close>

definition condition_on :: "string \<Rightarrow> string \<Rightarrow> json \<Rightarrow> json" where
  "condition_on f op v = JObj [(''field'', JStr f), (''operator'', JStr op), (''value'', v)]"

definition not_of :: "json \<Rightarrow> json" where
  "not_of c = JObj [(''operator'', JStr ''not''), (''conditions'', JArr [c])]"

text \<open>
  The path of an argument field is copied into the SQL text: every text without a dot after \<open>arg.\<close> passes
  validation, a quote included, and ends up between quotes that it can close.
\<close>

lemma argument_path_is_spliced:
  assumes "p \<noteq> []" "CHR ''.'' \<notin> set p"
  shows "validateFilter (condition_on (''arg.'' @ p) ''eq'' (JStr ''x'')) = Valid \<and>
         filterToSql (condition_on (''arg.'' @ p) ''eq'' (JStr ''x'')) =
           Some (''raw_data->'' @ [CHR 0x27] @ p @ [CHR 0x27] @ '' = $1'', [Given (Some (JStr ''x''))])"
  using assms
  by (simp add: validateFilter_def condition_on_def truthy_prop_def validateCondition_def condition_operators_def
      field_verdict_def filterToSql_def convert.simps is_group_def conditionToSql_def dsl_column_def str_prop_def
      in_operand_ok_def dsl_operators_def dsl_param_of_def arrow_path_def dec_eval)

lemma argument_path_is_spliced_witness:
  "filterToSql (condition_on (''arg.'' @ ''a'' @ [CHR 0x27] @ ''='' @ [CHR 0x27]) ''eq'' (JStr ''x'')) =
     Some (''raw_data->'' @ [CHR 0x27] @ (''a'' @ [CHR 0x27] @ ''='' @ [CHR 0x27]) @ [CHR 0x27] @ '' = $1'',
           [Given (Some (JStr ''x''))])"
  by (rule argument_path_is_spliced [THEN conjunct2]) simp_all

text \<open>
  A negated condition is translated like the condition itself: the NOT of a group goes to its nested groups only,
  so the group of one comparison selects the rows it should leave out.
\<close>

lemma negation_is_lost:
  assumes "\<not> is_group c"
  shows "filterToSql (not_of c) = map_option (\<lambda>(t, ps). (''('' @ t @ '')'', ps)) (filterToSql c)"
proof -
  have g: "is_group (not_of c)" "group_conditions (not_of c) = Some [c]" "prop_of (not_of c) ''operator'' = Some (JStr ''not'')"
    by (simp_all add: is_group_def not_of_def truthy_prop_def group_conditions_def)
  have "convert True c [] = convert False c []" using assms by (simp add: convert.simps)
  then show ?thesis
    by (cases "convert False c []") (auto simp: filterToSql_def convert.simps(1) [of False "not_of c"] g)
qed

lemma negation_is_lost_witness:
  "filterToSql (not_of (condition_on ''contract'' ''eq'' (JStr ''C1''))) =
     map_option (\<lambda>(t, ps). (''('' @ t @ '')'', ps)) (filterToSql (condition_on ''contract'' ''eq'' (JStr ''C1'')))"
  by (rule negation_is_lost) (simp add: is_group_def condition_on_def truthy_prop_def)

text \<open>A list operator passes validation and then throws: the operator table has no entry for it.\<close>

lemma in_operator_throws: "str_prop c ''operator'' = Some ''in'' \<Longrightarrow> conditionToSql c params = None"
  by (simp add: conditionToSql_def dsl_operators_def split: option.splits)

lemma cost_capped: "estimateFilterCost f = Some n \<Longrightarrow> n \<le> 100"
  by (auto simp: estimateFilterCost_def)

end
