(* ===== verification/Rpc_Failover.thy ===== *)
theory Rpc_Failover
  imports Complex_Main Json
begin

text \<open>
  rpcMultiNode.js, rpcVerifier.js and rpcRetry.js: failover between RPC nodes, verification of a range against several
  of them, and retries. What a node answers to an attempt is a parameter; a call runs without another one in between.
\<close>

subsection \<open>Nodes\<close>

record rpc_config =
  LAG_THRESHOLD :: nat
  CALL_TIMEOUT_MS :: nat
  HEALTH_WINDOW :: nat

record node =
  n_url :: string
  n_healthy :: bool
  n_latest :: nat
  n_outcomes :: "bool list"
  n_latencies :: "nat list"
  n_disagreements :: nat

record pool =
  p_nodes :: "node list"
  p_primary :: nat

definition fresh_node :: "string \<Rightarrow> node" where
  "fresh_node url = \<lparr>n_url = url, n_healthy = True, n_latest = 0, n_outcomes = [], n_latencies = [], n_disagreements = 0\<rparr>"

definition initial_pool :: "string list \<Rightarrow> pool" where
  "initial_pool urls = \<lparr>p_nodes = map fresh_node urls, p_primary = 0\<rparr>"

text \<open>An array that keeps its last entries.\<close>

definition push_window :: "nat \<Rightarrow> 'a list \<Rightarrow> 'a \<Rightarrow> 'a list" where
  "push_window limit xs x = (let ys = xs @ [x] in if length ys > limit then tl ys else ys)"

definition recordOutcome :: "rpc_config \<Rightarrow> bool \<Rightarrow> nat \<Rightarrow> node \<Rightarrow> node" where
  "recordOutcome cfg success latency n =
     n\<lparr>n_outcomes := push_window (HEALTH_WINDOW cfg) (n_outcomes n) success,
       n_latencies := push_window (HEALTH_WINDOW cfg) (n_latencies n) latency\<rparr>"

definition update_node :: "nat \<Rightarrow> (node \<Rightarrow> node) \<Rightarrow> pool \<Rightarrow> pool" where
  "update_node i f p = p\<lparr>p_nodes := (p_nodes p)[i := f (p_nodes p ! i)]\<rparr>"

text \<open>The next healthy node after an index; when there is none, all are taken to be healthy again.\<close>

definition nextHealthy :: "nat \<Rightarrow> pool \<Rightarrow> nat \<times> pool" where
  "nextHealthy start p =
     (let k = length (p_nodes p) in
      case filter (\<lambda>j. n_healthy (p_nodes p ! j)) (map (\<lambda>i. (start + i) mod k) [1..<Suc k]) of
        j # _ \<Rightarrow> (j, p)
      | [] \<Rightarrow> (0, p\<lparr>p_nodes := map (\<lambda>n. n\<lparr>n_healthy := True\<rparr>) (p_nodes p)\<rparr>))"

text \<open>A reply with the ledger it reports and its duration, or a rejection.\<close>

datatype 'a reply = Answers 'a "nat option" nat | Rejects nat

fun withTimeout :: "nat \<Rightarrow> 'a reply \<Rightarrow> 'a reply" where
  "withTimeout ms (Answers v l d) = (if d < ms then Answers v l d else Rejects ms)"
| "withTimeout ms (Rejects d) = Rejects (min d ms)"

definition best_ledger :: "pool \<Rightarrow> nat" where
  "best_ledger p = foldr max (map n_latest (p_nodes p)) 0"

definition note_ledger :: "nat option \<Rightarrow> node \<Rightarrow> node" where
  "note_ledger l n = (case l of Some x \<Rightarrow> if x \<noteq> 0 then n\<lparr>n_latest := x\<rparr> else n | None \<Rightarrow> n)"

definition lagging :: "rpc_config \<Rightarrow> nat \<Rightarrow> pool \<Rightarrow> bool" where
  "lagging cfg i p = (best_ledger p - n_latest (p_nodes p ! i) > LAG_THRESHOLD cfg)"

definition mark_unhealthy :: "nat \<Rightarrow> pool \<Rightarrow> pool" where
  "mark_unhealthy i p = update_node i (\<lambda>n. n\<lparr>n_healthy := False\<rparr>) p"

text \<open>One attempt: the result and the pool, or the next index to try.\<close>

datatype 'a attempt = Served 'a pool | Retry nat pool

definition attempt_node :: "rpc_config \<Rightarrow> 'a reply \<Rightarrow> nat \<Rightarrow> pool \<Rightarrow> 'a attempt" where
  "attempt_node cfg reply i p =
     (case withTimeout (CALL_TIMEOUT_MS cfg) reply of
        Answers v l d \<Rightarrow>
          (let p1 = update_node i (\<lambda>n. note_ledger l (recordOutcome cfg True d n)) p in
           if lagging cfg i p1
           then (case nextHealthy i (mark_unhealthy i p1) of (j, p2) \<Rightarrow> Retry j (p2\<lparr>p_primary := j\<rparr>))
           else Served v (p1\<lparr>p_primary := i\<rparr>))
      | Rejects d \<Rightarrow>
          (case nextHealthy i (mark_unhealthy i (update_node i (recordOutcome cfg False d) p)) of (j, p2) \<Rightarrow> Retry j p2))"

text \<open>\<open>replies k i\<close> is what node \<open>i\<close> answers to attempt \<open>k\<close>; the value also names the node, \<open>None\<close> is the error.\<close>

fun failover_loop :: "rpc_config \<Rightarrow> (nat \<Rightarrow> nat \<Rightarrow> 'a reply) \<Rightarrow> nat \<Rightarrow> nat \<Rightarrow> nat \<Rightarrow> pool \<Rightarrow> ('a \<times> nat) option \<times> pool" where
  "failover_loop cfg replies k 0 i p = (None, p)"
| "failover_loop cfg replies k (Suc left) i p =
     (case attempt_node cfg (replies k i) i p of
        Served v p' \<Rightarrow> (Some (v, i), p')
      | Retry j p' \<Rightarrow> failover_loop cfg replies (Suc k) left j p')"

definition callWithFailover :: "rpc_config \<Rightarrow> (nat \<Rightarrow> nat \<Rightarrow> 'a reply) \<Rightarrow> pool \<Rightarrow> ('a \<times> nat) option \<times> pool" where
  "callWithFailover cfg replies p = failover_loop cfg replies 0 (length (p_nodes p)) (p_primary p) p"

definition checkNodeRecovery :: "rpc_config \<Rightarrow> nat reply \<Rightarrow> nat \<Rightarrow> pool \<Rightarrow> pool" where
  "checkNodeRecovery cfg reply i p =
     (case withTimeout (CALL_TIMEOUT_MS cfg) reply of
        Answers v l d \<Rightarrow> update_node i (\<lambda>n. (recordOutcome cfg True d n)\<lparr>n_latest := v, n_healthy := True\<rparr>) p
      | Rejects d \<Rightarrow> update_node i (recordOutcome cfg False d) p)"

definition recovery_round :: "rpc_config \<Rightarrow> (nat \<Rightarrow> nat reply) \<Rightarrow> pool \<Rightarrow> pool" where
  "recovery_round cfg replies p =
     fold (\<lambda>i p. checkNodeRecovery cfg (replies i) i p)
       (filter (\<lambda>i. \<not> n_healthy (p_nodes p ! i)) [0..<length (p_nodes p)]) p"

definition getRpcNodeStatus :: "pool \<Rightarrow> (string \<times> bool \<times> nat \<times> nat) list" where
  "getRpcNodeStatus p = map (\<lambda>n. (n_url n, n_healthy n, n_latest n, n_disagreements n)) (p_nodes p)"

subsection \<open>Statistics\<close>

text \<open>\<open>Number(x.toFixed(2))\<close> and \<open>Math.round\<close>.\<close>

definition fixed2 :: "rat \<Rightarrow> rat" where
  "fixed2 x = of_int \<lfloor>x * 100 + 1 / 2\<rfloor> / 100"

definition js_round :: "rat \<Rightarrow> int" where
  "js_round x = \<lfloor>x + 1 / 2\<rfloor>"

record provider_stats =
  ps_uptime :: rat
  ps_avg_latency :: "int option"
  ps_error_rate :: rat
  ps_score :: int

definition provider_stats_of :: "rpc_config \<Rightarrow> node \<Rightarrow> provider_stats" where
  "provider_stats_of cfg n =
     (let total = length (n_outcomes n);
          ok = length (filter (\<lambda>b. b) (n_outcomes n));
          uptime = (if total \<noteq> 0 then fixed2 (of_nat ok / of_nat total * 100) else 100);
          errorRate = (if total \<noteq> 0 then fixed2 (of_nat (total - ok) / of_nat total * 100) else 0);
          avgLatency = (if n_latencies n \<noteq> []
                        then Some (js_round (of_nat (sum_list (n_latencies n)) / of_nat (length (n_latencies n)))) else None);
          latencyScore = (case avgLatency of None \<Rightarrow> 1 | Some a \<Rightarrow> max 0 (1 - of_int a / of_nat (CALL_TIMEOUT_MS cfg)))
      in \<lparr>ps_uptime = uptime, ps_avg_latency = avgLatency, ps_error_rate = errorRate,
          ps_score = js_round (uptime / 100 * 50 + latencyScore * 30 + (1 - errorRate / 100) * 20)\<rparr>)"

definition getProviderStats :: "rpc_config \<Rightarrow> pool \<Rightarrow> provider_stats list" where
  "getProviderStats cfg p = map (provider_stats_of cfg) (p_nodes p)"

subsection \<open>Verification of a range\<close>

datatype verify_mode = Mode_off | Mode_sample | Mode_quorum | Mode_full

record 'e vote =
  v_digest :: string
  v_events :: 'e
  v_count :: nat

text \<open>
  The digest of an answer: the fields that are compared of each event, in the order of their ids; the value of an event is the first of its
  fields that is given. The digest fails (\<open>None\<close>) when the answer is no array or an event is null. The order of \<open>localeCompare\<close> is that of
  the collation keys of the texts; SHA-256 and JSON.stringify are parameters.
\<close>

definition given :: "json \<Rightarrow> string list \<Rightarrow> json option" where
  "given e ks = find (\<lambda>v. v \<noteq> JNull) (List.map_filter (prop_of e) ks)"

definition or_last :: "json \<Rightarrow> string \<Rightarrow> string \<Rightarrow> json option" where
  "or_last e k l = (case given e [k] of Some v \<Rightarrow> Some v | None \<Rightarrow> prop_of e l)"

definition given_text :: "json \<Rightarrow> string list \<Rightarrow> string" where
  "given_text e ks = (case given e ks of Some v \<Rightarrow> text_of v | None \<Rightarrow> [])"

definition stable_id :: "json \<Rightarrow> json" where
  "stable_id e =
     (case given e [''id''] of
        Some v \<Rightarrow> v
      | None \<Rightarrow> JStr (given_text e [''txHash'', ''tx_hash''] @ '':'' @ given_text e [''ledger''] @ '':'' @
                  given_text e [''contractId'', ''contract_id'']))"

definition stableEvent :: "json \<Rightarrow> json option" where
  "stableEvent e =
     (if e = JNull then None
      else Some (JObj ((''id'', stable_id e) #
        List.map_filter (\<lambda>(k, v). map_option (Pair k) v) [(''ledger'', prop_of e ''ledger''), (''tx'', or_last e ''txHash'' ''tx_hash'')] @
        [(''xdr'', case given e [''xdr'', ''txMeta'', ''value'', ''topic''] of Some v \<Rightarrow> v | None \<Rightarrow> JNull)])))"

definition row_id :: "json \<Rightarrow> string" where
  "row_id r = (case prop_of r ''id'' of Some v \<Rightarrow> text_of v | None \<Rightarrow> ''undefined'')"

definition canonicalDigest :: "(string \<Rightarrow> rat) \<Rightarrow> (json \<Rightarrow> string) \<Rightarrow> (string \<Rightarrow> string) \<Rightarrow> json \<Rightarrow> string option" where
  "canonicalDigest collation stringify sha reply =
     (case reply of
        JArr es \<Rightarrow>
          map_option (\<lambda>rows. sha (stringify (JArr (sort_key (\<lambda>r. collation (row_id r)) rows)))) (those (map stableEvent es))
      | _ \<Rightarrow> None)"

text \<open>Counting one response, in the insertion order of the map.\<close>

fun add_vote :: "string \<Rightarrow> 'e \<Rightarrow> 'e vote list \<Rightarrow> 'e vote list" where
  "add_vote d e [] = [\<lparr>v_digest = d, v_events = e, v_count = 1\<rparr>]"
| "add_vote d e (g # gs) = (if v_digest g = d then g\<lparr>v_count := v_count g + 1\<rparr> # gs else g # add_vote d e gs)"

definition vote_groups :: "('e \<Rightarrow> string) \<Rightarrow> 'e list \<Rightarrow> 'e vote list" where
  "vote_groups digest responses = fold (\<lambda>e gs. add_vote (digest e) e gs) responses []"

text \<open>The first group of maximal count: the head of a stable sort by descending count.\<close>

definition winner_of :: "'e vote list \<Rightarrow> 'e vote" where
  "winner_of gs = hd (sort_key (\<lambda>g. - int (v_count g)) gs)"

datatype 'e verify_result =
    Unverified "'e option"
  | Degraded "'e option"
  | Verified 'e string nat
  | Disagreement
  | No_providers
  | Provider_failed
  | Undigested

text \<open>
  \<open>responses\<close> are the answers of the providers, \<open>None\<close> for a rejection, \<open>sampled\<close> whether the draw of the sample mode asks for
  verification, \<open>digest\<close> the digest, that of \<open>canonicalDigest\<close>; the second component says whether \<open>onDisagreement\<close> was called.
\<close>

definition verifyRpcRange ::
  "('e \<Rightarrow> string option) \<Rightarrow> verify_mode \<Rightarrow> bool \<Rightarrow> nat \<Rightarrow> 'e option list \<Rightarrow> 'e verify_result \<times> bool" where
  "verifyRpcRange digest mode sampled quorum responses =
     (if responses = [] then (No_providers, False)
      else if mode = Mode_off \<or> (mode = Mode_sample \<and> \<not> sampled)
      then ((case hd responses of Some e \<Rightarrow> Unverified (Some e) | None \<Rightarrow> Provider_failed), False)
      else if length responses < 2
      then ((case hd responses of Some e \<Rightarrow> Degraded (Some e) | None \<Rightarrow> Provider_failed), False)
      else let successful = List.map_filter (\<lambda>r. r) responses in
        if length successful < 2 then (Degraded (case successful of e # _ \<Rightarrow> Some e | [] \<Rightarrow> None), False)
        else if list_ex (\<lambda>e. digest e = None) successful then (Undigested, False)
        else let groups = vote_groups (\<lambda>e. the (digest e)) successful;
                 winner = winner_of groups;
                 required = (if mode = Mode_quorum then min quorum (length successful) else 2)
             in if v_count winner < required then (Disagreement, True)
                else (Verified (v_events winner) (v_digest winner) (length successful - v_count winner), length groups > 1))"

text \<open>The disagreement callback of the pool counts against every node.\<close>

definition note_disagreement :: "pool \<Rightarrow> pool" where
  "note_disagreement p = p\<lparr>p_nodes := map (\<lambda>n. n\<lparr>n_disagreements := n_disagreements n + 1\<rparr>) (p_nodes p)\<rparr>"

definition getEventsVerified ::
  "('e \<Rightarrow> string option) \<Rightarrow> verify_mode \<Rightarrow> bool \<Rightarrow> nat \<Rightarrow> (nat \<Rightarrow> 'e option) \<Rightarrow> pool \<Rightarrow> 'e verify_result \<times> pool" where
  "getEventsVerified digest mode sampled quorum answers p =
     (case verifyRpcRange digest mode sampled quorum
             (map answers (filter (\<lambda>i. n_healthy (p_nodes p ! i)) [0..<length (p_nodes p)])) of
        (r, disagreed) \<Rightarrow> (r, if disagreed then note_disagreement p else p))"

subsection \<open>Retries\<close>

record rpc_error =
  re_status :: "nat option"
  re_code :: "string option"
  re_message :: string

fun contains_at :: "(string \<Rightarrow> bool) \<Rightarrow> string \<Rightarrow> bool" where
  "contains_at P [] = P []"
| "contains_at P (c # s) = (P (c # s) \<or> contains_at P s)"

fun words_at :: "string list \<Rightarrow> string \<Rightarrow> bool" where
  "words_at [] s = True"
| "words_at (w # ws) s = (prefix w s \<and> words_at ws (dropWhile js_space (drop (length w) s)))"

definition isRetryableError :: "rpc_error \<Rightarrow> bool" where
  "isRetryableError err =
     (re_status err \<in> {Some 429, Some 503, Some 502, Some 504} \<or>
      re_code err \<in> {Some ''ECONNRESET'', Some ''ETIMEDOUT'', Some ''ECONNREFUSED''} \<or>
      contains_at (\<lambda>s. list_ex (\<lambda>ws. words_at ws s)
        [[''timeout''], [''rate'', ''limit''], [''too'', ''many'', ''requests''], [''service'', ''unavailable''], [''econnrefused'']])
        (lower (re_message err)))"

text \<open>\<open>fn k\<close> is the outcome of attempt \<open>k\<close>; also the delays slept in between.\<close>

fun retry_loop :: "(nat \<Rightarrow> rpc_error + 'a) \<Rightarrow> nat \<Rightarrow> nat \<Rightarrow> nat \<Rightarrow> nat \<Rightarrow> (rpc_error + 'a) \<times> nat list" where
  "retry_loop fn base attempt maxAttempts 0 = (fn attempt, [])"
| "retry_loop fn base attempt maxAttempts (Suc left) =
     (case fn attempt of
        Inr v \<Rightarrow> (Inr v, [])
      | Inl err \<Rightarrow>
          if \<not> isRetryableError err \<or> attempt = maxAttempts then (Inl err, [])
          else (case retry_loop fn base (attempt + 1) maxAttempts left of (r, ds) \<Rightarrow> (r, 2 ^ attempt * base # ds)))"

text \<open>Without an attempt the code throws undefined: \<open>None\<close>.\<close>

definition withRetry :: "(nat \<Rightarrow> rpc_error + 'a) \<Rightarrow> nat \<Rightarrow> nat \<Rightarrow> ((rpc_error + 'a) \<times> nat list) option" where
  "withRetry fn maxAttempts base =
     (if maxAttempts = 0 then None else Some (retry_loop fn base 1 maxAttempts (maxAttempts - 1)))"

subsection \<open>Failover\<close>

definition node_ok :: "rpc_config \<Rightarrow> node \<Rightarrow> bool" where
  "node_ok cfg n =
     (length (n_outcomes n) \<le> HEALTH_WINDOW cfg \<and> length (n_latencies n) = length (n_outcomes n))"

definition pool_ok :: "rpc_config \<Rightarrow> pool \<Rightarrow> bool" where
  "pool_ok cfg p = (p_primary p < length (p_nodes p) \<and> (\<forall>n \<in> set (p_nodes p). node_ok cfg n))"

lemma length_push_window: "length xs \<le> k \<Longrightarrow> length (push_window k xs x) \<le> k"
  "length xs = length ys \<Longrightarrow> length (push_window k xs x) = length (push_window k ys y)"
  by (auto simp: push_window_def Let_def)

lemma node_ok_simps [simp]:
  "node_ok cfg n \<Longrightarrow> node_ok cfg (recordOutcome cfg b d n)"
  "node_ok cfg (n\<lparr>n_healthy := h\<rparr>) = node_ok cfg n" "node_ok cfg (n\<lparr>n_latest := l\<rparr>) = node_ok cfg n"
  "node_ok cfg (note_ledger ol n) = node_ok cfg n"
  by (auto simp: node_ok_def recordOutcome_def note_ledger_def length_push_window split: option.split)

lemma pool_ok_update: "pool_ok cfg p \<Longrightarrow> (\<And>n. node_ok cfg n \<Longrightarrow> node_ok cfg (f n)) \<Longrightarrow> i < length (p_nodes p) \<Longrightarrow>
    pool_ok cfg (update_node i f p)"
  by (auto simp: pool_ok_def update_node_def dest!: set_update_subset_insert [THEN subsetD])

lemma update_node_length [simp]: "length (p_nodes (update_node i f p)) = length (p_nodes p)"
  by (simp add: update_node_def)

lemma nextHealthy_ok:
  assumes "pool_ok cfg p" "nextHealthy i p = (j, p')"
  shows "pool_ok cfg p' \<and> j < length (p_nodes p') \<and> length (p_nodes p') = length (p_nodes p)"
proof (cases "filter (\<lambda>j. n_healthy (p_nodes p ! j)) (map (\<lambda>k. (i + k) mod length (p_nodes p)) [1..<Suc (length (p_nodes p))])")
  case Nil
  with assms have "j = 0" "p' = p\<lparr>p_nodes := map (\<lambda>n. n\<lparr>n_healthy := True\<rparr>) (p_nodes p)\<rparr>"
    by (auto simp: nextHealthy_def Let_def)
  with assms(1) show ?thesis by (auto simp: pool_ok_def)
next
  case (Cons k ks)
  with assms have "j = k" "p' = p" by (simp_all add: nextHealthy_def Let_def)
  moreover have "k \<in> set (filter (\<lambda>j. n_healthy (p_nodes p ! j)) (map (\<lambda>k. (i + k) mod length (p_nodes p)) [1..<Suc (length (p_nodes p))]))"
    unfolding Cons by simp
  moreover have "0 < length (p_nodes p)" using assms(1) by (auto simp: pool_ok_def)
  ultimately have "k < length (p_nodes p)" by (auto simp del: upt_Suc)
  moreover note \<open>j = k\<close> \<open>p' = p\<close>
  ultimately show ?thesis using assms(1) by simp
qed

lemma mark_unhealthy_ok: "pool_ok cfg p \<Longrightarrow> i < length (p_nodes p) \<Longrightarrow> pool_ok cfg (mark_unhealthy i p)"
  unfolding mark_unhealthy_def by (rule pool_ok_update) auto

lemma mark_unhealthy_length [simp]: "length (p_nodes (mark_unhealthy i p)) = length (p_nodes p)"
  by (simp add: mark_unhealthy_def)

definition retry_ok :: "rpc_config \<Rightarrow> nat \<Rightarrow> 'a attempt \<Rightarrow> bool" where
  "retry_ok cfg k r = (case r of Retry j p' \<Rightarrow> pool_ok cfg p' \<and> j < length (p_nodes p') \<and> length (p_nodes p') = k | Served v p' \<Rightarrow> True)"

lemma attempt_retry:
  assumes "pool_ok cfg p" "i < length (p_nodes p)" "attempt_node cfg reply i p = Retry j p'"
  shows "pool_ok cfg p' \<and> j < length (p_nodes p') \<and> length (p_nodes p') = length (p_nodes p)"
proof (cases "withTimeout (CALL_TIMEOUT_MS cfg) reply")
  case (Answers v l d)
  let ?p1 = "update_node i (\<lambda>n. note_ledger l (recordOutcome cfg True d n)) p"
  have ok: "pool_ok cfg ?p1" by (rule pool_ok_update [OF assms(1) _ assms(2)]) simp
  obtain j' p2 where n: "nextHealthy i (mark_unhealthy i ?p1) = (j', p2)" by fastforce
  from nextHealthy_ok [OF mark_unhealthy_ok [OF ok] this] assms(2)
  have "pool_ok cfg p2 \<and> j' < length (p_nodes p2) \<and> length (p_nodes p2) = length (p_nodes p)" by simp
  with assms(3) Answers n show ?thesis
    by (auto simp: attempt_node_def Let_def pool_ok_def split: if_splits)
next
  case (Rejects d)
  let ?p1 = "update_node i (recordOutcome cfg False d) p"
  have ok: "pool_ok cfg ?p1" by (rule pool_ok_update [OF assms(1) _ assms(2)]) simp
  obtain j' p2 where n: "nextHealthy i (mark_unhealthy i ?p1) = (j', p2)" by fastforce
  from nextHealthy_ok [OF mark_unhealthy_ok [OF ok] this] assms n Rejects
  show ?thesis by (simp add: attempt_node_def)
qed

lemma attempt_served:
  assumes "pool_ok cfg p" "i < length (p_nodes p)" "attempt_node cfg reply i p = Served v p'"
  shows "pool_ok cfg p' \<and> p_primary p' = i \<and> \<not> lagging cfg i p' \<and> (\<exists>l d. reply = Answers v l d \<and> d < CALL_TIMEOUT_MS cfg)"
proof -
  from assms(3) obtain l d where r: "withTimeout (CALL_TIMEOUT_MS cfg) reply = Answers v l d"
    and p': "p' = (update_node i (\<lambda>n. note_ledger l (recordOutcome cfg True d n)) p)\<lparr>p_primary := i\<rparr>"
    and lag: "\<not> lagging cfg i (update_node i (\<lambda>n. note_ledger l (recordOutcome cfg True d n)) p)"
    by (auto simp: attempt_node_def Let_def split: reply.splits if_splits prod.splits)
  have "pool_ok cfg (update_node i (\<lambda>n. note_ledger l (recordOutcome cfg True d n)) p)"
    by (rule pool_ok_update [OF assms(1) _ assms(2)]) simp
  moreover have "\<exists>l d. reply = Answers v l d \<and> d < CALL_TIMEOUT_MS cfg"
    using r by (cases reply) (auto split: if_splits)
  ultimately show ?thesis
    using lag assms(2) by (auto simp: p' pool_ok_def lagging_def best_ledger_def)
qed

lemma failover_loop_served:
  assumes "pool_ok cfg p" "i < length (p_nodes p)" "failover_loop cfg replies k left i p = (Some (v, j), p')"
  shows "pool_ok cfg p' \<and> p_primary p' = j \<and> \<not> lagging cfg j p' \<and>
         (\<exists>m l d. replies m j = Answers v l d \<and> d < CALL_TIMEOUT_MS cfg)"
  using assms
proof (induction cfg replies k left i p rule: failover_loop.induct)
  case (2 cfg replies k left i p)
  show ?case
  proof (cases "attempt_node cfg (replies k i) i p")
    case (Served w q)
    with "2.prems" attempt_served [OF "2.prems"(1,2) Served] show ?thesis by auto
  next
    case (Retry m q)
    with "2.prems" have "failover_loop cfg replies (Suc k) left m q = (Some (v, j), p')" by simp
    with "2.IH" [OF Retry] attempt_retry [OF "2.prems"(1,2) Retry] show ?thesis by blast
  qed
qed simp

text \<open>
  C32. A call that returns was answered within the timeout by the node that is primary afterwards, and that node is at most
  LAG_THRESHOLD ledgers behind the best one known; the pool stays well formed, with bounded windows of outcomes and
  latencies of equal length.
\<close>

theorem failover_serves_fresh_node:
  assumes "pool_ok cfg p" and "callWithFailover cfg replies p = (Some (v, i), p')"
  shows "pool_ok cfg p' \<and> p_primary p' = i \<and> best_ledger p' - n_latest (p_nodes p' ! i) \<le> LAG_THRESHOLD cfg \<and>
         (\<exists>k l d. replies k i = Answers v l d \<and> d < CALL_TIMEOUT_MS cfg)"
  using failover_loop_served [OF assms(1) _ assms(2) [unfolded callWithFailover_def]] assms(1)
  by (auto simp: lagging_def pool_ok_def)

definition example_config :: rpc_config where
  "example_config = \<lparr>LAG_THRESHOLD = 5, CALL_TIMEOUT_MS = 100, HEALTH_WINDOW = 20\<rparr>"

lemma initial_pool_ok: "urls \<noteq> [] \<Longrightarrow> pool_ok cfg (initial_pool urls)"
  by (auto simp: pool_ok_def initial_pool_def node_ok_def fresh_node_def)

definition second_answers :: "nat \<Rightarrow> nat \<Rightarrow> nat reply" where
  "second_answers k i = (if i = 1 then Answers 9 (Some 7) 10 else Rejects 3)"

lemma second_served: "fst (callWithFailover example_config second_answers (initial_pool [''a'', ''b''])) = Some (9, 1)"
  by code_simp

theorem failover_serves_fresh_node_witness:
  "\<exists>p'. callWithFailover example_config second_answers (initial_pool [''a'', ''b'']) = (Some (9, 1), p') \<and> p_primary p' = 1"
proof -
  obtain p' where "callWithFailover example_config second_answers (initial_pool [''a'', ''b'']) = (Some (9, 1), p')"
    using second_served by (metis prod.collapse)
  with failover_serves_fresh_node [OF initial_pool_ok this] show ?thesis by simp
qed

text \<open>
  A call can fail although a node would have answered: with the third of three nodes marked unhealthy and the two
  others failing, the third attempt starts over at the first node, and the error that all nodes failed is thrown without
  the third one having been asked.
\<close>

definition third_answers :: "nat \<Rightarrow> nat \<Rightarrow> nat reply" where
  "third_answers k i = (if i = 2 then Answers 9 (Some 7) 10 else Rejects 3)"

lemma failover_skips_recovered_node:
  "fst (callWithFailover example_config third_answers (mark_unhealthy 2 (initial_pool [''a'', ''b'', ''c'']))) = None \<and>
   (\<forall>k. third_answers k 2 = Answers 9 (Some 7) 10)"
proof
  show "fst (callWithFailover example_config third_answers (mark_unhealthy 2 (initial_pool [''a'', ''b'', ''c'']))) = None"
    by code_simp
qed (simp add: third_answers_def)

subsection \<open>Votes\<close>

definition votes_ok :: "('e \<Rightarrow> string) \<Rightarrow> 'e list \<Rightarrow> 'e vote list \<Rightarrow> bool" where
  "votes_ok digest rs gs =
     (distinct (map v_digest gs) \<and>
      (\<forall>g \<in> set gs. v_count g = length (filter (\<lambda>e. digest e = v_digest g) rs) \<and> v_events g \<in> set rs \<and> digest (v_events g) = v_digest g) \<and>
      (\<forall>e \<in> set rs. digest e \<in> v_digest ` set gs))"

lemma add_vote_digests: "v_digest ` set (add_vote d e gs) = insert d (v_digest ` set gs)"
  by (induction d e gs rule: add_vote.induct) auto

lemma add_vote_distinct: "distinct (map v_digest gs) \<Longrightarrow> distinct (map v_digest (add_vote d e gs))"
proof (induction d e gs rule: add_vote.induct)
  case (2 d e g gs)
  then show ?case using add_vote_digests [of d e gs] by (auto simp flip: set_map)
qed simp

lemma add_vote_member:
  "distinct (map v_digest gs) \<Longrightarrow> g \<in> set (add_vote d e gs) \<Longrightarrow>
     (g \<in> set gs \<and> v_digest g \<noteq> d) \<or> (\<exists>h \<in> set gs. v_digest h = d \<and> g = h\<lparr>v_count := v_count h + 1\<rparr>) \<or>
     (d \<notin> v_digest ` set gs \<and> g = \<lparr>v_digest = d, v_events = e, v_count = 1\<rparr>)"
  by (induction d e gs rule: add_vote.induct) (auto split: if_splits simp: image_iff)

lemma add_vote_ok:
  assumes "votes_ok digest rs gs"
  shows "votes_ok digest (rs @ [e]) (add_vote (digest e) e gs)"
  unfolding votes_ok_def
proof (intro conjI ballI)
  have d: "distinct (map v_digest gs)" using assms by (simp add: votes_ok_def)
  show "distinct (map v_digest (add_vote (digest e) e gs))" by (rule add_vote_distinct [OF d])
  {
    fix g assume "g \<in> set (add_vote (digest e) e gs)"
    from add_vote_member [OF d this]
    have "v_count g = length (filter (\<lambda>e. digest e = v_digest g) (rs @ [e])) \<and> v_events g \<in> set (rs @ [e]) \<and>
        digest (v_events g) = v_digest g"
    proof (elim disjE bexE conjE)
      assume n: "digest e \<notin> v_digest ` set gs" "g = \<lparr>v_digest = digest e, v_events = e, v_count = 1\<rparr>"
      then have "filter (\<lambda>x. digest x = digest e) rs = []"
        using assms by (auto simp: votes_ok_def filter_empty_conv) (metis image_eqI)
      with n(2) show ?thesis by simp
    qed (use assms in \<open>auto simp: votes_ok_def\<close>)
  }
  then show "g \<in> set (add_vote (digest e) e gs) \<Longrightarrow> v_count g = length (filter (\<lambda>e. digest e = v_digest g) (rs @ [e]))"
    and "g \<in> set (add_vote (digest e) e gs) \<Longrightarrow> v_events g \<in> set (rs @ [e])"
    and "g \<in> set (add_vote (digest e) e gs) \<Longrightarrow> digest (v_events g) = v_digest g" for g by blast+
  show "x \<in> set (rs @ [e]) \<Longrightarrow> digest x \<in> v_digest ` set (add_vote (digest e) e gs)" for x
    using assms by (auto simp: add_vote_digests votes_ok_def)
qed

lemma vote_groups_ok: "votes_ok digest rs (vote_groups digest rs)"
proof (induction rs rule: rev_induct)
  case Nil
  show ?case by (simp add: votes_ok_def vote_groups_def)
next
  case (snoc e rs)
  from add_vote_ok [OF this] show ?case by (simp add: vote_groups_def)
qed

lemma winner_max:
  assumes "gs \<noteq> []"
  shows "winner_of gs \<in> set gs \<and> (\<forall>g \<in> set gs. v_count g \<le> v_count (winner_of gs))"
proof -
  let ?s = "sort_key (\<lambda>g. - int (v_count g)) gs"
  have ne: "?s \<noteq> []" using assms by (metis set_empty set_sort)
  then obtain w ws where w: "?s = w # ws" by (cases ?s) auto
  have "sorted (map (\<lambda>g. - int (v_count g)) ?s)" by simp
  then have "\<forall>g \<in> set ?s. v_count g \<le> v_count w" unfolding w by auto
  moreover have "set gs = insert w (set ws)" using w by (metis list.simps(15) set_sort)
  ultimately show ?thesis unfolding w by (auto simp: winner_of_def w)
qed

text \<open>
  C33. A verified range was given by a provider, with at least the required number of providers and no fewer than for
  any other digest; the dissent reported is the number of the other answers.
\<close>

theorem verified_range_has_quorum:
  assumes "verifyRpcRange digest mode sampled quorum responses = (Verified events d dissent, called)"
    and "successful = List.map_filter (\<lambda>r. r) responses"
  shows "events \<in> set successful \<and> digest events = Some d \<and>
         (if mode = Mode_quorum then min quorum (length successful) else 2)
           \<le> length (filter (\<lambda>e. digest e = Some d) successful) \<and>
         (\<forall>e \<in> set successful. digest e \<noteq> None \<and>
            length (filter (\<lambda>x. digest x = digest e) successful) \<le> length (filter (\<lambda>x. digest x = Some d) successful)) \<and>
         dissent = length (filter (\<lambda>e. digest e \<noteq> Some d) successful)"
proof -
  define dg where "dg e = the (digest e)" for e
  define gs where "gs = vote_groups dg successful"
  define w where "w = winner_of gs"
  from assms have two: "\<not> length successful < 2" and q: "\<not> v_count w < (if mode = Mode_quorum then min quorum (length successful) else 2)"
    and r: "events = v_events w" "d = v_digest w" "dissent = length successful - v_count w"
    and all: "\<not> list_ex (\<lambda>e. digest e = None) successful"
    by (auto simp: verifyRpcRange_def Let_def gs_def w_def dg_def [abs_def] split: if_splits option.splits)
  have some: "digest e = Some (dg e)" if "e \<in> set successful" for e using all that by (auto simp: list_ex_iff dg_def)
  have fd: "filter (\<lambda>x. digest x = Some c) successful = filter (\<lambda>x. dg x = c) successful"
    "filter (\<lambda>x. digest x \<noteq> Some c) successful = filter (\<lambda>x. dg x \<noteq> c) successful" for c
    by (rule filter_cong; simp add: some)+
  have ok: "votes_ok dg successful gs" unfolding gs_def by (rule vote_groups_ok)
  from two obtain e where "e \<in> set successful" by (cases successful) auto
  with ok have "gs \<noteq> []" by (auto simp: votes_ok_def)
  from winner_max [OF this] have w: "w \<in> set gs" "\<forall>g \<in> set gs. v_count g \<le> v_count w" by (auto simp: w_def)
  have c: "v_count w = length (filter (\<lambda>e. dg e = d) successful)" using ok w(1) r(2) by (simp add: votes_ok_def)
  have "length (filter (\<lambda>x. digest x = digest e) successful) \<le> v_count w" if e: "e \<in> set successful" for e
  proof -
    from ok e obtain g where "g \<in> set gs" "dg e = v_digest g" by (auto simp: votes_ok_def)
    with ok w(2) have "length (filter (\<lambda>x. dg x = dg e) successful) \<le> v_count w" by (auto simp: votes_ok_def)
    then show ?thesis by (simp add: some [OF e] fd)
  qed
  moreover have "length successful - v_count w = length (filter (\<lambda>e. dg e \<noteq> d) successful)"
    using sum_length_filter_compl [of "\<lambda>e. dg e = d" successful] c by simp
  moreover have "events \<in> set successful" "dg events = d" using ok w(1) r by (auto simp: votes_ok_def)
  ultimately show ?thesis using q r(3) c some by (auto simp: fd not_less)
qed

definition toy_digest :: "json \<Rightarrow> string option" where
  "toy_digest = canonicalDigest (\<lambda>_. 0) (\<lambda>r. if r = JArr [] then ''0'' else ''1'') id"

lemma two_of_three:
  assumes "digest a = Some ''0''" "digest b = Some ''1''"
  shows "verifyRpcRange digest Mode_quorum True 2 [Some a, None, Some b, Some a] = (Verified a ''0'' 1, True)"
  by (simp add: verifyRpcRange_def vote_groups_def winner_of_def assms List.map_filter_simps Let_def)

theorem verified_range_has_quorum_witness:
  "toy_digest (JArr []) = Some ''0'' \<and> 2 \<le> length (filter (\<lambda>e. toy_digest e = Some ''0'') [JArr [], JArr [JObj []], JArr []])"
proof -
  have d: "toy_digest (JArr []) = Some ''0''" "toy_digest (JArr [JObj []]) = Some ''1''"
    by (simp_all only: toy_digest_def) code_simp+
  have m: "[a, b, a] = List.map_filter (\<lambda>r. r) [Some a, None, Some b, Some a]" for a b :: json by (simp add: List.map_filter_simps)
  note v = verified_range_has_quorum [OF two_of_three [where digest = toy_digest, OF d] m]
  from v have "toy_digest (JArr []) = Some ''0''" by blast
  moreover from v have "(if Mode_quorum = Mode_quorum then min 2 (length [JArr [], JArr [JObj []], JArr []]) else 2)
      \<le> length (filter (\<lambda>e. toy_digest e = Some ''0'') [JArr [], JArr [JObj []], JArr []])" by blast
  then have "2 \<le> length (filter (\<lambda>e. toy_digest e = Some ''0'') [JArr [], JArr [JObj []], JArr []])" by (simp only: if_True list.size) simp
  ultimately show ?thesis by blast
qed

text \<open>
  What the pool hands over are the replies of the nodes, objects with the events in a field: with two of them no range is ever verified, and the
  call fails before any comparison.
\<close>

lemma object_replies_undigested:
  assumes "2 \<le> length ns" "mode = Mode_quorum \<or> mode = Mode_full \<or> mode = Mode_sample \<and> sampled"
  shows "verifyRpcRange (canonicalDigest collation stringify sha) mode sampled quorum (map (\<lambda>ps. Some (JObj ps)) ns) = (Undigested, False)"
proof -
  have "List.map_filter (\<lambda>r. r) (map (\<lambda>ps. Some (JObj ps)) ns) = map JObj ns" by (induction ns) (simp_all add: List.map_filter_simps)
  moreover have "list_ex (\<lambda>e. canonicalDigest collation stringify sha e = None) (map JObj ns)"
    using assms(1) by (cases ns) (simp_all add: canonicalDigest_def)
  ultimately show ?thesis using assms by (auto simp: verifyRpcRange_def)
qed

text \<open>The topics of an event that has a value are not compared.\<close>

lemma digest_ignores_topics:
  "canonicalDigest collation stringify sha (JArr [JObj [(''id'', JStr i), (''value'', JStr v), (''topic'', t)]])
     = canonicalDigest collation stringify sha (JArr [JObj [(''id'', JStr i), (''value'', JStr v), (''topic'', t')]])"
  by (simp add: canonicalDigest_def stableEvent_def stable_id_def given_def or_last_def List.map_filter_simps)

subsection \<open>Scores and retries\<close>

lemma fixed2_bounds: "0 \<le> x \<Longrightarrow> x \<le> 100 \<Longrightarrow> 0 \<le> fixed2 x \<and> fixed2 x \<le> 100"
proof -
  assume x: "0 \<le> x" "x \<le> 100"
  then have "0 \<le> \<lfloor>x * 100 + 1 / 2\<rfloor>" by simp
  moreover have "\<lfloor>x * 100 + 1 / 2\<rfloor> \<le> 10000" using x by (simp add: floor_le_iff)
  then have "(of_int \<lfloor>x * 100 + 1 / 2\<rfloor> :: rat) \<le> 10000" by linarith
  ultimately show ?thesis by (simp add: fixed2_def)
qed

lemma ratio_percent: "k \<le> n \<Longrightarrow> 0 < n \<Longrightarrow> 0 \<le> (of_nat k / of_nat n * 100 :: rat) \<and> (of_nat k / of_nat n * 100 :: rat) \<le> 100"
  by (simp add: divide_le_eq)

text \<open>
  The health score of a node is between 0 and 100 and so are its uptime and error rate, whatever outcomes and
  latencies were recorded.
\<close>

lemma health_score_bounds:
  assumes "0 < CALL_TIMEOUT_MS cfg"
  shows "0 \<le> ps_uptime (provider_stats_of cfg n) \<and> ps_uptime (provider_stats_of cfg n) \<le> 100 \<and>
         0 \<le> ps_error_rate (provider_stats_of cfg n) \<and> ps_error_rate (provider_stats_of cfg n) \<le> 100 \<and>
         0 \<le> ps_score (provider_stats_of cfg n) \<and> ps_score (provider_stats_of cfg n) \<le> 100"
proof -
  define total where "total = length (n_outcomes n)"
  define ok where "ok = length (filter (\<lambda>b. b) (n_outcomes n))"
  define up where "up = (if total \<noteq> 0 then fixed2 (of_nat ok / of_nat total * 100) else 100)"
  define er where "er = (if total \<noteq> 0 then fixed2 (of_nat (total - ok) / of_nat total * 100) else 0)"
  define avg where "avg = (if n_latencies n \<noteq> []
      then Some (js_round (of_nat (sum_list (n_latencies n)) / of_nat (length (n_latencies n)))) else None)"
  define ls where "ls = (case avg of None \<Rightarrow> 1 | Some a \<Rightarrow> max 0 (1 - of_int a / of_nat (CALL_TIMEOUT_MS cfg) :: rat))"
  have s: "provider_stats_of cfg n = \<lparr>ps_uptime = up, ps_avg_latency = avg, ps_error_rate = er,
      ps_score = js_round (up / 100 * 50 + ls * 30 + (1 - er / 100) * 20)\<rparr>"
    by (simp add: provider_stats_of_def Let_def total_def ok_def up_def er_def avg_def ls_def)
  have "ok \<le> total" by (simp add: ok_def total_def)
  then have u: "0 \<le> up" "up \<le> 100" and e: "0 \<le> er" "er \<le> 100"
    using fixed2_bounds ratio_percent [of ok total] ratio_percent [of "total - ok" total]
    by (simp_all add: up_def er_def)
  have "a \<ge> 0" if "avg = Some a" for a using that by (auto simp: avg_def js_round_def split: if_splits)
  then have l: "0 \<le> ls" "ls \<le> 1" using assms by (auto simp: ls_def divide_nonneg_pos split: option.split)
  let ?x = "up / 100 * 50 + ls * 30 + (1 - er / 100) * 20"
  have "0 \<le> ?x" "?x \<le> 100" using u e l by simp_all
  then have "0 \<le> js_round ?x" "js_round ?x \<le> 100" by (simp_all add: js_round_def floor_le_iff)
  with u e show ?thesis by (simp add: s)
qed

lemma health_score_bounds_witness: "ps_score (provider_stats_of example_config (fresh_node ''a'')) \<le> 100"
  using health_score_bounds [of example_config "fresh_node ''a''"] by (simp add: example_config_def)

text \<open>Retries: the first success after retryable errors is returned, with the doubling delays slept before it.\<close>

lemma retry_loop_success:
  "k \<le> left \<Longrightarrow> attempt + left = maxAttempts \<Longrightarrow> \<forall>i < k. \<exists>e. fn (attempt + i) = Inl e \<and> isRetryableError e \<Longrightarrow>
     fn (attempt + k) = Inr v \<Longrightarrow>
     retry_loop fn base attempt maxAttempts left = (Inr v, map (\<lambda>i. 2 ^ (attempt + i) * base) [0..<k])"
proof (induction k arbitrary: attempt left)
  case 0
  then show ?case by (cases left) simp_all
next
  case (Suc k)
  then obtain left' where l: "left = Suc left'" by (cases left) auto
  obtain e where e: "fn attempt = Inl e" "isRetryableError e" using Suc.prems(3) by (metis add_0_right zero_less_Suc)
  have "retry_loop fn base (attempt + 1) maxAttempts left' = (Inr v, map (\<lambda>i. 2 ^ (attempt + 1 + i) * base) [0..<k])"
  proof (rule Suc.IH)
    show "\<forall>i < k. \<exists>e. fn (attempt + 1 + i) = Inl e \<and> isRetryableError e"
      using Suc.prems(3) by (metis Suc_less_eq add.assoc add.commute plus_1_eq_Suc)
  qed (use Suc.prems l in auto)
  moreover have "map (\<lambda>i. 2 ^ (attempt + i) * base) [0..<Suc k] =
      2 ^ attempt * base # map (\<lambda>i. 2 ^ (attempt + 1 + i) * base) [0..<k]"
    by (simp add: upt_conv_Cons map_Suc_upt [symmetric] comp_def del: upt_Suc)
  ultimately show ?case using e Suc.prems(2) l by simp
qed

end
