(* ===== verification/Ingest_Pipeline.thy ===== *)
theory Ingest_Pipeline
  imports Js_Prelude
begin

section \<open>The ingest pipeline (indexer/src/ingestPipeline.js)\<close>

text \<open>
  A bounded queue in front of a fixed number of workers. The state is the closure's \<open>queue\<close>, \<open>activeWorkers\<close> and
  \<open>pendingDrains\<close>; \<open>processBatch\<close> is the caller's function, of which the model only knows whether it returns a promise
  or throws synchronously. The promises that are still open are kept beside the state; a step of the pipeline is a
  call of \<open>enqueue\<close> or \<open>drain\<close> or the settlement of one promise. Shown: the bounds of queue and workers, that every accepted item
  is handed to a worker exactly once and in order, that \<open>drain\<close> resolves only when nothing is left, and that
  it does resolve once the open batches settle.
\<close>

record pipe_config =
  concurrency :: nat
  batchSize :: nat
  maxQueue :: nat

record 'a pipe =
  pq_queue :: "'a list"
  pq_active :: int
  pq_drains :: "nat list"

text \<open>\<open>notifyDrain\<close> returns the drain promises it resolves.\<close>

definition notifyDrain :: "'a pipe \<Rightarrow> nat list \<times> 'a pipe" where
  "notifyDrain s =
     (if pq_queue s = [] \<and> pq_active s = 0 then (pq_drains s, s\<lparr>pq_drains := []\<rparr>) else ([], s))"

text \<open>
  \<open>schedule\<close> returns the batches it handed to \<open>processBatch\<close> and whether it returned normally; \<open>returns\<close> says of a batch whether
  \<open>processBatch\<close> returns.
\<close>

function (sequential) schedule :: "pipe_config \<Rightarrow> ('a list \<Rightarrow> bool) \<Rightarrow> 'a pipe \<Rightarrow> bool \<times> 'a list list \<times> 'a pipe" where
  "schedule cfg returns s =
     (if pq_queue s \<noteq> [] \<and> pq_active s < int (concurrency cfg) then
        (let n = min (batchSize cfg) (length (pq_queue s));
             batch = take n (pq_queue s);
             s1 = s\<lparr>pq_queue := drop n (pq_queue s)\<rparr>
         in if batch = [] then (True, [], s1)
            else let s2 = s1\<lparr>pq_active := pq_active s1 + 1\<rparr> in
              if returns batch
              then (case schedule cfg returns s2 of (ok, bs, s3) \<Rightarrow> (ok, batch # bs, s3))
              else (False, [batch], s2))
      else (True, [], s))"
  by pat_completeness auto
termination
  by (relation "measure (\<lambda>(cfg, returns, s). length (pq_queue s))") auto

declare schedule.simps [simp del]

record accepted_count =
  a_accepted :: nat
  a_dropped :: nat

text \<open>\<open>enqueue(items)\<close>: the counts (\<open>None\<close> when \<open>schedule\<close> throws) and the batches started.\<close>

definition pipe_enqueue ::
  "pipe_config \<Rightarrow> ('a list \<Rightarrow> bool) \<Rightarrow> 'a list \<Rightarrow> 'a pipe \<Rightarrow> accepted_count option \<times> 'a list list \<times> 'a pipe" where
  "pipe_enqueue cfg returns input s =
     (if input = [] then (Some \<lparr>a_accepted = 0, a_dropped = 0\<rparr>, [], s)
      else let overflow = nat (max 0 (int (length (pq_queue s)) + int (length input) - int (maxQueue cfg)));
               accepted = nat (max 0 (int (length input) - int overflow));
               counts = \<lparr>a_accepted = accepted, a_dropped = length input - accepted\<rparr>
           in if 0 < accepted
              then (case schedule cfg returns (s\<lparr>pq_queue := pq_queue s @ take accepted input\<rparr>) of
                      (ok, bs, s') \<Rightarrow> (if ok then Some counts else None, bs, s'))
              else (Some counts, [], s))"

text \<open>
  A promise of \<open>processBatch\<close> settles: the fulfilment handler, and the rejection handler, which also runs when the
  fulfilment handler throws.
\<close>

definition settle_once ::
  "pipe_config \<Rightarrow> ('a list \<Rightarrow> bool) \<Rightarrow> 'a pipe \<Rightarrow> nat list \<times> bool \<times> 'a list list \<times> 'a pipe" where
  "settle_once cfg returns s =
     (case notifyDrain (s\<lparr>pq_active := pq_active s - 1\<rparr>) of (ds, s1) \<Rightarrow> (ds, schedule cfg returns s1))"

definition settle ::
  "pipe_config \<Rightarrow> ('a list \<Rightarrow> bool) \<Rightarrow> bool \<Rightarrow> 'a pipe \<Rightarrow> nat list \<times> 'a list list \<times> 'a pipe" where
  "settle cfg returns fulfilled s =
     (case settle_once cfg returns s of (ds, ok, bs, s1) \<Rightarrow>
        if ok \<or> \<not> fulfilled then (ds, bs, s1)
        else (case settle_once cfg returns s1 of (ds', ok', bs', s2) \<Rightarrow> (ds @ ds', bs @ bs', s2)))"

text \<open>\<open>drain()\<close>: resolved at once, or the promise \<open>i\<close> is kept.\<close>

definition drain :: "nat \<Rightarrow> 'a pipe \<Rightarrow> bool \<times> 'a pipe" where
  "drain i s =
     (if pq_queue s = [] \<and> pq_active s = 0 then (True, s) else (False, s\<lparr>pq_drains := pq_drains s @ [i]\<rparr>))"

definition createIngestPipeline :: "'a pipe" where
  "createIngestPipeline = \<lparr>pq_queue = [], pq_active = 0, pq_drains = []\<rparr>"

subsection \<open>Steps\<close>

text \<open>
  The pipeline with an asynchronous \<open>processBatch\<close> (the one of index.js), the open promises, and what an observer
  sees: the accepted items, the batches started and the drain promises resolved.
\<close>

record 'a pipe_world =
  w_pipe :: "'a pipe"
  w_running :: "'a list list"
  w_accepted :: "'a list"
  w_started :: "'a list list"
  w_resolved :: "nat list"

definition fresh_world :: "'a pipe_world" where
  "fresh_world = \<lparr>w_pipe = createIngestPipeline, w_running = [], w_accepted = [], w_started = [], w_resolved = []\<rparr>"

abbreviation is_async :: "'a list \<Rightarrow> bool" where
  "is_async \<equiv> \<lambda>_. True"

definition settled_world :: "pipe_config \<Rightarrow> bool \<Rightarrow> nat \<Rightarrow> 'a pipe_world \<Rightarrow> 'a pipe_world" where
  "settled_world cfg fulfilled i w =
     (case settle cfg is_async fulfilled (w_pipe w) of (ds, bs, s) \<Rightarrow>
        w\<lparr>w_pipe := s, w_running := take i (w_running w) @ drop (Suc i) (w_running w) @ bs,
          w_started := w_started w @ bs, w_resolved := w_resolved w @ ds\<rparr>)"

inductive pipe_step :: "pipe_config \<Rightarrow> 'a pipe_world \<Rightarrow> 'a pipe_world \<Rightarrow> bool" for cfg where
  enqueued: "pipe_enqueue cfg is_async items (w_pipe w) = (Some c, bs, s) \<Longrightarrow>
     pipe_step cfg w (w\<lparr>w_pipe := s, w_running := w_running w @ bs, w_started := w_started w @ bs,
                        w_accepted := w_accepted w @ take (a_accepted c) items\<rparr>)"
| settled: "i < length (w_running w) \<Longrightarrow> pipe_step cfg w (settled_world cfg fulfilled i w)"
| drained: "drain k (w_pipe w) = (at_once, s) \<Longrightarrow>
     pipe_step cfg w (w\<lparr>w_pipe := s, w_resolved := w_resolved w @ (if at_once then [k] else [])\<rparr>)"

inductive_cases pipe_stepE: "pipe_step cfg w w'"

definition pipe_ok :: "pipe_config \<Rightarrow> 'a pipe_world \<Rightarrow> bool" where
  "pipe_ok cfg w \<longleftrightarrow>
     length (pq_queue (w_pipe w)) \<le> maxQueue cfg \<and>
     pq_active (w_pipe w) = int (length (w_running w)) \<and> length (w_running w) \<le> concurrency cfg \<and>
     w_accepted w = concat (w_started w) @ pq_queue (w_pipe w) \<and>
     (pq_queue (w_pipe w) \<noteq> [] \<longrightarrow> length (w_running w) = concurrency cfg) \<and>
     (pq_drains (w_pipe w) \<noteq> [] \<longrightarrow> w_running w \<noteq> []) \<and>
     (\<forall>b \<in> set (w_started w). b \<noteq> [] \<and> length b \<le> batchSize cfg)"

subsection \<open>Lemmas\<close>

lemma pipe_okD:
  assumes "pipe_ok cfg w"
  shows "length (pq_queue (w_pipe w)) \<le> maxQueue cfg" "pq_active (w_pipe w) = int (length (w_running w))"
    "length (w_running w) \<le> concurrency cfg" "w_accepted w = concat (w_started w) @ pq_queue (w_pipe w)"
    "pq_queue (w_pipe w) \<noteq> [] \<Longrightarrow> length (w_running w) = concurrency cfg"
    "pq_drains (w_pipe w) \<noteq> [] \<Longrightarrow> w_running w \<noteq> []"
    "\<forall>b \<in> set (w_started w). b \<noteq> [] \<and> length b \<le> batchSize cfg"
  using assms unfolding pipe_ok_def by blast+

lemma schedule_async:
  assumes "schedule cfg is_async s = (ok, bs, s')" "0 < batchSize cfg"
  shows "ok \<and> concat bs @ pq_queue s' = pq_queue s \<and> pq_active s' = pq_active s + int (length bs) \<and>
    pq_drains s' = pq_drains s \<and> (pq_active s \<le> int (concurrency cfg) \<longrightarrow> pq_active s' \<le> int (concurrency cfg)) \<and>
    (pq_queue s' \<noteq> [] \<longrightarrow> int (concurrency cfg) \<le> pq_active s') \<and>
    (\<forall>b \<in> set bs. b \<noteq> [] \<and> length b \<le> batchSize cfg)"
  using assms
proof (induction cfg "is_async :: 'a list \<Rightarrow> bool" s arbitrary: ok bs s' rule: schedule.induct)
  case (1 cfg s)
  show ?case
  proof (cases "pq_queue s \<noteq> [] \<and> pq_active s < int (concurrency cfg)")
    case False
    then have "schedule cfg is_async s = (True, [], s)" by (subst schedule.simps) (rule if_not_P)
    with False "1.prems" show ?thesis by auto
  next
    case True
    define n where "n = min (batchSize cfg) (length (pq_queue s))"
    define s2 where "s2 = s\<lparr>pq_queue := drop n (pq_queue s), pq_active := pq_active s + 1\<rparr>"
    have n: "0 < n" "n \<le> batchSize cfg" "take n (pq_queue s) \<noteq> []" using True "1.prems"(2) by (auto simp: n_def)
    obtain ok' bs' s3 where rest: "schedule cfg is_async s2 = (ok', bs', s3)" by (cases "schedule cfg is_async s2")
    then have r: "(ok, bs, s') = (ok', take n (pq_queue s) # bs', s3)"
      using "1.prems"(1) True n(3) unfolding schedule.simps [of cfg _ s] by (simp add: Let_def flip: n_def s2_def)
    have s2: "s2 = (s\<lparr>pq_queue := drop n (pq_queue s)\<rparr>)\<lparr>pq_active := pq_active (s\<lparr>pq_queue := drop n (pq_queue s)\<rparr>) + 1\<rparr>"
      by (simp add: s2_def)
    note "1.hyps" [OF True n_def refl refl n(3) s2 TrueI rest "1.prems"(2)]
    moreover have "pq_queue s2 = drop n (pq_queue s)" "pq_active s2 = pq_active s + 1" "pq_drains s2 = pq_drains s"
      by (simp_all add: s2_def)
    moreover have "ok = ok'" "bs = take n (pq_queue s) # bs'" "s' = s3" using r by auto
    moreover have "length (take n (pq_queue s)) \<le> batchSize cfg" using n(2) by simp
    moreover have "pq_active s + 1 \<le> int (concurrency cfg)" using True by simp
    ultimately show ?thesis using n(3) by (elim conjE) (simp del: take_eq_Nil)
  qed
qed

definition pipe_sound :: "pipe_config \<Rightarrow> bool" where
  "pipe_sound cfg \<longleftrightarrow> 0 < batchSize cfg \<and> 0 < concurrency cfg"

text \<open>A worker pool that has just been given work: what \<open>schedule\<close> adds to a world.\<close>

lemma scheduled_ok:
  assumes sound: "pipe_sound cfg"
    and sch: "schedule cfg is_async s = (ok, bs, s')"
    and running: "pq_active s = int (length rs)" "length rs \<le> concurrency cfg"
    and fifo: "acc = concat started @ pq_queue s" and bound: "length (pq_queue s) \<le> maxQueue cfg"
    and drains: "pq_drains s \<noteq> [] \<Longrightarrow> rs \<noteq> [] \<or> pq_queue s \<noteq> []"
    and old: "\<forall>b \<in> set started. b \<noteq> [] \<and> length b \<le> batchSize cfg"
  shows "pipe_ok cfg (w\<lparr>w_pipe := s', w_running := rs @ bs, w_started := started @ bs, w_accepted := acc\<rparr>)"
proof -
  from schedule_async [OF sch] sound
  have q: "concat bs @ pq_queue s' = pq_queue s" "pq_active s' = pq_active s + int (length bs)" "pq_drains s' = pq_drains s"
    "pq_active s' \<le> int (concurrency cfg)" "pq_queue s' \<noteq> [] \<Longrightarrow> int (concurrency cfg) \<le> pq_active s'"
    "\<forall>b \<in> set bs. b \<noteq> [] \<and> length b \<le> batchSize cfg"
    using running by (auto simp: pipe_sound_def)
  have "length (pq_queue s') \<le> length (pq_queue s)" by (subst q(1) [symmetric]) simp
  moreover have "rs @ bs \<noteq> []" if "pq_drains s' \<noteq> []"
  proof
    assume "rs @ bs = []"
    with q(1,3) that drains have "pq_queue s' \<noteq> []" by auto
    with q(2,5) running(1) \<open>rs @ bs = []\<close> sound show False by (simp add: pipe_sound_def)
  qed
  moreover have "length (rs @ bs) = concurrency cfg" if "pq_queue s' \<noteq> []"
    using q(2,4) q(5) [OF that] running by simp
  moreover have "acc = concat (started @ bs) @ pq_queue s'" using fifo q(1) by simp
  moreover have "pq_active s' = int (length (rs @ bs))" "length (rs @ bs) \<le> concurrency cfg" using q(2,4) running by auto
  ultimately show ?thesis using bound old q(6) by (auto simp: pipe_ok_def)
qed

lemma accepted_min: "nat (max 0 (int l - int (nat (max 0 (int q + int l - int m))))) = min l (m - q)" if "q \<le> m" for l q m :: nat
  using that by arith

lemma pipe_enqueue_async:
  assumes "pipe_sound cfg" "length (pq_queue s) \<le> maxQueue cfg"
  defines "n \<equiv> \<lambda>items. min (length items) (maxQueue cfg - length (pq_queue s))"
  shows "pipe_enqueue cfg is_async items s =
    (if n items = 0 then (Some \<lparr>a_accepted = 0, a_dropped = length items\<rparr>, [], s)
     else (Some \<lparr>a_accepted = n items, a_dropped = length items - n items\<rparr>,
           snd (schedule cfg is_async (s\<lparr>pq_queue := pq_queue s @ take (n items) items\<rparr>))))"
proof (cases "schedule cfg is_async (s\<lparr>pq_queue := pq_queue s @ take (n items) items\<rparr>)")
  case (fields ok bs s')
  moreover have ok using schedule_async [OF fields] assms(1) by (simp add: pipe_sound_def)
  ultimately show ?thesis
    unfolding pipe_enqueue_def Let_def accepted_min [OF assms(2)] n_def [symmetric] by (auto simp: n_def)
qed

lemma pipe_enqueue_ok:
  assumes sound: "pipe_sound cfg" and ok: "pipe_ok cfg w"
    and enq: "pipe_enqueue cfg is_async items (w_pipe w) = (Some c, bs, s)"
  shows "pipe_ok cfg (w\<lparr>w_pipe := s, w_running := w_running w @ bs, w_started := w_started w @ bs,
                        w_accepted := w_accepted w @ take (a_accepted c) items\<rparr>)"
proof -
  let ?q = "pq_queue (w_pipe w)"
  define n where "n = min (length items) (maxQueue cfg - length ?q)"
  have bound: "length ?q \<le> maxQueue cfg" using ok by (simp add: pipe_ok_def)
  note e = enq [unfolded pipe_enqueue_async [OF sound bound], folded n_def]
  show ?thesis
  proof (cases "n = 0")
    case True
    with e have "a_accepted c = 0" "bs = []" "s = w_pipe w" by auto
    with ok show ?thesis by (simp add: pipe_ok_def)
  next
    case False
    with e obtain ok' where sch: "schedule cfg is_async ((w_pipe w)\<lparr>pq_queue := ?q @ take n items\<rparr>) = (ok', bs, s)"
      and c: "a_accepted c = n" by (metis Pair_inject accepted_count.select_convs(1) option.inject prod.collapse)
    show ?thesis unfolding c
      by (rule scheduled_ok [OF sound sch]) (use ok bound in \<open>auto simp: pipe_ok_def n_def\<close>)
  qed
qed

text \<open>With an asynchronous \<open>processBatch\<close> the rejection handler adds nothing to the fulfilment handler.\<close>

lemma settle_async:
  assumes "pipe_sound cfg"
  shows "settle cfg is_async fulfilled s =
    (case notifyDrain (s\<lparr>pq_active := pq_active s - 1\<rparr>) of (ds, s1) \<Rightarrow> (ds, snd (schedule cfg is_async s1)))"
proof -
  obtain ds s1 ok bs s2 where n: "notifyDrain (s\<lparr>pq_active := pq_active s - 1\<rparr>) = (ds, s1)"
    and sch: "schedule cfg is_async s1 = (ok, bs, s2)" by (metis prod_cases3 surj_pair)
  moreover have ok using schedule_async [OF sch] assms by (simp add: pipe_sound_def)
  ultimately show ?thesis by (simp add: settle_def settle_once_def)
qed

lemma settled_world_ok:
  assumes sound: "pipe_sound cfg" and ok: "pipe_ok cfg w" and i: "i < length (w_running w)"
  shows "pipe_ok cfg (settled_world cfg fulfilled i w)"
proof -
  let ?s = "(w_pipe w)\<lparr>pq_active := pq_active (w_pipe w) - 1\<rparr>" and ?rs = "take i (w_running w) @ drop (Suc i) (w_running w)"
  obtain ds s1 where n: "notifyDrain ?s = (ds, s1)" by (cases "notifyDrain ?s")
  obtain ok' bs s2 where sch: "schedule cfg is_async s1 = (ok', bs, s2)" by (cases "schedule cfg is_async s1")
  have one: "length ?rs = length (w_running w) - 1" "0 < length (w_running w)" using i by auto
  have s1: "pq_queue s1 = pq_queue (w_pipe w)" "pq_active s1 = pq_active (w_pipe w) - 1"
    using n by (auto simp: notifyDrain_def split: if_splits)
  note d = pipe_okD [OF ok]
  have rs: "pq_active s1 = int (length ?rs)" "length ?rs \<le> concurrency cfg"
    using d(2,3) one s1(2) by linarith+
  have dr: "pq_drains s1 \<noteq> [] \<Longrightarrow> ?rs \<noteq> [] \<or> pq_queue s1 \<noteq> []"
    using n rs(1) s1 by (auto simp: notifyDrain_def split: if_splits)
  have "pipe_ok cfg (w\<lparr>w_pipe := s2, w_running := ?rs @ bs, w_started := w_started w @ bs, w_accepted := w_accepted w\<rparr>)"
    by (rule scheduled_ok [OF sound sch rs _ _ dr]) (use d(1,4,7) s1(1) in simp_all)
  then show ?thesis by (simp add: settled_world_def settle_async [OF sound] n sch pipe_ok_def)
qed

lemma drain_ok:
  assumes sound: "pipe_sound cfg" and ok: "pipe_ok cfg w" and dr: "drain k (w_pipe w) = (at_once, s)"
  shows "pipe_ok cfg (w\<lparr>w_pipe := s, w_resolved := r\<rparr>)"
proof -
  note d = pipe_okD [OF ok]
  have "pq_queue s = pq_queue (w_pipe w)" "pq_active s = pq_active (w_pipe w)"
    using dr by (auto simp: drain_def split: if_splits)
  moreover have "w_running w \<noteq> []" if "pq_drains s \<noteq> []"
    using that dr d(2,5,6) sound by (auto simp: drain_def pipe_sound_def split: if_splits)
  ultimately show ?thesis using d(1-5,7) by (simp add: pipe_ok_def)
qed

lemma pipe_step_ok:
  assumes "pipe_step cfg w w'" "pipe_sound cfg" "pipe_ok cfg w"
  shows "pipe_ok cfg w'"
  using assms(1)
proof (cases rule: pipe_step.cases)
  case (enqueued items c bs s)
  then show ?thesis using pipe_enqueue_ok [OF assms(2,3)] by simp
next
  case (settled i fulfilled)
  then show ?thesis using settled_world_ok [OF assms(2,3)] by simp
next
  case (drained k at_once s)
  then show ?thesis using drain_ok [OF assms(2,3)] by simp
qed

lemma fresh_world_ok: "pipe_ok cfg fresh_world"
  by (simp add: pipe_ok_def fresh_world_def createIngestPipeline_def)

lemma pipe_reachable_ok:
  "(pipe_step cfg)\<^sup>*\<^sup>* fresh_world w \<Longrightarrow> pipe_sound cfg \<Longrightarrow> pipe_ok cfg w"
  by (induction rule: rtranclp_induct) (auto intro: fresh_world_ok pipe_step_ok)

text \<open>What is left to do: every settlement takes at least one off.\<close>

definition pipe_left :: "'a pipe_world \<Rightarrow> nat" where
  "pipe_left w = length (pq_queue (w_pipe w)) + length (w_running w)"

lemma length_le_concat: "\<forall>b \<in> set bs. b \<noteq> [] \<Longrightarrow> length bs \<le> length (concat bs)"
proof (induction bs)
  case (Cons b bs)
  then have "0 < length b" "length bs \<le> length (concat bs)" by auto
  then show ?case unfolding concat.simps length_append length_Cons by linarith
qed simp

lemma settled_world_left:
  assumes sound: "pipe_sound cfg" and ok: "pipe_ok cfg w" and i: "i < length (w_running w)"
  shows "pipe_left (settled_world cfg fulfilled i w) < pipe_left w"
proof -
  let ?s = "(w_pipe w)\<lparr>pq_active := pq_active (w_pipe w) - 1\<rparr>"
  obtain ds s1 where n: "notifyDrain ?s = (ds, s1)" by (cases "notifyDrain ?s")
  obtain ok' bs s2 where sch: "schedule cfg is_async s1 = (ok', bs, s2)" by (cases "schedule cfg is_async s1")
  from schedule_async [OF sch] sound have q: "concat bs @ pq_queue s2 = pq_queue s1" "\<forall>b \<in> set bs. b \<noteq> []"
    by (auto simp: pipe_sound_def)
  from q(2) have "length bs \<le> length (concat bs)" by (rule length_le_concat)
  moreover have "length (concat bs) + length (pq_queue s2) = length (pq_queue s1)" by (metis q(1) length_append)
  moreover have "pq_queue s1 = pq_queue (w_pipe w)" using n by (auto simp: notifyDrain_def split: if_splits)
  ultimately show ?thesis
    using i by (simp add: settled_world_def settle_async [OF sound] n sch pipe_left_def)
qed

text \<open>The open promises settle one after the other, in any order and with any outcome.\<close>

inductive settlements :: "pipe_config \<Rightarrow> nat \<Rightarrow> 'a pipe_world \<Rightarrow> 'a pipe_world \<Rightarrow> bool" for cfg where
  none: "settlements cfg 0 w w"
| one_more: "i < length (w_running w) \<Longrightarrow> settlements cfg n (settled_world cfg fulfilled i w) w' \<Longrightarrow> settlements cfg (Suc n) w w'"

lemma settlements_ok:
  "settlements cfg n w w' \<Longrightarrow> pipe_sound cfg \<Longrightarrow> pipe_ok cfg w \<Longrightarrow> pipe_ok cfg w' \<and> n + pipe_left w' \<le> pipe_left w"
proof (induction rule: settlements.induct)
  case (one_more i w n fulfilled w')
  from one_more.IH settled_world_ok [OF one_more.prems one_more.hyps(1)]
    settled_world_left [OF one_more.prems one_more.hyps(1), of fulfilled] one_more.prems
  show ?case by (metis add_Suc less_eq_Suc_le order.trans Suc_le_mono)
qed simp

lemma settlements_accepted: "settlements cfg n w w' \<Longrightarrow> w_accepted w' = w_accepted w"
  by (induction rule: settlements.induct) (auto simp: settled_world_def split: prod.splits)

subsection \<open>Properties\<close>

text \<open>
  C31. Whatever is enqueued, whenever batches succeed or fail and whenever somebody waits for the queue to drain, the queue and
  the workers stay within their bounds, a worker is idle only when the queue is empty, the items accepted so far are
  those of the batches started so far followed by the queue (each item handed out once, in order, in batches of
  at most batchSize), and a call of enqueue accepts what fits and counts the rest as dropped.
\<close>

theorem ingest_pipeline_fifo:
  assumes "(pipe_step cfg)\<^sup>*\<^sup>* fresh_world w" "pipe_sound cfg"
  shows "length (pq_queue (w_pipe w)) \<le> maxQueue cfg \<and> length (w_running w) \<le> concurrency cfg \<and>
    (pq_queue (w_pipe w) = [] \<or> length (w_running w) = concurrency cfg) \<and>
    w_accepted w = concat (w_started w) @ pq_queue (w_pipe w) \<and>
    list_all (\<lambda>b. b \<noteq> [] \<and> length b \<le> batchSize cfg) (w_started w) \<and>
    (let n = min (length items) (maxQueue cfg - length (pq_queue (w_pipe w)))
     in fst (pipe_enqueue cfg is_async items (w_pipe w)) = Some \<lparr>a_accepted = n, a_dropped = length items - n\<rparr>)"
proof -
  from pipe_reachable_ok [OF assms] have ok: "pipe_ok cfg w" .
  then show ?thesis
    using pipe_enqueue_async [OF assms(2), of "w_pipe w" items] by (auto simp: pipe_ok_def list_all_iff Let_def)
qed

definition small_pipe :: pipe_config where
  "small_pipe = \<lparr>concurrency = 1, batchSize = 2, maxQueue = 3\<rparr>"

theorem ingest_pipeline_fifo_witness:
  "fst (pipe_enqueue small_pipe is_async [1, 2, 3, 4, 5 :: nat] createIngestPipeline) = Some \<lparr>a_accepted = 3, a_dropped = 2\<rparr>"
  using ingest_pipeline_fifo [of small_pipe fresh_world "[1, 2, 3, 4, 5 :: nat]"]
  by (simp add: numeral_eq_Suc small_pipe_def pipe_sound_def fresh_world_def createIngestPipeline_def)

definition busy_world :: "nat pipe_world" where
  "busy_world = fresh_world\<lparr>w_pipe := \<lparr>pq_queue = [3], pq_active = 1, pq_drains = []\<rparr>, w_running := [[1, 2]],
     w_started := [[1, 2]], w_accepted := [1, 2, 3]\<rparr>"

lemma busy_world_reached: "(pipe_step small_pipe)\<^sup>*\<^sup>* fresh_world busy_world"
proof -
  have "pipe_enqueue small_pipe is_async [1, 2, 3] (w_pipe fresh_world) =
      (Some \<lparr>a_accepted = 3, a_dropped = 0\<rparr>, [[1, 2]], \<lparr>pq_queue = [3 :: nat], pq_active = 1, pq_drains = []\<rparr>)"
    by (simp add: pipe_enqueue_def small_pipe_def fresh_world_def createIngestPipeline_def Let_def schedule.simps)
  from pipe_step.enqueued [OF this] show ?thesis by (simp add: fresh_world_def busy_world_def r_into_rtranclp)
qed

text \<open>
  Draining terminates: when no more items come, at most as many batches as there are items queued and batches open can
  settle, and once no batch is open every accepted item has been handed to a worker and no drain promise is left.
\<close>

lemma drain_terminates:
  assumes "(pipe_step cfg)\<^sup>*\<^sup>* fresh_world w" "pipe_sound cfg" "settlements cfg n w w'"
  shows "n \<le> pipe_left w \<and> (w_running w' = [] \<longrightarrow> pq_drains (w_pipe w') = [] \<and> concat (w_started w') = w_accepted w)"
proof -
  have ok: "pipe_ok cfg w'" "n + pipe_left w' \<le> pipe_left w"
    using settlements_ok [OF assms(3,2) pipe_reachable_ok [OF assms(1,2)]] by auto
  then have "pq_queue (w_pipe w') = []" if "w_running w' = []" using that assms(2) by (auto simp: pipe_ok_def pipe_sound_def)
  then show ?thesis using ok settlements_accepted [OF assms(3)] by (auto simp: pipe_ok_def)
qed

lemma drain_terminates_witness:
  "2 \<le> pipe_left busy_world \<and>
   concat (w_started (settled_world small_pipe False 0 (settled_world small_pipe True 0 busy_world))) = [1, 2, 3]"
proof -
  let ?w = "settled_world small_pipe False 0 (settled_world small_pipe True 0 busy_world)"
  note defs = settled_world_def settle_def settle_once_def notifyDrain_def schedule.simps small_pipe_def fresh_world_def
    busy_world_def
  have "settlements small_pipe (Suc (Suc 0)) busy_world ?w"
    by (rule settlements.one_more [where i = 0], simp add: busy_world_def, rule settlements.one_more [where i = 0])
      (simp_all add: defs settlements.none)
  from drain_terminates [OF busy_world_reached _ this] show ?thesis by (simp add: defs pipe_sound_def)
qed

end
