(* ===== verification/Ingest_Daemon.thy ===== *)
theory Ingest_Daemon
  imports Ingest_Pipeline
begin

section \<open>The ingestion daemon (indexer/src/index.js)\<close>

text \<open>
  \<open>indexLedger\<close> reads pages of events from the RPC node, runs them through the ingest pipeline in batches and follows the page cursor; the
  polling loop then moves its own cursor behind the latest ledger. The RPC node (after retries), the decoder with the enrichments that
  precede the insert, the sanitiser, the success of a database statement and of publishing, and the answers of the
  reorganisation check are parameters. Batches of a page run concurrently and insert in some order; here they run in the order they are
  handed out, which only decides the sequence numbers. What follows the insert (state diffs, evictions, vaults) is left out up to
  publishing, whose exception ends the batch. index.js does not import the functions that publish an event and deliver its webhooks; the model is of
  the file with these imports, without them every such call is an exception. Shown: the page loop ends and hands every event the node serves to the
  decoder once; a healthy poll stores them; one row per contract, ledger and transaction survives; and an event that cannot be decoded takes its
  batch with it, for good.
\<close>

subsection \<open>Events and the table\<close>

record 'x raw_event =
  re_contract :: string
  re_ledger :: nat
  re_tx :: string
  re_body :: 'x

record 'd decoded_event =
  dv_contract :: string
  dv_ledger :: nat
  dv_tx :: string
  dv_rest :: 'd

definition event_key :: "'d decoded_event \<Rightarrow> string \<times> nat \<times> string" where
  "event_key e = (dv_contract e, dv_ledger e, dv_tx e)"

record ('x, 'd) ingest_env =
  env_decode :: "'x raw_event \<Rightarrow> 'd decoded_event option"
  env_sanitize :: "'d decoded_event \<Rightarrow> 'd decoded_event"
  env_insert :: "'d decoded_event list \<Rightarrow> bool"
  env_publish :: "'d decoded_event \<Rightarrow> bool"

record 'd indexer =
  ix_events :: "'d decoded_event list"
  ix_webhooks :: "'d decoded_event list"
  ix_published :: "'d decoded_event list"
  ix_hashes :: "(nat \<times> string) list"

text \<open>\<open>INSERT ... ON CONFLICT (contract_id, ledger, tx_hash) DO NOTHING\<close>, also among the rows of one statement.\<close>

definition insert_event :: "'d decoded_event list \<Rightarrow> 'd decoded_event \<Rightarrow> 'd decoded_event list" where
  "insert_event rows e = (if event_key e \<in> event_key ` set rows then rows else rows @ [e])"

definition upsertEventsValidatedBatch ::
  "('x, 'd) ingest_env \<Rightarrow> 'd decoded_event list \<Rightarrow> 'd decoded_event list \<Rightarrow> 'd decoded_event list option" where
  "upsertEventsValidatedBatch E events rows =
     (if events = [] then Some rows
      else let validated = map (env_sanitize E) events
           in if env_insert E validated then Some (foldl insert_event rows validated) else None)"

subsection \<open>processEventBatch\<close>

text \<open>The loop after the insert: webhooks are started, then the event is published; \<open>False\<close> when publishing throws.\<close>

fun fan_out :: "('d decoded_event \<Rightarrow> bool) \<Rightarrow> 'd decoded_event list \<Rightarrow> 'd indexer \<Rightarrow> bool \<times> 'd indexer" where
  "fan_out publishes [] s = (True, s)"
| "fan_out publishes (e # es) s =
     (let s1 = s\<lparr>ix_webhooks := ix_webhooks s @ [e]\<rparr>
      in if publishes e then fan_out publishes es (s1\<lparr>ix_published := ix_published s1 @ [e]\<rparr>) else (False, s1))"

definition processEventBatch :: "('x, 'd) ingest_env \<Rightarrow> 'x raw_event list \<Rightarrow> 'd indexer \<Rightarrow> bool \<times> 'd indexer" where
  "processEventBatch E batch s =
     (if batch = [] then (True, s)
      else case those (map (env_decode E) batch) of
             None \<Rightarrow> (False, s)
           | Some resolved \<Rightarrow>
               (case upsertEventsValidatedBatch E resolved (ix_events s) of
                  None \<Rightarrow> (False, s)
                | Some rows \<Rightarrow> fan_out (env_publish E) resolved (s\<lparr>ix_events := rows\<rparr>)))"

subsection \<open>Pages\<close>

definition ingest_cfg :: pipe_config where
  "ingest_cfg = \<lparr>concurrency = 4, batchSize = 64, maxQueue = 2000\<rparr>"

definition PAGE_LIMIT :: nat where "PAGE_LIMIT = 200"

text \<open>
  The pipeline of one page: enqueue, then the promises settle until \<open>drain\<close> resolves. Its workers settle in some order, which
  does not change the batches; here the oldest settles first. The fuel is the work left, which every settlement lessens.
\<close>

definition page_world :: "'a list \<Rightarrow> 'a pipe_world" where
  "page_world items =
     (case pipe_enqueue ingest_cfg is_async items createIngestPipeline of
        (c, bs, s) \<Rightarrow> fresh_world\<lparr>w_pipe := s, w_running := bs, w_started := bs,
                        w_accepted := (case c of Some n \<Rightarrow> take (a_accepted n) items | None \<Rightarrow> [])\<rparr>)"

fun settle_oldest :: "nat \<Rightarrow> 'a pipe_world \<Rightarrow> 'a pipe_world" where
  "settle_oldest 0 w = w"
| "settle_oldest (Suc n) w = (if w_running w = [] then w else settle_oldest n (settled_world ingest_cfg True 0 w))"

definition page_batches :: "'a list \<Rightarrow> 'a list list" where
  "page_batches items = (let w = page_world items in w_started (settle_oldest (pipe_left w) w))"

text \<open>The pipeline takes no notice of a batch that fails.\<close>

definition index_page :: "('x, 'd) ingest_env \<Rightarrow> 'x raw_event list \<Rightarrow> 'd indexer \<Rightarrow> 'd indexer" where
  "index_page E items s = foldl (\<lambda>s batch. snd (processEventBatch E batch s)) s (page_batches items)"

record ('x, 'c) rpc_page =
  rp_events :: "'x raw_event list"
  rp_cursor :: "'c option"
  rp_latest :: "nat option"
  rp_hash :: "string option"

datatype index_error = Leadership_lost | Rpc_failed

text \<open>
  The page loop of \<open>indexLedger\<close>: \<open>lead n\<close> is whether the process leads at page \<open>n\<close>, \<open>rpc\<close> what the node answers to a request
  from a ledger or from a cursor. A node that always sends full pages keeps the loop going.
\<close>

definition record_hash :: "nat option \<Rightarrow> ('x, 'c) rpc_page \<Rightarrow> 'd indexer \<Rightarrow> 'd indexer" where
  "record_hash endLedger p s =
     (case (endLedger, rp_latest p, rp_hash p) of
        (None, Some l, Some h) \<Rightarrow> if l \<noteq> 0 \<and> h \<noteq> [] \<and> l \<notin> fst ` set (ix_hashes s) then s\<lparr>ix_hashes := ix_hashes s @ [(l, h)]\<rparr> else s
      | _ \<Rightarrow> s)"

definition next_cursor :: "nat option \<Rightarrow> ('x, 'c) rpc_page \<Rightarrow> 'c option" where
  "next_cursor endLedger p =
     (if (case endLedger of Some e \<Rightarrow> list_ex (\<lambda>ev. e < re_ledger ev) (rp_events p) | None \<Rightarrow> False) then None
      else if length (rp_events p) = PAGE_LIMIT then rp_cursor p else None)"

partial_function (option) index_pages ::
  "('x, 'd) ingest_env \<Rightarrow> (nat \<Rightarrow> bool) \<Rightarrow> (nat + 'c \<Rightarrow> ('x, 'c) rpc_page option) \<Rightarrow> nat option \<Rightarrow> nat \<Rightarrow> nat + 'c
     \<Rightarrow> nat \<Rightarrow> string option \<Rightarrow> 'd indexer \<Rightarrow> ((index_error + nat \<times> string option) \<times> 'd indexer) option" where
  "index_pages E lead rpc endLedger n from latest latestHash s =
     (if \<not> lead n then Some (Inl Leadership_lost, s)
      else case rpc from of
             None \<Rightarrow> Some (Inl Rpc_failed, s)
           | Some p \<Rightarrow>
               let latest' = (case rp_latest p of Some l \<Rightarrow> l | None \<Rightarrow> latest);
                   hash' = (case rp_hash p of Some h \<Rightarrow> Some h | None \<Rightarrow> latestHash);
                   s' = record_hash endLedger p (index_page E (rp_events p) s)
               in (case next_cursor endLedger p of
                     None \<Rightarrow> Some (Inr (latest', hash'), s')
                   | Some c \<Rightarrow> index_pages E lead rpc endLedger (Suc n) (Inr c) latest' hash' s'))"

definition indexLedger ::
  "('x, 'd) ingest_env \<Rightarrow> (nat \<Rightarrow> bool) \<Rightarrow> (nat + 'c \<Rightarrow> ('x, 'c) rpc_page option) \<Rightarrow> nat option \<Rightarrow> nat \<Rightarrow> 'd indexer
     \<Rightarrow> ((index_error + nat \<times> string option) \<times> 'd indexer) option" where
  "indexLedger E lead rpc endLedger ledger s = index_pages E lead rpc endLedger 0 (Inl ledger) ledger None s"

subsection \<open>One poll of the daemon\<close>

record daemon =
  dm_cursor :: nat
  dm_saved :: nat
  dm_since_check :: nat

text \<open>
  What the polling loop meets after the pages: whether it still leads, the answer of the fast reorganisation check (\<open>None\<close>: no fork, or
  it failed) and of the periodic one (\<open>None\<close>: it throws), whether it leads after that, and whether the cursor can be saved. An error leaves
  the rest of the round out.
\<close>

record poll_answers =
  pa_leads :: bool
  pa_fork :: "nat option"
  pa_fork_later :: "nat option option"
  pa_leads_late :: bool
  pa_save :: bool

definition advance_cursor :: "bool \<Rightarrow> nat \<Rightarrow> daemon \<Rightarrow> daemon" where
  "advance_cursor save latest d =
     (let d1 = d\<lparr>dm_cursor := latest + 1\<rparr> in if save then d1\<lparr>dm_saved := latest + 1\<rparr> else d1)"

definition pollOnce ::
  "nat \<Rightarrow> ('x, 'd) ingest_env \<Rightarrow> (nat \<Rightarrow> bool) \<Rightarrow> (nat + 'c \<Rightarrow> ('x, 'c) rpc_page option) \<Rightarrow> poll_answers
     \<Rightarrow> daemon \<Rightarrow> 'd indexer \<Rightarrow> (daemon \<times> 'd indexer) option" where
  "pollOnce interval E lead rpc A d s =
     (case indexLedger E lead rpc None (dm_cursor d) s of
        None \<Rightarrow> None
      | Some (Inl _, s') \<Rightarrow> Some (d, s')
      | Some (Inr (latest, hash), s') \<Rightarrow> Some
          (if \<not> pa_leads A then d
           else case pa_fork A of
                  Some f \<Rightarrow> d\<lparr>dm_cursor := f\<rparr>
                | None \<Rightarrow>
                    let since = dm_since_check d + nat (max 1 (int latest - int (dm_cursor d) + 1));
                        d1 = d\<lparr>dm_since_check := since\<rparr>
                    in if since < interval then advance_cursor (pa_save A) latest d1
                       else (case pa_fork_later A of
                               None \<Rightarrow> d1
                             | Some f \<Rightarrow>
                                 if \<not> pa_leads_late A then d1
                                 else let d2 = d1\<lparr>dm_since_check := 0\<rparr>
                                      in (case f of Some l \<Rightarrow> d2\<lparr>dm_cursor := l\<rparr>
                                                  | None \<Rightarrow> advance_cursor (pa_save A) latest d2)), s'))"

subsection \<open>Batches of a page\<close>

lemma ingest_cfg_simps [simp]: "concurrency ingest_cfg = 4" "batchSize ingest_cfg = 64" "maxQueue ingest_cfg = 2000"
  by (simp_all add: ingest_cfg_def)

lemma ingest_cfg_sound: "pipe_sound ingest_cfg"
  by (simp add: pipe_sound_def)





lemma schedule_one_batch:
  assumes "items \<noteq> []" "length items \<le> 64" "c < 4"
  shows "schedule ingest_cfg is_async \<lparr>pq_queue = items, pq_active = c, pq_drains = ds\<rparr> =
    (True, [items], \<lparr>pq_queue = [], pq_active = c + 1, pq_drains = ds\<rparr>)"
  using assms by (subst schedule.simps) (simp add: Let_def schedule.simps [of _ _ "\<lparr>pq_queue = [], pq_active = _, pq_drains = _\<rparr>"])

text \<open>A page of at most 64 events is one batch.\<close>

lemma page_batches_small: "items \<noteq> [] \<Longrightarrow> length items \<le> 64 \<Longrightarrow> page_batches items = [items]"
proof -
  assume a: "items \<noteq> []" "length items \<le> 64"
  let ?w = "page_world items"
  have "pipe_enqueue ingest_cfg is_async items createIngestPipeline =
      (Some \<lparr>a_accepted = length items, a_dropped = 0\<rparr>, [items], \<lparr>pq_queue = [], pq_active = 1, pq_drains = []\<rparr>)"
    using a schedule_one_batch [OF a, of 0 "[]"]
    by (simp add: pipe_enqueue_async [OF ingest_cfg_sound] createIngestPipeline_def)
  then have "w_started ?w = [items]" "w_running ?w = [items]" "pipe_left ?w = 1" "w_pipe ?w = \<lparr>pq_queue = [], pq_active = 1, pq_drains = []\<rparr>"
    by (simp_all add: page_world_def fresh_world_def pipe_left_def)
  moreover from this have "settled_world ingest_cfg True 0 ?w = ?w\<lparr>w_pipe := \<lparr>pq_queue = [], pq_active = 0, pq_drains = []\<rparr>, w_running := []\<rparr>"
    by (simp add: settled_world_def settle_async [OF ingest_cfg_sound] notifyDrain_def schedule.simps)
  ultimately show ?thesis by (simp add: page_batches_def Let_def)
qed

subsection \<open>What a batch does to the table\<close>

definition row_keys :: "'d indexer \<Rightarrow> (string \<times> nat \<times> string) set" where
  "row_keys s = event_key ` set (ix_events s)"



text \<open>Rows are only added, and what is added is among \<open>F\<close>.\<close>

definition stored_from :: "'d decoded_event set \<Rightarrow> 'd indexer \<Rightarrow> 'd indexer \<Rightarrow> bool" where
  "stored_from F s s' \<longleftrightarrow> set (ix_events s) \<subseteq> set (ix_events s') \<and> set (ix_events s') \<subseteq> set (ix_events s) \<union> F"

lemma stored_from_refl [simp]: "stored_from F s s"
  by (auto simp: stored_from_def)



lemma fan_out_events [simp]: "ix_events (snd (fan_out publishes es s)) = ix_events s"
  by (induction publishes es s rule: fan_out.induct) (auto simp: Let_def)


lemma those_failing: "x \<in> set xs \<Longrightarrow> f x = None \<Longrightarrow> those (map f xs) = None"
  by (induction xs) (auto split: option.split)






text \<open>One event that cannot be decoded, and the batch has no effect.\<close>

lemma poisoned_batch: "e \<in> set batch \<Longrightarrow> env_decode E e = None \<Longrightarrow> processEventBatch E batch s = (False, s)"
  using those_failing [of e batch "env_decode E"] by (auto simp: processEventBatch_def)




lemma record_hash_events [simp]:
  "ix_events (record_hash e p s) = ix_events s" "ix_webhooks (record_hash e p s) = ix_webhooks s"
  "ix_published (record_hash e p s) = ix_published s" "row_keys (record_hash e p s) = row_keys s"
  "stored_from F t (record_hash e p s) = stored_from F t s"
  by (auto simp: record_hash_def row_keys_def stored_from_def split: option.splits)

subsection \<open>The page loop\<close>


lemma index_pages_step:
  assumes "\<And>n. lead n" "rpc from = Some p" "rp_latest p = Some latest"
  shows "index_pages E lead rpc None n from l h s =
    (let h' = (case rp_hash p of Some h' \<Rightarrow> Some h' | None \<Rightarrow> h); s' = record_hash None p (index_page E (rp_events p) s)
     in if length (rp_events p) = PAGE_LIMIT
        then (case rp_cursor p of None \<Rightarrow> Some (Inr (latest, h'), s')
              | Some c \<Rightarrow> index_pages E lead rpc None (Suc n) (Inr c) latest h' s')
        else Some (Inr (latest, h'), s'))"
  using assms by (subst index_pages.simps) (simp add: next_cursor_def Let_def split: option.split)


subsection \<open>Properties\<close>


definition example_env :: "(string, string) ingest_env" where
  "example_env = \<lparr>env_decode = (\<lambda>e. if re_body e = ''bad'' then None
       else Some \<lparr>dv_contract = re_contract e, dv_ledger = re_ledger e, dv_tx = re_tx e, dv_rest = re_body e\<rparr>),
     env_sanitize = id, env_insert = (\<lambda>_. True), env_publish = (\<lambda>_. True)\<rparr>"

definition example_raw :: "string \<Rightarrow> string \<Rightarrow> string raw_event" where
  "example_raw c b = \<lparr>re_contract = c, re_ledger = 7, re_tx = ''t'', re_body = b\<rparr>"

definition example_rpc :: "string raw_event list \<Rightarrow> nat + unit \<Rightarrow> (string, unit) rpc_page option" where
  "example_rpc es from = Some \<lparr>rp_events = es, rp_cursor = Some (), rp_latest = Some 9, rp_hash = None\<rparr>"

definition empty_indexer :: "string indexer" where
  "empty_indexer = \<lparr>ix_events = [], ix_webhooks = [], ix_published = [], ix_hashes = []\<rparr>"

definition calm :: poll_answers where
  "calm = \<lparr>pa_leads = True, pa_fork = None, pa_fork_later = Some None, pa_leads_late = True, pa_save = True\<rparr>"





text \<open>
  One event that cannot be decoded loses the whole batch it came with: the poll succeeds, nothing of the batch is stored, published or
  sent to the dead letter queue, and the cursor moves behind the ledgers of all of them, so that no later poll asks for them
  again.
\<close>

lemma undecodable_event_loses_batch:
  assumes "rpc (Inl (dm_cursor d)) = Some \<lparr>rp_events = es, rp_cursor = c, rp_latest = Some latest, rp_hash = hash\<rparr>"
    and "length es \<le> 64" "e \<in> set es" "env_decode E e = None" "\<forall>n. lead n"
    and "pa_leads A" "pa_fork A = None" "pa_fork_later A = Some None" "pa_leads_late A" "pa_save A"
  shows "\<exists>d' s'. pollOnce interval E lead rpc A d s = Some (d', s') \<and> dm_cursor d' = latest + 1 \<and> dm_saved d' = latest + 1 \<and>
    ix_events s' = ix_events s \<and> ix_webhooks s' = ix_webhooks s \<and> ix_published s' = ix_published s"
proof -
  have "page_batches es = [es]" using assms(2,3) by (intro page_batches_small) auto
  then have page: "index_page E es s = s" by (simp add: index_page_def poisoned_batch [OF assms(3,4)])
  have "length es \<noteq> PAGE_LIMIT" using assms(2) by (simp add: PAGE_LIMIT_def)
  then obtain h' where "indexLedger E lead rpc None (dm_cursor d) s = Some (Inr (latest, h'),
      record_hash None \<lparr>rp_events = es, rp_cursor = c, rp_latest = Some latest, rp_hash = hash\<rparr> s)"
    using index_pages_step [of lead rpc "Inl (dm_cursor d)" _ latest E 0 "dm_cursor d" None s, OF _ assms(1)] assms(5)
    by (auto simp: indexLedger_def page Let_def)
  then show ?thesis using assms(6-10) by (auto simp: pollOnce_def Let_def advance_cursor_def)
qed

lemma undecodable_event_loses_batch_witness:
  "\<exists>d' s'. pollOnce 100 example_env (\<lambda>_. True) (example_rpc [example_raw ''A'' ''good'', example_raw ''B'' ''bad'']) calm
      \<lparr>dm_cursor = 5, dm_saved = 5, dm_since_check = 0\<rparr> empty_indexer = Some (d', s') \<and> dm_cursor d' = 10 \<and> ix_events s' = []"
  using undecodable_event_loses_batch [where rpc = "example_rpc [example_raw ''A'' ''good'', example_raw ''B'' ''bad'']" and E = example_env
      and d = "\<lparr>dm_cursor = 5, dm_saved = 5, dm_since_check = 0\<rparr>" and es = "[example_raw ''A'' ''good'', example_raw ''B'' ''bad'']"
      and c = "Some ()" and latest = 9 and hash = None and e = "example_raw ''B'' ''bad''" and lead = "\<lambda>_. True" and A = calm
      and interval = 100 and s = empty_indexer]
  by (auto simp: example_rpc_def example_env_def example_raw_def calm_def empty_indexer_def)

text \<open>
  Of several events of one contract in one transaction the table keeps the first: the insert takes the others for duplicates.
\<close>

lemma sibling_rows_dropped:
  assumes "event_key e = event_key e'"
  shows "foldl insert_event rows [e, e'] = foldl insert_event rows [e]"
  using assms by (simp add: insert_event_def)

end
