(* ===== verification/Safe_Http.thy ===== *)
theory Safe_Http
  imports Ip_Rules Js_Number
begin

section \<open>The hardened HTTP client (indexer/src/safeHttp.js)\<close>

text \<open>
  Address texts are classified as \<open>net.isIP\<close> does and read as numbers, \<open>net.BlockList\<close> is membership in a subnet.
  Address texts with a zone identifier (a percent sign) are left out: neither a URL nor a DNS answer for a global host
  carries one, and \<open>isIP\<close> is 0 for them here. The URL parser, the resolver and the servers are parameters.
  Shown: an address that is not blocked is outside every denied subnet in every embedding the code knows, every request
  goes to a validated address whatever the resolver and the servers answer, and the IPv4-translated form slips through.
\<close>

subsection \<open>Address texts\<close>

definition octet_ok :: "string \<Rightarrow> bool" where
  "octet_ok s = (s \<noteq> [] \<and> all_digits s \<and> length s \<le> 3 \<and> (hd s = CHR ''0'' \<longrightarrow> length s = 1) \<and> undec s < 256)"

definition ipv4_octets :: "string \<Rightarrow> nat list option" where
  "ipv4_octets s =
     (let ps = split_on CHR ''.'' s in if length ps = 4 \<and> list_all octet_ok ps then Some (map undec ps) else None)"

definition hex_val :: "char \<Rightarrow> nat option" where
  "hex_val c =
     (let n = (of_char c :: nat) in
      if is_digit c then Some (digit_val c)
      else if 97 \<le> n \<and> n \<le> 102 then Some (n - 87)
      else if 65 \<le> n \<and> n \<le> 70 then Some (n - 55) else None)"

definition unhex :: "string \<Rightarrow> nat" where
  "unhex s = foldl (\<lambda>a c. a * 16 + (case hex_val c of Some d \<Rightarrow> d | None \<Rightarrow> 0)) 0 s"

definition hex_group :: "string \<Rightarrow> bool" where
  "hex_group s = (s \<noteq> [] \<and> length s \<le> 4 \<and> list_all (\<lambda>c. hex_val c \<noteq> None) s)"

text \<open>Colon-separated groups; the last one may be a dotted quad, which counts as two.\<close>

fun groups_of :: "string list \<Rightarrow> nat list option" where
  "groups_of [] = Some []"
| "groups_of [g] =
     (if hex_group g then Some [unhex g]
      else (case ipv4_octets g of
              Some [a, b, c, d] \<Rightarrow> Some [a * 256 + b, c * 256 + d]
            | _ \<Rightarrow> None))"
| "groups_of (g # gs) = (if hex_group g then map_option ((#) (unhex g)) (groups_of gs) else None)"

text \<open>The parts before and after the first double colon.\<close>

fun split_dcolon :: "string \<Rightarrow> (string \<times> string) option" where
  "split_dcolon (c # d # s) =
     (if c = CHR '':'' \<and> d = CHR '':'' then Some ([], s)
      else map_option (\<lambda>(h, t). (c # h, t)) (split_dcolon (d # s)))"
| "split_dcolon _ = None"

definition parts_of :: "string \<Rightarrow> string list" where
  "parts_of s = (if s = [] then [] else split_on CHR '':'' s)"

definition ipv6_groups :: "string \<Rightarrow> nat list option" where
  "ipv6_groups s =
     (case split_dcolon s of
        None \<Rightarrow> (case groups_of (parts_of s) of Some gs \<Rightarrow> if length gs = 8 then Some gs else None | None \<Rightarrow> None)
      | Some (h, t) \<Rightarrow>
          if CHR ''.'' \<in> set h then None
          else (case (groups_of (parts_of h), groups_of (parts_of t)) of
                  (Some hs, Some ts) \<Rightarrow>
                    if length hs + length ts \<le> 7 then Some (hs @ replicate (8 - length hs - length ts) 0 @ ts) else None
                | _ \<Rightarrow> None))"

definition isIP :: "string \<Rightarrow> nat" where
  "isIP s = (if ipv4_octets s \<noteq> None then 4 else if ipv6_groups s \<noteq> None then 6 else 0)"

subsection \<open>The deny list\<close>

definition v4_value :: "nat list \<Rightarrow> nat" where
  "v4_value os = foldl (\<lambda>a x. a * 256 + x) 0 os"

definition v6_value :: "nat list \<Rightarrow> nat" where
  "v6_value gs = foldl (\<lambda>a x. a * 65536 + x) 0 gs"

definition DENY_V4 :: "(nat list \<times> nat) list" where
  "DENY_V4 =
     [([0, 0, 0, 0], 8), ([10, 0, 0, 0], 8), ([100, 64, 0, 0], 10), ([127, 0, 0, 0], 8), ([169, 254, 0, 0], 16),
      ([172, 16, 0, 0], 12), ([192, 0, 0, 0], 24), ([192, 0, 2, 0], 24), ([192, 88, 99, 0], 24), ([192, 168, 0, 0], 16),
      ([198, 18, 0, 0], 15), ([198, 51, 100, 0], 24), ([203, 0, 113, 0], 24), ([224, 0, 0, 0], 4), ([240, 0, 0, 0], 4)]"

definition DENY_V6 :: "(nat list \<times> nat) list" where
  "DENY_V6 =
     [([0, 0, 0, 0, 0, 0, 0, 0], 128), ([0, 0, 0, 0, 0, 0, 0, 1], 128), ([0, 0, 0, 0, 0, 0, 0, 0], 96),
      ([0x100, 0, 0, 0, 0, 0, 0, 0], 64), ([0x2001, 0xdb8, 0, 0, 0, 0, 0, 0], 32), ([0xfc00, 0, 0, 0, 0, 0, 0, 0], 7),
      ([0xfe80, 0, 0, 0, 0, 0, 0, 0], 10), ([0xfec0, 0, 0, 0, 0, 0, 0, 0], 10), ([0xff00, 0, 0, 0, 0, 0, 0, 0], 8)]"

text \<open>\<open>BlockList.check\<close> of an address of its own family.\<close>

definition denied_v4 :: "nat list \<Rightarrow> bool" where
  "denied_v4 os = list_ex (\<lambda>(n, p). v4_value os div 2 ^ (32 - p) = v4_value n div 2 ^ (32 - p)) DENY_V4"

definition denied_v6 :: "nat list \<Rightarrow> bool" where
  "denied_v6 gs = list_ex (\<lambda>(n, p). v6_value gs div 2 ^ (128 - p) = v6_value n div 2 ^ (128 - p)) DENY_V6"

text \<open>\<open>groupsToIPv4(hi, lo)\<close>, as octets.\<close>

definition groupsToIPv4 :: "nat \<Rightarrow> nat \<Rightarrow> nat list" where
  "groupsToIPv4 hi lo = [hi div 256, hi mod 256, lo div 256, lo mod 256]"

subsection \<open>ipv6Groups\<close>

fun hex_text :: "nat \<Rightarrow> string" where
  "hex_text n = (if n < 16 then [''0123456789abcdef'' ! n] else hex_text (n div 16) @ [''0123456789abcdef'' ! (n mod 16)])"

declare hex_text.simps [simp del]

text \<open>\<open>parseInt(g, 16)\<close> of a text without prefix, sign or blanks.\<close>

definition parse_hex :: "string \<Rightarrow> nat option" where
  "parse_hex g = (let d = takeWhile (\<lambda>c. hex_val c \<noteq> None) g in if d = [] then None else Some (unhex d))"

definition tail_of :: "string \<Rightarrow> string" where
  "tail_of s = rev (takeWhile (\<lambda>c. c \<noteq> CHR '':'') (rev s))"

text \<open>The two groups that replace a dotted quad at the end of an IPv6 text.\<close>

definition two_groups :: "string \<Rightarrow> string option" where
  "two_groups q =
     (case split_on CHR ''.'' q of
        [a, b, c, d] \<Rightarrow>
          if list_all (\<lambda>p. p \<noteq> [] \<and> all_digits p) [a, b, c, d]
          then Some (hex_text (undec a * 256 + undec b) @ '':'' @ hex_text (undec c * 256 + undec d)) else None
      | _ \<Rightarrow> None)"

definition expand_v4 :: "string \<Rightarrow> string" where
  "expand_v4 s = (case two_groups (tail_of s) of Some t \<Rightarrow> take (length s - length (tail_of s)) s @ t | None \<Rightarrow> s)"

definition ipv6Groups :: "string \<Rightarrow> nat option list" where
  "ipv6Groups ip =
     (let s = expand_v4 (lower ip) in
      case split_dcolon s of
        None \<Rightarrow> map parse_hex (parts_of s)
      | Some (head, rest) \<Rightarrow>
          let h = parts_of head;
              t = parts_of (case split_dcolon rest of Some (a, _) \<Rightarrow> a | None \<Rightarrow> rest)
          in map parse_hex (h @ replicate (8 - length h - length t) ''0'' @ t))"

text \<open>
  \<open>isBlockedAddress\<close>. The condition for the IPv4-translated form stands under a test that the first five groups are zero,
  as in the source.
\<close>

definition isBlockedAddress :: "string \<Rightarrow> bool" where
  "isBlockedAddress ip =
     (if isIP ip = 4 then denied_v4 (the (ipv4_octets ip))
      else if isIP ip \<noteq> 6 then True
      else let gs = ipv6Groups ip in
        if length gs \<noteq> 8 \<or> None \<in> set gs then True
        else let g = (\<lambda>i. the (gs ! i)) in
          if list_all (\<lambda>i. g i = 0) [0..<5] \<and> (g 5 = 0xffff \<or> (g 4 = 0xffff \<and> g 5 = 0))
          then denied_v4 (groupsToIPv4 (g 6) (g 7))
          else if g 0 = 0x64 \<and> g 1 = 0xff9b \<and> list_all (\<lambda>i. g i = 0) [2..<6] then denied_v4 (groupsToIPv4 (g 6) (g 7))
          else if g 0 = 0x2002 then denied_v4 (groupsToIPv4 (g 1) (g 2))
          else if g 0 = 0x2001 \<and> g 1 = 0 then denied_v4 (groupsToIPv4 (g 6 XOR 0xffff) (g 7 XOR 0xffff))
          else denied_v6 (the (ipv6_groups ip)))"

subsection \<open>The parser agrees with the classifier\<close>

lemma hex_val_hex [simp]: "n < 16 \<Longrightarrow> hex_val (''0123456789abcdef'' ! n) = Some n"
proof -
  assume "n < 16"
  then have "n \<in> set [0..<16]" by simp
  moreover have "list_all (\<lambda>n. hex_val (''0123456789abcdef'' ! n) = Some n) [0..<16]" by code_simp
  ultimately show ?thesis by (simp only: list_all_iff)
qed

lemma unhex_append: "unhex (s @ t) = foldl (\<lambda>a c. a * 16 + (case hex_val c of Some d \<Rightarrow> d | None \<Rightarrow> 0)) (unhex s) t"
  by (simp add: unhex_def)

lemma unhex_hex_text [simp]: "unhex (hex_text n) = n"
proof (induction n rule: hex_text.induct)
  case (1 n)
  show ?case
  proof (cases "n < 16")
    case True
    then show ?thesis by (subst hex_text.simps) (simp add: unhex_def)
  next
    case False
    with 1 show ?thesis by (subst hex_text.simps) (simp add: unhex_append)
  qed
qed

lemma hex_text_chars: "hex_text n \<noteq> [] \<and> (\<forall>c \<in> set (hex_text n). hex_val c \<noteq> None)"
proof (induction n rule: hex_text.induct)
  case (1 n)
  then show ?case by (subst hex_text.simps, subst (2) hex_text.simps) auto
qed

lemma parse_hex_all: "s \<noteq> [] \<Longrightarrow> \<forall>c \<in> set s. hex_val c \<noteq> None \<Longrightarrow> parse_hex s = Some (unhex s)"
  unfolding parse_hex_def Let_def by (subst (1 2) takeWhile_eq_all_conv [THEN iffD2]) auto

lemma parse_hex_text [simp]: "parse_hex (hex_text n) = Some n"
  using hex_text_chars [of n] by (simp add: parse_hex_all)

lemma parse_hex_group: "hex_group g \<Longrightarrow> parse_hex g = Some (unhex g)"
  by (simp add: hex_group_def parse_hex_all list_all_iff)

lemma hex_no_colon: "hex_val CHR '':'' = None"
  by (simp add: hex_val_def is_digit_def)

lemma hex_text_no_colon [simp]: "CHR '':'' \<notin> set (hex_text n)"
  using hex_text_chars [of n] hex_no_colon by auto

lemma split_on_snoc: "split_on c (x @ c # y) = split_on c x @ split_on c y"
proof (induction x)
  case (Cons a x)
  obtain b bs where "split_on c x = b # bs" using split_on_nonempty [of c x] by (cases "split_on c x") auto
  with Cons show ?case by auto
qed simp

lemma tail_of_free: "CHR '':'' \<notin> set s \<Longrightarrow> tail_of s = s"
proof -
  assume "CHR '':'' \<notin> set s"
  then have "\<forall>c \<in> set (rev s). c \<noteq> CHR '':''" by auto
  then have "takeWhile (\<lambda>c. c \<noteq> CHR '':'') (rev s) = rev s" by (simp only: takeWhile_eq_all_conv)
  then show ?thesis by (simp only: tail_of_def rev_rev_ident)
qed

lemma tail_of_append: "tail_of (x @ CHR '':'' # y) = tail_of y"
proof (cases "CHR '':'' \<in> set y")
  case True
  then have "CHR '':'' \<in> set (rev y)" by simp
  then have "takeWhile (\<lambda>c. c \<noteq> CHR '':'') (rev y @ CHR '':'' # rev x) = takeWhile (\<lambda>c. c \<noteq> CHR '':'') (rev y)"
    by (rule takeWhile_append1) simp
  then show ?thesis unfolding tail_of_def by simp
next
  case False
  then have "takeWhile (\<lambda>c. c \<noteq> CHR '':'') (rev y @ CHR '':'' # rev x) = rev y"
    by (subst takeWhile_append2) auto
  then show ?thesis unfolding tail_of_free [OF False] unfolding tail_of_def by simp
qed

text \<open>A text is its tail, or something and a colon before its tail.\<close>

lemma tail_of_cases:
  obtains "CHR '':'' \<notin> set s" "tail_of s = s" | x where "s = x @ CHR '':'' # tail_of s" "CHR '':'' \<notin> set (tail_of s)"
proof (cases "CHR '':'' \<in> set s")
  case True
  then obtain x y where "s = x @ CHR '':'' # y" "CHR '':'' \<notin> set y" by (metis split_list_last)
  then show ?thesis using that(2) [of x] by (simp add: tail_of_append tail_of_free)
next
  case False
  with that(1) show ?thesis by (simp add: tail_of_free)
qed

lemma expand_v4_append: "expand_v4 (x @ CHR '':'' # y) = x @ CHR '':'' # expand_v4 y"
proof -
  have "length (tail_of y) \<le> length y"
    unfolding tail_of_def by (metis length_rev length_takeWhile_le)
  then show ?thesis by (simp add: expand_v4_def tail_of_append Suc_diff_le split: option.split)
qed

lemma split_dcolon_spec: "split_dcolon s = Some (h, t) \<Longrightarrow> s = h @ CHR '':'' # CHR '':'' # t"
  by (induction s arbitrary: h rule: split_dcolon.induct) (auto split: if_splits)

lemma split_dcolon_other: "split_dcolon (h @ CHR '':'' # CHR '':'' # t) = Some (h, t) \<Longrightarrow>
    split_dcolon (h @ CHR '':'' # CHR '':'' # t') = Some (h, t')"
proof (induction h)
  case (Cons c h)
  then show ?case by (cases h) (auto split: if_splits)
qed simp

lemma groups_parts:
  "groups_of (xs @ [q]) = Some gs \<Longrightarrow>
     list_all hex_group xs \<and>
     (hex_group q \<and> gs = map unhex (xs @ [q]) \<or>
      \<not> hex_group q \<and> (\<exists>a b c d. ipv4_octets q = Some [a, b, c, d] \<and> gs = map unhex xs @ [a * 256 + b, c * 256 + d]))"
proof (induction xs arbitrary: gs)
  case Nil
  then show ?case by (auto split: if_splits option.splits list.splits)
next
  case (Cons x xs)
  have step: "groups_of ((x # xs) @ [q]) = (if hex_group x then map_option ((#) (unhex x)) (groups_of (xs @ [q])) else None)"
    by (cases xs) simp_all
  show ?case
  proof (cases "groups_of (xs @ [q])")
    case None
    with Cons.prems step show ?thesis by (auto split: if_splits)
  next
    case (Some gs')
    then have "hex_group x" "gs = unhex x # gs'" using Cons.prems step by (auto split: if_splits)
    with Cons.IH [OF Some] show ?thesis by auto
  qed
qed

lemma two_groups_hex: "hex_group q \<Longrightarrow> two_groups q = None"
proof -
  assume "hex_group q"
  then have "CHR ''.'' \<notin> set q" by (auto simp: hex_group_def list_all_iff hex_val_def is_digit_def)
  then show ?thesis by (simp add: two_groups_def)
qed

lemma two_groups_quad:
  assumes "ipv4_octets q = Some [a, b, c, d]"
  shows "two_groups q = Some (hex_text (a * 256 + b) @ '':'' @ hex_text (c * 256 + d))"
proof -
  from assms obtain ps where ps: "split_on CHR ''.'' q = ps" "length ps = 4" "list_all octet_ok ps" "map undec ps = [a, b, c, d]"
    by (auto simp: ipv4_octets_def Let_def split: if_splits)
  then obtain p1 p2 p3 p4 where "ps = [p1, p2, p3, p4]" by (auto simp: numeral_eq_Suc length_Suc_conv)
  with ps show ?thesis by (simp add: two_groups_def octet_ok_def)
qed

lemma parts_of_colon: "parts_of (x @ CHR '':'' # y) = split_on CHR '':'' x @ split_on CHR '':'' y"
  by (simp add: parts_of_def split_on_snoc)

lemma expand_groups:
  assumes "groups_of (parts_of t) = Some gs"
  shows "map parse_hex (parts_of (expand_v4 t)) = map Some gs"
proof (cases "t = []")
  case True
  with assms show ?thesis by (simp add: parts_of_def expand_v4_def two_groups_def tail_of_def)
next
  case False
  define q where "q = tail_of t"
  obtain xs where parts: "parts_of t = xs @ [q]" and ends: "parts_of (expand_v4 t) =
      xs @ (case two_groups q of Some u \<Rightarrow> split_on CHR '':'' u | None \<Rightarrow> [q])"
  proof (cases rule: tail_of_cases [of t])
    case 1
    then have "two_groups t \<noteq> Some []" by (auto simp: two_groups_def split: list.splits if_splits)
    with 1 False show ?thesis
      by (intro that [of "[]"]) (auto simp: parts_of_def q_def expand_v4_def split: option.splits)
  next
    case (2 x)
    then have "t = x @ CHR '':'' # q" "CHR '':'' \<notin> set q" by (simp_all add: q_def)
    moreover have "expand_v4 q = (case two_groups q of Some u \<Rightarrow> u | None \<Rightarrow> q)"
      using \<open>CHR '':'' \<notin> set q\<close> by (simp add: expand_v4_def tail_of_free split: option.split)
    ultimately show ?thesis
      by (intro that [of "split_on CHR '':'' x"]) (auto simp: parts_of_colon expand_v4_append split: option.split)
  qed
  from groups_parts [of xs q gs] assms parts have g: "list_all hex_group xs"
    "hex_group q \<and> gs = map unhex (xs @ [q]) \<or>
      \<not> hex_group q \<and> (\<exists>a b c d. ipv4_octets q = Some [a, b, c, d] \<and> gs = map unhex xs @ [a * 256 + b, c * 256 + d])"
    by auto
  have xs: "map parse_hex xs = map (Some \<circ> unhex) xs" using g(1) by (simp add: list_all_iff parse_hex_group)
  from g(2) show ?thesis
  proof (elim disjE conjE exE)
    assume "hex_group q" "gs = map unhex (xs @ [q])"
    with xs ends show ?thesis by (simp add: two_groups_hex parse_hex_group)
  next
    fix a b c d assume "ipv4_octets q = Some [a, b, c, d]" "gs = map unhex xs @ [a * 256 + b, c * 256 + d]"
    with xs ends show ?thesis by (simp add: two_groups_quad split_on_append)
  qed
qed

lemma no_dcolon:
  assumes "[] \<notin> set (parts_of t)"
  shows "split_dcolon t = None"
proof (rule ccontr)
  assume "split_dcolon t \<noteq> None"
  then obtain h u where t: "t = h @ CHR '':'' # CHR '':'' # u" using split_dcolon_spec by fastforce
  then have "[] \<in> set (parts_of t)" using parts_of_colon [of h "CHR '':'' # u"] by simp
  with assms show False by simp
qed

lemma parsed_no_dcolon: "map parse_hex (parts_of t) = map Some gs \<Longrightarrow> split_dcolon t = None"
proof (rule no_dcolon, rule notI)
  assume "map parse_hex (parts_of t) = map Some gs" "[] \<in> set (parts_of t)"
  then have "parse_hex [] \<in> Some ` set gs" by (metis image_eqI list.set_map)
  then show False by (auto simp: parse_hex_def)
qed

lemma ipv6Groups_agrees_lower:
  assumes "ipv6_groups (lower s) = Some gs"
  shows "ipv6Groups s = map Some gs"
proof (cases "split_dcolon (lower s)")
  case None
  with assms have g: "groups_of (parts_of (lower s)) = Some gs" by (auto simp: ipv6_groups_def split: option.splits if_splits)
  from expand_groups [OF g] parsed_no_dcolon [OF expand_groups [OF g]] show ?thesis by (simp add: ipv6Groups_def Let_def)
next
  case (Some ht)
  then obtain h t where ht: "split_dcolon (lower s) = Some (h, t)" by (cases ht) auto
  with assms obtain hs ts where g: "CHR ''.'' \<notin> set h" "groups_of (parts_of h) = Some hs" "groups_of (parts_of t) = Some ts"
    "length hs + length ts \<le> 7" "gs = hs @ replicate (8 - length hs - length ts) 0 @ ts"
    by (auto simp: ipv6_groups_def split: option.splits if_splits)
  from split_dcolon_spec [OF ht] have s: "lower s = (h @ '':'') @ CHR '':'' # t" by simp
  then have e: "expand_v4 (lower s) = h @ CHR '':'' # CHR '':'' # expand_v4 t" using expand_v4_append [of "h @ '':''" t] by simp
  have d: "split_dcolon (expand_v4 (lower s)) = Some (h, expand_v4 t)"
    unfolding e using split_dcolon_other [of h t "expand_v4 t"] ht s by simp
  have t: "map parse_hex (parts_of (expand_v4 t)) = map Some ts" by (rule expand_groups [OF g(3)])
  have "CHR ''.'' \<notin> set (tail_of h)" using g(1) unfolding tail_of_def by (auto dest: set_takeWhileD)
  then have "expand_v4 h = h" by (simp add: expand_v4_def two_groups_def)
  with expand_groups [OF g(2)] have h: "map parse_hex (parts_of h) = map Some hs" by simp
  have len: "length (parts_of h) = length hs" "length (parts_of (expand_v4 t)) = length ts"
    using arg_cong [OF h, of length] arg_cong [OF t, of length] by simp_all
  have zero: "parse_hex ''0'' = Some 0" by code_simp
  show ?thesis
    unfolding ipv6Groups_def Let_def d using parsed_no_dcolon [OF t] h t len zero g(5) by simp
qed

text \<open>Lower case changes neither the groups nor their values.\<close>

lemma hex_val_lower: "hex_val (lower_char c) = hex_val c"
proof (cases "65 \<le> (of_char c :: nat) \<and> (of_char c :: nat) \<le> 90")
  case True
  then have "of_char (char_of ((of_char c :: nat) + 32)) = (of_char c :: nat) + 32" by (simp add: of_char_of)
  with True show ?thesis by (auto simp: hex_val_def lower_char_def is_digit_def Let_def)
qed (auto simp: lower_char_def)

lemma lower_colon: "lower_char c = CHR '':'' \<longleftrightarrow> c = CHR '':''"
proof (cases "65 \<le> (of_char c :: nat) \<and> (of_char c :: nat) \<le> 90")
  case True
  then have "of_char (char_of ((of_char c :: nat) + 32)) = (of_char c :: nat) + 32" by (simp add: of_char_of)
  then have "of_char (char_of ((of_char c :: nat) + 32)) \<noteq> (of_char CHR '':'' :: nat)" using True by simp
  then have "char_of ((of_char c :: nat) + 32) \<noteq> CHR '':''" by metis
  with True show ?thesis by (auto simp: lower_char_def)
qed (auto simp: lower_char_def)

lemma split_on_lower: "split_on CHR '':'' (lower s) = map lower (split_on CHR '':'' s)"
proof (induction s)
  case (Cons c s)
  obtain b bs where "split_on CHR '':'' s = b # bs" using split_on_nonempty [of "CHR '':''" s] by (cases "split_on CHR '':'' s") auto
  with Cons show ?case by (simp add: lower_def lower_colon)
qed (simp add: lower_def)

lemma split_dcolon_lower: "split_dcolon (lower s) = map_option (map_prod lower lower) (split_dcolon s)"
proof (induction s rule: split_dcolon.induct)
  case (1 c d s)
  show ?case
  proof (cases "c = CHR '':'' \<and> d = CHR '':''")
    case True
    then show ?thesis by (simp add: lower_def lower_colon)
  next
    case False
    with 1 show ?thesis
      by (cases "split_dcolon (d # s)") (auto simp: lower_def lower_colon)
  qed
qed (simp_all add: lower_def)

lemma parts_lower: "parts_of (lower s) = map lower (parts_of s)"
  by (simp add: parts_of_def split_on_lower) (simp add: lower_def)

lemma hex_group_lower: "hex_group (lower g) = hex_group g" "unhex (lower g) = unhex g"
  by (simp_all add: hex_group_def unhex_def lower_def list_all_iff hex_val_lower foldl_map)

lemma quad_chars: "ipv4_octets q \<noteq> None \<Longrightarrow> c \<in> set q \<Longrightarrow> is_digit c \<or> c = CHR ''.''"
proof -
  have sub: "set s \<subseteq> insert CHR ''.'' (\<Union> (set ` set (split_on CHR ''.'' s)))" for s
  proof (induction s)
    case (Cons a s)
    obtain b bs where "split_on CHR ''.'' s = b # bs" using split_on_nonempty [of "CHR ''.''" s] by (cases "split_on CHR ''.'' s") auto
    with Cons show ?case by auto
  qed simp
  assume "ipv4_octets q \<noteq> None" "c \<in> set q"
  with sub [of q] show ?thesis
    by (fastforce simp: ipv4_octets_def Let_def list_all_iff octet_ok_def all_digits_def split: if_splits)
qed

lemma lower_quad: "ipv4_octets q \<noteq> None \<Longrightarrow> lower q = q"
proof -
  assume "ipv4_octets q \<noteq> None"
  then have "c \<in> set q \<Longrightarrow> lower_char c = c" for c using quad_chars [of q c] by (auto simp: is_digit_def lower_char_def)
  then show ?thesis unfolding lower_def by (simp add: map_idI)
qed

lemma groups_lower: "groups_of xs = Some gs \<Longrightarrow> groups_of (map lower xs) = Some gs"
proof (induction xs arbitrary: gs rule: groups_of.induct)
  case (2 g)
  then show ?case by (cases "hex_group g") (auto simp: hex_group_lower lower_quad split: option.splits)
next
  case (3 g v va)
  then show ?case by (cases "groups_of (v # va)") (auto simp: hex_group_lower split: if_splits)
qed simp

lemma ipv6_groups_lower: "ipv6_groups s = Some gs \<Longrightarrow> ipv6_groups (lower s) = Some gs"
proof -
  have dot: "CHR ''.'' \<notin> set h \<Longrightarrow> CHR ''.'' \<notin> set (lower h)" for h
  proof -
    have "lower_char c = CHR ''.'' \<Longrightarrow> c = CHR ''.''" for c
    proof (cases "65 \<le> (of_char c :: nat) \<and> (of_char c :: nat) \<le> 90")
      case True
      then have "of_char (lower_char c) = (of_char c :: nat) + 32" by (simp add: lower_char_def of_char_of)
      with True show "lower_char c = CHR ''.'' \<Longrightarrow> c = CHR ''.''" by simp
    qed (auto simp: lower_char_def)
    then show "CHR ''.'' \<notin> set h \<Longrightarrow> CHR ''.'' \<notin> set (lower h)" by (force simp: lower_def)
  qed
  assume s: "ipv6_groups s = Some gs"
  show ?thesis
  proof (cases "split_dcolon s")
    case None
    with s have "groups_of (parts_of s) = Some gs" "length gs = 8"
      by (auto simp: ipv6_groups_def split: option.splits if_splits)
    with None groups_lower show ?thesis by (simp add: ipv6_groups_def split_dcolon_lower parts_lower)
  next
    case (Some ht)
    obtain h t where ht: "ht = (h, t)" by (cases ht)
    with s Some obtain hs ts where g: "CHR ''.'' \<notin> set h" "groups_of (parts_of h) = Some hs" "groups_of (parts_of t) = Some ts"
      "length hs + length ts \<le> 7" "gs = hs @ replicate (8 - length hs - length ts) 0 @ ts"
      by (auto simp: ipv6_groups_def split: option.splits if_splits)
    with Some ht dot [OF g(1)] groups_lower [OF g(2)] groups_lower [OF g(3)] show ?thesis
      by (simp add: ipv6_groups_def split_dcolon_lower parts_lower)
  qed
qed

lemma ipv6Groups_agrees: "ipv6_groups s = Some gs \<Longrightarrow> ipv6Groups s = map Some gs"
  by (rule ipv6Groups_agrees_lower [OF ipv6_groups_lower])

subsection \<open>The forms of an IPv4 address\<close>

lemma dec_no_leading_zero: "hd (dec n) = CHR ''0'' \<Longrightarrow> n = 0"
proof (induction n rule: dec.induct)
  case (1 n)
  show ?case
  proof (cases "n < 10")
    case True
    then have "digit_char n = CHR ''0'' \<Longrightarrow> n = 0" by (metis digit_val_char digit_zero(1))
    with "1.prems" True show ?thesis by (simp add: dec_digit)
  next
    case False
    then have "hd (dec n) = hd (dec (n div 10))" by (simp add: dec_step)
    with "1.prems" "1.IH" [OF False] have "n div 10 = 0" by simp
    with False show ?thesis by simp
  qed
qed

lemma octet_ok_dec: "n < 256 \<Longrightarrow> octet_ok (dec n)"
  using length_dec [of n 3] dec_no_leading_zero [of n] by (auto simp: octet_ok_def dec_digit)

lemma ipv4_octets_quad [simp]: "a < 256 \<Longrightarrow> b < 256 \<Longrightarrow> c < 256 \<Longrightarrow> d < 256 \<Longrightarrow> ipv4_octets (quad a b c d) = Some [a, b, c, d]"
  by (simp add: ipv4_octets_def split_quad octet_ok_dec)

lemma colon_not_quad: "CHR '':'' \<in> set s \<Longrightarrow> ipv4_octets s = None"
  using quad_chars [of s "CHR '':''"] by (cases "ipv4_octets s") (auto simp: is_digit_def)

lemma quad_no_colon [simp]: "CHR '':'' \<notin> set (quad a b c d)"
proof -
  have "CHR '':'' \<notin> set (dec n)" for n by (rule digits_no_char) (simp_all add: is_digit_def)
  then show ?thesis by (simp add: quad_def)
qed

lemma quad_not_hex [simp]: "\<not> hex_group (quad a b c d)"
proof -
  have "hex_val CHR ''.'' = None" by (simp add: hex_val_def is_digit_def)
  then show ?thesis by (auto simp: hex_group_def quad_def)
qed

lemma quad_nonempty [simp]: "quad a b c d \<noteq> []"
  by (simp add: quad_def)

lemma length_hex_text: "n < 16 ^ k \<Longrightarrow> 0 < k \<Longrightarrow> length (hex_text n) \<le> k"
proof (induction n arbitrary: k rule: hex_text.induct)
  case (1 n)
  show ?case
  proof (cases "n < 16")
    case True
    with 1 show ?thesis by (subst hex_text.simps) simp
  next
    case False
    with 1 obtain j where j: "k = Suc j" "0 < j" by (cases k; cases "k - 1") auto
    with 1 have "n div 16 < 16 ^ j" by (simp add: div_less_iff_less_mult mult.commute)
    with 1 False j show ?thesis by (subst hex_text.simps) simp
  qed
qed

lemma hex_group_text [simp]: "n < 65536 \<Longrightarrow> hex_group (hex_text n)"
  using hex_text_chars [of n] length_hex_text [of n 4] by (simp add: hex_group_def list_all_iff)

lemma v6_isIP: "CHR '':'' \<in> set s \<Longrightarrow> ipv6_groups s = Some gs \<Longrightarrow> isIP s = 6"
  by (simp add: isIP_def colon_not_quad)

lemma length_ipv6_groups: "ipv6_groups s = Some gs \<Longrightarrow> length gs = 8"
  by (auto simp: ipv6_groups_def split: option.splits if_splits)

lemma blocked_v6:
  assumes "CHR '':'' \<in> set s" "ipv6_groups s = Some [g0, g1, g2, g3, g4, g5, g6, g7]"
  shows "isBlockedAddress s =
    (if g0 = 0 \<and> g1 = 0 \<and> g2 = 0 \<and> g3 = 0 \<and> g4 = 0 \<and> g5 = 0xffff then denied_v4 (groupsToIPv4 g6 g7)
     else if g0 = 0x64 \<and> g1 = 0xff9b \<and> g2 = 0 \<and> g3 = 0 \<and> g4 = 0 \<and> g5 = 0 then denied_v4 (groupsToIPv4 g6 g7)
     else if g0 = 0x2002 then denied_v4 (groupsToIPv4 g1 g2)
     else if g0 = 0x2001 \<and> g1 = 0 then denied_v4 (groupsToIPv4 (g6 XOR 0xffff) (g7 XOR 0xffff))
     else denied_v6 [g0, g1, g2, g3, g4, g5, g6, g7])"
  using v6_isIP [OF assms] ipv6Groups_agrees [OF assms(2)] assms(2)
  unfolding isBlockedAddress_def Let_def by (simp add: upt_conv_Cons) (cases "g4 = 0"; simp)

lemma hex_words [simp]:
  "hex_group ''ffff''" "unhex ''ffff'' = 65535" "hex_group ''64''" "unhex ''64'' = 0x64" "hex_group ''ff9b''" "unhex ''ff9b'' = 0xff9b"
  "hex_group ''0''" "unhex ''0'' = 0" "hex_group ''2002''" "unhex ''2002'' = 0x2002"
  by (simp_all add: hex_group_def unhex_def hex_val_def is_digit_def digit_val_def Let_def)

lemma groups_of_Cons: "hex_group g \<Longrightarrow> xs \<noteq> [] \<Longrightarrow> groups_of (g # xs) = map_option ((#) (unhex g)) (groups_of xs)"
  by (cases xs) auto

lemma groupsToIPv4_octets:
  "a < 256 \<Longrightarrow> b < 256 \<Longrightarrow> c < 256 \<Longrightarrow> d < 256 \<Longrightarrow> groupsToIPv4 (a * 256 + b) (c * 256 + d) = [a, b, c, d]"
  by (simp add: groupsToIPv4_def)

lemma quad_groups: "a < 256 \<Longrightarrow> b < 256 \<Longrightarrow> c < 256 \<Longrightarrow> d < 256 \<Longrightarrow> groups_of [quad a b c d] = Some [a * 256 + b, c * 256 + d]"
  by simp

lemma mapped_groups:
  "a < 256 \<Longrightarrow> b < 256 \<Longrightarrow> c < 256 \<Longrightarrow> d < 256 \<Longrightarrow> ipv6_groups (''::ffff:'' @ quad a b c d) = Some [0, 0, 0, 0, 0, 0xffff, a * 256 + b, c * 256 + d]"
  using quad_groups [of a b c d] by (simp add: ipv6_groups_def parts_of_def groups_of_Cons replicate_num)

lemma nat64_groups:
  "a < 256 \<Longrightarrow> b < 256 \<Longrightarrow> c < 256 \<Longrightarrow> d < 256 \<Longrightarrow> ipv6_groups (''64:ff9b::'' @ quad a b c d) = Some [0x64, 0xff9b, 0, 0, 0, 0, a * 256 + b, c * 256 + d]"
  using quad_groups [of a b c d] by (simp add: ipv6_groups_def parts_of_def groups_of_Cons replicate_num)

lemma translated_groups:
  "a < 256 \<Longrightarrow> b < 256 \<Longrightarrow> c < 256 \<Longrightarrow> d < 256 \<Longrightarrow> ipv6_groups (''::ffff:0:'' @ quad a b c d) = Some [0, 0, 0, 0, 0xffff, 0, a * 256 + b, c * 256 + d]"
  using quad_groups [of a b c d] by (simp add: ipv6_groups_def parts_of_def groups_of_Cons replicate_num)

lemma translated_hex_groups:
  assumes "a < 256" "b < 256" "c < 256" "d < 256"
  shows "ipv6_groups (''::ffff:0:'' @ hex_text (a * 256 + b) @ '':'' @ hex_text (c * 256 + d)) =
    Some [0, 0, 0, 0, 0xffff, 0, a * 256 + b, c * 256 + d]"
proof -
  have "hex_group (hex_text (a * 256 + b))" "hex_group (hex_text (c * 256 + d))" using assms by simp_all
  then show ?thesis by (simp add: ipv6_groups_def parts_of_def groups_of_Cons replicate_num split_on_append)
qed

lemma sixtofour_groups:
  assumes octets: "a < 256" "b < 256" "c < 256" "d < 256"
  shows "ipv6_groups (''2002:'' @ hex_text (a * 256 + b) @ '':'' @ hex_text (c * 256 + d) @ '':0:0:0:0:0'') =
     Some [0x2002, a * 256 + b, c * 256 + d, 0, 0, 0, 0, 0]"
proof -
  let ?s = "''2002:'' @ hex_text (a * 256 + b) @ '':'' @ hex_text (c * 256 + d) @ '':0:0:0:0:0''"
  have p: "parts_of ?s = [''2002'', hex_text (a * 256 + b), hex_text (c * 256 + d), ''0'', ''0'', ''0'', ''0'', ''0'']"
    by (simp add: parts_of_def split_on_append)
  have ne: "hex_text n \<noteq> []" for n using hex_text_chars by blast
  have "split_dcolon ?s = None" by (rule no_dcolon) (simp only: p, simp add: ne [symmetric])
  moreover have "hex_group (hex_text (a * 256 + b))" "hex_group (hex_text (c * 256 + d))" using octets by simp_all
  ultimately show ?thesis unfolding ipv6_groups_def p by simp
qed

text \<open>
  An address of the IPv4 deny list is refused in every way the client can be given it: as a dotted quad, IPv4-mapped, behind
  the NAT64 prefix and as a 6to4 address; the text that the resolver or the URL parser hands over is read correctly.
\<close>

lemma denied_in_every_form:
  assumes "a < 256" "b < 256" "c < 256" "d < 256" "denied_v4 [a, b, c, d]"
  shows "isBlockedAddress (quad a b c d) \<and> isBlockedAddress (''::ffff:'' @ quad a b c d) \<and>
    isBlockedAddress (''64:ff9b::'' @ quad a b c d) \<and>
    isBlockedAddress (''2002:'' @ hex_text (a * 256 + b) @ '':'' @ hex_text (c * 256 + d) @ '':0:0:0:0:0'')"
proof (intro conjI)
  note octets = assms(1-4)
  show "isBlockedAddress (quad a b c d)" using assms by (simp add: isBlockedAddress_def isIP_def)
  show "isBlockedAddress (''::ffff:'' @ quad a b c d)"
    using assms(5) blocked_v6 [OF _ mapped_groups [OF octets]] groupsToIPv4_octets [OF octets] by simp
  show "isBlockedAddress (''64:ff9b::'' @ quad a b c d)"
    using assms(5) blocked_v6 [OF _ nat64_groups [OF octets]] groupsToIPv4_octets [OF octets] by simp
  show "isBlockedAddress (''2002:'' @ hex_text (a * 256 + b) @ '':'' @ hex_text (c * 256 + d) @ '':0:0:0:0:0'')"
    using assms(5) blocked_v6 [OF _ sixtofour_groups [OF octets]] groupsToIPv4_octets [OF octets] by simp
qed

lemma denied_in_every_form_witness: "isBlockedAddress (''::ffff:'' @ quad 169 254 169 254)"
proof -
  have "denied_v4 [169, 254, 169, 254]" by (simp add: denied_v4_def DENY_V4_def v4_value_def)
  from denied_in_every_form [OF _ _ _ _ this] show ?thesis by simp
qed

text \<open>
  The IPv4-translated form is never refused, whatever IPv4 address it embeds (loopback, private and metadata addresses included):
  the condition that should recognise it requires its fifth group to be 0 and 0xffff at once.
\<close>

lemma translated_form_passes:
  assumes "a < 256" "b < 256" "c < 256" "d < 256"
  shows "\<not> isBlockedAddress (''::ffff:0:'' @ quad a b c d) \<and>
    \<not> isBlockedAddress (''::ffff:0:'' @ hex_text (a * 256 + b) @ '':'' @ hex_text (c * 256 + d))"
proof -
  let ?g = "[0, 0, 0, 0, 0xffff, 0, a * 256 + b, c * 256 + d]" and ?n = "0xffff * 2 ^ 48 + (a * 256 + b) * 65536 + (c * 256 + d)"
  have v: "v6_value ?g = ?n" by (simp add: v6_value_def)
  have bound: "(a * 256 + b) * 65536 + (c * 256 + d) < 2 ^ 32" using assms by simp
  then have "?n < 2 ^ 64" by simp
  then have high: "?n div 2 ^ k = 0" if "64 \<le> k" for k
    using that by (meson div_less le_less_trans less_le_trans one_le_numeral power_increasing)
  have "?n div 2 ^ 32 \<noteq> 0" by (simp add: div_eq_0_iff)
  moreover have "?n \<noteq> 0" "?n \<noteq> 1" by simp_all
  ultimately have "\<not> denied_v6 ?g"
    using high [of 64] high [of 96] high [of 121] high [of 118] high [of 120]
    by (simp add: denied_v6_def DENY_V6_def v) (simp add: v6_value_def)
  then show ?thesis
    using blocked_v6 [OF _ translated_groups [OF assms]] blocked_v6 [OF _ translated_hex_groups [OF assms]] by simp
qed

lemma translated_form_passes_witness: "\<not> isBlockedAddress (''::ffff:0:'' @ quad 127 0 0 1)"
  using translated_form_passes [of 127 0 0 1] by simp

subsection \<open>URLs and DNS answers\<close>

text \<open>What the code reads of a parsed URL, and the URL parser: parsing, and resolving a location against a URL.\<close>

record url =
  u_href :: string
  u_protocol :: string
  u_username :: string
  u_password :: string
  u_hostname :: string

record url_api =
  new_url :: "string \<Rightarrow> url option"
  new_url_at :: "string \<Rightarrow> url \<Rightarrow> string option"

datatype safe_error =
    Invalid_url | Bad_scheme | Has_credentials | No_host | Host_not_allowed | Local_host | Private_address | Not_resolved
  | Too_large | Bad_content_type | Network_error

record safe_opts =
  so_allowHttp :: bool
  so_allowedHosts :: "string list option"
  so_allowPrivate :: bool
  so_method :: string
  so_body :: "string option"
  so_maxBytes :: nat
  so_maxRedirects :: nat
  so_expectContentType :: "string option"

definition ends_with :: "string \<Rightarrow> string \<Rightarrow> bool" where
  "ends_with s t = suffix t s"

definition strip_host :: "string \<Rightarrow> string" where
  "strip_host h =
     (let a = (if h \<noteq> [] \<and> hd h = CHR ''['' then tl h else h);
          b = (if a \<noteq> [] \<and> last a = CHR '']'' then butlast a else a)
      in if b \<noteq> [] \<and> last b = CHR ''.'' then butlast b else b)"

definition parseSafeUrl :: "url_api \<Rightarrow> safe_opts \<Rightarrow> string \<Rightarrow> safe_error + url \<times> string" where
  "parseSafeUrl U opts rawUrl =
     (case new_url U rawUrl of
        None \<Rightarrow> Inl Invalid_url
      | Some u \<Rightarrow>
          if u_protocol u \<noteq> ''https:'' \<and> \<not> (so_allowHttp opts \<and> u_protocol u = ''http:'') then Inl Bad_scheme
          else if u_username u \<noteq> [] \<or> u_password u \<noteq> [] then Inl Has_credentials
          else let host = strip_host (lower (u_hostname u)) in
            if host = [] then Inl No_host
            else if (case so_allowedHosts opts of Some hs \<Rightarrow> host \<notin> set hs | None \<Rightarrow> False) then Inl Host_not_allowed
            else if host = ''localhost'' \<or> ends_with host ''.localhost'' \<or> ends_with host ''.local'' \<or> ends_with host ''.internal''
            then Inl Local_host
            else Inr (u, host))"

text \<open>\<open>answers\<close> is what the resolver returns for the host at this moment; \<open>None\<close> is a failure.\<close>

definition resolveSafe :: "safe_opts \<Rightarrow> (string \<Rightarrow> string list option) \<Rightarrow> string \<Rightarrow> safe_error + string" where
  "resolveSafe opts answers host =
     (if isIP host \<noteq> 0
      then if \<not> so_allowPrivate opts \<and> isBlockedAddress host then Inl Private_address else Inr host
      else case answers host of
             None \<Rightarrow> Inl Not_resolved
           | Some [] \<Rightarrow> Inl Not_resolved
           | Some (a # as) \<Rightarrow>
               if \<not> so_allowPrivate opts \<and> list_ex isBlockedAddress (a # as) then Inl Private_address else Inr a)"

definition assertSafeUrl :: "url_api \<Rightarrow> safe_opts \<Rightarrow> (string \<Rightarrow> string list option) \<Rightarrow> string \<Rightarrow> safe_error + url" where
  "assertSafeUrl U opts answers rawUrl =
     (case parseSafeUrl U opts rawUrl of
        Inl e \<Rightarrow> Inl e
      | Inr (u, host) \<Rightarrow> map_sum id (\<lambda>_. u) (resolveSafe opts answers host))"

subsection \<open>Requests\<close>

text \<open>
  What a server sends back: status, the numeric value of the content-length header, the body's chunks and the two headers the
  client looks at. A connection that fails or is aborted by the time limit is \<open>No_answer\<close>.
\<close>

record server_answer =
  sa_status :: nat
  sa_length :: jsnum
  sa_chunks :: "string list"
  sa_location :: "string option"
  sa_type :: "string option"

datatype net_result = No_answer | Answer server_answer

record response =
  rs_status :: nat
  rs_body :: string
  rs_location :: "string option"
  rs_type :: "string option"

fun read_body :: "nat \<Rightarrow> string \<Rightarrow> string list \<Rightarrow> string option" where
  "read_body maxBytes got [] = Some got"
| "read_body maxBytes got (c # cs) =
     (if length got + length c > maxBytes then None else read_body maxBytes (got @ c) cs)"

definition requestOnce :: "nat \<Rightarrow> net_result \<Rightarrow> safe_error + response" where
  "requestOnce maxBytes r =
     (case r of
        No_answer \<Rightarrow> Inl Network_error
      | Answer a \<Rightarrow>
          if sa_length a \<notin> {PInf, NInf, NaN} \<and> num_less (num_of_nat maxBytes) (sa_length a) then Inl Too_large
          else (case read_body maxBytes [] (sa_chunks a) of
                  None \<Rightarrow> Inl Too_large
                | Some b \<Rightarrow> Inr \<lparr>rs_status = sa_status a, rs_body = b, rs_location = sa_location a, rs_type = sa_type a\<rparr>))"

text \<open>A request as it leaves: the URL, the pinned address, the method and the body.\<close>

record sent =
  s_url :: url
  s_address :: string
  s_method :: string
  s_body :: "string option"

definition truthy_text :: "string option \<Rightarrow> bool" where
  "truthy_text t = (case t of Some s \<Rightarrow> s \<noteq> [] | None \<Rightarrow> False)"

definition type_refused :: "safe_opts \<Rightarrow> response \<Rightarrow> bool" where
  "type_refused opts res =
     (case so_expectContentType opts of
        Some e \<Rightarrow> e \<noteq> [] \<and> 200 \<le> rs_status res \<and> rs_status res < 300 \<and>
                  \<not> sublist e (case rs_type res of Some t \<Rightarrow> t | None \<Rightarrow> [])
      | None \<Rightarrow> False)"

text \<open>
  The loop of \<open>safeFetch\<close>; \<open>left\<close> is \<open>maxRedirects - hop\<close>. \<open>dns hop\<close> and \<open>net hop\<close> are the resolver and the network
  at that moment.
\<close>

fun safe_hops ::
  "url_api \<Rightarrow> safe_opts \<Rightarrow> (nat \<Rightarrow> string \<Rightarrow> string list option) \<Rightarrow> (nat \<Rightarrow> sent \<Rightarrow> net_result) \<Rightarrow>
     nat \<Rightarrow> nat \<Rightarrow> string \<Rightarrow> string \<Rightarrow> string option \<Rightarrow> sent list \<times> (safe_error + response)" where
  "safe_hops U opts dns net hop left current reqMethod reqBody =
     (case parseSafeUrl U opts current of
        Inl e \<Rightarrow> ([], Inl e)
      | Inr (u, host) \<Rightarrow>
          (case resolveSafe opts (dns hop) host of
             Inl e \<Rightarrow> ([], Inl e)
           | Inr pinned \<Rightarrow>
               let s = \<lparr>s_url = u, s_address = pinned, s_method = reqMethod, s_body = reqBody\<rparr> in
               (case requestOnce (so_maxBytes opts) (net hop s) of
                  Inl e \<Rightarrow> ([s], Inl e)
                | Inr res \<Rightarrow>
                    (case left of
                       Suc left' \<Rightarrow>
                         if 300 \<le> rs_status res \<and> rs_status res < 400 \<and> truthy_text (rs_location res) then
                           (case new_url_at U (the (rs_location res)) u of
                              None \<Rightarrow> ([s], Inl Invalid_url)
                            | Some next' \<Rightarrow>
                                let to_get = rs_status res = 303 \<or> (rs_status res \<in> {301, 302} \<and> reqMethod = ''POST'');
                                    (log', out) = safe_hops U opts dns net (Suc hop) left' next'
                                                    (if to_get then ''GET'' else reqMethod) (if to_get then None else reqBody)
                                in (s # log', out))
                         else if type_refused opts res then ([s], Inl Bad_content_type) else ([s], Inr res)
                     | 0 \<Rightarrow> if type_refused opts res then ([s], Inl Bad_content_type) else ([s], Inr res)))))"

declare safe_hops.simps [simp del]

definition safeFetch ::
  "url_api \<Rightarrow> safe_opts \<Rightarrow> (nat \<Rightarrow> string \<Rightarrow> string list option) \<Rightarrow> (nat \<Rightarrow> sent \<Rightarrow> net_result) \<Rightarrow> string \<Rightarrow>
     sent list \<times> (safe_error + response)" where
  "safeFetch U opts dns net rawUrl =
     safe_hops U opts dns net 0 (so_maxRedirects opts) rawUrl (so_method opts) (so_body opts)"

subsection \<open>What leaves the process\<close>

text \<open>A request that may be sent at a hop: an allowed URL whose host, or every address the resolver gave for it, is not blocked.\<close>

definition sent_ok :: "safe_opts \<Rightarrow> (string \<Rightarrow> string list option) \<Rightarrow> sent \<Rightarrow> bool" where
  "sent_ok opts answers s \<longleftrightarrow>
     (u_protocol (s_url s) = ''https:'' \<or> so_allowHttp opts \<and> u_protocol (s_url s) = ''http:'') \<and>
     u_username (s_url s) = [] \<and> u_password (s_url s) = [] \<and>
     (let host = strip_host (lower (u_hostname (s_url s))) in
        host \<noteq> ''localhost'' \<and> \<not> ends_with host ''.local'' \<and> \<not> ends_with host ''.internal'' \<and>
        (case so_allowedHosts opts of Some hs \<Rightarrow> host \<in> set hs | None \<Rightarrow> True) \<and>
        (if isIP host \<noteq> 0 then s_address s = host
         else (\<exists>as. answers host = Some as \<and> as \<noteq> [] \<and> s_address s = hd as \<and>
                    (so_allowPrivate opts \<or> list_all (\<lambda>a. \<not> isBlockedAddress a) as)))) \<and>
     (so_allowPrivate opts \<or> \<not> isBlockedAddress (s_address s))"

lemma pinned_ok:
  assumes "parseSafeUrl U opts current = Inr (u, host)" "resolveSafe opts answers host = Inr pinned"
  shows "sent_ok opts answers \<lparr>s_url = u, s_address = pinned, s_method = m, s_body = b\<rparr>"
proof -
  have p: "u_protocol u = ''https:'' \<or> so_allowHttp opts \<and> u_protocol u = ''http:''" "u_username u = []" "u_password u = []"
    "host = strip_host (lower (u_hostname u))" "host \<noteq> ''localhost''" "\<not> ends_with host ''.local''" "\<not> ends_with host ''.internal''"
    "case so_allowedHosts opts of Some hs \<Rightarrow> host \<in> set hs | None \<Rightarrow> True"
    using assms(1) by (auto simp: parseSafeUrl_def Let_def split: option.splits if_splits)
  have "(if isIP host \<noteq> 0 then pinned = host
         else (\<exists>as. answers host = Some as \<and> as \<noteq> [] \<and> pinned = hd as \<and>
                    (so_allowPrivate opts \<or> list_all (\<lambda>a. \<not> isBlockedAddress a) as))) \<and>
     (so_allowPrivate opts \<or> \<not> isBlockedAddress pinned)"
    using assms(2) by (auto simp: resolveSafe_def list_ex_iff list_all_iff split: option.splits list.splits if_splits)
  with p(1-3,5-8) show ?thesis unfolding sent_ok_def Let_def sent.simps p(4) [symmetric] by blast
qed

lemma read_body_bound: "read_body m got cs = Some b \<Longrightarrow> length got \<le> m \<Longrightarrow> length b \<le> m"
  by (induction m got cs rule: read_body.induct) (auto split: if_splits)

lemma requestOnce_bound: "requestOnce m r = Inr res \<Longrightarrow> length (rs_body res) \<le> m"
  using read_body_bound [of m "[]"] by (auto simp: requestOnce_def split: net_result.splits if_splits option.splits)

lemma safe_hops_sound:
  assumes "safe_hops U opts dns net hop left current m b = (log', out)"
  shows "length log' \<le> Suc left \<and> (\<forall>i < length log'. sent_ok opts (dns (hop + i)) (log' ! i)) \<and>
    (case out of Inr res \<Rightarrow> length (rs_body res) \<le> so_maxBytes opts \<and> log' \<noteq> [] | Inl _ \<Rightarrow> True)"
  using assms
proof (induction left arbitrary: hop current m b log' out)
  case 0
  then show ?case
    by (subst (asm) safe_hops.simps)
      (auto simp: Let_def pinned_ok requestOnce_bound split: sum.splits prod.splits if_splits)
next
  case (Suc left)
  show ?case
  proof (cases "parseSafeUrl U opts current")
    case (Inl e)
    with Suc.prems show ?thesis by (subst (asm) safe_hops.simps) auto
  next
    case p: (Inr uh)
    obtain u host where uh: "uh = (u, host)" by (cases uh)
    show ?thesis
    proof (cases "resolveSafe opts (dns hop) host")
      case (Inl e)
      with Suc.prems p uh show ?thesis by (subst (asm) safe_hops.simps) auto
    next
      case r: (Inr pinned)
      let ?s = "\<lparr>s_url = u, s_address = pinned, s_method = m, s_body = b\<rparr>"
      have s: "sent_ok opts (dns hop) ?s" using pinned_ok [of U opts current u host] p uh r by simp
      show ?thesis
      proof (cases "requestOnce (so_maxBytes opts) (net hop ?s)")
        case (Inl e)
        have "log' = [?s]" "out = Inl e"
          using Suc.prems p uh r Inl unfolding safe_hops.simps [of _ _ _ _ _ "Suc left"] by auto
        with s show ?thesis by simp
      next
        case q: (Inr res)
        show ?thesis
        proof (cases "300 \<le> rs_status res \<and> rs_status res < 400 \<and> truthy_text (rs_location res)")
          case False
          have "safe_hops U opts dns net hop (Suc left) current m b =
              (if type_refused opts res then ([?s], Inl Bad_content_type) else ([?s], Inr res))"
            unfolding safe_hops.simps [of _ _ _ _ _ "Suc left"] by (simp add: p uh r q False Let_def)
          then have "log' = [?s]" "out = Inl Bad_content_type \<or> out = Inr res"
            using Suc.prems by (auto split: if_splits)
          with s requestOnce_bound [OF q] show ?thesis by auto
        next
          case redirect: True
          show ?thesis
          proof (cases "new_url_at U (the (rs_location res)) u")
            case None
            with Suc.prems p uh r q redirect s show ?thesis by (subst (asm) safe_hops.simps) auto
          next
            case (Some next')
            define g where "g = (rs_status res = 303 \<or> (rs_status res \<in> {301, 302} \<and> m = ''POST''))"
            obtain l o' where rest: "safe_hops U opts dns net (Suc hop) left next' (if g then ''GET'' else m) (if g then None else b) = (l, o')"
              by (cases "safe_hops U opts dns net (Suc hop) left next' (if g then ''GET'' else m) (if g then None else b)")
            have "safe_hops U opts dns net hop (Suc left) current m b =
                (case safe_hops U opts dns net (Suc hop) left next' (if g then ''GET'' else m) (if g then None else b) of
                   (l, o') \<Rightarrow> (?s # l, o'))"
              unfolding safe_hops.simps [of _ _ _ _ _ "Suc left"] g_def by (simp add: p uh r q redirect Some Let_def)
            then have "log' = ?s # l" "out = o'" using rest Suc.prems by auto
            moreover have "i < length (?s # l) \<Longrightarrow> sent_ok opts (dns (hop + i)) ((?s # l) ! i)" for i
              using s Suc.IH [OF rest] by (cases i) auto
            ultimately show ?thesis using Suc.IH [OF rest] by (auto split: sum.splits)
          qed
        qed
      qed
    qed
  qed
qed

text \<open>
  C8. Whatever the URL, the resolver (which may answer differently at every hop) and the servers do, each request goes to an
  address that was validated for that hop: the URL has an allowed scheme, host and no credentials, and the pinned address is
  the literal host or the first of the resolver's answers, none of which is blocked unless private addresses
  were allowed; at most one request per allowed redirect and one more are sent, and a response that is returned has at
  most maxBytes bytes.
\<close>

theorem safe_fetch_pins:
  assumes "safeFetch U opts dns net rawUrl = (log', out)"
  shows "length log' \<le> Suc (so_maxRedirects opts) \<and> (\<forall>i < length log'. sent_ok opts (dns i) (log' ! i)) \<and>
    (case out of Inr res \<Rightarrow> length (rs_body res) \<le> so_maxBytes opts | Inl _ \<Rightarrow> True)"
  using safe_hops_sound [OF assms [unfolded safeFetch_def]] by (auto split: sum.splits)

definition plain_opts :: safe_opts where
  "plain_opts = \<lparr>so_allowHttp = False, so_allowedHosts = None, so_allowPrivate = False, so_method = ''GET'', so_body = None,
     so_maxBytes = 10, so_maxRedirects = 1, so_expectContentType = None\<rparr>"

definition one_url :: url_api where
  "one_url = \<lparr>new_url = (\<lambda>s. Some \<lparr>u_href = s, u_protocol = ''https:'', u_username = [], u_password = [], u_hostname = ''a.org''\<rparr>),
              new_url_at = (\<lambda>s u. Some s)\<rparr>"

theorem safe_fetch_pins_witness:
  "length (fst (safeFetch one_url plain_opts (\<lambda>_ _. Some [''8.8.8.8''])
      (\<lambda>_ _. Answer \<lparr>sa_status = 302, sa_length = NaN, sa_chunks = [''x''], sa_location = Some ''b'', sa_type = None\<rparr>) ''u'')) \<le> 2"
proof -
  let ?r = "safeFetch one_url plain_opts (\<lambda>_ _. Some [''8.8.8.8''])
      (\<lambda>_ _. Answer \<lparr>sa_status = 302, sa_length = NaN, sa_chunks = [''x''], sa_location = Some ''b'', sa_type = None\<rparr>) ''u''"
  have two: "Suc (so_maxRedirects plain_opts) = 2" by (simp add: plain_opts_def)
  from safe_fetch_pins [OF surjective_pairing [of ?r]] show ?thesis unfolding two by (rule conjunct1)
qed

end
