(* ===== verification/Json_Text.thy ===== *)
theory Json_Text
  imports Json Js_Number
begin

text \<open>
  A codec for JSON values that is its own inverse, for the witnesses of theorems whose hypotheses speak of
  \<open>JSON.stringify\<close> and \<open>JSON.parse\<close>: each value is a tag letter, and lengths stand before the parts. It is not JavaScript's
  syntax; what the code relies on is the round trip.
\<close>

definition int_code :: "int \<Rightarrow> string" where
  "int_code i = (if i < 0 then CHR ''-'' # dec (nat (- i)) else CHR ''+'' # dec (nat i)) @ '';''"

definition nat_code :: "nat \<Rightarrow> string" where
  "nat_code n = dec n @ '';''"

definition str_code :: "string \<Rightarrow> string" where
  "str_code s = nat_code (length s) @ s"

primrec json_code :: "json \<Rightarrow> string" where
  "json_code JNull = ''n''"
| "json_code (JBool b) = (if b then ''t'' else ''f'')"
| "json_code (JNum x) = CHR ''d'' # int_code (fst (quotient_of x)) @ int_code (snd (quotient_of x))"
| "json_code (JStr s) = CHR ''s'' # str_code s"
| "json_code (JArr xs) = CHR ''a'' # nat_code (length xs) @ concat (map json_code xs)"
| "json_code (JObj ps) = CHR ''o'' # nat_code (length ps) @ concat (map (\<lambda>p. str_code (fst p) @ snd p) (map (map_prod id json_code) ps))"

definition read_nat :: "string \<Rightarrow> nat \<times> string" where
  "read_nat s = (undec (takeWhile is_digit s), tl (dropWhile is_digit s))"

definition read_int :: "string \<Rightarrow> int \<times> string" where
  "read_int s = (case read_nat (tl s) of (n, r) \<Rightarrow> (if hd s = CHR ''-'' then - int n else int n, r))"

definition read_str :: "string \<Rightarrow> string \<times> string" where
  "read_str s = (case read_nat s of (n, r) \<Rightarrow> (take n r, drop n r))"

fun read_many :: "(string \<Rightarrow> ('a \<times> string) option) \<Rightarrow> nat \<Rightarrow> string \<Rightarrow> ('a list \<times> string) option" where
  "read_many f 0 s = Some ([], s)"
| "read_many f (Suc n) s =
     (case f s of
        Some (x, r) \<Rightarrow> map_option (\<lambda>(xs, r'). (x # xs, r')) (read_many f n r)
      | None \<Rightarrow> None)"

primrec read_json :: "nat \<Rightarrow> string \<Rightarrow> (json \<times> string) option" where
  "read_json 0 s = None"
| "read_json (Suc k) s =
     (case s of
        [] \<Rightarrow> None
      | c # r \<Rightarrow>
          if c = CHR ''n'' then Some (JNull, r)
          else if c = CHR ''t'' then Some (JBool True, r)
          else if c = CHR ''f'' then Some (JBool False, r)
          else if c = CHR ''d'' then
            (case read_int r of (p, r1) \<Rightarrow> case read_int r1 of (q, r2) \<Rightarrow> Some (JNum (of_int p / of_int q), r2))
          else if c = CHR ''s'' then (case read_str r of (t, r1) \<Rightarrow> Some (JStr t, r1))
          else if c = CHR ''a'' then
            (case read_nat r of (n, r1) \<Rightarrow> map_option (\<lambda>(xs, r2). (JArr xs, r2)) (read_many (read_json k) n r1))
          else if c = CHR ''o'' then
            (case read_nat r of (n, r1) \<Rightarrow>
               map_option (\<lambda>(ps, r2). (JObj ps, r2))
                 (read_many (\<lambda>u. case read_str u of (key, v) \<Rightarrow> map_option (\<lambda>(x, w). ((key, x), w)) (read_json k v)) n r1))
          else None)"

definition json_uncode :: "string \<Rightarrow> json option" where
  "json_uncode s = (case read_json (length s) s of Some (j, []) \<Rightarrow> Some j | _ \<Rightarrow> None)"

lemma digits_semi: "all_digits d \<Longrightarrow> takeWhile is_digit (d @ CHR '';'' # r) = d \<and> dropWhile is_digit (d @ CHR '';'' # r) = CHR '';'' # r"
  by (induction d) (auto simp: is_digit_def)

lemma read_nat_code [simp]: "read_nat (nat_code n @ r) = (n, r)"
  using digits_semi [OF all_digits_dec, of n r] by (simp add: read_nat_def nat_code_def)

lemma read_int_code [simp]: "read_int (int_code i @ r) = (i, r)"
  using read_nat_code [of _ r] by (simp add: read_int_def int_code_def nat_code_def)

lemma read_str_code [simp]: "read_str (str_code s @ r) = (s, r)"
  by (simp add: read_str_def str_code_def)

lemma read_many_code:
  "(\<And>x r. x \<in> set xs \<Longrightarrow> f (g x @ r) = Some (x, r)) \<Longrightarrow> read_many f (length xs) (concat (map g xs) @ r) = Some (xs, r)"
  by (induction xs) auto

primrec depth :: "json \<Rightarrow> nat" where
  "depth JNull = 1"
| "depth (JBool b) = 1"
| "depth (JNum x) = 1"
| "depth (JStr s) = 1"
| "depth (JArr xs) = Suc (foldr max (map depth xs) 0)"
| "depth (JObj ps) = Suc (foldr max (map snd (map (map_prod id depth) ps)) 0)"

lemma foldr_max_le: "x \<in> set xs \<Longrightarrow> x \<le> foldr max xs (0 :: nat)"
  by (induction xs) (auto simp: max_def)

lemma foldr_max_bound: "(\<And>x. x \<in> set xs \<Longrightarrow> f x \<le> length (g x)) \<Longrightarrow> foldr max (map f xs) 0 \<le> length (concat (map g xs))"
proof (induction xs)
  case (Cons x xs)
  then have "f x \<le> length (g x)" "foldr max (map f xs) 0 \<le> length (concat (map g xs))" by auto
  then show ?case by simp
qed simp

lemma read_json_code: "depth j \<le> k \<Longrightarrow> read_json k (json_code j @ r) = Some (j, r)"
proof (induction j arbitrary: k r)
  case (JNum x)
  have "of_int (fst (quotient_of x)) / of_int (snd (quotient_of x)) = x"
    using quotient_of_div [of x "fst (quotient_of x)" "snd (quotient_of x)"] by simp
  with JNum show ?case by (cases k) simp_all
next
  case (JArr xs)
  then obtain k' where k: "k = Suc k'" "foldr max (map depth xs) 0 \<le> k'" by (cases k) auto
  have "read_many (read_json k') (length xs) (concat (map json_code xs) @ r) = Some (xs, r)"
  proof (rule read_many_code)
    fix x r assume "x \<in> set xs"
    moreover from this have "depth x \<le> k'" using k(2) foldr_max_le [of "depth x" "map depth xs"] by simp
    ultimately show "read_json k' (json_code x @ r) = Some (x, r)" by (rule JArr.IH)
  qed
  with k show ?case by simp
next
  case (JObj ps)
  then obtain k' where k: "k = Suc k'" "foldr max (map (\<lambda>p. snd (map_prod id depth p)) ps) 0 \<le> k'"
    by (cases k) (auto simp: comp_def)
  have "read_many (\<lambda>u. case read_str u of (key, v) \<Rightarrow> map_option (\<lambda>(x, w). ((key, x), w)) (read_json k' v)) (length ps)
      (concat (map (\<lambda>p. str_code (fst p) @ snd (map_prod id json_code p)) ps) @ r) = Some (ps, r)"
  proof (rule read_many_code)
    fix p r assume p: "p \<in> set ps"
    obtain key x where kx: "p = (key, x)" by (cases p)
    have "depth x \<le> k'" using k(2) p kx foldr_max_le [of "depth x" "map (\<lambda>p. snd (map_prod id depth p)) ps"] by force
    then have "read_json k' (json_code x @ r) = Some (x, r)" using JObj.IH [of p x] p kx by simp
    then show "(case read_str ((str_code (fst p) @ snd (map_prod id json_code p)) @ r) of
        (key, v) \<Rightarrow> map_option (\<lambda>(x, w). ((key, x), w)) (read_json k' v)) = Some (p, r)"
      by (simp add: kx)
  qed
  with k show ?case by (simp add: comp_def)
qed (case_tac [!] k; simp)+

lemma depth_code: "depth j \<le> length (json_code j)"
proof (induction j)
  case (JArr xs)
  then show ?case using foldr_max_bound [of xs depth json_code] by simp
next
  case (JObj ps)
  then have "foldr max (map (\<lambda>p. snd (map_prod id depth p)) ps) 0 \<le>
      length (concat (map (\<lambda>p. str_code (fst p) @ snd (map_prod id json_code p)) ps))"
    by (intro foldr_max_bound) (force intro: le_trans)
  then show ?case by (simp add: comp_def)
qed auto

lemma json_uncode_code [simp]: "json_uncode (json_code j) = Some j"
  using read_json_code [of j "length (json_code j)" "[]"] depth_code [of j] by (simp add: json_uncode_def)

end
