(* ===== verification/Cursor_Pages.thy ===== *)
theory Cursor_Pages
  imports Json_Text
begin

section \<open>Opaque cursors and keyset pages (indexer/src/cursor.js)\<close>

text \<open>
  Cursors are base64url texts of a signed JSON object. SHA-256, HMAC, base64url, \<open>JSON.stringify\<close> and \<open>JSON.parse\<close> are
  parameters; what the code relies on is that decoding undoes encoding. The handler's query (a limit of one row more than the page,
  in the direction of the cursor) is modelled with it, so that the pages of a walk can be put together. Shown: the round
  trip, that a decoded cursor carries a payload that was signed, the filter check, and that following next_cursor
  visits every row once.
\<close>

record codec =
  stringify :: "json \<Rightarrow> string"
  json_parse :: "string \<Rightarrow> json option"
  to_b64 :: "string \<Rightarrow> string"
  of_b64 :: "string \<Rightarrow> string"
  hmac_b64 :: "string \<Rightarrow> string \<Rightarrow> string"
  buffer_of :: "json \<Rightarrow> string option"
  sha_hex :: "string \<Rightarrow> string"

datatype cursor_error = Missing_cursor | Malformed_cursor | Bad_structure | Bad_payload | Bad_signature | Filter_mismatch | Type_error

subsection \<open>hashFilters\<close>

definition IGNORED_KEYS :: "string list" where
  "IGNORED_KEYS = [''limit'', ''cursor'', ''after'', ''before'', ''offset'', ''page'', ''count'', ''after_seq'']"

definition filter_kept :: "string \<times> json option \<Rightarrow> bool" where
  "filter_kept kv =
     (case snd kv of None \<Rightarrow> False | Some v \<Rightarrow> v \<noteq> JNull \<and> v \<noteq> JStr [] \<and> fst kv \<notin> set IGNORED_KEYS)"

text \<open>\<open>localeCompare\<close> is the sorting function \<open>sort_entries\<close>; the value of a key is undefined when it is \<open>None\<close>.\<close>

definition normalized_filters ::
  "((string \<times> json option) list \<Rightarrow> (string \<times> json option) list) \<Rightarrow> (string \<times> json option) list \<Rightarrow> (string \<times> json) list" where
  "normalized_filters sort_entries filters =
     fold (\<lambda>(k, v). if filter_kept (k, v) then put_prop k (JStr (text_of (the v))) else id) (sort_entries filters) []"

definition hashFilters ::
  "codec \<Rightarrow> ((string \<times> json option) list \<Rightarrow> (string \<times> json option) list) \<Rightarrow> (string \<times> json option) list \<Rightarrow> string" where
  "hashFilters C sort_entries filters =
     take 16 (sha_hex C (stringify C (JObj (normalized_filters sort_entries filters))))"

subsection \<open>encodeCursor and decodeCursor\<close>

definition sign :: "codec \<Rightarrow> string \<Rightarrow> string \<Rightarrow> string" where
  "sign C data secret = hmac_b64 C secret data"

definition cursor_payload :: "json list \<Rightarrow> string \<Rightarrow> string \<Rightarrow> json" where
  "cursor_payload t filterHash direction =
     JObj [(''v'', JNum 1), (''t'', JArr t), (''fh'', JStr filterHash),
           (''d'', JStr (if direction = ''backward'' then ''b'' else ''f''))]"

definition encodeCursor :: "codec \<Rightarrow> json list \<Rightarrow> string \<Rightarrow> string \<Rightarrow> string \<Rightarrow> string" where
  "encodeCursor C t filterHash secret direction =
     (let payload = cursor_payload t filterHash direction;
          signature = sign C (stringify C payload) secret
      in to_b64 C (stringify C (JObj [(''p'', payload), (''s'', JStr signature)])))"

text \<open>
  \<open>buffer_of\<close> is \<open>Buffer.from\<close> of a JSON value: the characters of a string; other values, which only a forged token has, are byte
  lists or throw a TypeError (\<open>None\<close>), which is no InvalidCursorError.
\<close>

definition decodeCursor :: "codec \<Rightarrow> string \<Rightarrow> string \<Rightarrow> string \<Rightarrow> cursor_error + json list \<times> string" where
  "decodeCursor C cursorStr currentFilterHash secret =
     (if cursorStr = [] then Inl Missing_cursor
      else case json_parse C (of_b64 C cursorStr) of
        None \<Rightarrow> Inl Malformed_cursor
      | Some tok \<Rightarrow>
          (case (truthy_prop tok ''p'', truthy_prop tok ''s'') of
             (Some payload, Some signature) \<Rightarrow>
               (case prop_of payload ''t'' of
                  Some (JArr t) \<Rightarrow>
                    (case buffer_of C signature of
                       None \<Rightarrow> Inl Type_error
                     | Some given \<Rightarrow>
                         if given \<noteq> sign C (stringify C payload) secret then Inl Bad_signature
                         else if currentFilterHash \<noteq> [] \<and> truthy_prop payload ''fh'' \<noteq> None \<and>
                                 prop_of payload ''fh'' \<noteq> Some (JStr currentFilterHash) then Inl Filter_mismatch
                         else Inr (t, if prop_of payload ''d'' = Some (JStr ''b'') then ''backward'' else ''forward''))
                | _ \<Rightarrow> Inl Bad_payload)
           | _ \<Rightarrow> Inl Bad_structure))"

text \<open>What the code relies on: decoding undoes encoding, and the base64url text of an object's JSON starts with a letter.\<close>

definition codec_documented :: "codec \<Rightarrow> bool" where
  "codec_documented C \<longleftrightarrow>
     (\<forall>j. json_parse C (of_b64 C (to_b64 C (stringify C j))) = Some j) \<and>
     (\<forall>s. buffer_of C (JStr s) = Some s) \<and> (\<forall>k s. hmac_b64 C k s \<noteq> []) \<and>
     (\<forall>ps. \<exists>t. to_b64 C (stringify C (JObj ps)) = CHR ''e'' # t)"

subsection \<open>formatPageResponse\<close>

record 'row page =
  pg_data :: "'row list"
  pg_has_next :: bool
  pg_has_previous :: bool
  pg_start_cursor :: "string option"
  pg_end_cursor :: "string option"
  pg_next_cursor :: "string option"
  pg_total :: "nat option"
  pg_estimate :: "bool option"

text \<open>\<open>encode direction row\<close> stands for \<open>encodeCursor(extractTuple(row), filterHash, secret, direction)\<close>.\<close>

definition formatPageResponse ::
  "'row list \<Rightarrow> bool \<Rightarrow> bool \<Rightarrow> bool \<Rightarrow> (string \<Rightarrow> 'row \<Rightarrow> string) \<Rightarrow> nat option \<Rightarrow> bool option \<Rightarrow> 'row page" where
  "formatPageResponse data hasExtraRow isBackward hasAnchor encode tot countIsEstimate =
     (let rows0 = (if isBackward then rev data else data);
          rows = (if hasExtraRow then (if isBackward then tl rows0 else butlast rows0) else rows0);
          hasNext = (if rows = [] then False else if isBackward then True else hasExtraRow);
          hasPrevious = (if rows = [] then False else if isBackward then hasExtraRow else hasAnchor);
          startCursor = (if rows \<noteq> [] then Some (encode ''backward'' (hd rows)) else None);
          endCursor = (if rows \<noteq> [] then Some (encode ''forward'' (last rows)) else None)
      in \<lparr>pg_data = rows, pg_has_next = hasNext, pg_has_previous = hasPrevious, pg_start_cursor = startCursor,
          pg_end_cursor = endCursor, pg_next_cursor = (if hasNext then endCursor else None),
          pg_total = tot, pg_estimate = countIsEstimate\<rparr>)"

subsection \<open>getEventsCursor (db.js)\<close>

text \<open>\<open>Number(x)\<close> of the first element of a decoded tuple; undefined is NaN.\<close>

definition json_number :: "json option \<Rightarrow> jsnum" where
  "json_number j =
     (case j of None \<Rightarrow> NaN
      | Some JNull \<Rightarrow> Num 0
      | Some (JBool b) \<Rightarrow> Num (if b then 1 else 0)
      | Some (JNum x) \<Rightarrow> Num x
      | Some (JStr s) \<Rightarrow> to_number s
      | Some (JArr xs) \<Rightarrow> to_number (text_of (JArr xs))
      | Some (JObj _) \<Rightarrow> NaN)"

record page_query =
  pq_before :: "string option"
  pq_after :: "string option"
  pq_cursor :: "string option"
  pq_after_seq :: int
  pq_limit :: int

definition safe_limit :: "int \<Rightarrow> int \<Rightarrow> nat" where
  "safe_limit most limit = nat (min (max 1 (if limit = 0 then 25 else limit)) most)"

definition nonempty :: "string option \<Rightarrow> string option" where
  "nonempty t = (case t of Some s \<Rightarrow> if s = [] then None else t | None \<Rightarrow> None)"

text \<open>The anchor: position, direction and whether there is one.\<close>

definition first_of :: "json list \<Rightarrow> json option" where
  "first_of t = (case t of [] \<Rightarrow> None | x # _ \<Rightarrow> Some x)"

definition event_anchor ::
  "codec \<Rightarrow> string \<Rightarrow> string \<Rightarrow> page_query \<Rightarrow> cursor_error + jsnum option \<times> bool \<times> bool" where
  "event_anchor C filterHash secret q =
     (case nonempty (pq_before q) of
        Some before \<Rightarrow>
          map_sum id (\<lambda>(t, d). (Some (json_number (first_of t)), True, True)) (decodeCursor C before filterHash secret)
      | None \<Rightarrow>
          (case (case nonempty (pq_after q) of Some a \<Rightarrow> Some a | None \<Rightarrow> nonempty (pq_cursor q)) of
             Some token \<Rightarrow>
               if token \<noteq> [] \<and> all_digits token \<and> length token < 20
               then Inr (Some (to_number token), False, num_less (Num 0) (to_number token))
               else map_sum id (\<lambda>(t, d). (Some (json_number (first_of t)), d = ''backward'', True))
                      (decodeCursor C token filterHash secret)
           | None \<Rightarrow>
               if 0 < pq_after_seq q then Inr (Some (Num (of_int (pq_after_seq q))), False, True)
               else Inr (None, False, False)))"

record event_seq_row =
  ev_seq :: nat
  ev_body :: json

text \<open>The rows that satisfy the filter conditions, \<open>WHERE seq ... ORDER BY seq ... LIMIT\<close>.\<close>

definition beyond :: "jsnum option \<Rightarrow> bool \<Rightarrow> event_seq_row \<Rightarrow> bool" where
  "beyond anchor isBackward r =
     (case anchor of
        None \<Rightarrow> True
      | Some a \<Rightarrow> if num_less (Num 0) a
                  then (if isBackward then num_less a (num_of_nat (ev_seq r)) else num_less (num_of_nat (ev_seq r)) a)
                  else True)"

definition select_events :: "jsnum option \<Rightarrow> bool \<Rightarrow> nat \<Rightarrow> event_seq_row list \<Rightarrow> event_seq_row list" where
  "select_events anchor isBackward n rows =
     (let asc = sort_key ev_seq (filter (beyond anchor isBackward) rows)
      in take n (if isBackward then asc else rev asc))"

definition event_cursor :: "codec \<Rightarrow> string \<Rightarrow> string \<Rightarrow> string \<Rightarrow> event_seq_row \<Rightarrow> string" where
  "event_cursor C filterHash secret direction r =
     encodeCursor C [JNum (of_nat (ev_seq r))] filterHash secret direction"

definition getEventsCursor ::
  "codec \<Rightarrow> string \<Rightarrow> string \<Rightarrow> nat option \<Rightarrow> bool option \<Rightarrow> page_query \<Rightarrow> event_seq_row list
     \<Rightarrow> cursor_error + event_seq_row page" where
  "getEventsCursor C filterHash secret tot est q rows =
     (case event_anchor C filterHash secret q of
        Inl e \<Rightarrow> Inl e
      | Inr (anchor, isBackward, hasAnchor) \<Rightarrow>
          let n = safe_limit 200 (pq_limit q);
              got = select_events anchor isBackward (n + 1) rows
          in Inr (formatPageResponse got (length got > n) isBackward hasAnchor (event_cursor C filterHash secret) tot est))"

subsection \<open>Lemmas\<close>

lemma payload_props [simp]:
  "prop_of (cursor_payload t fh d) ''t'' = Some (JArr t)"
  "prop_of (cursor_payload t fh d) ''fh'' = Some (JStr fh)"
  "prop_of (cursor_payload t fh d) ''d'' = Some (JStr (if d = ''backward'' then ''b'' else ''f''))"
  by (simp_all add: cursor_payload_def)

lemma payload_truthy: "truthy (cursor_payload t fh d)"
  by (simp add: cursor_payload_def)

lemma decode_encode:
  assumes "codec_documented C"
  shows "decodeCursor C (encodeCursor C t fh secret d) fh' secret =
    (if fh' \<noteq> [] \<and> fh \<noteq> [] \<and> fh \<noteq> fh' then Inl Filter_mismatch
     else Inr (t, if d = ''backward'' then ''backward'' else ''forward''))"
proof -
  define payload where "payload = cursor_payload t fh d"
  define tok where "tok = JObj [(''p'', payload), (''s'', JStr (sign C (stringify C payload) secret))]"
  have e: "encodeCursor C t fh secret d = to_b64 C (stringify C tok)"
    by (simp add: encodeCursor_def Let_def tok_def payload_def)
  from assms obtain u where ne: "to_b64 C (stringify C tok) = CHR ''e'' # u" unfolding codec_documented_def tok_def by blast
  have p: "json_parse C (of_b64 C (to_b64 C (stringify C tok))) = Some tok" using assms unfolding codec_documented_def by blast
  have s: "buffer_of C (JStr (sign C (stringify C payload) secret)) = Some (sign C (stringify C payload) secret)"
    "sign C (stringify C payload) secret \<noteq> []" using assms unfolding codec_documented_def sign_def by blast+
  have t: "truthy_prop tok ''p'' = Some payload" "truthy_prop tok ''s'' = Some (JStr (sign C (stringify C payload) secret))"
    using s(2) payload_truthy by (simp_all add: truthy_prop_def tok_def payload_def)
  have f: "truthy_prop payload ''fh'' = (if fh = [] then None else Some (JStr fh))"
    by (simp add: truthy_prop_def payload_def)
  have q: "prop_of payload ''t'' = Some (JArr t)" "prop_of payload ''fh'' = Some (JStr fh)"
    "prop_of payload ''d'' = Some (JStr (if d = ''backward'' then ''b'' else ''f''))" by (simp_all add: payload_def)
  show ?thesis
    unfolding e decodeCursor_def p using ne by (simp add: t s f q)
qed

lemma encoded_not_digits:
  assumes "codec_documented C"
  shows "encodeCursor C t fh secret d \<noteq> []" "\<not> all_digits (encodeCursor C t fh secret d)"
proof -
  from assms obtain u where "encodeCursor C t fh secret d = CHR ''e'' # u"
    unfolding codec_documented_def encodeCursor_def Let_def by blast
  then show "encodeCursor C t fh secret d \<noteq> []" "\<not> all_digits (encodeCursor C t fh secret d)" by (simp_all add: is_digit_def)
qed

text \<open>The rows in the order in which the pages show them.\<close>

definition newest_first :: "event_seq_row list \<Rightarrow> event_seq_row list" where
  "newest_first rows = rev (sort_key ev_seq rows)"

definition seqs_ok :: "event_seq_row list \<Rightarrow> bool" where
  "seqs_ok rows \<longleftrightarrow> distinct (map ev_seq rows) \<and> (\<forall>r \<in> set rows. 0 < ev_seq r)"

lemma newest_first_desc:
  assumes "seqs_ok rows"
  shows "sorted_wrt (\<lambda>a b. ev_seq b < ev_seq a) (newest_first rows)"
proof -
  have "distinct (map ev_seq (sort_key ev_seq rows))"
    using assms by (metis seqs_ok_def distinct_map distinct_sort set_sort)
  then have "sorted_wrt (<) (map ev_seq (sort_key ev_seq rows))" unfolding strict_sorted_iff by simp
  then have "sorted_wrt (\<lambda>a b. ev_seq a < ev_seq b) (sort_key ev_seq rows)" by (simp add: sorted_wrt_map)
  then show ?thesis by (simp add: newest_first_def sorted_wrt_rev)
qed

lemma select_newest:
  "select_events anchor False n rows = take n (filter (beyond anchor False) (newest_first rows))"
  "select_events anchor True n rows = take n (rev (filter (beyond anchor True) (newest_first rows)))"
  by (simp_all add: select_events_def newest_first_def Let_def filter_sort flip: rev_filter)

text \<open>The anchor at a row splits the order there.\<close>

lemma select_at:
  assumes "seqs_ok rows" "newest_first rows = done' @ rest"
  shows "done' \<noteq> [] \<Longrightarrow> select_events (Some (num_of_nat (ev_seq (last done')))) False n rows = take n rest"
    and "rest \<noteq> [] \<Longrightarrow> select_events (Some (num_of_nat (ev_seq (hd rest)))) True n rows = take n (rev done')"
    and "select_events None False n rows = take n (newest_first rows)"
proof -
  have desc: "sorted_wrt (\<lambda>a b. ev_seq b < ev_seq a) (done' @ rest)" using newest_first_desc [OF assms(1)] assms(2) by simp
  have pos: "0 < ev_seq r" if "r \<in> set done' \<union> set rest" for r
  proof -
    have "r \<in> set (newest_first rows)" using that assms(2) by simp
    then show ?thesis using assms(1) by (simp add: newest_first_def seqs_ok_def)
  qed
  show "select_events (Some (num_of_nat (ev_seq (last done')))) False n rows = take n rest" if ne: "done' \<noteq> []"
  proof -
    obtain xs y where d: "done' = xs @ [y]" using ne by (cases done' rule: rev_cases) auto
    have y: "0 < ev_seq y" using pos [of y] d by simp
    have b: "beyond (Some (num_of_nat (ev_seq y))) False r \<longleftrightarrow> ev_seq r < ev_seq y" for r
      using y by (simp add: beyond_def)
    have "filter (\<lambda>r. ev_seq r < ev_seq y) xs = []" "filter (\<lambda>r. ev_seq r < ev_seq y) rest = rest"
      using desc unfolding d by (force simp: sorted_wrt_append filter_empty_conv filter_id_conv)+
    then have "filter (beyond (Some (num_of_nat (ev_seq y))) False) (xs @ [y] @ rest) = rest" unfolding b by simp
    then show ?thesis unfolding select_newest assms(2) d by simp
  qed
  show "select_events (Some (num_of_nat (ev_seq (hd rest)))) True n rows = take n (rev done')" if ne: "rest \<noteq> []"
  proof -
    obtain y ys where r: "rest = y # ys" using ne by (cases rest) auto
    have y: "0 < ev_seq y" using pos [of y] r by simp
    have b: "beyond (Some (num_of_nat (ev_seq y))) True q \<longleftrightarrow> ev_seq y < ev_seq q" for q
      using y by (simp add: beyond_def)
    have "filter (\<lambda>q. ev_seq y < ev_seq q) done' = done'" "filter (\<lambda>q. ev_seq y < ev_seq q) ys = []"
      using desc unfolding r by (force simp: sorted_wrt_append filter_empty_conv filter_id_conv)+
    then have "filter (beyond (Some (num_of_nat (ev_seq y))) True) (done' @ y # ys) = done'" unfolding b by simp
    then show ?thesis unfolding select_newest assms(2) r by simp
  qed
  show "select_events None False n rows = take n (newest_first rows)"
    unfolding select_newest by (simp add: beyond_def)
qed

subsection \<open>Pages\<close>

text \<open>A query that continues after a row, as a client sends it with next_cursor.\<close>

definition first_page :: "int \<Rightarrow> page_query" where
  "first_page limit = \<lparr>pq_before = None, pq_after = None, pq_cursor = None, pq_after_seq = 0, pq_limit = limit\<rparr>"

definition next_page :: "int \<Rightarrow> string \<Rightarrow> page_query" where
  "next_page limit t = (first_page limit)\<lparr>pq_cursor := Some t\<rparr>"

definition prev_page :: "int \<Rightarrow> string \<Rightarrow> page_query" where
  "prev_page limit t = (first_page limit)\<lparr>pq_before := Some t\<rparr>"

lemma page_anchors:
  assumes "codec_documented C"
  shows "event_anchor C fh secret (first_page limit) = Inr (None, False, False)"
    and "event_anchor C fh secret (next_page limit (event_cursor C fh secret ''forward'' r)) =
      Inr (Some (num_of_nat (ev_seq r)), False, True)"
    and "event_anchor C fh secret (prev_page limit (event_cursor C fh secret d r)) =
      Inr (Some (num_of_nat (ev_seq r)), True, True)"
  using encoded_not_digits [OF assms]
  by (simp_all add: event_anchor_def first_page_def next_page_def prev_page_def event_cursor_def nonempty_def
      decode_encode [OF assms] json_number_def first_of_def)

lemma safe_limit_pos: "0 < safe_limit 200 limit"
  by (simp add: safe_limit_def)

text \<open>The page after the rows \<open>done'\<close>: its rows, and a next_cursor exactly when some are left.\<close>

lemma forward_page:
  fixes limit :: int and C :: codec and fh secret :: string and rows done' rest :: "event_seq_row list"
  assumes "codec_documented C" "seqs_ok rows" "newest_first rows = done' @ rest"
  defines "n \<equiv> safe_limit 200 limit"
  defines "q \<equiv> (if done' = [] then first_page limit else next_page limit (event_cursor C fh secret ''forward'' (last done')))"
  shows "\<exists>pg. getEventsCursor C fh secret tot est q rows = Inr pg \<and> pg_data pg = take n rest \<and>
     pg_next_cursor pg = (if n < length rest then Some (event_cursor C fh secret ''forward'' (last (take n rest))) else None) \<and>
     pg_start_cursor pg = (if rest = [] then None else Some (event_cursor C fh secret ''backward'' (hd rest)))"
proof -
  obtain anchor where a: "event_anchor C fh secret q = Inr (anchor, False, done' \<noteq> [])"
    and sel: "select_events anchor False (n + 1) rows = take (n + 1) rest"
  proof (cases "done' = []")
    case True
    with that [of None] show ?thesis
      using page_anchors(1) [OF assms(1)] select_at(3) [OF assms(2,3)] assms(3) by (simp add: q_def)
  next
    case False
    with that [of "Some (num_of_nat (ev_seq (last done')))"] show ?thesis
      using page_anchors(2) [OF assms(1)] select_at(1) [OF assms(2,3)] by (simp add: q_def)
  qed
  have n: "0 < n" by (simp add: n_def safe_limit_pos)
  have lim: "pq_limit q = limit" by (simp add: q_def first_page_def next_page_def)
  have more: "length (take (n + 1) rest) > n \<longleftrightarrow> n < length rest" by auto
  have data: "(if n < length rest then butlast (take (n + 1) rest) else take (n + 1) rest) = take n rest"
    by (simp add: butlast_take)
  show ?thesis
    unfolding getEventsCursor_def a lim n_def [symmetric] sum.case prod.case Let_def sel formatPageResponse_def more if_False
    using n by (auto simp: data butlast_take)
qed

text \<open>A client that follows next_cursor, for at most so many pages.\<close>

fun walk_pages ::
  "codec \<Rightarrow> string \<Rightarrow> string \<Rightarrow> int \<Rightarrow> event_seq_row list \<Rightarrow> nat \<Rightarrow> page_query \<Rightarrow> event_seq_row list option" where
  "walk_pages C fh secret limit rows 0 q = None"
| "walk_pages C fh secret limit rows (Suc k) q =
     (case getEventsCursor C fh secret None None q rows of
        Inl e \<Rightarrow> None
      | Inr pg \<Rightarrow>
          (case pg_next_cursor pg of
             None \<Rightarrow> Some (pg_data pg)
           | Some t \<Rightarrow> map_option ((@) (pg_data pg)) (walk_pages C fh secret limit rows k (next_page limit t))))"

lemma walk_rest:
  fixes limit :: int
  assumes "codec_documented C" "seqs_ok rows" "newest_first rows = done' @ rest" "length rest < k"
  shows "walk_pages C fh secret limit rows k
    (if done' = [] then first_page limit else next_page limit (event_cursor C fh secret ''forward'' (last done'))) = Some rest"
  using assms
proof (induction k arbitrary: done' rest)
  case (Suc k)
  let ?n = "safe_limit 200 limit"
  from forward_page [OF Suc.prems(1-3), where limit = limit and fh = fh and secret = secret and tot = None and est = None]
  obtain pg where pg: "getEventsCursor C fh secret None None
      (if done' = [] then first_page limit else next_page limit (event_cursor C fh secret ''forward'' (last done'))) rows = Inr pg"
    "pg_data pg = take ?n rest"
    "pg_next_cursor pg = (if ?n < length rest then Some (event_cursor C fh secret ''forward'' (last (take ?n rest))) else None)"
    by blast
  show ?case
  proof (cases "?n < length rest")
    case False
    with pg show ?thesis by simp
  next
    case True
    have ne: "take ?n rest \<noteq> []" using safe_limit_pos [of limit] True by auto
    have split: "newest_first rows = (done' @ take ?n rest) @ drop ?n rest" using Suc.prems(3) by simp
    have less: "length (drop ?n rest) < k" using Suc.prems(4) True safe_limit_pos [of limit] by simp
    from Suc.IH [OF Suc.prems(1,2) split less] ne pg True show ?thesis by simp
  qed
qed simp

definition toy_codec :: codec where
  "toy_codec = \<lparr>stringify = json_code, json_parse = json_uncode, to_b64 = (\<lambda>s. CHR ''e'' # s), of_b64 = tl,
     hmac_b64 = (\<lambda>k s. CHR ''m'' # k @ s), buffer_of = (\<lambda>j. case j of JStr s \<Rightarrow> Some s | _ \<Rightarrow> None), sha_hex = id\<rparr>"

lemma toy_codec_documented: "codec_documented toy_codec"
  by (simp add: codec_documented_def toy_codec_def)

subsection \<open>listContracts (db.js)\<close>

text \<open>
  The keyset branch of the contract list, ordered by creation time and id. PostgreSQL keeps microseconds; the driver reads them into
  a \<open>Date\<close>, and the cursor carries its milliseconds (the ISO text stands here as that number).
\<close>

record contract_row =
  ct_created :: nat
  ct_id :: string

definition contract_anchor :: "contract_row \<Rightarrow> nat \<times> string" where
  "contract_anchor r = (ct_created r div 1000, ct_id r)"

definition contract_key :: "contract_row \<Rightarrow> nat \<times> string" where
  "contract_key r = (ct_created r, ct_id r)"

definition key_less :: "nat \<times> string \<Rightarrow> nat \<times> string \<Rightarrow> bool" where
  "key_less a b = (fst a < fst b \<or> (fst a = fst b \<and> snd a < snd b))"

text \<open>The rows before the cursor's time and id, newest first.\<close>

definition contracts_after :: "nat \<times> string \<Rightarrow> contract_row list \<Rightarrow> contract_row list" where
  "contracts_after anchor rows =
     rev (sort_key ct_created (filter (\<lambda>r. key_less (contract_key r) (1000 * fst anchor, snd anchor)) (sort_key ct_id rows)))"

definition contracts_first :: "contract_row list \<Rightarrow> contract_row list" where
  "contracts_first rows = rev (sort_key ct_created (sort_key ct_id rows))"

definition listContracts :: "int \<Rightarrow> (nat \<times> string) option \<Rightarrow> contract_row list \<Rightarrow> contract_row page" where
  "listContracts limit anchor rows =
     (let n = safe_limit 100 limit;
          got = take (n + 1) (case anchor of None \<Rightarrow> contracts_first rows | Some c \<Rightarrow> contracts_after c rows)
      in formatPageResponse got (length got > n) False (anchor \<noteq> None) (\<lambda>d r. ct_id r) None None)"

text \<open>
  The contract list loses rows: the page that follows a row never shows another contract of the same millisecond that was created after
  the millisecond began, whatever its place in the order; so a contract registered just before the last one of a page
  is on no page.
\<close>

lemma contract_pages_skip:
  assumes "r \<in> set (pg_data (listContracts limit (Some (contract_anchor c)) rows))" "ct_created r div 1000 = ct_created c div 1000"
  shows "ct_created r mod 1000 = 0"
proof -
  have "r \<in> set (contracts_after (contract_anchor c) rows)"
    using assms(1) by (auto simp: listContracts_def formatPageResponse_def Let_def split: if_splits dest!: in_set_butlastD in_set_takeD)
  then have "key_less (contract_key r) (1000 * (ct_created c div 1000), ct_id c)" by (simp add: contracts_after_def contract_anchor_def)
  then have "ct_created r \<le> 1000 * (ct_created r div 1000)" unfolding assms(2) by (auto simp: key_less_def contract_key_def)
  then show ?thesis by (metis le_add1 le_antisym mult_div_mod_eq add_cancel_right_right)
qed

lemma contract_pages_skip_witness:
  "let a = \<lparr>ct_created = 5700, ct_id = ''a''\<rparr>; b = \<lparr>ct_created = 5600, ct_id = ''b''\<rparr>; c = \<lparr>ct_created = 5000, ct_id = ''Z''\<rparr>;
       rows = [a, b, c]
   in pg_data (listContracts 1 None rows) = [a] \<and> pg_data (listContracts 1 (Some (contract_anchor a)) rows) = [c] \<and> ct_created c mod 1000 = 0"
proof -
  let ?a = "\<lparr>ct_created = 5700, ct_id = ''a''\<rparr>" and ?b = "\<lparr>ct_created = 5600, ct_id = ''b''\<rparr>"
    and ?c = "\<lparr>ct_created = 5000, ct_id = ''Z''\<rparr>"
  have p: "pg_data (listContracts 1 None [?a, ?b, ?c]) = [?a]" "pg_data (listContracts 1 (Some (contract_anchor ?a)) [?a, ?b, ?c]) = [?c]"
    by (simp_all add: listContracts_def safe_limit_def contracts_first_def contracts_after_def formatPageResponse_def Let_def
        key_less_def contract_key_def contract_anchor_def less_char_def insort_key_def)
  then have "ct_created ?c mod 1000 = 0" by (intro contract_pages_skip [of ?c 1 ?a "[?a, ?b, ?c]"]) simp_all
  with p show ?thesis by (simp add: Let_def)
qed

subsection \<open>Properties\<close>

text \<open>
  Cursors round-trip and are bound to their filters: a cursor of this server decodes to the tuple and the direction it was made of,
  and is refused when the request has other filters; and whatever text a client sends, a decoded payload carries the
  signature of the server's secret.
\<close>

lemma cursor_roundtrip:
  assumes "codec_documented C"
  shows "decodeCursor C (encodeCursor C t fh secret d) fh secret = Inr (t, if d = ''backward'' then ''backward'' else ''forward'') \<and>
    (fh \<noteq> [] \<and> fh' \<noteq> [] \<and> fh \<noteq> fh' \<longrightarrow> decodeCursor C (encodeCursor C t fh secret d) fh' secret = Inl Filter_mismatch) \<and>
    (decodeCursor C text' fh' secret = Inr (t', d') \<longrightarrow>
       (\<exists>tok payload signature. json_parse C (of_b64 C text') = Some tok \<and> prop_of tok ''p'' = Some payload \<and>
          prop_of tok ''s'' = Some signature \<and> buffer_of C signature = Some (hmac_b64 C secret (stringify C payload)) \<and>
          prop_of payload ''t'' = Some (JArr t')))"
proof (intro conjI impI)
  assume "decodeCursor C text' fh' secret = Inr (t', d')"
  then show "\<exists>tok payload signature. json_parse C (of_b64 C text') = Some tok \<and> prop_of tok ''p'' = Some payload \<and>
      prop_of tok ''s'' = Some signature \<and> buffer_of C signature = Some (hmac_b64 C secret (stringify C payload)) \<and>
      prop_of payload ''t'' = Some (JArr t')"
    by (auto simp: decodeCursor_def truthy_prop_def sign_def split: option.splits json.splits if_splits)
qed (simp_all add: decode_encode [OF assms])

lemma cursor_roundtrip_witness:
  "decodeCursor toy_codec (encodeCursor toy_codec [JNum 7] ''h'' ''k'' ''backward'') ''h'' ''k'' = Inr ([JNum 7], ''backward'') \<and>
   decodeCursor toy_codec (encodeCursor toy_codec [JNum 7] ''h'' ''k'' ''backward'') ''g'' ''k'' = Inl Filter_mismatch"
  using cursor_roundtrip [OF toy_codec_documented, of "[JNum 7]" "''h''" "''k''" "''backward''" "''g''"] by simp

text \<open>The page before the rows \<open>row # after\<close>, which the cursor of \<open>row\<close> leads to.\<close>

lemma backward_page:
  fixes limit :: int
  assumes "codec_documented C" "seqs_ok rows" "newest_first rows = before @ row # after"
  defines "earlier \<equiv> drop (length before - safe_limit 200 limit) before"
  shows "\<exists>pg. getEventsCursor C fh secret None None (prev_page limit (event_cursor C fh secret ''backward'' row)) rows = Inr pg \<and>
     pg_data pg = earlier \<and>
     pg_start_cursor pg = (if earlier = [] then None else Some (event_cursor C fh secret ''backward'' (hd earlier)))"
proof -
  let ?n = "safe_limit 200 limit"
  have sel: "select_events (Some (num_of_nat (ev_seq row))) True (?n + 1) rows = take (?n + 1) (rev before)"
    using select_at(2) [OF assms(2,3)] by simp
  have data: "(if length (take (?n + 1) (rev before)) > ?n then tl (rev (take (?n + 1) (rev before))) else rev (take (?n + 1) (rev before)))
      = earlier"
  proof (cases "?n < length before")
    case True
    then have "rev (take (?n + 1) (rev before)) = drop (length before - (?n + 1)) before" by (simp add: take_rev)
    with True show ?thesis by (simp add: earlier_def tl_drop drop_Suc Suc_diff_Suc flip: drop_Suc)
  qed (simp add: take_rev earlier_def)
  have "pq_limit (prev_page limit (event_cursor C fh secret ''backward'' row)) = limit" by (simp add: prev_page_def first_page_def)
  then show ?thesis
    unfolding getEventsCursor_def page_anchors(3) [OF assms(1)] sum.case prod.case Let_def formatPageResponse_def
    using data [unfolded Suc_eq_plus1 [symmetric]] sel by (simp split: if_splits)
qed

text \<open>The query for the page after the rows \<open>done'\<close>: the first page, or the cursor of the last of them.\<close>

definition page_after :: "codec \<Rightarrow> string \<Rightarrow> string \<Rightarrow> int \<Rightarrow> event_seq_row list \<Rightarrow> page_query" where
  "page_after C fh secret limit done' =
     (if done' = [] then first_page limit else next_page limit (event_cursor C fh secret ''forward'' (last done')))"

text \<open>
  C13. Keyset pagination is complete: following next_cursor from the first page, with any page size, ends and shows every row once, newest
  first; and the start_cursor of any page leads to exactly the rows before that page, as many as a page holds, in the same order, with the
  start_cursor for the page before them.
\<close>

theorem keyset_walk_complete:
  assumes "codec_documented C" "seqs_ok rows"
  shows "walk_pages C fh secret limit rows (Suc (length rows)) (first_page limit) = Some (newest_first rows) \<and>
    (newest_first rows = done' @ rest \<and> rest \<noteq> [] \<longrightarrow>
       (\<exists>pg t pg'. getEventsCursor C fh secret None None (page_after C fh secret limit done') rows = Inr pg \<and>
          pg_data pg = take (safe_limit 200 limit) rest \<and> pg_start_cursor pg = Some t \<and>
          getEventsCursor C fh secret None None (prev_page limit t) rows = Inr pg' \<and>
          pg_data pg' = drop (length done' - safe_limit 200 limit) done' \<and>
          pg_start_cursor pg' = (if pg_data pg' = [] then None else Some (event_cursor C fh secret ''backward'' (hd (pg_data pg'))))))"
proof (intro conjI impI)
  show "walk_pages C fh secret limit rows (Suc (length rows)) (first_page limit) = Some (newest_first rows)"
    using walk_rest [OF assms, of "[]" "newest_first rows" "Suc (length rows)" fh secret limit] by (simp add: newest_first_def)
next
  assume r: "newest_first rows = done' @ rest \<and> rest \<noteq> []"
  obtain pg where pg: "getEventsCursor C fh secret None None (page_after C fh secret limit done') rows = Inr pg"
    "pg_data pg = take (safe_limit 200 limit) rest" "pg_start_cursor pg = Some (event_cursor C fh secret ''backward'' (hd rest))"
    using forward_page [OF assms conjunct1 [OF r], where limit = limit and fh = fh and secret = secret and tot = None and est = None] r
    unfolding page_after_def by auto
  have "newest_first rows = done' @ hd rest # tl rest" using r by simp
  from backward_page [OF assms this, of fh secret limit] pg
  show "\<exists>pg t pg'. getEventsCursor C fh secret None None (page_after C fh secret limit done') rows = Inr pg \<and>
          pg_data pg = take (safe_limit 200 limit) rest \<and> pg_start_cursor pg = Some t \<and>
          getEventsCursor C fh secret None None (prev_page limit t) rows = Inr pg' \<and>
          pg_data pg' = drop (length done' - safe_limit 200 limit) done' \<and>
          pg_start_cursor pg' = (if pg_data pg' = [] then None else Some (event_cursor C fh secret ''backward'' (hd (pg_data pg'))))"
    by metis
qed

theorem keyset_walk_complete_witness:
  "(let rows = [\<lparr>ev_seq = 1, ev_body = JNull\<rparr>, \<lparr>ev_seq = 2, ev_body = JNull\<rparr>]
    in walk_pages toy_codec ''h'' ''k'' 1 rows 3 (first_page 1) = Some (rev rows) \<and>
       (\<exists>pg t pg'. getEventsCursor toy_codec ''h'' ''k'' None None (page_after toy_codec ''h'' ''k'' 1 [rows ! 1]) rows = Inr pg \<and>
          pg_data pg = [rows ! 0] \<and> pg_start_cursor pg = Some t \<and>
          getEventsCursor toy_codec ''h'' ''k'' None None (prev_page 1 t) rows = Inr pg' \<and> pg_data pg' = [rows ! 1]))"
proof -
  let ?a = "\<lparr>ev_seq = 1, ev_body = JNull\<rparr>" and ?b = "\<lparr>ev_seq = 2, ev_body = JNull\<rparr>"
  have ok: "seqs_ok [?a, ?b]" by (simp add: seqs_ok_def)
  have new: "newest_first [?a, ?b] = [?b] @ [?a] \<and> [?a] \<noteq> []" by (simp add: newest_first_def)
  have lim: "safe_limit 200 1 = 1" by (simp add: safe_limit_def)
  note K = keyset_walk_complete [OF toy_codec_documented ok, of "''h''" "''k''" 1 "[?b]" "[?a]"]
  have "walk_pages toy_codec ''h'' ''k'' 1 [?a, ?b] 3 (first_page 1) = Some (rev [?a, ?b])"
    using conjunct1 [OF K] new by (simp add: numeral_3_eq_3)
  moreover have "\<exists>pg t pg'. getEventsCursor toy_codec ''h'' ''k'' None None (page_after toy_codec ''h'' ''k'' 1 [?b]) [?a, ?b] = Inr pg \<and>
     pg_data pg = [?a] \<and> pg_start_cursor pg = Some t \<and>
     getEventsCursor toy_codec ''h'' ''k'' None None (prev_page 1 t) [?a, ?b] = Inr pg' \<and> pg_data pg' = [?b]"
    using mp [OF conjunct2 [OF K] new] by (elim exE conjE) (intro exI conjI, assumption, simp_all add: lim)
  ultimately show ?thesis by (simp add: Let_def del: walk_pages.simps)
qed

end
