(* ===== verification/Analytics_Sql.thy ===== *)
theory Analytics_Sql
  imports Json
begin

section \<open>Sandboxed analytics queries (indexer/src/analyticsSql.js)\<close>

text \<open>
  The check of a parsed query before it reaches the analytics database, the daily quotas, and the CSV export. The SQL parser
  and printer are parameters; a syntax tree is a JSON value, its objects have a type and are all distinct, so a nested
  object is never the statement itself. Shown: a query is accepted exactly when every node of its tree is one
  of the allowed ones, quotas bound the queries of a client and a day, and CSV text can be read back.
\<close>

datatype query_error =
    Bad_query_text | Invalid_sql | Not_one_statement | Not_select | Subquery | Cte | Implicit_cross_join | Bad_limit | Bad_offset
  | Foreign_table | Cross_join | Locking | Too_many_joins | Foreign_function | Cast | Sql_parameter | Session_keyword | No_table
  | Js_type_error

definition ALLOWED_TABLES :: "string list" where
  "ALLOWED_TABLES = [''events'', ''transactions'', ''rollups'', ''tokens'']"

definition ALLOWED_FUNCTIONS :: "string list" where
  "ALLOWED_FUNCTIONS = [''abs'', ''avg'', ''coalesce'', ''count'', ''date_trunc'', ''lower'', ''max'', ''min'', ''nullif'', ''round'',
     ''sum'', ''upper'']"

definition ROW_LIMIT :: nat where "ROW_LIMIT = 1000"
definition MAX_QUERY_LENGTH :: nat where "MAX_QUERY_LENGTH = 16384"
definition MAX_EXPLAIN_COST :: rat where "MAX_EXPLAIN_COST = 100000"

definition SESSION_KEYWORDS :: "string list" where
  "SESSION_KEYWORDS = [''current_catalog'', ''current_role'', ''current_schema'', ''session_user'', ''user'', ''current_user'']"

definition JOIN_TYPES :: "string list" where
  "JOIN_TYPES = [''INNER JOIN'', ''LEFT JOIN'', ''RIGHT JOIN'', ''FULL JOIN'']"

subsection \<open>Inspection of one node\<close>

definition has_type :: "json \<Rightarrow> string \<Rightarrow> bool" where
  "has_type n t = (prop_of n ''type'' = Some (JStr t))"

text \<open>A comma-separated FROM list with a member that is no join.\<close>

definition comma_join :: "json \<Rightarrow> bool" where
  "comma_join n =
     (case prop_of n ''from'' of
        Some (JArr (t # ts)) \<Rightarrow> list_ex (\<lambda>x. truthy_prop x ''join'' = None) ts
      | _ \<Rightarrow> False)"

definition above :: "rat \<Rightarrow> json option \<Rightarrow> bool" where
  "above b v = (case v of Some (JNum x) \<Rightarrow> b < x | _ \<Rightarrow> False)"

text \<open>A truthy member of the limit clause that is no integer literal or exceeds the bound.\<close>

definition bad_bound :: "rat \<Rightarrow> json option \<Rightarrow> bool" where
  "bad_bound b v = (case v of None \<Rightarrow> False | Some l \<Rightarrow> \<not> has_type l ''integer'' \<or> above b (prop_of l ''value''))"

definition limit_error :: "json \<Rightarrow> query_error option" where
  "limit_error n =
     (case truthy_prop n ''limit'' of
        None \<Rightarrow> None
      | Some l \<Rightarrow> if bad_bound (of_nat ROW_LIMIT) (truthy_prop l ''limit'') then Some Bad_limit
                  else if bad_bound 10000 (truthy_prop l ''offset'') then Some Bad_offset else None)"

definition table_error :: "json \<Rightarrow> query_error option" where
  "table_error n =
     (case prop_of n ''name'' of
        None \<Rightarrow> Some Js_type_error
      | Some JNull \<Rightarrow> Some Js_type_error
      | Some q \<Rightarrow>
          if prop_of q ''schema'' = Some (JStr ''analytics'') \<and> (\<exists>t \<in> set ALLOWED_TABLES. prop_of q ''name'' = Some (JStr t))
          then None else Some Foreign_table)"

definition call_error :: "json \<Rightarrow> query_error option" where
  "call_error n =
     (case prop_of n ''function'' of
        None \<Rightarrow> Some Js_type_error
      | Some JNull \<Rightarrow> Some Js_type_error
      | Some q \<Rightarrow>
          if truthy_prop q ''schema'' \<noteq> None then Some Foreign_function
          else (case prop_of q ''name'' of
                  Some (JStr f) \<Rightarrow> if lower f \<notin> set ALLOWED_FUNCTIONS \<or> truthy_prop n ''over'' \<noteq> None
                                    then Some Foreign_function else None
                | _ \<Rightarrow> Some Js_type_error))"

text \<open>The tests on an object in the order of the source; \<open>joins\<close> is the count before it.\<close>

definition node_error :: "bool \<Rightarrow> nat \<Rightarrow> json \<Rightarrow> query_error option" where
  "node_error outer joins n =
     (if has_type n ''select'' \<and> \<not> outer then Some Subquery
      else if has_type n ''with'' \<or> has_type n ''with recursive'' then Some Cte
      else if has_type n ''select'' \<and> comma_join n then Some Implicit_cross_join
      else if has_type n ''select'' \<and> limit_error n \<noteq> None then limit_error n
      else if has_type n ''table'' \<and> table_error n \<noteq> None then table_error n
      else if has_type n ''CROSS JOIN'' then Some Cross_join
      else if truthy_prop n ''for'' \<noteq> None \<or> truthy_prop n ''skip'' \<noteq> None then Some Locking
      else if (\<exists>t \<in> set JOIN_TYPES. has_type n t) \<and> 4 < joins + 1 then Some Too_many_joins
      else if has_type n ''call'' \<and> call_error n \<noteq> None then call_error n
      else if has_type n ''cast'' then Some Cast
      else if has_type n ''parameter'' then Some Sql_parameter
      else if has_type n ''keyword'' \<and> (\<exists>k \<in> set SESSION_KEYWORDS. prop_of n ''keyword'' = Some (JStr k)) then Some Session_keyword
      else None)"

definition is_join :: "json \<Rightarrow> bool" where
  "is_join n = (\<exists>t \<in> set JOIN_TYPES. has_type n t)"

lemma size_values: "size_list size (map snd ps) \<le> size_list (size_prod (\<lambda>_. 0) size) ps"
  by (induction ps) auto

text \<open>\<open>inspect\<close> with the counters \<open>tableCount\<close> and \<open>joinCount\<close>.\<close>

function (sequential) inspect :: "bool \<Rightarrow> json \<Rightarrow> nat \<times> nat \<Rightarrow> query_error + nat \<times> nat"
  and inspect_all :: "json list \<Rightarrow> nat \<times> nat \<Rightarrow> query_error + nat \<times> nat" where
  "inspect outer (JArr xs) c = inspect_all xs c"
| "inspect outer (JObj ps) (tables, joins) =
     (case node_error outer joins (JObj ps) of
        Some e \<Rightarrow> Inl e
      | None \<Rightarrow> inspect_all (map snd ps) (tables + (if has_type (JObj ps) ''table'' then 1 else 0),
                                          joins + (if is_join (JObj ps) then 1 else 0)))"
| "inspect outer n c = Inr c"
| "inspect_all [] c = Inr c"
| "inspect_all (x # xs) c = (case inspect False x c of Inl e \<Rightarrow> Inl e | Inr c' \<Rightarrow> inspect_all xs c')"
  by pat_completeness auto

termination
  by (relation "measure (case_sum (\<lambda>(outer, n, c). size n) (\<lambda>(xs, c). size_list size xs))")
    (use size_values in \<open>auto simp: less_Suc_eq_le\<close>)

subsection \<open>validateAnalyticsQuery\<close>

record sql_api =
  sql_parse :: "string \<Rightarrow> json list option"
  sql_text :: "json \<Rightarrow> string"

definition validateAnalyticsQuery :: "sql_api \<Rightarrow> json \<Rightarrow> query_error + string" where
  "validateAnalyticsQuery S query =
     (case query of
        JStr q \<Rightarrow>
          if q = [] \<or> length q > MAX_QUERY_LENGTH then Inl Bad_query_text
          else (case sql_parse S q of
                  None \<Rightarrow> Inl Invalid_sql
                | Some statements \<Rightarrow>
                    if length statements \<noteq> 1 then Inl Not_one_statement
                    else let statement = hd statements in
                      if \<not> has_type statement ''select'' then Inl Not_select
                      else (case inspect True statement (0, 0) of
                              Inl e \<Rightarrow> Inl e
                            | Inr (tables, joins) \<Rightarrow> if tables = 0 then Inl No_table else Inr (sql_text S statement)))
      | _ \<Rightarrow> Inl Bad_query_text)"

subsection \<open>The objects of a tree\<close>

text \<open>Every object below a value, in the order of the visit, each with whether it is the value itself.\<close>

function (sequential) nodes :: "bool \<Rightarrow> json \<Rightarrow> (bool \<times> json) list"
  and nodes_all :: "json list \<Rightarrow> (bool \<times> json) list" where
  "nodes outer (JArr xs) = nodes_all xs"
| "nodes outer (JObj ps) = (outer, JObj ps) # nodes_all (map snd ps)"
| "nodes outer n = []"
| "nodes_all [] = []"
| "nodes_all (x # xs) = nodes False x @ nodes_all xs"
  by pat_completeness auto
termination
  by (relation "measure (case_sum (\<lambda>(outer, n). size n) (\<lambda>xs. size_list size xs))")
    (use size_values in \<open>auto simp: less_Suc_eq_le\<close>)

definition count_nodes :: "(json \<Rightarrow> bool) \<Rightarrow> (bool \<times> json) list \<Rightarrow> nat" where
  "count_nodes P ns = length (filter (P \<circ> snd) ns)"

definition nodes_fine :: "(bool \<times> json) list \<Rightarrow> bool" where
  "nodes_fine ns = list_all (\<lambda>(u, m). node_error u 0 m = None) ns"

lemma nodes_fine_simps [simp]:
  "nodes_fine []" "nodes_fine (n # ns) \<longleftrightarrow> node_error (fst n) 0 (snd n) = None \<and> nodes_fine ns"
  "nodes_fine (ms @ ns) \<longleftrightarrow> nodes_fine ms \<and> nodes_fine ns"
  by (auto simp: nodes_fine_def)

lemma count_nodes_simps [simp]:
  "count_nodes P [] = 0" "count_nodes P (n # ns) = (if P (snd n) then 1 else 0) + count_nodes P ns"
  "count_nodes P (ms @ ns) = count_nodes P ms + count_nodes P ns"
  by (simp_all add: count_nodes_def)

text \<open>Without the join counter a node is judged on its own.\<close>

lemma node_error_joins:
  "node_error outer joins n = None \<longleftrightarrow> node_error outer 0 n = None \<and> (is_join n \<longrightarrow> joins < 4)"
proof (cases "is_join n")
  case False
  then have "\<not> (\<exists>t \<in> set JOIN_TYPES. has_type n t)" by (simp add: is_join_def)
  then have "node_error outer joins n = node_error outer 0 n" unfolding node_error_def by (simp only: simp_thms if_False)
  with False show ?thesis by simp
next
  case True
  then obtain t where t: "t \<in> set JOIN_TYPES" "has_type n t" by (auto simp: is_join_def)
  then have h: "has_type n c \<longleftrightarrow> t = c" for c by (auto simp: has_type_def)
  from t(1) have "t \<notin> {''select'', ''with'', ''with recursive'', ''table'', ''CROSS JOIN'', ''call'', ''cast'', ''parameter'', ''keyword''}"
    by (auto simp: JOIN_TYPES_def)
  then have "node_error outer k n = (if truthy_prop n ''for'' \<noteq> None \<or> truthy_prop n ''skip'' \<noteq> None then Some Locking
      else if 4 < k + 1 then Some Too_many_joins else None)" for k
    using t(1) unfolding node_error_def h by auto
  with True show ?thesis by auto
qed

lemma inspect_ok:
  "inspect outer n (t, j) = Inr (t', j') \<longleftrightarrow>
     nodes_fine (nodes outer n) \<and> (j + count_nodes is_join (nodes outer n) \<le> max 4 j) \<and>
     t' = t + count_nodes (\<lambda>m. has_type m ''table'') (nodes outer n) \<and> j' = j + count_nodes is_join (nodes outer n)"
  "inspect_all xs (t, j) = Inr (t', j') \<longleftrightarrow>
     nodes_fine (nodes_all xs) \<and> (j + count_nodes is_join (nodes_all xs) \<le> max 4 j) \<and>
     t' = t + count_nodes (\<lambda>m. has_type m ''table'') (nodes_all xs) \<and> j' = j + count_nodes is_join (nodes_all xs)"
proof (induction outer n "(t, j)" and xs "(t, j)" arbitrary: t j t' j' and t j t' j' rule: inspect_inspect_all.induct)
  case (2 outer ps t j)
  show ?case
  proof (cases "node_error outer j (JObj ps)")
    case None
    with 2 [OF None] show ?thesis
      using node_error_joins [of outer j "JObj ps"] by (auto simp: max_def split: if_splits)
  next
    case (Some e)
    then show ?thesis using node_error_joins [of outer j "JObj ps"] by auto
  qed
next
  case (5 x xs t j)
  show ?case
  proof (cases "inspect False x (t, j)")
    case (Inl e)
    with 5(1) [of "t + count_nodes (\<lambda>m. has_type m ''table'') (nodes False x)" "j + count_nodes is_join (nodes False x)"]
    show ?thesis by (auto simp: max_def split: if_splits)
  next
    case (Inr c)
    obtain t1 j1 where c: "c = (t1, j1)" by (cases c)
    from 5(1) [of t1 j1] 5(2) [OF Inr [unfolded c]] Inr c show ?thesis by (auto simp: max_def split: if_splits)
  qed
qed auto

subsection \<open>Properties\<close>

text \<open>What an accepted node may be, in one list.\<close>

definition node_allowed :: "bool \<Rightarrow> json \<Rightarrow> bool" where
  "node_allowed outer n \<longleftrightarrow>
     (has_type n ''select'' \<longrightarrow> outer \<and> \<not> comma_join n \<and> limit_error n = None) \<and>
     (has_type n ''table'' \<longrightarrow> (\<exists>q t. prop_of n ''name'' = Some q \<and> t \<in> set ALLOWED_TABLES \<and>
        prop_of q ''schema'' = Some (JStr ''analytics'') \<and> prop_of q ''name'' = Some (JStr t))) \<and>
     (has_type n ''call'' \<longrightarrow> (\<exists>q f. prop_of n ''function'' = Some q \<and> truthy_prop q ''schema'' = None \<and>
        prop_of q ''name'' = Some (JStr f) \<and> lower f \<in> set ALLOWED_FUNCTIONS \<and> truthy_prop n ''over'' = None)) \<and>
     (\<forall>t \<in> set [''with'', ''with recursive'', ''CROSS JOIN'', ''cast'', ''parameter'']. \<not> has_type n t) \<and>
     truthy_prop n ''for'' = None \<and> truthy_prop n ''skip'' = None \<and>
     (has_type n ''keyword'' \<longrightarrow> (\<forall>k \<in> set SESSION_KEYWORDS. prop_of n ''keyword'' \<noteq> Some (JStr k)))"

lemma table_error_None: "table_error n = None \<longleftrightarrow> (\<exists>q t. prop_of n ''name'' = Some q \<and> t \<in> set ALLOWED_TABLES \<and>
    prop_of q ''schema'' = Some (JStr ''analytics'') \<and> prop_of q ''name'' = Some (JStr t))"
  by (auto simp: table_error_def split: option.splits json.splits)

lemma call_error_None: "call_error n = None \<longleftrightarrow> (\<exists>q f. prop_of n ''function'' = Some q \<and> truthy_prop q ''schema'' = None \<and>
    prop_of q ''name'' = Some (JStr f) \<and> lower f \<in> set ALLOWED_FUNCTIONS \<and> truthy_prop n ''over'' = None)"
  by (auto simp: call_error_def truthy_prop_def split: option.splits json.splits if_splits)

lemma node_error_allowed: "node_error outer 0 n = None \<longleftrightarrow> node_allowed outer n"
proof -
  have some: "(if a then Some x else r) = None \<longleftrightarrow> \<not> a \<and> r = None" for a :: bool and x :: query_error and r by simp
  have opt: "(if a \<and> e \<noteq> None then e else r) = None \<longleftrightarrow> (a \<longrightarrow> e = None) \<and> r = None" for a and e r :: "query_error option" by auto
  show ?thesis
    unfolding node_error_def node_allowed_def table_error_None [symmetric] call_error_None [symmetric] opt some by auto
qed

text \<open>
  C11. The sandbox check is exact: a query is let through, as the printed form of its only statement, exactly when the text is not empty nor
  too long and its tree is one SELECT all of whose nodes are allowed (no nested SELECT, WITH, cast, parameter, lock, cross
  join or session keyword, only the curated views, only the listed functions, bounded LIMIT and OFFSET), with at least
  one table and at most four joins.
\<close>

theorem analytics_check_exact:
  "validateAnalyticsQuery S query = Inr sql \<longleftrightarrow>
     (\<exists>q st. query = JStr q \<and> q \<noteq> [] \<and> length q \<le> MAX_QUERY_LENGTH \<and> sql_parse S q = Some [st] \<and> sql = sql_text S st \<and>
        has_type st ''select'' \<and> list_all (\<lambda>(outer, n). node_allowed outer n) (nodes True st) \<and>
        1 \<le> count_nodes (\<lambda>n. has_type n ''table'') (nodes True st) \<and> count_nodes is_join (nodes True st) \<le> 4)"
proof -
  have fine: "nodes_fine ns \<longleftrightarrow> list_all (\<lambda>(outer, n). node_allowed outer n) ns" for ns
    by (simp add: nodes_fine_def node_error_allowed)
  have one: "length xs = Suc 0 \<Longrightarrow> \<exists>x. xs = [x]" for xs :: "json list" by (cases xs) auto
  have i: "(case inspect True st (0, 0) of Inl e \<Rightarrow> Inl e | Inr (tables, joins) \<Rightarrow> if tables = 0 then Inl No_table else Inr t) = Inr sql \<longleftrightarrow>
      t = sql \<and> nodes_fine (nodes True st) \<and> count_nodes is_join (nodes True st) \<le> 4 \<and>
      1 \<le> count_nodes (\<lambda>n. has_type n ''table'') (nodes True st)" for st t
  proof (cases "inspect True st (0, 0)")
    case (Inl e)
    with inspect_ok(1) [of True st 0 0 "0 + count_nodes (\<lambda>m. has_type m ''table'') (nodes True st)"] show ?thesis by auto
  next
    case (Inr c)
    then obtain t' j' where "inspect True st (0, 0) = Inr (t', j')" by (cases c) auto
    with inspect_ok(1) [of True st 0 0 t' j'] show ?thesis by auto
  qed
  show ?thesis
    unfolding validateAnalyticsQuery_def Let_def
    by (cases query; auto simp: i fine split: option.splits if_splits dest!: one)
qed

subsection \<open>Daily quotas\<close>

record quota =
  qt_queries :: nat
  qt_cpuMs :: rat

definition QUOTAS :: "(string \<times> quota) list" where
  "QUOTAS =
     [(''unauthenticated'', \<lparr>qt_queries = 0, qt_cpuMs = 0\<rparr>), (''free'', \<lparr>qt_queries = 10, qt_cpuMs = 5000\<rparr>),
      (''pro'', \<lparr>qt_queries = 100, qt_cpuMs = 30000\<rparr>), (''enterprise'', \<lparr>qt_queries = 1000, qt_cpuMs = 120000\<rparr>)]"

definition quota_of :: "string \<Rightarrow> quota" where
  "quota_of tier = (case map_of QUOTAS tier of Some q \<Rightarrow> q | None \<Rightarrow> \<lparr>qt_queries = 0, qt_cpuMs = 0\<rparr>)"

text \<open>The map \<open>dailyUsage\<close>.\<close>

type_synonym usage = "(string \<times> quota) list"

definition usage_key :: "string \<Rightarrow> string \<Rightarrow> string" where
  "usage_key day clientId = day @ '':'' @ clientId"

datatype reserve_error = Quota_exceeded | Capacity_exhausted

definition reserveQuery :: "string \<Rightarrow> string \<Rightarrow> string \<Rightarrow> usage \<Rightarrow> (reserve_error + quota) \<times> usage" where
  "reserveQuery day clientId tier m =
     (let quota = quota_of tier;
          key = usage_key day clientId;
          m1 = filter (\<lambda>(k, _). prefix (day @ '':'') k) m;
          u = (case map_of m1 key of Some u \<Rightarrow> u | None \<Rightarrow> \<lparr>qt_queries = 0, qt_cpuMs = 0\<rparr>)
      in if qt_queries u \<ge> qt_queries quota then (Inl Quota_exceeded, m1)
         else if map_of m1 key = None \<and> length m1 \<ge> 10000 then (Inl Capacity_exhausted, m1)
         else let u' = u\<lparr>qt_queries := qt_queries u + 1\<rparr> in (Inr u', put_prop key u' m1))"

text \<open>\<open>usage.cpuMs += durationMs\<close> on the entry of the reservation, while its day lasts.\<close>

definition charge_cpu :: "string \<Rightarrow> rat \<Rightarrow> usage \<Rightarrow> rat \<times> usage" where
  "charge_cpu key ms m =
     (case map_of m key of
        Some u \<Rightarrow> (qt_cpuMs u + ms, put_prop key (u\<lparr>qt_cpuMs := qt_cpuMs u + ms\<rparr>) m)
      | None \<Rightarrow> (ms, m))"

subsection \<open>executeAnalyticsQuery\<close>

record analytics_db =
  db_up :: bool
  db_ok :: "string list \<Rightarrow> string \<Rightarrow> bool"
  db_cost :: "string \<Rightarrow> rat option"
  db_rows :: "string \<Rightarrow> json list"
  db_duration :: rat

datatype run_error =
    Not_configured | Bad_format | Rejected query_error | Refused reserve_error | Plan_too_expensive | Cpu_exceeded | Db_error

record query_result =
  qr_rows :: "json list"
  qr_row_count :: nat
  qr_truncated :: bool

text \<open>Statements until the first that fails.\<close>

fun run_all :: "(string list \<Rightarrow> string \<Rightarrow> bool) \<Rightarrow> string list \<Rightarrow> string list \<Rightarrow> bool \<times> string list" where
  "run_all ok sent [] = (True, sent)"
| "run_all ok sent (s # ss) = (if ok sent s then run_all ok (sent @ [s]) ss else (False, sent @ [s]))"

definition session_setup :: "string list" where
  "session_setup = [''BEGIN READ ONLY'', ''SET LOCAL statement_timeout = '' @ [CHR 39] @ ''3000ms'' @ [CHR 39],
     ''SET LOCAL work_mem = '' @ [CHR 39] @ ''16MB'' @ [CHR 39], ''SET LOCAL default_transaction_read_only = on'']"

definition explain_sql :: "string \<Rightarrow> string" where
  "explain_sql safeSql = ''EXPLAIN (FORMAT JSON) '' @ safeSql"

definition limited_sql :: "string \<Rightarrow> string" where
  "limited_sql safeSql = ''SELECT * FROM ('' @ safeSql @ '') AS analytics_result LIMIT '' @ dec (ROW_LIMIT + 1)"

text \<open>The transaction: its outcome, the statements sent, and the CPU time charged.\<close>

definition analytics_session ::
  "analytics_db \<Rightarrow> quota \<Rightarrow> string \<Rightarrow> string \<Rightarrow> usage \<Rightarrow> (run_error + query_result) \<times> string list \<times> usage" where
  "analytics_session D quota key safeSql m =
     (case run_all (db_ok D) [] (session_setup @ [explain_sql safeSql]) of
        (False, sent) \<Rightarrow> (Inl Db_error, sent @ [''ROLLBACK''], m)
      | (True, sent) \<Rightarrow>
          (case db_cost D safeSql of
             None \<Rightarrow> (Inl Plan_too_expensive, sent @ [''ROLLBACK''], m)
           | Some cost \<Rightarrow>
               if cost > MAX_EXPLAIN_COST then (Inl Plan_too_expensive, sent @ [''ROLLBACK''], m)
               else if \<not> db_ok D sent (limited_sql safeSql) then (Inl Db_error, sent @ [limited_sql safeSql, ''ROLLBACK''], m)
               else let sent1 = sent @ [limited_sql safeSql];
                        rows = db_rows D safeSql;
                        (cpu, m1) = charge_cpu key (db_duration D) m
                    in if cpu > qt_cpuMs quota then (Inl Cpu_exceeded, sent1 @ [''ROLLBACK''], m1)
                       else if \<not> db_ok D sent1 ''COMMIT'' then (Inl Db_error, sent1 @ [''COMMIT'', ''ROLLBACK''], m1)
                       else (Inr \<lparr>qr_rows = take ROW_LIMIT rows, qr_row_count = min (length rows) ROW_LIMIT,
                                  qr_truncated = (length rows > ROW_LIMIT)\<rparr>, sent1 @ [''COMMIT''], m1)))"

definition executeAnalyticsQuery ::
  "sql_api \<Rightarrow> analytics_db option \<Rightarrow> json \<Rightarrow> string \<Rightarrow> string \<Rightarrow> string \<Rightarrow> string \<Rightarrow> usage
     \<Rightarrow> (run_error + query_result) \<times> string list \<times> usage" where
  "executeAnalyticsQuery S pool query day clientId tier format m =
     (case pool of
        None \<Rightarrow> (Inl Not_configured, [], m)
      | Some D \<Rightarrow>
          if format \<notin> {''json'', ''csv''} then (Inl Bad_format, [], m)
          else (case validateAnalyticsQuery S query of
                  Inl e \<Rightarrow> (Inl (Rejected e), [], m)
                | Inr safeSql \<Rightarrow>
                    (case reserveQuery day clientId tier m of
                       (Inl e, m1) \<Rightarrow> (Inl (Refused e), [], m1)
                     | (Inr u, m1) \<Rightarrow>
                         if \<not> db_up D then (Inl Db_error, [], m1)
                         else analytics_session D (quota_of tier) (usage_key day clientId) safeSql m1)))"

subsection \<open>toCsv\<close>

definition double_quotes :: "string \<Rightarrow> string" where
  "double_quotes s = concat (map (\<lambda>c. if c = CHR ''\"'' then [c, c] else [c]) s)"

definition csv_field :: "string \<Rightarrow> string" where
  "csv_field s = CHR ''\"'' # double_quotes s @ [CHR ''\"'']"

definition csv_text :: "(json \<Rightarrow> string) \<Rightarrow> json option \<Rightarrow> string" where
  "csv_text stringify v =
     (case v of None \<Rightarrow> [] | Some JNull \<Rightarrow> []
      | Some (JArr xs) \<Rightarrow> stringify (JArr xs) | Some (JObj ps) \<Rightarrow> stringify (JObj ps) | Some x \<Rightarrow> text_of x)"

definition csv_records :: "(json \<Rightarrow> string) \<Rightarrow> (string \<times> json) list list \<Rightarrow> string list list" where
  "csv_records stringify rows =
     (let columns = map fst (hd rows)
      in columns # map (\<lambda>row. map (\<lambda>c. csv_text stringify (map_of row c)) columns) rows)"

definition CRLF :: string where "CRLF = [CHR 13, CHR 10]"

definition toCsv :: "(json \<Rightarrow> string) \<Rightarrow> (string \<times> json) list list \<Rightarrow> string" where
  "toCsv stringify rows =
     (if rows = [] then [] else join CRLF (map (\<lambda>r. join '','' (map csv_field r)) (csv_records stringify rows)))"

subsection \<open>Quotas hold\<close>

text \<open>What happens during one day: reservations, and CPU time charged when queries end.\<close>

datatype quota_op = Reserve string string | Charge string rat

definition queries_used :: "string \<Rightarrow> string \<Rightarrow> usage \<Rightarrow> nat" where
  "queries_used day c m = (case map_of m (usage_key day c) of Some u \<Rightarrow> qt_queries u | None \<Rightarrow> 0)"

fun quota_run :: "string \<Rightarrow> string \<Rightarrow> quota_op list \<Rightarrow> usage \<Rightarrow> nat" where
  "quota_run day c [] m = 0"
| "quota_run day c (Reserve c' tier # ops) m =
     (case reserveQuery day c' tier m of (r, m') \<Rightarrow>
        (case r of Inr _ \<Rightarrow> if c' = c then 1 else 0 | Inl _ \<Rightarrow> 0) + quota_run day c ops m')"
| "quota_run day c (Charge k ms # ops) m = quota_run day c ops (snd (charge_cpu k ms m))"

lemma usage_key_day [simp]: "prefix (day @ '':'') (usage_key day c)" "usage_key day c = usage_key day c' \<longleftrightarrow> c = c'"
  by (simp_all add: usage_key_def)

lemma reserve_used:
  assumes "reserveQuery day c' tier m = (r, m')"
  shows "queries_used day c m' = queries_used day c m + (case r of Inr _ \<Rightarrow> if c' = c then 1 else 0 | Inl _ \<Rightarrow> 0) \<and>
    (case r of Inr u \<Rightarrow> queries_used day c' m < qt_queries (quota_of tier) | Inl _ \<Rightarrow> True)"
proof -
  let ?m = "filter (\<lambda>(k, _). prefix (day @ '':'') k) m"
  have look: "map_of ?m (usage_key day d) = map_of m (usage_key day d)" for d by (simp add: map_of_filter_key [where P = "prefix (day @ '':'')"])
  show ?thesis
    using assms by (auto simp: reserveQuery_def Let_def look queries_used_def map_of_put_prop split: if_splits option.splits)
qed

lemma charge_used [simp]: "queries_used day c (snd (charge_cpu k ms m)) = queries_used day c m"
  by (auto simp: charge_cpu_def queries_used_def map_of_put_prop split: option.splits)

text \<open>
  C40. In one day a client runs at most the number of queries of its tier, however its requests interleave with those of
  others and with the ends of queries.
\<close>

theorem analytics_quota:
  assumes "\<forall>tier. Reserve c tier \<in> set ops \<longrightarrow> quota_of tier = q"
  shows "quota_run day c ops m \<le> qt_queries q - queries_used day c m"
  using assms
proof (induction ops arbitrary: m)
  case (Cons op ops)
  show ?case
  proof (cases op)
    case (Reserve c' tier)
    obtain r m' where r: "reserveQuery day c' tier m = (r, m')" by (cases "reserveQuery day c' tier m")
    have "quota_run day c ops m' \<le> qt_queries q - queries_used day c m'" using Cons by auto
    moreover have "c' = c \<Longrightarrow> quota_of tier = q" using Cons.prems Reserve by simp
    ultimately show ?thesis using reserve_used [OF r, of c] r Reserve by (auto split: sum.splits if_splits)
  next
    case (Charge k ms)
    then show ?thesis using Cons.IH [of "snd (charge_cpu k ms m)"] Cons.prems by simp
  qed
qed simp

theorem analytics_quota_witness:
  "quota_run ''2024-05-01'' ''c'' [Reserve ''c'' ''free'', Reserve ''d'' ''pro'', Charge ''k'' 7, Reserve ''c'' ''free''] [] \<le> 10"
proof -
  let ?ops = "[Reserve ''c'' ''free'', Reserve ''d'' ''pro'', Charge ''k'' 7, Reserve ''c'' ''free'']"
  have "\<forall>tier. Reserve ''c'' tier \<in> set ?ops \<longrightarrow> quota_of tier = quota_of ''free''" by simp
  from analytics_quota [OF this, of "''2024-05-01''" "[]"] show ?thesis
    by (simp add: quota_of_def QUOTAS_def queries_used_def)
qed

subsection \<open>The session\<close>

lemma run_all_sent: "run_all ok sent ss = (b, sent') \<Longrightarrow> \<exists>n \<le> length ss. sent' = sent @ take n ss \<and> (ss \<noteq> [] \<longrightarrow> 0 < n) \<and> (b \<longrightarrow> n = length ss)"
proof (induction ok sent ss rule: run_all.induct)
  case (2 ok sent s ss)
  show ?case
  proof (cases "ok sent s")
    case True
    with 2 obtain n where "n \<le> length ss" "sent' = (sent @ [s]) @ take n ss" "b \<longrightarrow> n = length ss" by auto
    then show ?thesis by (intro exI [of _ "Suc n"]) simp
  next
    case False
    with 2 show ?thesis by (intro exI [of _ 1]) simp
  qed
qed simp

definition read_only_trace :: "string \<Rightarrow> string list \<Rightarrow> bool" where
  "read_only_trace sql sent \<longleftrightarrow> hd sent = ''BEGIN READ ONLY'' \<and> last sent \<in> {''COMMIT'', ''ROLLBACK''} \<and>
     set sent \<subseteq> set session_setup \<union> {explain_sql sql, limited_sql sql, ''COMMIT'', ''ROLLBACK''}"

definition answered :: "(run_error + query_result) \<Rightarrow> string list \<Rightarrow> bool" where
  "answered out sent \<longleftrightarrow> (case out of Inr r \<Rightarrow> sent \<noteq> [] \<and> last sent = ''COMMIT'' \<and> length (qr_rows r) \<le> ROW_LIMIT | Inl _ \<Rightarrow> True)"

lemma answered_simps [simp]:
  "answered (Inl e) sent"
  "answered (Inr r) sent \<longleftrightarrow> sent \<noteq> [] \<and> last sent = ''COMMIT'' \<and> length (qr_rows r) \<le> ROW_LIMIT"
  by (simp_all add: answered_def)

lemma read_only_trace_append:
  assumes "s \<noteq> []" "hd s = ''BEGIN READ ONLY''" "set s \<subseteq> set session_setup \<union> {explain_sql sql}"
    and "set t \<subseteq> {limited_sql sql, ''COMMIT'', ''ROLLBACK''}" "z \<in> {''COMMIT'', ''ROLLBACK''}"
  shows "read_only_trace sql (s @ t @ [z])"
  using assms unfolding read_only_trace_def by (simp add: subset_iff) blast

lemma session_read_only:
  assumes "analytics_session D q key sql m1 = (out, sent, m')"
  shows "read_only_trace sql sent \<and> answered out sent"
proof -
  obtain b s where r: "run_all (db_ok D) [] (session_setup @ [explain_sql sql]) = (b, s)" by fastforce
  from run_all_sent [OF r] obtain n where n: "s = take n (session_setup @ [explain_sql sql])" "0 < n" by auto
  then have h: "s \<noteq> []" "hd s = ''BEGIN READ ONLY''" by (cases n; simp add: session_setup_def)+
  have "set s \<subseteq> set (session_setup @ [explain_sql sql])" using n(1) by (metis set_take_subset)
  then have "set s \<subseteq> set session_setup \<union> {explain_sql sql}" by simp
  note trace = read_only_trace_append [OF h this]
  have t: "read_only_trace sql (s @ [''ROLLBACK''])" "read_only_trace sql (s @ [limited_sql sql, ''ROLLBACK''])"
    "read_only_trace sql (s @ [limited_sql sql, ''COMMIT'', ''ROLLBACK''])" "read_only_trace sql (s @ [limited_sql sql, ''COMMIT''])"
    using trace [of "[]" "''ROLLBACK''"] trace [of "[limited_sql sql]" "''ROLLBACK''"]
      trace [of "[limited_sql sql, ''COMMIT'']" "''ROLLBACK''"] trace [of "[limited_sql sql]" "''COMMIT''"] by simp_all
  show ?thesis
    using assms t unfolding analytics_session_def r
    by (auto simp: Let_def split: option.splits if_splits prod.splits bool.splits)
qed

text \<open>
  Whatever the database does, a call sends nothing at all or a read-only transaction: it starts with BEGIN READ ONLY, sends no
  statement but the session settings and the checked query (explained, then wrapped in a row limit), ends with COMMIT or
  ROLLBACK, returns rows only after COMMIT, and never more than 1000.
\<close>

lemma analytics_session_read_only:
  assumes "executeAnalyticsQuery S pool query day clientId tier format m = (out, sent, m')"
  shows "(sent = [] \<or> (\<exists>sql. validateAnalyticsQuery S query = Inr sql \<and> read_only_trace sql sent)) \<and> answered out sent"
proof (cases "pool = None \<or> format \<notin> {''json'', ''csv''} \<or> (\<exists>e. validateAnalyticsQuery S query = Inl e)")
  case True
  then show ?thesis using assms by (auto simp: executeAnalyticsQuery_def split: option.splits if_splits)
next
  case False
  then obtain D sql where D: "pool = Some D" and f: "format \<in> {''json'', ''csv''}" and v: "validateAnalyticsQuery S query = Inr sql"
    by (cases "validateAnalyticsQuery S query") auto
  obtain r m1 where r: "reserveQuery day clientId tier m = (r, m1)" by fastforce
  show ?thesis
  proof (cases "\<exists>u. r = Inr u \<and> db_up D")
    case True
    then have "analytics_session D (quota_of tier) (usage_key day clientId) sql m1 = (out, sent, m')"
      using assms D f v r by (auto simp: executeAnalyticsQuery_def)
    from session_read_only [OF this] v show ?thesis by blast
  next
    case False
    then show ?thesis using assms D f v r by (cases r) (auto simp: executeAnalyticsQuery_def)
  qed
qed

lemma analytics_session_read_only_witness:
  "\<exists>out sent m'. executeAnalyticsQuery S None query day c ''pro'' ''json'' m = (out, sent, m') \<and> answered out sent"
  using analytics_session_read_only [of S None query day c "''pro''" "''json''" m "Inl Not_configured" "[]" m]
  by (simp add: executeAnalyticsQuery_def)

subsection \<open>CSV text can be read back\<close>

text \<open>A reader of quoted CSV: the rest of a field after its opening quote, and the records.\<close>

fun read_field :: "string \<Rightarrow> string \<times> string" where
  "read_field [] = ([], [])"
| "read_field [c] = (if c = CHR ''\"'' then ([], []) else ([c], []))"
| "read_field (c # d # cs) =
     (if c \<noteq> CHR ''\"'' then (case read_field (d # cs) of (f, r) \<Rightarrow> (c # f, r))
      else if d = CHR ''\"'' then (case read_field cs of (f, r) \<Rightarrow> (c # f, r))
      else ([], d # cs))"

lemma read_field_shrinks: "length (snd (read_field s)) \<le> length s"
  by (induction s rule: read_field.induct) (auto split: prod.splits)

lemma read_field_rest: "(f, r) = read_field s \<Longrightarrow> length r \<le> length s"
  using read_field_shrinks [of s] by (metis snd_conv)

function (sequential) read_csv :: "string \<Rightarrow> string list list" where
  "read_csv [] = []"
| "read_csv (q # cs) =
     (case read_field cs of
        (f, c # r) \<Rightarrow>
          if c = CHR '','' then (case read_csv r of [] \<Rightarrow> [[f]] | rec # recs \<Rightarrow> (f # rec) # recs)
          else [f] # read_csv (tl r)
      | (f, []) \<Rightarrow> [[f]])"
  by pat_completeness auto
termination
  by (relation "measure length") (auto dest!: read_field_rest)

lemma double_quotes_simps [simp]:
  "double_quotes [] = []" "double_quotes (c # s) = (if c = CHR ''\"'' then [c, c] else [c]) @ double_quotes s"
  by (simp_all add: double_quotes_def)

lemma read_field_quoted:
  assumes "r = [] \<or> hd r \<noteq> CHR ''\"''"
  shows "read_field (double_quotes s @ CHR ''\"'' # r) = (s, r)"
proof (induction s)
  case Nil
  with assms show ?case by (cases r) auto
next
  case (Cons c s)
  obtain d ds where "double_quotes s @ CHR ''\"'' # r = d # ds" by (cases "double_quotes s") auto
  with Cons show ?case by (cases "c = CHR ''\"''") simp_all
qed

lemma read_csv_record:
  assumes "fs \<noteq> []" "r = [] \<or> (\<exists>t. r = CHR 13 # CHR 10 # t)"
  shows "read_csv (join '','' (map csv_field fs) @ r) = fs # read_csv (drop 2 r)"
  using assms
proof (induction "'',''::string" fs rule: join.induct)
  case (2 f)
  then show ?case using read_field_quoted [of r f] by (auto simp: csv_field_def)
next
  case (3 f g gs)
  have "read_field (double_quotes f @ CHR ''\"'' # CHR '','' # join '','' (map csv_field (g # gs)) @ r)
      = (f, CHR '','' # join '','' (map csv_field (g # gs)) @ r)"
    by (rule read_field_quoted) simp
  with 3 show ?case by (simp add: csv_field_def)
qed simp

lemma read_csv_records:
  assumes "list_all (\<lambda>fs. fs \<noteq> []) recs"
  shows "read_csv (join CRLF (map (\<lambda>r. join '','' (map csv_field r)) recs)) = recs"
  using assms
proof (induction recs rule: induct_list012)
  case (2 fs)
  then show ?case using read_csv_record [of fs "[]"] by simp
next
  case (3 fs gs recs)
  then show ?case using read_csv_record [of fs "CRLF @ join CRLF (map (\<lambda>r. join '','' (map csv_field r)) (gs # recs))"]
    by (simp add: CRLF_def)
qed simp

text \<open>
  The CSV of a result can be read back: quotes, commas and line ends inside a value never make a field or a record of
  their own, and there is one record for the header and one for every row.
\<close>

lemma csv_roundtrip:
  assumes "rows \<noteq> []" "hd rows \<noteq> []"
  shows "read_csv (toCsv stringify rows) = map fst (hd rows) # map (\<lambda>row. map (\<lambda>(c, _). csv_text stringify (map_of row c)) (hd rows)) rows"
proof -
  have "list_all (\<lambda>fs. fs \<noteq> []) (csv_records stringify rows)" using assms by (auto simp: csv_records_def Let_def list_all_iff)
  from read_csv_records [OF this] assms show ?thesis by (simp add: toCsv_def csv_records_def Let_def case_prod_beta comp_def)
qed

lemma csv_roundtrip_witness:
  "read_csv (toCsv (\<lambda>_. ''{}'') [[(''a'', JStr [CHR ''\"'', CHR '','']), (''b'', JNull)], [(''b'', JObj [])]])
     = [[''a'', ''b''], [[CHR ''\"'', CHR '',''], []], [[], ''{}'']]"
  using csv_roundtrip [of "[[(''a'', JStr [CHR ''\"'', CHR '','']), (''b'', JNull)], [(''b'', JObj [])]]" "\<lambda>_. ''{}''"]
  by (simp add: csv_text_def)

end
