(* ===== verification/Leader_Lease.thy ===== *)
theory Leader_Lease
  imports Js_Prelude
begin

section \<open>Leader election by a lease (indexer/src/optional/leaderElection.js)\<close>

text \<open>
  Instances compete for one Redis key. The server is a parameter, its commands a record of functions on an opaque
  state at a time in milliseconds; the two Lua scripts are written over them. A command is sent by a timer, evaluated at
  some later time and answered later still, or its promise is rejected (before or after the evaluation): commands and
  replies under way are kept beside the instances, and every order of the steps is a run. The callbacks of
  \<open>start\<close>, which only log in index.js, are left out. Shown: a leader whose last grant is younger than the lease holds the
  key, so there is one such leader; nobody takes over before the lease runs out, not even its owner after a failed renewal;
  and an instance that does not renew in time goes on as a leader beside its successor.
\<close>

subsection \<open>The server\<close>

record 'r lease_redis =
  set_nx_ex :: "int \<Rightarrow> string \<Rightarrow> string \<Rightarrow> nat \<Rightarrow> 'r \<Rightarrow> bool \<times> 'r"
  get_value :: "int \<Rightarrow> string \<Rightarrow> 'r \<Rightarrow> string option"
  expire_key :: "int \<Rightarrow> string \<Rightarrow> nat \<Rightarrow> 'r \<Rightarrow> bool \<times> 'r"
  del_key :: "int \<Rightarrow> string \<Rightarrow> 'r \<Rightarrow> bool \<times> 'r"

text \<open>What is observed of the server: the value and the deadline under a key; an entry is gone at its deadline.\<close>

type_synonym 'r leases = "'r \<Rightarrow> string \<Rightarrow> (string \<times> int) option"

definition held :: "int \<Rightarrow> (string \<times> int) option \<Rightarrow> (string \<times> int) option" where
  "held now e = (case e of Some (v, d) \<Rightarrow> if now < d then e else None | None \<Rightarrow> None)"

definition lease_documented :: "'r lease_redis \<Rightarrow> 'r leases \<Rightarrow> bool" where
  "lease_documented R entry \<longleftrightarrow>
     (\<forall>now k v ttl r ok r'. set_nx_ex R now k v ttl r = (ok, r') \<longrightarrow>
        (ok \<longleftrightarrow> held now (entry r k) = None) \<and>
        entry r' = (if ok then (entry r)(k \<mapsto> (v, now + int ttl * 1000)) else entry r)) \<and>
     (\<forall>now k r. get_value R now k r = map_option fst (held now (entry r k))) \<and>
     (\<forall>now k ttl r ok r'. expire_key R now k ttl r = (ok, r') \<longrightarrow>
        (ok \<longleftrightarrow> held now (entry r k) \<noteq> None) \<and>
        entry r' = (entry r)(k := map_option (\<lambda>(v, _). (v, now + int ttl * 1000)) (held now (entry r k)))) \<and>
     (\<forall>now k r ok r'. del_key R now k r = (ok, r') \<longrightarrow>
        (ok \<longleftrightarrow> held now (entry r k) \<noteq> None) \<and> entry r' = (entry r)(k := None))"

lemma lease_documentedD:
  assumes "lease_documented R entry"
  shows "set_nx_ex R now k v ttl r = (ok, r') \<Longrightarrow>
      (ok \<longleftrightarrow> held now (entry r k) = None) \<and>
      entry r' = (if ok then (entry r)(k \<mapsto> (v, now + int ttl * 1000)) else entry r)"
    and "get_value R now k r = map_option fst (held now (entry r k))"
    and "expire_key R now k ttl r = (ok, r') \<Longrightarrow>
      (ok \<longleftrightarrow> held now (entry r k) \<noteq> None) \<and>
      entry r' = (entry r)(k := map_option (\<lambda>(v, _). (v, now + int ttl * 1000)) (held now (entry r k)))"
    and "del_key R now k r = (ok, r') \<Longrightarrow> entry r' = (entry r)(k := None)"
proof -
  note l = assms [unfolded lease_documented_def]
  show "set_nx_ex R now k v ttl r = (ok, r') \<Longrightarrow>
      (ok \<longleftrightarrow> held now (entry r k) = None) \<and>
      entry r' = (if ok then (entry r)(k \<mapsto> (v, now + int ttl * 1000)) else entry r)"
    using l [THEN conjunct1] by blast
  show "get_value R now k r = map_option fst (held now (entry r k))"
    using l [THEN conjunct2, THEN conjunct1] by blast
  show "expire_key R now k ttl r = (ok, r') \<Longrightarrow>
      (ok \<longleftrightarrow> held now (entry r k) \<noteq> None) \<and>
      entry r' = (entry r)(k := map_option (\<lambda>(v, _). (v, now + int ttl * 1000)) (held now (entry r k)))"
    using l [THEN conjunct2, THEN conjunct2, THEN conjunct1] by blast
  show "del_key R now k r = (ok, r') \<Longrightarrow> entry r' = (entry r)(k := None)"
    using l [THEN conjunct2, THEN conjunct2, THEN conjunct2] by blast
qed

subsection \<open>Commands and scripts\<close>

record lease_config =
  LEADER_KEY :: string
  LEASE_TTL_S :: nat

definition RENEW_SCRIPT :: "'r lease_redis \<Rightarrow> lease_config \<Rightarrow> int \<Rightarrow> string \<Rightarrow> 'r \<Rightarrow> bool \<times> 'r" where
  "RENEW_SCRIPT R cfg now ident r =
     (if get_value R now (LEADER_KEY cfg) r = Some ident then expire_key R now (LEADER_KEY cfg) (LEASE_TTL_S cfg) r
      else (False, r))"

definition RELEASE_SCRIPT :: "'r lease_redis \<Rightarrow> lease_config \<Rightarrow> int \<Rightarrow> string \<Rightarrow> 'r \<Rightarrow> bool \<times> 'r" where
  "RELEASE_SCRIPT R cfg now ident r =
     (if get_value R now (LEADER_KEY cfg) r = Some ident then del_key R now (LEADER_KEY cfg) r else (False, r))"

datatype lease_cmd = Acquire | Renew | Release

fun evaluate_cmd :: "'r lease_redis \<Rightarrow> lease_config \<Rightarrow> int \<Rightarrow> string \<Rightarrow> lease_cmd \<Rightarrow> 'r \<Rightarrow> bool \<times> 'r" where
  "evaluate_cmd R cfg now ident Acquire r = set_nx_ex R now (LEADER_KEY cfg) ident (LEASE_TTL_S cfg) r"
| "evaluate_cmd R cfg now ident Renew r = RENEW_SCRIPT R cfg now ident r"
| "evaluate_cmd R cfg now ident Release r = RELEASE_SCRIPT R cfg now ident r"

text \<open>
  What the timers and \<open>stop\<close> send, by \<open>_isLeader\<close>, and what the reply makes of \<open>_isLeader\<close> (\<open>None\<close> is a rejected promise):
  \<open>tryAcquireLock\<close> with the election timer, \<open>renewLock\<close> with the renewal timer, \<open>releaseLock\<close> with \<open>stop\<close>.
\<close>

definition election_timer :: "bool \<Rightarrow> lease_cmd list" where
  "election_timer isLeader = (if isLeader then [] else [Acquire])"

definition renew_timer :: "bool \<Rightarrow> lease_cmd list" where
  "renew_timer isLeader = (if isLeader then [Renew] else [])"

definition stop_commands :: "bool \<Rightarrow> lease_cmd list" where
  "stop_commands isLeader = (if isLeader then [Release] else [])"

fun on_reply :: "lease_cmd \<Rightarrow> bool option \<Rightarrow> bool \<Rightarrow> bool" where
  "on_reply Acquire (Some ok) isLeader = (if ok then True else isLeader)"
| "on_reply Acquire None isLeader = isLeader"
| "on_reply Renew (Some ok) isLeader = (if ok then isLeader else False)"
| "on_reply Renew None isLeader = False"
| "on_reply Release (Some ok) isLeader = False"
| "on_reply Release None isLeader = isLeader"

subsection \<open>Runs\<close>

text \<open>
  The instances are numbered; \<open>lw_timers i\<close> is false once \<open>stop\<close> has cleared the timers. A reply keeps the time of its evaluation, and
  \<open>lw_granted\<close> the time of the last positive reply delivered to an instance: a ghost the code does not have.
\<close>

record 'r lease_world =
  lw_now :: int
  lw_redis :: 'r
  lw_leader :: "nat \<Rightarrow> bool"
  lw_timers :: "nat \<Rightarrow> bool"
  lw_flying :: "(nat \<times> lease_cmd) list"
  lw_replies :: "(nat \<times> lease_cmd \<times> bool option \<times> int) list"
  lw_granted :: "nat \<Rightarrow> int option"

definition send :: "nat \<Rightarrow> lease_cmd list \<Rightarrow> 'r lease_world \<Rightarrow> 'r lease_world" where
  "send i cs w = w\<lparr>lw_flying := lw_flying w @ map (Pair i) cs\<rparr>"

definition grant_time :: "lease_cmd \<Rightarrow> bool option \<Rightarrow> int \<Rightarrow> int option \<Rightarrow> int option" where
  "grant_time c res t old =
     (if c \<noteq> Release \<and> res = Some True then Some (case old of Some t' \<Rightarrow> max t t' | None \<Rightarrow> t) else old)"

inductive lease_step :: "'r lease_redis \<Rightarrow> lease_config \<Rightarrow> (nat \<Rightarrow> string) \<Rightarrow> 'r lease_world \<Rightarrow> 'r lease_world \<Rightarrow> bool"
  for R cfg ident where
  lease_tick: "0 \<le> d \<Longrightarrow> lease_step R cfg ident w (w\<lparr>lw_now := lw_now w + d\<rparr>)"
| lease_election: "lw_timers w i \<Longrightarrow> lease_step R cfg ident w (send i (election_timer (lw_leader w i)) w)"
| lease_renew: "lw_timers w i \<Longrightarrow> lease_step R cfg ident w (send i (renew_timer (lw_leader w i)) w)"
| lease_stop: "lw_timers w i \<Longrightarrow>
    lease_step R cfg ident w (send i (stop_commands (lw_leader w i)) (w\<lparr>lw_timers := (lw_timers w)(i := False)\<rparr>))"
| lease_evaluate: "\<lbrakk>(i, c) \<in> set (lw_flying w); evaluate_cmd R cfg (lw_now w) (ident i) c (lw_redis w) = (ok, r')\<rbrakk> \<Longrightarrow>
    lease_step R cfg ident w (w\<lparr>lw_redis := r', lw_flying := remove1 (i, c) (lw_flying w),
      lw_replies := (i, c, Some ok, lw_now w) # lw_replies w\<rparr>)"
| lease_reject: "(i, c) \<in> set (lw_flying w) \<Longrightarrow>
    lease_step R cfg ident w (w\<lparr>lw_flying := remove1 (i, c) (lw_flying w), lw_replies := (i, c, None, lw_now w) # lw_replies w\<rparr>)"
| lease_cut: "(i, c, res, t) \<in> set (lw_replies w) \<Longrightarrow>
    lease_step R cfg ident w (w\<lparr>lw_replies := (i, c, None, t) # remove1 (i, c, res, t) (lw_replies w)\<rparr>)"
| lease_reply: "(i, c, res, t) \<in> set (lw_replies w) \<Longrightarrow>
    lease_step R cfg ident w (w\<lparr>lw_replies := remove1 (i, c, res, t) (lw_replies w),
      lw_leader := (lw_leader w)(i := on_reply c res (lw_leader w i)),
      lw_granted := (lw_granted w)(i := grant_time c res t (lw_granted w i))\<rparr>)"

inductive_cases lease_stepE: "lease_step R cfg ident w w'"

definition lease_start :: "int \<Rightarrow> 'r \<Rightarrow> 'r lease_world" where
  "lease_start now r = \<lparr>lw_now = now, lw_redis = r, lw_leader = (\<lambda>_. False), lw_timers = (\<lambda>_. True), lw_flying = [],
     lw_replies = [], lw_granted = (\<lambda>_. None)\<rparr>"

inductive lease_reachable :: "'r lease_redis \<Rightarrow> lease_config \<Rightarrow> (nat \<Rightarrow> string) \<Rightarrow> int \<Rightarrow> 'r \<Rightarrow> 'r lease_world \<Rightarrow> bool"
  for R cfg ident now0 r0 where
  lease_init: "lease_reachable R cfg ident now0 r0 (lease_start now0 r0)"
| lease_next: "\<lbrakk>lease_reachable R cfg ident now0 r0 w; lease_step R cfg ident w w'\<rbrakk> \<Longrightarrow> lease_reachable R cfg ident now0 r0 w'"

subsection \<open>The holder of the key\<close>

definition ttl_ms :: "lease_config \<Rightarrow> int" where
  "ttl_ms cfg = int (LEASE_TTL_S cfg) * 1000"

text \<open>The evaluation times of the positive replies an instance has or will get.\<close>

definition grants :: "'r lease_world \<Rightarrow> nat \<Rightarrow> int \<Rightarrow> bool" where
  "grants w i t \<longleftrightarrow> lw_granted w i = Some t \<or> (\<exists>c. c \<noteq> Release \<and> (i, c, Some True, t) \<in> set (lw_replies w))"

definition holds_key :: "'r leases \<Rightarrow> lease_config \<Rightarrow> string \<Rightarrow> int \<Rightarrow> 'r \<Rightarrow> bool" where
  "holds_key entry cfg me t r \<longleftrightarrow> (\<exists>d \<ge> t. entry r (LEADER_KEY cfg) = Some (me, d))"

definition lease_ok :: "'r leases \<Rightarrow> lease_config \<Rightarrow> (nat \<Rightarrow> string) \<Rightarrow> 'r lease_world \<Rightarrow> bool" where
  "lease_ok entry cfg ident w \<longleftrightarrow>
     (\<forall>i t. grants w i t \<longrightarrow> t \<le> lw_now w) \<and>
     (\<forall>i. lw_leader w i \<longrightarrow> lw_granted w i \<noteq> None) \<and>
     (\<forall>i. lw_timers w i \<longrightarrow> (i, Release) \<notin> set (lw_flying w)) \<and>
     (\<forall>i t. lw_timers w i \<longrightarrow> grants w i t \<longrightarrow> lw_now w < t + ttl_ms cfg \<longrightarrow>
        holds_key entry cfg (ident i) (t + ttl_ms cfg) (lw_redis w))"

lemma lease_okD:
  assumes "lease_ok entry cfg ident w"
  shows "grants w i t \<Longrightarrow> t \<le> lw_now w" "lw_leader w i \<Longrightarrow> lw_granted w i \<noteq> None"
    "lw_timers w i \<Longrightarrow> (i, Release) \<notin> set (lw_flying w)"
    "lw_timers w i \<Longrightarrow> grants w i t \<Longrightarrow> lw_now w < t + ttl_ms cfg \<Longrightarrow>
       holds_key entry cfg (ident i) (t + ttl_ms cfg) (lw_redis w)"
  using assms unfolding lease_ok_def by blast+

lemma held_Some [simp]: "held now (Some (v, d)) = (if now < d then Some (v, d) else None)"
  by (simp add: held_def)

lemma held_SomeD: "held now e = Some (v, d) \<Longrightarrow> e = Some (v, d) \<and> now < d"
  by (auto simp: held_def split: option.splits if_splits)

lemma acquire_entry:
  assumes "lease_documented R entry" "evaluate_cmd R cfg now me Acquire r = (ok, r')"
  shows "ok \<longleftrightarrow> held now (entry r (LEADER_KEY cfg)) = None"
    "entry r' = (if ok then (entry r)(LEADER_KEY cfg \<mapsto> (me, now + ttl_ms cfg)) else entry r)"
  using lease_documentedD(1) [OF assms(1), of now "LEADER_KEY cfg" me "LEASE_TTL_S cfg" r ok r'] assms(2)
  by (simp_all add: ttl_ms_def)

lemma get_value_held:
  assumes "lease_documented R entry"
  shows "get_value R now k r = Some me \<longleftrightarrow> (\<exists>d. held now (entry r k) = Some (me, d))"
  by (cases "held now (entry r k)") (auto simp: lease_documentedD(2) [OF assms])

lemma renew_entry:
  assumes "lease_documented R entry" "evaluate_cmd R cfg now me Renew r = (ok, r')"
  shows "ok \<longleftrightarrow> (\<exists>d. held now (entry r (LEADER_KEY cfg)) = Some (me, d))"
    "entry r' = (if ok then (entry r)(LEADER_KEY cfg \<mapsto> (me, now + ttl_ms cfg)) else entry r)"
proof -
  note e = lease_documentedD(3) [OF assms(1), of now "LEADER_KEY cfg" "LEASE_TTL_S cfg" r ok r']
  from assms(2) show "ok \<longleftrightarrow> (\<exists>d. held now (entry r (LEADER_KEY cfg)) = Some (me, d))"
    using e by (auto simp: RENEW_SCRIPT_def get_value_held [OF assms(1)] split: if_splits)
  from assms(2) show "entry r' = (if ok then (entry r)(LEADER_KEY cfg \<mapsto> (me, now + ttl_ms cfg)) else entry r)"
    using e by (auto simp: RENEW_SCRIPT_def get_value_held [OF assms(1)] ttl_ms_def split: if_splits)
qed

lemma release_entry:
  assumes "lease_documented R entry" "evaluate_cmd R cfg now me Release r = (ok, r')"
  shows "entry r' = (if \<exists>d. held now (entry r (LEADER_KEY cfg)) = Some (me, d) then (entry r)(LEADER_KEY cfg := None) else entry r)"
  using assms(2) lease_documentedD(4) [OF assms(1), of now "LEADER_KEY cfg" r ok r']
  by (auto simp: RELEASE_SCRIPT_def get_value_held [OF assms(1)] split: if_splits)

text \<open>A command of another instance, or a renewal, leaves an unexpired lease with its holder.\<close>

lemma evaluate_keeps_holder:
  assumes "lease_documented R entry" "evaluate_cmd R cfg now other c r = (ok, r')"
    and "holds_key entry cfg me t r" "now < t" "t \<le> now + ttl_ms cfg" "c = Release \<Longrightarrow> other \<noteq> me"
  shows "holds_key entry cfg me t r'"
proof -
  obtain d where d: "entry r (LEADER_KEY cfg) = Some (me, d)" "t \<le> d" using assms(3) by (auto simp: holds_key_def)
  then have h: "held now (entry r (LEADER_KEY cfg)) = Some (me, d)" using assms(4) by simp
  show ?thesis
  proof (cases c)
    case Acquire
    with acquire_entry [OF assms(1), of cfg now other r] assms(2,3) h show ?thesis by (auto simp: holds_key_def)
  next
    case Renew
    with renew_entry [OF assms(1), of cfg now other r] assms(2,3,5) h show ?thesis by (auto simp: holds_key_def)
  next
    case Release
    with release_entry [OF assms(1), of cfg now other r] assms(2,3,6) h show ?thesis by (auto simp: holds_key_def)
  qed
qed

lemma evaluate_grants:
  assumes "lease_documented R entry" "evaluate_cmd R cfg now me c r = (True, r')" "c \<noteq> Release"
  shows "holds_key entry cfg me (now + ttl_ms cfg) r'"
  using assms acquire_entry(2) [OF assms(1), of cfg now me r] renew_entry(2) [OF assms(1), of cfg now me r]
  by (cases c) (auto simp: holds_key_def)

lemma lease_ok_mono:
  assumes "lease_ok entry cfg ident w" "lw_now w \<le> lw_now w'" "lw_redis w' = lw_redis w"
    and "\<And>i t. grants w' i t \<Longrightarrow> grants w i t" "\<And>i. lw_timers w' i \<Longrightarrow> lw_timers w i"
    and "\<And>i. lw_leader w' i \<Longrightarrow> lw_granted w' i \<noteq> None"
    and "\<And>i. lw_timers w' i \<Longrightarrow> (i, Release) \<in> set (lw_flying w') \<Longrightarrow> (i, Release) \<in> set (lw_flying w)"
  shows "lease_ok entry cfg ident w'"
  unfolding lease_ok_def using lease_okD [OF assms(1)] assms(2-7) by (smt (verit, best))

lemma lease_evaluate_ok:
  assumes "lease_documented R entry" "inj ident" "lease_ok entry cfg ident w" "(i, c) \<in> set (lw_flying w)"
    and e: "evaluate_cmd R cfg (lw_now w) (ident i) c (lw_redis w) = (ok, r')"
  shows "lease_ok entry cfg ident (w\<lparr>lw_redis := r', lw_flying := remove1 (i, c) (lw_flying w),
      lw_replies := (i, c, Some ok, lw_now w) # lw_replies w\<rparr>)" (is "lease_ok _ _ _ ?w")
proof -
  note ok = lease_okD [OF assms(3)]
  have g: "grants ?w j t \<longleftrightarrow> grants w j t \<or> j = i \<and> t = lw_now w \<and> ok \<and> c \<noteq> Release" for j t
    by (auto simp: grants_def)
  have key: "holds_key entry cfg (ident j) (t + ttl_ms cfg) r'"
    if "lw_timers w j" "grants ?w j t" "lw_now w < t + ttl_ms cfg" for j t
  proof (cases "grants w j t")
    case True
    have "ident i \<noteq> ident j" if "c = Release" using ok(3) [OF \<open>lw_timers w j\<close>] assms(4) that inj_eq [OF assms(2)] by metis
    with evaluate_keeps_holder [OF assms(1) e ok(4) [OF that(1) True that(3)] that(3)] ok(1) [OF True] show ?thesis by simp
  next
    case False
    with that g have "j = i" "t = lw_now w" "ok" "c \<noteq> Release" by auto
    with evaluate_grants [OF assms(1), of cfg "lw_now w" "ident i" c "lw_redis w" r'] e show ?thesis by simp
  qed
  have rel: "(j, Release) \<notin> set (remove1 (i, c) (lw_flying w))" if "lw_timers w j" for j
    using ok(3) [OF that] notin_set_remove1 by metis
  show ?thesis
    using key g ok(1,2) rel unfolding lease_ok_def by auto
qed

lemma grant_time_cases: "grant_time c res t old = Some u \<Longrightarrow> old = Some u \<or> c \<noteq> Release \<and> res = Some True \<and> t = u"
  by (auto simp: grant_time_def max_def split: if_splits option.splits)

lemma leader_granted:
  "on_reply c res l \<Longrightarrow> (l \<Longrightarrow> old \<noteq> None) \<Longrightarrow> grant_time c res t old \<noteq> None"
  by (cases "(c, res, l)" rule: on_reply.cases) (auto simp: grant_time_def split: option.splits if_splits)

lemma lease_step_ok:
  assumes "lease_documented R entry" "inj ident" "lease_ok entry cfg ident w" "lease_step R cfg ident w w'"
  shows "lease_ok entry cfg ident w'"
proof -
  note ok = lease_okD [OF assms(3)]
  have leader: "lw_leader w j \<Longrightarrow> \<exists>y. lw_granted w j = Some y" for j using ok(2) by blast
  from assms(4) show ?thesis
  proof cases
    case (lease_tick d)
    then show ?thesis by (intro lease_ok_mono [OF assms(3)]) (auto simp: grants_def leader)
  next
    case (lease_election i)
    then show ?thesis
      by (intro lease_ok_mono [OF assms(3)]) (auto simp: grants_def leader send_def election_timer_def split: if_splits)
  next
    case (lease_renew i)
    then show ?thesis
      by (intro lease_ok_mono [OF assms(3)]) (auto simp: grants_def leader send_def renew_timer_def split: if_splits)
  next
    case (lease_stop i)
    then show ?thesis
      by (intro lease_ok_mono [OF assms(3)]) (auto simp: grants_def leader send_def stop_commands_def split: if_splits)
  next
    case (lease_evaluate i c ok r')
    then show ?thesis using lease_evaluate_ok [OF assms(1-3)] by simp
  next
    case (lease_reject i c)
    then show ?thesis
      by (intro lease_ok_mono [OF assms(3)]) (auto simp: grants_def leader dest: notin_set_remove1 set_remove1_subset [THEN subsetD])
  next
    case (lease_cut i c res t)
    then show ?thesis
      by (intro lease_ok_mono [OF assms(3)]) (auto simp: grants_def leader dest: set_remove1_subset [THEN subsetD])
  next
    case (lease_reply i c res t)
    have "grants w' j u \<Longrightarrow> grants w j u" for j u
      using lease_reply grant_time_cases [of c res t "lw_granted w i" u]
      by (auto simp: grants_def split: if_splits dest: set_remove1_subset [THEN subsetD])
    moreover have "lw_leader w' j \<Longrightarrow> lw_granted w' j \<noteq> None" for j
      using lease_reply(1) ok(2) leader_granted [of c res "lw_leader w i" "lw_granted w i" t] by (auto split: if_splits)
    ultimately show ?thesis using lease_reply(1) by (intro lease_ok_mono [OF assms(3)]) auto
  qed
qed

lemma lease_reachable_ok:
  assumes "lease_documented R entry" "inj ident" "lease_reachable R cfg ident now0 r0 w"
  shows "lease_ok entry cfg ident w"
  using assms(3)
proof (induction rule: lease_reachable.induct)
  case lease_init
  show ?case by (simp add: lease_ok_def lease_start_def grants_def)
qed (rule lease_step_ok [OF assms(1,2)])

subsection \<open>Properties\<close>

text \<open>A leader that has not been stopped and whose last grant is younger than the lease.\<close>

definition fresh_leader :: "lease_config \<Rightarrow> 'r lease_world \<Rightarrow> nat \<Rightarrow> bool" where
  "fresh_leader cfg w i \<longleftrightarrow>
     lw_leader w i \<and> lw_timers w i \<and> (case lw_granted w i of Some t \<Rightarrow> lw_now w < t + ttl_ms cfg | None \<Rightarrow> False)"

definition toy_lease :: "(string \<Rightarrow> (string \<times> int) option) lease_redis" where
  "toy_lease =
     \<lparr>set_nx_ex = (\<lambda>now k v ttl r. if held now (r k) = None then (True, r(k \<mapsto> (v, now + int ttl * 1000))) else (False, r)),
      get_value = (\<lambda>now k r. map_option fst (held now (r k))),
      expire_key = (\<lambda>now k ttl r. (held now (r k) \<noteq> None, r(k := map_option (\<lambda>(v, _). (v, now + int ttl * 1000)) (held now (r k))))),
      del_key = (\<lambda>now k r. (held now (r k) \<noteq> None, r(k := None)))\<rparr>"

lemma toy_lease_documented: "lease_documented toy_lease id"
  unfolding lease_documented_def by (auto simp: toy_lease_def split: if_splits)

lemma fresh_leader_holds:
  assumes "lease_documented R entry" "inj ident" "lease_reachable R cfg ident now0 r0 w" "fresh_leader cfg w i"
  shows "\<exists>d > lw_now w. entry (lw_redis w) (LEADER_KEY cfg) = Some (ident i, d)"
proof -
  obtain t where "lw_timers w i" "grants w i t" "lw_now w < t + ttl_ms cfg"
    using assms(4) by (auto simp: fresh_leader_def grants_def split: option.splits)
  from lease_okD(4) [OF lease_reachable_ok [OF assms(1-3)] this] this(3) show ?thesis by (auto simp: holds_key_def)
qed

text \<open>
  C4. However the commands and replies of all instances interleave, are delayed or lost, a running leader whose last granted
  renewal was evaluated less than a lease ago holds the key, and no other instance is such a leader.
\<close>

theorem lease_exclusive:
  assumes "lease_documented R entry" "inj ident" "lease_reachable R cfg ident now0 r0 w"
    and "fresh_leader cfg w i" "fresh_leader cfg w j"
  shows "i = j \<and> (\<exists>d > lw_now w. entry (lw_redis w) (LEADER_KEY cfg) = Some (ident i, d))"
  using fresh_leader_holds [OF assms(1-4)] fresh_leader_holds [OF assms(1-3,5)] inj_eq [OF assms(2)] by auto

definition example_cfg :: lease_config where
  "example_cfg = \<lparr>LEADER_KEY = ''k'', LEASE_TTL_S = 10\<rparr>"

definition acquired_world :: "(string \<Rightarrow> (string \<times> int) option) lease_world" where
  "acquired_world = (lease_start 0 Map.empty)\<lparr>lw_redis := [''k'' \<mapsto> (''a'', 10000)], lw_leader := (\<lambda>_. False)(0 := True),
     lw_granted := (\<lambda>_. None)(0 := Some 0)\<rparr>"

text \<open>A sent command that is evaluated and answered at once.\<close>

lemma prompt_command:
  assumes "lease_reachable R cfg ident now0 r0 w" "lease_step R cfg ident w (send i [c] w)"
    and "evaluate_cmd R cfg (lw_now w) (ident i) c (lw_redis w) = (ok, r')" "lw_flying w = []" "lw_replies w = []"
  shows "lease_reachable R cfg ident now0 r0 (w\<lparr>lw_redis := r', lw_flying := [], lw_replies := [], lw_leader := (lw_leader w)(i := on_reply c (Some ok) (lw_leader w i)),
      lw_granted := (lw_granted w)(i := grant_time c (Some ok) (lw_now w) (lw_granted w i))\<rparr>)"
proof -
  let ?w1 = "send i [c] w"
  let ?w2 = "?w1\<lparr>lw_redis := r', lw_flying := remove1 (i, c) (lw_flying ?w1), lw_replies := (i, c, Some ok, lw_now ?w1) # lw_replies ?w1\<rparr>"
  have "lease_reachable R cfg ident now0 r0 ?w1" by (rule lease_next [OF assms(1,2)])
  moreover have "lease_step R cfg ident ?w1 ?w2" using assms(3) by (intro lease_evaluate) (simp_all add: send_def)
  ultimately have w2: "lease_reachable R cfg ident now0 r0 ?w2" by (rule lease_next)
  have "lease_step R cfg ident ?w2 (?w2\<lparr>lw_replies := remove1 (i, c, Some ok, lw_now w) (lw_replies ?w2),
      lw_leader := (lw_leader ?w2)(i := on_reply c (Some ok) (lw_leader ?w2 i)),
      lw_granted := (lw_granted ?w2)(i := grant_time c (Some ok) (lw_now w) (lw_granted ?w2 i))\<rparr>)"
    by (rule lease_reply) (simp add: send_def)
  from lease_next [OF w2 this] show ?thesis using assms(4,5) by (simp add: send_def)
qed

lemma acquired_reachable:
  assumes "ident 0 = ''a''"
  shows "lease_reachable toy_lease example_cfg ident 0 Map.empty acquired_world"
proof -
  let ?w = "lease_start 0 Map.empty :: (string \<Rightarrow> (string \<times> int) option) lease_world"
  have "lease_step toy_lease example_cfg ident ?w (send 0 [Acquire] ?w)"
    using lease_election [of ?w 0 toy_lease example_cfg ident] by (simp add: lease_start_def election_timer_def)
  from prompt_command [OF lease_init this, of True "[''k'' \<mapsto> (''a'', 10000)]"] show ?thesis
    using assms by (simp add: lease_start_def acquired_world_def toy_lease_def example_cfg_def held_def grant_time_def)
qed

theorem lease_exclusive_witness:
  "\<exists>d > 0. id (lw_redis acquired_world) ''k'' = Some (''a'', d)"
proof -
  have "inj (\<lambda>n. replicate (Suc n) CHR ''a'')" by (rule injI) (metis length_replicate nat.inject)
  moreover have "fresh_leader example_cfg acquired_world 0"
    by (simp add: fresh_leader_def acquired_world_def lease_start_def example_cfg_def ttl_ms_def)
  ultimately show ?thesis
    using lease_exclusive [OF toy_lease_documented _ acquired_reachable, of "\<lambda>n. replicate (Suc n) CHR ''a''" 0 0]
    by (simp add: acquired_world_def lease_start_def example_cfg_def)
qed

text \<open>
  While a lease runs nobody takes it, its owner included: a leader that steps down because the reply to a renewal was lost waits
  for the end of its own lease.
\<close>

lemma takeover_waits:
  assumes "lease_documented R entry" "entry r (LEADER_KEY cfg) = Some (v, d)" "evaluate_cmd R cfg now me Acquire r = (ok, r')"
  shows "ok \<longleftrightarrow> d \<le> now"
  using acquire_entry(1) [OF assms(1,3)] assms(2) by auto

text \<open>
  \<open>isLeader\<close> alone does not exclude another leader: from every reachable state with a leader whose lease runs, a run that
  only lets time pass and lets another instance poll ends with both as leaders.
\<close>

lemma unrenewed_leader_stays:
  assumes "lease_documented R entry" "inj ident" "lease_reachable R cfg ident now0 r0 w" "fresh_leader cfg w i"
    and "j \<noteq> i" "lw_timers w j" "\<not> lw_leader w j" "lw_flying w = []" "lw_replies w = []"
  shows "\<exists>w'. lease_reachable R cfg ident now0 r0 w' \<and> lw_timers w' i \<and> lw_timers w' j \<and> lw_leader w' i \<and> lw_leader w' j"
proof -
  obtain d where d: "lw_now w < d" "entry (lw_redis w) (LEADER_KEY cfg) = Some (ident i, d)"
    using fresh_leader_holds [OF assms(1-4)] by blast
  let ?w = "w\<lparr>lw_now := d\<rparr>"
  have "lease_step R cfg ident w ?w" using lease_tick [of "d - lw_now w" R cfg ident w] d(1) by simp
  with assms(3) have w: "lease_reachable R cfg ident now0 r0 ?w" by (rule lease_next)
  obtain ok r' where e: "evaluate_cmd R cfg d (ident j) Acquire (lw_redis w) = (ok, r')" by fastforce
  have "ok" using takeover_waits [OF assms(1) d(2) e] by simp
  have "lease_step R cfg ident ?w (send j [Acquire] ?w)"
    using lease_election [of ?w j R cfg ident] assms(6,7) by (simp add: election_timer_def)
  note p = prompt_command [OF w this, of ok r']
  have "\<exists>w'. lease_reachable R cfg ident now0 r0 w' \<and> lw_leader w' = (lw_leader w)(j := True) \<and> lw_timers w' = lw_timers w"
    by (rule exI, rule conjI, rule p) (use e \<open>ok\<close> assms(7-9) in simp_all)
  with assms(4-6) show ?thesis by (auto simp: fresh_leader_def)
qed

lemma unrenewed_leader_stays_witness:
  "\<exists>w' :: (string \<Rightarrow> (string \<times> int) option) lease_world. lw_leader w' 0 \<and> lw_leader w' 1"
proof -
  have "inj (\<lambda>n. replicate (Suc n) CHR ''a'')" by (rule injI) (metis length_replicate nat.inject)
  moreover have "fresh_leader example_cfg acquired_world 0"
    by (simp add: fresh_leader_def acquired_world_def lease_start_def example_cfg_def ttl_ms_def)
  ultimately show ?thesis
    using unrenewed_leader_stays [OF toy_lease_documented _ acquired_reachable, of "\<lambda>n. replicate (Suc n) CHR ''a''" 0 1]
    by (auto simp: acquired_world_def lease_start_def)
qed

end
