(* ===== verification/Outbox_Relay.thy ===== *)
theory Outbox_Relay
  imports Js_Prelude
begin

section \<open>The outbox relay (indexer/src/outboxRelay.js)\<close>

text \<open>
  Events wait in the table \<open>indexer_outbox\<close> until a relay has published them to the live feed and handed them to the webhook
  delivery. The table is the list of its rows; a claim is one transaction, and the rows of a claimed batch are dispatched one by one while
  other relays run. Publishing calls the handlers of the connected WebSocket clients (wsEvents.js). The webhook delivery
  (webhookDelivery.js) fails when the query of the subscriptions does, and returns whatever becomes of the single requests: their
  outcomes, and the success of the final update, are given with the step. Shown: two relays hold the same row only when their claims
  are more than five minutes apart, and a row is marked only after its publication and its hand-over, which does not say that
  a webhook was delivered; one connected client without a filter keeps
  every row of its network from being dispatched, and sibling events of a transaction lose all but one.
\<close>

subsection \<open>The table\<close>

record 'p outbox_row =
  ob_id :: nat
  ob_event_id :: string
  ob_payload :: 'p
  ob_locked :: "int option"
  ob_dispatched :: "int option"

text \<open>
  The id is the next of the sequence, which moves on even when the insert fails; an event without an id of its own gets a random one
  (\<open>fresh\<close>). \<open>event_id\<close> is unique: a second row with it is an error. index.js makes the id of an event from its
  sequence number, or from contract, ledger and transaction when it has none (a decoded event never has one).
\<close>

definition outbox_event_id :: "string option \<Rightarrow> string \<Rightarrow> string \<Rightarrow> string \<Rightarrow> string" where
  "outbox_event_id seq contract ledger tx = (case seq of Some s \<Rightarrow> s | None \<Rightarrow> contract @ '':'' @ ledger @ '':'' @ tx)"

definition enqueueOutbox ::
  "string \<Rightarrow> 'p \<Rightarrow> string option \<Rightarrow> nat \<times> 'p outbox_row list \<Rightarrow> nat option \<times> (nat \<times> 'p outbox_row list)" where
  "enqueueOutbox fresh payload eventId t =
     (case t of (next_id, rows) \<Rightarrow>
        let eid = (case eventId of Some e \<Rightarrow> e | None \<Rightarrow> fresh)
        in if eid \<in> ob_event_id ` set rows then (None, (Suc next_id, rows))
           else (Some next_id, (Suc next_id, rows @ [\<lparr>ob_id = next_id, ob_event_id = eid, ob_payload = payload,
                                                     ob_locked = None, ob_dispatched = None\<rparr>])))"

definition LOCK_MS :: int where "LOCK_MS = 300000"

definition claimable :: "int \<Rightarrow> 'p outbox_row \<Rightarrow> bool" where
  "claimable now row \<longleftrightarrow> ob_dispatched row = None \<and> (case ob_locked row of None \<Rightarrow> True | Some l \<Rightarrow> l < now - LOCK_MS)"

definition claimOutbox :: "nat \<Rightarrow> int \<Rightarrow> 'p outbox_row list \<Rightarrow> 'p outbox_row list \<times> 'p outbox_row list" where
  "claimOutbox limit now rows =
     (let picked = take limit (sort_key ob_id (filter (claimable now) rows))
      in (picked, map (\<lambda>r. if ob_id r \<in> ob_id ` set picked then r\<lparr>ob_locked := Some now\<rparr> else r) rows))"

definition mark_dispatched :: "nat \<Rightarrow> int \<Rightarrow> 'p outbox_row list \<Rightarrow> 'p outbox_row list" where
  "mark_dispatched i now rows =
     map (\<lambda>r. if ob_id r = i \<and> ob_dispatched r = None then r\<lparr>ob_dispatched := Some now, ob_locked := None\<rparr> else r) rows"

subsection \<open>The live feed (indexer/src/wsEvents.js)\<close>

record 'p ws_client =
  wc_network :: string
  wc_open :: bool
  wc_matches :: "'p \<Rightarrow> bool"

text \<open>
  The handler of a client: \<open>False\<close> when it throws. Past the filter it reads \<open>pendingEventsByLedger\<close>, a variable that is
  declared nowhere.
\<close>

definition ws_handler :: "'p ws_client \<Rightarrow> 'p \<Rightarrow> bool" where
  "ws_handler c event = (if \<not> wc_open c then True else if \<not> wc_matches c event then True else False)"

text \<open>\<open>bus.emit\<close> calls the listeners of the event's network in order and passes on the first exception.\<close>

definition publish :: "('p \<Rightarrow> string) \<Rightarrow> 'p ws_client list \<Rightarrow> 'p \<Rightarrow> bool" where
  "publish network_of clients event = list_all (\<lambda>c. ws_handler c event) (filter (\<lambda>c. wc_network c = network_of event) clients)"

subsection \<open>Relays\<close>

text \<open>A run of \<open>relayOutboxOnce\<close>: its claim time, the row whose webhooks are under way, and the rows that follow.\<close>

record 'p relay =
  rl_claimed :: int
  rl_current :: "'p outbox_row option"
  rl_rest :: "'p outbox_row list"

record 'p outbox_world =
  ow_now :: int
  ow_table :: "nat \<times> 'p outbox_row list"
  ow_relays :: "'p relay list"
  ow_clients :: "'p ws_client list"
  ow_published :: "nat list"
  ow_handed :: "nat list"

text \<open>\<open>dispatchOutboxRow\<close> up to the webhooks: publish, or give the row up.\<close>

definition dispatch_begin :: "('p \<Rightarrow> string) \<Rightarrow> 'p ws_client list \<Rightarrow> 'p relay \<Rightarrow> 'p relay \<times> nat list" where
  "dispatch_begin network_of clients rl =
     (case rl_rest rl of
        [] \<Rightarrow> (rl, [])
      | r # rs \<Rightarrow> if publish network_of clients (ob_payload r) then (rl\<lparr>rl_current := Some r, rl_rest := rs\<rparr>, [ob_id r])
                  else (rl\<lparr>rl_rest := rs\<rparr>, []))"

text \<open>
  \<open>deliverWebhooksForEvent\<close>: \<open>None\<close> when the query of the subscriptions fails, else the outcome of each subscription's delivery. A failed
  delivery is logged inside, and the call returns.
\<close>

type_synonym webhook_outcomes = "bool list option"

definition delivery_returns :: "webhook_outcomes \<Rightarrow> bool" where
  "delivery_returns webhooks \<longleftrightarrow> webhooks \<noteq> None"

text \<open>The rest of \<open>dispatchOutboxRow\<close>; \<open>update\<close> says whether the UPDATE succeeds.\<close>

definition dispatch_end ::
  "int \<Rightarrow> webhook_outcomes \<Rightarrow> bool \<Rightarrow> 'p relay \<Rightarrow> 'p outbox_row list \<Rightarrow> 'p relay \<times> 'p outbox_row list \<times> nat list" where
  "dispatch_end now webhooks update rl rows =
     (case rl_current rl of
        None \<Rightarrow> (rl, rows, [])
      | Some r \<Rightarrow>
          if \<not> delivery_returns webhooks then (rl\<lparr>rl_current := None\<rparr>, rows, [])
          else (rl\<lparr>rl_current := None\<rparr>, (if update then mark_dispatched (ob_id r) now rows else rows), [ob_id r]))"

inductive outbox_step :: "('p \<Rightarrow> string) \<Rightarrow> 'p outbox_world \<Rightarrow> 'p outbox_world \<Rightarrow> bool" for network_of where
  outbox_tick: "0 \<le> d \<Longrightarrow> outbox_step network_of w (w\<lparr>ow_now := ow_now w + d\<rparr>)"
| outbox_clients: "outbox_step network_of w (w\<lparr>ow_clients := cs\<rparr>)"
| outbox_enqueue: "outbox_step network_of w (w\<lparr>ow_table := snd (enqueueOutbox fresh payload eventId (ow_table w))\<rparr>)"
| outbox_claim: "claimOutbox limit (ow_now w) (snd (ow_table w)) = (picked, rows) \<Longrightarrow>
    outbox_step network_of w (w\<lparr>ow_table := (fst (ow_table w), rows),
      ow_relays := ow_relays w @ [\<lparr>rl_claimed = ow_now w, rl_current = None, rl_rest = picked\<rparr>]\<rparr>)"
| outbox_begin: "\<lbrakk>k < length (ow_relays w); rl_current (ow_relays w ! k) = None;
    dispatch_begin network_of (ow_clients w) (ow_relays w ! k) = (rl, out)\<rbrakk> \<Longrightarrow>
    outbox_step network_of w (w\<lparr>ow_relays := (ow_relays w)[k := rl], ow_published := ow_published w @ out\<rparr>)"
| outbox_end: "\<lbrakk>k < length (ow_relays w); dispatch_end (ow_now w) webhooks update (ow_relays w ! k) (snd (ow_table w)) = (rl, rows, out)\<rbrakk> \<Longrightarrow>
    outbox_step network_of w (w\<lparr>ow_table := (fst (ow_table w), rows), ow_relays := (ow_relays w)[k := rl],
      ow_handed := ow_handed w @ out\<rparr>)"
| outbox_crash: "k < length (ow_relays w) \<Longrightarrow>
    outbox_step network_of w (w\<lparr>ow_relays := (ow_relays w)[k := (ow_relays w ! k)\<lparr>rl_current := None, rl_rest := []\<rparr>]\<rparr>)"

inductive_cases outbox_stepE: "outbox_step network_of w w'"

definition outbox_start :: "int \<Rightarrow> 'p outbox_world" where
  "outbox_start now = \<lparr>ow_now = now, ow_table = (1, []), ow_relays = [], ow_clients = [], ow_published = [], ow_handed = []\<rparr>"

inductive outbox_reachable :: "('p \<Rightarrow> string) \<Rightarrow> int \<Rightarrow> 'p outbox_world \<Rightarrow> bool" for network_of now0 where
  outbox_init: "outbox_reachable network_of now0 (outbox_start now0)"
| outbox_next: "\<lbrakk>outbox_reachable network_of now0 w; outbox_step network_of w w'\<rbrakk> \<Longrightarrow> outbox_reachable network_of now0 w'"

subsection \<open>Rows and claims\<close>

definition rl_rows :: "'p relay \<Rightarrow> 'p outbox_row list" where
  "rl_rows rl = (case rl_current rl of Some r \<Rightarrow> r # rl_rest rl | None \<Rightarrow> rl_rest rl)"

lemma rl_rows_simps [simp]:
  "rl_rows \<lparr>rl_claimed = t, rl_current = None, rl_rest = rs\<rparr> = rs"
  "rl_rows (rl\<lparr>rl_current := None\<rparr>) = rl_rest rl"
  "rl_rows (rl\<lparr>rl_current := None, rl_rest := []\<rparr>) = []"
  "rl_rows (rl\<lparr>rl_current := Some r, rl_rest := rs\<rparr>) = r # rs"
  by (simp_all add: rl_rows_def)

definition same_row :: "'p outbox_row \<Rightarrow> 'p outbox_row \<Rightarrow> bool" where
  "same_row r r' \<longleftrightarrow> ob_id r = ob_id r' \<and> ob_payload r = ob_payload r'"

text \<open>A row of the table that a relay with the claim time \<open>c\<close> may hold.\<close>

definition claimed_row :: "int \<Rightarrow> 'p outbox_row \<Rightarrow> bool" where
  "claimed_row c r \<longleftrightarrow> ob_dispatched r \<noteq> None \<or> (case ob_locked r of Some t \<Rightarrow> c \<le> t | None \<Rightarrow> False)"

definition table_ok :: "int \<Rightarrow> nat \<times> 'p outbox_row list \<Rightarrow> bool" where
  "table_ok now t \<longleftrightarrow> distinct (map ob_id (snd t)) \<and> (\<forall>r \<in> set (snd t). ob_id r < fst t) \<and>
     (\<forall>r \<in> set (snd t). case ob_locked r of Some l \<Rightarrow> l \<le> now | None \<Rightarrow> True)"

definition relay_ok :: "int \<Rightarrow> 'p outbox_row list \<Rightarrow> nat list \<Rightarrow> 'p relay \<Rightarrow> bool" where
  "relay_ok now rows published rl \<longleftrightarrow> rl_claimed rl \<le> now \<and>
     (\<forall>r \<in> set (rl_rows rl). \<exists>r' \<in> set rows. same_row r r' \<and> claimed_row (rl_claimed rl) r') \<and>
     (case rl_current rl of Some r \<Rightarrow> ob_id r \<in> set published | None \<Rightarrow> True)"

definition rl_ids :: "'p relay \<Rightarrow> nat set" where
  "rl_ids rl = ob_id ` set (rl_rows rl)"

definition claims_apart :: "'p relay \<Rightarrow> 'p relay \<Rightarrow> bool" where
  "claims_apart a b \<longleftrightarrow> (rl_ids a \<inter> rl_ids b \<noteq> {} \<longrightarrow> rl_claimed a + LOCK_MS < rl_claimed b)"

definition outbox_ok :: "'p outbox_world \<Rightarrow> bool" where
  "outbox_ok w \<longleftrightarrow> table_ok (ow_now w) (ow_table w) \<and>
     (\<forall>rl \<in> set (ow_relays w). relay_ok (ow_now w) (snd (ow_table w)) (ow_published w) rl) \<and>
     sorted_wrt claims_apart (ow_relays w) \<and>
     (\<forall>r \<in> set (snd (ow_table w)). ob_dispatched r \<noteq> None \<longrightarrow> ob_id r \<in> set (ow_published w) \<inter> set (ow_handed w))"

lemma outbox_okD:
  assumes "outbox_ok w"
  shows "table_ok (ow_now w) (ow_table w)"
    "rl \<in> set (ow_relays w) \<Longrightarrow> relay_ok (ow_now w) (snd (ow_table w)) (ow_published w) rl"
    "sorted_wrt claims_apart (ow_relays w)"
    "r \<in> set (snd (ow_table w)) \<Longrightarrow> ob_dispatched r \<noteq> None \<Longrightarrow> ob_id r \<in> set (ow_published w) \<and> ob_id r \<in> set (ow_handed w)"
  using assms unfolding outbox_ok_def by blast+

lemma outbox_okI:
  assumes "table_ok (ow_now w) (ow_table w)"
    "\<And>rl. rl \<in> set (ow_relays w) \<Longrightarrow> relay_ok (ow_now w) (snd (ow_table w)) (ow_published w) rl"
    "sorted_wrt claims_apart (ow_relays w)"
    "\<And>r. r \<in> set (snd (ow_table w)) \<Longrightarrow> ob_dispatched r \<noteq> None \<Longrightarrow> ob_id r \<in> set (ow_published w) \<and> ob_id r \<in> set (ow_handed w)"
  shows "outbox_ok w"
  using assms unfolding outbox_ok_def by blast

text \<open>Replacing a relay by one with the same claim and fewer rows keeps the claims apart.\<close>

lemma claims_apart_update:
  assumes "sorted_wrt claims_apart rls" "k < length rls" "rl_claimed rl = rl_claimed (rls ! k)" "rl_ids rl \<subseteq> rl_ids (rls ! k)"
  shows "sorted_wrt claims_apart (rls[k := rl])"
  unfolding sorted_wrt_iff_nth_less
proof (intro allI impI)
  fix i j assume ij: "i < j" "j < length (rls[k := rl])"
  then have "claims_apart (rls ! i) (rls ! j)" using assms(1) by (simp add: sorted_wrt_iff_nth_less)
  then show "claims_apart (rls[k := rl] ! i) (rls[k := rl] ! j)"
    using ij assms(2-4) by (auto simp: claims_apart_def nth_list_update)
qed

lemma relay_ok_mono:
  assumes "relay_ok now rows pub rl" "now \<le> now'" "set pub \<subseteq> set pub'"
    and "\<And>r. r \<in> set rows \<Longrightarrow> \<exists>r' \<in> set rows'. same_row r r' \<and> (\<forall>c. c \<le> now \<longrightarrow> claimed_row c r \<longrightarrow> claimed_row c r')"
  shows "relay_ok now' rows' pub' rl"
proof -
  have "\<exists>r' \<in> set rows'. same_row r r' \<and> claimed_row (rl_claimed rl) r'" if r: "r \<in> set (rl_rows rl)" for r
  proof -
    obtain r1 where r1: "r1 \<in> set rows" "same_row r r1" "claimed_row (rl_claimed rl) r1"
      using assms(1) r unfolding relay_ok_def by blast
    from assms(4) [OF r1(1)] obtain r2 where "r2 \<in> set rows'" "same_row r1 r2"
      "\<forall>c. c \<le> now \<longrightarrow> claimed_row c r1 \<longrightarrow> claimed_row c r2" by blast
    with r1 assms(1) show ?thesis unfolding relay_ok_def same_row_def by metis
  qed
  with assms(1-3) show ?thesis unfolding relay_ok_def by (auto split: option.splits)
qed

lemma relay_ok_shrink:
  assumes "relay_ok now rows pub rl" "rl_claimed rl' = rl_claimed rl" "set (rl_rows rl') \<subseteq> set (rl_rows rl)"
    and "case rl_current rl' of Some r \<Rightarrow> ob_id r \<in> set pub' | None \<Rightarrow> True"
  shows "relay_ok now rows pub' rl'"
  using assms unfolding relay_ok_def by auto

subsection \<open>Every step keeps the claims apart\<close>

lemma same_row_refl [simp]: "same_row r r"
  by (simp add: same_row_def)

lemma relay_ok_superset:
  assumes "relay_ok now rows pub rl" "now \<le> now'" "set pub \<subseteq> set pub'" "set rows \<subseteq> set rows'"
  shows "relay_ok now' rows' pub' rl"
  by (rule relay_ok_mono [OF assms(1-3)]) (use assms(4) same_row_refl in blast)

lemma claimed_row_le: "claimed_row c r \<Longrightarrow> ob_dispatched r = None \<Longrightarrow> \<exists>t \<ge> c. ob_locked r = Some t"
  by (auto simp: claimed_row_def split: option.splits)

lemma claim_picked:
  assumes "claimOutbox limit now rows = (picked, rows')"
  shows "r \<in> set picked \<Longrightarrow> r \<in> set rows \<and> claimable now r"
    and "rows' = map (\<lambda>r. if ob_id r \<in> ob_id ` set picked then r\<lparr>ob_locked := Some now\<rparr> else r) rows"
proof -
  have p: "picked = take limit (sort_key ob_id (filter (claimable now) rows))" using assms by (auto simp: claimOutbox_def Let_def)
  then have "set picked \<subseteq> set (filter (claimable now) rows)" using set_take_subset [of limit] by (metis set_sort)
  then show "r \<in> set picked \<Longrightarrow> r \<in> set rows \<and> claimable now r" by auto
  show "rows' = map (\<lambda>r. if ob_id r \<in> ob_id ` set picked then r\<lparr>ob_locked := Some now\<rparr> else r) rows"
    using assms p by (auto simp: claimOutbox_def Let_def)
qed

lemma unique_row:
  "table_ok now t \<Longrightarrow> r \<in> set (snd t) \<Longrightarrow> r' \<in> set (snd t) \<Longrightarrow> ob_id r = ob_id r' \<Longrightarrow> r = r'"
  unfolding table_ok_def by (meson distinct_map inj_onD)

lemma outbox_claim_ok:
  assumes "outbox_ok w" and c: "claimOutbox limit (ow_now w) (snd (ow_table w)) = (picked, rows)"
  shows "outbox_ok (w\<lparr>ow_table := (fst (ow_table w), rows),
      ow_relays := ow_relays w @ [\<lparr>rl_claimed = ow_now w, rl_current = None, rl_rest = picked\<rparr>]\<rparr>)"
proof -
  note ok = outbox_okD [OF assms(1)]
  let ?lock = "\<lambda>r :: 'a outbox_row. if ob_id r \<in> ob_id ` set picked then r\<lparr>ob_locked := Some (ow_now w)\<rparr> else r"
  have rows: "rows = map ?lock (snd (ow_table w))" by (rule claim_picked(2) [OF c])
  have ids: "ob_id \<circ> ?lock = ob_id" by (auto simp: fun_eq_iff)
  have table: "table_ok (ow_now w) (fst (ow_table w), rows)"
    using ok(1) unfolding table_ok_def rows by (auto simp: ids split: option.splits)
  have old: "relay_ok (ow_now w) rows (ow_published w) rl" if "rl \<in> set (ow_relays w)" for rl
  proof (rule relay_ok_mono [OF ok(2) [OF that]])
    fix r assume "r \<in> set (snd (ow_table w))"
    then have "?lock r \<in> set rows" by (simp add: rows)
    then show "\<exists>r' \<in> set rows. same_row r r' \<and> (\<forall>c. c \<le> ow_now w \<longrightarrow> claimed_row c r \<longrightarrow> claimed_row c r')"
      by (rule bexI [rotated]) (auto simp: same_row_def claimed_row_def)
  qed simp_all
  have new: "relay_ok (ow_now w) rows (ow_published w) \<lparr>rl_claimed = ow_now w, rl_current = None, rl_rest = picked\<rparr>"
    unfolding relay_ok_def
  proof (intro conjI ballI; simp)
    fix r assume r: "r \<in> set picked"
    then have "?lock r \<in> set rows" using claim_picked(1) [OF c r] by (auto simp: rows)
    with r show "\<exists>r' \<in> set rows. same_row r r' \<and> claimed_row (ow_now w) r'"
      by (intro bexI [of _ "?lock r"]) (auto simp: same_row_def claimed_row_def)
  qed
  have apart: "claims_apart rl \<lparr>rl_claimed = ow_now w, rl_current = None, rl_rest = picked\<rparr>" if rl: "rl \<in> set (ow_relays w)" for rl
    unfolding claims_apart_def
  proof
    assume "rl_ids rl \<inter> rl_ids \<lparr>rl_claimed = ow_now w, rl_current = None, rl_rest = picked\<rparr> \<noteq> {}"
    then obtain a r where ar: "a \<in> set (rl_rows rl)" "r \<in> set picked" "ob_id a = ob_id r" by (auto simp: rl_ids_def)
    obtain r' where r': "r' \<in> set (snd (ow_table w))" "same_row a r'" "claimed_row (rl_claimed rl) r'"
      using ok(2) [OF rl] ar(1) unfolding relay_ok_def by blast
    have r: "r \<in> set (snd (ow_table w))" "claimable (ow_now w) r" using claim_picked(1) [OF c ar(2)] by auto
    have "r' = r" using unique_row [OF ok(1) r'(1) r(1)] r'(2) ar(3) by (simp add: same_row_def)
    with r'(3) r(2) claimed_row_le [of "rl_claimed rl" r]
    show "rl_claimed rl + LOCK_MS < rl_claimed \<lparr>rl_claimed = ow_now w, rl_current = None, rl_rest = picked\<rparr>"
      by (auto simp: claimable_def)
  qed
  have done': "ob_id r \<in> set (ow_published w) \<and> ob_id r \<in> set (ow_handed w)" if r: "r \<in> set rows" "ob_dispatched r \<noteq> None" for r
  proof -
    obtain x where x: "x \<in> set (snd (ow_table w))" "r = ?lock x" using r(1) by (auto simp: rows)
    then have "ob_dispatched x = ob_dispatched r" "ob_id x = ob_id r" by auto
    with ok(4) [OF x(1)] r(2) show ?thesis by simp
  qed
  show ?thesis
    by (rule outbox_okI) (use table old new apart done' ok(3) in \<open>auto simp: sorted_wrt_append\<close>)
qed

lemma outbox_enqueue_ok:
  assumes "outbox_ok w"
  shows "outbox_ok (w\<lparr>ow_table := snd (enqueueOutbox fresh payload eventId (ow_table w))\<rparr>)"
proof -
  note ok = outbox_okD [OF assms]
  obtain n rows where t: "ow_table w = (n, rows)" by (cases "ow_table w")
  let ?t = "snd (enqueueOutbox fresh payload eventId (n, rows))"
  have rows: "snd ?t = rows \<or> (\<exists>e. snd ?t = rows @ [\<lparr>ob_id = n, ob_event_id = e, ob_payload = payload, ob_locked = None, ob_dispatched = None\<rparr>])"
    "fst ?t = Suc n" by (auto simp: enqueueOutbox_def Let_def)
  have tab: "table_ok (ow_now w) (n, rows)" using ok(1) t by simp
  have "table_ok (ow_now w) ?t"
    using tab rows unfolding table_ok_def by (cases ?t) fastforce
  moreover have "relay_ok (ow_now w) (snd ?t) (ow_published w) rl" if "rl \<in> set (ow_relays w)" for rl
    using ok(2) [OF that] by (rule relay_ok_superset) (use rows(1) t in auto)
  moreover have "ob_id r \<in> set (ow_published w) \<and> ob_id r \<in> set (ow_handed w)"
    if "r \<in> set (snd ?t)" "ob_dispatched r \<noteq> None" for r
    using ok(4) [of r] that rows(1) t by auto
  ultimately show ?thesis using ok(3) t unfolding outbox_ok_def by simp
qed

lemma outbox_begin_ok:
  assumes "outbox_ok w" "k < length (ow_relays w)" "rl_current (ow_relays w ! k) = None"
    and d: "dispatch_begin network_of (ow_clients w) (ow_relays w ! k) = (rl, out)"
  shows "outbox_ok (w\<lparr>ow_relays := (ow_relays w)[k := rl], ow_published := ow_published w @ out\<rparr>)"
proof -
  note ok = outbox_okD [OF assms(1)]
  have in_k: "ow_relays w ! k \<in> set (ow_relays w)" using assms(2) by simp
  have rl: "rl_claimed rl = rl_claimed (ow_relays w ! k)" "set (rl_rows rl) \<subseteq> set (rl_rows (ow_relays w ! k))"
    "case rl_current rl of Some r \<Rightarrow> ob_id r \<in> set (ow_published w @ out) | None \<Rightarrow> True"
    using assms(3) d by (auto simp: dispatch_begin_def rl_rows_def split: list.splits if_splits)
  have "relay_ok (ow_now w) (snd (ow_table w)) (ow_published w @ out) rl'" if "rl' \<in> set ((ow_relays w)[k := rl])" for rl'
  proof (cases "rl' = rl")
    case True
    then show ?thesis using relay_ok_shrink [OF ok(2) [OF in_k] rl] by simp
  next
    case False
    then have "rl' \<in> set (ow_relays w)" using that set_update_subset_insert [of "ow_relays w" k rl] by auto
    from ok(2) [OF this] show ?thesis by (rule relay_ok_superset) auto
  qed
  moreover have "sorted_wrt claims_apart ((ow_relays w)[k := rl])"
    by (rule claims_apart_update [OF ok(3) assms(2) rl(1)]) (use rl(2) in \<open>auto simp: rl_ids_def\<close>)
  ultimately show ?thesis using ok(1,4) by (intro outbox_okI) auto
qed

lemma outbox_end_ok:
  assumes "outbox_ok w" "k < length (ow_relays w)"
    and d: "dispatch_end (ow_now w) webhooks update (ow_relays w ! k) (snd (ow_table w)) = (rl, rows, out)"
  shows "outbox_ok (w\<lparr>ow_table := (fst (ow_table w), rows), ow_relays := (ow_relays w)[k := rl],
      ow_handed := ow_handed w @ out\<rparr>)"
proof -
  note ok = outbox_okD [OF assms(1)]
  have in_k: "ow_relays w ! k \<in> set (ow_relays w)" using assms(2) by simp
  have rl: "rl_claimed rl = rl_claimed (ow_relays w ! k)" "set (rl_rows rl) \<subseteq> set (rl_rows (ow_relays w ! k))"
    "case rl_current rl of Some r \<Rightarrow> ob_id r \<in> set (ow_published w) | None \<Rightarrow> True"
    using d by (auto simp: dispatch_end_def rl_rows_def split: option.splits if_splits)
  let ?mark = "\<lambda>i r. if ob_id r = i \<and> ob_dispatched r = None then r\<lparr>ob_dispatched := Some (ow_now w), ob_locked := None\<rparr> else r"
  have rows: "rows = snd (ow_table w) \<or>
      (\<exists>i. i \<in> set out \<and> i \<in> set (ow_published w) \<and> rows = map (?mark i) (snd (ow_table w)))"
    using d ok(2) [OF in_k] by (auto simp: dispatch_end_def mark_dispatched_def relay_ok_def split: option.splits if_splits)
  have ids: "ob_id \<circ> ?mark i = ob_id" for i by (auto simp: fun_eq_iff)
  have "table_ok (ow_now w) (fst (ow_table w), rows)"
    using ok(1) rows unfolding table_ok_def by (elim disjE exE conjE) (auto simp: ids split: option.splits)
  moreover have keep: "\<exists>r' \<in> set rows. same_row r r' \<and> (\<forall>c. c \<le> ow_now w \<longrightarrow> claimed_row c r \<longrightarrow> claimed_row c r')"
    if "r \<in> set (snd (ow_table w))" for r
    using rows
  proof (elim disjE exE conjE)
    fix i assume "rows = map (?mark i) (snd (ow_table w))"
    with that have "?mark i r \<in> set rows" by auto
    then show ?thesis by (rule bexI [rotated]) (auto simp: same_row_def claimed_row_def)
  qed (use that same_row_refl in blast)
  moreover have "relay_ok (ow_now w) rows (ow_published w) rl'" if "rl' \<in> set ((ow_relays w)[k := rl])" for rl'
  proof (cases "rl' = rl")
    case True
    have "relay_ok (ow_now w) (snd (ow_table w)) (ow_published w) rl" by (rule relay_ok_shrink [OF ok(2) [OF in_k] rl])
    then show ?thesis unfolding True by (rule relay_ok_mono) (use keep in auto)
  next
    case False
    then have "rl' \<in> set (ow_relays w)" using that set_update_subset_insert [of "ow_relays w" k rl] by auto
    from ok(2) [OF this] show ?thesis by (rule relay_ok_mono) (use keep in auto)
  qed
  moreover have "sorted_wrt claims_apart ((ow_relays w)[k := rl])"
    by (rule claims_apart_update [OF ok(3) assms(2) rl(1)]) (use rl(2) in \<open>auto simp: rl_ids_def\<close>)
  moreover have "ob_id r \<in> set (ow_published w) \<and> ob_id r \<in> set (ow_handed w @ out)"
    if "r \<in> set rows" "ob_dispatched r \<noteq> None" for r
    using rows that ok(4) by (elim disjE exE conjE) (auto split: if_splits)
  ultimately show ?thesis by (intro outbox_okI) auto
qed

lemma outbox_step_ok:
  assumes "outbox_ok w" "outbox_step network_of w w'"
  shows "outbox_ok w'"
  using assms(2)
proof cases
  case (outbox_tick d)
  note ok = outbox_okD [OF assms(1)]
  have "table_ok (ow_now w + d) (ow_table w)" using ok(1) outbox_tick(2) unfolding table_ok_def by (fastforce split: option.splits)
  moreover have "relay_ok (ow_now w + d) (snd (ow_table w)) (ow_published w) rl" if "rl \<in> set (ow_relays w)" for rl
    using ok(2) [OF that] by (rule relay_ok_superset) (use outbox_tick(2) in auto)
  ultimately show ?thesis using ok(3,4) outbox_tick(1) by (intro outbox_okI) auto
next
  case (outbox_crash k)
  note ok = outbox_okD [OF assms(1)]
  let ?rl = "(ow_relays w ! k)\<lparr>rl_current := None, rl_rest := []\<rparr>"
  have "relay_ok (ow_now w) (snd (ow_table w)) (ow_published w) ?rl"
    using ok(2) [of "ow_relays w ! k"] outbox_crash(2) by (simp add: relay_ok_def)
  then have "relay_ok (ow_now w) (snd (ow_table w)) (ow_published w) rl" if "rl \<in> set ((ow_relays w)[k := ?rl])" for rl
    using ok(2) that set_update_subset_insert [of "ow_relays w" k ?rl] by blast
  moreover have "sorted_wrt claims_apart ((ow_relays w)[k := ?rl])"
    by (rule claims_apart_update [OF ok(3) outbox_crash(2)]) (auto simp: rl_ids_def)
  ultimately show ?thesis using ok(1,4) outbox_crash(1) by (intro outbox_okI) auto
next
  case (outbox_clients cs)
  then show ?thesis using assms(1) by (simp add: outbox_ok_def)
next
  case (outbox_enqueue fresh payload eventId)
  then show ?thesis using outbox_enqueue_ok [OF assms(1)] by simp
next
  case outbox_claim
  then show ?thesis using outbox_claim_ok [OF assms(1)] by simp
next
  case outbox_begin
  then show ?thesis using outbox_begin_ok [OF assms(1)] by simp
next
  case outbox_end
  then show ?thesis using outbox_end_ok [OF assms(1)] by simp
qed

lemma outbox_reachable_ok: "outbox_reachable network_of now0 w \<Longrightarrow> outbox_ok w"
proof (induction rule: outbox_reachable.induct)
  case outbox_init
  show ?case by (simp add: outbox_ok_def outbox_start_def table_ok_def)
qed (rule outbox_step_ok)

subsection \<open>Properties\<close>

text \<open>
  C5. However relays overlap, crash or run late, two of them hold the same row only when the later one claimed it more than five
  minutes after the earlier one, and a row is marked as dispatched only after its publication to the live feed and after a call of
  the webhook delivery for it has returned. That call returns also when deliveries fail.
\<close>

theorem outbox_claims_apart:
  assumes "outbox_reachable network_of now0 w"
  shows "(\<forall>i j. i < j \<longrightarrow> j < length (ow_relays w) \<longrightarrow> rl_ids (ow_relays w ! i) \<inter> rl_ids (ow_relays w ! j) \<noteq> {} \<longrightarrow>
            rl_claimed (ow_relays w ! i) + LOCK_MS < rl_claimed (ow_relays w ! j)) \<and>
         (\<forall>r \<in> set (snd (ow_table w)). ob_dispatched r \<noteq> None \<longrightarrow> ob_id r \<in> set (ow_published w) \<inter> set (ow_handed w))"
  using outbox_reachable_ok [OF assms] unfolding outbox_ok_def sorted_wrt_iff_nth_less claims_apart_def by blast

text \<open>
  A run: one row is claimed, and claimed again when its lock has run out; the first relay then dispatches it, although its only
  delivery fails, and the second still holds it.
\<close>

definition queued :: "int option \<Rightarrow> int option \<Rightarrow> nat outbox_row" where
  "queued locked dispatched = \<lparr>ob_id = 1, ob_event_id = ''e'', ob_payload = 7, ob_locked = locked, ob_dispatched = dispatched\<rparr>"

definition relay_of :: "int \<Rightarrow> nat outbox_row option \<Rightarrow> nat outbox_row list \<Rightarrow> nat relay" where
  "relay_of t current rest = \<lparr>rl_claimed = t, rl_current = current, rl_rest = rest\<rparr>"

definition run_world :: "int \<Rightarrow> nat outbox_row \<Rightarrow> nat relay list \<Rightarrow> nat list \<Rightarrow> nat list \<Rightarrow> nat outbox_world" where
  "run_world now row relays published handed =
     \<lparr>ow_now = now, ow_table = (2, [row]), ow_relays = relays, ow_clients = [], ow_published = published, ow_handed = handed\<rparr>"

lemma dispatched_run:
  "outbox_reachable (\<lambda>_. ''testnet'') 0
     (run_world 300001 (queued None (Some 300001)) [relay_of 0 None [], relay_of 300001 None [queued (Some 0) None]] [1] [1])"
proof -
  let ?R = "outbox_reachable (\<lambda>_. ''testnet'') 0"
  have r1: "?R (run_world 0 (queued None None) [] [] [])"
    using outbox_next [OF outbox_init outbox_enqueue [of "\<lambda>_. ''testnet''" "outbox_start 0" "[]" "7 :: nat" "Some ''e''"]]
    by (simp add: outbox_start_def enqueueOutbox_def numeral_2_eq_2 run_world_def queued_def)
  have r2: "?R (run_world 0 (queued (Some 0) None) [relay_of 0 None [queued None None]] [] [])"
    using outbox_next [OF r1 outbox_claim [of 100 _ "[queued None None]" "[queued (Some 0) None]"]]
    by (simp add: run_world_def queued_def relay_of_def claimOutbox_def claimable_def)
  have r3: "?R (run_world 300001 (queued (Some 0) None) [relay_of 0 None [queued None None]] [] [])"
    using outbox_next [OF r2 outbox_tick [of 300001]] by (simp add: run_world_def)
  have r4: "?R (run_world 300001 (queued (Some 300001) None) [relay_of 0 None [queued None None], relay_of 300001 None [queued (Some 0) None]] [] [])"
    using outbox_next [OF r3 outbox_claim [of 100 _ "[queued (Some 0) None]" "[queued (Some 300001) None]"]]
    by (simp add: run_world_def queued_def relay_of_def claimOutbox_def claimable_def LOCK_MS_def)
  have r5: "?R (run_world 300001 (queued (Some 300001) None)
      [relay_of 0 (Some (queued None None)) [], relay_of 300001 None [queued (Some 0) None]] [1] [])"
    using outbox_next [OF r4 outbox_begin [of 0 _ _ "relay_of 0 (Some (queued None None)) []" "[1]"]]
    by (simp add: run_world_def queued_def relay_of_def dispatch_begin_def publish_def)
  show ?thesis
    using outbox_next [OF r5 outbox_end [of 0 _ "Some [False]" True "relay_of 0 None []" "[queued None (Some 300001)]" "[1]"]]
    by (simp add: run_world_def queued_def relay_of_def dispatch_end_def delivery_returns_def mark_dispatched_def)
qed

theorem outbox_claims_apart_witness:
  "(let w = run_world 300001 (queued None (Some 300001)) [relay_of 0 None [], relay_of 300001 None [queued (Some 0) None]] [1] [1]
    in \<exists>r \<in> set (snd (ow_table w)). ob_dispatched r = Some 300001 \<and> ob_id r \<in> set (ow_published w) \<inter> set (ow_handed w))"
proof -
  let ?w = "run_world 300001 (queued None (Some 300001)) [relay_of 0 None [], relay_of 300001 None [queued (Some 0) None]] [1] [1]"
  have "queued None (Some 300001) \<in> set (snd (ow_table ?w))" "ob_dispatched (queued None (Some 300001)) = Some 300001"
    by (simp_all add: run_world_def queued_def)
  moreover from this have "ob_id (queued None (Some 300001)) \<in> set (ow_published ?w) \<inter> set (ow_handed ?w)"
    using outbox_claims_apart [OF dispatched_run] by blast
  ultimately show ?thesis unfolding Let_def by blast
qed

definition example_world :: "nat outbox_world" where
  "example_world = (outbox_start 0)\<lparr>ow_table := (2, [\<lparr>ob_id = 1, ob_event_id = ''e'', ob_payload = 7, ob_locked = None, ob_dispatched = None\<rparr>]),
     ow_clients := [\<lparr>wc_network = ''testnet'', wc_open = True, wc_matches = (\<lambda>_. True)\<rparr>]\<rparr>"

lemma example_reachable: "outbox_reachable (\<lambda>_. ''testnet'') 0 example_world"
proof -
  have "outbox_reachable (\<lambda>_. ''testnet'') 0 ((outbox_start 0)\<lparr>ow_table := (2, [\<lparr>ob_id = 1, ob_event_id = ''e'', ob_payload = 7 :: nat,
      ob_locked = None, ob_dispatched = None\<rparr>])\<rparr>)"
    using outbox_next [OF outbox_init outbox_enqueue [of "\<lambda>_. ''testnet''" "outbox_start 0" "[]" "7 :: nat" "Some ''e''"]]
    by (simp add: outbox_start_def enqueueOutbox_def numeral_2_eq_2)
  from outbox_next [OF this outbox_clients] show ?thesis unfolding example_world_def .
qed

text \<open>The state of a blocked network: what is under way belongs to other networks.\<close>

definition blocked :: "('p \<Rightarrow> string) \<Rightarrow> 'p ws_client \<Rightarrow> 'p outbox_row \<Rightarrow> nat \<Rightarrow> nat \<Rightarrow> 'p outbox_world \<Rightarrow> bool" where
  "blocked network_of c r np nd w \<longleftrightarrow> outbox_ok w \<and> c \<in> set (ow_clients w) \<and>
     (\<forall>rl \<in> set (ow_relays w). case rl_current rl of Some a \<Rightarrow> network_of (ob_payload a) \<noteq> wc_network c | None \<Rightarrow> True) \<and>
     (\<exists>r' \<in> set (snd (ow_table w)). same_row r r' \<and> ob_dispatched r' = None) \<and>
     count_list (ow_published w) (ob_id r) = np \<and> count_list (ow_handed w) (ob_id r) = nd"

lemma blockedD:
  assumes "blocked network_of c r np nd w"
  shows "outbox_ok w" "c \<in> set (ow_clients w)"
    "rl \<in> set (ow_relays w) \<Longrightarrow> case rl_current rl of Some a \<Rightarrow> network_of (ob_payload a) \<noteq> wc_network c | None \<Rightarrow> True"
    "\<exists>r' \<in> set (snd (ow_table w)). same_row r r' \<and> ob_dispatched r' = None"
    "count_list (ow_published w) (ob_id r) = np" "count_list (ow_handed w) (ob_id r) = nd"
  using assms unfolding blocked_def by blast+

text \<open>A relay of a blocked network holds no other row under the id.\<close>

lemma held_payload:
  assumes "blocked network_of c r np nd w" "rl \<in> set (ow_relays w)" "a \<in> set (rl_rows rl)" "ob_id a = ob_id r"
  shows "ob_payload a = ob_payload r"
proof -
  obtain r' where r': "r' \<in> set (snd (ow_table w))" "same_row r r'" using blockedD(4) [OF assms(1)] by blast
  obtain a' where a': "a' \<in> set (snd (ow_table w))" "same_row a a'"
    using outbox_okD(2) [OF blockedD(1) [OF assms(1)] assms(2)] assms(3) unfolding relay_ok_def by blast
  from unique_row [OF outbox_okD(1) [OF blockedD(1) [OF assms(1)]] a'(1) r'(1)] a'(2) r'(2) assms(4)
  show ?thesis by (simp add: same_row_def)
qed

lemma publish_blocked:
  "c \<in> set clients \<Longrightarrow> wc_open c \<Longrightarrow> wc_matches c e \<Longrightarrow> network_of e = wc_network c \<Longrightarrow> \<not> publish network_of clients e"
  by (auto simp: publish_def ws_handler_def list_all_iff)

lemma blocked_step:
  assumes b: "blocked network_of c r np nd w" and open': "wc_open c" "\<And>e. wc_matches c e"
    and net: "network_of (ob_payload r) = wc_network c"
    and step: "outbox_step network_of w w'" "c \<in> set (ow_clients w')"
  shows "blocked network_of c r np nd w'"
proof -
  note B = blockedD [OF b]
  have ok: "outbox_ok w'" by (rule outbox_step_ok [OF B(1) step(1)])
  obtain r' where r': "r' \<in> set (snd (ow_table w))" "same_row r r'" "ob_dispatched r' = None" using B(4) by blast
  from step(1) show ?thesis
  proof cases
    case (outbox_tick d)
    then show ?thesis using ok B unfolding blocked_def by simp
  next
    case (outbox_clients cs)
    then show ?thesis using ok B step(2) unfolding blocked_def by simp
  next
    case (outbox_enqueue fresh payload eventId)
    have "r' \<in> set (snd (snd (enqueueOutbox fresh payload eventId (ow_table w))))"
      using r'(1) by (cases "ow_table w") (auto simp: enqueueOutbox_def Let_def)
    with r' show ?thesis using outbox_enqueue ok B unfolding blocked_def by auto
  next
    case (outbox_claim limit picked rows)
    let ?lock = "\<lambda>r :: 'a outbox_row. if ob_id r \<in> ob_id ` set picked then r\<lparr>ob_locked := Some (ow_now w)\<rparr> else r"
    have "?lock r' \<in> set rows" using claim_picked(2) [OF outbox_claim(2)] r'(1) by auto
    moreover have "same_row r (?lock r')" "ob_dispatched (?lock r') = None" using r'(2,3) by (simp_all add: same_row_def)
    ultimately have "\<exists>r'' \<in> set rows. same_row r r'' \<and> ob_dispatched r'' = None" by blast
    then show ?thesis using outbox_claim(1) ok B unfolding blocked_def by auto
  next
    case (outbox_begin k rl out)
    have k: "ow_relays w ! k \<in> set (ow_relays w)" using outbox_begin(2) by simp
    have "ob_id r \<notin> set out \<and> (case rl_current rl of Some a \<Rightarrow> network_of (ob_payload a) \<noteq> wc_network c | None \<Rightarrow> True)"
    proof (cases "rl_rest (ow_relays w ! k)")
      case Nil
      then show ?thesis using outbox_begin(3,4) by (auto simp: dispatch_begin_def)
    next
      case (Cons a rs)
      then have a: "a \<in> set (rl_rows (ow_relays w ! k))" using outbox_begin(3) by (simp add: rl_rows_def)
      have "network_of (ob_payload a) = wc_network c \<Longrightarrow> \<not> publish network_of (ow_clients w) (ob_payload a)"
        using publish_blocked [of c "ow_clients w" "ob_payload a"] B(2) open' by blast
      with Cons outbox_begin(3,4) held_payload [OF b k a] net show ?thesis
        by (auto simp: dispatch_begin_def split: if_splits)
    qed
    moreover have "set ((ow_relays w)[k := rl]) \<subseteq> insert rl (set (ow_relays w))" by (rule set_update_subset_insert)
    ultimately show ?thesis using outbox_begin(1) ok B unfolding blocked_def by (auto simp: count_notin)
  next
    case (outbox_end k webhooks update rl rows out)
    have k: "ow_relays w ! k \<in> set (ow_relays w)" using outbox_end(2) by simp
    have out: "ob_id r \<notin> set out \<and> rl_current rl = None"
    proof (cases "rl_current (ow_relays w ! k)")
      case None
      then show ?thesis using outbox_end(3) by (auto simp: dispatch_end_def)
    next
      case (Some a)
      then have a: "a \<in> set (rl_rows (ow_relays w ! k))" by (simp add: rl_rows_def)
      have "network_of (ob_payload a) \<noteq> wc_network c" using B(3) [OF k] Some by simp
      with Some outbox_end(3) held_payload [OF b k a] net show ?thesis
        by (auto simp: dispatch_end_def split: if_splits)
    qed
    have "r' \<in> set rows"
      using outbox_end(3) r' out by (auto simp: dispatch_end_def mark_dispatched_def same_row_def split: option.splits if_splits)
    moreover have "set ((ow_relays w)[k := rl]) \<subseteq> insert rl (set (ow_relays w))" by (rule set_update_subset_insert)
    ultimately show ?thesis using outbox_end(1) ok B out r' unfolding blocked_def by (auto simp: count_notin)
  next
    case (outbox_crash k)
    have "set ((ow_relays w)[k := (ow_relays w ! k)\<lparr>rl_current := None, rl_rest := []\<rparr>])
        \<subseteq> insert ((ow_relays w ! k)\<lparr>rl_current := None, rl_rest := []\<rparr>) (set (ow_relays w))" by (rule set_update_subset_insert)
    with outbox_crash(1) ok B show ?thesis unfolding blocked_def by auto
  qed
qed

text \<open>
  While one WebSocket client without a filter is connected, no row of its network is ever dispatched: publishing throws in
  the client's handler, so neither the webhooks nor the mark are reached, whatever else the relays and the other clients do.
\<close>

lemma open_client_blocks_outbox:
  assumes "outbox_reachable network_of now0 w0" "c \<in> set (ow_clients w0)" "wc_open c" "\<forall>e. wc_matches c e"
    and "\<forall>rl \<in> set (ow_relays w0). rl_current rl = None"
    and "r \<in> set (snd (ow_table w0))" "ob_dispatched r = None" "network_of (ob_payload r) = wc_network c"
    and "(\<lambda>w w'. outbox_step network_of w w' \<and> c \<in> set (ow_clients w'))\<^sup>*\<^sup>* w0 w"
  shows "(\<exists>r' \<in> set (snd (ow_table w)). ob_id r' = ob_id r \<and> ob_dispatched r' = None) \<and>
    count_list (ow_published w) (ob_id r) = count_list (ow_published w0) (ob_id r) \<and>
    count_list (ow_handed w) (ob_id r) = count_list (ow_handed w0) (ob_id r)"
proof -
  have "blocked network_of c r (count_list (ow_published w0) (ob_id r)) (count_list (ow_handed w0) (ob_id r)) w"
    using assms(9)
  proof (induction rule: rtranclp_induct)
    case base
    have "\<exists>r' \<in> set (snd (ow_table w0)). same_row r r' \<and> ob_dispatched r' = None" using assms(6,7) same_row_refl by blast
    then show ?case using outbox_reachable_ok [OF assms(1)] assms(2,5) unfolding blocked_def by simp
  next
    case (step w w')
    then show ?case using blocked_step [OF step.IH assms(3)] assms(4,8) by blast
  qed
  from blockedD(4-6) [OF this] show ?thesis by (auto simp: same_row_def)
qed

lemma open_client_blocks_outbox_witness:
  "\<exists>r' \<in> set (snd (ow_table (example_world\<lparr>ow_now := 5\<rparr>))). ob_id r' = 1 \<and> ob_dispatched r' = None"
proof -
  have "outbox_step (\<lambda>_. ''testnet'') example_world (example_world\<lparr>ow_now := 5\<rparr>)"
    using outbox_tick [of 5 "\<lambda>_. ''testnet''" example_world] by (simp add: example_world_def outbox_start_def)
  then show ?thesis
    using open_client_blocks_outbox [OF example_reachable, of "\<lparr>wc_network = ''testnet'', wc_open = True, wc_matches = (\<lambda>_. True)\<rparr>"
        "\<lparr>ob_id = 1, ob_event_id = ''e'', ob_payload = 7, ob_locked = None, ob_dispatched = None\<rparr>" "example_world\<lparr>ow_now := 5\<rparr>"]
    by (simp add: example_world_def outbox_start_def r_into_rtranclp)
qed

text \<open>
  Of the events of one contract in one transaction only the first is queued: the others have its id, and the insert fails.
\<close>

lemma sibling_events_lost:
  assumes "enqueueOutbox fresh p (Some (outbox_event_id None contract ledger tx)) t = (Some n, t')"
    and "enqueueOutbox fresh' p' (Some (outbox_event_id None contract ledger tx)) t' = (res, t'')"
  shows "res = None \<and> snd t'' = snd t'"
  using assms by (cases t) (auto simp: enqueueOutbox_def Let_def split: if_splits)

end
