(* ===== verification/Native_Values.thy ===== *)
theory Native_Values
  imports Json Js_Number
begin

section \<open>Decoded contract values (scValToNative, and the value helpers of indexer/src/decoder.js)\<close>

text \<open>
  The JavaScript values scValToNative makes of contract values: 32-bit integers are numbers, wider ones BigInts, symbols, strings and
  addresses texts, vectors arrays, maps objects, bytes buffers. Their String and Number, the formatters of numbers, addresses and
  amounts, and the JSON text of \<open>safeStringify\<close>. A character is a code unit; the three beyond Latin-1 that the texts need stand on
  unused codes (\<open>ELLIPSIS\<close>, \<open>ARROW\<close>, \<open>INFINITY\<close>). Numbers are exact and printed in plain notation; locale text is en-US. Shown:
  what \<open>safeStringify\<close> writes of a text reads back as the text without its NULs, unless the text spells out an escaped NUL, when
  it need not be JSON at all.
\<close>

datatype native =
    VUndef
  | VNull
  | VBool bool
  | VNum jsnum
  | VBig int
  | VStr string
  | VBytes string
  | VArr "native list"
  | VObj "(string \<times> native) list"

definition ELLIPSIS :: char where "ELLIPSIS = CHR 0x85"
definition ARROW :: char where "ARROW = CHR 0x86"
definition INFINITY :: char where "INFINITY = CHR 0x87"

subsection \<open>String and Number\<close>

text \<open>\<open>String(x)\<close> of a number, below \<open>10\<^sup>2\<^sup>1\<close> in plain notation.\<close>

fun number_text :: "jsnum \<Rightarrow> string" where
  "number_text (Num x) = num_text x"
| "number_text PInf = ''Infinity''"
| "number_text NInf = ''-Infinity''"
| "number_text NaN = ''NaN''"

fun nullish :: "native \<Rightarrow> bool" where
  "nullish VUndef = True"
| "nullish VNull = True"
| "nullish _ = False"

fun js_string :: "native \<Rightarrow> string" where
  "js_string VUndef = ''undefined''"
| "js_string VNull = ''null''"
| "js_string (VBool b) = (if b then ''true'' else ''false'')"
| "js_string (VNum x) = number_text x"
| "js_string (VBig i) = int_text i"
| "js_string (VStr s) = s"
| "js_string (VBytes s) = s"
| "js_string (VArr xs) = join '','' (map (\<lambda>x. if nullish x then [] else js_string x) xs)"
| "js_string (VObj ps) = ''[object Object]''"

fun js_number :: "native \<Rightarrow> jsnum" where
  "js_number VUndef = NaN"
| "js_number VNull = Num 0"
| "js_number (VBool b) = Num (if b then 1 else 0)"
| "js_number (VNum x) = x"
| "js_number (VBig i) = Num (of_int i)"
| "js_number (VStr s) = to_number s"
| "js_number (VBytes s) = to_number s"
| "js_number (VArr xs) = to_number (js_string (VArr xs))"
| "js_number (VObj ps) = NaN"

fun js_truthy :: "native \<Rightarrow> bool" where
  "js_truthy VUndef = False"
| "js_truthy VNull = False"
| "js_truthy (VBool b) = b"
| "js_truthy (VNum x) = (x \<noteq> Num 0 \<and> x \<noteq> NaN)"
| "js_truthy (VBig i) = (i \<noteq> 0)"
| "js_truthy (VStr s) = (s \<noteq> [])"
| "js_truthy _ = True"

text \<open>\<open>a ?? b\<close>, and the element of an array, undefined beyond its end.\<close>

definition coalesce :: "native \<Rightarrow> native \<Rightarrow> native" where
  "coalesce a b = (if nullish a then b else a)"

definition elem :: "native list \<Rightarrow> nat \<Rightarrow> native" where
  "elem xs i = (if i < length xs then xs ! i else VUndef)"

fun field :: "native \<Rightarrow> string \<Rightarrow> native" where
  "field (VObj ps) k = (case map_of ps k of Some v \<Rightarrow> v | None \<Rightarrow> VUndef)"
| "field _ k = VUndef"

lemma num_text_int: "num_text (of_int n) = int_text n"
proof -
  have "frac_digits (of_int m) = 0" for m :: int
    by (simp add: frac_digits_def upt_conv_Cons)
  moreover have "\<bar>of_int n :: rat\<bar> = of_int \<bar>n\<bar>" by simp
  ultimately show ?thesis by (simp add: num_text_def int_text_def Let_def del: of_int_abs)
qed

lemma elem_simps [simp]: "elem [] i = VUndef" "elem (x # xs) 0 = x" "elem (x # xs) (Suc i) = elem xs i"
  by (auto simp: elem_def)

lemma elem_numeral [simp]: "elem (x # xs) (numeral k) = elem xs (pred_numeral k)"
  by (simp add: numeral_eq_Suc)

lemma elem_none: "length xs \<le> i \<Longrightarrow> elem xs i = VUndef"
  by (simp add: elem_def)

subsection \<open>Numbers for readers\<close>

fun group_rev :: "string \<Rightarrow> string" where
  "group_rev (a # b # c # d # r) = a # b # c # CHR '','' # group_rev (d # r)"
| "group_rev s = s"

fun strip_zeros :: "nat \<Rightarrow> string \<Rightarrow> string" where
  "strip_zeros n [] = []"
| "strip_zeros n (c # s) = (if n < length (c # s) \<and> c = CHR ''0'' then strip_zeros n s else c # s)"

text \<open>\<open>|x|\<close> with \<open>k\<close> decimals, rounded half up, as an integer.\<close>

definition scaled :: "nat \<Rightarrow> rat \<Rightarrow> nat" where
  "scaled k x = nat \<lfloor>\<bar>x\<bar> * 10 ^ k + 1 / 2\<rfloor>"

definition with_point :: "string \<Rightarrow> string \<Rightarrow> string" where
  "with_point i f = (if f = [] then i else i @ ''.'' @ f)"

definition to_fixed :: "nat \<Rightarrow> rat \<Rightarrow> string" where
  "to_fixed k x =
     (if x < 0 then ''-'' else []) @
     with_point (dec (scaled k x div 10 ^ k)) (if k = 0 then [] else pad_start k CHR ''0'' (dec (scaled k x mod 10 ^ k)))"

text \<open>\<open>toLocaleString\<close> with a least and a greatest number of decimals.\<close>

fun to_locale :: "nat \<Rightarrow> nat \<Rightarrow> jsnum \<Rightarrow> string" where
  "to_locale least most (Num x) =
     (if x < 0 then ''-'' else []) @
     with_point (rev (group_rev (rev (dec (scaled most x div 10 ^ most)))))
       (if most = 0 then [] else rev (strip_zeros least (rev (pad_start most CHR ''0'' (dec (scaled most x mod 10 ^ most))))))"
| "to_locale least most PInf = [INFINITY]"
| "to_locale least most NInf = [CHR ''-'', INFINITY]"
| "to_locale least most NaN = ''NaN''"

subsection \<open>formatDescriptionValue, fmt, fmtXlm\<close>

fun formatDescriptionValue :: "native \<Rightarrow> string" where
  "formatDescriptionValue (VStr s) = s"
| "formatDescriptionValue (VBig i) = int_text i"
| "formatDescriptionValue (VArr xs) = ''['' @ join '', '' (map formatDescriptionValue xs) @ '']''"
| "formatDescriptionValue (VObj ps) = ''{'' @ join '', '' (map (\<lambda>(k, v). k @ '': '' @ formatDescriptionValue v) ps) @ ''}''"
| "formatDescriptionValue (VBytes s) = ''{'' @ join '', '' (map (\<lambda>i. dec i @ '': '' @ dec (of_char (s ! i))) [0..<length s]) @ ''}''"
| "formatDescriptionValue v = js_string v"

definition short :: "string \<Rightarrow> string" where
  "short s = take 6 s @ [ELLIPSIS] @ drop (length s - 4) s"

definition fmt :: "native \<Rightarrow> string" where
  "fmt v = (case v of VStr s \<Rightarrow> if length s < 10 then s else short s | _ \<Rightarrow> formatDescriptionValue v)"

definition fmtXlm :: "native \<Rightarrow> string" where
  "fmtXlm v =
     (if nullish v then ''?''
      else if js_number v = NaN then js_string v else to_locale 0 7 (num_div (js_number v) (Num (10 ^ 7))))"

definition fmtClassicAmount :: "native \<Rightarrow> string" where
  "fmtClassicAmount v =
     (if nullish v then ''?'' else if js_number v = NaN then js_string v else to_locale 2 7 (js_number v))"

subsection \<open>safeStringify\<close>

definition hex_char :: "nat \<Rightarrow> char" where
  "hex_char n = (if n < 10 then digit_char n else char_of (87 + n))"

definition hex_val :: "char \<Rightarrow> nat option" where
  "hex_val c = (if is_digit c then Some (digit_val c) else if 97 \<le> (of_char c :: nat) \<and> (of_char c :: nat) \<le> 102 then Some (of_char c - 87) else None)"

definition json_escape :: "char \<Rightarrow> string" where
  "json_escape c =
     (let n = of_char c :: nat
      in if n = 34 \<or> n = 92 then [CHR 92, c]
         else if n = 8 then [CHR 92, CHR ''b''] else if n = 9 then [CHR 92, CHR ''t''] else if n = 10 then [CHR 92, CHR ''n'']
         else if n = 12 then [CHR 92, CHR ''f''] else if n = 13 then [CHR 92, CHR ''r'']
         else if n < 32 then [CHR 92, CHR ''u'', CHR ''0'', CHR ''0'', hex_char (n div 16), hex_char (n mod 16)]
         else [c])"

definition json_quote :: "string \<Rightarrow> string" where
  "json_quote s = CHR 34 # concat (map json_escape s) @ [CHR 34]"

fun json_stringify :: "native \<Rightarrow> string option" where
  "json_stringify VUndef = None"
| "json_stringify VNull = Some ''null''"
| "json_stringify (VBool b) = Some (if b then ''true'' else ''false'')"
| "json_stringify (VNum x) = Some (case x of Num q \<Rightarrow> num_text q | _ \<Rightarrow> ''null'')"
| "json_stringify (VBig i) = Some (json_quote (int_text i))"
| "json_stringify (VStr s) = Some (json_quote s)"
| "json_stringify (VBytes s) =
     Some (CHR ''{'' # json_quote ''type'' @ '':'' @ json_quote ''Buffer'' @ '','' @ json_quote ''data'' @ '':['' @
       join '','' (map (\<lambda>c. dec (of_char c)) s) @ '']}'')"
| "json_stringify (VArr xs) =
     Some (''['' @ join '','' (map (\<lambda>x. case json_stringify x of Some t \<Rightarrow> t | None \<Rightarrow> ''null'') xs) @ '']'')"
| "json_stringify (VObj ps) =
     Some (''{'' @ join '','' (concat (map (\<lambda>(k, v). case json_stringify v of Some t \<Rightarrow> [json_quote k @ '':'' @ t] | None \<Rightarrow> []) ps)) @ ''}'')"

definition NUL_ESCAPE :: string where "NUL_ESCAPE = [CHR 92, CHR ''u'', CHR ''0'', CHR ''0'', CHR ''0'', CHR ''0'']"

text \<open>\<open>json.replace(/\\u0000/g, "")\<close>.\<close>

function strip_nul_escapes :: "string \<Rightarrow> string" where
  "strip_nul_escapes s =
     (if s = [] then [] else if take 6 s = NUL_ESCAPE then strip_nul_escapes (drop 6 s) else hd s # strip_nul_escapes (tl s))"
  by pat_completeness auto
termination
  by (relation "measure length") auto

declare strip_nul_escapes.simps [simp del]

definition safeStringify :: "native \<Rightarrow> string option" where
  "safeStringify v = map_option strip_nul_escapes (json_stringify v)"

definition stripNul :: "native \<Rightarrow> string" where
  "stripNul v = filter (\<lambda>c. c \<noteq> CHR 0x00) (js_string v)"

text \<open>Reading a JSON text: what follows the opening quote, up to the closing one.\<close>

fun read_chars :: "string \<Rightarrow> (string \<times> string) option" where
  "read_chars [] = None"
| "read_chars (c # r) =
     (if c = CHR 34 then Some ([], r)
      else if (of_char c :: nat) < 32 then None
      else if c \<noteq> CHR 92 then map_option (apfst ((#) c)) (read_chars r)
      else case r of
             [] \<Rightarrow> None
           | e # r1 \<Rightarrow>
               (if e = CHR 34 \<or> e = CHR 92 \<or> e = CHR ''/'' then map_option (apfst ((#) e)) (read_chars r1)
                else if e = CHR ''b'' then map_option (apfst ((#) (CHR 8))) (read_chars r1)
                else if e = CHR ''t'' then map_option (apfst ((#) (CHR 9))) (read_chars r1)
                else if e = CHR ''n'' then map_option (apfst ((#) (CHR 10))) (read_chars r1)
                else if e = CHR ''f'' then map_option (apfst ((#) (CHR 12))) (read_chars r1)
                else if e = CHR ''r'' then map_option (apfst ((#) (CHR 13))) (read_chars r1)
                else if e = CHR ''u''
                then (case r1 of
                        a # b # x # y # r2 \<Rightarrow>
                          (case (hex_val a, hex_val b, hex_val x, hex_val y) of
                             (Some 0, Some 0, Some m, Some n) \<Rightarrow> map_option (apfst ((#) (char_of (16 * m + n)))) (read_chars r2)
                           | _ \<Rightarrow> None)
                      | _ \<Rightarrow> None)
                else None))"

declare read_chars.simps(2) [simp del]

text \<open>A text that spells out the escape of a NUL.\<close>

fun spells_nul :: "string \<Rightarrow> bool" where
  "spells_nul [] = False"
| "spells_nul (c # s) = (take 6 (c # s) = NUL_ESCAPE \<or> spells_nul s)"

lemma strip_plain: "c \<noteq> CHR 92 \<Longrightarrow> strip_nul_escapes (c # r) = c # strip_nul_escapes r"
  by (subst strip_nul_escapes.simps) (simp add: NUL_ESCAPE_def)

lemma strip_escape: "e \<noteq> CHR ''u'' \<Longrightarrow> strip_nul_escapes (CHR 92 # e # r) = CHR 92 # strip_nul_escapes (e # r)"
  by (subst strip_nul_escapes.simps) (simp add: NUL_ESCAPE_def)

lemma strip_nul: "strip_nul_escapes (NUL_ESCAPE @ r) = strip_nul_escapes r"
  by (subst strip_nul_escapes.simps) (simp add: NUL_ESCAPE_def)

lemma strip_backslash:
  "take 5 r \<noteq> tl NUL_ESCAPE \<Longrightarrow> strip_nul_escapes (CHR 92 # r) = CHR 92 # strip_nul_escapes r"
  by (subst strip_nul_escapes.simps) (simp add: NUL_ESCAPE_def)

lemma strip_Nil [simp]: "strip_nul_escapes [] = []"
  by (subst strip_nul_escapes.simps) simp

lemma escape_cases:
  obtains (plain) "json_escape c = [c]" "c \<noteq> CHR 92" "c \<noteq> CHR 34" "32 \<le> (of_char c :: nat)"
  | (pair) e where "json_escape c = [CHR 92, e]" "e \<noteq> CHR ''u''" "c \<noteq> CHR 92 \<longrightarrow> e \<noteq> CHR 92" "\<And>r. read_chars (CHR 92 # e # r) = map_option (apfst ((#) c)) (read_chars r)"
      "c \<noteq> CHR 0x00" "c = CHR 92 \<longrightarrow> e = CHR 92"
  | (hex) n where "n = of_char c" "n < 32" "json_escape c = [CHR 92, CHR ''u'', CHR ''0'', CHR ''0'', hex_char (n div 16), hex_char (n mod 16)]" "c \<noteq> CHR 92"
proof -
  let ?n = "of_char c :: nat"
  have inj: "c = d" if "?n = of_char d" for d using that by simp
  consider "?n = 34 \<or> ?n = 92" | "?n = 8" | "?n = 9" | "?n = 10" | "?n = 12" | "?n = 13"
    | "?n < 32" "?n \<noteq> 8" "?n \<noteq> 9" "?n \<noteq> 10" "?n \<noteq> 12" "?n \<noteq> 13" | "32 \<le> ?n" "?n \<noteq> 34" "?n \<noteq> 92" by fastforce
  then show ?thesis
  proof cases
    case 1
    then have "c = CHR 34 \<or> c = CHR 92" using inj [of "CHR 34"] inj [of "CHR 92"] by auto
    then show ?thesis by (intro pair [of c]) (auto simp: json_escape_def read_chars.simps)
  next
    case 2
    then have "c = CHR 8" using inj [of "CHR 8"] by simp
    then show ?thesis by (intro pair [of "CHR ''b''"]) (auto simp: json_escape_def read_chars.simps)
  next
    case 3
    then have "c = CHR 9" using inj [of "CHR 9"] by simp
    then show ?thesis by (intro pair [of "CHR ''t''"]) (auto simp: json_escape_def read_chars.simps)
  next
    case 4
    then have "c = CHR 10" using inj [of "CHR 10"] by simp
    then show ?thesis by (intro pair [of "CHR ''n''"]) (auto simp: json_escape_def read_chars.simps)
  next
    case 5
    then have "c = CHR 12" using inj [of "CHR 12"] by simp
    then show ?thesis by (intro pair [of "CHR ''f''"]) (auto simp: json_escape_def read_chars.simps)
  next
    case 6
    then have "c = CHR 13" using inj [of "CHR 13"] by simp
    then show ?thesis by (intro pair [of "CHR ''r''"]) (auto simp: json_escape_def read_chars.simps)
  next
    case 7
    moreover from 7 have "c \<noteq> CHR 92" by auto
    ultimately show ?thesis by (intro hex [of ?n]) (simp_all add: json_escape_def Let_def)
  next
    case 8
    then show ?thesis by (intro plain) (auto simp: json_escape_def Let_def)
  qed
qed

text \<open>The characters of an escaped text that are no backslash or quote are characters of the text.\<close>

lemma escaped_head:
  assumes "concat (map json_escape s) @ [CHR 34] = x # r" "x \<noteq> CHR 92" "x \<noteq> CHR 34"
  obtains s' where "s = x # s'" "r = concat (map json_escape s') @ [CHR 34]"
proof (cases s)
  case Nil
  then show ?thesis using assms by simp
next
  case (Cons c s')
  show ?thesis by (rule escape_cases [of c]) (use Cons assms that [of s'] in auto)
qed

lemma escaped_nul_tail:
  assumes "take 5 (concat (map json_escape s) @ [CHR 34]) = tl NUL_ESCAPE"
  shows "take 5 s = tl NUL_ESCAPE"
proof -
  let ?t = "concat (map json_escape s) @ [CHR 34]"
  have "?t = tl NUL_ESCAPE @ drop 5 ?t" using append_take_drop_id [of 5 ?t] assms by metis
  then have "?t = CHR ''u'' # CHR ''0'' # CHR ''0'' # CHR ''0'' # CHR ''0'' # drop 5 ?t" unfolding NUL_ESCAPE_def list.sel append.simps .
  then obtain s1 where 1: "s = CHR ''u'' # s1" "concat (map json_escape s1) @ [CHR 34] = CHR ''0'' # CHR ''0'' # CHR ''0'' # CHR ''0'' # drop 5 ?t"
    by (elim escaped_head) auto
  from 1(2) obtain s2 where 2: "s1 = CHR ''0'' # s2" "concat (map json_escape s2) @ [CHR 34] = CHR ''0'' # CHR ''0'' # CHR ''0'' # drop 5 ?t"
    by (elim escaped_head) auto
  from 2(2) obtain s3 where 3: "s2 = CHR ''0'' # s3" "concat (map json_escape s3) @ [CHR 34] = CHR ''0'' # CHR ''0'' # drop 5 ?t"
    by (elim escaped_head) auto
  from 3(2) obtain s4 where 4: "s3 = CHR ''0'' # s4" "concat (map json_escape s4) @ [CHR 34] = CHR ''0'' # drop 5 ?t"
    by (elim escaped_head) auto
  from 4(2) obtain s5 where 5: "s4 = CHR ''0'' # s5" by (elim escaped_head) auto
  show ?thesis unfolding 1(1) 2(1) 3(1) 4(1) 5 by (simp add: NUL_ESCAPE_def)
qed

lemma hex_char_val:
  assumes "n < 16"
  shows "hex_val (hex_char n) = Some n" "hex_char n \<noteq> CHR 92" "hex_char n = CHR ''0'' \<longleftrightarrow> n = 0"
proof -
  have big: "of_char (char_of (87 + n) :: char) = 87 + n" using assms by simp
  have "hex_char n \<noteq> CHR 92 \<and> (hex_char n = CHR ''0'' \<longleftrightarrow> n = 0)"
  proof (cases "n < 10")
    case True
    then have "digit_char n = CHR ''0'' \<Longrightarrow> n = 0" using digit_val_char [of n] digit_zero(1) by metis
    with True show ?thesis using is_digit_char [of n] by (auto simp: hex_char_def is_digit_def)
  next
    case False
    have "char_of (87 + n) \<noteq> d" if "of_char d < (97 :: nat)" for d :: char using big False that by auto
    then have "char_of (87 + n) \<noteq> CHR 92" "char_of (87 + n) \<noteq> CHR ''0''" by simp_all
    with False show ?thesis by (simp add: hex_char_def)
  qed
  then show "hex_char n \<noteq> CHR 92" "hex_char n = CHR ''0'' \<longleftrightarrow> n = 0" by auto
  show "hex_val (hex_char n) = Some n" 
  proof (cases "n < 10")
    case True
    then show ?thesis using is_digit_char [of n] digit_val_char [of n] by (simp add: hex_val_def hex_char_def)
  next
    case False
    then show ?thesis using assms big by (simp add: hex_val_def hex_char_def is_digit_def)
  qed
qed

lemma read_hex_escape:
  assumes "n < 32"
  shows "read_chars (CHR 92 # CHR ''u'' # CHR ''0'' # CHR ''0'' # hex_char (n div 16) # hex_char (n mod 16) # r) = map_option (apfst ((#) (char_of n))) (read_chars r)"
proof -
  have "n div 16 < 16" "n mod 16 < 16" using assms by auto
  then have v: "hex_val (hex_char (n div 16)) = Some (n div 16)" "hex_val (hex_char (n mod 16)) = Some (n mod 16)" by (simp_all only: hex_char_val)
  have z: "hex_val CHR ''0'' = Some 0" by (simp add: hex_val_def)
  have "16 * (n div 16) + n mod 16 = n" by simp
  then show ?thesis by (simp add: read_chars.simps(2) v z)
qed

lemma read_stripped:
  "\<not> spells_nul s \<Longrightarrow> read_chars (strip_nul_escapes (concat (map json_escape s) @ [CHR 34])) = Some (filter (\<lambda>c. c \<noteq> CHR 0x00) s, [])"
proof (induction s)
  case Nil
  then show ?case by (simp add: strip_plain read_chars.simps(2))
next
  case (Cons c s)
  let ?R = "concat (map json_escape s) @ [CHR 34]"
  have IH: "read_chars (strip_nul_escapes ?R) = Some (filter (\<lambda>c. c \<noteq> CHR 0x00) s, [])" using Cons by simp
  show ?case
  proof (cases c rule: escape_cases)
    case plain
    then have "c \<noteq> CHR 0x00" by auto
    with plain IH show ?thesis by (simp add: strip_plain read_chars.simps(2))
  next
    case (pair e)
    have "strip_nul_escapes (CHR 92 # e # ?R) = CHR 92 # e # strip_nul_escapes ?R"
    proof (cases "e = CHR 92")
      case True
      then have "c = CHR 92" using pair by blast
      then have "take 5 s \<noteq> tl NUL_ESCAPE" using Cons.prems by (auto simp: NUL_ESCAPE_def)
      then have "take 5 ?R \<noteq> tl NUL_ESCAPE" using escaped_nul_tail by blast
      from strip_backslash [OF this] True show ?thesis by (simp add: strip_escape del: take_append)
    qed (use pair in \<open>simp add: strip_escape strip_plain\<close>)
    with pair IH show ?thesis by simp
  next
    case (hex n)
    let ?h = "hex_char (n div 16)" and ?l = "hex_char (n mod 16)"
    have lt: "n div 16 < 16" "n mod 16 < 16" using hex by auto
    show ?thesis
    proof (cases "n = 0")
      case True
      then have "c = CHR 0x00" using hex of_char_eq_iff [of c "CHR 0x00", where 'a = nat] by simp
      moreover have "json_escape c = NUL_ESCAPE" using hex True hex_char_val(3) by (simp add: NUL_ESCAPE_def)
      ultimately show ?thesis using IH strip_nul [of ?R] by simp
    next
      case False
      then have "?h \<noteq> CHR ''0'' \<or> ?l \<noteq> CHR ''0''" using hex_char_val(3) lt by (metis mult_div_mod_eq mult_0_right add_0)
      then have "strip_nul_escapes (json_escape c @ ?R) = json_escape c @ strip_nul_escapes ?R"
        unfolding hex(3) append.simps by (subst strip_backslash) (use lt hex_char_val(2) in \<open>auto simp: NUL_ESCAPE_def strip_plain\<close>)
      moreover have "c \<noteq> CHR 0x00" "char_of n = c" using False hex(1) by auto
      ultimately show ?thesis using IH hex(2,3) read_hex_escape by simp
    qed
  qed
qed

text \<open>
  What is stored of a text reads back as the text without its NUL characters, provided the text does not spell out the JSON escape
  of a NUL (a backslash, u and four zeros).
\<close>

lemma safe_text_roundtrip:
  assumes "\<not> spells_nul s"
  shows "\<exists>t. safeStringify (VStr s) = Some (CHR 34 # t) \<and> read_chars t = Some (filter (\<lambda>c. c \<noteq> CHR 0x00) s, [])"
  using read_stripped [OF assms] by (simp add: safeStringify_def json_quote_def strip_plain)

lemma safe_text_roundtrip_witness:
  "\<exists>t. safeStringify (VStr [CHR ''a'', CHR 0x00, CHR 34]) = Some (CHR 34 # t) \<and> read_chars t = Some ([CHR ''a'', CHR 34], [])"
  using safe_text_roundtrip [of "[CHR ''a'', CHR 0x00, CHR 34]"] by (simp add: NUL_ESCAPE_def)

text \<open>
  A contract can make its data unreadable: of a text that spells out the escape of a NUL a single backslash is left, which escapes the
  closing quote.
\<close>

lemma spelled_nul_breaks_json:
  "safeStringify (VStr NUL_ESCAPE) = Some [CHR 34, CHR 92, CHR 34] \<and> read_chars [CHR 92, CHR 34] = None"
proof -
  have "json_stringify (VStr NUL_ESCAPE) = Some (CHR 34 # CHR 92 # NUL_ESCAPE @ [CHR 34])" by code_simp
  then show ?thesis
    using strip_nul [of "[CHR 34]"] by (simp add: safeStringify_def strip_plain NUL_ESCAPE_def strip_escape read_chars.simps) 
qed

end
