(* ===== verification/Query_Jobs.thy ===== *)
theory Query_Jobs
  imports Native_Values
begin

section \<open>Asynchronous query jobs (indexer/src/jobs/queryJobs.js)\<close>

text \<open>
  Submission with idempotency keys and a per-tier limit, cancellation, the bounded worker pool and the export of one
  snapshot, with the statements of db.js on the table \<open>query_jobs\<close>. A row of an export is the list of its eight cells, its JSON
  text a parameter; texts are ASCII, so a character is a byte. The batches of a snapshot are given with the run (their
  query is modelled on its own); a run checks for cancellation and revocation at each batch. Shown: an export writes a prefix of the
  snapshot, within the row quota and up to the row that reaches the byte quota, and says why it stopped, the pool never exceeds its size nor
  idles, a cancelled run writes nothing more, the snapshot pages put together are the selected events,
  overlapping submissions pass the concurrency limit, and a signed result URL opens only its own job and only while it lasts.
\<close>

subsection \<open>Quotas and the table\<close>

record job_quota =
  jq_concurrent :: nat
  jq_rows :: nat
  jq_bytes :: nat

definition TIER_QUOTAS :: "(string \<times> job_quota) list" where
  "TIER_QUOTAS =
     [(''free'', \<lparr>jq_concurrent = 1, jq_rows = 1000000, jq_bytes = 256 * 1024 ^ 2\<rparr>),
      (''pro'', \<lparr>jq_concurrent = 3, jq_rows = 10000000, jq_bytes = 4 * 1024 ^ 3\<rparr>),
      (''enterprise'', \<lparr>jq_concurrent = 10, jq_rows = 100000000, jq_bytes = 40 * 1024 ^ 3\<rparr>)]"

definition quotaFor :: "string \<Rightarrow> job_quota" where
  "quotaFor tier =
     (case map_of TIER_QUOTAS tier of Some q \<Rightarrow> q | None \<Rightarrow> \<lparr>jq_concurrent = 1, jq_rows = 1000000, jq_bytes = 256 * 1024 ^ 2\<rparr>)"

datatype job_status = Queued | Running | Succeeded | Failed | Cancelled | Expired

record job =
  jb_id :: string
  jb_key :: string
  jb_tier :: string
  jb_csv :: bool
  jb_idem :: "string option"
  jb_status :: job_status
  jb_rows :: nat
  jb_bytes :: nat
  jb_partial :: bool
  jb_path :: "string option"
  jb_expires :: "int option"

definition getQueryJob :: "string \<Rightarrow> job list \<Rightarrow> job option" where
  "getQueryJob i jobs = find (\<lambda>j. jb_id j = i) jobs"

definition getQueryJobByIdempotencyKey :: "string \<Rightarrow> string \<Rightarrow> job list \<Rightarrow> job option" where
  "getQueryJobByIdempotencyKey apiKey k jobs = find (\<lambda>j. jb_key j = apiKey \<and> jb_idem j = Some k) jobs"

definition job_active :: "job \<Rightarrow> bool" where
  "job_active j \<longleftrightarrow> jb_status j = Queued \<or> jb_status j = Running"

definition countActiveQueryJobs :: "string \<Rightarrow> job list \<Rightarrow> nat" where
  "countActiveQueryJobs apiKey jobs = length (filter (\<lambda>j. jb_key j = apiKey \<and> job_active j) jobs)"

definition updateQueryJob :: "string \<Rightarrow> (job \<Rightarrow> job) \<Rightarrow> job list \<Rightarrow> job list" where
  "updateQueryJob i f jobs = map (\<lambda>j. if jb_id j = i then f j else j) jobs"

text \<open>\<open>None\<close> when the key has a job under the same idempotency key.\<close>

definition createQueryJob :: "string \<Rightarrow> string \<Rightarrow> string \<Rightarrow> bool \<Rightarrow> string option \<Rightarrow> job list \<Rightarrow> job option \<times> job list" where
  "createQueryJob i apiKey tier csv idem jobs =
     (if idem \<noteq> None \<and> (\<exists>j \<in> set jobs. jb_key j = apiKey \<and> jb_idem j = idem) then (None, jobs)
      else let j = \<lparr>jb_id = i, jb_key = apiKey, jb_tier = tier, jb_csv = csv, jb_idem = idem, jb_status = Queued, jb_rows = 0,
                    jb_bytes = 0, jb_partial = False, jb_path = None, jb_expires = None\<rparr>
           in (Some j, jobs @ [j]))"

text \<open>\<open>isApiKeyActive\<close>: the key's row, not revoked and not expired.\<close>

record api_key_row =
  ak_id :: string
  ak_revoked :: bool
  ak_expires :: "int option"

definition isApiKeyActive :: "int \<Rightarrow> string \<Rightarrow> api_key_row list \<Rightarrow> bool" where
  "isApiKeyActive now i keys \<longleftrightarrow>
     (\<exists>k \<in> set keys. ak_id k = i \<and> \<not> ak_revoked k \<and> (case ak_expires k of Some e \<Rightarrow> now < e | None \<Rightarrow> True))"

subsection \<open>The snapshot\<close>

record snapshot_event =
  sn_seq :: nat
  sn_ledger :: nat
  sn_contract :: string
  sn_cells :: "string option list"

definition snapshot_selected :: "string option \<Rightarrow> nat option \<Rightarrow> nat option \<Rightarrow> snapshot_event \<Rightarrow> bool" where
  "snapshot_selected contract fromLedger toLedger e \<longleftrightarrow>
     (case contract of Some c \<Rightarrow> sn_contract e = c | None \<Rightarrow> True) \<and>
     (case fromLedger of Some l \<Rightarrow> l \<le> sn_ledger e | None \<Rightarrow> True) \<and>
     (case toLedger of Some l \<Rightarrow> sn_ledger e \<le> l | None \<Rightarrow> True)"

definition snapshot_page :: "nat \<Rightarrow> (snapshot_event \<Rightarrow> bool) \<Rightarrow> nat \<Rightarrow> snapshot_event list \<Rightarrow> snapshot_event list" where
  "snapshot_page batchSize sel lastSeq events =
     take batchSize (sort_key sn_seq (filter (\<lambda>e. lastSeq < sn_seq e \<and> sel e) events))"

text \<open>The generator of the pages; the fuel is the number of events, and a page of at least one takes one off.\<close>

fun snapshot_pages :: "nat \<Rightarrow> nat \<Rightarrow> (snapshot_event \<Rightarrow> bool) \<Rightarrow> nat \<Rightarrow> snapshot_event list \<Rightarrow> snapshot_event list list" where
  "snapshot_pages 0 batchSize sel lastSeq events = []"
| "snapshot_pages (Suc n) batchSize sel lastSeq events =
     (let rows = snapshot_page batchSize sel lastSeq events
      in if rows = [] then []
         else rows # (if length rows < batchSize then [] else snapshot_pages n batchSize sel (sn_seq (last rows)) events))"

definition iterateEventsSnapshot :: "nat \<Rightarrow> string option \<Rightarrow> nat option \<Rightarrow> nat option \<Rightarrow> snapshot_event list \<Rightarrow> snapshot_event list list" where
  "iterateEventsSnapshot batchSize contract fromLedger toLedger events =
     snapshot_pages (Suc (length events)) batchSize (snapshot_selected contract fromLedger toLedger) 0 events"

subsection \<open>Writing one export\<close>

definition needs_quotes :: "string \<Rightarrow> bool" where
  "needs_quotes s \<longleftrightarrow> list_ex (\<lambda>c. c = CHR ''\"'' \<or> c = CHR '','' \<or> c = CHR 10) s"

definition csv_cell :: "string option \<Rightarrow> string" where
  "csv_cell v =
     (case v of None \<Rightarrow> []
      | Some s \<Rightarrow> if needs_quotes s then CHR ''\"'' # concat (map (\<lambda>c. if c = CHR ''\"'' then [c, c] else [c]) s) @ [CHR ''\"''] else s)"

definition CSV_COLUMNS :: "string list" where
  "CSV_COLUMNS = [''seq'', ''ledger'', ''contract_id'', ''contract_name'', ''function'', ''description'', ''tx_hash'', ''created_at'']"

definition csvRow :: "string option list \<Rightarrow> string" where
  "csvRow cells = join '','' (map csv_cell cells) @ [CHR 10]"

definition export_chunk :: "(snapshot_event \<Rightarrow> string) \<Rightarrow> bool \<Rightarrow> snapshot_event \<Rightarrow> string" where
  "export_chunk stringify csv e = (if csv then csvRow (sn_cells e) else stringify e @ [CHR 10])"

datatype stop_reason = Stop_cancelled | Stop_revoked | Stop_quota

record export =
  ex_rows :: nat
  ex_bytes :: nat
  ex_out :: "string list"
  ex_stop :: "stop_reason option"

definition start_export :: "bool \<Rightarrow> export" where
  "start_export csv =
     (let header = (if csv then [join '','' CSV_COLUMNS @ [CHR 10]] else [])
      in \<lparr>ex_rows = 0, ex_bytes = length (concat header), ex_out = header, ex_stop = None\<rparr>)"

fun write_rows :: "job_quota \<Rightarrow> (snapshot_event \<Rightarrow> string) \<Rightarrow> snapshot_event list \<Rightarrow> export \<Rightarrow> export" where
  "write_rows q chunk [] x = x"
| "write_rows q chunk (r # rs) x =
     (if jq_rows q \<le> ex_rows x \<or> jq_bytes q \<le> ex_bytes x then x\<lparr>ex_stop := Some Stop_quota\<rparr>
      else write_rows q chunk rs
             (x\<lparr>ex_rows := ex_rows x + 1, ex_bytes := ex_bytes x + length (chunk r), ex_out := ex_out x @ [chunk r]\<rparr>))"

text \<open>One batch: the flags are what the checks before it see.\<close>

definition export_batch ::
  "job_quota \<Rightarrow> (snapshot_event \<Rightarrow> string) \<Rightarrow> bool \<Rightarrow> bool \<Rightarrow> snapshot_event list \<Rightarrow> export \<Rightarrow> export" where
  "export_batch q chunk is_cancelled key_active batch x =
     (if is_cancelled then x\<lparr>ex_stop := Some Stop_cancelled\<rparr>
      else if \<not> key_active then x\<lparr>ex_stop := Some Stop_revoked\<rparr>
      else write_rows q chunk batch x)"

text \<open>The batches in turn; \<open>seen i\<close> is what the checks before batch \<open>i\<close> see: the cancellation, and whether the key is active.\<close>

fun export_all ::
  "job_quota \<Rightarrow> (snapshot_event \<Rightarrow> string) \<Rightarrow> (nat \<Rightarrow> bool \<times> bool) \<Rightarrow> nat \<Rightarrow> snapshot_event list list \<Rightarrow> export \<Rightarrow> export" where
  "export_all q chunk seen i [] x = x"
| "export_all q chunk seen i (b # bs) x =
     (let x' = export_batch q chunk (fst (seen i)) (snd (seen i)) b x
      in if ex_stop x' \<noteq> None then x' else export_all q chunk seen (Suc i) bs x')"

subsection \<open>Submission and the runner\<close>

record job_run =
  rn_id :: string
  rn_key :: string
  rn_tier :: string
  rn_csv :: bool
  rn_left :: "snapshot_event list list"
  rn_export :: export

record jobs_world =
  qw_jobs :: "job list"
  qw_queue :: "string list"
  qw_starting :: "string list"
  qw_runs :: "job_run list"
  qw_cancelled :: "string list"
  qw_files :: "(string \<times> string) list"

definition qw_running :: "jobs_world \<Rightarrow> nat" where
  "qw_running w = length (qw_starting w) + length (qw_runs w)"

text \<open>\<open>pump\<close> starts queued jobs while a worker is free; a started job first reads its row.\<close>

definition pump :: "nat \<Rightarrow> jobs_world \<Rightarrow> jobs_world" where
  "pump workers w =
     (let n = workers - qw_running w
      in w\<lparr>qw_queue := drop n (qw_queue w), qw_starting := qw_starting w @ take n (qw_queue w)\<rparr>)"

text \<open>
  \<open>submitJob\<close> up to its insert (the job that exists, or the refusal), and from the insert on. Other submissions can come in between.
\<close>

datatype submit_check = Existing job | Too_many_jobs | May_create

definition submit_check :: "string \<Rightarrow> string \<Rightarrow> string option \<Rightarrow> job list \<Rightarrow> submit_check" where
  "submit_check apiKey tier idem jobs =
     (case (case idem of Some k \<Rightarrow> if k = [] then None else getQueryJobByIdempotencyKey apiKey k jobs | None \<Rightarrow> None) of
        Some j \<Rightarrow> Existing j
      | None \<Rightarrow> if jq_concurrent (quotaFor tier) \<le> countActiveQueryJobs apiKey jobs then Too_many_jobs else May_create)"

definition submit_create :: "nat \<Rightarrow> string \<Rightarrow> string \<Rightarrow> string \<Rightarrow> bool \<Rightarrow> string option \<Rightarrow> jobs_world \<Rightarrow> job option \<times> jobs_world" where
  "submit_create workers i apiKey tier csv idem w =
     (case createQueryJob i apiKey tier csv idem (qw_jobs w) of
        (None, jobs) \<Rightarrow> (case idem of Some k \<Rightarrow> getQueryJobByIdempotencyKey apiKey k jobs | None \<Rightarrow> None, w)
      | (Some j, jobs) \<Rightarrow> (Some j, pump workers (w\<lparr>qw_jobs := jobs, qw_queue := qw_queue w @ [i]\<rparr>)))"

text \<open>\<open>cancelJob\<close> after it has read the status \<open>seen\<close>, which may have changed since.\<close>

definition cancelJob :: "string \<Rightarrow> job_status \<Rightarrow> jobs_world \<Rightarrow> jobs_world" where
  "cancelJob i seen w =
     (if seen \<noteq> Queued \<and> seen \<noteq> Running then w
      else let w1 = w\<lparr>qw_cancelled := List.insert i (qw_cancelled w)\<rparr>
           in if seen = Queued then w1\<lparr>qw_jobs := updateQueryJob i (\<lambda>j. j\<lparr>jb_status := Cancelled\<rparr>) (qw_jobs w1)\<rparr> else w1)"

definition result_path :: "string \<Rightarrow> bool \<Rightarrow> string" where
  "result_path i csv = i @ (if csv then ''.csv'' else ''.ndjson'')"

text \<open>\<open>runJob\<close>: the row is read and marked, or the job is left alone; each batch; the end and its error branch.\<close>

definition run_begin :: "nat \<Rightarrow> string \<Rightarrow> snapshot_event list list \<Rightarrow> jobs_world \<Rightarrow> jobs_world" where
  "run_begin workers i batches w =
     (let w1 = w\<lparr>qw_starting := remove1 i (qw_starting w)\<rparr>
      in case getQueryJob i (qw_jobs w) of
           None \<Rightarrow> pump workers w1
         | Some j \<Rightarrow>
             if jb_status j \<noteq> Queued \<or> i \<in> set (qw_cancelled w) then pump workers w1
             else w1\<lparr>qw_jobs := updateQueryJob i (\<lambda>j. j\<lparr>jb_status := Running, jb_path := Some (result_path i (jb_csv j))\<rparr>) (qw_jobs w1),
                     qw_runs := qw_runs w1 @ [\<lparr>rn_id = i, rn_key = jb_key j, rn_tier = jb_tier j, rn_csv = jb_csv j, rn_left = batches,
                                               rn_export = start_export (jb_csv j)\<rparr>]\<rparr>)"

definition run_batch :: "(snapshot_event \<Rightarrow> string) \<Rightarrow> bool \<Rightarrow> nat \<Rightarrow> jobs_world \<Rightarrow> jobs_world" where
  "run_batch stringify key_active k w =
     (let r = qw_runs w ! k
      in case rn_left r of
           [] \<Rightarrow> w
         | b # bs \<Rightarrow>
             if ex_stop (rn_export r) \<noteq> None then w
             else let x = export_batch (quotaFor (rn_tier r)) (export_chunk stringify (rn_csv r)) (rn_id r \<in> set (qw_cancelled w))
                            key_active b (rn_export r);
                      w1 = w\<lparr>qw_runs := (qw_runs w)[k := r\<lparr>rn_left := bs, rn_export := x\<rparr>]\<rparr>
                  in if ex_stop x = Some Stop_cancelled \<or> ex_stop x = Some Stop_revoked then w1
                     else w1\<lparr>qw_jobs := updateQueryJob (rn_id r) (\<lambda>j. j\<lparr>jb_rows := ex_rows x, jb_bytes := ex_bytes x\<rparr>) (qw_jobs w1)\<rparr>)"

definition RETENTION_MS :: int where "RETENTION_MS = 7 * 86400000"

definition finished :: "int \<Rightarrow> export \<Rightarrow> job \<Rightarrow> job" where
  "finished now x j =
     (if ex_stop x = Some Stop_cancelled \<or> ex_stop x = Some Stop_revoked
      then j\<lparr>jb_status := Cancelled, jb_rows := ex_rows x, jb_bytes := ex_bytes x, jb_path := None\<rparr>
      else j\<lparr>jb_status := Succeeded, jb_partial := (ex_stop x = Some Stop_quota), jb_rows := ex_rows x, jb_bytes := ex_bytes x,
             jb_expires := Some (now + RETENTION_MS)\<rparr>)"

definition leave_run :: "nat \<Rightarrow> nat \<Rightarrow> jobs_world \<Rightarrow> jobs_world" where
  "leave_run workers k w =
     pump workers (w\<lparr>qw_runs := take k (qw_runs w) @ drop (Suc k) (qw_runs w),
                     qw_cancelled := removeAll (rn_id (qw_runs w ! k)) (qw_cancelled w)\<rparr>)"

definition run_end :: "nat \<Rightarrow> int \<Rightarrow> nat \<Rightarrow> jobs_world \<Rightarrow> jobs_world" where
  "run_end workers now k w =
     (let r = qw_runs w ! k; x = rn_export r
      in if rn_left r \<noteq> [] \<and> ex_stop x = None then w
         else leave_run workers k
                (w\<lparr>qw_jobs := updateQueryJob (rn_id r) (finished now x) (qw_jobs w),
                   qw_files := (if ex_stop x = Some Stop_cancelled \<or> ex_stop x = Some Stop_revoked then qw_files w
                                else qw_files w @ [(result_path (rn_id r) (rn_csv r), concat (ex_out x))])\<rparr>))"

definition run_fail :: "nat \<Rightarrow> nat \<Rightarrow> jobs_world \<Rightarrow> jobs_world" where
  "run_fail workers k w =
     leave_run workers k (w\<lparr>qw_jobs := updateQueryJob (rn_id (qw_runs w ! k)) (\<lambda>j. j\<lparr>jb_status := Failed, jb_path := None\<rparr>) (qw_jobs w)\<rparr>)"

definition sweepExpiredJobs :: "int \<Rightarrow> jobs_world \<Rightarrow> jobs_world" where
  "sweepExpiredJobs now w =
     (let due = filter (\<lambda>j. (case jb_expires j of Some e \<Rightarrow> e < now | None \<Rightarrow> False) \<and> jb_status j \<noteq> Expired) (qw_jobs w)
      in w\<lparr>qw_files := filter (\<lambda>(p, _). \<forall>j \<in> set due. jb_path j \<noteq> Some p) (qw_files w),
           qw_jobs := foldl (\<lambda>jobs j. updateQueryJob (jb_id j) (\<lambda>j. j\<lparr>jb_status := Expired, jb_path := None\<rparr>) jobs) (qw_jobs w) due\<rparr>)"

text \<open>After a restart nothing runs: running jobs fail, queued ones are queued again.\<close>

definition startQueryJobMaintenance :: "nat \<Rightarrow> job list \<Rightarrow> (string \<times> string) list \<Rightarrow> jobs_world" where
  "startQueryJobMaintenance workers jobs files =
     (let jobs1 = map (\<lambda>j. if jb_status j = Running then j\<lparr>jb_status := Failed\<rparr> else j) jobs
      in pump workers \<lparr>qw_jobs = jobs1, qw_queue = map jb_id (filter (\<lambda>j. jb_status j = Queued) jobs1), qw_starting = [], qw_runs = [],
                        qw_cancelled = [], qw_files = files\<rparr>)"

inductive jobs_step :: "nat \<Rightarrow> (snapshot_event \<Rightarrow> string) \<Rightarrow> jobs_world \<Rightarrow> jobs_world \<Rightarrow> bool" for workers stringify where
  jobs_submit: "\<lbrakk>i \<notin> jb_id ` set (qw_jobs w); submit_create workers i apiKey tier csv idem w = (res, w')\<rbrakk> \<Longrightarrow>
     jobs_step workers stringify w w'"
| jobs_cancel: "jobs_step workers stringify w (cancelJob i seen w)"
| jobs_begin: "i \<in> set (qw_starting w) \<Longrightarrow> jobs_step workers stringify w (run_begin workers i batches w)"
| jobs_batch: "k < length (qw_runs w) \<Longrightarrow> jobs_step workers stringify w (run_batch stringify key_active k w)"
| jobs_end: "k < length (qw_runs w) \<Longrightarrow> jobs_step workers stringify w (run_end workers now k w)"
| jobs_fail: "k < length (qw_runs w) \<Longrightarrow> jobs_step workers stringify w (run_fail workers k w)"
| jobs_sweep: "jobs_step workers stringify w (sweepExpiredJobs now w)"

inductive_cases jobs_stepE: "jobs_step workers stringify w w'"

subsection \<open>What an export contains\<close>

definition export_sound :: "job_quota \<Rightarrow> export \<Rightarrow> bool" where
  "export_sound q x \<longleftrightarrow> ex_stop x = None \<and> ex_rows x \<le> jq_rows q \<and> ex_bytes x = length (concat (ex_out x))"

text \<open>The result \<open>y\<close> of writing from \<open>x\<close>: the first \<open>k\<close> rows, and why no more.\<close>

definition wrote :: "job_quota \<Rightarrow> (snapshot_event \<Rightarrow> string) \<Rightarrow> snapshot_event list \<Rightarrow> export \<Rightarrow> export \<Rightarrow> nat \<Rightarrow> bool" where
  "wrote q chunk rs x y k \<longleftrightarrow> k \<le> length rs \<and> ex_out y = ex_out x @ map chunk (take k rs) \<and> ex_rows y = ex_rows x + k \<and>
    ex_rows y \<le> jq_rows q \<and> ex_bytes y = length (concat (ex_out y)) \<and>
    (0 < k \<longrightarrow> length (concat (ex_out x @ map chunk (take (k - 1) rs))) < jq_bytes q) \<and>
    ex_stop y = (if k < length rs then Some Stop_quota else None) \<and>
    (k < length rs \<longrightarrow> ex_rows y = jq_rows q \<or> jq_bytes q \<le> ex_bytes y)"

lemma write_rows_spec:
  assumes "export_sound q x"
  shows "\<exists>k. wrote q chunk rs x (write_rows q chunk rs x) k"
  using assms
proof (induction q chunk rs x rule: write_rows.induct)
  case (1 q chunk x)
  then show ?case by (simp add: export_sound_def wrote_def)
next
  case (2 q chunk r rs x)
  show ?case
  proof (cases "jq_rows q \<le> ex_rows x \<or> jq_bytes q \<le> ex_bytes x")
    case True
    with "2.prems" show ?thesis by (intro exI [of _ 0]) (auto simp: export_sound_def wrote_def)
  next
    case False
    let ?x = "x\<lparr>ex_rows := ex_rows x + 1, ex_bytes := ex_bytes x + length (chunk r), ex_out := ex_out x @ [chunk r]\<rparr>"
    have "export_sound q ?x" using False "2.prems" by (auto simp: export_sound_def)
    from "2.IH" [OF False this] obtain k where k: "wrote q chunk rs ?x (write_rows q chunk rs ?x) k" by blast
    then have "length (concat (ex_out x @ map chunk (take k (r # rs)))) < jq_bytes q"
      using False "2.prems" by (cases k) (auto simp: export_sound_def wrote_def)
    with False k show ?thesis by (intro exI [of _ "Suc k"]) (auto simp: wrote_def)
  qed
qed

subsection \<open>The pages of a snapshot\<close>

lemma sort_by_seq_eq:
  assumes "inj_on sn_seq (set xs)" "distinct xs"
  shows "sorted_wrt (\<lambda>a b. sn_seq a < sn_seq b) (sort_key sn_seq xs)"
proof -
  have "sorted (map sn_seq (sort_key sn_seq xs))" by simp
  moreover have "distinct (map sn_seq (sort_key sn_seq xs))" using assms by (simp add: distinct_map)
  ultimately have "sorted_wrt (<) (map sn_seq (sort_key sn_seq xs))" by (simp add: strict_sorted_iff)
  then show ?thesis by (simp add: sorted_wrt_map)
qed

lemma filter_after_prefix:
  assumes "sorted_wrt (\<lambda>a b. sn_seq a < sn_seq b) (ys @ zs)" "ys \<noteq> []"
  shows "filter (\<lambda>e. sn_seq (last ys) < sn_seq e) (ys @ zs) = zs"
proof -
  have z: "\<forall>z \<in> set zs. sn_seq (last ys) < sn_seq z" using assms by (auto simp: sorted_wrt_append)
  have "\<not> sn_seq (last ys) < sn_seq y" if "y \<in> set ys" for y
    using that assms by (cases ys rule: rev_cases) (auto simp: sorted_wrt_append)
  with z show ?thesis by (simp add: filter_False filter_True)
qed

lemma snapshot_pages_concat:
  assumes "inj_on sn_seq (set events)" "distinct events" "0 < batchSize"
  shows "length (filter (\<lambda>e. l < sn_seq e \<and> sel e) events) < n \<Longrightarrow>
    concat (snapshot_pages n batchSize sel l events) = sort_key sn_seq (filter (\<lambda>e. l < sn_seq e \<and> sel e) events)"
proof (induction n arbitrary: l)
  case (Suc n)
  define all where "all = sort_key sn_seq (filter (\<lambda>e. l < sn_seq e \<and> sel e) events)"
  have page: "snapshot_page batchSize sel l events = take batchSize all" by (simp add: snapshot_page_def all_def)
  have sorted: "sorted_wrt (\<lambda>a b. sn_seq a < sn_seq b) all"
    unfolding all_def by (rule sort_by_seq_eq) (use assms(1,2) in \<open>auto simp: inj_on_def\<close>)
  show ?case
  proof (cases "all = [] \<or> length all < batchSize")
    case True
    then show ?thesis using assms(3) by (auto simp: page Let_def all_def [symmetric])
  next
    case False
    let ?ys = "take batchSize all"
    have ne: "?ys \<noteq> []" "all \<noteq> []" using False assms(3) by auto
    then have "last ?ys \<in> set all" by (meson in_set_takeD last_in_set)
    then have l: "l < sn_seq (last ?ys)" by (simp add: all_def)
    have "filter (\<lambda>e. sn_seq (last ?ys) < sn_seq e) all = drop batchSize all"
      using filter_after_prefix [of ?ys "drop batchSize all"] sorted ne by simp
    then have rest: "sort_key sn_seq (filter (\<lambda>e. sn_seq (last ?ys) < sn_seq e \<and> sel e) events) = drop batchSize all"
      using l unfolding all_def filter_sort [symmetric] by (simp add: conj_commute conj_left_commute) (smt (verit) dual_order.strict_trans filter_cong)
    have "length (filter (\<lambda>e. sn_seq (last ?ys) < sn_seq e \<and> sel e) events) = length (drop batchSize all)"
      by (metis rest length_sort)
    also have "\<dots> < length all" using ne(2) assms(3) by (simp add: diff_less)
    also have "length all = length (filter (\<lambda>e. l < sn_seq e \<and> sel e) events)" by (simp add: all_def)
    finally have "length (filter (\<lambda>e. sn_seq (last ?ys) < sn_seq e \<and> sel e) events) < n" using Suc.prems by simp
    from Suc.IH [OF this] rest False ne show ?thesis by (simp add: page Let_def all_def [symmetric])
  qed
qed simp

subsection \<open>Properties\<close>

lemma start_export_sound: "export_sound q (start_export csv)"
  by (simp add: export_sound_def start_export_def Let_def)

text \<open>
  The result \<open>y\<close> of exporting the batches from \<open>x\<close>: \<open>k\<close> rows, why no more, and none behind a check that has seen the
  cancellation or the revocation.
\<close>

definition stopped_right ::
  "job_quota \<Rightarrow> (nat \<Rightarrow> bool \<times> bool) \<Rightarrow> nat \<Rightarrow> snapshot_event list list \<Rightarrow> export \<Rightarrow> nat \<Rightarrow> bool" where
  "stopped_right q seen i bs y k \<longleftrightarrow>
     (case ex_stop y of
        None \<Rightarrow> k = length (concat bs)
      | Some Stop_quota \<Rightarrow> k < length (concat bs) \<and> (ex_rows y = jq_rows q \<or> jq_bytes q \<le> ex_bytes y)
      | Some Stop_cancelled \<Rightarrow> \<exists>j < length bs. fst (seen (i + j)) \<and> k = length (concat (take j bs))
      | Some Stop_revoked \<Rightarrow> \<exists>j < length bs. \<not> fst (seen (i + j)) \<and> \<not> snd (seen (i + j)) \<and> k = length (concat (take j bs)))"

definition exported ::
  "job_quota \<Rightarrow> (snapshot_event \<Rightarrow> string) \<Rightarrow> (nat \<Rightarrow> bool \<times> bool) \<Rightarrow> nat \<Rightarrow> snapshot_event list list \<Rightarrow> export \<Rightarrow> export \<Rightarrow> nat \<Rightarrow> bool" where
  "exported q chunk seen i bs x y k \<longleftrightarrow>
     k \<le> length (concat bs) \<and> ex_out y = ex_out x @ map chunk (take k (concat bs)) \<and> ex_rows y = ex_rows x + k \<and>
     ex_rows y \<le> jq_rows q \<and> ex_bytes y = length (concat (ex_out y)) \<and>
     (0 < k \<longrightarrow> length (concat (ex_out x @ map chunk (take (k - 1) (concat bs)))) < jq_bytes q) \<and>
     stopped_right q seen i bs y k \<and>
     (\<forall>j < length bs. fst (seen (i + j)) \<or> \<not> snd (seen (i + j)) \<longrightarrow> k \<le> length (concat (take j bs)))"

lemma index_Suc: "(\<exists>j < Suc n. P j) \<longleftrightarrow> P 0 \<or> (\<exists>j < n. P (Suc j))"
  by (metis less_Suc_eq_0_disj)

lemma export_all_spec:
  assumes "export_sound q x"
  shows "\<exists>k. exported q chunk seen i bs x (export_all q chunk seen i bs x) k"
  using assms
proof (induction bs arbitrary: i x)
  case Nil
  then show ?case by (auto simp: exported_def stopped_right_def export_sound_def)
next
  case (Cons b bs)
  show ?case
  proof (cases "fst (seen i) \<or> \<not> snd (seen i)")
    case True
    then have "exported q chunk seen i (b # bs) x (export_all q chunk seen i (b # bs) x) 0"
      using Cons.prems
      by (auto simp: exported_def stopped_right_def export_sound_def export_batch_def Let_def intro: exI [of _ "0::nat"])
    then show ?thesis by blast
  next
    case False
    let ?x = "write_rows q chunk b x"
    have batch: "export_batch q chunk (fst (seen i)) (snd (seen i)) b x = ?x" using False by (simp add: export_batch_def)
    obtain k where k: "wrote q chunk b x ?x k" using write_rows_spec [OF Cons.prems] by blast
    show ?thesis
    proof (cases "k < length b")
      case True
      then have y: "export_all q chunk seen i (b # bs) x = ?x" using k by (simp add: batch Let_def wrote_def)
      have "k \<le> length (concat (take j (b # bs)))" if "fst (seen (i + j)) \<or> \<not> snd (seen (i + j))" for j
        using that False True by (cases j) auto
      then have "exported q chunk seen i (b # bs) x (export_all q chunk seen i (b # bs) x) k"
        using k True unfolding y exported_def stopped_right_def wrote_def by auto
      then show ?thesis by blast
    next
      case all: False
      then have kb: "k = length b" "ex_stop ?x = None" using k by (auto simp: wrote_def)
      then have y: "export_all q chunk seen i (b # bs) x = export_all q chunk seen (Suc i) bs ?x" by (simp add: batch Let_def)
      have "export_sound q ?x" using k kb by (auto simp: wrote_def export_sound_def)
      from Cons.IH [OF this, of "Suc i"] obtain m where
        m: "exported q chunk seen (Suc i) bs ?x (export_all q chunk seen (Suc i) bs ?x) m" by blast
      have out: "ex_out ?x = ex_out x @ map chunk b" "ex_rows ?x = ex_rows x + length b"
        using k kb by (simp_all add: wrote_def)
      have last: "length (concat (ex_out x @ map chunk (take (length b + m - 1) (concat (b # bs))))) < jq_bytes q" if "0 < length b + m"
      proof (cases "m = 0")
        case True
        then show ?thesis using k kb that by (simp add: wrote_def)
      next
        case False
        then have "length b + m - 1 = length b + (m - 1)" by simp
        then show ?thesis using m False out by (simp add: exported_def)
      qed
      have bound: "length b + m \<le> length (concat (take j (b # bs)))" if "j < length (b # bs)" "fst (seen (i + j)) \<or> \<not> snd (seen (i + j))" for j
        using that False m by (cases j) (auto simp: exported_def)
      have "stopped_right q seen i (b # bs) (export_all q chunk seen i (b # bs) x) (length b + m)"
        using m unfolding y exported_def stopped_right_def
        by (auto simp: index_Suc split: option.splits stop_reason.splits)
      then have "exported q chunk seen i (b # bs) x (export_all q chunk seen i (b # bs) x) (length b + m)"
        using m last bound out unfolding y exported_def by auto
      then show ?thesis by blast
    qed
  qed
qed

text \<open>
  C14. The pages of a snapshot put together are the selected events in the order of their sequence numbers, each once. An export
  writes the header and the first \<open>k\<close> of them and no more than the row quota; the bytes before its last row are below the byte quota, so that
  only the last row can pass it. It ends with all of them written, or at a quota it has reached (and only then is it flagged as partial),
  or at the first batch before which the cancellation or the revocation of the key was seen.
\<close>

theorem job_exports_snapshot:
  assumes "inj_on sn_seq (set events)" "distinct events" "\<forall>e \<in> set events. 0 < sn_seq e" "0 < batchSize"
  shows "concat (iterateEventsSnapshot batchSize contract from until events) = sort_key sn_seq (filter (snapshot_selected contract from until) events) \<and>
    (\<exists>k. exported q (export_chunk stringify csv) seen 0 (iterateEventsSnapshot batchSize contract from until events) (start_export csv)
       (export_all q (export_chunk stringify csv) seen 0 (iterateEventsSnapshot batchSize contract from until events) (start_export csv)) k)"
proof
  have "filter (\<lambda>e. 0 < sn_seq e \<and> snapshot_selected contract from until e) events = filter (snapshot_selected contract from until) events"
    using assms(3) by (intro filter_cong) auto
  moreover have "length (filter (\<lambda>e. 0 < sn_seq e \<and> snapshot_selected contract from until e) events) < Suc (length events)"
    by (simp add: le_imp_less_Suc)
  ultimately show "concat (iterateEventsSnapshot batchSize contract from until events) =
      sort_key sn_seq (filter (snapshot_selected contract from until) events)"
    unfolding iterateEventsSnapshot_def using snapshot_pages_concat [OF assms(1,2,4)] by metis
qed (rule export_all_spec [OF start_export_sound])

definition sample_event :: "nat \<Rightarrow> snapshot_event" where
  "sample_event n = \<lparr>sn_seq = n, sn_ledger = 5, sn_contract = ''C'', sn_cells = [Some (dec n)]\<rparr>"

text \<open>Three events on two pages, and a cancellation that is seen before the second.\<close>

theorem job_exports_snapshot_witness:
  "(let q = \<lparr>jq_concurrent = 1, jq_rows = 5, jq_bytes = 100\<rparr>; seen = (\<lambda>i. (i = 1, True));
        pages = iterateEventsSnapshot 2 None None None [sample_event 3, sample_event 1, sample_event 2];
        y = export_all q (export_chunk (\<lambda>e. dec (sn_seq e)) False) seen 0 pages (start_export False)
    in concat pages = [sample_event 1, sample_event 2, sample_event 3] \<and> ex_stop y = Some Stop_cancelled \<and> ex_rows y = 2 \<and>
       (\<exists>k. exported q (export_chunk (\<lambda>e. dec (sn_seq e)) False) seen 0 pages (start_export False) y k))"
proof -
  let ?q = "\<lparr>jq_concurrent = 1, jq_rows = 5, jq_bytes = 100\<rparr>" and ?seen = "\<lambda>i. (i = (1::nat), True)"
    and ?pages = "iterateEventsSnapshot 2 None None None [sample_event 3, sample_event 1, sample_event 2]"
  have "ex_stop (export_all ?q (export_chunk (\<lambda>e. dec (sn_seq e)) False) ?seen 0 ?pages (start_export False)) = Some Stop_cancelled"
    "ex_rows (export_all ?q (export_chunk (\<lambda>e. dec (sn_seq e)) False) ?seen 0 ?pages (start_export False)) = 2"
    by code_simp+
  moreover have "concat ?pages = [sample_event 1, sample_event 2, sample_event 3] \<and>
    (\<exists>k. exported ?q (export_chunk (\<lambda>e. dec (sn_seq e)) False) ?seen 0 ?pages (start_export False)
       (export_all ?q (export_chunk (\<lambda>e. dec (sn_seq e)) False) ?seen 0 ?pages (start_export False)) k)"
    using job_exports_snapshot [of "[sample_event 3, sample_event 1, sample_event 2]" 2 None None None ?q
        "\<lambda>e. dec (sn_seq e)" False ?seen]
    by (simp add: sample_event_def snapshot_selected_def)
  ultimately show ?thesis unfolding Let_def by blast
qed

text \<open>The byte quota does not bound the bytes: the last row is written whole, whatever its length.\<close>

lemma byte_quota_passed:
  "0 < jq_rows q \<Longrightarrow> 0 < jq_bytes q \<Longrightarrow> ex_bytes (export_all q (\<lambda>_. replicate n CHR ''x'') (\<lambda>_. (False, True)) 0 [[e]] (start_export False)) = n"
  by (simp add: export_batch_def start_export_def Let_def)

subsection \<open>The worker pool\<close>

definition pool_ok :: "nat \<Rightarrow> jobs_world \<Rightarrow> bool" where
  "pool_ok workers w \<longleftrightarrow> qw_running w \<le> workers \<and> (qw_queue w \<noteq> [] \<longrightarrow> qw_running w = workers) \<and>
     distinct (map rn_id (qw_runs w)) \<and>
     (\<forall>r \<in> set (qw_runs w). \<forall>j \<in> set (qw_jobs w). jb_id j = rn_id r \<longrightarrow> jb_status j \<noteq> Queued)"

lemma pump_ok:
  assumes "qw_running w \<le> workers" "distinct (map rn_id (qw_runs w))"
    "\<forall>r \<in> set (qw_runs w). \<forall>j \<in> set (qw_jobs w). jb_id j = rn_id r \<longrightarrow> jb_status j \<noteq> Queued"
  shows "pool_ok workers (pump workers w)"
  using assms by (auto simp: pool_ok_def pump_def Let_def qw_running_def)

lemma updateQueryJob_status:
  assumes "j \<in> set (updateQueryJob i f jobs)" "\<And>j. jb_id (f j) = jb_id j" "\<And>j. jb_status (f j) = Queued \<Longrightarrow> jb_status j = Queued"
  shows "\<exists>j' \<in> set jobs. jb_id j' = jb_id j \<and> (jb_status j = Queued \<longrightarrow> jb_status j' = Queued)"
  using assms by (auto simp: updateQueryJob_def split: if_splits)

text \<open>Statements that change rows without queueing one keep the invariant.\<close>

lemma pool_ok_jobs:
  assumes "pool_ok workers w" "qw_runs w' = qw_runs w" "qw_queue w' = qw_queue w" "qw_starting w' = qw_starting w"
    and "\<And>j. j \<in> set (qw_jobs w') \<Longrightarrow> \<exists>j' \<in> set (qw_jobs w). jb_id j' = jb_id j \<and> (jb_status j = Queued \<longrightarrow> jb_status j' = Queued)"
  shows "pool_ok workers w'"
  using assms unfolding pool_ok_def qw_running_def by metis

lemma finished_status [simp]: "jb_id (finished now x j) = jb_id j" "jb_status (finished now x j) \<noteq> Queued"
  by (auto simp: finished_def)

lemma sweep_jobs:
  "j \<in> set (foldl (\<lambda>jobs j. updateQueryJob (jb_id j) (\<lambda>j. j\<lparr>jb_status := Expired, jb_path := None\<rparr>) jobs) jobs due) \<Longrightarrow>
    \<exists>j' \<in> set jobs. jb_id j' = jb_id j \<and> (jb_status j = Queued \<longrightarrow> jb_status j' = Queued)"
proof (induction due arbitrary: jobs)
  case (Cons d due)
  from Cons.IH [of "updateQueryJob (jb_id d) (\<lambda>j. j\<lparr>jb_status := Expired, jb_path := None\<rparr>) jobs"] Cons.prems
  obtain j1 where j1: "j1 \<in> set (updateQueryJob (jb_id d) (\<lambda>j. j\<lparr>jb_status := Expired, jb_path := None\<rparr>) jobs)"
    "jb_id j1 = jb_id j" "jb_status j = Queued \<longrightarrow> jb_status j1 = Queued" by auto
  from updateQueryJob_status [OF j1(1)] j1(2,3) show ?case by fastforce
qed auto

lemma remove_nth_map: "map f (take k xs @ drop (Suc k) xs) = take k (map f xs) @ drop (Suc k) (map f xs)"
  by (simp add: take_map drop_map)

lemma distinct_remove_nth: "distinct xs \<Longrightarrow> distinct (take k xs @ drop (Suc k) xs)"
  by (simp add: set_take_disj_set_drop_if_distinct)

lemma leave_run_ok:
  assumes "pool_ok workers w" "k < length (qw_runs w)"
    and "\<And>j. j \<in> set jobs \<Longrightarrow> \<exists>j' \<in> set (qw_jobs w). jb_id j' = jb_id j \<and> (jb_status j = Queued \<longrightarrow> jb_status j' = Queued)"
  shows "pool_ok workers (leave_run workers k (w\<lparr>qw_jobs := jobs, qw_files := files\<rparr>))"
  unfolding leave_run_def
proof (rule pump_ok)
  let ?w = "w\<lparr>qw_jobs := jobs, qw_files := files\<rparr>" and ?runs = "take k (qw_runs w) @ drop (Suc k) (qw_runs w)"
  have sub: "set ?runs \<subseteq> set (qw_runs w)" using set_take_subset [of k] set_drop_subset [of "Suc k"] by force
  have dist: "distinct (map rn_id ?runs)"
    unfolding remove_nth_map by (rule distinct_remove_nth) (use assms(1) in \<open>simp add: pool_ok_def\<close>)
  show "distinct (map rn_id (qw_runs (?w\<lparr>qw_runs := take k (qw_runs ?w) @ drop (Suc k) (qw_runs ?w),
      qw_cancelled := removeAll (rn_id (qw_runs ?w ! k)) (qw_cancelled ?w)\<rparr>)))"
    using dist by simp
  show "\<forall>r \<in> set (qw_runs (?w\<lparr>qw_runs := take k (qw_runs ?w) @ drop (Suc k) (qw_runs ?w),
      qw_cancelled := removeAll (rn_id (qw_runs ?w ! k)) (qw_cancelled ?w)\<rparr>)).
    \<forall>j \<in> set (qw_jobs (?w\<lparr>qw_runs := take k (qw_runs ?w) @ drop (Suc k) (qw_runs ?w),
      qw_cancelled := removeAll (rn_id (qw_runs ?w ! k)) (qw_cancelled ?w)\<rparr>)). jb_id j = rn_id r \<longrightarrow> jb_status j \<noteq> Queued"
  proof (intro ballI impI; simp)
    fix r j assume r: "r \<in> set (take k (qw_runs w)) \<or> r \<in> set (drop (Suc k) (qw_runs w))" and j: "j \<in> set jobs" "jb_id j = rn_id r"
    from assms(3) [OF j(1)] obtain j' where "j' \<in> set (qw_jobs w)" "jb_id j' = jb_id j" "jb_status j = Queued \<longrightarrow> jb_status j' = Queued" by blast
    with r sub j(2) assms(1) show "jb_status j \<noteq> Queued" unfolding pool_ok_def by auto
  qed
qed (use assms(1,2) in \<open>auto simp: pool_ok_def qw_running_def\<close>)

lemma getQueryJob_Some: "getQueryJob i jobs = Some j \<Longrightarrow> j \<in> set jobs \<and> jb_id j = i"
  by (auto simp: getQueryJob_def find_Some_iff)

lemma run_begin_ok:
  assumes "pool_ok workers w" "i \<in> set (qw_starting w)" "distinct (map jb_id (qw_jobs w))"
  shows "pool_ok workers (run_begin workers i batches w)"
proof -
  let ?w1 = "w\<lparr>qw_starting := remove1 i (qw_starting w)\<rparr>"
  have left: "pool_ok workers (pump workers ?w1)"
    using assms(1,2) by (intro pump_ok) (auto simp: pool_ok_def qw_running_def length_remove1)
  show ?thesis
  proof (cases "getQueryJob i (qw_jobs w)")
    case None
    then show ?thesis using left by (simp add: run_begin_def)
  next
    case (Some j)
    note j = getQueryJob_Some [OF Some]
    show ?thesis
    proof (cases "jb_status j \<noteq> Queued \<or> i \<in> set (qw_cancelled w)")
      case True
      then show ?thesis using left Some by (simp add: run_begin_def Let_def)
    next
      case False
      have new: "i \<notin> rn_id ` set (qw_runs w)" using assms(1) j False unfolding pool_ok_def by (metis imageE)
      have pos: "0 < length (qw_starting w)" using assms(2) by (auto simp: length_pos_if_in_set)
      let ?run = "\<lparr>rn_id = i, rn_key = jb_key j, rn_tier = jb_tier j, rn_csv = jb_csv j, rn_left = batches,
        rn_export = start_export (jb_csv j)\<rparr>"
      let ?jobs = "updateQueryJob i (\<lambda>j. j\<lparr>jb_status := Running, jb_path := Some (result_path i (jb_csv j))\<rparr>) (qw_jobs w)"
      have b: "run_begin workers i batches w = ?w1\<lparr>qw_jobs := ?jobs, qw_runs := qw_runs w @ [?run]\<rparr>"
        using Some False by (simp add: run_begin_def Let_def)
      have "jb_status j' \<noteq> Queued" if j': "j' \<in> set ?jobs" "jb_id j' = rn_id r" "r \<in> set (qw_runs w @ [?run])" for r j'
      proof (cases "r = ?run")
        case True
        from j'(1) obtain x where x: "j' = (if jb_id x = i then x\<lparr>jb_status := Running, jb_path := Some (result_path i (jb_csv x))\<rparr> else x)"
          unfolding updateQueryJob_def set_map by (elim imageE)
        with True j'(2) have "jb_id x = i" by (simp split: if_splits)
        with x show ?thesis by simp
      next
        case False
        with j' obtain j0 where "j0 \<in> set (qw_jobs w)" "jb_id j0 = rn_id r" "jb_status j' = Queued \<longrightarrow> jb_status j0 = Queued"
          by (auto simp: updateQueryJob_def split: if_splits)
        with False j'(3) assms(1) show ?thesis unfolding pool_ok_def by auto
      qed
      moreover have "distinct (map rn_id (qw_runs w @ [?run]))" using new assms(1) by (simp add: pool_ok_def)
      moreover have "length (remove1 i (qw_starting w)) + length (qw_runs w @ [?run]) = qw_running w"
        using assms(2) pos by (simp add: length_remove1 qw_running_def)
      ultimately show ?thesis using assms(1) unfolding b pool_ok_def by (simp add: qw_running_def) linarith
    qed
  qed
qed

definition jobs_ok :: "nat \<Rightarrow> jobs_world \<Rightarrow> bool" where
  "jobs_ok workers w \<longleftrightarrow> pool_ok workers w \<and> distinct (map jb_id (qw_jobs w)) \<and> rn_id ` set (qw_runs w) \<subseteq> jb_id ` set (qw_jobs w)"

lemma pump_simps [simp]: "qw_jobs (pump workers w) = qw_jobs w" "qw_runs (pump workers w) = qw_runs w"
  "qw_cancelled (pump workers w) = qw_cancelled w"
  by (simp_all add: pump_def Let_def)

lemma updateQueryJob_ids [simp]: "(\<And>j. jb_id (f j) = jb_id j) \<Longrightarrow> map jb_id (updateQueryJob i f jobs) = map jb_id jobs"
  by (auto simp: updateQueryJob_def)

lemma sweep_ids [simp]:
  "map jb_id (foldl (\<lambda>jobs j. updateQueryJob (jb_id j) (\<lambda>j. j\<lparr>jb_status := Expired, jb_path := None\<rparr>) jobs) jobs due) = map jb_id jobs"
  by (induction due arbitrary: jobs) simp_all

text \<open>The ids of the table and of the runs after each step.\<close>

lemma run_batch_ids:
  "map jb_id (qw_jobs (run_batch stringify key_active k w)) = map jb_id (qw_jobs w)"
  "map rn_id (qw_runs (run_batch stringify key_active k w)) = map rn_id (qw_runs w)"
proof -
  have "map rn_id ((qw_runs w)[k := (qw_runs w ! k)\<lparr>rn_left := l, rn_export := x\<rparr>]) = map rn_id (qw_runs w)" for l x
    by (cases "k < length (qw_runs w)") (simp_all add: map_update list_update_same_conv list_update_beyond)
  then show "map jb_id (qw_jobs (run_batch stringify key_active k w)) = map jb_id (qw_jobs w)"
    "map rn_id (qw_runs (run_batch stringify key_active k w)) = map rn_id (qw_runs w)"
    by (simp_all add: run_batch_def Let_def split: list.split)
qed

lemma leave_run_ids:
  "qw_jobs (leave_run workers k w) = qw_jobs w" "set (qw_runs (leave_run workers k w)) \<subseteq> set (qw_runs w)"
  using set_take_subset [of k "qw_runs w"] set_drop_subset [of "Suc k" "qw_runs w"] by (auto simp: leave_run_def)

lemma jobs_step_ids:
  assumes "jobs_step workers stringify w w'" "distinct (map jb_id (qw_jobs w))" "rn_id ` set (qw_runs w) \<subseteq> jb_id ` set (qw_jobs w)"
  shows "distinct (map jb_id (qw_jobs w')) \<and> rn_id ` set (qw_runs w') \<subseteq> jb_id ` set (qw_jobs w')"
proof -
  have keep: ?thesis if "map jb_id (qw_jobs w') = map jb_id (qw_jobs w)" "rn_id ` set (qw_runs w') \<subseteq> rn_id ` set (qw_runs w)"
    using that assms(2,3) by (metis order_trans set_map)
  from assms(1) show ?thesis
  proof cases
    case (jobs_submit i apiKey tier csv idem res)
    then show ?thesis using assms(2,3) by (auto simp: submit_create_def createQueryJob_def Let_def split: if_splits) blast+
  next
    case (jobs_cancel i seen)
    then show ?thesis by (intro keep) (simp_all add: cancelJob_def Let_def)
  next
    case (jobs_begin i batches)
    show ?thesis
    proof (cases "getQueryJob i (qw_jobs w)")
      case None
      then show ?thesis using jobs_begin(1) by (intro keep) (simp_all add: run_begin_def)
    next
      case (Some j)
      have i: "i \<in> jb_id ` set (qw_jobs w)" using getQueryJob_Some [OF Some] by blast
      have ids: "map jb_id (qw_jobs w') = map jb_id (qw_jobs w)" using Some jobs_begin(1) by (simp add: run_begin_def Let_def)
      have "rn_id ` set (qw_runs w') \<subseteq> insert i (rn_id ` set (qw_runs w))" using Some jobs_begin(1) by (auto simp: run_begin_def Let_def)
      also have "\<dots> \<subseteq> jb_id ` set (qw_jobs w)" using i assms(3) by simp
      also have "jb_id ` set (qw_jobs w) = jb_id ` set (qw_jobs w')" using ids by (metis set_map)
      finally have "rn_id ` set (qw_runs w') \<subseteq> jb_id ` set (qw_jobs w')" .
      with ids assms(2) show ?thesis by simp
    qed
  next
    case (jobs_batch k key_active)
    then show ?thesis by (intro keep) (simp_all add: run_batch_ids flip: set_map)
  next
    case (jobs_end k now)
    have sub: "rn_id ` set (qw_runs (leave_run workers k v)) \<subseteq> rn_id ` set (qw_runs w)" if "qw_runs v = qw_runs w" for v
      using leave_run_ids(2) [of workers k v] that by (simp add: image_mono)
    have "rn_id ` set (qw_runs w') \<subseteq> rn_id ` set (qw_runs w)"
    proof (cases "rn_left (qw_runs w ! k) \<noteq> [] \<and> ex_stop (rn_export (qw_runs w ! k)) = None")
      case True
      then show ?thesis using jobs_end(1) by (simp add: run_end_def Let_def)
    next
      case False
      then show ?thesis unfolding jobs_end(1) run_end_def Let_def if_not_P [OF False] by (intro sub) simp
    qed
    then show ?thesis using jobs_end(1) by (intro keep) (simp_all add: run_end_def Let_def leave_run_ids(1))
  next
    case (jobs_fail k)
    then show ?thesis using leave_run_ids(1) leave_run_ids(2) [of workers k "w\<lparr>qw_jobs := updateQueryJob (rn_id (qw_runs w ! k)) (\<lambda>j. j\<lparr>jb_status := Failed, jb_path := None\<rparr>) (qw_jobs w)\<rparr>"]
      by (intro keep) (auto simp: run_fail_def)
  next
    case (jobs_sweep now)
    then show ?thesis by (intro keep) (simp_all add: sweepExpiredJobs_def Let_def)
  qed
qed

lemma run_batch_ok:
  assumes "pool_ok workers w"
  shows "pool_ok workers (run_batch stringify key_active k w)"
proof -
  have jobs: "\<exists>j' \<in> set (qw_jobs w). jb_id j' = jb_id j \<and> (jb_status j = Queued \<longrightarrow> jb_status j' = Queued)"
    if "j \<in> set (qw_jobs (run_batch stringify key_active k w))" for j
    using that updateQueryJob_status [of j _ _ "qw_jobs w"]
    by (auto simp: run_batch_def Let_def updateQueryJob_def split: list.splits if_splits)
  have same: "qw_queue (run_batch stringify key_active k w) = qw_queue w" "qw_starting (run_batch stringify key_active k w) = qw_starting w"
    by (auto simp: run_batch_def Let_def split: list.split)
  have len: "length (qw_runs (run_batch stringify key_active k w)) = length (qw_runs w)"
    using run_batch_ids(2) by (metis length_map)
  have "rn_id ` set (qw_runs (run_batch stringify key_active k w)) = rn_id ` set (qw_runs w)"
    using run_batch_ids(2) by (metis set_map)
  then have "\<exists>r' \<in> set (qw_runs w). rn_id r' = rn_id r" if "r \<in> set (qw_runs (run_batch stringify key_active k w))" for r
    using that by (metis imageE imageI)
  with jobs assms show ?thesis
    unfolding pool_ok_def qw_running_def same len run_batch_ids(2) by metis
qed

lemma jobs_step_ok:
  assumes "jobs_step workers stringify w w'" "jobs_ok workers w"
  shows "jobs_ok workers w'"
proof -
  have ok: "pool_ok workers w" "distinct (map jb_id (qw_jobs w))" "rn_id ` set (qw_runs w) \<subseteq> jb_id ` set (qw_jobs w)"
    using assms(2) by (auto simp: jobs_ok_def)
  have "pool_ok workers w'"
    using assms(1)
  proof cases
    case (jobs_submit i apiKey tier csv idem res)
    have new: "\<forall>r \<in> set (qw_runs w). rn_id r \<noteq> i" using jobs_submit(1) ok(3) by blast
    moreover obtain j jobs where "createQueryJob i apiKey tier csv idem (qw_jobs w) = (j, jobs)" by fastforce
    ultimately show ?thesis
    proof (cases j)
      case None
      then show ?thesis using jobs_submit(2) ok(1) \<open>createQueryJob _ _ _ _ _ _ = _\<close> by (simp add: submit_create_def)
    next
      case (Some j')
      have "jobs = qw_jobs w @ [j'] \<and> jb_id j' = i"
        using Some \<open>createQueryJob _ _ _ _ _ _ = _\<close> by (auto simp: createQueryJob_def Let_def split: if_splits)
      moreover have "w' = pump workers (w\<lparr>qw_jobs := jobs, qw_queue := qw_queue w @ [i]\<rparr>)"
        using Some jobs_submit(2) \<open>createQueryJob _ _ _ _ _ _ = _\<close> by (simp add: submit_create_def)
      moreover have "pool_ok workers (pump workers (w\<lparr>qw_jobs := qw_jobs w @ [j'], qw_queue := qw_queue w @ [i]\<rparr>))"
        using ok(1) new calculation(1) by (intro pump_ok) (auto simp: pool_ok_def qw_running_def)
      ultimately show ?thesis by simp
    qed
  next
    case (jobs_cancel i seen)
    show ?thesis
      by (rule pool_ok_jobs [OF ok(1)]) (auto simp: jobs_cancel cancelJob_def Let_def updateQueryJob_def split: if_splits)
  next
    case (jobs_begin i batches)
    then show ?thesis using run_begin_ok [OF ok(1) _ ok(2)] by simp
  next
    case (jobs_batch k key_active)
    then show ?thesis using run_batch_ok [OF ok(1)] by simp
  next
    case (jobs_end k now)
    then show ?thesis
      using ok(1) leave_run_ok [OF ok(1) jobs_end(2)] updateQueryJob_status [of _ _ "finished now _" "qw_jobs w"]
      by (auto simp: run_end_def Let_def)
  next
    case (jobs_fail k)
    have "pool_ok workers (leave_run workers k (w\<lparr>qw_jobs := updateQueryJob (rn_id (qw_runs w ! k)) (\<lambda>j. j\<lparr>jb_status := Failed, jb_path := None\<rparr>) (qw_jobs w),
        qw_files := qw_files w\<rparr>))"
      by (rule leave_run_ok [OF ok(1) jobs_fail(2)]) (auto simp: updateQueryJob_def split: if_splits)
    then show ?thesis using jobs_fail(1) by (simp add: run_fail_def)
  next
    case (jobs_sweep now)
    show ?thesis
      by (rule pool_ok_jobs [OF ok(1)]) (use sweep_jobs in \<open>auto simp: jobs_sweep sweepExpiredJobs_def Let_def\<close>)
  qed
  with jobs_step_ids [OF assms(1) ok(2,3)] show ?thesis by (simp add: jobs_ok_def)
qed

lemma maintenance_ok: "distinct (map jb_id jobs) \<Longrightarrow> jobs_ok workers (startQueryJobMaintenance workers jobs files)"
proof -
  assume "distinct (map jb_id jobs)"
  moreover have "jb_id \<circ> (\<lambda>j :: job. if jb_status j = Running then j\<lparr>jb_status := Failed\<rparr> else j) = jb_id" by (auto simp: fun_eq_iff)
  ultimately show ?thesis
    unfolding jobs_ok_def startQueryJobMaintenance_def Let_def
    by (auto intro!: pump_ok simp: qw_running_def)
qed

lemma jobs_run_ok: "(jobs_step workers stringify)\<^sup>*\<^sup>* w w' \<Longrightarrow> jobs_ok workers w \<Longrightarrow> jobs_ok workers w'"
  by (induction rule: rtranclp_induct) (auto intro: jobs_step_ok)

text \<open>
  From a restart on, whatever is submitted, cancelled, finished or fails, at most \<open>workers\<close> jobs run at a time, a worker is free only
  when nothing is queued, and no job runs twice at the same time.
\<close>

lemma job_pool_bounded:
  assumes "distinct (map jb_id jobs)" "(jobs_step workers stringify)\<^sup>*\<^sup>* (startQueryJobMaintenance workers jobs files) w"
  shows "qw_running w \<le> workers \<and> (qw_queue w \<noteq> [] \<longrightarrow> qw_running w = workers) \<and> distinct (map rn_id (qw_runs w))"
  using jobs_run_ok [OF assms(2) maintenance_ok [OF assms(1)]] by (auto simp: jobs_ok_def pool_ok_def)

definition old_job :: "string \<Rightarrow> job" where
  "old_job i = \<lparr>jb_id = i, jb_key = ''k'', jb_tier = ''free'', jb_csv = True, jb_idem = None, jb_status = Queued, jb_rows = 0,
     jb_bytes = 0, jb_partial = False, jb_path = None, jb_expires = None\<rparr>"

lemma job_pool_bounded_witness:
  "qw_running (run_begin 1 ''a'' [] (startQueryJobMaintenance 1 [old_job ''a'', old_job ''b''] [])) \<le> 1"
proof -
  let ?w = "startQueryJobMaintenance 1 [old_job ''a'', old_job ''b''] []"
  have "''a'' \<in> set (qw_starting ?w)"
    by (simp add: startQueryJobMaintenance_def Let_def pump_def qw_running_def old_job_def)
  from r_into_rtranclp [of "jobs_step 1 (\<lambda>_. [])", OF jobs_begin [OF this]]
  show ?thesis using job_pool_bounded [of "[old_job ''a'', old_job ''b'']" 1 "\<lambda>_. []" "[]"] by (auto simp: old_job_def)
qed

subsection \<open>Cancellation, and what overlapping requests do\<close>

lemma run_batch_cancelled:
  assumes "k < length (qw_runs w)" "rn_id (qw_runs w ! k) \<in> set (qw_cancelled w)" "rn_left (qw_runs w ! k) = b # bs"
    "ex_stop (rn_export (qw_runs w ! k)) = None"
  shows "run_batch stringify key_active k w =
    w\<lparr>qw_runs := (qw_runs w)[k := (qw_runs w ! k)\<lparr>rn_left := bs, rn_export := (rn_export (qw_runs w ! k))\<lparr>ex_stop := Some Stop_cancelled\<rparr>\<rparr>]\<rparr>"
  using assms by (simp add: run_batch_def export_batch_def Let_def)

text \<open>
  A run whose job is cancelled while batches are left stops at the next one: no row of it is written, no result file is left, and
  the job ends cancelled, without a result.
\<close>

lemma cancelled_run_stops:
  assumes "k < length (qw_runs w)" "rn_id (qw_runs w ! k) \<in> set (qw_cancelled w)" "rn_left (qw_runs w ! k) \<noteq> []"
    "ex_stop (rn_export (qw_runs w ! k)) = None"
  shows "qw_files (run_end workers now k (run_batch stringify key_active k w)) = qw_files w \<and>
    (\<forall>j \<in> set (qw_jobs (run_end workers now k (run_batch stringify key_active k w))).
      jb_id j = rn_id (qw_runs w ! k) \<longrightarrow> jb_status j = Cancelled \<and> jb_path j = None \<and> jb_rows j = ex_rows (rn_export (qw_runs w ! k)))"
proof -
  obtain b bs where bs: "rn_left (qw_runs w ! k) = b # bs" using assms(3) by (cases "rn_left (qw_runs w ! k)") auto
  show ?thesis
    using assms(1)
    by (auto simp: run_batch_cancelled [OF assms(1,2) bs assms(4)] run_end_def leave_run_def pump_def Let_def updateQueryJob_def finished_def
        split: if_splits)
qed

text \<open>
  The count of active jobs and the insert are two statements: two submissions that both count before either inserts are both accepted,
  past the limit of the tier.
\<close>

lemma overlapping_submissions_pass:
  assumes "submit_check ''k'' ''free'' None (qw_jobs w) = May_create"
    "submit_create workers ''a'' ''k'' ''free'' False None w = (r1, w1)" "submit_create workers ''b'' ''k'' ''free'' False None w1 = (r2, w2)"
  shows "r1 \<noteq> None \<and> r2 \<noteq> None \<and> jq_concurrent (quotaFor ''free'') < countActiveQueryJobs ''k'' (qw_jobs w2)"
  using assms
  by (auto simp: submit_create_def createQueryJob_def Let_def countActiveQueryJobs_def job_active_def quotaFor_def TIER_QUOTAS_def)

text \<open>A job cancelled while it is queued keeps its flag: the run returns before the block that clears it.\<close>

lemma cancel_flag_stays:
  "i \<in> set (qw_cancelled (run_begin workers i batches (cancelJob i Queued w)))"
  by (auto simp: run_begin_def cancelJob_def pump_def Let_def split: option.split)

subsection \<open>Requests and signed result URLs\<close>

definition JOB_TYPES :: "string list" where "JOB_TYPES = [''events_export'']"

definition FORMATS :: "string list" where "FORMATS = [''ndjson'', ''csv'']"

definition URL_TTL_SECONDS :: int where "URL_TTL_SECONDS = 300"

text \<open>\<open>set.has(body.k)\<close>: only a text can be in one of the two sets.\<close>

definition has_text :: "string list \<Rightarrow> json option \<Rightarrow> bool" where
  "has_text xs v = (case v of Some (JStr s) \<Rightarrow> s \<in> set xs | _ \<Rightarrow> False)"

definition bad_ledger :: "json option \<Rightarrow> bool" where
  "bad_ledger v = (case v of None \<Rightarrow> False | Some (JNum x) \<Rightarrow> \<not> (of_int \<lfloor>x\<rfloor> = x \<and> 0 \<le> x) | Some _ \<Rightarrow> True)"

definition validateJobRequest :: "json \<Rightarrow> string option" where
  "validateJobRequest body =
     (if \<not> truthy body \<or> \<not> has_text JOB_TYPES (prop_of body ''type'')
      then Some (''type must be one of: '' @ join '', '' JOB_TYPES)
      else if prop_of body ''format'' \<noteq> None \<and> \<not> has_text FORMATS (prop_of body ''format'')
      then Some (''format must be one of: '' @ join '', '' FORMATS)
      else let p = (case prop_of body ''params'' of None \<Rightarrow> JObj [] | Some JNull \<Rightarrow> JObj [] | Some v \<Rightarrow> v)
           in case find (\<lambda>k. bad_ledger (prop_of p k)) [''from_ledger'', ''to_ledger''] of
                Some k \<Rightarrow> Some (''params.'' @ k @ '' must be a non-negative integer'')
              | None \<Rightarrow> (case prop_of p ''contract'' of
                           None \<Rightarrow> None | Some (JStr _) \<Rightarrow> None | Some _ \<Rightarrow> Some ''params.contract must be a string''))"

text \<open>The HMAC with the secret of the process is the parameter \<open>mac\<close>.\<close>

definition urlSignature :: "(string \<Rightarrow> string) \<Rightarrow> string \<Rightarrow> jsnum \<Rightarrow> string" where
  "urlSignature mac i expires = mac (i @ ''.'' @ number_text expires)"

definition signed_query :: "(string \<Rightarrow> string) \<Rightarrow> string \<Rightarrow> int \<Rightarrow> string \<times> string" where
  "signed_query mac i now =
     (let expires = now div 1000 + URL_TTL_SECONDS in (int_text expires, urlSignature mac i (Num (of_int expires))))"

definition signedResultUrl :: "(string \<Rightarrow> string) \<Rightarrow> string \<Rightarrow> int \<Rightarrow> string" where
  "signedResultUrl mac i now =
     (case signed_query mac i now of (expires, sig) \<Rightarrow> ''/api/jobs/'' @ i @ ''/download?expires='' @ expires @ ''&sig='' @ sig)"

definition verifyResultUrl :: "(string \<Rightarrow> string) \<Rightarrow> string \<Rightarrow> string option \<Rightarrow> string option \<Rightarrow> int \<Rightarrow> bool" where
  "verifyResultUrl mac i expires sig now =
     (case (expires, sig) of
        (Some e, Some s) \<Rightarrow> e \<noteq> [] \<and> s \<noteq> [] \<and> \<not> num_less (num_mul (to_number e) (Num 1000)) (Num (of_int now)) \<and>
                           urlSignature mac i (to_number e) = s
      | _ \<Rightarrow> False)"

lemma url_roundtrip:
  assumes "signed_query mac i now = (expires, sig)" "\<And>s. mac s \<noteq> []"
  shows "verifyResultUrl mac i (Some expires) (Some sig) now' \<longleftrightarrow> now' \<le> (now div 1000 + URL_TTL_SECONDS) * 1000"
proof -
  have "int_text n \<noteq> []" for n by (simp add: int_text_def)
  moreover have "(of_int a * 1000 < (of_int b :: rat)) \<longleftrightarrow> a * 1000 < b" for a b
    by (metis of_int_less_iff of_int_mult of_int_numeral)
  ultimately show ?thesis
    using assms by (auto simp: signed_query_def verifyResultUrl_def Let_def urlSignature_def)
qed

lemma dot_free_split:
  assumes "CHR ''.'' \<notin> set a" "CHR ''.'' \<notin> set b" "a @ CHR ''.'' # s = b @ CHR ''.'' # t"
  shows "a = b \<and> s = t"
  using assms
proof (induction a arbitrary: b)
  case Nil
  then show ?case by (cases b) auto
next
  case (Cons x a)
  then obtain b' where "b = x # b'" by (cases b) auto
  with Cons show ?case by auto
qed

lemma digits_or_dot:
  "\<not> all_digits (dec m @ ''.'' @ s)" "all_digits s \<Longrightarrow> CHR ''.'' \<notin> set s" "all_digits s \<Longrightarrow> CHR ''-'' \<notin> set s"
  by (auto simp: all_digits_def list_all_iff is_digit_def)

lemma number_text_int_inj:
  assumes "number_text v = int_text n" "0 \<le> n"
  shows "v = Num (of_int n)"
proof -
  have "all_digits (number_text v)" using assms by (simp add: int_text_def)
  then have digits: "list_all is_digit (number_text v)" by (simp add: all_digits_def)
  show ?thesis
  proof (cases v)
    case (Num x)
    let ?a = "\<bar>x\<bar>" and ?k = "frac_digits \<bar>x\<bar>"
    have n: "int_text n = dec (nat n)" using assms(2) by (simp add: int_text_def)
    have pos: "\<not> x < 0"
    proof
      assume "x < 0"
      then obtain r where "CHR ''-'' # r = dec (nat n)" using assms(1) n by (simp add: Num num_text_def Let_def)
      then have "CHR ''-'' \<in> set (dec (nat n))" by (metis list.set_intros(1))
      then show False using digits_or_dot(3) [OF all_digits_dec] by blast
    qed
    have k: "?k = 0"
    proof (rule ccontr)
      assume "?k \<noteq> 0"
      then have "dec (nat n) = dec (nat \<lfloor>?a * 10 ^ ?k\<rfloor> div 10 ^ ?k) @ ''.'' @ pad_start ?k CHR ''0'' (dec (nat \<lfloor>?a * 10 ^ ?k\<rfloor> mod 10 ^ ?k))"
        using assms(1) pos by (simp add: Num n num_text_def Let_def)
      then show False using digits_or_dot(1) all_digits_dec by metis
    qed
    then obtain "of_int \<lfloor>?a\<rfloor> = ?a"
      by (auto simp: frac_digits_def split: list.splits dest!: filter_eq_ConsD)
    then obtain m where m: "x = of_int m" by (metis abs_of_nonneg linorder_not_less pos)
    with assms(1,2) pos have "dec (nat m) = dec (nat n)" using n by (simp add: Num num_text_int int_text_def)
    then have "nat m = nat n" by (metis undec_dec)
    with m pos assms(2) show ?thesis by (simp add: Num)
  qed (use digits in \<open>simp_all add: is_digit_def\<close>)
qed

text \<open>
  A signed result URL opens the result of its own job and only until it expires: its signature is accepted for another job, or for
  another expiry text, only if the HMAC of two texts collides; for its own parameters it is accepted exactly until then.
\<close>

lemma result_url_bound:
  assumes "signed_query mac i issued = (expires, sig)" "inj mac" "\<And>s. mac s \<noteq> []" "CHR ''.'' \<notin> set i" "CHR ''.'' \<notin> set i'" "0 \<le> issued"
  shows "(verifyResultUrl mac i (Some expires) (Some sig) now \<longleftrightarrow> now \<le> (issued div 1000 + URL_TTL_SECONDS) * 1000) \<and>
    (verifyResultUrl mac i' (Some e) (Some sig) now \<longrightarrow> i' = i \<and> now \<le> (issued div 1000 + URL_TTL_SECONDS) * 1000)"
proof (intro conjI impI)
  show "verifyResultUrl mac i (Some expires) (Some sig) now \<longleftrightarrow> now \<le> (issued div 1000 + URL_TTL_SECONDS) * 1000"
    using url_roundtrip [OF assms(1,3)] .
next
  assume v: "verifyResultUrl mac i' (Some e) (Some sig) now"
  let ?n = "issued div 1000 + URL_TTL_SECONDS"
  have n: "0 \<le> ?n" using assms(6) by (simp add: URL_TTL_SECONDS_def)
  have "i' @ ''.'' @ number_text (to_number e) = i @ ''.'' @ int_text ?n"
    using v assms(1,2) by (auto simp: signed_query_def verifyResultUrl_def Let_def urlSignature_def num_text_int dest: injD)
  then have same: "i' = i \<and> number_text (to_number e) = int_text ?n" using dot_free_split [of i' i] assms(4,5) by simp
  then have "to_number e = Num (of_int ?n)" using number_text_int_inj n by blast
  moreover have "(of_int ?n * 1000 < (of_int now :: rat)) \<longleftrightarrow> ?n * 1000 < now"
    by (metis of_int_less_iff of_int_mult of_int_numeral)
  ultimately show "i' = i" "now \<le> ?n * 1000" using v same by (auto simp: verifyResultUrl_def)
qed

lemma result_url_bound_witness:
  "verifyResultUrl (\<lambda>s. ''m'' @ s) ''a'' (Some (int_text 300)) (Some (''m'' @ ''a.'' @ int_text 300)) 300000 \<and>
   \<not> verifyResultUrl (\<lambda>s. ''m'' @ s) ''b'' (Some (int_text 300)) (Some (''m'' @ ''a.'' @ int_text 300)) 300000"
  using result_url_bound [where mac = "\<lambda>s. ''m'' @ s" and i = "''a''" and issued = 0 and expires = "int_text 300"
      and sig = "''m'' @ ''a.'' @ int_text 300" and i' = "''b''" and now = 300000 and e = "int_text 300"]
  by (simp add: signed_query_def Let_def urlSignature_def num_text_int URL_TTL_SECONDS_def inj_def)

subsection \<open>The routes\<close>

text \<open>
  The routes of api.js over the runner. \<open>keyId\<close> is the key the request was authenticated with; a reply is its status with the job, the
  signed URL or the file it carries. The job is read again after a cancellation, as \<open>cancelJob\<close> returns it.
\<close>

datatype job_reply =
    Job_error nat string
  | Job_view nat job
  | Job_result "string \<times> string" bool nat
  | Job_file string

definition loadOwnJob :: "string option \<Rightarrow> string \<Rightarrow> job list \<Rightarrow> job_reply + job" where
  "loadOwnJob keyId i jobs =
     (case keyId of
        None \<Rightarrow> Inl (Job_error 401 ''An API key is required for query jobs'')
      | Some k \<Rightarrow> (case getQueryJob i jobs of
                     None \<Rightarrow> Inl (Job_error 404 ''Job not found'')
                   | Some j \<Rightarrow> if jb_key j \<noteq> k then Inl (Job_error 404 ''Job not found'') else Inr j))"

definition get_job :: "string option \<Rightarrow> string \<Rightarrow> jobs_world \<Rightarrow> job_reply" where
  "get_job keyId i w = (case loadOwnJob keyId i (qw_jobs w) of Inl e \<Rightarrow> e | Inr j \<Rightarrow> Job_view 200 j)"

definition delete_job :: "string option \<Rightarrow> string \<Rightarrow> jobs_world \<Rightarrow> job_reply \<times> jobs_world" where
  "delete_job keyId i w =
     (case loadOwnJob keyId i (qw_jobs w) of
        Inl e \<Rightarrow> (e, w)
      | Inr j \<Rightarrow>
          let w' = cancelJob (jb_id j) (jb_status j) w
          in (case getQueryJob (jb_id j) (qw_jobs w') of Some j' \<Rightarrow> Job_view 200 j' | None \<Rightarrow> Job_error 500 [], w'))"

definition post_job :: "nat \<Rightarrow> string \<Rightarrow> string option \<Rightarrow> string \<Rightarrow> json \<Rightarrow> string option \<Rightarrow> jobs_world \<Rightarrow> job_reply \<times> jobs_world" where
  "post_job workers i keyId tier body idem w =
     (case keyId of
        None \<Rightarrow> (Job_error 401 ''An API key is required for query jobs'', w)
      | Some k \<Rightarrow>
          (case validateJobRequest body of
             Some e \<Rightarrow> (Job_error 400 e, w)
           | None \<Rightarrow>
               let idem' = (if idem = Some [] then None else idem)
               in case submit_check k tier idem' (qw_jobs w) of
                    Existing j \<Rightarrow> (Job_view 200 j, w)
                  | Too_many_jobs \<Rightarrow> (Job_error 429 ''Concurrent job quota exceeded for this tier'', w)
                  | May_create \<Rightarrow>
                      (case submit_create workers i k tier (prop_of body ''format'' = Some (JStr ''csv'')) idem' w of
                         (Some j, w') \<Rightarrow> (Job_view (if jb_id j = i then 202 else 200) j, w')
                       | (None, w') \<Rightarrow> (Job_error 500 [], w'))))"

fun status_text :: "job_status \<Rightarrow> string" where
  "status_text Queued = ''queued''"
| "status_text Running = ''running''"
| "status_text Succeeded = ''succeeded''"
| "status_text Failed = ''failed''"
| "status_text Cancelled = ''cancelled''"
| "status_text Expired = ''expired''"

definition job_result :: "(string \<Rightarrow> string) \<Rightarrow> int \<Rightarrow> string option \<Rightarrow> string \<Rightarrow> jobs_world \<Rightarrow> job_reply" where
  "job_result mac now keyId i w =
     (case loadOwnJob keyId i (qw_jobs w) of
        Inl e \<Rightarrow> e
      | Inr j \<Rightarrow> if jb_status j \<noteq> Succeeded \<or> jb_path j = None \<or> jb_path j = Some [] then Job_error 409 (''Job is '' @ status_text (jb_status j) @ ''; no result available'')
                else Job_result (signed_query mac (jb_id j) now) (jb_partial j) (jb_rows j))"

definition job_download ::
  "(string \<Rightarrow> string) \<Rightarrow> int \<Rightarrow> api_key_row list \<Rightarrow> string \<Rightarrow> string option \<Rightarrow> string option \<Rightarrow> jobs_world \<Rightarrow> job_reply" where
  "job_download mac now keys i expires sig w =
     (if \<not> verifyResultUrl mac i expires sig now then Job_error 403 ''Invalid or expired download URL''
      else case getQueryJob i (qw_jobs w) of
             None \<Rightarrow> Job_error 404 ''Result not found''
           | Some j \<Rightarrow>
               (case (if jb_status j \<noteq> Succeeded then None else jb_path j) of
                  None \<Rightarrow> Job_error 404 ''Result not found''
                | Some p \<Rightarrow>
                    (case map_of (rev (qw_files w)) p of
                       None \<Rightarrow> Job_error 404 ''Result not found''
                     | Some content \<Rightarrow>
                         if \<not> isApiKeyActive now (jb_key j) keys
                         then Job_error 403 ''The API key that owns this job is no longer active''
                         else Job_file content)))"

text \<open>
  C35. A file is sent only for a signature the process has made for this very job and that has not expired, only for a job that succeeded,
  and only while the API key that submitted it is active; a signature comes only from \<open>/result\<close>, which answers the owning key alone.
\<close>

theorem job_download_guarded:
  "(job_download mac now keys i expires sig w = Job_file content \<longrightarrow>
     (\<exists>j \<in> set (qw_jobs w). jb_id j = i \<and> jb_status j = Succeeded \<and> isApiKeyActive now (jb_key j) keys \<and>
        (\<exists>p. jb_path j = Some p \<and> (p, content) \<in> set (qw_files w)) \<and>
        (\<exists>e. expires = Some e \<and> sig = Some (urlSignature mac i (to_number e)) \<and> \<not> num_less (num_mul (to_number e) (Num 1000)) (Num (of_int now))))) \<and>
   (job_result mac now keyId i w = Job_result url flag n \<longrightarrow>
     (\<exists>j \<in> set (qw_jobs w). jb_id j = i \<and> keyId = Some (jb_key j) \<and> jb_status j = Succeeded \<and> url = signed_query mac i now))"
proof (intro conjI impI)
  assume sent: "job_download mac now keys i expires sig w = Job_file content"
  then have v: "verifyResultUrl mac i expires sig now" by (auto simp: job_download_def split: if_splits)
  with sent obtain j where j: "getQueryJob i (qw_jobs w) = Some j" by (auto simp: job_download_def split: option.splits if_splits)
  with sent v obtain p where p: "jb_status j = Succeeded" "jb_path j = Some p" "map_of (rev (qw_files w)) p = Some content"
    "isApiKeyActive now (jb_key j) keys"
    by (auto simp: job_download_def split: option.splits if_splits)
  from map_of_SomeD [OF p(3)] have "(p, content) \<in> set (qw_files w)" by simp
  moreover have "\<exists>e. expires = Some e \<and> sig = Some (urlSignature mac i (to_number e)) \<and> \<not> num_less (num_mul (to_number e) (Num 1000)) (Num (of_int now))"
    using v by (auto simp: verifyResultUrl_def split: option.splits)
  ultimately show "\<exists>j \<in> set (qw_jobs w). jb_id j = i \<and> jb_status j = Succeeded \<and> isApiKeyActive now (jb_key j) keys \<and>
        (\<exists>p. jb_path j = Some p \<and> (p, content) \<in> set (qw_files w)) \<and>
        (\<exists>e. expires = Some e \<and> sig = Some (urlSignature mac i (to_number e)) \<and> \<not> num_less (num_mul (to_number e) (Num 1000)) (Num (of_int now)))"
    using getQueryJob_Some [OF j] p by blast
next
  assume "job_result mac now keyId i w = Job_result url flag n"
  then obtain j where j: "loadOwnJob keyId i (qw_jobs w) = Inr j" "jb_status j = Succeeded" "url = signed_query mac (jb_id j) now"
    by (auto simp: job_result_def loadOwnJob_def split: sum.splits if_splits option.splits)
  then have "getQueryJob i (qw_jobs w) = Some j \<and> keyId = Some (jb_key j)"
    by (auto simp: loadOwnJob_def split: option.splits if_splits)
  with j getQueryJob_Some [of i "qw_jobs w" j]
  show "\<exists>j \<in> set (qw_jobs w). jb_id j = i \<and> keyId = Some (jb_key j) \<and> jb_status j = Succeeded \<and> url = signed_query mac i now" by auto
qed

definition done_job :: job where
  "done_job = \<lparr>jb_id = ''a'', jb_key = ''k'', jb_tier = ''free'', jb_csv = True, jb_idem = None, jb_status = Succeeded, jb_rows = 0,
     jb_bytes = 0, jb_partial = False, jb_path = Some ''a.csv'', jb_expires = None\<rparr>"

theorem job_download_guarded_witness:
  "\<exists>j \<in> set [done_job]. isApiKeyActive 0 (jb_key j) [\<lparr>ak_id = ''k'', ak_revoked = False, ak_expires = None\<rparr>]"
proof -
  let ?w = "\<lparr>qw_jobs = [done_job], qw_queue = [], qw_starting = [], qw_runs = [], qw_cancelled = [], qw_files = [(''a.csv'', ''x'')]\<rparr>"
  have "int_text 300 \<noteq> []" by (simp add: int_text_def)
  then have "job_download (\<lambda>s. ''m'' @ s) 0 [\<lparr>ak_id = ''k'', ak_revoked = False, ak_expires = None\<rparr>] ''a'' (Some (int_text 300))
      (Some (urlSignature (\<lambda>s. ''m'' @ s) ''a'' (Num (of_int 300)))) ?w = Job_file ''x''"
    by (simp only: job_download_def verifyResultUrl_def to_number_int_text)
      (simp add: urlSignature_def getQueryJob_def done_job_def isApiKeyActive_def)
  with job_download_guarded [of "\<lambda>s. ''m'' @ s" 0 "[\<lparr>ak_id = ''k'', ak_revoked = False, ak_expires = None\<rparr>]" "''a''" "Some (int_text 300)"
      "Some (urlSignature (\<lambda>s. ''m'' @ s) ''a'' (Num (of_int 300)))" ?w "''x''"]
  show ?thesis by auto
qed

end
