(* ===== verification/Event_Text.thy ===== *)
theory Event_Text
  imports Native_Values
begin

section \<open>Descriptions of events (the builders of indexer/src/decoder.js)\<close>

text \<open>
  The sentences the decoder writes for an event: swaps with their slippage, transfers, mints, burns, stakes, allowances, NFTs, liquidity,
  vaults, wrapped XLM, StellarSwap, Blend, classic payments and the summary of a transaction. Arguments are the decoded topics after the
  first and the decoded data; the asset codes of known asset contracts and the names of resolved assets are parameters. Shown: a
  transaction's summary names the actor once and strips it from every part, an allowance is called revoked exactly when its amount is zero,
  transfers are never described as NFT transfers, and swaps with at most four topics have no slippage.
\<close>

subsection \<open>Slippage\<close>

definition SWAP_FUNCTIONS :: "string list" where "SWAP_FUNCTIONS = [''swap'', ''swap_exact_tokens_for_tokens'']"

definition SLIPPAGE_DISPLAY_THRESHOLD_BPS :: int where "SLIPPAGE_DISPLAY_THRESHOLD_BPS = 10"

definition computeSlippageBps :: "native \<Rightarrow> native \<Rightarrow> int option" where
  "computeSlippageBps amountOut minAmountOut =
     (if nullish amountOut \<or> nullish minAmountOut then None
      else case (js_number amountOut, js_number minAmountOut) of
             (Num out, Num minOut) \<Rightarrow> if minOut = 0 then None else Some \<lfloor>\<bar>out - minOut\<bar> / minOut * 10000 + 1 / 2\<rfloor>
           | _ \<Rightarrow> None)"

definition extractSwapSlippageBps :: "native list \<Rightarrow> int option" where
  "extractSwapSlippageBps args = computeSlippageBps (elem args 3) (elem args 5)"

definition formatSlippageSuffix :: "int option \<Rightarrow> string" where
  "formatSlippageSuffix bps =
     (case bps of None \<Rightarrow> []
      | Some b \<Rightarrow> if b \<le> SLIPPAGE_DISPLAY_THRESHOLD_BPS then [] else '' (slippage: '' @ to_fixed 2 (of_int b / 100) @ ''%)'')"

subsection \<open>The generic description\<close>

definition genericDescription :: "string \<Rightarrow> native list \<Rightarrow> native \<Rightarrow> string \<Rightarrow> native list option \<Rightarrow> string" where
  "genericDescription fn args data contractId fullTopics =
     fn @ ''('' @ join '', '' (map formatDescriptionValue args) @ '') called on '' @ contractId @
     (if fullTopics = None \<and> nullish data then []
      else '' | raw: '' @
           the (safeStringify (VObj [(''topics'', VArr (case fullTopics of Some ts \<Rightarrow> ts | None \<Rightarrow> VStr fn # args)), (''data'', data)])))"

subsection \<open>Allowances\<close>

fun js_object :: "native \<Rightarrow> bool" where
  "js_object (VBytes _) = True"
| "js_object (VArr _) = True"
| "js_object (VObj _) = True"
| "js_object _ = False"

definition allowance_args :: "native list \<Rightarrow> native list" where
  "allowance_args args =
     (if length args = 1 \<and> js_object (elem args 0)
      then map (field (elem args 0)) [''from'', ''spender'', ''amount'', ''expiration_ledger'', ''token'']
      else args)"

definition of_owner :: string where "of_owner = [CHR 0x27, CHR ''s'']"

definition is_revoke :: "native \<Rightarrow> bool" where
  "is_revoke amount \<longleftrightarrow> amount = VNum (Num 0) \<or> amount = VBig 0 \<or> amount = VStr ''0'' \<or> (\<not> nullish amount \<and> js_number amount = Num 0)"

definition buildAllowanceDescription :: "string \<Rightarrow> native list \<Rightarrow> string \<Rightarrow> string" where
  "buildAllowanceDescription fn args0 contractName =
     (let args = allowance_args args0; amount = elem args 2; expiration = elem args 3;
          tokenLabel = js_string (coalesce (elem args 4) (VStr contractName)); owner = fmt (elem args 0); spender = fmt (elem args 1)
      in if fn = ''increase_allowance''
         then owner @ '' increased '' @ spender @ of_owner @ '' allowance by '' @ js_string (coalesce amount (VStr ''?'')) @ '' '' @ tokenLabel
         else if fn = ''decrease_allowance''
         then owner @ '' decreased '' @ spender @ of_owner @ '' allowance by '' @ js_string (coalesce amount (VStr ''?'')) @ '' '' @ tokenLabel
         else if is_revoke amount then owner @ '' revoked '' @ spender @ of_owner @ '' allowance to spend '' @ tokenLabel
         else owner @ '' approved '' @ spender @ '' to spend up to '' @ js_string amount @ '' '' @ tokenLabel @ '' ('' @
              (if \<not> js_truthy expiration then ''no expiry'' else ''expires ledger #'' @ js_string expiration) @ '')'')"

subsection \<open>NFTs\<close>

fun token_id :: "native \<Rightarrow> bool" where
  "token_id (VBig i) = (0 \<le> i)"
| "token_id (VNum (Num x)) = (of_int \<lfloor>x\<rfloor> = x \<and> 0 \<le> x \<and> x < 2 ^ 53 - 1)"
| "token_id _ = False"

definition find_value :: "(native \<Rightarrow> bool) \<Rightarrow> native list \<Rightarrow> native" where
  "find_value p xs = (case find p xs of Some v \<Rightarrow> v | None \<Rightarrow> VUndef)"

fun long_text :: "native list \<Rightarrow> native \<Rightarrow> bool" where
  "long_text others (VStr s) = (10 < length s \<and> VStr s \<notin> set others)"
| "long_text others _ = False"

fun ledger_number :: "native \<Rightarrow> bool" where
  "ledger_number (VNum x) = num_less (Num 1000000) x"
| "ledger_number _ = False"

fun numeric :: "native \<Rightarrow> bool" where
  "numeric (VBig _) = True"
| "numeric (VNum _) = True"
| "numeric _ = False"

definition id_text :: "native \<Rightarrow> string" where
  "id_text v = js_string (coalesce v (VStr ''?''))"

definition buildNftDescription :: "string \<Rightarrow> native list \<Rightarrow> native \<Rightarrow> string \<Rightarrow> string" where
  "buildNftDescription fn args data contractName =
     (let first = elem args 0; second = elem args 1; tokenId = find_value token_id (tl args)
      in if fn = ''transfer''
         then let tokenId = coalesce (find_value token_id (drop 2 args)) (find_value token_id args);
                  collection = find_value (long_text [first, second]) args
              in fmt first @ '' transferred NFT #'' @ id_text tokenId @
                 (if js_truthy collection then '' (collection: '' @ js_string collection @ '')'' else []) @ '' to '' @ fmt second
         else if fn = ''mint_nft''
         then let ledger = find_value ledger_number args;
                  collection = find_value (long_text [first, VStr (js_string ledger)]) args
              in fmt first @ '' minted NFT #'' @ id_text tokenId @
                 (if js_truthy collection then '' from collection '' @ fmt collection else '' on '' @ contractName) @
                 (if js_truthy ledger then '' at ledger #'' @ js_string ledger else [])
         else if fn = ''burn_nft'' then fmt first @ '' burned NFT #'' @ id_text tokenId
         else if fn = ''create'' then fmt first @ '' created NFT #'' @ id_text tokenId @ '' on '' @ contractName
         else if fn = ''list_nft''
         then let amount = find_value (\<lambda>a. numeric a \<and> a \<noteq> tokenId) args
              in fmt first @ '' listed NFT #'' @ id_text tokenId @ (if nullish amount then [] else '' for '' @ js_string amount) @
                 '' on '' @ contractName
         else genericDescription fn args data contractName None)"

subsection \<open>Liquidity\<close>

fun account_text :: "native \<Rightarrow> bool" where
  "account_text (VStr (c # _)) = (c = CHR ''G'' \<or> c = CHR ''C'')"
| "account_text _ = False"

fun token_text :: "native \<Rightarrow> bool" where
  "token_text (VStr s) = (3 \<le> length s \<and> length s \<le> 12)"
| "token_text _ = False"

fun amount_value :: "native \<Rightarrow> bool" where
  "amount_value (VBig i) = (0 \<le> i)"
| "amount_value (VNum x) = num_le (Num 0) x"
| "amount_value _ = False"

definition buildLiquidityDescription :: "string \<Rightarrow> native list \<Rightarrow> string" where
  "buildLiquidityDescription fn args =
     (let from = find_value account_text args; tokens = filter (\<lambda>a. token_text a \<and> a \<noteq> from) args; amounts = filter amount_value args;
          tokenA = js_string (coalesce (elem tokens 0) (VStr ''token_a'')); tokenB = js_string (coalesce (elem tokens 1) (VStr ''token_b''));
          amount = (\<lambda>i. id_text (elem amounts i)); pool = tokenA @ ''/'' @ tokenB @ '' pool''
      in if fn = ''add_liquidity'' \<or> fn = ''provide_liquidity''
         then fmt from @ '' added '' @ amount 0 @ '' '' @ tokenA @ '' + '' @ amount 1 @ '' '' @ tokenB @ '' to '' @ pool @
              (if nullish (elem amounts 2) then [] else '' (received '' @ js_string (elem amounts 2) @ '' LP tokens)'')
         else fmt from @ '' removed '' @ amount 0 @ '' LP tokens from '' @ pool @ '' (received '' @ amount 1 @ '' '' @ tokenA @ '' + '' @
              amount 2 @ '' '' @ tokenB @ '')'')"

subsection \<open>Matched functions\<close>

definition plain_or :: "native \<Rightarrow> string" where "plain_or token = js_string (coalesce token (VStr []))"

definition buildDescription :: "string \<Rightarrow> native list \<Rightarrow> native \<Rightarrow> string \<Rightarrow> native list option \<Rightarrow> string" where
  "buildDescription fn args data contractName fullTopics =
     (let a = elem args; on' = '' on '' @ contractName
      in if fn \<in> set SWAP_FUNCTIONS
         then ''Address '' @ fmt (a 0) @ '' swapped '' @ js_string (a 1) @ '' '' @ js_string (a 2) @ '' '' @ [ARROW] @ '' '' @ js_string (a 3) @ '' '' @
              js_string (a 4) @ on' @ formatSlippageSuffix (extractSwapSlippageBps args)
         else if fn = ''transfer''
         then ''Address '' @ fmt (a 0) @ '' transferred '' @ js_string (a 2) @ '' '' @ plain_or (a 3) @ '' to '' @ fmt (a 1) @ on'
         else if fn = ''mint'' then js_string (a 1) @ '' '' @ plain_or (a 2) @ '' minted to '' @ fmt (a 0) @ on'
         else if fn = ''burn'' then js_string (a 1) @ '' '' @ plain_or (a 2) @ '' burned from '' @ fmt (a 0) @ on'
         else if fn = ''clawback''
         then ''CLAWBACK: '' @ js_string (a 2) @ '' '' @ plain_or (a 3) @ '' recovered from '' @ fmt (a 1) @ '' by authority '' @ fmt (a 0) @ on'
         else if fn \<in> {''stake'', ''lock'', ''deposit_stake''}
         then fmt (a 0) @ '' staked '' @ fmtXlm (coalesce (a 1) data) @
              (if \<not> nullish (a 2) \<and> a 2 \<noteq> VNum (Num 0) then '' XLM for '' @ js_string (a 2) @ '' days'' else '' XLM'') @ on'
         else if fn \<in> {''unstake'', ''unlock''}
         then fmt (a 0) @ '' unstaked '' @ fmtXlm (coalesce (a 1) data) @
              (if \<not> nullish (a 2) \<and> a 2 \<noteq> VNum (Num 0) then '' XLM + '' @ fmtXlm (a 2) @ '' XLM rewards'' else '' XLM'') @ on'
         else if fn \<in> {''approve'', ''set_allowance'', ''increase_allowance'', ''decrease_allowance''}
         then buildAllowanceDescription fn args contractName
         else if fn \<in> {''mint_nft'', ''burn_nft'', ''create'', ''list_nft''} then buildNftDescription fn args data contractName
         else if fn \<in> {''add_liquidity'', ''provide_liquidity'', ''remove_liquidity'', ''withdraw_liquidity''}
         then buildLiquidityDescription fn args
         else genericDescription fn args data contractName fullTopics)"

subsection \<open>Native XLM, vaults, StellarSwap, Blend\<close>

definition nativeXlmDescription :: "string \<Rightarrow> native list \<Rightarrow> native \<Rightarrow> (string \<times> string) option" where
  "nativeXlmDescription fn args data =
     (let amt = fmtXlm (coalesce (elem args 1) data)
      in if fn = ''mint''
         then Some (''wrap_native'', ''Wrapped '' @ amt @ '' XLM (Classic '' @ [ARROW] @ '' Soroban) to '' @ fmt (elem args 0))
         else if fn = ''burn''
         then Some (''unwrap_native'', ''Unwrapped '' @ amt @ '' XLM (Soroban '' @ [ARROW] @ '' Classic) from '' @ fmt (elem args 0))
         else None)"

record vault =
  vt_name :: "string option"
  vt_asset :: "string option"

definition vaultDescription :: "string \<Rightarrow> native list \<Rightarrow> native \<Rightarrow> string \<Rightarrow> vault \<Rightarrow> native list option \<Rightarrow> string" where
  "vaultDescription fn args data contractName v fullTopics =
     (let assetLabel = (case vt_asset v of Some a \<Rightarrow> if a = [] then ''underlying asset'' else ''asset '' @ short a | None \<Rightarrow> ''underlying asset'')
      in if fn \<in> {''mint'', ''deposit''}
         then ''Deposited '' @ js_string (coalesce (coalesce (elem args 2) data) (VStr ''?'')) @ '' '' @ assetLabel @ '' '' @ [ARROW] @ '' minted '' @
              js_string (coalesce (elem args 3) (VStr ''?'')) @ '' shares to '' @ fmt (coalesce (elem args 1) (elem args 0)) @ '' on '' @ contractName
         else if fn \<in> {''burn'', ''withdraw''}
         then let a = elem (if 4 \<le> length args then args else VNull # VNull # map (elem args) [0, 1, 2])
              in ''Burned '' @ js_string (coalesce (a 4) (VStr ''?'')) @ '' shares '' @ [ARROW] @ '' withdrew '' @ js_string (coalesce (a 3) data) @
                 '' '' @ assetLabel @ '' from '' @ fmt (coalesce (coalesce (a 1) (a 0)) (a 2)) @ '' on '' @ contractName
         else genericDescription fn args data contractName fullTopics)"

fun items :: "native \<Rightarrow> native list" where
  "items (VArr xs) = xs"
| "items v = [v]"

fun fixed_text :: "nat \<Rightarrow> jsnum \<Rightarrow> string" where
  "fixed_text k (Num x) = to_fixed k x"
| "fixed_text k v = number_text v"

definition stellarSwapDescription :: "string \<Rightarrow> native list \<Rightarrow> native \<Rightarrow> int \<Rightarrow> string option" where
  "stellarSwapDescription fn args data ledger =
     (if fn = ''add_liquidity'' \<or> fn = ''remove_liquidity'' then Some (buildLiquidityDescription fn args)
      else if fn \<noteq> ''swap'' \<and> fn \<noteq> ''swap_exact_tokens_for_tokens'' then None
      else let d = elem (items data); expected = js_number (d 2); actual = js_number (d 1);
               slippage = (if \<not> nullish (d 2) \<and> \<not> nullish (d 1) \<and> num_less (Num 0) expected
                           then '' (slippage '' @ fixed_text 1 (num_mul (num_div (num_sub expected actual) expected) (Num 100)) @ ''%)'' else [])
           in Some (fmt (elem args 0) @ '' swapped '' @ js_string (d 0) @ '' '' @ js_string (elem args 1) @ '' '' @ [ARROW] @ '' '' @ js_string (d 1) @
                '' '' @ js_string (elem args 2) @ slippage @ '' on StellarSwap at ledger #'' @ int_text ledger))"

fun mapEntries :: "native \<Rightarrow> (string \<times> native) list" where
  "mapEntries (VObj ps) = ps"
| "mapEntries (VArr xs) = zip (map dec [0..<length xs]) xs"
| "mapEntries _ = []"

definition blendAssetLabel :: "(string \<Rightarrow> string option) \<Rightarrow> native \<Rightarrow> string" where
  "blendAssetLabel sac asset = (case asset of VStr s \<Rightarrow> (case sac s of Some code \<Rightarrow> code | None \<Rightarrow> fmt asset) | _ \<Rightarrow> fmt asset)"

definition auction_side :: "(string \<Rightarrow> string option) \<Rightarrow> native \<Rightarrow> string" where
  "auction_side sac m =
     (case mapEntries m of
        [] \<Rightarrow> ''?''
      | (asset, amount) # _ \<Rightarrow> if asset = [] then ''?'' else fmtXlm amount @ '' '' @ blendAssetLabel sac (VStr asset))"

definition blendDescription :: "(string \<Rightarrow> string option) \<Rightarrow> string \<Rightarrow> native list \<Rightarrow> native \<Rightarrow> int \<Rightarrow> string option" where
  "blendDescription sac fn args data ledger =
     (let suffix = '' at ledger #'' @ int_text ledger; asset = elem args 0; from = fmt (elem args 1); d = elem (items data);
          amount = fmtXlm (d 0) @ '' '' @ blendAssetLabel sac asset
      in if fn \<in> {''supply'', ''supply_collateral''} then Some (from @ '' supplied '' @ amount @ '' to Blend pool'' @ suffix)
         else if fn \<in> {''withdraw'', ''withdraw_collateral''} then Some (from @ '' withdrew '' @ amount @ '' from Blend pool'' @ suffix)
         else if fn = ''borrow''
         then Some (from @ '' borrowed '' @ amount @ '' from Blend'' @
                (if nullish (d 2) then [] else '' (health factor: '' @ fixed_text 2 (js_number (d 2)) @ '')''))
         else if fn = ''repay'' then Some (from @ '' repaid '' @ amount @ '' to Blend'' @ suffix)
         else if fn = ''fill_auction''
         then if js_number asset \<noteq> Num 0 then None
              else let a = elem (case data of VArr xs \<Rightarrow> xs | _ \<Rightarrow> [])
                   in Some (fmt (a 0) @ '' liquidated '' @ from @ '' position: seized '' @ auction_side sac (field (a 2) ''lot'') @ '', repaid '' @
                        auction_side sac (field (a 2) ''bid''))
         else None)"

subsection \<open>Classic operations\<close>

definition PATH_PAYMENT_TYPES :: "string list" where "PATH_PAYMENT_TYPES = [''path_payment_strict_send'', ''path_payment_strict_receive'']"

definition classicAssetLabel :: "(native \<Rightarrow> native \<Rightarrow> string option) \<Rightarrow> native \<Rightarrow> native \<Rightarrow> native \<Rightarrow> string" where
  "classicAssetLabel resolve code issuer assetType =
     (if \<not> js_truthy code \<or> \<not> js_truthy issuer \<or> assetType = VStr ''native'' then ''XLM''
      else case resolve code issuer of
             Some n \<Rightarrow> if n = [] then js_string code else js_string code @ '' ('' @ n @ '')''
           | None \<Rightarrow> js_string code)"

definition asset_of :: "(native \<Rightarrow> native \<Rightarrow> string option) \<Rightarrow> string \<Rightarrow> native \<Rightarrow> string" where
  "asset_of resolve pre op =
     classicAssetLabel resolve (field op (pre @ ''asset_code'')) (field op (pre @ ''asset_issuer'')) (field op (pre @ ''asset_type''))"

definition paymentDescription :: "(native \<Rightarrow> native \<Rightarrow> string option) \<Rightarrow> native \<Rightarrow> string" where
  "paymentDescription resolve op =
     ''Address '' @ fmt (field op ''from'') @ '' sent '' @ fmtClassicAmount (field op ''amount'') @ '' '' @ asset_of resolve [] op @ '' to '' @
     fmt (field op ''to'')"

definition pathPaymentDescription :: "(native \<Rightarrow> native \<Rightarrow> string option) \<Rightarrow> native \<Rightarrow> string" where
  "pathPaymentDescription resolve op =
     (let hops = (case field op ''path'' of VArr xs \<Rightarrow> map (asset_of resolve []) xs | _ \<Rightarrow> []); arrow = '' '' @ [ARROW] @ '' ''
      in fmt (field op ''from'') @ '' swapped '' @ fmtClassicAmount (coalesce (field op ''source_amount'') (field op ''amount'')) @ '' '' @
         asset_of resolve ''source_'' op @ (if hops = [] then [] else arrow @ ''['' @ join arrow hops @ '']'') @ arrow @
         fmtClassicAmount (field op ''amount'') @ '' '' @ asset_of resolve [] op)"

subsection \<open>A transaction in one sentence\<close>

record described =
  de_description :: "string option"
  de_function :: "string option"

definition upper_digit :: "char \<Rightarrow> bool" where
  "upper_digit c = ((65 \<le> (of_char c :: nat) \<and> (of_char c :: nat) \<le> 90) \<or> is_digit c)"

text \<open>The pattern of a shortened address at the start of a text: eleven characters.\<close>

definition short_address :: "string \<Rightarrow> bool" where
  "short_address s \<longleftrightarrow> 11 \<le> length s \<and> (s ! 0 = CHR ''G'' \<or> s ! 0 = CHR ''C'') \<and> list_all upper_digit (take 5 (drop 1 s)) \<and>
     s ! 6 = ELLIPSIS \<and> list_all upper_digit (take 4 (drop 7 s))"

definition strip_spaces :: "string \<Rightarrow> string option" where
  "strip_spaces s = (case s of c # _ \<Rightarrow> if js_space c then Some (dropWhile js_space s) else None | [] \<Rightarrow> None)"

definition strip_address :: "string \<Rightarrow> string option" where
  "strip_address s = (if short_address s then strip_spaces (drop 11 s) else None)"

definition verb_of :: "string \<Rightarrow> string" where
  "verb_of s =
     trim (case (if take 7 s = ''Address'' then Option.bind (strip_spaces (drop 7 s)) strip_address else None) of
             Some r \<Rightarrow> r
           | None \<Rightarrow> (case strip_address s of Some r \<Rightarrow> r | None \<Rightarrow> s))"

fun find_address :: "string \<Rightarrow> string option" where
  "find_address [] = None"
| "find_address (c # s) = (if short_address (c # s) then Some (take 11 (c # s)) else find_address s)"

definition text_of_event :: "described \<Rightarrow> string" where
  "text_of_event e =
     (case de_description e of Some d \<Rightarrow> d | None \<Rightarrow> (case de_function e of Some f \<Rightarrow> f | None \<Rightarrow> ''unknown operation''))"

definition batchDescription :: "described list \<Rightarrow> string option" where
  "batchDescription events =
     (if length events \<le> 1 then None
      else let verbs = map (\<lambda>e. verb_of (text_of_event e)) events;
               actor = (case find_address (case de_description (hd events) of Some d \<Rightarrow> d | None \<Rightarrow> []) of Some a \<Rightarrow> a | None \<Rightarrow> ''An address'')
           in if length events = 2 then Some (actor @ '' '' @ verbs ! 0 @ '' then '' @ verbs ! 1 @ '' in one transaction'')
              else Some (actor @ '' performed '' @ dec (length events) @ '' operations in one transaction: '' @ join ''; '' verbs))"

subsection \<open>Properties\<close>

definition address_text :: "string \<Rightarrow> bool" where
  "address_text s \<longleftrightarrow> 10 \<le> length s \<and> (hd s = CHR ''G'' \<or> hd s = CHR ''C'') \<and> list_all upper_digit s"

lemma short_address_short:
  assumes "address_text a"
  shows "short_address (short a @ r)"
proof -
  from assms obtain x y where xy: "a = x # y" "9 \<le> length y" "x = CHR ''G'' \<or> x = CHR ''C''" "list_all upper_digit y"
    by (cases a) (auto simp: address_text_def)
  let ?p = "take 5 y" and ?q = "drop (length a - 4) a"
  have len: "length ?p = 5" "length ?q = 4" using xy by auto
  have dig: "list_all upper_digit ?p" "list_all upper_digit ?q"
    using xy(4) assms unfolding list_all_iff address_text_def by (blast dest: in_set_takeD in_set_dropD)+
  have "short a = x # ?p @ ELLIPSIS # ?q" using xy by (simp add: short_def)
  then have "short a @ r = x # ?p @ ELLIPSIS # ?q @ r" by (simp only: append_Cons append_assoc)
  then show ?thesis using len dig xy(3) unfolding short_address_def by (simp add: nth_append numeral_eq_Suc)
qed

lemma length_short: "address_text a \<Longrightarrow> length (short a) = 11"
  by (auto simp: address_text_def short_def)

lemma space_spaces: "strip_spaces (CHR '' '' # s) = Some (dropWhile js_space s)"
  by (simp add: strip_spaces_def js_space_def)

lemma trim_drop [simp]: "trim (dropWhile js_space s) = trim s"
  by (simp add: trim_def)

lemma address_start: "address_text a \<Longrightarrow> \<exists>c r. short a = c # r \<and> c \<noteq> CHR ''A''"
  by (cases a) (auto simp: address_text_def short_def)

lemma verb_of_actor:
  assumes "address_text a"
  shows "verb_of (short a @ '' '' @ v) = trim v" "verb_of (''Address '' @ short a @ '' '' @ v) = trim v"
proof -
  note addr = short_address_short [OF assms] and len = length_short [OF assms]
  obtain c r where "short a = c # r" "c \<noteq> CHR ''A''" "\<not> js_space c"
    using address_start [OF assms] assms by (cases a) (auto simp: address_text_def short_def js_space_def)
  then have no: "take 7 (short a @ '' '' @ v) \<noteq> ''Address''" "dropWhile js_space (short a @ '' '' @ v) = short a @ '' '' @ v" by auto
  have sa: "strip_address (short a @ '' '' @ v) = Some (dropWhile js_space v)"
    using addr [of "'' '' @ v"] len by (simp add: strip_address_def space_spaces)
  show "verb_of (short a @ '' '' @ v) = trim v" using no(1) sa by (simp add: verb_of_def)
  have "strip_spaces ('' '' @ short a @ '' '' @ v) = Some (short a @ '' '' @ v)" using no(2) by (simp add: space_spaces)
  then show "verb_of (''Address '' @ short a @ '' '' @ v) = trim v" using sa by (simp add: verb_of_def)
qed

lemma find_address_actor:
  assumes "address_text a"
  shows "find_address (short a @ r) = Some (short a)" "find_address (''Address '' @ short a @ r) = Some (short a)"
proof -
  obtain c s where cs: "short a = c # s" using address_start [OF assms] by blast
  show 1: "find_address (short a @ r) = Some (short a)"
    using short_address_short [OF assms, of r] length_short [OF assms] by (simp add: cs)
  have "\<not> short_address (x # t)" if "x \<notin> {CHR ''G'', CHR ''C''}" for x t using that by (simp add: short_address_def)
  then have "find_address (''Address '' @ short a @ r) = find_address (short a @ r)" by simp
  with 1 show "find_address (''Address '' @ short a @ r) = Some (short a)" by simp
qed

text \<open>The sentence \<open>d\<close> says that \<open>actor\<close> did \<open>v\<close>, in one of the two forms the builders use.\<close>

definition says :: "string \<Rightarrow> string \<Rightarrow> described \<Rightarrow> bool" where
  "says actor v e \<longleftrightarrow> de_description e = Some (short actor @ '' '' @ v) \<or> de_description e = Some (''Address '' @ short actor @ '' '' @ v)"

text \<open>
  The summary of a transaction whose events all describe what one account did names that account once, as often as the events may, and
  lists what it did in their order.
\<close>

lemma batch_names_actor_once:
  assumes "address_text actor" "list_all2 (says actor) vs events" "2 \<le> length events"
  shows "batchDescription events =
    Some (if length events = 2 then short actor @ '' '' @ trim (vs ! 0) @ '' then '' @ trim (vs ! 1) @ '' in one transaction''
          else short actor @ '' performed '' @ dec (length events) @ '' operations in one transaction: '' @ join ''; '' (map trim vs))"
proof -
  have verbs: "map (\<lambda>e. verb_of (text_of_event e)) events = map trim vs"
    using assms(2)
  proof (induction rule: list_all2_induct)
    case (Cons v vs e es)
    then show ?case using verb_of_actor [OF assms(1), of v] by (auto simp: says_def text_of_event_def)
  qed simp
  from assms(2,3) obtain v e vs' es where "vs = v # vs'" "events = e # es" "says actor v e" by (cases events; cases vs) auto
  then have "find_address (case de_description (hd events) of Some d \<Rightarrow> d | None \<Rightarrow> []) = Some (short actor)"
    using find_address_actor [OF assms(1), of "'' '' @ v"] by (auto simp: says_def)
  moreover have "length vs = length events" using assms(2) by (rule list_all2_lengthD)
  ultimately show ?thesis using assms(3) by (simp add: batchDescription_def verbs Let_def)
qed

lemma batch_names_actor_once_witness:
  "batchDescription [\<lparr>de_description = Some (short ''GABCDEFGHIJ'' @ '' staked''), de_function = None\<rparr>,
      \<lparr>de_description = Some (''Address '' @ short ''GABCDEFGHIJ'' @ '' swapped''), de_function = None\<rparr>] =
    Some (short ''GABCDEFGHIJ'' @ '' staked then swapped in one transaction'')"
proof -
  have "address_text ''GABCDEFGHIJ''" by (simp add: address_text_def upper_digit_def)
  moreover have "trim ''staked'' = ''staked''" "trim ''swapped'' = ''swapped''" by (simp_all add: trim_def js_space_def)
  ultimately show ?thesis
    using batch_names_actor_once [of "''GABCDEFGHIJ''" "[''staked'', ''swapped'']"] by (simp add: says_def)
qed

text \<open>
  An approval is described as revoked exactly when its amount is the number zero in any of its forms.
\<close>

lemma revoke_iff_zero: "is_revoke amount \<longleftrightarrow> \<not> nullish amount \<and> js_number amount = Num 0"
proof -
  have "trim ''0'' = ''0''" by (simp add: trim_def js_space_def)
  moreover have "unsigned_value ''0'' = Num 0" using unsigned_value_dec [of 0] by (simp add: dec_digit)
  ultimately have "js_number (VStr ''0'') = Num 0" by (simp add: to_number_def)
  then show ?thesis by (auto simp: is_revoke_def)
qed

text \<open>Transfers are described as fungible whatever their arguments: the branch for NFTs stands behind the one for transfers.\<close>

lemma transfer_never_nft:
  "buildDescription ''transfer'' args data contractName fullTopics =
     ''Address '' @ fmt (elem args 0) @ '' transferred '' @ js_string (elem args 2) @ '' '' @ plain_or (elem args 3) @ '' to '' @
     fmt (elem args 1) @ '' on '' @ contractName"
  by (simp add: buildDescription_def SWAP_FUNCTIONS_def Let_def)

text \<open>The slippage of a swap needs six arguments beside the name; an event has four topics at most.\<close>

lemma no_slippage_in_four_topics: "length topics \<le> 4 \<Longrightarrow> extractSwapSlippageBps (tl topics) = None"
  by (simp add: extractSwapSlippageBps_def computeSlippageBps_def elem_none)

end
