(* ===== verification/Host_Calls.thy ===== *)
theory Host_Calls
  imports Native_Values
begin

section \<open>Host function calls of an event (indexer/src/ttlExtensionParser.js, zkHostFunctions.js)\<close>

text \<open>
  TTL extensions and calls of the BN254 and BLS12-381 host functions, read from the fields the RPC node puts beside an event. What the XDR
  of the transaction meta names is given as a list of texts. Shown: each function is counted once however often an event calls it, so the
  saved cost is at most that of one call of each, and a TTL extension is read from both of its forms with finite numbers only.
\<close>

subsection \<open>TTL extensions\<close>

definition TTL_HOST_FN_NAMES :: "string list" where
  "TTL_HOST_FN_NAMES = [''extend_contract_instance_ttl'', ''extend_contract_code_ttl'', ''extend_ttl'']"

record ttl_extension =
  tt_fn :: string
  tt_to :: "rat option"
  tt_min :: "rat option"
  tt_max :: "rat option"

definition ttl_num :: "native \<Rightarrow> rat option" where
  "ttl_num v = (if nullish v then None else case js_number v of Num x \<Rightarrow> Some x | _ \<Rightarrow> None)"

definition either_field :: "native \<Rightarrow> string \<Rightarrow> string \<Rightarrow> native" where
  "either_field v a b = coalesce (field v a) (field v b)"

fun js_plain_object :: "native \<Rightarrow> bool" where
  "js_plain_object (VObj _) = True"
| "js_plain_object (VArr _) = True"
| "js_plain_object (VBytes _) = True"
| "js_plain_object _ = False"

definition old_ttl_shape :: "native \<Rightarrow> bool" where
  "old_ttl_shape op \<longleftrightarrow>
     field op ''type'' = VStr ''extendContractInstance'' \<or> field op ''type'' = VStr ''extendContractCode'' \<or>
     (field (field op ''ext'') ''v'' = VNum (Num 1) \<and> (js_truthy (field op ''contractId'') \<or> js_truthy (field op ''codeHash'')))"

definition old_ttl :: "native \<Rightarrow> ttl_extension option" where
  "old_ttl op =
     (if \<not> old_ttl_shape op then None
      else Some \<lparr>tt_fn = (if field op ''type'' = VStr ''extendContractCode'' then ''extend_contract_code_ttl'' else ''extend_contract_instance_ttl''),
                 tt_to = ttl_num (either_field op ''extendTo'' ''extend_to''),
                 tt_min = ttl_num (either_field op ''min_extension'' ''minExtension''),
                 tt_max = ttl_num (either_field op ''max_extension'' ''maxExtension'')\<rparr>)"

fun ttl_function :: "native \<Rightarrow> string option" where
  "ttl_function (VStr f) = (if f \<in> set TTL_HOST_FN_NAMES then Some f else None)"
| "ttl_function _ = None"

definition parseTTLHostFunction :: "native \<Rightarrow> ttl_extension option" where
  "parseTTLHostFunction operation =
     (let op = coalesce (either_field operation ''hostFunction'' ''host_function'') operation
      in if \<not> js_plain_object op then None
         else case ttl_function (coalesce (either_field op ''function_name'' ''fn_name'') (field op ''type'')) of
                Some f \<Rightarrow>
                  let args = coalesce (either_field op ''args'' ''arguments'') (VObj [])
                  in Some \<lparr>tt_fn = f, tt_to = ttl_num (either_field args ''extend_to'' ''extendTo''),
                           tt_min = ttl_num (either_field args ''min_extension'' ''minExtension''),
                           tt_max = ttl_num (either_field args ''max_extension'' ''maxExtension'')\<rparr>
              | None \<Rightarrow> old_ttl op)"

definition formatTTLExtension :: "ttl_extension \<Rightarrow> string" where
  "formatTTLExtension t =
     (let action = (if tt_fn t = ''extend_contract_code_ttl'' then ''Extended contract code TTL''
                    else if tt_fn t = ''extend_contract_instance_ttl'' then ''Extended contract instance TTL'' else ''Extended TTL'');
          part = (\<lambda>pre v. case v of Some x \<Rightarrow> [pre @ num_text x] | None \<Rightarrow> [])
      in join '' '' ([action] @ part ''to ledger '' (tt_to t) @ part ''requested +'' (tt_min t) @ part ''max +'' (tt_max t)))"

text \<open>The extensions among the operations of a transaction, and of a plain transaction meta.\<close>

definition ttl_operand :: "native \<Rightarrow> native" where
  "ttl_operand op = coalesce (either_field op ''hostFunction'' ''host_function'') op"

definition op_extensions :: "native \<Rightarrow> ttl_extension list" where
  "op_extensions op =
     (case parseTTLHostFunction (ttl_operand op) of
        Some t \<Rightarrow> [t]
      | None \<Rightarrow> (case old_ttl op of Some t \<Rightarrow> [t\<lparr>tt_min := None, tt_max := None\<rparr>] | None \<Rightarrow> []))"

definition extractTTLModifications :: "native \<Rightarrow> (ttl_extension \<times> native list) list" where
  "extractTTLModifications tx =
     (case field tx ''operations'' of
        VArr ops \<Rightarrow>
          map (\<lambda>t. (t, map (\<lambda>k. coalesce (field tx k) VNull) [''ledger'', ''hash'', ''timestamp''])) (concat (map op_extensions ops))
      | _ \<Rightarrow> [])"

fun ttl_in_ops :: "native list \<Rightarrow> bool \<times> ttl_extension option" where
  "ttl_in_ops [] = (False, None)"
| "ttl_in_ops (op # ops) =
     (case parseTTLHostFunction (ttl_operand op) of
        Some t \<Rightarrow> (True, Some t)
      | None \<Rightarrow>
          if coalesce (either_field op ''type'' ''operationType'') (VStr []) \<in> {VStr ''bumpFootprintExpiration'', VStr ''BUMP_FOOTPRINT_EXPIRATION''}
          then (True, None) else ttl_in_ops ops)"

definition parseTTLFromTxMeta :: "native \<Rightarrow> bool \<times> ttl_extension option" where
  "parseTTLFromTxMeta m = (case field m ''operations'' of VArr ops \<Rightarrow> ttl_in_ops ops | _ \<Rightarrow> (False, None))"

definition calculateRentPaid :: "native \<Rightarrow> jsnum" where
  "calculateRentPaid op =
     (if nullish (field op ''costXlm'') then Num 0 else num_floor (num_add (num_mul (js_number (field op ''costXlm'')) (Num (10 ^ 7))) (Num (1 / 2))))"

subsection \<open>Zero-knowledge host functions\<close>

text \<open>The functions with their estimated cost in Wasm and their metered cost as host functions.\<close>

definition ZK_COSTS :: "(string \<times> nat \<times> nat) list" where
  "ZK_COSTS =
     [(''bn254_g1_msm'', 2500000, 150000), (''bn254_g2_msm'', 5000000, 300000), (''bn254_pairing_check'', 8000000, 500000),
      (''bn254_fr_add'', 10000, 1000), (''bn254_fr_mul'', 50000, 3000), (''bn254_fr_inv'', 200000, 12000),
      (''bls12_381_g1_msm'', 4000000, 250000), (''bls12_381_g2_msm'', 8000000, 500000), (''bls12_381_pairing_check'', 12000000, 800000),
      (''bls12_381_fr_add'', 15000, 1500), (''bls12_381_fr_mul'', 80000, 5000), (''bls12_381_fr_inv'', 300000, 18000),
      (''bls12_381_map_fp_to_g1'', 500000, 30000), (''bls12_381_map_fp2_to_g2'', 900000, 55000),
      (''bls12_381_hash_to_g1'', 1200000, 80000), (''bls12_381_hash_to_g2'', 2000000, 130000)]"

definition ZK_HOST_FN_NAMES :: "string list" where "ZK_HOST_FN_NAMES = map fst ZK_COSTS"

record zk_call =
  zk_name :: string
  zk_curve :: string
  zk_kind :: string
  zk_native :: nat
  zk_legacy :: nat

fun contains :: "string \<Rightarrow> string \<Rightarrow> bool" where
  "contains [] p = (p = [])"
| "contains (c # s) p = (take (length p) (c # s) = p \<or> contains s p)"

definition buildCall :: "string \<Rightarrow> zk_call" where
  "buildCall f =
     (let costs = (case map_of ZK_COSTS f of Some c \<Rightarrow> c | None \<Rightarrow> (0, 0))
      in \<lparr>zk_name = f, zk_curve = (if take 5 f = ''bn254'' then ''BN254'' else ''BLS12-381''),
          zk_kind = (if contains f ''msm'' then ''msm'' else if contains f ''pairing'' then ''pairing''
                     else if contains f ''fr_'' then ''scalar_field'' else if contains f ''map_'' then ''map_to_curve''
                     else if contains f ''hash_'' then ''hash_to_curve'' else ''other''),
          zk_native = snd costs, zk_legacy = fst costs\<rparr>)"

text \<open>Iteration of a value: \<open>None\<close> is the TypeError for one that is not iterable.\<close>

fun iterate_value :: "native \<Rightarrow> native list option" where
  "iterate_value (VArr xs) = Some xs"
| "iterate_value (VStr s) = Some (map (\<lambda>c. VStr [c]) s)"
| "iterate_value (VBytes s) = Some (map (\<lambda>c. VNum (num_of_nat (of_char c))) s)"
| "iterate_value _ = None"

fun first_item :: "native \<Rightarrow> native" where
  "first_item (VArr xs) = elem xs 0"
| "first_item (VStr (c # _)) = VStr [c]"
| "first_item (VBytes (c # _)) = VNum (num_of_nat (of_char c))"
| "first_item v = field v ''0''"

fun text_value :: "native \<Rightarrow> string option" where
  "text_value (VStr s) = Some s"
| "text_value _ = None"

definition extractDiagFnName :: "native \<Rightarrow> string option" where
  "extractDiagFnName de =
     (let data = (\<lambda>v. field (field (field v ''body'') ''v0'') ''data'')
      in text_value (coalesce (field (data (field de ''event'')) ''sym'')
           (coalesce (first_item (data (field de ''event'')))
             (coalesce (field (data de) ''sym'') (coalesce (field de ''fn_name'') (field de ''name''))))))"

text \<open>\<open>None\<close> is the TypeError of reading a property of null or undefined.\<close>

definition host_fn_name :: "native \<Rightarrow> string option option" where
  "host_fn_name hf =
     (case hf of VStr s \<Rightarrow> Some (Some s)
      | _ \<Rightarrow> if nullish hf then None else Some (text_value (either_field hf ''name'' ''fn_name'')))"

fun all_some :: "'a option list \<Rightarrow> 'a list option" where
  "all_some [] = Some []"
| "all_some (x # xs) = (case (x, all_some xs) of (Some y, Some ys) \<Rightarrow> Some (y # ys) | _ \<Rightarrow> None)"

definition zk_named :: "string option list \<Rightarrow> zk_call list" where
  "zk_named names = map buildCall (filter (\<lambda>f. f \<in> set ZK_HOST_FN_NAMES) (List.map_filter id names))"

fun drop_seen :: "string list \<Rightarrow> zk_call list \<Rightarrow> zk_call list" where
  "drop_seen seen [] = []"
| "drop_seen seen (c # cs) =
     (let key = zk_name c @ '':'' @ dec (zk_native c) in if key \<in> set seen then drop_seen seen cs else c # drop_seen (key # seen) cs)"

text \<open>The outer \<open>None\<close> is a TypeError, the inner one an event without such calls.\<close>

definition parseZkHostFunctions :: "native \<Rightarrow> string option list \<Rightarrow> zk_call list option option" where
  "parseZkHostFunctions ev xdr =
     (case iterate_value (coalesce (either_field ev ''diagnosticEvents'' ''diagnostic_events'') (VArr [])) of
        None \<Rightarrow> None
      | Some diag \<Rightarrow>
          (case iterate_value (coalesce (either_field ev ''hostFunctions'' ''host_functions'') (VArr [])) of
             None \<Rightarrow> None
           | Some fns \<Rightarrow>
               (case all_some (map host_fn_name fns) of
                  None \<Rightarrow> None
                | Some named \<Rightarrow>
                    let calls = zk_named (map extractDiagFnName diag) @ zk_named named @ zk_named xdr
                    in Some (if calls = [] then None else Some (drop_seen [] calls)))))"

record zk_delta =
  zd_native :: nat
  zd_legacy :: nat
  zd_saved :: int
  zd_pct :: int

definition computeZkCostDelta :: "zk_call list \<Rightarrow> zk_delta" where
  "computeZkCostDelta calls =
     (let n = sum_list (map zk_native calls); l = sum_list (map zk_legacy calls); saved = int l - int n
      in \<lparr>zd_native = n, zd_legacy = l, zd_saved = saved,
          zd_pct = (if 0 < l then \<lfloor>of_int saved / (of_nat l :: rat) * 100 + 1 / 2\<rfloor> else 0)\<rparr>)"

subsection \<open>Properties\<close>

lemma zk_costs_ordered: "map_of ZK_COSTS f = Some (l, n) \<Longrightarrow> 0 < n \<and> n < l"
proof -
  have "list_all (\<lambda>(f, l, n). 0 < n \<and> n < l) ZK_COSTS" by (simp add: ZK_COSTS_def)
  then show "map_of ZK_COSTS f = Some (l, n) \<Longrightarrow> 0 < n \<and> n < l" by (auto simp: list_all_iff dest!: map_of_SomeD)
qed

lemma zk_cost_known: "f \<in> set ZK_HOST_FN_NAMES \<Longrightarrow> zk_native (buildCall f) < zk_legacy (buildCall f)"
proof -
  assume "f \<in> set ZK_HOST_FN_NAMES"
  then obtain l n where ln: "map_of ZK_COSTS f = Some (l, n)"
    unfolding ZK_HOST_FN_NAMES_def set_map by (metis map_of_eq_None_iff not_None_eq surj_pair)
  with zk_costs_ordered [OF ln] show ?thesis by (simp add: buildCall_def)
qed

lemma zk_name_call [simp]: "zk_name (buildCall f) = f"
  by (simp add: buildCall_def Let_def)

lemma drop_seen_spec:
  "\<forall>c \<in> set cs. \<forall>d \<in> set cs. zk_name c = zk_name d \<longrightarrow> zk_native c = zk_native d \<Longrightarrow>
     distinct (map zk_name (drop_seen seen cs)) \<and> set (drop_seen seen cs) \<subseteq> set cs \<and>
     (\<forall>c \<in> set (drop_seen seen cs). zk_name c @ '':'' @ dec (zk_native c) \<notin> set seen)"
proof (induction seen cs rule: drop_seen.induct)
  case (1 seen)
  then show ?case by simp
next
  case (2 seen c cs)
  let ?key = "\<lambda>c. zk_name c @ '':'' @ dec (zk_native c)"
  have all: "\<forall>c \<in> set cs. \<forall>d \<in> set cs. zk_name c = zk_name d \<longrightarrow> zk_native c = zk_native d" using "2.prems" by (meson list.set_intros(2))
  show ?case
  proof (cases "?key c \<in> set seen")
    case True
    with "2.IH"(1) [OF refl True all] show ?thesis by auto
  next
    case False
    note IH = "2.IH"(2) [OF refl False all]
    have "zk_name c \<noteq> zk_name d" if "d \<in> set (drop_seen (?key c # seen) cs)" for d
    proof
      assume "zk_name c = zk_name d"
      moreover from that IH have "d \<in> set cs" by blast
      ultimately have "?key d = ?key c" using "2.prems" by (metis list.set_intros(1,2))
      then show False using that IH by auto
    qed
    with False IH show ?thesis by (auto simp: Let_def)
  qed
qed

lemma zk_named_calls: "c \<in> set (zk_named names) \<Longrightarrow> c = buildCall (zk_name c) \<and> zk_name c \<in> set ZK_HOST_FN_NAMES"
  by (auto simp: zk_named_def)

text \<open>
  The reported calls name each recognised function once, however often the sources report it, all of them are recognised, and their Wasm
  cost exceeds the metered one.
\<close>

lemma zk_calls_counted_once:
  assumes "parseZkHostFunctions ev xdr = Some (Some calls)"
  shows "distinct (map zk_name calls) \<and> set (map zk_name calls) \<subseteq> set ZK_HOST_FN_NAMES \<and> 0 < zd_saved (computeZkCostDelta calls)"
proof -
  obtain a b where ab: "zk_named a @ zk_named b @ zk_named xdr \<noteq> []" "calls = drop_seen [] (zk_named a @ zk_named b @ zk_named xdr)"
    using assms by (auto simp: parseZkHostFunctions_def Let_def split: option.splits if_splits)
  let ?all = "zk_named a @ zk_named b @ zk_named xdr"
  have known: "c = buildCall (zk_name c) \<and> zk_name c \<in> set ZK_HOST_FN_NAMES" if "c \<in> set ?all" for c
    using that by (auto dest: zk_named_calls)
  then have "\<forall>c \<in> set ?all. \<forall>d \<in> set ?all. zk_name c = zk_name d \<longrightarrow> zk_native c = zk_native d" by metis
  from drop_seen_spec [OF this, of "[]"] have spec: "distinct (map zk_name calls)" "set calls \<subseteq> set ?all" using ab(2) by auto
  have less: "zk_native c < zk_legacy c" if "c \<in> set calls" for c using known zk_cost_known that spec(2) by (metis subsetD)
  obtain c cs where c: "calls = c # cs" using ab by (cases ?all) (auto simp: Let_def)
  have "sum_list (map zk_native cs) \<le> sum_list (map zk_legacy cs)" using less c by (intro sum_list_mono) (simp add: less_imp_le)
  then have "sum_list (map zk_native calls) < sum_list (map zk_legacy calls)" using less [of c] c by simp
  moreover have "set (map zk_name calls) \<subseteq> set ZK_HOST_FN_NAMES" using known spec(2) by auto
  ultimately show ?thesis using spec(1) by (simp add: computeZkCostDelta_def Let_def)
qed

lemma zk_calls_counted_once_witness:
  "distinct (map zk_name (drop_seen [] (zk_named [Some ''bn254_fr_add'', Some ''bn254_fr_add''])))"
proof -
  have "parseZkHostFunctions (VObj []) [Some ''bn254_fr_add'', Some ''bn254_fr_add''] =
      Some (Some (drop_seen [] (zk_named [Some ''bn254_fr_add'', Some ''bn254_fr_add''])))"
    by (simp add: parseZkHostFunctions_def either_field_def coalesce_def zk_named_def List.map_filter_def ZK_HOST_FN_NAMES_def ZK_COSTS_def)
  from zk_calls_counted_once [OF this] show ?thesis by blast
qed

text \<open>Two events that differ in the number of calls only report the same cost.\<close>

lemma zk_repeats_vanish: "drop_seen [] (zk_named (replicate (Suc n) (Some ''bn254_fr_mul''))) = zk_named [Some ''bn254_fr_mul'']"
proof -
  have "''bn254_fr_mul'' \<in> set ZK_HOST_FN_NAMES" by (simp add: ZK_HOST_FN_NAMES_def ZK_COSTS_def)
  then have calls: "zk_named (replicate k (Some ''bn254_fr_mul'')) = replicate k (buildCall ''bn254_fr_mul'')" for k
    by (induction k) (simp_all add: zk_named_def List.map_filter_def)
  have none: "drop_seen seen (replicate k c) = []" if "zk_name c @ '':'' @ dec (zk_native c) \<in> set seen" for k c seen
    using that by (induction k) simp_all
  show ?thesis using calls [of "Suc n"] calls [of 1] none by (simp add: Let_def del: replicate_Suc add: replicate_Suc)
qed

text \<open>A TTL extension of the new form is read with its finite numbers, and its description gives exactly those.\<close>

lemma ttl_extension_read:
  assumes "f \<in> set TTL_HOST_FN_NAMES"
  shows "parseTTLHostFunction (VObj [(''hostFunction'', VObj [(''function_name'', VStr f), (''args'', VObj [(''extend_to'', VNum (Num x))])])]) =
    Some \<lparr>tt_fn = f, tt_to = Some x, tt_min = None, tt_max = None\<rparr>"
  using assms by (simp add: parseTTLHostFunction_def either_field_def coalesce_def ttl_num_def)

end
