(* ===== verification/Rwa_Decoder.thy ===== *)
theory Rwa_Decoder
  imports Host_Calls
begin

section \<open>Tokenised assets and roles (indexer/src/rwaDecoder.js, roleTracker.js)\<close>

text \<open>
  The sentences for real-world-asset tokens, chosen by the contract's metadata, and the role assignments read from an event. Both work on
  the stored form of an event: its topics as texts and its data as JSON text, whose parser is a parameter. Property names inherited from
  \<open>Object.prototype\<close> are left out. Shown: an RWA sentence is only written for Benji metadata, a declared RWA contract of any other type
  gets none, and the role tracker records the former administrator of an asset contract as its new one.
\<close>

subsection \<open>Metadata\<close>

record rwa_meta =
  rm_name :: "string option"
  rm_description :: "string option"
  rm_type :: "string option"
  rm_is_rwa :: bool
  rm_class :: "string option"
  rm_functions :: "string list"

definition RWA_KEYWORDS :: "string list" where
  "RWA_KEYWORDS =
     [''rwa'', ''real-world asset'', ''benji'', ''franklin templeton'', ''dividend'', ''investor'', ''redemption'', ''subscription'',
      ''corporate action'', ''share'', ''yield'', ''institutional'']"

definition given :: "string option \<Rightarrow> bool" where
  "given v \<longleftrightarrow> (case v of Some s \<Rightarrow> s \<noteq> [] | None \<Rightarrow> False)"

definition text_or :: "string \<Rightarrow> string option \<Rightarrow> string" where
  "text_or d v = (case v of Some s \<Rightarrow> if s = [] then d else s | None \<Rightarrow> d)"

definition mentions :: "string option \<Rightarrow> string \<Rightarrow> bool" where
  "mentions v p \<longleftrightarrow> (case v of Some s \<Rightarrow> contains (lower s) p | None \<Rightarrow> False)"

definition detectRwaToken :: "rwa_meta \<Rightarrow> string option" where
  "detectRwaToken m =
     (if given (rm_type m) \<or> rm_is_rwa m \<or> rm_class m = Some ''rwa'' then Some (text_or ''rwa'' (rm_type m))
      else if mentions (rm_name m) ''benji'' \<or> mentions (rm_description m) ''franklin templeton'' then Some ''benji''
      else None)"

definition detectRwaFromMetadata :: "rwa_meta option \<Rightarrow> bool \<times> string option" where
  "detectRwaFromMetadata meta =
     (case meta of
        None \<Rightarrow> (False, None)
      | Some m \<Rightarrow>
          if rm_is_rwa m \<or> given (rm_type m) then (True, Some (text_or ''rwa'' (rm_type m)))
          else let t = lower (text_or [] (rm_name m) @ '' '' @ text_or [] (rm_description m))
               in if \<not> list_ex (contains t) RWA_KEYWORDS then (False, None)
                  else (True, Some (if contains t ''benji'' \<or> contains t ''franklin templeton'' then ''benji'' else ''rwa'')))"

subsection \<open>Sentences\<close>

definition formatAmount :: "native \<Rightarrow> string" where
  "formatAmount v =
     (if nullish v then ''?'' else if js_number v = NaN then js_string v else to_locale 0 2 (js_number v))"

definition formatAddress :: "native \<Rightarrow> string" where
  "formatAddress v = (case v of VStr s \<Rightarrow> if length s < 10 then s else short s | _ \<Rightarrow> js_string v)"

definition label_of :: "(string \<times> string) list \<Rightarrow> string \<Rightarrow> native \<Rightarrow> string" where
  "label_of table d v = (case v of VStr s \<Rightarrow> (case map_of table (lower s) of Some l \<Rightarrow> l | None \<Rightarrow> d) | _ \<Rightarrow> d)"

definition or_text :: "native \<Rightarrow> string \<Rightarrow> string" where
  "or_text v d = (if js_truthy v then js_string v else d)"

definition decodeDividendDistribution :: "native list \<Rightarrow> string" where
  "decodeDividendDistribution args =
     (let a = elem args
      in if a 0 \<noteq> VUndef \<and> a 1 \<noteq> VUndef
         then ''Distributed Dividend Yield of '' @ formatAmount (a 0) @ '' '' @ or_text (a 3) ''USD'' @ '' per share to '' @ js_string (a 1) @ '' investors''
         else if a 2 \<noteq> VUndef \<and> a 1 \<noteq> VUndef
         then ''Distributed '' @ formatAmount (a 2) @ '' '' @ or_text (a 3) ''USD'' @ '' dividend to '' @ js_string (a 1) @ '' investors''
         else ''Dividend distribution processed'')"

definition decodeInvestorRegistryUpdate :: "native list \<Rightarrow> string" where
  "decodeInvestorRegistryUpdate args =
     (let a = elem args;
          action = label_of [(''add'', ''added to''), (''remove'', ''removed from''), (''update'', ''updated in''), (''activate'', ''activated in''),
            (''deactivate'', ''deactivated in'')] ''updated in'' (a 1)
      in ''Investor '' @ formatAddress (a 0) @ '' '' @ action @ '' registry'' @
         (if a 2 \<noteq> VUndef then '' with '' @ js_string (a 2) @ '' shares ('' @ or_text (a 3) ''active'' @ '')'' else []))"

definition decodeCorporateAction :: "native list \<Rightarrow> string" where
  "decodeCorporateAction args =
     (let a = elem args
      in label_of [(''split'', ''Stock Split''), (''dividend'', ''Dividend Payment''), (''merger'', ''Merger''), (''spinoff'', ''Spin-off''),
           (''rights'', ''Rights Offering'')] ''Corporate Action'' (a 0) @ '' executed'' @
         (if js_truthy (a 2) then '' effective '' @ js_string (a 2) else []))"

definition decodeMintShares :: "native list \<Rightarrow> string" where
  "decodeMintShares args =
     (let a = elem args
      in ''Minted '' @ formatAmount (a 1) @ '' shares to '' @ formatAddress (a 0) @ '' ('' @
         label_of [(''dividend'', ''dividend reinvestment''), (''split'', ''stock split''), (''issuance'', ''new issuance'')] ''issuance'' (a 2) @ '')'')"

definition decodeBurnShares :: "native list \<Rightarrow> string" where
  "decodeBurnShares args =
     (let a = elem args
      in ''Burned '' @ formatAmount (a 1) @ '' shares from '' @ formatAddress (a 0) @ '' ('' @
         label_of [(''redemption'', ''redemption''), (''split'', ''stock split''), (''cancellation'', ''cancellation'')] ''cancellation'' (a 2) @ '')'')"

definition decodeTransferShares :: "native list \<Rightarrow> string" where
  "decodeTransferShares args =
     ''Transferred '' @ formatAmount (elem args 2) @ '' shares from '' @ formatAddress (elem args 0) @ '' to '' @ formatAddress (elem args 1)"

definition decodeDividendReinvestment :: "native list \<Rightarrow> string" where
  "decodeDividendReinvestment args =
     ''Dividend reinvestment: '' @ formatAmount (elem args 1) @ '' USD converted to '' @ formatAmount (elem args 2) @ '' shares for '' @
     formatAddress (elem args 0)"

definition decodeRedemption :: "native list \<Rightarrow> string" where
  "decodeRedemption args =
     ''Redeemed '' @ formatAmount (elem args 1) @ '' shares for '' @ formatAmount (elem args 2) @ '' USD from '' @ formatAddress (elem args 0)"

definition decodeSubscription :: "native list \<Rightarrow> string" where
  "decodeSubscription args =
     ''New subscription: '' @ formatAmount (elem args 1) @ '' USD invested by '' @ formatAddress (elem args 0) @ '', '' @
     formatAmount (elem args 2) @ '' shares issued''"

definition BENJI_FUNCTIONS :: "(string \<times> (native list \<Rightarrow> string)) list" where
  "BENJI_FUNCTIONS =
     [(''distribute_dividend'', decodeDividendDistribution), (''dividend_payout'', decodeDividendDistribution),
      (''investor_registry_update'', decodeInvestorRegistryUpdate), (''registry_update'', decodeInvestorRegistryUpdate),
      (''corporate_action'', decodeCorporateAction), (''mint_shares'', decodeMintShares), (''burn_shares'', decodeBurnShares),
      (''transfer_shares'', decodeTransferShares), (''dividend_reinvestment'', decodeDividendReinvestment), (''redemption'', decodeRedemption),
      (''subscription'', decodeSubscription)]"

definition decodeRwaEvent :: "string \<Rightarrow> string list \<Rightarrow> rwa_meta \<Rightarrow> string option" where
  "decodeRwaEvent fn raw_topics m =
     (case detectRwaToken m of
        None \<Rightarrow> None
      | Some t \<Rightarrow>
          if t \<noteq> ''benji'' then None
          else case map_of BENJI_FUNCTIONS (lower fn) of None \<Rightarrow> None | Some decoder \<Rightarrow> Some (decoder (map VStr (tl raw_topics))))"

subsection \<open>Roles\<close>

definition ROLE_EVENT_MAP :: "(string \<times> string) list" where
  "ROLE_EVENT_MAP =
     [(''set_admin'', ''admin''), (''admin_changed'', ''admin''), (''new_admin'', ''admin''), (''admin_set'', ''admin''),
      (''set_manager'', ''manager''), (''manager_set'', ''manager''), (''set_minter'', ''minter''), (''minter_added'', ''minter''),
      (''set_pauser'', ''pauser''), (''pauser_set'', ''pauser'')]"

record role_assignment =
  ra_role :: string
  ra_address :: string
  ra_revoked :: bool

text \<open>The parser of JSON text is \<open>parse\<close>, \<open>None\<close> where it throws.\<close>

definition parseAddress :: "(string \<Rightarrow> native option) \<Rightarrow> string option \<Rightarrow> string option" where
  "parseAddress parse rawData =
     (case rawData of
        None \<Rightarrow> None
      | Some s \<Rightarrow>
          if s = [] then None
          else case parse s of
                 None \<Rightarrow> None
               | Some v \<Rightarrow>
                   (case find (\<lambda>k. case field v k of VStr t \<Rightarrow> t \<noteq> [] | _ \<Rightarrow> False) [''address'', ''new_admin'', ''admin'', ''to'', ''account''] of
                      Some k \<Rightarrow> text_value (field v k)
                    | None \<Rightarrow> None))"

definition topic_or :: "string list \<Rightarrow> nat \<Rightarrow> string option \<Rightarrow> string option" where
  "topic_or ts i d = (if i < length ts then Some (ts ! i) else d)"

definition extractRoleAssignment :: "(string \<Rightarrow> native option) \<Rightarrow> string list \<Rightarrow> string option \<Rightarrow> role_assignment option" where
  "extractRoleAssignment parse ts rawData =
     (case ts of
        [] \<Rightarrow> None
      | t # _ \<Rightarrow>
          let topic0 = lower t; fallback = parseAddress parse rawData
          in if topic0 \<in> {''role_granted'', ''role_revoked'', ''role_set''}
             then case topic_or ts 2 fallback of
                    Some a \<Rightarrow>
                      if a = [] then None
                      else Some \<lparr>ra_role = (if given (topic_or ts 1 None) then lower (ts ! 1) else ''unknown''), ra_address = a,
                                 ra_revoked = (topic0 = ''role_revoked'')\<rparr>
                  | None \<Rightarrow> None
             else case map_of ROLE_EVENT_MAP topic0 of
                    None \<Rightarrow> None
                  | Some role \<Rightarrow>
                      (case topic_or ts 1 (topic_or ts 2 fallback) of
                         Some a \<Rightarrow> if a = [] then None else Some \<lparr>ra_role = role, ra_address = a, ra_revoked = False\<rparr>
                       | None \<Rightarrow> None))"

subsection \<open>Properties\<close>

text \<open>A contract declared as a real-world asset of any type but the one known gets no sentence, whatever its events.\<close>

lemma declared_rwa_undecoded:
  assumes "rm_is_rwa m" "rm_type m = None \<or> rm_type m = Some t \<and> t \<noteq> ''benji'' \<and> t \<noteq> []"
  shows "decodeRwaEvent fn ts m = None"
  using assms by (auto simp: decodeRwaEvent_def detectRwaToken_def text_or_def given_def)

text \<open>
  The \<open>set_admin\<close> event of an asset contract has the topics name, old administrator and asset, with the new one as its data: the tracker
  takes the first, so the administrator that has just lost the role is stored as the one that holds it.
\<close>

lemma sac_admin_is_the_old_one:
  "extractRoleAssignment parse [''set_admin'', old, asset] rawData =
     (if old = [] then None else Some \<lparr>ra_role = ''admin'', ra_address = old, ra_revoked = False\<rparr>)"
proof -
  have "lower ''set_admin'' = ''set_admin''" by (simp add: lower_def lower_char_def)
  then show ?thesis by (simp add: extractRoleAssignment_def ROLE_EVENT_MAP_def topic_or_def Let_def)
qed

end
