(* ===== verification/Event_Decoder.thy ===== *)
theory Event_Decoder
  imports Event_Text Rwa_Decoder
begin

section \<open>Decoding one event (indexer/src/decoder.js)\<close>

text \<open>
  From a raw event of the RPC node, its values already native, to the stored record: the fixed decoders, plugins, the registered ABI with its
  shape check, TTL extensions, host calls and roles, then the success counters of the last day. Database rows, plugin results, known asset
  contracts, resolved assets and the JSON parser are given; what the XDR of the transaction meta holds is given as numbers and names. The
  hashed topic columns are in Rpc_Filters. Shown: a record is marked verified exactly when its function's ABI matches the shape of its
  values, the check names the first mismatch, composite values never pass it, an event of a contract without metadata cannot be decoded,
  and the counters are those of the last 24 hours.
\<close>

subsection \<open>Raw events and what stands beside them\<close>

record meta_fees =
  mf_nonrefundable :: "jsnum option"
  mf_refundable :: "jsnum option"
  mf_rent :: "jsnum option"

record rpc_event =
  re_contract :: "string option"
  re_topics :: "native list"
  re_value :: native
  re_ledger :: int
  re_tx :: string
  re_rest :: native
  re_fees :: "meta_fees option"
  re_calls :: "string option list"

record fn_abi =
  fa_name :: string
  fa_params :: native

record contract_meta =
  cm_name :: "string option"
  cm_functions :: "fn_abi list"
  cm_rwa :: rwa_meta

record decode_env =
  dv_plugin :: "rpc_event \<Rightarrow> (string option \<times> string) option"
  dv_meta_at :: "string option \<Rightarrow> int \<Rightarrow> contract_meta option"
  dv_meta :: "string option \<Rightarrow> contract_meta option"
  dv_vault :: "string option \<Rightarrow> vault option"
  dv_sac :: "string \<Rightarrow> string option"
  dv_resolve :: "native \<Rightarrow> native \<Rightarrow> string option"
  dv_parse :: "string \<Rightarrow> native option"
  dv_stellarswap :: "string option"
  dv_blend :: "string option"

definition RESOURCE_LIMIT_CODES :: "string list" where
  "RESOURCE_LIMIT_CODES = [''tx_resource_limit_exceeded'', ''txResourceLimitExceeded'', ''RESOURCE_LIMIT_EXCEEDED'']"

definition isResourceLimitExceeded :: "rpc_event \<Rightarrow> bool" where
  "isResourceLimitExceeded ev \<longleftrightarrow>
     js_string (coalesce (either_field (re_rest ev) ''txResultCode'' ''resultCode'') (coalesce (field (field (re_rest ev) ''result'') ''code'') (VStr [])))
       \<in> set RESOURCE_LIMIT_CODES"

record gas =
  gs_cpu :: "jsnum option"
  gs_mem :: "jsnum option"
  gs_fee :: "jsnum option"

definition extractGasCosts :: "rpc_event \<Rightarrow> gas" where
  "extractGasCosts ev =
     (let charged = field (re_rest ev) ''feeCharged''; fee = (if nullish charged then None else Some (js_number charged))
      in case re_fees ev of
           None \<Rightarrow> \<lparr>gs_cpu = None, gs_mem = None, gs_fee = fee\<rparr>
         | Some m \<Rightarrow> \<lparr>gs_cpu = mf_nonrefundable m, gs_mem = mf_rent m,
                     gs_fee = (if mf_refundable m = None then fee else mf_refundable m)\<rparr>)"

definition NATIVE_SAC_IDS :: "string list" where
  "NATIVE_SAC_IDS = [''CDLZFC3SYJYDZT7K67VZ75HPJVIEUVNIXF47ZG2FB2RMQQVU2HHGCYSC'', ''CAS3J7GYLGXMF6TDJBBYYSE3HQ6BBSMLNUQ34T6TZMYMW2EVH34XOWMA'']"

subsection \<open>Decoder tags\<close>

definition DECODER_VERSIONS :: "(string \<times> string) list" where
  "DECODER_VERSIONS =
     [(''native-sac'', ''1.0.0''), (''stellarswap'', ''1.0.0''), (''blend'', ''1.0.0''), (''smart-wallet'', ''1.0.0''), (''openzeppelin'', ''1.0.0''),
      (''abi'', ''1.0.0''), (''classic'', ''1.0.0'')]"

definition decoderTag :: "string \<Rightarrow> string option" where
  "decoderTag i = map_option (\<lambda>v. i @ ''@'' @ v) (map_of DECODER_VERSIONS i)"

definition CURRENT_DECODER_TAGS :: "string list" where
  "CURRENT_DECODER_TAGS = List.map_filter decoderTag (map fst DECODER_VERSIONS)"

definition id_char :: "char \<Rightarrow> bool" where
  "id_char c = ((97 \<le> (of_char c :: nat) \<and> (of_char c :: nat) \<le> 122) \<or> is_digit c \<or> c = CHR ''-'')"

text \<open>The pattern \<open>id@n.n.n\<close>.\<close>

definition parseDecoderTag :: "string \<Rightarrow> (string \<times> string) option" where
  "parseDecoderTag tag =
     (case split_on CHR ''@'' tag of
        [i, v] \<Rightarrow>
          (case split_on CHR ''.'' v of
             [a, b, c] \<Rightarrow> if i \<noteq> [] \<and> list_all id_char i \<and> (\<forall>n \<in> {a, b, c}. n \<noteq> [] \<and> all_digits n) then Some (i, v) else None
           | _ \<Rightarrow> None)
      | _ \<Rightarrow> None)"

datatype decoder_status = Current | Outdated | Retired | Untagged

definition decoderStatus :: "string \<Rightarrow> decoder_status" where
  "decoderStatus tag =
     (case parseDecoderTag tag of
        None \<Rightarrow> Untagged
      | Some (i, v) \<Rightarrow> (case map_of DECODER_VERSIONS i of None \<Rightarrow> Retired | Some w \<Rightarrow> if w = v then Current else Outdated))"

subsection \<open>The shape check\<close>

definition base32_char :: "char \<Rightarrow> bool" where
  "base32_char c = ((65 \<le> (of_char c :: nat) \<and> (of_char c :: nat) \<le> 90) \<or> (50 \<le> (of_char c :: nat) \<and> (of_char c :: nat) \<le> 55))"

fun address_value :: "native \<Rightarrow> bool" where
  "address_value (VStr (c # s)) = (c \<in> {CHR ''G'', CHR ''C'', CHR ''M''} \<and> 20 \<le> length s \<and> list_all base32_char s)"
| "address_value _ = False"

fun bool_value :: "native \<Rightarrow> bool" where
  "bool_value (VBool _) = True"
| "bool_value _ = False"

fun string_value :: "native \<Rightarrow> bool" where
  "string_value (VStr _) = True"
| "string_value _ = False"

fun integer_value :: "native \<Rightarrow> bool" where
  "integer_value (VBig _) = True"
| "integer_value (VNum (Num x)) = (of_int \<lfloor>x\<rfloor> = x)"
| "integer_value _ = False"

definition param_kind :: "native \<Rightarrow> string" where
  "param_kind p = lower (js_string (coalesce (either_field p ''type'' ''kind'') (VStr [])))"

definition kind_matches :: "string \<Rightarrow> native \<Rightarrow> bool" where
  "kind_matches kind v \<longleftrightarrow>
     (if contains kind ''address'' \<or> contains kind ''contract'' then address_value v
      else if contains kind ''bool'' then bool_value v
      else if contains kind ''string'' \<or> contains kind ''symbol'' then string_value v
      else if contains kind ''u'' \<or> contains kind ''i'' then integer_value v
      else True)"

fun shape_error :: "nat \<Rightarrow> native list \<Rightarrow> native list \<Rightarrow> string option" where
  "shape_error i (p # ps) (v # vs) =
     (if kind_matches (param_kind p) v then shape_error (Suc i) ps vs
      else Some (''abi_type_mismatch:'' @ dec i @ '':'' @ (if param_kind p = [] then ''unknown'' else param_kind p)))"
| "shape_error i _ _ = None"

text \<open>\<open>validateAbiEventShape\<close>: its warning, \<open>None\<close> when the values match.\<close>

definition validateAbiEventShape :: "fn_abi \<Rightarrow> native list \<Rightarrow> string option" where
  "validateAbiEventShape abi args =
     (let params = (case fa_params abi of VArr ps \<Rightarrow> ps | _ \<Rightarrow> [])
      in if length params \<noteq> length args then Some (''abi_arity_mismatch:'' @ dec (length params) @ '':'' @ dec (length args))
         else shape_error 0 params args)"

subsection \<open>Decoding\<close>

datatype decode_error = Reference_error string | Type_error

record abi_part =
  ap_source :: string
  ap_status :: string
  ap_warning :: "string option"
  ap_sac :: "string option"
  ap_clawback :: bool
  ap_resource :: bool
  ap_slippage :: "int option"
  ap_ttl :: "ttl_extension option"
  ap_zk :: "(zk_call list \<times> zk_delta) option"

record decoded =
  dc_contract :: "string option"
  dc_function :: string
  dc_ledger :: int
  dc_tx :: string
  dc_description :: string
  dc_topics :: "string list"
  dc_data :: "string option"
  dc_gas :: gas
  dc_version :: "string option"
  dc_abi :: "abi_part option"

definition base_record :: "rpc_event \<Rightarrow> string \<Rightarrow> string \<Rightarrow> string option \<Rightarrow> decoded" where
  "base_record ev fn description version =
     \<lparr>dc_contract = re_contract ev, dc_function = fn, dc_ledger = re_ledger ev, dc_tx = re_tx ev, dc_description = description,
      dc_topics = map stripNul (re_topics ev), dc_data = safeStringify (re_value ev), dc_gas = extractGasCosts ev, dc_version = version,
      dc_abi = None\<rparr>"

definition event_function :: "rpc_event \<Rightarrow> string" where
  "event_function ev = (case re_topics ev of VStr s # _ \<Rightarrow> s | _ \<Rightarrow> ''unknown'')"

definition decodeClassicOperation :: "decode_env \<Rightarrow> rpc_event \<Rightarrow> decoded" where
  "decodeClassicOperation env ev =
     (let op = field (re_rest ev) ''operation''
      in \<lparr>dc_contract = Some [], dc_function = js_string (field op ''type''), dc_ledger = re_ledger ev, dc_tx = re_tx ev,
          dc_description = (if field op ''type'' \<in> set (map VStr PATH_PAYMENT_TYPES) then pathPaymentDescription (dv_resolve env) op
                            else paymentDescription (dv_resolve env) op),
          dc_topics = List.map_filter (\<lambda>k. text_value (field op k)) [''type'', ''from'', ''to''], dc_data = safeStringify op,
          dc_gas = \<lparr>gs_cpu = None, gs_mem = None, gs_fee = None\<rparr>, dc_version = decoderTag ''classic'', dc_abi = None\<rparr>)"

text \<open>The decoders tried before the registered ABI: wrapped XLM, StellarSwap, Blend, plugins.\<close>

definition early_decoders :: "decode_env \<Rightarrow> rpc_event \<Rightarrow> decoded option" where
  "early_decoders env ev =
     (let fn = event_function ev; args = tl (re_topics ev); data = re_value ev;
          is_contract = (\<lambda>i. case i of Some c \<Rightarrow> c \<noteq> [] \<and> re_contract ev = Some c | None \<Rightarrow> False);
          native = (if re_contract ev \<in> Some ` set NATIVE_SAC_IDS then nativeXlmDescription fn args data else None);
          swap = (if is_contract (dv_stellarswap env) then stellarSwapDescription fn args data (re_ledger ev) else None);
          blend = (if is_contract (dv_blend env) then blendDescription (dv_sac env) fn args data (re_ledger ev) else None)
      in case native of
           Some (f, d) \<Rightarrow> Some (base_record ev f d (decoderTag ''native-sac''))
         | None \<Rightarrow>
             (case swap of
                Some d \<Rightarrow> Some (base_record ev fn d (decoderTag ''stellarswap''))
              | None \<Rightarrow>
                  (case blend of
                     Some d \<Rightarrow> Some (base_record ev fn d (decoderTag ''blend''))
                   | None \<Rightarrow>
                       (case dv_plugin env ev of
                          Some (f, d) \<Rightarrow> Some (base_record ev (case f of Some f' \<Rightarrow> f' | None \<Rightarrow> fn) d None)
                        | None \<Rightarrow> None))))"

definition active_meta :: "decode_env \<Rightarrow> bool \<Rightarrow> rpc_event \<Rightarrow> contract_meta option" where
  "active_meta env currentAbi ev =
     (if currentAbi then dv_meta env (re_contract ev)
      else case dv_meta_at env (re_contract ev) (re_ledger ev) of Some m \<Rightarrow> Some m | None \<Rightarrow> dv_meta env (re_contract ev))"

definition abi_of :: "contract_meta \<Rightarrow> string \<Rightarrow> fn_abi option" where
  "abi_of m fn = find (\<lambda>f. fa_name f = fn) (cm_functions m)"

definition abi_args :: "rpc_event \<Rightarrow> native list" where
  "abi_args ev = tl (re_topics ev) @ (if nullish (re_value ev) then [] else [re_value ev])"

definition abi_warning :: "contract_meta \<Rightarrow> rpc_event \<Rightarrow> string option" where
  "abi_warning m ev =
     (case abi_of m (event_function ev) of Some abi \<Rightarrow> validateAbiEventShape abi (abi_args ev) | None \<Rightarrow> Some ''abi_function_missing'')"

definition contract_label :: "decode_env \<Rightarrow> contract_meta \<Rightarrow> rpc_event \<Rightarrow> string" where
  "contract_label env m ev =
     (let c = (case re_contract ev of Some c \<Rightarrow> c | None \<Rightarrow> []); name = Option.bind (dv_vault env (re_contract ev)) vt_name
      in if given name then the name @ '' (Vault)''
         else case dv_sac env c of
                Some a \<Rightarrow> a @ '' (SAC:'' @ take 8 c @ [ELLIPSIS] @ '')''
              | None \<Rightarrow> (case cm_name m of Some n \<Rightarrow> n | None \<Rightarrow> c))"

definition abi_description :: "decode_env \<Rightarrow> contract_meta \<Rightarrow> rpc_event \<Rightarrow> string" where
  "abi_description env m ev =
     (let fn = event_function ev; args = tl (re_topics ev); data = re_value ev; label = contract_label env m ev
      in case decodeRwaEvent fn (map stripNul (re_topics ev)) (cm_rwa m) of
           Some d \<Rightarrow> d
         | None \<Rightarrow>
             (case dv_vault env (re_contract ev) of
                Some v \<Rightarrow> vaultDescription fn args data label v (Some (re_topics ev))
              | None \<Rightarrow> if abi_warning m ev = None then buildDescription fn args data label (Some (re_topics ev))
                        else genericDescription fn args data label (Some (re_topics ev))))"

definition ttl_source :: "rpc_event \<Rightarrow> native" where
  "ttl_source ev = coalesce (either_field (re_rest ev) ''hostFunction'' ''host_function'') (coalesce (field (re_rest ev) ''operation'') VNull)"

text \<open>
  The rest of \<open>decodeEvent\<close>, for a contract with metadata; without any, the code calls \<open>getCachedSpec\<close>, which the module does not import.
\<close>

definition abi_decode :: "decode_env \<Rightarrow> contract_meta option \<Rightarrow> rpc_event \<Rightarrow> decode_error + decoded" where
  "abi_decode env meta ev =
     (case meta of
        None \<Rightarrow> Inl (Reference_error ''getCachedSpec'')
      | Some m \<Rightarrow>
          let fn = event_function ev; ok = (abi_warning m ev = None); ttl = parseTTLHostFunction (ttl_source ev)
          in case parseZkHostFunctions (re_rest ev) (re_calls ev) of
               None \<Rightarrow> Inl Type_error
             | Some zk \<Rightarrow>
                 Inr ((base_record ev fn (case ttl of Some t \<Rightarrow> formatTTLExtension t | None \<Rightarrow> abi_description env m ev) (decoderTag ''abi''))
                   \<lparr>dc_abi := Some
                     \<lparr>ap_source = ''abi'', ap_status = (if ok then ''verified'' else ''unverified''), ap_warning = abi_warning m ev,
                      ap_sac = Option.bind (re_contract ev) (dv_sac env), ap_clawback = (fn = ''clawback''),
                      ap_resource = isResourceLimitExceeded ev,
                      ap_slippage = (if ok \<and> fn \<in> set SWAP_FUNCTIONS then extractSwapSlippageBps (tl (re_topics ev)) else None),
                      ap_ttl = ttl, ap_zk = map_option (\<lambda>cs. (cs, computeZkCostDelta cs)) zk\<rparr>\<rparr>))"

definition decodeEvent :: "decode_env \<Rightarrow> bool \<Rightarrow> rpc_event \<Rightarrow> decode_error + decoded" where
  "decodeEvent env currentAbi ev =
     (if re_contract ev = None \<and> js_truthy (field (re_rest ev) ''operation'') then Inr (decodeClassicOperation env ev)
      else case early_decoders env ev of
             Some d \<Rightarrow> Inr d
           | None \<Rightarrow> abi_decode env (active_meta env currentAbi ev) ev)"

text \<open>The role an event assigns, stored beside it.\<close>

definition decoded_role :: "decode_env \<Rightarrow> decoded \<Rightarrow> role_assignment option" where
  "decoded_role env d = (if dc_abi d = None then None else extractRoleAssignment (dv_parse env) (dc_topics d) (dc_data d))"

subsection \<open>The success counters\<close>

definition DECODE_STATS_WINDOW_HOURS :: int where "DECODE_STATS_WINDOW_HOURS = 24"

type_synonym buckets = "(int \<times> nat \<times> nat) list"

definition hour_of :: "int \<Rightarrow> int" where "hour_of now = now div 3600000"

definition pruneDecodeBuckets :: "int \<Rightarrow> buckets \<Rightarrow> buckets" where
  "pruneDecodeBuckets now b = filter (\<lambda>(k, _). \<not> k \<le> hour_of now - DECODE_STATS_WINDOW_HOURS) b"

fun put_bucket :: "int \<Rightarrow> nat \<times> nat \<Rightarrow> buckets \<Rightarrow> buckets" where
  "put_bucket k c [] = [(k, c)]"
| "put_bucket k c ((k', c') # b) = (if k = k' then (k, c) # b else (k', c') # put_bucket k c b)"

definition recordDecodeOutcome :: "int \<Rightarrow> bool \<Rightarrow> buckets \<Rightarrow> buckets" where
  "recordDecodeOutcome now ok b =
     (let k = hour_of now; (s, f) = (case map_of b k of Some c \<Rightarrow> c | None \<Rightarrow> (0, 0))
      in pruneDecodeBuckets now (put_bucket k (if ok then (s + 1, f) else (s, f + 1)) b))"

record decode_stats =
  ds_total :: nat
  ds_decoded :: nat
  ds_undecoded :: nat
  ds_rate :: string

definition getDecodeStats :: "int \<Rightarrow> buckets \<Rightarrow> decode_stats \<times> buckets" where
  "getDecodeStats now b =
     (let b' = pruneDecodeBuckets now b; s = sum_list (map (fst \<circ> snd) b'); f = sum_list (map (snd \<circ> snd) b')
      in (\<lparr>ds_total = s + f, ds_decoded = s, ds_undecoded = f,
           ds_rate = (if s + f \<noteq> 0 then to_fixed 4 (of_nat s / of_nat (s + f)) else ''1'')\<rparr>, b'))"

text \<open>\<open>decode\<close>: the event decoded and its outcome counted.\<close>

definition decode_counted :: "decode_env \<Rightarrow> bool \<Rightarrow> int \<Rightarrow> rpc_event \<Rightarrow> buckets \<Rightarrow> (decode_error + decoded) \<times> buckets" where
  "decode_counted env currentAbi now ev b =
     (let r = decodeEvent env currentAbi ev in (r, recordDecodeOutcome now (case r of Inr _ \<Rightarrow> True | Inl _ \<Rightarrow> False) b))"

subsection \<open>The check and the status\<close>

lemma shape_error_None:
  "length ps = length vs \<Longrightarrow> shape_error i ps vs = None \<longleftrightarrow> (\<forall>k < length ps. kind_matches (param_kind (ps ! k)) (vs ! k))"
proof (induction i ps vs rule: shape_error.induct)
  case (1 i p ps v vs)
  then show ?case by (auto simp: All_less_Suc2)
qed auto

lemma shape_error_first:
  "length ps = length vs \<Longrightarrow> shape_error i ps vs = Some w \<Longrightarrow>
     \<exists>k < length ps. (\<forall>j < k. kind_matches (param_kind (ps ! j)) (vs ! j)) \<and> \<not> kind_matches (param_kind (ps ! k)) (vs ! k) \<and>
       w = ''abi_type_mismatch:'' @ dec (i + k) @ '':'' @ (if param_kind (ps ! k) = [] then ''unknown'' else param_kind (ps ! k))"
proof (induction i ps vs rule: shape_error.induct)
  case (1 i p ps v vs)
  show ?case
  proof (cases "kind_matches (param_kind p) v")
    case True
    with 1 obtain k where "k < length ps" "\<forall>j < k. kind_matches (param_kind (ps ! j)) (vs ! j)" "\<not> kind_matches (param_kind (ps ! k)) (vs ! k)"
      "w = ''abi_type_mismatch:'' @ dec (Suc i + k) @ '':'' @ (if param_kind (ps ! k) = [] then ''unknown'' else param_kind (ps ! k))"
      by auto
    with True show ?thesis by (intro exI [of _ "Suc k"]) (auto simp: All_less_Suc2)
  next
    case False
    with 1 show ?thesis by (intro exI [of _ 0]) auto
  qed
qed auto

text \<open>
  C16. Decoding a contract event that no fixed decoder takes succeeds only with metadata, and marks the record verified exactly when the
  function is registered with as many parameters as the event has values, each matching its kind; otherwise a warning is kept.
\<close>

theorem verified_means_matching:
  assumes "decodeEvent env currentAbi ev = Inr d" "dc_abi d = Some a"
  shows "\<exists>m. active_meta env currentAbi ev = Some m \<and> (ap_status a = ''verified'' \<longleftrightarrow> ap_warning a = None) \<and>
    (ap_status a = ''verified'' \<longleftrightarrow>
      (\<exists>abi. abi_of m (event_function ev) = Some abi \<and>
        (let ps = (case fa_params abi of VArr ps \<Rightarrow> ps | _ \<Rightarrow> []); vs = abi_args ev
         in length ps = length vs \<and> (\<forall>k < length ps. kind_matches (param_kind (ps ! k)) (vs ! k)))))"
proof -
  have no: "dc_abi (base_record ev f t v) = None" "dc_abi (decodeClassicOperation env ev) = None" for f t v
    by (simp_all add: base_record_def decodeClassicOperation_def Let_def)
  then have early: "early_decoders env ev = Some d' \<Longrightarrow> dc_abi d' = None" for d'
    by (auto simp: early_decoders_def Let_def split: option.splits prod.splits)
  with assms no have abi: "abi_decode env (active_meta env currentAbi ev) ev = Inr d"
    by (auto simp: decodeEvent_def split: if_splits option.splits)
  then obtain m where m: "active_meta env currentAbi ev = Some m" by (auto simp: abi_decode_def split: option.splits)
  with abi assms(2) have status: "ap_status a = (if abi_warning m ev = None then ''verified'' else ''unverified'')" "ap_warning a = abi_warning m ev"
    by (auto simp: abi_decode_def Let_def split: option.splits)
  have "abi_warning m ev = None \<longleftrightarrow>
      (\<exists>abi. abi_of m (event_function ev) = Some abi \<and>
        (let ps = (case fa_params abi of VArr ps \<Rightarrow> ps | _ \<Rightarrow> []); vs = abi_args ev
         in length ps = length vs \<and> (\<forall>k < length ps. kind_matches (param_kind (ps ! k)) (vs ! k))))"
    by (auto simp: abi_warning_def validateAbiEventShape_def Let_def shape_error_None split: option.split)
  with m status show ?thesis by auto
qed

definition sample_event_of :: "string \<Rightarrow> native list \<Rightarrow> rpc_event" where
  "sample_event_of c ts = \<lparr>re_contract = Some c, re_topics = ts, re_value = VNull, re_ledger = 1, re_tx = ''t'', re_rest = VObj [], re_fees = None, re_calls = []\<rparr>"

definition sample_env :: "contract_meta option \<Rightarrow> decode_env" where
  "sample_env m = \<lparr>dv_plugin = (\<lambda>_. None), dv_meta_at = (\<lambda>_ _. None), dv_meta = (\<lambda>_. m), dv_vault = (\<lambda>_. None), dv_sac = (\<lambda>_. None),
     dv_resolve = (\<lambda>_ _. None), dv_parse = (\<lambda>_. None), dv_stellarswap = None, dv_blend = None\<rparr>"

definition sample_meta :: contract_meta where
  "sample_meta = \<lparr>cm_name = Some ''M'', cm_functions = [\<lparr>fa_name = ''ping'', fa_params = VArr [VObj [(''type'', VStr ''u32'')]]\<rparr>],
     cm_rwa = \<lparr>rm_name = None, rm_description = None, rm_type = None, rm_is_rwa = False, rm_class = None, rm_functions = []\<rparr>\<rparr>"

lemma sample_early: "early_decoders (sample_env m) (sample_event_of ''C'' ts) = None"
proof -
  have "Some ''C'' \<notin> Some ` set NATIVE_SAC_IDS" by (simp add: NATIVE_SAC_IDS_def)
  then show ?thesis by (simp add: early_decoders_def sample_env_def sample_event_of_def)
qed

text \<open>
  An event of a contract without metadata, be it of this ledger or current, is never decoded unless it is a classic operation or one of
  the decoders tried first takes it: the lookup of the on-chain specification fails, and the failure is counted.
\<close>

lemma unregistered_contract_undecodable:
  assumes "active_meta env currentAbi ev = None" "early_decoders env ev = None" "re_contract ev = Some c"
  shows "fst (decode_counted env currentAbi now ev b) = Inl (Reference_error ''getCachedSpec'') \<and>
    snd (decode_counted env currentAbi now ev b) = recordDecodeOutcome now False b"
  using assms by (simp add: decode_counted_def decodeEvent_def abi_decode_def Let_def)

lemma unregistered_contract_undecodable_witness:
  "fst (decode_counted (sample_env None) False 0 (sample_event_of ''C'' [VStr ''ping'']) []) = Inl (Reference_error ''getCachedSpec'')"
proof -
  have "active_meta (sample_env None) False (sample_event_of ''C'' [VStr ''ping'']) = None"
    by (simp add: active_meta_def sample_env_def)
  moreover have "re_contract (sample_event_of ''C'' [VStr ''ping'']) = Some ''C''" by (simp add: sample_event_of_def)
  ultimately show ?thesis using unregistered_contract_undecodable [OF _ sample_early] by blast
qed

text \<open>Lists, maps and records never pass the check when their type names an unsigned or signed element, nor do vectors of addresses.\<close>

lemma composite_never_verified:
  assumes "contains kind ''u'' \<or> contains kind ''i'' \<or> contains kind ''address''" "v = VArr xs \<or> v = VObj ps \<or> v = VBytes s"
  shows "\<not> kind_matches kind v"
  using assms by (auto simp: kind_matches_def)

lemma abi_decode_ok:
  "parseZkHostFunctions (re_rest ev) (re_calls ev) = Some zk \<Longrightarrow> \<exists>d a. abi_decode env (Some m) ev = Inr d \<and> dc_abi d = Some a"
  by (simp add: abi_decode_def Let_def)

theorem verified_means_matching_witness:
  "\<exists>m. active_meta (sample_env (Some sample_meta)) False (sample_event_of ''C'' [VStr ''ping'', VBig 3]) = Some m"
proof -
  let ?ev = "sample_event_of ''C'' [VStr ''ping'', VBig 3]" and ?env = "sample_env (Some sample_meta)"
  have meta: "active_meta ?env False ?ev = Some sample_meta" by (simp add: active_meta_def sample_env_def)
  have zk: "parseZkHostFunctions (re_rest ?ev) (re_calls ?ev) = Some None"
    by (simp add: parseZkHostFunctions_def sample_event_of_def either_field_def coalesce_def zk_named_def List.map_filter_def)
  have "re_contract ?ev = Some ''C''" by (simp add: sample_event_of_def)
  then have run: "decodeEvent ?env False ?ev = abi_decode ?env (Some sample_meta) ?ev" by (simp add: decodeEvent_def sample_early meta)
  from abi_decode_ok [OF zk] obtain d a where "decodeEvent ?env False ?ev = Inr d" "dc_abi d = Some a" unfolding run by blast
  from verified_means_matching [OF this] show ?thesis by blast
qed

subsection \<open>The counters\<close>

definition count_all :: "(int \<times> bool) list \<Rightarrow> buckets" where
  "count_all outcomes = foldl (\<lambda>b (now, ok). recordDecodeOutcome now ok b) [] outcomes"

definition in_hour :: "int \<Rightarrow> bool \<Rightarrow> (int \<times> bool) list \<Rightarrow> nat" where
  "in_hour k ok outcomes = length (filter (\<lambda>(t, r). hour_of t = k \<and> r = ok) outcomes)"

definition counted :: "int \<Rightarrow> (int \<times> bool) list \<Rightarrow> buckets \<Rightarrow> bool" where
  "counted now outcomes b \<longleftrightarrow> distinct (map fst b) \<and>
     (\<forall>k. map_of b k = (if hour_of now - DECODE_STATS_WINDOW_HOURS < k \<and> (\<exists>x \<in> set outcomes. hour_of (fst x) = k)
                         then Some (in_hour k True outcomes, in_hour k False outcomes) else None))"

lemma put_bucket_map: "map_of (put_bucket k c b) = (map_of b)(k \<mapsto> c)"
  by (induction k c b rule: put_bucket.induct) auto

lemma put_bucket_keys: "fst ` set (put_bucket k c b) = insert k (fst ` set b)"
  by (induction k c b rule: put_bucket.induct) auto

lemma put_bucket_distinct: "distinct (map fst b) \<Longrightarrow> distinct (map fst (put_bucket k c b))"
proof (induction k c b rule: put_bucket.induct)
  case (2 k c k' c' b)
  then show ?case using put_bucket_keys [of k c b] by (auto simp flip: set_map)
qed simp

lemma prune_map: "map_of (pruneDecodeBuckets now b) k = (if hour_of now - DECODE_STATS_WINDOW_HOURS < k then map_of b k else None)"
  by (simp add: pruneDecodeBuckets_def map_of_filter_key not_le)

lemma prune_distinct: "distinct (map fst b) \<Longrightarrow> distinct (map fst (pruneDecodeBuckets now b))"
  by (simp add: pruneDecodeBuckets_def distinct_map_filter)

lemma in_hour_snoc: "in_hour k ok (xs @ [(t, r)]) = in_hour k ok xs + (if hour_of t = k \<and> r = ok then 1 else 0)"
  by (simp add: in_hour_def)

lemma in_hour_none: "\<forall>x \<in> set xs. hour_of (fst x) \<noteq> k \<Longrightarrow> in_hour k ok xs = 0"
  by (auto simp: in_hour_def filter_empty_conv)

lemma hour_mono: "t \<le> now \<Longrightarrow> hour_of t \<le> hour_of now"
  by (simp add: hour_of_def zdiv_mono1)

lemma record_counted:
  assumes "counted t outcomes b" "t \<le> now"
  shows "counted now (outcomes @ [(now, ok)]) (recordDecodeOutcome now ok b)"
proof -
  let ?h = "hour_of now" and ?c = "case map_of b (hour_of now) of Some c \<Rightarrow> c | None \<Rightarrow> (0, 0)"
  have le: "hour_of t \<le> ?h" using assms(2) by (rule hour_mono)
  have old: "?c = (in_hour ?h True outcomes, in_hour ?h False outcomes)"
  proof (cases "\<exists>x \<in> set outcomes. hour_of (fst x) = ?h")
    case True
    then show ?thesis using assms(1) le by (simp add: counted_def DECODE_STATS_WINDOW_HOURS_def)
  next
    case False
    then show ?thesis using assms(1) by (simp add: counted_def in_hour_none)
  qed
  have rec: "recordDecodeOutcome now ok b =
      pruneDecodeBuckets now (put_bucket ?h (in_hour ?h True (outcomes @ [(now, ok)]), in_hour ?h False (outcomes @ [(now, ok)])) b)"
    by (simp add: recordDecodeOutcome_def Let_def old in_hour_snoc)
  have "map_of (recordDecodeOutcome now ok b) k =
      (if ?h - DECODE_STATS_WINDOW_HOURS < k \<and> (\<exists>x \<in> set (outcomes @ [(now, ok)]). hour_of (fst x) = k)
       then Some (in_hour k True (outcomes @ [(now, ok)]), in_hour k False (outcomes @ [(now, ok)])) else None)" for k
    using assms(1) le unfolding rec prune_map put_bucket_map counted_def by (auto simp: in_hour_snoc DECODE_STATS_WINDOW_HOURS_def)
  moreover have "distinct (map fst (recordDecodeOutcome now ok b))"
    using assms(1) unfolding rec counted_def by (simp add: prune_distinct put_bucket_distinct)
  ultimately show ?thesis by (simp add: counted_def)
qed

lemma count_all_counted:
  assumes "sorted (map fst outcomes)" "\<forall>x \<in> set outcomes. fst x \<le> now"
  shows "counted (if outcomes = [] then now else fst (last outcomes)) outcomes (count_all outcomes)"
  using assms
proof (induction outcomes rule: rev_induct)
  case Nil
  then show ?case by (simp add: counted_def count_all_def)
next
  case (snoc x xs)
  obtain t ok where x: "x = (t, ok)" by fastforce
  have c: "counted (if xs = [] then now else fst (last xs)) xs (count_all xs)" using snoc by (auto simp: sorted_append)
  have "counted t (xs @ [(t, ok)]) (recordDecodeOutcome t ok (count_all xs))"
  proof (cases "xs = []")
    case True
    then have "counted t xs (count_all xs)" by (simp add: counted_def count_all_def)
    then show ?thesis by (rule record_counted) simp
  next
    case False
    then have "fst (last xs) \<le> t" using snoc.prems(1) x by (auto simp: sorted_append)
    with False c show ?thesis by (auto intro: record_counted)
  qed
  then show ?case by (simp add: x count_all_def)
qed

lemma sum_over_keys:
  "distinct ks \<Longrightarrow> sum_list (map (\<lambda>k. length (filter (\<lambda>x. f x = k \<and> P x) xs)) ks) = length (filter (\<lambda>x. f x \<in> set ks \<and> P x) xs)"
proof (induction ks)
  case (Cons k ks)
  have "length (filter (\<lambda>x. f x \<in> set (k # ks) \<and> P x) xs) =
      length (filter (\<lambda>x. f x = k \<and> P x) xs) + length (filter (\<lambda>x. f x \<in> set ks \<and> P x) xs)"
    using Cons.prems by (induction xs) auto
  with Cons show ?case by simp
qed simp

lemma in_hour_split: "in_hour k ok outcomes = length (filter (\<lambda>x. (hour_of \<circ> fst) x = k \<and> snd x = ok) outcomes)"
  by (simp add: in_hour_def case_prod_unfold)

lemma counted_entries:
  assumes "counted now outcomes b"
  shows "sum_list (map (fst \<circ> snd) b) = length (filter (\<lambda>(t, ok). hour_of now - DECODE_STATS_WINDOW_HOURS < hour_of t \<and> ok) outcomes)"
    "sum_list (map (snd \<circ> snd) b) = length (filter (\<lambda>(t, ok). hour_of now - DECODE_STATS_WINDOW_HOURS < hour_of t \<and> \<not> ok) outcomes)"
proof -
  have d: "distinct (map fst b)" using assms by (simp add: counted_def)
  have e: "snd e = (in_hour (fst e) True outcomes, in_hour (fst e) False outcomes)" if "e \<in> set b" for e
  proof -
    have "map_of b (fst e) = Some (snd e)" using that d by (cases e) auto
    then show ?thesis using assms by (auto simp: counted_def split: if_splits)
  qed
  have keys: "hour_of t \<in> set (map fst b) \<longleftrightarrow> hour_of now - DECODE_STATS_WINDOW_HOURS < hour_of t" if "(t, ok) \<in> set outcomes" for t ok
  proof -
    have "map_of b (hour_of t) = (if hour_of now - DECODE_STATS_WINDOW_HOURS < hour_of t \<and> (\<exists>x \<in> set outcomes. hour_of (fst x) = hour_of t)
        then Some (in_hour (hour_of t) True outcomes, in_hour (hour_of t) False outcomes) else None)"
      using assms unfolding counted_def by blast
    moreover have "\<exists>x \<in> set outcomes. hour_of (fst x) = hour_of t" using that by force
    ultimately have "map_of b (hour_of t) \<noteq> None \<longleftrightarrow> hour_of now - DECODE_STATS_WINDOW_HOURS < hour_of t" by simp
    then show ?thesis by (metis map_of_eq_None_iff set_map)
  qed
  have "sum_list (map (fst \<circ> snd) b) = sum_list (map (\<lambda>k. in_hour k True outcomes) (map fst b))"
    using e by (simp add: comp_def cong: map_cong)
  also have "\<dots> = sum_list (map (\<lambda>k. length (filter (\<lambda>x. (hour_of \<circ> fst) x = k \<and> snd x = True) outcomes)) (map fst b))"
    by (simp only: in_hour_split)
  also have "\<dots> = length (filter (\<lambda>x. (hour_of \<circ> fst) x \<in> set (map fst b) \<and> snd x = True) outcomes)" by (rule sum_over_keys [OF d])
  also have "\<dots> = length (filter (\<lambda>(t, ok). hour_of now - DECODE_STATS_WINDOW_HOURS < hour_of t \<and> ok) outcomes)"
    by (intro arg_cong [where f = length] filter_cong refl) (clarsimp simp del: set_map simp add: keys)
  finally show "sum_list (map (fst \<circ> snd) b) = length (filter (\<lambda>(t, ok). hour_of now - DECODE_STATS_WINDOW_HOURS < hour_of t \<and> ok) outcomes)" .
  have "sum_list (map (snd \<circ> snd) b) = sum_list (map (\<lambda>k. in_hour k False outcomes) (map fst b))"
    using e by (simp add: comp_def cong: map_cong)
  also have "\<dots> = sum_list (map (\<lambda>k. length (filter (\<lambda>x. (hour_of \<circ> fst) x = k \<and> snd x = False) outcomes)) (map fst b))"
    by (simp only: in_hour_split)
  also have "\<dots> = length (filter (\<lambda>x. (hour_of \<circ> fst) x \<in> set (map fst b) \<and> snd x = False) outcomes)" by (rule sum_over_keys [OF d])
  also have "\<dots> = length (filter (\<lambda>(t, ok). hour_of now - DECODE_STATS_WINDOW_HOURS < hour_of t \<and> \<not> ok) outcomes)"
    by (intro arg_cong [where f = length] filter_cong refl) (clarsimp simp del: set_map simp add: keys)
  finally show "sum_list (map (snd \<circ> snd) b) = length (filter (\<lambda>(t, ok). hour_of now - DECODE_STATS_WINDOW_HOURS < hour_of t \<and> \<not> ok) outcomes)" .
qed

lemma prune_counted:
  assumes "counted t outcomes b" "t \<le> now"
  shows "counted now outcomes (pruneDecodeBuckets now b)"
  using assms hour_mono [OF assms(2)] unfolding counted_def by (auto simp: prune_map prune_distinct)

text \<open>
  The counters read at a time are exactly the successes and failures of the outcomes recorded in the last 24 hours begun, however many
  buckets were dropped on the way.
\<close>

lemma decode_stats_exact:
  assumes "sorted (map fst outcomes)" "\<forall>x \<in> set outcomes. fst x \<le> now"
  shows "ds_decoded (fst (getDecodeStats now (count_all outcomes))) =
      length (filter (\<lambda>(t, ok). hour_of now - DECODE_STATS_WINDOW_HOURS < hour_of t \<and> ok) outcomes) \<and>
    ds_undecoded (fst (getDecodeStats now (count_all outcomes))) =
      length (filter (\<lambda>(t, ok). hour_of now - DECODE_STATS_WINDOW_HOURS < hour_of t \<and> \<not> ok) outcomes)"
proof -
  have "(if outcomes = [] then now else fst (last outcomes)) \<le> now" using assms(2) by (cases outcomes rule: rev_cases) auto
  from prune_counted [OF count_all_counted [OF assms] this] show ?thesis
    by (simp add: getDecodeStats_def Let_def counted_entries)
qed

lemma decode_stats_exact_witness:
  "ds_decoded (fst (getDecodeStats (25 * 3600000) (count_all [(0, True), (7200000, True), (7200001, False)]))) = 1"
  using decode_stats_exact [of "[(0, True), (7200000, True), (7200001, False)]" "25 * 3600000"]
  by (simp add: hour_of_def DECODE_STATS_WINDOW_HOURS_def)

end
