(* ===== verification/Api_Keys.thy ===== *)
theory Api_Keys
  imports Scopes Ip_Rules Js_Number "HOL-Library.AList"
begin

section \<open>API keys (indexer/src/auth/apiKeyAuth.js, admin/keyManager.js, routes/dashboard.js)\<close>

text \<open>
  The table \<open>api_keys\<close> with the operations that change it, the authentication middleware with its cache of key records, and the routes by
  which a key manages its siblings. bcrypt, SHA-256 and the generator of keys are parameters; times are milliseconds, dates days since
  1970. The cache is the package lru-cache: it answers what was stored for a key at most 30 s before, or nothing. Shown: a request is
  accepted only if the current row of its key allows it, unless that row has changed within the last 30 s; a key without a daily limit is
  refused on every request; revoking a rotated key leaves it valid for its grace period and rotating a revoked key makes it valid
  again; a rotated key loses its restrictions; the dashboard hands out keys of any tier.
\<close>

subsection \<open>The table\<close>

record api_key =
  ky_id :: string
  ky_name :: string
  ky_email :: "string option"
  ky_hash :: string
  ky_prefix :: string
  ky_tier :: string
  ky_rate :: "int option"
  ky_daily :: "int option"
  ky_ips :: "string list option"
  ky_endpoints :: "string list option"
  ky_expires :: "int option"
  ky_revoked :: bool
  ky_verified :: "bool option"
  ky_rotated :: "int option"
  ky_grace :: "int option"
  ky_scopes :: "string list"
  ky_contracts :: "string list option"
  ky_origins :: "string list option"
  ky_updated :: int
  ky_uses :: nat

record key_world =
  kw_rows :: "api_key list"
  kw_cache :: "(string \<times> api_key \<times> int) list"
  kw_usage :: "((string \<times> int) \<times> nat) list"

record key_env =
  kv_bcrypt :: "string \<Rightarrow> string \<Rightarrow> bool"
  kv_sha :: "string \<Rightarrow> string"
  kv_static :: "string option"

definition find_key :: "string \<Rightarrow> api_key list \<Rightarrow> api_key option" where
  "find_key i rows = find (\<lambda>r. ky_id r = i) rows"

definition set_key :: "string \<Rightarrow> (api_key \<Rightarrow> api_key) \<Rightarrow> api_key list \<Rightarrow> api_key list" where
  "set_key i f rows = map (\<lambda>r. if ky_id r = i then f r else r) rows"

subsection \<open>Authentication\<close>

definition KEY_CACHE_TTL_MS :: int where "KEY_CACHE_TTL_MS = 30000"

definition DAILY_LIMIT_BY_TIER :: "(string \<times> int) list" where
  "DAILY_LIMIT_BY_TIER = [(''unauthenticated'', 60), (''free'', 1000), (''pro'', 10000), (''enterprise'', 100000)]"

definition endpoint_pattern :: "string \<Rightarrow> string \<Rightarrow> bool" where
  "endpoint_pattern endpoint p =
     (if p \<noteq> [] \<and> last p = CHR ''*'' then take (length p - 1) endpoint = butlast p else endpoint = p)"

definition endpointAllowed :: "string \<Rightarrow> string list \<Rightarrow> bool" where
  "endpointAllowed endpoint patterns \<longleftrightarrow> patterns = [] \<or> list_ex (endpoint_pattern endpoint) patterns"

definition hashIp :: "key_env \<Rightarrow> string \<Rightarrow> string" where
  "hashIp env ip = ''ip:'' @ take 16 (kv_sha env ip)"

definition lookupKeyInDb :: "key_env \<Rightarrow> string \<Rightarrow> api_key list \<Rightarrow> api_key option" where
  "lookupKeyInDb env rawKey rows = find (\<lambda>r. kv_bcrypt env rawKey (ky_hash r)) (filter (\<lambda>r. ky_prefix r = take 8 rawKey) rows)"

text \<open>What the cache answers: the record stored for the key, unless it is too old or was dropped.\<close>

definition cache_get :: "(string \<Rightarrow> bool) \<Rightarrow> int \<Rightarrow> string \<Rightarrow> (string \<times> api_key \<times> int) list \<Rightarrow> api_key option" where
  "cache_get kept now rawKey cache =
     (case map_of cache rawKey of
        Some (r, t) \<Rightarrow> if kept rawKey \<and> now - t \<le> KEY_CACHE_TTL_MS then Some r else None
      | None \<Rightarrow> None)"

text \<open>The checks of a record, in their order; \<open>None\<close> when it may be used.\<close>

definition key_refusal :: "int \<Rightarrow> string \<Rightarrow> string \<Rightarrow> api_key \<Rightarrow> (nat \<times> string) option" where
  "key_refusal now ip path r =
     (if ky_revoked r \<and> (case ky_grace r of Some g \<Rightarrow> g \<le> now | None \<Rightarrow> True) then Some (401, ''API key revoked'')
      else if ky_verified r = Some False then Some (401, ''API key not verified. Please check your email to verify your key.'')
      else if (case ky_expires r of Some e \<Rightarrow> e < now | None \<Rightarrow> False) then Some (401, ''API key expired'')
      else if (case ky_ips r of Some cs \<Rightarrow> cs \<noteq> [] \<and> \<not> ipInCidrList ip (Some cs) | None \<Rightarrow> False) then Some (403, ''IP not permitted'')
      else if (case ky_endpoints r of Some ps \<Rightarrow> ps \<noteq> [] \<and> \<not> endpointAllowed path ps | None \<Rightarrow> False)
      then Some (403, ''Endpoint not permitted'')
      else None)"

record rate_context =
  rc_client :: string
  rc_tier :: string
  rc_rate :: "int option"
  rc_key :: "string option"
  rc_name :: "string option"
  rc_scopes :: "string list option"
  rc_contracts :: "string list"
  rc_origins :: "string list"
  rc_expires :: "int option"

datatype auth_outcome = Proceed rate_context | Refused nat string

text \<open>\<open>Number(daily_limit)\<close> of a missing limit is zero, which is finite and not negative.\<close>

definition effective_limit :: "api_key \<Rightarrow> int" where
  "effective_limit r =
     (let d = (case ky_daily r of Some d \<Rightarrow> d | None \<Rightarrow> 0)
      in if 0 \<le> d then d else case map_of DAILY_LIMIT_BY_TIER (ky_tier r) of Some l \<Rightarrow> l | None \<Rightarrow> 1000)"

definition day_of :: "int \<Rightarrow> int" where "day_of now = now div 86400000"

definition used_on :: "string \<Rightarrow> int \<Rightarrow> ((string \<times> int) \<times> nat) list \<Rightarrow> nat" where
  "used_on i d usage = (case map_of usage (i, d) of Some n \<Rightarrow> n | None \<Rightarrow> 0)"

definition incrementDailyUsage :: "int \<Rightarrow> api_key \<Rightarrow> key_world \<Rightarrow> bool \<times> key_world" where
  "incrementDailyUsage now r w =
     (let count = used_on (ky_id r) (day_of now) (kw_usage w) + 1;
          w1 = w\<lparr>kw_usage := AList.update (ky_id r, day_of now) count (kw_usage w)\<rparr>
      in if effective_limit r < int count then (False, w1)
         else (True, w1\<lparr>kw_rows := set_key (ky_id r) (\<lambda>k. k\<lparr>ky_uses := ky_uses k + 1\<rparr>) (kw_rows w1)\<rparr>))"

definition anonymous :: "key_env \<Rightarrow> string \<Rightarrow> rate_context" where
  "anonymous env ip =
     \<lparr>rc_client = hashIp env ip, rc_tier = ''unauthenticated'', rc_rate = None, rc_key = None, rc_name = None, rc_scopes = None,
      rc_contracts = [], rc_origins = [], rc_expires = None\<rparr>"

definition static_context :: rate_context where
  "static_context =
     \<lparr>rc_client = ''static-admin-key'', rc_tier = ''enterprise'', rc_rate = None, rc_key = None, rc_name = Some ''static-admin-key'',
      rc_scopes = Some [''admin:*''], rc_contracts = [], rc_origins = [], rc_expires = None\<rparr>"

definition key_context_of :: "api_key \<Rightarrow> rate_context" where
  "key_context_of r =
     \<lparr>rc_client = ky_id r, rc_tier = ky_tier r, rc_rate = ky_rate r, rc_key = Some (ky_id r), rc_name = Some (ky_name r),
      rc_scopes = Some (ky_scopes r), rc_contracts = list_or_empty (ky_contracts r), rc_origins = list_or_empty (ky_origins r),
      rc_expires = ky_expires r\<rparr>"

text \<open>The record of a key: from the cache, or from the table and then cached.\<close>

definition key_record :: "key_env \<Rightarrow> (string \<Rightarrow> bool) \<Rightarrow> int \<Rightarrow> string \<Rightarrow> key_world \<Rightarrow> api_key option \<times> key_world" where
  "key_record env kept now rawKey w =
     (case cache_get kept now rawKey (kw_cache w) of
        Some r \<Rightarrow> (Some r, w)
      | None \<Rightarrow>
          (case lookupKeyInDb env rawKey (kw_rows w) of
             None \<Rightarrow> (None, w)
           | Some r \<Rightarrow> (Some r, w\<lparr>kw_cache := AList.update rawKey (r, now) (kw_cache w)\<rparr>)))"

definition apiKeyAuthenticator ::
  "key_env \<Rightarrow> (string \<Rightarrow> bool) \<Rightarrow> int \<Rightarrow> string option \<Rightarrow> string \<Rightarrow> string \<Rightarrow> key_world \<Rightarrow> auth_outcome \<times> key_world" where
  "apiKeyAuthenticator env kept now header ip path w =
     (case header of
        None \<Rightarrow> (Proceed (anonymous env ip), w)
      | Some rawKey \<Rightarrow>
          if rawKey = [] then (Proceed (anonymous env ip), w)
          else if kv_static env = Some rawKey then (Proceed static_context, w)
          else case key_record env kept now rawKey w of
                 (None, w1) \<Rightarrow> (Refused 401 ''Invalid API key'', w1)
               | (Some r, w1) \<Rightarrow>
                   (case key_refusal now ip path r of
                      Some (code, e) \<Rightarrow> (Refused code e, w1)
                    | None \<Rightarrow>
                        (case incrementDailyUsage now r w1 of
                           (True, w2) \<Rightarrow> (Proceed (key_context_of r), w2)
                         | (False, w2) \<Rightarrow> (Refused 429 ''Daily API key usage limit exceeded'', w2))))"

subsection \<open>Key management\<close>

definition VALID_TIERS :: "string list" where "VALID_TIERS = [''unauthenticated'', ''free'', ''pro'', ''enterprise'']"

text \<open>
  The body of a creation: numbers as \<open>Number\<close> reads them, a list that is absent (\<open>None\<close>) or no array (\<open>Some None\<close>). The key material is its raw
  text and its hash.
\<close>

record new_key =
  nk_name :: "string option"
  nk_tier :: "string option"
  nk_rate :: "jsnum option"
  nk_daily :: "jsnum option"
  nk_ips :: "string list option"
  nk_endpoints :: "string list option"
  nk_expires :: "int option"
  nk_email :: "string option"
  nk_verified :: bool
  nk_scopes :: "string list option option"
  nk_contracts :: "string list option option"
  nk_origins :: "string list option option"

definition bad_list :: "string list option option \<Rightarrow> bool" where
  "bad_list v = (case v of None \<Rightarrow> False | Some None \<Rightarrow> True | Some (Some xs) \<Rightarrow> [] \<in> set xs)"

definition nonempty_list :: "string list option option \<Rightarrow> string list option" where
  "nonempty_list v = (case v of Some (Some (x # xs)) \<Rightarrow> Some (x # xs) | _ \<Rightarrow> None)"

definition integer_above :: "int \<Rightarrow> jsnum option \<Rightarrow> bool" where
  "integer_above least v = (case v of None \<Rightarrow> True | Some n \<Rightarrow> (case is_integer n of Some i \<Rightarrow> least \<le> i | None \<Rightarrow> False))"

definition int_or_null :: "jsnum option \<Rightarrow> int option" where
  "int_or_null v = Option.bind v is_integer"

datatype key_error = Bad_scopes scope_error | Bad_key_list | Bad_name | Bad_tier | Bad_rate | Bad_daily | Nothing_to_update | Key_not_found | Not_owner

definition tier_or_free :: "new_key \<Rightarrow> string" where
  "tier_or_free d = (case nk_tier d of Some t \<Rightarrow> t | None \<Rightarrow> ''free'')"

definition new_row :: "int \<Rightarrow> string \<Rightarrow> string \<Rightarrow> string \<Rightarrow> string list \<Rightarrow> new_key \<Rightarrow> api_key" where
  "new_row now i rawKey hash scopes d =
     \<lparr>ky_id = i, ky_name = trim (the (nk_name d)), ky_email = nk_email d, ky_hash = hash, ky_prefix = take 8 rawKey,
      ky_tier = tier_or_free d, ky_rate = int_or_null (nk_rate d), ky_daily = int_or_null (nk_daily d), ky_ips = nk_ips d,
      ky_endpoints = nk_endpoints d, ky_expires = nk_expires d, ky_revoked = False, ky_verified = Some (nk_verified d),
      ky_rotated = None, ky_grace = None, ky_scopes = scopes, ky_contracts = nonempty_list (nk_contracts d),
      ky_origins = nonempty_list (nk_origins d), ky_updated = now, ky_uses = 0\<rparr>"

definition createKey :: "bool \<Rightarrow> int \<Rightarrow> string \<Rightarrow> string \<Rightarrow> string \<Rightarrow> new_key \<Rightarrow> key_world \<Rightarrow> (key_error + api_key) \<times> key_world" where
  "createKey allowAdmin now i rawKey hash d w =
     (case normaliseScopes (nk_scopes d) allowAdmin of
        Inl e \<Rightarrow> (Inl (Bad_scopes e), w)
      | Inr scopes \<Rightarrow>
          if bad_list (nk_contracts d) \<or> bad_list (nk_origins d) then (Inl Bad_key_list, w)
          else if (case nk_name d of Some n \<Rightarrow> trim n = [] | None \<Rightarrow> True) then (Inl Bad_name, w)
          else if tier_or_free d \<notin> set VALID_TIERS then (Inl Bad_tier, w)
          else if \<not> integer_above 1 (nk_rate d) then (Inl Bad_rate, w)
          else if \<not> integer_above 0 (nk_daily d) then (Inl Bad_daily, w)
          else let r = new_row now i rawKey hash scopes d in (Inr r, w\<lparr>kw_rows := kw_rows w @ [r]\<rparr>))"

text \<open>The updatable fields.\<close>

datatype key_field =
    F_name string
  | F_tier string
  | F_rate "int option"
  | F_daily "int option"
  | F_ips "string list option"
  | F_endpoints "string list option"
  | F_expires "int option"
  | F_revoked bool

fun put_field :: "key_field \<Rightarrow> api_key \<Rightarrow> api_key" where
  "put_field (F_name v) r = r\<lparr>ky_name := v\<rparr>"
| "put_field (F_tier v) r = r\<lparr>ky_tier := v\<rparr>"
| "put_field (F_rate v) r = r\<lparr>ky_rate := v\<rparr>"
| "put_field (F_daily v) r = r\<lparr>ky_daily := v\<rparr>"
| "put_field (F_ips v) r = r\<lparr>ky_ips := v\<rparr>"
| "put_field (F_endpoints v) r = r\<lparr>ky_endpoints := v\<rparr>"
| "put_field (F_expires v) r = r\<lparr>ky_expires := v\<rparr>"
| "put_field (F_revoked v) r = r\<lparr>ky_revoked := v\<rparr>"

fun bad_tier_field :: "key_field \<Rightarrow> bool" where
  "bad_tier_field (F_tier t) = (t \<notin> set VALID_TIERS)"
| "bad_tier_field _ = False"

definition change_key :: "string \<Rightarrow> (api_key \<Rightarrow> api_key) \<Rightarrow> key_world \<Rightarrow> (key_error + api_key) \<times> key_world" where
  "change_key i f w =
     (case find_key i (kw_rows w) of
        None \<Rightarrow> (Inl Key_not_found, w)
      | Some r \<Rightarrow> (Inr (f r), w\<lparr>kw_rows := set_key i f (kw_rows w)\<rparr>))"

definition updateKey :: "int \<Rightarrow> string \<Rightarrow> key_field list \<Rightarrow> key_world \<Rightarrow> (key_error + api_key) \<times> key_world" where
  "updateKey now i changes w =
     (if changes = [] then (Inl Nothing_to_update, w)
      else if list_ex bad_tier_field changes then (Inl Bad_tier, w)
      else change_key i (\<lambda>r. (fold put_field changes r)\<lparr>ky_updated := now\<rparr>) w)"

definition deleteKey :: "int \<Rightarrow> string \<Rightarrow> key_world \<Rightarrow> (key_error + api_key) \<times> key_world" where
  "deleteKey now i w = change_key i (\<lambda>r. r\<lparr>ky_revoked := True, ky_updated := now\<rparr>) w"

text \<open>
  A rotation inserts a row with the metadata copied from the old one and the column defaults for the rest, then revokes the old row with its
  grace period, in one transaction.
\<close>

definition rotated_row :: "int \<Rightarrow> string \<Rightarrow> string \<Rightarrow> string \<Rightarrow> api_key \<Rightarrow> api_key" where
  "rotated_row now i rawKey hash r =
     \<lparr>ky_id = i, ky_name = ky_name r, ky_email = ky_email r, ky_hash = hash, ky_prefix = take 8 rawKey, ky_tier = ky_tier r,
      ky_rate = ky_rate r, ky_daily = ky_daily r, ky_ips = ky_ips r, ky_endpoints = ky_endpoints r, ky_expires = ky_expires r,
      ky_revoked = False, ky_verified = ky_verified r, ky_rotated = None, ky_grace = None, ky_scopes = DEFAULT_SCOPES, ky_contracts = None,
      ky_origins = None, ky_updated = now, ky_uses = 0\<rparr>"

definition rotateKey :: "int \<Rightarrow> int \<Rightarrow> string \<Rightarrow> string \<Rightarrow> string \<Rightarrow> string \<Rightarrow> key_world \<Rightarrow> (key_error + api_key) \<times> key_world" where
  "rotateKey graceMinutes now old i rawKey hash w =
     (case find_key old (kw_rows w) of
        None \<Rightarrow> (Inl Key_not_found, w)
      | Some r \<Rightarrow>
          let r' = rotated_row now i rawKey hash r
          in (Inr r', w\<lparr>kw_rows := set_key old (\<lambda>r. r\<lparr>ky_revoked := True, ky_rotated := Some now,
                                        ky_grace := Some (now + max 0 graceMinutes * 60000), ky_updated := now\<rparr>) (kw_rows w) @ [r']\<rparr>))"

definition assertOwnsKey :: "string \<Rightarrow> string \<Rightarrow> api_key list \<Rightarrow> key_error option" where
  "assertOwnsKey caller target rows =
     (case find_key caller rows of
        None \<Rightarrow> Some Key_not_found
      | Some c \<Rightarrow>
          if target = caller then None
          else case find_key target rows of
                 None \<Rightarrow> Some Key_not_found
               | Some t \<Rightarrow> if ky_email c = None \<or> ky_email c = Some [] \<or> ky_email t \<noteq> ky_email c then Some Not_owner else None)"

definition listKeysForOwner :: "string \<Rightarrow> api_key list \<Rightarrow> key_error + api_key list" where
  "listKeysForOwner i rows =
     (case find_key i rows of
        None \<Rightarrow> Inl Key_not_found
      | Some r \<Rightarrow> Inr (if ky_email r = None \<or> ky_email r = Some [] then [r] else filter (\<lambda>k. ky_email k = ky_email r) rows))"

text \<open>The routes of the dashboard, for the key a request was authenticated with.\<close>

definition dashboard_create :: "int \<Rightarrow> string \<Rightarrow> string \<Rightarrow> string \<Rightarrow> string \<Rightarrow> new_key \<Rightarrow> key_world \<Rightarrow> (key_error + api_key) \<times> key_world" where
  "dashboard_create now caller i rawKey hash body w =
     (case find_key caller (kw_rows w) of
        None \<Rightarrow> (Inl Key_not_found, w)
      | Some owner \<Rightarrow>
          createKey False now i rawKey hash
            (body\<lparr>nk_daily := None, nk_ips := None, nk_endpoints := None, nk_email := ky_email owner, nk_verified := True\<rparr>) w)"

definition dashboard_rotate :: "int \<Rightarrow> int \<Rightarrow> string \<Rightarrow> string \<Rightarrow> string \<Rightarrow> string \<Rightarrow> string \<Rightarrow> key_world \<Rightarrow> (key_error + api_key) \<times> key_world" where
  "dashboard_rotate graceMinutes now caller target i rawKey hash w =
     (case assertOwnsKey caller target (kw_rows w) of Some e \<Rightarrow> (Inl e, w) | None \<Rightarrow> rotateKey graceMinutes now target i rawKey hash w)"

definition dashboard_delete :: "int \<Rightarrow> string \<Rightarrow> string \<Rightarrow> key_world \<Rightarrow> (key_error + api_key) \<times> key_world" where
  "dashboard_delete now caller target w =
     (case assertOwnsKey caller target (kw_rows w) of Some e \<Rightarrow> (Inl e, w) | None \<Rightarrow> deleteKey now target w)"

subsection \<open>What an accepted request rests on\<close>

text \<open>Requests and key operations, at times that do not decrease; a new key has an id that is not in use.\<close>

inductive key_step :: "key_env \<Rightarrow> int \<times> key_world \<Rightarrow> int \<times> key_world \<Rightarrow> bool" for env where
  step_request: "t \<le> now \<Longrightarrow> apiKeyAuthenticator env kept now header ip path w = (res, w') \<Longrightarrow> key_step env (t, w) (now, w')"
| step_create: "t \<le> now \<Longrightarrow> find_key i (kw_rows w) = None \<Longrightarrow> createKey admin now i rawKey hash d w = (res, w') \<Longrightarrow> key_step env (t, w) (now, w')"
| step_update: "t \<le> now \<Longrightarrow> updateKey now i changes w = (res, w') \<Longrightarrow> key_step env (t, w) (now, w')"
| step_delete: "t \<le> now \<Longrightarrow> deleteKey now i w = (res, w') \<Longrightarrow> key_step env (t, w) (now, w')"
| step_rotate: "t \<le> now \<Longrightarrow> find_key i (kw_rows w) = None \<Longrightarrow> rotateKey graceMinutes now old i rawKey hash w = (res, w') \<Longrightarrow>
     key_step env (t, w) (now, w')"

inductive_cases key_stepE: "key_step env tw tw'"

text \<open>Equal but for the usage count.\<close>

definition same_key :: "api_key \<Rightarrow> api_key \<Rightarrow> bool" where
  "same_key r c \<longleftrightarrow> r\<lparr>ky_uses := 0\<rparr> = c\<lparr>ky_uses := 0\<rparr>"

definition entry_ok :: "key_env \<Rightarrow> int \<Rightarrow> api_key list \<Rightarrow> string \<times> api_key \<times> int \<Rightarrow> bool" where
  "entry_ok env now rows e \<longleftrightarrow> (case e of (rawKey, c, t) \<Rightarrow> t \<le> now \<and> kv_bcrypt env rawKey (ky_hash c) \<and>
     (\<exists>r \<in> set rows. ky_id r = ky_id c \<and> (same_key r c \<or> t \<le> ky_updated r)))"

definition keys_ok :: "key_env \<Rightarrow> int \<Rightarrow> key_world \<Rightarrow> bool" where
  "keys_ok env now w \<longleftrightarrow> distinct (map ky_id (kw_rows w)) \<and> (\<forall>e \<in> set (kw_cache w). entry_ok env now (kw_rows w) e)"

lemma set_key_ids [simp]: "(\<And>r. ky_id (f r) = ky_id r) \<Longrightarrow> map ky_id (set_key i f rows) = map ky_id rows"
  by (simp add: set_key_def)

text \<open>A change of rows that keeps ids and either leaves a row as it was but for its usage, or marks it as changed now.\<close>

definition stamped :: "int \<Rightarrow> (api_key \<Rightarrow> api_key) \<Rightarrow> bool" where
  "stamped now f \<longleftrightarrow> (\<forall>r. ky_id (f r) = ky_id r \<and> (ky_updated (f r) = now \<or> same_key (f r) r \<and> ky_updated (f r) = ky_updated r))"

lemma same_key_trans: "same_key a b \<Longrightarrow> same_key b c \<Longrightarrow> same_key a c"
  by (simp add: same_key_def)

lemma entry_stamped:
  assumes "entry_ok env t rows e" "t \<le> now" "stamped now f"
  shows "entry_ok env now (set_key i f rows @ new) e"
proof -
  obtain rawKey c u where e: "e = (rawKey, c, u)" by (cases e)
  with assms(1) obtain r where r: "u \<le> t" "kv_bcrypt env rawKey (ky_hash c)" "r \<in> set rows" "ky_id r = ky_id c" "same_key r c \<or> u \<le> ky_updated r"
    by (auto simp: entry_ok_def)
  let ?r = "if ky_id r = i then f r else r"
  have "?r \<in> set (set_key i f rows @ new)" using r(3) by (auto simp: set_key_def)
  moreover have "ky_id ?r = ky_id c" using r(4) assms(3) by (simp add: stamped_def)
  moreover have "same_key ?r c \<or> u \<le> ky_updated ?r"
  proof (cases "ky_id r = i")
    case True
    have "ky_updated (f r) = now \<or> same_key (f r) r \<and> ky_updated (f r) = ky_updated r" using assms(3) unfolding stamped_def by blast
    then show ?thesis using True r(1,5) assms(2) same_key_trans [of "f r" r c] by auto
  next
    case False
    with r(5) show ?thesis by simp
  qed
  moreover have "u \<le> now" using r(1) assms(2) by simp
  ultimately show ?thesis using r(2) unfolding entry_ok_def e by blast
qed

lemma keys_stamped:
  assumes "keys_ok env t w" "t \<le> now" "stamped now f" "kw_rows w' = set_key i f (kw_rows w) @ new" "kw_cache w' = kw_cache w"
    "distinct (map ky_id (kw_rows w @ new))"
  shows "keys_ok env now w'"
proof -
  have "\<And>r. ky_id (f r) = ky_id r" using assms(3) by (simp add: stamped_def)
  then have ids: "map ky_id (set_key i f (kw_rows w)) = map ky_id (kw_rows w)" by simp
  then have "distinct (map ky_id (kw_rows w'))" using assms(6) unfolding assms(4) map_append ids by simp
  moreover have "\<forall>e \<in> set (kw_cache w'). entry_ok env now (kw_rows w') e"
    using assms(1,2,3) entry_stamped unfolding assms(4,5) keys_ok_def by blast
  ultimately show ?thesis by (simp add: keys_ok_def)
qed

lemma set_key_same [simp]: "set_key i (\<lambda>r. r) rows = rows"
  by (simp add: set_key_def)

lemma stamped_id [simp]: "stamped now (\<lambda>r. r)"
  by (simp add: stamped_def same_key_def)

lemma stamped_uses [simp]: "stamped now (\<lambda>r. r\<lparr>ky_uses := ky_uses r + 1\<rparr>)"
  by (simp add: stamped_def same_key_def)

lemma put_field_id [simp]: "ky_id (put_field c r) = ky_id r"
  by (cases c) simp_all

lemma put_fields_id [simp]: "ky_id (fold put_field cs r) = ky_id r"
  by (induction cs arbitrary: r) simp_all

lemma find_key_new: "find_key i rows = None \<Longrightarrow> i \<notin> ky_id ` set rows"
  by (auto simp: find_key_def find_None_iff)

lemma change_key_ok:
  assumes "keys_ok env t w" "t \<le> now" "stamped now f" "change_key i f w = (res, w')"
  shows "keys_ok env now w'"
proof (cases "find_key i (kw_rows w)")
  case None
  then show ?thesis using assms keys_stamped [OF assms(1,2) stamped_id, of w' i "[]"] by (auto simp: change_key_def keys_ok_def)
next
  case (Some r)
  then show ?thesis
    using assms(4) keys_stamped [OF assms(1-3), of w' i "[]"] assms(1) by (auto simp: change_key_def keys_ok_def)
qed

lemma lookup_row:
  assumes "lookupKeyInDb env rawKey rows = Some r"
  shows "r \<in> set rows \<and> kv_bcrypt env rawKey (ky_hash r)"
proof -
  let ?f = "filter (\<lambda>r. ky_prefix r = take 8 rawKey) rows"
  from assms obtain n where n: "n < length ?f" "kv_bcrypt env rawKey (ky_hash (?f ! n))" "r = ?f ! n"
    by (auto simp: lookupKeyInDb_def find_Some_iff)
  from nth_mem [OF n(1)] n show ?thesis by simp
qed

lemma update_entries: "set (AList.update k v xs) \<subseteq> insert (k, v) (set xs)"
  by (induction xs) auto

lemma key_record_ok:
  assumes "keys_ok env t w" "t \<le> now" "key_record env kept now rawKey w = (r, w')"
  shows "keys_ok env now w'"
proof -
  have old: "keys_ok env now w" using keys_stamped [OF assms(1,2) stamped_id, of w "[]" "[]"] assms(1) by (simp add: keys_ok_def)
  show ?thesis
  proof (cases "cache_get kept now rawKey (kw_cache w) \<noteq> None \<or> lookupKeyInDb env rawKey (kw_rows w) = None")
    case True
    then show ?thesis using assms(3) old by (auto simp: key_record_def split: option.splits)
  next
    case False
    then obtain k where k: "cache_get kept now rawKey (kw_cache w) = None" "lookupKeyInDb env rawKey (kw_rows w) = Some k" by auto
    then have w': "w' = w\<lparr>kw_cache := AList.update rawKey (k, now) (kw_cache w)\<rparr>" using assms(3) by (simp add: key_record_def)
    have "entry_ok env now (kw_rows w) (rawKey, k, now)" using lookup_row [OF k(2)] by (auto simp: entry_ok_def same_key_def)
    then show ?thesis using old update_entries [of rawKey "(k, now)" "kw_cache w"] unfolding w' keys_ok_def by auto
  qed
qed

lemma increment_ok:
  assumes "keys_ok env t w" "t \<le> now" "incrementDailyUsage now r w = (ok, w')"
  shows "keys_ok env now w'"
proof -
  have d: "distinct (map ky_id (kw_rows w @ []))" using assms(1) by (simp add: keys_ok_def)
  have "\<exists>f. stamped now f \<and> kw_rows w' = set_key (ky_id r) f (kw_rows w) @ [] \<and> kw_cache w' = kw_cache w"
  proof (cases "effective_limit r < int (used_on (ky_id r) (day_of now) (kw_usage w) + 1)")
    case True
    then show ?thesis using assms(3) by (intro exI [of _ "\<lambda>r. r"]) (auto simp: incrementDailyUsage_def Let_def)
  next
    case False
    then show ?thesis using assms(3)
      by (intro exI [of _ "\<lambda>k. k\<lparr>ky_uses := ky_uses k + 1\<rparr>"] conjI stamped_uses) (auto simp: incrementDailyUsage_def Let_def)
  qed
  then show ?thesis using keys_stamped [OF assms(1,2)] d by metis
qed

lemma authenticator_ok:
  assumes "keys_ok env t w" "t \<le> now" "apiKeyAuthenticator env kept now header ip path w = (res, w')"
  shows "keys_ok env now w'"
proof -
  have same: "keys_ok env now w" using keys_stamped [OF assms(1,2) stamped_id, of w "[]" "[]"] assms(1) by (simp add: keys_ok_def)
  show ?thesis
  proof (cases "case header of None \<Rightarrow> True | Some k \<Rightarrow> k = [] \<or> kv_static env = Some k")
    case True
    then show ?thesis using same assms(3) by (auto simp: apiKeyAuthenticator_def split: option.splits if_splits)
  next
    case False
    then obtain rawKey where k: "header = Some rawKey" "rawKey \<noteq> []" "kv_static env \<noteq> Some rawKey" by (auto split: option.splits)
    obtain r w1 where r: "key_record env kept now rawKey w = (r, w1)" by fastforce
    note ok1 = key_record_ok [OF assms(1,2) r]
    show ?thesis
    proof (cases "\<exists>c. r = Some c \<and> key_refusal now ip path c = None")
      case True
      then obtain c where c: "r = Some c" "key_refusal now ip path c = None" by blast
      obtain b w2 where "incrementDailyUsage now c w1 = (b, w2)" by fastforce
      then show ?thesis using assms(3) k r c increment_ok [OF ok1 order_refl, of c b w2]
        by (cases b) (simp_all add: apiKeyAuthenticator_def)
    next
      case False
      then have "w' = w1" using assms(3) k r by (auto simp: apiKeyAuthenticator_def split: option.splits)
      with ok1 show ?thesis by simp
    qed
  qed
qed

lemma stamped_now: "(\<And>r. ky_id (f r) = ky_id r) \<Longrightarrow> (\<And>r. ky_updated (f r) = now) \<Longrightarrow> stamped now f"
  by (simp add: stamped_def)

lemma key_step_ok:
  assumes "key_step env (t, w) (now, w')" "keys_ok env t w"
  shows "keys_ok env now w'"
  using assms(1)
proof cases
  case (step_request kept header ip path res)
  then show ?thesis using authenticator_ok [OF assms(2)] by blast
next
  case (step_create i admin rawKey hash d res)
  then have d: "distinct (map ky_id (kw_rows w))" "i \<notin> ky_id ` set (kw_rows w)"
    using assms(2) find_key_new by (auto simp: keys_ok_def)
  have "ky_id (new_row now i rawKey hash scopes d) = i" for scopes by (simp add: new_row_def)
  with step_create(3) have "w' = w \<or> (\<exists>r. ky_id r = i \<and> w' = w\<lparr>kw_rows := kw_rows w @ [r]\<rparr>)"
    by (auto simp: createKey_def Let_def split: sum.splits if_splits)
  then have "\<exists>new. kw_rows w' = set_key [] (\<lambda>r. r) (kw_rows w) @ new \<and> kw_cache w' = kw_cache w \<and> distinct (map ky_id (kw_rows w @ new))"
    using d by (auto intro: exI [of _ "[]"])
  then show ?thesis using keys_stamped [OF assms(2) step_create(1) stamped_id] by blast
next
  case (step_update i changes res)
  then show ?thesis
  proof (cases "w' = w")
    case True
    then show ?thesis using keys_stamped [OF assms(2) step_update(1) stamped_id, of w "[]" "[]"] assms(2) by (simp add: keys_ok_def)
  next
    case False
    then have "change_key i (\<lambda>r. (fold put_field changes r)\<lparr>ky_updated := now\<rparr>) w = (res, w')"
      using step_update(2) by (auto simp: updateKey_def split: if_splits)
    then show ?thesis by (rule change_key_ok [OF assms(2) step_update(1) stamped_now, rotated 2]) simp_all
  qed
next
  case (step_delete i res)
  then have "change_key i (\<lambda>r. r\<lparr>ky_revoked := True, ky_updated := now\<rparr>) w = (res, w')" by (simp add: deleteKey_def)
  then show ?thesis by (rule change_key_ok [OF assms(2) step_delete(1) stamped_now, rotated 2]) simp_all
next
  case (step_rotate i graceMinutes old rawKey hash res)
  let ?f = "\<lambda>r. r\<lparr>ky_revoked := True, ky_rotated := Some now, ky_grace := Some (now + max 0 graceMinutes * 60000), ky_updated := now\<rparr>"
  have d: "distinct (map ky_id (kw_rows w))" "i \<notin> ky_id ` set (kw_rows w)"
    using assms(2) step_rotate(2) find_key_new by (auto simp: keys_ok_def)
  show ?thesis
  proof (cases "find_key old (kw_rows w)")
    case None
    then show ?thesis using step_rotate(3) keys_stamped [OF assms(2) step_rotate(1) stamped_id, of w "[]" "[]"] d
      by (simp add: rotateKey_def)
  next
    case (Some r)
    then have "kw_rows w' = set_key old ?f (kw_rows w) @ [rotated_row now i rawKey hash r]" "kw_cache w' = kw_cache w"
      using step_rotate(3) by (auto simp: rotateKey_def Let_def)
    moreover have "distinct (map ky_id (kw_rows w @ [rotated_row now i rawKey hash r]))" using d by (simp add: rotated_row_def)
    moreover have "stamped now ?f" by (rule stamped_now) simp_all
    ultimately show ?thesis using keys_stamped [OF assms(2) step_rotate(1)] by blast
  qed
qed

lemma key_run_ok: "(key_step env)\<^sup>*\<^sup>* tw tw' \<Longrightarrow> keys_ok env (fst tw) (snd tw) \<Longrightarrow> keys_ok env (fst tw') (snd tw')"
proof (induction rule: rtranclp_induct)
  case (step y z)
  then show ?case by (cases y; cases z) (auto intro: key_step_ok)
qed

lemma same_refusal: "same_key r c \<Longrightarrow> key_refusal now ip path r = key_refusal now ip path c \<and> ky_hash r = ky_hash c"
proof -
  assume "same_key r c"
  then have "r = c\<lparr>ky_uses := ky_uses r\<rparr>" by (cases r; cases c) (simp add: same_key_def)
  then obtain n where "r = c\<lparr>ky_uses := n\<rparr>" by blast
  then show ?thesis by (simp add: key_refusal_def)
qed

text \<open>
  C3. However requests and key operations come in, a request is let through for a key only if the key's current row admits it (its hash
  matches, it is not revoked beyond its grace period, verified, not expired, and its address and endpoint lists allow the request), or
  that row was changed within the last 30 seconds.
\<close>

theorem accepted_key_is_current:
  assumes "(key_step env)\<^sup>*\<^sup>* (t0, w0) (t, w)" "distinct (map ky_id (kw_rows w0))" "kw_cache w0 = []" "t \<le> now"
    "apiKeyAuthenticator env kept now header ip path w = (Proceed ctx, w')" "rc_key ctx = Some i"
  shows "\<exists>rawKey r. header = Some rawKey \<and> r \<in> set (kw_rows w) \<and> ky_id r = i \<and>
    (kv_bcrypt env rawKey (ky_hash r) \<and> key_refusal now ip path r = None \<or> now - ky_updated r \<le> KEY_CACHE_TTL_MS)"
proof -
  have ok: "keys_ok env t w" using key_run_ok [OF assms(1)] assms(2,3) by (simp add: keys_ok_def)
  from assms(5,6) obtain rawKey where k: "header = Some rawKey" "rawKey \<noteq> []" "kv_static env \<noteq> Some rawKey"
    by (auto simp: apiKeyAuthenticator_def anonymous_def static_context_def split: option.splits if_splits)
  obtain rec w1 where r: "key_record env kept now rawKey w = (rec, w1)" by fastforce
  with assms(5) k obtain c where c: "rec = Some c" "key_refusal now ip path c = None" "ctx = key_context_of c"
    by (auto simp: apiKeyAuthenticator_def split: option.splits prod.splits bool.splits)
  then have i: "ky_id c = i" using assms(6) by (simp add: key_context_of_def)
  show ?thesis
  proof (cases "cache_get kept now rawKey (kw_cache w)")
    case None
    then have "lookupKeyInDb env rawKey (kw_rows w) = Some c" using r c(1) by (auto simp: key_record_def split: option.splits)
    from lookup_row [OF this] show ?thesis using k(1) i c(2) by blast
  next
    case (Some d)
    then have "cache_get kept now rawKey (kw_cache w) = Some c" using r c(1) by (simp add: key_record_def)
    then obtain u where u: "map_of (kw_cache w) rawKey = Some (c, u)" "now - u \<le> KEY_CACHE_TTL_MS"
      by (auto simp: cache_get_def split: option.splits if_splits)
    from map_of_SomeD [OF u(1)] ok have "entry_ok env t (kw_rows w) (rawKey, c, u)" by (auto simp: keys_ok_def)
    then obtain row where row: "kv_bcrypt env rawKey (ky_hash c)" "row \<in> set (kw_rows w)" "ky_id row = ky_id c"
      "same_key row c \<or> u \<le> ky_updated row" by (auto simp: entry_ok_def)
    then show ?thesis using same_refusal [of row c now ip path] c(2) u(2) i k(1) by fastforce
  qed
qed

definition sample_key :: api_key where
  "sample_key = \<lparr>ky_id = ''i'', ky_name = ''n'', ky_email = None, ky_hash = ''secret-1'', ky_prefix = ''secret-1'', ky_tier = ''free'', ky_rate = None,
     ky_daily = Some 5, ky_ips = None, ky_endpoints = None, ky_expires = None, ky_revoked = False, ky_verified = None, ky_rotated = None,
     ky_grace = None, ky_scopes = [], ky_contracts = None, ky_origins = None, ky_updated = 0, ky_uses = 0\<rparr>"

definition sample_keys :: "api_key list \<Rightarrow> key_world" where "sample_keys rows = \<lparr>kw_rows = rows, kw_cache = [], kw_usage = []\<rparr>"

definition sample_key_env :: key_env where
  "sample_key_env = \<lparr>kv_bcrypt = (=), kv_sha = (\<lambda>s. s), kv_static = None\<rparr>"

theorem accepted_key_is_current_witness:
  "\<exists>r \<in> set [sample_key]. ky_id r = ''i'' \<and> (key_refusal 40000 ''1.2.3.4'' ''/api'' r = None \<or> 40000 - ky_updated r \<le> KEY_CACHE_TTL_MS)"
proof -
  have "fst (apiKeyAuthenticator sample_key_env (\<lambda>_. True) 40000 (Some ''secret-1'') ''1.2.3.4'' ''/api'' (sample_keys [sample_key])) =
      Proceed (key_context_of sample_key)"
    by (simp add: apiKeyAuthenticator_def key_record_def cache_get_def lookupKeyInDb_def sample_keys_def sample_key_env_def sample_key_def
        key_refusal_def incrementDailyUsage_def effective_limit_def used_on_def Let_def)
  then obtain w' where "apiKeyAuthenticator sample_key_env (\<lambda>_. True) 40000 (Some ''secret-1'') ''1.2.3.4'' ''/api'' (sample_keys [sample_key]) =
      (Proceed (key_context_of sample_key), w')" by (metis prod.collapse)
  from accepted_key_is_current [OF rtranclp.rtrancl_refl _ _ _ this, of 0 "''i''"] show ?thesis
    by (auto simp: sample_keys_def key_context_of_def sample_key_def)
qed

text \<open>
  A key without a daily limit, as every creation leaves it that does not give one, is refused on each of its requests, whatever its tier
  and however little it was used.
\<close>

lemma unlimited_key_always_refused:
  assumes "cache_get kept now rawKey (kw_cache w) = None" "lookupKeyInDb env rawKey (kw_rows w) = Some r" "ky_daily r = None"
    "rawKey \<noteq> []" "kv_static env \<noteq> Some rawKey"
  shows "\<exists>code e. fst (apiKeyAuthenticator env kept now (Some rawKey) ip path w) = Refused code e \<and> code \<in> {401, 403, 429}"
proof -
  have "\<not> fst (incrementDailyUsage now r w1)" for w1 using assms(3) by (simp add: incrementDailyUsage_def effective_limit_def Let_def)
  then have inc: "\<exists>w2. incrementDailyUsage now r w1 = (False, w2)" for w1 by (metis (full_types) prod.collapse)
  have "code \<in> {401, 403}" if "key_refusal now ip path r = Some (code, e)" for code e using that by (auto simp: key_refusal_def split: if_splits)
  with assms inc [of "w\<lparr>kw_cache := AList.update rawKey (r, now) (kw_cache w)\<rparr>"] show ?thesis
    by (cases "key_refusal now ip path r") (auto simp: apiKeyAuthenticator_def key_record_def)
qed

lemma unlimited_key_always_refused_witness:
  "\<exists>code e. fst (apiKeyAuthenticator sample_key_env (\<lambda>_. True) 0 (Some ''secret-1'') ''1.2.3.4'' ''/api''
      (sample_keys [sample_key\<lparr>ky_daily := None\<rparr>])) = Refused code e \<and> code \<in> {401, 403, 429}"
  by (rule unlimited_key_always_refused [of _ _ _ _ _ "sample_key\<lparr>ky_daily := None\<rparr>"])
    (simp_all add: sample_keys_def sample_key_def sample_key_env_def cache_get_def lookupKeyInDb_def)

text \<open>Within one day the n-th request of a key is let through only if n is within the limit of the record used.\<close>

lemma daily_limit_holds:
  assumes "incrementDailyUsage now r w = (True, w')"
  shows "used_on (ky_id r) (day_of now) (kw_usage w') = used_on (ky_id r) (day_of now) (kw_usage w) + 1 \<and>
    int (used_on (ky_id r) (day_of now) (kw_usage w')) \<le> effective_limit r"
  using assms by (auto simp: incrementDailyUsage_def Let_def used_on_def update_conv' split: if_splits)

subsection \<open>Rotation and revocation\<close>

lemma find_set_key:
  assumes "find_key i rows = Some r" "\<And>r. ky_id (f r) = ky_id r"
  shows "find_key i (set_key j f rows) = Some (if i = j then f r else r)"
  using assms by (induction rows) (auto simp: find_key_def set_key_def split: if_splits)

lemma find_key_append: "find_key i xs = Some r \<Longrightarrow> find_key i (xs @ ys) = Some r"
  by (induction xs) (auto simp: find_key_def split: if_splits)

text \<open>
  A revoked key can be in use: revoking a key whose rotation is still in its grace period does not stop it, and rotating a revoked key
  makes that key itself valid again until a grace period has passed.
\<close>

lemma revoked_key_revives:
  assumes "find_key i (kw_rows w) = Some r" "key_refusal now ip path (r\<lparr>ky_revoked := False\<rparr>) = None"
  shows "((\<exists>g > now. ky_grace r = Some g) \<longrightarrow>
      (\<exists>r'. find_key i (kw_rows (snd (deleteKey now i w))) = Some r' \<and> ky_revoked r' \<and> key_refusal now ip path r' = None)) \<and>
    (0 < graceMinutes \<longrightarrow>
      (\<exists>r'. find_key i (kw_rows (snd (rotateKey graceMinutes now i n rawKey hash w))) = Some r' \<and> ky_revoked r' \<and> key_refusal now ip path r' = None))"
proof (intro conjI impI)
  assume "\<exists>g > now. ky_grace r = Some g"
  then have "key_refusal now ip path (r\<lparr>ky_revoked := True, ky_updated := now\<rparr>) = None" using assms(2) by (auto simp: key_refusal_def split: if_splits)
  then show "\<exists>r'. find_key i (kw_rows (snd (deleteKey now i w))) = Some r' \<and> ky_revoked r' \<and> key_refusal now ip path r' = None"
    using find_set_key [OF assms(1), of "\<lambda>r. r\<lparr>ky_revoked := True, ky_updated := now\<rparr>" i] by (simp add: deleteKey_def change_key_def assms(1))
next
  assume "0 < graceMinutes"
  let ?f = "\<lambda>r. r\<lparr>ky_revoked := True, ky_rotated := Some now, ky_grace := Some (now + max 0 graceMinutes * 60000), ky_updated := now\<rparr>"
  have "key_refusal now ip path (?f r) = None" using assms(2) \<open>0 < graceMinutes\<close> by (auto simp: key_refusal_def split: if_splits)
  then show "\<exists>r'. find_key i (kw_rows (snd (rotateKey graceMinutes now i n rawKey hash w))) = Some r' \<and> ky_revoked r' \<and> key_refusal now ip path r' = None"
    using find_key_append [OF find_set_key [OF assms(1), of ?f i]] by (simp add: rotateKey_def assms(1) Let_def)
qed

lemma revoked_key_revives_witness:
  "\<exists>r'. find_key ''i'' (kw_rows (snd (rotateKey 60 0 ''i'' ''j'' ''secret-2'' ''h'' (sample_keys [sample_key\<lparr>ky_revoked := True\<rparr>])))) = Some r' \<and>
     ky_revoked r' \<and> key_refusal 0 ''1.2.3.4'' ''/api'' r' = None"
  using revoked_key_revives [of "''i''" "sample_keys [sample_key\<lparr>ky_revoked := True\<rparr>]" "sample_key\<lparr>ky_revoked := True\<rparr>" 0 "''1.2.3.4''" "''/api''" 60
      "''j''" "''secret-2''" "''h''"]
  by (simp add: sample_keys_def sample_key_def find_key_def key_refusal_def)

text \<open>A rotated key is no longer bound to contracts or origins, whatever the old one was; its scopes are the default ones.\<close>

lemma rotation_drops_restrictions:
  assumes "rotateKey graceMinutes now old i rawKey hash w = (Inr r, w')"
  shows "ky_contracts r = None \<and> ky_origins r = None \<and> ky_scopes r = DEFAULT_SCOPES"
  using assms by (auto simp: rotateKey_def Let_def rotated_row_def split: option.splits)

text \<open>A key with the scope to write keys gets from the dashboard a key of any tier, with any scopes but the admin one, bound to no contract.\<close>

lemma dashboard_key_escapes:
  assumes "find_key caller (kw_rows w) = Some owner" "nk_scopes body = None" "nk_contracts body = None" "nk_origins body = None"
    "nk_name body = Some ''x''" "nk_tier body = Some ''enterprise''" "nk_rate body = None"
  shows "\<exists>r. fst (dashboard_create now caller i rawKey hash body w) = Inr r \<and> ky_tier r = ''enterprise'' \<and> ky_contracts r = None"
proof -
  have "trim ''x'' = ''x''" by (simp add: trim_def js_space_def)
  then show ?thesis using assms
    by (simp add: dashboard_create_def createKey_def normaliseScopes_def bad_list_def integer_above_def tier_or_free_def VALID_TIERS_def new_row_def
        nonempty_list_def Let_def)
qed

end
