(* ===== verification/Call_Batches.thy ===== *)
theory Call_Batches
  imports Host_Calls "HOL-Library.Multiset"
begin

section \<open>Batches of contract calls (indexer/src/batch.js)\<close>

text \<open>
  Normalisation of a batch, the conflicts between its calls, its validation, the order proposed for it and its gas. Calls and arguments are
  objects of the request; the simulation of a transaction by the RPC node is a parameter. Shown: a batch is valid exactly when every
  call satisfies the listed conditions, a conflict is reported for a pair exactly when the two calls share a storage key and then for both
  of them with the same type, and the proposed order is a permutation that puts reads first and writes last, each by cost; it does not
  respect the conditions between calls.
\<close>

subsection \<open>Calls\<close>

record call =
  cl_id :: string
  cl_contract :: string
  cl_function :: string
  cl_args :: "native list"
  cl_type :: native
  cl_condition :: native
  cl_loop :: native
  cl_signer :: native
  cl_threshold :: native
  cl_weight :: native

definition or_else :: "native \<Rightarrow> native \<Rightarrow> native" where
  "or_else a b = (if js_truthy a then a else b)"

definition normalize_call :: "nat \<Rightarrow> native \<Rightarrow> call" where
  "normalize_call index c =
     \<lparr>cl_id = js_string (or_else (field c ''id'') (VStr (''call-'' @ dec (index + 1)))),
      cl_contract = js_string (or_else (field c ''contractId'') (VStr [])), cl_function = js_string (or_else (field c ''functionName'') (VStr [])),
      cl_args = (case field c ''args'' of VArr xs \<Rightarrow> xs | _ \<Rightarrow> []), cl_type = or_else (field c ''type'') (VStr ''call''),
      cl_condition = or_else (field c ''condition'') VNull, cl_loop = or_else (field c ''loop'') VNull,
      cl_signer = or_else (field c ''signer'') (VStr []), cl_threshold = or_else (field c ''signerThreshold'') (VNum (Num 1)),
      cl_weight = or_else (field c ''signerWeight'') (VNum (Num 1))\<rparr>"

definition normalizeCalls :: "native \<Rightarrow> call list" where
  "normalizeCalls calls = (case calls of VArr cs \<Rightarrow> map (\<lambda>(i, c). normalize_call i c) (enumerate 0 cs) | _ \<Rightarrow> [])"

subsection \<open>Access and storage keys\<close>

datatype access = Read | Unknown | Write

definition WRITE_PREFIXES :: "string list" where
  "WRITE_PREFIXES =
     [''set'', ''put'', ''update'', ''transfer'', ''mint'', ''burn'', ''approve'', ''deposit'', ''withdraw'', ''stake'', ''unstake'', ''bid'', ''list'',
      ''delist'', ''claim'', ''revoke'', ''grant'', ''pause'', ''unpause'']"

definition READ_PREFIXES :: "string list" where
  "READ_PREFIXES = [''get'', ''read'', ''balance'', ''allowance'', ''owner'', ''name'', ''symbol'', ''decimals'', ''metadata'', ''view'', ''check'']"

definition starts_with_any :: "string list \<Rightarrow> string \<Rightarrow> bool" where
  "starts_with_any ps s \<longleftrightarrow> list_ex (\<lambda>p. take (length p) s = p) ps"

definition inferAccessType :: "call \<Rightarrow> access" where
  "inferAccessType c =
     (let f = lower (cl_function c)
      in if starts_with_any WRITE_PREFIXES f then Write else if starts_with_any READ_PREFIXES f then Read else Unknown)"

record storage_key =
  sk_contract :: string
  sk_key :: string
  sk_access :: access

definition KEY_TYPES :: "string list" where "KEY_TYPES = [''address'', ''bytes'', ''string'', ''symbol'']"

definition lower_field :: "native \<Rightarrow> string \<Rightarrow> string" where
  "lower_field arg k = lower (js_string (or_else (field arg k) (VStr [])))"

definition is_key_arg :: "native \<Rightarrow> bool" where
  "is_key_arg arg \<longleftrightarrow>
     list_ex (contains (lower_field arg ''name'')) [''key'', ''id'', ''address''] \<or> lower_field arg ''type'' \<in> set KEY_TYPES"

definition arg_key :: "native \<Rightarrow> string" where
  "arg_key arg =
     (let t = lower_field arg ''type''
      in t @ '':'' @ (if t \<in> set KEY_TYPES then js_string (field arg ''value'')
                      else js_string (or_else (field arg ''name'') (VStr t)) @ '':'' @ js_string (field arg ''value'')))"

definition extractStorageKeys :: "call \<Rightarrow> storage_key list" where
  "extractStorageKeys c =
     (let key = (\<lambda>k. \<lparr>sk_contract = cl_contract c, sk_key = k, sk_access = inferAccessType c\<rparr>);
          keys = map (\<lambda>a. key (arg_key a)) (filter is_key_arg (cl_args c))
      in if keys = [] then [key (cl_function c)] else keys)"

subsection \<open>Conflicts\<close>

datatype conflict_type = Write_write | Read_write | Read_read

definition conflictTypeFor :: "call \<Rightarrow> call \<Rightarrow> conflict_type" where
  "conflictTypeFor a b =
     (if inferAccessType a = Write \<and> inferAccessType b = Write then Write_write
      else if inferAccessType a = Write \<or> inferAccessType b = Write then Read_write else Read_read)"

record conflict =
  cf_call :: string
  cf_keys :: "storage_key list"
  cf_other :: string
  cf_type :: conflict_type

definition same_slot :: "storage_key \<Rightarrow> storage_key \<Rightarrow> bool" where
  "same_slot a b \<longleftrightarrow> sk_contract a = sk_contract b \<and> sk_key a = sk_key b"

definition commonKeys :: "call \<Rightarrow> call \<Rightarrow> storage_key list" where
  "commonKeys a b = filter (\<lambda>k. list_ex (same_slot k) (extractStorageKeys b)) (extractStorageKeys a)"

definition pair_conflicts :: "call \<Rightarrow> call \<Rightarrow> conflict list" where
  "pair_conflicts a b =
     (let ks = commonKeys a b; t = conflictTypeFor a b
      in if ks = [] then []
         else [\<lparr>cf_call = cl_id a, cf_keys = ks, cf_other = cl_id b, cf_type = t\<rparr>, \<lparr>cf_call = cl_id b, cf_keys = ks, cf_other = cl_id a, cf_type = t\<rparr>])"

fun all_conflicts :: "call list \<Rightarrow> conflict list" where
  "all_conflicts [] = []"
| "all_conflicts (a # cs) = concat (map (pair_conflicts a) cs) @ all_conflicts cs"

definition detectConflicts :: "native \<Rightarrow> conflict list" where
  "detectConflicts calls = all_conflicts (normalizeCalls calls)"

subsection \<open>Order\<close>

record ranked =
  rk_call :: call
  rk_index :: nat
  rk_cost :: rat
  rk_access :: access

text \<open>The comparator, for two entries with different indices: whether the first comes before the second.\<close>

definition goes_before :: "ranked \<Rightarrow> ranked \<Rightarrow> bool" where
  "goes_before a b \<longleftrightarrow>
     (if rk_access a = Read \<and> rk_access b \<noteq> Read then True
      else if rk_access b = Read \<and> rk_access a \<noteq> Read then False
      else if rk_access a = Write \<and> rk_access b \<noteq> Write then False
      else if rk_access b = Write \<and> rk_access a \<noteq> Write then True
      else if rk_cost a \<noteq> rk_cost b then rk_cost a < rk_cost b
      else rk_index a < rk_index b)"

fun insert_ranked :: "ranked \<Rightarrow> ranked list \<Rightarrow> ranked list" where
  "insert_ranked a [] = [a]"
| "insert_ranked a (b # xs) = (if goes_before b a then b # insert_ranked a xs else a # b # xs)"

definition sort_ranked :: "ranked list \<Rightarrow> ranked list" where
  "sort_ranked xs = foldr insert_ranked xs []"

definition rank_calls :: "(string \<times> rat) list \<Rightarrow> call list \<Rightarrow> ranked list" where
  "rank_calls costs calls =
     map (\<lambda>(i, c). \<lparr>rk_call = c, rk_index = i, rk_cost = (case map_of (rev costs) (cl_id c) of Some x \<Rightarrow> x | None \<Rightarrow> 0),
                    rk_access = inferAccessType c\<rparr>) (enumerate 0 calls)"

definition optimizeBatchOrder :: "(string \<times> rat) list \<Rightarrow> native \<Rightarrow> string list" where
  "optimizeBatchOrder costs calls = map (cl_id \<circ> rk_call) (sort_ranked (rank_calls costs (normalizeCalls calls)))"

subsection \<open>Validation\<close>

definition arg_errors :: "nat \<times> native \<Rightarrow> string list" where
  "arg_errors ia =
     (case ia of (i, arg) \<Rightarrow>
        (if js_truthy (field arg ''name'') then [] else [''Argument '' @ dec i @ '' is missing a name'']) @
        (if nullish (field arg ''value'') \<or> field arg ''value'' = VStr []
         then [''Argument '' @ js_string (or_else (field arg ''name'') (VStr (dec i))) @ '' is missing a value''] else []))"

fun finite_at_least_one :: "native \<Rightarrow> bool" where
  "finite_at_least_one (VNum (Num x)) = (1 \<le> x)"
| "finite_at_least_one _ = False"

definition call_errors :: "string list \<Rightarrow> string list \<Rightarrow> call \<Rightarrow> string list" where
  "call_errors known seen c =
     (if cl_id c \<in> set seen then [''Duplicate call id''] else []) @
     (if cl_contract c = [] then [''Missing contract ID''] else []) @
     (if cl_function c = [] then [''Missing function name''] else []) @
     concat (map arg_errors (enumerate 0 (cl_args c))) @
     (if js_truthy (cl_condition c) \<and> field (cl_condition c) ''sourceCallId'' \<notin> set (map VStr known)
      then [''Condition references unknown call '' @ js_string (field (cl_condition c) ''sourceCallId'')] else []) @
     (if js_truthy (cl_loop c) \<and> \<not> finite_at_least_one (field (cl_loop c) ''iterations'')
      then [''Loop iterations must be greater than zero''] else []) @
     (if num_less (js_number (cl_weight c)) (js_number (cl_threshold c)) then [''Signer threshold exceeds signer weight''] else [])"

fun batch_errors :: "string list \<Rightarrow> string list \<Rightarrow> call list \<Rightarrow> (string \<times> string) list" where
  "batch_errors known seen [] = []"
| "batch_errors known seen (c # cs) = map (\<lambda>e. (cl_id c, e)) (call_errors known seen c) @ batch_errors known (cl_id c # seen) cs"

record validation =
  vd_valid :: bool
  vd_errors :: "(string \<times> string) list"
  vd_conflicts :: "conflict list"

definition validateBatch :: "native \<Rightarrow> validation" where
  "validateBatch calls =
     (let cs = normalizeCalls calls; errors = batch_errors (map cl_id cs) [] cs
      in \<lparr>vd_valid = (errors = []), vd_errors = errors, vd_conflicts = all_conflicts cs\<rparr>)"

subsection \<open>Gas\<close>

record estimate =
  es_id :: string
  es_error :: "string option"
  es_cpu :: rat
  es_mem :: rat
  es_fee :: rat

text \<open>The simulation of the transaction of some calls: its error, or CPU, memory and fee.\<close>

type_synonym simulation = "call list \<Rightarrow> string + rat \<times> rat \<times> rat"

definition estimateGas :: "simulation \<Rightarrow> native \<Rightarrow> estimate list" where
  "estimateGas sim calls =
     map (\<lambda>c. case sim [c] of
                Inl e \<Rightarrow> \<lparr>es_id = cl_id c, es_error = Some e, es_cpu = 0, es_mem = 0, es_fee = 0\<rparr>
              | Inr (cpu, mem, fee) \<Rightarrow> \<lparr>es_id = cl_id c, es_error = None, es_cpu = cpu, es_mem = mem, es_fee = fee\<rparr>) (normalizeCalls calls)"

definition summarizeGas :: "estimate list \<Rightarrow> rat \<times> rat \<times> rat" where
  "summarizeGas es = fold (\<lambda>e (cpu, mem, fee). (cpu + es_cpu e, mem + es_mem e, fee + es_fee e)) es (0, 0, 0)"

definition buildStateDiffPreview :: "call list \<Rightarrow> (string \<times> (string \<times> bool) list) list" where
  "buildStateDiffPreview cs = map (\<lambda>c. (cl_id c, map (\<lambda>k. (sk_key k, sk_access k = Write)) (extractStorageKeys c))) cs"

record call_result =
  cr_id :: string
  cr_error :: "string option"
  cr_cpu :: rat
  cr_mem :: rat

record batch_result =
  br_success :: bool
  br_results :: "call_result list"
  br_total :: "rat \<times> rat \<times> rat"
  br_diffs :: "(string \<times> (string \<times> bool) list) list"
  br_conflicts :: "conflict list"

definition simulateBatch :: "simulation \<Rightarrow> native \<Rightarrow> batch_result" where
  "simulateBatch sim calls =
     (let cs = normalizeCalls calls
      in if cs = [] then \<lparr>br_success = True, br_results = [], br_total = (0, 0, 0), br_diffs = [], br_conflicts = []\<rparr>
         else case sim cs of
                Inl e \<Rightarrow> \<lparr>br_success = False, br_results = map (\<lambda>c. \<lparr>cr_id = cl_id c, cr_error = Some e, cr_cpu = 0, cr_mem = 0\<rparr>) cs,
                          br_total = (0, 0, 0), br_diffs = [], br_conflicts = all_conflicts cs\<rparr>
              | Inr (cpu, mem, fee) \<Rightarrow>
                  \<lparr>br_success = True, br_results = map (\<lambda>c. \<lparr>cr_id = cl_id c, cr_error = None, cr_cpu = cpu, cr_mem = mem\<rparr>) cs,
                   br_total = (cpu, mem, fee), br_diffs = buildStateDiffPreview cs, br_conflicts = all_conflicts cs\<rparr>)"

subsection \<open>Valid batches\<close>

definition call_ok :: "string list \<Rightarrow> call \<Rightarrow> bool" where
  "call_ok known c \<longleftrightarrow> cl_contract c \<noteq> [] \<and> cl_function c \<noteq> [] \<and>
     (\<forall>arg \<in> set (cl_args c). js_truthy (field arg ''name'') \<and> \<not> nullish (field arg ''value'') \<and> field arg ''value'' \<noteq> VStr []) \<and>
     (js_truthy (cl_condition c) \<longrightarrow> (\<exists>i \<in> set known. field (cl_condition c) ''sourceCallId'' = VStr i)) \<and>
     (js_truthy (cl_loop c) \<longrightarrow> finite_at_least_one (field (cl_loop c) ''iterations'')) \<and>
     \<not> num_less (js_number (cl_weight c)) (js_number (cl_threshold c))"

lemma arg_errors_empty:
  "concat (map arg_errors (enumerate n args)) = [] \<longleftrightarrow>
     (\<forall>arg \<in> set args. js_truthy (field arg ''name'') \<and> \<not> nullish (field arg ''value'') \<and> field arg ''value'' \<noteq> VStr [])"
proof (induction args arbitrary: n)
  case (Cons a args)
  have "arg_errors (n, a) = [] \<longleftrightarrow> js_truthy (field a ''name'') \<and> \<not> nullish (field a ''value'') \<and> field a ''value'' \<noteq> VStr []"
    by (simp add: arg_errors_def)
  then show ?case using Cons.IH [of "Suc n"] by (simp only: enumerate_simps list.map concat.simps append_is_Nil_conv) auto
qed simp

lemma call_errors_empty: "call_errors known seen c = [] \<longleftrightarrow> cl_id c \<notin> set seen \<and> call_ok known c"
  unfolding call_errors_def call_ok_def append_is_Nil_conv arg_errors_empty by auto

lemma batch_errors_empty:
  "batch_errors known seen cs = [] \<longleftrightarrow> (\<forall>c \<in> set cs. call_ok known c) \<and> distinct (map cl_id cs) \<and> cl_id ` set cs \<inter> set seen = {}"
  by (induction known seen cs rule: batch_errors.induct) (auto simp: call_errors_empty)

text \<open>
  A batch is valid exactly when the ids of its calls differ and each call names its contract and function, its arguments have names and
  values, its condition refers to a call of the batch, its loop runs at least once and its signers carry enough weight.
\<close>

lemma batch_valid_iff:
  "vd_valid (validateBatch calls) \<longleftrightarrow>
     (let cs = normalizeCalls calls in distinct (map cl_id cs) \<and> (\<forall>c \<in> set cs. call_ok (map cl_id cs) c))"
  by (auto simp: validateBatch_def Let_def batch_errors_empty)

subsection \<open>Conflicting calls\<close>

lemma all_conflicts_mem:
  "cf \<in> set (all_conflicts cs) \<longleftrightarrow> (\<exists>j < length cs. \<exists>i < j. cf \<in> set (pair_conflicts (cs ! i) (cs ! j)))"
proof (induction cs)
  case (Cons a cs)
  have "(\<exists>j < length (a # cs). \<exists>i < j. cf \<in> set (pair_conflicts ((a # cs) ! i) ((a # cs) ! j))) \<longleftrightarrow>
      (\<exists>j < length cs. cf \<in> set (pair_conflicts a (cs ! j))) \<or> (\<exists>j < length cs. \<exists>i < j. cf \<in> set (pair_conflicts (cs ! i) (cs ! j)))"
    by (auto simp: Ex_less_Suc2)
  moreover have "(\<exists>j < length cs. cf \<in> set (pair_conflicts a (cs ! j))) \<longleftrightarrow> (\<exists>b \<in> set cs. cf \<in> set (pair_conflicts a b))"
    by (metis in_set_conv_nth)
  ultimately show ?case using Cons.IH by auto
qed simp

lemma common_keys: "commonKeys a b \<noteq> [] \<longleftrightarrow> (\<exists>k \<in> set (extractStorageKeys a). \<exists>l \<in> set (extractStorageKeys b). same_slot k l)"
  by (auto simp: commonKeys_def filter_empty_conv list_ex_iff)

lemma pair_conflict_keys: "cf \<in> set (pair_conflicts x y) \<Longrightarrow> commonKeys x y \<noteq> []"
  by (cases "commonKeys x y") (simp_all add: pair_conflicts_def Let_def)

lemma pair_conflict_ends:
  "cf \<in> set (pair_conflicts x y) \<Longrightarrow> cf_call cf = cl_id x \<and> cf_other cf = cl_id y \<or> cf_call cf = cl_id y \<and> cf_other cf = cl_id x"
  by (cases "commonKeys x y") (auto simp: pair_conflicts_def Let_def)

lemma conflict_type_sym: "conflictTypeFor a b = conflictTypeFor b a"
  by (auto simp: conflictTypeFor_def)

lemma shared_slot_sym:
  "(\<exists>k \<in> set (extractStorageKeys x). \<exists>l \<in> set (extractStorageKeys y). same_slot k l) \<longleftrightarrow>
   (\<exists>k \<in> set (extractStorageKeys y). \<exists>l \<in> set (extractStorageKeys x). same_slot k l)"
  unfolding same_slot_def by metis

lemma call_by_id:
  "distinct (map cl_id cs) \<Longrightarrow> x \<in> set cs \<Longrightarrow> y \<in> set cs \<Longrightarrow> cl_id x = cl_id y \<Longrightarrow> x = y"
  by (auto simp: distinct_map dest: inj_onD)

lemma reported_pair:
  assumes "distinct (map cl_id cs)" "a \<in> set cs" "b \<in> set cs" "cf \<in> set (all_conflicts cs)" "cf_call cf = cl_id a" "cf_other cf = cl_id b"
  shows "commonKeys a b \<noteq> [] \<or> commonKeys b a \<noteq> []"
proof -
  obtain i j where cf: "j < length cs" "i < j" "cf \<in> set (pair_conflicts (cs ! i) (cs ! j))"
    using assms(4) by (auto simp: all_conflicts_mem)
  have m: "cs ! i \<in> set cs" "cs ! j \<in> set cs" using cf(1,2) by simp_all
  note by_id = call_by_id [OF assms(1)]
  have "a = cs ! i \<and> b = cs ! j \<or> a = cs ! j \<and> b = cs ! i"
    using pair_conflict_ends [OF cf(3)]
  proof
    assume e: "cf_call cf = cl_id (cs ! i) \<and> cf_other cf = cl_id (cs ! j)"
    then show ?thesis using by_id [OF assms(2) m(1)] by_id [OF assms(3) m(2)] assms(5,6) by simp
  next
    assume e: "cf_call cf = cl_id (cs ! j) \<and> cf_other cf = cl_id (cs ! i)"
    then show ?thesis using by_id [OF assms(2) m(2)] by_id [OF assms(3) m(1)] assms(5,6) by simp
  qed
  then show ?thesis using pair_conflict_keys [OF cf(3)] by auto
qed

lemma pair_reported:
  assumes "i < j" "j < length cs" "commonKeys (cs ! i) (cs ! j) \<noteq> []" "{a, b} = {cs ! i, cs ! j}"
  shows "\<exists>cf \<in> set (all_conflicts cs). cf_call cf = cl_id a \<and> cf_other cf = cl_id b \<and> cf_type cf = conflictTypeFor a b"
proof -
  have "\<exists>cf \<in> set (pair_conflicts (cs ! i) (cs ! j)). cf_call cf = cl_id a \<and> cf_other cf = cl_id b \<and> cf_type cf = conflictTypeFor a b"
    using assms(3,4) conflict_type_sym [of "cs ! i" "cs ! j"] by (auto simp: pair_conflicts_def Let_def doubleton_eq_iff)
  then show ?thesis using assms(1,2) unfolding Bex_def all_conflicts_mem by blast
qed

text \<open>
  In a batch whose ids differ, a conflict of a call with another is reported exactly when the two touch one storage slot, for both of
  them alike and with the type their accesses give.
\<close>

lemma conflicts_exact:
  assumes "distinct (map cl_id (normalizeCalls calls))" "a \<in> set (normalizeCalls calls)" "b \<in> set (normalizeCalls calls)" "a \<noteq> b"
  shows "(\<exists>cf \<in> set (detectConflicts calls). cf_call cf = cl_id a \<and> cf_other cf = cl_id b \<and> cf_type cf = conflictTypeFor a b) \<longleftrightarrow>
    (\<exists>k \<in> set (extractStorageKeys a). \<exists>l \<in> set (extractStorageKeys b). same_slot k l)"
proof
  assume "\<exists>cf \<in> set (detectConflicts calls). cf_call cf = cl_id a \<and> cf_other cf = cl_id b \<and> cf_type cf = conflictTypeFor a b"
  then have "commonKeys a b \<noteq> [] \<or> commonKeys b a \<noteq> []"
    using reported_pair [OF assms(1,2,3)] unfolding detectConflicts_def by blast
  then show "\<exists>k \<in> set (extractStorageKeys a). \<exists>l \<in> set (extractStorageKeys b). same_slot k l"
    unfolding common_keys shared_slot_sym [of b a] by simp
next
  assume "\<exists>k \<in> set (extractStorageKeys a). \<exists>l \<in> set (extractStorageKeys b). same_slot k l"
  then have s: "commonKeys a b \<noteq> []" "commonKeys b a \<noteq> []" unfolding common_keys shared_slot_sym [of b a] by simp_all
  obtain i j where ij: "i < length (normalizeCalls calls)" "j < length (normalizeCalls calls)" "a = normalizeCalls calls ! i" "b = normalizeCalls calls ! j"
    using assms(2,3) by (auto simp: in_set_conv_nth)
  then consider "i < j" | "j < i" using assms(4) by (metis linorder_less_linear)
  then show "\<exists>cf \<in> set (detectConflicts calls). cf_call cf = cl_id a \<and> cf_other cf = cl_id b \<and> cf_type cf = conflictTypeFor a b"
    unfolding detectConflicts_def
  proof cases
    case 1
    then show "\<exists>cf \<in> set (all_conflicts (normalizeCalls calls)). cf_call cf = cl_id a \<and> cf_other cf = cl_id b \<and> cf_type cf = conflictTypeFor a b"
      using pair_reported [of i j] s ij by simp
  next
    case 2
    then show "\<exists>cf \<in> set (all_conflicts (normalizeCalls calls)). cf_call cf = cl_id a \<and> cf_other cf = cl_id b \<and> cf_type cf = conflictTypeFor a b"
      using pair_reported [of j i] s ij by (simp add: insert_commute)
  qed
qed

definition sample_call :: "string \<Rightarrow> string \<Rightarrow> (string \<times> native) list \<Rightarrow> native" where
  "sample_call i f extra = VObj ([(''id'', VStr i), (''contractId'', VStr ''C''), (''functionName'', VStr f)] @ extra)"

lemma conflicts_exact_witness:
  "\<exists>cf \<in> set (detectConflicts (VArr [sample_call ''a'' ''mint'' [], sample_call ''b'' ''mint'' []])). cf_call cf = ''a'' \<and> cf_other cf = ''b''"
proof -
  let ?calls = "VArr [sample_call ''a'' ''mint'' [], sample_call ''b'' ''mint'' []]"
  let ?a = "normalize_call 0 (sample_call ''a'' ''mint'' [])" and ?b = "normalize_call 1 (sample_call ''b'' ''mint'' [])"
  have cs: "normalizeCalls ?calls = [?a, ?b]" by (simp add: normalizeCalls_def)
  have simps: "cl_id ?a = ''a''" "cl_id ?b = ''b''" "cl_args ?a = []" "cl_args ?b = []" "cl_contract ?a = ''C''" "cl_contract ?b = ''C''"
    "cl_function ?a = ''mint''" "cl_function ?b = ''mint''"
    by (simp_all add: normalize_call_def sample_call_def or_else_def)
  then have "\<exists>k \<in> set (extractStorageKeys ?a). \<exists>l \<in> set (extractStorageKeys ?b). same_slot k l"
    by (simp add: extractStorageKeys_def same_slot_def)
  moreover have "?a \<noteq> ?b"
  proof
    assume e: "?a = ?b"
    have "cl_id ?a = cl_id ?b" by (subst e) (rule refl)
    then show False unfolding simps by simp
  qed
  ultimately show ?thesis using conflicts_exact [of ?calls ?a ?b] simps by (auto simp: cs)
qed

subsection \<open>The proposed order\<close>

fun access_rank :: "access \<Rightarrow> nat" where
  "access_rank Read = 0"
| "access_rank Unknown = 1"
| "access_rank Write = 2"

lemma goes_before_key:
  "goes_before a b \<longleftrightarrow> access_rank (rk_access a) < access_rank (rk_access b) \<or>
     access_rank (rk_access a) = access_rank (rk_access b) \<and> (rk_cost a < rk_cost b \<or> rk_cost a = rk_cost b \<and> rk_index a < rk_index b)"
  by (cases "rk_access a"; cases "rk_access b") (auto simp: goes_before_def)

lemma not_before_trans: "\<not> goes_before b a \<Longrightarrow> \<not> goes_before c b \<Longrightarrow> \<not> goes_before c a"
  by (auto simp: goes_before_key)

lemma before_not_before: "goes_before a b \<Longrightarrow> \<not> goes_before b a"
  by (auto simp: goes_before_key)

lemma insert_ranked_mset [simp]: "mset (insert_ranked a xs) = add_mset a (mset xs)"
  by (induction a xs rule: insert_ranked.induct) auto

lemma insert_ranked_set [simp]: "set (insert_ranked a xs) = insert a (set xs)"
  by (metis insert_ranked_mset set_mset_add_mset_insert set_mset_mset)

lemma insert_ranked_sorted:
  "sorted_wrt (\<lambda>x y. \<not> goes_before y x) xs \<Longrightarrow> sorted_wrt (\<lambda>x y. \<not> goes_before y x) (insert_ranked a xs)"
proof (induction a xs rule: insert_ranked.induct)
  case (2 a b xs)
  show ?case
  proof (cases "goes_before b a")
    case True
    with 2 before_not_before show ?thesis by auto
  next
    case False
    have "\<not> goes_before y a" if "y \<in> set xs" for y using not_before_trans [OF False, of y] 2(2) that by simp
    with False 2(2) show ?thesis by auto
  qed
qed simp

lemma sort_ranked_spec: "mset (sort_ranked xs) = mset xs \<and> sorted_wrt (\<lambda>x y. \<not> goes_before y x) (sort_ranked xs)"
  unfolding sort_ranked_def by (induction xs) (auto simp: insert_ranked_sorted)

lemma rank_calls_ids: "map (cl_id \<circ> rk_call) (rank_calls costs calls) = map cl_id calls"
proof -
  have "map (cl_id \<circ> rk_call) (rank_calls costs calls) = map (cl_id \<circ> snd) (enumerate 0 calls)" by (auto simp: rank_calls_def)
  also have "\<dots> = map cl_id (map snd (enumerate 0 calls))" by (simp only: map_map)
  also have "map snd (enumerate 0 calls) = calls" by simp
  finally show ?thesis .
qed

text \<open>
  The proposed order names every call of the batch once; reads come before calls of unknown access and those before writes, within one
  kind the cheaper call first, and calls of one cost as they were given.
\<close>

lemma batch_order_sorted:
  "mset (optimizeBatchOrder costs calls) = mset (map cl_id (normalizeCalls calls)) \<and>
   (\<exists>es. optimizeBatchOrder costs calls = map (cl_id \<circ> rk_call) es \<and> mset es = mset (rank_calls costs (normalizeCalls calls)) \<and>
      sorted_wrt (\<lambda>a b. access_rank (rk_access a) < access_rank (rk_access b) \<or>
        access_rank (rk_access a) = access_rank (rk_access b) \<and> (rk_cost a < rk_cost b \<or> rk_cost a = rk_cost b \<and> rk_index a \<le> rk_index b)) es)"
proof -
  let ?es = "sort_ranked (rank_calls costs (normalizeCalls calls))"
  have spec: "mset ?es = mset (rank_calls costs (normalizeCalls calls))" "sorted_wrt (\<lambda>x y. \<not> goes_before y x) ?es"
    using sort_ranked_spec by blast+
  have "mset (optimizeBatchOrder costs calls) = mset (map (cl_id \<circ> rk_call) (rank_calls costs (normalizeCalls calls)))"
    using spec(1) by (simp add: optimizeBatchOrder_def)
  moreover have "sorted_wrt (\<lambda>a b. access_rank (rk_access a) < access_rank (rk_access b) \<or>
        access_rank (rk_access a) = access_rank (rk_access b) \<and> (rk_cost a < rk_cost b \<or> rk_cost a = rk_cost b \<and> rk_index a \<le> rk_index b)) ?es"
    using spec(2) by (rule sorted_wrt_mono_rel [rotated]) (auto simp: goes_before_key)
  ultimately show ?thesis using spec(1) unfolding rank_calls_ids by (auto simp: optimizeBatchOrder_def)
qed

text \<open>A read that is to run on the outcome of a write is put before it.\<close>

lemma order_ignores_conditions:
  "optimizeBatchOrder [] (VArr [sample_call ''a'' ''mint'' [], sample_call ''b'' ''balance'' [(''condition'', VObj [(''sourceCallId'', VStr ''a'')])]]) = [''b'', ''a'']"
proof -
  let ?a = "normalize_call 0 (sample_call ''a'' ''mint'' [])"
    and ?b = "normalize_call 1 (sample_call ''b'' ''balance'' [(''condition'', VObj [(''sourceCallId'', VStr ''a'')])])"
  have simps: "cl_id ?a = ''a''" "cl_id ?b = ''b''" "cl_function ?a = ''mint''" "cl_function ?b = ''balance''"
    by (simp_all add: normalize_call_def sample_call_def or_else_def)
  moreover have "lower ''mint'' = ''mint''" "lower ''balance'' = ''balance''" by (simp_all add: lower_def lower_char_def)
  ultimately have "inferAccessType ?a = Write" "inferAccessType ?b = Read"
    by (simp_all add: inferAccessType_def starts_with_any_def WRITE_PREFIXES_def READ_PREFIXES_def)
  then show ?thesis using simps
    by (simp add: optimizeBatchOrder_def normalizeCalls_def rank_calls_def sort_ranked_def goes_before_def)
qed

end
