(* ===== verification/Csrf_Guard.thy ===== *)
theory Csrf_Guard
  imports Js_Prelude
begin

section \<open>The CSRF check (indexer/src/csrf.js)\<close>

text \<open>
  The double-submit cookie: reading the cookie header, issuing a token and checking it. The request is what the check reads of it; a thrown
  \<open>URIError\<close> is \<open>None\<close>. Shown: a request passes exactly in the cases listed, so that a state-changing request a foreign page can
  make a browser send is always refused; a token that was issued passes when it is sent back; and one cookie with a
  malformed escape makes the check throw, whatever the token.
\<close>

subsection \<open>Cookies\<close>

definition hex_digit :: "char \<Rightarrow> nat option" where
  "hex_digit c =
     (if is_digit c then Some (digit_val c)
      else let n = of_char (lower_char c) :: nat in if 97 \<le> n \<and> n \<le> 102 then Some (n - 87) else None)"

text \<open>\<open>decodeURIComponent\<close> on escapes of ASCII characters; \<open>None\<close> is its \<open>URIError\<close>.\<close>

fun decodeURIComponent :: "string \<Rightarrow> string option" where
  "decodeURIComponent [] = Some []"
| "decodeURIComponent (c # s) =
     (if c \<noteq> CHR ''%'' then map_option (Cons c) (decodeURIComponent s)
      else case s of
             h # l # r \<Rightarrow>
               (case (hex_digit h, hex_digit l) of
                  (Some a, Some b) \<Rightarrow> if a < 8 then map_option (Cons (char_of (16 * a + b))) (decodeURIComponent r) else None
                | _ \<Rightarrow> None)
           | _ \<Rightarrow> None)"

text \<open>One part of the header: its name and undecoded value, \<open>None\<close> when it is skipped.\<close>

definition cookie_pair :: "string \<Rightarrow> (string \<times> string) option" where
  "cookie_pair p =
     (if CHR ''='' \<notin> set p then None
      else let k = trim (takeWhile (\<lambda>c. c \<noteq> CHR ''='') p); v = trim (tl (dropWhile (\<lambda>c. c \<noteq> CHR ''='') p))
           in if k = [] then None else Some (k, v))"

fun decode_pairs :: "(string \<times> string) list \<Rightarrow> (string \<times> string) list option" where
  "decode_pairs [] = Some []"
| "decode_pairs ((k, v) # ps) = (case (decodeURIComponent v, decode_pairs ps) of (Some w, Some ws) \<Rightarrow> Some ((k, w) # ws) | _ \<Rightarrow> None)"

text \<open>\<open>parseCookies\<close>: the pairs in the order of the header; a later pair overwrites an earlier one of its name.\<close>

definition parseCookies :: "string option \<Rightarrow> (string \<times> string) list option" where
  "parseCookies header = (case header of None \<Rightarrow> Some [] | Some h \<Rightarrow> decode_pairs (List.map_filter cookie_pair (split_on CHR '';'' h)))"

definition cookie_value :: "string \<Rightarrow> (string \<times> string) list \<Rightarrow> string option" where
  "cookie_value name cookies = map_of (rev cookies) name"

subsection \<open>Issuing and checking\<close>

definition COOKIE_NAME :: string where "COOKIE_NAME = ''csrf-token''"

definition TOKEN_BYTES :: nat where "TOKEN_BYTES = 32"

record csrf_request =
  cq_method :: string
  cq_path :: string
  cq_api_key :: "string option"
  cq_upgrade :: "string option"
  cq_cookie :: "string option"
  cq_token :: "string option"

text \<open>\<open>getCookie\<close>; no middleware of the program sets \<open>req.cookies\<close>.\<close>

definition csrf_cookie :: "csrf_request \<Rightarrow> string option option" where
  "csrf_cookie q = map_option (cookie_value COOKIE_NAME) (parseCookies (cq_cookie q))"

text \<open>\<open>csrfTokenHandler\<close>: the token set as a cookie and returned; \<open>random\<close> is the hex text of fresh random bytes.\<close>

definition csrfTokenHandler :: "string \<Rightarrow> csrf_request \<Rightarrow> string option" where
  "csrfTokenHandler random q =
     (case csrf_cookie q of
        None \<Rightarrow> None
      | Some existing \<Rightarrow> Some (case existing of Some t \<Rightarrow> if length t = TOKEN_BYTES * 2 then t else random | None \<Rightarrow> random))"

datatype csrf_outcome = Csrf_next | Csrf_missing | Csrf_mismatch | Csrf_throws

definition starts :: "string \<Rightarrow> string \<Rightarrow> bool" where
  "starts p s \<longleftrightarrow> take (length p) s = p"

definition nonempty :: "string option \<Rightarrow> bool" where
  "nonempty h \<longleftrightarrow> h \<noteq> None \<and> h \<noteq> Some []"

definition verifyCsrf :: "csrf_request \<Rightarrow> csrf_outcome" where
  "verifyCsrf q =
     (if upper (cq_method q) \<in> {''GET'', ''HEAD'', ''OPTIONS''} then Csrf_next
      else if nonempty (cq_api_key q) then Csrf_next
      else if starts ''/api/admin/'' (cq_path q) then Csrf_next
      else if map_option lower (cq_upgrade q) = Some ''websocket'' then Csrf_next
      else case csrf_cookie q of
             None \<Rightarrow> Csrf_throws
           | Some cookie \<Rightarrow>
               if \<not> nonempty cookie \<or> \<not> nonempty (cq_token q) then Csrf_missing
               else if cookie \<noteq> cq_token q then Csrf_mismatch
               else Csrf_next)"

subsection \<open>Properties\<close>

text \<open>The requests a page of another origin can make a browser send without a preflight: no header of its own choosing.\<close>

definition cross_site :: "csrf_request \<Rightarrow> bool" where
  "cross_site q \<longleftrightarrow> cq_api_key q = None \<and> cq_upgrade q = None \<and> cq_token q = None"

text \<open>
  A state-changing request outside the administration that a foreign page can make a browser send is refused, whatever cookies the
  browser adds to it.
\<close>

lemma forged_request_refused:
  assumes "cross_site q" "upper (cq_method q) \<notin> {''GET'', ''HEAD'', ''OPTIONS''}" "\<not> starts ''/api/admin/'' (cq_path q)"
  shows "verifyCsrf q \<in> {Csrf_missing, Csrf_throws}"
  using assms by (auto simp: verifyCsrf_def cross_site_def nonempty_def split: option.splits)

definition sample_request :: csrf_request where
  "sample_request = \<lparr>cq_method = ''POST'', cq_path = ''/api/auth/logout'', cq_api_key = None, cq_upgrade = None,
                     cq_cookie = Some ''sid=abc; csrf-token=xyz'', cq_token = None\<rparr>"

lemma forged_request_refused_witness: "verifyCsrf sample_request \<in> {Csrf_missing, Csrf_throws}"
  by (rule forged_request_refused)
    (simp_all add: sample_request_def cross_site_def starts_def upper_def upper_char_def)

lemma decode_plain: "CHR ''%'' \<notin> set s \<Longrightarrow> decodeURIComponent s = Some s"
  by (induction s) auto

lemma trim_plain: "\<forall>c \<in> set s. \<not> js_space c \<Longrightarrow> trim s = s"
proof -
  have drop: "dropWhile js_space t = t" if "\<forall>c \<in> set t. \<not> js_space c" for t using that by (cases t) auto
  assume "\<forall>c \<in> set s. \<not> js_space c"
  then show ?thesis by (simp add: trim_def drop)
qed

lemma cookie_pair_token:
  assumes "\<forall>c \<in> set t. \<not> js_space c"
  shows "cookie_pair (COOKIE_NAME @ CHR ''='' # t) = Some (COOKIE_NAME, t)"
proof -
  have free: "\<forall>c \<in> set COOKIE_NAME. c \<noteq> CHR ''=''" "\<forall>c \<in> set COOKIE_NAME. \<not> js_space c" by (simp_all add: COOKIE_NAME_def js_space_def)
  have "takeWhile (\<lambda>c. c \<noteq> CHR ''='') (COOKIE_NAME @ CHR ''='' # t) = COOKIE_NAME"
    "dropWhile (\<lambda>c. c \<noteq> CHR ''='') (COOKIE_NAME @ CHR ''='' # t) = CHR ''='' # t"
    using free(1) by (simp_all add: takeWhile_append dropWhile_append)
  then show ?thesis using trim_plain [OF free(2)] trim_plain [OF assms] by (simp add: cookie_pair_def COOKIE_NAME_def)
qed

definition token_char :: "char \<Rightarrow> bool" where
  "token_char c \<longleftrightarrow> c \<noteq> CHR ''%'' \<and> c \<noteq> CHR '';'' \<and> \<not> js_space c"

text \<open>
  The pair a browser gets for a token of the alphabet of tokens passes when both are sent back, and fetching the token again with that
  cookie gives the same token.
\<close>

lemma issued_token_passes:
  assumes "list_all token_char t" "length t = TOKEN_BYTES * 2"
    "cq_cookie q = Some (COOKIE_NAME @ CHR ''='' # t)" "cq_token q = Some t"
  shows "verifyCsrf q = Csrf_next \<and> csrfTokenHandler random q = Some t"
proof -
  have "CHR '';'' \<notin> set (COOKIE_NAME @ CHR ''='' # t)" "CHR ''%'' \<notin> set t" "\<forall>c \<in> set t. \<not> js_space c"
    using assms(1) by (auto simp: COOKIE_NAME_def token_char_def list_all_iff)
  then have "parseCookies (cq_cookie q) = Some [(COOKIE_NAME, t)]"
    using assms(3) cookie_pair_token [of t]
    by (simp add: parseCookies_def split_on_free decode_plain List.map_filter_def)
  then have "csrf_cookie q = Some (Some t)" by (simp add: csrf_cookie_def cookie_value_def)
  moreover have "t \<noteq> []" using assms(2) by (auto simp: TOKEN_BYTES_def)
  ultimately show ?thesis using assms(2,4) by (auto simp: verifyCsrf_def csrfTokenHandler_def nonempty_def)
qed

definition sample_token :: string where "sample_token = replicate 64 CHR ''a''"

lemma issued_token_passes_witness:
  "verifyCsrf (sample_request\<lparr>cq_cookie := Some (COOKIE_NAME @ CHR ''='' # sample_token), cq_token := Some sample_token\<rparr>) = Csrf_next"
  using issued_token_passes [of sample_token "sample_request\<lparr>cq_cookie := Some (COOKIE_NAME @ CHR ''='' # sample_token), cq_token := Some sample_token\<rparr>"]
  by (simp add: sample_token_def token_char_def js_space_def TOKEN_BYTES_def list_all_iff)

text \<open>One cookie with a malformed escape, set by any page of the domain, makes the check throw although the token is right.\<close>

lemma malformed_cookie_throws:
  "verifyCsrf (sample_request\<lparr>cq_cookie := Some ''theme=50%; csrf-token=xyz'', cq_token := Some ''xyz''\<rparr>) = Csrf_throws"
  by (simp add: verifyCsrf_def sample_request_def upper_def upper_char_def starts_def nonempty_def csrf_cookie_def parseCookies_def
      List.map_filter_def cookie_pair_def trim_def js_space_def)

end
