(* ===== verification/Account_Auth.thy ===== *)
theory Account_Auth
  imports Csrf_Guard Runs
begin

section \<open>Accounts and sessions (indexer/src/auth/session.js, passkeys.js, recovery.js, the routes /api/auth of api.js)\<close>

text \<open>
  Sign-in by passkey, wallet, email link and recovery code: the tables of migration 042 with their statements in db.js, the session cookie, the
  challenges, and the routes under /api/auth with the middleware \<open>loadSession\<close> before each. SHA-256, the WebAuthn ceremonies and the
  verification of a signed wallet challenge are parameters; fresh tokens, codes, ids and challenges are inputs of a request. A request
  is served as one step, after the rate limiter and the CSRF check. Shown: a session that was revoked is never accepted
  again; a request that proves nothing about an account with a passkey (no session of it, no assertion, no recovery
  code, no wallet signature) gives no session for it, whatever mail its sender can read; passkeys, recovery codes and the
  wallet of an account change only under an elevated session of the account itself. Without passkeys the mailbox alone
  is enough, and one malformed cookie ends the process.
\<close>

subsection \<open>Tables\<close>

record account =
  ac_id :: string
  ac_email :: string
  ac_address :: "string option"

record passkey =
  pk_id :: string
  pk_account :: string
  pk_key :: string
  pk_counter :: int

record session =
  ss_hash :: string
  ss_account :: string
  ss_method :: string
  ss_seen :: int
  ss_expires :: int
  ss_elevated :: "int option"
  ss_revoked :: bool

record challenge =
  ch_hash :: string
  ch_purpose :: string
  ch_text :: string
  ch_account :: "string option"
  ch_expires :: int

record email_link =
  el_hash :: string
  el_email :: string
  el_purpose :: string
  el_expires :: int
  el_used :: bool

record recovery_code =
  rv_account :: string
  rv_hash :: string
  rv_used :: bool

record auth_db =
  ad_accounts :: "account list"
  ad_passkeys :: "passkey list"
  ad_sessions :: "session list"
  ad_challenges :: "challenge list"
  ad_links :: "email_link list"
  ad_codes :: "recovery_code list"

text \<open>The ceremonies of the WebAuthn library end with an exception, unverified, or with what they verified.\<close>

datatype 'a ceremony = Ceremony_throws | Unverified | Verified 'a

record 'w auth_env =
  au_sha :: "string \<Rightarrow> string"
  au_credential :: "'w \<Rightarrow> string option"
  au_register :: "'w \<Rightarrow> string \<Rightarrow> (string \<times> string \<times> int) ceremony"
  au_assert :: "'w \<Rightarrow> string \<Rightarrow> passkey \<Rightarrow> int ceremony"
  au_wallet :: "string \<Rightarrow> string \<Rightarrow> string option"

subsection \<open>Statements (indexer/src/db.js)\<close>

text \<open>A statement that violates a key throws: \<open>None\<close>.\<close>

definition getAccount :: "string \<Rightarrow> auth_db \<Rightarrow> account option" where
  "getAccount i d = find (\<lambda>a. ac_id a = i) (ad_accounts d)"

definition getAccountByEmail :: "string \<Rightarrow> auth_db \<Rightarrow> account option" where
  "getAccountByEmail e d = find (\<lambda>a. ac_email a = e) (ad_accounts d)"

definition getAccountByStellarAddress :: "string \<Rightarrow> auth_db \<Rightarrow> account option" where
  "getAccountByStellarAddress w d = find (\<lambda>a. ac_address a = Some w) (ad_accounts d)"

definition findOrCreateAccountByEmail :: "string \<Rightarrow> string \<Rightarrow> auth_db \<Rightarrow> ((account \<times> bool) \<times> auth_db) option" where
  "findOrCreateAccountByEmail uuid e d =
     (case getAccountByEmail e d of
        Some a \<Rightarrow> Some ((a, False), d)
      | None \<Rightarrow> if uuid \<in> ac_id ` set (ad_accounts d) then None
                else let a = \<lparr>ac_id = uuid, ac_email = e, ac_address = None\<rparr> in Some ((a, True), d\<lparr>ad_accounts := ad_accounts d @ [a]\<rparr>))"

definition linkStellarAddress :: "string \<Rightarrow> string \<Rightarrow> auth_db \<Rightarrow> auth_db option" where
  "linkStellarAddress i w d =
     (if \<exists>a \<in> set (ad_accounts d). ac_address a = Some w \<and> ac_id a \<noteq> i then None
      else Some (d\<lparr>ad_accounts := update_where (\<lambda>a. ac_id a = i) (\<lambda>a. a\<lparr>ac_address := Some w\<rparr>) (ad_accounts d)\<rparr>))"

definition listPasskeys :: "string \<Rightarrow> auth_db \<Rightarrow> passkey list" where
  "listPasskeys i d = filter (\<lambda>k. pk_account k = i) (ad_passkeys d)"

definition getPasskey :: "string \<Rightarrow> auth_db \<Rightarrow> passkey option" where
  "getPasskey c d = find (\<lambda>k. pk_id k = c) (ad_passkeys d)"

definition insertPasskey :: "passkey \<Rightarrow> auth_db \<Rightarrow> auth_db option" where
  "insertPasskey k d = (if pk_id k \<in> pk_id ` set (ad_passkeys d) then None else Some (d\<lparr>ad_passkeys := ad_passkeys d @ [k]\<rparr>))"

definition updatePasskeyCounter :: "string \<Rightarrow> int \<Rightarrow> auth_db \<Rightarrow> auth_db" where
  "updatePasskeyCounter c n d = d\<lparr>ad_passkeys := update_where (\<lambda>k. pk_id k = c) (\<lambda>k. k\<lparr>pk_counter := n\<rparr>) (ad_passkeys d)\<rparr>"

definition deletePasskey :: "string \<Rightarrow> string \<Rightarrow> auth_db \<Rightarrow> bool \<times> auth_db" where
  "deletePasskey i c d =
     (let gone = (\<lambda>k. pk_account k = i \<and> pk_id k = c)
      in (list_ex gone (ad_passkeys d), d\<lparr>ad_passkeys := filter (\<lambda>k. \<not> gone k) (ad_passkeys d)\<rparr>))"

definition insertAuthSession :: "session \<Rightarrow> auth_db \<Rightarrow> auth_db option" where
  "insertAuthSession s d = (if ss_hash s \<in> ss_hash ` set (ad_sessions d) then None else Some (d\<lparr>ad_sessions := ad_sessions d @ [s]\<rparr>))"

definition getAuthSession :: "string \<Rightarrow> auth_db \<Rightarrow> session option" where
  "getAuthSession h d = find (\<lambda>s. ss_hash s = h) (ad_sessions d)"

definition touchAuthSession :: "int \<Rightarrow> string \<Rightarrow> auth_db \<Rightarrow> auth_db" where
  "touchAuthSession now h d = d\<lparr>ad_sessions := update_where (\<lambda>s. ss_hash s = h) (\<lambda>s. s\<lparr>ss_seen := now\<rparr>) (ad_sessions d)\<rparr>"

definition revokeAuthSession :: "string \<Rightarrow> auth_db \<Rightarrow> auth_db" where
  "revokeAuthSession h d = d\<lparr>ad_sessions := update_where (\<lambda>s. ss_hash s = h) (\<lambda>s. s\<lparr>ss_revoked := True\<rparr>) (ad_sessions d)\<rparr>"

definition revokeAccountSessions :: "string \<Rightarrow> auth_db \<Rightarrow> auth_db" where
  "revokeAccountSessions i d = d\<lparr>ad_sessions := update_where (\<lambda>s. ss_account s = i) (\<lambda>s. s\<lparr>ss_revoked := True\<rparr>) (ad_sessions d)\<rparr>"

definition insertAuthChallenge :: "challenge \<Rightarrow> auth_db \<Rightarrow> auth_db option" where
  "insertAuthChallenge c d =
     (if ch_hash c \<in> ch_hash ` set (ad_challenges d) then None else Some (d\<lparr>ad_challenges := ad_challenges d @ [c]\<rparr>))"

definition consumeAuthChallenge :: "int \<Rightarrow> string \<Rightarrow> string \<Rightarrow> auth_db \<Rightarrow> challenge option \<times> auth_db" where
  "consumeAuthChallenge now h purpose d =
     (let hit = (\<lambda>c. ch_hash c = h \<and> ch_purpose c = purpose)
      in (case find hit (ad_challenges d) of Some c \<Rightarrow> if now < ch_expires c then Some c else None | None \<Rightarrow> None,
          d\<lparr>ad_challenges := filter (\<lambda>c. \<not> hit c) (ad_challenges d)\<rparr>))"

definition insertEmailToken :: "email_link \<Rightarrow> auth_db \<Rightarrow> auth_db option" where
  "insertEmailToken l d = (if el_hash l \<in> el_hash ` set (ad_links d) then None else Some (d\<lparr>ad_links := ad_links d @ [l]\<rparr>))"

definition consumeEmailToken :: "int \<Rightarrow> string \<Rightarrow> string \<Rightarrow> auth_db \<Rightarrow> string option \<times> auth_db" where
  "consumeEmailToken now h purpose d =
     (let hit = (\<lambda>l. el_hash l = h \<and> el_purpose l = purpose \<and> \<not> el_used l \<and> now < el_expires l)
      in (map_option el_email (find hit (ad_links d)), d\<lparr>ad_links := update_where (\<lambda>l. hit l) (\<lambda>l. l\<lparr>el_used := True\<rparr>) (ad_links d)\<rparr>))"

definition replaceRecoveryCodes :: "string \<Rightarrow> string list \<Rightarrow> auth_db \<Rightarrow> auth_db option" where
  "replaceRecoveryCodes i hs d =
     (if distinct hs
      then Some (d\<lparr>ad_codes := filter (\<lambda>c. rv_account c \<noteq> i) (ad_codes d) @ map (\<lambda>h. \<lparr>rv_account = i, rv_hash = h, rv_used = False\<rparr>) hs\<rparr>)
      else None)"

definition consumeRecoveryCode :: "string \<Rightarrow> string \<Rightarrow> auth_db \<Rightarrow> bool \<times> auth_db" where
  "consumeRecoveryCode i h d =
     (let hit = (\<lambda>c. rv_account c = i \<and> rv_hash c = h \<and> \<not> rv_used c)
      in (list_ex hit (ad_codes d), d\<lparr>ad_codes := update_where (\<lambda>c. hit c) (\<lambda>c. c\<lparr>rv_used := True\<rparr>) (ad_codes d)\<rparr>))"

subsection \<open>Sessions and challenges (indexer/src/auth/session.js)\<close>

definition SESSION_COOKIE :: string where "SESSION_COOKIE = ''sid''"

definition CHALLENGE_COOKIE :: string where "CHALLENGE_COOKIE = ''auth-challenge''"

definition IDLE_TIMEOUT_MS :: int where "IDLE_TIMEOUT_MS = 30 * 60000"

definition ABSOLUTE_TIMEOUT_MS :: int where "ABSOLUTE_TIMEOUT_MS = 12 * 3600000"

definition STEP_UP_MS :: int where "STEP_UP_MS = 5 * 60000"

definition named_cookie :: "string \<Rightarrow> string \<Rightarrow> bool" where
  "named_cookie name p \<longleftrightarrow> CHR ''='' \<in> set p \<and> hd p \<noteq> CHR ''='' \<and> trim (takeWhile (\<lambda>c. c \<noteq> CHR ''='') p) = name"

text \<open>The value of the first cookie of a name, \<open>Some None\<close> without one; \<open>None\<close> when decoding it throws.\<close>

definition getCookie :: "string option \<Rightarrow> string \<Rightarrow> string option option" where
  "getCookie header name =
     (case find (named_cookie name) (split_on CHR '';'' (case header of Some h \<Rightarrow> h | None \<Rightarrow> [])) of
        None \<Rightarrow> Some None
      | Some p \<Rightarrow> map_option Some (decodeURIComponent (trim (tl (dropWhile (\<lambda>c. c \<noteq> CHR ''='') p)))))"

datatype session_state = Valid | Missing | Revoked | Expired | Idle

definition evaluateSession :: "int \<Rightarrow> session option \<Rightarrow> session_state" where
  "evaluateSession now row =
     (case row of
        None \<Rightarrow> Missing
      | Some s \<Rightarrow> if ss_revoked s then Revoked
                  else if ss_expires s \<le> now then Expired
                  else if ss_seen s + IDLE_TIMEOUT_MS \<le> now then Idle
                  else Valid)"

definition isElevated :: "int \<Rightarrow> session \<Rightarrow> bool" where
  "isElevated now s \<longleftrightarrow> (case ss_elevated s of Some t \<Rightarrow> now < t | None \<Rightarrow> False)"

text \<open>What revokes the session of the cookie, if it names one; \<open>None\<close> when reading the cookie throws.\<close>

definition revoke_current :: "'w auth_env \<Rightarrow> string option \<Rightarrow> auth_db \<Rightarrow> auth_db option" where
  "revoke_current env cookie d =
     (case getCookie cookie SESSION_COOKIE of
        None \<Rightarrow> None
      | Some c \<Rightarrow> Some (if nonempty c then revokeAuthSession (au_sha env (the c)) d else d))"

text \<open>An operation that throws leaves the state it reached: \<open>Inl\<close>.\<close>

definition startSession ::
  "'w auth_env \<Rightarrow> int \<Rightarrow> string \<Rightarrow> string option \<Rightarrow> string \<Rightarrow> string \<Rightarrow> bool \<Rightarrow> auth_db \<Rightarrow> auth_db + auth_db" where
  "startSession env now token cookie accountId authMethod elevated d =
     (case revoke_current env cookie d of
        None \<Rightarrow> Inl d
      | Some d1 \<Rightarrow>
          (case insertAuthSession
                  \<lparr>ss_hash = au_sha env token, ss_account = accountId, ss_method = authMethod, ss_seen = now,
                   ss_expires = now + ABSOLUTE_TIMEOUT_MS, ss_elevated = (if elevated then Some (now + STEP_UP_MS) else None),
                   ss_revoked = False\<rparr> d1 of
             None \<Rightarrow> Inl d1
           | Some d2 \<Rightarrow> Inr d2))"

definition rotateSession :: "'w auth_env \<Rightarrow> int \<Rightarrow> string \<Rightarrow> session \<Rightarrow> bool \<Rightarrow> auth_db \<Rightarrow> auth_db + auth_db" where
  "rotateSession env now token s elevated d =
     (let d1 = revokeAuthSession (ss_hash s) d
      in case insertAuthSession
                \<lparr>ss_hash = au_sha env token, ss_account = ss_account s, ss_method = ss_method s, ss_seen = now, ss_expires = ss_expires s,
                 ss_elevated = (if elevated then Some (now + STEP_UP_MS) else ss_elevated s), ss_revoked = False\<rparr> d1 of
           None \<Rightarrow> Inl d1
         | Some d2 \<Rightarrow> Inr d2)"

text \<open>\<open>loadSession\<close>: the session of the request; the outer \<open>None\<close> is the rejection of the middleware, which Express 4 does not handle.\<close>

definition loadSession :: "'w auth_env \<Rightarrow> int \<Rightarrow> string option \<Rightarrow> auth_db \<Rightarrow> session option option \<times> auth_db" where
  "loadSession env now cookie d =
     (case getCookie cookie SESSION_COOKIE of
        None \<Rightarrow> (None, d)
      | Some raw \<Rightarrow>
          if \<not> nonempty raw then (Some None, d)
          else let row = getAuthSession (au_sha env (the raw)) d
               in if evaluateSession now row = Valid then (Some row, touchAuthSession now (ss_hash (the row)) d) else (Some None, d))"

definition issueChallenge :: "'w auth_env \<Rightarrow> int \<Rightarrow> string \<Rightarrow> string \<Rightarrow> string \<Rightarrow> string option \<Rightarrow> auth_db \<Rightarrow> auth_db option" where
  "issueChallenge env now token purpose txt_of accountId d =
     insertAuthChallenge \<lparr>ch_hash = au_sha env token, ch_purpose = purpose, ch_text = txt_of, ch_account = accountId,
                          ch_expires = now + 5 * 60000\<rparr> d"

definition takeChallenge :: "'w auth_env \<Rightarrow> int \<Rightarrow> string option \<Rightarrow> string \<Rightarrow> auth_db \<Rightarrow> challenge option option \<times> auth_db" where
  "takeChallenge env now cookie purpose d =
     (case getCookie cookie CHALLENGE_COOKIE of
        None \<Rightarrow> (None, d)
      | Some i \<Rightarrow> if \<not> nonempty i then (Some None, d)
                  else case consumeAuthChallenge now (au_sha env (the i)) purpose d of (c, d') \<Rightarrow> (Some c, d'))"

subsection \<open>Recovery and passkeys (indexer/src/auth/recovery.js, passkeys.js)\<close>

definition EMAIL_PURPOSES :: "string list" where "EMAIL_PURPOSES = [''signup'', ''claim'', ''recovery'']"

definition EMAIL_TOKEN_TTL_MS :: int where "EMAIL_TOKEN_TTL_MS = 15 * 60000"

definition hashRecoveryCode :: "'w auth_env \<Rightarrow> string \<Rightarrow> string" where
  "hashRecoveryCode env code = au_sha env (upper (filter (\<lambda>c. \<not> js_space c \<and> c \<noteq> CHR ''-'') code))"

definition issueRecoveryCodes :: "'w auth_env \<Rightarrow> string list \<Rightarrow> string \<Rightarrow> auth_db \<Rightarrow> auth_db option" where
  "issueRecoveryCodes env codes i d = replaceRecoveryCodes i (map (hashRecoveryCode env) codes) d"

definition sendEmailLink :: "'w auth_env \<Rightarrow> int \<Rightarrow> string \<Rightarrow> string \<Rightarrow> string \<Rightarrow> auth_db \<Rightarrow> auth_db option" where
  "sendEmailLink env now token email purpose d =
     insertEmailToken \<lparr>el_hash = au_sha env token, el_email = email, el_purpose = purpose, el_expires = now + EMAIL_TOKEN_TTL_MS, el_used = False\<rparr> d"

definition consumeEmailLink :: "'w auth_env \<Rightarrow> int \<Rightarrow> string \<Rightarrow> string \<Rightarrow> auth_db \<Rightarrow> string option \<times> auth_db" where
  "consumeEmailLink env now token purpose d = consumeEmailToken now (au_sha env token) purpose d"

text \<open>\<open>None\<close>: the ceremony or the statement throws; \<open>Some False\<close>: not verified.\<close>

definition verifyRegistration :: "'w auth_env \<Rightarrow> string \<Rightarrow> 'w \<Rightarrow> string \<Rightarrow> auth_db \<Rightarrow> bool option \<times> auth_db" where
  "verifyRegistration env accountId response expected d =
     (case au_register env response expected of
        Ceremony_throws \<Rightarrow> (None, d)
      | Unverified \<Rightarrow> (Some False, d)
      | Verified (c, key, n) \<Rightarrow>
          (case insertPasskey \<lparr>pk_id = c, pk_account = accountId, pk_key = key, pk_counter = n\<rparr> d of
             None \<Rightarrow> (None, d)
           | Some d' \<Rightarrow> (Some True, d')))"

text \<open>The account of the passkey, \<open>Some None\<close> when it is not verified; \<open>None\<close> when the ceremony throws.\<close>

definition verifyAuthentication :: "'w auth_env \<Rightarrow> 'w \<Rightarrow> string \<Rightarrow> string option \<Rightarrow> auth_db \<Rightarrow> string option option \<times> auth_db" where
  "verifyAuthentication env response expected expectedAccountId d =
     (case Option.bind (au_credential env response) (\<lambda>c. getPasskey c d) of
        None \<Rightarrow> (Some None, d)
      | Some k \<Rightarrow>
          if (case expectedAccountId of Some i \<Rightarrow> pk_account k \<noteq> i | None \<Rightarrow> False) then (Some None, d)
          else case au_assert env response expected k of
                 Ceremony_throws \<Rightarrow> (None, d)
               | Unverified \<Rightarrow> (Some None, d)
               | Verified n \<Rightarrow> (Some (Some (pk_account k)), updatePasskeyCounter (pk_id k) n d))"

subsection \<open>The routes under /api/auth (indexer/src/api.js)\<close>

record auth_reply =
  rp_status :: nat
  rp_sid :: "string option"
  rp_challenge :: "string option"
  rp_codes :: "string list"

abbreviation plain_reply :: "nat \<Rightarrow> auth_reply" where
  "plain_reply n \<equiv> \<lparr>rp_status = n, rp_sid = None, rp_challenge = None, rp_codes = []\<rparr>"

text \<open>What a request draws: a token, the id of a new account, ten recovery codes and the challenge of the library.\<close>

record fresh =
  fr_token :: string
  fr_uuid :: string
  fr_codes :: "string list"
  fr_challenge :: string

text \<open>\<open>EMAIL_RE\<close>: one at sign between texts without white space, and a dot inside the second.\<close>

definition email_ok :: "string \<Rightarrow> bool" where
  "email_ok e \<longleftrightarrow>
     (case split_on CHR ''@'' e of
        [l, d] \<Rightarrow> l \<noteq> [] \<and> list_all (\<lambda>c. \<not> js_space c) e \<and> CHR ''.'' \<in> set (butlast (tl d))
      | _ \<Rightarrow> False)"

definition email_start :: "'w auth_env \<Rightarrow> int \<Rightarrow> fresh \<Rightarrow> string \<Rightarrow> string \<Rightarrow> auth_db \<Rightarrow> auth_reply \<times> auth_db" where
  "email_start env now fr raw purpose d =
     (let email = lower (trim raw)
      in if \<not> email_ok email \<or> purpose \<notin> set EMAIL_PURPOSES then (plain_reply 400, d)
         else if purpose = ''recovery'' \<and> getAccountByEmail email d = None then (plain_reply 202, d)
         else case sendEmailLink env now (fr_token fr) email purpose d of
                None \<Rightarrow> (plain_reply 500, d)
              | Some d' \<Rightarrow> (plain_reply 202, d'))"

text \<open>The answer of a sign-in: the new session cookie, or 500 when it throws.\<close>

definition signed_in :: "nat \<Rightarrow> fresh \<Rightarrow> auth_db + auth_db \<Rightarrow> auth_reply \<times> auth_db" where
  "signed_in code fr r =
     (case r of Inl d \<Rightarrow> (plain_reply 500, d) | Inr d \<Rightarrow> ((plain_reply code)\<lparr>rp_sid := Some (fr_token fr)\<rparr>, d))"

definition email_verify :: "'w auth_env \<Rightarrow> int \<Rightarrow> fresh \<Rightarrow> string option \<Rightarrow> string \<Rightarrow> auth_db \<Rightarrow> auth_reply \<times> auth_db" where
  "email_verify env now fr cookie token d =
     (case consumeEmailLink env now token ''signup'' d of
        (None, d1) \<Rightarrow> (plain_reply 400, d1)
      | (Some email, d1) \<Rightarrow>
          (case findOrCreateAccountByEmail (fr_uuid fr) email d1 of
             None \<Rightarrow> (plain_reply 500, d1)
           | Some ((a, created), d2) \<Rightarrow>
               if \<not> created \<and> listPasskeys (ac_id a) d2 \<noteq> [] then (plain_reply 409, d2)
               else case startSession env now (fr_token fr) cookie (ac_id a) ''email'' True d2 of
                      Inl d3 \<Rightarrow> (plain_reply 500, d3)
                    | Inr d3 \<Rightarrow>
                        if created
                        then case issueRecoveryCodes env (fr_codes fr) (ac_id a) d3 of
                               None \<Rightarrow> ((plain_reply 500)\<lparr>rp_sid := Some (fr_token fr)\<rparr>, d3)
                             | Some d4 \<Rightarrow> (\<lparr>rp_status = 200, rp_sid = Some (fr_token fr), rp_challenge = None, rp_codes = fr_codes fr\<rparr>, d4)
                        else signed_in 200 fr (Inr d3)))"

definition claim_keys :: "'w auth_env \<Rightarrow> int \<Rightarrow> session \<Rightarrow> string \<Rightarrow> auth_db \<Rightarrow> auth_reply \<times> auth_db" where
  "claim_keys env now s token d =
     (case consumeEmailLink env now token ''claim'' d of
        (e, d1) \<Rightarrow>
          (case getAccount (ss_account s) d1 of
             None \<Rightarrow> (plain_reply (if e = None then 400 else 500), d1)
           | Some a \<Rightarrow> (plain_reply (if e = Some (ac_email a) then 200 else 400), d1)))"

definition recovery :: "'w auth_env \<Rightarrow> int \<Rightarrow> fresh \<Rightarrow> string option \<Rightarrow> string \<Rightarrow> string \<Rightarrow> auth_db \<Rightarrow> auth_reply \<times> auth_db" where
  "recovery env now fr cookie token code d =
     (case consumeEmailLink env now token ''recovery'' d of
        (e, d1) \<Rightarrow>
          (case Option.bind e (\<lambda>e. getAccountByEmail e d1) of
             None \<Rightarrow> (plain_reply 400, d1)
           | Some a \<Rightarrow>
               (case consumeRecoveryCode (ac_id a) (hashRecoveryCode env code) d1 of
                  (False, d2) \<Rightarrow> (plain_reply 400, d2)
                | (True, d2) \<Rightarrow>
                    signed_in 200 fr (startSession env now (fr_token fr) cookie (ac_id a) ''recovery'' True (revokeAccountSessions (ac_id a) d2)))))"

definition issued :: "fresh \<Rightarrow> auth_db \<Rightarrow> auth_db option \<Rightarrow> auth_reply \<times> auth_db" where
  "issued fr d r =
     (case r of None \<Rightarrow> (plain_reply 500, d) | Some d' \<Rightarrow> ((plain_reply 200)\<lparr>rp_challenge := Some (fr_token fr)\<rparr>, d'))"

definition register_options :: "'w auth_env \<Rightarrow> int \<Rightarrow> fresh \<Rightarrow> session \<Rightarrow> auth_db \<Rightarrow> auth_reply \<times> auth_db" where
  "register_options env now fr s d =
     (case getAccount (ss_account s) d of
        None \<Rightarrow> (plain_reply 500, d)
      | Some a \<Rightarrow> issued fr d (issueChallenge env now (fr_token fr) ''register'' (fr_challenge fr) (Some (ac_id a)) d))"

definition register_verify :: "'w auth_env \<Rightarrow> int \<Rightarrow> fresh \<Rightarrow> string option \<Rightarrow> session \<Rightarrow> 'w \<Rightarrow> auth_db \<Rightarrow> auth_reply \<times> auth_db" where
  "register_verify env now fr cookie s response d =
     (case takeChallenge env now cookie ''register'' d of
        (None, d1) \<Rightarrow> (plain_reply 500, d1)
      | (Some None, d1) \<Rightarrow> (plain_reply 400, d1)
      | (Some (Some c), d1) \<Rightarrow>
          if ch_account c \<noteq> Some (ss_account s) then (plain_reply 400, d1)
          else case getAccount (ss_account s) d1 of
                 None \<Rightarrow> (plain_reply 500, d1)
               | Some a \<Rightarrow>
                   (case verifyRegistration env (ac_id a) response (ch_text c) d1 of
                      (None, d2) \<Rightarrow> (plain_reply 500, d2)
                    | (Some False, d2) \<Rightarrow> (plain_reply 400, d2)
                    | (Some True, d2) \<Rightarrow> signed_in 201 fr (rotateSession env now (fr_token fr) s False d2)))"

definition login_verify :: "'w auth_env \<Rightarrow> int \<Rightarrow> fresh \<Rightarrow> string option \<Rightarrow> 'w \<Rightarrow> auth_db \<Rightarrow> auth_reply \<times> auth_db" where
  "login_verify env now fr cookie response d =
     (case takeChallenge env now cookie ''login'' d of
        (None, d1) \<Rightarrow> (plain_reply 500, d1)
      | (Some None, d1) \<Rightarrow> (plain_reply 400, d1)
      | (Some (Some c), d1) \<Rightarrow>
          (case verifyAuthentication env response (ch_text c) None d1 of
             (None, d2) \<Rightarrow> (plain_reply 500, d2)
           | (Some None, d2) \<Rightarrow> (plain_reply 401, d2)
           | (Some (Some i), d2) \<Rightarrow> signed_in 200 fr (startSession env now (fr_token fr) cookie i ''passkey'' False d2)))"

definition step_up_verify :: "'w auth_env \<Rightarrow> int \<Rightarrow> fresh \<Rightarrow> string option \<Rightarrow> session \<Rightarrow> 'w \<Rightarrow> auth_db \<Rightarrow> auth_reply \<times> auth_db" where
  "step_up_verify env now fr cookie s response d =
     (case takeChallenge env now cookie ''step_up'' d of
        (None, d1) \<Rightarrow> (plain_reply 500, d1)
      | (Some None, d1) \<Rightarrow> (plain_reply 400, d1)
      | (Some (Some c), d1) \<Rightarrow>
          if ch_account c \<noteq> Some (ss_account s) then (plain_reply 400, d1)
          else case verifyAuthentication env response (ch_text c) (Some (ss_account s)) d1 of
                 (None, d2) \<Rightarrow> (plain_reply 500, d2)
               | (Some None, d2) \<Rightarrow> (plain_reply 401, d2)
               | (Some (Some _), d2) \<Rightarrow> signed_in 200 fr (rotateSession env now (fr_token fr) s True d2))"

definition logout :: "'w auth_env \<Rightarrow> string option \<Rightarrow> auth_db \<Rightarrow> auth_reply \<times> auth_db" where
  "logout env cookie d =
     (case revoke_current env cookie d of None \<Rightarrow> (plain_reply 500, d) | Some d' \<Rightarrow> (plain_reply 204, d'))"

definition base32_upper :: "char \<Rightarrow> bool" where
  "base32_upper c \<longleftrightarrow> (CHR ''A'' \<le> c \<and> c \<le> CHR ''Z'') \<or> (CHR ''2'' \<le> c \<and> c \<le> CHR ''7'')"

definition wallet_ok :: "string \<Rightarrow> bool" where
  "wallet_ok w \<longleftrightarrow> length w = 56 \<and> hd w = CHR ''G'' \<and> list_all base32_upper (tl w)"

definition wallet_challenge :: "'w auth_env \<Rightarrow> int \<Rightarrow> fresh \<Rightarrow> session option \<Rightarrow> string \<Rightarrow> auth_db \<Rightarrow> auth_reply \<times> auth_db" where
  "wallet_challenge env now fr s w d =
     (if \<not> wallet_ok w then (plain_reply 400, d)
      else issued fr d (issueChallenge env now (fr_token fr) ''stellar'' (fr_challenge fr) (map_option ss_account s) d))"

definition wallet_verify :: "'w auth_env \<Rightarrow> int \<Rightarrow> fresh \<Rightarrow> string option \<Rightarrow> session option \<Rightarrow> string \<Rightarrow> auth_db \<Rightarrow> auth_reply \<times> auth_db" where
  "wallet_verify env now fr cookie s xdr d =
     (case takeChallenge env now cookie ''stellar'' d of
        (None, d1) \<Rightarrow> (plain_reply 400, d1)
      | (Some None, d1) \<Rightarrow> (plain_reply 400, d1)
      | (Some (Some c), d1) \<Rightarrow>
          (case au_wallet env xdr (ch_text c) of
             None \<Rightarrow> (plain_reply 400, d1)
           | Some w \<Rightarrow>
               (case s of
                  Some s \<Rightarrow>
                    if \<not> isElevated now s then (plain_reply 403, d1)
                    else (case linkStellarAddress (ss_account s) w d1 of None \<Rightarrow> (plain_reply 400, d1) | Some d2 \<Rightarrow> (plain_reply 200, d2))
                | None \<Rightarrow>
                    (case getAccountByStellarAddress w d1 of
                       None \<Rightarrow> (plain_reply 404, d1)
                     | Some a \<Rightarrow>
                         (case startSession env now (fr_token fr) cookie (ac_id a) ''stellar'' False d1 of
                            Inl d2 \<Rightarrow> (plain_reply 400, d2)
                          | Inr d2 \<Rightarrow> signed_in 200 fr (Inr d2))))))"

datatype 'w auth_request =
    Email_start string string
  | Email_verify string
  | Claim string
  | Recovery string string
  | Register_options
  | Register_verify 'w
  | Login_options
  | Login_verify 'w
  | Step_up_options
  | Step_up_verify 'w
  | Delete_passkey string
  | New_codes
  | Logout
  | Wallet_challenge string
  | Wallet_verify string

text \<open>\<open>requireSession\<close> and \<open>requireStepUp\<close> before a handler.\<close>

definition requireSession :: "session option \<Rightarrow> (session \<Rightarrow> auth_reply \<times> auth_db) \<Rightarrow> auth_db \<Rightarrow> auth_reply \<times> auth_db" where
  "requireSession s h d = (case s of None \<Rightarrow> (plain_reply 401, d) | Some s \<Rightarrow> h s)"

definition requireStepUp :: "int \<Rightarrow> session option \<Rightarrow> (session \<Rightarrow> auth_reply \<times> auth_db) \<Rightarrow> auth_db \<Rightarrow> auth_reply \<times> auth_db" where
  "requireStepUp now s h d = (case s of None \<Rightarrow> (plain_reply 401, d) | Some s \<Rightarrow> if isElevated now s then h s else (plain_reply 403, d))"

fun auth_route ::
  "'w auth_env \<Rightarrow> int \<Rightarrow> fresh \<Rightarrow> string option \<Rightarrow> session option \<Rightarrow> 'w auth_request \<Rightarrow> auth_db \<Rightarrow> auth_reply \<times> auth_db" where
  "auth_route env now fr cookie s (Email_start e p) d = email_start env now fr e p d"
| "auth_route env now fr cookie s (Email_verify t) d = email_verify env now fr cookie t d"
| "auth_route env now fr cookie s (Claim t) d = requireSession s (\<lambda>s. claim_keys env now s t d) d"
| "auth_route env now fr cookie s (Recovery t c) d = recovery env now fr cookie t c d"
| "auth_route env now fr cookie s Register_options d = requireStepUp now s (\<lambda>s. register_options env now fr s d) d"
| "auth_route env now fr cookie s (Register_verify w) d = requireStepUp now s (\<lambda>s. register_verify env now fr cookie s w d) d"
| "auth_route env now fr cookie s Login_options d = issued fr d (issueChallenge env now (fr_token fr) ''login'' (fr_challenge fr) None d)"
| "auth_route env now fr cookie s (Login_verify w) d = login_verify env now fr cookie w d"
| "auth_route env now fr cookie s Step_up_options d =
     requireSession s (\<lambda>s. issued fr d (issueChallenge env now (fr_token fr) ''step_up'' (fr_challenge fr) (Some (ss_account s)) d)) d"
| "auth_route env now fr cookie s (Step_up_verify w) d = requireSession s (\<lambda>s. step_up_verify env now fr cookie s w d) d"
| "auth_route env now fr cookie s (Delete_passkey c) d =
     requireStepUp now s (\<lambda>s. case deletePasskey (ss_account s) c d of (ok, d') \<Rightarrow> (plain_reply (if ok then 204 else 404), d')) d"
| "auth_route env now fr cookie s New_codes d =
     requireStepUp now s (\<lambda>s. case issueRecoveryCodes env (fr_codes fr) (ss_account s) d of
                                None \<Rightarrow> (plain_reply 500, d)
                              | Some d' \<Rightarrow> ((plain_reply 200)\<lparr>rp_codes := fr_codes fr\<rparr>, d')) d"
| "auth_route env now fr cookie s Logout d = logout env cookie d"
| "auth_route env now fr cookie s (Wallet_challenge w) d = wallet_challenge env now fr s w d"
| "auth_route env now fr cookie s (Wallet_verify x) d = wallet_verify env now fr cookie s x d"

text \<open>A request with \<open>loadSession\<close> before its route; \<open>None\<close> when the middleware rejects: Node ends the process at an unhandled rejection.\<close>

definition serve_auth ::
  "'w auth_env \<Rightarrow> int \<Rightarrow> fresh \<Rightarrow> string option \<Rightarrow> 'w auth_request \<Rightarrow> auth_db \<Rightarrow> auth_reply option \<times> auth_db" where
  "serve_auth env now fr cookie req d =
     (case loadSession env now cookie d of
        (None, d1) \<Rightarrow> (None, d1)
      | (Some s, d1) \<Rightarrow> (case auth_route env now fr cookie s req d1 of (r, d2) \<Rightarrow> (Some r, d2)))"

subsection \<open>What requests keep\<close>

text \<open>
  The accounts for which a request carries a proof of its own: an unused recovery code, an assertion of a passkey, a wallet signature; and
  for an email link every account without a passkey.
\<close>

fun proves :: "'w auth_env \<Rightarrow> 'w auth_request \<Rightarrow> auth_db \<Rightarrow> string \<Rightarrow> bool" where
  "proves env (Email_verify _) d i \<longleftrightarrow> listPasskeys i d = []"
| "proves env (Recovery _ c) d i \<longleftrightarrow> (\<exists>r \<in> set (ad_codes d). rv_account r = i \<and> rv_hash r = hashRecoveryCode env c \<and> \<not> rv_used r)"
| "proves env (Login_verify w) d i \<longleftrightarrow> (\<exists>k \<in> set (ad_passkeys d). pk_account k = i \<and> (\<exists>x n. au_assert env w x k = Verified n))"
| "proves env (Wallet_verify s) d i \<longleftrightarrow> (\<exists>a \<in> set (ad_accounts d). ac_id a = i \<and> (\<exists>x. ac_address a \<noteq> None \<and> au_wallet env s x = ac_address a))"
| "proves env _ d i \<longleftrightarrow> False"

text \<open>
  A predicate on the tables that survives every statement, where sessions are inserted only for accounts that \<open>grants\<close> allows and
  passkeys, codes and the wallet are edited only for accounts that \<open>edits\<close> allows.
\<close>

locale auth_frame =
  fixes keeps :: "auth_db \<Rightarrow> bool" and grants :: "string \<Rightarrow> bool" and edits :: "string \<Rightarrow> bool"
  assumes keep_account: "keeps d \<Longrightarrow> ac_id a \<notin> ac_id ` set (ad_accounts d) \<Longrightarrow> keeps (d\<lparr>ad_accounts := ad_accounts d @ [a]\<rparr>)"
    and keep_address: "keeps d \<Longrightarrow> edits i \<Longrightarrow> linkStellarAddress i w d = Some d' \<Longrightarrow> keeps d'"
    and keep_passkey: "keeps d \<Longrightarrow> edits (pk_account k) \<Longrightarrow> insertPasskey k d = Some d' \<Longrightarrow> keeps d'"
    and keep_counter: "keeps d \<Longrightarrow> keeps (updatePasskeyCounter c n d)"
    and keep_delete: "keeps d \<Longrightarrow> edits i \<Longrightarrow> keeps (snd (deletePasskey i c d))"
    and keep_session: "keeps d \<Longrightarrow> grants (ss_account s) \<Longrightarrow> insertAuthSession s d = Some d' \<Longrightarrow> keeps d'"
    and keep_touch: "keeps d \<Longrightarrow> keeps (touchAuthSession now h d)"
    and keep_revoke: "keeps d \<Longrightarrow> keeps (revokeAuthSession h d)"
    and keep_revoke_all: "keeps d \<Longrightarrow> keeps (revokeAccountSessions i d)"
    and keep_challenges: "keeps d \<Longrightarrow> keeps (d\<lparr>ad_challenges := cs\<rparr>)"
    and keep_links: "keeps d \<Longrightarrow> keeps (d\<lparr>ad_links := ls\<rparr>)"
    and keep_codes: "keeps d \<Longrightarrow> edits i \<Longrightarrow> replaceRecoveryCodes i hs d = Some d' \<Longrightarrow> keeps d'"
    and keep_used: "keeps d \<Longrightarrow> keeps (snd (consumeRecoveryCode i h d))"
begin

lemma start_keeps: "keeps d \<Longrightarrow> grants i \<Longrightarrow> startSession env now t cookie i m e d = r \<Longrightarrow> (case r of Inl d' \<Rightarrow> keeps d' | Inr d' \<Rightarrow> keeps d')"
  by (auto simp: startSession_def revoke_current_def keep_revoke intro: keep_session [rotated 2] split: option.splits sum.splits if_splits)

lemma rotate_keeps: "keeps d \<Longrightarrow> grants (ss_account s) \<Longrightarrow> rotateSession env now t s e d = r \<Longrightarrow> (case r of Inl d' \<Rightarrow> keeps d' | Inr d' \<Rightarrow> keeps d')"
  by (auto simp: rotateSession_def keep_revoke Let_def intro: keep_session [rotated 2] split: option.splits sum.splits)

lemma signed_in_keeps: "(case r of Inl d' \<Rightarrow> keeps d' | Inr d' \<Rightarrow> keeps d') \<Longrightarrow> keeps (snd (signed_in n fr r))"
  by (auto simp: signed_in_def split: sum.splits)

lemma challenge_keeps: "keeps d \<Longrightarrow> insertAuthChallenge c d = Some d' \<Longrightarrow> keeps d'"
  by (auto simp: insertAuthChallenge_def keep_challenges split: if_splits)

lemma issued_keeps: "keeps d \<Longrightarrow> (\<And>d'. r = Some d' \<Longrightarrow> keeps d') \<Longrightarrow> keeps (snd (issued fr d r))"
  by (auto simp: issued_def split: option.splits)

lemma issue_keeps: "keeps d \<Longrightarrow> keeps (snd (issued fr d (issueChallenge env now t p x i d)))"
  by (rule issued_keeps) (auto simp: issueChallenge_def intro: challenge_keeps)

lemma take_keeps: "keeps d \<Longrightarrow> takeChallenge env now cookie p d = (c, d') \<Longrightarrow> keeps d'"
  by (auto simp: takeChallenge_def consumeAuthChallenge_def Let_def keep_challenges split: option.splits if_splits)

lemma link_keeps: "keeps d \<Longrightarrow> consumeEmailLink env now t p d = (e, d') \<Longrightarrow> keeps d'"
  by (auto simp: consumeEmailLink_def consumeEmailToken_def Let_def keep_links)

lemma load_keeps: "keeps d \<Longrightarrow> keeps (snd (loadSession env now cookie d))"
  by (auto simp: loadSession_def Let_def keep_touch split: option.splits)

lemma assertion_keeps: "keeps d \<Longrightarrow> verifyAuthentication env w x i d = (r, d') \<Longrightarrow> keeps d'"
  by (auto simp: verifyAuthentication_def keep_counter split: option.splits if_splits ceremony.splits)

lemma registration_keeps: "keeps d \<Longrightarrow> edits i \<Longrightarrow> verifyRegistration env i w x d = (r, d') \<Longrightarrow> keeps d'"
  by (auto simp: verifyRegistration_def split: option.splits ceremony.splits)
    (rule keep_passkey [rotated 2], assumption, assumption, simp)

lemma email_verify_keeps:
  assumes "keeps d" "\<And>i. listPasskeys i d = [] \<Longrightarrow> grants i" "\<And>i. i \<notin> ac_id ` set (ad_accounts d) \<Longrightarrow> grants i \<and> edits i"
  shows "keeps (snd (email_verify env now fr cookie t d))"
proof -
  obtain e d1 where l: "consumeEmailLink env now t ''signup'' d = (e, d1)" by fastforce
  then have d1: "keeps d1" "ad_accounts d1 = ad_accounts d" "ad_passkeys d1 = ad_passkeys d"
    by (rule link_keeps [OF assms(1)]) (use l in \<open>auto simp: consumeEmailLink_def consumeEmailToken_def Let_def\<close>)
  show ?thesis
  proof (cases "Option.bind e (\<lambda>e. findOrCreateAccountByEmail (fr_uuid fr) e d1)")
    case None
    then show ?thesis using d1(1) by (cases e) (auto simp: email_verify_def l)
  next
    case (Some c)
    then obtain a new d2 where c: "c = ((a, new), d2)" by (metis surj_pair)
    with Some obtain em where e: "e = Some em" "findOrCreateAccountByEmail (fr_uuid fr) em d1 = Some ((a, new), d2)" by (cases e) auto
    then have d2: "keeps d2" "ad_passkeys d2 = ad_passkeys d" "new \<Longrightarrow> ac_id a \<notin> ac_id ` set (ad_accounts d)"
      using d1 keep_account [OF d1(1), unfolded d1(2)] by (auto simp: findOrCreateAccountByEmail_def Let_def split: option.splits if_splits)
    show ?thesis
    proof (cases "\<not> new \<and> listPasskeys (ac_id a) d2 \<noteq> []")
      case True
      then show ?thesis using d2(1) by (simp add: email_verify_def l e)
    next
      case False
      have g: "grants (ac_id a)" "new \<Longrightarrow> edits (ac_id a)"
        using False assms(2,3) [of "ac_id a"] d2(2,3) by (auto simp: listPasskeys_def)
      show ?thesis using False start_keeps [OF d2(1) g(1) refl, of env now "fr_token fr" cookie "''email''" True] g(2)
        by (auto simp: email_verify_def l e signed_in_def issueRecoveryCodes_def intro: keep_codes [rotated 2] split: sum.splits option.splits)
    qed
  qed
qed

lemma recovery_keeps:
  assumes "keeps d" "\<And>i. proves env (Recovery t c) d i \<Longrightarrow> grants i"
  shows "keeps (snd (recovery env now fr cookie t c d))"
proof -
  obtain e d1 where l: "consumeEmailLink env now t ''recovery'' d = (e, d1)" by fastforce
  then have d1: "keeps d1" "ad_codes d1 = ad_codes d"
    by (rule link_keeps [OF assms(1)]) (use l in \<open>auto simp: consumeEmailLink_def consumeEmailToken_def Let_def\<close>)
  show ?thesis
  proof (cases "Option.bind e (\<lambda>e. getAccountByEmail e d1)")
    case None
    then show ?thesis using d1(1) by (simp add: recovery_def l)
  next
    case (Some a)
    obtain ok d2 where u: "consumeRecoveryCode (ac_id a) (hashRecoveryCode env c) d1 = (ok, d2)" by fastforce
    have k2: "keeps d2" using keep_used [OF d1(1), of "ac_id a" "hashRecoveryCode env c"] u by simp
    show ?thesis
    proof (cases ok)
      case False
      then show ?thesis using k2 by (simp add: recovery_def l Some u)
    next
      case True
      then have "grants (ac_id a)"
        using u assms(2) [of "ac_id a"] by (auto simp: consumeRecoveryCode_def Let_def list_ex_iff d1(2))
      then show ?thesis using True signed_in_keeps [OF start_keeps [OF keep_revoke_all [OF k2] _ refl]] by (simp add: recovery_def l Some u)
    qed
  qed
qed

lemma register_keeps:
  assumes "keeps d" "grants (ss_account s)" "edits (ss_account s)"
  shows "keeps (snd (register_verify env now fr cookie s w d))"
proof -
  obtain c d1 where t: "takeChallenge env now cookie ''register'' d = (c, d1)" by fastforce
  have k1: "keeps d1" by (rule take_keeps [OF assms(1) t])
  have id: "ac_id a = ss_account s" if "getAccount (ss_account s) d1 = Some a" for a
    using that by (auto simp: getAccount_def find_Some_iff)
  obtain r d2 where r: "verifyRegistration env (ss_account s) w (ch_text (the (the c))) d1 = (r, d2)" by fastforce
  have k2: "keeps d2" by (rule registration_keeps [OF k1 assms(3) r])
  show ?thesis
    using k1 k2 r signed_in_keeps [OF rotate_keeps [OF k2 assms(2) refl]] id
    by (auto simp: register_verify_def t split: option.splits prod.splits bool.splits)
qed

lemma login_keeps:
  assumes "keeps d" "\<And>i. proves env (Login_verify w) d i \<Longrightarrow> grants i"
  shows "keeps (snd (login_verify env now fr cookie w d))"
proof -
  obtain c d1 where t: "takeChallenge env now cookie ''login'' d = (c, d1)" by fastforce
  have k1: "keeps d1" by (rule take_keeps [OF assms(1) t])
  have p: "ad_passkeys d1 = ad_passkeys d"
    using t by (auto simp: takeChallenge_def consumeAuthChallenge_def Let_def split: option.splits if_splits)
  obtain r d2 where r: "verifyAuthentication env w (ch_text (the (the c))) None d1 = (r, d2)" by fastforce
  have k2: "keeps d2" by (rule assertion_keeps [OF k1 r])
  have g: "grants i" if "r = Some (Some i)" for i
  proof (rule assms(2))
    show "proves env (Login_verify w) d i" using r that
      by (auto simp: verifyAuthentication_def getPasskey_def p bind_eq_Some_conv dest!: find_SomeD split: option.splits ceremony.splits)
  qed
  have "keeps (snd (signed_in 200 fr (startSession env now (fr_token fr) cookie i ''passkey'' False d2)))" if "r = Some (Some i)" for i
    by (rule signed_in_keeps [OF start_keeps [OF k2 g refl]]) (rule that)
  then show ?thesis using k1 k2 r by (auto simp: login_verify_def t split: option.splits prod.splits)
qed

lemma step_up_keeps:
  assumes "keeps d" "grants (ss_account s)"
  shows "keeps (snd (step_up_verify env now fr cookie s w d))"
proof -
  obtain c d1 where t: "takeChallenge env now cookie ''step_up'' d = (c, d1)" by fastforce
  have k1: "keeps d1" by (rule take_keeps [OF assms(1) t])
  obtain r d2 where r: "verifyAuthentication env w (ch_text (the (the c))) (Some (ss_account s)) d1 = (r, d2)" by fastforce
  have k2: "keeps d2" by (rule assertion_keeps [OF k1 r])
  show ?thesis
    using k1 k2 r signed_in_keeps [OF rotate_keeps [OF k2 assms(2) refl]]
    by (auto simp: step_up_verify_def t split: option.splits prod.splits)
qed

lemma wallet_keeps:
  assumes "keeps d" "\<And>i. proves env (Wallet_verify x) d i \<Longrightarrow> grants i" "\<And>s'. s = Some s' \<Longrightarrow> isElevated now s' \<Longrightarrow> edits (ss_account s')"
  shows "keeps (snd (wallet_verify env now fr cookie s x d))"
proof -
  obtain c d1 where t: "takeChallenge env now cookie ''stellar'' d = (c, d1)" by fastforce
  have k1: "keeps d1" by (rule take_keeps [OF assms(1) t])
  have a: "ad_accounts d1 = ad_accounts d"
    using t by (auto simp: takeChallenge_def consumeAuthChallenge_def Let_def split: option.splits if_splits)
  show ?thesis
  proof (cases "Option.bind (Option.bind c id) (\<lambda>c. au_wallet env x (ch_text c))")
    case None
    then show ?thesis using k1 by (auto simp: wallet_verify_def t bind_eq_None_conv split: option.splits)
  next
    case (Some w)
    then obtain ch where ch: "c = Some (Some ch)" "au_wallet env x (ch_text ch) = Some w" by (auto simp: bind_eq_Some_conv)
    have g: "grants (ac_id b)" if "getAccountByStellarAddress w d1 = Some b" for b
    proof (rule assms(2))
      from that have "b \<in> set (ad_accounts d)" "ac_address b = Some w"
        by (auto simp: getAccountByStellarAddress_def a dest!: find_SomeD)
      then show "proves env (Wallet_verify x) d (ac_id b)" using ch(2) by (auto intro!: bexI [of _ b])
    qed
    show ?thesis
      using k1 ch start_keeps [OF k1 g refl, of _ env now "fr_token fr" cookie "''stellar''" False] assms(3)
      by (auto simp: wallet_verify_def t signed_in_def intro: keep_address split: option.splits sum.splits)
  qed
qed

lemma route_keeps:
  assumes "keeps d" "\<And>i. proves env req d i \<Longrightarrow> grants i" "\<And>i. i \<notin> ac_id ` set (ad_accounts d) \<Longrightarrow> grants i \<and> edits i"
    "\<And>s'. s = Some s' \<Longrightarrow> grants (ss_account s') \<and> (isElevated now s' \<longrightarrow> edits (ss_account s'))"
  shows "keeps (snd (auth_route env now fr cookie s req d))"
proof (cases req)
  case (Email_verify t)
  show ?thesis unfolding Email_verify auth_route.simps
    by (rule email_verify_keeps [OF assms(1)]) (use assms(2,3) Email_verify in auto)
next
  case (Recovery t c)
  show ?thesis unfolding Recovery auth_route.simps
    by (rule recovery_keeps [OF assms(1)]) (use assms(2) Recovery in blast)
next
  case (Register_verify w)
  then show ?thesis using assms(1,4) register_keeps by (auto simp: requireStepUp_def split: option.splits)
next
  case (Login_verify w)
  show ?thesis unfolding Login_verify auth_route.simps
    by (rule login_keeps [OF assms(1)]) (use assms(2) Login_verify in blast)
next
  case (Step_up_verify w)
  then show ?thesis using assms(1,4) step_up_keeps by (auto simp: requireSession_def split: option.splits)
next
  case (Delete_passkey c)
  then show ?thesis using assms(1,4) keep_delete [OF assms(1)]
    by (auto simp: requireStepUp_def split: option.splits prod.splits) (metis snd_conv)
next
  case (Wallet_verify x)
  show ?thesis unfolding Wallet_verify auth_route.simps
    by (rule wallet_keeps [OF assms(1)]) (use assms(2,4) Wallet_verify in blast)+
qed (use assms(1,4) in \<open>auto simp: email_start_def sendEmailLink_def insertEmailToken_def Let_def keep_links requireSession_def requireStepUp_def
    claim_keys_def register_options_def logout_def revoke_current_def keep_revoke wallet_challenge_def issue_keeps issueRecoveryCodes_def
    dest: link_keeps intro: keep_codes split: option.splits prod.splits if_splits\<close>)

lemma serve_keeps:
  assumes "keeps d" "\<And>i. proves env req d i \<Longrightarrow> grants i" "\<And>i. i \<notin> ac_id ` set (ad_accounts d) \<Longrightarrow> grants i \<and> edits i"
    "\<And>s'. fst (loadSession env now cookie d) = Some (Some s') \<Longrightarrow> grants (ss_account s') \<and> (isElevated now s' \<longrightarrow> edits (ss_account s'))"
  shows "keeps (snd (serve_auth env now fr cookie req d))"
proof -
  obtain r d1 where l: "loadSession env now cookie d = (r, d1)" by fastforce
  have k1: "keeps d1" using load_keeps [OF assms(1), of env now cookie] l by simp
  have same: "ad_accounts d1 = ad_accounts d" "ad_passkeys d1 = ad_passkeys d" "ad_codes d1 = ad_codes d"
    using l by (auto simp: loadSession_def Let_def touchAuthSession_def split: option.splits if_splits)
  have p: "proves env req d1 i = proves env req d i" for i
    by (cases req) (auto simp: same listPasskeys_def)
  show ?thesis
  proof (cases r)
    case None
    then show ?thesis using k1 by (simp add: serve_auth_def l)
  next
    case (Some s)
    have "keeps (snd (auth_route env now fr cookie s req d1))"
      by (rule route_keeps [OF k1]) (use assms l Some p same in auto)
    then show ?thesis by (cases "auth_route env now fr cookie s req d1") (simp add: serve_auth_def l Some)
  qed
qed

end

text \<open>A revoked session, the sessions and passkeys of one account, and what an account holds.\<close>

definition dead :: "string \<Rightarrow> auth_db \<Rightarrow> bool" where
  "dead h d \<longleftrightarrow> distinct (map ss_hash (ad_sessions d)) \<and> (\<exists>s \<in> set (ad_sessions d). ss_hash s = h \<and> ss_revoked s)"

definition sessions_of :: "string \<Rightarrow> auth_db \<Rightarrow> string set" where
  "sessions_of i d = ss_hash ` {s \<in> set (ad_sessions d). ss_account s = i}"

lemma sessions_list: "sessions_of i d = set (map ss_hash (filter (\<lambda>s. ss_account s = i) (ad_sessions d)))"
  by (auto simp: sessions_of_def)

definition holdings :: "string \<Rightarrow> auth_db \<Rightarrow> string list \<times> string list \<times> string option list" where
  "holdings i d =
     (map pk_id (listPasskeys i d), map rv_hash (filter (\<lambda>c. rv_account c = i) (ad_codes d)),
      map ac_address (filter (\<lambda>a. ac_id a = i) (ad_accounts d)))"

definition closed_to :: "string \<Rightarrow> string set \<Rightarrow> auth_db \<Rightarrow> bool" where
  "closed_to i H d \<longleftrightarrow> i \<in> ac_id ` set (ad_accounts d) \<and> listPasskeys i d \<noteq> [] \<and> sessions_of i d \<subseteq> H"

definition holds_still :: "string \<Rightarrow> string list \<times> string list \<times> string option list \<Rightarrow> auth_db \<Rightarrow> bool" where
  "holds_still i h d \<longleftrightarrow> i \<in> ac_id ` set (ad_accounts d) \<and> holdings i d = h"

lemmas statement_defs =
  linkStellarAddress_def insertPasskey_def updatePasskeyCounter_def deletePasskey_def insertAuthSession_def touchAuthSession_def
  revokeAuthSession_def revokeAccountSessions_def replaceRecoveryCodes_def consumeRecoveryCode_def Let_def

lemma passkeys_of_others: "j \<noteq> i \<Longrightarrow> listPasskeys i (snd (deletePasskey j c d)) = listPasskeys i d"
  by (auto simp: listPasskeys_def deletePasskey_def Let_def intro!: filter_cong)

lemma codes_of_others: "j \<noteq> i \<Longrightarrow> filter (\<lambda>c. rv_account c \<noteq> j \<and> rv_account c = i) cs = filter (\<lambda>c. rv_account c = i) cs"
  by (auto intro!: filter_cong)

lemma deletePasskey_rest:
  "ad_accounts (snd (deletePasskey j c d)) = ad_accounts d" "ad_sessions (snd (deletePasskey j c d)) = ad_sessions d"
  "ad_codes (snd (deletePasskey j c d)) = ad_codes d"
  by (simp_all add: deletePasskey_def Let_def)

lemma accounts_of_others:
  "j \<noteq> i \<Longrightarrow> update_where (\<lambda>a. ac_id a = j) g (filter (\<lambda>a. ac_id a = i) as) = filter (\<lambda>a. ac_id a = i) as"
  by (rule update_where_none) auto

lemmas other_simps = passkeys_of_others codes_of_others deletePasskey_rest filter_update_where

interpretation revoked: auth_frame "dead h" "\<lambda>_. True" "\<lambda>_. True" for h
  by unfold_locales (auto simp: dead_def statement_defs intro: update_where_bex split: if_splits)

lemma closed_to_delete: "closed_to i H d \<Longrightarrow> j \<noteq> i \<Longrightarrow> closed_to i H (snd (deletePasskey j c d))"
  by (simp add: closed_to_def sessions_of_def other_simps)

interpretation closed_account: auth_frame "closed_to i H" "\<lambda>j. j \<noteq> i" "\<lambda>j. j \<noteq> i" for i H
  by (unfold_locales; (rule closed_to_delete)?)
    (auto simp: closed_to_def sessions_list listPasskeys_def statement_defs filter_update_where image_subset_iff split: if_splits)

lemma holds_still_delete: "holds_still i h d \<Longrightarrow> j \<noteq> i \<Longrightarrow> holds_still i h (snd (deletePasskey j c d))"
  by (simp add: holds_still_def holdings_def other_simps)

interpretation held: auth_frame "holds_still i h" "\<lambda>_. True" "\<lambda>j. j \<noteq> i" for i h
  by (unfold_locales; (rule holds_still_delete)?)
    (auto simp: holds_still_def holdings_def listPasskeys_def statement_defs codes_of_others accounts_of_others filter_update_where split: if_splits)

subsection \<open>Properties\<close>

lemma load_session_row:
  "fst (loadSession env now cookie d) = Some (Some s) \<Longrightarrow>
   \<exists>c. getCookie cookie SESSION_COOKIE = Some (Some c) \<and> s \<in> set (ad_sessions d) \<and> ss_hash s = au_sha env c \<and> evaluateSession now (Some s) = Valid"
  by (auto simp: loadSession_def Let_def getAuthSession_def nonempty_def dest!: find_SomeD split: option.splits if_splits)

lemma dead_not_loaded:
  assumes "dead h d" "getCookie cookie SESSION_COOKIE = Some (Some c)" "au_sha env c = h"
  shows "fst (loadSession env now cookie d) = Some None"
proof -
  obtain s where s: "s \<in> set (ad_sessions d)" "ss_hash s = h" "ss_revoked s" using assms(1) by (auto simp: dead_def)
  have "getAuthSession h d \<noteq> None" using s by (auto simp: getAuthSession_def find_None_iff)
  then obtain s' where s': "getAuthSession h d = Some s'" by blast
  then have "s' \<in> set (ad_sessions d)" "ss_hash s' = h" by (auto simp: getAuthSession_def dest: find_SomeD)
  then have "s' = s" using s(1,2) assms(1) by (auto simp: dead_def distinct_map dest: inj_onD)
  then show ?thesis using s' s(3) assms(2,3) by (auto simp: loadSession_def evaluateSession_def)
qed

definition auth_act :: "'w auth_env \<Rightarrow> int \<times> fresh \<times> string option \<times> 'w auth_request \<Rightarrow> auth_db \<Rightarrow> auth_db" where
  "auth_act env a d = (case a of (now, fr, cookie, req) \<Rightarrow> snd (serve_auth env now fr cookie req d))"

interpretation revoked_runs: guarded_runs "auth_act env" "\<lambda>_. True" "dead h" for env h
  by unfold_locales (auto simp: auth_act_def intro!: revoked.serve_keeps)

text \<open>
  C19. A session that was revoked, by signing out, by a rotation of its id or by a recovery, is never accepted again: whatever requests
  are served in between, a request with its cookie is served as a request without a session.
\<close>

theorem revoked_session_refused:
  assumes "distinct (map ss_hash (ad_sessions d))" "s \<in> set (ad_sessions d)" "ss_revoked s"
    "getCookie cookie SESSION_COOKIE = Some (Some c)" "au_sha env c = ss_hash s"
  shows "fst (loadSession env now cookie (fold (auth_act env) as d)) = Some None"
proof (rule dead_not_loaded)
  have "dead (ss_hash s) d" using assms(1-3) by (auto simp: dead_def)
  then show "dead (ss_hash s) (fold (auth_act env) as d)" by (rule revoked_runs.run_inv [rotated]) (simp add: list_all_iff)
qed (use assms(4,5) in simp_all)

text \<open>
  C18. For an account with a passkey, a request that brings neither a session of the account nor an assertion of one of its passkeys, an
  unused recovery code or a signature of its wallet gives no session for it and takes no passkey from it, whatever
  links of whatever mail it brings.
\<close>

theorem mailbox_alone_no_session:
  assumes "listPasskeys i d \<noteq> []" "i \<in> ac_id ` set (ad_accounts d)" "\<not> proves env req d i"
    "\<And>c. getCookie cookie SESSION_COOKIE = Some (Some c) \<Longrightarrow> au_sha env c \<notin> sessions_of i d"
  shows "sessions_of i (snd (serve_auth env now fr cookie req d)) \<subseteq> sessions_of i d \<and>
    listPasskeys i (snd (serve_auth env now fr cookie req d)) \<noteq> []"
proof -
  have "closed_to i (sessions_of i d) (snd (serve_auth env now fr cookie req d))"
  proof (rule closed_account.serve_keeps)
    show "closed_to i (sessions_of i d) d" using assms(1,2) by (simp add: closed_to_def)
    show "ss_account s \<noteq> i \<and> (isElevated now s \<longrightarrow> ss_account s \<noteq> i)" if l: "fst (loadSession env now cookie d) = Some (Some s)" for s
    proof -
      obtain c where c: "getCookie cookie SESSION_COOKIE = Some (Some c)" "s \<in> set (ad_sessions d)" "ss_hash s = au_sha env c"
        using load_session_row [OF l] by blast
      have "ss_hash s \<in> sessions_of i d" if "ss_account s = i" using c(2) that by (auto simp: sessions_of_def)
      then show ?thesis using assms(4) [OF c(1)] c(3) by auto
    qed
  qed (use assms(2,3) in auto)
  then show ?thesis by (simp add: closed_to_def)
qed

text \<open>
  C20. The passkeys, the recovery codes and the wallet of an account change only by a request with the cookie of a valid session of that
  account whose step-up window is open.
\<close>

theorem holdings_need_step_up:
  assumes "i \<in> ac_id ` set (ad_accounts d)" "holdings i (snd (serve_auth env now fr cookie req d)) \<noteq> holdings i d"
  shows "\<exists>c s. getCookie cookie SESSION_COOKIE = Some (Some c) \<and> s \<in> set (ad_sessions d) \<and> ss_hash s = au_sha env c \<and>
    ss_account s = i \<and> evaluateSession now (Some s) = Valid \<and> isElevated now s"
proof (rule ccontr)
  assume none: "\<not> ?thesis"
  have "holds_still i (holdings i d) (snd (serve_auth env now fr cookie req d))"
  proof (rule held.serve_keeps)
    show "True \<and> (isElevated now s \<longrightarrow> ss_account s \<noteq> i)" if "fst (loadSession env now cookie d) = Some (Some s)" for s
      using load_session_row [OF that] none by blast
  qed (use assms(1) in \<open>auto simp: holds_still_def\<close>)
  then show False using assms(2) by (simp add: holds_still_def)
qed

definition toy_auth :: "unit auth_env" where
  "toy_auth = \<lparr>au_sha = id, au_credential = (\<lambda>_. None), au_register = (\<lambda>_ _. Unverified), au_assert = (\<lambda>_ _ _. Unverified), au_wallet = (\<lambda>_ _. None)\<rparr>"

definition toy_fresh :: fresh where "toy_fresh = \<lparr>fr_token = ''new'', fr_uuid = ''j'', fr_codes = [''AAAAA-00000''], fr_challenge = ''x''\<rparr>"

definition toy_session :: session where
  "toy_session = \<lparr>ss_hash = ''s'', ss_account = ''i'', ss_method = ''passkey'', ss_seen = 0, ss_expires = 1000000, ss_elevated = Some 1000, ss_revoked = False\<rparr>"

definition toy_accounts :: "passkey list \<Rightarrow> auth_db" where
  "toy_accounts ks = \<lparr>ad_accounts = [\<lparr>ac_id = ''i'', ac_email = ''a@b.c'', ac_address = None\<rparr>], ad_passkeys = ks,
     ad_sessions = [toy_session, toy_session\<lparr>ss_hash := ''old'', ss_revoked := True\<rparr>], ad_challenges = [],
     ad_links = [\<lparr>el_hash = ''t'', el_email = ''a@b.c'', el_purpose = ''signup'', el_expires = 100, el_used = False\<rparr>], ad_codes = []\<rparr>"

lemma toy_cookie:
  "getCookie (Some ''sid=old'') SESSION_COOKIE = Some (Some ''old'')" "getCookie (Some ''sid=s'') SESSION_COOKIE = Some (Some ''s'')"
  "getCookie None SESSION_COOKIE = Some None" "getCookie (Some ''sid=%'') SESSION_COOKIE = None"
  by (simp_all add: getCookie_def named_cookie_def SESSION_COOKIE_def trim_def js_space_def)

theorem revoked_session_refused_witness:
  "fst (loadSession toy_auth 0 (Some ''sid=old'') (fold (auth_act toy_auth) [(0, toy_fresh, Some ''sid=s'', Logout)] (toy_accounts []))) = Some None"
  by (rule revoked_session_refused [where s = "toy_session\<lparr>ss_hash := ''old'', ss_revoked := True\<rparr>" and c = "''old''"])
    (simp_all add: toy_accounts_def toy_session_def toy_cookie toy_auth_def)

abbreviation toy_key :: passkey where "toy_key \<equiv> \<lparr>pk_id = ''k'', pk_account = ''i'', pk_key = ''p'', pk_counter = 0\<rparr>"

theorem mailbox_alone_no_session_witness:
  "sessions_of ''i'' (snd (serve_auth toy_auth 1 toy_fresh None (Email_verify ''t'') (toy_accounts [toy_key]))) \<subseteq> {''s'', ''old''}"
proof -
  have "sessions_of ''i'' (toy_accounts [toy_key]) = {''s'', ''old''}"
    by (simp add: sessions_list toy_accounts_def toy_session_def)
  moreover have "sessions_of ''i'' (snd (serve_auth toy_auth 1 toy_fresh None (Email_verify ''t'') (toy_accounts [toy_key]))) \<subseteq> sessions_of ''i'' (toy_accounts [toy_key])"
    by (rule mailbox_alone_no_session [THEN conjunct1]) (simp_all add: toy_accounts_def listPasskeys_def toy_cookie)
  ultimately show ?thesis by simp
qed

theorem holdings_need_step_up_witness:
  "\<exists>s \<in> set (ad_sessions (toy_accounts [toy_key])). ss_account s = ''i'' \<and> isElevated 1 s"
proof -
  have "holdings ''i'' (snd (serve_auth toy_auth 1 toy_fresh (Some ''sid=s'') (Delete_passkey ''k'') (toy_accounts [toy_key]))) \<noteq> holdings ''i'' (toy_accounts [toy_key])"
    by (simp add: serve_auth_def loadSession_def toy_cookie nonempty_def getAuthSession_def toy_accounts_def toy_session_def toy_auth_def
        evaluateSession_def IDLE_TIMEOUT_MS_def touchAuthSession_def requireStepUp_def isElevated_def deletePasskey_def holdings_def listPasskeys_def)
  then show ?thesis
    using holdings_need_step_up [of "''i''" "toy_accounts [toy_key]" toy_auth 1 toy_fresh "Some ''sid=s''" "Delete_passkey ''k''"]
    by (auto simp: toy_accounts_def)
qed

text \<open>
  An account without a passkey (one that signs in by its wallet, or whose last passkey was deleted) is taken over by its mailbox: the link gives an
  elevated session for it, without a recovery code.
\<close>

lemma mailbox_takes_account:
  "\<exists>r d. serve_auth toy_auth 1 toy_fresh None (Email_verify ''t'') (toy_accounts []) = (Some r, d) \<and> rp_sid r = Some ''new'' \<and>
     (\<exists>s. getAuthSession ''new'' d = Some s \<and> ss_account s = ''i'' \<and> isElevated 1 s)"
  by (simp add: serve_auth_def loadSession_def toy_cookie nonempty_def email_verify_def consumeEmailLink_def consumeEmailToken_def toy_auth_def
      toy_accounts_def toy_session_def toy_fresh_def findOrCreateAccountByEmail_def getAccountByEmail_def listPasskeys_def startSession_def
      revoke_current_def insertAuthSession_def signed_in_def getAuthSession_def isElevated_def STEP_UP_MS_def Let_def)

text \<open>A session cookie with a malformed escape rejects the middleware outside of its \<open>try\<close>.\<close>

lemma malformed_session_cookie: "serve_auth env now fr (Some ''sid=%'') req d = (None, d)"
  by (simp add: serve_auth_def loadSession_def toy_cookie)

end
