(* ===== verification/Admin_Auth.thy ===== *)
theory Admin_Auth
  imports Ip_Rules
begin

section \<open>The admin login (indexer/src/admin/adminAuth.js, admin/totp.js)\<close>

text \<open>
  The middleware before the admin routes: bearer secret, address list and one-time code. HMAC-SHA1 is a parameter that gives 20 bytes. Bytes are
  8-bit words and the truncation of the code is computed on 32-bit words as the source does. Shown: the decoder of secrets inverts
  the Base32 encoding of RFC 4648; a code is six digits and passes in its own and the neighbouring time steps, however
  often it is sent; a request passes exactly when all factors do; and a forwarded header of the sender's choice decides the
  address check.
\<close>

type_synonym bytes = "8 word list"

subsection \<open>Base32\<close>

definition BASE32_ALPHABET :: string where "BASE32_ALPHABET = ''ABCDEFGHIJKLMNOPQRSTUVWXYZ234567''"

fun index_from :: "nat \<Rightarrow> char \<Rightarrow> string \<Rightarrow> nat option" where
  "index_from i c [] = None"
| "index_from i c (x # xs) = (if c = x then Some i else index_from (Suc i) c xs)"

text \<open>\<open>val.toString(2).padStart(5, '0')\<close> and \<open>parseInt(bits, 2)\<close>, the most significant bit first.\<close>

definition bits5 :: "nat \<Rightarrow> bool list" where "bits5 v = rev (map (bit v) [0..<5])"

definition byte_of :: "bool list \<Rightarrow> 8 word" where "byte_of bits = horner_sum of_bool 2 (rev bits)"

function bytes_of :: "bool list \<Rightarrow> bytes" where
  "bytes_of bits = (if length bits < 8 then [] else byte_of (take 8 bits) # bytes_of (drop 8 bits))"
  by auto
termination by (relation "measure length") auto

declare bytes_of.simps [simp del]

definition cleaned :: "string \<Rightarrow> string" where
  "cleaned input = filter (\<lambda>c. \<not> js_space c) (rev (dropWhile (\<lambda>c. c = CHR ''='') (rev (upper input))))"

definition decodeBase32 :: "string \<Rightarrow> bytes option" where
  "decodeBase32 input =
     map_option (\<lambda>vs. bytes_of (concat (map bits5 vs))) (those (map (\<lambda>c. index_from 0 c BASE32_ALPHABET) (cleaned input)))"

subsection \<open>Codes\<close>

text \<open>\<open>writeBigUInt64BE\<close>.\<close>

definition counter_bytes :: "nat \<Rightarrow> bytes" where
  "counter_bytes n = map (\<lambda>i. word_of_nat (drop_bit (8 * i) n)) (rev [0..<8])"

definition truncated :: "bytes \<Rightarrow> 32 word" where
  "truncated h =
     (let off = unat (and (last h) 0x0f); b = (\<lambda>i m. and (ucast (h ! (off + i))) m :: 32 word)
      in or (or (or (push_bit 24 (b 0 0x7f)) (push_bit 16 (b 1 0xff))) (push_bit 8 (b 2 0xff))) (b 3 0xff))"

definition hotp :: "(bytes \<Rightarrow> bytes \<Rightarrow> bytes) \<Rightarrow> bytes \<Rightarrow> nat \<Rightarrow> nat \<Rightarrow> string" where
  "hotp mac key counter digits =
     pad_start digits CHR ''0'' (dec (nat (sint (truncated (mac key (counter_bytes counter))) mod 10 ^ digits)))"

definition step_at :: "nat \<Rightarrow> nat" where "step_at now = now div 1000 div 30"

definition generateTotp :: "(bytes \<Rightarrow> bytes \<Rightarrow> bytes) \<Rightarrow> string \<Rightarrow> nat \<Rightarrow> string option" where
  "generateTotp mac secret now = map_option (\<lambda>key. hotp mac key (step_at now) 6) (decodeBase32 secret)"

text \<open>
  \<open>verifyTotp\<close> with the options of its caller. The counters of the window; one below 0 throws (\<open>None\<close>).
\<close>

definition totp_window :: "nat \<Rightarrow> nat list option" where
  "totp_window now = (if step_at now = 0 then None else Some [step_at now - 1, step_at now, step_at now + 1])"

definition verifyTotp :: "(bytes \<Rightarrow> bytes \<Rightarrow> bytes) \<Rightarrow> string \<Rightarrow> string \<Rightarrow> nat \<Rightarrow> bool option" where
  "verifyTotp mac secret code now =
     (let t = trim code
      in if \<not> (length t = 6 \<and> all_digits t) then Some False
         else case decodeBase32 secret of
                None \<Rightarrow> Some False
              | Some key \<Rightarrow> map_option (list_ex (\<lambda>c. hotp mac key c 6 = t)) (totp_window now))"

subsection \<open>The middleware\<close>

record admin_env =
  ae_secret :: "string option"
  ae_allowlist :: "string option"
  ae_totp :: "string option"

record admin_request =
  aq_forwarded :: "string option"
  aq_remote :: "string option"
  aq_authorization :: "string option"
  aq_totp :: "string option"

datatype admin_outcome = Admin_next | Unauthorized | Forbidden | Totp_required | Admin_throws

definition listed :: "string \<Rightarrow> string list" where
  "listed s = filter (\<lambda>x. x \<noteq> []) (map trim (split_on CHR '','' s))"

definition given :: "string option \<Rightarrow> bool" where "given s \<longleftrightarrow> s \<noteq> None \<and> s \<noteq> Some []"

definition bearer :: "string option \<Rightarrow> string option" where
  "bearer h = (case h of Some s \<Rightarrow> if take 7 s = ''Bearer '' then Some (drop 7 s) else None | None \<Rightarrow> None)"

definition address_allowed :: "admin_env \<Rightarrow> admin_request \<Rightarrow> bool" where
  "address_allowed env q \<longleftrightarrow> \<not> given (ae_allowlist env) \<or>
     ipInCidrList (getClientIp (aq_forwarded q) (aq_remote q)) (Some (listed (the (ae_allowlist env))))"

definition adminAuthMiddleware :: "(bytes \<Rightarrow> bytes \<Rightarrow> bytes) \<Rightarrow> admin_env \<Rightarrow> nat \<Rightarrow> admin_request \<Rightarrow> admin_outcome" where
  "adminAuthMiddleware mac env now q =
     (if \<not> given (ae_secret env) then Unauthorized
      else if \<not> address_allowed env q then Forbidden
      else case bearer (aq_authorization q) of
             None \<Rightarrow> Unauthorized
           | Some token \<Rightarrow>
               if token \<notin> set (listed (the (ae_secret env))) then Unauthorized
               else if given (ae_totp env)
               then (case verifyTotp mac (the (ae_totp env)) (case aq_totp q of Some c \<Rightarrow> c | None \<Rightarrow> []) now of
                       None \<Rightarrow> Admin_throws | Some True \<Rightarrow> Admin_next | Some False \<Rightarrow> Totp_required)
               else Admin_next)"

subsection \<open>Base32 of RFC 4648\<close>

definition bits8 :: "8 word \<Rightarrow> bool list" where "bits8 b = rev (map (bit b) [0..<8])"

function letters :: "bool list \<Rightarrow> string" where
  "letters bits =
     (if bits = [] then []
      else BASE32_ALPHABET ! horner_sum of_bool 2 (rev (take 5 (bits @ replicate 5 False))) # letters (drop 5 bits))"
  by auto
termination by (relation "measure length") auto

declare letters.simps [simp del]

text \<open>The encoding: five bits a letter, the last group filled up with zeros, then padding signs.\<close>

definition encode32 :: "bytes \<Rightarrow> string" where "encode32 bs = letters (concat (map bits8 bs))"

lemma alphabet_index: "v < 32 \<Longrightarrow> index_from 0 (BASE32_ALPHABET ! v) BASE32_ALPHABET = Some v"
proof -
  have "\<forall>v \<in> set [0..<32]. index_from 0 (BASE32_ALPHABET ! v) BASE32_ALPHABET = Some v" unfolding BASE32_ALPHABET_def by code_simp
  then show "v < 32 \<Longrightarrow> index_from 0 (BASE32_ALPHABET ! v) BASE32_ALPHABET = Some v" by simp
qed

lemma alphabet_char: "v < 32 \<Longrightarrow> upper_char (BASE32_ALPHABET ! v) = BASE32_ALPHABET ! v \<and> upper_char (lower_char (BASE32_ALPHABET ! v)) = BASE32_ALPHABET ! v \<and>
  \<not> js_space (BASE32_ALPHABET ! v) \<and> BASE32_ALPHABET ! v \<noteq> CHR ''=''"
proof -
  have "\<forall>v \<in> set [0..<32]. upper_char (BASE32_ALPHABET ! v) = BASE32_ALPHABET ! v \<and> upper_char (lower_char (BASE32_ALPHABET ! v)) = BASE32_ALPHABET ! v \<and>
    \<not> js_space (BASE32_ALPHABET ! v) \<and> BASE32_ALPHABET ! v \<noteq> CHR ''=''" unfolding BASE32_ALPHABET_def by code_simp
  then show "v < 32 \<Longrightarrow> ?thesis" by simp
qed

lemma bits5_group:
  assumes "length c = 5"
  shows "horner_sum of_bool 2 (rev c) < (32 :: nat)" "bits5 (horner_sum of_bool 2 (rev c)) = c"
proof -
  have "horner_sum of_bool 2 (rev c) < (2 :: nat) ^ length (rev c)" by (rule horner_sum_bound)
  then show "horner_sum of_bool 2 (rev c) < (32 :: nat)" using assms by simp
  have "map (bit (horner_sum of_bool 2 (rev c) :: nat)) [0..<5] = rev c"
    using assms by (intro nth_equalityI) (auto simp: bit_horner_sum_bit_iff)
  then show "bits5 (horner_sum of_bool 2 (rev c)) = c" by (simp add: bits5_def)
qed

lemma length_bits8 [simp]: "length (bits8 b) = 8"
  by (simp add: bits8_def)

lemma byte_of_bits8 [simp]: "byte_of (bits8 b) = b"
proof -
  have "byte_of (bits8 b) = horner_sum of_bool 2 (map (bit b) [0..<8])" by (simp add: byte_of_def bits8_def)
  also have "\<dots> = take_bit 8 b" by (rule horner_sum_bit_eq_take_bit)
  finally show ?thesis by (simp add: take_bit_word_eq_self)
qed

lemma bytes_of_encoded: "length rest < 8 \<Longrightarrow> bytes_of (concat (map bits8 bs) @ rest) = bs"
  by (induction bs) (simp_all add: bytes_of.simps)

lemma letters_decoded:
  "\<exists>vs k. k < 5 \<and> list_all (\<lambda>v. v < 32) vs \<and> letters bits = map ((!) BASE32_ALPHABET) vs \<and> concat (map bits5 vs) = bits @ replicate k False"
proof (induction bits rule: letters.induct)
  case (1 bits)
  show ?case
  proof (cases "bits = []")
    case True
    then show ?thesis by (intro exI [of _ "[]"] exI [of _ 0]) (simp add: letters.simps)
  next
    case False
    then obtain vs k where IH: "k < 5" "list_all (\<lambda>v. v < 32) vs" "letters (drop 5 bits) = map ((!) BASE32_ALPHABET) vs"
      "concat (map bits5 vs) = drop 5 bits @ replicate k False"
      using 1 by blast
    let ?c = "take 5 (bits @ replicate 5 False)"
    let ?v = "horner_sum of_bool 2 (rev ?c) :: nat"
    have v: "?v < 32" "bits5 ?v = ?c" using bits5_group [of ?c] by simp_all
    have l: "letters bits = map ((!) BASE32_ALPHABET) (?v # vs)" using False IH(3) by (subst letters.simps) simp
    show ?thesis
    proof (cases "5 \<le> length bits")
      case True
      then show ?thesis using l v IH by (intro exI [of _ "?v # vs"] exI [of _ k]) simp
    next
      case short: False
      then have "drop 5 bits = []" by simp
      then have "vs = []" using IH(3) by (simp add: letters.simps)
      then show ?thesis using l v short False
        by (intro exI [of _ "?v # vs"] exI [of _ "5 - length bits"]) (simp add: Suc_diff_le)
    qed
  qed
qed

lemma those_indices: "list_all (\<lambda>v. v < 32) vs \<Longrightarrow> those (map (\<lambda>c. index_from 0 c BASE32_ALPHABET) (map ((!) BASE32_ALPHABET) vs)) = Some vs"
  by (induction vs) (simp_all add: alphabet_index)

lemma dropWhile_id: "(\<And>c. c \<in> set s \<Longrightarrow> \<not> P c) \<Longrightarrow> dropWhile P s = s"
  by (cases s) auto

lemma cleaned_letters:
  assumes "list_all (\<lambda>v. v < 32) vs" "s \<in> {map ((!) BASE32_ALPHABET) vs, lower (map ((!) BASE32_ALPHABET) vs)}"
  shows "cleaned (s @ replicate n CHR ''='') = map ((!) BASE32_ALPHABET) vs"
proof -
  let ?l = "map ((!) BASE32_ALPHABET) vs"
  have up: "upper s = ?l" using assms alphabet_char by (auto simp: upper_def lower_def list_all_iff)
  have pad: "upper (replicate n CHR ''='') = replicate n CHR ''=''" by (simp add: upper_def upper_char_def)
  have "dropWhile (\<lambda>c. c = CHR ''='') (rev (upper (s @ replicate n CHR ''=''))) = rev ?l"
  proof -
    have "upper (s @ replicate n CHR ''='') = ?l @ replicate n CHR ''=''" using up pad by (simp add: upper_def)
    moreover have "dropWhile (\<lambda>c. c = CHR ''='') (rev ?l) = rev ?l"
      by (rule dropWhile_id) (use assms(1) alphabet_char in \<open>auto simp: list_all_iff\<close>)
    moreover have "dropWhile (\<lambda>c. c = CHR ''='') (replicate n CHR ''='' @ rev ?l) = dropWhile (\<lambda>c. c = CHR ''='') (rev ?l)"
      by (induction n) auto
    ultimately show ?thesis by simp
  qed
  moreover have "filter (\<lambda>c. \<not> js_space c) ?l = ?l"
    by (rule filter_True) (use assms(1) alphabet_char in \<open>auto simp: list_all_iff\<close>)
  ultimately show ?thesis by (simp add: cleaned_def)
qed

text \<open>
  A secret written in Base32, in either case and with any padding, is decoded to its bytes.
\<close>

lemma base32_roundtrip:
  assumes "s \<in> {encode32 key, lower (encode32 key)}"
  shows "decodeBase32 (s @ replicate n CHR ''='') = Some key"
proof -
  obtain vs k where vs: "k < 5" "list_all (\<lambda>v. v < 32) vs" "encode32 key = map ((!) BASE32_ALPHABET) vs"
    "concat (map bits5 vs) = concat (map bits8 key) @ replicate k False"
    using letters_decoded [of "concat (map bits8 key)"] unfolding encode32_def by blast
  then have "cleaned (s @ replicate n CHR ''='') = map ((!) BASE32_ALPHABET) vs"
    using assms by (intro cleaned_letters) simp_all
  then have "decodeBase32 (s @ replicate n CHR ''='') = Some (bytes_of (concat (map bits5 vs)))"
    using those_indices [OF vs(2)] by (simp add: decodeBase32_def del: map_map)
  also have "bytes_of (concat (map bits5 vs)) = key" using vs(1,4) by (simp add: bytes_of_encoded)
  finally show ?thesis .
qed

lemma base32_roundtrip_witness: "decodeBase32 ''mzxw6==='' = Some [102, 111, 111]"
proof -
  have "lower (encode32 [102, 111, 111]) = ''mzxw6''" unfolding encode32_def by code_simp
  then show ?thesis using base32_roundtrip [of "''mzxw6''" "[102, 111, 111]" 3] by (simp add: numeral_3_eq_3)
qed

subsection \<open>Codes pass in their window\<close>

lemma truncated_bound: "0 \<le> sint (truncated h)"
proof -
  have "\<not> bit (truncated h) 31"
    by (auto simp: truncated_def Let_def bit_or_iff bit_push_bit_iff bit_and_iff bit_ucast_iff dest: bit_imp_le_length)
  then show ?thesis using bit_last_iff [of "truncated h"] by simp
qed

lemma hotp_digits: "length (hotp mac key c 6) = 6" "all_digits (hotp mac key c 6)"
proof -
  let ?n = "nat (sint (truncated (mac key (counter_bytes c))) mod 10 ^ 6)"
  have "?n < 10 ^ 6" by (simp add: nat_less_iff)
  then have "length (dec ?n) \<le> 6" by (rule length_dec) simp
  then show "length (hotp mac key c 6) = 6" "all_digits (hotp mac key c 6)"
    by (simp_all add: hotp_def length_pad_start all_digits_pad_start max_def)
qed

text \<open>
  The code generated at one time consists of six digits and passes at every time of the same, the preceding and the following
  30-second step, as often as it is sent.
\<close>

lemma totp_code_passes:
  assumes "generateTotp mac secret t = Some code" "step_at now \<noteq> 0" "step_at now \<le> step_at t + 1" "step_at t \<le> step_at now + 1"
  shows "length code = 6 \<and> all_digits code \<and> verifyTotp mac secret code now = Some True"
proof -
  obtain key where key: "decodeBase32 secret = Some key" "code = hotp mac key (step_at t) 6"
    using assms(1) by (auto simp: generateTotp_def)
  have d: "length code = 6" "all_digits code" using hotp_digits key(2) by simp_all
  have "step_at t \<in> {step_at now - 1, step_at now, step_at now + 1}" using assms(2-4) by auto
  then have "list_ex (\<lambda>c. hotp mac key c 6 = code) [step_at now - 1, step_at now, step_at now + 1]" using key(2) by auto
  then show ?thesis using d key(1) assms(2) by (simp add: verifyTotp_def trim_digits totp_window_def Let_def)
qed

definition toy_mac :: "bytes \<Rightarrow> bytes \<Rightarrow> bytes" where "toy_mac k m = take 20 (k @ m @ replicate 20 0)"

lemma totp_code_passes_witness:
  "\<exists>code. generateTotp toy_mac ''MZXW6==='' 60000 = Some code \<and> verifyTotp toy_mac ''MZXW6==='' code 119999 = Some True"
proof -
  have "decodeBase32 ''MZXW6==='' \<noteq> None" by code_simp
  then obtain code where c: "generateTotp toy_mac ''MZXW6==='' 60000 = Some code" by (auto simp: generateTotp_def)
  then show ?thesis using totp_code_passes [OF c, of 119999] by (simp add: step_at_def)
qed

text \<open>
  A request reaches an admin route exactly when a secret is configured, the address it names is allowed, its token is one of the secrets
  and, with a second factor configured, its code is the one of this or a neighbouring time step.
\<close>

lemma admin_request_passes_iff:
  "adminAuthMiddleware mac env now q = Admin_next \<longleftrightarrow>
     given (ae_secret env) \<and> address_allowed env q \<and>
     (\<exists>token \<in> set (listed (the (ae_secret env))). aq_authorization q = Some (''Bearer '' @ token)) \<and>
     (\<not> given (ae_totp env) \<or> verifyTotp mac (the (ae_totp env)) (case aq_totp q of Some c \<Rightarrow> c | None \<Rightarrow> []) now = Some True)"
proof -
  have b: "bearer h = Some token \<longleftrightarrow> h = Some (''Bearer '' @ token)" for h token
  proof (cases h)
    case (Some s)
    have "take 7 s = ''Bearer '' \<and> drop 7 s = token \<longleftrightarrow> s = ''Bearer '' @ token"
    proof
      assume "take 7 s = ''Bearer '' \<and> drop 7 s = token"
      then show "s = ''Bearer '' @ token" by (metis append_take_drop_id)
    qed simp
    then show ?thesis unfolding bearer_def Some option.case option.inject by (cases "take 7 s = ''Bearer ''") auto
  qed (simp add: bearer_def)
  show ?thesis
    unfolding b [symmetric] by (cases "bearer (aq_authorization q)") (auto simp: adminAuthMiddleware_def split: option.splits bool.splits)
qed

text \<open>The address is the first entry of a header the sender writes: from outside the list it passes by naming an address of it.\<close>

lemma forwarded_header_passes:
  "address_allowed \<lparr>ae_secret = Some ''s'', ae_allowlist = Some ''10.0.0.0/8'', ae_totp = None\<rparr>
     \<lparr>aq_forwarded = Some ''10.1.2.3'', aq_remote = Some ''203.0.113.9'', aq_authorization = None, aq_totp = None\<rparr>"
  "\<not> address_allowed \<lparr>ae_secret = Some ''s'', ae_allowlist = Some ''10.0.0.0/8'', ae_totp = None\<rparr>
     \<lparr>aq_forwarded = None, aq_remote = Some ''203.0.113.9'', aq_authorization = None, aq_totp = None\<rparr>"
  by code_simp+

end
