(* ===== verification/Runtime_Config.thy ===== *)
theory Runtime_Config
  imports Json Js_Number Runs
begin

section \<open>Hot-reloadable configuration (indexer/src/runtimeConfig.js and its routes in routes/admin.js)\<close>

text \<open>
  The schema of a configuration, the versioned table, and the instances that apply, revert and reload it. A change is one
  transaction under a table lock; a reload is a query whose answer arrives later, in any order; a guardrail reverts a change
  when a sample is worse than its limits. Shown: the versions of the table are 1, 2, ... without gaps, every stored configuration
  passes the schema, and every instance runs the default or a stored version; of the changes made with one expected version at most
  one succeeds. An instance whose reloads overtake each other stays on the older version, and the guardrail of one change
  undoes the changes made after it.
\<close>

subsection \<open>The schema\<close>

record runtime_config =
  rc_overrides :: "(string \<times> (string \<times> int) list) list"
  rc_flags :: "(string \<times> bool) list"
  rc_gap :: "int option"
  rc_dlq :: "int option"

definition DEFAULT_RUNTIME_CONFIG :: runtime_config where
  "DEFAULT_RUNTIME_CONFIG = \<lparr>rc_overrides = [], rc_flags = [], rc_gap = None, rc_dlq = None\<rparr>"

fun positive_int :: "json \<Rightarrow> int option" where
  "positive_int (JNum x) = (if of_int \<lfloor>x\<rfloor> = x \<and> 0 < x \<and> x \<le> 2 ^ 53 - 1 then Some \<lfloor>x\<rfloor> else None)"
| "positive_int _ = None"

definition rpm :: "json \<Rightarrow> int option" where
  "rpm v = (case positive_int v of Some n \<Rightarrow> if n \<le> 1000000 then Some n else None | None \<Rightarrow> None)"

fun boolean :: "json \<Rightarrow> bool option" where
  "boolean (JBool b) = Some b"
| "boolean _ = None"

fun record_of :: "(json \<Rightarrow> 'a option) \<Rightarrow> json \<Rightarrow> (string \<times> 'a) list option" where
  "record_of f (JObj ps) = those (map (\<lambda>(k, v). map_option (Pair k) (f v)) ps)"
| "record_of f _ = None"

definition field_or :: "'a \<Rightarrow> (json \<Rightarrow> 'a option) \<Rightarrow> json \<Rightarrow> string \<Rightarrow> 'a option" where
  "field_or d f j k = (case prop_of j k of None \<Rightarrow> Some d | Some v \<Rightarrow> f v)"

fun strict :: "string list \<Rightarrow> json \<Rightarrow> bool" where
  "strict keys (JObj ps) = list_all (\<lambda>(k, _). k \<in> set keys) ps"
| "strict keys _ = False"

definition thresholds :: "json \<Rightarrow> (int option \<times> int option) option" where
  "thresholds j =
     (if strict [''ledgerGap'', ''dlqSize''] j
      then case (field_or None (map_option Some \<circ> positive_int) j ''ledgerGap'', field_or None (map_option Some \<circ> positive_int) j ''dlqSize'') of
             (Some g, Some q) \<Rightarrow> Some (g, q) | _ \<Rightarrow> None
      else None)"

definition validateRuntimeConfig :: "json \<Rightarrow> runtime_config option" where
  "validateRuntimeConfig j =
     (if strict [''rateLimitOverrides'', ''featureFlags'', ''alertThresholds''] j
      then case (field_or [] (record_of (record_of rpm)) j ''rateLimitOverrides'', field_or [] (record_of boolean) j ''featureFlags'',
                 field_or (None, None) thresholds j ''alertThresholds'') of
             (Some ov, Some fl, Some (g, q)) \<Rightarrow> Some \<lparr>rc_overrides = ov, rc_flags = fl, rc_gap = g, rc_dlq = q\<rparr>
           | _ \<Rightarrow> None
      else None)"

text \<open>\<open>JSON.stringify(valid)\<close>, as the table stores it.\<close>

definition opt_prop :: "string \<Rightarrow> int option \<Rightarrow> (string \<times> json) list" where
  "opt_prop k v = (case v of Some n \<Rightarrow> [(k, JNum (of_int n))] | None \<Rightarrow> [])"

definition config_json :: "runtime_config \<Rightarrow> json" where
  "config_json c =
     JObj [(''rateLimitOverrides'', JObj (map (\<lambda>(k, t). (k, JObj (map (\<lambda>(k, n). (k, JNum (of_int n))) t))) (rc_overrides c))),
           (''featureFlags'', JObj (map (\<lambda>(k, b). (k, JBool b)) (rc_flags c))),
           (''alertThresholds'', JObj (opt_prop ''ledgerGap'' (rc_gap c) @ opt_prop ''dlqSize'' (rc_dlq c)))]"

subsection \<open>The table and the instances\<close>

record config_row =
  cf_version :: nat
  cf_config :: json
  cf_author :: "string option"
  cf_comment :: "string option"

text \<open>An instance: what it runs, and the answers of reloads under way.\<close>

record config_instance =
  in_version :: nat
  in_config :: runtime_config
  in_author :: "string option"
  in_comment :: "string option"
  in_loads :: "config_row option list"

record config_world =
  cw_rows :: "config_row list"
  cw_instances :: "config_instance list"

definition fresh_instance :: config_instance where
  "fresh_instance = \<lparr>in_version = 0, in_config = DEFAULT_RUNTIME_CONFIG, in_author = None, in_comment = None, in_loads = []\<rparr>"

definition setCurrent :: "config_row option \<Rightarrow> config_instance \<Rightarrow> config_instance" where
  "setCurrent row i =
     (case row of
        None \<Rightarrow> i
      | Some r \<Rightarrow>
          if cf_version r = in_version i then i
          else case validateRuntimeConfig (cf_config r) of
                 None \<Rightarrow> i
               | Some c \<Rightarrow> i\<lparr>in_version := cf_version r, in_config := c, in_author := cf_author r, in_comment := cf_comment r\<rparr>)"

definition max_version :: "config_row list \<Rightarrow> nat" where
  "max_version rows = fold (\<lambda>r m. max m (cf_version r)) rows 0"

definition loadLatest :: "config_row list \<Rightarrow> config_row option" where
  "loadLatest rows = find (\<lambda>r. cf_version r = max_version rows) rows"

datatype config_error = Invalid_config | Config_changed nat | Not_found nat

definition on_instance :: "nat \<Rightarrow> (config_instance \<Rightarrow> config_instance) \<Rightarrow> config_world \<Rightarrow> config_world" where
  "on_instance i f w = (if i < length (cw_instances w) then w\<lparr>cw_instances := (cw_instances w)[i := f (cw_instances w ! i)]\<rparr> else w)"

definition apply_config ::
  "nat \<Rightarrow> json option \<Rightarrow> jsnum \<Rightarrow> string option \<Rightarrow> string option \<Rightarrow> config_world \<Rightarrow> (config_error + config_row) \<times> config_world" where
  "apply_config i cand expectedVersion author comment w =
     (case Option.bind cand validateRuntimeConfig of
        None \<Rightarrow> (Inl Invalid_config, w)
      | Some valid \<Rightarrow>
          let v = max_version (cw_rows w)
          in if Num (of_nat v) \<noteq> expectedVersion then (Inl (Config_changed v), w)
             else let r = \<lparr>cf_version = v + 1, cf_config = config_json valid, cf_author = author, cf_comment = comment\<rparr>
                  in (Inr r, on_instance i (setCurrent (Some r)) (w\<lparr>cw_rows := cw_rows w @ [r]\<rparr>)))"

definition revertTo :: "nat \<Rightarrow> nat \<Rightarrow> string option \<Rightarrow> string option \<Rightarrow> config_world \<Rightarrow> (config_error + config_row) \<times> config_world" where
  "revertTo i target author comment w =
     (case find (\<lambda>r. cf_version r = target) (cw_rows w) of
        None \<Rightarrow> (Inl (Not_found target), w)
      | Some r \<Rightarrow>
          apply_config i (Some (cf_config r)) (Num (of_nat (in_version (cw_instances w ! i)))) author
            (case comment of Some c \<Rightarrow> Some c | None \<Rightarrow> Some (''revert to version '' @ dec target)) w)"

subsection \<open>The guardrail\<close>

record health = he_errors :: rat he_lag :: int

definition degraded :: "health \<Rightarrow> health \<Rightarrow> bool" where
  "degraded baseline now \<longleftrightarrow> max (5 / 100) (he_errors baseline * 2) < he_errors now \<or> he_lag baseline + 10 < he_lag now"

text \<open>The samples taken within the window; a sample that failed is \<open>None\<close> and skipped.\<close>

fun watchGuardrail :: "health \<Rightarrow> health option list \<Rightarrow> bool" where
  "watchGuardrail baseline [] = False"
| "watchGuardrail baseline (None # ss) = watchGuardrail baseline ss"
| "watchGuardrail baseline (Some h # ss) = (degraded baseline h \<or> watchGuardrail baseline ss)"

text \<open>
  What happens: a change by the route \<open>PUT /runtime-config\<close>, a revert by its route or by the guardrail, the query of a reload and the
  arrival of an answer.
\<close>

datatype config_act =
    Put nat "json option" jsnum "string option"
  | Revert nat nat "string option" "string option"
  | Query nat
  | Arrive nat nat

definition remove_at :: "nat \<Rightarrow> 'a list \<Rightarrow> 'a list" where
  "remove_at k xs = take k xs @ drop (Suc k) xs"

fun do_config :: "config_act \<Rightarrow> config_world \<Rightarrow> config_world" where
  "do_config (Put i c e comment) w = snd (apply_config i c e (Some ''admin'') comment w)"
| "do_config (Revert i t author comment) w = snd (revertTo i t author comment w)"
| "do_config (Query i) w = on_instance i (\<lambda>x. x\<lparr>in_loads := in_loads x @ [loadLatest (cw_rows w)]\<rparr>) w"
| "do_config (Arrive i k) w =
     on_instance i (\<lambda>x. if k < length (in_loads x) then setCurrent (in_loads x ! k) (x\<lparr>in_loads := remove_at k (in_loads x)\<rparr>) else x) w"

text \<open>What the guardrail of the change from \<open>previousVersion\<close> to \<open>applied\<close> does once it has seen the samples.\<close>

definition guardrail :: "nat \<Rightarrow> nat \<Rightarrow> nat \<Rightarrow> health \<Rightarrow> health option list \<Rightarrow> config_world \<Rightarrow> config_world" where
  "guardrail i previousVersion applied baseline samples w =
     (if 0 < previousVersion \<and> watchGuardrail baseline samples
      then snd (revertTo i previousVersion (Some ''guardrail'') (Some (''auto-revert of version '' @ dec applied)) w) else w)"

subsection \<open>A stored configuration is accepted again\<close>

definition sound_config :: "runtime_config \<Rightarrow> bool" where
  "sound_config c \<longleftrightarrow>
     (\<forall>(_, t) \<in> set (rc_overrides c). \<forall>(_, n) \<in> set t. rpm (JNum (of_int n)) = Some n) \<and>
     (\<forall>n. rc_gap c = Some n \<longrightarrow> positive_int (JNum (of_int n)) = Some n) \<and> (\<forall>n. rc_dlq c = Some n \<longrightarrow> positive_int (JNum (of_int n)) = Some n)"

lemma those_SomeD: "those xs = Some ys \<Longrightarrow> xs = map Some ys"
  by (induction xs arbitrary: ys) (auto split: option.splits)

lemma record_of_SomeD:
  assumes "record_of f j = Some ps" "(k, v) \<in> set ps"
  shows "\<exists>x. f x = Some v"
proof (cases j)
  case (JObj qs)
  with assms(1) have "map (\<lambda>(k, v). map_option (Pair k) (f v)) qs = map Some ps" by (auto dest: those_SomeD)
  moreover have "Some (k, v) \<in> set (map Some ps)" using assms(2) by auto
  ultimately have "Some (k, v) \<in> set (map (\<lambda>(k, v). map_option (Pair k) (f v)) qs)" by simp
  then obtain p where "p \<in> set qs" "(case p of (k, v) \<Rightarrow> map_option (Pair k) (f v)) = Some (k, v)" by auto
  then show ?thesis by (auto split: prod.splits)
qed (use assms in auto)

lemma record_of_map: "(\<And>k v. (k, v) \<in> set ps \<Longrightarrow> f (g v) = Some v) \<Longrightarrow> record_of f (JObj (map (\<lambda>(k, v). (k, g v)) ps)) = Some ps"
proof (induction ps)
  case (Cons p ps)
  have "f (g (snd p)) = Some (snd p)" using Cons.prems [of "fst p" "snd p"] by simp
  moreover have "record_of f (JObj (map (\<lambda>(k, v). (k, g v)) ps)) = Some ps" by (rule Cons.IH) (use Cons.prems in auto)
  ultimately show ?case by (cases p) auto
qed simp

lemma positive_int_again: "positive_int j = Some n \<Longrightarrow> positive_int (JNum (of_int n)) = Some n"
  by (cases j) (auto split: if_splits)

lemma rpm_again: "rpm j = Some n \<Longrightarrow> rpm (JNum (of_int n)) = Some n"
  by (auto simp: rpm_def positive_int_again simp del: positive_int.simps split: option.splits if_splits)

lemma thresholds_sound:
  "thresholds j = Some (g, q) \<Longrightarrow> (\<forall>n. g = Some n \<longrightarrow> positive_int (JNum (of_int n)) = Some n) \<and> (\<forall>n. q = Some n \<longrightarrow> positive_int (JNum (of_int n)) = Some n)"
  by (auto simp: thresholds_def field_or_def positive_int_again simp del: positive_int.simps split: if_splits option.splits)

lemma validated_sound:
  assumes "validateRuntimeConfig j = Some c"
  shows "sound_config c"
proof -
  from assms obtain g q where ov: "field_or [] (record_of (record_of rpm)) j ''rateLimitOverrides'' = Some (rc_overrides c)"
    and th: "field_or (None, None) thresholds j ''alertThresholds'' = Some (g, q)" "rc_gap c = g" "rc_dlq c = q"
    by (auto simp: validateRuntimeConfig_def split: if_splits option.splits)
  have "rpm (JNum (of_int n)) = Some n" if t: "(k, t) \<in> set (rc_overrides c)" "(k', n) \<in> set t" for k t k' n
  proof -
    from ov t(1) obtain v where "record_of (record_of rpm) v = Some (rc_overrides c)" by (cases "prop_of j ''rateLimitOverrides''") (auto simp: field_or_def)
    from record_of_SomeD [OF this t(1)] obtain x where "record_of rpm x = Some t" by blast
    from record_of_SomeD [OF this t(2)] show ?thesis using rpm_again by blast
  qed
  moreover have "(\<forall>n. g = Some n \<longrightarrow> positive_int (JNum (of_int n)) = Some n) \<and> (\<forall>n. q = Some n \<longrightarrow> positive_int (JNum (of_int n)) = Some n)"
    using th(1) thresholds_sound by (auto simp: field_or_def simp del: positive_int.simps split: option.splits)
  ultimately show ?thesis using th(2,3) unfolding sound_config_def by blast
qed

lemma stored_config_valid:
  assumes "validateRuntimeConfig j = Some c"
  shows "validateRuntimeConfig (config_json c) = Some c"
proof -
  have s: "sound_config c" by (rule validated_sound [OF assms])
  have "record_of (record_of rpm) (JObj (map (\<lambda>(k, t). (k, JObj (map (\<lambda>(k, n). (k, JNum (of_int n))) t))) (rc_overrides c))) = Some (rc_overrides c)"
    by (rule record_of_map, rule record_of_map) (use s in \<open>auto simp: sound_config_def\<close>)
  moreover have "record_of boolean (JObj (map (\<lambda>(k, b). (k, JBool b)) (rc_flags c))) = Some (rc_flags c)"
    by (rule record_of_map) simp
  moreover have "thresholds (JObj (opt_prop ''ledgerGap'' (rc_gap c) @ opt_prop ''dlqSize'' (rc_dlq c))) = Some (rc_gap c, rc_dlq c)"
    using s by (auto simp: thresholds_def opt_prop_def field_or_def sound_config_def simp del: positive_int.simps split: option.splits)
  ultimately show ?thesis by (simp add: validateRuntimeConfig_def config_json_def field_or_def)
qed

subsection \<open>Reachable states\<close>

definition runs_stored :: "config_row list \<Rightarrow> config_instance \<Rightarrow> bool" where
  "runs_stored rows x \<longleftrightarrow> in_version x = 0 \<and> in_config x = DEFAULT_RUNTIME_CONFIG \<or>
     (\<exists>r \<in> set rows. cf_version r = in_version x \<and> validateRuntimeConfig (cf_config r) = Some (in_config x))"

definition history_ok :: "config_row list \<Rightarrow> bool" where
  "history_ok rows \<longleftrightarrow> map cf_version rows = [1..<Suc (length rows)] \<and> (\<forall>r \<in> set rows. validateRuntimeConfig (cf_config r) \<noteq> None)"

definition instance_ok :: "config_row list \<Rightarrow> config_instance \<Rightarrow> bool" where
  "instance_ok rows x \<longleftrightarrow> runs_stored rows x \<and> (\<forall>r. Some r \<in> set (in_loads x) \<longrightarrow> r \<in> set rows)"

definition config_ok :: "config_world \<Rightarrow> bool" where
  "config_ok w \<longleftrightarrow> history_ok (cw_rows w) \<and> (\<forall>x \<in> set (cw_instances w). instance_ok (cw_rows w) x)"

lemma max_version_consecutive: "map cf_version rows = [1..<Suc (length rows)] \<Longrightarrow> max_version rows = length rows"
proof (induction rows rule: rev_induct)
  case (snoc r rows)
  then have "map cf_version rows = [1..<Suc (length rows)]" "cf_version r = Suc (length rows)" by auto
  then show ?case using snoc.IH by (simp add: max_version_def)
qed (simp add: max_version_def)

lemma instance_ok_snoc: "instance_ok rows x \<Longrightarrow> instance_ok (rows @ [r]) x"
  by (auto simp: instance_ok_def runs_stored_def)

lemma setCurrent_ok: "instance_ok rows x \<Longrightarrow> (\<And>r. row = Some r \<Longrightarrow> r \<in> set rows) \<Longrightarrow> instance_ok rows (setCurrent row x)"
  by (auto simp: setCurrent_def instance_ok_def runs_stored_def split: option.splits)

lemma on_instance_ok:
  assumes "config_ok w" "\<And>x. instance_ok (cw_rows w) x \<Longrightarrow> instance_ok (cw_rows w) (f x)"
  shows "config_ok (on_instance i f w)"
proof (cases "i < length (cw_instances w)")
  case True
  then have "instance_ok (cw_rows w) (f (cw_instances w ! i))" using assms by (simp add: config_ok_def)
  then show ?thesis using assms(1) True set_update_subset_insert [of "cw_instances w" i "f (cw_instances w ! i)"]
    by (auto simp: config_ok_def on_instance_def)
qed (simp add: assms(1) on_instance_def)

lemma apply_ok:
  assumes "config_ok w"
  shows "config_ok (snd (apply_config i cand e author comment w))"
proof -
  have h: "map cf_version (cw_rows w) = [1..<Suc (length (cw_rows w))]" "max_version (cw_rows w) = length (cw_rows w)"
    using assms max_version_consecutive by (auto simp: config_ok_def history_ok_def)
  show ?thesis
  proof (cases "Option.bind cand validateRuntimeConfig")
    case None
    then show ?thesis using assms by (simp add: apply_config_def)
  next
    case (Some valid)
    then have v: "validateRuntimeConfig (config_json valid) = Some valid" by (cases cand) (auto simp: stored_config_valid)
    let ?r = "\<lparr>cf_version = length (cw_rows w) + 1, cf_config = config_json valid, cf_author = author, cf_comment = comment\<rparr>"
    have w1: "config_ok (w\<lparr>cw_rows := cw_rows w @ [?r]\<rparr>)"
      using assms h v by (auto simp: config_ok_def history_ok_def instance_ok_snoc)
    have "config_ok (on_instance i (setCurrent (Some ?r)) (w\<lparr>cw_rows := cw_rows w @ [?r]\<rparr>))"
      by (rule on_instance_ok [OF w1]) (auto intro: setCurrent_ok)
    then show ?thesis using assms Some h(2) by (simp add: apply_config_def Let_def)
  qed
qed

lemma loadLatest_row: "loadLatest rows = Some r \<Longrightarrow> r \<in> set rows"
  by (auto simp: loadLatest_def dest: find_SomeD)

lemma set_remove_at: "set (remove_at k xs) \<subseteq> set xs"
  by (auto simp: remove_at_def dest: in_set_takeD in_set_dropD)

lemma do_config_ok:
  assumes "config_ok w"
  shows "config_ok (do_config a w)"
proof (cases a)
  case (Query i)
  show ?thesis unfolding Query do_config.simps
    by (rule on_instance_ok [OF assms]) (auto simp: instance_ok_def runs_stored_def loadLatest_row dest!: sym [of _ "loadLatest _"])
next
  case (Arrive i k)
  have "instance_ok (cw_rows w) (setCurrent (in_loads x ! k) (x\<lparr>in_loads := remove_at k (in_loads x)\<rparr>))"
    if "instance_ok (cw_rows w) x" "k < length (in_loads x)" for x
  proof (rule setCurrent_ok)
    show "instance_ok (cw_rows w) (x\<lparr>in_loads := remove_at k (in_loads x)\<rparr>)"
      using that(1) set_remove_at [of k "in_loads x"] by (auto simp: instance_ok_def runs_stored_def)
    show "r \<in> set (cw_rows w)" if "in_loads x ! k = Some r" for r
      using that \<open>instance_ok (cw_rows w) x\<close> \<open>k < length (in_loads x)\<close> by (metis instance_ok_def nth_mem)
  qed
  then show ?thesis unfolding Arrive do_config.simps by (intro on_instance_ok [OF assms]) auto
qed (auto simp: assms apply_ok revertTo_def split: option.split)

interpretation config_runs: guarded_runs do_config "\<lambda>_. True" config_ok
  by unfold_locales (rule do_config_ok)

subsection \<open>Properties\<close>

text \<open>
  C28. However changes, reverts and reloads of the instances interleave, the versions in the table are 1, 2, ... in the order of the changes, every
  stored configuration passes the schema, and every instance runs either the default configuration or one that is stored
  under the version it names.
\<close>

theorem config_history_sound:
  assumes "cw_rows w = []" "set (cw_instances w) \<subseteq> {fresh_instance}"
  shows "map cf_version (cw_rows (fold do_config as w)) = [1..<Suc (length (cw_rows (fold do_config as w)))] \<and>
    (\<forall>r \<in> set (cw_rows (fold do_config as w)). validateRuntimeConfig (cf_config r) \<noteq> None) \<and>
    (\<forall>x \<in> set (cw_instances (fold do_config as w)). runs_stored (cw_rows (fold do_config as w)) x)"
proof -
  have "config_ok w" using assms by (auto simp: config_ok_def history_ok_def instance_ok_def runs_stored_def fresh_instance_def)
  then have "config_ok (fold do_config as w)" by (rule config_runs.run_inv [rotated]) (simp add: list_all_iff)
  then show ?thesis by (auto simp: config_ok_def history_ok_def instance_ok_def)
qed

definition two_instances :: config_world where "two_instances = \<lparr>cw_rows = [], cw_instances = [fresh_instance, fresh_instance]\<rparr>"

definition flag_config :: "bool \<Rightarrow> json" where "flag_config b = JObj [(''featureFlags'', JObj [(''f'', JBool b)])]"

theorem config_history_sound_witness:
  "map cf_version (cw_rows (fold do_config [Put 0 (Some (flag_config True)) (Num 0) None, Query 1, Put 1 (Some (flag_config False)) (Num 1) None] two_instances)) = [1, 2]"
proof -
  let ?w = "fold do_config [Put 0 (Some (flag_config True)) (Num 0) None, Query 1, Put 1 (Some (flag_config False)) (Num 1) None] two_instances"
  have "length (cw_rows ?w) = 2" by code_simp
  then show ?thesis
    using config_history_sound [of two_instances "[Put 0 (Some (flag_config True)) (Num 0) None, Query 1, Put 1 (Some (flag_config False)) (Num 1) None]"]
    by (simp add: two_instances_def upt_rec)
qed

lemma rows_grow: "length (cw_rows w) \<le> length (cw_rows (do_config a w))"
  by (cases a) (auto simp: apply_config_def revertTo_def on_instance_def Let_def split: option.splits)

text \<open>
  Of all the changes that name one version as the expected one at most one is stored: after it, whatever happens in between, every
  other is refused as based on an old version.
\<close>

lemma expected_version_used_once:
  assumes "config_ok w" "fst (apply_config i c e author comment w) = Inr r"
    "w' = fold do_config as (snd (apply_config i c e author comment w))"
  shows "\<exists>v. fst (apply_config j c' e author' comment' w') \<in> {Inl Invalid_config, Inl (Config_changed v)}"
proof -
  let ?w1 = "snd (apply_config i c e author comment w)"
  have e: "e = Num (of_nat (max_version (cw_rows w)))" and l: "length (cw_rows ?w1) = Suc (length (cw_rows w))"
    using assms(2) by (auto simp: apply_config_def Let_def on_instance_def split: option.splits if_splits)
  have ok: "config_ok ?w1" by (rule apply_ok [OF assms(1)])
  have "length (cw_rows ?w1) \<le> length (cw_rows w')"
    unfolding assms(3)
    by (rule config_runs.run_related [OF _ ok, of _ "\<lambda>w w'. length (cw_rows w) \<le> length (cw_rows w')"]) (auto simp: list_all_iff rows_grow intro: order_trans)
  moreover have "config_ok w'" unfolding assms(3) by (rule config_runs.run_inv [OF _ ok]) (simp add: list_all_iff)
  then have "max_version (cw_rows w') = length (cw_rows w')" using max_version_consecutive by (auto simp: config_ok_def history_ok_def)
  moreover have "max_version (cw_rows w) = length (cw_rows w)" using assms(1) max_version_consecutive by (auto simp: config_ok_def history_ok_def)
  ultimately have "Num (of_nat (max_version (cw_rows w'))) \<noteq> e" using e l by simp
  then show ?thesis by (auto simp: apply_config_def Let_def split: option.splits)
qed

lemma expected_version_used_once_witness:
  "\<exists>v. fst (apply_config 1 (Some (flag_config False)) (Num 0) None None
      (snd (apply_config 0 (Some (flag_config True)) (Num 0) None None two_instances))) \<in> {Inl Invalid_config, Inl (Config_changed v)}"
proof -
  have "config_ok two_instances"
    by (simp add: config_ok_def history_ok_def instance_ok_def runs_stored_def fresh_instance_def two_instances_def)
  moreover obtain r where "fst (apply_config 0 (Some (flag_config True)) (Num 0) None None two_instances) = Inr r"
    by (simp add: apply_config_def Let_def flag_config_def validateRuntimeConfig_def field_or_def two_instances_def max_version_def)
  ultimately show ?thesis using expected_version_used_once [where as = "[]"] by fastforce
qed

text \<open>
  Two reloads of an instance, one queried before and one after a change, arrive in the other order: with nothing under way any more the instance
  runs the old version.
\<close>

lemma overtaken_reload_sticks:
  "let w = fold do_config [Put 0 (Some (flag_config True)) (Num 0) None, Query 1, Put 0 (Some (flag_config False)) (Num 1) None, Query 1, Arrive 1 1, Arrive 1 0]
       two_instances
   in max_version (cw_rows w) = 2 \<and> in_version (cw_instances w ! 1) = 1 \<and> in_loads (cw_instances w ! 1) = []"
  by code_simp

text \<open>
  The change to version 2 is watched; an operator corrects it by version 3; the next sample is still bad, and the guardrail stores version 1 again
  as version 4: what version 3 said is undone although nobody refused it.
\<close>

lemma guardrail_undoes_fix:
  "let w = fold do_config [Put 0 (Some (flag_config False)) (Num 0) None, Put 0 (Some (flag_config True)) (Num 1) None, Put 0 (Some (JObj [])) (Num 2) None] two_instances;
       w' = guardrail 0 1 2 \<lparr>he_errors = 0, he_lag = 0\<rparr> [Some \<lparr>he_errors = 1, he_lag = 0\<rparr>] w
   in rc_flags (in_config (cw_instances w ! 0)) = [] \<and> in_version (cw_instances w' ! 0) = 4 \<and> rc_flags (in_config (cw_instances w' ! 0)) = [(''f'', False)]"
  by code_simp

end
