(* ===== verification/Wasm_Sections.thy ===== *)
theory Wasm_Sections
  imports Js_Prelude Json "HOL-Library.Word"
begin

section \<open>Sections of a WebAssembly module (indexer/src/wasmBuildMetadata.js, wasmContractSpec.js, wasmFingerprint.js)\<close>

text \<open>
  The scanners of the sections of an uploaded module: the LEB128 reader with its 32-bit arithmetic, the custom sections, the build metadata
  read from them, the contract specification and the fingerprint. Bytes are 8-bit words, positions integers; a byte
  outside of the buffer is \<open>undefined\<close>, which counts as 0. The scans are partial functions: \<open>None\<close> is a loop that does not end. Texts are ASCII;
  SHA-256 and the XDR reader of one entry are parameters. Shown: on an encoded module the scanners find exactly its custom sections
  and the specification among them; a scan ends when no size is negative, which the reader can give: a module of 14 bytes keeps the
  indexer in the loop for ever; and the environment metadata of a real module is read as version 0.0.0.
\<close>

unbundle bit_operations_syntax

type_synonym bytes = "8 word list"

subsection \<open>Buffers\<close>

definition byte_at :: "bytes \<Rightarrow> int \<Rightarrow> 8 word option" where
  "byte_at buf i = (if 0 \<le> i \<and> i < int (length buf) then Some (buf ! nat i) else None)"

definition utf8 :: "bytes \<Rightarrow> string" where "utf8 = map (\<lambda>b. char_of (unat b))"

text \<open>\<open>buf.slice(a, b)\<close>: a negative index counts from the end; \<open>buf.toString("utf8", a, b)\<close> clamps instead.\<close>

definition clamp_index :: "bytes \<Rightarrow> int \<Rightarrow> nat" where
  "clamp_index buf i = (if i < 0 then nat (i + int (length buf)) else min (nat i) (length buf))"

definition buf_slice :: "bytes \<Rightarrow> int \<Rightarrow> int \<Rightarrow> bytes" where
  "buf_slice buf a b = (let i = clamp_index buf a; j = clamp_index buf b in take (j - i) (drop i buf))"

definition buf_text :: "bytes \<Rightarrow> int \<Rightarrow> int \<Rightarrow> string" where
  "buf_text buf a b = utf8 (take (nat b - nat a) (drop (nat a) buf))"

subsection \<open>LEB128\<close>

text \<open>\<open>result |= (byte & 0x7f) << shift\<close> on 32 bits, the shift modulo 32.\<close>

definition with_byte :: "32 word \<Rightarrow> nat \<Rightarrow> 8 word option \<Rightarrow> 32 word" where
  "with_byte result shift b =
     result OR push_bit (shift mod 32) (case b of Some b \<Rightarrow> ucast b AND 0x7f | None \<Rightarrow> 0)"

function leb_loop :: "bytes \<Rightarrow> 32 word \<Rightarrow> nat \<Rightarrow> int \<Rightarrow> 32 word \<times> int" where
  "leb_loop buf result shift off =
     (let b = byte_at buf off; result' = with_byte result shift b
      in if (case b of Some b \<Rightarrow> bit b 7 | None \<Rightarrow> False) then leb_loop buf result' (shift + 7) (off + 1) else (result', off + 1))"
  by auto
termination
  by (relation "measure (\<lambda>(buf, _, _, off). nat (int (length buf) - off))") (auto simp: byte_at_def split: if_splits)

declare leb_loop.simps [simp del]

definition readLEB128 :: "bytes \<Rightarrow> int \<Rightarrow> int \<times> int" where
  "readLEB128 buf off = map_prod sint id (leb_loop buf 0 0 off)"

subsection \<open>Scans\<close>

definition readUInt32BE :: "bytes \<Rightarrow> bytes option" where
  "readUInt32BE buf = (if length buf < 4 then None else Some (take 4 buf))"

definition WASM_MAGIC :: bytes where "WASM_MAGIC = [0x00, 0x61, 0x73, 0x6d]"

partial_function (option) sections_from :: "bytes \<Rightarrow> int \<Rightarrow> (string \<times> bytes) list option" where
  "sections_from buf pos =
     (if int (length buf) \<le> pos then Some []
      else let sectionId = byte_at buf pos; (sectionSize, start) = readLEB128 buf (pos + 1); sectionEnd = start + sectionSize
           in Option.bind (sections_from buf sectionEnd) (\<lambda>rest.
                Some (if sectionId = Some 0 \<and> start < sectionEnd
                      then let (nameLen, nameStart) = readLEB128 buf start; nameEnd = nameStart + nameLen
                           in (buf_text buf nameStart nameEnd, buf_slice buf nameEnd sectionEnd) # rest
                      else rest)))"

definition customSections :: "bytes \<Rightarrow> (string \<times> bytes) list option" where
  "customSections buf = (if length buf < 8 \<or> readUInt32BE buf \<noteq> Some WASM_MAGIC then Some [] else sections_from buf 8)"

datatype scan_error = Short_buffer | Bad_magic | No_spec_section

partial_function (option) spec_from :: "bytes \<Rightarrow> int \<Rightarrow> (scan_error + bytes) option" where
  "spec_from buf pos =
     (if int (length buf) \<le> pos then Some (Inl No_spec_section)
      else let sectionId = byte_at buf pos; (sectionSize, start) = readLEB128 buf (pos + 1); sectionEnd = start + sectionSize;
               (nameLen, afterNameLen) = readLEB128 buf start
           in if sectionId = Some 0 \<and> utf8 (buf_slice buf afterNameLen (afterNameLen + nameLen)) = ''contractspecv0''
              then Some (Inr (buf_slice buf (afterNameLen + nameLen) sectionEnd))
              else spec_from buf sectionEnd)"

definition extractContractSpecSection :: "bytes \<Rightarrow> (scan_error + bytes) option" where
  "extractContractSpecSection buf =
     (case readUInt32BE buf of
        None \<Rightarrow> Some (Inl Short_buffer)
      | Some m \<Rightarrow> if m \<noteq> WASM_MAGIC then Some (Inl Bad_magic) else spec_from buf 8)"

subsection \<open>Build metadata\<close>

text \<open>The entries between runs of zero bytes and line feeds.\<close>

fun split_runs :: "(char \<Rightarrow> bool) \<Rightarrow> string \<Rightarrow> string list" where
  "split_runs sep [] = [[]]"
| "split_runs sep (c # s) =
     (if sep c then (case s of d # _ \<Rightarrow> if sep d then split_runs sep s else [] # split_runs sep s | [] \<Rightarrow> [[], []])
      else case split_runs sep s of e # es \<Rightarrow> (c # e) # es | [] \<Rightarrow> [[c]])"

definition meta_entry :: "string \<Rightarrow> (string \<times> string) option" where
  "meta_entry e =
     (let before = takeWhile (\<lambda>c. c \<noteq> CHR ''='') e; key = trim before; val = trim (drop (Suc (length before)) e)
      in if CHR ''='' \<in> set e \<and> before \<noteq> [] \<and> key \<noteq> [] \<and> val \<noteq> [] then Some (key, val) else None)"

text \<open>\<open>result[key] = val\<close> on a plain object: storing a string as its prototype is ignored.\<close>

definition obj_put :: "string \<Rightarrow> string \<Rightarrow> (string \<times> string) list \<Rightarrow> (string \<times> string) list" where
  "obj_put k v r = (if k = ''__proto__'' then r else put_prop k v r)"

definition parseBuildMetadataSection :: "bytes \<Rightarrow> (string \<times> string) list" where
  "parseBuildMetadataSection payload =
     fold (\<lambda>(k, v) r. obj_put k v r) (List.map_filter meta_entry (split_runs (\<lambda>c. of_char c \<in> {0, 10 :: nat}) (utf8 payload))) []"

definition read_text :: "bytes \<Rightarrow> int \<Rightarrow> string \<times> int" where
  "read_text payload pos = (case readLEB128 payload pos of (n, p) \<Rightarrow> (buf_text payload p (p + n), p + n))"

fun producer_values :: "nat \<Rightarrow> bytes \<Rightarrow> int \<Rightarrow> string list \<times> int" where
  "producer_values 0 payload pos = ([], pos)"
| "producer_values (Suc j) payload pos =
     (let (name, p1) = read_text payload pos; (version, p2) = read_text payload p1; (rest, p3) = producer_values j payload p2
      in ((if version = [] then name else name @ '' '' @ version) # rest, p3))"

fun producer_fields :: "nat \<Rightarrow> bytes \<Rightarrow> int \<Rightarrow> (string \<times> string) list \<Rightarrow> (string \<times> string) list" where
  "producer_fields 0 payload pos result = result"
| "producer_fields (Suc i) payload pos result =
     (let (fieldName, p1) = read_text payload pos; (valCount, p2) = readLEB128 payload p1;
          (parts, p3) = producer_values (nat valCount) payload p2
      in producer_fields i payload p3 (obj_put fieldName (join '', '' parts) result))"

definition parseProducersSection :: "bytes \<Rightarrow> (string \<times> string) list" where
  "parseProducersSection payload = (case readLEB128 payload 0 of (fieldCount, p) \<Rightarrow> producer_fields (nat fieldCount) payload p [])"

definition parseEnvMetaSection :: "bytes \<Rightarrow> (nat \<times> nat \<times> nat) option" where
  "parseEnvMetaSection payload =
     (if length payload < 3 then None else Some (unat (payload ! 0), unat (payload ! 1), unat (payload ! 2)))"

record build_metadata =
  bm_wasm_hash :: string
  bm_size_bytes :: nat
  bm_sdk_version :: "string option"
  bm_compiler :: "string option"
  bm_optimizer :: "string option"
  bm_repository :: "string option"
  bm_commit :: "string option"
  bm_producers :: "(string \<times> string) list"

text \<open>\<open>if (bm.x) meta.x = bm.x\<close>: an empty text is falsy.\<close>

definition or_keep :: "(string \<times> string) list \<Rightarrow> string \<Rightarrow> string option \<Rightarrow> string option" where
  "or_keep props k old = (case map_of props k of Some v \<Rightarrow> if v = [] then old else Some v | None \<Rightarrow> old)"

definition meta_section :: "string \<times> bytes \<Rightarrow> build_metadata \<Rightarrow> build_metadata" where
  "meta_section s meta =
     (case s of (name, payload) \<Rightarrow>
        if name = ''contractenvmetav0''
        then (case parseEnvMetaSection payload of
                Some (a, b, c) \<Rightarrow> meta\<lparr>bm_sdk_version := Some (''v'' @ dec a @ ''.'' @ dec b @ ''.'' @ dec c)\<rparr>
              | None \<Rightarrow> meta)
        else if name = ''build_metadata''
        then let bm = parseBuildMetadataSection payload
             in meta\<lparr>bm_compiler := or_keep bm ''compiler'' (bm_compiler meta), bm_optimizer := or_keep bm ''optimizer'' (bm_optimizer meta),
                     bm_repository := or_keep bm ''repository'' (bm_repository meta), bm_commit := or_keep bm ''commit'' (bm_commit meta)\<rparr>
        else if name = ''producers''
        then let ps = parseProducersSection payload
             in meta\<lparr>bm_producers := ps,
                     bm_compiler := (if bm_compiler meta = None then or_keep ps ''processed-by'' None else bm_compiler meta)\<rparr>
        else meta)"

definition extractBuildMetadata :: "(bytes \<Rightarrow> string) \<Rightarrow> bytes \<Rightarrow> build_metadata option" where
  "extractBuildMetadata sha256 buf =
     map_option (\<lambda>ss. fold meta_section ss
        \<lparr>bm_wasm_hash = sha256 buf, bm_size_bytes = length buf, bm_sdk_version = None, bm_compiler = None, bm_optimizer = None,
         bm_repository = None, bm_commit = None, bm_producers = []\<rparr>)
       (customSections buf)"

subsection \<open>The contract specification\<close>

text \<open>The entries of the specification as the XDR reader gives them, and what \<open>decodeEntry\<close> makes of them.\<close>

datatype prim_type =
    Val | Bool | Void | Error_type | U32 | I32 | U64 | I64 | Timepoint | Duration | U128 | I128 | U256 | I256
  | Bytes_type | String_type | Symbol_type | Address_type

datatype spec_type =
    Prim prim_type
  | Udt string
  | Option_of spec_type
  | Vec_of spec_type
  | Map_of spec_type spec_type
  | Tuple_of "spec_type list"
  | BytesN nat
  | Result_of spec_type spec_type

fun prim_text :: "prim_type \<Rightarrow> string" where
  "prim_text Val = ''Val''" | "prim_text Bool = ''bool''" | "prim_text Void = ''void''" | "prim_text Error_type = ''Error''"
| "prim_text U32 = ''u32''" | "prim_text I32 = ''i32''" | "prim_text U64 = ''u64''" | "prim_text I64 = ''i64''"
| "prim_text Timepoint = ''Timepoint''" | "prim_text Duration = ''Duration''" | "prim_text U128 = ''u128''"
| "prim_text I128 = ''i128''" | "prim_text U256 = ''u256''" | "prim_text I256 = ''i256''" | "prim_text Bytes_type = ''Bytes''"
| "prim_text String_type = ''String''" | "prim_text Symbol_type = ''Symbol''" | "prim_text Address_type = ''Address''"

fun typeStr :: "spec_type \<Rightarrow> string" where
  "typeStr (Prim p) = prim_text p"
| "typeStr (Udt name) = name"
| "typeStr (Option_of t) = ''Option<'' @ typeStr t @ ''>''"
| "typeStr (Vec_of t) = ''Vec<'' @ typeStr t @ ''>''"
| "typeStr (Map_of k v) = ''Map<'' @ typeStr k @ '','' @ typeStr v @ ''>''"
| "typeStr (Tuple_of ts) = ''('' @ join '','' (map typeStr ts) @ '')''"
| "typeStr (BytesN n) = ''BytesN<'' @ dec n @ ''>''"
| "typeStr (Result_of t e) = ''Result<'' @ typeStr t @ '','' @ typeStr e @ ''>''"

datatype union_case = Void_case string | Tuple_case string "spec_type list"

datatype spec_entry =
    Function_v0 string string "(string \<times> spec_type) list" "spec_type list"
  | Udt_struct string string "(string \<times> spec_type) list"
  | Udt_union string string "union_case list"
  | Udt_enum string string "(string \<times> nat) list"
  | Udt_error_enum string string "(string \<times> nat) list"

datatype decoded_body =
    Function_body "(string \<times> string) list" "string list"
  | Struct_body "(string \<times> string) list"
  | Union_body "(string \<times> string list option) list"
  | Enum_body "(string \<times> nat) list"
  | Error_enum_body "(string \<times> nat) list"

record decoded_entry =
  de_name :: string
  de_doc :: "string option"
  de_body :: decoded_body

definition or_undefined :: "string \<Rightarrow> string option" where "or_undefined s = (if s = [] then None else Some s)"

fun case_types :: "union_case \<Rightarrow> string \<times> string list option" where
  "case_types (Void_case n) = (n, None)"
| "case_types (Tuple_case n ts) = (n, Some (map typeStr ts))"

fun decodeEntry :: "spec_entry \<Rightarrow> decoded_entry" where
  "decodeEntry (Function_v0 n d ins outs) =
     \<lparr>de_name = n, de_doc = or_undefined d, de_body = Function_body (map (map_prod id typeStr) ins) (map typeStr outs)\<rparr>"
| "decodeEntry (Udt_struct n d fs) = \<lparr>de_name = n, de_doc = or_undefined d, de_body = Struct_body (map (map_prod id typeStr) fs)\<rparr>"
| "decodeEntry (Udt_union n d cs) = \<lparr>de_name = n, de_doc = or_undefined d, de_body = Union_body (map case_types cs)\<rparr>"
| "decodeEntry (Udt_enum n d cs) = \<lparr>de_name = n, de_doc = or_undefined d, de_body = Enum_body cs\<rparr>"
| "decodeEntry (Udt_error_enum n d cs) = \<lparr>de_name = n, de_doc = or_undefined d, de_body = Error_enum_body cs\<rparr>"

definition is_function :: "decoded_entry \<Rightarrow> bool" where
  "is_function e \<longleftrightarrow> (case de_body e of Function_body _ _ \<Rightarrow> True | _ \<Rightarrow> False)"

text \<open>The entries one after another until the payload is used up; the reader of one entry throws (\<open>None\<close>) or gives it with what is left.\<close>

partial_function (option) spec_entries :: "(bytes \<Rightarrow> (spec_entry \<times> bytes) option) \<Rightarrow> bytes \<Rightarrow> decoded_entry list option option" where
  "spec_entries read data =
     (if data = [] then Some (Some [])
      else case read data of
             None \<Rightarrow> Some None
           | Some (e, rest) \<Rightarrow> Option.bind (spec_entries read rest) (\<lambda>r. Some (map_option (Cons (decodeEntry e)) r)))"

definition parseContractSpec ::
  "(bytes \<Rightarrow> (spec_entry \<times> bytes) option) \<Rightarrow> bytes \<Rightarrow> (decoded_entry list \<times> decoded_entry list) option option" where
  "parseContractSpec read wasm =
     Option.bind (extractContractSpecSection wasm) (\<lambda>r. case r of
         Inl _ \<Rightarrow> Some None
       | Inr data \<Rightarrow> map_option (map_option (\<lambda>es. (filter is_function es, filter (Not \<circ> is_function) es))) (spec_entries read data))"

subsection \<open>The fingerprint (indexer/src/wasmFingerprint.js)\<close>

text \<open>The scanner of the fingerprint stops at the end of the buffer, at a negative size and at one that leaves the buffer.\<close>

function fp_leb :: "bytes \<Rightarrow> 32 word \<Rightarrow> nat \<Rightarrow> nat \<Rightarrow> 32 word \<times> nat" where
  "fp_leb buf result shift off =
     (let b = byte_at buf (int off); result' = with_byte result shift b
      in if (case b of Some b \<Rightarrow> bit b 7 | None \<Rightarrow> False) \<and> off + 1 < length buf then fp_leb buf result' (shift + 7) (off + 1)
         else (result', off + 1))"
  by auto
termination by (relation "measure (\<lambda>(buf, _, _, off). length buf - off)") auto

declare fp_leb.simps [simp del]

lemma fp_leb_advances: "off < snd (fp_leb buf r s off)"
proof (induction buf r s off rule: fp_leb.induct)
  case (1 buf r s off)
  then show ?case by (subst fp_leb.simps) (auto simp: Let_def dest: Suc_lessD)
qed

function section_sizes :: "bytes \<Rightarrow> nat \<Rightarrow> (8 word \<times> int) list" where
  "section_sizes buf off =
     (if length buf \<le> off then []
      else let size = sint (fst (fp_leb buf 0 0 (off + 1))); start = snd (fp_leb buf 0 0 (off + 1))
           in (buf ! off, size) # (if size < 0 \<or> int (length buf) < int start + size then [] else section_sizes buf (start + nat size)))"
  by auto
termination
proof (relation "measure (\<lambda>(buf, off). length buf - off)", goal_cases)
  case (2 buf off x xa)
  have "off < length buf" using 2 by simp
  moreover have "off < snd (fp_leb buf 0 0 (off + 1)) + n" for n using fp_leb_advances [of "off + 1" buf 0 0] by simp
  ultimately show ?case using 2 by (simp add: diff_less_mono2)
qed simp

declare section_sizes.simps [simp del]

text \<open>\<open>simhash\<close>: the first 64 bits of the hash of the module, each byte from its lowest bit.\<close>

definition simhash :: "bytes \<Rightarrow> bool list" where
  "simhash digest = map (\<lambda>i. bit (digest ! (i div 8)) (i mod 8)) [0..<64]"

definition similarityScore :: "bool list \<Rightarrow> bool list \<Rightarrow> rat" where
  "similarityScore x y =
     (if x = [] \<or> y = [] \<or> length x \<noteq> length y then 0
      else of_nat (length (filter (\<lambda>(a, b). a = b) (zip x y))) / of_nat (length x))"

record labelled = lb_type :: string lb_hash :: "string option" lb_simhash :: "bool list"

text \<open>The best of the labelled modules: the first of the highest score after the stable sort.\<close>

fun best_labelled :: "bool list \<Rightarrow> labelled list \<Rightarrow> labelled option" where
  "best_labelled x [] = None"
| "best_labelled x (l # ls) =
     (case best_labelled x ls of
        Some m \<Rightarrow> if similarityScore x (lb_simhash l) < similarityScore x (lb_simhash m) then Some m else Some l
      | None \<Rightarrow> Some l)"

definition classifyProtocol :: "bool list \<Rightarrow> labelled list \<Rightarrow> rat \<Rightarrow> string \<times> rat \<times> string option" where
  "classifyProtocol x ls threshold =
     (case best_labelled x ls of
        None \<Rightarrow> (''other'', 0, None)
      | Some b \<Rightarrow> let s = similarityScore x (lb_simhash b)
                  in if threshold \<le> s then (lb_type b, s, lb_hash b) else (''other'', s, None))"

subsection \<open>Encoded modules\<close>

fun leb :: "nat \<Rightarrow> bytes" where
  "leb n = (if n < 128 then [of_nat n] else of_nat (n mod 128 + 128) # leb (n div 128))"

declare leb.simps [simp del]

datatype wasm_section = Custom bytes bytes | Other "8 word" bytes

fun section_bytes :: "wasm_section \<Rightarrow> 8 word \<times> bytes" where
  "section_bytes (Custom name payload) = (0, leb (length name) @ name @ payload)"
| "section_bytes (Other i content) = (i, content)"

definition encode_section :: "wasm_section \<Rightarrow> bytes" where
  "encode_section s = (case section_bytes s of (i, c) \<Rightarrow> i # leb (length c) @ c)"

definition encode_module :: "bytes \<Rightarrow> wasm_section list \<Rightarrow> bytes" where
  "encode_module version ss = WASM_MAGIC @ version @ concat (map encode_section ss)"

text \<open>Sections of a module: sizes below \<open>2\<^sup>3\<^sup>1\<close>, and only custom sections have the id 0.\<close>

fun section_ok :: "wasm_section \<Rightarrow> bool" where
  "section_ok (Custom name payload) \<longleftrightarrow> length (leb (length name) @ name @ payload) < 2 ^ 31"
| "section_ok (Other i content) \<longleftrightarrow> i \<noteq> 0 \<and> length content < 2 ^ 31"

lemma byte_at_append: "byte_at (pre @ b # post) (int (length pre)) = Some b"
  by (simp add: byte_at_def)

lemma byte_at_append_plus: "byte_at (pre @ buf) (int (length pre) + int k) = byte_at buf (int k)"
  by (auto simp: byte_at_def nth_append nat_add_distrib)

lemma or_disjoint: "m < 2 ^ s \<Longrightarrow> m OR push_bit s d = (m + d * 2 ^ s :: nat)"
proof -
  assume m: "m < 2 ^ s"
  have "m AND push_bit s d = 0"
  proof (rule bit_eqI)
    fix n
    have "bit m n \<longleftrightarrow> n < s \<and> bit m n" using m by (metis bit_take_bit_iff take_bit_nat_eq_self)
    then show "bit (m AND push_bit s d) n \<longleftrightarrow> bit 0 n" by (auto simp: bit_simps)
  qed
  then show ?thesis by (metis disjunctive_add_eq_or push_bit_eq_mult)
qed

lemma unat_byte: "unat (b :: 8 word) < 256"
  using unsigned_less [of b] by simp
lemma low_7_bits: "ucast b AND 0x7f = (of_nat (unat b mod 128) :: 32 word)" for b :: "8 word"
proof -
  have "ucast b AND (0x7f :: 32 word) = take_bit 7 (of_nat (unat b))" by (simp add: take_bit_eq_mask mask_eq_exp_minus_1)
  also have "\<dots> = (of_nat (take_bit 7 (unat b)))" by (rule take_bit_of_nat)
  finally show ?thesis by (simp add: take_bit_eq_mod)
qed
lemma bit_7: "bit b 7 \<longleftrightarrow> 128 \<le> unat b" for b :: "8 word"
proof -
  have "bit b 7 \<longleftrightarrow> bit (unat b) 7" by (simp add: bit_unsigned_iff)
  moreover have "unat b div 128 = of_bool (128 \<le> unat b)" using unat_byte [of b] by (cases "128 \<le> unat b") (auto intro: div_nat_eqI)
  ultimately show ?thesis by (simp add: bit_iff_odd [of "unat b"])
qed

lemma with_byte_value:
  assumes "m < 2 ^ s" "s < 32"
  shows "with_byte (of_nat m) s (Some b) = of_nat (m + unat b mod 128 * 2 ^ s)"
  using or_disjoint [OF assms(1), of "unat b mod 128"] assms(2) by (simp add: with_byte_def low_7_bits push_bit_of_nat flip: of_nat_or_eq)

lemma unat_leb_bytes: "d < 128 \<Longrightarrow> unat (of_nat d :: 8 word) = d" "d < 128 \<Longrightarrow> unat (of_nat (d + 128) :: 8 word) = d + 128"
  by (simp_all add: unsigned_of_nat take_bit_eq_mod del: of_nat_add)

lemma two_7: "(2 :: nat) ^ 7 = 128"
  by simp

lemma sint_of_small: "n < 2 ^ 31 \<Longrightarrow> sint (of_nat n :: 32 word) = int n"
  by (simp add: signed_of_nat signed_take_bit_int_eq_self)

lemma leb_loop_leb:
  assumes "m < 2 ^ s" "n * 2 ^ s < 2 ^ 31" "s < 32"
  shows "leb_loop (pre @ leb n @ post) (of_nat m) s (int (length pre)) = (of_nat (m + n * 2 ^ s), int (length pre + length (leb n)))"
  using assms
proof (induction n arbitrary: m s pre rule: leb.induct)
  case (1 n)
  show ?case
  proof (cases "n < 128")
    case True
    then show ?thesis using 1 with_byte_value [of m s "of_nat n"]
      by (subst leb_loop.simps) (simp add: leb.simps byte_at_append bit_7 unat_leb_bytes)
  next
    case False
    obtain b :: "8 word" where b: "b = of_nat (n mod 128 + 128)" by blast
    then have u: "unat b = n mod 128 + 128" by (simp only: unat_leb_bytes mod_less_divisor zero_less_numeral)
    have l: "leb n = b # leb (n div 128)" using False unfolding b by (subst leb.simps) simp
    have "n = n mod 128 + n div 128 * 128" by simp
    then have n: "n * 2 ^ s = n mod 128 * 2 ^ s + n div 128 * 2 ^ (s + 7)" by (metis add_mult_distrib mult.assoc mult.commute power_add two_7)
    then have e: "m + n * 2 ^ s = (m + n mod 128 * 2 ^ s) + n div 128 * 2 ^ (s + 7)" by simp
    have "m + n mod 128 * 2 ^ s < 2 ^ s + n mod 128 * 2 ^ s" using 1(2) by simp
    also have "\<dots> = Suc (n mod 128) * 2 ^ s" by simp
    also have "\<dots> \<le> 128 * 2 ^ s" by (intro mult_right_mono) auto
    finally have "m + n mod 128 * 2 ^ s < 2 ^ (s + 7)" by (simp add: power_add mult.commute)
    moreover have d: "n div 128 * 2 ^ (s + 7) < 2 ^ 31" using n 1(3) by linarith
    moreover have "s + 7 < 32"
    proof (rule ccontr)
      assume "\<not> s + 7 < 32"
      then have "(2 :: nat) ^ 31 \<le> 2 ^ (s + 7)" by (intro power_increasing) auto
      moreover have "1 \<le> n div 128" using False by (simp add: div_greater_zero_iff Suc_le_eq)
      ultimately have "2 ^ 31 \<le> n div 128 * 2 ^ (s + 7)" by (metis mult.left_neutral mult_le_mono)
      then show False using d by simp
    qed
    ultimately have "leb_loop ((pre @ [b]) @ leb (n div 128) @ post) (of_nat (m + n mod 128 * 2 ^ s)) (s + 7) (int (length (pre @ [b]))) =
      (of_nat ((m + n mod 128 * 2 ^ s) + n div 128 * 2 ^ (s + 7)), int (length (pre @ [b]) + length (leb (n div 128))))"
      using False by (intro 1(1))
    then show ?thesis using 1(4) with_byte_value [OF 1(2,4), of b]
      by (subst leb_loop.simps) (simp add: l byte_at_append bit_7 u e add.commute)
  qed
qed

lemma readLEB128_leb:
  assumes "n < 2 ^ 31"
  shows "readLEB128 (pre @ leb n @ post) (int (length pre)) = (int n, int (length pre + length (leb n)))"
  using leb_loop_leb [of 0 0 n pre post] assms by (simp add: readLEB128_def sint_of_small)

definition customs :: "wasm_section list \<Rightarrow> (string \<times> bytes) list" where
  "customs ss = concat (map (\<lambda>s. case s of Custom n p \<Rightarrow> [(utf8 n, p)] | Other _ _ \<Rightarrow> []) ss)"

lemma customs_simps: "customs [] = []" "customs (Custom n p # ss) = (utf8 n, p) # customs ss" "customs (Other i c # ss) = customs ss"
  by (simp_all add: customs_def)

lemma buf_text_append: "a = int (length pre) \<Longrightarrow> b = a + int (length x) \<Longrightarrow> buf_text (pre @ x @ post) a b = utf8 x"
  by (simp add: buf_text_def nat_add_distrib)

lemma buf_slice_append: "a = int (length pre) \<Longrightarrow> b = a + int (length x) \<Longrightarrow> buf_slice (pre @ x @ post) a b = x"
  by (simp add: buf_slice_def clamp_index_def nat_add_distrib min_def)

lemma section_size: "section_ok s \<Longrightarrow> length (snd (section_bytes s)) < 2 ^ 31"
  by (cases s) auto

text \<open>The header of a section: its id, its size and the position of its content.\<close>

lemma section_header:
  assumes "section_ok s" "section_bytes s = (i, c)"
  shows "byte_at (pre @ encode_section s @ post) (int (length pre)) = Some i"
    "readLEB128 (pre @ encode_section s @ post) (int (length pre) + 1) = (int (length c), int (length pre) + 1 + int (length (leb (length c))))"
    "int (length pre) + 1 + int (length (leb (length c))) + int (length c) = int (length (pre @ encode_section s))"
proof -
  have e: "encode_section s = i # leb (length c) @ c" using assms(2) by (simp add: encode_section_def)
  show "byte_at (pre @ encode_section s @ post) (int (length pre)) = Some i" by (simp add: e byte_at_append)
  have "length c < 2 ^ 31" using section_size [OF assms(1)] assms(2) by simp
  from readLEB128_leb [OF this, of "pre @ [i]" "c @ post"]
  show "readLEB128 (pre @ encode_section s @ post) (int (length pre) + 1) = (int (length c), int (length pre) + 1 + int (length (leb (length c))))"
    by (simp add: e add_ac)
  show "int (length pre) + 1 + int (length (leb (length c))) + int (length c) = int (length (pre @ encode_section s))" by (simp add: e)
qed

lemma custom_content:
  assumes "section_ok (Custom n p)"
  shows "readLEB128 (pre @ encode_section (Custom n p) @ post) (int (length pre) + 1 + int (length (leb (length (leb (length n) @ n @ p))))) =
    (int (length n), int (length pre) + 1 + int (length (leb (length (leb (length n) @ n @ p)))) + int (length (leb (length n))))"
proof -
  have "length n < 2 ^ 31" using assms by simp
  from readLEB128_leb [OF this, of "pre @ [0] @ leb (length (leb (length n) @ n @ p))" "n @ p @ post"]
  show ?thesis by (simp add: encode_section_def add_ac)
qed

lemma custom_texts:
  fixes n p pre post
  defines "buf \<equiv> pre @ encode_section (Custom n p) @ post"
    and "start \<equiv> int (length pre) + 1 + int (length (leb (length (leb (length n) @ n @ p)))) + int (length (leb (length n)))"
  shows "buf_text buf start (start + int (length n)) = utf8 n" "buf_slice buf start (start + int (length n)) = n"
    "buf_slice buf (start + int (length n)) (int (length (pre @ encode_section (Custom n p)))) = p"
proof -
  let ?pre = "pre @ [0] @ leb (length (leb (length n) @ n @ p)) @ leb (length n)"
  have b: "buf = ?pre @ n @ (p @ post)" "buf = (?pre @ n) @ p @ post" by (simp_all add: buf_def encode_section_def)
  have s: "start = int (length ?pre)" by (simp add: start_def)
  show "buf_text buf start (start + int (length n)) = utf8 n" unfolding b(1) by (rule buf_text_append) (simp_all add: s)
  show "buf_slice buf start (start + int (length n)) = n" unfolding b(1) by (rule buf_slice_append) (simp_all add: s)
  show "buf_slice buf (start + int (length n)) (int (length (pre @ encode_section (Custom n p)))) = p"
    unfolding b(2) by (rule buf_slice_append) (simp_all add: s encode_section_def)
qed

lemma leb_nonempty [simp]: "leb n \<noteq> []"
  by (subst leb.simps) simp

lemma sections_from_encoded:
  "list_all section_ok ss \<Longrightarrow> sections_from (pre @ concat (map encode_section ss)) (int (length pre)) = Some (customs ss)"
proof (induction ss arbitrary: pre)
  case Nil
  then show ?case by (subst sections_from.simps) (simp add: customs_def)
next
  case (Cons s ss)
  obtain i c where ic: "section_bytes s = (i, c)" by fastforce
  let ?post = "concat (map encode_section ss)"
  have ok: "section_ok s" and rest: "sections_from (pre @ encode_section s @ ?post) (int (length (pre @ encode_section s))) = Some (customs ss)"
    using Cons.prems Cons.IH [of "pre @ encode_section s"] by simp_all
  note h = section_header(1,2) [OF ok ic, of pre ?post] section_header(3) [OF ok ic, of pre]
  have long: "\<not> int (length (pre @ encode_section s @ ?post)) \<le> int (length pre)" using ic by (simp add: encode_section_def)
  show ?case
  proof (cases s)
    case (Custom n p)
    then have c: "i = 0" "c = leb (length n) @ n @ p" using ic by auto
    show ?thesis
      using long rest h(1,2) custom_content [OF ok [unfolded Custom], of pre ?post] custom_texts(1,3) [of pre n p ?post] h(3)
      by (subst sections_from.simps) (simp add: Custom c customs_def Let_def flip: length_append)
  next
    case (Other j x)
    then have "i \<noteq> 0" using ic ok by auto
    then show ?thesis using long rest h by (subst sections_from.simps) (simp add: Other customs_def Let_def add_ac flip: length_append)
  qed
qed

lemma spec_from_encoded:
  "list_all section_ok ss \<Longrightarrow> spec_from (pre @ concat (map encode_section ss)) (int (length pre)) =
     Some (case map_of (customs ss) ''contractspecv0'' of None \<Rightarrow> Inl No_spec_section | Some p \<Rightarrow> Inr p)"
proof (induction ss arbitrary: pre)
  case Nil
  then show ?case by (subst spec_from.simps) (simp add: customs_def)
next
  case (Cons s ss)
  obtain i c where ic: "section_bytes s = (i, c)" by fastforce
  let ?post = "concat (map encode_section ss)"
  have ok: "section_ok s" and rest: "spec_from (pre @ encode_section s @ ?post) (int (length (pre @ encode_section s))) =
      Some (case map_of (customs ss) ''contractspecv0'' of None \<Rightarrow> Inl No_spec_section | Some p \<Rightarrow> Inr p)"
    using Cons.prems Cons.IH [of "pre @ encode_section s"] by simp_all
  note h = section_header(1,2) [OF ok ic, of pre ?post] section_header(3) [OF ok ic, of pre]
  have long: "\<not> int (length (pre @ encode_section s @ ?post)) \<le> int (length pre)" using ic by (simp add: encode_section_def)
  show ?case
  proof (cases s)
    case (Custom n p)
    then have c: "i = 0" "c = leb (length n) @ n @ p" using ic by auto
    show ?thesis
      using long rest h(1,2) custom_content [OF ok [unfolded Custom], of pre ?post] custom_texts(2,3) [of pre n p ?post] h(3)
      by (subst spec_from.simps) (simp add: Custom c customs_def Let_def flip: length_append)
  next
    case (Other j x)
    then have "i \<noteq> 0" using ic ok by auto
    then show ?thesis using long rest h
      by (subst spec_from.simps) (simp add: Other customs_def Let_def add_ac split: prod.splits flip: length_append)
  qed
qed

text \<open>
  C26. On an encoded module the metadata scanner finds exactly the custom sections, in order, and the specification scanner the first one named
  contractspecv0.
\<close>

theorem module_sections_found:
  assumes "length version = 4" "list_all section_ok ss"
  shows "customSections (encode_module version ss) = Some (customs ss) \<and>
    extractContractSpecSection (encode_module version ss) =
      Some (case map_of (customs ss) ''contractspecv0'' of None \<Rightarrow> Inl No_spec_section | Some p \<Rightarrow> Inr p)"
proof -
  have "int (length (WASM_MAGIC @ version)) = 8" using assms(1) by (simp add: WASM_MAGIC_def)
  then show ?thesis
    using sections_from_encoded [OF assms(2), of "WASM_MAGIC @ version"] spec_from_encoded [OF assms(2), of "WASM_MAGIC @ version"] assms(1)
    by (simp add: customSections_def extractContractSpecSection_def encode_module_def readUInt32BE_def WASM_MAGIC_def)
qed

theorem module_sections_found_witness:
  "extractContractSpecSection (encode_module [1, 0, 0, 0] [Other 1 [0], Custom (map of_char ''contractspecv0'') [7, 8]]) = Some (Inr [7, 8])"
proof -
  let ?ss = "[Other 1 [0], Custom (map of_char ''contractspecv0'') [7, 8]]"
  have ok: "list_all section_ok ?ss" by (simp, subst leb.simps, simp)
  have "extractContractSpecSection (encode_module [1, 0, 0, 0] ?ss) =
    Some (case map_of (customs ?ss) ''contractspecv0'' of None \<Rightarrow> Inl No_spec_section | Some p \<Rightarrow> Inr p)"
    by (rule module_sections_found [THEN conjunct2]) (simp, rule ok)
  moreover have "map_of (customs ?ss) ''contractspecv0'' = Some [7, 8]" by code_simp
  ultimately show ?thesis by (simp only: option.case)
qed

subsection \<open>When a scan ends\<close>

lemma leb_loop_advances: "off < snd (leb_loop buf r s off)"
proof (induction buf r s off rule: leb_loop.induct)
  case (1 buf r s off)
  then show ?case by (subst leb_loop.simps) (auto simp: Let_def intro: less_trans [of off "off + 1"])
qed

lemma readLEB128_advances: "readLEB128 buf off = (n, p) \<Longrightarrow> off < p"
  using leb_loop_advances [of off buf 0 0] by (cases "leb_loop buf 0 0 off") (auto simp: readLEB128_def)

text \<open>A scan of a module in which no position reads as a negative number ends.\<close>

lemma nonnegative_scan_ends:
  assumes "\<And>p. 0 \<le> fst (readLEB128 buf p)"
  shows "customSections buf \<noteq> None \<and> extractContractSpecSection buf \<noteq> None"
proof -
  have "sections_from buf pos \<noteq> None \<and> spec_from buf pos \<noteq> None" for pos
  proof (induction "nat (int (length buf) - pos)" arbitrary: pos rule: less_induct)
    case less
    show ?case
    proof (cases "int (length buf) \<le> pos")
      case True
      then show ?thesis by (subst sections_from.simps, subst spec_from.simps) simp
    next
      case False
      obtain n p where l: "readLEB128 buf (pos + 1) = (n, p)" by fastforce
      then have "0 \<le> n" "pos + 1 < p" using assms [of "pos + 1"] readLEB128_advances by auto
      then have "sections_from buf (p + n) \<noteq> None \<and> spec_from buf (p + n) \<noteq> None" using False by (intro less) auto
      then show ?thesis using False l
        by (subst sections_from.simps, subst spec_from.simps) (auto simp: Let_def split: prod.splits)
    qed
  qed
  then show ?thesis by (auto simp: customSections_def extractContractSpecSection_def split: option.splits)
qed

text \<open>
  The size \<open>-6\<close> in five bytes leads from the end of the header of a section back to its beginning: both scanners stay in the loop on
  this module, the scanner of the fingerprint stops.
\<close>

definition hostile_module :: bytes where
  "hostile_module = WASM_MAGIC @ [1, 0, 0, 0, 1, 0xfa, 0xff, 0xff, 0xff, 0x0f]"

lemma hostile_size: "readLEB128 hostile_module 9 = (- 6, 14)" "length hostile_module = 14" "byte_at hostile_module 8 = Some 1"
  by code_simp+

lemma hostile_sections: "sections_from hostile_module 8 = None"
proof -
  have "\<not> (buf = hostile_module \<and> pos = 8)" if s: "sections_from buf pos = Some r" for buf pos r
  proof (rule sections_from.raw_induct [OF _ s], goal_cases)
    case (1 scan buf pos r)
    have "scan hostile_module 8 \<noteq> Some r'" for r' using 1(1) by blast
    then show ?case using 1(2) hostile_size by (auto simp: Let_def bind_eq_Some_conv)
  qed
  then show ?thesis by (cases "sections_from hostile_module 8") auto
qed

lemma hostile_spec: "spec_from hostile_module 8 = None"
proof -
  have "\<not> (buf = hostile_module \<and> pos = 8)" if s: "spec_from buf pos = Some r" for buf pos r
  proof (rule spec_from.raw_induct [OF _ s], goal_cases)
    case (1 scan buf pos r)
    have "scan hostile_module 8 \<noteq> Some r'" for r' using 1(1) by blast
    then show ?case using 1(2) hostile_size by (auto simp: Let_def split: prod.splits)
  qed
  then show ?thesis by (cases "spec_from hostile_module 8") auto
qed

lemma hostile_module_never_ends:
  "extractBuildMetadata sha256 hostile_module = None \<and> parseContractSpec read hostile_module = None \<and>
   section_sizes hostile_module 8 = [(1, - 6)]"
proof -
  have "customSections hostile_module = None" "extractContractSpecSection hostile_module = None"
    using hostile_sections hostile_spec
    by (simp_all add: customSections_def extractContractSpecSection_def readUInt32BE_def hostile_module_def WASM_MAGIC_def)
  moreover have "section_sizes hostile_module 8 = [(1, - 6)]" by code_simp
  ultimately show ?thesis by (simp add: extractBuildMetadata_def parseContractSpec_def)
qed

subsection \<open>What is read from the sections\<close>

lemma utf8_of_char [simp]: "utf8 (map of_char s) = s"
proof -
  have "char_of (unat (of_char c :: 8 word)) = c" for c
  proof -
    have "(of_char c :: 8 word) = of_nat (of_char c)" by (simp add: of_nat_of_char)
    then have "unat (of_char c :: 8 word) = of_char c" by (simp add: unsigned_of_nat take_bit_eq_mod)
    then show ?thesis by simp
  qed
  then show ?thesis by (induction s) (simp_all add: utf8_def)
qed

text \<open>The section as the build tools write it: key, equals sign, value, zero byte.\<close>

definition meta_text :: "(string \<times> string) list \<Rightarrow> string" where
  "meta_text es = concat (map (\<lambda>(k, v). k @ ''='' @ v @ [char_of (0 :: nat)]) es)"

fun meta_ok :: "string \<times> string \<Rightarrow> bool" where
  "meta_ok (k, v) \<longleftrightarrow> k \<noteq> [] \<and> v \<noteq> [] \<and> trim k = k \<and> trim v = v \<and> CHR ''='' \<notin> set k \<and> k \<noteq> ''__proto__'' \<and>
     list_all (\<lambda>c. of_char c \<notin> {0, 10 :: nat}) (k @ v)"

lemma split_runs_entry:
  "list_all (\<lambda>c. \<not> sep c) e \<Longrightarrow> sep z \<Longrightarrow> s = [] \<or> \<not> sep (hd s) \<Longrightarrow> split_runs sep (e @ z # s) = e # split_runs sep s"
proof (induction e)
  case Nil
  then show ?case by (cases s) auto
qed simp

lemma meta_entry_ok: "meta_ok (k, v) \<Longrightarrow> meta_entry (k @ ''='' @ v) = Some (k, v)"
proof -
  assume ok: "meta_ok (k, v)"
  then have "takeWhile (\<lambda>c. c \<noteq> CHR ''='') (k @ CHR ''='' # v) = k" by (subst takeWhile_append2) auto
  then show ?thesis using ok by (simp add: meta_entry_def Let_def)
qed

lemma meta_runs:
  "list_all meta_ok es \<Longrightarrow>
     List.map_filter meta_entry (split_runs (\<lambda>c. of_char c \<in> {0, 10 :: nat}) (meta_text es)) = es"
proof (induction es)
  case Nil
  then show ?case by (simp add: meta_text_def map_filter_simps meta_entry_def)
next
  case (Cons e es)
  obtain k v where e: "e = (k, v)" by fastforce
  have "meta_text es = [] \<or> of_char (hd (meta_text es)) \<notin> {0, 10 :: nat}"
    using Cons.prems by (cases es) (auto simp: meta_text_def hd_append list_all_iff dest!: hd_in_set [THEN UnI1])
  then have "split_runs (\<lambda>c. of_char c \<in> {0, 10 :: nat}) ((k @ ''='' @ v) @ char_of (0 :: nat) # meta_text es) =
      (k @ ''='' @ v) # split_runs (\<lambda>c. of_char c \<in> {0, 10 :: nat}) (meta_text es)"
    using Cons.prems e by (intro split_runs_entry) (auto simp: list_all_iff)
  moreover have "meta_text (e # es) = (k @ ''='' @ v) @ char_of (0 :: nat) # meta_text es" by (simp add: e meta_text_def)
  ultimately show ?case using Cons e meta_entry_ok [of k v] by (simp add: map_filter_simps)
qed

lemma put_all: "list_all meta_ok es \<Longrightarrow> distinct (map fst es) \<Longrightarrow> fst ` set r \<inter> fst ` set es = {} \<Longrightarrow>
  fold (\<lambda>(k, v) r. obj_put k v r) es r = r @ es"
proof (induction es arbitrary: r)
  case (Cons e es)
  obtain k v where e: "e = (k, v)" by fastforce
  have "put_prop k v r = r @ [(k, v)]" if "k \<notin> fst ` set r" for r using that by (induction r) auto
  then have "obj_put k v r = r @ [e]" using Cons.prems e by (auto simp: obj_put_def)
  moreover have "fold (\<lambda>(k, v) r. obj_put k v r) es (r @ [e]) = (r @ [e]) @ es"
    using Cons.prems by (intro Cons.IH) auto
  ultimately show ?case by (simp add: e)
qed simp

text \<open>The entries of a build metadata section written by the tools are read back as they were.\<close>

lemma build_metadata_roundtrip:
  assumes "list_all meta_ok es" "distinct (map fst es)"
  shows "parseBuildMetadataSection (map of_char (meta_text es)) = es"
  using put_all [OF assms, of "[]"] meta_runs [OF assms(1)] by (simp add: parseBuildMetadataSection_def)

text \<open>
  The environment metadata of a real module is an XDR union: its first four bytes are the discriminant 0 of the interface version, which the parser
  takes for the version.
\<close>

lemma env_version_always_zero:
  assumes "length version = 4" "length rest < 1000"
  shows "map_option bm_sdk_version
    (extractBuildMetadata sha256 (encode_module version [Custom (map of_char ''contractenvmetav0'') ([0, 0, 0, 0] @ rest)])) = Some (Some ''v0.0.0'')"
proof -
  let ?ss = "[Custom (map of_char ''contractenvmetav0'') ([0, 0, 0, 0] @ rest)]"
  have "list_all section_ok ?ss" using assms(2) by (simp, subst leb.simps, simp)
  then have "customSections (encode_module version ?ss) = Some (customs ?ss)"
    using sections_from_encoded [of ?ss "WASM_MAGIC @ version"] assms(1)
    by (simp add: customSections_def encode_module_def readUInt32BE_def WASM_MAGIC_def del: list.map)
  moreover have "customs ?ss = [(utf8 (map of_char ''contractenvmetav0''), [0, 0, 0, 0] @ rest)]" by (simp only: customs_simps)
  ultimately have "customSections (encode_module version ?ss) = Some [(''contractenvmetav0'', [0, 0, 0, 0] @ rest)]" by (simp only: utf8_of_char)
  then show ?thesis by (simp add: extractBuildMetadata_def meta_section_def parseEnvMetaSection_def dec_eval)
qed

text \<open>
  The similarity of two fingerprints is a fraction, and 1 only for equal bits. The bits are those of a cryptographic hash: they are equal for
  equal modules and unrelated otherwise.
\<close>

lemma similarity_bounds: "0 \<le> similarityScore x y \<and> similarityScore x y \<le> 1"
proof -
  have "length (filter (\<lambda>(a, b). a = b) (zip x y)) \<le> length x"
    using length_filter_le [of "\<lambda>(a, b). a = b" "zip x y"] by simp
  then show ?thesis by (auto simp: similarityScore_def divide_le_eq_1)
qed

lemma filter_zip_all: "length x = length y \<Longrightarrow> length (filter (\<lambda>(a, b). a = b) (zip x y)) = length x \<longleftrightarrow> x = y"
proof (induction x y rule: list_induct2)
  case (Cons a x b y)
  then show ?case using length_filter_le [of "\<lambda>(a, b). a = b" "zip x y"] by auto
qed simp

lemma similarity_one:
  assumes "x \<noteq> []" "length x = length y"
  shows "similarityScore x y = 1 \<longleftrightarrow> x = y"
proof -
  let ?m = "length (filter (\<lambda>(a, b). a = b) (zip x y))"
  have "similarityScore x y = of_nat ?m / of_nat (length x)" using assms by (auto simp: similarityScore_def)
  moreover have "of_nat ?m / of_nat (length x) = (1 :: rat) \<longleftrightarrow> ?m = length x" using assms(1) by (metis divide_eq_1_iff length_0_conv of_nat_eq_0_iff of_nat_eq_iff)
  ultimately show ?thesis using filter_zip_all [OF assms(2)] by argo
qed

end
