(* ===== verification/Code_Verification.thy ===== *)
theory Code_Verification
  imports Json Runs "HOL-Library.Multiset"
begin

section \<open>Verified contract code (indexer/src/contractVerifier.js, upgradeDetector.js, verify_abi.js)\<close>

text \<open>
  Reproducible-build verification: requests for a contract, the worker that builds the source in a container and compares its hash with the
  code on chain, the code hash kept per contract with its two writers, and the badge. A worker claims the oldest request and finishes it
  later, with whatever the RPC node and the builds returned; a crash forgets the claimed ones. The RPC node, the builds and the changed
  entries of a transaction are inputs. Beside them: the comparison of the registered functions with the registry on chain and of an uploaded ABI with the
  specification. Shown: behind a verified badge stand a completed verification, a build of its source, and for the hash of that build either
  the node's answer for the contract or an upgrade in a transaction with an event of the contract; the upgrade may be another contract's,
  and then the badge is false; after a crash no request of the contract is accepted again.
\<close>

subsection \<open>Requests\<close>

definition word_char :: "char \<Rightarrow> bool" where
  "word_char c \<longleftrightarrow> is_digit c \<or> CHR ''a'' \<le> lower_char c \<and> lower_char c \<le> CHR ''z'' \<or> c = CHR ''_''"

definition hex_char :: "char \<Rightarrow> bool" where
  "hex_char c \<longleftrightarrow> is_digit c \<or> CHR ''a'' \<le> c \<and> c \<le> CHR ''f''"

definition HEX64 :: "string \<Rightarrow> bool" where "HEX64 s \<longleftrightarrow> length s = 64 \<and> list_all hex_char s"

definition COMMIT :: "string \<Rightarrow> bool" where "COMMIT s \<longleftrightarrow> length s = 40 \<and> list_all hex_char s"

definition REPO_URL :: "string \<Rightarrow> bool" where
  "REPO_URL s \<longleftrightarrow>
     (case split_on CHR ''/'' s of
        [scheme, e, host, owner, repo] \<Rightarrow>
          scheme = ''https:'' \<and> e = [] \<and> host \<in> {''github.com'', ''gitlab.com'', ''codeberg.org''} \<and>
          (\<forall>p \<in> {owner, repo}. p \<noteq> [] \<and> list_all (\<lambda>c. word_char c \<or> c \<in> {CHR ''.'', CHR ''-''}) p)
      | _ \<Rightarrow> False)"

definition TOOLCHAIN_VALUE :: "string \<Rightarrow> bool" where
  "TOOLCHAIN_VALUE s \<longleftrightarrow> 1 \<le> length s \<and> length s \<le> 64 \<and> list_all (\<lambda>c. word_char c \<or> c \<in> {CHR ''.'', CHR ''+'', CHR ''-''}) s"

datatype request_error = Bad_repo | Bad_commit | Toolchain_not_object | Bad_toolchain

fun text_prop :: "json option \<Rightarrow> (string \<Rightarrow> bool) \<Rightarrow> bool" where
  "text_prop (Some (JStr s)) P = P s"
| "text_prop _ P = False"

definition toolchain_error :: "json option \<Rightarrow> request_error option" where
  "toolchain_error t =
     (case t of
        None \<Rightarrow> None
      | Some (JObj ps) \<Rightarrow>
          if list_all (\<lambda>(k, v). k \<in> {''rust'', ''soroban_sdk'', ''stellar_cli''} \<and> text_prop (Some v) TOOLCHAIN_VALUE) ps then None
          else Some Bad_toolchain
      | Some _ \<Rightarrow> Some Toolchain_not_object)"

definition validateVerificationRequest :: "json \<Rightarrow> request_error option" where
  "validateVerificationRequest body =
     (if \<not> text_prop (prop_of body ''source_repo'') REPO_URL then Some Bad_repo
      else if \<not> text_prop (prop_of body ''commit'') COMMIT then Some Bad_commit
      else toolchain_error (prop_of body ''toolchain''))"

subsection \<open>Tables\<close>

datatype verification_status = Pending | Building | Completed | Failed

datatype verification_reason =
    No_onchain_hash | Source_gone | Build_failed | No_wasm | Not_reproducible | Stale

record source = sr_repo :: string sr_commit :: string sr_toolchain :: "(string \<times> string) list"

record verification =
  vr_id :: nat
  vr_contract :: string
  vr_source :: source
  vr_status :: verification_status
  vr_reason :: "verification_reason option"
  vr_onchain :: "string option"
  vr_built :: "string option"
  vr_reproducible :: "bool option"
  vr_retrievable :: bool
  vr_by :: "string option"

text \<open>The tables, and the rows the workers have claimed and not finished.\<close>

record code_world =
  cd_rows :: "verification list"
  cd_state :: "string \<Rightarrow> (string \<times> int option) option"
  cd_jobs :: "verification list"

definition no_code :: code_world where
  "no_code = \<lparr>cd_rows = [], cd_state = (\<lambda>_. None), cd_jobs = []\<rparr>"

definition recordOnChainHash :: "string \<Rightarrow> string \<Rightarrow> int option \<Rightarrow> code_world \<Rightarrow> code_world" where
  "recordOnChainHash c h ledger w =
     (if \<not> HEX64 h then w
      else let old = (case cd_state w c of Some (_, l) \<Rightarrow> l | None \<Rightarrow> None)
           in w\<lparr>cd_state := (cd_state w)(c := Some (h, case ledger of Some l \<Rightarrow> Some l | None \<Rightarrow> old))\<rparr>)"

text \<open>The texts of a validated body.\<close>

fun str_of :: "json option \<Rightarrow> string" where
  "str_of (Some (JStr s)) = s"
| "str_of _ = []"

definition source_of :: "json \<Rightarrow> source" where
  "source_of body =
     \<lparr>sr_repo = str_of (prop_of body ''source_repo''), sr_commit = str_of (prop_of body ''commit''),
      sr_toolchain = (case prop_of body ''toolchain'' of Some (JObj ps) \<Rightarrow> map (\<lambda>(k, v). (k, str_of (Some v))) ps | _ \<Rightarrow> [])\<rparr>"

datatype request_reply = Rejected request_error | Already_queued nat | Queued nat

definition requestVerification :: "string \<Rightarrow> json \<Rightarrow> string option \<Rightarrow> code_world \<Rightarrow> request_reply \<times> code_world" where
  "requestVerification c body by_key w =
     (case validateVerificationRequest body of
        Some e \<Rightarrow> (Rejected e, w)
      | None \<Rightarrow>
          (case find (\<lambda>r. vr_contract r = c \<and> vr_status r \<in> {Pending, Building}) (cd_rows w) of
             Some r \<Rightarrow> (Already_queued (vr_id r), w)
           | None \<Rightarrow>
               let i = Suc (length (cd_rows w))
               in (Queued i, w\<lparr>cd_rows := cd_rows w @ [\<lparr>vr_id = i, vr_contract = c, vr_source = source_of body, vr_status = Pending, vr_reason = None,
                     vr_onchain = None, vr_built = None, vr_reproducible = None, vr_retrievable = True, vr_by = by_key\<rparr>]\<rparr>)))"

subsection \<open>The worker\<close>

definition set_row :: "nat \<Rightarrow> (verification \<Rightarrow> verification) \<Rightarrow> code_world \<Rightarrow> code_world" where
  "set_row i g w = w\<lparr>cd_rows := update_where (\<lambda>r. vr_id r = i) g (cd_rows w)\<rparr>"

definition claim :: "code_world \<Rightarrow> code_world" where
  "claim w =
     (case find (\<lambda>r. vr_status r = Pending) (cd_rows w) of
        None \<Rightarrow> w
      | Some r \<Rightarrow> let w' = set_row (vr_id r) (\<lambda>r. r\<lparr>vr_status := Building\<rparr>) w in w'\<lparr>cd_jobs := cd_jobs w @ [r\<lparr>vr_status := Building\<rparr>]\<rparr>)"

text \<open>A build ends with the hash it printed, if any, or throws; its error tells whether the source is gone.\<close>

datatype build = Built "string option" | Throws bool

definition docker_args :: "source \<Rightarrow> string \<Rightarrow> string list" where
  "docker_args s img =
     [''run'', ''--rm'', ''--memory=4g'', ''--cpus=2''] @ concat (map (\<lambda>(k, v). [''-e'', upper k @ ''_VERSION='' @ v]) (sr_toolchain s)) @
     [img, sr_repo s, sr_commit s]"

text \<open>The rest of \<open>processNextVerification\<close>: hash before, first and second build, hash after.\<close>

definition finish ::
  "verification \<Rightarrow> string option \<Rightarrow> build \<Rightarrow> build \<Rightarrow> string option \<Rightarrow> code_world \<Rightarrow> code_world" where
  "finish job before first second after w =
     (case before of
        None \<Rightarrow> set_row (vr_id job) (\<lambda>r. r\<lparr>vr_status := Failed, vr_reason := Some No_onchain_hash\<rparr>) w
      | Some b \<Rightarrow>
          let thrown = (case first of
                          Throws gone \<Rightarrow> Some gone
                        | Built None \<Rightarrow> None
                        | Built (Some _) \<Rightarrow> (case second of Throws gone \<Rightarrow> Some gone | Built _ \<Rightarrow> None))
          in case thrown of
               Some gone \<Rightarrow>
                 let w' = set_row (vr_id job) (\<lambda>r. r\<lparr>vr_status := Failed, vr_reason := Some (if gone then Source_gone else Build_failed),
                            vr_retrievable := \<not> gone, vr_onchain := Some b\<rparr>) w
                 in if gone
                    then w'\<lparr>cd_rows := update_where (\<lambda>r. sr_repo (vr_source r) = sr_repo (vr_source job) \<and> sr_commit (vr_source r) = sr_commit (vr_source job))
                           (\<lambda>r. r\<lparr>vr_retrievable := False\<rparr>) (cd_rows w')\<rparr>
                    else w'
             | None \<Rightarrow>
                 if after \<noteq> None \<and> after \<noteq> Some b
                 then set_row (vr_id job) (\<lambda>r. r\<lparr>vr_status := Pending, vr_reason := Some Stale\<rparr>) w
                 else case first of
                        Built (Some h) \<Rightarrow>
                          let same = (second = Built (Some h))
                          in recordOnChainHash (vr_contract job) b None
                               (set_row (vr_id job) (\<lambda>r. r\<lparr>vr_status := Completed, vr_reason := (if same then None else Some Not_reproducible),
                                  vr_onchain := Some b, vr_built := Some h, vr_reproducible := Some same\<rparr>) w)
                      | _ \<Rightarrow> set_row (vr_id job) (\<lambda>r. r\<lparr>vr_status := Failed, vr_reason := Some No_wasm, vr_onchain := Some b\<rparr>) w)"

subsection \<open>Upgrades seen by the indexer (indexer/src/upgradeDetector.js, index.js)\<close>

text \<open>
  The changed entries of a transaction that the detector reads: contract and code hash of an instance before and after. Entries that are
  neither, or not of a contract with code, are skipped.
\<close>

datatype change = State string string | Updated string string | Skipped

definition map_set :: "string \<Rightarrow> string \<Rightarrow> (string \<times> string) list \<Rightarrow> (string \<times> string) list" where
  "map_set = put_prop"

fun before_map :: "change list \<Rightarrow> (string \<times> string) list \<Rightarrow> (string \<times> string) list" where
  "before_map [] m = m"
| "before_map (State c h # cs) m = before_map cs (map_set c h m)"
| "before_map (_ # cs) m = before_map cs m"

fun after_map :: "change list \<Rightarrow> (string \<times> string) list \<Rightarrow> (string \<times> string) list" where
  "after_map [] m = m"
| "after_map (Updated c h # cs) m = after_map cs (map_set c h m)"
| "after_map (_ # cs) m = after_map cs m"

definition detectUpgrade :: "change list \<Rightarrow> (string \<times> string) option" where
  "detectUpgrade changes =
     (case find (\<lambda>(c, old). case map_of (after_map changes []) c of Some new \<Rightarrow> new \<noteq> [] \<and> new \<noteq> old | None \<Rightarrow> False) (before_map changes []) of
        Some (c, old) \<Rightarrow> Some (old, the (map_of (after_map changes []) c))
      | None \<Rightarrow> None)"

definition index_event :: "string \<Rightarrow> change list \<Rightarrow> int \<Rightarrow> code_world \<Rightarrow> code_world" where
  "index_event c changes ledger w =
     (case detectUpgrade changes of Some (_, new) \<Rightarrow> recordOnChainHash c new (Some ledger) w | None \<Rightarrow> w)"

subsection \<open>The badge\<close>

datatype badge = Unverified | Badge_pending | Badge_failed "verification_reason option" | Mismatch string string bool | Verified bool bool

text \<open>\<open>Verified reproducible retrievable\<close>, \<open>Mismatch expected actual upgraded\<close>.\<close>

definition computeBadge :: "verification option \<Rightarrow> string option \<Rightarrow> badge" where
  "computeBadge rec onchainHash =
     (case rec of
        None \<Rightarrow> Unverified
      | Some r \<Rightarrow>
          if vr_status r \<in> {Pending, Building} then Badge_pending
          else if vr_status r = Failed then Badge_failed (vr_reason r)
          else case (vr_built r, case onchainHash of Some h \<Rightarrow> Some h | None \<Rightarrow> vr_onchain r) of
                 (Some built, Some actual) \<Rightarrow>
                   if \<not> HEX64 built \<or> \<not> HEX64 actual then Unverified
                   else if built \<noteq> actual then Mismatch built actual (vr_onchain r \<noteq> Some actual)
                   else Verified (vr_reproducible r = Some True) (vr_retrievable r)
               | _ \<Rightarrow> Unverified)"

definition latest_row :: "string \<Rightarrow> code_world \<Rightarrow> verification option" where
  "latest_row c w = find (\<lambda>r. vr_contract r = c) (rev (cd_rows w))"

definition badge_of :: "string \<Rightarrow> code_world \<Rightarrow> badge" where
  "badge_of c w = computeBadge (latest_row c w) (map_option fst (cd_state w c))"

subsection \<open>Runs\<close>

text \<open>A worker finishes with the answers of the node for the contract and of the builds for the source.\<close>

datatype code_act =
    Request string json "string option"
  | Claim
  | Finish nat "string \<Rightarrow> string option" "source \<Rightarrow> build" "source \<Rightarrow> build" "string \<Rightarrow> string option"
  | Crash
  | Index string "change list" int

fun act_code :: "code_act \<Rightarrow> code_world \<Rightarrow> code_world" where
  "act_code (Request c body by_key) w = snd (requestVerification c body by_key w)"
| "act_code Claim w = claim w"
| "act_code (Finish k before first second after) w =
     (if k < length (cd_jobs w)
      then let job = cd_jobs w ! k
           in finish job (before (vr_contract job)) (first (vr_source job)) (second (vr_source job)) (after (vr_contract job))
                (w\<lparr>cd_jobs := take k (cd_jobs w) @ drop (Suc k) (cd_jobs w)\<rparr>)
      else w)"
| "act_code Crash w = w\<lparr>cd_jobs := []\<rparr>"
| "act_code (Index c changes ledger) w = index_event c changes ledger w"


subsection \<open>A verified badge is earned\<close>

text \<open>What a run has to show for a hash: a build of a source gave it, the node gave it for a contract, an upgrade that was indexed for a contract has it.\<close>

definition build_gave :: "code_act list \<Rightarrow> source \<Rightarrow> string \<Rightarrow> bool" where
  "build_gave as s h \<longleftrightarrow> (\<exists>k before first second after. Finish k before first second after \<in> set as \<and> first s = Built (Some h))"

definition node_said :: "code_act list \<Rightarrow> string \<Rightarrow> string \<Rightarrow> bool" where
  "node_said as c h \<longleftrightarrow> (\<exists>k before first second after. Finish k before first second after \<in> set as \<and> before c = Some h)"

definition upgrade_seen :: "code_act list \<Rightarrow> string \<Rightarrow> string \<Rightarrow> bool" where
  "upgrade_seen as c h \<longleftrightarrow> (\<exists>changes ledger c'. Index c changes ledger \<in> set as \<and> Updated c' h \<in> set changes)"

text \<open>The actions of a run are covered by two relations \<open>builds\<close> and \<open>runs\<close> when these hold of every build, answer and upgrade in it.\<close>

fun covered :: "(source \<Rightarrow> string \<Rightarrow> bool) \<Rightarrow> (string \<Rightarrow> string \<Rightarrow> bool) \<Rightarrow> code_act \<Rightarrow> bool" where
  "covered builds runs (Finish k before first second after) \<longleftrightarrow>
     (\<forall>c h. before c = Some h \<longrightarrow> runs c h) \<and> (\<forall>s h. first s = Built (Some h) \<longrightarrow> builds s h)"
| "covered builds runs (Index c changes ledger) \<longleftrightarrow> (\<forall>c' h. Updated c' h \<in> set changes \<longrightarrow> runs c h)"
| "covered builds runs _ \<longleftrightarrow> True"

lemma run_covered: "list_all (covered (build_gave as) (\<lambda>c h. node_said as c h \<or> upgrade_seen as c h)) as"
  unfolding list_all_iff
proof
  fix a assume a: "a \<in> set as"
  show "covered (build_gave as) (\<lambda>c h. node_said as c h \<or> upgrade_seen as c h) a"
  proof (cases a)
    case (Finish k before first second after)
    then show ?thesis using a unfolding build_gave_def node_said_def by simp blast
  next
    case (Index c changes ledger)
    then show ?thesis using a unfolding upgrade_seen_def by auto
  qed auto
qed

definition row_ok :: "(source \<Rightarrow> string \<Rightarrow> bool) \<Rightarrow> (string \<Rightarrow> string \<Rightarrow> bool) \<Rightarrow> verification \<Rightarrow> bool" where
  "row_ok builds runs r \<longleftrightarrow> (\<forall>h. vr_built r = Some h \<longrightarrow> builds (vr_source r) h) \<and> (\<forall>h. vr_onchain r = Some h \<longrightarrow> runs (vr_contract r) h)"

definition claimed :: "code_world \<Rightarrow> verification \<Rightarrow> bool" where
  "claimed w j \<longleftrightarrow> (\<forall>r \<in> set (cd_rows w). vr_id r = vr_id j \<longrightarrow> vr_contract r = vr_contract j \<and> vr_source r = vr_source j) \<and> vr_id j \<le> length (cd_rows w)"

definition code_ok :: "(source \<Rightarrow> string \<Rightarrow> bool) \<Rightarrow> (string \<Rightarrow> string \<Rightarrow> bool) \<Rightarrow> code_world \<Rightarrow> bool" where
  "code_ok builds runs w \<longleftrightarrow>
     map vr_id (cd_rows w) = map Suc [0..<length (cd_rows w)] \<and> (\<forall>r \<in> set (cd_rows w). row_ok builds runs r) \<and>
     (\<forall>j \<in> set (cd_jobs w). claimed w j) \<and> (\<forall>c h l. cd_state w c = Some (h, l) \<longrightarrow> runs c h)"

lemma after_map_values: "(c, h) \<in> set (after_map cs m) \<Longrightarrow> (c, h) \<in> set m \<or> Updated c h \<in> set cs"
proof (induction cs m rule: after_map.induct)
  case (2 c' h' cs m)
  have "(c, h) \<in> set (put_prop k v ps) \<Longrightarrow> (c, h) = (k, v) \<or> (c, h) \<in> set ps" for k v ps
    by (induction ps) (auto split: if_splits)
  then show ?case using 2 by (auto simp: map_set_def)
qed auto

lemma detected_updated: "detectUpgrade changes = Some (old, new) \<Longrightarrow> \<exists>c. Updated c new \<in> set changes"
  by (auto simp: detectUpgrade_def dest!: find_SomeD split: option.splits) (fastforce dest: map_of_SomeD after_map_values)

lemma update_ok:
  assumes "code_ok builds runs w" "\<And>r. vr_id (g r) = vr_id r" "\<And>r. vr_contract (g r) = vr_contract r" "\<And>r. vr_source (g r) = vr_source r"
    "\<And>r. r \<in> set (cd_rows w) \<Longrightarrow> P r \<Longrightarrow> row_ok builds runs r \<Longrightarrow> row_ok builds runs (g r)"
  shows "code_ok builds runs (w\<lparr>cd_rows := update_where P g (cd_rows w)\<rparr>)"
proof -
  have "map vr_id (update_where P g (cd_rows w)) = map vr_id (cd_rows w)" using assms(2) by simp
  moreover have "\<forall>r \<in> set (update_where P g (cd_rows w)). \<exists>r' \<in> set (cd_rows w). vr_id r = vr_id r' \<and> vr_contract r = vr_contract r' \<and> vr_source r = vr_source r'"
    using assms(2-4) by (auto simp: update_where_def)
  moreover have "\<forall>r \<in> set (update_where P g (cd_rows w)). row_ok builds runs r"
    using assms(1,5) by (auto simp: update_where_def code_ok_def)
  ultimately show ?thesis using assms(1) unfolding code_ok_def claimed_def by auto
qed

lemma set_row_ok:
  assumes "code_ok builds runs w" "\<And>r. vr_id (g r) = vr_id r" "\<And>r. vr_contract (g r) = vr_contract r" "\<And>r. vr_source (g r) = vr_source r"
    "\<And>r. r \<in> set (cd_rows w) \<Longrightarrow> vr_id r = i \<Longrightarrow> row_ok builds runs r \<Longrightarrow> row_ok builds runs (g r)"
  shows "code_ok builds runs (set_row i g w)"
  unfolding set_row_def by (rule update_ok) (use assms in auto)

lemma record_ok: "code_ok builds runs w \<Longrightarrow> runs c h \<Longrightarrow> code_ok builds runs (recordOnChainHash c h l w)"
  by (auto simp: recordOnChainHash_def code_ok_def claimed_def Let_def)

lemma snoc_ok:
  assumes "code_ok builds runs w" "vr_id r = Suc (length (cd_rows w))" "row_ok builds runs r"
  shows "code_ok builds runs (w\<lparr>cd_rows := cd_rows w @ [r]\<rparr>)"
  using assms unfolding code_ok_def claimed_def by auto

lemma request_ok: "code_ok builds runs w \<Longrightarrow> code_ok builds runs (snd (requestVerification c body by_key w))"
  by (auto simp: requestVerification_def row_ok_def Let_def intro: snoc_ok split: option.splits)

lemma jobs_ok: "code_ok builds runs w \<Longrightarrow> set js \<subseteq> set (cd_jobs w) \<Longrightarrow> code_ok builds runs (w\<lparr>cd_jobs := js\<rparr>)"
  unfolding code_ok_def claimed_def by auto

lemma id_unique:
  assumes "code_ok builds runs w" "r \<in> set (cd_rows w)" "r' \<in> set (cd_rows w)" "vr_id r = vr_id r'"
  shows "r = r'"
proof -
  have "inj_on vr_id (set (cd_rows w))"
    using assms(1) unfolding code_ok_def by (metis distinct_map distinct_upt inj_Suc inj_on_subset subset_UNIV)
  then show ?thesis using assms(2-4) by (auto dest: inj_onD)
qed

lemma id_bound: "code_ok builds runs w \<Longrightarrow> r \<in> set (cd_rows w) \<Longrightarrow> 1 \<le> vr_id r \<and> vr_id r \<le> length (cd_rows w)"
proof -
  assume "code_ok builds runs w" "r \<in> set (cd_rows w)"
  then have "vr_id r \<in> set (map Suc [0..<length (cd_rows w)])" unfolding code_ok_def by (metis image_eqI list.set_map)
  then show ?thesis by auto
qed

lemma claim_ok:
  assumes "code_ok builds runs w"
  shows "code_ok builds runs (claim w)"
proof (cases "find (\<lambda>r. vr_status r = Pending) (cd_rows w)")
  case None
  then show ?thesis using assms by (simp add: claim_def)
next
  case (Some r)
  then have r: "r \<in> set (cd_rows w)" by (auto dest: find_SomeD)
  let ?w = "set_row (vr_id r) (\<lambda>r. r\<lparr>vr_status := Building\<rparr>) w"
  have ok: "code_ok builds runs ?w" by (rule set_row_ok) (use assms in \<open>auto simp: row_ok_def\<close>)
  have "claimed ?w (r\<lparr>vr_status := Building\<rparr>)"
    using r id_bound [OF assms r] id_unique [OF assms _ r] by (auto simp: claimed_def set_row_def update_where_def) metis+
  moreover have "cd_jobs ?w = cd_jobs w" by (simp add: set_row_def)
  ultimately show ?thesis using ok Some by (auto simp: claim_def code_ok_def claimed_def Let_def)
qed

lemma finish_ok:
  assumes "code_ok builds runs w" "claimed w j" "\<And>h. before = Some h \<Longrightarrow> runs (vr_contract j) h"
    "\<And>h. first = Built (Some h) \<Longrightarrow> builds (vr_source j) h"
  shows "code_ok builds runs (finish j before first second after w)"
proof -
  have same: "vr_contract r = vr_contract j \<and> vr_source r = vr_source j" if "r \<in> set (cd_rows w)" "vr_id r = vr_id j" for r
    using assms(2) that by (auto simp: claimed_def)
  have plain: "code_ok builds runs (set_row (vr_id j) (\<lambda>r. r\<lparr>vr_status := st, vr_reason := re\<rparr>) w)" for st re
    by (rule set_row_ok) (use assms in \<open>auto simp: row_ok_def\<close>)
  have failed: "code_ok builds runs (set_row (vr_id j) (\<lambda>r. r\<lparr>vr_status := st, vr_reason := re, vr_onchain := Some b\<rparr>) w)" if "before = Some b" for st re b
    by (rule set_row_ok) (use assms same that in \<open>auto simp: row_ok_def\<close>)
  have thrown: "code_ok builds runs (set_row (vr_id j) (\<lambda>r. r\<lparr>vr_status := st, vr_reason := re, vr_retrievable := t, vr_onchain := Some b\<rparr>) w)"
    if "before = Some b" for st re t b
    by (rule set_row_ok) (use assms same that in \<open>auto simp: row_ok_def\<close>)
  have finished: "code_ok builds runs (recordOnChainHash (vr_contract j) b None (set_row (vr_id j)
      (\<lambda>r. r\<lparr>vr_status := st, vr_reason := re, vr_onchain := Some b, vr_built := Some h, vr_reproducible := rp\<rparr>) w))"
    if "before = Some b" "first = Built (Some h)" for st re b h rp
    by (rule record_ok, rule set_row_ok) (use assms same that in \<open>auto simp: row_ok_def\<close>)
  have flagged: "code_ok builds runs (v\<lparr>cd_rows := update_where P (\<lambda>r. r\<lparr>vr_retrievable := False\<rparr>) (cd_rows v)\<rparr>)" if "code_ok builds runs v" for v P
    by (rule update_ok [OF that]) (auto simp: row_ok_def)
  show ?thesis
    using plain failed thrown finished flagged
    by (auto simp: finish_def Let_def split: option.splits build.splits)
qed

interpretation code_runs: guarded_runs act_code "covered builds runs" "code_ok builds runs"
proof
  fix a w
  assume a: "covered builds runs a" and w: "code_ok builds runs w"
  show "code_ok builds runs (act_code a w)"
  proof (cases a)
    case (Finish k before first second after)
    have "code_ok builds runs (w\<lparr>cd_jobs := take k (cd_jobs w) @ drop (Suc k) (cd_jobs w)\<rparr>)"
      by (rule jobs_ok [OF w]) (auto dest: in_set_takeD in_set_dropD)
    moreover have "k < length (cd_jobs w) \<Longrightarrow> claimed w (cd_jobs w ! k)" using w by (simp add: code_ok_def)
    ultimately show ?thesis using a w Finish by (auto simp: Let_def claimed_def intro!: finish_ok)
  next
    case (Index c changes l)
    then have "runs c h" if "detectUpgrade changes = Some (old, h)" for old h using a detected_updated [OF that] by auto
    then show ?thesis using w Index by (auto simp: index_event_def intro: record_ok split: option.splits)
  qed (use w request_ok claim_ok jobs_ok [OF w, of "[]"] in auto)
qed

text \<open>
  C21. Behind a verified badge of a contract stands a completed verification, the contract's latest, and a hash that a build of its source gave and that
  is the answer of the node for this contract, or the new code of an upgrade indexed in a transaction with an event of it (which need not be its own
  upgrade, see below).
\<close>

theorem verified_badge_earned:
  assumes "badge_of c (fold act_code as no_code) = Verified rep ret"
  shows "\<exists>r h. latest_row c (fold act_code as no_code) = Some r \<and> vr_status r = Completed \<and> build_gave as (vr_source r) h \<and>
    (node_said as c h \<or> upgrade_seen as c h)"
proof -
  let ?w = "fold act_code as no_code"
  define runs where "runs = (\<lambda>c h. node_said as c h \<or> upgrade_seen as c h)"
  have ok: "code_ok (build_gave as) runs ?w" by (rule code_runs.run_inv [OF run_covered [of as, folded runs_def]]) (auto simp: code_ok_def no_code_def)
  from assms obtain r h where r: "latest_row c ?w = Some r" "vr_status r = Completed" "vr_built r = Some h"
    "(case cd_state ?w c of Some (x, _) \<Rightarrow> Some x | None \<Rightarrow> vr_onchain r) = Some h"
    by (auto simp: badge_of_def computeBadge_def split: option.splits if_splits) (metis (full_types) verification_status.exhaust)+
  have "r \<in> set (cd_rows ?w)" "vr_contract r = c" using r(1) by (auto simp: latest_row_def dest: find_SomeD)
  moreover from this have "row_ok (build_gave as) runs r" using ok by (simp add: code_ok_def)
  ultimately have "build_gave as (vr_source r) h \<and> runs c h"
    using r(3,4) ok unfolding row_ok_def code_ok_def by (auto split: option.splits)
  then show ?thesis using r unfolding runs_def by blast
qed

definition some_body :: json where
  "some_body = JObj [(''source_repo'', JStr ''https://github.com/a/b''), (''commit'', JStr (replicate 40 CHR ''0''))]"

definition hash_a :: string where "hash_a = replicate 64 CHR ''a''"

definition hash_b :: string where "hash_b = replicate 64 CHR ''b''"

definition one_verification :: "string \<Rightarrow> code_act list" where
  "one_verification h = [Request ''A'' some_body None, Claim, Finish 0 (\<lambda>_. Some h) (\<lambda>_. Built (Some hash_a)) (\<lambda>_. Built (Some hash_a)) (\<lambda>_. Some h)]"

text \<open>One verification, and later the indexed upgrade to the code of the declared source.\<close>

definition upgraded_run :: "code_act list" where
  "upgraded_run = one_verification hash_b @ [Index ''A'' [State ''A'' hash_b, Updated ''A'' hash_a] 7]"

theorem verified_badge_earned_witness:
  "\<exists>r h. latest_row ''A'' (fold act_code upgraded_run no_code) = Some r \<and> vr_status r = Completed \<and> build_gave upgraded_run (vr_source r) h \<and>
     (h = hash_b \<or> upgrade_seen upgraded_run ''A'' h)"
proof -
  have "badge_of ''A'' (fold act_code upgraded_run no_code) = Verified True True" by code_simp
  moreover have "node_said upgraded_run ''A'' h \<Longrightarrow> h = hash_b" for h by (auto simp: node_said_def upgraded_run_def one_verification_def)
  ultimately show ?thesis using verified_badge_earned [of "''A''" upgraded_run] by blast
qed

text \<open>
  The detector does not say whose upgrade it found, and the indexer records it for the contract of the event. A contract that emits an event
  in a transaction upgrading another one to the code of its declared source gets a verified badge, whatever code it runs.
\<close>

lemma badge_without_code:
  "let as = one_verification hash_b @ [Index ''A'' [State ''B'' hash_b, Updated ''B'' hash_a] 7]
   in badge_of ''A'' (fold act_code (one_verification hash_b) no_code) = Mismatch hash_a hash_b False \<and>
      badge_of ''A'' (fold act_code as no_code) = Verified True True"
  by code_simp

text \<open>A request of anybody for a contract replaces its badge: by \<open>pending\<close>, and by \<open>failed\<close> when the worker cannot build the named source.\<close>

lemma stranger_replaces_badge:
  "let as = one_verification hash_a @ [Request ''A'' some_body (Some ''stranger'')]
   in badge_of ''A'' (fold act_code as no_code) = Badge_pending \<and>
      badge_of ''A'' (fold act_code (as @ [Claim, Finish 0 (\<lambda>_. Some hash_a) (\<lambda>_. Throws True) (\<lambda>_. Built None) (\<lambda>_. None)]) no_code) = Badge_failed (Some Source_gone)"
  by code_simp

subsection \<open>A claimed request after a crash\<close>

text \<open>A row left at \<open>building\<close> whose worker is gone is never touched again, and keeps every later request of the contract out.\<close>

definition orphaned :: "string \<Rightarrow> nat \<Rightarrow> code_world \<Rightarrow> bool" where
  "orphaned c i w \<longleftrightarrow> (\<exists>r \<in> set (cd_rows w). vr_id r = i \<and> vr_contract r = c \<and> vr_status r = Building) \<and>
     (\<forall>j \<in> set (cd_jobs w). vr_id j \<noteq> i) \<and> inj_on vr_id (set (cd_rows w)) \<and> (\<forall>r \<in> set (cd_rows w). vr_id r \<le> length (cd_rows w))"

lemma orphaned_update:
  assumes "orphaned c i w" "\<And>r. vr_id (g r) = vr_id r" "\<And>r. vr_contract (g r) = vr_contract r"
    "\<And>r. vr_id r = i \<Longrightarrow> r \<in> set (cd_rows w) \<Longrightarrow> P r \<Longrightarrow> vr_status (g r) = vr_status r"
  shows "orphaned c i (w\<lparr>cd_rows := update_where P g (cd_rows w)\<rparr>)"
proof -
  let ?f = "\<lambda>r. if P r then g r else r"
  have f: "vr_id (?f r) = vr_id r" for r using assms(2) by simp
  have "inj_on vr_id (?f ` set (cd_rows w))"
  proof (rule inj_onI)
    fix x y
    assume "x \<in> ?f ` set (cd_rows w)" "y \<in> ?f ` set (cd_rows w)" and e: "vr_id x = vr_id y"
    then obtain q r where qr: "q \<in> set (cd_rows w)" "r \<in> set (cd_rows w)" "x = ?f q" "y = ?f r" by blast
    then have "vr_id q = vr_id r" using e f by metis
    then show "x = y" using qr assms(1) unfolding orphaned_def inj_on_def by metis
  qed
  then have "inj_on vr_id (set (update_where P g (cd_rows w)))" by (simp add: update_where_def)
  moreover from assms(1) obtain r where r: "r \<in> set (cd_rows w)" "vr_id r = i" "vr_contract r = c" "vr_status r = Building"
    by (auto simp: orphaned_def)
  then have "(if P r then g r else r) \<in> set (update_where P g (cd_rows w))" by (auto simp: update_where_def)
  then have "\<exists>r \<in> set (update_where P g (cd_rows w)). vr_id r = i \<and> vr_contract r = c \<and> vr_status r = Building"
    using r assms(2-4) by (intro bexI [of _ "if P r then g r else r"]) auto
  moreover have "\<forall>r \<in> set (update_where P g (cd_rows w)). vr_id r \<le> length (cd_rows w)"
    using assms(1,2) by (auto simp: orphaned_def update_where_def)
  ultimately show ?thesis using assms(1) by (simp add: orphaned_def)
qed

lemma orphaned_record: "orphaned c i w \<Longrightarrow> orphaned c i (recordOnChainHash c' h l w)"
  by (auto simp: orphaned_def recordOnChainHash_def Let_def)

lemma orphaned_request:
  assumes "orphaned c i w"
  shows "orphaned c i (snd (requestVerification c' body by_key w))"
proof -
  have "orphaned c i (w\<lparr>cd_rows := cd_rows w @ [r]\<rparr>)" if "vr_id r = Suc (length (cd_rows w))" for r
  proof -
    have "vr_id r \<notin> vr_id ` set (cd_rows w)" using assms that by (auto simp: orphaned_def)
    then show ?thesis using assms that by (auto simp: orphaned_def)
  qed
  then show ?thesis using assms by (auto simp: requestVerification_def Let_def split: option.splits)
qed

lemma orphaned_finish:
  assumes "orphaned c i w" "vr_id j \<noteq> i"
  shows "orphaned c i (finish j before first second after w)"
proof -
  have row: "orphaned c i (set_row (vr_id j) g v)"
    if "orphaned c i v" "\<And>r. vr_id (g r) = vr_id r" "\<And>r. vr_contract (g r) = vr_contract r" for g v
    unfolding set_row_def by (rule orphaned_update) (use that assms(2) in auto)
  have flag: "orphaned c i (v\<lparr>cd_rows := update_where P (\<lambda>r. r\<lparr>vr_retrievable := False\<rparr>) (cd_rows v)\<rparr>)" if "orphaned c i v" for v P
    by (rule orphaned_update [OF that]) auto
  show ?thesis using assms(1)
    by (auto simp: finish_def Let_def intro!: row flag orphaned_record split: option.splits build.splits)
qed

lemma orphaned_claim:
  assumes "orphaned c i w"
  shows "orphaned c i (claim w)"
proof (cases "find (\<lambda>r. vr_status r = Pending) (cd_rows w)")
  case None
  then show ?thesis using assms by (simp add: claim_def)
next
  case (Some r)
  then have r: "r \<in> set (cd_rows w)" "vr_status r = Pending" by (auto dest: find_SomeD)
  then have "vr_id r \<noteq> i" using assms by (auto simp: orphaned_def dest: inj_onD)
  moreover from this have "orphaned c i (set_row (vr_id r) (\<lambda>r. r\<lparr>vr_status := Building\<rparr>) w)"
    unfolding set_row_def by (intro orphaned_update assms) auto
  ultimately show ?thesis using Some assms by (auto simp: claim_def orphaned_def set_row_def Let_def)
qed

interpretation orphan_runs: guarded_runs act_code "\<lambda>_. True" "orphaned c i"
proof
  fix a w
  assume w: "orphaned c i w"
  show "orphaned c i (act_code a w)"
  proof (cases a)
    case (Finish k before first second after)
    have "orphaned c i (w\<lparr>cd_jobs := take k (cd_jobs w) @ drop (Suc k) (cd_jobs w)\<rparr>)"
      using w by (auto simp: orphaned_def dest: in_set_takeD in_set_dropD)
    moreover have "k < length (cd_jobs w) \<Longrightarrow> vr_id (cd_jobs w ! k) \<noteq> i" using w by (simp add: orphaned_def)
    ultimately show ?thesis using w Finish by (auto simp: Let_def intro!: orphaned_finish)
  next
    case (Index c changes l)
    then show ?thesis using w by (auto simp: index_event_def intro: orphaned_record split: option.splits)
  next
    case Crash
    then show ?thesis using w by (simp add: orphaned_def)
  qed (use w orphaned_request orphaned_claim in auto)
qed

lemma crashed_build_blocks:
  assumes "orphaned c i w" "validateVerificationRequest body = None"
  shows "\<exists>j. fst (requestVerification c body by_key (fold act_code as w)) = Already_queued j"
proof -
  have "orphaned c i (fold act_code as w)" by (rule orphan_runs.run_inv) (use assms(1) in \<open>auto simp: list_all_iff\<close>)
  then obtain r where "r \<in> set (cd_rows (fold act_code as w))" "vr_contract r = c" "vr_status r = Building" by (auto simp: orphaned_def)
  then have "find (\<lambda>r. vr_contract r = c \<and> vr_status r \<in> {Pending, Building}) (cd_rows (fold act_code as w)) \<noteq> None"
    by (auto simp: find_None_iff)
  then show ?thesis using assms(2) by (auto simp: requestVerification_def)
qed

lemma crash_orphans: "orphaned ''A'' 1 (fold act_code [Request ''A'' some_body None, Claim, Crash] no_code)"
proof -
  have "map (\<lambda>r. (vr_id r, vr_contract r, vr_status r)) (cd_rows (fold act_code [Request ''A'' some_body None, Claim, Crash] no_code)) = [(1, ''A'', Building)]"
    "cd_jobs (fold act_code [Request ''A'' some_body None, Claim, Crash] no_code) = []" by code_simp+
  then show ?thesis by (auto simp: orphaned_def)
qed

subsection \<open>What the container is given\<close>

lemma text_prop_str: "text_prop v P \<Longrightarrow> P (str_of v)"
  by (cases "(v, P)" rule: text_prop.cases) auto

lemma split_on_join: "join [c] (split_on c s) = s"
proof (induction s)
  case (Cons x s)
  then show ?case
  proof (cases "split_on c s")
    case (Cons y ys)
    then show ?thesis using Cons.IH by (cases ys) auto
  qed (simp add: split_on_nonempty)
qed simp

lemma repo_not_option: "REPO_URL s \<Longrightarrow> \<exists>t. s = ''https://'' @ t"
proof -
  assume "REPO_URL s"
  then obtain host owner repo where "split_on CHR ''/'' s = [''https:'', [], host, owner, repo]"
    by (auto simp: REPO_URL_def split: list.splits)
  then have "s = join ''/'' [''https:'', [], host, owner, repo]" using split_on_join [of "CHR ''/''" s] by simp
  then show ?thesis by simp
qed

lemma hex_char_letters: "hex_char c \<Longrightarrow> c \<noteq> CHR ''-''"
  by (auto simp: hex_char_def is_digit_def less_eq_char_def)

text \<open>
  The source coordinates of an accepted request are no options of the container command: the repository begins with \<open>https://\<close>, the commit is
  hexadecimal, and a toolchain value is one word behind its variable.
\<close>

lemma build_arguments_safe:
  assumes "validateVerificationRequest body = None" "img \<noteq> []" "hd img \<noteq> CHR ''-''"
  shows "\<forall>a \<in> set (docker_args (source_of body) img). a \<in> {''run'', ''--rm'', ''--memory=4g'', ''--cpus=2'', ''-e''} \<or> a \<noteq> [] \<and> hd a \<noteq> CHR ''-''"
proof -
  have r: "REPO_URL (sr_repo (source_of body))" and c: "COMMIT (sr_commit (source_of body))"
    using assms(1) by (auto simp: validateVerificationRequest_def source_of_def dest: text_prop_str split: if_splits)
  have t: "toolchain_error (prop_of body ''toolchain'') = None" using assms(1) by (auto simp: validateVerificationRequest_def split: if_splits)
  have "k \<in> {''rust'', ''soroban_sdk'', ''stellar_cli''}" if "(k, v) \<in> set (sr_toolchain (source_of body))" for k v
    using t that by (auto simp: toolchain_error_def source_of_def list_all_iff split: option.splits json.splits if_splits)
  note k0 = this
  have k: "upper k @ ''_VERSION='' @ v \<noteq> [] \<and> hd (upper k @ ''_VERSION='' @ v) \<noteq> CHR ''-''" if "(k, v) \<in> set (sr_toolchain (source_of body))" for k v
  proof -
    have "hd (upper n) \<noteq> CHR ''-'' \<and> upper n \<noteq> []" if "n \<in> {''rust'', ''soroban_sdk'', ''stellar_cli''}" for n
      using that by (elim insertE emptyE) (simp_all, code_simp+)
    then show ?thesis using k0 [OF that] by (simp add: hd_append)
  qed
  have c': "sr_commit (source_of body) \<noteq> [] \<and> hd (sr_commit (source_of body)) \<noteq> CHR ''-''"
    using c hex_char_letters by (cases "sr_commit (source_of body)") (auto simp: COMMIT_def)
  show ?thesis using repo_not_option [OF r] c' k assms(2,3) by (auto simp: docker_args_def)
qed

subsection \<open>Registered functions and the registry on chain\<close>

text \<open>A function of the stored or the native list: a plain name or an object with an optional name.\<close>

datatype listed_fn = Fn_name string | Fn_object "string option"

definition fn_name :: "listed_fn \<Rightarrow> string" where
  "fn_name f = (case f of Fn_name n \<Rightarrow> n | Fn_object n \<Rightarrow> (case n of Some n \<Rightarrow> n | None \<Rightarrow> []))"

definition hashFunctions :: "(string list \<Rightarrow> string) \<Rightarrow> listed_fn list \<Rightarrow> string" where
  "hashFunctions sha_json fs = sha_json (sort (map fn_name fs))"

record reg_contract =
  rg_id :: string
  rg_functions :: "listed_fn list"
  rg_verified :: bool
  rg_ledger :: "int option"
  rg_owner :: "(string \<times> string \<times> int) option"

definition setContractVerified :: "string \<Rightarrow> bool \<Rightarrow> int option \<Rightarrow> reg_contract list \<Rightarrow> reg_contract list" where
  "setContractVerified i v ledger =
     update_where (\<lambda>c. rg_id c = i) (\<lambda>c. c\<lparr>rg_verified := v, rg_ledger := (if v then ledger else rg_ledger c)\<rparr>)"

definition setContractOwnership :: "string \<Rightarrow> (string \<times> string \<times> int) option \<Rightarrow> reg_contract list \<Rightarrow> reg_contract list" where
  "setContractOwnership i o' = update_where (\<lambda>c. rg_id c = i) (\<lambda>c. c\<lparr>rg_owner := o'\<rparr>)"

text \<open>One contract of the batch: an ownership that could not be read (outer \<open>None\<close>) or functions that could not leave the row as it is.\<close>

definition verify_contract ::
  "(string list \<Rightarrow> string) \<Rightarrow> (string \<times> string \<times> int) option option \<Rightarrow> (listed_fn list \<times> int) option \<Rightarrow> reg_contract \<Rightarrow> reg_contract list \<Rightarrow> reg_contract list" where
  "verify_contract sha_json ownership onChain c db =
     (let db1 = (case ownership of Some o' \<Rightarrow> setContractOwnership (rg_id c) o' db | None \<Rightarrow> db)
      in case onChain of
           None \<Rightarrow> db1
         | Some (fs, ledger) \<Rightarrow>
             let same = (hashFunctions sha_json (rg_functions c) = hashFunctions sha_json fs)
             in setContractVerified (rg_id c) same (if same then Some ledger else None) db1)"

definition runVerificationBatch ::
  "(string list \<Rightarrow> string) \<Rightarrow> (string \<Rightarrow> (string \<times> string \<times> int) option option) \<Rightarrow> (string \<Rightarrow> (listed_fn list \<times> int) option) \<Rightarrow> reg_contract list \<Rightarrow> reg_contract list" where
  "runVerificationBatch sha_json ownership onChain db = fold (\<lambda>c. verify_contract sha_json (ownership (rg_id c)) (onChain (rg_id c)) c) db db"

lemma verify_contract_others: "rg_id c' \<noteq> rg_id c \<Longrightarrow> c' \<in> set (verify_contract sha_json ow oc c db) \<longleftrightarrow> c' \<in> set db"
  by (simp add: verify_contract_def setContractVerified_def setContractOwnership_def update_where_other Let_def split: option.split prod.split)

text \<open>
  One pass over the contracts: a contract whose functions could be read is verified exactly when the names of its functions are those on chain,
  in any order. Parameters do not count.
\<close>

lemma hash_same_names:
  assumes "inj sha_json"
  shows "hashFunctions sha_json fs = hashFunctions sha_json gs \<longleftrightarrow> mset (map fn_name fs) = mset (map fn_name gs)"
proof -
  have "sort xs = sort ys \<longleftrightarrow> mset xs = mset ys" for xs ys :: "string list"
    by (metis mset_sort properties_for_sort sorted_sort)
  then show ?thesis using assms by (simp add: hashFunctions_def inj_eq)
qed

lemma verified_by_names:
  assumes "inj sha_json" "onChain = Some (fs, ledger)" "c' \<in> set (verify_contract sha_json ow onChain c db)" "rg_id c' = rg_id c"
  shows "rg_verified c' \<longleftrightarrow> mset (map fn_name (rg_functions c)) = mset (map fn_name fs)"
  using assms hash_same_names [OF assms(1)]
  by (auto simp: verify_contract_def setContractVerified_def update_where_def Let_def split: if_splits)

subsection \<open>Verification of an uploaded ABI (indexer/src/verify_abi.js)\<close>

record abi_verdict =
  av_valid :: bool
  av_missing :: "string list"
  av_mismatch :: "(string \<times> nat \<times> nat) list"

text \<open>The specification on chain as names and numbers of arguments (\<open>None\<close>: not found), the ABI likewise.\<close>

definition verifyAbi :: "(string \<times> nat) list option \<Rightarrow> (string \<times> nat) list \<Rightarrow> abi_verdict" where
  "verifyAbi spec abi =
     (case spec of
        None \<Rightarrow> \<lparr>av_valid = False, av_missing = [], av_mismatch = []\<rparr>
      | Some fs \<Rightarrow>
          let found = (\<lambda>n. map_of (rev fs) n);
              missing = map fst (filter (\<lambda>(n, _). found n = None) abi);
              mismatch = List.map_filter (\<lambda>(n, k). case found n of Some e \<Rightarrow> if e \<noteq> k then Some (n, e, k) else None | None \<Rightarrow> None) abi
          in \<lparr>av_valid = (length missing + length mismatch = 0), av_missing = missing, av_mismatch = mismatch\<rparr>)"

definition validateArgCount :: "(string \<times> nat) list \<Rightarrow> string \<Rightarrow> nat \<Rightarrow> bool" where
  "validateArgCount spec n k = (case find (\<lambda>(m, _). m = n) spec of Some (_, e) \<Rightarrow> e = k | None \<Rightarrow> False)"

text \<open>An ABI is valid exactly when the contract has a specification and each of its functions is there with as many arguments.\<close>

lemma abi_valid_iff:
  assumes "distinct (map fst fs)"
  shows "av_valid (verifyAbi (Some fs) abi) \<longleftrightarrow> set abi \<subseteq> set fs" and "\<not> av_valid (verifyAbi None abi)"
proof -
  have f: "map_of (rev fs) n = Some k \<longleftrightarrow> (n, k) \<in> set fs" for n k using assms by (metis distinct_rev map_of_eq_Some_iff rev_map set_rev)
  have "length (map fst (filter (\<lambda>(n, _). F n = None) abi)) +
      length (List.map_filter (\<lambda>(n, k). case F n of Some e \<Rightarrow> if e \<noteq> k then Some (n, e, k) else None | None \<Rightarrow> None) abi) = 0 \<longleftrightarrow>
    (\<forall>(n, k) \<in> set abi. F n = Some k)" for F :: "string \<Rightarrow> nat option"
    by (induction abi) (auto simp: map_filter_simps split: option.splits if_splits)
  then show "av_valid (verifyAbi (Some fs) abi) \<longleftrightarrow> set abi \<subseteq> set fs"
    using f by (simp add: verifyAbi_def Let_def) auto
  show "\<not> av_valid (verifyAbi None abi)" by (simp add: verifyAbi_def)
qed

subsection \<open>Signed source verifications (indexer/src/sourceVerification.js)\<close>

definition SOURCE_VERIFICATION_DOMAIN :: string where "SOURCE_VERIFICATION_DOMAIN = ''soroban-source-verification:v1''"

definition sourceVerificationMessage :: "string \<Rightarrow> string \<Rightarrow> string" where
  "sourceVerificationMessage wasmHash compilerHash = SOURCE_VERIFICATION_DOMAIN @ '':'' @ wasmHash @ '':'' @ compilerHash"

definition base64_char :: "char \<Rightarrow> bool" where
  "base64_char c \<longleftrightarrow> is_digit c \<or> CHR ''a'' \<le> lower_char c \<and> lower_char c \<le> CHR ''z'' \<or> c \<in> {CHR ''+'', CHR ''/''}"

definition base64_text :: "string \<Rightarrow> bool" where
  "base64_text s \<longleftrightarrow>
     (let body = takeWhile base64_char s; rest = drop (length body) s in body \<noteq> [] \<and> rest \<in> {[], ''='', ''==''})"

text \<open>The decoding of base64 and the check of an Ed25519 signature are parameters; a key the library refuses is \<open>None\<close>.\<close>

definition verifySourceVerification ::
  "(string \<Rightarrow> 'k option) \<Rightarrow> (string \<Rightarrow> 'b list) \<Rightarrow> ('k \<Rightarrow> string \<Rightarrow> 'b list \<Rightarrow> bool) \<Rightarrow> string \<Rightarrow> string \<Rightarrow> string \<Rightarrow> string \<Rightarrow> bool" where
  "verifySourceVerification from_public decode64 verify wasm_hash signer signature compiler_hash =
     (if \<not> HEX64 wasm_hash \<or> \<not> HEX64 compiler_hash then False
      else case from_public signer of
             None \<Rightarrow> False
           | Some k \<Rightarrow> if length (decode64 signature) \<noteq> 64 \<or> \<not> base64_text signature then False
                       else verify k (sourceVerificationMessage wasm_hash compiler_hash) (decode64 signature))"

text \<open>What is signed determines both hashes: a signature for one pair is none for another.\<close>

lemma signed_message_binds:
  assumes "HEX64 w" "HEX64 c" "HEX64 w'" "HEX64 c'" "sourceVerificationMessage w c = sourceVerificationMessage w' c'"
  shows "w = w' \<and> c = c'"
proof -
  have "w @ '':'' @ c = w' @ '':'' @ c'" using assms(5) by (simp add: sourceVerificationMessage_def)
  moreover have "length w = length w'" using assms(1,3) by (simp add: HEX64_def)
  ultimately show ?thesis by simp
qed

lemma verified_signature_binds:
  assumes "verifySourceVerification from_public decode64 verify w signer signature c"
    "\<And>k m m' b. verify k m b \<Longrightarrow> verify k m' b \<Longrightarrow> m = m'"
    "verifySourceVerification from_public decode64 verify w' signer signature c'"
  shows "w = w' \<and> c = c'"
proof (rule signed_message_binds)
  show "sourceVerificationMessage w c = sourceVerificationMessage w' c'"
    using assms by (auto simp: verifySourceVerification_def split: option.splits if_splits)
qed (use assms in \<open>auto simp: verifySourceVerification_def split: if_splits\<close>)

end
