(* ===== verification/Spec_Cache.thy ===== *)
theory Spec_Cache
  imports Wasm_Sections Runs "HOL-Library.AList"
begin

section \<open>Contract specifications by contract (indexer/src/contractSpecCache.js)\<close>

text \<open>
  The cache the decoder asks for the specification of a contract without a registered ABI: specifications by hash of the code, hashes by
  contract, and background fetches in two questions to the node, the contract instance and the code. A fetch is a list entry with its phase; the answers
  arrive in any order, between them other events and upgrades. Shown: a specification handed out is that of code the contract
  has had, at most 1000 are kept, and at most the configured number of fetches starts in any minute. A specification that was evicted does
  not come back, and an upgrade during a fetch leaves the old code's specification in place.
\<close>

definition MAX_SPEC_BYTES :: nat where "MAX_SPEC_BYTES = 256 * 1024"

definition MAX_SPEC_ENTRIES :: nat where "MAX_SPEC_ENTRIES = 2000"

definition MAX_CACHED_SPECS :: nat where "MAX_CACHED_SPECS = 1000"

record contract_spec =
  cs_functions :: "(string \<times> (string \<times> string) list) list"
  cs_types :: "decoded_entry list"
  cs_errors :: "(nat \<times> string) list"

text \<open>The functions with their inputs, as \<open>nameArgs\<close> reads them.\<close>

definition signature_of :: "decoded_entry \<Rightarrow> string \<times> (string \<times> string) list" where
  "signature_of e = (de_name e, case de_body e of Function_body ins _ \<Rightarrow> ins | _ \<Rightarrow> [])"

definition SAC_SPEC :: contract_spec where
  "SAC_SPEC =
     \<lparr>cs_functions =
        [(''transfer'', [(''from'', ''Address''), (''to'', ''Address''), (''asset'', ''String''), (''amount'', ''i128'')]),
         (''mint'', [(''admin'', ''Address''), (''to'', ''Address''), (''asset'', ''String''), (''amount'', ''i128'')]),
         (''burn'', [(''from'', ''Address''), (''asset'', ''String''), (''amount'', ''i128'')]),
         (''clawback'', [(''admin'', ''Address''), (''from'', ''Address''), (''asset'', ''String''), (''amount'', ''i128'')]),
         (''set_admin'', [(''admin'', ''Address''), (''asset'', ''String''), (''new_admin'', ''Address'')])],
      cs_types = [], cs_errors = []\<rparr>"

definition error_cases :: "decoded_entry \<Rightarrow> (nat \<times> string) list" where
  "error_cases e = (case de_body e of Error_enum_body cs \<Rightarrow> map (\<lambda>(n, v). (v, n)) cs | _ \<Rightarrow> [])"

text \<open>\<open>None\<close> also for a scan that does not end; \<open>Map.set\<close> of the error names is \<open>AList.update\<close>.\<close>

fun set_all :: "('k \<times> 'v) list \<Rightarrow> ('k \<times> 'v) list \<Rightarrow> ('k \<times> 'v) list" where
  "set_all [] m = m"
| "set_all ((k, v) # kvs) m = set_all kvs (AList.update k v m)"

definition specFromWasm :: "(bytes \<Rightarrow> (spec_entry \<times> bytes) option) \<Rightarrow> bytes \<Rightarrow> contract_spec option option" where
  "specFromWasm read wasm =
     Option.bind (extractContractSpecSection wasm) (\<lambda>r. case r of
         Inl _ \<Rightarrow> Some None
       | Inr section' \<Rightarrow>
           if section' = [] \<or> MAX_SPEC_BYTES < length section' then Some None
           else Option.bind (parseContractSpec read wasm) (\<lambda>p. case p of
                    None \<Rightarrow> Some None
                  | Some (fs, ts) \<Rightarrow>
                      Some (if MAX_SPEC_ENTRIES < length fs + length ts then None
                            else Some \<lparr>cs_functions = map signature_of fs, cs_types = ts, cs_errors = set_all (concat (map error_cases ts)) []\<rparr>)))"

subsection \<open>The cache\<close>

text \<open>The hash of a contract is \<open>None\<close> for the Stellar asset contract; a fetch waits for the instance or for the code of a hash.\<close>

datatype phase = Ask_instance | Ask_code string

record spec_cache =
  sc_specs :: "(string \<times> contract_spec) list"
  sc_hash :: "(string \<times> string option) list"
  sc_fetches :: "(string \<times> phase) list"
  sc_times :: "nat list"

definition getCachedSpec :: "string \<Rightarrow> spec_cache \<Rightarrow> contract_spec option" where
  "getCachedSpec c s =
     (case map_of (sc_hash s) c of
        None \<Rightarrow> None
      | Some None \<Rightarrow> Some SAC_SPEC
      | Some (Some h) \<Rightarrow> map_of (sc_specs s) h)"

definition contractErrorName :: "string \<Rightarrow> nat \<Rightarrow> spec_cache \<Rightarrow> string option" where
  "contractErrorName c code s = Option.bind (getCachedSpec c s) (\<lambda>sp. map_of (cs_errors sp) code)"

definition invalidateContract :: "string \<Rightarrow> spec_cache \<Rightarrow> spec_cache" where
  "invalidateContract c s = s\<lparr>sc_hash := filter (\<lambda>(k, _). k \<noteq> c) (sc_hash s)\<rparr>"

definition set_hash :: "string \<Rightarrow> string option \<Rightarrow> spec_cache \<Rightarrow> spec_cache" where
  "set_hash c h s = s\<lparr>sc_hash := AList.update c h (sc_hash s)\<rparr>"

definition remember :: "string \<Rightarrow> contract_spec \<Rightarrow> spec_cache \<Rightarrow> spec_cache" where
  "remember h sp s =
     s\<lparr>sc_specs := AList.update h sp (if MAX_CACHED_SPECS \<le> length (sc_specs s) then tl (sc_specs s) else sc_specs s)\<rparr>"

definition primeSpec :: "string \<Rightarrow> string option \<Rightarrow> contract_spec \<Rightarrow> spec_cache \<Rightarrow> spec_cache" where
  "primeSpec c h sp s = (case h of None \<Rightarrow> set_hash c None s | Some x \<Rightarrow> remember x sp (set_hash c h s))"

definition recent :: "nat \<Rightarrow> nat list \<Rightarrow> nat list" where
  "recent now ts = filter (\<lambda>t. now < t + 60000) ts"

definition allowFetch :: "nat \<Rightarrow> nat \<Rightarrow> nat list \<Rightarrow> bool \<times> nat list" where
  "allowFetch per_minute now ts =
     (let kept = recent now ts in if per_minute \<le> length kept then (False, kept) else (True, kept @ [now]))"

definition prefetchSpec :: "nat \<Rightarrow> bool \<Rightarrow> nat \<Rightarrow> string \<Rightarrow> bool \<Rightarrow> spec_cache \<Rightarrow> spec_cache" where
  "prefetchSpec per_minute has_url now c isSac s =
     (if c = [] \<or> map_of (sc_hash s) c \<noteq> None \<or> c \<in> fst ` set (sc_fetches s) then s
      else if isSac then set_hash c None s
      else if \<not> has_url then s
      else case allowFetch per_minute now (sc_times s) of
             (False, ts) \<Rightarrow> s\<lparr>sc_times := ts\<rparr>
           | (True, ts) \<Rightarrow> s\<lparr>sc_times := ts, sc_fetches := sc_fetches s @ [(c, Ask_instance)]\<rparr>)"

text \<open>What the node says of a contract and of a hash; \<open>fetchSpec\<close> between its questions.\<close>

datatype executable = No_executable | Stellar_asset | Wasm_hash string

definition end_fetch :: "string \<Rightarrow> spec_cache \<Rightarrow> spec_cache" where
  "end_fetch c s = s\<lparr>sc_fetches := filter (\<lambda>(k, _). k \<noteq> c) (sc_fetches s)\<rparr>"

definition instance_answer :: "string \<Rightarrow> executable \<Rightarrow> spec_cache \<Rightarrow> spec_cache" where
  "instance_answer c ex s =
     (case ex of
        No_executable \<Rightarrow> end_fetch c s
      | Stellar_asset \<Rightarrow> end_fetch c (set_hash c None s)
      | Wasm_hash h \<Rightarrow>
          if map_of (sc_specs s) h = None then s\<lparr>sc_fetches := AList.update c (Ask_code h) (sc_fetches s)\<rparr>
          else end_fetch c (set_hash c (Some h) s))"

definition code_answer :: "string \<Rightarrow> string \<Rightarrow> contract_spec option \<Rightarrow> spec_cache \<Rightarrow> spec_cache" where
  "code_answer c h sp s =
     end_fetch c (set_hash c (Some h) (case sp of None \<Rightarrow> s | Some x \<Rightarrow> remember h x s))"

definition nameArgs :: "contract_spec option \<Rightarrow> string \<Rightarrow> 'v list \<Rightarrow> (string \<times> 'v) list option" where
  "nameArgs spec fnName args =
     (case Option.bind spec (\<lambda>sp. find (\<lambda>(n, _). n = fnName) (cs_functions sp)) of
        None \<Rightarrow> None
      | Some (_, ins) \<Rightarrow> if length ins \<noteq> length args then None else Some (set_all (zip (map fst ins) args) []))"

subsection \<open>Runs\<close>

text \<open>
  An event of an unknown contract, an upgrade, and the answers to a contract's fetch: the instance, the code, or a failure. A scan that does not
  end hangs the process: the state stays as it is.
\<close>

datatype cache_act =
    Prefetch nat string bool
  | Upgrade string
  | Instance string "string \<Rightarrow> executable"
  | Code string "string \<Rightarrow> bytes option"
  | Fetch_fails string

fun act_cache :: "(bytes \<Rightarrow> (spec_entry \<times> bytes) option) \<Rightarrow> nat \<Rightarrow> cache_act \<Rightarrow> spec_cache \<Rightarrow> spec_cache" where
  "act_cache read n (Prefetch now c isSac) s = prefetchSpec n True now c isSac s"
| "act_cache read n (Upgrade c) s = invalidateContract c s"
| "act_cache read n (Instance c ex) s = (if map_of (sc_fetches s) c = Some Ask_instance then instance_answer c (ex c) s else s)"
| "act_cache read n (Code c code) s =
     (case map_of (sc_fetches s) c of
        Some (Ask_code h) \<Rightarrow>
          (case code h of
             None \<Rightarrow> code_answer c h None s
           | Some wasm \<Rightarrow> (case specFromWasm read wasm of None \<Rightarrow> s | Some sp \<Rightarrow> code_answer c h sp s))
      | _ \<Rightarrow> s)"
| "act_cache read n (Fetch_fails c) s = end_fetch c s"

definition empty_cache :: spec_cache where
  "empty_cache = \<lparr>sc_specs = [], sc_hash = [], sc_fetches = [], sc_times = []\<rparr>"

subsection \<open>What is handed out\<close>

text \<open>
  \<open>had c ex\<close>: the contract has had this executable; \<open>code_of h\<close> the code with the hash. The node tells the truth when its answers agree with them.
\<close>

definition spec_true ::
  "(bytes \<Rightarrow> (spec_entry \<times> bytes) option) \<Rightarrow> (string \<Rightarrow> bytes) \<Rightarrow> string \<times> contract_spec \<Rightarrow> bool" where
  "spec_true read code_of e \<longleftrightarrow> specFromWasm read (code_of (fst e)) = Some (Some (snd e))"

fun truthful :: "(string \<Rightarrow> executable \<Rightarrow> bool) \<Rightarrow> (string \<Rightarrow> bytes) \<Rightarrow> cache_act \<Rightarrow> bool" where
  "truthful had code_of (Prefetch now c isSac) \<longleftrightarrow> (isSac \<longrightarrow> had c Stellar_asset)"
| "truthful had code_of (Instance c ex) \<longleftrightarrow> (\<forall>c. had c (ex c))"
| "truthful had code_of (Code c code) \<longleftrightarrow> (\<forall>h w. code h = Some w \<longrightarrow> w = code_of h)"
| "truthful had code_of _ \<longleftrightarrow> True"

fun as_executable :: "string option \<Rightarrow> executable" where
  "as_executable None = Stellar_asset"
| "as_executable (Some h) = Wasm_hash h"

definition cache_ok ::
  "(bytes \<Rightarrow> (spec_entry \<times> bytes) option) \<Rightarrow> (string \<Rightarrow> executable \<Rightarrow> bool) \<Rightarrow> (string \<Rightarrow> bytes) \<Rightarrow> spec_cache \<Rightarrow> bool" where
  "cache_ok read had code_of s \<longleftrightarrow>
     list_all (spec_true read code_of) (sc_specs s) \<and> list_all (\<lambda>(c, h). had c (as_executable h)) (sc_hash s) \<and>
     list_all (\<lambda>(c, p). case p of Ask_code h \<Rightarrow> had c (Wasm_hash h) | Ask_instance \<Rightarrow> True) (sc_fetches s) \<and>
     length (sc_specs s) \<le> MAX_CACHED_SPECS"

lemma list_all_update: "list_all P m \<Longrightarrow> P (k, v) \<Longrightarrow> list_all P (AList.update k v m)"
  by (induction m) auto

lemma length_update: "length (AList.update k v m) \<le> Suc (length m)"
  by (induction m) auto

lemma length_update_in: "k \<in> fst ` set m \<Longrightarrow> length (AList.update k v m) = length m"
  by (induction m) auto

lemma list_all_tl: "list_all P xs \<Longrightarrow> list_all P (tl xs)"
  by (cases xs) auto

lemma end_fetch_ok: "cache_ok read had code_of s \<Longrightarrow> cache_ok read had code_of (end_fetch c s)"
  by (auto simp: cache_ok_def end_fetch_def list_all_iff)

lemma set_hash_ok: "cache_ok read had code_of s \<Longrightarrow> had c (as_executable h) \<Longrightarrow> cache_ok read had code_of (set_hash c h s)"
  by (auto simp: cache_ok_def set_hash_def intro!: list_all_update)

lemma remember_ok: "cache_ok read had code_of s \<Longrightarrow> spec_true read code_of (h, sp) \<Longrightarrow> cache_ok read had code_of (remember h sp s)"
proof -
  assume s: "cache_ok read had code_of s" and t: "spec_true read code_of (h, sp)"
  have "length (AList.update h sp (if MAX_CACHED_SPECS \<le> length (sc_specs s) then tl (sc_specs s) else sc_specs s)) \<le> MAX_CACHED_SPECS"
    using s length_update [of h sp "tl (sc_specs s)"] length_update [of h sp "sc_specs s"] by (auto simp: cache_ok_def MAX_CACHED_SPECS_def)
  then show ?thesis using s t by (auto simp: cache_ok_def remember_def intro!: list_all_update list_all_tl)
qed

lemma prefetch_ok: "cache_ok read had code_of s \<Longrightarrow> isSac \<longrightarrow> had c Stellar_asset \<Longrightarrow> cache_ok read had code_of (prefetchSpec n u now c isSac s)"
  using set_hash_ok [of read had code_of s c None] by (auto simp: prefetchSpec_def cache_ok_def split: prod.splits bool.splits)

interpretation cache_runs: guarded_runs "act_cache read n" "truthful had code_of" "cache_ok read had code_of"
proof
  fix a s
  assume a: "truthful had code_of a" and s: "cache_ok read had code_of s"
  show "cache_ok read had code_of (act_cache read n a s)"
  proof (cases a)
    case (Prefetch now c isSac)
    then show ?thesis using a s by (simp add: prefetch_ok)
  next
    case (Upgrade c)
    then show ?thesis using s by (auto simp: invalidateContract_def cache_ok_def list_all_iff)
  next
    case (Instance c ex)
    have "cache_ok read had code_of (s\<lparr>sc_fetches := AList.update c (Ask_code h) (sc_fetches s)\<rparr>)" if "had c (Wasm_hash h)" for h
      using s that by (auto simp: cache_ok_def intro!: list_all_update)
    moreover have "had c (ex c)" using a Instance by simp
    ultimately show ?thesis using s Instance set_hash_ok [OF s, of c]
      by (auto simp: instance_answer_def intro: end_fetch_ok split: executable.splits)
  next
    case (Code c code)
    have "had c (Wasm_hash h)" if "map_of (sc_fetches s) c = Some (Ask_code h)" for h
      using s map_of_SomeD [OF that] by (auto simp: cache_ok_def list_all_iff)
    then show ?thesis using a s Code
      by (auto simp: code_answer_def spec_true_def intro!: end_fetch_ok set_hash_ok remember_ok split: option.splits phase.splits)
  qed (use s in \<open>auto simp: end_fetch_ok\<close>)
qed

text \<open>
  C27. While the node tells the truth, a specification handed out for a contract is the built-in one of an asset contract, or parsed from code the
  contract has had; at most 1000 specifications are kept.
\<close>

theorem handed_out_spec_true:
  assumes "list_all (truthful had code_of) as" "getCachedSpec c (fold (act_cache read n) as empty_cache) = Some sp"
  shows "(had c Stellar_asset \<and> sp = SAC_SPEC \<or> (\<exists>h. had c (Wasm_hash h) \<and> specFromWasm read (code_of h) = Some (Some sp))) \<and>
    length (sc_specs (fold (act_cache read n) as empty_cache)) \<le> MAX_CACHED_SPECS"
proof -
  let ?s = "fold (act_cache read n) as empty_cache"
  have ok: "cache_ok read had code_of ?s" by (rule cache_runs.run_inv) (use assms(1) in \<open>auto simp: cache_ok_def empty_cache_def\<close>)
  obtain h where h: "map_of (sc_hash ?s) c = Some h" using assms(2) by (auto simp: getCachedSpec_def split: option.splits)
  then have "had c (as_executable h)" using ok map_of_SomeD [OF h] by (auto simp: cache_ok_def list_all_iff)
  moreover have "specFromWasm read (code_of x) = Some (Some sp)" if "h = Some x" for x
    using assms(2) h that ok map_of_SomeD [of "sc_specs ?s" x sp]
    by (auto simp: getCachedSpec_def cache_ok_def list_all_iff spec_true_def split: option.splits)
  ultimately show ?thesis using assms(2) h ok by (cases h) (auto simp: getCachedSpec_def cache_ok_def)
qed

subsection \<open>The rate of fetches\<close>

text \<open>The times at which a fetch is allowed, for checks at the times \<open>nows\<close>.\<close>

fun allowed_times :: "nat \<Rightarrow> nat list \<Rightarrow> nat list \<Rightarrow> nat list" where
  "allowed_times n ts [] = []"
| "allowed_times n ts (now # nows) =
     (case allowFetch n now ts of (ok, ts') \<Rightarrow> (if ok then [now] else []) @ allowed_times n ts' nows)"

definition in_minute :: "nat \<Rightarrow> nat list \<Rightarrow> nat" where
  "in_minute u ts = length (filter (\<lambda>t. u \<le> t \<and> t < u + 60000) ts)"

lemma in_minute_append: "in_minute u (xs @ ys) = in_minute u xs + in_minute u ys"
  by (simp add: in_minute_def)

lemma recent_recent: "now \<le> now' \<Longrightarrow> recent now' (recent now h) = recent now' h"
  by (induction h) (auto simp: recent_def)

lemma allowed_rate:
  assumes "sorted (prev # nows)" "\<forall>t \<in> set h. t \<le> prev" "\<forall>u. in_minute u h \<le> n" "ts = recent prev h"
  shows "in_minute u (h @ allowed_times n ts nows) \<le> n"
  using assms
proof (induction nows arbitrary: h ts prev)
  case Nil
  then show ?case by simp
next
  case (Cons now nows)
  have kept: "recent now ts = recent now h" using Cons.prems by (simp add: recent_recent)
  show ?case
  proof (cases "n \<le> length (recent now h)")
    case True
    moreover have "\<forall>t \<in> set h. t \<le> now" using Cons.prems(1,2) by force
    ultimately show ?thesis using Cons.prems kept Cons.IH [of now h "recent now h"] by (simp add: allowFetch_def Let_def)
  next
    case False
    have "in_minute v (h @ [now]) \<le> n" for v
    proof (cases "v \<le> now \<and> now < v + 60000")
      case True
      then have "length (filter (\<lambda>t. v \<le> t \<and> t < v + 60000) h) \<le> length (recent now h)"
        unfolding recent_def by (intro length_filter_mono) auto
      then show ?thesis using False True by (simp add: in_minute_def)
    qed (use Cons.prems in \<open>auto simp: in_minute_def\<close>)
    then have "in_minute u ((h @ [now]) @ allowed_times n (recent now h @ [now]) nows) \<le> n"
      using Cons.prems by (intro Cons.IH [of now]) (auto simp: recent_def)
    then show ?thesis using False kept by (simp add: allowFetch_def Let_def)
  qed
qed

text \<open>However often the decoder asks, at most the configured number of fetches starts within any minute.\<close>

lemma spec_fetch_rate: "sorted nows \<Longrightarrow> in_minute u (allowed_times n [] nows) \<le> n"
proof (cases nows)
  case (Cons now rest)
  assume "sorted nows"
  then show ?thesis using allowed_rate [of 0 nows "[]" n "[]" u] by (simp add: in_minute_def recent_def)
qed (simp add: in_minute_def)

lemma spec_fetch_rate_witness: "in_minute 0 (allowed_times 2 [] [1, 2, 3, 60002]) \<le> 2"
  by (rule spec_fetch_rate) simp

subsection \<open>What the cache does not get back\<close>

text \<open>
  A contract keeps its hash when the specification of the hash is evicted, and a contract with a hash is not fetched: events of the
  contract alone leave it without a specification.
\<close>

lemma evicted_not_refetched:
  assumes "map_of (sc_hash s) c = Some (Some h)" "map_of (sc_specs s) h = None"
  shows "getCachedSpec c (prefetchSpec n u now c isSac s) = None"
  using assms by (simp add: prefetchSpec_def getCachedSpec_def)

text \<open>
  An upgrade while the code is being fetched forgets nothing, for there is no hash yet; the answer then stores the old hash, and the contract keeps
  the specification of the code it no longer has.
\<close>

lemma upgrade_during_fetch_sticks:
  assumes "specFromWasm read wasm = Some (Some sp)" "0 < n"
  shows "let s = fold (act_cache read n) [Prefetch 0 ''c'' False, Instance ''c'' (\<lambda>_. Wasm_hash ''old''), Upgrade ''c'', Code ''c'' (\<lambda>_. Some wasm)] empty_cache
    in getCachedSpec ''c'' s = Some sp \<and> prefetchSpec n u now ''c'' False s = s"
  using assms by (simp add: prefetchSpec_def empty_cache_def allowFetch_def recent_def instance_answer_def invalidateContract_def code_answer_def
      remember_def set_hash_def end_fetch_def getCachedSpec_def MAX_CACHED_SPECS_def Let_def)


subsection \<open>A run\<close>

definition toy_module :: bytes where
  "toy_module = encode_module [1, 0, 0, 0] [Custom (map of_char ''contractspecv0'') [7]]"

definition one_fetch :: "cache_act list" where
  "one_fetch = [Prefetch 0 ''c'' False, Instance ''c'' (\<lambda>_. Wasm_hash ''h''), Code ''c'' (\<lambda>_. Some (toy_module))]"

text \<open>A reader of one entry that takes all bytes for an empty enumeration.\<close>

definition toy_reader :: "bytes \<Rightarrow> (spec_entry \<times> bytes) option" where
  "toy_reader bs = Some (Udt_enum ''E'' [] [], [])"

lemma toy_section: "extractContractSpecSection (toy_module) = Some (Inr [7])"
proof -
  let ?ss = "[Custom (map of_char ''contractspecv0'') [7]]"
  have "list_all section_ok ?ss" by (simp, subst leb.simps, simp)
  then have "spec_from ((WASM_MAGIC @ [1, 0, 0, 0]) @ concat (map encode_section ?ss)) (int (length (WASM_MAGIC @ [1, 0, 0, 0]))) =
    Some (case map_of (customs ?ss) ''contractspecv0'' of None \<Rightarrow> Inl No_spec_section | Some p \<Rightarrow> Inr p)" by (rule spec_from_encoded)
  moreover have "map_of (customs ?ss) ''contractspecv0'' = Some [7]" by code_simp
  ultimately show ?thesis
    by (simp add: toy_module_def extractContractSpecSection_def encode_module_def readUInt32BE_def WASM_MAGIC_def del: list.map)
qed

lemma toy_spec: "specFromWasm toy_reader (toy_module) =
  Some (Some \<lparr>cs_functions = [], cs_types = [decodeEntry (Udt_enum ''E'' [] [])], cs_errors = []\<rparr>)"
proof -
  have "spec_entries toy_reader [7] = Some (Some [decodeEntry (Udt_enum ''E'' [] [])])"
    by (subst spec_entries.simps, simp add: toy_reader_def, subst spec_entries.simps, simp)
  then show ?thesis
    by (simp add: specFromWasm_def parseContractSpec_def toy_section MAX_SPEC_BYTES_def MAX_SPEC_ENTRIES_def is_function_def error_cases_def)
qed

theorem handed_out_spec_true_witness:
  "\<exists>sp. getCachedSpec ''c'' (fold (act_cache toy_reader 30) one_fetch empty_cache) = Some sp \<and> cs_functions sp = []"
proof -
  obtain sp where sp: "getCachedSpec ''c'' (fold (act_cache toy_reader 30) one_fetch empty_cache) = Some sp"
    using toy_spec by (simp add: one_fetch_def prefetchSpec_def empty_cache_def allowFetch_def recent_def instance_answer_def code_answer_def
        remember_def set_hash_def end_fetch_def getCachedSpec_def MAX_CACHED_SPECS_def)
  have t: "list_all (truthful (\<lambda>c ex. ex \<noteq> Stellar_asset) (\<lambda>h. toy_module)) one_fetch"
    by (simp add: one_fetch_def)
  from handed_out_spec_true [OF t sp] show ?thesis using sp toy_spec by auto
qed

end
