(* ===== verification/Secret_Store.thy ===== *)
theory Secret_Store
  imports Js_Prelude Runs
begin

section \<open>Envelope encryption of stored secrets (indexer/src/secrets/index.js)\<close>

text \<open>
  Secrets in the database are sealed under a fresh data key, which is wrapped under a key-encryption key (KEK); the stored text names the
  version of the KEK. Bytes are characters, texts ASCII. AES-256-GCM, base64 and the version of a key (from its SHA-256) are the
  parameter \<open>crypto\<close> with the documented laws \<open>crypto_ok\<close>; fresh keys and nonces are inputs. An operation that throws gives \<open>None\<close>. Shown: what was
  sealed is opened again, also after the KEK was rotated, as long as its KEK is still loaded; the rotation job leaves every webhook secret what it
  was and all of them under the current KEK, wherever an earlier run stopped; and one row that cannot be opened keeps the rows behind it from being
  rotated.
\<close>

record crypto =
  cr_seal :: "string \<Rightarrow> string \<Rightarrow> string \<Rightarrow> string \<times> string"
  cr_open :: "string \<Rightarrow> string \<Rightarrow> string \<Rightarrow> string \<Rightarrow> string option"
  cr_base64 :: "string \<Rightarrow> string"
  cr_unbase64 :: "string \<Rightarrow> string"
  cr_version :: "string \<Rightarrow> string"

text \<open>Sealing gives ciphertext and a tag of 16 bytes that open under the same key and nonce; base64 and versions contain no colon.\<close>

definition crypto_ok :: "crypto \<Rightarrow> bool" where
  "crypto_ok C \<longleftrightarrow>
     (\<forall>k iv p. cr_open C k iv (fst (cr_seal C k iv p)) (snd (cr_seal C k iv p)) = Some p \<and> length (snd (cr_seal C k iv p)) = 16) \<and>
     (\<forall>b. cr_unbase64 C (cr_base64 C b) = b \<and> CHR '':'' \<notin> set (cr_base64 C b)) \<and>
     (\<forall>k. CHR '':'' \<notin> set (cr_version C k))"

subsection \<open>Keys and providers\<close>

definition PREFIX :: string where "PREFIX = ''enc:v1:''"

record key_ring =
  kr_keks :: "(string \<times> string) list"
  kr_current :: "string option"

fun load_all :: "crypto \<Rightarrow> string list \<Rightarrow> key_ring \<Rightarrow> key_ring option" where
  "load_all C [] r = Some r"
| "load_all C (b # bs) r =
     (let key = cr_unbase64 C b; v = cr_version C key
      in if length key \<noteq> 32 then None
         else load_all C bs \<lparr>kr_keks = (v, key) # kr_keks r, kr_current = (case kr_current r of None \<Rightarrow> Some v | Some c \<Rightarrow> Some c)\<rparr>)"

text \<open>
  \<open>loadKeks\<close>: the current key, then the previous ones. A key set twice has one version: its entry is found under it either way.
\<close>

definition loadKeks :: "crypto \<Rightarrow> string option \<Rightarrow> string option \<Rightarrow> key_ring option" where
  "loadKeks C kek previous =
     load_all C (filter (\<lambda>k. k \<noteq> []) (map trim ((case kek of Some k \<Rightarrow> k | None \<Rightarrow> []) # split_on CHR '','' (case previous of Some p \<Rightarrow> p | None \<Rightarrow> []))))
       \<lparr>kr_keks = [], kr_current = None\<rparr>"

record secret_state =
  st_secrets :: "(string \<times> string) list"
  st_fetched :: int
  st_ring :: key_ring

text \<open>What the provider answers: the secrets, or an exception.\<close>

definition CACHE_TTL_MS :: int where "CACHE_TTL_MS = 15 * 60 * 1000"

definition lookup2 :: "(string \<times> string) list \<Rightarrow> (string \<times> string) list \<Rightarrow> string \<Rightarrow> string option" where
  "lookup2 first second name = (case map_of first name of Some v \<Rightarrow> Some v | None \<Rightarrow> map_of second name)"

text \<open>The state after \<open>initSecrets\<close> and whether it threw.\<close>

definition initSecrets :: "crypto \<Rightarrow> (string \<times> string) list \<Rightarrow> int \<Rightarrow> (string \<times> string) list option \<Rightarrow> secret_state \<Rightarrow> bool \<times> secret_state" where
  "initSecrets C env now answer s =
     (case answer of
        None \<Rightarrow> (True, s)
      | Some secrets \<Rightarrow>
          let s' = s\<lparr>st_secrets := secrets, st_fetched := now\<rparr>
          in case loadKeks C (lookup2 secrets env ''SECRETS_KEK'') (lookup2 secrets env ''SECRETS_KEK_PREVIOUS'') of
               None \<Rightarrow> (True, s')
             | Some r \<Rightarrow> (False, s'\<lparr>st_ring := r\<rparr>))"

definition refreshSecrets :: "crypto \<Rightarrow> (string \<times> string) list \<Rightarrow> int \<Rightarrow> (string \<times> string) list option \<Rightarrow> secret_state \<Rightarrow> bool \<times> secret_state" where
  "refreshSecrets C env now answer s =
     (case initSecrets C env now answer s of
        (False, s') \<Rightarrow> (False, s')
      | (True, s') \<Rightarrow> (CACHE_TTL_MS < now - st_fetched s', s'))"

definition getSecret :: "(string \<times> string) list \<Rightarrow> string \<Rightarrow> secret_state \<Rightarrow> string option" where
  "getSecret env name s = lookup2 (st_secrets s) env name"

subsection \<open>Sealing and opening\<close>

definition isEncrypted :: "string \<Rightarrow> bool" where "isEncrypted v \<longleftrightarrow> take (length PREFIX) v = PREFIX"

record draw = dr_dek :: string dr_dek_iv :: string dr_iv :: string

definition encryptSecret :: "crypto \<Rightarrow> key_ring \<Rightarrow> draw \<Rightarrow> string \<Rightarrow> string option" where
  "encryptSecret C r d plaintext =
     (case kr_current r of
        None \<Rightarrow> Some plaintext
      | Some v \<Rightarrow>
          (case map_of (kr_keks r) v of
             None \<Rightarrow> None
           | Some kek \<Rightarrow>
               let (wout, wtag) = cr_seal C kek (dr_dek_iv d) (dr_dek d); (out, tag) = cr_seal C (dr_dek d) (dr_iv d) plaintext
               in Some (PREFIX @ v @ '':'' @ cr_base64 C (dr_dek_iv d @ wtag @ wout) @ '':'' @ cr_base64 C (dr_iv d) @ '':'' @
                        cr_base64 C tag @ '':'' @ cr_base64 C out)))"

definition unwrapDek :: "crypto \<Rightarrow> key_ring \<Rightarrow> string \<Rightarrow> string \<Rightarrow> string option" where
  "unwrapDek C r version wrapped =
     (case map_of (kr_keks r) version of
        None \<Rightarrow> None
      | Some kek \<Rightarrow> let buf = cr_unbase64 C wrapped in cr_open C kek (take 12 buf) (drop 28 buf) (take 16 (drop 12 buf)))"

definition decryptSecret :: "crypto \<Rightarrow> key_ring \<Rightarrow> string \<Rightarrow> string option" where
  "decryptSecret C r value =
     (if \<not> isEncrypted value then Some value
      else case split_on CHR '':'' (drop (length PREFIX) value) of
             version # wrapped # iv # tag # ct # _ \<Rightarrow>
               (case unwrapDek C r version wrapped of
                  None \<Rightarrow> None
                | Some dek \<Rightarrow> cr_open C dek (cr_unbase64 C iv) (cr_unbase64 C ct) (cr_unbase64 C tag))
           | _ \<Rightarrow> None)"

definition on_current :: "key_ring \<Rightarrow> string \<Rightarrow> bool" where
  "on_current r value \<longleftrightarrow> (case kr_current r of Some v \<Rightarrow> take (length (PREFIX @ v @ '':'')) value = PREFIX @ v @ '':'' | None \<Rightarrow> False)"

definition rewrapSecret :: "crypto \<Rightarrow> key_ring \<Rightarrow> draw \<Rightarrow> string \<Rightarrow> string option" where
  "rewrapSecret C r d value =
     (if kr_current r = None \<or> on_current r value then Some value
      else Option.bind (decryptSecret C r value) (encryptSecret C r d))"

subsection \<open>The rotation job\<close>

text \<open>
  The webhook secrets as id and stored text. The query fixes the rows; each is then updated if it still has the text that was read; an
  exception ends the job. The draws are those of the rows. The result tells whether the job finished.
\<close>

fun rotate_rows :: "crypto \<Rightarrow> key_ring \<Rightarrow> (nat \<Rightarrow> draw) \<Rightarrow> (nat \<times> string) list \<Rightarrow> (nat \<times> string) list \<Rightarrow> bool \<times> (nat \<times> string) list" where
  "rotate_rows C r d [] table = (True, table)"
| "rotate_rows C r d ((i, old) # rows) table =
     (case rewrapSecret C r (d i) old of
        None \<Rightarrow> (False, table)
      | Some new \<Rightarrow> rotate_rows C r d rows (update_where (\<lambda>(j, s). j = i \<and> s = old) (\<lambda>(j, _). (j, new)) table))"

definition rotateWebhookSecrets :: "crypto \<Rightarrow> key_ring \<Rightarrow> (nat \<Rightarrow> draw) \<Rightarrow> (nat \<times> string) list \<Rightarrow> bool \<times> (nat \<times> string) list" where
  "rotateWebhookSecrets C r d table =
     (if kr_current r = None then (True, table) else rotate_rows C r d (filter (\<lambda>(_, s). \<not> on_current r s) table) table)"

subsection \<open>Opening what was sealed\<close>

definition ring_ok :: "key_ring \<Rightarrow> bool" where
  "ring_ok r \<longleftrightarrow> (\<forall>v. kr_current r = Some v \<longrightarrow> map_of (kr_keks r) v \<noteq> None \<and> CHR '':'' \<notin> set v)"

lemma load_all_ok:
  assumes "crypto_ok C" "load_all C bs r = Some r'" "ring_ok r"
  shows "ring_ok r'"
  using assms(2,3)
proof (induction bs arbitrary: r)
  case (Cons b bs)
  let ?v = "cr_version C (cr_unbase64 C b)"
  let ?r = "\<lparr>kr_keks = (?v, cr_unbase64 C b) # kr_keks r, kr_current = (case kr_current r of None \<Rightarrow> Some ?v | Some c \<Rightarrow> Some c)\<rparr>"
  have "CHR '':'' \<notin> set ?v" using assms(1) by (simp add: crypto_ok_def)
  then have "ring_ok ?r" using Cons.prems(2) by (cases "kr_current r") (simp_all add: ring_ok_def)
  moreover have "load_all C bs ?r = Some r'" using Cons.prems(1) by (simp add: Let_def split: if_splits)
  ultimately show ?case by (rule Cons.IH [rotated])
qed simp

lemma loadKeks_ok: "crypto_ok C \<Longrightarrow> loadKeks C kek previous = Some r \<Longrightarrow> ring_ok r"
  unfolding loadKeks_def by (rule load_all_ok) (auto simp: ring_ok_def)

lemma sealed_text:
  assumes "crypto_ok C" "ring_ok r" "kr_current r = Some v" "map_of (kr_keks r) v = Some kek" "length (dr_dek_iv d) = 12"
    "encryptSecret C r d p = Some s" "map_of (kr_keks r') v = Some kek"
  shows "decryptSecret C r' s = Some p" and "on_current r s"
proof -
  obtain wout wtag where w: "cr_seal C kek (dr_dek_iv d) (dr_dek d) = (wout, wtag)" by fastforce
  obtain out tag where o: "cr_seal C (dr_dek d) (dr_iv d) p = (out, tag)" by fastforce
  have nc: "CHR '':'' \<notin> set v" "\<And>b. CHR '':'' \<notin> set (cr_base64 C b)" using assms(1-3) by (auto simp: ring_ok_def crypto_ok_def)
  have inv: "\<And>b. cr_unbase64 C (cr_base64 C b) = b" using assms(1) by (simp add: crypto_ok_def)
  have tag: "length wtag = 16" "cr_open C kek (dr_dek_iv d) wout wtag = Some (dr_dek d)" "cr_open C (dr_dek d) (dr_iv d) out tag = Some p"
    using assms(1) w o unfolding crypto_ok_def by (metis fst_conv snd_conv)+
  have s: "s = PREFIX @ v @ CHR '':'' # cr_base64 C (dr_dek_iv d @ wtag @ wout) @ CHR '':'' # cr_base64 C (dr_iv d) @ CHR '':'' #
      cr_base64 C tag @ CHR '':'' # cr_base64 C out"
    using assms(3,4,6) w o by (simp add: encryptSecret_def)
  have "split_on CHR '':'' (drop (length PREFIX) s) =
      [v, cr_base64 C (dr_dek_iv d @ wtag @ wout), cr_base64 C (dr_iv d), cr_base64 C tag, cr_base64 C out]"
    by (simp add: s split_on_append nc)
  moreover have "isEncrypted s" by (simp add: s isEncrypted_def)
  ultimately show "decryptSecret C r' s = Some p" using assms(5,7) tag by (simp add: decryptSecret_def unwrapDek_def inv)
  show "on_current r s" using assms(3) by (simp add: s on_current_def)
qed


text \<open>
  C24. A sealed secret is opened as long as its key is loaded under its version: with the ring it was sealed with, and with any later one that still has
  the key.
\<close>

theorem secret_roundtrip:
  assumes "crypto_ok C" "loadKeks C kek previous = Some r" "kr_current r = Some v" "length (dr_dek_iv d) = 12" "encryptSecret C r d p = Some s"
    "map_of (kr_keks r') v = map_of (kr_keks r) v"
  shows "decryptSecret C r' s = Some p"
proof -
  have ok: "ring_ok r" by (rule loadKeks_ok [OF assms(1,2)])
  then obtain key where "map_of (kr_keks r) v = Some key" using assms(3) by (auto simp: ring_ok_def)
  then show ?thesis using sealed_text(1) [OF assms(1) ok assms(3) _ assms(4,5)] assms(6) by simp
qed

subsection \<open>Rotation\<close>

lemma current_encrypted: "on_current r s \<Longrightarrow> isEncrypted s"
proof -
  assume "on_current r s"
  then obtain v where "take (length (PREFIX @ v @ '':'')) s = PREFIX @ v @ '':''" by (auto simp: on_current_def split: option.splits)
  then have "take (length PREFIX) (take (length (PREFIX @ v @ '':'')) s) = PREFIX" by simp
  then show ?thesis by (simp add: isEncrypted_def min_def split: if_splits)
qed

lemma rewrap_keeps:
  assumes "crypto_ok C" "ring_ok r" "kr_current r \<noteq> None" "\<And>i. length (dr_dek_iv (d i)) = 12" "decryptSecret C r old = Some p"
  shows "\<exists>new. rewrapSecret C r (d i) old = Some new \<and> decryptSecret C r new = Some p \<and> on_current r new"
proof (cases "on_current r old")
  case True
  then show ?thesis using assms by (simp add: rewrapSecret_def)
next
  case False
  obtain v key where k: "kr_current r = Some v" "map_of (kr_keks r) v = Some key" using assms(2,3) by (auto simp: ring_ok_def)
  then obtain new where n: "encryptSecret C r (d i) p = Some new"
    by (cases "encryptSecret C r (d i) p") (auto simp: encryptSecret_def split: prod.splits)
  show ?thesis
    using sealed_text [OF assms(1,2) k assms(4) n k(2)] n False k(1) assms(5) by (simp add: rewrapSecret_def)
qed

lemma rotate_rows_keep:
  assumes "crypto_ok C" "ring_ok r" "kr_current r \<noteq> None" "\<And>i. length (dr_dek_iv (d i)) = 12"
    "\<forall>(i, s) \<in> set rows. decryptSecret C r s \<noteq> None" "distinct (map fst table)" "distinct (map fst rows)" "set rows \<subseteq> set table"
  shows "\<exists>table'. rotate_rows C r d rows table = (True, table') \<and> map fst table' = map fst table \<and>
    (\<forall>i s s'. (i, s) \<in> set table \<longrightarrow> (i, s') \<in> set table' \<longrightarrow>
       (if i \<in> fst ` set rows then decryptSecret C r s' = decryptSecret C r s \<and> on_current r s' else s' = s))"
  using assms(5-8)
proof (induction rows arbitrary: table)
  case Nil
  then show ?case by (auto dest: eq_key_imp_eq_value)
next
  case (Cons row rows)
  obtain i old where row: "row = (i, old)" by fastforce
  then obtain p where p: "decryptSecret C r old = Some p" using Cons.prems(1) by auto
  obtain new where new: "rewrapSecret C r (d i) old = Some new" "decryptSecret C r new = Some p" "on_current r new"
    using rewrap_keeps [where d = d and i = i, OF assms(1-4) p] by blast
  let ?t = "update_where (\<lambda>(j, s). j = i \<and> s = old) (\<lambda>(j, _). (j, new)) table"
  have keys: "map fst ?t = map fst table" by (induction table) auto
  have iff: "(j, s) \<in> set ?t \<longleftrightarrow> (if j = i then s = new else (j, s) \<in> set table)" for j s
  proof -
    have "(i, old) \<in> set table" using Cons.prems(4) row by simp
    then show ?thesis using Cons.prems(2) by (auto simp: update_where_def image_iff dest: eq_key_imp_eq_value split: if_splits)
  qed
  have "i \<notin> fst ` set rows" using Cons.prems(3) row by simp
  then have "set rows \<subseteq> set ?t" using Cons.prems(4) iff by (force simp: subset_iff)
  moreover have "\<forall>(i, s) \<in> set rows. decryptSecret C r s \<noteq> None" "distinct (map fst ?t)" "distinct (map fst rows)"
    using Cons.prems(1-3) keys by auto
  ultimately obtain table' where t: "rotate_rows C r d rows ?t = (True, table')" "map fst table' = map fst ?t"
    "\<forall>j s s'. (j, s) \<in> set ?t \<longrightarrow> (j, s') \<in> set table' \<longrightarrow>
       (if j \<in> fst ` set rows then decryptSecret C r s' = decryptSecret C r s \<and> on_current r s' else s' = s)"
    using Cons.IH [of ?t] by blast
  have "(if j \<in> fst ` set (row # rows) then decryptSecret C r s' = decryptSecret C r s \<and> on_current r s' else s' = s)"
    if m: "(j, s) \<in> set table" "(j, s') \<in> set table'" for j s s'
  proof (cases "j = i")
    case True
    then have "s = old" using m(1) Cons.prems(2,4) row by (auto dest: eq_key_imp_eq_value)
    moreover have "s' = new" using t(3) [rule_format, of i new s'] iff m(2) True \<open>i \<notin> fst ` set rows\<close> by simp
    ultimately show ?thesis using True row new p by simp
  next
    case False
    then show ?thesis using t(3) [rule_format, of j s s'] iff m row by simp
  qed
  then have "\<forall>j s s'. (j, s) \<in> set table \<longrightarrow> (j, s') \<in> set table' \<longrightarrow>
      (if j \<in> fst ` set (row # rows) then decryptSecret C r s' = decryptSecret C r s \<and> on_current r s' else s' = s)" by blast
  moreover have "rotate_rows C r d (row # rows) table = (True, table')" using t(1) row new(1) by simp
  ultimately show ?case using t(2) keys by metis
qed

text \<open>
  If every stored secret can be opened, the rotation finishes, every webhook keeps its secret, and all of them are under the current key.
\<close>

lemma rotation_lemma:
  assumes "crypto_ok C" "loadKeks C kek previous = Some r" "kr_current r \<noteq> None" "\<And>i. length (dr_dek_iv (d i)) = 12"
    "distinct (map fst table)" "\<forall>(i, s) \<in> set table. decryptSecret C r s \<noteq> None"
  shows "\<exists>table'. rotateWebhookSecrets C r d table = (True, table') \<and> map fst table' = map fst table \<and>
    (\<forall>i s s'. (i, s) \<in> set table \<longrightarrow> (i, s') \<in> set table' \<longrightarrow> decryptSecret C r s' = decryptSecret C r s \<and> on_current r s')"
proof -
  let ?rows = "filter (\<lambda>(_, s). \<not> on_current r s) table"
  have ok: "ring_ok r" by (rule loadKeks_ok [OF assms(1,2)])
  have d: "distinct (map fst ?rows)" using assms(5) by (rule distinct_map_filter)
  have "\<forall>(i, s) \<in> set ?rows. decryptSecret C r s \<noteq> None" using assms(6) by auto
  from rotate_rows_keep [where d = d, OF assms(1) ok assms(3,4) this assms(5) d]
  obtain table' where t: "rotate_rows C r d ?rows table = (True, table')" "map fst table' = map fst table"
    "\<forall>i s s'. (i, s) \<in> set table \<longrightarrow> (i, s') \<in> set table' \<longrightarrow>
       (if i \<in> fst ` set ?rows then decryptSecret C r s' = decryptSecret C r s \<and> on_current r s' else s' = s)"
    using filter_is_subset [of "\<lambda>(_, s). \<not> on_current r s" table] by blast
  have "decryptSecret C r s' = decryptSecret C r s \<and> on_current r s'" if m: "(i, s) \<in> set table" "(i, s') \<in> set table'" for i s s'
  proof (cases "i \<in> fst ` set ?rows")
    case False
    then have "on_current r s" using m(1) by force
    then show ?thesis using t(3) [rule_format, OF m] False by simp
  qed (use t(3) [rule_format, OF m] in simp)
  then show ?thesis using t(1,2) assms(3) by (auto simp: rotateWebhookSecrets_def)
qed

text \<open>
  C23. As long as every stored secret can be opened, a rotation that stopped after any number of rows is completed by the next one: every
  webhook keeps its secret and all are under the current key. (A row that cannot be opened stops every rotation, see below.)
\<close>

theorem resumed_rotation:
  assumes "crypto_ok C" "loadKeks C kek previous = Some r" "kr_current r \<noteq> None" "\<And>i. length (dr_dek_iv (d i)) = 12"
    "distinct (map fst table)" "\<forall>(i, s) \<in> set table. decryptSecret C r s \<noteq> None"
    "rotate_rows C r d (take k (filter (\<lambda>(_, s). \<not> on_current r s) table)) table = (True, table1)"
  shows "\<exists>table'. rotateWebhookSecrets C r d table1 = (True, table') \<and>
    (\<forall>i s s'. (i, s) \<in> set table \<longrightarrow> (i, s') \<in> set table' \<longrightarrow> decryptSecret C r s' = decryptSecret C r s \<and> on_current r s')"
proof -
  let ?rows = "take k (filter (\<lambda>(_, s). \<not> on_current r s) table)"
  have ok: "ring_ok r" by (rule loadKeks_ok [OF assms(1,2)])
  have sub: "set ?rows \<subseteq> set table" using set_take_subset [of k "filter (\<lambda>(_, s). \<not> on_current r s) table"] by auto
  have d: "distinct (map fst ?rows)" using distinct_map_filter [OF assms(5)] by (metis distinct_take take_map)
  have "\<forall>(i, s) \<in> set ?rows. decryptSecret C r s \<noteq> None" using assms(6) sub by blast
  from rotate_rows_keep [where d = d, OF assms(1) ok assms(3,4) this assms(5) d sub] assms(7)
  have t1: "map fst table1 = map fst table"
    "\<And>i s s'. (i, s) \<in> set table \<Longrightarrow> (i, s') \<in> set table1 \<Longrightarrow> decryptSecret C r s' = decryptSecret C r s"
    by (auto split: if_splits)
  have earlier: "\<exists>s. (i, s) \<in> set table" if "(i, s') \<in> set table1" for i s'
    using that t1(1) by (metis (no_types, lifting) fst_conv image_iff list.set_map prod.exhaust_sel)
  have "\<forall>(i, s) \<in> set table1. decryptSecret C r s \<noteq> None" using earlier t1(2) assms(6) by fastforce
  moreover have "distinct (map fst table1)" using assms(5) t1(1) by simp
  ultimately obtain table' where t: "rotateWebhookSecrets C r d table1 = (True, table')" "map fst table' = map fst table1"
    "\<forall>i s s'. (i, s) \<in> set table1 \<longrightarrow> (i, s') \<in> set table' \<longrightarrow> decryptSecret C r s' = decryptSecret C r s \<and> on_current r s'"
    using rotation_lemma [where d = d, OF assms(1-4)] by blast
  have "decryptSecret C r s' = decryptSecret C r s \<and> on_current r s'" if m: "(i, s) \<in> set table" "(i, s') \<in> set table'" for i s s'
  proof -
    from m(1) t1(1) obtain s1 where "(i, s1) \<in> set table1"
      by (metis (no_types, lifting) fst_conv image_iff list.set_map prod.exhaust_sel)
    then show ?thesis using t(3) t1(2) m by metis
  qed
  then show ?thesis using t(1) by blast
qed

text \<open>A row that cannot be opened ends the job: the rows behind it stay under their old keys, at this run and at every later one.\<close>

lemma unopened_row_stops_rotation:
  "kr_current r \<noteq> None \<Longrightarrow> \<not> on_current r s \<Longrightarrow> decryptSecret C r s = None \<Longrightarrow>
     rotateWebhookSecrets C r d ((i, s) # table) = (False, (i, s) # table)"
  by (auto simp: rotateWebhookSecrets_def rewrapSecret_def)

text \<open>Without a key a secret is stored as it is, and one that begins with the prefix cannot be read back.\<close>

lemma prefixed_plaintext_lost:
  "encryptSecret C \<lparr>kr_keks = [], kr_current = None\<rparr> d ''enc:v1:x'' = Some ''enc:v1:x'' \<and>
   decryptSecret C \<lparr>kr_keks = [], kr_current = None\<rparr> ''enc:v1:x'' = None"
  by (simp add: encryptSecret_def decryptSecret_def isEncrypted_def PREFIX_def)

subsection \<open>A run\<close>

text \<open>An encoding without colons: tilde and a letter stand for the colon and the tilde.\<close>

fun toy_letters :: "string \<Rightarrow> string" where
  "toy_letters [] = []"
| "toy_letters (c # s) =
     (if c = CHR '':'' then ''~a'' @ toy_letters s else if c = CHR ''~'' then ''~b'' @ toy_letters s else c # toy_letters s)"

fun toy_bytes :: "string \<Rightarrow> string" where
  "toy_bytes [] = []"
| "toy_bytes [c] = [c]"
| "toy_bytes (c # x # s) = (if c = CHR ''~'' then (if x = CHR ''a'' then CHR '':'' else CHR ''~'') # toy_bytes s else c # toy_bytes (x # s))"

definition toy_crypto :: crypto where
  "toy_crypto = \<lparr>cr_seal = (\<lambda>k iv p. (p, replicate 16 CHR ''t'')), cr_open = (\<lambda>k iv ct tag. Some ct), cr_base64 = toy_letters,
     cr_unbase64 = toy_bytes, cr_version = (\<lambda>k. take 1 (toy_letters k))\<rparr>"

lemma toy_bytes_other: "c \<noteq> CHR ''~'' \<Longrightarrow> toy_bytes (c # s) = c # toy_bytes s"
  by (cases s) auto

lemma toy_roundtrip: "toy_bytes (toy_letters b) = b"
  by (induction b) (auto simp: toy_bytes_other)

lemma toy_no_colon: "CHR '':'' \<notin> set (toy_letters b)"
  by (induction b) auto

lemma toy_crypto_ok: "crypto_ok toy_crypto"
  by (auto simp: crypto_ok_def toy_crypto_def toy_roundtrip toy_no_colon dest: in_set_takeD)


definition toy_draw :: draw where "toy_draw = \<lparr>dr_dek = replicate 32 CHR ''d'', dr_dek_iv = replicate 12 CHR ''n'', dr_iv = replicate 12 CHR ''m''\<rparr>"

text \<open>The ring after the key \<open>b...b\<close> has replaced the key \<open>a...a\<close>.\<close>

definition old_ring :: key_ring where
  "old_ring = \<lparr>kr_keks = [(toy_letters ''a'', replicate 32 CHR ''a'')], kr_current = Some (toy_letters ''a'')\<rparr>"

definition new_ring :: key_ring where
  "new_ring = \<lparr>kr_keks = [(toy_letters ''a'', replicate 32 CHR ''a''), (toy_letters ''b'', replicate 32 CHR ''b'')],
     kr_current = Some (toy_letters ''b'')\<rparr>"

lemma toy_rings:
  "loadKeks toy_crypto (Some (toy_letters (replicate 32 CHR ''a''))) None = Some old_ring"
  "loadKeks toy_crypto (Some (toy_letters (replicate 32 CHR ''b''))) (Some (toy_letters (replicate 32 CHR ''a''))) = Some new_ring"
  by code_simp+

definition old_secret :: string where "old_secret = the (encryptSecret toy_crypto old_ring toy_draw ''whsec'')"

theorem secret_roundtrip_witness: "decryptSecret toy_crypto new_ring old_secret = Some ''whsec''"
proof (rule secret_roundtrip [OF toy_crypto_ok toy_rings(1)])
  show "kr_current old_ring = Some (toy_letters ''a'')" by (simp add: old_ring_def)
  show "length (dr_dek_iv toy_draw) = 12" by (simp add: toy_draw_def)
  show "encryptSecret toy_crypto old_ring toy_draw ''whsec'' = Some old_secret" unfolding old_secret_def by code_simp
  show "map_of (kr_keks new_ring) (toy_letters ''a'') = map_of (kr_keks old_ring) (toy_letters ''a'')" by (simp add: new_ring_def old_ring_def)
qed

text \<open>Two secrets under the old key, and a rotation that stopped behind the first.\<close>

definition half_rotated :: "(nat \<times> string) list" where
  "half_rotated = snd (rotate_rows toy_crypto new_ring (\<lambda>_. toy_draw) [(1, old_secret)] [(1, old_secret), (2, old_secret)])"

theorem resumed_rotation_witness:
  "half_rotated \<noteq> [(1, old_secret), (2, old_secret)] \<and>
   (\<exists>table'. rotateWebhookSecrets toy_crypto new_ring (\<lambda>_. toy_draw) half_rotated = (True, table') \<and>
     (\<forall>s'. (2, s') \<in> set table' \<longrightarrow> decryptSecret toy_crypto new_ring s' = Some ''whsec''))"
proof
  let ?t = "[(1 :: nat, old_secret), (2, old_secret)]"
  show "half_rotated \<noteq> ?t" unfolding half_rotated_def by code_simp
  have f: "filter (\<lambda>(_, s). \<not> on_current new_ring s) ?t = ?t" by code_simp
  have "fst (rotate_rows toy_crypto new_ring (\<lambda>_. toy_draw) [(1, old_secret)] ?t) = True" by code_simp
  then have r: "rotate_rows toy_crypto new_ring (\<lambda>_. toy_draw) (take 1 (filter (\<lambda>(_, s). \<not> on_current new_ring s) ?t)) ?t = (True, half_rotated)"
    unfolding f half_rotated_def by (simp add: prod_eq_iff)
  have s: "decryptSecret toy_crypto new_ring old_secret = Some ''whsec''" by code_simp
  then have o: "\<forall>(i, s) \<in> set ?t. decryptSecret toy_crypto new_ring s \<noteq> None" by simp
  have c: "kr_current new_ring \<noteq> None" by (simp add: new_ring_def)
  have l: "length (dr_dek_iv toy_draw) = 12" by (simp add: toy_draw_def)
  have d: "distinct (map fst ?t)" by simp
  show "\<exists>table'. rotateWebhookSecrets toy_crypto new_ring (\<lambda>_. toy_draw) half_rotated = (True, table') \<and>
     (\<forall>s'. (2, s') \<in> set table' \<longrightarrow> decryptSecret toy_crypto new_ring s' = Some ''whsec'')"
    using resumed_rotation [where d = "\<lambda>_. toy_draw" and k = 1, OF toy_crypto_ok toy_rings(2) c l d o r] s by force
qed

end
