(* ===== verification/Webhooks.thy ===== *)
theory Webhooks
  imports Filter_Eval Runs
begin

section \<open>Webhooks (indexer/src/webhookDelivery.js, routes/webhooks.js and their statements in db.js)\<close>

text \<open>
  Subscriptions, the choice of subscriptions for an event, the attempts to deliver with their log, retries, test events, and the routes of an API
  key. An attempt starts when an event is handed over (by the outbox relay) and is logged later; requests and other attempts come in between. JSON texts and
  the time are parameters. webhookDelivery.js uses \<open>safeFetch\<close> and \<open>assertSafeUrl\<close> without importing or declaring them, so the call of the one ends
  every attempt, before its request is signed or sent, and the call of the other every creation of a subscription; this is what is modelled. Shown: an event
  is attempted exactly for the active subscriptions whose conditions hold; no attempt is ever a delivery, every one counts as a failure, and five of them
  disable their subscription; and an attempt that was under way activates a subscription its owner has deleted.
\<close>

subsection \<open>Subscriptions and events\<close>

record webhook =
  wh_id :: nat
  wh_key :: string
  wh_url :: string
  wh_contract :: "string option"
  wh_function :: "string option"
  wh_wallet :: "string option"
  wh_secret :: string
  wh_filter :: "json option"
  wh_active :: bool
  wh_failures :: nat

text \<open>A decoded event: the columns the filter reads, and the fields of the payload.\<close>

record hook_event =
  he_event :: event
  he_contract :: "string option"
  he_function :: "string option"
  he_description :: "string option"
  he_seq :: "nat option"
  he_fields :: "(string \<times> json) list"

definition word_chr :: "char \<Rightarrow> bool" where
  "word_chr c \<longleftrightarrow> is_digit c \<or> CHR ''a'' \<le> lower_char c \<and> lower_char c \<le> CHR ''z'' \<or> c = CHR ''_''"

text \<open>
  A match of \<open>\bG[A-Z2-7]{55}\b\<close> has no boundary inside, so it is a whole run of word characters.
\<close>

fun word_runs :: "string \<Rightarrow> string list" where
  "word_runs [] = [[]]"
| "word_runs (c # s) =
     (if word_chr c then (case word_runs s of r # rs \<Rightarrow> (c # r) # rs | [] \<Rightarrow> [[c]]) else [] # word_runs s)"

definition wallet_address :: "string \<Rightarrow> bool" where
  "wallet_address w \<longleftrightarrow> length w = 56 \<and> hd w = CHR ''G'' \<and>
     list_all (\<lambda>c. CHR ''A'' \<le> c \<and> c \<le> CHR ''Z'' \<or> CHR ''2'' \<le> c \<and> c \<le> CHR ''7'') (tl w)"

definition extractWalletsFromTopics :: "json option \<Rightarrow> string list" where
  "extractWalletsFromTopics topics =
     (case topics of
        Some (JArr ts) \<Rightarrow> filter wallet_address (concat (map (\<lambda>t. case t of JStr s \<Rightarrow> word_runs s | _ \<Rightarrow> []) ts))
      | _ \<Rightarrow> [])"

fun contains :: "string \<Rightarrow> string \<Rightarrow> bool" where
  "contains w [] \<longleftrightarrow> w = []"
| "contains w (c # s) \<longleftrightarrow> take (length w) (c # s) = w \<or> contains w s"

definition eventMatchesWallet :: "hook_event \<Rightarrow> string option \<Rightarrow> bool" where
  "eventMatchesWallet e w =
     (case w of
        None \<Rightarrow> True
      | Some a \<Rightarrow>
          a = [] \<or> a \<in> set (extractWalletsFromTopics (raw_topics (he_event e))) \<or>
          (case he_description e of Some d \<Rightarrow> d \<noteq> [] \<and> contains a d | None \<Rightarrow> False))"

definition eventMatchesFilter :: "(string \<Rightarrow> json option) \<Rightarrow> hook_event \<Rightarrow> json option \<Rightarrow> bool" where
  "eventMatchesFilter json_parse e f =
     (case f of
        None \<Rightarrow> True
      | Some x \<Rightarrow>
          if \<not> truthy x then True
          else case (case x of JStr s \<Rightarrow> json_parse s | _ \<Rightarrow> Some x) of
                 None \<Rightarrow> False
               | Some ast \<Rightarrow>
                   (case validateFilter ast of
                      Inl _ \<Rightarrow> False
                    | Inr n \<Rightarrow> (case evaluateFilter json_parse (he_event e) n of Some b \<Rightarrow> b | None \<Rightarrow> False)))"

subsection \<open>Statements\<close>

record delivery =
  dl_webhook :: nat
  dl_seq :: "nat option"
  dl_url :: string
  dl_body :: string
  dl_status :: "nat option"
  dl_text :: "string option"
  dl_delivered :: bool

datatype purpose = Live | Dlq_retry | Test | Manual

record attempt =
  at_webhook :: nat
  at_seq :: "nat option"
  at_url :: string
  at_body :: string
  at_purpose :: purpose

text \<open>The tables, the dead letters of deliveries, and the attempts under way.\<close>

record hook_world =
  hw_subs :: "webhook list"
  hw_log :: "delivery list"
  hw_dead :: "attempt list"
  hw_open :: "attempt list"

definition WEBHOOK_MAX_CONSECUTIVE_FAILURES :: nat where "WEBHOOK_MAX_CONSECUTIVE_FAILURES = 5"

definition createWebhookSubscription ::
  "string \<Rightarrow> string \<Rightarrow> string option \<Rightarrow> string option \<Rightarrow> string option \<Rightarrow> string \<Rightarrow> json option \<Rightarrow> hook_world \<Rightarrow> hook_world" where
  "createWebhookSubscription key url contract fn wallet stored f w =
     w\<lparr>hw_subs := hw_subs w @ [\<lparr>wh_id = length (hw_subs w), wh_key = key, wh_url = url, wh_contract = contract, wh_function = fn,
        wh_wallet = wallet, wh_secret = stored, wh_filter = f, wh_active = True, wh_failures = 0\<rparr>]\<rparr>"

definition getWebhookSubscription :: "nat \<Rightarrow> hook_world \<Rightarrow> webhook option" where
  "getWebhookSubscription i w = find (\<lambda>s. wh_id s = i) (hw_subs w)"

definition deactivateWebhookSubscription :: "nat \<Rightarrow> string \<Rightarrow> hook_world \<Rightarrow> bool \<times> hook_world" where
  "deactivateWebhookSubscription i key w =
     (let own = (\<lambda>s. wh_id s = i \<and> wh_key s = key)
      in (list_ex own (hw_subs w), w\<lparr>hw_subs := update_where own (\<lambda>s. s\<lparr>wh_active := False\<rparr>) (hw_subs w)\<rparr>))"

definition getMatchingWebhookSubscriptions :: "string option \<Rightarrow> string option \<Rightarrow> hook_world \<Rightarrow> webhook list" where
  "getMatchingWebhookSubscriptions contract fn w =
     filter (\<lambda>s. wh_active s \<and> (wh_contract s = None \<or> contract \<noteq> None \<and> wh_contract s = contract) \<and>
                 (wh_function s = None \<or> fn \<noteq> None \<and> wh_function s = fn) \<and> wh_wallet s = None) (hw_subs w) @
     filter (\<lambda>s. wh_active s \<and> wh_wallet s \<noteq> None) (hw_subs w)"

definition recordWebhookDelivery :: "delivery \<Rightarrow> hook_world \<Rightarrow> hook_world" where
  "recordWebhookDelivery d w =
     w\<lparr>hw_log := hw_log w @ [d],
       hw_subs := update_where (\<lambda>s. wh_id s = dl_webhook d)
         (\<lambda>s. if dl_delivered d then s\<lparr>wh_failures := 0\<rparr>
              else s\<lparr>wh_failures := wh_failures s + 1, wh_active := wh_failures s + 1 < WEBHOOK_MAX_CONSECUTIVE_FAILURES\<rparr>) (hw_subs w)\<rparr>"

subsection \<open>Attempts\<close>

record hook_env =
  hv_text :: "json \<Rightarrow> string"
  hv_parse :: "string \<Rightarrow> json option"

definition or_null :: "'a option \<Rightarrow> ('a \<Rightarrow> json) \<Rightarrow> json" where
  "or_null x f = (case x of Some v \<Rightarrow> f v | None \<Rightarrow> JNull)"

text \<open>The payload of an event at a time; the fields after the first two are those the event has.\<close>

definition buildPayload :: "hook_env \<Rightarrow> string \<Rightarrow> hook_event \<Rightarrow> string" where
  "buildPayload env now e =
     hv_text env (JObj ((''seq'', or_null (he_seq e) (\<lambda>n. JNum (of_nat n))) #
       (''event_id'', or_null (map_of (he_fields e) ''event_id'') id) #
       List.map_filter (\<lambda>k. map_option (Pair k) (map_of (he_fields e) k))
         [''contract_id'', ''function'', ''ledger'', ''tx_hash'', ''description'', ''raw_topics'', ''raw_data''] @
       [(''created_at'', JStr now)]))"

text \<open>
  One attempt. \<open>safeFetch\<close> is not bound: the reference is resolved before the arguments are evaluated, so that the try block ends there and the catch block
  gives the outcome.
\<close>

definition sendOnce :: "attempt \<Rightarrow> delivery" where
  "sendOnce a =
     \<lparr>dl_webhook = at_webhook a, dl_seq = at_seq a, dl_url = at_url a, dl_body = at_body a, dl_status = None, dl_text = None,
      dl_delivered = False\<rparr>"

definition attempt_for :: "webhook \<Rightarrow> nat option \<Rightarrow> string \<Rightarrow> purpose \<Rightarrow> attempt" where
  "attempt_for s sq body p =
     \<lparr>at_webhook = wh_id s, at_seq = sq, at_url = wh_url s, at_body = body, at_purpose = p\<rparr>"

definition deliverWebhooksForEvent :: "hook_env \<Rightarrow> string \<Rightarrow> hook_event \<Rightarrow> hook_world \<Rightarrow> hook_world" where
  "deliverWebhooksForEvent env now e w =
     (let subs = filter (\<lambda>s. eventMatchesWallet e (wh_wallet s) \<and> eventMatchesFilter (hv_parse env) e (wh_filter s))
                   (getMatchingWebhookSubscriptions (he_contract e) (he_function e) w)
      in w\<lparr>hw_open := hw_open w @ map (\<lambda>s. attempt_for s (he_seq e) (buildPayload env now e) Live) subs\<rparr>)"

text \<open>What follows the outcome; only a live delivery that failed is put into the dead letter queue.\<close>

definition finish_attempt :: "attempt \<Rightarrow> hook_world \<Rightarrow> hook_world" where
  "finish_attempt a w =
     (let d = sendOnce a; w' = recordWebhookDelivery d w
      in if \<not> dl_delivered d \<and> at_purpose a = Live then w'\<lparr>hw_dead := hw_dead w' @ [a]\<rparr> else w')"

definition retryWebhookDelivery :: "attempt \<Rightarrow> hook_world \<Rightarrow> hook_world" where
  "retryWebhookDelivery raw w =
     (case getWebhookSubscription (at_webhook raw) w of
        None \<Rightarrow> w
      | Some s \<Rightarrow> if \<not> wh_active s then w else w\<lparr>hw_open := hw_open w @ [attempt_for s (at_seq raw) (at_body raw) Dlq_retry]\<rparr>)"

subsection \<open>Routes\<close>

definition test_body :: "hook_env \<Rightarrow> string \<Rightarrow> webhook \<Rightarrow> string" where
  "test_body env now s =
     hv_text env (JObj [(''test'', JBool True),
       (''contract_id'', JStr (case wh_contract s of Some c \<Rightarrow> c | None \<Rightarrow> ''CTEST'' @ replicate 47 CHR ''0'')),
       (''function'', JStr (case wh_function s of Some f \<Rightarrow> f | None \<Rightarrow> ''test_event'')),
       (''ledger'', JNum 0), (''tx_hash'', JStr ''test''),
       (''description'', JStr ''Test event sent from the developer dashboard''), (''created_at'', JStr now)])"

datatype hook_request =
    Create string "string option" "string option" "string option" "json option"
  | Delete nat
  | Send_test nat
  | Retry_delivery nat nat

text \<open>
  The requests of a key with the status of the answer; those that send wait for the attempt they start. \<open>Create\<close> is the request past its
  own checks: the exception of \<open>assertSafeUrl\<close>, which is not bound either, is answered with 500.
\<close>

definition hook_route :: "hook_env \<Rightarrow> string \<Rightarrow> string \<Rightarrow> hook_request \<Rightarrow> hook_world \<Rightarrow> nat \<times> hook_world" where
  "hook_route env now key req w =
     (case req of
        Create url contract fn wallet f \<Rightarrow> (500, w)
      | Delete i \<Rightarrow> (case deactivateWebhookSubscription i key w of (found, w') \<Rightarrow> (if found then 204 else 404, w'))
      | Send_test i \<Rightarrow>
          (case getWebhookSubscription i w of
             None \<Rightarrow> (404, w)
           | Some s \<Rightarrow> if wh_key s \<noteq> key then (404, w)
                       else (200, w\<lparr>hw_open := hw_open w @ [attempt_for s None (test_body env now s) Test]\<rparr>))
      | Retry_delivery i k \<Rightarrow>
          (if k < length (hw_log w) \<and> dl_webhook (hw_log w ! k) = i
           then case getWebhookSubscription i w of
                  None \<Rightarrow> (404, w)
                | Some s \<Rightarrow>
                    if wh_key s \<noteq> key then (404, w)
                    else if \<not> wh_active s then (409, w)
                    else (200, w\<lparr>hw_open := hw_open w @ [attempt_for s (dl_seq (hw_log w ! k)) (dl_body (hw_log w ! k)) Manual]\<rparr>)
           else (404, w)))"

subsection \<open>Runs\<close>

datatype hook_act =
    Request string string hook_request
  | Indexed string hook_event
  | Settle nat
  | Dlq nat

fun act_hook :: "hook_env \<Rightarrow> hook_act \<Rightarrow> hook_world \<Rightarrow> hook_world" where
  "act_hook env (Request now key req) w = snd (hook_route env now key req w)"
| "act_hook env (Indexed now e) w = deliverWebhooksForEvent env now e w"
| "act_hook env (Settle k) w =
     (if k < length (hw_open w)
      then finish_attempt (hw_open w ! k) (w\<lparr>hw_open := take k (hw_open w) @ drop (Suc k) (hw_open w)\<rparr>) else w)"
| "act_hook env (Dlq k) w = (if k < length (hw_dead w) then retryWebhookDelivery (hw_dead w ! k) w else w)"

definition no_hooks :: hook_world where
  "no_hooks = \<lparr>hw_subs = [], hw_log = [], hw_dead = [], hw_open = []\<rparr>"

subsection \<open>Who gets an event\<close>




subsection \<open>Attempts only fail\<close>

text \<open>How many attempts of a subscription have been logged.\<close>

definition logged :: "nat \<Rightarrow> hook_world \<Rightarrow> nat" where
  "logged i w = length (filter (\<lambda>d. dl_webhook d = i) (hw_log w))"

text \<open>
  The subscriptions are those of the table \<open>subs\<close> with the failures counted; each logged attempt failed without an answer; five of them leave
  the subscription inactive.
\<close>

definition only_failed :: "webhook list \<Rightarrow> hook_world \<Rightarrow> bool" where
  "only_failed subs w \<longleftrightarrow>
     map (\<lambda>s. (wh_id s, wh_failures s)) (hw_subs w) = map (\<lambda>s. (wh_id s, wh_failures s + logged (wh_id s) w)) subs \<and>
     (\<forall>d \<in> set (hw_log w). \<not> dl_delivered d \<and> dl_status d = None) \<and>
     (\<forall>s \<in> set (hw_subs w). 5 \<le> logged (wh_id s) w \<longrightarrow> \<not> wh_active s)"

lemma only_failed_same:
  "only_failed subs w \<Longrightarrow> hw_subs w' = hw_subs w \<Longrightarrow> hw_log w' = hw_log w \<Longrightarrow> only_failed subs w'"
  by (simp add: only_failed_def logged_def)

lemma only_failed_deactivated:
  assumes "only_failed subs w"
  shows "only_failed subs (snd (deactivateWebhookSubscription i key w))"
proof -
  let ?w = "snd (deactivateWebhookSubscription i key w)"
  have l: "logged j ?w = logged j w" "hw_log ?w = hw_log w" for j by (simp_all add: logged_def deactivateWebhookSubscription_def Let_def)
  have "map (\<lambda>s. (wh_id s, wh_failures s)) (hw_subs ?w) = map (\<lambda>s. (wh_id s, wh_failures s)) (hw_subs w)"
    by (simp add: deactivateWebhookSubscription_def Let_def)
  moreover have "5 \<le> logged (wh_id s) w \<longrightarrow> \<not> wh_active s" if "s \<in> set (hw_subs ?w)" for s
    using that assms by (auto simp: deactivateWebhookSubscription_def Let_def update_where_def only_failed_def split: if_splits)
  ultimately show ?thesis using assms l by (simp add: only_failed_def)
qed

lemma only_failed_finish:
  assumes "only_failed subs w"
  shows "only_failed subs (finish_attempt a w)"
proof -
  let ?w = "recordWebhookDelivery (sendOnce a) w"
  have log: "hw_log ?w = hw_log w @ [sendOnce a]" by (simp add: recordWebhookDelivery_def)
  have "dl_webhook (sendOnce a) = at_webhook a" by (simp add: sendOnce_def)
  then have l: "logged i ?w = logged i w + (if i = at_webhook a then 1 else 0)" for i by (simp add: logged_def log)
  have subs: "hw_subs ?w = map (\<lambda>s. if wh_id s = at_webhook a
      then s\<lparr>wh_failures := wh_failures s + 1, wh_active := wh_failures s + 1 < 5\<rparr> else s) (hw_subs w)"
    by (simp add: recordWebhookDelivery_def sendOnce_def update_where_def WEBHOOK_MAX_CONSECUTIVE_FAILURES_def)
  have old: "map (\<lambda>s. (wh_id s, wh_failures s)) (hw_subs w) = map (\<lambda>s. (wh_id s, wh_failures s + logged (wh_id s) w)) subs"
    using assms by (simp add: only_failed_def)
  have "map (\<lambda>s. (wh_id s, wh_failures s)) (hw_subs ?w) =
      map (\<lambda>(i, n). (i, n + (if i = at_webhook a then 1 else 0))) (map (\<lambda>s. (wh_id s, wh_failures s)) (hw_subs w))"
    unfolding subs by simp
  also have "\<dots> = map (\<lambda>s. (wh_id s, wh_failures s + logged (wh_id s) ?w)) subs" unfolding old l by simp
  finally have counts: "map (\<lambda>s. (wh_id s, wh_failures s)) (hw_subs ?w) = map (\<lambda>s. (wh_id s, wh_failures s + logged (wh_id s) ?w)) subs" .
  have many: "logged (wh_id s) w \<le> wh_failures s" if "s \<in> set (hw_subs w)" for s
  proof -
    have "(wh_id s, wh_failures s) \<in> set (map (\<lambda>s. (wh_id s, wh_failures s + logged (wh_id s) w)) subs)"
      using that unfolding old [symmetric] by auto
    then show ?thesis by auto
  qed
  have "5 \<le> logged (wh_id s) ?w \<longrightarrow> \<not> wh_active s" if s: "s \<in> set (hw_subs ?w)" for s
  proof -
    obtain s0 where s0: "s0 \<in> set (hw_subs w)" "s = (if wh_id s0 = at_webhook a
        then s0\<lparr>wh_failures := wh_failures s0 + 1, wh_active := wh_failures s0 + 1 < 5\<rparr> else s0)"
      using s unfolding subs by auto
    then show ?thesis using many [OF s0(1)] assms by (auto simp: l only_failed_def)
  qed
  moreover have "\<not> dl_delivered (sendOnce a) \<and> dl_status (sendOnce a) = None" by (simp add: sendOnce_def)
  then have "\<forall>d \<in> set (hw_log ?w). \<not> dl_delivered d \<and> dl_status d = None" using assms by (simp add: log only_failed_def)
  ultimately have "only_failed subs ?w" using counts unfolding only_failed_def by blast
  then show ?thesis by (auto simp: finish_attempt_def Let_def intro: only_failed_same)
qed

interpretation hook_runs: guarded_runs "act_hook env" "\<lambda>_. True" "only_failed subs"
proof
  fix a w
  assume w: "only_failed subs w"
  show "only_failed subs (act_hook env a w)"
  proof (cases a)
    case (Request now key req)
    show ?thesis
    proof (cases req)
      case (Delete i)
      then show ?thesis using Request only_failed_deactivated [OF w, of i key] by (cases "deactivateWebhookSubscription i key w") (simp add: hook_route_def)
    qed (use w Request in \<open>auto simp: hook_route_def intro: only_failed_same split: option.splits\<close>)
  next
    case (Indexed now e)
    then show ?thesis using w by (auto simp: deliverWebhooksForEvent_def Let_def intro: only_failed_same)
  next
    case (Settle k)
    have "only_failed subs (w\<lparr>hw_open := take k (hw_open w) @ drop (Suc k) (hw_open w)\<rparr>)" by (rule only_failed_same [OF w]) simp_all
    then show ?thesis using w Settle only_failed_finish by simp
  next
    case (Dlq k)
    then show ?thesis using w by (auto simp: retryWebhookDelivery_def intro: only_failed_same split: option.splits)
  qed
qed

text \<open>A table of subscriptions before the first attempt.\<close>

definition hooks_at :: "webhook list \<Rightarrow> hook_world" where
  "hooks_at subs = no_hooks\<lparr>hw_subs := subs\<rparr>"

text \<open>
  As the module is, no attempt is ever a delivery, whatever events, requests and retries come: every attempt that is logged failed without
  an answer, the failures of every subscription grow by one with each of its attempts, a subscription with five of them is
  inactive, and no request adds a subscription.
\<close>

lemma webhooks_only_fail:
  "(\<forall>d \<in> set (hw_log (fold (act_hook env) as (hooks_at subs))). \<not> dl_delivered d \<and> dl_status d = None) \<and>
   map (\<lambda>s. (wh_id s, wh_failures s)) (hw_subs (fold (act_hook env) as (hooks_at subs))) =
     map (\<lambda>s. (wh_id s, wh_failures s + logged (wh_id s) (fold (act_hook env) as (hooks_at subs)))) subs \<and>
   (\<forall>s \<in> set (hw_subs (fold (act_hook env) as (hooks_at subs))).
      5 \<le> logged (wh_id s) (fold (act_hook env) as (hooks_at subs)) \<longrightarrow> \<not> wh_active s)"
proof -
  have "only_failed subs (hooks_at subs)" by (simp add: only_failed_def hooks_at_def no_hooks_def logged_def)
  then have "only_failed subs (fold (act_hook env) as (hooks_at subs))" by (intro hook_runs.run_inv) (simp_all add: list_all_iff)
  then show ?thesis by (simp add: only_failed_def)
qed

subsection \<open>Deleted subscriptions\<close>

text \<open>
  A failed attempt writes the activity anew: a subscription its owner has deleted is active again when an attempt that was under way fails, or
  a test event sent to it.
\<close>

lemma deleted_webhook_revived:
  assumes "at_webhook a = i" "s \<in> set (hw_subs (finish_attempt a (snd (deactivateWebhookSubscription i key w))))" "wh_id s = i"
    "\<forall>s \<in> set (hw_subs w). wh_failures s < 4"
  shows "wh_active s"
proof -
  let ?w = "snd (deactivateWebhookSubscription i key w)"
  have f: "\<forall>s \<in> set (hw_subs ?w). wh_failures s < 4"
    using assms(4) by (auto simp: deactivateWebhookSubscription_def update_where_def Let_def)
  have "hw_subs (finish_attempt a ?w) = update_where (\<lambda>s. wh_id s = i)
      (\<lambda>s. s\<lparr>wh_failures := wh_failures s + 1, wh_active := wh_failures s + 1 < 5\<rparr>) (hw_subs ?w)"
    using assms(1) by (simp add: finish_attempt_def sendOnce_def recordWebhookDelivery_def WEBHOOK_MAX_CONSECUTIVE_FAILURES_def Let_def)
  then have "s \<in> set (update_where (\<lambda>s. wh_id s = i)
      (\<lambda>s. s\<lparr>wh_failures := wh_failures s + 1, wh_active := wh_failures s + 1 < 5\<rparr>) (hw_subs ?w))" using assms(2) by (simp only:)
  then obtain s0 where s0: "s0 \<in> set (hw_subs ?w)"
    "s = (if wh_id s0 = i then s0\<lparr>wh_failures := wh_failures s0 + 1, wh_active := wh_failures s0 + 1 < 5\<rparr> else s0)"
    unfolding update_where_def by fastforce
  moreover from s0(2) assms(3) have "wh_id s0 = i" by (cases "wh_id s0 = i") simp_all
  ultimately show ?thesis using f by simp
qed

lemma test_event_revives:
  "let env = \<lparr>hv_text = (\<lambda>_. []), hv_parse = (\<lambda>_. None)\<rparr>;
       w = fold (act_hook env) [Request [] ''k'' (Delete 0), Request [] ''k'' (Send_test 0), Settle 0]
             (createWebhookSubscription ''k'' ''u'' None None None ''plain'' None no_hooks)
   in map wh_active (hw_subs w) = [True]"
  by code_simp

text \<open>A request touches only what belongs to its key: the other subscriptions stay as they are and nothing is sent for them.\<close>

lemma found_sub: "getWebhookSubscription i w = Some s \<Longrightarrow> s \<in> set (hw_subs w) \<and> wh_id s = i"
  by (auto simp: getWebhookSubscription_def dest: find_SomeD)

lemma other_keys_untouched:
  assumes "s \<in> set (hw_subs w)" "wh_key s \<noteq> key" "distinct (map wh_id (hw_subs w))"
  shows "s \<in> set (hw_subs (snd (hook_route env now key req w))) \<and>
    (\<forall>a \<in> set (hw_open (snd (hook_route env now key req w))). at_webhook a = wh_id s \<longrightarrow> a \<in> set (hw_open w))"
proof -
  have same: "s' = s" if "s' \<in> set (hw_subs w)" "wh_id s' = wh_id s" for s'
    using that assms by (auto simp: distinct_map dest: inj_onD)
  have "s \<in> set (update_where (\<lambda>s. wh_id s = i \<and> wh_key s = key) g (hw_subs w))" for i g
    using assms(1,2) by (force simp: update_where_def)
  then show ?thesis using assms(1,2) same
    by (cases req) (auto simp: hook_route_def createWebhookSubscription_def deactivateWebhookSubscription_def attempt_for_def Let_def
        dest!: found_sub split: option.splits)
qed

subsection \<open>A run\<close>

definition toy_hooks :: hook_env where
  "toy_hooks = \<lparr>hv_text = (\<lambda>_. ''{}''), hv_parse = (\<lambda>_. None)\<rparr>"

definition toy_event :: hook_event where
  "toy_event = \<lparr>he_event = \<lparr>ev_col = (\<lambda>_. None), raw_topics = None, raw_data = None\<rparr>, he_contract = Some ''C'', he_function = Some ''mint'',
     he_description = None, he_seq = Some 1, he_fields = []\<rparr>"

definition two_hooks :: hook_world where
  "two_hooks = createWebhookSubscription ''k'' ''v'' (Some ''D'') None None ''plain'' None
     (createWebhookSubscription ''k'' ''u'' (Some ''C'') None None ''plain'' None no_hooks)"


text \<open>Five events, and the subscription they are attempted for is disabled.\<close>

lemma webhooks_only_fail_witness:
  "(let w = fold (act_hook toy_hooks) (concat (replicate 5 [Indexed [] toy_event, Settle 0])) (hooks_at (hw_subs two_hooks))
    in filter (\<lambda>s. wh_id s = 0 \<and> wh_active s) (hw_subs w) = [] \<and> logged 0 w = 5)"
proof -
  let ?as = "concat (replicate 5 [Indexed [] toy_event, Settle 0])"
  have l: "logged 0 (fold (act_hook toy_hooks) ?as (hooks_at (hw_subs two_hooks))) = 5" by code_simp
  then have "\<not> wh_active s" if "s \<in> set (hw_subs (fold (act_hook toy_hooks) ?as (hooks_at (hw_subs two_hooks))))" "wh_id s = 0" for s
    using webhooks_only_fail [of toy_hooks ?as "hw_subs two_hooks"] that by auto
  then show ?thesis using l unfolding Let_def filter_empty_conv by blast
qed

end
