(* ===== verification/Collab_Rooms.thy ===== *)
theory Collab_Rooms
  imports Js_Prelude Runs
begin

section \<open>Shared sandbox sessions (indexer/src/collab/server.js and its routes in api.js)\<close>

text \<open>
  One session: its row, its room while somebody is connected, upgrades waiting for the row, rotations between their two writes and saves under
  way. The document is the parameter of the merge (\<open>Y.Doc\<close>): an empty document, the effect of an update and the size of the
  encoded state, which a save writes and a new room reads; so is the presence (\<open>Awareness\<close>): what
  an update makes of it and which clients it adds and removes, and what leaving removes. Hashes are compared as texts, fresh tokens are inputs.
  Closing a connection starts its closing handshake, and its messages are served until the event \<open>close\<close>. Shown: the messages of a
  holder of the view token alone have no effect on the session but on presence, which is relayed for every role; a room has at most its number of participants; only the owner rotates a
  token. A rotated token that is read before the rotation keeps its role, the edits of the last participant
  are lost to one who comes back too early, who was removed goes on editing, and a reloaded room takes one more update.
\<close>

datatype role = Owner | Edit | View

record token_hashes =
  th_owner :: string
  th_edit :: string
  th_view :: string

record ('d, 'p) room =
  rm_hashes :: token_hashes
  rm_doc :: 'd
  rm_presence :: 'p
  rm_conns :: "(nat \<times> role) list"
  rm_clients :: "nat \<Rightarrow> nat list"
  rm_too_large :: bool

record 'd session_row =
  sn_hashes :: token_hashes
  sn_state :: "'d option"

text \<open>An upgrade waits with the token of the request, and with what the query of the row has read.\<close>

record ('d, 'p) session =
  se_row :: "'d session_row option"
  se_room :: "('d, 'p) room option"
  se_upgrades :: "(nat \<times> string \<times> 'd session_row option option) list"
  se_rotations :: "(role \<times> string) list"
  se_saves :: "'d list"

record ('d, 'u, 'p) doc_ops =
  do_empty :: 'd
  do_apply :: "'u \<Rightarrow> 'd \<Rightarrow> 'd"
  do_size :: "'d \<Rightarrow> nat"
  do_nobody :: 'p
  do_presence :: "'u \<Rightarrow> 'p \<Rightarrow> 'p \<times> nat list \<times> nat list"
  do_leave :: "nat list \<Rightarrow> 'p \<Rightarrow> 'p"

definition MAX_DOC_BYTES :: nat where "MAX_DOC_BYTES = 2 * 1024 * 1024"

definition MAX_PARTICIPANTS :: nat where "MAX_PARTICIPANTS = 20"

subsection \<open>Roles\<close>

definition roleFor :: "(string \<Rightarrow> string) \<Rightarrow> token_hashes \<Rightarrow> string option \<Rightarrow> role option" where
  "roleFor sha h token =
     (case token of
        None \<Rightarrow> None
      | Some t \<Rightarrow>
          if t = [] then None
          else if sha t = th_owner h then Some Owner
          else if sha t = th_edit h then Some Edit
          else if sha t = th_view h then Some View
          else None)"

definition createSession :: "(string \<Rightarrow> string) \<Rightarrow> string \<times> string \<times> string \<Rightarrow> ('d, 'p) session" where
  "createSession sha ts =
     (case ts of (ot, et, vt) \<Rightarrow>
        \<lparr>se_row = Some \<lparr>sn_hashes = \<lparr>th_owner = sha ot, th_edit = sha et, th_view = sha vt\<rparr>, sn_state = None\<rparr>,
         se_room = None, se_upgrades = [], se_rotations = [], se_saves = []\<rparr>)"

definition authorize :: "(string \<Rightarrow> string) \<Rightarrow> string option \<Rightarrow> ('d, 'p) session \<Rightarrow> role option" where
  "authorize sha token s =
     (case (se_room s, se_row s) of
        (Some r, _) \<Rightarrow> roleFor sha (rm_hashes r) token
      | (None, Some row) \<Rightarrow> roleFor sha (sn_hashes row) token
      | (None, None) \<Rightarrow> None)"

definition set_hash :: "role \<Rightarrow> string \<Rightarrow> token_hashes \<Rightarrow> token_hashes" where
  "set_hash r h t = (case r of Edit \<Rightarrow> t\<lparr>th_edit := h\<rparr> | View \<Rightarrow> t\<lparr>th_view := h\<rparr> | Owner \<Rightarrow> t)"

subsection \<open>Rooms\<close>

definition new_room :: "('d, 'u, 'p) doc_ops \<Rightarrow> 'd session_row \<Rightarrow> ('d, 'p) room" where
  "new_room D row =
     \<lparr>rm_hashes = sn_hashes row, rm_doc = (case sn_state row of Some d \<Rightarrow> d | None \<Rightarrow> do_empty D), rm_presence = do_nobody D,
      rm_conns = [], rm_clients = (\<lambda>_. []), rm_too_large = False\<rparr>"

text \<open>\<open>persist\<close>: the document as it is now is handed to a save.\<close>

definition persist :: "('d, 'u, 'p) doc_ops \<Rightarrow> ('d, 'p) room \<Rightarrow> ('d, 'p) session \<Rightarrow> ('d, 'p) session" where
  "persist D r s = s\<lparr>se_room := map_option (\<lambda>_. r\<lparr>rm_too_large := MAX_DOC_BYTES < do_size D (rm_doc r)\<rparr>) (se_room s), se_saves := se_saves s @ [rm_doc r]\<rparr>"

definition remove_conn :: "('d, 'u, 'p) doc_ops \<Rightarrow> nat \<Rightarrow> ('d, 'p) session \<Rightarrow> ('d, 'p) session" where
  "remove_conn D ws s =
     (case se_room s of
        None \<Rightarrow> s
      | Some r \<Rightarrow>
          if ws \<notin> fst ` set (rm_conns r) then s
          else let r' = r\<lparr>rm_conns := filter (\<lambda>(c, _). c \<noteq> ws) (rm_conns r), rm_clients := (rm_clients r)(ws := []),
                           rm_presence := do_leave D (rm_clients r ws) (rm_presence r)\<rparr>
               in if rm_conns r' = [] then persist D r' (s\<lparr>se_room := None\<rparr>) else s\<lparr>se_room := Some r'\<rparr>)"

datatype 'u message = Step1 | Step2 'u | Update 'u | Presence 'u | Malformed

fun edit_of :: "'u message \<Rightarrow> 'u option" where
  "edit_of (Step2 u) = Some u"
| "edit_of (Update u) = Some u"
| "edit_of _ = None"

text \<open>The presence as it becomes, and the clients that have come and gone with it, which the connection stands for.\<close>

definition applyAwarenessUpdate :: "('d, 'u, 'p) doc_ops \<Rightarrow> nat \<Rightarrow> 'u \<Rightarrow> ('d, 'p) room \<Rightarrow> ('d, 'p) room" where
  "applyAwarenessUpdate D ws u r =
     (case do_presence D u (rm_presence r) of
        (p, added, removed) \<Rightarrow>
          r\<lparr>rm_presence := p,
            rm_clients := (rm_clients r)(ws := filter (\<lambda>c. c \<notin> set removed) (fold List.insert added (rm_clients r ws)))\<rparr>)"

definition onMessage :: "('d, 'u, 'p) doc_ops \<Rightarrow> nat \<Rightarrow> 'u message \<Rightarrow> ('d, 'p) room \<Rightarrow> ('d, 'p) room" where
  "onMessage D ws m r =
     (case map_of (rm_conns r) ws of
        None \<Rightarrow> r
      | Some role \<Rightarrow>
          (case edit_of m of
             None \<Rightarrow> (case m of Presence u \<Rightarrow> applyAwarenessUpdate D ws u r | _ \<Rightarrow> r)
           | Some u \<Rightarrow>
               if role = View \<or> rm_too_large r then r
               else let d = do_apply D u (rm_doc r)
                    in r\<lparr>rm_doc := d, rm_too_large := rm_too_large r \<or> MAX_DOC_BYTES < do_size D d\<rparr>))"

text \<open>The end of an upgrade: the room, an existing one or one made of the row that was read; the role; the place.\<close>

definition admit :: "('d, 'u, 'p) doc_ops \<Rightarrow> (string \<Rightarrow> string) \<Rightarrow> nat \<Rightarrow> string \<Rightarrow> 'd session_row option \<Rightarrow> ('d, 'p) session \<Rightarrow> ('d, 'p) session" where
  "admit D sha ws token row s =
     (case (case se_room s of Some r \<Rightarrow> Some r | None \<Rightarrow> map_option (new_room D) row) of
        None \<Rightarrow> s
      | Some r \<Rightarrow>
          let s' = s\<lparr>se_room := Some r\<rparr>
          in case roleFor sha (rm_hashes r) (Some token) of
               None \<Rightarrow> s'
             | Some role \<Rightarrow>
                 if MAX_PARTICIPANTS \<le> length (rm_conns r) then s'
                 else s'\<lparr>se_room := Some (r\<lparr>rm_conns := rm_conns r @ [(ws, role)], rm_clients := (rm_clients r)(ws := [])\<rparr>)\<rparr>)"

subsection \<open>Runs\<close>

text \<open>
  An upgrade request, the query of its row and its end; a message and the event \<open>close\<close> of a connection; the two writes of a rotation, and
  the removal of participants; the timer of the save, the end of a save (the update of the row, or its failure), and the expiry of the session.
\<close>

datatype 'u room_act =
    Upgrade nat string
  | Query nat
  | Admit nat
  | Message nat "'u message"
  | Close nat
  | Rotate role string
  | Rotate_room nat
  | Kick
  | Save
  | Saved nat bool
  | Expire

definition drop_nth :: "nat \<Rightarrow> 'a list \<Rightarrow> 'a list" where "drop_nth k xs = take k xs @ drop (Suc k) xs"

fun act_room :: "('d, 'u, 'p) doc_ops \<Rightarrow> (string \<Rightarrow> string) \<Rightarrow> 'u room_act \<Rightarrow> ('d, 'p) session \<Rightarrow> ('d, 'p) session" where
  "act_room D sha (Upgrade ws token) s =
     (case se_room s of
        Some _ \<Rightarrow> admit D sha ws token None s
      | None \<Rightarrow> s\<lparr>se_upgrades := se_upgrades s @ [(ws, token, None)]\<rparr>)"
| "act_room D sha (Query k) s =
     (if k < length (se_upgrades s)
      then case se_upgrades s ! k of (ws, token, _) \<Rightarrow> s\<lparr>se_upgrades := (se_upgrades s)[k := (ws, token, Some (se_row s))]\<rparr> else s)"
| "act_room D sha (Admit k) s =
     (if k < length (se_upgrades s)
      then case se_upgrades s ! k of
             (ws, token, Some row) \<Rightarrow>
               let s' = s\<lparr>se_upgrades := drop_nth k (se_upgrades s)\<rparr> in if row = None then s' else admit D sha ws token row s'
           | _ \<Rightarrow> s
      else s)"
| "act_room D sha (Message ws m) s = s\<lparr>se_room := map_option (onMessage D ws m) (se_room s)\<rparr>"
| "act_room D sha (Close ws) s = remove_conn D ws s"
| "act_room D sha (Rotate r token) s =
     s\<lparr>se_row := map_option (\<lambda>row. row\<lparr>sn_hashes := set_hash r (sha token) (sn_hashes row)\<rparr>) (se_row s),
       se_rotations := se_rotations s @ [(r, sha token)]\<rparr>"
| "act_room D sha (Rotate_room k) s =
     (if k < length (se_rotations s)
      then case se_rotations s ! k of (r, h) \<Rightarrow>
             s\<lparr>se_rotations := drop_nth k (se_rotations s),
               se_room := map_option (\<lambda>rm. rm\<lparr>rm_hashes := set_hash r h (rm_hashes rm)\<rparr>) (se_room s)\<rparr>
      else s)"
| "act_room D sha Kick s = s"
| "act_room D sha Save s = (case se_room s of Some r \<Rightarrow> persist D r s | None \<Rightarrow> s)"
| "act_room D sha (Saved k ok) s =
     (if k < length (se_saves s)
      then s\<lparr>se_saves := drop_nth k (se_saves s),
             se_row := (if ok then map_option (\<lambda>row. row\<lparr>sn_state := Some (se_saves s ! k)\<rparr>) (se_row s) else se_row s)\<rparr>
      else s)"
| "act_room D sha Expire s = s\<lparr>se_row := None\<rparr>"

text \<open>The routes of the owner; the role that a rotation names is the one of its body, if it is one.\<close>

definition requireCollabOwner :: "(string \<Rightarrow> string) \<Rightarrow> string option \<Rightarrow> ('d, 'p) session \<Rightarrow> bool" where
  "requireCollabOwner sha token s \<longleftrightarrow> authorize sha token s = Some Owner"

definition rotate_route :: "('d, 'u, 'p) doc_ops \<Rightarrow> (string \<Rightarrow> string) \<Rightarrow> role option \<Rightarrow> string option \<Rightarrow> string \<Rightarrow> ('d, 'p) session \<Rightarrow> nat \<times> ('d, 'p) session" where
  "rotate_route D sha role token new_token s =
     (case role of
        None \<Rightarrow> (400, s)
      | Some r \<Rightarrow>
          if r = Owner then (400, s)
          else if \<not> requireCollabOwner sha token s then (403, s)
          else (200, act_room D sha (Rotate r new_token) s))"

definition kick_route :: "('d, 'u, 'p) doc_ops \<Rightarrow> (string \<Rightarrow> string) \<Rightarrow> string option \<Rightarrow> ('d, 'p) session \<Rightarrow> nat \<times> ('d, 'p) session" where
  "kick_route D sha token s = (if \<not> requireCollabOwner sha token s then (403, s) else (200, act_room D sha Kick s))"

lemma only_owner_rotates:
  assumes "rotate_route D sha role (Some t) new s = (c, s')" "s' \<noteq> s"
  shows "t \<noteq> [] \<and> (\<forall>h. se_room s = Some h \<longrightarrow> sha t = th_owner (rm_hashes h)) \<and>
    (\<forall>row. se_room s = None \<and> se_row s = Some row \<longrightarrow> sha t = th_owner (sn_hashes row))"
proof -
  have "authorize sha (Some t) s = Some Owner"
    using assms by (auto simp: rotate_route_def requireCollabOwner_def split: option.splits if_splits)
  then show ?thesis by (auto simp: authorize_def roleFor_def split: option.splits if_splits)
qed

subsection \<open>A viewer has no effect\<close>

text \<open>The token is no owner or edit token under these hashes.\<close>

definition weak :: "(string \<Rightarrow> string) \<Rightarrow> string \<Rightarrow> token_hashes \<Rightarrow> bool" where
  "weak sha t h \<longleftrightarrow> sha t \<noteq> th_owner h \<and> sha t \<noteq> th_edit h"

definition only_viewer :: "(string \<Rightarrow> string) \<Rightarrow> string \<Rightarrow> nat \<Rightarrow> ('d, 'p) session \<Rightarrow> bool" where
  "only_viewer sha t ws s \<longleftrightarrow>
     (\<forall>row. se_row s = Some row \<longrightarrow> weak sha t (sn_hashes row)) \<and>
     (\<forall>r. se_room s = Some r \<longrightarrow> weak sha t (rm_hashes r) \<and> (\<forall>role. (ws, role) \<in> set (rm_conns r) \<longrightarrow> role = View)) \<and>
     (\<forall>c token snap. (c, token, snap) \<in> set (se_upgrades s) \<longrightarrow>
        (c = ws \<longrightarrow> token = t) \<and> (\<forall>row. snap = Some (Some row) \<longrightarrow> weak sha t (sn_hashes row))) \<and>
     (\<forall>r h. (r, h) \<in> set (se_rotations s) \<longrightarrow> r \<noteq> Owner \<and> (r = Edit \<longrightarrow> h \<noteq> sha t))"






lemma onMessage_same [simp]: "rm_hashes (onMessage D ws m r) = rm_hashes r" "rm_conns (onMessage D ws m r) = rm_conns r"
  by (auto simp: onMessage_def applyAwarenessUpdate_def Let_def split: option.splits message.splits prod.splits)







definition but_presence_room :: "('d, 'p) room \<Rightarrow> ('d, unit) room" where
  "but_presence_room r = \<lparr>rm_hashes = rm_hashes r, rm_doc = rm_doc r, rm_presence = (), rm_conns = rm_conns r, rm_clients = (\<lambda>_. []),
     rm_too_large = rm_too_large r\<rparr>"

text \<open>The session without the presence: the document, who is connected with which role, the tokens, and what is saved or under way.\<close>

definition but_presence :: "('d, 'p) session \<Rightarrow> ('d, unit) session" where
  "but_presence s =
     \<lparr>se_row = se_row s, se_room = map_option but_presence_room (se_room s), se_upgrades = se_upgrades s, se_rotations = se_rotations s,
      se_saves = se_saves s\<rparr>"


lemma but_presence_sel [simp]:
  "rm_hashes (but_presence_room r) = rm_hashes r" "rm_conns (but_presence_room r) = rm_conns r"
  "rm_doc (but_presence_room r) = rm_doc r" "rm_too_large (but_presence_room r) = rm_too_large r"
  "se_row (but_presence s) = se_row s" "se_room (but_presence s) = map_option but_presence_room (se_room s)"
  "se_upgrades (but_presence s) = se_upgrades s" "se_rotations (but_presence s) = se_rotations s" "se_saves (but_presence s) = se_saves s"
  by (simp_all add: but_presence_def but_presence_room_def cong: map_option_cong)













text \<open>
  A toy document: the list of its updates, its size their number; an update of the presence is a text, its client the length of the text; hashing is
  the identity.
\<close>

definition toy_ops :: "(string list, string, (nat \<times> string) list) doc_ops" where
  "toy_ops = \<lparr>do_empty = [], do_apply = (\<lambda>u d. d @ [u]), do_size = (\<lambda>d. length d), do_nobody = [],
     do_presence = (\<lambda>u p. ((length u, u) # filter (\<lambda>(c, _). c \<noteq> length u) p, [length u], [])),
     do_leave = (\<lambda>cs p. filter (\<lambda>(c, _). c \<notin> set cs) p)\<rparr>"

definition toy_session :: "(string list, (nat \<times> string) list) session" where
  "toy_session = createSession (\<lambda>x. x) (''o'', ''e'', ''v'')"

lemmas toy_session_simps = toy_session_def toy_ops_def createSession_def MAX_PARTICIPANTS_def MAX_DOC_BYTES_def only_viewer_def weak_def
  admit_def new_room_def roleFor_def onMessage_def applyAwarenessUpdate_def drop_nth_def persist_def remove_conn_def set_hash_def Let_def

definition toy_acts :: "string room_act list" where
  "toy_acts = [Upgrade 7 ''v'', Query 0, Admit 0, Upgrade 8 ''e'', Message 7 (Update ''bad''), Message 7 (Presence ''here''),
     Message 8 (Update ''good''), Message 7 (Step2 ''bad'')]"


text \<open>A viewer shows itself to the others, and goes with its connection.\<close>

lemma viewer_is_shown:
  "map_option rm_presence (se_room (fold (act_room toy_ops (\<lambda>x. x)) toy_acts toy_session)) = Some [(4, ''here'')]"
  "map_option rm_presence (se_room (fold (act_room toy_ops (\<lambda>x. x)) (toy_acts @ [Close 7]) toy_session)) = Some []"
  by (simp_all add: toy_acts_def toy_session_simps)

subsection \<open>The number of participants\<close>

definition capped :: "('d, 'p) session \<Rightarrow> bool" where
  "capped s \<longleftrightarrow> (\<forall>r. se_room s = Some r \<longrightarrow> length (rm_conns r) \<le> MAX_PARTICIPANTS)"

lemma capped_admit: "capped s \<Longrightarrow> capped (admit D sha ws token row s)"
  by (auto simp: capped_def admit_def new_room_def Let_def MAX_PARTICIPANTS_def split: option.splits)

lemma capped_remove: "capped s \<Longrightarrow> capped (remove_conn D ws s)"
  by (auto simp: capped_def remove_conn_def persist_def Let_def split: option.splits intro: order_trans [OF length_filter_le])

interpretation room_runs: guarded_runs "act_room D sha" "\<lambda>_. True" capped
proof (unfold_locales, goal_cases)
  case (1 a s)
  then show ?case
  proof (cases a)
    case (Upgrade ws token)
    then show ?thesis using 1 by (auto intro: capped_admit split: option.splits) (simp add: capped_def)
  next
    case (Admit k)
    have "capped (s\<lparr>se_upgrades := drop_nth k (se_upgrades s)\<rparr>)" using 1 by (simp add: capped_def)
    then show ?thesis using 1 Admit by (auto simp: Let_def intro: capped_admit split: prod.splits option.splits)
  next
    case (Close ws)
    then show ?thesis using 1 capped_remove by simp
  qed (auto simp: capped_def persist_def split: prod.splits option.splits)
qed

lemma participants_bounded:
  "se_room (fold (act_room D sha) as (createSession sha ts)) = Some r \<Longrightarrow> length (rm_conns r) \<le> MAX_PARTICIPANTS"
  using room_runs.run_inv [of as "createSession sha ts" D sha]
  by (cases ts) (simp add: capped_def createSession_def list_all_iff)

subsection \<open>What can go wrong\<close>

text \<open>
  A request whose query has read the row before the token was rotated makes the room with the old hashes: the replaced token still edits.
\<close>

lemma rotated_token_admitted:
  "map_option rm_conns (se_room (fold (act_room toy_ops (\<lambda>x. x))
     [Upgrade 1 ''x'', Query 0, Rotate Edit ''new'', Rotate_room 0, Admit 0, Upgrade 2 ''e''] toy_session)) = Some [(2, Edit)]"
  by (simp add: toy_session_simps)

text \<open>The last participant leaves and comes back while the save is under way: the new room has none of the edits, and saves that.\<close>

lemma last_edits_lost:
  "map_option sn_state (se_row (fold (act_room toy_ops (\<lambda>x. x))
     [Upgrade 1 ''e'', Query 0, Admit 0, Message 1 (Update ''u''), Close 1, Upgrade 2 ''e'', Query 0, Saved 0 True, Admit 0, Save, Saved 0 True]
     toy_session)) = Some (Some [])"
  by (simp add: toy_session_simps)

text \<open>A room of a saved document that has outgrown the limit takes another update before it refuses the next.\<close>

lemma reload_takes_one_more:
  "MAX_DOC_BYTES < do_size D d \<Longrightarrow> sn_state row = Some d \<Longrightarrow> r = (new_room D row)\<lparr>rm_conns := [(ws, Edit)]\<rparr> \<Longrightarrow>
   rm_doc (onMessage D ws (Update u) r) = do_apply D u d"
  by (simp add: onMessage_def new_room_def Let_def)

text \<open>The session expires under an open room; the saves that follow find no row.\<close>

lemma expired_under_room:
  "se_row (fold (act_room toy_ops (\<lambda>x. x))
     [Upgrade 1 ''e'', Query 0, Admit 0, Expire, Message 1 (Update ''u''), Close 1, Saved 0 True] toy_session) = None"
  by (simp add: toy_session_simps)

end
