(* ===== verification/Spec2Isabelle.thy ===== *)
theory Spec2Isabelle
  imports Event_Ids Amounts Mmr Integrity Ip_Rules Endpoint_Groups Token_Bucket Lru_Cache Cache_Layer
    Filter_Parser Filter_Sql Scopes Dead_Letters Load_Shedder Request_Signing Gap_Predictor Reorg
    Concurrent_Limiter Abuse_Detector Graphql_Cost Rpc_Filters Event_Dsl Rpc_Failover
    Ingest_Daemon Safe_Http Cursor_Pages Analytics_Sql Leader_Lease Outbox_Relay Query_Jobs Event_Decoder Api_Keys Call_Batches Csrf_Guard Account_Auth Admin_Auth Runtime_Config
    Wasm_Sections Code_Verification Spec_Cache Secret_Store Webhooks Collab_Rooms
begin

text \<open>
  This library models the indexer of the Soroban Smart Block explorer (the Node.js process under
  src/indexer/src) and proves what makes its components correct. All file names below are relative to
  that directory.

  \<^bold>\<open>The program.\<close> The indexer polls Soroban RPC nodes for ledgers and events, decodes and stores them in
  PostgreSQL, repairs gaps and reorganisations, and serves what it stored over REST, GraphQL, WebSocket and a JSON-RPC
  facade. An event flows from the RPC nodes (failover, retries, cross verification) through the ingest
  pipeline into the tables, gets a canonical id, and is committed to by a Merkle mountain range. A request
  flows through the admission path (IP allow list, abuse detection, rate, cost and concurrency limits, load shedding,
  request signing, scopes), then through a filter language compiled to SQL, the cache tiers and cursor pages. Beside
  the two paths stand the dead letter queue, alerts, the analytics sandbox, asynchronous jobs and outbound HTTP calls.

  \<^bold>\<open>Theories and the code they model.\<close>

  Foundations:
  \<^item> \<open>Js_Prelude\<close>: decimal text, padding, insertion-ordered maps, bounded arrays, split and join; \<open>Js_Number\<close>: numbers with
    NaN and the infinities; \<open>Json\<close>: JSON values and property access; \<open>Json_Text\<close>: an invertible text codec for witnesses;
    \<open>Redis_Client\<close>: the commands of the Redis client as parameters with documented laws; \<open>Runs\<close>: table updates, and the
    locale \<open>guarded_runs\<close>, what every request keeps a run of requests keeps; \<open>Limiter_Budget\<close>: the locale
    \<open>credit_limiter\<close>, the contract of every limiter that spends a credit.

  Ingestion:
  \<^item> \<open>Rpc_Failover\<close> (rpcMultiNode.js, rpcVerifier.js, rpcRetry.js): node selection, recovery, health scores, a range
    verified by a quorum, retries.
  \<^item> \<open>Ingest_Pipeline\<close> (ingestPipeline.js): the bounded queue, its workers and drain promises.
  \<^item> \<open>Event_Ids\<close> (eventId.js) and \<open>Amounts\<close> (formatAmount.js): canonical ids and exact decimal amounts.
  \<^item> \<open>Mmr\<close> (mmr.js) and \<open>Integrity\<close> (integrityReconciler.js): the commitment to all events and its paged rebuild.
  \<^item> \<open>Reorg\<close> (reorgWorker.js with its statements in db.js) and \<open>Gap_Predictor\<close> (predictiveGapDetector.js): forks and gaps.
  \<^item> \<open>Dead_Letters\<close> (deadLetterQueue.js): classification, backoff, and every operation on the table, with the ticks and replays
    that await a handler or a statement as jobs between whose steps the others come.
  \<^item> \<open>Ingest_Daemon\<close> (index.js, eventProcessor.js): one poll, from the pages of events to the tables, over the pipeline.
  \<^item> \<open>Leader_Lease\<close> (leaderElection.js): the lease in Redis as a system of processes; \<open>Outbox_Relay\<close> (outboxRelay.js, wsEvents.js):
    relays claiming, publishing and marking rows.
  \<^item> \<open>Native_Values\<close>, \<open>Event_Text\<close>, \<open>Event_Decoder\<close> (decoder.js, decoderVersions.js): values as scValToNative gives them, the
    description of every kind of event, the decoding pipeline with its ABI check; \<open>Host_Calls\<close> (ttlExtensionParser.js,
    zkHostFunctions.js), \<open>Rwa_Decoder\<close> (rwaDecoder.js, roleTracker.js): what the pipeline reads beside the event.
  \<^item> \<open>Wasm_Sections\<close> (wasmBuildMetadata.js, wasmContractSpec.js, wasmFingerprint.js): the sections of uploaded code;
    \<open>Spec_Cache\<close> (contractSpecCache.js): the specifications of contracts, with the fetches under way; \<open>Code_Verification\<close>
    (contractVerifier.js, upgradeDetector.js, verify_abi.js, sourceVerification.js): builds of declared sources, code hashes and badges.
  Admission:
  \<^item> \<open>Ip_Rules\<close> (admin/ipUtils.js), \<open>Scopes\<close> (auth/scopes.js), \<open>Request_Signing\<close> (auth/requestSigning.js).
  \<^item> \<open>Endpoint_Groups\<close>, \<open>Token_Bucket\<close>, \<open>Concurrent_Limiter\<close>, \<open>Abuse_Detector\<close>, \<open>Graphql_Cost\<close> (the files of the
    same names under rateLimit/), \<open>Load_Shedder\<close> (loadShedder.js).
  \<^item> \<open>Api_Keys\<close> (auth/apiKeyAuth.js, admin/keyManager.js, routes/dashboard.js): the life of a key and its use by requests.
  \<^item> \<open>Account_Auth\<close> (auth/session.js, passkeys.js, recovery.js, the routes /api/auth of api.js): accounts, sessions, passkeys,
    mail links and recovery codes; \<open>Admin_Auth\<close> (admin/adminAuth.js, totp.js): the factors of the admin routes; \<open>Csrf_Guard\<close>
    (csrf.js): the double-submit cookie.
  Queries:
  \<^item> \<open>Filter_Ast\<close>, \<open>Filter_Parser\<close>, \<open>Filter_Eval\<close>, \<open>Filter_Plan\<close> (filters/filter.js), \<open>Filter_Sql\<close> (filters/sql.js),
    \<open>Rpc_Filters\<close> (rpcFilters.js), \<open>Event_Dsl\<close> (eventFilterDsl.js): three filter languages, each with its validation, its SQL
    and its live matcher.
  \<^item> \<open>Cursor_Pages\<close> (cursor.js with the keyset queries of db.js), \<open>Lru_Cache\<close> and \<open>Cache_Layer\<close> (cacheLayer.js),
    \<open>Analytics_Sql\<close> (analyticsSql.js).
  \<^item> \<open>Query_Jobs\<close> (jobs/queryJobs.js and its routes in api.js): asynchronous exports; \<open>Call_Batches\<close> (batch.js): conflicts, order
    and validity of a batch of calls.
  Operations:
  \<^item> \<open>Alerts\<close> (alertManager.js), \<open>Safe_Http\<close> (safeHttp.js).
  \<^item> \<open>Runtime_Config\<close> (runtimeConfig.js, routes/admin.js): versioned configuration, its reloads and its guardrail.
  \<^item> \<open>Webhooks\<close> (webhookDelivery.js, routes/webhooks.js): choice of subscriptions, attempts and their log, with the unbound names as they are;
    \<open>Secret_Store\<close> (secrets/index.js): sealed secrets and the rotation of keys; \<open>Collab_Rooms\<close> (collab/server.js): shared sessions.
  Definitions carry the names of the functions they translate; a JavaScript object is a record, a Map or
  object used as a map an association list in insertion order, a database table the list of its rows, and an
  operation takes the state (and the time) and returns the next one. A thrown error is a value: \<open>None\<close>, or \<open>Inl\<close> of
  a constructor per message. Operations that interleave (\<open>await\<close>) are runs over lists of steps or inductive
  relations with their invariants.

  \<^bold>\<open>What the lemmas show.\<close> Invariants of every reachable state: the cache tiers, the dead letter table, the load shedder,
  the ingest pipeline, alert episodes. Safety: no recorded nonce is accepted again, no admin path is served without
  the admin scope, no outbound request reaches a denied address, no SQL text depends on a filter's values, the
  analytics database sees only read-only transactions of checked queries. Refinement and equivalence: the commitment
  is a function of the leaves, the SQL of a filter agrees with its live matcher, validations and the sandbox
  accept exactly what their declarative descriptions allow, cursor pages put together are the whole list.
  Round trips: event ids, amounts, cursors, CSV. Bounds: rates, quotas, pages. Termination and liveness: parsers,
  requeues and drains end, a starved bucket recovers. Where the code does not do what it means to, the property states
  what it does (the translated IPv4 form passes the address check, contract pages skip rows,
  aborted connections stay counted, ...), and the remaining such facts are lemmas beside the component.

  \<^bold>\<open>Interfaces.\<close> \<open>credit_limiter\<close> (Limiter_Budget) is interpreted by the token bucket with and without a limit,
  \<open>cache_store\<close> by the LRU map, \<open>nonce_store\<close> by the nonce table, \<open>alert_sink\<close> by the alert manager,
  \<open>auth_frame\<close> (what a request to /api/auth leaves alone) by the revoked sessions, by an account nobody proved and by the
  holdings of an account, and \<open>guarded_runs\<close> (Runs) by the runs of sessions, of the configuration, of the code verification, of the
  specification cache, of the webhooks, of the rooms and of the dead letter queue; the
  properties of those components rest on the facts of the interpretations.

  \<^bold>\<open>Numbers, text, fuel.\<close> Numbers are exact rationals or integers, with NaN and the infinities where the code can meet
  them: rounding of doubles is not modelled, and where a product of a limit and a fraction is rounded the theory says for which
  limits the exact value is the one computed. BigInts are \<open>int\<close>; bitwise operators work on 32-bit words, shifts
  modulo 32. Strings are lists of characters; the texts the code builds and compares are ASCII. Recursion is
  structural or has a termination measure, except the filter parser, whose fuel (the number of tokens, more than it
  consumes) is shown to be enough, and the bounded retry and redirect loops, whose bound is the code's own.

  \<^bold>\<open>Parameters.\<close> What is not under src/ is an argument: SHA-256, HMAC and random bytes, the Redis server, the
  replies of RPC nodes, the XDR codec, the GraphQL, SQL and URL parsers, JSON.parse and JSON.stringify, DNS, the servers of
  outbound calls, the outcomes of handlers, the time. What a theorem assumes of one is a named hypothesis and is
  met by a concrete function in its witness.

  \<^bold>\<open>Not modelled.\<close> The Express routes, resolvers and start-up code (wiring of the components above), the SQL statements of
  db.js beyond the ones named, the decoders and parsers of XDR values (readers of objects of the Stellar SDK),
  the rendering of reports, the WebSocket servers of the live feeds, metrics, the web
  frontend, the client packages, and the Rust contracts, which are outside the indexer.

  \<^bold>\<open>Order of extension.\<close> Next are usage accounting, moderation and abuse scores, then replay digests and audit reports, then the detectors
  over stored events, and the validation and paging of the routes that are not modelled.
\<close>

end
